(* ===== verification/Prelude.thy ===== *)
theory Prelude
  imports Main "HOL-Library.Word" "HOL-Library.Monad_Syntax" "HOL-Library.FSet"
    "HOL-Library.Finite_Map"
begin

text \<open>
  Shared vocabulary of the development.

  \<^item> Rust's signed coordinates (\<open>i32\<close>, \<open>i64\<close>) are \<open>int\<close> values; every place where the code
    computes in a fixed width goes through \<open>wrap_i32\<close> or \<open>wrap_i64\<close>, which keep the low bits
    as two's complement (what a release build and an \<open>as\<close> cast do).  \<open>in_i32\<close> and \<open>in_i64\<close> say
    that a value is representable.
  \<^item> Rust's bit containers (\<open>u8\<close>, \<open>u32\<close>, \<open>u64\<close>) are words; \<open>usize\<close> and small \<open>u8\<close> levels are
    \<open>nat\<close>, with saturation and width-8 subtraction written out.
  \<^item> A panic (failed assertion, index out of bounds, \<open>unwrap\<close> of nothing) is \<open>None\<close> of
    \<open>'a option\<close>; a function that can panic returns an option and is composed with the option
    monad.
  \<^item> \<open>BTreeSet\<close> and \<open>HashSet\<close> are \<open>'a fset\<close>, \<open>BTreeMap\<close> and \<open>HashMap\<close> are \<open>('k, 'v) fmap\<close>;
    iteration is in key order.
\<close>

unbundle bit_operations_syntax

named_theorems width_simps \<open>facts that remove wrap-around on representable values\<close>
named_theorems model_simps \<open>unfolding equations of the small operations of the model\<close>

type_synonym u8 = "8 word"
type_synonym u32 = "32 word"
type_synonym u64 = "64 word"

section \<open>Signed machine integers\<close>

definition wrap_i32 :: "int \<Rightarrow> int" where
  "wrap_i32 x = signed_take_bit 31 x"

definition wrap_i64 :: "int \<Rightarrow> int" where
  "wrap_i64 x = signed_take_bit 63 x"

definition in_i32 :: "int \<Rightarrow> bool" where
  "in_i32 x \<longleftrightarrow> - (2 ^ 31) \<le> x \<and> x < 2 ^ 31"

definition in_i64 :: "int \<Rightarrow> bool" where
  "in_i64 x \<longleftrightarrow> - (2 ^ 63) \<le> x \<and> x < 2 ^ 63"

abbreviation (input) i32_max :: int where "i32_max \<equiv> 2147483647"
abbreviation (input) i32_min :: int where "i32_min \<equiv> - 2147483648"
abbreviation (input) i64_max :: int where "i64_max \<equiv> 9223372036854775807"

lemma wrap_i32_id [width_simps]: "in_i32 x \<Longrightarrow> wrap_i32 x = x"
  by (simp add: wrap_i32_def in_i32_def signed_take_bit_int_eq_self)

lemma wrap_i64_id [width_simps]: "in_i64 x \<Longrightarrow> wrap_i64 x = x"
  by (simp add: wrap_i64_def in_i64_def signed_take_bit_int_eq_self)

lemma in_i32_wrap [simp, intro]: "in_i32 (wrap_i32 x)"
  unfolding wrap_i32_def in_i32_def
  using signed_take_bit_int_less_exp [of 31 x] signed_take_bit_int_greater_eq_minus_exp [of 31 x]
  by simp

lemma in_i64_wrap [simp, intro]: "in_i64 (wrap_i64 x)"
  unfolding wrap_i64_def in_i64_def
  using signed_take_bit_int_less_exp [of 63 x] signed_take_bit_int_greater_eq_minus_exp [of 63 x]
  by simp

lemma wrap_i32_idem [simp]: "wrap_i32 (wrap_i32 x) = wrap_i32 x"
  by (simp add: width_simps)

lemma wrap_i32_mod_cong:
  assumes "n \<le> 32" and "x mod 2 ^ n = y mod 2 ^ n"
  shows "wrap_i32 x mod 2 ^ n = y mod 2 ^ n"
proof -
  have "take_bit n (signed_take_bit 31 x) = take_bit n x"
    using assms(1) by (simp add: take_bit_signed_take_bit)
  then show ?thesis
    using assms(2) by (simp add: wrap_i32_def take_bit_eq_mod)
qed

text \<open>Rust's truncating division and remainder on signed integers.\<close>

definition rust_div :: "int \<Rightarrow> int \<Rightarrow> int" where
  "rust_div a b = sgn a * sgn b * (\<bar>a\<bar> div \<bar>b\<bar>)"

definition rust_rem :: "int \<Rightarrow> int \<Rightarrow> int" where
  "rust_rem a b = sgn a * (\<bar>a\<bar> mod \<bar>b\<bar>)"

lemma rust_rem_zero_iff: "rust_rem a b = 0 \<longleftrightarrow> b dvd a"
  by (auto simp: rust_rem_def sgn_if dvd_eq_mod_eq_0 [symmetric])

lemma rust_div_nonneg [simp]: "0 \<le> a \<Longrightarrow> 0 < b \<Longrightarrow> rust_div a b = a div b"
  by (cases "a = 0") (simp_all add: rust_div_def)

lemma rust_div_exact:
  assumes "b dvd a" and "0 < b"
  shows "rust_div a b = a div b"
proof -
  obtain k where k: "a = b * k" using assms(1) by (elim dvdE)
  show ?thesis
    using assms(2) by (simp add: rust_div_def k abs_mult sgn_mult sgn_mult_abs)
qed

text \<open>\<open>rem_euclid\<close> panics on a zero divisor.\<close>

definition rem_euclid :: "int \<Rightarrow> int \<Rightarrow> int option" where
  "rem_euclid a b = (if b = 0 then None else Some (a mod \<bar>b\<bar>))"

lemma rem_euclid_pos [simp]: "0 < b \<Longrightarrow> rem_euclid a b = Some (a mod b)"
  by (simp add: rem_euclid_def)

lemma in_i32I: "- 2147483648 \<le> x \<Longrightarrow> x \<le> 2147483647 \<Longrightarrow> in_i32 x"
  by (simp add: in_i32_def)

lemma in_i32D: "in_i32 x \<Longrightarrow> - 2147483648 \<le> x \<and> x \<le> 2147483647"
  by (simp add: in_i32_def)

section \<open>Small unsigned levels\<close>

definition sat_add_u8 :: "nat \<Rightarrow> nat \<Rightarrow> nat" where
  "sat_add_u8 a b = min 255 (a + b)"

text \<open>Width-8 subtraction of a release build; it never wraps where the code uses it.\<close>

definition sub_u8 :: "nat \<Rightarrow> nat \<Rightarrow> nat" where
  "sub_u8 a b = (if b \<le> a then a - b else a + 256 - b)"

lemma sub_u8_le [simp]: "b \<le> a \<Longrightarrow> sub_u8 a b = a - b"
  by (simp add: sub_u8_def)

section \<open>Assertions and vectors\<close>

definition assert_that :: "bool \<Rightarrow> unit option" where
  "assert_that b = (if b then Some () else None)"

lemma assert_that_simps [simp]:
  "assert_that True = Some ()" "assert_that False = None"
  "assert_that b = Some u \<longleftrightarrow> b" "assert_that b = None \<longleftrightarrow> \<not> b"
  by (simp_all add: assert_that_def)

text \<open>Indexing a vector panics outside its bounds.\<close>

definition vec_get :: "'a list \<Rightarrow> nat \<Rightarrow> 'a option" where
  "vec_get xs i = (if i < length xs then Some (xs ! i) else None)"

definition vec_set :: "'a list \<Rightarrow> nat \<Rightarrow> 'a \<Rightarrow> 'a list option" where
  "vec_set xs i x = (if i < length xs then Some (xs[i := x]) else None)"

lemma vec_get_Some [simp]: "vec_get xs i = Some x \<longleftrightarrow> i < length xs \<and> xs ! i = x"
  by (simp add: vec_get_def)

lemma vec_set_Some [simp]: "vec_set xs i x = Some ys \<longleftrightarrow> i < length xs \<and> ys = xs[i := x]"
  by (auto simp: vec_set_def)

definition div_ceil :: "nat \<Rightarrow> nat \<Rightarrow> nat" where
  "div_ceil a b = a div b + (if a mod b = 0 then 0 else 1)"

lemma div_less_div_ceil:
  assumes "i < n" and "0 < b"
  shows "i div b < div_ceil n b"
proof (cases "n mod b = 0")
  case True
  then have "n = n div b * b" by (metis add.right_neutral div_mult_mod_eq)
  with assms show ?thesis
    by (simp add: div_ceil_def True) (metis less_mult_imp_div_less)
next
  case False
  have "i div b \<le> n div b" using assms(1) by (intro div_le_mono) simp
  with False show ?thesis by (simp add: div_ceil_def)
qed

lemma bind_eq_Some [simp]: "x \<bind> f = Some z \<longleftrightarrow> (\<exists>y. x = Some y \<and> f y = Some z)"
  by (rule bind_eq_Some_conv)

lemma unat_of_nat_u32: "n < 2 ^ 32 \<Longrightarrow> unat (of_nat n :: u32) = n"
  by (simp add: unsigned_of_nat take_bit_nat_eq_self)

lemma those_map_Some [simp]: "those (map Some xs) = Some xs"
  by (induction xs) simp_all

end
