(* ===== verification/IndexedStore.thy ===== *)
theory IndexedStore imports Prelude
begin

text \<open>
  The interface of a fixed-size array of small values packed into wider cells, as the palette
  storage (\<open>BitStorage\<close>) and the light nibble arrays (\<open>DataLayer\<close>) both provide it: reads and
  writes at an index, defined exactly inside the bounds.  What a client needs is proved once here:
  a loop that writes a list of values leaves exactly that list to be read.
\<close>

text \<open>\<open>for (index, value) in values.into_iter().enumerate() { storage.set(index, value) }\<close>\<close>

fun store_from :: "('s \<Rightarrow> nat \<Rightarrow> 'v \<Rightarrow> 's option) \<Rightarrow> nat \<Rightarrow> 'v list \<Rightarrow> 's \<Rightarrow> 's option" where
  "store_from wr i [] s = Some s"
| "store_from wr i (v # vs) s = do { s' \<leftarrow> wr s i v; store_from wr (Suc i) vs s' }"

locale indexed_store =
  fixes wf :: "'s \<Rightarrow> bool"
    and slots :: "'s \<Rightarrow> nat"
    and fits :: "'s \<Rightarrow> 'v \<Rightarrow> bool"
    and rd :: "'s \<Rightarrow> nat \<Rightarrow> 'v option"
    and wr :: "'s \<Rightarrow> nat \<Rightarrow> 'v \<Rightarrow> 's option"
  assumes rd_defined: "wf s \<Longrightarrow> i < slots s \<Longrightarrow> \<exists>v. rd s i = Some v \<and> fits s v"
    and rd_bounds: "wf s \<Longrightarrow> slots s \<le> i \<Longrightarrow> rd s i = None"
    and wr_defined: "wf s \<Longrightarrow> i < slots s \<Longrightarrow> fits s v \<Longrightarrow> \<exists>s'. wr s i v = Some s'"
    and wr_bounds: "wf s \<Longrightarrow> slots s \<le> i \<Longrightarrow> wr s i v = None"
    and wr_wf: "wf s \<Longrightarrow> wr s i v = Some s' \<Longrightarrow> wf s'"
    and wr_slots: "wf s \<Longrightarrow> wr s i v = Some s' \<Longrightarrow> slots s' = slots s"
    and wr_fits: "wf s \<Longrightarrow> wr s i v = Some s' \<Longrightarrow> fits s' = fits s"
    and rd_wr_same: "wf s \<Longrightarrow> fits s v \<Longrightarrow> wr s i v = Some s' \<Longrightarrow> rd s' i = Some v"
    and rd_wr_other: "wf s \<Longrightarrow> wr s i v = Some s' \<Longrightarrow> j \<noteq> i \<Longrightarrow> rd s' j = rd s j"
begin

lemma wr_in_bounds: "wf s \<Longrightarrow> wr s i v = Some s' \<Longrightarrow> i < slots s"
  using wr_bounds [of s i v] by (cases "i < slots s") auto

lemma store_from_defined:
  "wf s \<Longrightarrow> i + length vs \<le> slots s \<Longrightarrow> \<forall>v\<in>set vs. fits s v
    \<Longrightarrow> \<exists>s'. store_from wr i vs s = Some s'"
proof (induction vs arbitrary: i s)
  case Nil
  then show ?case by simp
next
  case (Cons v vs)
  then obtain s1 where s1: "wr s i v = Some s1"
    using wr_defined [of s i v] by auto
  then show ?case
    using Cons wr_wf [OF _ s1] wr_slots [OF _ s1] wr_fits [OF _ s1] by simp
qed

lemma store_from_frame:
  "wf s \<Longrightarrow> store_from wr i vs s = Some s'
    \<Longrightarrow> wf s' \<and> slots s' = slots s \<and> fits s' = fits s \<and> (\<forall>j<i. rd s' j = rd s j)
        \<and> (\<forall>j\<ge>i + length vs. rd s' j = rd s j)"
proof (induction vs arbitrary: i s)
  case Nil
  then show ?case by simp
next
  case (Cons v vs)
  then obtain s1 where s1: "wr s i v = Some s1" and rest: "store_from wr (Suc i) vs s1 = Some s'"
    by auto
  have ih: "wf s' \<and> slots s' = slots s1 \<and> fits s' = fits s1 \<and> (\<forall>j<Suc i. rd s' j = rd s1 j)
        \<and> (\<forall>j\<ge>Suc i + length vs. rd s' j = rd s1 j)"
    using Cons.IH [OF wr_wf [OF Cons.prems(1) s1] rest] .
  then show ?case
    using wr_slots [OF Cons.prems(1) s1] wr_fits [OF Cons.prems(1) s1]
      rd_wr_other [OF Cons.prems(1) s1] by simp
qed

lemma store_from_reads:
  "wf s \<Longrightarrow> \<forall>v\<in>set vs. fits s v \<Longrightarrow> store_from wr i vs s = Some s' \<Longrightarrow> k < length vs
    \<Longrightarrow> rd s' (i + k) = Some (vs ! k)"
proof (induction vs arbitrary: i s k)
  case Nil
  then show ?case by simp
next
  case (Cons v vs)
  then obtain s1 where s1: "wr s i v = Some s1" and rest: "store_from wr (Suc i) vs s1 = Some s'"
    by auto
  note wf1 = wr_wf [OF Cons.prems(1) s1]
  show ?case
  proof (cases k)
    case 0
    then show ?thesis
      using store_from_frame [OF wf1 rest] rd_wr_same [OF Cons.prems(1) _ s1] Cons.prems(2) by simp
  next
    case (Suc m)
    then show ?thesis
      using Cons.IH [OF wf1 _ rest, of m] Cons.prems wr_fits [OF Cons.prems(1) s1] by simp
  qed
qed

text \<open>Writing a full list of fitting values and reading every slot gives the list back.\<close>

lemma store_all_roundtrip:
  assumes "wf s" and "length vs = slots s" and "\<forall>v\<in>set vs. fits s v"
  shows "\<exists>s'. store_from wr 0 vs s = Some s' \<and> wf s' \<and> slots s' = slots s
    \<and> map (rd s') [0..<slots s'] = map Some vs"
proof -
  obtain s' where s': "store_from wr 0 vs s = Some s'"
    using store_from_defined [of s 0 vs] assms by auto
  have frame: "wf s' \<and> slots s' = slots s" using store_from_frame [OF assms(1) s'] by simp
  have "rd s' k = Some (vs ! k)" if "k < length vs" for k
    using store_from_reads [OF assms(1,3) s' that] by simp
  then have "map (rd s') [0..<slots s'] = map Some vs"
    using frame assms(2) by (intro nth_equalityI) auto
  with s' frame show ?thesis by blast
qed

end

end
