(* ===== verification/CoreBits.thy ===== *)
theory CoreBits imports IndexedStore
begin

text \<open>
  The palette bit storage of \<open>native/crates/mclone-core/src/bit_storage.rs\<close>: values of
  \<open>bits\<close> bits packed into 64-bit words, no value crossing a word.  The record has the struct's
  fields; \<open>BitStorage::new\<close>, \<open>from_raw\<close>, \<open>get\<close>, \<open>set\<close>, \<open>get_and_set\<close> and \<open>get_all\<close> are the
  definitions \<open>bit_storage_new\<close> and so on, with every assertion a branch.
\<close>

record bit_storage =
  bs_bits :: nat
  bs_size :: nat
  bs_values_per_word :: nat
  bs_mask :: u64
  bs_data :: "u64 list"

definition validate_bits :: "nat \<Rightarrow> nat option" where
  "validate_bits bits = do {
     assert_that (1 \<le> bits \<and> bits \<le> 32);
     Some (64 div bits)
   }"

definition bit_storage_new :: "nat \<Rightarrow> nat \<Rightarrow> bit_storage option" where
  "bit_storage_new bits sz = do {
     values_per_word \<leftarrow> validate_bits bits;
     let word_count = div_ceil sz values_per_word;
     Some \<lparr>bs_bits = bits, bs_size = sz, bs_values_per_word = values_per_word,
           bs_mask = push_bit bits 1 - 1, bs_data = replicate word_count 0\<rparr>
   }"

definition bit_storage_from_raw :: "nat \<Rightarrow> nat \<Rightarrow> u64 list \<Rightarrow> bit_storage option" where
  "bit_storage_from_raw bits sz data = do {
     values_per_word \<leftarrow> validate_bits bits;
     let expected_word_count = div_ceil sz values_per_word;
     assert_that (length data = expected_word_count);
     Some \<lparr>bs_bits = bits, bs_size = sz, bs_values_per_word = values_per_word,
           bs_mask = push_bit bits 1 - 1, bs_data = data\<rparr>
   }"

definition bit_storage_raw :: "bit_storage \<Rightarrow> u64 list" where
  "bit_storage_raw s = bs_data s"

definition bit_storage_get :: "bit_storage \<Rightarrow> nat \<Rightarrow> u32 option" where
  "bit_storage_get s index = do {
     assert_that (index < bs_size s);
     let word_index = index div bs_values_per_word s;
     let bit_index = (index - word_index * bs_values_per_word s) * bs_bits s;
     word \<leftarrow> vec_get (bs_data s) word_index;
     Some (ucast (drop_bit bit_index word AND bs_mask s))
   }"

definition bit_storage_set :: "bit_storage \<Rightarrow> nat \<Rightarrow> u32 \<Rightarrow> bit_storage option" where
  "bit_storage_set s index value = do {
     assert_that (index < bs_size s);
     assert_that ((ucast value :: u64) \<le> bs_mask s);
     let word_index = index div bs_values_per_word s;
     let bit_index = (index - word_index * bs_values_per_word s) * bs_bits s;
     word \<leftarrow> vec_get (bs_data s) word_index;
     let cleared = word AND NOT (push_bit bit_index (bs_mask s));
     data \<leftarrow> vec_set (bs_data s) word_index
       (cleared OR push_bit bit_index (ucast value AND bs_mask s));
     Some (s\<lparr>bs_data := data\<rparr>)
   }"

definition bit_storage_get_and_set ::
  "bit_storage \<Rightarrow> nat \<Rightarrow> u32 \<Rightarrow> (u32 \<times> bit_storage) option" where
  "bit_storage_get_and_set s index value = do {
     previous \<leftarrow> bit_storage_get s index;
     s' \<leftarrow> bit_storage_set s index value;
     Some (previous, s')
   }"

text \<open>The two loops of \<open>get_all\<close>: the values of one word, stopping at \<open>size\<close>, and all words.\<close>

fun gather_word :: "bit_storage \<Rightarrow> nat \<Rightarrow> u64 \<Rightarrow> u32 list \<Rightarrow> u32 list" where
  "gather_word s 0 remaining vals = vals"
| "gather_word s (Suc n) remaining vals =
     (if bs_size s \<le> length vals then vals
      else gather_word s n (drop_bit (bs_bits s) remaining)
             (vals @ [ucast (remaining AND bs_mask s)]))"

fun gather_words :: "bit_storage \<Rightarrow> u64 list \<Rightarrow> u32 list \<Rightarrow> u32 list" where
  "gather_words s [] vals = vals"
| "gather_words s (word # ws) vals =
     gather_words s ws (gather_word s (bs_values_per_word s) word vals)"

definition bit_storage_get_all :: "bit_storage \<Rightarrow> u32 list" where
  "bit_storage_get_all s = gather_words s (bs_data s) []"

text \<open>
  \<open>palette_bits_for\<close> computes \<open>usize::BITS - leading_zeros(n - 1)\<close>, the number of bits of
  \<open>n - 1\<close>, for a 64-bit \<open>usize\<close>.
\<close>

definition leading_zeros :: "u64 \<Rightarrow> nat" where
  "leading_zeros w = length (takeWhile Not (map (bit w) (rev [0..<64])))"

definition palette_bits_for :: "nat \<Rightarrow> nat option" where
  "palette_bits_for palette_size = do {
     assert_that (1 \<le> palette_size);
     if palette_size \<le> 1 then Some 1
     else Some (64 - leading_zeros (of_nat (palette_size - 1)))
   }"

definition local_palette_bits_for :: "nat \<Rightarrow> nat option" where
  "local_palette_bits_for palette_size = do {
     bits \<leftarrow> palette_bits_for palette_size;
     Some (max bits 4)
   }"

section \<open>Well-formed storages\<close>

definition bs_wf :: "bit_storage \<Rightarrow> bool" where
  "bs_wf s \<longleftrightarrow> 1 \<le> bs_bits s \<and> bs_bits s \<le> 32 \<and> bs_values_per_word s = 64 div bs_bits s
     \<and> bs_mask s = mask (bs_bits s) \<and> length (bs_data s) = div_ceil (bs_size s) (bs_values_per_word s)"

definition bs_fits :: "bit_storage \<Rightarrow> u32 \<Rightarrow> bool" where
  "bs_fits s v \<longleftrightarrow> unat v < 2 ^ bs_bits s"

lemma bit_storage_new_wf: "bit_storage_new bits sz = Some s \<Longrightarrow> bs_wf s \<and> bs_size s = sz \<and> bs_bits s = bits"
  by (auto simp: bit_storage_new_def validate_bits_def bs_wf_def Let_def mask_eq_exp_minus_1)

lemma bit_storage_from_raw_wf:
  "bit_storage_from_raw bits sz data = Some s
    \<Longrightarrow> bs_wf s \<and> bs_size s = sz \<and> bs_bits s = bits \<and> bs_data s = data"
  by (auto simp: bit_storage_from_raw_def validate_bits_def bs_wf_def Let_def mask_eq_exp_minus_1)

lemma values_per_word_pos: "bs_wf s \<Longrightarrow> 0 < bs_values_per_word s"
  by (auto simp: bs_wf_def div_greater_zero_iff)

lemma word_index_in_bounds:
  "bs_wf s \<Longrightarrow> i < bs_size s \<Longrightarrow> i div bs_values_per_word s < length (bs_data s)"
  using div_less_div_ceil [of i "bs_size s" "bs_values_per_word s"] values_per_word_pos [of s]
  by (simp add: bs_wf_def)

text \<open>The slot of an index inside its word ends at or below bit 64, and slots are disjoint.\<close>

lemma slot_in_word:
  assumes "bs_wf s"
  shows "(i mod bs_values_per_word s) * bs_bits s + bs_bits s \<le> 64"
proof -
  let ?v = "bs_values_per_word s"
  have "i mod ?v + 1 \<le> ?v" using values_per_word_pos [OF assms] by (simp add: Suc_le_eq)
  then have "(i mod ?v + 1) * bs_bits s \<le> ?v * bs_bits s" by (rule mult_le_mono1)
  also have "\<dots> \<le> 64" using assms by (simp add: bs_wf_def)
  finally show ?thesis by simp
qed

lemma bit_index_eq: "(i - i div v * v) * b = (i mod v) * (b :: nat)"
  by (simp add: minus_div_mult_eq_mod)

lemma slots_disjoint:
  assumes "(k :: nat) \<noteq> l" and "n < b"
  shows "\<not> (l * b \<le> k * b + n \<and> k * b + n - l * b < b)"
proof (cases "k < l")
  case True
  then have "Suc k * b \<le> l * b" by (intro mult_le_mono1) simp
  with assms show ?thesis by simp
next
  case False
  with assms(1) have "Suc l * b \<le> k * b" by (intro mult_le_mono1) simp
  with assms show ?thesis by simp
qed

lemma bit_storage_get_eq:
  assumes "bs_wf s" and "i < bs_size s"
  shows "bit_storage_get s i = Some (ucast (drop_bit ((i mod bs_values_per_word s) * bs_bits s)
           (bs_data s ! (i div bs_values_per_word s)) AND mask (bs_bits s)))"
  using assms word_index_in_bounds [OF assms]
  by (simp add: bit_storage_get_def Let_def bit_index_eq vec_get_def bs_wf_def)

lemma unat_ucast_u32: "unat (ucast (v :: u32) :: u64) = unat v"
proof -
  have "unat v < 2 ^ LENGTH(32)" by (rule unsigned_less)
  then show ?thesis by (simp add: unsigned_ucast_eq take_bit_nat_eq_self)
qed

lemma unat_mask_u64: "b \<le> 64 \<Longrightarrow> unat (mask b :: u64) = 2 ^ b - 1"
  using uint_mask_eq [of b, where 'a = 64]
  by (simp add: unat_eq_nat_uint min_def mask_eq_exp_minus_1 nat_diff_distrib nat_power_eq del: uint_mask_eq)

lemma bit_below_bound:
  assumes "unat (v :: 'a::len word) < 2 ^ b" and "bit v n"
  shows "n < b"
proof -
  have "take_bit b (unat v) = unat v" using assms(1) by (simp add: take_bit_nat_eq_self)
  moreover have "bit (unat v) n" using assms(2) by (simp add: bit_unsigned_iff)
  ultimately have "bit (take_bit b (unat v)) n" by simp
  then show ?thesis by (simp add: bit_take_bit_iff)
qed

lemma bit_storage_set_eq:
  assumes "bs_wf s" and "i < bs_size s" and "bs_fits s v"
  shows "bit_storage_set s i v = Some (s\<lparr>bs_data := (bs_data s)[i div bs_values_per_word s :=
           (bs_data s ! (i div bs_values_per_word s)
              AND NOT (push_bit ((i mod bs_values_per_word s) * bs_bits s) (mask (bs_bits s))))
           OR push_bit ((i mod bs_values_per_word s) * bs_bits s) (ucast v AND mask (bs_bits s))]\<rparr>)"
proof -
  have "unat (ucast v :: u64) = unat v" by (rule unat_ucast_u32)
  moreover have "bs_bits s \<le> 64" using assms(1) by (simp add: bs_wf_def)
  ultimately have "(ucast v :: u64) \<le> mask (bs_bits s)"
    using assms(3) by (simp add: bs_fits_def word_le_nat_alt unat_mask_u64 unat_ucast_u32)
  then show ?thesis
    using assms word_index_in_bounds [OF assms(1,2)]
    by (simp add: bit_storage_set_def Let_def bit_index_eq vec_get_def vec_set_def bs_wf_def)
qed

lemma slot_write_read_bit:
  fixes w v :: u64
  assumes "k * b + b \<le> 64" and "l * b + b \<le> 64"
  shows "drop_bit (k * b) ((w AND NOT (push_bit (l * b) (mask b))) OR push_bit (l * b) (v AND mask b))
           AND mask b
         = (if k = l then v AND mask b else drop_bit (k * b) w AND mask b)"
proof (rule bit_word_eqI)
  fix n :: nat
  assume "n < LENGTH(64)"
  show "bit (drop_bit (k * b) ((w AND NOT (push_bit (l * b) (mask b))) OR push_bit (l * b) (v AND mask b))
           AND mask b) n
        = bit (if k = l then v AND mask b else drop_bit (k * b) w AND mask b) n"
  proof (cases "n < b")
    case True
    have "k \<noteq> l \<Longrightarrow> \<not> (l * b \<le> k * b + n \<and> k * b + n - l * b < b)"
      by (rule slots_disjoint [OF _ True])
    with True assms show ?thesis by (auto simp: bit_simps)
  qed (simp add: bit_simps)
qed

lemma ucast_slot_roundtrip:
  fixes v :: u32
  assumes "unat v < 2 ^ b" and "b \<le> 32"
  shows "(ucast ((ucast v :: u64) AND mask b) :: u32) = v"
proof -
  have "bit v n \<Longrightarrow> n < b" for n by (rule bit_below_bound [OF assms(1)])
  then show ?thesis by (intro bit_word_eqI) (auto simp: bit_simps)
qed

lemma bit_storage_set_Some:
  assumes "bs_wf s" and "bit_storage_set s i v = Some s'"
  shows "i < bs_size s \<and> bs_fits s v \<and> s' = s\<lparr>bs_data := bs_data s'\<rparr>
    \<and> length (bs_data s') = length (bs_data s)"
proof -
  from assms(2) have i: "i < bs_size s" and le: "(ucast v :: u64) \<le> bs_mask s"
    and s': "s' = s\<lparr>bs_data := bs_data s'\<rparr>" and len: "length (bs_data s') = length (bs_data s)"
    by (auto simp: bit_storage_set_def Let_def)
  have "bs_bits s \<le> 64" using assms(1) by (simp add: bs_wf_def)
  then have "unat v \<le> 2 ^ bs_bits s - 1"
    using le assms(1)
    by (simp add: bs_wf_def word_le_nat_alt unat_ucast_u32 unat_mask_u64)
  then have "bs_fits s v" by (simp add: bs_fits_def Suc_le_eq le_less_trans less_Suc_eq_le [symmetric])
  with i s' len show ?thesis by simp
qed

lemma bit_storage_set_wf: "bs_wf s \<Longrightarrow> bit_storage_set s i v = Some s' \<Longrightarrow> bs_wf s'"
  using bit_storage_set_Some [of s i v s'] unfolding bs_wf_def
  by (metis bit_storage.select_convs(1-4) bit_storage.surjective bit_storage.update_convs(5))

lemma bit_storage_get_set:
  assumes "bs_wf s" and "bit_storage_set s i v = Some s'"
  shows "bit_storage_get s' j = (if j = i then Some v else bit_storage_get s j)"
proof -
  let ?v = "bs_values_per_word s" and ?b = "bs_bits s"
  have i: "i < bs_size s" and fits: "bs_fits s v"
    using bit_storage_set_Some [OF assms] by auto
  have s': "s' = s\<lparr>bs_data := (bs_data s)[i div ?v :=
      (bs_data s ! (i div ?v) AND NOT (push_bit ((i mod ?v) * ?b) (mask ?b)))
      OR push_bit ((i mod ?v) * ?b) (ucast v AND mask ?b)]\<rparr>"
    using assms(2) bit_storage_set_eq [OF assms(1) i fits] by simp
  have wf': "bs_wf s'" by (rule bit_storage_set_wf [OF assms])
  have sz: "bs_size s' = bs_size s" "bs_values_per_word s' = ?v" "bs_bits s' = ?b"
    by (simp_all add: s')
  show ?thesis
  proof (cases "j < bs_size s")
    case False
    then show ?thesis using i sz(1) by (simp add: bit_storage_get_def)
  next
    case True
    have slot: "drop_bit ((j mod ?v) * ?b) (bs_data s' ! (j div ?v)) AND mask ?b
      = (if j = i then ucast v AND mask ?b
         else drop_bit ((j mod ?v) * ?b) (bs_data s ! (j div ?v)) AND mask ?b)"
    proof (cases "j div ?v = i div ?v")
      case same: True
      have "j mod ?v = i mod ?v \<longleftrightarrow> j = i" using same by (metis div_mult_mod_eq)
      then show ?thesis
        using slot_write_read_bit [OF slot_in_word [OF assms(1), of j] slot_in_word [OF assms(1), of i]]
          word_index_in_bounds [OF assms(1) i] by (simp add: s' same)
    next
      case False
      then show ?thesis by (auto simp: s')
    qed
    have "bs_bits s \<le> 32" using assms(1) by (simp add: bs_wf_def)
    then show ?thesis
      using True i fits slot bit_storage_get_eq [OF wf', of j] bit_storage_get_eq [OF assms(1) True]
        ucast_slot_roundtrip [of v ?b] by (simp add: sz bs_fits_def)
  qed
qed

lemma bit_storage_get_fits:
  assumes "bs_wf s" and "i < bs_size s"
  shows "\<exists>v. bit_storage_get s i = Some v \<and> bs_fits s v"
proof -
  have b: "bs_bits s \<le> 32" using assms(1) by (simp add: bs_wf_def)
  have "unat (ucast (w AND mask (bs_bits s)) :: u32) < 2 ^ bs_bits s" for w :: u64
  proof -
    have "unat (w AND mask (bs_bits s)) < 2 ^ bs_bits s"
      by (simp add: take_bit_eq_mask [symmetric] unsigned_take_bit_eq)
    moreover have "unat (ucast (w AND mask (bs_bits s)) :: u32) \<le> unat (w AND mask (bs_bits s))"
      by (simp add: unsigned_ucast_eq take_bit_nat_less_eq_self)
    ultimately show ?thesis by simp
  qed
  then show ?thesis using bit_storage_get_eq [OF assms] by (simp add: bs_fits_def)
qed

text \<open>The storage provides the array interface, at every width.\<close>

interpretation palette: indexed_store "\<lambda>s. bs_wf s \<and> bs_bits s = b" bs_size bs_fits
  bit_storage_get bit_storage_set
  for b
proof unfold_locales
  fix s i v s' j
  assume wf: "bs_wf s \<and> bs_bits s = b"
  then show "i < bs_size s \<Longrightarrow> \<exists>v. bit_storage_get s i = Some v \<and> bs_fits s v"
    by (simp add: bit_storage_get_fits)
  show "bs_size s \<le> i \<Longrightarrow> bit_storage_get s i = None"
    by (simp add: bit_storage_get_def)
  show "i < bs_size s \<Longrightarrow> bs_fits s v \<Longrightarrow> \<exists>s'. bit_storage_set s i v = Some s'"
    using wf by (simp add: bit_storage_set_eq)
  show "bs_size s \<le> i \<Longrightarrow> bit_storage_set s i v = None"
    by (simp add: bit_storage_set_def)
  assume set: "bit_storage_set s i v = Some s'"
  have s': "s' = s\<lparr>bs_data := bs_data s'\<rparr>" using bit_storage_set_Some [OF _ set] wf by simp
  have sz: "bs_size s' = bs_size s" and bits: "bs_bits s' = bs_bits s"
    by (subst s', simp)+
  show "bs_wf s' \<and> bs_bits s' = b" using bit_storage_set_wf [OF _ set] wf bits by simp
  show "bs_size s' = bs_size s" by (rule sz)
  show "bs_fits s' = bs_fits s" by (simp add: bs_fits_def fun_eq_iff bits)
  show "bs_fits s v \<Longrightarrow> bit_storage_get s' i = Some v"
    using bit_storage_get_set [OF _ set] wf by simp
  show "j \<noteq> i \<Longrightarrow> bit_storage_get s' j = bit_storage_get s j"
    using bit_storage_get_set [OF _ set] wf by simp
qed

section \<open>Reading everything at once\<close>

lemma gather_word_eq:
  "length vals \<le> bs_size s \<Longrightarrow> gather_word s n rem vals
     = vals @ map (\<lambda>k. ucast (drop_bit (k * bs_bits s) rem AND bs_mask s))
         [0..<min n (bs_size s - length vals)]"
proof (induction n arbitrary: rem vals)
  case 0
  then show ?case by simp
next
  case (Suc n)
  show ?case
  proof (cases "bs_size s \<le> length vals")
    case True
    with Suc.prems show ?thesis by simp
  next
    case False
    then obtain m where m: "bs_size s - length vals = Suc m" by (cases "bs_size s - length vals") auto
    then have m': "bs_size s - Suc (length vals) = m" by simp
    have up: "[0..<Suc (min n m)] = 0 # map Suc [0..<min n m]"
      by (simp add: upt_conv_Cons map_Suc_upt del: upt_Suc)
    show ?thesis using False Suc.prems Suc.IH [of "vals @ [ucast (rem AND bs_mask s)]"]
      by (simp add: m m' up drop_bit_drop_bit add.commute o_def del: upt_Suc)
  qed
qed

definition slot_value :: "bit_storage \<Rightarrow> nat \<Rightarrow> u32" where
  "slot_value s i = ucast (drop_bit ((i mod bs_values_per_word s) * bs_bits s)
     (bs_data s ! (i div bs_values_per_word s)) AND bs_mask s)"

lemma get_slot_value: "bs_wf s \<Longrightarrow> i < bs_size s \<Longrightarrow> bit_storage_get s i = Some (slot_value s i)"
  by (simp add: bit_storage_get_eq slot_value_def) (simp add: bs_wf_def)

lemma gather_words_eq:
  assumes "bs_wf s"
  shows "ws = drop m (bs_data s) \<Longrightarrow> m \<le> length (bs_data s)
    \<Longrightarrow> vals = map (slot_value s) [0..<min (bs_size s) (m * bs_values_per_word s)]
    \<Longrightarrow> gather_words s ws vals = map (slot_value s) [0..<bs_size s]"
proof (induction ws arbitrary: m vals)
  case Nil
  let ?v = "bs_values_per_word s"
  have "m = div_ceil (bs_size s) ?v" using Nil assms by (simp add: bs_wf_def)
  then have "bs_size s \<le> m * ?v"
    using div_less_div_ceil [of "bs_size s - 1" "bs_size s" ?v] values_per_word_pos [OF assms]
    by (cases "bs_size s = 0") (auto simp: Suc_le_eq less_mult_imp_div_less div_less_iff_less_mult)
  with Nil show ?case by (simp add: min_def)
next
  case (Cons w ws)
  let ?v = "bs_values_per_word s" and ?n = "bs_size s"
  have m: "m < length (bs_data s)" using Cons.prems(1,2) by (cases "m < length (bs_data s)") auto
  then have w: "w = bs_data s ! m" and ws: "ws = drop (Suc m) (bs_data s)"
    using Cons.prems(1) by (simp_all add: Cons_nth_drop_Suc [symmetric])
  obtain k' where k': "k' = min ?v (?n - min ?n (m * ?v))" by simp
  have step: "gather_word s ?v w vals
      = vals @ map (\<lambda>k. ucast (drop_bit (k * bs_bits s) w AND bs_mask s)) [0..<k']"
    using gather_word_eq [of vals s ?v w] Cons.prems(3) by (simp add: k')
  have "map (\<lambda>k. ucast (drop_bit (k * bs_bits s) w AND bs_mask s)) [0..<k']
      = map (slot_value s) [m * ?v..<m * ?v + k']"
  proof (rule nth_equalityI)
    fix k assume "k < length (map (\<lambda>k. ucast (drop_bit (k * bs_bits s) w AND bs_mask s) :: u32) [0..<k'])"
    then have "k < ?v" "k < k'" by (simp_all add: k')
    then show "map (\<lambda>k. ucast (drop_bit (k * bs_bits s) w AND bs_mask s)) [0..<k'] ! k
        = map (slot_value s) [m * ?v..<m * ?v + k'] ! k"
      by (simp add: slot_value_def w)
  qed simp
  moreover have "vals @ map (slot_value s) [m * ?v..<m * ?v + k']
      = map (slot_value s) [0..<min ?n (Suc m * ?v)]"
  proof (cases "m * ?v < ?n")
    case True
    then have "min ?n (Suc m * ?v) = m * ?v + k'"
      unfolding k' mult_Suc by linarith
    then show ?thesis
      using True Cons.prems(3) upt_add_eq_append [of 0 "m * ?v" k'] by (simp add: min_def)
  next
    case False
    with Cons.prems(3) show ?thesis by (simp add: min_def k')
  qed
  ultimately have "gather_word s ?v w vals = map (slot_value s) [0..<min ?n (Suc m * ?v)]"
    using step by simp
  then show ?case using Cons.IH [OF ws _ _] m by simp
qed

lemma get_all_slots: "bs_wf s \<Longrightarrow> bit_storage_get_all s = map (slot_value s) [0..<bs_size s]"
  using gather_words_eq [of s "bs_data s" 0 "[]"] by (simp add: bit_storage_get_all_def)

lemma get_all_gets: "bs_wf s \<Longrightarrow> map (bit_storage_get s) [0..<bs_size s] = map Some (bit_storage_get_all s)"
  by (auto simp: get_all_slots get_slot_value)

section \<open>Palette width\<close>

lemma leading_zeros_eq:
  assumes "bit w b" and "\<And>n. b < n \<Longrightarrow> \<not> bit w n"
  shows "leading_zeros w = 63 - b"
proof -
  have b: "b < 64" using bit_imp_le_length [OF assms(1)] by simp
  let ?xs = "map (bit w) (rev [0..<64])"
  have nth: "?xs ! i \<longleftrightarrow> bit w (63 - i)" if "i < 64" for i
    using that by (simp add: rev_nth)
  have "takeWhile Not ?xs = take (63 - b) ?xs"
  proof (rule takeWhile_eq_take_P_nth)
    fix i assume "i < 63 - b" and "i < length ?xs"
    then show "\<not> ?xs ! i" using nth [of i] assms(2) [of "63 - i"] by simp
  next
    assume "63 - b < length ?xs"
    then show "\<not> \<not> ?xs ! (63 - b)" using nth [of "63 - b"] assms(1) b by simp
  qed
  then show ?thesis by (simp add: leading_zeros_def)
qed

lemma significant_bits:
  assumes "0 < n" and "n < 2 ^ 64"
  obtains b where "b < 64" and "2 ^ b \<le> n" and "n < 2 ^ Suc b"
    and "leading_zeros (of_nat n) = 63 - b"
proof -
  obtain b where b: "2 ^ b \<le> n" "n < 2 ^ Suc b"
    using ex_power_ivl1 [of 2 n] assms(1) by auto
  have "(2 :: nat) ^ b < 2 ^ 64" using b(1) assms(2) by simp
  then have b64: "b < 64" by (rule power_less_imp_less_exp [rotated]) simp
  have bit: "bit (of_nat n :: u64) k \<longleftrightarrow> k < 64 \<and> bit n k" for k
    by (simp add: bit_simps)
  have high: "\<not> bit n k" if "b < k" for k
  proof -
    have "n < 2 ^ k" using b(2) power_increasing [of "Suc b" k "2 :: nat"] that by simp
    then show ?thesis by (simp add: bit_iff_odd)
  qed
  have "n div 2 ^ b = 1"
    using b by (intro div_nat_eqI) simp_all
  then have "bit n b" by (simp add: bit_iff_odd)
  then have "leading_zeros (of_nat n) = 63 - b"
    using b64 high by (intro leading_zeros_eq) (simp_all add: bit)
  with b b64 show ?thesis by (rule_tac that) auto
qed

lemma palette_bits_for_spec:
  assumes "1 \<le> n" and "n \<le> 2 ^ 32"
  shows "\<exists>b. palette_bits_for n = Some b \<and> 1 \<le> b \<and> b \<le> 32 \<and> n \<le> 2 ^ b
    \<and> (\<forall>c. 1 \<le> c \<and> n \<le> 2 ^ c \<longrightarrow> b \<le> c)"
proof (cases "n = 1")
  case True
  then show ?thesis by (simp add: palette_bits_for_def)
next
  case False
  with assms have "0 < n - 1" "n - 1 < 2 ^ 64" by auto
  then obtain b where b: "b < 64" "2 ^ b \<le> n - 1" "n - 1 < 2 ^ Suc b"
    and lz: "leading_zeros (of_nat (n - 1)) = 63 - b" by (rule significant_bits)
  have eq: "palette_bits_for n = Some (Suc b)"
    using False assms(1) b(1) lz by (simp add: palette_bits_for_def)
  have min: "Suc b \<le> c" if "n \<le> 2 ^ c" for c
  proof -
    have "(2 :: nat) ^ b < 2 ^ c" using b(2) that assms(1) False by linarith
    then show ?thesis by (simp add: power_strict_increasing_iff)
  qed
  from this [of 32] have "Suc b \<le> 32" using assms(2) by simp
  with eq min b(3) assms(1) show ?thesis by auto
qed

end
