(* ===== verification/CorePos.thy ===== *)
theory CorePos imports Prelude
begin

text \<open>
  Integer positions of \<open>native/crates/mclone-core/src\<close>: \<open>BlockPos\<close> and \<open>Direction\<close> (\<open>pos.rs\<close>),
  \<open>ChunkPos\<close> and the coordinate helpers (\<open>chunk.rs\<close>).  The two position structs are
  single-constructor datatypes, so that \<open>ChunkPos\<close> can carry the derived lexicographic order the
  code uses in its ordered sets.  Floating-point vectors and boxes are not modelled.
\<close>

abbreviation (input) chunk_width :: int where "chunk_width \<equiv> 16"
abbreviation (input) section_height :: int where "section_height \<equiv> 16"

section \<open>Chunk positions and their order\<close>

datatype chunk_pos = ChunkPos (cp_x: int) (cp_z: int)

instantiation chunk_pos :: linorder
begin

definition less_eq_chunk_pos :: "chunk_pos \<Rightarrow> chunk_pos \<Rightarrow> bool" where
  "less_eq_chunk_pos p q \<longleftrightarrow> cp_x p < cp_x q \<or> cp_x p = cp_x q \<and> cp_z p \<le> cp_z q"

definition less_chunk_pos :: "chunk_pos \<Rightarrow> chunk_pos \<Rightarrow> bool" where
  "less_chunk_pos p q \<longleftrightarrow> cp_x p < cp_x q \<or> cp_x p = cp_x q \<and> cp_z p < cp_z q"

instance
  by standard (auto simp: less_eq_chunk_pos_def less_chunk_pos_def intro: chunk_pos.expand)

end

section \<open>Coordinate helpers\<close>

definition block_to_chunk_coord :: "int \<Rightarrow> int" where
  "block_to_chunk_coord block_coord = block_coord div chunk_width"

definition local_block_coord :: "int \<Rightarrow> int" where
  "local_block_coord block_coord = block_coord mod chunk_width"

definition chunk_min_block_coord :: "int \<Rightarrow> int" where
  "chunk_min_block_coord chunk_coord = wrap_i32 (chunk_coord * chunk_width)"

definition chunk_middle_block_coord :: "int \<Rightarrow> int" where
  "chunk_middle_block_coord chunk_coord = wrap_i32 (chunk_min_block_coord chunk_coord + chunk_width div 2)"

definition chunk_block_coord :: "int \<Rightarrow> int \<Rightarrow> int" where
  "chunk_block_coord chunk_coord local_coord = wrap_i32 (chunk_min_block_coord chunk_coord + local_coord)"

definition block_to_section_coord :: "int \<Rightarrow> int" where
  "block_to_section_coord block_y = block_y div section_height"

definition local_section_block_coord :: "int \<Rightarrow> int" where
  "local_section_block_coord block_y = block_y mod section_height"

definition chunk_pos_from_block_coords :: "int \<Rightarrow> int \<Rightarrow> chunk_pos" where
  "chunk_pos_from_block_coords x z = ChunkPos (block_to_chunk_coord x) (block_to_chunk_coord z)"

definition min_block_x :: "chunk_pos \<Rightarrow> int" where
  "min_block_x p = chunk_min_block_coord (cp_x p)"

definition min_block_z :: "chunk_pos \<Rightarrow> int" where
  "min_block_z p = chunk_min_block_coord (cp_z p)"

definition middle_block_x :: "chunk_pos \<Rightarrow> int" where
  "middle_block_x p = chunk_middle_block_coord (cp_x p)"

definition middle_block_z :: "chunk_pos \<Rightarrow> int" where
  "middle_block_z p = chunk_middle_block_coord (cp_z p)"

definition chunk_section_index :: "int \<Rightarrow> int \<Rightarrow> int \<Rightarrow> nat option" where
  "chunk_section_index local_x local_y local_z = do {
     assert_that (0 \<le> local_x \<and> local_x < chunk_width);
     assert_that (0 \<le> local_y \<and> local_y < section_height);
     assert_that (0 \<le> local_z \<and> local_z < chunk_width);
     Some (nat (push_bit 8 local_y OR push_bit 4 local_z OR local_x))
   }"

definition chunk_block_index :: "int \<Rightarrow> int \<Rightarrow> int \<Rightarrow> nat option" where
  "chunk_block_index local_x local_y local_z = do {
     assert_that (0 \<le> local_x \<and> local_x < chunk_width);
     assert_that (0 \<le> local_y);
     assert_that (0 \<le> local_z \<and> local_z < chunk_width);
     Some (nat ((wrap_i32 (push_bit 8 local_y) OR push_bit 4 local_z OR local_x) mod 2 ^ 64))
   }"

section \<open>Block positions and directions\<close>

datatype block_pos = BlockPos (bp_x: int) (bp_y: int) (bp_z: int)

datatype direction = Down | Up | North | South | West | East

definition all_directions :: "direction list" where
  "all_directions = [Down, Up, North, South, West, East]"

fun direction_index :: "direction \<Rightarrow> nat" where
  "direction_index Down = 0"
| "direction_index Up = 1"
| "direction_index North = 2"
| "direction_index South = 3"
| "direction_index West = 4"
| "direction_index East = 5"

definition direction_from_index :: "nat \<Rightarrow> direction option" where
  "direction_from_index i = (if i = 0 then Some Down else if i = 1 then Some Up
     else if i = 2 then Some North else if i = 3 then Some South
     else if i = 4 then Some West else if i = 5 then Some East else None)"

fun opposite :: "direction \<Rightarrow> direction" where
  "opposite Down = Up"
| "opposite Up = Down"
| "opposite North = South"
| "opposite South = North"
| "opposite West = East"
| "opposite East = West"

fun step :: "direction \<Rightarrow> int \<times> int \<times> int" where
  "step Down = (0, -1, 0)"
| "step Up = (0, 1, 0)"
| "step North = (0, 0, -1)"
| "step South = (0, 0, 1)"
| "step West = (-1, 0, 0)"
| "step East = (1, 0, 0)"

definition block_pos_chunk_pos :: "block_pos \<Rightarrow> chunk_pos" where
  "block_pos_chunk_pos p = chunk_pos_from_block_coords (bp_x p) (bp_z p)"

definition below :: "block_pos \<Rightarrow> block_pos" where
  "below p = BlockPos (bp_x p) (wrap_i32 (bp_y p - 1)) (bp_z p)"

definition offset :: "block_pos \<Rightarrow> int \<Rightarrow> int \<Rightarrow> int \<Rightarrow> block_pos" where
  "offset p dx dy dz = BlockPos (wrap_i32 (bp_x p + dx)) (wrap_i32 (bp_y p + dy)) (wrap_i32 (bp_z p + dz))"

definition relative :: "block_pos \<Rightarrow> direction \<Rightarrow> block_pos" where
  "relative p d = (case step d of (dx, dy, dz) \<Rightarrow>
     BlockPos (wrap_i32 (bp_x p + dx)) (wrap_i32 (bp_y p + dy)) (wrap_i32 (bp_z p + dz)))"

definition block_pos_to_chunk_coord :: "block_pos \<Rightarrow> int \<times> int" where
  "block_pos_to_chunk_coord p = (block_to_chunk_coord (bp_x p), block_to_chunk_coord (bp_z p))"

section \<open>Facts\<close>

lemma direction_index_roundtrip: "direction_from_index (direction_index d) = Some d"
  by (cases d) (simp_all add: direction_from_index_def)

lemma opposite_opposite [simp]: "opposite (opposite d) = d"
  by (cases d) simp_all

lemma set_all_directions [simp]: "set all_directions = UNIV"
proof -
  have "d \<in> set all_directions" for d by (cases d) (simp_all add: all_directions_def)
  then show ?thesis by blast
qed

lemma local_coord_range: "0 \<le> local_block_coord c \<and> local_block_coord c < 16"
  by (simp add: local_block_coord_def)

lemma local_section_coord_range:
  "0 \<le> local_section_block_coord c \<and> local_section_block_coord c < 16"
  by (simp add: local_section_block_coord_def)

lemma chunk_of_block_roundtrip:
  "in_i32 c \<Longrightarrow> chunk_block_coord (block_to_chunk_coord c) (local_block_coord c) = c"
proof -
  assume c: "in_i32 c"
  have "in_i32 (c div 16 * 16)" using c by (simp add: in_i32_def) presburger
  then show ?thesis
    using c by (simp add: chunk_block_coord_def chunk_min_block_coord_def block_to_chunk_coord_def
        local_block_coord_def wrap_i32_id)
qed

lemma disjoint_or_add: "(a :: int) AND b = 0 \<Longrightarrow> a OR b = a + b"
  by (metis disjunctive_add_eq_or)

lemma nibble_concat:
  assumes "0 \<le> (x :: int)" "x < 16" "0 \<le> z" "z < 16"
  shows "push_bit 8 y OR push_bit 4 z OR x = y * 256 + z * 16 + x"
proof -
  have x: "take_bit 4 x = x" using assms by (simp add: take_bit_int_eq_self)
  have z: "take_bit 4 z = z" using assms by (simp add: take_bit_int_eq_self)
  have xb: "\<not> bit x n" if "4 \<le> n" for n
    using x that by (metis bit_take_bit_iff not_less)
  have zb: "\<not> bit z n" if "4 \<le> n" for n
    using z that by (metis bit_take_bit_iff not_less)
  have 1: "push_bit 4 z AND x = 0"
    by (rule bit_eqI) (use xb in \<open>auto simp: bit_simps\<close>)
  have 2: "push_bit 8 y AND (push_bit 4 z OR x) = 0"
    by (rule bit_eqI) (use xb zb in \<open>auto simp: bit_simps\<close>)
  have "push_bit 8 y OR push_bit 4 z OR x = push_bit 8 y + (push_bit 4 z + x)"
    using disjoint_or_add [OF 2] disjoint_or_add [OF 1] by (simp add: or.assoc)
  then show ?thesis by (simp add: push_bit_eq_mult)
qed

lemma chunk_section_index_eq:
  assumes "0 \<le> x" "x < 16" "0 \<le> y" "y < 16" "0 \<le> z" "z < 16"
  shows "chunk_section_index x y z = Some (nat (y * 256 + z * 16 + x))"
  using assms nibble_concat [of x z y] by (simp add: chunk_section_index_def)

lemma chunk_section_index_bound:
  "chunk_section_index x y z = Some i \<Longrightarrow> i < 4096"
  using nibble_concat [of x z y] by (auto simp: chunk_section_index_def)

lemma nibble_decode:
  assumes "0 \<le> (x :: int)" "x < 16" "0 \<le> z" "z < 16"
  shows "(y * 256 + z * 16 + x) mod 16 = x" "(y * 256 + z * 16 + x) div 16 mod 16 = z"
    "(y * 256 + z * 16 + x) div 256 = y"
proof -
  have v: "y * 256 + z * 16 + x = (y * 16 + z) * 16 + x" by simp
  have d: "((y * 16 + z) * 16 + x) div 16 = y * 16 + z"
    using assms by simp
  have m: "((y * 16 + z) * 16 + x) mod 16 = x"
    using assms by (simp only: mod_mult_self3 mod_pos_pos_trivial)
  show "(y * 256 + z * 16 + x) mod 16 = x" by (simp only: v m)
  show "(y * 256 + z * 16 + x) div 16 mod 16 = z" using assms by (simp only: v d mod_mult_self3 mod_pos_pos_trivial)
  have "(y * 256 + z * 16 + x) div 256 = ((y * 16 + z) * 16 + x) div 16 div 16"
    by (simp add: v flip: zdiv_zmult2_eq)
  then show "(y * 256 + z * 16 + x) div 256 = y" using assms by (simp add: d)
qed

lemma chunk_section_index_inj:
  assumes "chunk_section_index x y z = Some i" and "chunk_section_index x' y' z' = Some i"
  shows "x = x' \<and> y = y' \<and> z = z'"
proof -
  have r: "0 \<le> x" "x < 16" "0 \<le> y" "y < 16" "0 \<le> z" "z < 16"
    "0 \<le> x'" "x' < 16" "0 \<le> y'" "y' < 16" "0 \<le> z'" "z' < 16"
    using assms by (auto simp: chunk_section_index_def)
  then have "y * 256 + z * 16 + x = y' * 256 + z' * 16 + x'"
    using assms chunk_section_index_eq [OF r(1-6)] chunk_section_index_eq [OF r(7-12)] by auto
  with nibble_decode [of x z y] nibble_decode [of x' z' y'] r show ?thesis by metis
qed

end
