(* ===== verification/CoreChunk.thy ===== *)
theory CoreChunk imports CoreBits CorePos
begin

text \<open>
  Chunk data of \<open>native/crates/mclone-core/src/chunk.rs\<close>: the palette-compressed section
  (\<open>PackedChunkSection\<close>), the light payload of a section (\<open>PackedLightSection\<close>) and the chunk
  snapshot with its construction, biome lookup and section patching.  The palette loop keeps the
  code's three pieces of state (palette, index by state, local indices).
\<close>

type_synonym block_state_id = u32

abbreviation (input) air_block_state_id :: block_state_id where "air_block_state_id \<equiv> 0"
abbreviation (input) chunk_section_volume :: nat where "chunk_section_volume \<equiv> 4096"
abbreviation (input) light_data_layer_byte_count :: nat where "light_data_layer_byte_count \<equiv> 2048"

datatype chunk_status =
  Terrain | Surface | StructureStarts | StructureReferences | Features | Light | Full

fun status_rank :: "chunk_status \<Rightarrow> nat" where
  "status_rank Terrain = 0"
| "status_rank Surface = 1"
| "status_rank StructureStarts = 2"
| "status_rank StructureReferences = 3"
| "status_rank Features = 4"
| "status_rank Light = 5"
| "status_rank Full = 6"

lemma status_rank_inj: "status_rank a = status_rank b \<Longrightarrow> a = b"
  by (cases a; cases b) simp_all

text \<open>The derived order of the enum is the order of its variants.\<close>

instantiation chunk_status :: linorder
begin

definition less_eq_chunk_status :: "chunk_status \<Rightarrow> chunk_status \<Rightarrow> bool" where
  "less_eq_chunk_status a b \<longleftrightarrow> status_rank a \<le> status_rank b"

definition less_chunk_status :: "chunk_status \<Rightarrow> chunk_status \<Rightarrow> bool" where
  "less_chunk_status a b \<longleftrightarrow> status_rank a < status_rank b"

instance
  by standard (auto simp: less_eq_chunk_status_def less_chunk_status_def intro: status_rank_inj)

end

section \<open>Packed sections\<close>

record packed_section =
  ps_section_y :: int
  ps_palette :: "block_state_id list"
  ps_bits_per_block :: nat
  ps_packed :: "u64 list"

text \<open>One pass over the blocks: \<open>entry(..).or_insert_with(..)\<close> on the index map.\<close>

fun palette_loop ::
  "block_state_id list \<Rightarrow> block_state_id list \<Rightarrow> (block_state_id, u32) fmap \<Rightarrow> u32 list
    \<Rightarrow> block_state_id list \<times> u32 list" where
  "palette_loop [] palette index_by_state local_indices = (palette, local_indices)"
| "palette_loop (b # bs) palette index_by_state local_indices =
     (let next_index = of_nat (length palette) in
      case fmlookup index_by_state b of
        Some i \<Rightarrow> palette_loop bs palette index_by_state (local_indices @ [i])
      | None \<Rightarrow> palette_loop bs (palette @ [b]) (fmupd b next_index index_by_state)
                 (local_indices @ [next_index]))"

definition pack_section :: "int \<Rightarrow> block_state_id list \<Rightarrow> packed_section option" where
  "pack_section section_y block_state_ids = do {
     assert_that (length block_state_ids = chunk_section_volume);
     let (palette, local_indices) = palette_loop block_state_ids [] fmempty [];
     bits_per_block \<leftarrow> local_palette_bits_for (length palette);
     storage \<leftarrow> bit_storage_new bits_per_block chunk_section_volume;
     storage \<leftarrow> store_from bit_storage_set 0 local_indices storage;
     Some \<lparr>ps_section_y = section_y, ps_palette = palette, ps_bits_per_block = bits_per_block,
           ps_packed = bit_storage_raw storage\<rparr>
   }"

definition validate_encoding :: "packed_section \<Rightarrow> unit option" where
  "validate_encoding p = do {
     assert_that (ps_palette p \<noteq> []);
     expected \<leftarrow> local_palette_bits_for (length (ps_palette p));
     assert_that (ps_bits_per_block p = expected);
     assert_that (ps_bits_per_block p \<noteq> 0);
     let values_per_word = 64 div ps_bits_per_block p;
     assert_that (values_per_word \<noteq> 0);
     assert_that (length (ps_packed p) = div_ceil chunk_section_volume values_per_word)
   }"

definition block_state_id_at_unchecked :: "packed_section \<Rightarrow> nat \<Rightarrow> block_state_id option" where
  "block_state_id_at_unchecked p index = do {
     let bits = ps_bits_per_block p;
     let values_per_word = 64 div bits;
     let word_index = index div values_per_word;
     let bit_index = (index - word_index * values_per_word) * bits;
     let mask = push_bit (ps_bits_per_block p) 1 - 1;
     word \<leftarrow> vec_get (ps_packed p) word_index;
     vec_get (ps_palette p) (unat (drop_bit bit_index word AND mask))
   }"

definition block_state_id_at :: "packed_section \<Rightarrow> nat \<Rightarrow> block_state_id option" where
  "block_state_id_at p index = do {
     validate_encoding p;
     assert_that (index < chunk_section_volume);
     block_state_id_at_unchecked p index
   }"

definition unpack_block_state_ids :: "packed_section \<Rightarrow> block_state_id list option" where
  "unpack_block_state_ids p = do {
     validate_encoding p;
     those (map (block_state_id_at_unchecked p) [0..<chunk_section_volume])
   }"

section \<open>Light payloads and snapshots\<close>

record packed_light_section =
  pls_section_y :: int
  pls_sky :: "u8 list option"
  pls_block :: "u8 list option"

definition packed_light_section_new ::
  "int \<Rightarrow> u8 list option \<Rightarrow> u8 list option \<Rightarrow> packed_light_section option" where
  "packed_light_section_new section_y sky block = do {
     (case sky of None \<Rightarrow> Some ()
       | Some bytes \<Rightarrow> assert_that (length bytes = light_data_layer_byte_count));
     (case block of None \<Rightarrow> Some ()
       | Some bytes \<Rightarrow> assert_that (length bytes = light_data_layer_byte_count));
     Some \<lparr>pls_section_y = section_y, pls_sky = sky, pls_block = block\<rparr>
   }"

definition packed_light_section_is_empty :: "packed_light_section \<Rightarrow> bool" where
  "packed_light_section_is_empty p \<longleftrightarrow> pls_sky p = None \<and> pls_block p = None"

record chunk_snapshot =
  cs_pos :: chunk_pos
  cs_status :: chunk_status
  cs_revision :: nat
  cs_min_y :: int
  cs_height :: int
  cs_biomes :: "int list"
  cs_sections :: "packed_section list"
  cs_light_correct :: bool
  cs_light_sections :: "packed_light_section list"

text \<open>The loop over section offsets; all-air sections are skipped.\<close>

fun section_loop :: "int \<Rightarrow> block_state_id list \<Rightarrow> nat list \<Rightarrow> packed_section list option" where
  "section_loop min_section_y blocks [] = Some []"
| "section_loop min_section_y blocks (section_offset # rest) =
     (let start = section_offset * chunk_section_volume;
          section_blocks = take chunk_section_volume (drop start blocks) in
      if \<forall>b\<in>set section_blocks. b = air_block_state_id then section_loop min_section_y blocks rest
      else do {
        p \<leftarrow> pack_section (wrap_i32 (min_section_y + int section_offset)) section_blocks;
        ps \<leftarrow> section_loop min_section_y blocks rest;
        Some (p # ps)
      })"

definition snapshot_from_block_state_ids ::
  "chunk_pos \<Rightarrow> chunk_status \<Rightarrow> nat \<Rightarrow> int \<Rightarrow> int \<Rightarrow> block_state_id list \<Rightarrow> chunk_snapshot option" where
  "snapshot_from_block_state_ids pos status revision min_y height block_state_ids = do {
     assert_that (rust_rem min_y section_height = 0);
     assert_that (0 < height \<and> rust_rem height section_height = 0);
     let expected_len = nat height * nat chunk_width * nat chunk_width;
     assert_that (length block_state_ids = expected_len);
     let section_count = rust_div height section_height;
     let min_section_y = rust_div min_y section_height;
     sections \<leftarrow> section_loop min_section_y block_state_ids [0..<nat section_count];
     Some \<lparr>cs_pos = pos, cs_status = status, cs_revision = revision, cs_min_y = min_y,
           cs_height = height, cs_biomes = [], cs_sections = sections, cs_light_correct = False,
           cs_light_sections = []\<rparr>
   }"

definition expected_chunk_biome_count :: "int \<Rightarrow> nat option" where
  "expected_chunk_biome_count height = do {
     assert_that (0 < height \<and> rust_rem height section_height = 0);
     Some ((nat height div 4) * 4 * 4)
   }"

definition validate_chunk_biomes :: "int \<Rightarrow> int list \<Rightarrow> unit option" where
  "validate_chunk_biomes height biomes =
     (if biomes = [] then Some ()
      else do {
        expected_len \<leftarrow> expected_chunk_biome_count height;
        assert_that (length biomes = expected_len)
      })"

definition with_biomes :: "chunk_snapshot \<Rightarrow> int list \<Rightarrow> chunk_snapshot option" where
  "with_biomes s biomes = do {
     validate_chunk_biomes (cs_height s) biomes;
     Some (s\<lparr>cs_biomes := biomes\<rparr>)
   }"

definition with_light_sections ::
  "chunk_snapshot \<Rightarrow> bool \<Rightarrow> packed_light_section list \<Rightarrow> chunk_snapshot" where
  "with_light_sections s light_correct light_sections =
     s\<lparr>cs_light_correct := light_correct,
       cs_light_sections := filter (\<lambda>p. \<not> packed_light_section_is_empty p) light_sections\<rparr>"

definition biome_id_at_local_block :: "chunk_snapshot \<Rightarrow> int \<Rightarrow> int \<Rightarrow> int \<Rightarrow> int option" where
  "biome_id_at_local_block s local_x block_y local_z =
     (if \<not> (0 \<le> local_x \<and> local_x < chunk_width) \<or> \<not> (0 \<le> local_z \<and> local_z < chunk_width)
         \<or> block_y < cs_min_y s \<or> wrap_i32 (cs_min_y s + cs_height s) \<le> block_y
      then None
      else
        let quart_y = rust_div (wrap_i32 (block_y - cs_min_y s)) 4;
            quart_z = rust_div local_z 4;
            quart_x = rust_div local_x 4;
            quart_width = rust_div chunk_width 4;
            index = nat ((quart_y * quart_width * quart_width + quart_z * quart_width + quart_x) mod 2 ^ 64)
        in vec_get (cs_biomes s) index)"

section \<open>Patching blocks of a section\<close>

type_synonym block_update = "int \<times> int \<times> int \<times> block_state_id"

definition update_in_bounds :: "block_update \<Rightarrow> bool" where
  "update_in_bounds u = (case u of (local_x, local_y, local_z, _) \<Rightarrow>
     0 \<le> local_x \<and> local_x < chunk_width \<and> 0 \<le> local_y \<and> local_y < section_height
     \<and> 0 \<le> local_z \<and> local_z < chunk_width)"

fun apply_updates :: "block_update list \<Rightarrow> block_state_id list \<Rightarrow> nat \<Rightarrow> (block_state_id list \<times> nat) option" where
  "apply_updates [] blocks changed = Some (blocks, changed)"
| "apply_updates ((local_x, local_y, local_z, block_state) # us) blocks changed = do {
     block_index \<leftarrow> chunk_section_index local_x local_y local_z;
     old \<leftarrow> vec_get blocks block_index;
     if old = block_state then apply_updates us blocks changed
     else do {
       blocks' \<leftarrow> vec_set blocks block_index block_state;
       apply_updates us blocks' (changed + 1)
     }
   }"

text \<open>\<open>iter().position(..)\<close>: the first section with the given \<open>section_y\<close>.\<close>

fun section_position :: "int \<Rightarrow> packed_section list \<Rightarrow> nat option" where
  "section_position section_y [] = None"
| "section_position section_y (p # ps) =
     (if ps_section_y p = section_y then Some 0 else map_option Suc (section_position section_y ps))"

definition remove_at :: "nat \<Rightarrow> 'a list \<Rightarrow> 'a list" where
  "remove_at i xs = take i xs @ drop (Suc i) xs"

definition patch_section_blocks ::
  "chunk_snapshot \<Rightarrow> int \<Rightarrow> block_update list \<Rightarrow> (nat \<times> chunk_snapshot) option" where
  "patch_section_blocks s section_y updates =
     (if updates = [] then Some (0, s)
      else do {
        assert_that (\<forall>u\<in>set updates. update_in_bounds u);
        let section_base_y = wrap_i32 (section_y * section_height);
        if section_base_y < cs_min_y s \<or> wrap_i32 (cs_min_y s + cs_height s) \<le> section_base_y
        then Some (0, s)
        else do {
          let section_index = section_position section_y (cs_sections s);
          blocks \<leftarrow> (case section_index of
              None \<Rightarrow> Some (replicate chunk_section_volume air_block_state_id)
            | Some index \<Rightarrow> unpack_block_state_ids (cs_sections s ! index));
          (blocks, changed) \<leftarrow> apply_updates updates blocks 0;
          if changed = 0 then Some (0, s)
          else if \<forall>b\<in>set blocks. b = air_block_state_id then
            Some (changed, case section_index of
                None \<Rightarrow> s
              | Some index \<Rightarrow> s\<lparr>cs_sections := remove_at index (cs_sections s)\<rparr>)
          else do {
            packed \<leftarrow> pack_section section_y blocks;
            Some (changed, case section_index of
                Some index \<Rightarrow> s\<lparr>cs_sections := (cs_sections s)[index := packed]\<rparr>
              | None \<Rightarrow> s\<lparr>cs_sections := sort_key ps_section_y (cs_sections s @ [packed])\<rparr>)
          }
        }
      })"

definition patch_section_block ::
  "chunk_snapshot \<Rightarrow> int \<Rightarrow> int \<Rightarrow> int \<Rightarrow> int \<Rightarrow> block_state_id \<Rightarrow> (bool \<times> chunk_snapshot) option" where
  "patch_section_block s section_y local_x local_y local_z block_state = do {
     (changed, s') \<leftarrow> patch_section_blocks s section_y [(local_x, local_y, local_z, block_state)];
     Some (0 < changed, s')
   }"

section \<open>The palette loop\<close>

definition palette_inv ::
  "block_state_id list \<Rightarrow> (block_state_id, u32) fmap \<Rightarrow> block_state_id list \<Rightarrow> u32 list \<Rightarrow> bool" where
  "palette_inv palette index seen local_indices \<longleftrightarrow>
     distinct palette \<and> set palette = set seen \<and> length palette \<le> length seen
     \<and> (\<forall>b i. fmlookup index b = Some i \<longleftrightarrow> unat i < length palette \<and> palette ! unat i = b)
     \<and> length local_indices = length seen
     \<and> (\<forall>k<length seen. unat (local_indices ! k) < length palette
          \<and> palette ! unat (local_indices ! k) = seen ! k)"

lemma palette_inv_empty: "palette_inv [] fmempty [] []"
  by (simp add: palette_inv_def)

lemma palette_inv_known:
  assumes "palette_inv pal idx seen loc" and "fmlookup idx b = Some i"
  shows "palette_inv pal idx (seen @ [b]) (loc @ [i])"
proof -
  have i: "unat i < length pal" "pal ! unat i = b" using assms by (auto simp: palette_inv_def)
  then have "b \<in> set pal" by (metis nth_mem)
  with i assms show ?thesis by (auto simp: palette_inv_def nth_append less_Suc_eq)
qed

lemma palette_inv_fresh:
  assumes inv: "palette_inv pal idx seen loc" and "fmlookup idx b = None"
    and small: "length seen < 2 ^ 32"
  shows "palette_inv (pal @ [b]) (fmupd b (of_nat (length pal)) idx) (seen @ [b])
           (loc @ [of_nat (length pal)])"
proof -
  have n: "unat (of_nat (length pal) :: u32) = length pal"
    using inv small by (intro unat_of_nat_u32) (simp add: palette_inv_def)
  have lookup: "fmlookup idx c = Some i \<longleftrightarrow> unat i < length pal \<and> pal ! unat i = c" for c i
    using inv by (simp add: palette_inv_def)
  have len: "length pal < 2 ^ 32" using inv small by (simp add: palette_inv_def)
  have new: "b \<notin> set pal"
  proof
    assume "b \<in> set pal"
    then obtain k where k: "k < length pal" "pal ! k = b" by (auto simp: in_set_conv_nth)
    then have "unat (of_nat k :: u32) = k" using len by (intro unat_of_nat_u32) simp
    with k lookup [of b "of_nat k"] assms(2) show False by simp
  qed
  have idx: "fmlookup (fmupd b (of_nat (length pal)) idx) c = Some i
      \<longleftrightarrow> unat i < length (pal @ [b]) \<and> (pal @ [b]) ! unat i = c" for c i
  proof (cases "c = b")
    case True
    have "unat i = length pal \<longleftrightarrow> i = of_nat (length pal)" using n by (auto simp: word_unat_eq_iff)
    with True new show ?thesis by (auto simp: nth_append n less_Suc_eq)
  next
    case False
    then show ?thesis using lookup [of c i] by (auto simp: nth_append less_Suc_eq)
  qed
  have locs: "unat ((loc @ [of_nat (length pal)]) ! k) < length (pal @ [b])
      \<and> (pal @ [b]) ! unat ((loc @ [of_nat (length pal)]) ! k) = (seen @ [b]) ! k"
    if "k < length (seen @ [b])" for k
    using inv that n by (auto simp: palette_inv_def nth_append less_Suc_eq)
  show ?thesis
    unfolding palette_inv_def using inv new idx locs by (simp add: palette_inv_def)
qed

lemma palette_loop_inv:
  "palette_loop bs pal idx loc = (pal', loc') \<Longrightarrow> palette_inv pal idx seen loc
    \<Longrightarrow> length seen + length bs \<le> 2 ^ 32 \<Longrightarrow> \<exists>idx'. palette_inv pal' idx' (seen @ bs) loc'"
proof (induction bs arbitrary: pal idx loc seen)
  case Nil
  then show ?case by auto
next
  case (Cons b bs)
  show ?case
  proof (cases "fmlookup idx b")
    case None
    have "palette_inv (pal @ [b]) (fmupd b (of_nat (length pal)) idx) (seen @ [b])
        (loc @ [of_nat (length pal)])"
      using Cons.prems None by (intro palette_inv_fresh) simp_all
    with Cons.IH [OF _ this] Cons.prems None show ?thesis by (simp add: Let_def)
  next
    case (Some i)
    have "palette_inv pal idx (seen @ [b]) (loc @ [i])"
      by (rule palette_inv_known [OF Cons.prems(2) Some])
    with Cons.IH [OF _ this] Cons.prems Some show ?thesis by (simp add: Let_def)
  qed
qed

section \<open>Packing and unpacking a section\<close>

lemma local_palette_bits_for_range:
  assumes "1 \<le> n" and "n \<le> 4096"
  obtains b where "local_palette_bits_for n = Some b" and "4 \<le> b" and "b \<le> 32" and "n \<le> 2 ^ b"
proof -
  obtain c where c: "palette_bits_for n = Some c" "c \<le> 32" "n \<le> 2 ^ c"
    using palette_bits_for_spec [of n] assms by auto
  have "(2 :: nat) ^ c \<le> 2 ^ max c 4" by (rule power_increasing) simp_all
  with c show ?thesis
    by (intro that [of "max c 4"]) (auto simp: local_palette_bits_for_def intro: order_trans)
qed

text \<open>Reading a section is reading the bit storage its words came from, then the palette.\<close>

lemma unchecked_read_eq:
  assumes "bs_wf s" and "bs_size s = chunk_section_volume" and "i < chunk_section_volume"
    and "ps_bits_per_block p = bs_bits s" and "ps_packed p = bs_data s"
    and "bit_storage_get s i = Some v"
  shows "block_state_id_at_unchecked p i = vec_get (ps_palette p) (unat v)"
proof -
  let ?w = "drop_bit ((i mod bs_values_per_word s) * bs_bits s)
    (bs_data s ! (i div bs_values_per_word s)) AND mask (bs_bits s) :: u64"
  have b: "bs_bits s \<le> 32" and vpw: "bs_values_per_word s = 64 div bs_bits s"
    using assms(1) by (simp_all add: bs_wf_def)
  have v: "v = ucast ?w" using assms(6) bit_storage_get_eq [of s i] assms(1-3) by simp
  have "unat ?w < 2 ^ bs_bits s"
    by (simp add: take_bit_eq_mask [symmetric] unsigned_take_bit_eq)
  also have "(2 :: nat) ^ bs_bits s \<le> 2 ^ 32" using b by (rule power_increasing) simp
  finally have "unat v = unat ?w"
    unfolding v by (simp add: unsigned_ucast_eq take_bit_nat_eq_self)
  then show ?thesis
    using assms word_index_in_bounds [of s i] vpw
    by (simp add: block_state_id_at_unchecked_def Let_def bit_index_eq vec_get_def
        mask_eq_exp_minus_1 push_bit_eq_mult)
qed

lemma pack_section_roundtrip:
  assumes "length blocks = chunk_section_volume"
  shows "\<exists>p. pack_section y blocks = Some p \<and> ps_section_y p = y
     \<and> unpack_block_state_ids p = Some blocks
     \<and> (\<forall>i<chunk_section_volume. block_state_id_at p i = Some (blocks ! i))"
proof -
  obtain pal loc where loop: "palette_loop blocks [] fmempty [] = (pal, loc)" by force
  then obtain idx where inv: "palette_inv pal idx blocks loc"
    using palette_loop_inv [OF loop palette_inv_empty] assms by auto
  then have len: "length loc = 4096" and pal_len: "1 \<le> length pal" "length pal \<le> 4096"
    and locs: "\<And>k. k < 4096 \<Longrightarrow> unat (loc ! k) < length pal \<and> pal ! unat (loc ! k) = blocks ! k"
    using assms by (auto simp: palette_inv_def Suc_le_eq)
  obtain b where b: "local_palette_bits_for (length pal) = Some b" "4 \<le> b" "b \<le> 32" "length pal \<le> 2 ^ b"
    using local_palette_bits_for_range [OF pal_len] .
  obtain s0 where s0: "bit_storage_new b 4096 = Some s0"
    using b(2,3) by (simp add: bit_storage_new_def validate_bits_def Let_def)
  have wf0: "bs_wf s0" "bs_size s0 = 4096" "bs_bits s0 = b"
    using bit_storage_new_wf [OF s0] by auto
  have fits: "\<forall>v\<in>set loc. bs_fits s0 v"
    using locs len b(4) wf0(3) by (force simp: in_set_conv_nth bs_fits_def)
  obtain s where s: "store_from bit_storage_set 0 loc s0 = Some s"
    and wf: "bs_wf s" "bs_bits s = b" "bs_size s = 4096"
    and reads: "map (bit_storage_get s) [0..<4096] = map Some loc"
    using palette.store_all_roundtrip [of s0 b loc] wf0 fits len by auto
  obtain p where p_eq: "p = \<lparr>ps_section_y = y, ps_palette = pal, ps_bits_per_block = b,
      ps_packed = bs_data s\<rparr>" by simp
  then have fields: "ps_section_y p = y" "ps_palette p = pal" "ps_bits_per_block p = b"
    "ps_packed p = bs_data s" by simp_all
  have p: "pack_section y blocks = Some p"
    using assms loop b(1) s0 s by (simp add: pack_section_def bit_storage_raw_def p_eq)
  have read: "block_state_id_at_unchecked p i = Some (blocks ! i)" if "i < 4096" for i
  proof -
    have "bit_storage_get s i = Some (loc ! i)"
      using arg_cong [OF reads, of "\<lambda>xs. xs ! i"] that len by simp
    then show ?thesis
      using unchecked_read_eq [of s i p "loc ! i"] wf that fields locs [OF that] by (simp add: vec_get_def)
  qed
  have "64 div b \<noteq> 0" using b(2,3) by (simp add: div_eq_0_iff)
  then have valid: "validate_encoding p = Some ()"
    using fields b(1,2) pal_len wf by (auto simp: validate_encoding_def Let_def bs_wf_def)
  have "map (block_state_id_at_unchecked p) [0..<4096] = map Some blocks"
    using read assms by (intro nth_equalityI) simp_all
  then have "unpack_block_state_ids p = Some blocks"
    by (simp add: unpack_block_state_ids_def valid those_map_Some)
  with p fields valid read show ?thesis by (auto simp: block_state_id_at_def)
qed

end
