(* ===== verification/CoreSnapshot.thy ===== *)
theory CoreSnapshot imports CoreChunk "HOL-Library.Multiset"
begin

text \<open>
  What the snapshot of \<open>chunk.rs\<close> promises: seen as a function from section heights to 4096 block
  states (air where there is no section), construction stores exactly the given blocks and a patch
  is a sequence of point updates, while the list stays strictly sorted, free of all-air sections
  and canonically packed.
\<close>

section \<open>The abstract view\<close>

definition section_view :: "packed_section list \<Rightarrow> int \<Rightarrow> block_state_id list" where
  "section_view ps y = (case section_position y ps of
     None \<Rightarrow> replicate chunk_section_volume air_block_state_id
   | Some i \<Rightarrow> the (unpack_block_state_ids (ps ! i)))"

definition canonical_section :: "packed_section \<Rightarrow> bool" where
  "canonical_section p \<longleftrightarrow> (\<exists>blocks. length blocks = chunk_section_volume
     \<and> (\<exists>b\<in>set blocks. b \<noteq> air_block_state_id) \<and> pack_section (ps_section_y p) blocks = Some p)"

definition sections_wf :: "packed_section list \<Rightarrow> bool" where
  "sections_wf ps \<longleftrightarrow> sorted_wrt (<) (map ps_section_y ps) \<and> (\<forall>p\<in>set ps. canonical_section p)"

definition update_index :: "block_update \<Rightarrow> nat" where
  "update_index u = (case u of (x, y, z, _) \<Rightarrow> the (chunk_section_index x y z))"

definition update_state :: "block_update \<Rightarrow> block_state_id" where
  "update_state u = (case u of (x, y, z, b) \<Rightarrow> b)"

definition write_updates :: "block_update list \<Rightarrow> block_state_id list \<Rightarrow> block_state_id list" where
  "write_updates us blocks = foldl (\<lambda>bs u. bs[update_index u := update_state u]) blocks us"

lemma write_updates_simps [simp]:
  "write_updates [] blocks = blocks"
  "write_updates (u # us) blocks = write_updates us (blocks[update_index u := update_state u])"
  by (simp_all add: write_updates_def)

lemma length_write_updates [simp]: "length (write_updates us blocks) = length blocks"
  by (induction us arbitrary: blocks) simp_all

section \<open>Lookups in the section list\<close>

lemma section_position_Some:
  "section_position y ps = Some i \<Longrightarrow> i < length ps \<and> ps_section_y (ps ! i) = y"
  by (induction ps arbitrary: i) (auto split: if_splits)

lemma section_position_None: "section_position y ps = None \<longleftrightarrow> y \<notin> ps_section_y ` set ps"
  by (induction ps) auto

lemma section_position_distinct:
  assumes "distinct (map ps_section_y ps)" and "i < length ps"
  shows "section_position (ps_section_y (ps ! i)) ps = Some i"
proof (cases "section_position (ps_section_y (ps ! i)) ps")
  case None
  then show ?thesis using assms(2) by (auto simp: section_position_None)
next
  case (Some j)
  then show ?thesis
    using section_position_Some [OF Some] assms by (auto simp: nth_eq_iff_index_eq dest: nth_eq_iff_index_eq [of "map ps_section_y ps" i j, THEN iffD1])
qed

lemma section_view_member:
  assumes "distinct (map ps_section_y ps)" and "p \<in> set ps"
  shows "section_view ps (ps_section_y p) = the (unpack_block_state_ids p)"
proof -
  obtain i where i: "i < length ps" "ps ! i = p" using assms(2) by (auto simp: in_set_conv_nth)
  then show ?thesis
    using section_position_distinct [OF assms(1) i(1)] by (simp add: section_view_def)
qed

lemma section_view_absent: "y \<notin> ps_section_y ` set ps \<Longrightarrow> section_view ps y = replicate 4096 0"
  using section_position_None [of y ps] by (simp add: section_view_def)

text \<open>With distinct heights the view depends on the set of sections only.\<close>

lemma section_view_cong:
  assumes "distinct (map ps_section_y ps)" and "distinct (map ps_section_y qs)"
    and "{p \<in> set ps. ps_section_y p = y} = {p \<in> set qs. ps_section_y p = y}"
  shows "section_view ps y = section_view qs y"
proof (cases "y \<in> ps_section_y ` set ps")
  case True
  then obtain p where "p \<in> set ps" "ps_section_y p = y" by auto
  moreover from this have "p \<in> set qs" using assms(3) by auto
  ultimately show ?thesis using section_view_member assms(1,2) by metis
next
  case False
  then have "y \<notin> ps_section_y ` set qs" using assms(3) by blast
  with False show ?thesis by (simp add: section_view_absent)
qed

lemma sections_wf_distinct: "sections_wf ps \<Longrightarrow> distinct (map ps_section_y ps)"
  by (simp add: sections_wf_def strict_sorted_iff)

lemma canonical_unpack:
  assumes "canonical_section p"
  obtains blocks where "unpack_block_state_ids p = Some blocks" and "length blocks = 4096"
    and "\<exists>b\<in>set blocks. b \<noteq> 0" and "pack_section (ps_section_y p) blocks = Some p"
proof -
  obtain blocks where b: "length blocks = 4096" "\<exists>b\<in>set blocks. b \<noteq> 0"
    "pack_section (ps_section_y p) blocks = Some p"
    using assms by (auto simp: canonical_section_def)
  then have "unpack_block_state_ids p = Some blocks"
    using pack_section_roundtrip [OF b(1), of "ps_section_y p"] by auto
  with b that show ?thesis by blast
qed

lemma length_section_view:
  assumes "sections_wf ps"
  shows "length (section_view ps y) = 4096"
proof (cases "y \<in> ps_section_y ` set ps")
  case True
  then obtain p where p: "p \<in> set ps" "ps_section_y p = y" by auto
  then obtain blocks where "unpack_block_state_ids p = Some blocks" "length blocks = 4096"
    using assms canonical_unpack [of p] by (auto simp: sections_wf_def)
  then show ?thesis
    using section_view_member [OF sections_wf_distinct [OF assms] p(1)] p(2) by simp
qed (simp add: section_view_absent)

section \<open>Updates\<close>

lemma update_index_eq:
  "update_in_bounds (x, y, z, b) \<Longrightarrow> chunk_section_index x y z = Some (update_index (x, y, z, b))"
  by (simp add: update_in_bounds_def update_index_def chunk_section_index_def)

lemma apply_updates_eq:
  "\<forall>u\<in>set us. update_in_bounds u \<Longrightarrow> length blocks = 4096
    \<Longrightarrow> \<exists>n. apply_updates us blocks c = Some (write_updates us blocks, c + n)
          \<and> (n = 0 \<longrightarrow> write_updates us blocks = blocks)"
proof (induction us arbitrary: blocks c)
  case Nil
  then show ?case by simp
next
  case (Cons u us)
  obtain x y z b where u: "u = (x, y, z, b)" by (cases u)
  have idx: "chunk_section_index x y z = Some (update_index u)"
    using Cons.prems(1) update_index_eq [of x y z b] by (simp add: u)
  then have i: "update_index u < length blocks"
    using chunk_section_index_bound Cons.prems(2) by simp
  have st: "update_state u = b" by (simp add: u update_state_def)
  show ?case
  proof (cases "blocks ! update_index u = b")
    case True
    then have same: "blocks[update_index u := b] = blocks" by (metis list_update_id)
    from Cons.IH [of blocks c] Cons.prems True i idx st same show ?thesis
      by (simp add: u vec_get_def)
  next
    case False
    obtain n where "apply_updates us (blocks[update_index u := b]) (Suc c)
        = Some (write_updates us (blocks[update_index u := b]), Suc c + n)"
      using Cons.IH [of "blocks[update_index u := b]" "Suc c"] Cons.prems by auto
    then show ?thesis using False i idx st
      by (intro exI [of _ "Suc n"]) (simp add: u vec_get_def vec_set_def)
  qed
qed

section \<open>Changing the section list\<close>

lemma pack_section_canonical:
  assumes "length blocks = 4096" and "\<exists>b\<in>set blocks. b \<noteq> 0"
  obtains p where "pack_section y blocks = Some p" and "ps_section_y p = y"
    and "canonical_section p" and "unpack_block_state_ids p = Some blocks"
proof -
  obtain p where p: "pack_section y blocks = Some p" "ps_section_y p = y"
    "unpack_block_state_ids p = Some blocks"
    using pack_section_roundtrip [OF assms(1), of y] by auto
  with assms that show ?thesis by (auto simp: canonical_section_def)
qed

lemma remove_at_sections:
  assumes "sections_wf ps" and "i < length ps"
  shows "sections_wf (remove_at i ps)"
    and "set (remove_at i ps) = {p \<in> set ps. ps_section_y p \<noteq> ps_section_y (ps ! i)}"
proof -
  have split: "ps = take i ps @ ps ! i # drop (Suc i) ps" by (rule id_take_nth_drop [OF assms(2)])
  have sorted: "sorted_wrt (<) (map ps_section_y (take i ps @ ps ! i # drop (Suc i) ps))"
    using assms(1) split by (simp add: sections_wf_def)
  have sub: "set (remove_at i ps) \<subseteq> set ps"
    by (auto simp: remove_at_def dest: in_set_takeD in_set_dropD)
  have "sorted_wrt (<) (map ps_section_y (remove_at i ps))"
    using sorted by (simp add: remove_at_def sorted_wrt_append)
  with sub assms(1) show "sections_wf (remove_at i ps)" by (auto simp: sections_wf_def)
  have ne: "ps_section_y p \<noteq> ps_section_y (ps ! i)" if "p \<in> set (remove_at i ps)" for p
    using sorted that by (auto simp: remove_at_def sorted_wrt_append)
  have "p \<in> set (remove_at i ps)" if "p \<in> set ps" "ps_section_y p \<noteq> ps_section_y (ps ! i)" for p
    using that split by (metis Un_iff remove_at_def set_append set_ConsD)
  with ne sub show "set (remove_at i ps) = {p \<in> set ps. ps_section_y p \<noteq> ps_section_y (ps ! i)}"
    by blast
qed

lemma replace_sections:
  assumes "sections_wf ps" and "i < length ps" and "canonical_section q"
    and "ps_section_y q = ps_section_y (ps ! i)"
  shows "sections_wf (ps[i := q])"
    and "q \<in> set (ps[i := q])"
    and "{p \<in> set (ps[i := q]). ps_section_y p \<noteq> ps_section_y q}
       = {p \<in> set ps. ps_section_y p \<noteq> ps_section_y q}"
proof -
  have map: "map ps_section_y (ps[i := q]) = map ps_section_y ps"
    using assms(2,4) by (simp add: map_update list_update_same_conv)
  have sub: "set (ps[i := q]) \<subseteq> insert q (set ps)" by (rule set_update_subset_insert)
  show "sections_wf (ps[i := q])" using assms(1,3) map sub by (auto simp: sections_wf_def)
  show "q \<in> set (ps[i := q])" using assms(2) by (rule set_update_memI)
  have "p \<in> set (ps[i := q])" if "p \<in> set ps" "ps_section_y p \<noteq> ps_section_y q" for p
    using that assms(4) by (metis in_set_conv_nth length_list_update nth_list_update_neq)
  with sub show "{p \<in> set (ps[i := q]). ps_section_y p \<noteq> ps_section_y q}
       = {p \<in> set ps. ps_section_y p \<noteq> ps_section_y q}" by blast
qed

lemma insert_sections:
  assumes "sections_wf ps" and "canonical_section q" and "ps_section_y q \<notin> ps_section_y ` set ps"
  shows "sections_wf (sort_key ps_section_y (ps @ [q]))"
proof -
  have "distinct (map ps_section_y (ps @ [q]))"
    using sections_wf_distinct [OF assms(1)] assms(3) by simp
  moreover have "mset (map ps_section_y (sort_key ps_section_y (ps @ [q]))) = mset (map ps_section_y (ps @ [q]))"
    by (simp only: mset_map mset_sort)
  ultimately have "distinct (map ps_section_y (sort_key ps_section_y (ps @ [q])))"
    using mset_eq_imp_distinct_iff by blast
  then have "sorted_wrt (<) (map ps_section_y (sort_key ps_section_y (ps @ [q])))"
    by (simp only: strict_sorted_iff sorted_sort_key simp_thms)
  then show ?thesis using assms by (auto simp: sections_wf_def)
qed

section \<open>Patching refines point updates\<close>

definition section_in_range :: "chunk_snapshot \<Rightarrow> int \<Rightarrow> bool" where
  "section_in_range s y \<longleftrightarrow> cs_min_y s \<le> wrap_i32 (y * section_height)
     \<and> wrap_i32 (y * section_height) < wrap_i32 (cs_min_y s + cs_height s)"

definition updated_view ::
  "packed_section list \<Rightarrow> int \<Rightarrow> block_state_id list \<Rightarrow> packed_section list \<Rightarrow> bool" where
  "updated_view ps y blocks qs \<longleftrightarrow> sections_wf qs
     \<and> (\<forall>y'. section_view qs y' = (if y' = y then blocks else section_view ps y'))"

lemma updated_viewI:
  assumes "sections_wf ps" and "sections_wf qs"
    and rest: "{p \<in> set qs. ps_section_y p \<noteq> y} = {p \<in> set ps. ps_section_y p \<noteq> y}"
    and here: "section_view qs y = blocks"
  shows "updated_view ps y blocks qs"
proof -
  have "section_view qs y' = section_view ps y'" if "y' \<noteq> y" for y'
  proof (rule section_view_cong [OF sections_wf_distinct sections_wf_distinct])
    show "{p \<in> set qs. ps_section_y p = y'} = {p \<in> set ps. ps_section_y p = y'}"
      using rest that by blast
  qed (rule assms)+
  with assms(2) here show ?thesis by (simp add: updated_view_def)
qed

lemma updated_view_remove:
  assumes "sections_wf ps" and "section_position y ps = Some i"
  shows "updated_view ps y (replicate 4096 0) (remove_at i ps)"
proof -
  have i: "i < length ps" "ps_section_y (ps ! i) = y" using section_position_Some [OF assms(2)] by auto
  note rm = remove_at_sections [OF assms(1) i(1)]
  have set_rm: "set (remove_at i ps) = {p \<in> set ps. ps_section_y p \<noteq> y}" using rm(2) i(2) by simp
  then have "section_view (remove_at i ps) y = replicate 4096 0"
    by (intro section_view_absent) auto
  moreover have "{p \<in> set (remove_at i ps). ps_section_y p \<noteq> y} = {p \<in> set ps. ps_section_y p \<noteq> y}"
    using set_rm by auto
  ultimately show ?thesis by (intro updated_viewI assms(1) rm(1))
qed

lemma updated_view_replace:
  assumes "sections_wf ps" and "section_position y ps = Some i"
    and q: "canonical_section q" "ps_section_y q = y" "unpack_block_state_ids q = Some blocks"
  shows "updated_view ps y blocks (ps[i := q])"
proof -
  have i: "i < length ps" "ps_section_y (ps ! i) = y" using section_position_Some [OF assms(2)] by auto
  have same: "ps_section_y q = ps_section_y (ps ! i)" using i(2) q(2) by simp
  note rep = replace_sections [OF assms(1) i(1) q(1) same]
  have "section_view (ps[i := q]) y = blocks"
    using section_view_member [OF sections_wf_distinct [OF rep(1)] rep(2)] q(2,3) by simp
  with rep q(2) show ?thesis by (intro updated_viewI assms(1)) simp_all
qed

lemma updated_view_insert:
  assumes "sections_wf ps" and "section_position y ps = None"
    and q: "canonical_section q" "ps_section_y q = y" "unpack_block_state_ids q = Some blocks"
  shows "updated_view ps y blocks (sort_key ps_section_y (ps @ [q]))"
proof -
  have fresh: "ps_section_y q \<notin> ps_section_y ` set ps"
    using assms(2) q(2) by (simp add: section_position_None)
  note wf = insert_sections [OF assms(1) q(1) fresh]
  show ?thesis
    using q section_view_member [OF sections_wf_distinct [OF wf], of q]
    by (intro updated_viewI assms(1) wf) auto
qed

lemma section_blocks_read:
  assumes "sections_wf (cs_sections s)"
  shows "(case section_position y (cs_sections s) of
      None \<Rightarrow> Some (replicate 4096 0)
    | Some index \<Rightarrow> unpack_block_state_ids (cs_sections s ! index))
    = Some (section_view (cs_sections s) y)"
proof (cases "section_position y (cs_sections s)")
  case None
  then show ?thesis by (simp add: section_view_def)
next
  case (Some i)
  then have "canonical_section (cs_sections s ! i)"
    using assms section_position_Some [OF Some] by (auto simp: sections_wf_def)
  then obtain blocks where "unpack_block_state_ids (cs_sections s ! i) = Some blocks"
    by (rule canonical_unpack)
  with Some show ?thesis by (simp add: section_view_def)
qed

lemma all_air_replicate: "length bs = n \<Longrightarrow> \<forall>b\<in>set bs. b = a \<Longrightarrow> bs = replicate n a"
  by (metis replicate_eqI)

lemma patch_section_blocks_cases:
  assumes wf: "sections_wf (cs_sections s)" and ok: "\<forall>u\<in>set updates. update_in_bounds u"
    and ne: "updates \<noteq> []" and range: "section_in_range s y"
  shows "\<exists>n qs. patch_section_blocks s y updates = Some (n, s\<lparr>cs_sections := qs\<rparr>)
    \<and> updated_view (cs_sections s) y (write_updates updates (section_view (cs_sections s) y)) qs
    \<and> (n = 0 \<longrightarrow> qs = cs_sections s)"
proof -
  let ?ps = "cs_sections s"
  let ?old = "section_view ?ps y"
  let ?new = "write_updates updates ?old"
  obtain n where n: "apply_updates updates ?old 0 = Some (?new, n)" "n = 0 \<longrightarrow> ?new = ?old"
    using apply_updates_eq [OF ok length_section_view [OF wf, of y], of 0] by auto
  have guard: "\<not> (wrap_i32 (y * 16) < cs_min_y s \<or> wrap_i32 (cs_min_y s + cs_height s) \<le> wrap_i32 (y * 16))"
    using range by (simp add: section_in_range_def not_less not_le)
  have asserted: "assert_that (\<forall>u\<in>set updates. update_in_bounds u) = Some ()"
    using ok by (simp add: assert_that_def)
  have patch: "patch_section_blocks s y updates =
     (if n = 0 then Some (0, s)
      else if \<forall>b\<in>set ?new. b = 0 then
        Some (n, case section_position y ?ps of None \<Rightarrow> s
          | Some index \<Rightarrow> s\<lparr>cs_sections := remove_at index ?ps\<rparr>)
      else do {
        packed \<leftarrow> pack_section y ?new;
        Some (n, case section_position y ?ps of
            Some index \<Rightarrow> s\<lparr>cs_sections := ?ps[index := packed]\<rparr>
          | None \<Rightarrow> s\<lparr>cs_sections := sort_key ps_section_y (?ps @ [packed])\<rparr>)
      })"
    unfolding patch_section_blocks_def Let_def section_blocks_read [OF wf] asserted bind.bind_lunit
    using ne guard by (simp add: n(1))
  consider "n = 0" | "0 < n" "\<forall>b\<in>set ?new. b = 0" | "0 < n" "\<exists>b\<in>set ?new. b \<noteq> 0"
    by blast
  then show ?thesis
  proof cases
    case 1
    then have "patch_section_blocks s y updates = Some (0, s)"
      by (simp add: patch)
    then show ?thesis using 1 n(2) wf by (intro exI [of _ 0] exI [of _ ?ps]) (simp add: updated_view_def)
  next
    case 2
    have air: "?new = replicate 4096 0"
      using 2(2) length_section_view [OF wf, of y] by (intro all_air_replicate) simp_all
    show ?thesis
    proof (cases "section_position y ?ps")
      case None
      then have "patch_section_blocks s y updates = Some (n, s)"
        using 2 by (simp add: patch)
      moreover have "?old = replicate 4096 0" using None by (simp add: section_view_def)
      ultimately show ?thesis
        using air wf by (intro exI [of _ n] exI [of _ ?ps]) (simp add: updated_view_def)
    next
      case (Some i)
      then have "patch_section_blocks s y updates = Some (n, s\<lparr>cs_sections := remove_at i ?ps\<rparr>)"
        using 2 by (simp add: patch)
      then show ?thesis using updated_view_remove [OF wf Some] air 2(1) by auto
    qed
  next
    case 3
    obtain q where q: "pack_section y ?new = Some q" "ps_section_y q = y" "canonical_section q"
      "unpack_block_state_ids q = Some ?new"
      using pack_section_canonical [OF _ 3(2)] length_section_view [OF wf, of y] by auto
    show ?thesis
    proof (cases "section_position y ?ps")
      case None
      then have "patch_section_blocks s y updates
          = Some (n, s\<lparr>cs_sections := sort_key ps_section_y (?ps @ [q])\<rparr>)"
        using 3 q(1) by (auto simp: patch)
      then show ?thesis using updated_view_insert [OF wf None q(3,2,4)] 3(1) by auto
    next
      case (Some i)
      then have "patch_section_blocks s y updates = Some (n, s\<lparr>cs_sections := ?ps[i := q]\<rparr>)"
        using 3 q(1) by (auto simp: patch)
      then show ?thesis using updated_view_replace [OF wf Some q(3,2,4)] 3(1) by auto
    qed
  qed
qed

text \<open>Nothing happens outside the vertical range, and panics are exactly the local bounds.\<close>

lemma patch_section_blocks_outside:
  assumes "\<forall>u\<in>set updates. update_in_bounds u" and "\<not> section_in_range s y"
  shows "patch_section_blocks s y updates = Some (0, s)"
proof -
  have "assert_that (\<forall>u\<in>set updates. update_in_bounds u) = Some ()" using assms(1) by (simp add: assert_that_def)
  moreover have "wrap_i32 (y * 16) < cs_min_y s \<or> wrap_i32 (cs_min_y s + cs_height s) \<le> wrap_i32 (y * 16)"
    using assms(2) by (auto simp: section_in_range_def)
  ultimately show ?thesis unfolding patch_section_blocks_def Let_def by auto
qed

section \<open>Construction\<close>

lemma section_view_Cons:
  "section_view (p # ps) y = (if ps_section_y p = y then the (unpack_block_state_ids p) else section_view ps y)"
  by (simp add: section_view_def split: option.split)

definition section_slice :: "nat \<Rightarrow> block_state_id list \<Rightarrow> block_state_id list" where
  "section_slice k blocks = take chunk_section_volume (drop (k * chunk_section_volume) blocks)"

lemma section_loop_slices:
  assumes "in_i32 m" and "in_i32 (m + int n)" and "length blocks = n * 4096"
  shows "a \<le> n \<Longrightarrow> \<exists>ps. section_loop m blocks [a..<n] = Some ps \<and> sections_wf ps
     \<and> (\<forall>p\<in>set ps. m + int a \<le> ps_section_y p \<and> ps_section_y p < m + int n)
     \<and> (\<forall>k. a \<le> k \<and> k < n \<longrightarrow> section_view ps (m + int k) = section_slice k blocks)"
proof (induction "n - a" arbitrary: a)
  case 0
  then show ?case by (auto simp: sections_wf_def)
next
  case (Suc d)
  have a: "a < n" using Suc.hyps(2) by simp
  obtain ps where ps: "section_loop m blocks [Suc a..<n] = Some ps" "sections_wf ps"
    "\<forall>p\<in>set ps. m + int (Suc a) \<le> ps_section_y p \<and> ps_section_y p < m + int n"
    "\<forall>k. Suc a \<le> k \<and> k < n \<longrightarrow> section_view ps (m + int k) = section_slice k blocks"
  proof -
    have "d = n - Suc a" "Suc a \<le> n" using Suc.hyps(2) by simp_all
    from Suc.hyps(1) [OF this] show thesis using that by blast
  qed
  have "a * 4096 + 4096 \<le> n * 4096" using a by simp
  then have len: "length (section_slice a blocks) = 4096" using assms(3) by (simp add: section_slice_def)
  have wrap: "wrap_i32 (m + int a) = m + int a"
    using assms(1,2) a by (intro wrap_i32_id) (simp add: in_i32_def)
  have later: "(a \<le> k \<and> k < n) = (k = a \<or> Suc a \<le> k \<and> k < n)" for k using a by auto
  have absent: "section_view ps (m + int a) = replicate 4096 0"
    using ps(3) by (intro section_view_absent) force
  show ?case
  proof (cases "\<forall>b\<in>set (section_slice a blocks). b = 0")
    case True
    then have "section_slice a blocks = replicate 4096 0" by (rule all_air_replicate [OF len])
    then have "\<forall>k. a \<le> k \<and> k < n \<longrightarrow> section_view ps (m + int k) = section_slice k blocks"
      using ps(4) absent by (auto simp: later)
    moreover have "section_loop m blocks [a..<n] = Some ps"
      using True ps(1) by (simp add: upt_conv_Cons [OF a] section_slice_def)
    ultimately show ?thesis using ps(2,3) by (intro exI [of _ ps]) auto
  next
    case False
    then obtain q where q: "pack_section (m + int a) (section_slice a blocks) = Some q" "ps_section_y q = m + int a"
      "canonical_section q" "unpack_block_state_ids q = Some (section_slice a blocks)"
      using pack_section_canonical [OF len] by blast
    have "section_loop m blocks [a..<n] = Some (q # ps)"
      using False ps(1) q(1) wrap by (auto simp: upt_conv_Cons [OF a] section_slice_def Let_def)
    moreover have "sections_wf (q # ps)"
      using ps(2,3) q(2,3) by (auto simp: sections_wf_def)
    moreover have "\<forall>p\<in>set (q # ps). m + int a \<le> ps_section_y p \<and> ps_section_y p < m + int n"
      using ps(3) q(2) a by auto
    moreover have "\<forall>k. a \<le> k \<and> k < n \<longrightarrow> section_view (q # ps) (m + int k) = section_slice k blocks"
      using ps(4) q(2,4) by (auto simp: later section_view_Cons)
    ultimately show ?thesis by (intro exI [of _ "q # ps"]) simp
  qed
qed

lemma snapshot_construction:
  assumes "in_i32 min_y" and "in_i32 (min_y + height)" and "16 dvd min_y" and "16 dvd height"
    and "0 < height" and "length blocks = nat height * 256"
  shows "\<exists>s. snapshot_from_block_state_ids pos st revision min_y height blocks = Some s
     \<and> sections_wf (cs_sections s)
     \<and> (\<forall>k<nat (height div 16). section_view (cs_sections s) (min_y div 16 + int k) = section_slice k blocks)
     \<and> (\<forall>y. y < min_y div 16 \<or> (min_y + height) div 16 \<le> y
          \<longrightarrow> section_view (cs_sections s) y = replicate chunk_section_volume air_block_state_id)"
proof -
  let ?m = "min_y div 16" and ?n = "nat (height div 16)"
  have sum: "(min_y + height) div 16 = ?m + int ?n"
    using assms(3,5) by (simp add: div_plus_div_distrib_dvd_left)
  have len: "length blocks = ?n * 4096"
    using assms(4-6) by (auto elim!: dvdE simp: nat_mult_distrib)
  have small: "in_i32 ?m" "in_i32 (?m + int ?n)"
    using assms(1,2) by (simp_all only: sum [symmetric]) (auto simp: in_i32_def)
  obtain ps where ps: "section_loop ?m blocks [0..<?n] = Some ps" "sections_wf ps"
    "\<forall>p\<in>set ps. ?m \<le> ps_section_y p \<and> ps_section_y p < ?m + int ?n"
    "\<forall>k<?n. section_view ps (?m + int k) = section_slice k blocks"
    using section_loop_slices [OF small len le0] by (auto simp del: int_nat_eq)
  have "rust_div min_y 16 = ?m" using assms(3) by (simp add: rust_div_exact)
  moreover have "rust_div height 16 = height div 16" using assms(5) by simp
  ultimately have "snapshot_from_block_state_ids pos st revision min_y height blocks
      = Some \<lparr>cs_pos = pos, cs_status = st, cs_revision = revision, cs_min_y = min_y, cs_height = height,
          cs_biomes = [], cs_sections = ps, cs_light_correct = False, cs_light_sections = []\<rparr>"
    using assms ps(1) by (simp add: snapshot_from_block_state_ids_def rust_rem_zero_iff)
  moreover have "section_view ps y = replicate 4096 0" if "y < ?m \<or> ?m + int ?n \<le> y" for y
    using ps(3) that by (intro section_view_absent) force
  ultimately show ?thesis using ps(2,4) sum by auto
qed

end
