(* ===== verification/CoreTopology.thy ===== *)
theory CoreTopology imports CorePos
begin

text \<open>
  Horizontal world topology of \<open>native/crates/mclone-core/src/topology.rs\<close>: an axis is unbounded,
  finite or periodic; coordinates are canonicalised at authority boundaries, displacements are taken
  the short way round and a square view lists every canonical chunk once.  Errors of the code
  (\<open>TopologyError\<close>) are the left values of a sum; a division by a zero period, which only an
  unvalidated axis can reach, is the panic \<open>None\<close>.  The floating-point operations of the file
  (\<open>canonical_position\<close>, \<open>nearest_chunk_lift\<close> and their kin) are not modelled.
\<close>

datatype axis_topology =
    Unbounded
  | Finite (minimum_chunk: int) (maximum_chunk_exclusive: int)
  | Periodic (periodic_minimum: int) (periodic_period: nat)

datatype topology_error =
    EmptyFiniteAxis int int
  | ZeroPeriod
  | ChunkExtentOverflow
  | BlockExtentOverflow
  | ViewContainsDuplicateLift nat nat
  | ViewRadiusOverflow
  | DuplicateCanonicalChunk chunk_pos

section \<open>One axis\<close>

definition validate_block_aligned_extent :: "int \<Rightarrow> int \<Rightarrow> topology_error + unit" where
  "validate_block_aligned_extent minimum maximum =
     (let minimum_block = minimum * chunk_width;
          maximum_block = maximum * chunk_width in
      if minimum_block < i32_min \<or> i32_max < maximum_block then Inl BlockExtentOverflow else Inr ())"

fun validate_axis :: "axis_topology \<Rightarrow> topology_error + unit" where
  "validate_axis Unbounded = Inr ()"
| "validate_axis (Finite minimum maximum) =
     (if maximum \<le> minimum then Inl (EmptyFiniteAxis minimum maximum)
      else validate_block_aligned_extent minimum maximum)"
| "validate_axis (Periodic minimum period) =
     (if period = 0 then Inl ZeroPeriod
      else
        let maximum = minimum + int period in
        if i32_max < maximum then Inl ChunkExtentOverflow
        else validate_block_aligned_extent minimum (wrap_i32 maximum))"

fun axis_is_unbounded :: "axis_topology \<Rightarrow> bool" where
  "axis_is_unbounded Unbounded = True"
| "axis_is_unbounded _ = False"

fun period_chunks :: "axis_topology \<Rightarrow> nat option" where
  "period_chunks (Periodic minimum period) = Some period"
| "period_chunks _ = None"

text \<open>The outer option is the panic, the inner one the code's \<open>Option\<close>.\<close>

fun canonical_chunk_i64 :: "axis_topology \<Rightarrow> int \<Rightarrow> int option option" where
  "canonical_chunk_i64 Unbounded c = Some (if in_i32 c then Some c else None)"
| "canonical_chunk_i64 (Finite minimum maximum) c =
     Some (if minimum \<le> c \<and> c < maximum then Some (wrap_i32 c) else None)"
| "canonical_chunk_i64 (Periodic minimum period) c = do {
     r \<leftarrow> rem_euclid (c - minimum) (int period);
     Some (Some (wrap_i32 (minimum + r)))
   }"

definition canonical_chunk :: "axis_topology \<Rightarrow> int \<Rightarrow> int option option" where
  "canonical_chunk axis c = canonical_chunk_i64 axis c"

fun canonical_block :: "axis_topology \<Rightarrow> int \<Rightarrow> int option option" where
  "canonical_block Unbounded c = Some (Some c)"
| "canonical_block (Finite minimum_c maximum_c) c =
     (let minimum = minimum_c * chunk_width;
          maximum = maximum_c * chunk_width in
      Some (if minimum \<le> c \<and> c < maximum then Some (wrap_i32 c) else None))"
| "canonical_block (Periodic minimum_c period_c) c = do {
     let minimum = minimum_c * chunk_width;
     let period = int period_c * chunk_width;
     r \<leftarrow> rem_euclid (c - minimum) period;
     Some (Some (wrap_i32 (minimum + r)))
   }"

definition shortest_integer_displacement :: "int \<Rightarrow> int \<Rightarrow> int \<Rightarrow> int option" where
  "shortest_integer_displacement from_c to_c period = do {
     delta \<leftarrow> rem_euclid (to_c - from_c) period;
     Some (if period < delta * 2 then delta - period else delta)
   }"

fun shortest_chunk_displacement :: "axis_topology \<Rightarrow> int \<Rightarrow> int \<Rightarrow> int option" where
  "shortest_chunk_displacement (Periodic _ period) from_c to_c =
     shortest_integer_displacement from_c to_c (int period)"
| "shortest_chunk_displacement _ from_c to_c = Some (to_c - from_c)"

fun shortest_block_displacement :: "axis_topology \<Rightarrow> int \<Rightarrow> int \<Rightarrow> int option" where
  "shortest_block_displacement (Periodic _ period) from_c to_c =
     shortest_integer_displacement from_c to_c (int period * chunk_width)"
| "shortest_block_displacement _ from_c to_c = Some (to_c - from_c)"

section \<open>Both axes\<close>

record horizontal_topology =
  ht_x :: axis_topology
  ht_z :: axis_topology

definition topology_unbounded :: horizontal_topology where
  "topology_unbounded = \<lparr>ht_x = Unbounded, ht_z = Unbounded\<rparr>"

definition cylinder_x :: "int \<Rightarrow> nat \<Rightarrow> horizontal_topology" where
  "cylinder_x minimum period = \<lparr>ht_x = Periodic minimum period, ht_z = Unbounded\<rparr>"

definition topology_validate :: "horizontal_topology \<Rightarrow> topology_error + unit" where
  "topology_validate t = (case validate_axis (ht_x t) of Inl e \<Rightarrow> Inl e | Inr _ \<Rightarrow> validate_axis (ht_z t))"

definition topology_is_unbounded :: "horizontal_topology \<Rightarrow> bool" where
  "topology_is_unbounded t \<longleftrightarrow> axis_is_unbounded (ht_x t) \<and> axis_is_unbounded (ht_z t)"

text \<open>\<open>Some(f(x?, z?))\<close>: the second axis is only consulted when the first gives a value.\<close>

definition both_axes :: "int option option \<Rightarrow> int option option \<Rightarrow> (int \<times> int) option option" where
  "both_axes px pz = do {
     x \<leftarrow> px;
     (case x of None \<Rightarrow> Some None
      | Some cx \<Rightarrow> do {
          z \<leftarrow> pz;
          Some (case z of None \<Rightarrow> None | Some cz \<Rightarrow> Some (cx, cz))
        })
   }"

definition canonicalize_chunk :: "horizontal_topology \<Rightarrow> chunk_pos \<Rightarrow> chunk_pos option option" where
  "canonicalize_chunk t p = map_option (map_option (\<lambda>(x, z). ChunkPos x z))
     (both_axes (canonical_chunk (ht_x t) (cp_x p)) (canonical_chunk (ht_z t) (cp_z p)))"

definition canonicalize_block :: "horizontal_topology \<Rightarrow> block_pos \<Rightarrow> block_pos option option" where
  "canonicalize_block t p = map_option (map_option (\<lambda>(x, z). BlockPos x (bp_y p) z))
     (both_axes (canonical_block (ht_x t) (bp_x p)) (canonical_block (ht_z t) (bp_z p)))"

definition neighbor_chunk :: "horizontal_topology \<Rightarrow> chunk_pos \<Rightarrow> int \<Rightarrow> int \<Rightarrow> chunk_pos option option" where
  "neighbor_chunk t p dx dz = map_option (map_option (\<lambda>(x, z). ChunkPos x z))
     (both_axes (canonical_chunk_i64 (ht_x t) (cp_x p + dx)) (canonical_chunk_i64 (ht_z t) (cp_z p + dz)))"

definition neighbor_block ::
  "horizontal_topology \<Rightarrow> block_pos \<Rightarrow> int \<Rightarrow> int \<Rightarrow> int \<Rightarrow> block_pos option option" where
  "neighbor_block t p dx dy dz =
     (let x = bp_x p + dx; y = bp_y p + dy; z = bp_z p + dz in
      if in_i32 x \<and> in_i32 y \<and> in_i32 z then canonicalize_block t (BlockPos x y z) else Some None)"

definition topology_shortest_chunk_displacement ::
  "horizontal_topology \<Rightarrow> chunk_pos \<Rightarrow> chunk_pos \<Rightarrow> (int \<times> int) option" where
  "topology_shortest_chunk_displacement t p q = do {
     x \<leftarrow> shortest_chunk_displacement (ht_x t) (cp_x p) (cp_x q);
     z \<leftarrow> shortest_chunk_displacement (ht_z t) (cp_z p) (cp_z q);
     Some (x, z)
   }"

fun validate_lift_axes :: "axis_topology list \<Rightarrow> nat \<Rightarrow> topology_error + unit" where
  "validate_lift_axes [] radius = Inr ()"
| "validate_lift_axes (axis # axes) radius = (case period_chunks axis of
     Some period \<Rightarrow> if period < radius * 2 + 1 then Inl (ViewContainsDuplicateLift radius period)
                    else validate_lift_axes axes radius
   | None \<Rightarrow> validate_lift_axes axes radius)"

definition validate_one_lift_radius :: "horizontal_topology \<Rightarrow> nat \<Rightarrow> topology_error + unit" where
  "validate_one_lift_radius t radius = validate_lift_axes [ht_x t, ht_z t] radius"

section \<open>Views\<close>

datatype lifted_chunk_pos = LiftedChunkPos (lifted_x: int) (lifted_z: int)

record chunk_lift =
  cl_canonical :: chunk_pos
  cl_lifted :: lifted_chunk_pos

text \<open>The offsets \<open>(dx, dz)\<close> in the order of the two nested loops.\<close>

definition view_offsets :: "int \<Rightarrow> (int \<times> int) list" where
  "view_offsets radius = concat (map (\<lambda>dz. map (\<lambda>dx. (dx, dz)) [- radius..radius]) [- radius..radius])"

fun view_loop ::
  "horizontal_topology \<Rightarrow> chunk_pos \<Rightarrow> (int \<times> int) list \<Rightarrow> chunk_pos fset \<Rightarrow> chunk_lift list
    \<Rightarrow> (topology_error + chunk_lift list) option" where
  "view_loop t center [] canonical_seen result = Some (Inr result)"
| "view_loop t center ((dx, dz) # offsets) canonical_seen result = do {
     canonical \<leftarrow> neighbor_chunk t center dx dz;
     (case canonical of
        None \<Rightarrow> view_loop t center offsets canonical_seen result
      | Some canonical \<Rightarrow>
          if canonical |\<in>| canonical_seen then Some (Inl (DuplicateCanonicalChunk canonical))
          else view_loop t center offsets (finsert canonical canonical_seen)
            (result @ [\<lparr>cl_canonical = canonical,
               cl_lifted = LiftedChunkPos (cp_x center + dx) (cp_z center + dz)\<rparr>]))
   }"

definition chunk_view ::
  "horizontal_topology \<Rightarrow> chunk_pos \<Rightarrow> nat \<Rightarrow> (topology_error + chunk_lift list) option" where
  "chunk_view t center_lift radius = (case topology_validate t of
     Inl e \<Rightarrow> Some (Inl e)
   | Inr _ \<Rightarrow> (case validate_one_lift_radius t radius of
       Inl e \<Rightarrow> Some (Inl e)
     | Inr _ \<Rightarrow>
         if i32_max < int radius then Some (Inl ViewRadiusOverflow)
         else view_loop t center_lift (view_offsets (int radius)) {||} []))"

section \<open>Meaning of a validated axis\<close>

definition axis_wf :: "axis_topology \<Rightarrow> bool" where
  "axis_wf a \<longleftrightarrow> validate_axis a = Inr () \<and> (case a of Unbounded \<Rightarrow> True
     | Finite lo hi \<Rightarrow> in_i32 lo \<and> in_i32 hi | Periodic lo p \<Rightarrow> in_i32 lo \<and> p < 2 ^ 32)"

definition topology_wf :: "horizontal_topology \<Rightarrow> bool" where
  "topology_wf t \<longleftrightarrow> axis_wf (ht_x t) \<and> axis_wf (ht_z t)"

fun axis_contains :: "axis_topology \<Rightarrow> int \<Rightarrow> bool" where
  "axis_contains Unbounded c = in_i32 c"
| "axis_contains (Finite lo hi) c = (lo \<le> c \<and> c < hi)"
| "axis_contains (Periodic lo p) c = (lo \<le> c \<and> c < lo + int p)"

text \<open>Two lifts of the same place.\<close>

fun axis_congruent :: "axis_topology \<Rightarrow> int \<Rightarrow> int \<Rightarrow> bool" where
  "axis_congruent (Periodic lo p) c d = (int p dvd c - d)"
| "axis_congruent _ c d = (c = d)"

definition representative :: "axis_topology \<Rightarrow> int \<Rightarrow> int option" where
  "representative a c = (case a of Periodic lo p \<Rightarrow> Some (lo + (c - lo) mod int p)
     | _ \<Rightarrow> if axis_contains a c then Some c else None)"

lemma axis_wf_Periodic:
  assumes "axis_wf (Periodic lo p)"
  shows "0 < p" and "in_i32 lo" and "in_i32 (lo + int p)"
    and "- 2147483648 \<le> lo * 16" and "(lo + int p) * 16 \<le> 2147483647"
proof -
  have h: "p \<noteq> 0" "in_i32 lo" "\<not> 2147483647 < lo + int p"
    "validate_block_aligned_extent lo (wrap_i32 (lo + int p)) = Inr ()"
    using assms by (auto simp: axis_wf_def Let_def split: if_splits)
  then have w: "in_i32 (lo + int p)" by (auto simp: in_i32_def)
  have "\<not> (lo * 16 < - 2147483648 \<or> 2147483647 < (lo + int p) * 16)"
    using h(4) w by (simp add: validate_block_aligned_extent_def wrap_i32_id Let_def split: if_splits)
  with h w show "0 < p" "in_i32 lo" "in_i32 (lo + int p)"
    "- 2147483648 \<le> lo * 16" "(lo + int p) * 16 \<le> 2147483647" by simp_all
qed

lemma axis_wf_Finite:
  assumes "axis_wf (Finite lo hi)"
  shows "lo < hi" and "in_i32 lo" and "in_i32 hi"
    and "- 2147483648 \<le> lo * 16" and "hi * 16 \<le> 2147483647"
proof -
  have h: "\<not> hi \<le> lo" "in_i32 lo" "in_i32 hi" "validate_block_aligned_extent lo hi = Inr ()"
    using assms by (auto simp: axis_wf_def split: if_splits)
  then have "\<not> (lo * 16 < - 2147483648 \<or> 2147483647 < hi * 16)"
    by (simp add: validate_block_aligned_extent_def Let_def split: if_splits)
  with h show "lo < hi" "in_i32 lo" "in_i32 hi" "- 2147483648 \<le> lo * 16" "hi * 16 \<le> 2147483647"
    by simp_all
qed

lemma periodic_reduce_bounds:
  assumes "0 < p"
  shows "lo \<le> lo + (c - lo) mod int p" and "lo + (c - lo) mod int p < lo + int p"
  using assms by simp_all

lemma canonical_chunk_i64_eq:
  assumes "axis_wf a"
  shows "canonical_chunk_i64 a c = Some (representative a c)"
proof (cases a)
  case (Finite lo hi)
  then have "in_i32 c" if "lo \<le> c" "c < hi"
    using axis_wf_Finite [of lo hi] assms that by (auto simp: in_i32_def)
  with Finite show ?thesis by (simp add: representative_def wrap_i32_id)
next
  case (Periodic lo p)
  note wf = axis_wf_Periodic [OF assms [unfolded Periodic]]
  have "in_i32 (lo + (c - lo) mod int p)"
    using periodic_reduce_bounds [OF wf(1), of lo c] wf(2,3) by (simp only: in_i32_def) linarith
  with Periodic wf(1) show ?thesis by (simp add: representative_def wrap_i32_id)
qed (simp add: representative_def)

lemma representative_congruent:
  "axis_congruent a c d \<Longrightarrow> representative a c = representative a d"
  by (cases a) (simp_all add: representative_def mod_eq_dvd_iff algebra_simps)

lemma representative_Some:
  assumes "axis_wf a" and "representative a c = Some r"
  shows "axis_contains a r" and "axis_congruent a r c" and "representative a r = Some r"
proof -
  have "axis_contains a r \<and> axis_congruent a r c \<and> representative a r = Some r"
  proof (cases a)
    case (Periodic lo p)
    have "lo + (c - lo) mod int p - c = - ((c - lo) - (c - lo) mod int p)" by simp
    then have "int p dvd lo + (c - lo) mod int p - c"
      by (simp only: dvd_minus_iff dvd_minus_mod)
    then show ?thesis
      using Periodic assms axis_wf_Periodic(1) [of lo p] by (auto simp: representative_def)
  qed (use assms in \<open>auto simp: representative_def split: if_splits\<close>)
  then show "axis_contains a r" "axis_congruent a r c" "representative a r = Some r" by simp_all
qed

lemma representative_None:
  assumes "representative a c = None" and "axis_congruent a d c"
  shows "\<not> axis_contains a d"
  using assms by (cases a) (auto simp: representative_def split: if_splits)

text \<open>Canonicalisation picks the one representative inside the axis, if there is one.\<close>

lemma canonical_chunk_spec:
  assumes "axis_wf a"
  shows "(\<exists>r. canonical_chunk_i64 a c = Some (Some r) \<and> axis_contains a r \<and> axis_congruent a r c
            \<and> canonical_chunk_i64 a r = Some (Some r))
       \<or> canonical_chunk_i64 a c = Some None \<and> (\<forall>d. axis_congruent a d c \<longrightarrow> \<not> axis_contains a d)"
proof (cases "representative a c")
  case None
  then show ?thesis
    using representative_None [OF None] by (simp add: canonical_chunk_i64_eq [OF assms])
next
  case (Some r)
  then show ?thesis
    using representative_Some [OF assms Some] by (simp add: canonical_chunk_i64_eq [OF assms])
qed

text \<open>The chunk of a canonical block is the canonical chunk of the block, at the same local place.\<close>

lemma periodic_block_chunk:
  fixes lo c :: int
  assumes "0 < p"
  shows "(lo * 16 + (c - lo * 16) mod (int p * 16)) div 16 = lo + (c div 16 - lo) mod int p"
    and "(lo * 16 + (c - lo * 16) mod (int p * 16)) mod 16 = c mod 16"
proof -
  let ?d = "c - lo * 16"
  have "?d mod (16 * int p) = 16 * (?d div 16 mod int p) + ?d mod 16"
    by (rule zmod_zmult2_eq) simp
  moreover have "?d div 16 = c div 16 - lo" "?d mod 16 = c mod 16"
    using div_mult_self1 [of 16 c "- lo"] mod_mult_self1 [of c "- lo" 16] by simp_all
  moreover obtain q where q: "q = lo + (c div 16 - lo) mod int p" by simp
  ultimately have e: "lo * 16 + ?d mod (int p * 16) = 16 * q + c mod 16"
    by (simp add: mult.commute)
  show "(lo * 16 + ?d mod (int p * 16)) div 16 = lo + (c div 16 - lo) mod int p"
    "(lo * 16 + ?d mod (int p * 16)) mod 16 = c mod 16"
    by (simp_all only: e q [symmetric]) simp_all
qed

lemma canonical_block_chunk:
  assumes wf: "axis_wf a" and c: "in_i32 c"
  shows "\<exists>r. canonical_block a c = Some r
     \<and> canonical_chunk a (block_to_chunk_coord c) = Some (map_option block_to_chunk_coord r)
     \<and> (\<forall>b. r = Some b \<longrightarrow> in_i32 b \<and> local_block_coord b = local_block_coord c)"
proof (cases a)
  case Unbounded
  have "in_i32 (c div 16)" using c by (auto simp: in_i32_def)
  then show ?thesis using Unbounded c by (simp add: canonical_chunk_def block_to_chunk_coord_def)
next
  case (Finite lo hi)
  note f = axis_wf_Finite [OF wf [unfolded Finite]]
  have "c = 16 * (c div 16) + c mod 16" "0 \<le> c mod 16" "c mod 16 < 16" by simp_all
  then have "lo \<le> c div 16 \<longleftrightarrow> lo * 16 \<le> c" "c div 16 < hi \<longleftrightarrow> c < hi * 16"
    by linarith+
  then have inside: "axis_contains a (c div 16) \<longleftrightarrow> lo * 16 \<le> c \<and> c < hi * 16" by (simp add: Finite)
  have chunk: "canonical_chunk a (c div 16) = Some (if axis_contains a (c div 16) then Some (c div 16) else None)"
    using canonical_chunk_i64_eq [OF wf, of "c div 16"] by (simp add: Finite canonical_chunk_def representative_def)
  have "canonical_block a c = Some (if axis_contains a (c div 16) then Some c else None)"
    unfolding inside using c by (simp add: Finite Let_def wrap_i32_id)
  with chunk c show ?thesis
    by (cases "axis_contains a (c div 16)") (simp_all add: block_to_chunk_coord_def)
next
  case (Periodic lo p)
  note f = axis_wf_Periodic [OF wf [unfolded Periodic]]
  let ?b = "lo * 16 + (c - lo * 16) mod (int p * 16)"
  have m: "0 \<le> (c - lo * 16) mod (int p * 16)" "(c - lo * 16) mod (int p * 16) < int p * 16"
    using f(1) by simp_all
  have hi: "lo * 16 + int p * 16 \<le> 2147483647" using f(5) by (simp add: distrib_right)
  have "in_i32 ?b" by (rule in_i32I) (use m f(4) hi in linarith)+
  then have "canonical_block a c = Some (Some ?b)"
    using f(1) by (simp add: Periodic Let_def wrap_i32_id)
  moreover have "canonical_chunk a (c div 16) = Some (Some (?b div 16))"
    using canonical_chunk_i64_eq [OF wf, of "c div 16"] periodic_block_chunk(1) [OF f(1)]
    by (simp add: Periodic canonical_chunk_def representative_def)
  ultimately show ?thesis
    using \<open>in_i32 ?b\<close> periodic_block_chunk(2) [OF f(1)]
    by (simp add: block_to_chunk_coord_def local_block_coord_def)
qed

section \<open>Shortest displacement\<close>

lemma shortest_integer_displacement_spec:
  assumes "0 < p"
  shows "\<exists>d. shortest_integer_displacement f t p = Some d \<and> p dvd f + d - t
     \<and> - p < 2 * d \<and> 2 * d \<le> p"
proof -
  obtain m where m: "m = (t - f) mod p" by simp
  have b: "0 \<le> m" "m < p" using assms by (simp_all add: m)
  have dv: "p dvd (t - f) - m" unfolding m by (rule dvd_minus_mod)
  have "f + m - t = - ((t - f) - m)" "f + (m - p) - t = - ((t - f) - m) - p" by simp_all
  then have "p dvd f + m - t" "p dvd f + (m - p) - t"
    using dv by (simp_all only: dvd_minus_iff dvd_diff dvd_refl)
  with b assms show ?thesis
    by (cases "p < m * 2") (simp_all add: shortest_integer_displacement_def m [symmetric])
qed

lemma dvd_small_zero:
  fixes x p :: int
  assumes "p dvd x" and "\<bar>x\<bar> < p"
  shows "x = 0"
  using assms zdvd_imp_le [of p "\<bar>x\<bar>"] by (cases "x = 0") auto

text \<open>Among all ways from one chunk to another the code takes a shortest one.\<close>

lemma shortest_chunk_displacement_spec:
  assumes "axis_wf a"
  shows "\<exists>d. shortest_chunk_displacement a f t = Some d \<and> axis_congruent a (f + d) t
     \<and> (\<forall>d'. axis_congruent a (f + d') t \<longrightarrow> \<bar>d\<bar> \<le> \<bar>d'\<bar>)"
proof (cases a)
  case (Periodic lo p)
  have p: "0 < int p" using axis_wf_Periodic(1) assms Periodic by simp
  obtain d where d: "shortest_integer_displacement f t (int p) = Some d" "int p dvd f + d - t"
    "- int p < 2 * d" "2 * d \<le> int p"
    using shortest_integer_displacement_spec [OF p, of f t] by blast
  have "\<bar>d\<bar> \<le> \<bar>d'\<bar>" if "int p dvd f + d' - t" for d'
  proof (rule ccontr)
    assume less: "\<not> \<bar>d\<bar> \<le> \<bar>d'\<bar>"
    have "int p dvd (f + d - t) - (f + d' - t)" using d(2) that by (rule dvd_diff)
    then have "int p dvd d - d'" by simp
    moreover have "\<bar>d - d'\<bar> < int p" using less d(3,4) by linarith
    ultimately have "d - d' = 0" by (rule dvd_small_zero)
    with less show False by simp
  qed
  with d show ?thesis by (auto simp: Periodic)
qed auto

section \<open>Views list every canonical chunk once\<close>

definition lift_at :: "horizontal_topology \<Rightarrow> chunk_pos \<Rightarrow> int \<times> int \<Rightarrow> chunk_lift option" where
  "lift_at t c o' = (case representative (ht_x t) (cp_x c + fst o') of None \<Rightarrow> None
     | Some x \<Rightarrow> (case representative (ht_z t) (cp_z c + snd o') of None \<Rightarrow> None
       | Some z \<Rightarrow> Some \<lparr>cl_canonical = ChunkPos x z,
           cl_lifted = LiftedChunkPos (cp_x c + fst o') (cp_z c + snd o')\<rparr>))"

lemma neighbor_chunk_eq:
  assumes "topology_wf t"
  shows "neighbor_chunk t c dx dz = Some (map_option cl_canonical (lift_at t c (dx, dz)))"
  using assms by (auto simp: neighbor_chunk_def both_axes_def lift_at_def topology_wf_def
      canonical_chunk_i64_eq split: option.split)

lemma view_loop_eq:
  assumes "topology_wf t"
  shows "distinct (map cl_canonical (List.map_filter (lift_at t c) os))
    \<Longrightarrow> cl_canonical ` set (List.map_filter (lift_at t c) os) \<inter> fset seen = {}
    \<Longrightarrow> view_loop t c os seen res = Some (Inr (res @ List.map_filter (lift_at t c) os))"
proof (induction os arbitrary: seen res)
  case Nil
  then show ?case by (simp add: map_filter_simps)
next
  case (Cons off os)
  obtain dx dz where off: "off = (dx, dz)" by (cases off)
  show ?case
  proof (cases "lift_at t c off")
    case None
    with Cons.IH [of seen res] Cons.prems show ?thesis
      by (simp add: off neighbor_chunk_eq [OF assms] map_filter_simps)
  next
    case (Some l)
    have l: "cl_lifted l = LiftedChunkPos (cp_x c + dx) (cp_z c + dz)"
      using Some by (auto simp: off lift_at_def split: option.splits)
    then have rec: "l = \<lparr>cl_canonical = cl_canonical l,
        cl_lifted = LiftedChunkPos (cp_x c + dx) (cp_z c + dz)\<rparr>" by simp
    have "view_loop t c os (finsert (cl_canonical l) seen) (res @ [l])
        = Some (Inr ((res @ [l]) @ List.map_filter (lift_at t c) os))"
      using Cons.prems Some by (intro Cons.IH) (auto simp: map_filter_simps)
    moreover have "cl_canonical l |\<notin>| seen"
      using Cons.prems(2) Some by (auto simp: map_filter_simps)
    ultimately show ?thesis
      using Some rec by (simp add: off neighbor_chunk_eq [OF assms] map_filter_simps)
  qed
qed

lemma set_view_offsets [simp]: "set (view_offsets r) = {- r..r} \<times> {- r..r}"
  by (auto simp: view_offsets_def)

lemma view_offsets_eq: "view_offsets r = map prod.swap (List.product [- r..r] [- r..r])"
  by (simp add: view_offsets_def product_concat_map map_concat comp_def)

lemma distinct_view_offsets [simp]: "distinct (view_offsets r)"
  by (simp add: view_offsets_eq distinct_map distinct_product)

text \<open>A radius that fits one lift cannot see the same place twice.\<close>

definition one_lift :: "axis_topology \<Rightarrow> nat \<Rightarrow> bool" where
  "one_lift a r \<longleftrightarrow> (case period_chunks a of None \<Rightarrow> True | Some p \<Rightarrow> 2 * r + 1 \<le> p)"

lemma validate_one_lift_radius_ok:
  "validate_one_lift_radius t r = Inr () \<longleftrightarrow> one_lift (ht_x t) r \<and> one_lift (ht_z t) r"
  by (auto simp: validate_one_lift_radius_def one_lift_def split: option.split)

lemma representative_inj:
  assumes "axis_wf a" and "one_lift a r" and "\<bar>i\<bar> \<le> int r" and "\<bar>j\<bar> \<le> int r"
    and i: "representative a (c + i) = Some k" and j: "representative a (c + j) = Some k"
  shows "i = j"
proof -
  have "axis_congruent a k (c + i)" "axis_congruent a k (c + j)"
    using representative_Some(2) [OF assms(1)] i j by auto
  then show ?thesis
  proof (cases a)
    case (Periodic lo p)
    then have "int p dvd k - (c + i)" "int p dvd k - (c + j)"
      using \<open>axis_congruent a k (c + i)\<close> \<open>axis_congruent a k (c + j)\<close> by simp_all
    then have "int p dvd (k - (c + i)) - (k - (c + j))" by (rule dvd_diff)
    then have "int p dvd j - i" by simp
    moreover have "\<bar>j - i\<bar> < int p" using assms(2-4) Periodic by (simp add: one_lift_def)
    ultimately have "j - i = 0" by (rule dvd_small_zero)
    then show ?thesis by simp
  qed simp_all
qed

lemma lift_at_inj:
  assumes "topology_wf t" and "one_lift (ht_x t) r" and "one_lift (ht_z t) r"
    and "o1 \<in> {- int r..int r} \<times> {- int r..int r}" and "o2 \<in> {- int r..int r} \<times> {- int r..int r}"
    and "lift_at t c o1 = Some l1" and "lift_at t c o2 = Some l2" and "cl_canonical l1 = cl_canonical l2"
  shows "o1 = o2"
proof -
  obtain x z where reps: "representative (ht_x t) (cp_x c + fst o1) = Some x"
    "representative (ht_z t) (cp_z c + snd o1) = Some z"
    "representative (ht_x t) (cp_x c + fst o2) = Some x" "representative (ht_z t) (cp_z c + snd o2) = Some z"
    using assms(6-8) by (auto simp: lift_at_def split: option.splits)
  have wf: "axis_wf (ht_x t)" "axis_wf (ht_z t)" using assms(1) by (simp_all add: topology_wf_def)
  have "fst o1 = fst o2"
    by (rule representative_inj [OF wf(1) assms(2) _ _ reps(1,3)]) (use assms(4,5) in auto)
  moreover have "snd o1 = snd o2"
    by (rule representative_inj [OF wf(2) assms(3) _ _ reps(2,4)]) (use assms(4,5) in auto)
  ultimately show ?thesis by (simp add: prod_eq_iff)
qed

lemma map_filter_distinct:
  assumes "distinct xs"
    and "\<And>x y a b. x \<in> set xs \<Longrightarrow> y \<in> set xs \<Longrightarrow> f x = Some a \<Longrightarrow> f y = Some b \<Longrightarrow> g a = g b \<Longrightarrow> x = y"
  shows "distinct (map g (List.map_filter f xs))"
  using assms
proof (induction xs)
  case Nil
  then show ?case by (simp add: map_filter_simps)
next
  case (Cons x xs)
  have IH: "distinct (map g (List.map_filter f xs))" using Cons by simp
  show ?case
  proof (cases "f x")
    case None
    with IH show ?thesis by (simp add: map_filter_simps)
  next
    case (Some a)
    have "g a \<notin> g ` set (List.map_filter f xs)"
    proof
      assume "g a \<in> g ` set (List.map_filter f xs)"
      then obtain y b where y: "y \<in> set xs" "f y = Some b" "g a = g b"
        by (force simp: List.map_filter_def)
      then have "x = y" using Cons.prems(2) [of x y a b] Some by simp
      with y(1) Cons.prems(1) show False by simp
    qed
    with IH Some show ?thesis by (simp add: map_filter_simps)
  qed
qed

lemma topology_wf_validate: "topology_wf t \<Longrightarrow> topology_validate t = Inr ()"
  by (simp add: topology_wf_def axis_wf_def topology_validate_def)

lemma chunk_view_run:
  assumes wf: "topology_wf t" and lift: "validate_one_lift_radius t r = Inr ()" and r: "r < 2 ^ 31"
  shows "chunk_view t c r = Some (Inr (List.map_filter (lift_at t c) (view_offsets (int r))))"
proof -
  have one: "one_lift (ht_x t) r" "one_lift (ht_z t) r"
    using lift by (simp_all add: validate_one_lift_radius_ok)
  have dist: "distinct (map cl_canonical (List.map_filter (lift_at t c) (view_offsets (int r))))"
    by (rule map_filter_distinct [OF distinct_view_offsets])
      (rule lift_at_inj [OF wf one, of _ _ c], (assumption | simp only: set_view_offsets)+)
  show ?thesis
    using topology_wf_validate [OF wf] lift r view_loop_eq [OF wf dist, of "{||}" "[]"] by (simp add: chunk_view_def)
qed

lemma chunk_view_complete:
  assumes wf: "topology_wf t" and lift: "validate_one_lift_radius t r = Inr ()" and r: "r < 2 ^ 31"
  shows "\<exists>ls. chunk_view t c r = Some (Inr ls)
     \<and> distinct (map cl_canonical ls)
     \<and> (\<forall>l\<in>set ls. canonical_chunk_i64 (ht_x t) (lifted_x (cl_lifted l)) = Some (Some (cp_x (cl_canonical l)))
          \<and> canonical_chunk_i64 (ht_z t) (lifted_z (cl_lifted l)) = Some (Some (cp_z (cl_canonical l))))
     \<and> (\<forall>dx dz q. \<bar>dx\<bar> \<le> int r \<and> \<bar>dz\<bar> \<le> int r \<and> neighbor_chunk t c dx dz = Some (Some q)
          \<longrightarrow> \<lparr>cl_canonical = q, cl_lifted = LiftedChunkPos (cp_x c + dx) (cp_z c + dz)\<rparr> \<in> set ls)
     \<and> length ls \<le> (2 * r + 1) ^ 2"
proof -
  let ?ls = "List.map_filter (lift_at t c) (view_offsets (int r))"
  have one: "one_lift (ht_x t) r" "one_lift (ht_z t) r"
    using lift by (simp_all add: validate_one_lift_radius_ok)
  have dist: "distinct (map cl_canonical ?ls)"
    by (rule map_filter_distinct [OF distinct_view_offsets])
      (rule lift_at_inj [OF wf one, of _ _ c], (assumption | simp only: set_view_offsets)+)
  have "chunk_view t c r = Some (Inr ?ls)" by (rule chunk_view_run [OF wf lift r])
  moreover have "canonical_chunk_i64 (ht_x t) (lifted_x (cl_lifted l)) = Some (Some (cp_x (cl_canonical l)))
      \<and> canonical_chunk_i64 (ht_z t) (lifted_z (cl_lifted l)) = Some (Some (cp_z (cl_canonical l)))"
    if "l \<in> set ?ls" for l
    using that wf by (auto simp: List.map_filter_def lift_at_def topology_wf_def canonical_chunk_i64_eq
        split: option.splits)
  moreover have "\<lparr>cl_canonical = q, cl_lifted = LiftedChunkPos (cp_x c + dx) (cp_z c + dz)\<rparr> \<in> set ?ls"
    if dx: "\<bar>dx\<bar> \<le> int r" and dz: "\<bar>dz\<bar> \<le> int r"
      and nb: "neighbor_chunk t c dx dz = Some (Some q)" for dx dz q
  proof -
    obtain l where l: "lift_at t c (dx, dz) = Some l" "cl_canonical l = q"
      using nb by (auto simp: neighbor_chunk_eq [OF wf])
    then have "l = \<lparr>cl_canonical = q, cl_lifted = LiftedChunkPos (cp_x c + dx) (cp_z c + dz)\<rparr>"
      by (auto simp: lift_at_def split: option.splits)
    moreover have "l \<in> set ?ls"
    proof -
      have "(dx, dz) \<in> set (view_offsets (int r))" using dx dz by auto
      then show ?thesis using l(1) 
        unfolding List.map_filter_def by (simp only: set_map set_filter comp_def) (force intro: rev_image_eqI [of "(dx, dz)"])
    qed
    ultimately show ?thesis by simp
  qed
  moreover have "length ?ls \<le> (2 * r + 1) ^ 2"
  proof -
    have "length ?ls \<le> length (view_offsets (int r))"
      by (simp add: List.map_filter_def)
    also have "\<dots> = (2 * r + 1) ^ 2"
      by (simp add: view_offsets_eq power2_eq_square nat_add_distrib nat_mult_distrib)
    finally show ?thesis .
  qed
  ultimately show ?thesis using dist by blast
qed

end
