(* ===== verification/CoreNames.thy ===== *)
theory CoreNames imports Prelude "HOL-Library.Char_ord"
begin

text \<open>
  The two parsed names of \<open>native/crates/mclone-core/src\<close>: authored animation clip identifiers
  (\<open>animation.rs\<close>), a fixed 48-byte buffer with a length, and the terrain LOD presets
  (\<open>terrain_lod.rs\<close>).  A \<open>&str\<close> is its list of bytes; the code compares, measures and copies
  bytes only, except for \<open>trim\<close>, whose whitespace is modelled for ASCII.
\<close>

abbreviation (input) max_animation_clip_id_bytes :: nat where "max_animation_clip_id_bytes \<equiv> 48"

definition byte_of :: "char \<Rightarrow> u8" where
  "byte_of c = of_char c"

definition bytes_of :: "string \<Rightarrow> u8 list" where
  "bytes_of s = map byte_of s"

section \<open>Animation clip identifiers\<close>

record animation_clip_id =
  clip_len :: u8
  clip_bytes :: "u8 list"

datatype clip_id_error = Empty | TooLong nat | InvalidCharacter

definition valid_animation_clip_id_byte :: "u8 \<Rightarrow> bool" where
  "valid_animation_clip_id_byte b \<longleftrightarrow>
     byte_of CHR ''a'' \<le> b \<and> b \<le> byte_of CHR ''z'' \<or> byte_of CHR ''0'' \<le> b \<and> b \<le> byte_of CHR ''9''
     \<or> b = byte_of CHR ''_'' \<or> b = byte_of CHR ''-''"

text \<open>The \<open>while\<close> loop of \<open>from_static\<close>: check and copy byte by byte.\<close>

fun copy_checked :: "u8 list \<Rightarrow> nat \<Rightarrow> u8 list \<Rightarrow> u8 list option" where
  "copy_checked [] index bytes = Some bytes"
| "copy_checked (b # bs) index bytes = do {
     assert_that (valid_animation_clip_id_byte b);
     bytes \<leftarrow> vec_set bytes index b;
     copy_checked bs (index + 1) bytes
   }"

definition clip_from_static :: "u8 list \<Rightarrow> animation_clip_id option" where
  "clip_from_static source = do {
     assert_that (source \<noteq> []);
     assert_that (length source \<le> max_animation_clip_id_bytes);
     bytes \<leftarrow> copy_checked source 0 (replicate max_animation_clip_id_bytes 0);
     Some \<lparr>clip_len = of_nat (length source), clip_bytes = bytes\<rparr>
   }"

definition clip_parse :: "u8 list \<Rightarrow> clip_id_error + animation_clip_id" where
  "clip_parse value =
     (if value = [] then Inl Empty
      else if max_animation_clip_id_bytes < length value then Inl (TooLong (length value))
      else if \<not> list_all valid_animation_clip_id_byte value then Inl InvalidCharacter
      else Inr \<lparr>clip_len = of_nat (length value),
                clip_bytes = value @ replicate (max_animation_clip_id_bytes - length value) 0\<rparr>)"

text \<open>The slice panics past the buffer; valid identifiers are ASCII, so they are UTF-8.\<close>

definition clip_as_str :: "animation_clip_id \<Rightarrow> u8 list option" where
  "clip_as_str c = do {
     assert_that (unat (clip_len c) \<le> length (clip_bytes c));
     let s = take (unat (clip_len c)) (clip_bytes c);
     assert_that (list_all (\<lambda>b. b < 128) s);
     Some s
   }"

section \<open>Terrain LOD presets\<close>

datatype terrain_lod_preset = Off | Low | Medium | High

fun preset_next :: "terrain_lod_preset \<Rightarrow> terrain_lod_preset" where
  "preset_next Off = Low"
| "preset_next Low = Medium"
| "preset_next Medium = High"
| "preset_next High = Off"

fun preset_label :: "terrain_lod_preset \<Rightarrow> string" where
  "preset_label Off = ''Off''"
| "preset_label Low = ''Low''"
| "preset_label Medium = ''Medium''"
| "preset_label High = ''High''"

fun startup_label :: "terrain_lod_preset \<Rightarrow> string" where
  "startup_label Off = ''off''"
| "startup_label Low = ''low''"
| "startup_label Medium = ''medium''"
| "startup_label High = ''high''"

fun horizon_enabled :: "terrain_lod_preset \<Rightarrow> bool" where
  "horizon_enabled Off = False"
| "horizon_enabled _ = True"

definition is_space :: "char \<Rightarrow> bool" where
  "is_space c \<longleftrightarrow> (let n = (of_char c :: nat) in n = 32 \<or> 9 \<le> n \<and> n \<le> 13)"

definition trim :: "string \<Rightarrow> string" where
  "trim s = rev (dropWhile is_space (rev (dropWhile is_space s)))"

definition to_ascii_lowercase :: "string \<Rightarrow> string" where
  "to_ascii_lowercase s = map (\<lambda>c. let n = (of_char c :: nat) in
     if 65 \<le> n \<and> n \<le> 90 then char_of (n + 32) else c) s"

definition parse_startup_label :: "string \<Rightarrow> string + terrain_lod_preset" where
  "parse_startup_label value =
     (let v = to_ascii_lowercase (trim value) in
      if v \<in> set [''off'', ''exact-only'', ''exact'', ''false''] then Inr Off
      else if v = ''low'' then Inr Low
      else if v = ''medium'' then Inr Medium
      else if v \<in> set [''high'', ''composed'', ''horizon'', ''on'', ''true''] then Inr High
      else Inl value)"

section \<open>Facts\<close>

lemma copy_checked_eq:
  "i + length src \<le> length buf \<Longrightarrow>
   copy_checked src i buf = (if list_all valid_animation_clip_id_byte src
     then Some (take i buf @ src @ drop (i + length src) buf) else None)"
proof (induction src arbitrary: i buf)
  case Nil
  then show ?case by simp
next
  case (Cons b bs)
  have i: "i < length buf" using Cons.prems by simp
  have "take (Suc i) (buf[i := b]) = take i buf @ [b]"
    using i by (simp add: take_Suc_conv_app_nth)
  with Cons i show ?case by (auto simp: vec_set_def)
qed

lemma valid_clip_byte_ascii: "valid_animation_clip_id_byte b \<Longrightarrow> b < 128"
proof -
  have "byte_of CHR ''z'' < 128" "byte_of CHR ''9'' < 128" "byte_of CHR ''_'' < 128" "byte_of CHR ''-'' < 128"
    by (simp_all add: byte_of_def of_char_def)
  then show "valid_animation_clip_id_byte b \<Longrightarrow> b < 128"
    by (auto simp: valid_animation_clip_id_byte_def)
qed

text \<open>\<open>parse\<close> and \<open>from_static\<close> accept the same names, and reading a name back gives its text.\<close>

lemma clip_parse_from_static:
  "clip_from_static v = (case clip_parse v of Inl _ \<Rightarrow> None | Inr c \<Rightarrow> Some c)"
  using copy_checked_eq [of 0 v "replicate 48 0"]
  by (auto simp: clip_from_static_def clip_parse_def assert_that_def drop_replicate)

lemma clip_parse_roundtrip:
  assumes "clip_parse v = Inr c"
  shows "clip_as_str c = Some v" and "length (clip_bytes c) = 48"
proof -
  have v: "v \<noteq> []" "length v \<le> 48" "list_all valid_animation_clip_id_byte v"
    "c = \<lparr>clip_len = of_nat (length v), clip_bytes = v @ replicate (48 - length v) 0\<rparr>"
    using assms by (auto simp: clip_parse_def split: if_splits)
  have "unat (of_nat (length v) :: u8) = length v"
    using v(2) by (simp add: unsigned_of_nat take_bit_nat_eq_self)
  moreover have "list_all (\<lambda>b. b < 128) v"
    using v(3) by (auto simp: list_all_iff intro: valid_clip_byte_ascii)
  ultimately show "clip_as_str c = Some v" "length (clip_bytes c) = 48"
    using v by (simp_all add: clip_as_str_def)
qed

lemma clip_parse_inj: "clip_parse v = Inr c \<Longrightarrow> clip_parse w = Inr c \<Longrightarrow> v = w"
  using clip_parse_roundtrip(1) [of v c] clip_parse_roundtrip(1) [of w c] by simp

lemma clip_parse_errors:
  "(\<exists>e. clip_parse v = Inl e) \<longleftrightarrow> v = [] \<or> 48 < length v \<or> (\<exists>b\<in>set v. \<not> valid_animation_clip_id_byte b)"
  by (auto simp: clip_parse_def list_all_iff)

lemma parse_label_roundtrip:
  "parse_startup_label (startup_label p) = Inr p" "parse_startup_label (preset_label p) = Inr p"
  by (induct p; code_simp)+

lemma trim_pad:
  assumes "list_all is_space a" and "list_all is_space b"
    and "s \<noteq> []" and "\<not> is_space (hd s)" and "\<not> is_space (last s)"
  shows "trim (a @ s @ b) = s"
proof -
  have "dropWhile is_space (a @ s @ b) = s @ b"
    using assms by (subst dropWhile_append2) (auto simp: list_all_iff dropWhile_eq_self_iff hd_append)
  moreover have "dropWhile is_space (rev b @ rev s) = rev s"
    using assms by (subst dropWhile_append2) (auto simp: list_all_iff dropWhile_eq_self_iff hd_rev)
  ultimately show ?thesis by (simp add: trim_def)
qed

text \<open>Padding and letter case do not matter to the startup label.\<close>

lemma parse_startup_label_padded:
  assumes "list_all is_space a" and "list_all is_space b"
  shows "parse_startup_label (a @ startup_label p @ b) = Inr p"
    and "parse_startup_label (a @ preset_label p @ b) = Inr p"
proof -
  have "startup_label p \<noteq> [] \<and> \<not> is_space (hd (startup_label p)) \<and> \<not> is_space (last (startup_label p))"
    by (induct p; code_simp)
  then have "trim (a @ startup_label p @ b) = startup_label p"
    using assms by (intro trim_pad) auto
  moreover have "trim (startup_label p) = startup_label p" "trim (preset_label p) = preset_label p"
    by (induct p; code_simp)+
  moreover have "preset_label p \<noteq> [] \<and> \<not> is_space (hd (preset_label p)) \<and> \<not> is_space (last (preset_label p))"
    by (induct p; code_simp)
  then have "trim (a @ preset_label p @ b) = preset_label p"
    using assms by (intro trim_pad) auto
  moreover have "to_ascii_lowercase (startup_label p) = startup_label p"
    "to_ascii_lowercase (preset_label p) = startup_label p"
    by (induct p; code_simp)+
  ultimately show "parse_startup_label (a @ startup_label p @ b) = Inr p"
    "parse_startup_label (a @ preset_label p @ b) = Inr p"
    by (cases p; simp add: parse_startup_label_def Let_def)+
qed

lemma preset_next_cycle: "preset_next (preset_next (preset_next (preset_next p))) = p"
  by (cases p) simp_all

end
