(* ===== verification/CoreProperties.thy ===== *)
theory CoreProperties imports CoreSnapshot CoreTopology CoreNames
begin

text \<open>
  The properties of \<open>mclone-core\<close>: packed palette storage, chunk sections and snapshots, world
  topology and the parsed names.  Each rests on the lemmas of its component.
\<close>

section \<open>Packed storage\<close>

text \<open>Writing a slot of a palette bit storage keeps the storage well formed, makes exactly that
  slot read the written value and leaves every other slot (and every read out of bounds) as it was.\<close>
lemma bit_storage_write_read:
  assumes "bs_wf s" and "bit_storage_set s i v = Some s'"
  shows "bs_wf s' \<and> i < bs_size s \<and> bs_fits s v
    \<and> (\<forall>j. bit_storage_get s' j = (if j = i then Some v else bit_storage_get s j))"
  using bit_storage_set_wf [OF assms] bit_storage_set_Some [OF assms] bit_storage_get_set [OF assms] by simp

theorem bit_storage_write_read_at_input:
  "\<exists>s s'. bit_storage_new 5 20 = Some s \<and> bit_storage_set s 13 9 = Some s'
     \<and> bit_storage_get s' 13 = Some 9 \<and> bit_storage_get s' 12 = bit_storage_get s 12"
proof -
  obtain s where s: "bit_storage_new 5 20 = Some s"
    by (simp add: bit_storage_new_def validate_bits_def Let_def)
  then have wf: "bs_wf s" "bs_size s = 20" "bs_bits s = 5" using bit_storage_new_wf [OF s] by simp_all
  obtain s' where s': "bit_storage_set s 13 9 = Some s'"
    using bit_storage_set_eq [OF wf(1), of 13 9] wf(2,3) by (simp add: bs_fits_def)
  show ?thesis using s s' bit_storage_write_read [OF wf(1) s'] by auto
qed

text \<open>Reading all slots word by word gives what reading each slot on its own gives.\<close>
lemma bit_storage_get_all_pointwise:
  assumes "bs_wf s"
  shows "map (bit_storage_get s) [0..<bs_size s] = map Some (bit_storage_get_all s)"
  by (rule get_all_gets [OF assms])

lemma bit_storage_get_all_pointwise_at_input:
  "\<exists>s. bit_storage_new 4 3 = Some s \<and> map (bit_storage_get s) [0..<3] = map Some (bit_storage_get_all s)"
proof -
  obtain s where s: "bit_storage_new 4 3 = Some s"
    by (simp add: bit_storage_new_def validate_bits_def Let_def)
  show ?thesis using s bit_storage_new_wf [OF s] bit_storage_get_all_pointwise [of s] by auto
qed

text \<open>The number of bits chosen for a palette is the least positive number that can address every
  palette entry, and never more than 32.\<close>
lemma palette_bits_minimal:
  assumes "1 \<le> n" and "n \<le> 2 ^ 32"
  shows "\<exists>b. palette_bits_for n = Some b \<and> 1 \<le> b \<and> b \<le> 32 \<and> n \<le> 2 ^ b
    \<and> (\<forall>c. 1 \<le> c \<and> n \<le> 2 ^ c \<longrightarrow> b \<le> c)"
  by (rule palette_bits_for_spec [OF assms])

lemma palette_bits_minimal_at_input:
  "\<exists>b. palette_bits_for 17 = Some b \<and> 17 \<le> (2 :: nat) ^ b \<and> b \<le> 5"
proof -
  obtain b where "palette_bits_for 17 = Some b" "17 \<le> (2 :: nat) ^ b"
    "\<forall>c. 1 \<le> c \<and> 17 \<le> (2 :: nat) ^ c \<longrightarrow> b \<le> c"
    using palette_bits_minimal [of 17] by auto
  then show ?thesis by (intro exI [of _ b]) auto
qed

section \<open>Sections and snapshots\<close>

text \<open>C21: A packed section unpacks to the blocks it was packed from, and reading one index gives the
  block at that index, for every list of one section's volume of blocks.\<close>
theorem section_pack_unpack:
  assumes "length blocks = chunk_section_volume"
  shows "\<exists>p. pack_section y blocks = Some p \<and> ps_section_y p = y
     \<and> unpack_block_state_ids p = Some blocks
     \<and> (\<forall>i<chunk_section_volume. block_state_id_at p i = Some (blocks ! i))"
  by (rule pack_section_roundtrip [OF assms])

theorem section_pack_unpack_witness:
  "\<exists>p. pack_section 3 (replicate 4096 7) = Some p \<and> block_state_id_at p 100 = Some 7"
  using section_pack_unpack [of "replicate 4096 7" 3] by auto

text \<open>A snapshot built from the blocks of a column keeps sorted, air-free sections; every section
  in range reads as its slice of the input, every section out of range reads as air.\<close>
lemma snapshot_reads_input:
  assumes "in_i32 min_y" and "in_i32 (min_y + height)" and "16 dvd min_y" and "16 dvd height"
    and "0 < height" and "length blocks = nat height * 256"
  shows "\<exists>s. snapshot_from_block_state_ids pos st revision min_y height blocks = Some s
     \<and> sections_wf (cs_sections s)
     \<and> (\<forall>k<nat (height div 16). section_view (cs_sections s) (min_y div 16 + int k) = section_slice k blocks)
     \<and> (\<forall>y. y < min_y div 16 \<or> (min_y + height) div 16 \<le> y
          \<longrightarrow> section_view (cs_sections s) y = replicate chunk_section_volume air_block_state_id)"
  by (rule snapshot_construction [OF assms])

theorem snapshot_reads_input_at_input:
  "\<exists>s. snapshot_from_block_state_ids (ChunkPos 0 0) Full 1 (- 16) 32 (replicate 8192 5) = Some s
     \<and> section_view (cs_sections s) 7 = replicate 4096 0"
proof -
  have "\<exists>s. snapshot_from_block_state_ids (ChunkPos 0 0) Full 1 (- 16) 32 (replicate 8192 5) = Some s
     \<and> sections_wf (cs_sections s)
     \<and> (\<forall>k<nat (32 div 16). section_view (cs_sections s) (- 16 div 16 + int k) = section_slice k (replicate 8192 5))
     \<and> (\<forall>y. y < - 16 div 16 \<or> (- 16 + 32) div 16 \<le> y
          \<longrightarrow> section_view (cs_sections s) y = replicate chunk_section_volume air_block_state_id)"
    by (rule snapshot_reads_input) (simp_all add: in_i32_def)
  then show ?thesis by (auto simp: dest: spec [of _ 7])
qed

text \<open>C22: A batch of block updates to a section in range writes exactly these blocks, in order, into
  that section and nothing else, keeps the sections sorted and free of all-air sections, and reports
  zero changes only when nothing changed.\<close>
theorem patch_writes_updates:
  assumes "sections_wf (cs_sections s)" and "\<forall>u\<in>set updates. update_in_bounds u"
    and "updates \<noteq> []" and "section_in_range s y"
  shows "\<exists>n qs. patch_section_blocks s y updates = Some (n, s\<lparr>cs_sections := qs\<rparr>) \<and> sections_wf qs
    \<and> section_view qs y = write_updates updates (section_view (cs_sections s) y)
    \<and> (\<forall>y'. y' \<noteq> y \<longrightarrow> section_view qs y' = section_view (cs_sections s) y')
    \<and> (n = 0 \<longrightarrow> qs = cs_sections s)"
proof -
  obtain n qs where "patch_section_blocks s y updates = Some (n, s\<lparr>cs_sections := qs\<rparr>)"
    "updated_view (cs_sections s) y (write_updates updates (section_view (cs_sections s) y)) qs"
    "n = 0 \<longrightarrow> qs = cs_sections s"
    using patch_section_blocks_cases [OF assms] by blast
  then show ?thesis by (intro exI [of _ n] exI [of _ qs]) (simp add: updated_view_def)
qed

definition empty_column :: chunk_snapshot where
  "empty_column = \<lparr>cs_pos = ChunkPos 0 0, cs_status = Full, cs_revision = 0, cs_min_y = 0, cs_height = 16,
     cs_biomes = [], cs_sections = [], cs_light_correct = False, cs_light_sections = []\<rparr>"

theorem patch_writes_updates_witness:
  "\<exists>n qs. patch_section_blocks empty_column 0 [(1, 2, 3, 9)] = Some (n, empty_column\<lparr>cs_sections := qs\<rparr>)
     \<and> section_view qs 0 = write_updates [(1, 2, 3, 9)] (section_view [] 0)"
proof -
  have "sections_wf (cs_sections empty_column)" "section_in_range empty_column 0"
    "\<forall>u\<in>set [(1, 2, 3, 9)]. update_in_bounds u"
    by (simp_all add: sections_wf_def empty_column_def section_in_range_def update_in_bounds_def wrap_i32_id in_i32_def)
  from patch_writes_updates [OF this(1) this(3) _ this(2)] show ?thesis by (auto simp: empty_column_def)
qed

section \<open>Topology\<close>

text \<open>On a valid axis the canonical chunk of any lifted coordinate is a chunk of the axis at the
  same place and is its own canonical chunk; none is given only when no chunk of the axis is there.\<close>
lemma canonical_chunk_correct:
  assumes "axis_wf a"
  shows "(\<exists>r. canonical_chunk_i64 a c = Some (Some r) \<and> axis_contains a r \<and> axis_congruent a r c
            \<and> canonical_chunk_i64 a r = Some (Some r))
       \<or> canonical_chunk_i64 a c = Some None \<and> (\<forall>d. axis_congruent a d c \<longrightarrow> \<not> axis_contains a d)"
  by (rule canonical_chunk_spec [OF assms])

theorem canonical_chunk_correct_at_input:
  "canonical_chunk_i64 (Periodic (- 2) 5) 104 = Some (Some (- 1))"
proof -
  have wf: "axis_wf (Periodic (- 2) 5)"
    by (simp add: axis_wf_def validate_block_aligned_extent_def wrap_i32_id in_i32_def Let_def)
  show ?thesis using canonical_chunk_correct [OF wf, of 104] by (auto simp: wrap_i32_id in_i32_def)
qed

text \<open>Canonicalising a block and then taking its chunk is the same as canonicalising its chunk; the
  position inside the chunk does not move.\<close>
lemma canonical_block_agrees:
  assumes "axis_wf a" and "in_i32 c"
  shows "\<exists>r. canonical_block a c = Some r
     \<and> canonical_chunk a (block_to_chunk_coord c) = Some (map_option block_to_chunk_coord r)
     \<and> (\<forall>b. r = Some b \<longrightarrow> in_i32 b \<and> local_block_coord b = local_block_coord c)"
  by (rule canonical_block_chunk [OF assms])

lemma canonical_block_agrees_at_input:
  "\<exists>r. canonical_block (Finite 0 4) 70 = Some r \<and> r = None"
proof -
  have wf: "axis_wf (Finite 0 4)"
    by (simp add: axis_wf_def validate_block_aligned_extent_def in_i32_def Let_def)
  show ?thesis using canonical_block_agrees [OF wf, of 70] by (auto simp: in_i32_def Let_def)
qed

text \<open>The chunk displacement between two places leads from one to the other on the axis, and no
  displacement that does is shorter.\<close>
lemma chunk_displacement_shortest:
  assumes "axis_wf a"
  shows "\<exists>d. shortest_chunk_displacement a f t = Some d \<and> axis_congruent a (f + d) t
     \<and> (\<forall>d'. axis_congruent a (f + d') t \<longrightarrow> \<bar>d\<bar> \<le> \<bar>d'\<bar>)"
  by (rule shortest_chunk_displacement_spec [OF assms])

theorem chunk_displacement_shortest_at_input:
  "\<exists>d. shortest_chunk_displacement (Periodic 0 10) 1 9 = Some d \<and> \<bar>d\<bar> \<le> 2"
proof -
  have wf: "axis_wf (Periodic 0 10)"
    by (simp add: axis_wf_def validate_block_aligned_extent_def wrap_i32_id in_i32_def Let_def)
  obtain d where d: "shortest_chunk_displacement (Periodic 0 10) 1 9 = Some d"
    "\<forall>d'. axis_congruent (Periodic 0 10) (1 + d') 9 \<longrightarrow> \<bar>d\<bar> \<le> \<bar>d'\<bar>"
    using chunk_displacement_shortest [OF wf, of 1 9] by blast
  have "\<bar>d\<bar> \<le> \<bar>- 2\<bar>" by (rule d(2) [rule_format]) simp
  then show ?thesis using d(1) by auto
qed

text \<open>Around any centre a chunk view of a validated radius lists every reachable chunk of the
  square exactly once, each with a lift that lies over it.\<close>
lemma chunk_view_exact:
  assumes "topology_wf t" and "validate_one_lift_radius t r = Inr ()" and "r < 2 ^ 31"
  shows "\<exists>ls. chunk_view t c r = Some (Inr ls)
     \<and> distinct (map cl_canonical ls)
     \<and> (\<forall>l\<in>set ls. canonical_chunk_i64 (ht_x t) (lifted_x (cl_lifted l)) = Some (Some (cp_x (cl_canonical l)))
          \<and> canonical_chunk_i64 (ht_z t) (lifted_z (cl_lifted l)) = Some (Some (cp_z (cl_canonical l))))
     \<and> (\<forall>dx dz q. \<bar>dx\<bar> \<le> int r \<and> \<bar>dz\<bar> \<le> int r \<and> neighbor_chunk t c dx dz = Some (Some q)
          \<longrightarrow> \<lparr>cl_canonical = q, cl_lifted = LiftedChunkPos (cp_x c + dx) (cp_z c + dz)\<rparr> \<in> set ls)
     \<and> length ls \<le> (2 * r + 1) ^ 2"
  by (rule chunk_view_complete [OF assms])

theorem chunk_view_exact_at_input:
  "\<exists>ls. chunk_view (cylinder_x 0 8) (ChunkPos 7 0) 2 = Some (Inr ls) \<and> distinct (map cl_canonical ls)"
proof -
  have "topology_wf (cylinder_x 0 8)"
    by (simp add: topology_wf_def cylinder_x_def axis_wf_def validate_block_aligned_extent_def wrap_i32_id in_i32_def Let_def)
  moreover have "validate_one_lift_radius (cylinder_x 0 8) 2 = Inr ()"
    by (simp add: validate_one_lift_radius_def cylinder_x_def)
  ultimately show ?thesis using chunk_view_exact [of "cylinder_x 0 8" 2 "ChunkPos 7 0"] by auto
qed

section \<open>Names\<close>

text \<open>An animation clip identifier parses exactly when it has 1 to 48 valid bytes; a parsed one
  prints back as it was and its buffer is always 48 bytes.\<close>
lemma clip_id_parse_print:
  "(case clip_parse v of
      Inl _ \<Rightarrow> v = [] \<or> 48 < length v \<or> (\<exists>b\<in>set v. \<not> valid_animation_clip_id_byte b)
    | Inr c \<Rightarrow> v \<noteq> [] \<and> length v \<le> 48 \<and> list_all valid_animation_clip_id_byte v
        \<and> clip_as_str c = Some v \<and> length (clip_bytes c) = 48)"
proof (cases "clip_parse v")
  case (Inl e)
  then show ?thesis using clip_parse_errors [of v] by simp
next
  case (Inr c)
  then show ?thesis using clip_parse_errors [of v] clip_parse_roundtrip [OF Inr]
    by (auto simp: list_all_iff)
qed

end
