(* ===== verification/LightPos.thy ===== *)
theory LightPos imports CorePos
begin

text \<open>
  Packed positions of \<open>native/crates/mclone-light/src/pos.rs\<close>.  A block key packs x, z and y into
  26, 26 and 12 bits of an \<open>i64\<close>, a section key into 22, 22 and 20 bits; keys are kept as signed
  integers, because the code orders and compares them as \<open>i64\<close>.  The crate's \<open>Direction\<close> is the
  same enum as that of \<open>mclone-core\<close> and shares its definitions.  The lemmas describe every key
  operation on coordinates: a shift by \<open>(dx, dy, dz)\<close> is a translation of a torus.
\<close>

abbreviation (input) block_packed_x_length :: nat where "block_packed_x_length \<equiv> 26"
abbreviation (input) block_packed_y_length :: nat where "block_packed_y_length \<equiv> 12"
abbreviation (input) block_packed_z_length :: nat where "block_packed_z_length \<equiv> 26"
abbreviation (input) block_x_offset :: nat where "block_x_offset \<equiv> 38"
abbreviation (input) block_y_offset :: nat where "block_y_offset \<equiv> 0"
abbreviation (input) block_z_offset :: nat where "block_z_offset \<equiv> 12"
abbreviation (input) section_packed_x_mask :: int where "section_packed_x_mask \<equiv> 4194303"
abbreviation (input) section_packed_y_mask :: int where "section_packed_y_mask \<equiv> 1048575"
abbreviation (input) section_packed_z_mask :: int where "section_packed_z_mask \<equiv> 4194303"
abbreviation (input) section_y_offset :: nat where "section_y_offset \<equiv> 0"
abbreviation (input) section_z_offset :: nat where "section_z_offset \<equiv> 20"
abbreviation (input) section_x_offset :: nat where "section_x_offset \<equiv> 42"

definition horizontals :: "direction list" where
  "horizontals = [North, South, West, East]"

text \<open>The two shifts of an \<open>i64\<close>.\<close>

definition shl_i64 :: "int \<Rightarrow> nat \<Rightarrow> int" where
  "shl_i64 x n = wrap_i64 (push_bit n x)"

definition shr_i64 :: "int \<Rightarrow> nat \<Rightarrow> int" where
  "shr_i64 x n = drop_bit n x"

definition block_pos_as_long :: "int \<Rightarrow> int \<Rightarrow> int \<Rightarrow> int" where
  "block_pos_as_long x y z =
     (let packed = 0;
          packed = packed OR shl_i64 (x AND (push_bit block_packed_x_length 1 - 1)) block_x_offset;
          packed = packed OR shl_i64 (y AND (push_bit block_packed_y_length 1 - 1)) block_y_offset
      in packed OR shl_i64 (z AND (push_bit block_packed_z_length 1 - 1)) block_z_offset)"

definition block_pos_get_x :: "int \<Rightarrow> int" where
  "block_pos_get_x pos = wrap_i32 (shr_i64
     (shl_i64 pos (64 - block_x_offset - block_packed_x_length)) (64 - block_packed_x_length))"

definition block_pos_get_y :: "int \<Rightarrow> int" where
  "block_pos_get_y pos = wrap_i32 (shr_i64 (shl_i64 pos (64 - block_packed_y_length)) (64 - block_packed_y_length))"

definition block_pos_get_z :: "int \<Rightarrow> int" where
  "block_pos_get_z pos = wrap_i32 (shr_i64
     (shl_i64 pos (64 - block_z_offset - block_packed_z_length)) (64 - block_packed_z_length))"

definition block_pos_offset :: "int \<Rightarrow> int \<Rightarrow> int \<Rightarrow> int \<Rightarrow> int" where
  "block_pos_offset pos dx dy dz = block_pos_as_long (wrap_i32 (block_pos_get_x pos + dx))
     (wrap_i32 (block_pos_get_y pos + dy)) (wrap_i32 (block_pos_get_z pos + dz))"

definition block_pos_flat_index :: "int \<Rightarrow> int" where
  "block_pos_flat_index pos = pos AND NOT 15"

definition section_as_long :: "int \<Rightarrow> int \<Rightarrow> int \<Rightarrow> int" where
  "section_as_long x y z =
     (let packed = 0;
          packed = packed OR shl_i64 (x AND section_packed_x_mask) section_x_offset;
          packed = packed OR shl_i64 (y AND section_packed_y_mask) section_y_offset
      in packed OR shl_i64 (z AND section_packed_z_mask) section_z_offset)"

definition section_x :: "int \<Rightarrow> int" where
  "section_x section = wrap_i32 (shr_i64 section 42)"

definition section_y :: "int \<Rightarrow> int" where
  "section_y section = wrap_i32 (shr_i64 (shl_i64 section 44) 44)"

definition section_z :: "int \<Rightarrow> int" where
  "section_z section = wrap_i32 (shr_i64 (shl_i64 section 22) 42)"

definition section_offset :: "int \<Rightarrow> int \<Rightarrow> int \<Rightarrow> int \<Rightarrow> int" where
  "section_offset section dx dy dz = section_as_long (wrap_i32 (section_x section + dx))
     (wrap_i32 (section_y section + dy)) (wrap_i32 (section_z section + dz))"

definition block_to_section_coord_l :: "int \<Rightarrow> int" where
  "block_to_section_coord_l block_coord = drop_bit 4 block_coord"

definition block_to_section_key :: "int \<Rightarrow> int" where
  "block_to_section_key block = section_as_long (block_to_section_coord_l (block_pos_get_x block))
     (block_to_section_coord_l (block_pos_get_y block)) (block_to_section_coord_l (block_pos_get_z block))"

definition section_get_zero_node :: "int \<Rightarrow> int" where
  "section_get_zero_node section = section AND NOT section_packed_y_mask"

definition section_relative :: "int \<Rightarrow> int" where
  "section_relative block_coord = block_coord AND 15"

definition section_to_block_coord :: "int \<Rightarrow> int" where
  "section_to_block_coord section_coord = wrap_i32 (push_bit 4 section_coord)"

record light_section_range =
  lsr_min_section :: int
  lsr_section_count :: int
  lsr_min_light_section :: int
  lsr_light_section_count :: int

definition light_section_range_from_world :: "int \<Rightarrow> int \<Rightarrow> light_section_range option" where
  "light_section_range_from_world min_y height = do {
     assert_that (rust_rem min_y section_height = 0);
     assert_that (0 < height \<and> rust_rem height section_height = 0);
     let min_section = block_to_section_coord_l min_y;
     let section_count = rust_div height section_height;
     Some \<lparr>lsr_min_section = min_section, lsr_section_count = section_count,
           lsr_min_light_section = wrap_i32 (min_section - 1),
           lsr_light_section_count = wrap_i32 (section_count + 2)\<rparr>
   }"

definition max_light_section_exclusive :: "light_section_range \<Rightarrow> int" where
  "max_light_section_exclusive r = wrap_i32 (lsr_min_light_section r + lsr_light_section_count r)"

definition contains_light_section :: "light_section_range \<Rightarrow> int \<Rightarrow> bool" where
  "contains_light_section r y \<longleftrightarrow> lsr_min_light_section r \<le> y \<and> y < max_light_section_exclusive r"

section \<open>Bits of keys\<close>

lemma bit_wrap_i32: "bit (wrap_i32 x) n \<longleftrightarrow> bit x (min 31 n)"
  by (simp add: wrap_i32_def bit_signed_take_bit_iff)

lemma bit_wrap_i64: "bit (wrap_i64 x) n \<longleftrightarrow> bit x (min 63 n)"
  by (simp add: wrap_i64_def bit_signed_take_bit_iff)

lemma bit_in_i64:
  assumes "in_i64 k"
  shows "bit k (min 63 n) = bit k n"
  using bit_wrap_i64 [of k n] wrap_i64_id [OF assms] by simp

lemma low_mask: "(x :: int) AND (push_bit m 1 - 1) = take_bit m x"
  by (simp add: mask_eq_exp_minus_1 [symmetric] take_bit_eq_mask)

lemma section_masks:
  "(x :: int) AND 4194303 = take_bit 22 x" "(x :: int) AND 1048575 = take_bit 20 x"
  by (simp_all add: take_bit_eq_mask mask_eq_exp_minus_1)

lemma bit_shl_take:
  "bit (shl_i64 (take_bit m x) o') n \<longleftrightarrow> (o' \<le> min 63 n \<and> min 63 n - o' < m \<and> bit x (min 63 n - o'))"
  by (auto simp: shl_i64_def bit_wrap_i64 bit_push_bit_iff bit_take_bit_iff)

lemma bit_block_key:
  "bit (block_pos_as_long x y z) n \<longleftrightarrow>
     (if n < 12 then bit y n else if n < 38 then bit z (n - 12) else bit x (min 25 (n - 38)))"
  by (auto simp: block_pos_as_long_def low_mask bit_or_iff bit_shl_take min_def
      simp del: push_bit_of_1)

lemma bit_section_key:
  "bit (section_as_long x y z) n \<longleftrightarrow>
     (if n < 20 then bit y n else if n < 42 then bit z (n - 20) else bit x (min 21 (n - 42)))"
  by (auto simp: section_as_long_def section_masks bit_or_iff bit_shl_take min_def)

lemma bit_block_get:
  "bit (block_pos_get_x k) n \<longleftrightarrow> bit k (min 63 (38 + n))"
  "bit (block_pos_get_y k) n \<longleftrightarrow> bit k (min 11 n)"
  "bit (block_pos_get_z k) n \<longleftrightarrow> bit k (12 + min 25 n)"
  by (auto simp: block_pos_get_x_def block_pos_get_y_def block_pos_get_z_def shl_i64_def shr_i64_def
      bit_wrap_i32 bit_wrap_i64 bit_push_bit_iff bit_drop_bit_eq min_def)

lemma bit_section_get:
  "bit (section_x k) n \<longleftrightarrow> bit k (42 + min 31 n)"
  "bit (section_y k) n \<longleftrightarrow> bit k (min 19 n)"
  "bit (section_z k) n \<longleftrightarrow> bit k (20 + min 21 n)"
  by (auto simp: section_x_def section_y_def section_z_def shl_i64_def shr_i64_def
      bit_wrap_i32 bit_wrap_i64 bit_push_bit_iff bit_drop_bit_eq min_def)

section \<open>Round trips\<close>

text \<open>The coordinates a key can hold: the two's complement of its low bits.\<close>

abbreviation (input) trunc26 :: "int \<Rightarrow> int" where "trunc26 \<equiv> signed_take_bit 25"
abbreviation (input) trunc12 :: "int \<Rightarrow> int" where "trunc12 \<equiv> signed_take_bit 11"
abbreviation (input) trunc22 :: "int \<Rightarrow> int" where "trunc22 \<equiv> signed_take_bit 21"
abbreviation (input) trunc20 :: "int \<Rightarrow> int" where "trunc20 \<equiv> signed_take_bit 19"

lemma block_get_as_long [simp]:
  "block_pos_get_x (block_pos_as_long x y z) = trunc26 x"
  "block_pos_get_y (block_pos_as_long x y z) = trunc12 y"
  "block_pos_get_z (block_pos_as_long x y z) = trunc26 z"
  by (rule bit_eqI; auto simp: bit_block_get bit_block_key bit_signed_take_bit_iff min_def)+

lemma section_get_as_long [simp]:
  "section_x (section_as_long x y z) = trunc22 x"
  "section_y (section_as_long x y z) = trunc20 y"
  "section_z (section_as_long x y z) = trunc22 z"
  by (rule bit_eqI; auto simp: bit_section_get bit_section_key bit_signed_take_bit_iff min_def)+

lemma in_i64_keys [simp]: "in_i64 (block_pos_as_long x y z)" "in_i64 (section_as_long x y z)"
proof -
  have "wrap_i64 (block_pos_as_long x y z) = block_pos_as_long x y z"
    "wrap_i64 (section_as_long x y z) = section_as_long x y z"
    by (rule bit_eqI; auto simp: bit_wrap_i64 bit_block_key bit_section_key min_def)+
  then show "in_i64 (block_pos_as_long x y z)" "in_i64 (section_as_long x y z)"
    by (metis in_i64_wrap)+
qed

lemma block_as_long_get:
  assumes "in_i64 k"
  shows "block_pos_as_long (block_pos_get_x k) (block_pos_get_y k) (block_pos_get_z k) = k"
proof (rule bit_eqI)
  fix n
  show "bit (block_pos_as_long (block_pos_get_x k) (block_pos_get_y k) (block_pos_get_z k)) n = bit k n"
  proof -
    have "n < 12 \<Longrightarrow> min 11 n = n" "n < 38 \<Longrightarrow> \<not> n < 12 \<Longrightarrow> 12 + min 25 (n - 12) = n"
      "\<not> n < 38 \<Longrightarrow> min 63 (38 + min 25 (n - 38)) = min 63 n" by simp_all
    then show ?thesis by (simp only: bit_block_get bit_block_key if_True if_False split: if_split) (simp add: bit_in_i64 [OF assms])
  qed
qed

lemma section_as_long_get:
  assumes "in_i64 k"
  shows "section_as_long (section_x k) (section_y k) (section_z k) = k"
proof (rule bit_eqI)
  fix n
  show "bit (section_as_long (section_x k) (section_y k) (section_z k)) n = bit k n"
  proof -
    have "n < 20 \<Longrightarrow> min 19 n = n" "n < 42 \<Longrightarrow> \<not> n < 20 \<Longrightarrow> 20 + min 21 (n - 20) = n"
      "\<not> n < 42 \<Longrightarrow> 42 + min 31 (min 21 (n - 42)) = min 63 n" by simp_all
    then show ?thesis by (simp only: bit_section_get bit_section_key if_True if_False split: if_split) (simp add: bit_in_i64 [OF assms])
  qed
qed

lemma block_key_eqI:
  assumes "in_i64 k" and "in_i64 l" and "block_pos_get_x k = block_pos_get_x l"
    and "block_pos_get_y k = block_pos_get_y l" and "block_pos_get_z k = block_pos_get_z l"
  shows "k = l"
  using assms block_as_long_get by metis

lemma trunc_get [simp]:
  assumes "in_i64 k"
  shows "trunc26 (block_pos_get_x k) = block_pos_get_x k"
    and "trunc12 (block_pos_get_y k) = block_pos_get_y k"
    and "trunc26 (block_pos_get_z k) = block_pos_get_z k"
  using block_get_as_long [of "block_pos_get_x k" "block_pos_get_y k" "block_pos_get_z k"]
  by (simp_all add: block_as_long_get [OF assms])

text \<open>Ranges of the coordinates read from a key.\<close>

lemma block_get_range:
  assumes "in_i64 k"
  shows "- (2 ^ 25) \<le> block_pos_get_x k \<and> block_pos_get_x k < 2 ^ 25"
    and "- (2 ^ 11) \<le> block_pos_get_y k \<and> block_pos_get_y k < 2 ^ 11"
    and "- (2 ^ 25) \<le> block_pos_get_z k \<and> block_pos_get_z k < 2 ^ 25"
  using trunc_get [OF assms] signed_take_bit_int_less_exp signed_take_bit_int_greater_eq_minus_exp
  by metis+

lemma trunc_id:
  "- (2 ^ 25) \<le> x \<Longrightarrow> x < 2 ^ 25 \<Longrightarrow> trunc26 x = x"
  "- (2 ^ 11) \<le> x \<Longrightarrow> x < 2 ^ 11 \<Longrightarrow> trunc12 x = x"
  "- (2 ^ 21) \<le> x \<Longrightarrow> x < 2 ^ 21 \<Longrightarrow> trunc22 x = x"
  "- (2 ^ 19) \<le> x \<Longrightarrow> x < 2 ^ 19 \<Longrightarrow> trunc20 x = x"
  by (simp_all add: signed_take_bit_int_eq_self)

text \<open>A block position that fits its fields survives packing.\<close>

lemma block_key_roundtrip:
  assumes "- (2 ^ 25) \<le> x \<and> x < 2 ^ 25" and "- (2 ^ 11) \<le> y \<and> y < 2 ^ 11" and "- (2 ^ 25) \<le> z \<and> z < 2 ^ 25"
  shows "block_pos_get_x (block_pos_as_long x y z) = x"
    and "block_pos_get_y (block_pos_as_long x y z) = y"
    and "block_pos_get_z (block_pos_as_long x y z) = z"
  using assms by (simp_all add: trunc_id)

lemma section_key_roundtrip:
  assumes "- (2 ^ 21) \<le> x \<and> x < 2 ^ 21" and "- (2 ^ 19) \<le> y \<and> y < 2 ^ 19" and "- (2 ^ 21) \<le> z \<and> z < 2 ^ 21"
  shows "section_x (section_as_long x y z) = x"
    and "section_y (section_as_long x y z) = y"
    and "section_z (section_as_long x y z) = z"
  using assms by (simp_all add: trunc_id)

section \<open>Translation\<close>

lemma trunc_wrap_i32 [simp]:
  "trunc26 (wrap_i32 x) = trunc26 x" "trunc12 (wrap_i32 x) = trunc12 x"
  "trunc22 (wrap_i32 x) = trunc22 x" "trunc20 (wrap_i32 x) = trunc20 x"
  by (rule bit_eqI; simp add: bit_signed_take_bit_iff bit_wrap_i32 min_def)+

lemma signed_take_bit_add_left: "signed_take_bit n (signed_take_bit n a + b) = signed_take_bit n (a + b)"
  for a b :: int
  by (metis signed_take_bit_add signed_take_bit_signed_take_bit min.idem)

lemma block_get_offset:
  "block_pos_get_x (block_pos_offset k dx dy dz) = trunc26 (block_pos_get_x k + dx)"
  "block_pos_get_y (block_pos_offset k dx dy dz) = trunc12 (block_pos_get_y k + dy)"
  "block_pos_get_z (block_pos_offset k dx dy dz) = trunc26 (block_pos_get_z k + dz)"
  by (simp_all add: block_pos_offset_def)

lemma in_i64_offset [simp]: "in_i64 (block_pos_offset k dx dy dz)" "in_i64 (section_offset k dx dy dz)"
  by (simp_all add: block_pos_offset_def section_offset_def)

lemma offset_offset:
  "block_pos_offset (block_pos_offset k a b c) dx dy dz = block_pos_offset k (a + dx) (b + dy) (c + dz)"
  by (rule block_key_eqI) (simp_all add: block_get_offset signed_take_bit_add_left add.assoc)

lemma offset_zero: "in_i64 k \<Longrightarrow> block_pos_offset k 0 0 0 = k"
  by (rule block_key_eqI) (simp_all add: block_get_offset)

lemma offset_back:
  "in_i64 k \<Longrightarrow> block_pos_offset (block_pos_offset k dx dy dz) (- dx) (- dy) (- dz) = k"
  by (simp add: offset_offset offset_zero)

lemma signed_take_bit_eq_iff_mod:
  "signed_take_bit n a = signed_take_bit n b \<longleftrightarrow> a mod 2 ^ Suc n = b mod 2 ^ Suc n" for a b :: int
  by (metis signed_take_bit_eq_iff_take_bit_eq take_bit_eq_mod)

lemma block_offset_inj:
  assumes "in_i64 k" and "block_pos_offset k a b c = block_pos_offset k a' b' c'"
    and "\<bar>a\<bar> \<le> 1" "\<bar>b\<bar> \<le> 1" "\<bar>c\<bar> \<le> 1" "\<bar>a'\<bar> \<le> 1" "\<bar>b'\<bar> \<le> 1" "\<bar>c'\<bar> \<le> 1"
  shows "a = a' \<and> b = b' \<and> c = c'"
proof -
  have eq: "d = d'" if "signed_take_bit n (x + d) = signed_take_bit n (x + d')" "\<bar>d\<bar> \<le> 1" "\<bar>d'\<bar> \<le> 1" "3 \<le> n"
    for d d' x :: int and n
  proof -
    have "(2 :: int) ^ 3 \<le> 2 ^ n" using that(4) by (rule power_increasing) simp
    then have "\<bar>d - d'\<bar> < 2 ^ Suc n" using that(2,3) by simp
    moreover have "2 ^ Suc n dvd (x + d) - (x + d')"
      using that(1) by (simp only: signed_take_bit_eq_iff_mod mod_eq_dvd_iff)
    ultimately show ?thesis using zdvd_imp_le [of "2 ^ Suc n" "\<bar>d - d'\<bar>"] by (cases "d = d'") auto
  qed
  have "trunc26 (block_pos_get_x k + a) = trunc26 (block_pos_get_x k + a')"
    "trunc12 (block_pos_get_y k + b) = trunc12 (block_pos_get_y k + b')"
    "trunc26 (block_pos_get_z k + c) = trunc26 (block_pos_get_z k + c')"
    using arg_cong [OF assms(2), of block_pos_get_x] arg_cong [OF assms(2), of block_pos_get_y]
      arg_cong [OF assms(2), of block_pos_get_z] by (simp_all only: block_get_offset)
  with assms show ?thesis by (auto intro: eq)
qed

section \<open>Blocks and their sections\<close>

lemma block_to_section_get:
  assumes "in_i64 k"
  shows "section_x (block_to_section_key k) = block_pos_get_x k div 16"
    and "section_y (block_to_section_key k) = block_pos_get_y k div 16"
    and "section_z (block_to_section_key k) = block_pos_get_z k div 16"
  using block_get_range [OF assms]
  by (auto simp: block_to_section_key_def block_to_section_coord_l_def drop_bit_eq_div intro!: trunc_id)

lemma section_relative_mod: "section_relative c = c mod 16"
proof -
  have "section_relative c = c AND mask 4" by (simp add: section_relative_def mask_eq_exp_minus_1)
  then show ?thesis by (simp add: take_bit_eq_mask [symmetric] take_bit_eq_mod)
qed

lemma in_i64_section_key [simp]: "in_i64 (block_to_section_key k)"
  by (simp add: block_to_section_key_def)

text \<open>The section and the local coordinates determine the block.\<close>

lemma block_key_from_section:
  assumes "in_i64 k" and "in_i64 l" and "block_to_section_key k = block_to_section_key l"
    and "section_relative (block_pos_get_x k) = section_relative (block_pos_get_x l)"
    and "section_relative (block_pos_get_y k) = section_relative (block_pos_get_y l)"
    and "section_relative (block_pos_get_z k) = section_relative (block_pos_get_z l)"
  shows "k = l"
proof (rule block_key_eqI [OF assms(1,2)])
  have eq: "a = b" if "a div 16 = b div 16" "section_relative a = section_relative b" for a b :: int
    using that by (metis section_relative_mod div_mult_mod_eq)
  show "block_pos_get_x k = block_pos_get_x l" "block_pos_get_y k = block_pos_get_y l"
    "block_pos_get_z k = block_pos_get_z l"
    using block_to_section_get [OF assms(1)] block_to_section_get [OF assms(2)] assms(3-6)
    by (auto intro: eq)
qed

lemma zero_node_as_long: "section_get_zero_node (section_as_long x y z) = section_as_long x 0 z"
proof -
  have "section_get_zero_node (section_as_long x y z) = section_as_long x y z AND NOT (mask 20)"
    by (simp add: section_get_zero_node_def mask_eq_exp_minus_1)
  also have "\<dots> = section_as_long x 0 z"
    by (rule bit_eqI) (auto simp: bit_and_iff bit_not_iff bit_mask_iff bit_section_key)
  finally show ?thesis .
qed

lemma zero_node_eq: "in_i64 s \<Longrightarrow> section_get_zero_node s = section_as_long (section_x s) 0 (section_z s)"
  using zero_node_as_long [of "section_x s" "section_y s" "section_z s"]
  by (simp add: section_as_long_get)

lemma in_i64_zero_node: "in_i64 s \<Longrightarrow> in_i64 (section_get_zero_node s)"
  by (simp add: zero_node_eq)

text \<open>The light range pads the world by one section on each side.\<close>

lemma light_section_range_spec:
  assumes "in_i32 min_y" and "in_i32 (min_y + height)" and "16 dvd min_y" and "16 dvd height" and "0 < height"
    and "height < 2 ^ 31"
  shows "\<exists>r. light_section_range_from_world min_y height = Some r
     \<and> (\<forall>y. contains_light_section r y \<longleftrightarrow> min_y - 16 \<le> y * 16 \<and> y * 16 \<le> min_y + height)"
proof -
  obtain m h where m: "min_y = 16 * m" and h: "height = 16 * h" using assms(3,4) by (auto elim!: dvdE)
  have b: "- 134217728 \<le> m" "m < 134217728" "0 < h" "h < 134217728" "m + h < 134217728"
    using in_i32D [OF assms(1)] in_i32D [OF assms(2)] assms(5,6) by (simp_all add: m h)
  have w: "wrap_i32 (m - 1) = m - 1" "wrap_i32 (h + 2) = h + 2" "wrap_i32 (m - 1 + (h + 2)) = m - 1 + (h + 2)"
    using b by (auto intro!: wrap_i32_id simp: in_i32_def)
  have "light_section_range_from_world min_y height = Some \<lparr>lsr_min_section = m, lsr_section_count = h,
      lsr_min_light_section = m - 1, lsr_light_section_count = h + 2\<rparr>"
    using b w by (simp add: light_section_range_from_world_def m h rust_rem_zero_iff
        block_to_section_coord_l_def drop_bit_eq_div)
  then show ?thesis
    using w(3) by (auto simp: contains_light_section_def max_light_section_exclusive_def m h)
qed

end
