(* ===== verification/LightDataLayer.thy ===== *)
theory LightDataLayer imports LightPos IndexedStore
begin

text \<open>
  The nibble array of \<open>native/crates/mclone-light/src/data_layer.rs\<close>: 4096 light levels of four
  bits in 2048 bytes that are allocated on the first write.  A \<open>Box<[u8; 2048]>\<close> is a byte list
  whose length the invariant \<open>dl_wf\<close> fixes.
\<close>

abbreviation (input) data_layer_size :: nat where "data_layer_size \<equiv> 2048"
abbreviation (input) data_layer_value_count :: nat where "data_layer_value_count \<equiv> 4096"

record data_layer =
  dl_data :: "u8 list option"

datatype data_layer_error = InvalidByteLength nat

definition data_layer_new :: data_layer where
  "data_layer_new = \<lparr>dl_data = None\<rparr>"

definition data_layer_from_bytes :: "u8 list \<Rightarrow> data_layer" where
  "data_layer_from_bytes bytes = \<lparr>dl_data = Some bytes\<rparr>"

definition data_layer_from_vec :: "u8 list \<Rightarrow> data_layer_error + data_layer" where
  "data_layer_from_vec bytes =
     (let actual = length bytes in
      if actual \<noteq> data_layer_size then Inl (InvalidByteLength actual)
      else Inr (data_layer_from_bytes bytes))"

definition data_layer_index :: "int \<Rightarrow> int \<Rightarrow> int \<Rightarrow> nat option" where
  "data_layer_index x y z = do {
     assert_that (0 \<le> x \<and> x < 16);
     assert_that (0 \<le> y \<and> y < 16);
     assert_that (0 \<le> z \<and> z < 16);
     Some (nat (push_bit 8 y OR push_bit 4 z OR x))
   }"

definition get_index :: "data_layer \<Rightarrow> nat \<Rightarrow> nat option" where
  "get_index l index = do {
     assert_that (index < data_layer_value_count);
     (case dl_data l of
        None \<Rightarrow> Some 0
      | Some data \<Rightarrow> do {
          byte \<leftarrow> vec_get data (drop_bit 1 index);
          let shift = 4 * (index AND 1);
          Some (unat (drop_bit shift byte AND 15))
        })
   }"

definition set_index :: "data_layer \<Rightarrow> nat \<Rightarrow> nat \<Rightarrow> data_layer option" where
  "set_index l index v = do {
     assert_that (index < data_layer_value_count);
     let data = (case dl_data l of None \<Rightarrow> replicate data_layer_size 0 | Some data \<Rightarrow> data);
     let byte_index = drop_bit 1 index;
     let shift = 4 * (index AND 1);
     let mask = NOT (push_bit shift 15);
     byte \<leftarrow> vec_get data byte_index;
     data \<leftarrow> vec_set data byte_index ((byte AND mask) OR push_bit shift (of_nat v AND 15));
     Some \<lparr>dl_data = Some data\<rparr>
   }"

definition data_layer_get :: "data_layer \<Rightarrow> int \<Rightarrow> int \<Rightarrow> int \<Rightarrow> nat option" where
  "data_layer_get l x y z = do { i \<leftarrow> data_layer_index x y z; get_index l i }"

definition data_layer_set :: "data_layer \<Rightarrow> int \<Rightarrow> int \<Rightarrow> int \<Rightarrow> nat \<Rightarrow> data_layer option" where
  "data_layer_set l x y z v = do { i \<leftarrow> data_layer_index x y z; set_index l i v }"

definition data_layer_fill :: "data_layer \<Rightarrow> nat \<Rightarrow> data_layer option" where
  "data_layer_fill l v = do {
     assert_that (v \<le> 15);
     Some \<lparr>dl_data = Some (replicate data_layer_size (of_nat v OR push_bit 4 (of_nat v)))\<rparr>
   }"

definition get_data :: "data_layer \<Rightarrow> u8 list \<times> data_layer" where
  "get_data l = (let data = (case dl_data l of None \<Rightarrow> replicate data_layer_size 0 | Some data \<Rightarrow> data)
     in (data, \<lparr>dl_data = Some data\<rparr>))"

definition as_bytes :: "data_layer \<Rightarrow> u8 list option" where
  "as_bytes l = dl_data l"

definition to_packed_bytes :: "data_layer \<Rightarrow> u8 list" where
  "to_packed_bytes l = (case dl_data l of Some data \<Rightarrow> data | None \<Rightarrow> replicate data_layer_size 0)"

definition data_layer_is_empty :: "data_layer \<Rightarrow> bool" where
  "data_layer_is_empty l \<longleftrightarrow> dl_data l = None"

section \<open>Invariant and laws\<close>

definition dl_wf :: "data_layer \<Rightarrow> bool" where
  "dl_wf l \<longleftrightarrow> (case dl_data l of None \<Rightarrow> True | Some data \<Rightarrow> length data = data_layer_size)"

definition layer_bytes :: "data_layer \<Rightarrow> u8 list" where
  "layer_bytes l = (case dl_data l of None \<Rightarrow> replicate data_layer_size 0 | Some data \<Rightarrow> data)"

definition nibble :: "u8 \<Rightarrow> nat \<Rightarrow> nat" where
  "nibble byte i = unat (drop_bit (4 * (i mod 2)) byte AND 15)"

lemma length_layer_bytes [simp]: "dl_wf l \<Longrightarrow> length (layer_bytes l) = 2048"
  by (auto simp: dl_wf_def layer_bytes_def split: option.splits)

lemma half_bounds: "i < 4096 \<Longrightarrow> drop_bit 1 i < 2048" for i :: nat
  by (simp add: drop_bit_eq_div)

lemma and_1_mod: "i AND 1 = i mod 2" for i :: nat
  by (simp add: and_one_eq)

lemma fifteen_mask: "(15 :: u8) = mask 4"
  by (simp add: mask_eq_exp_minus_1)

lemma get_index_eq:
  assumes "dl_wf l" and "i < 4096"
  shows "get_index l i = Some (nibble (layer_bytes l ! (i div 2)) i)"
  using assms half_bounds [of i]
  by (auto simp: get_index_def dl_wf_def layer_bytes_def nibble_def and_1_mod vec_get_def drop_bit_eq_div Let_def
      split: option.splits)

lemma nibble_less [simp]: "nibble b i < 16"
proof -
  have "unat (take_bit 4 (drop_bit (4 * (i mod 2)) b)) < 2 ^ 4"
    unfolding unsigned_take_bit_eq by (rule take_bit_nat_less_exp)
  then show ?thesis by (simp add: nibble_def fifteen_mask take_bit_eq_mask)
qed

definition put_nibble :: "u8 \<Rightarrow> nat \<Rightarrow> nat \<Rightarrow> u8" where
  "put_nibble b i v = (b AND NOT (push_bit (4 * (i mod 2)) 15)) OR push_bit (4 * (i mod 2)) (of_nat v AND 15)"

lemma set_index_eq:
  assumes "dl_wf l" and "i < 4096"
  shows "set_index l i v
    = Some \<lparr>dl_data = Some ((layer_bytes l)[i div 2 := put_nibble (layer_bytes l ! (i div 2)) i v])\<rparr>"
proof -
  have "i div 2 < length (layer_bytes l)" using assms by simp
  then show ?thesis
    using assms(2) by (simp add: set_index_def layer_bytes_def [symmetric] and_1_mod drop_bit_eq_div
        put_nibble_def Let_def vec_get_def vec_set_def)
qed

lemma nibble_put_same:
  assumes "v < 16"
  shows "nibble (put_nibble b i v) i = v"
proof -
  let ?o = "4 * (i mod 2)"
  have o': "?o = 0 \<or> ?o = 4" by auto
  have "drop_bit ?o (put_nibble b i v) AND 15 = (of_nat v :: u8) AND 15"
    unfolding put_nibble_def fifteen_mask
    by (rule bit_word_eqI) (use o' in \<open>auto simp: bit_simps\<close>)
  moreover have "(of_nat v :: u8) AND 15 = of_nat v"
    using assms by (simp add: fifteen_mask take_bit_eq_mask [symmetric] take_bit_of_nat take_bit_nat_eq_self)
  ultimately show ?thesis using assms by (simp add: nibble_def unsigned_of_nat take_bit_nat_eq_self)
qed

lemma nibble_put_other:
  assumes "i mod 2 \<noteq> j mod 2"
  shows "nibble (put_nibble b i v) j = nibble b j"
proof -
  have o': "i mod 2 = 0 \<and> j mod 2 = 1 \<or> i mod 2 = 1 \<and> j mod 2 = 0" using assms by presburger
  then have "drop_bit (4 * (j mod 2)) (put_nibble b i v) AND 15 = drop_bit (4 * (j mod 2)) b AND 15"
    unfolding put_nibble_def fifteen_mask
    by (intro bit_word_eqI) (auto simp: bit_simps)
  then show ?thesis by (simp add: nibble_def)
qed

lemma set_index_get:
  assumes wf: "dl_wf l" and i: "i < 4096" and set: "set_index l i v = Some l'"
  shows "dl_wf l'" and "v < 16 \<Longrightarrow> get_index l' i = Some v"
    and "j \<noteq> i \<Longrightarrow> get_index l' j = get_index l j"
proof -
  let ?b = "layer_bytes l"
  have l': "l' = \<lparr>dl_data = Some (?b[i div 2 := put_nibble (?b ! (i div 2)) i v])\<rparr>"
    using set set_index_eq [OF wf i, of v] by simp
  show wf': "dl_wf l'" using wf by (simp add: l' dl_wf_def)
  have b': "layer_bytes l' = ?b[i div 2 := put_nibble (?b ! (i div 2)) i v]"
    by (simp add: l' layer_bytes_def)
  have len: "i div 2 < length ?b" using wf i by simp
  show "get_index l' i = Some v" if "v < 16"
    using that len i nibble_put_same by (simp add: get_index_eq [OF wf'] b')
  show "get_index l' j = get_index l j" if ne: "j \<noteq> i"
  proof (cases "j < 4096")
    case True
    then show ?thesis
    proof (cases "j div 2 = i div 2")
      case same: True
      then have "i mod 2 \<noteq> j mod 2" using ne by (metis div_mult_mod_eq)
      then show ?thesis
        using True same len by (simp add: get_index_eq [OF wf'] get_index_eq [OF wf] b' nibble_put_other)
    next
      case False
      then show ?thesis using True by (simp add: get_index_eq [OF wf'] get_index_eq [OF wf] b')
    qed
  qed (simp add: get_index_def)
qed

interpretation nibbles: indexed_store dl_wf "\<lambda>_. 4096" "\<lambda>_ v. v < 16" get_index set_index
proof unfold_locales
  fix l i v l' j
  assume wf: "dl_wf l"
  show "i < 4096 \<Longrightarrow> \<exists>v. get_index l i = Some v \<and> v < 16" using wf by (simp add: get_index_eq)
  show "4096 \<le> i \<Longrightarrow> get_index l i = None" by (simp add: get_index_def)
  show "i < 4096 \<Longrightarrow> v < 16 \<Longrightarrow> \<exists>l'. set_index l i v = Some l'" using wf by (simp add: set_index_eq)
  show none: "4096 \<le> i \<Longrightarrow> set_index l i v = None" by (simp add: set_index_def)
  assume set: "set_index l i v = Some l'"
  then have i: "i < 4096" using none by (cases "i < 4096") auto
  show "dl_wf l'" by (rule set_index_get(1) [OF wf i set])
  show "v < 16 \<Longrightarrow> get_index l' i = Some v" by (rule set_index_get(2) [OF wf i set])
  show "j \<noteq> i \<Longrightarrow> get_index l' j = get_index l j" by (rule set_index_get(3) [OF wf i set])
qed simp_all

lemma fill_reads:
  assumes "v \<le> 15"
  shows "\<exists>l'. data_layer_fill l v = Some l' \<and> dl_wf l' \<and> (\<forall>i<4096. get_index l' i = Some v)"
proof -
  let ?b = "of_nat v OR push_bit 4 (of_nat v) :: u8"
  have wf: "dl_wf \<lparr>dl_data = Some (replicate 2048 ?b)\<rparr>" by (simp add: dl_wf_def)
  obtain w where w: "w = (of_nat v :: u8)" by simp
  have "take_bit 4 w = w" unfolding w
    using assms by (simp add: take_bit_of_nat take_bit_nat_eq_self)
  then have wb: "bit w n \<Longrightarrow> n < 4" for n by (metis bit_take_bit_iff)
  have low: "(w OR push_bit 4 w) AND mask 4 = w"
    by (rule bit_word_eqI) (use wb in \<open>auto simp: bit_simps\<close>)
  have high: "drop_bit 4 (w OR push_bit 4 w) AND mask 4 = w"
    by (rule bit_word_eqI) (use wb in \<open>auto simp: bit_simps\<close>)
  have "nibble ?b i = v" for i
  proof -
    have "i mod 2 = 0 \<or> i mod 2 = 1" by auto
    then have "drop_bit (4 * (i mod 2)) ?b AND 15 = w"
      unfolding fifteen_mask w [symmetric] using low high by (elim disjE) simp_all
    then show ?thesis using assms by (simp add: nibble_def w unsigned_of_nat take_bit_nat_eq_self)
  qed
  then show ?thesis
    using assms wf get_index_eq [OF wf] by (auto simp: data_layer_fill_def layer_bytes_def)
qed

section \<open>Reading and writing by coordinates\<close>

lemma data_layer_index_eq:
  "0 \<le> x \<Longrightarrow> x < 16 \<Longrightarrow> 0 \<le> y \<Longrightarrow> y < 16 \<Longrightarrow> 0 \<le> z \<Longrightarrow> z < 16
    \<Longrightarrow> data_layer_index x y z = Some (nat (y * 256 + z * 16 + x))"
  by (simp add: data_layer_index_def nibble_concat)

lemma data_layer_index_chunk: "data_layer_index x y z = chunk_section_index x y z"
  by (simp add: data_layer_index_def chunk_section_index_def)

text \<open>The local slot of a packed block position; it is always in bounds.\<close>

definition local_slot :: "int \<Rightarrow> nat" where
  "local_slot block = the (data_layer_index (section_relative (block_pos_get_x block))
     (section_relative (block_pos_get_y block)) (section_relative (block_pos_get_z block)))"

lemma local_slot:
  "data_layer_index (section_relative (block_pos_get_x block)) (section_relative (block_pos_get_y block))
     (section_relative (block_pos_get_z block)) = Some (local_slot block)"
  "local_slot block < 4096"
proof -
  have "0 \<le> section_relative c \<and> section_relative c < 16" for c by (simp add: section_relative_mod)
  then show s: "data_layer_index (section_relative (block_pos_get_x block))
     (section_relative (block_pos_get_y block)) (section_relative (block_pos_get_z block)) = Some (local_slot block)"
    by (simp add: local_slot_def data_layer_index_def)
  then show "local_slot block < 4096"
    using chunk_section_index_bound by (simp add: data_layer_index_chunk)
qed

lemma local_slot_inj:
  assumes "in_i64 k" and "in_i64 l" and "block_to_section_key k = block_to_section_key l"
    and "local_slot k = local_slot l"
  shows "k = l"
proof -
  have "data_layer_index (section_relative (block_pos_get_x k)) (section_relative (block_pos_get_y k))
      (section_relative (block_pos_get_z k)) = data_layer_index (section_relative (block_pos_get_x l))
      (section_relative (block_pos_get_y l)) (section_relative (block_pos_get_z l))"
    using assms(4) by (simp only: local_slot(1))
  then have "chunk_section_index (section_relative (block_pos_get_x l)) (section_relative (block_pos_get_y l))
      (section_relative (block_pos_get_z l)) = Some (local_slot k)"
    using local_slot(1) [of k] by (simp only: data_layer_index_chunk)
  from chunk_section_index_inj [OF local_slot(1) [of k, unfolded data_layer_index_chunk] this]
  show ?thesis by (elim conjE) (rule block_key_from_section [OF assms(1-3)])
qed

end
