(* ===== verification/LightPacked.thy ===== *)
theory LightPacked imports LightDataLayer CoreChunk
begin

text \<open>
  Reading packed light, \<open>native/crates/mclone-light/src/packed.rs\<close>: the lightmap word of a block
  and the lookup of both layers in the light sections of a chunk, with the rules for absent sky
  sections.
\<close>

datatype light_layer = Sky | Block

abbreviation (input) full_bright :: u32 where "full_bright \<equiv> 15728880"

definition pack_light :: "nat \<Rightarrow> nat \<Rightarrow> u32" where
  "pack_light block sky = push_bit 4 (of_nat block AND 15) OR push_bit 20 (of_nat sky AND 15)"

definition packed_block_light :: "u32 \<Rightarrow> nat" where
  "packed_block_light packed = unat (drop_bit 4 packed AND 15)"

definition packed_sky_light :: "u32 \<Rightarrow> nat" where
  "packed_sky_light packed = unat (drop_bit 20 packed AND 15)"

definition data_layer_value :: "u8 list \<Rightarrow> nat \<Rightarrow> nat option" where
  "data_layer_value layer index = do {
     byte \<leftarrow> vec_get layer (drop_bit 1 index);
     let shift = 4 * (index AND 1);
     Some (unat (drop_bit shift byte AND 15))
   }"

definition block_light_at :: "packed_light_section list \<Rightarrow> int \<Rightarrow> nat \<Rightarrow> nat option" where
  "block_light_at light_sections sec_y index =
     (case find (\<lambda>s. pls_section_y s = sec_y) light_sections of
        None \<Rightarrow> Some 0
      | Some s \<Rightarrow> (case pls_block s of None \<Rightarrow> Some 0 | Some layer \<Rightarrow> data_layer_value layer index))"

text \<open>The loop over the sections: a section at the height itself is returned (\<open>Inl\<close>), otherwise
  the nearest sky layer above is carried (\<open>Inr\<close>).\<close>

fun sky_loop ::
  "packed_light_section list \<Rightarrow> int \<Rightarrow> (int \<times> u8 list) option \<Rightarrow> u8 list + (int \<times> u8 list) option" where
  "sky_loop [] y next_layer = Inr next_layer"
| "sky_loop (s # ss) y next_layer =
     (if pls_section_y s < y then sky_loop ss y next_layer
      else (case pls_sky s of
          None \<Rightarrow> sky_loop ss y next_layer
        | Some layer \<Rightarrow>
            if pls_section_y s = y then Inl layer
            else if (case next_layer of None \<Rightarrow> True | Some (next_y, _) \<Rightarrow> pls_section_y s < next_y)
            then sky_loop ss y (Some (pls_section_y s, layer))
            else sky_loop ss y next_layer))"

definition sky_light_at :: "packed_light_section list \<Rightarrow> int \<Rightarrow> nat \<Rightarrow> nat option" where
  "sky_light_at light_sections y index = (case sky_loop light_sections y None of
     Inl layer \<Rightarrow> data_layer_value layer index
   | Inr next_layer \<Rightarrow>
       if \<exists>s\<in>set light_sections. pls_sky s \<noteq> None
       then (case next_layer of Some (_, layer) \<Rightarrow> data_layer_value layer index | None \<Rightarrow> Some 15)
       else Some 0)"

definition packed_light_at_local_block_or_fullbright ::
  "packed_light_section list \<Rightarrow> int \<Rightarrow> int \<Rightarrow> int \<Rightarrow> int \<Rightarrow> int \<Rightarrow> u32 option" where
  "packed_light_at_local_block_or_fullbright light_sections min_y height local_x y local_z =
     (if \<not> (0 \<le> local_x \<and> local_x < chunk_width) \<or> \<not> (min_y \<le> y \<and> y < wrap_i32 (min_y + height))
         \<or> \<not> (0 \<le> local_z \<and> local_z < chunk_width) then Some full_bright
      else if light_sections = [] then Some full_bright
      else do {
        index \<leftarrow> chunk_section_index local_x (local_section_block_coord y) local_z;
        let sec_y = block_to_section_coord y;
        block \<leftarrow> block_light_at light_sections sec_y index;
        sky \<leftarrow> sky_light_at light_sections sec_y index;
        Some (pack_light block sky)
      })"

definition packed_light_section_layer ::
  "packed_light_section \<Rightarrow> light_layer \<Rightarrow> data_layer_error + data_layer option" where
  "packed_light_section_layer section layer =
     (let bytes = (case layer of Sky \<Rightarrow> pls_sky section | Block \<Rightarrow> pls_block section) in
      case bytes of None \<Rightarrow> Inr None
      | Some bytes \<Rightarrow> (case data_layer_from_vec bytes of Inl e \<Rightarrow> Inl e | Inr l \<Rightarrow> Inr (Some l)))"

section \<open>Facts\<close>

lemma fifteen_mask_u32: "(15 :: u32) = mask 4"
  by (simp add: mask_eq_exp_minus_1)

lemma low4: "n < 16 \<Longrightarrow> (of_nat n :: u32) AND 15 = of_nat n"
  unfolding fifteen_mask_u32
  by (simp add: take_bit_eq_mask [symmetric] take_bit_of_nat take_bit_nat_eq_self)

lemma pack_fields:
  fixes v w :: u32
  assumes "v AND 15 = v" and "w AND 15 = w"
  shows "drop_bit 4 (push_bit 4 v OR push_bit 20 w) AND 15 = v"
    and "drop_bit 20 (push_bit 4 v OR push_bit 20 w) AND 15 = w"
proof -
  have small: "\<not> bit v n" "\<not> bit w n" if "4 \<le> n" for n
    using that assms unfolding fifteen_mask_u32
    by (metis bit_take_bit_iff take_bit_eq_mask not_less)+
  then have less: "bit v n \<Longrightarrow> n < 4" "bit w n \<Longrightarrow> n < 4" for n by (meson not_less)+
  have v28: "n < 4 \<Longrightarrow> \<not> bit v (16 + n)" for n using small by simp
  show "drop_bit 4 (push_bit 4 v OR push_bit 20 w) AND 15 = v"
    unfolding fifteen_mask_u32 by (rule bit_word_eqI) (auto simp: bit_simps dest: less)
  show "drop_bit 20 (push_bit 4 v OR push_bit 20 w) AND 15 = w"
    unfolding fifteen_mask_u32 by (rule bit_word_eqI) (auto simp: bit_simps v28 dest: less)
qed

lemma pack_light_roundtrip:
  "b < 16 \<Longrightarrow> s < 16 \<Longrightarrow> packed_block_light (pack_light b s) = b \<and> packed_sky_light (pack_light b s) = s"
  using pack_fields [of "of_nat b" "of_nat s"]
  by (simp add: packed_block_light_def packed_sky_light_def pack_light_def low4 unsigned_of_nat
      take_bit_nat_eq_self)

lemma data_layer_value_get_index:
  assumes "length bytes = 2048" and "i < 4096"
  shows "data_layer_value bytes i = get_index (data_layer_from_bytes bytes) i"
    and "\<exists>v. data_layer_value bytes i = Some v \<and> v < 16"
proof -
  show e: "data_layer_value bytes i = get_index (data_layer_from_bytes bytes) i"
    using assms by (simp add: data_layer_value_def get_index_def data_layer_from_bytes_def)
  have "dl_wf (data_layer_from_bytes bytes)" using assms(1) by (simp add: dl_wf_def data_layer_from_bytes_def)
  then show "\<exists>v. data_layer_value bytes i = Some v \<and> v < 16"
    using nibbles.rd_defined [of _ i] assms(2) by (simp add: e)
qed

text \<open>What the lookup means: the lowest sky section not below the height decides.\<close>

definition nearest_sky :: "packed_light_section list \<Rightarrow> int \<Rightarrow> packed_light_section \<Rightarrow> bool" where
  "nearest_sky ss y s \<longleftrightarrow> s \<in> set ss \<and> pls_sky s \<noteq> None \<and> y \<le> pls_section_y s
     \<and> (\<forall>s'\<in>set ss. pls_sky s' \<noteq> None \<and> y \<le> pls_section_y s' \<longrightarrow> pls_section_y s \<le> pls_section_y s')"

definition carried_ok :: "packed_light_section list \<Rightarrow> int \<Rightarrow> (int \<times> u8 list) option \<Rightarrow> bool" where
  "carried_ok seen y next_layer \<longleftrightarrow> (\<forall>s\<in>set seen. pls_sky s \<noteq> None \<longrightarrow> pls_section_y s \<noteq> y)
     \<and> (case next_layer of
          None \<Rightarrow> \<forall>s\<in>set seen. pls_sky s \<noteq> None \<longrightarrow> pls_section_y s < y
        | Some (ny, l) \<Rightarrow> \<exists>s. nearest_sky seen y s \<and> pls_section_y s = ny \<and> pls_sky s = Some l)"

lemma nearest_sky_append:
  "nearest_sky seen y t \<Longrightarrow> pls_sky s = None \<or> pls_section_y s < y \<or> pls_section_y t \<le> pls_section_y s
    \<Longrightarrow> nearest_sky (seen @ [s]) y t"
  by (auto simp: nearest_sky_def)

lemma nearest_sky_new:
  "\<forall>t\<in>set seen. pls_sky t \<noteq> None \<and> y \<le> pls_section_y t \<longrightarrow> pls_section_y s \<le> pls_section_y t
    \<Longrightarrow> pls_sky s = Some l \<Longrightarrow> y \<le> pls_section_y s \<Longrightarrow> nearest_sky (seen @ [s]) y s"
  by (auto simp: nearest_sky_def)

lemma carried_ok_skip:
  assumes "carried_ok seen y nl" and "pls_sky s = None \<or> pls_section_y s < y"
  shows "carried_ok (seen @ [s]) y nl"
proof (cases nl)
  case None
  then show ?thesis using assms by (auto simp: carried_ok_def)
next
  case (Some a)
  then obtain t where "nearest_sky seen y t" "pls_section_y t = fst a" "pls_sky t = Some (snd a)"
    using assms(1) by (auto simp: carried_ok_def split: prod.splits)
  then show ?thesis
    using assms Some nearest_sky_append [of seen y t s] by (auto simp: carried_ok_def split: prod.splits)
qed

lemma carried_ok_take:
  assumes "carried_ok seen y nl" and "pls_sky s = Some l" and "y < pls_section_y s"
    and "case nl of None \<Rightarrow> True | Some (ny, _) \<Rightarrow> pls_section_y s < ny"
  shows "carried_ok (seen @ [s]) y (Some (pls_section_y s, l))"
proof -
  have "\<forall>t\<in>set seen. pls_sky t \<noteq> None \<and> y \<le> pls_section_y t \<longrightarrow> pls_section_y s \<le> pls_section_y t"
  proof (cases nl)
    case None
    then show ?thesis using assms(1) by (fastforce simp: carried_ok_def)
  next
    case (Some a)
    then obtain t where "nearest_sky seen y t" "pls_section_y t = fst a"
      using assms(1) by (auto simp: carried_ok_def split: prod.splits)
    then show ?thesis using assms(4) Some by (force simp: nearest_sky_def split: prod.splits)
  qed
  then have "nearest_sky (seen @ [s]) y s" using assms(2,3) by (intro nearest_sky_new) simp_all
  then show ?thesis using assms by (auto simp: carried_ok_def)
qed

lemma carried_ok_keep:
  assumes "carried_ok seen y (Some (ny, l))" and "y < pls_section_y s" and "\<not> pls_section_y s < ny"
  shows "carried_ok (seen @ [s]) y (Some (ny, l))"
proof -
  obtain t where "nearest_sky seen y t" "pls_section_y t = ny" "pls_sky t = Some l"
    using assms(1) by (auto simp: carried_ok_def)
  then show ?thesis using assms nearest_sky_append [of seen y t s] by (auto simp: carried_ok_def)
qed

lemma sky_loop_spec:
  "carried_ok seen y nl \<Longrightarrow>
   (case sky_loop ss y nl of
      Inl layer \<Rightarrow> \<exists>s\<in>set ss. pls_section_y s = y \<and> pls_sky s = Some layer
    | Inr nl' \<Rightarrow> carried_ok (seen @ ss) y nl')"
proof (induction ss arbitrary: seen nl)
  case Nil
  then show ?case by simp
next
  case (Cons s ss)
  have lift: "(case sky_loop ss y nl' of
      Inl layer \<Rightarrow> \<exists>s'\<in>set (s # ss). pls_section_y s' = y \<and> pls_sky s' = Some layer
    | Inr nl'' \<Rightarrow> carried_ok (seen @ s # ss) y nl'')" if "carried_ok (seen @ [s]) y nl'" for nl'
    using Cons.IH [OF that] by (auto split: sum.splits)
  consider "pls_section_y s < y \<or> pls_sky s = None"
    | l where "pls_sky s = Some l" "pls_section_y s = y"
    | l where "pls_sky s = Some l" "y < pls_section_y s" by force
  then show ?case
  proof cases
    case 1
    then have "sky_loop (s # ss) y nl = sky_loop ss y nl" by auto
    then show ?thesis using lift [OF carried_ok_skip [OF Cons.prems]] 1 by auto
  next
    case 2
    then show ?thesis by auto
  next
    case (3 l)
    show ?thesis
    proof (cases "case nl of None \<Rightarrow> True | Some (ny, _) \<Rightarrow> pls_section_y s < ny")
      case True
      then have "sky_loop (s # ss) y nl = sky_loop ss y (Some (pls_section_y s, l))" using 3 by simp
      then show ?thesis using lift [OF carried_ok_take [OF Cons.prems 3 True]] by simp
    next
      case False
      then obtain ny l' where nl: "nl = Some (ny, l')" "\<not> pls_section_y s < ny"
        by (cases nl) auto
      have "sky_loop (s # ss) y nl = sky_loop ss y nl" using 3 nl by simp
      then show ?thesis using lift [OF carried_ok_keep [OF Cons.prems [unfolded nl] 3(2) nl(2)]] nl by simp
    qed
  qed
qed

lemma sky_light_at_spec:
  "(\<exists>s layer. nearest_sky ss y s \<and> pls_sky s = Some layer \<and> sky_light_at ss y i = data_layer_value layer i)
       \<or> (\<nexists>s. nearest_sky ss y s) \<and> sky_light_at ss y i = Some (if \<exists>s\<in>set ss. pls_sky s \<noteq> None then 15 else 0)"
proof -
  have start: "carried_ok [] y None" by (simp add: carried_ok_def)
  note spec = sky_loop_spec [OF start, of ss]
  show ?thesis
  proof (cases "sky_loop ss y None")
    case (Inl layer)
    then obtain s where s: "s \<in> set ss" "pls_section_y s = y" "pls_sky s = Some layer"
      using spec by auto
    then have "nearest_sky ss y s" by (auto simp: nearest_sky_def)
    with s Inl show ?thesis by (auto simp: sky_light_at_def)
  next
    case (Inr nl)
    then have ok: "carried_ok ss y nl" using spec by simp
    show ?thesis
    proof (cases nl)
      case None
      then have "\<nexists>s. nearest_sky ss y s" using ok by (force simp: carried_ok_def nearest_sky_def)
      then show ?thesis using None Inr by (simp add: sky_light_at_def)
    next
      case (Some a)
      then obtain s where s: "nearest_sky ss y s" "pls_sky s = Some (snd a)"
        using ok by (cases a) (auto simp: carried_ok_def)
      then have "\<exists>s\<in>set ss. pls_sky s \<noteq> None" by (auto simp: nearest_sky_def)
      with s Some Inr show ?thesis by (auto simp: sky_light_at_def split: prod.splits)
    qed
  qed
qed

end
