(* ===== verification/LightMaps.thy ===== *)
theory LightMaps imports LightPacked
begin

text \<open>
  The section maps of \<open>native/crates/mclone-light/src/storage_map.rs\<close>: an ordered map from section
  keys to nibble arrays with a two-entry cache of recent keys, and the sky variant with the top
  section of every column.
\<close>

record storage_map =
  sm_map :: "(int, data_layer) fmap"
  sm_last_section_keys :: "int list"
  sm_cache_enabled :: bool

definition clear_cache :: "storage_map \<Rightarrow> storage_map" where
  "clear_cache m = m\<lparr>sm_last_section_keys := [i64_max, i64_max]\<rparr>"

definition storage_map_from_layers :: "(int, data_layer) fmap \<Rightarrow> storage_map" where
  "storage_map_from_layers layers = clear_cache
     \<lparr>sm_map = layers, sm_last_section_keys = [i64_max, i64_max], sm_cache_enabled = True\<rparr>"

definition storage_map_new :: storage_map where
  "storage_map_new = storage_map_from_layers fmempty"

definition storage_map_copy :: "storage_map \<Rightarrow> storage_map" where
  "storage_map_copy m = storage_map_from_layers (sm_map m)"

definition copy_data_layer :: "storage_map \<Rightarrow> int \<Rightarrow> storage_map option" where
  "copy_data_layer m section = do {
     copied \<leftarrow> fmlookup (sm_map m) section;
     Some (clear_cache (m\<lparr>sm_map := fmupd section copied (sm_map m)\<rparr>))
   }"

definition has_layer :: "storage_map \<Rightarrow> int \<Rightarrow> bool" where
  "has_layer m section \<longleftrightarrow> section |\<in>| fmdom (sm_map m)"

definition get_layer :: "storage_map \<Rightarrow> int \<Rightarrow> data_layer option" where
  "get_layer m section = fmlookup (sm_map m) section"

definition get_layer_cached :: "storage_map \<Rightarrow> int \<Rightarrow> data_layer option \<times> storage_map" where
  "get_layer_cached m section =
     (if sm_cache_enabled m \<and> section \<in> set (sm_last_section_keys m)
      then (fmlookup (sm_map m) section, m)
      else if section |\<notin>| fmdom (sm_map m) then (None, m)
      else
        let m' = (if sm_cache_enabled m
          then m\<lparr>sm_last_section_keys := [section, sm_last_section_keys m ! 0]\<rparr> else m)
        in (fmlookup (sm_map m') section, m'))"

definition remove_layer :: "storage_map \<Rightarrow> int \<Rightarrow> data_layer option \<times> storage_map" where
  "remove_layer m section = (fmlookup (sm_map m) section, m\<lparr>sm_map := fmdrop section (sm_map m)\<rparr>)"

definition set_layer :: "storage_map \<Rightarrow> int \<Rightarrow> data_layer \<Rightarrow> storage_map" where
  "set_layer m section layer = m\<lparr>sm_map := fmupd section layer (sm_map m)\<rparr>"

definition disable_cache :: "storage_map \<Rightarrow> storage_map" where
  "disable_cache m = clear_cache (m\<lparr>sm_cache_enabled := False\<rparr>)"

definition layer_count :: "storage_map \<Rightarrow> nat" where
  "layer_count m = fcard (fmdom (sm_map m))"

section \<open>Sky map\<close>

record sky_storage_map =
  ssm_data :: storage_map
  ssm_top_sections :: "(int, int) fmap"
  ssm_current_lowest_y :: int

definition sky_map_new :: "int \<Rightarrow> sky_storage_map" where
  "sky_map_new lowest = \<lparr>ssm_data = storage_map_new, ssm_top_sections = fmempty, ssm_current_lowest_y = lowest\<rparr>"

definition sky_map_copy :: "sky_storage_map \<Rightarrow> sky_storage_map" where
  "sky_map_copy m = m\<lparr>ssm_data := storage_map_copy (ssm_data m)\<rparr>"

definition sky_map_top_section :: "sky_storage_map \<Rightarrow> int \<Rightarrow> int" where
  "sky_map_top_section m column = (case fmlookup (ssm_top_sections m) (section_get_zero_node column) of
     Some y \<Rightarrow> y | None \<Rightarrow> ssm_current_lowest_y m)"

definition sky_map_set_top_section :: "sky_storage_map \<Rightarrow> int \<Rightarrow> int \<Rightarrow> sky_storage_map" where
  "sky_map_set_top_section m column y =
     m\<lparr>ssm_top_sections := fmupd (section_get_zero_node column) y (ssm_top_sections m)\<rparr>"

definition sky_map_remove_top_section :: "sky_storage_map \<Rightarrow> int \<Rightarrow> sky_storage_map" where
  "sky_map_remove_top_section m column =
     m\<lparr>ssm_top_sections := fmdrop (section_get_zero_node column) (ssm_top_sections m)\<rparr>"

section \<open>Facts\<close>

text \<open>Operations on the maps as updates of one function.\<close>

lemma storage_map_simps [simp, model_simps]:
  "sm_map (clear_cache m) = sm_map m" "sm_map (disable_cache m) = sm_map m"
  "sm_map (storage_map_copy m) = sm_map m" "sm_map (storage_map_from_layers layers) = layers"
  "sm_map storage_map_new = fmempty"
  "get_layer m s = fmlookup (sm_map m) s"
  "sm_map (set_layer m s l) = fmupd s l (sm_map m)"
  "sm_map (snd (remove_layer m s)) = fmdrop s (sm_map m)"
  "fst (remove_layer m s) = fmlookup (sm_map m) s"
  by (simp_all add: clear_cache_def disable_cache_def storage_map_copy_def storage_map_from_layers_def
      storage_map_new_def get_layer_def set_layer_def remove_layer_def)

lemma has_layer_iff [simp]: "has_layer m s \<longleftrightarrow> fmlookup (sm_map m) s \<noteq> None"
  by (auto simp: has_layer_def fmlookup_dom_iff)

lemma fmupd_same: "fmlookup m k = Some v \<Longrightarrow> fmupd k v m = m"
  by (rule fmap_ext) auto

lemma copy_data_layer_eq:
  "copy_data_layer m s = (if has_layer m s then Some (clear_cache m) else None)"
proof (cases "fmlookup (sm_map m) s")
  case (Some l)
  have "m\<lparr>sm_map := fmupd s l (sm_map m)\<rparr> = m" using Some by (simp add: fmupd_same)
  then show ?thesis by (simp add: copy_data_layer_def Some)
qed (simp add: copy_data_layer_def)

text \<open>The cache is transparent: a cached read returns the stored layer and keeps every layer.\<close>

lemma get_layer_cached_transparent:
  "fst (get_layer_cached m s) = get_layer m s" "sm_map (snd (get_layer_cached m s)) = sm_map m"
  "length (sm_last_section_keys m) = 2 \<Longrightarrow> length (sm_last_section_keys (snd (get_layer_cached m s))) = 2"
  by (auto simp: get_layer_cached_def Let_def fmlookup_dom_iff)

end
