(* ===== verification/LightSections.thy ===== *)
theory LightSections imports LightMaps
begin

text \<open>
  The section storage of one light layer, \<open>native/crates/mclone-light/src/section_storage.rs\<close>: the
  updating and the visible copy of the nibble arrays, the marks that drive the section levels, the
  queued data of loaded chunks and the sets that say what changed.  Ordered sets and maps are
  \<open>fset\<close> and \<open>fmap\<close>; loops over them run in key order.
\<close>

abbreviation (input) light_and_data :: nat where "light_and_data \<equiv> 0"
abbreviation (input) light_only :: nat where "light_only \<equiv> 1"
abbreviation (input) empty_section :: nat where "empty_section \<equiv> 2"

record section_edge_update =
  seu_source :: int
  seu_target :: int
  seu_level :: nat
  seu_is_decrease :: bool

record section_level_change =
  slc_added :: bool
  slc_unmarked_for_removal :: bool
  slc_marked_for_removal :: bool

record section_storage =
  ss_layer :: light_layer
  ss_data_section_set :: "int fset"
  ss_to_mark_no_data :: "int fset"
  ss_to_mark_data :: "int fset"
  ss_visible :: storage_map
  ss_updating :: storage_map
  ss_changed_sections :: "int fset"
  ss_affected :: "int fset"
  ss_queued_sections :: "(int, data_layer) fmap"
  ss_untrusted_sections :: "int fset"
  ss_columns_to_retain :: "int fset"
  ss_to_remove :: "int fset"
  ss_has_to_remove :: bool

definition section_storage_new :: "light_layer \<Rightarrow> section_storage" where
  "section_storage_new layer =
     (let updating = storage_map_new;
          visible = disable_cache (storage_map_copy updating) in
      \<lparr>ss_layer = layer, ss_data_section_set = {||}, ss_to_mark_no_data = {||}, ss_to_mark_data = {||},
       ss_visible = visible, ss_updating = updating, ss_changed_sections = {||}, ss_affected = {||},
       ss_queued_sections = fmempty, ss_untrusted_sections = {||}, ss_columns_to_retain = {||},
       ss_to_remove = {||}, ss_has_to_remove = False\<rparr>)"

definition storing_light_for_section :: "section_storage \<Rightarrow> int \<Rightarrow> bool" where
  "storing_light_for_section s section = has_layer (ss_updating s) section"

definition get_data_layer_data :: "section_storage \<Rightarrow> int \<Rightarrow> data_layer option" where
  "get_data_layer_data s section = (case fmlookup (ss_queued_sections s) section of
     Some l \<Rightarrow> Some l | None \<Rightarrow> get_layer (ss_visible s) section)"

definition get_updating_data_layer :: "section_storage \<Rightarrow> int \<Rightarrow> data_layer option" where
  "get_updating_data_layer s section = get_layer (ss_updating s) section"

definition get_visible_data_layer :: "section_storage \<Rightarrow> int \<Rightarrow> data_layer option" where
  "get_visible_data_layer s section = get_layer (ss_visible s) section"

text \<open>Reading the nibble of a block in a layer, as every caller writes it.\<close>

definition layer_at_block :: "data_layer \<Rightarrow> int \<Rightarrow> nat option" where
  "layer_at_block l block = data_layer_get l (section_relative (block_pos_get_x block))
     (section_relative (block_pos_get_y block)) (section_relative (block_pos_get_z block))"

definition get_stored_level :: "section_storage \<Rightarrow> int \<Rightarrow> nat option" where
  "get_stored_level s block = do {
     let section = block_to_section_key block;
     l \<leftarrow> get_layer (ss_updating s) section;
     layer_at_block l block
   }"

text \<open>The 27 neighbours in the order of the nested loops (z, x, y).\<close>

definition offsets27 :: "(int \<times> int \<times> int) list" where
  "offsets27 = concat (map (\<lambda>dz. concat (map (\<lambda>dx. map (\<lambda>dy. (dx, dy, dz)) [-1, 0, 1]) [-1, 0, 1])) [-1, 0, 1])"

definition mark_block_neighbor_sections_affected :: "section_storage \<Rightarrow> int \<Rightarrow> section_storage" where
  "mark_block_neighbor_sections_affected s block =
     s\<lparr>ss_affected := fold (\<lambda>(dx, dy, dz) a. finsert (block_to_section_key (block_pos_offset block dx dy dz)) a)
         offsets27 (ss_affected s)\<rparr>"

definition mark_section_and_neighbor_sections_affected :: "section_storage \<Rightarrow> int \<Rightarrow> section_storage" where
  "mark_section_and_neighbor_sections_affected s section =
     s\<lparr>ss_affected := fold (\<lambda>(dx, dy, dz) a. finsert (section_offset section dx dy dz) a)
         offsets27 (ss_affected s)\<rparr>"

text \<open>\<open>if self.changed_sections.insert(section) { copy_data_layer }\<close>\<close>

definition touch_section :: "section_storage \<Rightarrow> int \<Rightarrow> section_storage option" where
  "touch_section s section =
     (if section |\<in>| ss_changed_sections s then Some s
      else do {
        updating \<leftarrow> copy_data_layer (ss_updating s) section;
        Some (s\<lparr>ss_changed_sections := finsert section (ss_changed_sections s), ss_updating := updating\<rparr>)
      })"

definition set_stored_level :: "section_storage \<Rightarrow> int \<Rightarrow> nat \<Rightarrow> section_storage option" where
  "set_stored_level s block level = do {
     let section = block_to_section_key block;
     s \<leftarrow> touch_section s section;
     l \<leftarrow> get_layer (ss_updating s) section;
     l \<leftarrow> data_layer_set l (section_relative (block_pos_get_x block))
       (section_relative (block_pos_get_y block)) (section_relative (block_pos_get_z block)) level;
     let s = s\<lparr>ss_updating := set_layer (ss_updating s) section l\<rparr>;
     Some (mark_block_neighbor_sections_affected s block)
   }"

definition fill_stored_section :: "section_storage \<Rightarrow> int \<Rightarrow> nat \<Rightarrow> section_storage option" where
  "fill_stored_section s section level = do {
     s \<leftarrow> touch_section s section;
     l \<leftarrow> get_layer (ss_updating s) section;
     l \<leftarrow> data_layer_fill l level;
     let s = s\<lparr>ss_updating := set_layer (ss_updating s) section l\<rparr>;
     Some (mark_section_and_neighbor_sections_affected s section)
   }"

definition section_level :: "section_storage \<Rightarrow> int \<Rightarrow> nat" where
  "section_level s section =
     (if section = i64_max then empty_section
      else if section |\<in>| ss_data_section_set s then light_and_data
      else if section |\<notin>| ss_to_remove s \<and> has_layer (ss_updating s) section then light_only
      else empty_section)"

definition level_from_source :: "section_storage \<Rightarrow> int \<Rightarrow> nat" where
  "level_from_source s section =
     (if section |\<in>| ss_to_mark_no_data s then empty_section
      else if section |\<notin>| ss_data_section_set s \<and> section |\<notin>| ss_to_mark_data s then empty_section
      else light_and_data)"

definition create_data_layer :: "section_storage \<Rightarrow> int \<Rightarrow> data_layer" where
  "create_data_layer s section = (case fmlookup (ss_queued_sections s) section of
     Some l \<Rightarrow> l | None \<Rightarrow> data_layer_new)"

definition apply_graph_level ::
  "section_storage \<Rightarrow> int \<Rightarrow> nat \<Rightarrow> (section_level_change \<times> section_storage) option" where
  "apply_graph_level s section level = do {
     assert_that (level \<le> empty_section);
     let old_level = section_level s section;
     let s = (if old_level \<noteq> light_and_data \<and> level = light_and_data
       then s\<lparr>ss_data_section_set := finsert section (ss_data_section_set s),
              ss_to_mark_data := ss_to_mark_data s |-| {|section|}\<rparr> else s);
     let s = (if old_level = light_and_data \<and> level \<noteq> light_and_data
       then s\<lparr>ss_data_section_set := ss_data_section_set s |-| {|section|},
              ss_to_mark_no_data := ss_to_mark_no_data s |-| {|section|}\<rparr> else s);
     let (added, unmarked, s) =
       (if empty_section \<le> old_level \<and> level \<noteq> empty_section then
          if section |\<in>| ss_to_remove s
          then (False, True, s\<lparr>ss_to_remove := ss_to_remove s |-| {|section|}\<rparr>)
          else
            let l = create_data_layer s section;
                s = s\<lparr>ss_updating := set_layer (ss_updating s) section l,
                      ss_changed_sections := finsert section (ss_changed_sections s)\<rparr>;
                s = mark_section_and_neighbor_sections_affected s section
            in (True, False, s)
        else (False, False, s));
     let (marked, s) =
       (if old_level \<noteq> empty_section \<and> empty_section \<le> level
        then (True, s\<lparr>ss_to_remove := finsert section (ss_to_remove s)\<rparr>) else (False, s));
     let s = s\<lparr>ss_has_to_remove := ss_to_remove s \<noteq> {||}\<rparr>;
     Some (\<lparr>slc_added = added, slc_unmarked_for_removal = unmarked, slc_marked_for_removal = marked\<rparr>, s)
   }"

text \<open>One iteration of the loop over \<open>to_remove\<close>.\<close>

definition remove_marked :: "int \<Rightarrow> section_storage \<Rightarrow> section_storage" where
  "remove_marked section s =
     (let queued = fmlookup (ss_queued_sections s) section;
          s = s\<lparr>ss_queued_sections := fmdrop section (ss_queued_sections s)\<rparr>;
          (removed_layer, updating) = remove_layer (ss_updating s) section;
          s = s\<lparr>ss_updating := updating\<rparr>
      in if section_get_zero_node section |\<in>| ss_columns_to_retain s
         then (case queued of
             Some l \<Rightarrow> s\<lparr>ss_queued_sections := fmupd section l (ss_queued_sections s)\<rparr>
           | None \<Rightarrow> (case removed_layer of
               Some l \<Rightarrow> s\<lparr>ss_queued_sections := fmupd section l (ss_queued_sections s)\<rparr>
             | None \<Rightarrow> s))
         else s)"

definition remove_marked_sections :: "section_storage \<Rightarrow> int list \<times> section_storage" where
  "remove_marked_sections s =
     (let to_remove = sorted_list_of_fset (ss_to_remove s);
          s = fold remove_marked to_remove (s\<lparr>ss_to_remove := {||}\<rparr>)
      in (to_remove, s\<lparr>ss_updating := clear_cache (ss_updating s), ss_has_to_remove := False\<rparr>))"

definition remove_section :: "section_storage \<Rightarrow> int \<Rightarrow> bool \<times> section_storage" where
  "remove_section s section =
     (let (removed, updating) = remove_layer (ss_updating s) section;
          was_storing = (removed \<noteq> None);
          (_, visible) = remove_layer (ss_visible s) section;
          to_remove = ss_to_remove s |-| {|section|}
      in (was_storing, s\<lparr>
        ss_updating := clear_cache updating,
        ss_visible := clear_cache visible,
        ss_data_section_set := ss_data_section_set s |-| {|section|},
        ss_to_mark_no_data := ss_to_mark_no_data s |-| {|section|},
        ss_to_mark_data := ss_to_mark_data s |-| {|section|},
        ss_changed_sections := ss_changed_sections s |-| {|section|},
        ss_affected := ss_affected s |-| {|section|},
        ss_queued_sections := fmdrop section (ss_queued_sections s),
        ss_untrusted_sections := ss_untrusted_sections s |-| {|section|},
        ss_to_remove := to_remove,
        ss_has_to_remove := to_remove \<noteq> {||}\<rparr>))"

definition forget_retained_column :: "section_storage \<Rightarrow> int \<Rightarrow> section_storage" where
  "forget_retained_column s column =
     s\<lparr>ss_columns_to_retain := ss_columns_to_retain s |-| {|section_get_zero_node column|}\<rparr>"

definition stored_section_count :: "section_storage \<Rightarrow> nat" where
  "stored_section_count s = layer_count (ss_updating s)"

definition accept_queued :: "int \<times> data_layer \<Rightarrow> section_storage \<Rightarrow> section_storage" where
  "accept_queued = (\<lambda>(section, l) s.
     if storing_light_for_section s section \<and> get_layer (ss_updating s) section \<noteq> Some l
     then s\<lparr>ss_updating := set_layer (ss_updating s) section l,
            ss_changed_sections := finsert section (ss_changed_sections s)\<rparr>
     else s)"

definition accept_queued_sections_for_stored_layers :: "section_storage \<Rightarrow> section_storage" where
  "accept_queued_sections_for_stored_layers s =
     (let s = fold accept_queued (sorted_list_of_fmap (ss_queued_sections s)) s;
          accepted = filter (storing_light_for_section s) (sorted_list_of_fset (fmdom (ss_queued_sections s)));
          s = fold (\<lambda>section s. s\<lparr>ss_queued_sections := fmdrop section (ss_queued_sections s)\<rparr>) accepted s
      in s\<lparr>ss_updating := clear_cache (ss_updating s)\<rparr>)"

definition retain_data :: "section_storage \<Rightarrow> int \<Rightarrow> bool \<Rightarrow> section_storage" where
  "retain_data s column retain =
     (let column = section_get_zero_node column in
      if retain then s\<lparr>ss_columns_to_retain := finsert column (ss_columns_to_retain s)\<rparr>
      else s\<lparr>ss_columns_to_retain := ss_columns_to_retain s |-| {|column|}\<rparr>)"

definition queue_section_data :: "section_storage \<Rightarrow> int \<Rightarrow> data_layer option \<Rightarrow> bool \<Rightarrow> section_storage" where
  "queue_section_data s section l trusted = (case l of
     Some l \<Rightarrow>
       let s = s\<lparr>ss_queued_sections := fmupd section l (ss_queued_sections s)\<rparr> in
       if \<not> trusted then s\<lparr>ss_untrusted_sections := finsert section (ss_untrusted_sections s)\<rparr> else s
   | None \<Rightarrow> s\<lparr>ss_queued_sections := fmdrop section (ss_queued_sections s),
               ss_untrusted_sections := ss_untrusted_sections s |-| {|section|}\<rparr>)"

definition update_section_status ::
  "section_storage \<Rightarrow> int \<Rightarrow> bool \<Rightarrow> section_edge_update option \<times> section_storage" where
  "update_section_status s section is_empty =
     (let has_data = section |\<in>| ss_data_section_set s in
      if \<not> has_data \<and> \<not> is_empty then
        (Some \<lparr>seu_source = i64_max, seu_target = section, seu_level = light_and_data, seu_is_decrease = True\<rparr>,
         s\<lparr>ss_to_mark_data := finsert section (ss_to_mark_data s)\<rparr>)
      else if has_data \<and> is_empty then
        (Some \<lparr>seu_source = i64_max, seu_target = section, seu_level = empty_section, seu_is_decrease = False\<rparr>,
         s\<lparr>ss_to_mark_no_data := finsert section (ss_to_mark_no_data s)\<rparr>)
      else (None, s))"

definition swap_section_map :: "section_storage \<Rightarrow> int list \<times> section_storage" where
  "swap_section_map s =
     (let s = (if ss_changed_sections s \<noteq> {||}
        then s\<lparr>ss_visible := disable_cache (storage_map_copy (ss_updating s)), ss_changed_sections := {||}\<rparr> else s)
      in (sorted_list_of_fset (ss_affected s), s\<lparr>ss_affected := {||}\<rparr>))"

definition queued_section_count :: "section_storage \<Rightarrow> nat" where
  "queued_section_count s = fcard (fmdom (ss_queued_sections s))"

section \<open>Invariant\<close>

definition layers_wf :: "(int, data_layer) fmap \<Rightarrow> bool" where
  "layers_wf m \<longleftrightarrow> (\<forall>k l. fmlookup m k = Some l \<longrightarrow> dl_wf l)"

definition storage_wf :: "section_storage \<Rightarrow> bool" where
  "storage_wf s \<longleftrightarrow> layers_wf (sm_map (ss_updating s)) \<and> layers_wf (sm_map (ss_visible s))
     \<and> layers_wf (ss_queued_sections s)
     \<and> fset (ss_data_section_set s) \<subseteq> fset (fmdom (sm_map (ss_updating s)))
     \<and> fset (ss_to_remove s) \<subseteq> fset (fmdom (sm_map (ss_updating s)))
     \<and> fset (ss_data_section_set s) \<inter> fset (ss_to_remove s) = {}
     \<and> (ss_has_to_remove s \<longleftrightarrow> ss_to_remove s \<noteq> {||})"

text \<open>Sections that are not marked as changed look the same to readers and to the updating thread.\<close>

definition published :: "section_storage \<Rightarrow> bool" where
  "published s \<longleftrightarrow> (\<forall>section. section |\<notin>| ss_changed_sections s
     \<longrightarrow> fmlookup (sm_map (ss_visible s)) section = fmlookup (sm_map (ss_updating s)) section)"

definition stored :: "section_storage \<Rightarrow> int set" where
  "stored s = fset (fmdom (sm_map (ss_updating s)))"

lemma storing_light_iff: "storing_light_for_section s section \<longleftrightarrow> section \<in> stored s"
  by (auto simp: storing_light_for_section_def stored_def fmlookup_dom_iff)

lemma layers_wf_simps [simp]:
  "layers_wf fmempty" "layers_wf m \<Longrightarrow> dl_wf l \<Longrightarrow> layers_wf (fmupd k l m)" "layers_wf m \<Longrightarrow> layers_wf (fmdrop k m)"
  by (auto simp: layers_wf_def)

lemma dl_wf_new [simp]: "dl_wf data_layer_new"
  by (simp add: dl_wf_def data_layer_new_def)

lemma storage_new_ok: "storage_wf (section_storage_new layer)" "published (section_storage_new layer)"
  "stored (section_storage_new layer) = {}"
  by (simp_all add: storage_wf_def published_def stored_def section_storage_new_def)

section \<open>Levels of blocks\<close>

text \<open>The light level of a block in the updating map, zero where nothing is stored.\<close>

definition light_of :: "section_storage \<Rightarrow> int \<Rightarrow> nat" where
  "light_of s b = (case fmlookup (sm_map (ss_updating s)) (block_to_section_key b) of
     Some l \<Rightarrow> the (get_index l (local_slot b)) | None \<Rightarrow> 0)"

lemma layer_at_block_eq: "layer_at_block l b = get_index l (local_slot b)"
  by (simp add: layer_at_block_def data_layer_get_def local_slot)

lemma layer_at_block_Some:
  "dl_wf l \<Longrightarrow> \<exists>v. layer_at_block l b = Some v \<and> v < 16"
  using nibbles.rd_defined [of l "local_slot b"] local_slot(2) by (simp add: layer_at_block_eq)

lemma updating_wf: "storage_wf s \<Longrightarrow> fmlookup (sm_map (ss_updating s)) k = Some l \<Longrightarrow> dl_wf l"
  by (auto simp: storage_wf_def layers_wf_def)

lemma get_stored_level_eq:
  assumes "storage_wf s" and "block_to_section_key b \<in> stored s"
  shows "get_stored_level s b = Some (light_of s b)"
proof -
  obtain l where l: "fmlookup (sm_map (ss_updating s)) (block_to_section_key b) = Some l"
    using assms(2) by (auto simp: stored_def fmlookup_dom_iff)
  obtain v where "layer_at_block l b = Some v" using layer_at_block_Some [OF updating_wf [OF assms(1) l]] by blast
  then show ?thesis using l by (simp add: get_stored_level_def light_of_def layer_at_block_eq)
qed

lemma light_of_less:
  assumes "storage_wf s"
  shows "light_of s b < 16"
proof (cases "fmlookup (sm_map (ss_updating s)) (block_to_section_key b)")
  case (Some l)
  then show ?thesis
    using layer_at_block_Some [OF updating_wf [OF assms Some], of b] by (auto simp: light_of_def layer_at_block_eq)
qed (simp add: light_of_def)

lemma layer_at_block_light:
  "fmlookup (sm_map (ss_updating s)) (block_to_section_key b) = Some l \<Longrightarrow> storage_wf s
    \<Longrightarrow> layer_at_block l b = Some (light_of s b)"
  using layer_at_block_Some [OF updating_wf, of s "block_to_section_key b" l b]
  by (auto simp: light_of_def layer_at_block_eq)

section \<open>Marks\<close>

lemma mark_simps [simp]:
  "ss_updating (mark_block_neighbor_sections_affected s b) = ss_updating s"
  "ss_visible (mark_block_neighbor_sections_affected s b) = ss_visible s"
  "ss_queued_sections (mark_block_neighbor_sections_affected s b) = ss_queued_sections s"
  "ss_data_section_set (mark_block_neighbor_sections_affected s b) = ss_data_section_set s"
  "ss_to_remove (mark_block_neighbor_sections_affected s b) = ss_to_remove s"
  "ss_has_to_remove (mark_block_neighbor_sections_affected s b) = ss_has_to_remove s"
  "ss_changed_sections (mark_block_neighbor_sections_affected s b) = ss_changed_sections s"
  "ss_updating (mark_section_and_neighbor_sections_affected s b) = ss_updating s"
  "ss_visible (mark_section_and_neighbor_sections_affected s b) = ss_visible s"
  "ss_queued_sections (mark_section_and_neighbor_sections_affected s b) = ss_queued_sections s"
  "ss_data_section_set (mark_section_and_neighbor_sections_affected s b) = ss_data_section_set s"
  "ss_to_remove (mark_section_and_neighbor_sections_affected s b) = ss_to_remove s"
  "ss_has_to_remove (mark_section_and_neighbor_sections_affected s b) = ss_has_to_remove s"
  "ss_changed_sections (mark_section_and_neighbor_sections_affected s b) = ss_changed_sections s"
  by (simp_all add: mark_block_neighbor_sections_affected_def mark_section_and_neighbor_sections_affected_def)

lemma storage_wf_cong:
  "storage_wf s \<Longrightarrow> sm_map (ss_updating s') = sm_map (ss_updating s) \<Longrightarrow> sm_map (ss_visible s') = sm_map (ss_visible s)
    \<Longrightarrow> ss_queued_sections s' = ss_queued_sections s \<Longrightarrow> ss_data_section_set s' = ss_data_section_set s
    \<Longrightarrow> ss_to_remove s' = ss_to_remove s \<Longrightarrow> ss_has_to_remove s' = ss_has_to_remove s \<Longrightarrow> storage_wf s'"
  by (simp add: storage_wf_def)

lemma touch_section_spec:
  assumes "section \<in> stored s"
  shows "\<exists>u. touch_section s section
     = Some (s\<lparr>ss_changed_sections := finsert section (ss_changed_sections s), ss_updating := u\<rparr>)
     \<and> sm_map u = sm_map (ss_updating s)"
proof (cases "section |\<in>| ss_changed_sections s")
  case True
  then have "finsert section (ss_changed_sections s) = ss_changed_sections s" by (rule finsert_absorb)
  then show ?thesis using True by (intro exI [of _ "ss_updating s"]) (simp add: touch_section_def)
next
  case False
  have "has_layer (ss_updating s) section" using assms by (auto simp: stored_def fmlookup_dom_iff)
  then show ?thesis
    using False by (intro exI [of _ "clear_cache (ss_updating s)"]) (simp add: touch_section_def copy_data_layer_eq)
qed

text \<open>Writing a level changes that block only, keeps the invariant and marks the section.\<close>

lemma set_stored_level_spec:
  assumes wf: "storage_wf s" and b: "in_i64 b" and st: "block_to_section_key b \<in> stored s" and v: "v < 16"
  shows "\<exists>s'. set_stored_level s b v = Some s' \<and> storage_wf s' \<and> stored s' = stored s
     \<and> (\<forall>c. in_i64 c \<longrightarrow> light_of s' c = (if c = b then v else light_of s c))
     \<and> (published s \<longrightarrow> published s')
     \<and> block_to_section_key b |\<in>| ss_changed_sections s' \<and> ss_queued_sections s' = ss_queued_sections s"
proof -
  let ?k = "block_to_section_key b"
  obtain u where u: "touch_section s ?k
      = Some (s\<lparr>ss_changed_sections := finsert ?k (ss_changed_sections s), ss_updating := u\<rparr>)"
    "sm_map u = sm_map (ss_updating s)"
    using touch_section_spec [OF st] by blast
  obtain l where l: "fmlookup (sm_map (ss_updating s)) ?k = Some l"
    using st by (auto simp: stored_def fmlookup_dom_iff)
  have lwf: "dl_wf l" by (rule updating_wf [OF wf l])
  obtain l' where l': "set_index l (local_slot b) v = Some l'"
    using nibbles.wr_defined [OF lwf local_slot(2) v] by blast
  note set = set_index_get [OF lwf local_slot(2) l']
  let ?s = "s\<lparr>ss_changed_sections := finsert ?k (ss_changed_sections s), ss_updating := set_layer u ?k l'\<rparr>"
  obtain s' where s': "s' = mark_block_neighbor_sections_affected ?s b" by simp
  then have fields: "sm_map (ss_updating s') = fmupd ?k l' (sm_map (ss_updating s))"
    "ss_visible s' = ss_visible s" "ss_queued_sections s' = ss_queued_sections s"
    "ss_data_section_set s' = ss_data_section_set s" "ss_to_remove s' = ss_to_remove s"
    "ss_has_to_remove s' = ss_has_to_remove s"
    "ss_changed_sections s' = finsert ?k (ss_changed_sections s)"
    by (simp_all add: u(2))
  have "set_stored_level s b v = Some s'"
    using u l l' by (simp add: set_stored_level_def data_layer_set_def local_slot Let_def s')
  moreover have dom: "stored s' = stored s"
    using st by (auto simp: stored_def fields)
  moreover have "storage_wf s'"
    using wf set(1) by (auto simp: storage_wf_def fields)
  moreover have "light_of s' c = (if c = b then v else light_of s c)" if c: "in_i64 c" for c
  proof (cases "c = b")
    case True
    then show ?thesis using set(2) v by (simp add: light_of_def fields)
  next
    case False
    show ?thesis
    proof (cases "block_to_section_key c = ?k")
      case True
      then have "local_slot c \<noteq> local_slot b" using local_slot_inj [OF c b True] False by blast
      then show ?thesis using set(3) False True l by (simp add: light_of_def fields)
    next
      case ne: False
      then show ?thesis using False by (simp add: light_of_def fields)
    qed
  qed
  moreover have "published s \<Longrightarrow> published s'" by (auto simp: published_def fields)
  moreover have "?k |\<in>| ss_changed_sections s'" by (simp add: fields)
  ultimately show ?thesis using fields(3) by blast
qed

lemma fill_stored_section_spec:
  assumes wf: "storage_wf s" and st: "section \<in> stored s" and v: "v \<le> 15"
  shows "\<exists>s'. fill_stored_section s section v = Some s' \<and> storage_wf s' \<and> stored s' = stored s
     \<and> (\<forall>c. light_of s' c = (if block_to_section_key c = section then v else light_of s c))
     \<and> (published s \<longrightarrow> published s') \<and> section |\<in>| ss_changed_sections s'
     \<and> ss_data_section_set s' = ss_data_section_set s \<and> ss_to_remove s' = ss_to_remove s"
proof -
  obtain u where u: "touch_section s section
      = Some (s\<lparr>ss_changed_sections := finsert section (ss_changed_sections s), ss_updating := u\<rparr>)"
    "sm_map u = sm_map (ss_updating s)"
    using touch_section_spec [OF st] by blast
  obtain l where l: "fmlookup (sm_map (ss_updating s)) section = Some l"
    using st by (auto simp: stored_def fmlookup_dom_iff)
  obtain l' where l': "data_layer_fill l v = Some l'" "dl_wf l'" "\<forall>i<4096. get_index l' i = Some v"
    using fill_reads [OF v, of l] by blast
  let ?s = "s\<lparr>ss_changed_sections := finsert section (ss_changed_sections s), ss_updating := set_layer u section l'\<rparr>"
  obtain s' where s': "s' = mark_section_and_neighbor_sections_affected ?s section" by simp
  then have fields: "sm_map (ss_updating s') = fmupd section l' (sm_map (ss_updating s))"
    "ss_visible s' = ss_visible s" "ss_queued_sections s' = ss_queued_sections s"
    "ss_data_section_set s' = ss_data_section_set s" "ss_to_remove s' = ss_to_remove s"
    "ss_has_to_remove s' = ss_has_to_remove s"
    "ss_changed_sections s' = finsert section (ss_changed_sections s)"
    by (simp_all add: u(2))
  have "fill_stored_section s section v = Some s'"
    using u l l'(1) by (simp add: fill_stored_section_def Let_def s')
  moreover have "stored s' = stored s" using st by (auto simp: stored_def fields)
  moreover have "storage_wf s'" using wf l'(2) by (auto simp: storage_wf_def fields)
  moreover have "light_of s' c = (if block_to_section_key c = section then v else light_of s c)" for c
    using l'(3) local_slot(2) [of c] by (simp add: light_of_def fields)
  moreover have "published s \<Longrightarrow> published s'" by (auto simp: published_def fields)
  ultimately show ?thesis by (auto simp: fields)
qed

section \<open>Section levels\<close>

text \<open>Applying a level makes it the section's level, leaves every other section alone and says
  whether storage was allocated.\<close>

lemma create_data_layer_wf: "storage_wf s \<Longrightarrow> dl_wf (create_data_layer s section)"
  by (auto simp: create_data_layer_def storage_wf_def layers_wf_def split: option.split)

lemma create_data_layer_cong:
  "ss_queued_sections s' = ss_queued_sections s \<Longrightarrow> create_data_layer s' = create_data_layer s"
  by (rule ext) (simp add: create_data_layer_def)

lemma section_level_cases:
  assumes "storage_wf s" and "section \<noteq> i64_max"
  shows "section_level s section = 0 \<longleftrightarrow> section |\<in>| ss_data_section_set s"
    and "section_level s section = 1 \<longleftrightarrow> section \<in> stored s \<and> section |\<notin>| ss_data_section_set s \<and> section |\<notin>| ss_to_remove s"
    and "section_level s section = 2 \<longleftrightarrow> section \<notin> stored s \<or> section |\<in>| ss_to_remove s"
    and "section_level s section \<le> 2"
  using assms by (auto simp: section_level_def storage_wf_def stored_def fmlookup_dom_iff)

definition level_applied :: "section_storage \<Rightarrow> int \<Rightarrow> nat \<Rightarrow> section_level_change \<Rightarrow> section_storage \<Rightarrow> bool" where
  "level_applied s section level change s' \<longleftrightarrow> storage_wf s' \<and> (published s \<longrightarrow> published s')
     \<and> section_level s' section = level
     \<and> (\<forall>other. other \<noteq> section \<longrightarrow> section_level s' other = section_level s other)
     \<and> stored s' = (if level < 2 then insert section (stored s) else stored s)
     \<and> (slc_added change \<longleftrightarrow> section \<notin> stored s \<and> level < 2)
     \<and> (slc_added change \<longrightarrow> fmlookup (sm_map (ss_updating s')) section = Some (create_data_layer s section))
     \<and> (\<forall>k. \<not> slc_added change \<or> k \<noteq> section
          \<longrightarrow> fmlookup (sm_map (ss_updating s')) k = fmlookup (sm_map (ss_updating s)) k)"

lemma apply_graph_level_spec:
  assumes wf: "storage_wf s" and sec: "section \<noteq> i64_max" and level: "level \<le> 2"
  shows "\<exists>change s'. apply_graph_level s section level = Some (change, s') \<and> level_applied s section level change s'"
proof -
  let ?old = "section_level s section"
  note old = section_level_cases [OF wf sec]
  consider "?old = level" | "?old < 2" "level = 2" | "?old = 0" "level = 1" | "?old = 1" "level = 0"
    | "?old = 2" "level < 2" "section |\<in>| ss_to_remove s" | "?old = 2" "level < 2" "section |\<notin>| ss_to_remove s"
    using level old(4) by linarith
  then show ?thesis
  proof cases
    case 1
    then show ?thesis
      using wf sec level old by (auto simp: apply_graph_level_def level_applied_def storage_wf_def published_def
          section_level_def stored_def Let_def)
  next
    case 2
    then show ?thesis
      using wf sec old by (auto simp: apply_graph_level_def level_applied_def storage_wf_def published_def
          section_level_def stored_def fmlookup_dom_iff Let_def)
  next
    case 3
    then show ?thesis
      using wf sec old by (auto simp: apply_graph_level_def level_applied_def storage_wf_def published_def
          section_level_def stored_def fmlookup_dom_iff Let_def)
  next
    case 4
    then show ?thesis
      using wf sec old by (auto simp: apply_graph_level_def level_applied_def storage_wf_def published_def
          section_level_def stored_def fmlookup_dom_iff Let_def)
  next
    case 5
    then show ?thesis
      using wf sec old by (auto simp: apply_graph_level_def level_applied_def storage_wf_def published_def
          section_level_def stored_def fmlookup_dom_iff Let_def)
  next
    case 6
    then show ?thesis
      using wf sec old create_data_layer_wf [OF wf, of "section"]
      by (auto simp: apply_graph_level_def level_applied_def storage_wf_def published_def create_data_layer_def
          section_level_def stored_def fmlookup_dom_iff Let_def split: option.splits)
  qed
qed

section \<open>Unloading\<close>

text \<open>Removing a section leaves no trace of it in any map or mark and touches nothing else.\<close>

lemma remove_section_spec:
  fixes sec :: int
  assumes "storage_wf s"
  defines "r \<equiv> remove_section s sec"
  shows "fst r \<longleftrightarrow> sec \<in> stored s" and "storage_wf (snd r)" and "published s \<Longrightarrow> published (snd r)"
    and "stored (snd r) = stored s - {sec}"
    and "get_data_layer_data (snd r) sec = None"
    and "block_to_section_key b \<noteq> sec \<Longrightarrow> light_of (snd r) b = light_of s b"
    and "other \<noteq> sec \<Longrightarrow> get_data_layer_data (snd r) other = get_data_layer_data s other"
  using assms(1)
  by (auto simp: r_def remove_section_def remove_layer_def Let_def stored_def fmlookup_dom_iff storage_wf_def
      published_def get_data_layer_data_def light_of_def split: option.split)

section \<open>Publishing\<close>

lemma swap_section_map_spec:
  assumes "storage_wf s" and "published s"
  defines "s' \<equiv> snd (swap_section_map s)"
  shows "sm_map (ss_visible s') = sm_map (ss_updating s)" and "sm_map (ss_updating s') = sm_map (ss_updating s)"
    and "storage_wf s'" and "published s'" and "ss_changed_sections s' = {||}" and "stored s' = stored s"
    and "light_of s' b = light_of s b" and "ss_queued_sections s' = ss_queued_sections s"
proof -
  have same: "sm_map (ss_visible s) = sm_map (ss_updating s)" if "ss_changed_sections s = {||}"
    using assms(2) that by (intro fmap_ext) (simp add: published_def)
  show "sm_map (ss_visible s') = sm_map (ss_updating s)" "sm_map (ss_updating s') = sm_map (ss_updating s)"
    "storage_wf s'" "published s'" "ss_changed_sections s' = {||}" "stored s' = stored s"
    "light_of s' b = light_of s b" "ss_queued_sections s' = ss_queued_sections s"
    using assms(1) same by (simp_all add: s'_def swap_section_map_def Let_def storage_wf_def published_def stored_def light_of_def)
qed

section \<open>Queued data\<close>

lemma sorted_list_of_fmap_props:
  "distinct (map fst (sorted_list_of_fmap m))"
  "(k, v) \<in> set (sorted_list_of_fmap m) \<longleftrightarrow> fmlookup m k = Some v"
proof -
  have f: "map fst (sorted_list_of_fmap m) = sorted_list_of_fset (fmdom m)"
    by (simp add: sorted_list_of_fmap_def comp_def)
  show "distinct (map fst (sorted_list_of_fmap m))" unfolding f by (simp add: sorted_list_of_fset.rep_eq)
  show "(k, v) \<in> set (sorted_list_of_fmap m) \<longleftrightarrow> fmlookup m k = Some v"
    by (auto simp: sorted_list_of_fmap_def fmlookup_dom_iff)
qed

definition queued_into :: "(int \<times> data_layer) list \<Rightarrow> section_storage \<Rightarrow> int \<Rightarrow> data_layer option" where
  "queued_into ls s k = (case map_of ls k of
     Some l \<Rightarrow> if k \<in> stored s then Some l else None
   | None \<Rightarrow> fmlookup (sm_map (ss_updating s)) k)"

definition untouched_by_accept :: "section_storage \<Rightarrow> section_storage \<Rightarrow> bool" where
  "untouched_by_accept s s' \<longleftrightarrow> stored s' = stored s \<and> ss_queued_sections s' = ss_queued_sections s
     \<and> ss_visible s' = ss_visible s \<and> ss_data_section_set s' = ss_data_section_set s
     \<and> ss_to_remove s' = ss_to_remove s \<and> ss_has_to_remove s' = ss_has_to_remove s
     \<and> (published s \<longrightarrow> published s')"

lemma accept_queued_step:
  fixes k :: int and l :: data_layer and s :: section_storage
  defines "s' \<equiv> accept_queued (k, l) s"
  shows "untouched_by_accept s s'"
    and "fmlookup (sm_map (ss_updating s')) k' =
      (if k' = k \<and> k \<in> stored s then Some l else fmlookup (sm_map (ss_updating s)) k')"
  by (auto simp: s'_def accept_queued_def untouched_by_accept_def storing_light_iff stored_def published_def
      fmlookup_dom_iff)

lemma accept_queued_fold:
  "distinct (map fst ls) \<Longrightarrow>
   (let s' = fold accept_queued ls s in untouched_by_accept s s'
     \<and> (\<forall>k. fmlookup (sm_map (ss_updating s')) k = queued_into ls s k))"
proof (induction ls arbitrary: s)
  case Nil
  then show ?case by (simp add: untouched_by_accept_def queued_into_def)
next
  case (Cons p ls)
  obtain k l where p: "p = (k, l)" by (cases p)
  let ?s = "accept_queued (k, l) s"
  note step = accept_queued_step [where k = k and l = l and s = s]
  have stored: "stored ?s = stored s" using step(1) by (simp add: untouched_by_accept_def)
  have ih: "untouched_by_accept ?s (fold accept_queued ls ?s)"
    "\<And>j. fmlookup (sm_map (ss_updating (fold accept_queued ls ?s))) j = queued_into ls ?s j"
    using Cons.IH [of ?s] Cons.prems by (simp_all add: Let_def)
  have "queued_into ls ?s j = queued_into (p # ls) s j" for j
  proof (cases "j = k")
    case True
    then have "map_of ls j = None" using Cons.prems by (simp add: p map_of_eq_None_iff)
    then show ?thesis using True step(2) [of j]
      by (auto simp: queued_into_def p stored_def fmlookup_dom_iff)
  next
    case False
    then show ?thesis using step(2) [of j] stored by (simp add: queued_into_def p split: option.split)
  qed
  then show ?case
    using ih step(1) by (auto simp: Let_def p untouched_by_accept_def)
qed

text \<open>Accepting queued data: every stored section takes its queued layer, other layers stay, and
  exactly the queued layers without storage remain queued.\<close>

lemma fold_fmdrop_queued:
  "fmlookup (ss_queued_sections (fold (\<lambda>k s. s\<lparr>ss_queued_sections := fmdrop k (ss_queued_sections s)\<rparr>) ks s)) k
     = (if k \<in> set ks then None else fmlookup (ss_queued_sections s) k)"
  "ss_updating (fold (\<lambda>k s. s\<lparr>ss_queued_sections := fmdrop k (ss_queued_sections s)\<rparr>) ks s) = ss_updating s"
  "ss_visible (fold (\<lambda>k s. s\<lparr>ss_queued_sections := fmdrop k (ss_queued_sections s)\<rparr>) ks s) = ss_visible s"
  "ss_changed_sections (fold (\<lambda>k s. s\<lparr>ss_queued_sections := fmdrop k (ss_queued_sections s)\<rparr>) ks s)
     = ss_changed_sections s"
  "ss_data_section_set (fold (\<lambda>k s. s\<lparr>ss_queued_sections := fmdrop k (ss_queued_sections s)\<rparr>) ks s)
     = ss_data_section_set s"
  "ss_to_remove (fold (\<lambda>k s. s\<lparr>ss_queued_sections := fmdrop k (ss_queued_sections s)\<rparr>) ks s) = ss_to_remove s"
  "ss_has_to_remove (fold (\<lambda>k s. s\<lparr>ss_queued_sections := fmdrop k (ss_queued_sections s)\<rparr>) ks s)
     = ss_has_to_remove s"
  by (induction ks arbitrary: s) auto

lemma accept_queued_sections_spec:
  assumes wf: "storage_wf s"
  defines "s' \<equiv> accept_queued_sections_for_stored_layers s"
  shows "storage_wf s'" and "published s \<Longrightarrow> published s'" and "stored s' = stored s"
    and "fmlookup (sm_map (ss_updating s')) k =
      (if k \<in> stored s then (case fmlookup (ss_queued_sections s) k of Some l \<Rightarrow> Some l
         | None \<Rightarrow> fmlookup (sm_map (ss_updating s)) k) else None)"
    and "fmlookup (ss_queued_sections s') k = (if k \<in> stored s then None else fmlookup (ss_queued_sections s) k)"
proof -
  let ?ls = "sorted_list_of_fmap (ss_queued_sections s)"
  obtain s1 where s1: "s1 = fold accept_queued ?ls s" by simp
  have fold: "untouched_by_accept s s1" "\<And>k. fmlookup (sm_map (ss_updating s1)) k = queued_into ?ls s k"
    using accept_queued_fold [OF sorted_list_of_fmap_props(1) [of "ss_queued_sections s"], of s] by (simp_all add: Let_def s1)
  have mo: "map_of ?ls k = fmlookup (ss_queued_sections s) k" for k
    using sorted_list_of_fmap_props [where m = "ss_queued_sections s"]
    by (cases "fmlookup (ss_queued_sections s) k") (auto simp: map_of_eq_None_iff intro: map_of_is_SomeI)
  let ?ks = "filter (storing_light_for_section s1) (sorted_list_of_fset (fmdom (ss_queued_sections s1)))"
  have s': "s' = (fold (\<lambda>k s. s\<lparr>ss_queued_sections := fmdrop k (ss_queued_sections s)\<rparr>) ?ks s1)
      \<lparr>ss_updating := clear_cache (ss_updating s1)\<rparr>"
    by (simp add: s'_def accept_queued_sections_for_stored_layers_def Let_def s1 fold_fmdrop_queued(2))
  have up: "sm_map (ss_updating s') = sm_map (ss_updating s1)" by (simp add: s')
  show upd: "fmlookup (sm_map (ss_updating s')) k =
      (if k \<in> stored s then (case fmlookup (ss_queued_sections s) k of Some l \<Rightarrow> Some l
         | None \<Rightarrow> fmlookup (sm_map (ss_updating s)) k) else None)" for k
    unfolding up fold(2) by (auto simp: queued_into_def mo stored_def fmlookup_dom_iff split: option.split)
  show q: "fmlookup (ss_queued_sections s') k = (if k \<in> stored s then None else fmlookup (ss_queued_sections s) k)" for k
    using fold(1) by (auto simp: s' fold_fmdrop_queued(1) storing_light_iff untouched_by_accept_def fmlookup_dom_iff)
  show st: "stored s' = stored s" using fold(1) by (simp add: stored_def untouched_by_accept_def up)
  show "published s'" if "published s"
    using fold(1) that unfolding untouched_by_accept_def by (simp add: published_def s' fold_fmdrop_queued) metis
  have "layers_wf (sm_map (ss_updating s'))" "layers_wf (ss_queued_sections s')"
    using wf unfolding layers_wf_def upd q by (auto simp: storage_wf_def layers_wf_def split: if_splits option.splits)
  moreover have "ss_data_section_set s' = ss_data_section_set s" "ss_to_remove s' = ss_to_remove s"
    "ss_has_to_remove s' = ss_has_to_remove s" "ss_visible s' = ss_visible s"
    using fold(1) by (simp_all add: s' fold_fmdrop_queued untouched_by_accept_def)
  ultimately show "storage_wf s'" using wf st by (simp add: storage_wf_def stored_def)
qed

section \<open>Removing marked sections\<close>

text \<open>What stays queued for a section that is removed: its queued layer, or the removed one, if its
  column is retained.\<close>

definition kept_data :: "section_storage \<Rightarrow> int \<Rightarrow> data_layer option" where
  "kept_data s k =
     (if section_get_zero_node k |\<in>| ss_columns_to_retain s
      then (case fmlookup (ss_queued_sections s) k of Some l \<Rightarrow> Some l
        | None \<Rightarrow> fmlookup (sm_map (ss_updating s)) k)
      else None)"

lemma remove_marked_step:
  "fmlookup (ss_queued_sections (remove_marked k s)) j = (if j = k then kept_data s k else fmlookup (ss_queued_sections s) j)"
  "fmlookup (sm_map (ss_updating (remove_marked k s))) j = (if j = k then None else fmlookup (sm_map (ss_updating s)) j)"
  "ss_columns_to_retain (remove_marked k s) = ss_columns_to_retain s"
  "ss_data_section_set (remove_marked k s) = ss_data_section_set s"
  "ss_to_remove (remove_marked k s) = ss_to_remove s"
  "ss_visible (remove_marked k s) = ss_visible s"
  by (auto simp: remove_marked_def kept_data_def remove_layer_def Let_def split: option.split)

lemma remove_marked_fold:
  "distinct ks \<Longrightarrow>
   fmlookup (ss_queued_sections (fold remove_marked ks s)) j
     = (if j \<in> set ks then kept_data s j else fmlookup (ss_queued_sections s) j)
   \<and> fmlookup (sm_map (ss_updating (fold remove_marked ks s))) j
     = (if j \<in> set ks then None else fmlookup (sm_map (ss_updating s)) j)
   \<and> ss_data_section_set (fold remove_marked ks s) = ss_data_section_set s
   \<and> ss_to_remove (fold remove_marked ks s) = ss_to_remove s
   \<and> ss_visible (fold remove_marked ks s) = ss_visible s"
proof (induction ks arbitrary: s)
  case Nil
  then show ?case by simp
next
  case (Cons k ks)
  have "kept_data (remove_marked k s) j = kept_data s j" if "j \<noteq> k"
    using that by (simp add: kept_data_def remove_marked_step split: option.split)
  then show ?case using Cons by (auto simp: remove_marked_step)
qed

lemma remove_marked_sections_spec:
  assumes wf: "storage_wf s"
  defines "r \<equiv> remove_marked_sections s"
  shows "set (fst r) = fset (ss_to_remove s)" and "storage_wf (snd r)"
    and "stored (snd r) = stored s - fset (ss_to_remove s)"
    and "fmlookup (ss_queued_sections (snd r)) k
      = (if k |\<in>| ss_to_remove s then kept_data s k else fmlookup (ss_queued_sections s) k)"
    and "section_level (snd r) k = section_level s k"
proof -
  let ?ks = "sorted_list_of_fset (ss_to_remove s)" and ?s0 = "s\<lparr>ss_to_remove := {||}\<rparr>"
  have d: "distinct ?ks" and set_ks: "set ?ks = fset (ss_to_remove s)" by (simp_all add: sorted_list_of_fset.rep_eq)
  have k0: "kept_data ?s0 = kept_data s" by (rule ext) (simp add: kept_data_def split: option.split)
  note f = remove_marked_fold [OF d, of ?s0, unfolded set_ks k0]
  have r: "r = (?ks, (fold remove_marked ?ks ?s0)
      \<lparr>ss_updating := clear_cache (ss_updating (fold remove_marked ?ks ?s0)), ss_has_to_remove := False\<rparr>)"
    by (simp add: r_def remove_marked_sections_def Let_def)
  show "set (fst r) = fset (ss_to_remove s)" by (simp add: r set_ks)
  have up: "fmlookup (sm_map (ss_updating (snd r))) j
      = (if j |\<in>| ss_to_remove s then None else fmlookup (sm_map (ss_updating s)) j)" for j
    using f [of j] by (simp add: r)
  show q: "fmlookup (ss_queued_sections (snd r)) k
      = (if k |\<in>| ss_to_remove s then kept_data s k else fmlookup (ss_queued_sections s) k)" for k
    using f [of k] by (simp add: r)
  show st: "stored (snd r) = stored s - fset (ss_to_remove s)"
    by (auto simp: stored_def fmlookup_dom_iff up split: if_splits)
  have rest: "ss_data_section_set (snd r) = ss_data_section_set s" "ss_to_remove (snd r) = {||}"
    "ss_visible (snd r) = ss_visible s" "ss_has_to_remove (snd r) = False"
    using f by (simp_all add: r)
  have "layers_wf (sm_map (ss_updating (snd r)))" using wf by (auto simp: layers_wf_def storage_wf_def up)
  moreover have "layers_wf (ss_queued_sections (snd r))"
    using wf unfolding layers_wf_def q
    by (auto simp: storage_wf_def layers_wf_def kept_data_def split: if_splits option.splits)
  ultimately show "storage_wf (snd r)"
    using wf st by (auto simp: storage_wf_def rest stored_def split: if_splits)
  show "section_level (snd r) k = section_level s k"
    using wf up [of k] by (auto simp: section_level_def rest storage_wf_def)
qed

end
