(* ===== verification/LightSky.thy ===== *)
theory LightSky imports LightSections
begin

text \<open>
  The storage of the sky layer, \<open>native/crates/mclone-light/src/sky_storage.rs\<close>: the section storage
  plus the columns that see the sky, the top of every column and the sections at which light enters.
  Methods that only forward to the inner storage are the inner operations.  Section heights stay
  within 20 bits, so the arithmetic on them cannot wrap.
\<close>

datatype sky_source_update_kind = AddSource | RemoveSource

record sky_source_update =
  ssu_section :: int
  ssu_kind :: sky_source_update_kind

record sky_storage =
  sky_inner :: section_storage
  sky_with_sources :: "int fset"
  sky_to_add :: "int fset"
  sky_to_remove :: "int fset"
  sky_columns :: "int fset"
  sky_tops :: "(int, int) fmap"
  sky_lowest_y :: int

definition sky_storage_new :: sky_storage where
  "sky_storage_new = \<lparr>sky_inner = section_storage_new Sky, sky_with_sources = {||}, sky_to_add = {||},
     sky_to_remove = {||}, sky_columns = {||}, sky_tops = fmempty, sky_lowest_y = i32_max\<rparr>"

definition queue_add_source :: "int \<Rightarrow> sky_storage \<Rightarrow> sky_storage" where
  "queue_add_source section s = s\<lparr>sky_to_add := finsert section (sky_to_add s),
     sky_to_remove := sky_to_remove s |-| {|section|}\<rparr>"

definition queue_remove_source :: "int \<Rightarrow> sky_storage \<Rightarrow> sky_storage" where
  "queue_remove_source section s = s\<lparr>sky_to_remove := finsert section (sky_to_remove s),
     sky_to_add := sky_to_add s |-| {|section|}\<rparr>"

definition top_section :: "sky_storage \<Rightarrow> int \<Rightarrow> int" where
  "top_section s column = (case fmlookup (sky_tops s) (section_get_zero_node column) of
     Some top_y \<Rightarrow> top_y | None \<Rightarrow> sky_lowest_y s)"

definition on_node_added :: "sky_storage \<Rightarrow> int \<Rightarrow> sky_storage" where
  "on_node_added s section =
     (let y = section_y section;
          s = (if y < sky_lowest_y s then s\<lparr>sky_lowest_y := y\<rparr> else s);
          column = section_get_zero_node section;
          top_y = top_section s column in
      if top_y < y + 1 then
        let s = s\<lparr>sky_tops := fmupd column (y + 1) (sky_tops s)\<rparr> in
        if column |\<in>| sky_columns s then
          let s = queue_add_source section s in
          if sky_lowest_y s < top_y
          then queue_remove_source (section_as_long (section_x section) (top_y - 1) (section_z section)) s
          else s
        else s
      else s)"

definition sky_apply_level :: "sky_storage \<Rightarrow> int \<Rightarrow> nat \<Rightarrow> (section_level_change \<times> sky_storage) option" where
  "sky_apply_level s section level = do {
     (change, inner) \<leftarrow> apply_graph_level (sky_inner s) section level;
     let s = s\<lparr>sky_inner := inner\<rparr>;
     Some (change, if slc_added change \<or> slc_unmarked_for_removal change then on_node_added s section else s)
   }"

definition sky_activate_section :: "sky_storage \<Rightarrow> int \<Rightarrow> (section_level_change \<times> sky_storage) option" where
  "sky_activate_section s section = sky_apply_level s section light_only"

definition sky_activate_data_section :: "sky_storage \<Rightarrow> int \<Rightarrow> (section_level_change \<times> sky_storage) option" where
  "sky_activate_data_section s section = sky_apply_level s section light_and_data"

definition sky_remove_section :: "sky_storage \<Rightarrow> int \<Rightarrow> bool \<times> sky_storage" where
  "sky_remove_section s section =
     (let (was_storing, inner) = remove_section (sky_inner s) section in
      (was_storing, s\<lparr>sky_inner := inner,
         sky_with_sources := sky_with_sources s |-| {|section|},
         sky_to_add := sky_to_add s |-| {|section|},
         sky_to_remove := sky_to_remove s |-| {|section|}\<rparr>))"

definition sky_forget_column :: "sky_storage \<Rightarrow> int \<Rightarrow> sky_storage" where
  "sky_forget_column s column =
     (let column = section_get_zero_node column in
      s\<lparr>sky_columns := sky_columns s |-| {|column|}, sky_tops := fmdrop column (sky_tops s),
        sky_inner := forget_retained_column (sky_inner s) column\<rparr>)"

definition sky_enable_light_sources :: "sky_storage \<Rightarrow> int \<Rightarrow> bool \<Rightarrow> sky_storage" where
  "sky_enable_light_sources s column enabled =
     (let column = section_get_zero_node column in
      if enabled \<and> column |\<notin>| sky_columns s then
        let s = s\<lparr>sky_columns := finsert column (sky_columns s)\<rparr>;
            top_y = top_section s column in
        if top_y \<noteq> sky_lowest_y s
        then queue_add_source (section_as_long (section_x column) (top_y - 1) (section_z column)) s
        else s
      else if \<not> enabled \<and> column |\<in>| sky_columns s then
        let s = s\<lparr>sky_columns := sky_columns s |-| {|column|}\<rparr>;
            sections = filter (\<lambda>section. section_get_zero_node section = column)
              (sorted_list_of_fset (sky_with_sources s) @ sorted_list_of_fset (sky_to_add s))
        in fold queue_remove_source sections s
      else s)"

definition has_source_inconsistencies :: "sky_storage \<Rightarrow> bool" where
  "has_source_inconsistencies s \<longleftrightarrow> sky_to_add s \<noteq> {||} \<or> sky_to_remove s \<noteq> {||}"

text \<open>The two loops of \<open>drain_source_updates\<close>; the sets are taken before they are walked.\<close>

fun drain_adds :: "sky_storage \<Rightarrow> int list \<Rightarrow> sky_source_update list \<times> sky_storage" where
  "drain_adds s [] = ([], s)"
| "drain_adds s (section # sections) =
     (if storing_light_for_section (sky_inner s) section \<and> section |\<notin>| sky_to_remove s
         \<and> section |\<notin>| sky_with_sources s
      then let (updates, s) = drain_adds (s\<lparr>sky_with_sources := finsert section (sky_with_sources s)\<rparr>) sections
           in (\<lparr>ssu_section = section, ssu_kind = AddSource\<rparr> # updates, s)
      else drain_adds s sections)"

fun drain_removes :: "sky_storage \<Rightarrow> int list \<Rightarrow> sky_source_update list \<times> sky_storage" where
  "drain_removes s [] = ([], s)"
| "drain_removes s (section # sections) =
     (let removed = section |\<in>| sky_with_sources s;
          s = s\<lparr>sky_with_sources := sky_with_sources s |-| {|section|}\<rparr> in
      if removed \<and> storing_light_for_section (sky_inner s) section
      then let (updates, s) = drain_removes s sections
           in (\<lparr>ssu_section = section, ssu_kind = RemoveSource\<rparr> # updates, s)
      else drain_removes s sections)"

definition drain_source_updates :: "sky_storage \<Rightarrow> sky_source_update list \<times> sky_storage" where
  "drain_source_updates s =
     (let to_add = sorted_list_of_fset (sky_to_add s);
          (added, s) = drain_adds (s\<lparr>sky_to_add := {||}\<rparr>) to_add;
          to_remove = sorted_list_of_fset (sky_to_remove s);
          (removed, s) = drain_removes (s\<lparr>sky_to_remove := {||}\<rparr>) to_remove
      in (added @ removed, s))"

definition light_on_in_section :: "sky_storage \<Rightarrow> int \<Rightarrow> bool" where
  "light_on_in_section s section \<longleftrightarrow> section_get_zero_node section |\<in>| sky_columns s"

definition section_has_source :: "sky_storage \<Rightarrow> int \<Rightarrow> bool" where
  "section_has_source s section \<longleftrightarrow> section |\<in>| sky_with_sources s \<or> section |\<in>| sky_to_add s"

definition data_layer_for_light_value :: "sky_storage \<Rightarrow> int \<Rightarrow> bool \<Rightarrow> data_layer option" where
  "data_layer_for_light_value s section updating =
     (if updating then get_updating_data_layer (sky_inner s) section
      else get_visible_data_layer (sky_inner s) section)"

function light_value_loop ::
  "sky_storage \<Rightarrow> int \<Rightarrow> bool \<Rightarrow> int \<Rightarrow> int \<Rightarrow> int \<Rightarrow> int \<Rightarrow> int \<Rightarrow> nat option" where
  "light_value_loop s section updating top_y local_x local_y local_z y =
     (let probe_section = section_as_long (section_x section) y (section_z section) in
      case data_layer_for_light_value s probe_section updating of
        Some l \<Rightarrow> data_layer_get l local_x local_y local_z
      | None \<Rightarrow> if top_y \<le> y + 1 then Some 15
                else light_value_loop s section updating top_y local_x local_y local_z (y + 1))"
  by pat_completeness auto
termination
  by (relation "measure (\<lambda>(s, section, updating, top_y, local_x, local_y, local_z, y). nat (top_y - y))") auto

declare light_value_loop.simps [simp del]

definition sky_get_light_value :: "sky_storage \<Rightarrow> int \<Rightarrow> bool \<Rightarrow> nat option" where
  "sky_get_light_value s block updating =
     (let section = block_to_section_key block;
          y = section_y section;
          column = section_get_zero_node section;
          top_y = top_section s column in
      if top_y \<noteq> sky_lowest_y s \<and> y < top_y then
        light_value_loop s section updating top_y (section_relative (block_pos_get_x block))
          (section_relative (block_pos_get_y block)) (section_relative (block_pos_get_z block)) y
      else if updating \<and> \<not> light_on_in_section s section then Some 0 else Some 15)"

definition has_sections_below :: "sky_storage \<Rightarrow> int \<Rightarrow> bool" where
  "has_sections_below s y \<longleftrightarrow> sky_lowest_y s \<le> y"

definition is_above_data :: "sky_storage \<Rightarrow> int \<Rightarrow> bool" where
  "is_above_data s section =
     (let top_y = top_section s section in top_y = sky_lowest_y s \<or> top_y \<le> section_y section)"

section \<open>Columns\<close>

lemma section_range:
  assumes "in_i64 k"
  shows "- (2 ^ 19) \<le> section_y k \<and> section_y k < 2 ^ 19"
proof -
  have "trunc20 (section_y k) = section_y k"
    using section_get_as_long(2) [of "section_x k" "section_y k" "section_z k"] section_as_long_get [OF assms] by simp
  then show ?thesis
    using signed_take_bit_int_less_exp [of 19 "section_y k"] signed_take_bit_int_greater_eq_minus_exp [of 19 "section_y k"]
    by simp
qed

lemma section_trunc [simp]:
  assumes "in_i64 k"
  shows "trunc22 (section_x k) = section_x k" "trunc20 (section_y k) = section_y k" "trunc22 (section_z k) = section_z k"
  using section_get_as_long [of "section_x k" "section_y k" "section_z k"] section_as_long_get [OF assms] by simp_all

lemma zero_node_same:
  assumes "in_i64 a" and "in_i64 b"
  shows "section_get_zero_node a = section_get_zero_node b \<longleftrightarrow> section_x a = section_x b \<and> section_z a = section_z b"
  using assms by (metis section_get_as_long(1,3) section_trunc(1,3) zero_node_eq)

lemma zero_node_idem [simp]: "section_get_zero_node (section_get_zero_node k) = section_get_zero_node k"
  by (simp add: section_get_zero_node_def and.assoc)

lemma section_eqI:
  "in_i64 a \<Longrightarrow> in_i64 b \<Longrightarrow> section_get_zero_node a = section_get_zero_node b \<Longrightarrow> section_y a = section_y b \<Longrightarrow> a = b"
  using section_as_long_get zero_node_same by metis

section \<open>Invariant\<close>

text \<open>Where light enters once the queued changes are applied.\<close>

definition sky_sources :: "sky_storage \<Rightarrow> int set" where
  "sky_sources s = (fset (sky_with_sources s) \<union> fset (sky_to_add s)) - fset (sky_to_remove s)"

text \<open>Heights and sources: the lowest height lies below every top, no section is both to add and to
  remove, and a source is the topmost section of an enabled column.\<close>

definition sky_columns_ok :: "sky_storage \<Rightarrow> bool" where
  "sky_columns_ok s \<longleftrightarrow>
     (\<forall>c t. fmlookup (sky_tops s) c = Some t \<longrightarrow> sky_lowest_y s < t \<and> - (2 ^ 19) < t \<and> t \<le> 2 ^ 19)
     \<and> fset (sky_to_add s) \<inter> fset (sky_to_remove s) = {}
     \<and> (\<forall>k\<in>sky_sources s. in_i64 k \<and> section_get_zero_node k |\<in>| sky_columns s
          \<and> fmlookup (sky_tops s) (section_get_zero_node k) = Some (section_y k + 1))"

definition below_top :: "sky_storage \<Rightarrow> int \<Rightarrow> bool" where
  "below_top s k \<longleftrightarrow> in_i64 k \<and> sky_lowest_y s \<le> section_y k
     \<and> (\<exists>t. fmlookup (sky_tops s) (section_get_zero_node k) = Some t \<and> section_y k < t)"

definition sky_wf :: "sky_storage \<Rightarrow> bool" where
  "sky_wf s \<longleftrightarrow> storage_wf (sky_inner s) \<and> sky_columns_ok s \<and> (\<forall>k\<in>stored (sky_inner s). below_top s k)"

lemma sky_new_ok: "sky_wf sky_storage_new" "published (sky_inner sky_storage_new)"
  "stored (sky_inner sky_storage_new) = {}"
  using storage_new_ok [of Sky]
  by (auto simp: sky_wf_def sky_columns_ok_def sky_sources_def sky_storage_new_def)

lemma queue_sources [simp]:
  "sky_sources (queue_add_source k s) = insert k (sky_sources s)"
  "sky_sources (queue_remove_source k s) = sky_sources s - {k}"
  by (auto simp: sky_sources_def queue_add_source_def queue_remove_source_def)

lemma queue_simps [simp]:
  "sky_inner (queue_add_source k s) = sky_inner s" "sky_inner (queue_remove_source k s) = sky_inner s"
  "sky_columns (queue_add_source k s) = sky_columns s" "sky_columns (queue_remove_source k s) = sky_columns s"
  "sky_tops (queue_add_source k s) = sky_tops s" "sky_tops (queue_remove_source k s) = sky_tops s"
  "sky_lowest_y (queue_add_source k s) = sky_lowest_y s" "sky_lowest_y (queue_remove_source k s) = sky_lowest_y s"
  by (simp_all add: queue_add_source_def queue_remove_source_def)

definition queues_apart :: "sky_storage \<Rightarrow> bool" where
  "queues_apart s \<longleftrightarrow> fset (sky_to_add s) \<inter> fset (sky_to_remove s) = {}"

lemma queues_apart_queue [simp]:
  "queues_apart s \<Longrightarrow> queues_apart (queue_add_source k s)" "queues_apart s \<Longrightarrow> queues_apart (queue_remove_source k s)"
  by (auto simp: queues_apart_def queue_add_source_def queue_remove_source_def)

lemma columns_okI:
  assumes "\<And>c t. fmlookup (sky_tops s) c = Some t \<Longrightarrow> sky_lowest_y s < t \<and> - (2 ^ 19) < t \<and> t \<le> 2 ^ 19"
    and "queues_apart s"
    and "\<And>k. k \<in> sky_sources s \<Longrightarrow> in_i64 k \<and> section_get_zero_node k |\<in>| sky_columns s
          \<and> fmlookup (sky_tops s) (section_get_zero_node k) = Some (section_y k + 1)"
  shows "sky_columns_ok s"
  using assms by (simp add: sky_columns_ok_def queues_apart_def)

lemma columns_okD:
  assumes "sky_columns_ok s"
  shows "fmlookup (sky_tops s) c = Some t \<Longrightarrow> sky_lowest_y s < t \<and> - (2 ^ 19) < t \<and> t \<le> 2 ^ 19"
    and "queues_apart s"
    and "k \<in> sky_sources s \<Longrightarrow> in_i64 k \<and> section_get_zero_node k |\<in>| sky_columns s
          \<and> fmlookup (sky_tops s) (section_get_zero_node k) = Some (section_y k + 1)"
  using assms unfolding sky_columns_ok_def queues_apart_def by blast+

lemma top_section_cases:
  assumes "sky_columns_ok s"
  shows "top_section s c \<noteq> sky_lowest_y s \<longleftrightarrow> (\<exists>t. fmlookup (sky_tops s) (section_get_zero_node c) = Some t)"
    and "fmlookup (sky_tops s) (section_get_zero_node c) = Some t \<Longrightarrow> top_section s c = t"
  using columns_okD(1) [OF assms, of "section_get_zero_node c"]
  by (cases "fmlookup (sky_tops s) (section_get_zero_node c)"; force simp: top_section_def)+

text \<open>The source of a column: its topmost section.\<close>

lemma source_section:
  assumes "in_i64 c" and "section_get_zero_node c = c" and "- (2 ^ 19) < t" and "t \<le> 2 ^ 19"
  defines "k \<equiv> section_as_long (section_x c) (t - 1) (section_z c)"
  shows "in_i64 k" and "section_get_zero_node k = c" and "section_y k = t - 1"
proof -
  show "in_i64 k" by (simp add: k_def)
  have "section_get_zero_node k = section_as_long (section_x c) 0 (section_z c)" by (simp add: k_def zero_node_as_long)
  then show "section_get_zero_node k = c" using assms(1,2) zero_node_eq by simp
  show "section_y k = t - 1" using assms(3,4) by (simp add: k_def trunc_id)
qed

section \<open>Adding sections\<close>

lemma on_node_added_spec:
  assumes ok: "sky_columns_ok s" and k: "in_i64 k"
  shows "sky_columns_ok (on_node_added s k)" and "below_top (on_node_added s k) k"
    and "below_top s j \<Longrightarrow> below_top (on_node_added s k) j"
    and "sky_inner (on_node_added s k) = sky_inner s"
proof -
  let ?y = "section_y k" and ?c = "section_get_zero_node k"
  define low where "low = min ?y (sky_lowest_y s)"
  define s0 where "s0 = s\<lparr>sky_lowest_y := low\<rparr>"
  have s0: "(if ?y < sky_lowest_y s then s\<lparr>sky_lowest_y := ?y\<rparr> else s) = s0" by (simp add: s0_def low_def)
  note range = section_range [OF k] and D = columns_okD [OF ok]
  have same: "sky_sources s0 = sky_sources s" "sky_tops s0 = sky_tops s" "sky_columns s0 = sky_columns s"
    "queues_apart s0 = queues_apart s" "sky_inner s0 = sky_inner s" "sky_lowest_y s0 = low"
    by (simp_all add: s0_def sky_sources_def queues_apart_def)
  have low: "low \<le> ?y" "low \<le> sky_lowest_y s" by (simp_all add: low_def)
  have ok0: "sky_columns_ok s0"
    by (rule columns_okI) (use D low in \<open>auto simp: same dest: le_less_trans\<close>)
  define top where "top = top_section s0 ?c"
  define s1 where "s1 = s0\<lparr>sky_tops := fmupd ?c (?y + 1) (sky_tops s)\<rparr>"
  have same1: "sky_sources s1 = sky_sources s" "sky_columns s1 = sky_columns s" "queues_apart s1 = queues_apart s"
    "sky_inner s1 = sky_inner s" "sky_lowest_y s1 = low" "sky_tops s1 = fmupd ?c (?y + 1) (sky_tops s)"
    using same by (simp_all add: s1_def sky_sources_def queues_apart_def)
  let ?old = "section_as_long (section_x k) (top - 1) (section_z k)"
  define r where "r = (if top < ?y + 1 then
      (if ?c |\<in>| sky_columns s then
         (if low < top then queue_remove_source ?old (queue_add_source k s1) else queue_add_source k s1)
       else s1) else s0)"
  have r: "on_node_added s k = r"
    by (simp add: on_node_added_def s0 Let_def top_def [symmetric] r_def s1_def [symmetric] same same1)
  have inner: "sky_inner r = sky_inner s" and rlow: "sky_lowest_y r = low" and rcols: "sky_columns r = sky_columns s"
    and rtops: "sky_tops r = (if top < ?y + 1 then fmupd ?c (?y + 1) (sky_tops s) else sky_tops s)"
    by (simp_all add: r_def same same1)
  have top_known: "top = t" if "fmlookup (sky_tops s) ?c = Some t" for t
    using that by (simp add: top_def top_section_def same)
  have top_new: "top = low" if "fmlookup (sky_tops s) ?c = None"
    using that by (simp add: top_def top_section_def same)
  have raised: "\<exists>t'\<ge>t. fmlookup (sky_tops r) c = Some t'" if "fmlookup (sky_tops s) c = Some t" for c t
    using that top_known by (auto simp: rtops)
  show "sky_inner (on_node_added s k) = sky_inner s" by (simp add: r inner)
  show "below_top (on_node_added s k) j" if "below_top s j"
    using that low(2) raised unfolding r below_top_def rlow by (meson less_le_trans order.trans)
  show "below_top (on_node_added s k) k"
  proof (cases "top < ?y + 1")
    case False
    then obtain t where "fmlookup (sky_tops s) ?c = Some t"
      using top_new low(1) by (cases "fmlookup (sky_tops s) ?c") auto
    then show ?thesis using False k low(1) top_known by (auto simp: r below_top_def rlow rtops)
  qed (use k low(1) in \<open>simp add: r below_top_def rlow rtops\<close>)
  have src: "j \<in> sky_sources r \<Longrightarrow> j = k \<and> top < ?y + 1 \<and> ?c |\<in>| sky_columns s
      \<or> j \<in> sky_sources s \<and> (section_get_zero_node j = ?c \<longrightarrow> \<not> top < ?y + 1)" for j
  proof -
    assume j: "j \<in> sky_sources r"
    have "j = ?old" "?c |\<in>| sky_columns s" "low < top" if "j \<in> sky_sources s" "section_get_zero_node j = ?c"
    proof -
      have t: "in_i64 j" "?c |\<in>| sky_columns s" "top = section_y j + 1"
        using D(3) [OF that(1)] that(2) top_known by auto
      show "j = ?old" using section_as_long_get [OF t(1)] zero_node_same [OF t(1) k] that(2) t(3) by simp
      show "?c |\<in>| sky_columns s" by (rule t(2))
      show "low < top" using D(1) [of ?c top] D(3) [OF that(1)] that(2) t(3) low(2) by auto
    qed
    then show ?thesis using j by (auto simp: r_def same same1 split: if_splits)
  qed
  show "sky_columns_ok (on_node_added s k)"
    unfolding r
  proof (rule columns_okI)
    fix c t
    assume "fmlookup (sky_tops r) c = Some t"
    then show "sky_lowest_y r < t \<and> - (2 ^ 19) < t \<and> t \<le> 2 ^ 19"
      using D(1) [of c t] low range by (auto simp: rtops rlow split: if_splits)
  next
    show "queues_apart r" using D(2) same(4) same1(3) by (simp add: r_def)
  next
    fix j
    assume "j \<in> sky_sources r"
    then show "in_i64 j \<and> section_get_zero_node j |\<in>| sky_columns r
        \<and> fmlookup (sky_tops r) (section_get_zero_node j) = Some (section_y j + 1)"
      using src [of j] D(3) [of j] k by (auto simp: rtops rcols)
  qed
qed

lemma sky_apply_level_spec:
  assumes wf: "sky_wf s" and k: "in_i64 k" "k \<noteq> i64_max" and level: "level < 2"
  shows "\<exists>change s'. sky_apply_level s k level = Some (change, s') \<and> sky_wf s'
    \<and> level_applied (sky_inner s) k level change (sky_inner s')"
proof -
  have wf': "storage_wf (sky_inner s)" "sky_columns_ok s" "\<And>j. j \<in> stored (sky_inner s) \<Longrightarrow> below_top s j"
    using wf by (simp_all add: sky_wf_def)
  obtain change inner where a: "apply_graph_level (sky_inner s) k level = Some (change, inner)"
    "level_applied (sky_inner s) k level change inner"
    using apply_graph_level_spec [OF wf'(1) k(2), of level] level by auto
  have in': "storage_wf inner" "stored inner = insert k (stored (sky_inner s))"
    "\<not> slc_added change \<Longrightarrow> k \<in> stored (sky_inner s)"
    using a(2) level by (auto simp: level_applied_def)
  let ?s = "s\<lparr>sky_inner := inner\<rparr>"
  have cols: "sky_columns_ok ?s" "\<And>j. below_top ?s j = below_top s j"
    using wf'(2) by (simp_all add: sky_columns_ok_def sky_sources_def below_top_def)
  let ?r = "if slc_added change \<or> slc_unmarked_for_removal change then on_node_added ?s k else ?s"
  have "sky_wf ?r" and "sky_inner ?r = inner"
    using in' wf'(3) cols on_node_added_spec [OF cols(1) k(1)] by (auto simp: sky_wf_def)
  then show ?thesis using a by (simp add: sky_apply_level_def Let_def)
qed

section \<open>Switching columns on and off\<close>

lemma fold_queue_remove:
  "sky_sources (fold queue_remove_source ks s) = sky_sources s - set ks"
  "sky_inner (fold queue_remove_source ks s) = sky_inner s"
  "sky_columns (fold queue_remove_source ks s) = sky_columns s"
  "sky_tops (fold queue_remove_source ks s) = sky_tops s"
  "sky_lowest_y (fold queue_remove_source ks s) = sky_lowest_y s"
  "queues_apart s \<Longrightarrow> queues_apart (fold queue_remove_source ks s)"
  by (induction ks arbitrary: s) auto

lemma sky_wf_cong:
  assumes "sky_wf s" and "sky_columns_ok s'" and "sky_inner s' = sky_inner s" and "sky_tops s' = sky_tops s"
    and "sky_lowest_y s' = sky_lowest_y s"
  shows "sky_wf s'"
  using assms by (simp add: sky_wf_def below_top_def)

lemma sky_enable_spec:
  fixes enabled :: bool
  assumes wf: "sky_wf s" and c: "in_i64 c"
  defines "s' \<equiv> sky_enable_light_sources s c enabled"
  shows "sky_wf s'" and "sky_inner s' = sky_inner s"
    and "sky_columns s' = (if enabled then finsert (section_get_zero_node c) (sky_columns s)
      else sky_columns s |-| {|section_get_zero_node c|})"
    and "\<not> enabled \<Longrightarrow> k \<in> sky_sources s' \<longleftrightarrow> k \<in> sky_sources s \<and> section_get_zero_node k \<noteq> section_get_zero_node c"
    and "enabled \<Longrightarrow> section_get_zero_node c |\<notin>| sky_columns s
      \<Longrightarrow> fmlookup (sky_tops s) (section_get_zero_node c) = Some t
      \<Longrightarrow> sky_sources s' = insert (section_as_long (section_x c) (t - 1) (section_z c)) (sky_sources s)"
proof -
  let ?c = "section_get_zero_node c"
  have ok: "sky_columns_ok s" using wf by (simp add: sky_wf_def)
  note D = columns_okD [OF ok]
  have col: "in_i64 ?c" "section_get_zero_node ?c = ?c" "section_x ?c = section_x c" "section_z ?c = section_z c"
    using c zero_node_eq [OF c] by (simp_all add: in_i64_zero_node zero_node_as_long)
  have "sky_columns_ok s' \<and> sky_inner s' = sky_inner s \<and> sky_tops s' = sky_tops s \<and> sky_lowest_y s' = sky_lowest_y s
    \<and> sky_columns s' = (if enabled then finsert ?c (sky_columns s) else sky_columns s |-| {|?c|})
    \<and> (\<not> enabled \<longrightarrow> (\<forall>k. k \<in> sky_sources s' \<longleftrightarrow> k \<in> sky_sources s \<and> section_get_zero_node k \<noteq> ?c))
    \<and> (\<forall>t. enabled \<longrightarrow> ?c |\<notin>| sky_columns s \<longrightarrow> fmlookup (sky_tops s) ?c = Some t
        \<longrightarrow> sky_sources s' = insert (section_as_long (section_x c) (t - 1) (section_z c)) (sky_sources s))"
  proof (cases "enabled")
    case on: True
    show ?thesis
    proof (cases "?c |\<in>| sky_columns s")
      case True
      then show ?thesis using on ok by (simp add: s'_def sky_enable_light_sources_def finsert_absorb)
    next
      case False
      let ?s = "s\<lparr>sky_columns := finsert ?c (sky_columns s)\<rparr>"
      have same: "sky_sources ?s = sky_sources s" "queues_apart ?s = queues_apart s"
        by (simp_all add: sky_sources_def queues_apart_def)
      show ?thesis
      proof (cases "fmlookup (sky_tops s) ?c")
        case None
        then have "s' = ?s" using on False by (simp add: s'_def sky_enable_light_sources_def top_section_def Let_def)
        moreover have "sky_columns_ok ?s" by (rule columns_okI) (use D in \<open>auto simp: same\<close>)
        ultimately show ?thesis using on None by simp
      next
        case (Some t)
        let ?k = "section_as_long (section_x c) (t - 1) (section_z c)"
        have t: "sky_lowest_y s < t" "- (2 ^ 19) < t" "t \<le> 2 ^ 19" using D(1) [OF Some] by simp_all
        have k: "in_i64 ?k" "section_get_zero_node ?k = ?c" "section_y ?k = t - 1"
          using source_section [OF col(1,2) t(2,3)] by (simp_all add: col)
        have s': "s' = queue_add_source ?k ?s"
          using on False Some t(1) by (simp add: s'_def sky_enable_light_sources_def top_section_def Let_def col)
        have "sky_columns_ok s'"
          by (rule columns_okI) (use D k Some in \<open>auto simp: s' same\<close>)
        then show ?thesis using on Some same by (simp add: s')
      qed
    qed
  next
    case off: False
    show ?thesis
    proof (cases "?c |\<in>| sky_columns s")
      case False
      then have "sky_columns s |-| {|?c|} = sky_columns s" by auto
      moreover have "section_get_zero_node k \<noteq> ?c" if "k \<in> sky_sources s" for k
        using D(3) [OF that] False by auto
      ultimately show ?thesis using off False ok by (auto simp: s'_def sky_enable_light_sources_def)
    next
      case True
      let ?s = "s\<lparr>sky_columns := sky_columns s |-| {|?c|}\<rparr>"
      let ?ks = "filter (\<lambda>k. section_get_zero_node k = ?c)
        (sorted_list_of_fset (sky_with_sources s) @ sorted_list_of_fset (sky_to_add s))"
      have same: "sky_sources ?s = sky_sources s" "queues_apart ?s = queues_apart s"
        by (simp_all add: sky_sources_def queues_apart_def)
      have s': "s' = fold queue_remove_source ?ks ?s"
        using off True by (simp add: s'_def sky_enable_light_sources_def Let_def)
      have src: "k \<in> sky_sources s' \<longleftrightarrow> k \<in> sky_sources s \<and> section_get_zero_node k \<noteq> ?c" for k
      proof -
        have "sky_sources s' = sky_sources s - set ?ks" by (simp only: s' fold_queue_remove same)
        moreover have "k \<in> sky_sources s \<Longrightarrow> k |\<in>| sky_with_sources s \<or> k |\<in>| sky_to_add s"
          by (auto simp: sky_sources_def)
        ultimately show ?thesis by auto
      qed
      have "sky_columns_ok s'"
        by (rule columns_okI) (use D src in \<open>auto simp: s' fold_queue_remove same\<close>)
      then show ?thesis using off src by (simp add: s' fold_queue_remove)
    qed
  qed
  then show "sky_wf s'" "sky_inner s' = sky_inner s"
    "sky_columns s' = (if enabled then finsert ?c (sky_columns s) else sky_columns s |-| {|?c|})"
    "\<not> enabled \<Longrightarrow> k \<in> sky_sources s' \<longleftrightarrow> k \<in> sky_sources s \<and> section_get_zero_node k \<noteq> ?c"
    "enabled \<Longrightarrow> ?c |\<notin>| sky_columns s \<Longrightarrow> fmlookup (sky_tops s) ?c = Some t
      \<Longrightarrow> sky_sources s' = insert (section_as_long (section_x c) (t - 1) (section_z c)) (sky_sources s)"
    using sky_wf_cong [OF wf] by blast+
qed

section \<open>Draining\<close>

lemma drain_adds_spec:
  "distinct ks \<Longrightarrow>
   map ssu_section (fst (drain_adds s ks)) = filter (\<lambda>k. k \<in> stored (sky_inner s) \<and> k |\<notin>| sky_to_remove s
     \<and> k |\<notin>| sky_with_sources s) ks
   \<and> (\<forall>u\<in>set (fst (drain_adds s ks)). ssu_kind u = AddSource)
   \<and> (\<exists>w. snd (drain_adds s ks) = s\<lparr>sky_with_sources := w\<rparr>
       \<and> fset w = fset (sky_with_sources s) \<union> {k \<in> set ks. k \<in> stored (sky_inner s) \<and> k |\<notin>| sky_to_remove s})"
proof (induction ks arbitrary: s)
  case Nil
  then show ?case by (auto intro: exI [of _ "sky_with_sources s"])
next
  case (Cons k ks)
  let ?go = "k \<in> stored (sky_inner s) \<and> k |\<notin>| sky_to_remove s \<and> k |\<notin>| sky_with_sources s"
  define t where "t = (if ?go then s\<lparr>sky_with_sources := finsert k (sky_with_sources s)\<rparr> else s)"
  have t: "sky_inner t = sky_inner s" "sky_to_remove t = sky_to_remove s" "\<And>w. t\<lparr>sky_with_sources := w\<rparr> = s\<lparr>sky_with_sources := w\<rparr>"
    "fset (sky_with_sources t) = (if ?go then insert k (fset (sky_with_sources s)) else fset (sky_with_sources s))"
    by (simp_all add: t_def)
  have d: "drain_adds s (k # ks) = (if ?go then (\<lparr>ssu_section = k, ssu_kind = AddSource\<rparr> # fst (drain_adds t ks),
      snd (drain_adds t ks)) else drain_adds t ks)"
    by (simp add: t_def Let_def storing_light_iff split: prod.split)
  have f: "filter (\<lambda>j. j \<in> stored (sky_inner s) \<and> j |\<notin>| sky_to_remove s \<and> j |\<notin>| sky_with_sources t) ks
      = filter (\<lambda>j. j \<in> stored (sky_inner s) \<and> j |\<notin>| sky_to_remove s \<and> j |\<notin>| sky_with_sources s) ks"
    using Cons.prems t(4) by (auto intro!: filter_cong)
  note ih = Cons.IH [of t, unfolded t(1-3) f] Cons.prems
  obtain w where w: "snd (drain_adds t ks) = s\<lparr>sky_with_sources := w\<rparr>"
    "fset w = fset (sky_with_sources t) \<union> {k \<in> set ks. k \<in> stored (sky_inner s) \<and> k |\<notin>| sky_to_remove s}"
    using ih t(4) by auto
  have "snd (drain_adds s (k # ks)) = s\<lparr>sky_with_sources := w\<rparr>"
    using w(1) by (simp add: d del: drain_adds.simps)
  moreover have "fset w = fset (sky_with_sources s)
      \<union> {j \<in> set (k # ks). j \<in> stored (sky_inner s) \<and> j |\<notin>| sky_to_remove s}"
    using w(2) t(4) by auto
  moreover have "map ssu_section (fst (drain_adds s (k # ks))) = filter (\<lambda>k. k \<in> stored (sky_inner s)
      \<and> k |\<notin>| sky_to_remove s \<and> k |\<notin>| sky_with_sources s) (k # ks)
     \<and> (\<forall>u\<in>set (fst (drain_adds s (k # ks))). ssu_kind u = AddSource)"
    using ih by (simp add: d del: drain_adds.simps)
  ultimately show ?case by blast
qed

lemma drain_removes_spec:
  "distinct ks \<Longrightarrow>
   map ssu_section (fst (drain_removes s ks)) = filter (\<lambda>k. k |\<in>| sky_with_sources s \<and> k \<in> stored (sky_inner s)) ks
   \<and> (\<forall>u\<in>set (fst (drain_removes s ks)). ssu_kind u = RemoveSource)
   \<and> (\<exists>w. snd (drain_removes s ks) = s\<lparr>sky_with_sources := w\<rparr> \<and> fset w = fset (sky_with_sources s) - set ks)"
proof (induction ks arbitrary: s)
  case Nil
  then show ?case by (auto intro: exI [of _ "sky_with_sources s"])
next
  case (Cons k ks)
  let ?s = "s\<lparr>sky_with_sources := sky_with_sources s |-| {|k|}\<rparr>"
  let ?go = "k |\<in>| sky_with_sources s \<and> storing_light_for_section (sky_inner s) k"
  have f: "filter (\<lambda>j. j |\<in>| sky_with_sources ?s \<and> j \<in> stored (sky_inner s)) ks
      = filter (\<lambda>j. j |\<in>| sky_with_sources s \<and> j \<in> stored (sky_inner s)) ks"
    using Cons.prems by (auto intro!: filter_cong)
  have d: "drain_removes s (k # ks) = (if ?go then (\<lparr>ssu_section = k, ssu_kind = RemoveSource\<rparr> # fst (drain_removes ?s ks),
      snd (drain_removes ?s ks)) else drain_removes ?s ks)"
    by (auto simp add: Let_def split: prod.split)
  obtain w where w: "snd (drain_removes ?s ks) = ?s\<lparr>sky_with_sources := w\<rparr>"
    "fset w = fset (sky_with_sources ?s) - set ks"
    using Cons.IH [of ?s] Cons.prems by auto
  have "snd (drain_removes s (k # ks)) = s\<lparr>sky_with_sources := w\<rparr>"
    using w(1) by (simp add: d del: drain_removes.simps)
  moreover have "fset w = fset (sky_with_sources s) - set (k # ks)" using w(2) by auto
  moreover have "map ssu_section (fst (drain_removes s (k # ks)))
      = filter (\<lambda>k. k |\<in>| sky_with_sources s \<and> k \<in> stored (sky_inner s)) (k # ks)
     \<and> (\<forall>u\<in>set (fst (drain_removes s (k # ks))). ssu_kind u = RemoveSource)"
    using Cons.IH [of ?s] Cons.prems f by (simp add: d storing_light_iff conj_commute del: drain_removes.simps)
  ultimately show ?case by blast
qed

text \<open>Draining reports every stored section that gains a source and every stored section that loses
  one, empties both queues and leaves the sources where storage backs them.\<close>

lemma drain_source_updates_spec:
  assumes wf: "sky_wf s"
  defines "r \<equiv> drain_source_updates s"
  shows "sky_wf (snd r)" and "sky_inner (snd r) = sky_inner s" and "\<not> has_source_inconsistencies (snd r)"
    and "{ssu_section u |u. u \<in> set (fst r) \<and> ssu_kind u = AddSource}
      = {k. k |\<in>| sky_to_add s \<and> k |\<notin>| sky_with_sources s \<and> k \<in> stored (sky_inner s)}"
    and "{ssu_section u |u. u \<in> set (fst r) \<and> ssu_kind u = RemoveSource}
      = {k. k |\<in>| sky_to_remove s \<and> k |\<in>| sky_with_sources s \<and> k \<in> stored (sky_inner s)}"
    and "fset (sky_with_sources (snd r))
      = {k \<in> sky_sources s. k |\<in>| sky_with_sources s \<or> k \<in> stored (sky_inner s)}"
    and "sky_columns (snd r) = sky_columns s" and "sky_tops (snd r) = sky_tops s"
    and "sky_lowest_y (snd r) = sky_lowest_y s"
proof -
  have ok: "sky_columns_ok s" using wf by (simp add: sky_wf_def)
  note D = columns_okD [OF ok]
  have apart: "k |\<in>| sky_to_add s \<Longrightarrow> k |\<notin>| sky_to_remove s" for k
    using D(2) by (auto simp: queues_apart_def)
  let ?as = "sorted_list_of_fset (sky_to_add s)" and ?rs = "sorted_list_of_fset (sky_to_remove s)"
  have dist: "distinct ?as" "distinct ?rs" "set ?as = fset (sky_to_add s)" "set ?rs = fset (sky_to_remove s)"
    by (simp_all add: sorted_list_of_fset.rep_eq)
  obtain us s1 where a: "drain_adds (s\<lparr>sky_to_add := {||}\<rparr>) ?as = (us, s1)" by fastforce
  note A = drain_adds_spec [OF dist(1), of "s\<lparr>sky_to_add := {||}\<rparr>", unfolded a]
  obtain w1 where s1: "s1 = s\<lparr>sky_to_add := {||}, sky_with_sources := w1\<rparr>"
    "fset w1 = fset (sky_with_sources s) \<union> {k. k |\<in>| sky_to_add s \<and> k \<in> stored (sky_inner s)}"
    using A apart by (auto simp: dist(3))
  have us: "ssu_section ` set us = {k. k |\<in>| sky_to_add s \<and> k |\<notin>| sky_with_sources s \<and> k \<in> stored (sky_inner s)}"
    "\<forall>u\<in>set us. ssu_kind u = AddSource"
    using A apart by (auto simp: dist(3) simp flip: set_map)
  obtain vs s2 where b: "drain_removes (s1\<lparr>sky_to_remove := {||}\<rparr>) ?rs = (vs, s2)" by fastforce
  note B = drain_removes_spec [OF dist(2), of "s1\<lparr>sky_to_remove := {||}\<rparr>", unfolded b]
  obtain w2 where s2: "s2 = s\<lparr>sky_to_add := {||}, sky_to_remove := {||}, sky_with_sources := w2\<rparr>"
    "fset w2 = fset w1 - fset (sky_to_remove s)"
    using B by (auto simp: dist(4) s1(1))
  have vs: "ssu_section ` set vs = {k. k |\<in>| sky_to_remove s \<and> k |\<in>| sky_with_sources s \<and> k \<in> stored (sky_inner s)}"
    "\<forall>u\<in>set vs. ssu_kind u = RemoveSource"
    using B apart by (auto simp: dist(4) s1 simp flip: set_map)
  have r: "r = (us @ vs, s2)"
    using b s1(1) by (simp add: r_def drain_source_updates_def Let_def a)
  show "sky_inner (snd r) = sky_inner s" "sky_columns (snd r) = sky_columns s" "sky_tops (snd r) = sky_tops s"
    "sky_lowest_y (snd r) = sky_lowest_y s" "\<not> has_source_inconsistencies (snd r)"
    by (simp_all add: r s2(1) has_source_inconsistencies_def)
  have image: "{ssu_section u |u. u \<in> set (us @ vs) \<and> ssu_kind u = kind}
      = (if kind = AddSource then ssu_section ` set us else ssu_section ` set vs)" for kind
    using us(2) vs(2) by (cases kind) auto
  show "{ssu_section u |u. u \<in> set (fst r) \<and> ssu_kind u = AddSource}
      = {k. k |\<in>| sky_to_add s \<and> k |\<notin>| sky_with_sources s \<and> k \<in> stored (sky_inner s)}"
    unfolding r fst_conv image us(1) by simp
  show "{ssu_section u |u. u \<in> set (fst r) \<and> ssu_kind u = RemoveSource}
      = {k. k |\<in>| sky_to_remove s \<and> k |\<in>| sky_with_sources s \<and> k \<in> stored (sky_inner s)}"
    unfolding r fst_conv image vs(1) by simp
  show w: "fset (sky_with_sources (snd r))
      = {k \<in> sky_sources s. k |\<in>| sky_with_sources s \<or> k \<in> stored (sky_inner s)}"
    using apart by (auto simp: r s2 s1(2) sky_sources_def)
  have src: "sky_sources (snd r) \<subseteq> sky_sources s" using w by (auto simp: sky_sources_def r s2(1))
  have "sky_columns_ok (snd r)"
    by (rule columns_okI) (use D src in \<open>auto simp: r s2(1) queues_apart_def\<close>)
  then show "sky_wf (snd r)" by (rule sky_wf_cong [OF wf]) (simp_all add: r s2(1))
qed

section \<open>Unloading\<close>

lemma sky_remove_spec:
  fixes k :: int
  assumes wf: "sky_wf s"
  defines "r \<equiv> sky_remove_section s k"
  shows "sky_wf (snd r)" and "fst r \<longleftrightarrow> k \<in> stored (sky_inner s)"
    and "stored (sky_inner (snd r)) = stored (sky_inner s) - {k}"
    and "sky_sources (snd r) = sky_sources s - {k}" and "\<not> section_has_source (snd r) k"
    and "get_data_layer_data (sky_inner (snd r)) k = None"
    and "sky_tops (snd r) = sky_tops s" and "sky_lowest_y (snd r) = sky_lowest_y s" and "sky_columns (snd r) = sky_columns s"
proof -
  have wf': "storage_wf (sky_inner s)" "sky_columns_ok s" "\<And>j. j \<in> stored (sky_inner s) \<Longrightarrow> below_top s j"
    using wf by (simp_all add: sky_wf_def)
  note rem = remove_section_spec [OF wf'(1), where sec = k] and D = columns_okD [OF wf'(2)]
  have r: "r = (fst (remove_section (sky_inner s) k), s\<lparr>sky_inner := snd (remove_section (sky_inner s) k),
         sky_with_sources := sky_with_sources s |-| {|k|}, sky_to_add := sky_to_add s |-| {|k|},
         sky_to_remove := sky_to_remove s |-| {|k|}\<rparr>)"
    by (simp add: r_def sky_remove_section_def split: prod.split)
  show src: "sky_sources (snd r) = sky_sources s - {k}" by (auto simp: r sky_sources_def)
  show "fst r \<longleftrightarrow> k \<in> stored (sky_inner s)" "stored (sky_inner (snd r)) = stored (sky_inner s) - {k}"
    "get_data_layer_data (sky_inner (snd r)) k = None" using rem(1,4,5) by (simp_all add: r)
  show "\<not> section_has_source (snd r) k" "sky_tops (snd r) = sky_tops s" "sky_lowest_y (snd r) = sky_lowest_y s"
    "sky_columns (snd r) = sky_columns s" by (simp_all add: r section_has_source_def)
  have "sky_columns_ok (snd r)"
    by (rule columns_okI) (use D src in \<open>auto simp: r queues_apart_def\<close>)
  then show "sky_wf (snd r)"
    using wf'(3) rem(2,4) by (simp add: sky_wf_def r below_top_def)
qed

lemma forget_retained_simps [simp]:
  "ss_updating (forget_retained_column s c) = ss_updating s" "ss_visible (forget_retained_column s c) = ss_visible s"
  "stored (forget_retained_column s c) = stored s" "storage_wf (forget_retained_column s c) = storage_wf s"
  "published (forget_retained_column s c) = published s"
  "get_data_layer_data (forget_retained_column s c) = get_data_layer_data s"
  by (simp_all add: forget_retained_column_def stored_def storage_wf_def published_def get_data_layer_data_def fun_eq_iff
      split: option.split)

lemma sky_forget_spec:
  assumes wf: "sky_wf s"
    and clear: "\<And>k. k \<in> stored (sky_inner s) \<union> sky_sources s \<Longrightarrow> section_get_zero_node k \<noteq> section_get_zero_node c"
  defines "s' \<equiv> sky_forget_column s c"
  shows "sky_wf s'" and "\<not> light_on_in_section s' c" and "top_section s' c = sky_lowest_y s'"
    and "stored (sky_inner s') = stored (sky_inner s)" and "sky_sources s' = sky_sources s"
proof -
  have wf': "storage_wf (sky_inner s)" "sky_columns_ok s" "\<And>j. j \<in> stored (sky_inner s) \<Longrightarrow> below_top s j"
    using wf by (simp_all add: sky_wf_def)
  note D = columns_okD [OF wf'(2)]
  show "stored (sky_inner s') = stored (sky_inner s)" by (simp add: s'_def sky_forget_column_def Let_def)
  show src: "sky_sources s' = sky_sources s" by (simp add: s'_def sky_forget_column_def Let_def sky_sources_def)
  show "\<not> light_on_in_section s' c" "top_section s' c = sky_lowest_y s'"
    by (simp_all add: s'_def sky_forget_column_def Let_def light_on_in_section_def top_section_def)
  have "sky_columns_ok s'"
    by (rule columns_okI) (use D clear src in \<open>auto simp: s'_def sky_forget_column_def Let_def queues_apart_def split: if_splits\<close>)
  then show "sky_wf s'"
    using wf'(1,3) clear by (auto simp: sky_wf_def s'_def sky_forget_column_def Let_def below_top_def)
qed

section \<open>Reading\<close>

text \<open>The loop returns the nibble of the first stored section at or above the block, below the top of
  the column, and full light if there is none.\<close>

definition column_layer :: "sky_storage \<Rightarrow> int \<Rightarrow> bool \<Rightarrow> int \<Rightarrow> data_layer option" where
  "column_layer s section updating y =
     data_layer_for_light_value s (section_as_long (section_x section) y (section_z section)) updating"

lemma light_value_loop_none:
  "y < t \<Longrightarrow> (\<And>j. y \<le> j \<Longrightarrow> j < t \<Longrightarrow> column_layer s sec updating j = None)
    \<Longrightarrow> light_value_loop s sec updating t a b c y = Some 15"
proof (induction s sec updating t a b c y rule: light_value_loop.induct)
  case (1 s sec updating t a b c y)
  have "column_layer s sec updating y = None" using 1(2,3) by simp
  then show ?case
    using 1 by (subst light_value_loop.simps) (auto simp: column_layer_def Let_def)
qed

lemma light_value_loop_first:
  "y \<le> j \<Longrightarrow> j < t \<Longrightarrow> column_layer s sec updating j = Some l
    \<Longrightarrow> (\<And>i. y \<le> i \<Longrightarrow> i < j \<Longrightarrow> column_layer s sec updating i = None)
    \<Longrightarrow> light_value_loop s sec updating t a b c y = data_layer_get l a b c"
proof (induction s sec updating t a b c y rule: light_value_loop.induct)
  case (1 s sec updating t a b c y)
  show ?case
  proof (cases "y = j")
    case True
    then show ?thesis using 1(4) by (subst light_value_loop.simps) (simp add: column_layer_def Let_def)
  next
    case False
    then have "column_layer s sec updating y = None" using 1(2,5) by simp
    then show ?thesis
      using 1 False by (subst light_value_loop.simps) (simp add: column_layer_def Let_def)
  qed
qed

lemma light_value_loop_bound:
  assumes "\<And>k l. data_layer_for_light_value s k updating = Some l \<Longrightarrow> dl_wf l"
  shows "\<exists>v. light_value_loop s sec updating t (section_relative (block_pos_get_x b))
    (section_relative (block_pos_get_y b)) (section_relative (block_pos_get_z b)) y = Some v \<and> v < 16"
proof (induction "nat (t - y)" arbitrary: y rule: less_induct)
  case less
  show ?case
  proof (cases "column_layer s sec updating y")
    case None
    then show ?thesis using less
      by (subst light_value_loop.simps) (auto simp: column_layer_def Let_def)
  next
    case (Some l)
    then have "dl_wf l" using assms by (auto simp: column_layer_def)
    from layer_at_block_Some [OF this, of b] Some show ?thesis
      by (subst light_value_loop.simps) (auto simp: column_layer_def layer_at_block_def)
  qed
qed

lemma sky_get_light_value_bound:
  assumes "sky_wf s"
  shows "\<exists>v. sky_get_light_value s b updating = Some v \<and> v < 16"
proof -
  have "dl_wf l" if "data_layer_for_light_value s k updating = Some l" for k l
    using assms that by (auto simp: sky_wf_def storage_wf_def layers_wf_def data_layer_for_light_value_def
        get_updating_data_layer_def get_visible_data_layer_def split: if_splits)
  then show ?thesis using light_value_loop_bound [of s updating] by (simp add: sky_get_light_value_def Let_def)
qed

text \<open>On a stored block the value that the flood fill reads is the stored level.\<close>

lemma sky_light_value_stored:
  assumes wf: "sky_wf s" and st: "block_to_section_key b \<in> stored (sky_inner s)"
  shows "sky_get_light_value s b True = Some (light_of (sky_inner s) b)"
proof -
  let ?k = "block_to_section_key b"
  have wf': "storage_wf (sky_inner s)" "sky_columns_ok s" and below: "below_top s ?k" using wf st by (simp_all add: sky_wf_def)
  obtain t where t: "fmlookup (sky_tops s) (section_get_zero_node ?k) = Some t" "section_y ?k < t"
    using below by (auto simp: below_top_def)
  have top: "top_section s ?k = t" "t \<noteq> sky_lowest_y s"
    using top_section_cases(2) [OF wf'(2) t(1)] columns_okD(1) [OF wf'(2) t(1)] by auto
  obtain l where l: "fmlookup (sm_map (ss_updating (sky_inner s))) ?k = Some l"
    using st by (auto simp: stored_def fmlookup_dom_iff)
  have "column_layer s ?k True (section_y ?k) = Some l"
    using l by (simp add: column_layer_def section_as_long_get data_layer_for_light_value_def get_updating_data_layer_def)
  from light_value_loop_first [OF order.refl t(2) this]
  have "sky_get_light_value s b True = layer_at_block l b"
    using top t(2) by (simp add: sky_get_light_value_def Let_def top_section_def t(1) layer_at_block_def)
  then show ?thesis using layer_at_block_light [OF l wf'(1)] by simp
qed

text \<open>Above the top of a column there is full light, or none while the column is not lit yet.\<close>

lemma sky_light_value_above:
  assumes "is_above_data s (block_to_section_key b)"
  shows "sky_get_light_value s b updating
    = Some (if updating \<and> \<not> light_on_in_section s (block_to_section_key b) then 0 else 15)"
  using assms by (auto simp: sky_get_light_value_def Let_def is_above_data_def top_section_def)

end
