(* ===== verification/LightGraph.thy ===== *)
theory LightGraph imports Prelude
begin

text \<open>
  The incremental flood fill of \<open>native/crates/mclone-light/src/dynamic_graph.rs\<close>: nodes have a
  level in the client's storage and possibly a pending (computed) level here; pending nodes wait in
  one queue per key, the smaller of the two levels, and the lowest queue is served first.  The
  callback trait is a record of functions over the client's state.  A level queue keeps the code's
  lazily cleaned order list next to its set of members.  The run loop is recursion over the budget,
  which the code decreases in every iteration.
\<close>

abbreviation (input) no_computed_level :: nat where "no_computed_level \<equiv> 255"

record neighbor_check =
  nc_source :: int
  nc_target :: int
  nc_level :: nat
  nc_is_decrease :: bool

record graph_run_report =
  gr_budget :: nat
  gr_processed_nodes :: nat
  gr_queue_before :: nat
  gr_queue_after :: nat

record 's graph_callbacks =
  cb_is_source :: "'s \<Rightarrow> int \<Rightarrow> bool"
  cb_get_computed_level :: "'s \<Rightarrow> int \<Rightarrow> int \<Rightarrow> nat \<Rightarrow> nat option"
  cb_neighbor_checks :: "'s \<Rightarrow> int \<Rightarrow> nat \<Rightarrow> bool \<Rightarrow> neighbor_check list option"
  cb_get_level :: "'s \<Rightarrow> int \<Rightarrow> nat option"
  cb_set_level :: "'s \<Rightarrow> int \<Rightarrow> nat \<Rightarrow> 's option"
  cb_compute_from_neighbor :: "'s \<Rightarrow> int \<Rightarrow> int \<Rightarrow> nat \<Rightarrow> nat"

section \<open>Level queues\<close>

record level_queue =
  lq_order :: "int list"
  lq_members :: "int fset"

definition level_queue_default :: level_queue where
  "level_queue_default = \<lparr>lq_order = [], lq_members = {||}\<rparr>"

definition lq_is_empty :: "level_queue \<Rightarrow> bool" where
  "lq_is_empty q \<longleftrightarrow> lq_members q = {||}"

definition lq_insert :: "level_queue \<Rightarrow> int \<Rightarrow> level_queue" where
  "lq_insert q node =
     (if node |\<in>| lq_members q then q
      else \<lparr>lq_order = lq_order q @ [node], lq_members = finsert node (lq_members q)\<rparr>)"

definition lq_remove :: "level_queue \<Rightarrow> int \<Rightarrow> level_queue" where
  "lq_remove q node = q\<lparr>lq_members := lq_members q |-| {|node|}\<rparr>"

text \<open>\<open>while let Some(node) = self.order.pop_front()\<close>: entries that were removed are skipped.\<close>

fun lq_pop_from :: "int list \<Rightarrow> int fset \<Rightarrow> int option \<times> level_queue" where
  "lq_pop_from [] members = (None, \<lparr>lq_order = [], lq_members = members\<rparr>)"
| "lq_pop_from (node # order) members =
     (if node |\<in>| members
      then (Some node, \<lparr>lq_order = order, lq_members = members |-| {|node|}\<rparr>)
      else lq_pop_from order members)"

definition lq_pop_first :: "level_queue \<Rightarrow> int option \<times> level_queue" where
  "lq_pop_first q = lq_pop_from (lq_order q) (lq_members q)"

section \<open>The graph\<close>

record dynamic_graph =
  dg_level_count :: nat
  dg_queues :: "level_queue list"
  dg_computed_levels :: "(int, nat) fmap"
  dg_first_queued_level :: nat
  dg_has_work :: bool

definition clamp_level :: "nat \<Rightarrow> nat \<Rightarrow> nat" where
  "clamp_level level level_count = min level (level_count - 1)"

definition dynamic_graph_new :: "nat \<Rightarrow> dynamic_graph option" where
  "dynamic_graph_new level_count = do {
     assert_that (level_count < 254);
     Some \<lparr>dg_level_count = level_count, dg_queues = replicate level_count level_queue_default,
           dg_computed_levels = fmempty, dg_first_queued_level = level_count, dg_has_work = False\<rparr>
   }"

definition computed_level :: "dynamic_graph \<Rightarrow> int \<Rightarrow> nat" where
  "computed_level g node =
     (case fmlookup (dg_computed_levels g) node of Some c \<Rightarrow> c | None \<Rightarrow> no_computed_level)"

definition graph_key :: "dynamic_graph \<Rightarrow> nat \<Rightarrow> nat \<Rightarrow> nat" where
  "graph_key g level computed = min (min level computed) (dg_level_count g - 1)"

text \<open>The scan for the next non-empty queue below the limit; indexing past the queues panics.\<close>

fun scan_queues :: "level_queue list \<Rightarrow> nat list \<Rightarrow> nat \<Rightarrow> nat option" where
  "scan_queues queues [] limit = Some limit"
| "scan_queues queues (level # levels) limit = do {
     q \<leftarrow> vec_get queues level;
     if \<not> lq_is_empty q then Some level else scan_queues queues levels limit
   }"

definition check_first_queued_level :: "dynamic_graph \<Rightarrow> nat \<Rightarrow> dynamic_graph option" where
  "check_first_queued_level g limit = do {
     let old_first = dg_first_queued_level g;
     first \<leftarrow> scan_queues (dg_queues g) [min 255 (old_first + 1)..<limit] limit;
     Some (g\<lparr>dg_first_queued_level := first\<rparr>)
   }"

definition dequeue :: "dynamic_graph \<Rightarrow> int \<Rightarrow> nat \<Rightarrow> nat \<Rightarrow> bool \<Rightarrow> dynamic_graph option" where
  "dequeue g node queue_key next_level remove_computed_level = do {
     let g = (if remove_computed_level
       then g\<lparr>dg_computed_levels := fmdrop node (dg_computed_levels g)\<rparr> else g);
     q \<leftarrow> vec_get (dg_queues g) queue_key;
     queues \<leftarrow> vec_set (dg_queues g) queue_key (lq_remove q node);
     let g = g\<lparr>dg_queues := queues\<rparr>;
     if lq_is_empty (queues ! queue_key) \<and> dg_first_queued_level g = queue_key
     then check_first_queued_level g next_level
     else Some g
   }"

definition enqueue :: "dynamic_graph \<Rightarrow> int \<Rightarrow> nat \<Rightarrow> nat \<Rightarrow> dynamic_graph option" where
  "enqueue g node computed queue_key = do {
     let g = g\<lparr>dg_computed_levels := fmupd node computed (dg_computed_levels g)\<rparr>;
     q \<leftarrow> vec_get (dg_queues g) queue_key;
     queues \<leftarrow> vec_set (dg_queues g) queue_key (lq_insert q node);
     let g = g\<lparr>dg_queues := queues\<rparr>;
     Some (if queue_key < dg_first_queued_level g then g\<lparr>dg_first_queued_level := queue_key\<rparr> else g)
   }"

definition check_edge_with_levels ::
  "'s graph_callbacks \<Rightarrow> 's \<Rightarrow> dynamic_graph \<Rightarrow> int \<Rightarrow> int \<Rightarrow> nat \<Rightarrow> nat \<Rightarrow> nat \<Rightarrow> bool \<Rightarrow> dynamic_graph option" where
  "check_edge_with_levels cb s g source target candidate current_level computed is_decrease =
     (if cb_is_source cb s target then Some g
      else do {
        let candidate = clamp_level candidate (dg_level_count g);
        let current_level = clamp_level current_level (dg_level_count g);
        let was_not_queued = (computed = no_computed_level);
        let computed = (if was_not_queued then current_level else computed);
        target_level \<leftarrow>
          (if is_decrease then Some (min computed candidate)
           else do {
             l \<leftarrow> cb_get_computed_level cb s target source candidate;
             Some (clamp_level l (dg_level_count g))
           });
        let old_queue_key = graph_key g current_level computed;
        if current_level \<noteq> target_level then do {
          let new_queue_key = graph_key g current_level target_level;
          g \<leftarrow> (if old_queue_key \<noteq> new_queue_key \<and> \<not> was_not_queued
                then dequeue g target old_queue_key new_queue_key False else Some g);
          enqueue g target target_level new_queue_key
        }
        else if \<not> was_not_queued then dequeue g target old_queue_key (dg_level_count g) True
        else Some g
      })"

definition refresh_has_work :: "dynamic_graph \<Rightarrow> dynamic_graph" where
  "refresh_has_work g = g\<lparr>dg_has_work := dg_first_queued_level g < dg_level_count g\<rparr>"

definition check_edge ::
  "'s graph_callbacks \<Rightarrow> 's \<Rightarrow> dynamic_graph \<Rightarrow> int \<Rightarrow> int \<Rightarrow> nat \<Rightarrow> bool \<Rightarrow> dynamic_graph option" where
  "check_edge cb s g source target candidate is_decrease = do {
     target_level \<leftarrow> cb_get_level cb s target;
     g \<leftarrow> check_edge_with_levels cb s g source target candidate target_level (computed_level g target) is_decrease;
     Some (refresh_has_work g)
   }"

definition check_node :: "'s graph_callbacks \<Rightarrow> 's \<Rightarrow> dynamic_graph \<Rightarrow> int \<Rightarrow> dynamic_graph option" where
  "check_node cb s g node = check_edge cb s g node node (dg_level_count g - 1) False"

definition check_neighbor ::
  "'s graph_callbacks \<Rightarrow> 's \<Rightarrow> dynamic_graph \<Rightarrow> int \<Rightarrow> int \<Rightarrow> nat \<Rightarrow> bool \<Rightarrow> dynamic_graph option" where
  "check_neighbor cb s g source target source_level is_decrease = do {
     let computed = computed_level g target;
     let neighbor_level = clamp_level (cb_compute_from_neighbor cb s source target source_level) (dg_level_count g);
     g \<leftarrow> (if is_decrease then do {
         current \<leftarrow> cb_get_level cb s target;
         check_edge_with_levels cb s g source target neighbor_level current computed True
       }
       else do {
         (target_level, had_no_computed_level) \<leftarrow>
           (if computed = no_computed_level then do {
              l \<leftarrow> cb_get_level cb s target;
              Some (clamp_level l (dg_level_count g), True)
            }
            else Some (computed, False));
         if neighbor_level = target_level then do {
           current \<leftarrow> (if had_no_computed_level then Some target_level else cb_get_level cb s target);
           check_edge_with_levels cb s g source target (dg_level_count g - 1) current computed False
         }
         else Some g
       });
     Some (refresh_has_work g)
   }"

definition remove_from_queue :: "'s graph_callbacks \<Rightarrow> 's \<Rightarrow> dynamic_graph \<Rightarrow> int \<Rightarrow> dynamic_graph option" where
  "remove_from_queue cb s g node = do {
     let computed = computed_level g node;
     if computed \<noteq> no_computed_level then do {
       current_level \<leftarrow> cb_get_level cb s node;
       let queue_key = graph_key g current_level computed;
       g \<leftarrow> dequeue g node queue_key (dg_level_count g) True;
       Some (refresh_has_work g)
     }
     else Some g
   }"

text \<open>The nodes are collected before the loop; their order is that of the hash map, here of the keys.\<close>

fun remove_nodes :: "'s graph_callbacks \<Rightarrow> 's \<Rightarrow> dynamic_graph \<Rightarrow> int list \<Rightarrow> dynamic_graph option" where
  "remove_nodes cb s g [] = Some g"
| "remove_nodes cb s g (node # nodes) = do {
     g \<leftarrow> remove_from_queue cb s g node;
     remove_nodes cb s g nodes
   }"

definition remove_if :: "'s graph_callbacks \<Rightarrow> 's \<Rightarrow> dynamic_graph \<Rightarrow> (int \<Rightarrow> bool) \<Rightarrow> dynamic_graph option" where
  "remove_if cb s g predicate =
     remove_nodes cb s g (filter predicate (sorted_list_of_fset (fmdom (dg_computed_levels g))))"

fun apply_checks :: "'s graph_callbacks \<Rightarrow> 's \<Rightarrow> dynamic_graph \<Rightarrow> neighbor_check list \<Rightarrow> dynamic_graph option" where
  "apply_checks cb s g [] = Some g"
| "apply_checks cb s g (c # cs) = do {
     g \<leftarrow> check_neighbor cb s g (nc_source c) (nc_target c) (nc_level c) (nc_is_decrease c);
     apply_checks cb s g cs
   }"

definition queue_size :: "dynamic_graph \<Rightarrow> nat" where
  "queue_size g = fcard (fmdom (dg_computed_levels g))"

text \<open>One iteration of the loop; the Boolean says whether a node was taken from the queue.\<close>

definition run_step :: "'s graph_callbacks \<Rightarrow> 's \<Rightarrow> dynamic_graph \<Rightarrow> (bool \<times> 's \<times> dynamic_graph) option" where
  "run_step cb s g = do {
     let queue_index = dg_first_queued_level g;
     q \<leftarrow> vec_get (dg_queues g) queue_index;
     let (popped, q) = lq_pop_first q;
     let g = g\<lparr>dg_queues := (dg_queues g)[queue_index := q]\<rparr>;
     (case popped of
        None \<Rightarrow> do {
          g \<leftarrow> check_first_queued_level g (dg_level_count g);
          Some (False, s, g)
        }
      | Some node \<Rightarrow> do {
          level \<leftarrow> cb_get_level cb s node;
          let current_level = clamp_level level (dg_level_count g);
          g \<leftarrow> (if lq_is_empty q then check_first_queued_level g (dg_level_count g) else Some g);
          let computed = computed_level g node;
          let g = g\<lparr>dg_computed_levels := fmdrop node (dg_computed_levels g)\<rparr>;
          if computed < current_level then do {
            s \<leftarrow> cb_set_level cb s node computed;
            checks \<leftarrow> cb_neighbor_checks cb s node computed True;
            g \<leftarrow> apply_checks cb s g checks;
            Some (True, s, g)
          }
          else if current_level < computed then do {
            g \<leftarrow> enqueue g node computed (graph_key g (dg_level_count g - 1) computed);
            s \<leftarrow> cb_set_level cb s node (dg_level_count g - 1);
            checks \<leftarrow> cb_neighbor_checks cb s node current_level False;
            g \<leftarrow> apply_checks cb s g checks;
            Some (True, s, g)
          }
          else Some (True, s, g)
        })
   }"

fun run_loop :: "'s graph_callbacks \<Rightarrow> 's \<Rightarrow> dynamic_graph \<Rightarrow> nat \<Rightarrow> nat \<Rightarrow> (nat \<times> nat \<times> 's \<times> dynamic_graph) option" where
  "run_loop cb s g 0 processed = Some (0, processed, s, g)"
| "run_loop cb s g (Suc budget) processed =
     (if dg_first_queued_level g < dg_level_count g then do {
        (popped, s, g) \<leftarrow> run_step cb s g;
        run_loop cb s g budget (if popped then processed + 1 else processed)
      }
      else Some (Suc budget, processed, s, g))"

definition graph_run_updates_report ::
  "'s graph_callbacks \<Rightarrow> 's \<Rightarrow> dynamic_graph \<Rightarrow> nat \<Rightarrow> (nat \<times> graph_run_report \<times> 's \<times> dynamic_graph) option" where
  "graph_run_updates_report cb s g budget =
     (let queue_before = queue_size g in
      if dg_level_count g \<le> dg_first_queued_level g then
        Some (budget, \<lparr>gr_budget = budget, gr_processed_nodes = 0, gr_queue_before = queue_before,
                       gr_queue_after = queue_before\<rparr>, s, g)
      else do {
        (remaining, processed, s, g) \<leftarrow> run_loop cb s g budget 0;
        let g = refresh_has_work g;
        Some (remaining, \<lparr>gr_budget = budget, gr_processed_nodes = processed,
                          gr_queue_before = queue_before, gr_queue_after = queue_size g\<rparr>, s, g)
      })"

definition graph_run_updates ::
  "'s graph_callbacks \<Rightarrow> 's \<Rightarrow> dynamic_graph \<Rightarrow> nat \<Rightarrow> (nat \<times> 's \<times> dynamic_graph) option" where
  "graph_run_updates cb s g budget = do {
     (remaining, report, s, g) \<leftarrow> graph_run_updates_report cb s g budget;
     Some (remaining, s, g)
   }"

text \<open>The hasher of the graph's maps; it only spreads keys, so the maps above do not depend on it.\<close>

definition mix_hash :: "u64 \<Rightarrow> u64" where
  "mix_hash v =
     (let hash = v + 0x9e3779b97f4a7c15;
          hash = (hash XOR drop_bit 30 hash) * 0xbf58476d1ce4e5b9;
          hash = (hash XOR drop_bit 27 hash) * 0x94d049bb133111eb
      in hash XOR drop_bit 31 hash)"

fun hash_bytes :: "u64 \<Rightarrow> u8 list \<Rightarrow> u64" where
  "hash_bytes hash [] = hash"
| "hash_bytes hash (byte # bytes) = hash_bytes ((hash XOR ucast byte) * 0x100000001b3) bytes"

definition hasher_write :: "u8 list \<Rightarrow> u64" where
  "hasher_write bytes = mix_hash (hash_bytes 0xcbf29ce484222325 bytes)"

end
