(* ===== verification/LightQueues.thy ===== *)
theory LightQueues imports LightGraph
begin

text \<open>
  The queue discipline of \<open>dynamic_graph.rs\<close>.  A key map says under which key every pending node
  waits; \<open>queues_ok\<close> ties the queues and the cached first non-empty level to it, \<open>graph_ok\<close> ties
  the key map to the levels.  Each queue operation is characterised by its effect on the key map.
\<close>

section \<open>A single queue\<close>

definition members :: "dynamic_graph \<Rightarrow> nat \<Rightarrow> int set" where
  "members g k = fset (lq_members (dg_queues g ! k))"

definition lq_ok :: "level_queue \<Rightarrow> bool" where
  "lq_ok q \<longleftrightarrow> fset (lq_members q) \<subseteq> set (lq_order q)"

lemma lq_is_empty_iff: "lq_is_empty q \<longleftrightarrow> fset (lq_members q) = {}"
  by (metis bot_fset.rep_eq fset_inject lq_is_empty_def)

lemma lq_insert_simps [simp]:
  "fset (lq_members (lq_insert q n)) = insert n (fset (lq_members q))"
  "lq_ok q \<Longrightarrow> lq_ok (lq_insert q n)"
  by (auto simp: lq_insert_def lq_ok_def)

lemma lq_remove_simps [simp]:
  "fset (lq_members (lq_remove q n)) = fset (lq_members q) - {n}"
  "lq_ok q \<Longrightarrow> lq_ok (lq_remove q n)"
  by (auto simp: lq_remove_def lq_ok_def)

lemma lq_pop_from_spec:
  "fset ms \<subseteq> set order \<Longrightarrow> ms \<noteq> {||} \<Longrightarrow>
   \<exists>n q. lq_pop_from order ms = (Some n, q) \<and> n |\<in>| ms \<and> lq_members q = ms |-| {|n|} \<and> lq_ok q"
proof (induction order)
  case Nil
  then show ?case by auto
next
  case (Cons m order)
  show ?case
  proof (cases "m |\<in>| ms")
    case True
    then show ?thesis using Cons.prems by (auto simp: lq_ok_def)
  next
    case False
    then have "fset ms \<subseteq> set order" using Cons.prems(1) by auto
    with Cons.IH Cons.prems(2) False show ?thesis by simp
  qed
qed

text \<open>A non-empty queue gives one of its members and loses exactly that member.\<close>

lemma lq_pop_first_spec:
  assumes "lq_ok q" and "\<not> lq_is_empty q"
  obtains n q' where "lq_pop_first q = (Some n, q')" and "n |\<in>| lq_members q"
    and "fset (lq_members q') = fset (lq_members q) - {n}" and "lq_ok q'"
proof -
  obtain n q' where "lq_pop_from (lq_order q) (lq_members q) = (Some n, q')" "n |\<in>| lq_members q"
    "lq_members q' = lq_members q |-| {|n|}" "lq_ok q'"
    using lq_pop_from_spec [of "lq_members q" "lq_order q"] assms by (auto simp: lq_ok_def lq_is_empty_def)
  then show thesis by (intro that) (simp_all add: lq_pop_first_def)
qed

section \<open>All queues and the first level\<close>

definition queues_core :: "(int \<Rightarrow> nat option) \<Rightarrow> dynamic_graph \<Rightarrow> bool" where
  "queues_core key g \<longleftrightarrow> length (dg_queues g) = dg_level_count g
     \<and> (\<forall>q\<in>set (dg_queues g). lq_ok q)
     \<and> (\<forall>n k. key n = Some k \<longrightarrow> k < dg_level_count g)
     \<and> (\<forall>k<dg_level_count g. members g k = {n. key n = Some k})"

text \<open>The cached first level, where the level \<open>l\<close> may be announced before it is filled.\<close>

definition first_upto :: "nat \<Rightarrow> (int \<Rightarrow> nat option) \<Rightarrow> dynamic_graph \<Rightarrow> bool" where
  "first_upto l key g \<longleftrightarrow> dg_first_queued_level g \<le> dg_level_count g
     \<and> (\<forall>n k. key n = Some k \<longrightarrow> dg_first_queued_level g \<le> k)
     \<and> (dg_first_queued_level g < dg_level_count g \<and> dg_first_queued_level g \<noteq> l
          \<longrightarrow> (\<exists>n. key n = Some (dg_first_queued_level g)))"

definition queues_ok :: "(int \<Rightarrow> nat option) \<Rightarrow> dynamic_graph \<Rightarrow> bool" where
  "queues_ok key g \<longleftrightarrow> queues_core key g \<and> first_upto (dg_level_count g) key g"

lemma scan_queues_spec:
  "\<forall>k\<in>set ks. k < length qs \<Longrightarrow> sorted ks \<Longrightarrow>
   \<exists>r. scan_queues qs ks l = Some r \<and> (\<forall>k\<in>set ks. lq_is_empty (qs ! k) \<or> r \<le> k)
     \<and> (r = l \<and> (\<forall>k\<in>set ks. lq_is_empty (qs ! k)) \<or> r \<in> set ks \<and> \<not> lq_is_empty (qs ! r))"
proof (induction ks)
  case Nil
  then show ?case by simp
next
  case (Cons k ks)
  show ?case
  proof (cases "lq_is_empty (qs ! k)")
    case True
    then show ?thesis using Cons by (auto simp: vec_get_def)
  next
    case False
    then show ?thesis using Cons.prems by (auto simp: vec_get_def)
  qed
qed

lemma check_first_spec:
  assumes core: "queues_core key g" and l: "l \<le> dg_level_count g" and small: "dg_level_count g < 254"
    and above: "\<forall>n k. key n = Some k \<longrightarrow> dg_first_queued_level g < k"
  shows "\<exists>g'. check_first_queued_level g l = Some g' \<and> g' = g\<lparr>dg_first_queued_level := dg_first_queued_level g'\<rparr>
     \<and> first_upto l key g'"
proof -
  let ?a = "min 255 (dg_first_queued_level g + 1)"
  have len: "length (dg_queues g) = dg_level_count g"
    and mem: "\<And>k. k < dg_level_count g \<Longrightarrow> members g k = {n. key n = Some k}"
    and bound: "\<And>n k. key n = Some k \<Longrightarrow> k < dg_level_count g"
    using core by (auto simp: queues_core_def)
  obtain r where r: "scan_queues (dg_queues g) [?a..<l] l = Some r"
    and low: "\<And>k. ?a \<le> k \<Longrightarrow> k < l \<Longrightarrow> lq_is_empty (dg_queues g ! k) \<or> r \<le> k"
    and hit: "r = l \<and> (\<forall>k\<in>set [?a..<l]. lq_is_empty (dg_queues g ! k))
       \<or> r \<in> set [?a..<l] \<and> \<not> lq_is_empty (dg_queues g ! r)"
    using scan_queues_spec [of "[?a..<l]" "dg_queues g" l] l len by fastforce
  have rl: "r \<le> l" using hit by auto
  have empty: "lq_is_empty (dg_queues g ! k) \<longleftrightarrow> (\<forall>n. key n \<noteq> Some k)" if "k < dg_level_count g" for k
    using mem [OF that] by (auto simp: lq_is_empty_iff members_def)
  have "r \<le> k" if k: "key n = Some k" for n k
  proof -
    have kl: "k < dg_level_count g" "dg_first_queued_level g < k" using bound [OF k] above k by auto
    then have "\<not> lq_is_empty (dg_queues g ! k)" using empty k by blast
    with kl low [of k] rl small show ?thesis by (cases "k < l") auto
  qed
  moreover have "\<exists>n. key n = Some r" if "r \<noteq> l"
    using hit that l empty [of r] by auto
  ultimately have "first_upto l key (g\<lparr>dg_first_queued_level := r\<rparr>)"
    using rl l by (auto simp: first_upto_def)
  moreover have "check_first_queued_level g l = Some (g\<lparr>dg_first_queued_level := r\<rparr>)"
    using r by (simp add: check_first_queued_level_def)
  ultimately show ?thesis by (intro exI [of _ "g\<lparr>dg_first_queued_level := r\<rparr>"]) simp
qed

text \<open>Replacing one queue.\<close>

lemma queues_core_update:
  assumes core: "queues_core key g" and k: "k < dg_level_count g" and q: "lq_ok q"
    and mem: "fset (lq_members q) = {n. key' n = Some k}"
    and other: "\<And>j n. j \<noteq> k \<Longrightarrow> key' n = Some j \<longleftrightarrow> key n = Some j"
  shows "queues_core key' (g\<lparr>dg_queues := (dg_queues g)[k := q]\<rparr>)"
proof -
  have "key' n = Some j \<Longrightarrow> j < dg_level_count g" for n j
    using core k other [of j n] by (cases "j = k") (auto simp: queues_core_def)
  moreover have "members (g\<lparr>dg_queues := (dg_queues g)[k := q]\<rparr>) j = {n. key' n = Some j}"
    if "j < dg_level_count g" for j
    using core k mem other that by (cases "j = k") (auto simp: queues_core_def members_def)
  ultimately show ?thesis
    using core q by (auto simp: queues_core_def dest: set_update_subset_insert [THEN subsetD])
qed

lemma queues_core_cong:
  "queues_core key g \<Longrightarrow> dg_queues g' = dg_queues g \<Longrightarrow> dg_level_count g' = dg_level_count g \<Longrightarrow> queues_core key g'"
  by (simp add: queues_core_def members_def)

lemma first_upto_cong:
  "first_upto l key g \<Longrightarrow> dg_first_queued_level g' = dg_first_queued_level g
    \<Longrightarrow> dg_level_count g' = dg_level_count g \<Longrightarrow> first_upto l key g'"
  by (simp add: first_upto_def)

text \<open>After a node left the queue of the first level, the first level is searched again if needed.\<close>

lemma refresh_first_spec:
  assumes core: "queues_core key g" and l: "l \<le> dg_level_count g" and small: "dg_level_count g < 254"
    and k: "k < dg_level_count g"
    and low: "\<forall>n j. key n = Some j \<longrightarrow> dg_first_queued_level g \<le> j"
    and le: "dg_first_queued_level g \<le> dg_level_count g"
    and other: "dg_first_queued_level g \<noteq> k \<Longrightarrow> dg_first_queued_level g < dg_level_count g
      \<Longrightarrow> \<exists>n. key n = Some (dg_first_queued_level g)"
  shows "\<exists>g'. (if lq_is_empty (dg_queues g ! k) \<and> dg_first_queued_level g = k
      then check_first_queued_level g l else Some g) = Some g'
    \<and> g' = g\<lparr>dg_first_queued_level := dg_first_queued_level g'\<rparr> \<and> first_upto l key g'"
proof (cases "lq_is_empty (dg_queues g ! k) \<and> dg_first_queued_level g = k")
  case True
  then have "\<forall>n. key n \<noteq> Some k"
    using core k by (auto simp: queues_core_def lq_is_empty_iff members_def)
  then have "\<forall>n j. key n = Some j \<longrightarrow> dg_first_queued_level g < j"
    using low True by (metis le_neq_implies_less)
  from check_first_spec [OF core l small this] show ?thesis by (simp only: True simp_thms if_True)
next
  case False
  have "\<exists>n. key n = Some (dg_first_queued_level g)" if "dg_first_queued_level g < dg_level_count g"
  proof (cases "dg_first_queued_level g = k")
    case True
    then show ?thesis using False core k by (auto simp: queues_core_def lq_is_empty_iff members_def)
  qed (use other that in blast)
  then have "first_upto l key g" using low le by (auto simp: first_upto_def)
  then show ?thesis by (simp only: False if_False) auto
qed

section \<open>Dequeue and enqueue\<close>

lemma dequeue_spec:
  assumes ok: "queues_ok key g" and k: "key n = Some k" and l: "l \<le> dg_level_count g"
    and small: "dg_level_count g < 254"
  shows "\<exists>g'. dequeue g n k l rm = Some g' \<and> queues_core (key(n := None)) g' \<and> first_upto l (key(n := None)) g'
     \<and> dg_level_count g' = dg_level_count g
     \<and> dg_computed_levels g' = (if rm then fmdrop n (dg_computed_levels g) else dg_computed_levels g)"
proof -
  have core: "queues_core key g" and first: "first_upto (dg_level_count g) key g"
    using ok by (auto simp: queues_ok_def)
  have kl: "k < dg_level_count g" and len: "length (dg_queues g) = dg_level_count g"
    and qok: "lq_ok (dg_queues g ! k)" and mem: "members g k = {m. key m = Some k}"
    using core k by (auto simp: queues_core_def)
  let ?q = "(dg_queues g)[k := lq_remove (dg_queues g ! k) n]"
  obtain h where h: "h = (if rm then g\<lparr>dg_computed_levels := fmdrop n (dg_computed_levels g)\<rparr> else g)
      \<lparr>dg_queues := ?q\<rparr>" by simp
  then have fields: "dg_first_queued_level h = dg_first_queued_level g" "dg_level_count h = dg_level_count g"
    "dg_queues h = ?q"
    "dg_computed_levels h = (if rm then fmdrop n (dg_computed_levels g) else dg_computed_levels g)"
    by simp_all
  have "queues_core (key(n := None)) (g\<lparr>dg_queues := ?q\<rparr>)"
    by (rule queues_core_update [OF core kl]) (use qok mem k in \<open>auto simp: members_def\<close>)
  then have core': "queues_core (key(n := None)) h" by (rule queues_core_cong) (simp_all add: fields)
  have low: "\<forall>m j. (key(n := None)) m = Some j \<longrightarrow> dg_first_queued_level h \<le> j"
    using first by (auto simp: first_upto_def fields)
  have other: "\<exists>m. (key(n := None)) m = Some (dg_first_queued_level h)"
    if ne: "dg_first_queued_level h \<noteq> k" and lt: "dg_first_queued_level h < dg_level_count h"
  proof -
    obtain m where m: "key m = Some (dg_first_queued_level g)"
      using first lt unfolding fields by (auto simp: first_upto_def)
    then have "m \<noteq> n" using k ne unfolding fields by auto
    then show ?thesis using m by (intro exI [of _ m]) (simp add: fields)
  qed
  have le: "dg_first_queued_level h \<le> dg_level_count h" using first by (simp add: first_upto_def fields)
  obtain g' where g': "(if lq_is_empty (dg_queues h ! k) \<and> dg_first_queued_level h = k
      then check_first_queued_level h l else Some h) = Some g'"
    "g' = h\<lparr>dg_first_queued_level := dg_first_queued_level g'\<rparr>" "first_upto l (key(n := None)) g'"
    using refresh_first_spec [OF core' _ _ _ low le other, of l] l small kl unfolding fields(2) by blast
  have "dequeue g n k l rm = Some g'"
    using g'(1) kl len unfolding h by (cases rm) (simp_all add: dequeue_def vec_get_def vec_set_def Let_def cong: if_cong)
  moreover have "dg_queues g' = dg_queues h" "dg_level_count g' = dg_level_count h"
    "dg_computed_levels g' = dg_computed_levels h"
    by (subst g'(2), simp)+
  moreover have "queues_core (key(n := None)) g'" by (rule queues_core_cong [OF core']) fact+
  ultimately show ?thesis using g'(3) by (simp add: fields)
qed

lemma enqueue_spec:
  assumes core: "queues_core key g" and first: "first_upto k key g" and k: "k < dg_level_count g"
    and n: "key n = None \<or> key n = Some k"
  shows "\<exists>g'. enqueue g n c k = Some g' \<and> queues_ok (key(n := Some k)) g'
     \<and> dg_level_count g' = dg_level_count g
     \<and> dg_computed_levels g' = fmupd n c (dg_computed_levels g)"
proof -
  have len: "length (dg_queues g) = dg_level_count g" and qok: "lq_ok (dg_queues g ! k)"
    and mem: "members g k = {m. key m = Some k}"
    using core k by (auto simp: queues_core_def)
  let ?g = "g\<lparr>dg_computed_levels := fmupd n c (dg_computed_levels g),
      dg_queues := (dg_queues g)[k := lq_insert (dg_queues g ! k) n]\<rparr>"
  let ?h = "if k < dg_first_queued_level g then ?g\<lparr>dg_first_queued_level := k\<rparr> else ?g"
  have "queues_core (key(n := Some k)) (g\<lparr>dg_queues := (dg_queues g)[k := lq_insert (dg_queues g ! k) n]\<rparr>)"
    by (rule queues_core_update [OF core k]) (use qok mem n in \<open>auto simp: members_def\<close>)
  then have core': "queues_core (key(n := Some k)) ?h" by (rule queues_core_cong) simp_all
  have "\<exists>m. (key(n := Some k)) m = Some (dg_first_queued_level g)"
    if lt: "dg_first_queued_level g < dg_level_count g" and ne: "dg_first_queued_level g \<noteq> k"
  proof -
    obtain m where "key m = Some (dg_first_queued_level g)" using first lt ne by (auto simp: first_upto_def)
    moreover from this have "m \<noteq> n" using n ne by auto
    ultimately show ?thesis by (intro exI [of _ m]) simp
  qed
  note hit = this
  have low: "\<And>m j. key m = Some j \<Longrightarrow> dg_first_queued_level g \<le> j"
    and le: "dg_first_queued_level g \<le> dg_level_count g"
    using first by (auto simp: first_upto_def)
  have "first_upto (dg_level_count g) (key(n := Some k)) ?h"
  proof (cases "k < dg_first_queued_level g")
    case True
    have "k \<le> j" if "key m = Some j" for m j using low [OF that] True by simp
    then show ?thesis using True k by (auto simp: first_upto_def)
  next
    case False
    have "\<exists>m. (key(n := Some k)) m = Some (dg_first_queued_level g)"
      if "dg_first_queued_level g < dg_level_count g"
      using hit [OF that] by (cases "dg_first_queued_level g = k") auto
    then show ?thesis using False low le by (auto simp: first_upto_def)
  qed
  moreover have "dg_level_count ?h = dg_level_count g" "dg_computed_levels ?h = fmupd n c (dg_computed_levels g)"
    by simp_all
  moreover have "enqueue g n c k = Some ?h"
    using k len by (simp add: enqueue_def vec_get_def vec_set_def Let_def)
  ultimately show ?thesis using core' unfolding queues_ok_def by metis
qed

section \<open>Levels, pending levels and keys\<close>

definition key_of :: "(int \<Rightarrow> nat) \<Rightarrow> dynamic_graph \<Rightarrow> int \<Rightarrow> nat option" where
  "key_of lv g n = map_option (min (lv n)) (fmlookup (dg_computed_levels g) n)"

definition graph_ok :: "(int \<Rightarrow> nat) \<Rightarrow> dynamic_graph \<Rightarrow> bool" where
  "graph_ok lv g \<longleftrightarrow> 2 \<le> dg_level_count g \<and> dg_level_count g < 254
     \<and> queues_ok (key_of lv g) g
     \<and> (\<forall>n c. fmlookup (dg_computed_levels g) n = Some c \<longrightarrow> c < dg_level_count g)"

text \<open>The level a node will have once it has been served.\<close>

definition pend :: "(int \<Rightarrow> nat) \<Rightarrow> dynamic_graph \<Rightarrow> int \<Rightarrow> nat" where
  "pend lv g n = (case fmlookup (dg_computed_levels g) n of Some c \<Rightarrow> c | None \<Rightarrow> lv n)"

definition pending_update :: "(int \<Rightarrow> nat) \<Rightarrow> dynamic_graph \<Rightarrow> int \<Rightarrow> nat \<Rightarrow> dynamic_graph \<Rightarrow> bool" where
  "pending_update lv g n t g' \<longleftrightarrow> graph_ok lv g' \<and> dg_level_count g' = dg_level_count g
     \<and> fmlookup (dg_computed_levels g')
       = (fmlookup (dg_computed_levels g))(n := (if lv n = t then None else Some t))"

lemma pending_update_pend: "pending_update lv g n t g' \<Longrightarrow> pend lv g' = (pend lv g)(n := t)"
  by (auto simp: pending_update_def pend_def)

lemma graph_key_eq:
  "a < dg_level_count g \<Longrightarrow> graph_key g a b = min a b"
  by (simp add: graph_key_def)

lemma computed_level_eq:
  assumes "graph_ok lv g"
  shows "computed_level g n = 255 \<longleftrightarrow> fmlookup (dg_computed_levels g) n = None"
    and "fmlookup (dg_computed_levels g) n = Some c \<Longrightarrow> computed_level g n = c"
  using assms by (force simp: computed_level_def graph_ok_def split: option.splits)+

lemma key_of_update:
  "fmlookup (dg_computed_levels g') = (fmlookup (dg_computed_levels g))(n := x)
    \<Longrightarrow> key_of lv g' = (key_of lv g)(n := map_option (min (lv n)) x)"
  by (rule ext) (simp add: key_of_def)

text \<open>The heart of \<open>check_edge_with_levels\<close>: the node's pending level becomes the target level.\<close>

lemma check_edge_with_levels_spec:
  assumes ok: "graph_ok lv g" and src: "\<not> cb_is_source cb s n"
    and lv: "lv n < dg_level_count g"
    and target: "(if dec then Some (min (pend lv g n) (clamp_level cand (dg_level_count g)))
      else map_option (\<lambda>l. clamp_level l (dg_level_count g))
        (cb_get_computed_level cb s n source (clamp_level cand (dg_level_count g)))) = Some t"
    and t: "t < dg_level_count g"
  shows "\<exists>g'. check_edge_with_levels cb s g source n cand (lv n) (computed_level g n) dec = Some g'
    \<and> pending_update lv g n t g'"
proof -
  let ?lc = "dg_level_count g" and ?c = "fmlookup (dg_computed_levels g) n"
  have lc: "2 \<le> ?lc" "?lc < 254" and qok: "queues_ok (key_of lv g) g"
    and cb: "\<And>m c. fmlookup (dg_computed_levels g) m = Some c \<Longrightarrow> c < ?lc"
    using ok by (auto simp: graph_ok_def)
  have clamp: "clamp_level (lv n) ?lc = lv n" using lv by (simp add: clamp_level_def)
  have comp: "(if computed_level g n = 255 then lv n else computed_level g n) = pend lv g n"
    using computed_level_eq [OF ok, of n] by (auto simp: pend_def split: option.splits)
  have wnq: "computed_level g n = 255 \<longleftrightarrow> ?c = None" by (rule computed_level_eq(1) [OF ok])
  have keys: "graph_key g (lv n) t = min (lv n) t" "graph_key g (lv n) (pend lv g n) = min (lv n) (pend lv g n)"
    by (rule graph_key_eq [OF lv])+
  have body: "check_edge_with_levels cb s g source n cand (lv n) (computed_level g n) dec =
     (if lv n \<noteq> t then do {
        g \<leftarrow> (if min (lv n) (pend lv g n) \<noteq> min (lv n) t \<and> ?c \<noteq> None
              then dequeue g n (min (lv n) (pend lv g n)) (min (lv n) t) False else Some g);
        enqueue g n t (min (lv n) t)
      }
      else if ?c \<noteq> None then dequeue g n (min (lv n) (pend lv g n)) ?lc True
      else Some g)"
  proof (cases dec)
    case True
    then have t': "min (pend lv g n) (clamp_level cand ?lc) = t" using target by simp
    show ?thesis
      unfolding check_edge_with_levels_def Let_def clamp comp
      by (simp only: src if_False True if_True t' bind.bind_lunit keys wnq)
  next
    case False
    then obtain l where "cb_get_computed_level cb s n source (clamp_level cand ?lc) = Some l" "clamp_level l ?lc = t"
      using target by auto
    note l = this
    show ?thesis
      unfolding check_edge_with_levels_def Let_def clamp comp
      by (simp only: src if_False False l bind.bind_lunit keys wnq)
  qed
  have finish: "pending_update lv g n t g'"
    if "queues_ok ((key_of lv g)(n := map_option (min (lv n)) x)) g'" "dg_level_count g' = ?lc"
      "fmlookup (dg_computed_levels g') = (fmlookup (dg_computed_levels g))(n := x)"
      "x = (if lv n = t then None else Some t)" for g' x
    using that lc cb t by (auto simp: pending_update_def graph_ok_def key_of_update split: if_splits)
  show ?thesis
  proof (cases "lv n = t")
    case True
    show ?thesis
    proof (cases ?c)
      case None
      then have "(fmlookup (dg_computed_levels g))(n := None) = fmlookup (dg_computed_levels g)" by auto
      then have "pending_update lv g n t g" using True ok by (simp add: pending_update_def)
      then show ?thesis using True None body by simp
    next
      case (Some c)
      then have key: "key_of lv g n = Some (min (lv n) (pend lv g n))" by (simp add: key_of_def pend_def)
      obtain g' where g': "dequeue g n (min (lv n) (pend lv g n)) ?lc True = Some g'"
        "queues_core ((key_of lv g)(n := None)) g'" "first_upto ?lc ((key_of lv g)(n := None)) g'"
        "dg_level_count g' = ?lc" "dg_computed_levels g' = fmdrop n (dg_computed_levels g)"
        using dequeue_spec [OF qok key _ lc(2), of ?lc True] by auto
      have "pending_update lv g n t g'"
        by (rule finish [of None]) (use g' True in \<open>auto simp: queues_ok_def fun_eq_iff\<close>)
      then show ?thesis using body True Some g'(1) by simp
    qed
  next
    case ne: False
    let ?k = "min (lv n) t"
    have kl: "?k < ?lc" using t by simp
    obtain g1 key1 where g1: "(if min (lv n) (pend lv g n) \<noteq> ?k \<and> ?c \<noteq> None
        then dequeue g n (min (lv n) (pend lv g n)) ?k False else Some g) = Some g1"
      "queues_core key1 g1" "first_upto ?k key1 g1" "key1 n = None \<or> key1 n = Some ?k"
      "key1(n := Some ?k) = (key_of lv g)(n := Some ?k)"
      "dg_level_count g1 = ?lc" "dg_computed_levels g1 = dg_computed_levels g"
    proof (cases "min (lv n) (pend lv g n) \<noteq> ?k \<and> ?c \<noteq> None")
      case True
      then have key: "key_of lv g n = Some (min (lv n) (pend lv g n))"
        by (auto simp: key_of_def pend_def)
      obtain g' where "dequeue g n (min (lv n) (pend lv g n)) ?k False = Some g'"
        "queues_core ((key_of lv g)(n := None)) g'" "first_upto ?k ((key_of lv g)(n := None)) g'"
        "dg_level_count g' = ?lc" "dg_computed_levels g' = dg_computed_levels g"
        using dequeue_spec [OF qok key _ lc(2), of ?k False] kl by auto
      then show thesis using True by (intro that [of g' "(key_of lv g)(n := None)"]) simp_all
    next
      case False
      have "key_of lv g n = None \<or> key_of lv g n = Some ?k"
        using False by (cases ?c) (auto simp: key_of_def pend_def)
      moreover have "first_upto ?k (key_of lv g) g"
        using qok kl by (auto simp: queues_ok_def first_upto_def)
      ultimately show thesis
        using False qok by (intro that [of g "key_of lv g"]) (auto simp: queues_ok_def)
    qed
    obtain g' where g': "enqueue g1 n t ?k = Some g'" "queues_ok (key1(n := Some ?k)) g'"
      "dg_level_count g' = ?lc" "dg_computed_levels g' = fmupd n t (dg_computed_levels g)"
      using enqueue_spec [OF g1(2,3) _ g1(4), of t] kl g1(6,7) by auto
    have "pending_update lv g n t g'"
      by (rule finish [of "Some t"]) (use g' g1(5) ne in \<open>auto simp: fun_eq_iff\<close>)
    then show ?thesis using body ne g1(1) g'(1) by simp
  qed
qed

section \<open>Serving the first queue\<close>

lemma pop_spec:
  assumes ok: "queues_ok key g" and k: "dg_first_queued_level g < dg_level_count g"
    and small: "dg_level_count g < 254"
  shows "\<exists>n q g'. lq_pop_first (dg_queues g ! dg_first_queued_level g) = (Some n, q)
     \<and> key n = Some (dg_first_queued_level g)
     \<and> (if lq_is_empty q
        then check_first_queued_level (g\<lparr>dg_queues := (dg_queues g)[dg_first_queued_level g := q]\<rparr>) (dg_level_count g)
        else Some (g\<lparr>dg_queues := (dg_queues g)[dg_first_queued_level g := q]\<rparr>)) = Some g'
     \<and> queues_ok (key(n := None)) g' \<and> dg_level_count g' = dg_level_count g
     \<and> dg_computed_levels g' = dg_computed_levels g"
proof -
  let ?k = "dg_first_queued_level g"
  have core: "queues_core key g" and first: "first_upto (dg_level_count g) key g"
    using ok by (auto simp: queues_ok_def)
  have len: "length (dg_queues g) = dg_level_count g" and qok: "lq_ok (dg_queues g ! ?k)"
    and mem: "members g ?k = {m. key m = Some ?k}"
    using core k by (auto simp: queues_core_def)
  have "\<exists>m. key m = Some ?k" using first k by (auto simp: first_upto_def)
  then have "\<not> lq_is_empty (dg_queues g ! ?k)" using mem by (auto simp: lq_is_empty_iff members_def)
  then obtain n q where pop: "lq_pop_first (dg_queues g ! ?k) = (Some n, q)" "n |\<in>| lq_members (dg_queues g ! ?k)"
    "fset (lq_members q) = fset (lq_members (dg_queues g ! ?k)) - {n}" "lq_ok q"
    by (rule lq_pop_first_spec [OF qok])
  have key: "key n = Some ?k" using pop(2) mem by (auto simp: members_def)
  obtain h where h: "h = g\<lparr>dg_queues := (dg_queues g)[?k := q]\<rparr>" by simp
  then have fields: "dg_first_queued_level h = ?k" "dg_level_count h = dg_level_count g" "dg_queues h ! ?k = q"
    "dg_computed_levels h = dg_computed_levels g"
    using k len by simp_all
  have core': "queues_core (key(n := None)) h"
    unfolding h by (rule queues_core_update [OF core k pop(4)]) (use pop(3) mem key in \<open>auto simp: members_def\<close>)
  have low: "\<forall>m j. (key(n := None)) m = Some j \<longrightarrow> dg_first_queued_level h \<le> j"
    using first by (auto simp: first_upto_def fields)
  obtain g' where g': "(if lq_is_empty q then check_first_queued_level h (dg_level_count g) else Some h) = Some g'"
    "g' = h\<lparr>dg_first_queued_level := dg_first_queued_level g'\<rparr>"
    "first_upto (dg_level_count g) (key(n := None)) g'"
    using refresh_first_spec [OF core' _ _ _ low, of "dg_level_count g" ?k] small k unfolding fields by (auto simp: fun_upd_def)
  have same: "dg_queues g' = dg_queues h" "dg_level_count g' = dg_level_count g"
    "dg_computed_levels g' = dg_computed_levels g"
    by (subst g'(2), simp add: fields)+
  have "queues_core (key(n := None)) g'" by (rule queues_core_cong [OF core']) (simp_all add: same fields)
  then have "queues_ok (key(n := None)) g'" using g'(3) by (simp add: queues_ok_def same)
  then show ?thesis
    using pop(1) key g'(1) same unfolding h by (intro exI [of _ n] exI [of _ q] exI [of _ g'] conjI)
qed

text \<open>A drained graph has no pending node.\<close>

lemma drained_empty:
  assumes "graph_ok lv g" and "dg_level_count g \<le> dg_first_queued_level g"
  shows "dg_computed_levels g = fmempty"
proof (rule fmap_ext)
  fix n
  show "fmlookup (dg_computed_levels g) n = fmlookup fmempty n"
  proof (cases "key_of lv g n")
    case None
    then show ?thesis by (simp add: key_of_def)
  next
    case (Some k)
    then have "k < dg_level_count g" "dg_first_queued_level g \<le> k"
      using assms(1) by (auto simp: graph_ok_def queues_ok_def queues_core_def first_upto_def)
    with assms(2) show ?thesis by simp
  qed
qed

lemma graph_ok_key:
  "graph_ok lv g \<Longrightarrow> key_of lv g n = Some k \<Longrightarrow> k < dg_level_count g \<and> dg_first_queued_level g \<le> k"
  by (auto simp: graph_ok_def queues_ok_def queues_core_def first_upto_def)

lemma graph_new_ok:
  assumes "2 \<le> lc" and "dynamic_graph_new lc = Some g"
  shows "graph_ok lv g" and "dg_level_count g = lc" and "dg_computed_levels g = fmempty"
  using assms by (auto simp: dynamic_graph_new_def graph_ok_def queues_ok_def queues_core_def first_upto_def
      key_of_def members_def lq_ok_def level_queue_default_def)

lemma refresh_simps [simp]:
  "dg_level_count (refresh_has_work g) = dg_level_count g"
  "dg_computed_levels (refresh_has_work g) = dg_computed_levels g"
  "dg_first_queued_level (refresh_has_work g) = dg_first_queued_level g"
  "dg_queues (refresh_has_work g) = dg_queues g"
  by (simp_all add: refresh_has_work_def)

lemma key_of_cong: "dg_computed_levels g' = dg_computed_levels g \<Longrightarrow> key_of lv g' = key_of lv g"
  by (rule ext) (simp add: key_of_def)

lemma pend_cong: "dg_computed_levels g' = dg_computed_levels g \<Longrightarrow> pend lv g' = pend lv g"
  by (rule ext) (simp add: pend_def)

lemma graph_ok_cong:
  assumes "graph_ok lv g" and "dg_level_count g' = dg_level_count g" and "dg_queues g' = dg_queues g"
    and "dg_computed_levels g' = dg_computed_levels g" and "dg_first_queued_level g' = dg_first_queued_level g"
  shows "graph_ok lv g'"
  using assms key_of_cong [OF assms(4)] by (simp add: graph_ok_def queues_ok_def queues_core_def first_upto_def members_def)

lemma graph_ok_refresh [simp]: "graph_ok lv (refresh_has_work g) \<longleftrightarrow> graph_ok lv g"
proof
  show "graph_ok lv (refresh_has_work g) \<Longrightarrow> graph_ok lv g" by (erule graph_ok_cong) simp_all
  show "graph_ok lv g \<Longrightarrow> graph_ok lv (refresh_has_work g)" by (erule graph_ok_cong) simp_all
qed

lemma pending_update_refresh: "pending_update lv g n t g' \<Longrightarrow> pending_update lv g n t (refresh_has_work g')"
  by (simp add: pending_update_def)

text \<open>Keys that an update with a high target cannot create.\<close>

lemma pending_update_key:
  assumes "pending_update lv g n t g'" and "t = pend lv g n \<or> l < t \<and> l < pend lv g n"
    and "j \<le> l" and "key_of lv g' m = Some j"
  shows "key_of lv g m = Some j"
proof -
  have key': "key_of lv g' = (key_of lv g)(n := map_option (min (lv n)) (if lv n = t then None else Some t))"
    using assms(1) by (intro key_of_update) (simp add: pending_update_def)
  show ?thesis
  proof (cases "m = n")
    case False
    then show ?thesis using assms(4) key' by simp
  next
    case True
    then have j: "lv n \<noteq> t" "j = min (lv n) t" using assms(4) key' by (auto split: if_splits)
    then have "pend lv g n \<noteq> lv n" using assms(2,3) by (auto simp: min_def split: if_splits)
    then obtain c where c: "fmlookup (dg_computed_levels g) n = Some c"
      by (auto simp: pend_def split: option.splits)
    then have "key_of lv g n = Some (min (lv n) (pend lv g n))" by (simp add: key_of_def pend_def)
    moreover have "min (lv n) (pend lv g n) = j" using j assms(2,3) by (auto simp: min_def split: if_splits)
    ultimately show ?thesis using True by simp
  qed
qed

end
