(* ===== verification/LightFixedPoint.thy ===== *)
theory LightFixedPoint imports LightQueues
begin

text \<open>
  What the flood fill computes.  \<open>min_target\<close> is the level a node should have given the levels of
  its neighbours.  The locale \<open>min_fixed_point\<close> states what a client of \<open>dynamic_graph.rs\<close> promises
  (levels that behave like a store, neighbour lists, a recomputation that is a minimum, an edge
  function that is monotone); inside it every graph operation is shown to keep the pending level of
  consistent nodes equal to their target, so that a drained graph holds a fixed point.  The
  extension \<open>strict_min_fixed_point\<close> (levels strictly fall off along edges, finitely many nodes)
  adds that some budget drains the graph and that the fixed point is unique.
\<close>

definition min_target ::
  "nat \<Rightarrow> (int \<Rightarrow> nat) \<Rightarrow> (int \<Rightarrow> int list) \<Rightarrow> (int \<Rightarrow> int \<Rightarrow> nat \<Rightarrow> nat) \<Rightarrow> (int \<Rightarrow> nat) \<Rightarrow> int \<Rightarrow> nat" where
  "min_target lc src nbrs f lv t = fold min (src t # map (\<lambda>n. f n t (lv n)) (nbrs t)) (lc - 1)"

lemma fold_min_le_iff: "fold min xs c \<le> k \<longleftrightarrow> c \<le> k \<or> (\<exists>x\<in>set xs. x \<le> k)" for c k :: nat
  by (induction xs arbitrary: c) (auto simp: min_le_iff_disj)

lemma min_target_le:
  "min_target lc src nbrs f lv t \<le> k \<longleftrightarrow> lc - 1 \<le> k \<or> src t \<le> k \<or> (\<exists>n\<in>set (nbrs t). f n t (lv n) \<le> k)"
  by (auto simp: min_target_def fold_min_le_iff min_le_iff_disj)

lemma nat_eq_by_le: "(\<And>k. a \<le> k \<longleftrightarrow> b \<le> k) \<Longrightarrow> a = b" for a b :: nat
  by (meson order.antisym order.refl)

definition graph_inv ::
  "('s \<Rightarrow> bool) \<Rightarrow> ('s \<Rightarrow> int \<Rightarrow> nat) \<Rightarrow> int set \<Rightarrow> nat \<Rightarrow> 's \<Rightarrow> dynamic_graph \<Rightarrow> bool" where
  "graph_inv ok lev D lc s g \<longleftrightarrow> ok s \<and> graph_ok (lev s) g \<and> dg_level_count g = lc
     \<and> fset (fmdom (dg_computed_levels g)) \<subseteq> D"

text \<open>The nodes whose pending level is not their target.\<close>

definition suspects :: "((int \<Rightarrow> nat) \<Rightarrow> int \<Rightarrow> nat) \<Rightarrow> int set \<Rightarrow> (int \<Rightarrow> nat) \<Rightarrow> dynamic_graph \<Rightarrow> int set" where
  "suspects target D lv g = {t \<in> D. pend lv g t \<noteq> target lv t}"

lemma fmupd_fmdrop_same: "fmupd k v (fmdrop k m) = fmupd k v m"
  by (rule fmap_ext) simp

definition keys_kept :: "nat \<Rightarrow> (int \<Rightarrow> nat) \<Rightarrow> dynamic_graph \<Rightarrow> dynamic_graph \<Rightarrow> bool" where
  "keys_kept h lv g g' \<longleftrightarrow> (\<forall>m j. j \<le> h \<longrightarrow> key_of lv g' m = Some j \<longrightarrow> key_of lv g m = Some j)"

lemma keys_kept_trans: "keys_kept h lv g g' \<Longrightarrow> keys_kept h lv g' g'' \<Longrightarrow> keys_kept h lv g g''"
  by (simp add: keys_kept_def)

lemma keys_kept_update:
  "pending_update lv g n t g' \<Longrightarrow> t = pend lv g n \<or> h < t \<and> h < pend lv g n \<Longrightarrow> keys_kept h lv g g'"
  unfolding keys_kept_def using pending_update_key by blast

text \<open>The queues up to the level \<open>k\<close> only lose nodes, and the queue of level \<open>k\<close> loses one.\<close>

definition queue_progress :: "nat \<Rightarrow> (int \<Rightarrow> nat) \<Rightarrow> dynamic_graph \<Rightarrow> (int \<Rightarrow> nat) \<Rightarrow> dynamic_graph \<Rightarrow> bool" where
  "queue_progress k lv g lv' g' \<longleftrightarrow>
     (\<forall>m j. j \<le> k \<longrightarrow> key_of lv' g' m = Some j \<longrightarrow> key_of lv g m = Some j)
     \<and> (\<exists>n. key_of lv g n = Some k \<and> key_of lv' g' n \<noteq> Some k)"

definition check_of :: "int \<Rightarrow> nat \<Rightarrow> bool \<Rightarrow> int \<Rightarrow> neighbor_check" where
  "check_of n l d t = \<lparr>nc_source = n, nc_target = t, nc_level = l, nc_is_decrease = d\<rparr>"

locale min_fixed_point =
  fixes cb :: "'s graph_callbacks"
    and ok :: "'s \<Rightarrow> bool"
    and lev :: "'s \<Rightarrow> int \<Rightarrow> nat"
    and D :: "int set"
    and lc :: nat
    and src :: "int \<Rightarrow> nat"
    and nbrs :: "int \<Rightarrow> int list"
    and f :: "int \<Rightarrow> int \<Rightarrow> nat \<Rightarrow> nat"
  assumes lc_bounds: "2 \<le> lc" "lc < 254"
    and lev_less: "ok s \<Longrightarrow> lev s n < lc"
    and get_level: "ok s \<Longrightarrow> n \<in> D \<Longrightarrow> cb_get_level cb s n = Some (lev s n)"
    and set_level: "ok s \<Longrightarrow> n \<in> D \<Longrightarrow> l < lc
      \<Longrightarrow> \<exists>s'. cb_set_level cb s n l = Some s' \<and> ok s' \<and> lev s' = (lev s)(n := l)"
    and not_source: "ok s \<Longrightarrow> n \<in> D \<Longrightarrow> \<not> cb_is_source cb s n"
    and nbrs_in: "n \<in> D \<Longrightarrow> set (nbrs n) \<subseteq> D"
    and nbrs_distinct: "n \<in> D \<Longrightarrow> distinct (nbrs n)"
    and nbrs_irrefl: "n \<in> D \<Longrightarrow> n \<notin> set (nbrs n)"
    and nbrs_sym: "n \<in> D \<Longrightarrow> m \<in> D \<Longrightarrow> m \<in> set (nbrs n) \<longleftrightarrow> n \<in> set (nbrs m)"
    and checks: "ok s \<Longrightarrow> n \<in> D \<Longrightarrow> cb_neighbor_checks cb s n l d
      = Some (map (check_of n l d) (nbrs n))"
    and from_neighbor: "ok s \<Longrightarrow> n \<in> D \<Longrightarrow> t \<in> set (nbrs n) \<Longrightarrow> cb_compute_from_neighbor cb s n t l = f n t l"
    and computed: "ok s \<Longrightarrow> t \<in> D \<Longrightarrow> x \<in> D \<Longrightarrow> c < lc
      \<Longrightarrow> \<exists>v. cb_get_computed_level cb s t x c = Some v
            \<and> (\<forall>k. v \<le> k \<longleftrightarrow> c \<le> k \<or> src t \<le> k \<or> (\<exists>n\<in>set (nbrs t) - {x}. f n t (lev s n) \<le> k))"
    and f_mono: "n \<in> D \<Longrightarrow> t \<in> set (nbrs n) \<Longrightarrow> l \<le> l' \<Longrightarrow> f n t l \<le> f n t l'"
    and f_top: "n \<in> D \<Longrightarrow> t \<in> set (nbrs n) \<Longrightarrow> lc - 1 \<le> f n t (lc - 1)"
begin

abbreviation tgt :: "(int \<Rightarrow> nat) \<Rightarrow> int \<Rightarrow> nat" where
  "tgt \<equiv> min_target lc src nbrs f"

abbreviation inv :: "'s \<Rightarrow> dynamic_graph \<Rightarrow> bool" where
  "inv \<equiv> graph_inv ok lev D lc"

lemma invD:
  assumes "inv s g"
  shows "ok s" and "graph_ok (lev s) g" and "dg_level_count g = lc" and "fset (fmdom (dg_computed_levels g)) \<subseteq> D"
  using assms by (simp_all add: graph_inv_def)

lemma tgt_less: "tgt lv t < lc"
  using min_target_le [of lc src nbrs f lv t "lc - 1"] lc_bounds by simp

lemma pend_less:
  assumes "inv s g"
  shows "pend (lev s) g n < lc"
proof (cases "fmlookup (dg_computed_levels g) n")
  case None
  then show ?thesis using lev_less [OF invD(1) [OF assms]] by (simp add: pend_def)
next
  case (Some c)
  then show ?thesis using invD(2,3) [OF assms] by (simp add: pend_def graph_ok_def)
qed

lemma clamp_eq: "clamp_level l lc = min l (lc - 1)"
  by (simp add: clamp_level_def)

lemma clamp_less [simp]: "l < lc \<Longrightarrow> clamp_level l lc = l"
  by (simp add: clamp_eq)

lemma inv_update:
  assumes "inv s g" and "n \<in> D" and "pending_update (lev s) g n t g'"
  shows "inv s g'"
proof -
  have "n' \<in> D" if "fmlookup (dg_computed_levels g') n' = Some c" for n' c
    using assms that by (cases "n' = n") (auto simp: pending_update_def graph_inv_def fmlookup_dom_iff subset_iff)
  then show ?thesis
    using assms by (auto simp: graph_inv_def pending_update_def fmlookup_dom_iff)
qed

lemma inv_refresh: "inv s (refresh_has_work g) = inv s g"
  by (simp add: graph_inv_def)

text \<open>Recomputing a node from all its sources gives its target; leaving out one source that is at
  the top level changes nothing.\<close>

lemma recompute:
  assumes "ok s" and "t \<in> D" and "x \<in> D" and "x \<in> set (nbrs t) \<Longrightarrow> lev s x = lc - 1"
  shows "map_option (\<lambda>l. clamp_level l lc) (cb_get_computed_level cb s t x (lc - 1)) = Some (tgt (lev s) t)"
proof -
  obtain v where v: "cb_get_computed_level cb s t x (lc - 1) = Some v"
    "\<And>k. v \<le> k \<longleftrightarrow> lc - 1 \<le> k \<or> src t \<le> k \<or> (\<exists>n\<in>set (nbrs t) - {x}. f n t (lev s n) \<le> k)"
    using computed [OF assms(1-3), of "lc - 1"] lc_bounds by auto
  have top: "lc - 1 \<le> f x t (lev s x)" if "x \<in> set (nbrs t)"
  proof -
    have "t \<in> set (nbrs x)" using that nbrs_sym [OF assms(2,3)] by simp
    then show ?thesis using f_top [OF assms(3)] assms(4) [OF that] by simp
  qed
  have "v = tgt (lev s) t"
  proof (rule nat_eq_by_le)
    fix k
    have "(\<exists>n\<in>set (nbrs t). f n t (lev s n) \<le> k) \<Longrightarrow> lc - 1 \<le> k \<or> (\<exists>n\<in>set (nbrs t) - {x}. f n t (lev s n) \<le> k)"
      using top by (metis Diff_iff empty_iff insert_iff le_trans)
    then show "v \<le> k \<longleftrightarrow> tgt (lev s) t \<le> k" unfolding v(2) min_target_le by blast
  qed
  with v(1) tgt_less show ?thesis by simp
qed

section \<open>Single checks\<close>

lemma check_edge_decrease:
  assumes inv: "inv s g" and t: "t \<in> D" and c: "c < lc"
  shows "\<exists>g'. check_edge cb s g x t c True = Some g'
     \<and> pending_update (lev s) g t (min (pend (lev s) g t) c) g'"
proof -
  note i = invD [OF inv]
  have "\<exists>g'. check_edge_with_levels cb s g x t c (lev s t) (computed_level g t) True = Some g'
      \<and> pending_update (lev s) g t (min (pend (lev s) g t) c) g'"
    by (rule check_edge_with_levels_spec) (use i t c not_source lev_less in auto)
  then show ?thesis
    using get_level [OF i(1) t] by (auto simp: check_edge_def intro: pending_update_refresh)
qed

lemma check_node_spec:
  assumes inv: "inv s g" and t: "t \<in> D"
  shows "\<exists>g'. check_node cb s g t = Some g' \<and> pending_update (lev s) g t (tgt (lev s) t) g'"
proof -
  note i = invD [OF inv]
  have "\<exists>g'. check_edge_with_levels cb s g t t (lc - 1) (lev s t) (computed_level g t) False = Some g'
      \<and> pending_update (lev s) g t (tgt (lev s) t) g'"
    by (rule check_edge_with_levels_spec)
      (use i t not_source lev_less tgt_less lc_bounds recompute [OF i(1) t t] nbrs_irrefl [OF t] in auto)
  then show ?thesis
    using get_level [OF i(1) t] i(3) by (auto simp: check_node_def check_edge_def intro: pending_update_refresh)
qed

lemma check_neighbor_decrease:
  assumes inv: "inv s g" and n: "n \<in> D" and t: "t \<in> set (nbrs n)"
  shows "\<exists>g'. check_neighbor cb s g n t l True = Some g'
     \<and> pending_update (lev s) g t (min (pend (lev s) g t) (f n t l)) g'"
proof -
  note i = invD [OF inv]
  have tD: "t \<in> D" using nbrs_in [OF n] t by blast
  have m: "min (pend (lev s) g t) (min (f n t l) (lc - 1)) = min (pend (lev s) g t) (f n t l)"
    using pend_less [OF inv, of t] by (auto simp: min_def)
  have "\<exists>g'. check_edge_with_levels cb s g n t (clamp_level (f n t l) lc) (lev s t) (computed_level g t) True = Some g'
      \<and> pending_update (lev s) g t (min (pend (lev s) g t) (f n t l)) g'"
    by (rule check_edge_with_levels_spec)
      (use i tD m pend_less [OF inv, of t] lc_bounds not_source lev_less in \<open>auto simp: clamp_eq\<close>)
  then show ?thesis
    using get_level [OF i(1) tD] from_neighbor [OF i(1) n t] i(3)
    by (auto simp: check_neighbor_def intro: pending_update_refresh)
qed

lemma check_neighbor_increase:
  assumes inv: "inv s g" and n: "n \<in> D" and t: "t \<in> set (nbrs n)" and top: "lev s n = lc - 1"
  shows "\<exists>g'. check_neighbor cb s g n t l False = Some g'
     \<and> pending_update (lev s) g t (if min (f n t l) (lc - 1) = pend (lev s) g t then tgt (lev s) t
          else pend (lev s) g t) g'
       \<or> check_neighbor cb s g n t l False = Some (refresh_has_work g)
         \<and> min (f n t l) (lc - 1) \<noteq> pend (lev s) g t"
proof -
  note i = invD [OF inv]
  have tD: "t \<in> D" using nbrs_in [OF n] t by blast
  have lt: "lev s t < lc" by (rule lev_less [OF i(1)])
  have pl: "(if computed_level g t = 255 then Some (lev s t, True) else Some (computed_level g t, False))
      = Some (pend (lev s) g t, computed_level g t = 255)"
    using computed_level_eq [OF i(2), of t] by (auto simp: pend_def split: option.splits)
  have cur: "(if computed_level g t = 255 then Some (pend (lev s) g t) else Some (lev s t)) = Some (lev s t)"
    using computed_level_eq [OF i(2), of t] by (auto simp: pend_def split: option.splits)
  have body: "check_neighbor cb s g n t l False = do {
      g \<leftarrow> (if min (f n t l) (lc - 1) = pend (lev s) g t
        then check_edge_with_levels cb s g n t (lc - 1) (lev s t) (computed_level g t) False else Some g);
      Some (refresh_has_work g) }"
    unfolding check_neighbor_def Let_def get_level [OF i(1) tD] from_neighbor [OF i(1) n t] i(3)
      bind.bind_lunit clamp_less [OF lt] pl prod.case cur clamp_eq [of "f n t l"] if_False
    by simp
  show ?thesis
  proof (cases "min (f n t l) (lc - 1) = pend (lev s) g t")
    case True
    have "\<exists>g'. check_edge_with_levels cb s g n t (lc - 1) (lev s t) (computed_level g t) False = Some g'
        \<and> pending_update (lev s) g t (tgt (lev s) t) g'"
      by (rule check_edge_with_levels_spec)
        (use i tD not_source lt tgt_less lc_bounds recompute [OF i(1) tD n] top in auto)
    then show ?thesis unfolding body using True by (auto intro: pending_update_refresh)
  next
    case False
    then show ?thesis unfolding body by simp
  qed
qed

section \<open>All neighbours of a node\<close>

lemma checks_decrease:
  assumes n: "n \<in> D"
  shows "inv s g \<Longrightarrow> set ts \<subseteq> set (nbrs n) \<Longrightarrow> distinct ts \<Longrightarrow>
    \<exists>g'. apply_checks cb s g (map (check_of n l True) ts) = Some g' \<and> inv s g'
      \<and> (\<forall>t. pend (lev s) g' t = (if t \<in> set ts then min (pend (lev s) g t) (f n t l) else pend (lev s) g t))
      \<and> (\<forall>h. (\<forall>t\<in>set ts. h < f n t l) \<longrightarrow> keys_kept h (lev s) g g')"
proof (induction ts arbitrary: g)
  case Nil
  then show ?case by (simp add: keys_kept_def)
next
  case (Cons t ts)
  have t: "t \<in> set (nbrs n)" and tD: "t \<in> D" using Cons.prems(2) nbrs_in [OF n] by auto
  obtain g1 where g1: "check_neighbor cb s g n t l True = Some g1"
    "pending_update (lev s) g t (min (pend (lev s) g t) (f n t l)) g1"
    using check_neighbor_decrease [OF Cons.prems(1) n t] by blast
  have "inv s g1" by (rule inv_update [OF Cons.prems(1) tD g1(2)])
  then obtain g' where g': "apply_checks cb s g1 (map (check_of n l True) ts) = Some g'" "inv s g'"
    "\<And>u. pend (lev s) g' u = (if u \<in> set ts then min (pend (lev s) g1 u) (f n u l) else pend (lev s) g1 u)"
    "\<And>h. \<forall>u\<in>set ts. h < f n u l \<Longrightarrow> keys_kept h (lev s) g1 g'"
    using Cons.IH [of g1] Cons.prems(2,3) by auto
  have pend1: "pend (lev s) g1 = (pend (lev s) g)(t := min (pend (lev s) g t) (f n t l))"
    by (rule pending_update_pend [OF g1(2)])
  have kept: "keys_kept h (lev s) g g1" if "h < f n t l" for h
    by (rule keys_kept_update [OF g1(2)]) (use that in \<open>auto simp: min_def\<close>)
  show ?case
  proof (intro exI conjI allI impI)
    show "apply_checks cb s g (map (check_of n l True) (t # ts)) = Some g'"
      using g1(1) g'(1) by (simp add: check_of_def)
    show "inv s g'" by (rule g'(2))
    show "pend (lev s) g' u = (if u \<in> set (t # ts) then min (pend (lev s) g u) (f n u l) else pend (lev s) g u)" for u
      using g'(3) [of u] pend1 Cons.prems(3) by auto
    show "keys_kept h (lev s) g g'" if "\<forall>u\<in>set (t # ts). h < f n u l" for h
      using keys_kept_trans [OF kept g'(4)] that by simp
  qed
qed

lemma checks_increase:
  assumes n: "n \<in> D" and top: "lev s n = lc - 1"
  shows "inv s g \<Longrightarrow> set ts \<subseteq> set (nbrs n) \<Longrightarrow> distinct ts \<Longrightarrow>
    \<exists>g'. apply_checks cb s g (map (check_of n l False) ts) = Some g' \<and> inv s g'
      \<and> (\<forall>t. pend (lev s) g' t = (if t \<in> set ts \<and> min (f n t l) (lc - 1) = pend (lev s) g t
            then tgt (lev s) t else pend (lev s) g t))
      \<and> (\<forall>h. (\<forall>t\<in>set ts. min (f n t l) (lc - 1) = pend (lev s) g t
            \<longrightarrow> h < pend (lev s) g t \<and> h < tgt (lev s) t) \<longrightarrow> keys_kept h (lev s) g g')"
proof (induction ts arbitrary: g)
  case Nil
  then show ?case by (simp add: keys_kept_def)
next
  case (Cons t ts)
  have t: "t \<in> set (nbrs n)" and tD: "t \<in> D" using Cons.prems(2) nbrs_in [OF n] by auto
  let ?new = "if min (f n t l) (lc - 1) = pend (lev s) g t then tgt (lev s) t else pend (lev s) g t"
  obtain g1 where g1: "check_neighbor cb s g n t l False = Some g1" "inv s g1"
    "pend (lev s) g1 = (pend (lev s) g)(t := ?new)"
    "\<And>h. ?new = pend (lev s) g t \<or> h < ?new \<and> h < pend (lev s) g t \<Longrightarrow> keys_kept h (lev s) g g1"
    using check_neighbor_increase [OF Cons.prems(1) n t top, of l]
  proof (elim exE disjE conjE)
    fix g1
    assume "check_neighbor cb s g n t l False = Some g1" "pending_update (lev s) g t ?new g1"
    then show thesis
      by (intro that [of g1] inv_update [OF Cons.prems(1) tD] pending_update_pend keys_kept_update)
  next
    assume nb: "check_neighbor cb s g n t l False = Some (refresh_has_work g)" "min (f n t l) (lc - 1) \<noteq> pend (lev s) g t"
    have "key_of (lev s) (refresh_has_work g) = key_of (lev s) g" by (rule key_of_cong) simp
    then have "keys_kept h (lev s) g (refresh_has_work g)" for h by (simp add: keys_kept_def)
    moreover have "pend (lev s) (refresh_has_work g) = pend (lev s) g" by (rule pend_cong) simp
    ultimately show thesis
      using nb Cons.prems(1) by (intro that [of "refresh_has_work g"]) (simp_all add: inv_refresh)
  qed
  obtain g' where g': "apply_checks cb s g1 (map (check_of n l False) ts) = Some g'" "inv s g'"
    "\<And>u. pend (lev s) g' u = (if u \<in> set ts \<and> min (f n u l) (lc - 1) = pend (lev s) g1 u
       then tgt (lev s) u else pend (lev s) g1 u)"
    "\<And>h. \<forall>u\<in>set ts. min (f n u l) (lc - 1) = pend (lev s) g1 u
       \<longrightarrow> h < pend (lev s) g1 u \<and> h < tgt (lev s) u \<Longrightarrow> keys_kept h (lev s) g1 g'"
    using Cons.IH [OF g1(2)] Cons.prems(2,3) by auto
  have same: "pend (lev s) g1 u = pend (lev s) g u" if "u \<in> set ts" for u
    using that g1(3) Cons.prems(3) by auto
  show ?case
  proof (intro exI conjI allI impI)
    show "apply_checks cb s g (map (check_of n l False) (t # ts)) = Some g'"
      using g1(1) g'(1) by (simp add: check_of_def)
    show "inv s g'" by (rule g'(2))
    show "pend (lev s) g' u = (if u \<in> set (t # ts) \<and> min (f n u l) (lc - 1) = pend (lev s) g u
        then tgt (lev s) u else pend (lev s) g u)" for u
    proof (cases "u = t")
      case True
      then show ?thesis using g'(3) [of u] g1(3) Cons.prems(3) by simp
    next
      case False
      then show ?thesis using g'(3) [of u] g1(3) by simp
    qed
    show "keys_kept h (lev s) g g'" if h: "\<forall>u\<in>set (t # ts). min (f n u l) (lc - 1) = pend (lev s) g u
        \<longrightarrow> h < pend (lev s) g u \<and> h < tgt (lev s) u" for h
    proof (rule keys_kept_trans)
      show "keys_kept h (lev s) g g1" by (rule g1(4)) (use h in auto)
      show "keys_kept h (lev s) g1 g'" by (rule g'(4)) (use h same in simp)
    qed
  qed
qed

section \<open>One iteration\<close>

lemma run_step_pop:
  assumes inv: "inv s g" and first: "dg_first_queued_level g < lc"
  obtains n c g1 where "n \<in> D" and "fmlookup (dg_computed_levels g) n = Some c"
    and "min (lev s n) c = dg_first_queued_level g"
    and "queues_ok ((key_of (lev s) g)(n := None)) g1" and "dg_level_count g1 = lc"
    and "dg_computed_levels g1 = fmdrop n (dg_computed_levels g)"
    and "run_step cb s g =
      (if c < lev s n then do {
         s \<leftarrow> cb_set_level cb s n c;
         checks \<leftarrow> cb_neighbor_checks cb s n c True;
         g \<leftarrow> apply_checks cb s g1 checks;
         Some (True, s, g)
       }
       else if lev s n < c then do {
         g \<leftarrow> enqueue g1 n c (graph_key g1 (lc - 1) c);
         s' \<leftarrow> cb_set_level cb s n (dg_level_count g - 1);
         checks \<leftarrow> cb_neighbor_checks cb s' n (lev s n) False;
         g \<leftarrow> apply_checks cb s' g checks;
         Some (True, s', g)
       }
       else Some (True, s, g1))"
proof -
  note i = invD [OF inv]
  have qok: "queues_ok (key_of (lev s) g) g" using i(2) by (simp add: graph_ok_def)
  obtain n q g0 where pop: "lq_pop_first (dg_queues g ! dg_first_queued_level g) = (Some n, q)"
    "key_of (lev s) g n = Some (dg_first_queued_level g)"
    "(if lq_is_empty q
       then check_first_queued_level (g\<lparr>dg_queues := (dg_queues g)[dg_first_queued_level g := q]\<rparr>) (dg_level_count g)
       else Some (g\<lparr>dg_queues := (dg_queues g)[dg_first_queued_level g := q]\<rparr>)) = Some g0"
    "queues_ok ((key_of (lev s) g)(n := None)) g0" "dg_level_count g0 = dg_level_count g"
    "dg_computed_levels g0 = dg_computed_levels g"
    using pop_spec [OF qok] first i(3) lc_bounds by auto
  obtain c where c: "fmlookup (dg_computed_levels g) n = Some c" "min (lev s n) c = dg_first_queued_level g"
    using pop(2) by (auto simp: key_of_def)
  have nD: "n \<in> D" using i(4) c(1) by (auto simp: fmlookup_dom_iff subset_iff)
  have len: "length (dg_queues g) = lc" using qok i(3) by (simp add: queues_ok_def queues_core_def)
  have comp: "computed_level g0 n = c" using c(1) by (simp add: computed_level_def pop(6))
  obtain g1 where g1: "g1 = g0\<lparr>dg_computed_levels := fmdrop n (dg_computed_levels g0)\<rparr>" by simp
  have qok1: "queues_ok ((key_of (lev s) g)(n := None)) g1"
    using pop(4) unfolding g1 by (simp add: queues_ok_def queues_core_def first_upto_def members_def)
  have fields1: "dg_level_count g1 = lc" "dg_computed_levels g1 = fmdrop n (dg_computed_levels g)"
    by (simp_all add: g1 pop(5,6) i(3))
  have "vec_get (dg_queues g) (dg_first_queued_level g) = Some (dg_queues g ! dg_first_queued_level g)"
    using first len by (simp add: vec_get_def)
  moreover have lcs: "dg_level_count (h\<lparr>dg_queues := qs\<rparr>) = dg_level_count h"
    "dg_level_count (h\<lparr>dg_computed_levels := cs\<rparr>) = dg_level_count h" for h qs cs by simp_all
  moreover have "clamp_level (lev s n) lc = lev s n" by (rule clamp_less [OF lev_less [OF i(1)]])
  ultimately have "run_step cb s g =
      (if c < lev s n then do {
         s \<leftarrow> cb_set_level cb s n c;
         checks \<leftarrow> cb_neighbor_checks cb s n c True;
         g \<leftarrow> apply_checks cb s g1 checks;
         Some (True, s, g)
       }
       else if lev s n < c then do {
         g \<leftarrow> enqueue g1 n c (graph_key g1 (lc - 1) c);
         s' \<leftarrow> cb_set_level cb s n (dg_level_count g - 1);
         checks \<leftarrow> cb_neighbor_checks cb s' n (lev s n) False;
         g \<leftarrow> apply_checks cb s' g checks;
         Some (True, s', g)
       }
       else Some (True, s, g1))"
    using pop(3) get_level [OF i(1) nD] comp i(3) pop(5)
    by (simp only: run_step_def Let_def pop(1) bind.bind_lunit option.case prod.case lcs g1 [symmetric])
  with qok1 fields1 show thesis
    using nD c g1 by (intro that [of n c g1]) simp_all
qed

text \<open>How the targets change with the level of one node.\<close>

lemma tgt_unaffected: "n \<notin> set (nbrs t) \<Longrightarrow> tgt (lv(n := l)) t = tgt lv t"
  by (rule nat_eq_by_le) (auto simp: min_target_le)

lemma tgt_lowered:
  assumes "n \<in> D" and "t \<in> set (nbrs n)" and "l \<le> lv n"
  shows "tgt (lv(n := l)) t = min (tgt lv t) (f n t l)"
proof (rule nat_eq_by_le)
  fix k
  have nt: "n \<in> set (nbrs t)" using assms nbrs_sym nbrs_in [OF assms(1)] by blast
  have "f n t l \<le> f n t (lv n)" by (rule f_mono [OF assms])
  then have imp: "\<And>m. m \<in> set (nbrs t) \<Longrightarrow> f m t (lv m) \<le> k \<Longrightarrow> f m t ((lv(n := l)) m) \<le> k" by auto
  show "tgt (lv(n := l)) t \<le> k \<longleftrightarrow> min (tgt lv t) (f n t l) \<le> k"
  proof
    assume "tgt (lv(n := l)) t \<le> k"
    then show "min (tgt lv t) (f n t l) \<le> k"
      by (auto simp: min_target_le min_le_iff_disj split: if_splits)
  next
    assume "min (tgt lv t) (f n t l) \<le> k"
    then show "tgt (lv(n := l)) t \<le> k"
      using nt imp unfolding min_le_iff_disj min_target_le by (metis fun_upd_same)
  qed
qed

lemma tgt_raised_ge:
  assumes "n \<in> D" and "t \<in> D" and "lv n \<le> l"
  shows "tgt lv t \<le> tgt (lv(n := l)) t"
proof -
  have "tgt (lv(n := l)) t \<le> tgt (lv(n := l)) t" by simp
  then consider "lc - 1 \<le> tgt (lv(n := l)) t" | "src t \<le> tgt (lv(n := l)) t"
    | m where "m \<in> set (nbrs t)" "f m t ((lv(n := l)) m) \<le> tgt (lv(n := l)) t"
    unfolding min_target_le [where k = "tgt (lv(n := l)) t"] by blast
  then show ?thesis
  proof cases
    case (3 m)
    then have m: "m \<in> D" "t \<in> set (nbrs m)" using nbrs_in assms(2) nbrs_sym by blast+
    have "f m t (lv m) \<le> f m t ((lv(n := l)) m)" by (rule f_mono [OF m]) (simp add: assms(3))
    with 3 have "f m t (lv m) \<le> tgt (lv(n := l)) t" by simp
    with 3(1) show ?thesis by (auto simp: min_target_le)
  qed (simp_all add: min_target_le)
qed

lemma tgt_raised_same:
  assumes "n \<in> D" and "t \<in> set (nbrs n)" and "lv n \<le> l" and "min (f n t (lv n)) (lc - 1) \<noteq> tgt lv t"
  shows "tgt (lv(n := l)) t = tgt lv t"
proof (rule antisym)
  have tD: "t \<in> D" using assms(1,2) nbrs_in by blast
  have nt: "n \<in> set (nbrs t)" using assms(1,2) tD nbrs_sym by blast
  have "tgt lv t \<le> f n t (lv n)" "tgt lv t \<le> lc - 1" using nt by (auto simp: min_target_le)
  then have less: "tgt lv t < f n t (lv n)" "tgt lv t < lc - 1" using assms(4) by (auto simp: min_def split: if_splits)
  have "tgt lv t \<le> tgt lv t" by simp
  then consider "src t \<le> tgt lv t" | m where "m \<in> set (nbrs t)" "f m t (lv m) \<le> tgt lv t"
    unfolding min_target_le [where k = "tgt lv t"] using less(2) by fastforce
  then show "tgt (lv(n := l)) t \<le> tgt lv t"
  proof cases
    case (2 m)
    then have "m \<noteq> n" using less(1) by auto
    with 2 show ?thesis by (auto simp: min_target_le intro!: bexI [of _ m])
  qed (simp add: min_target_le)
  show "tgt lv t \<le> tgt (lv(n := l)) t" by (rule tgt_raised_ge [where lv = lv, OF assms(1) tD assms(3)])
qed

definition strict_edges :: bool where
  "strict_edges \<longleftrightarrow> (\<forall>n\<in>D. \<forall>t\<in>set (nbrs n). \<forall>l<lc - 1. l < f n t l)"

definition step_progress :: "'s \<Rightarrow> dynamic_graph \<Rightarrow> 's \<Rightarrow> dynamic_graph \<Rightarrow> bool" where
  "step_progress s g s' g' \<longleftrightarrow> suspects tgt D (lev s') g' \<subset> suspects tgt D (lev s) g
     \<or> queue_progress (dg_first_queued_level g) (lev s) g (lev s') g'"

lemma graph_ok_level:
  assumes "graph_ok lv g" and "queues_ok key g1" and "dg_level_count g1 = dg_level_count g"
    and "key_of lv1 g1 = key" and "\<And>m c. fmlookup (dg_computed_levels g1) m = Some c \<Longrightarrow> c < dg_level_count g"
  shows "graph_ok lv1 g1"
  using assms by (auto simp: graph_ok_def)

lemma step_decrease:
  assumes inv: "inv s g" and n: "n \<in> D" and c: "fmlookup (dg_computed_levels g) n = Some c"
    and first: "c = dg_first_queued_level g" and less: "c < lev s n"
    and g1: "queues_ok ((key_of (lev s) g)(n := None)) g1" "dg_level_count g1 = lc"
      "dg_computed_levels g1 = fmdrop n (dg_computed_levels g)"
  shows "\<exists>s' g'. (do {
         s \<leftarrow> cb_set_level cb s n c;
         checks \<leftarrow> cb_neighbor_checks cb s n c True;
         g \<leftarrow> apply_checks cb s g1 checks;
         Some (True, s, g) }) = Some (True, s', g')
     \<and> inv s' g' \<and> suspects tgt D (lev s') g' \<subseteq> suspects tgt D (lev s) g
     \<and> (strict_edges \<longrightarrow> step_progress s g s' g')"
proof -
  note i = invD [OF inv]
  have cl: "c < lc - 1" using less lev_less [OF i(1), of n] by simp
  then obtain s1 where s1: "cb_set_level cb s n c = Some s1" "ok s1" "lev s1 = (lev s)(n := c)"
    using set_level [OF i(1) n, of c] by fastforce
  have key1: "key_of (lev s1) g1 = (key_of (lev s) g)(n := None)"
    by (rule ext) (simp add: key_of_def s1(3) g1(3))
  have pend1: "pend (lev s1) g1 = pend (lev s) g"
    using c by (intro ext) (simp add: pend_def s1(3) g1(3) split: option.split)
  have "graph_ok (lev s1) g1"
    by (rule graph_ok_level [OF i(2) g1(1) _ key1]) (use i g1 in \<open>auto simp: graph_ok_def split: if_splits\<close>)
  then have inv1: "inv s1 g1" using s1 g1 i(4) by (auto simp: graph_inv_def)
  obtain g' where g': "apply_checks cb s1 g1 (map (check_of n c True) (nbrs n)) = Some g'" "inv s1 g'"
    "\<And>t. pend (lev s1) g' t = (if t \<in> set (nbrs n) then min (pend (lev s) g t) (f n t c) else pend (lev s) g t)"
    "\<And>h. \<forall>t\<in>set (nbrs n). h < f n t c \<Longrightarrow> keys_kept h (lev s1) g1 g'"
    using checks_decrease [OF n inv1 order.refl nbrs_distinct [OF n], of c] by (auto simp: pend1)
  have target: "tgt (lev s1) t = (if t \<in> set (nbrs n) then min (tgt (lev s) t) (f n t c) else tgt (lev s) t)"
    if "t \<in> D" for t
    using tgt_lowered [OF n, of t c "lev s"] tgt_unaffected [of n t "lev s" c] less nbrs_sym [OF n that]
    by (auto simp: s1(3))
  have "t \<in> suspects tgt D (lev s) g" if t: "t \<in> suspects tgt D (lev s1) g'" for t
  proof -
    have tD: "t \<in> D" using t by (simp add: suspects_def)
    show ?thesis using t g'(3) [of t] target [OF tD] by (auto simp: suspects_def split: if_splits)
  qed
  then have "suspects tgt D (lev s1) g' \<subseteq> suspects tgt D (lev s) g" by blast
  moreover have "queue_progress c (lev s) g (lev s1) g'" if strict_edges
  proof -
    have "keys_kept c (lev s1) g1 g'" using that n cl by (intro g'(4)) (auto simp: strict_edges_def)
    then have kept: "j \<le> c \<Longrightarrow> key_of (lev s1) g' m = Some j \<Longrightarrow> m \<noteq> n \<and> key_of (lev s) g m = Some j" for m j
      using key1 by (auto simp: keys_kept_def split: if_splits)
    have "key_of (lev s) g n = Some c" using c less by (simp add: key_of_def)
    then show ?thesis using kept by (auto simp: queue_progress_def)
  qed
  ultimately show ?thesis
    using s1 g'(1,2) checks [OF s1(2) n] first by (auto simp: step_progress_def)
qed

lemma step_increase:
  assumes inv: "inv s g" and n: "n \<in> D" and c: "fmlookup (dg_computed_levels g) n = Some c"
    and first: "lev s n = dg_first_queued_level g" and less: "lev s n < c"
    and g1: "queues_ok ((key_of (lev s) g)(n := None)) g1" "dg_level_count g1 = lc"
      "dg_computed_levels g1 = fmdrop n (dg_computed_levels g)"
  shows "\<exists>s' g'. (do {
         g \<leftarrow> enqueue g1 n c (graph_key g1 (lc - 1) c);
         s' \<leftarrow> cb_set_level cb s n (dg_level_count g - 1);
         checks \<leftarrow> cb_neighbor_checks cb s' n (lev s n) False;
         g \<leftarrow> apply_checks cb s' g checks;
         Some (True, s', g) }) = Some (True, s', g')
     \<and> inv s' g' \<and> suspects tgt D (lev s') g' \<subseteq> suspects tgt D (lev s) g
     \<and> (strict_edges \<longrightarrow> step_progress s g s' g')"
proof -
  note i = invD [OF inv]
  let ?l = "lev s n"
  have cl: "c < lc" using i(2,3) c by (auto simp: graph_ok_def)
  have key: "graph_key g1 (lc - 1) c = c" using cl by (simp add: graph_key_def g1(2))
  have "first_upto c ((key_of (lev s) g)(n := None)) g1" "queues_core ((key_of (lev s) g)(n := None)) g1"
    using g1(1) by (auto simp: queues_ok_def first_upto_def)
  then obtain g2 where g2: "enqueue g1 n c c = Some g2" "queues_ok ((key_of (lev s) g)(n := Some c)) g2"
    "dg_level_count g2 = lc" "dg_computed_levels g2 = fmupd n c (dg_computed_levels g)"
    using enqueue_spec [of "(key_of (lev s) g)(n := None)" g1 c n c] cl g1(2,3) fmupd_fmdrop_same [of n c]
    by auto
  obtain s1 where s1: "cb_set_level cb s n (lc - 1) = Some s1" "ok s1" "lev s1 = (lev s)(n := lc - 1)"
    using set_level [OF i(1) n, of "lc - 1"] lc_bounds by fastforce
  have key2: "key_of (lev s1) g2 = (key_of (lev s) g)(n := Some c)"
    using cl by (intro ext) (simp add: key_of_def s1(3) g2(4))
  have pend2: "pend (lev s1) g2 = pend (lev s) g"
    using c by (intro ext) (auto simp: pend_def s1(3) g2(4) split: option.split)
  have "graph_ok (lev s1) g2"
    by (rule graph_ok_level [OF i(2) g2(2) _ key2]) (use i g2 cl in \<open>auto simp: graph_ok_def split: if_splits\<close>)
  then have inv2: "inv s1 g2" using s1 g2 i(4) n by (auto simp: graph_inv_def)
  have top: "lev s1 n = lc - 1" by (simp add: s1(3))
  obtain g' where g': "apply_checks cb s1 g2 (map (check_of n ?l False) (nbrs n)) = Some g'" "inv s1 g'"
    "\<And>t. pend (lev s1) g' t = (if t \<in> set (nbrs n) \<and> min (f n t ?l) (lc - 1) = pend (lev s) g t
       then tgt (lev s1) t else pend (lev s) g t)"
    "\<And>h. \<forall>t\<in>set (nbrs n). min (f n t ?l) (lc - 1) = pend (lev s) g t
       \<longrightarrow> h < pend (lev s) g t \<and> h < tgt (lev s1) t \<Longrightarrow> keys_kept h (lev s1) g2 g'"
    using checks_increase [OF n top inv2 order.refl nbrs_distinct [OF n], of ?l] by (auto simp: pend2)
  have le: "lev s n \<le> lc - 1" using less cl by simp
  have other: "tgt (lev s1) t = tgt (lev s) t" if "t \<in> D" "t \<notin> set (nbrs n)" for t
    using that nbrs_sym [OF n] by (simp add: s1(3) tgt_unaffected)
  have same: "tgt (lev s1) t = tgt (lev s) t"
    if "t \<in> set (nbrs n)" "min (f n t ?l) (lc - 1) \<noteq> tgt (lev s) t" for t
    unfolding s1(3) by (rule tgt_raised_same [where lv = "lev s", OF n that(1) le that(2)])
  have sub: "suspects tgt D (lev s1) g' \<subseteq> suspects tgt D (lev s) g"
  proof
    fix t
    assume t: "t \<in> suspects tgt D (lev s1) g'"
    show "t \<in> suspects tgt D (lev s) g"
    proof (cases "t \<in> set (nbrs n)")
      case False
      then show ?thesis using t g'(3) [of t] other [of t] by (simp add: suspects_def)
    next
      case True
      have trig: "min (f n t ?l) (lc - 1) \<noteq> pend (lev s) g t" "pend (lev s) g t \<noteq> tgt (lev s1) t"
        using t g'(3) [of t] True by (auto simp: suspects_def split: if_splits)
      then have "pend (lev s) g t \<noteq> tgt (lev s) t" using same [OF True] by metis
      with t show ?thesis by (simp add: suspects_def)
    qed
  qed
  have "step_progress s g s1 g'" if strict: strict_edges
  proof (cases "\<exists>t\<in>set (nbrs n). min (f n t ?l) (lc - 1) = pend (lev s) g t \<and> pend (lev s) g t \<noteq> tgt (lev s) t")
    case True
    then obtain t where t: "t \<in> set (nbrs n)" "min (f n t ?l) (lc - 1) = pend (lev s) g t"
      "pend (lev s) g t \<noteq> tgt (lev s) t" by blast
    have tD: "t \<in> D" using t(1) nbrs_in [OF n] by blast
    have "t \<in> suspects tgt D (lev s) g" using t(3) tD by (simp add: suspects_def)
    moreover have "t \<notin> suspects tgt D (lev s1) g'" using t(1,2) g'(3) [of t] by (simp add: suspects_def)
    ultimately show ?thesis using sub by (auto simp: step_progress_def)
  next
    case False
    have high: "?l < pend (lev s) g t \<and> ?l < tgt (lev s1) t"
      if t: "t \<in> set (nbrs n)" "min (f n t ?l) (lc - 1) = pend (lev s) g t" for t
    proof -
      have tD: "t \<in> D" using t(1) nbrs_in [OF n] by blast
      have "?l < f n t ?l" using strict n t(1) less cl by (auto simp: strict_edges_def)
      then have "?l < pend (lev s) g t" using t(2) less cl by simp
      moreover have "pend (lev s) g t = tgt (lev s) t" using False t by blast
      moreover have "tgt (lev s) t \<le> tgt (lev s1) t"
        unfolding s1(3) by (rule tgt_raised_ge [where lv = "lev s", OF n tD le])
      ultimately show ?thesis by simp
    qed
    have "keys_kept ?l (lev s1) g2 g'" by (rule g'(4)) (use high in blast)
    then have kept: "j \<le> ?l \<Longrightarrow> key_of (lev s1) g' m = Some j \<Longrightarrow> m \<noteq> n \<and> key_of (lev s) g m = Some j" for m j
      using key2 less by (auto simp: keys_kept_def split: if_splits)
    have "key_of (lev s) g n = Some ?l" using c less by (simp add: key_of_def)
    then have "queue_progress ?l (lev s) g (lev s1) g'" using kept by (auto simp: queue_progress_def)
    then show ?thesis using first by (simp add: step_progress_def)
  qed
  then show ?thesis
    using s1 g2(1,3) g'(1,2) checks [OF s1(2) n] sub key by auto
qed

lemma step_equal:
  assumes inv: "inv s g" and n: "n \<in> D" and c: "fmlookup (dg_computed_levels g) n = Some (lev s n)"
    and first: "lev s n = dg_first_queued_level g"
    and g1: "queues_ok ((key_of (lev s) g)(n := None)) g1" "dg_level_count g1 = lc"
      "dg_computed_levels g1 = fmdrop n (dg_computed_levels g)"
  shows "inv s g1 \<and> suspects tgt D (lev s) g1 \<subseteq> suspects tgt D (lev s) g \<and> step_progress s g s g1"
proof -
  note i = invD [OF inv]
  have key1: "key_of (lev s) g1 = (key_of (lev s) g)(n := None)"
    by (rule ext) (simp add: key_of_def g1(3))
  have "graph_ok (lev s) g1"
    by (rule graph_ok_level [OF i(2) g1(1) _ key1]) (use i g1 in \<open>auto simp: graph_ok_def split: if_splits\<close>)
  then have "inv s g1" using i g1 by (auto simp: graph_inv_def)
  moreover have "pend (lev s) g1 = pend (lev s) g"
    using c by (intro ext) (simp add: pend_def g1(3) split: option.split)
  moreover have "key_of (lev s) g n = Some (lev s n)" using c by (simp add: key_of_def)
  ultimately show ?thesis
    using key1 first by (auto simp: suspects_def step_progress_def queue_progress_def)
qed

lemma run_step_spec:
  assumes inv: "inv s g" and first: "dg_first_queued_level g < lc"
  shows "\<exists>s' g'. run_step cb s g = Some (True, s', g') \<and> inv s' g'
     \<and> suspects tgt D (lev s') g' \<subseteq> suspects tgt D (lev s) g \<and> (strict_edges \<longrightarrow> step_progress s g s' g')"
proof -
  obtain n c g1 where n: "n \<in> D" "fmlookup (dg_computed_levels g) n = Some c"
    "min (lev s n) c = dg_first_queued_level g"
    and g1: "queues_ok ((key_of (lev s) g)(n := None)) g1" "dg_level_count g1 = lc"
      "dg_computed_levels g1 = fmdrop n (dg_computed_levels g)"
    and step: "run_step cb s g =
      (if c < lev s n then do {
         s \<leftarrow> cb_set_level cb s n c;
         checks \<leftarrow> cb_neighbor_checks cb s n c True;
         g \<leftarrow> apply_checks cb s g1 checks;
         Some (True, s, g)
       }
       else if lev s n < c then do {
         g \<leftarrow> enqueue g1 n c (graph_key g1 (lc - 1) c);
         s' \<leftarrow> cb_set_level cb s n (dg_level_count g - 1);
         checks \<leftarrow> cb_neighbor_checks cb s' n (lev s n) False;
         g \<leftarrow> apply_checks cb s' g checks;
         Some (True, s', g)
       }
       else Some (True, s, g1))"
    using run_step_pop [OF inv first] by blast
  consider "c < lev s n" | "lev s n < c" | "c = lev s n" by linarith
  then show ?thesis
  proof cases
    case 1
    then show ?thesis unfolding step using step_decrease [OF inv n(1,2) _ 1 g1] n(3) by simp
  next
    case 2
    then show ?thesis unfolding step using step_increase [OF inv n(1,2) _ 2 g1] n(3) by simp
  next
    case 3
    then show ?thesis unfolding step using step_equal [OF inv n(1) _ _ g1] n by simp
  qed
qed

section \<open>Running\<close>

text \<open>The loop never panics, keeps the invariant and creates no suspects; left-over budget means
  that the graph is drained.\<close>

lemma run_loop_spec:
  "inv s g \<Longrightarrow> \<exists>r p' s' g'. run_loop cb s g b p = Some (r, p', s', g') \<and> inv s' g'
     \<and> suspects tgt D (lev s') g' \<subseteq> suspects tgt D (lev s) g \<and> (0 < r \<longrightarrow> lc \<le> dg_first_queued_level g')"
proof (induction b arbitrary: s g p)
  case 0
  then show ?case by simp
next
  case (Suc b)
  show ?case
  proof (cases "dg_first_queued_level g < lc")
    case True
    then obtain s1 g1 where s1: "run_step cb s g = Some (True, s1, g1)" "inv s1 g1"
      "suspects tgt D (lev s1) g1 \<subseteq> suspects tgt D (lev s) g"
      using run_step_spec [OF Suc.prems] by blast
    obtain r p' s' g' where "run_loop cb s1 g1 b (p + 1) = Some (r, p', s', g')" "inv s' g'"
      "suspects tgt D (lev s') g' \<subseteq> suspects tgt D (lev s1) g1" "0 < r \<longrightarrow> lc \<le> dg_first_queued_level g'"
      using Suc.IH [OF s1(2)] by blast
    then show ?thesis using True s1 invD(3) [OF Suc.prems] by auto
  next
    case False
    then show ?thesis using Suc.prems invD(3) [OF Suc.prems] by auto
  qed
qed

lemma run_updates_spec:
  assumes inv: "inv s g"
  shows "\<exists>r rep s' g'. graph_run_updates_report cb s g b = Some (r, rep, s', g') \<and> inv s' g'
     \<and> suspects tgt D (lev s') g' \<subseteq> suspects tgt D (lev s) g \<and> (0 < r \<longrightarrow> lc \<le> dg_first_queued_level g')"
proof (cases "lc \<le> dg_first_queued_level g")
  case True
  then show ?thesis using inv invD(3) [OF inv] by (simp add: graph_run_updates_report_def Let_def)
next
  case False
  obtain r p s' g' where run: "run_loop cb s g b 0 = Some (r, p, s', g')" "inv s' g'"
    "suspects tgt D (lev s') g' \<subseteq> suspects tgt D (lev s) g" "0 < r \<longrightarrow> lc \<le> dg_first_queued_level g'"
    using run_loop_spec [OF inv] by blast
  have "pend (lev s') (refresh_has_work g') = pend (lev s') g'" by (rule pend_cong) simp
  then have "suspects tgt D (lev s') (refresh_has_work g') = suspects tgt D (lev s') g'"
    by (simp add: suspects_def)
  then show ?thesis
    using False run invD(3) [OF inv] by (simp add: graph_run_updates_report_def inv_refresh Let_def)
qed

text \<open>A drained graph holds a fixed point on every node that was not suspect.\<close>

lemma drained_fixed_point:
  assumes inv: "inv s g" and "lc \<le> dg_first_queued_level g" and "t \<in> D" and "t \<notin> suspects tgt D (lev s) g"
  shows "lev s t = tgt (lev s) t"
proof -
  have "dg_computed_levels g = fmempty"
    by (rule drained_empty [OF invD(2) [OF inv]]) (simp add: assms(2) invD(3) [OF inv])
  then have "pend (lev s) g t = lev s t" by (simp add: pend_def)
  with assms(3,4) show ?thesis by (simp add: suspects_def)
qed

lemma suspects_update:
  assumes "pending_update lv g n t g'"
  shows "suspects tgt D lv g' \<subseteq> suspects tgt D lv g \<union> {n}"
    and "t = tgt lv n \<Longrightarrow> suspects tgt D lv g' = suspects tgt D lv g - {n}"
  using pending_update_pend [OF assms] by (auto simp: suspects_def)

end

lemma lex_less_at:
  "x < y \<Longrightarrow> length as = length bs \<Longrightarrow> (xs @ x # as, xs @ y # bs) \<in> lex less_than" for x y :: nat
  by (auto simp: lex_conv)

locale strict_min_fixed_point = min_fixed_point +
  assumes finite_nodes: "finite D"
    and strict: "n \<in> D \<Longrightarrow> t \<in> set (nbrs n) \<Longrightarrow> l < lc - 1 \<Longrightarrow> l < f n t l"
begin

lemma strict_edges: strict_edges
  using strict by (simp add: strict_edges_def)

abbreviation waiting :: "'a \<Rightarrow> dynamic_graph \<Rightarrow> nat \<Rightarrow> int set" where
  "waiting s g k \<equiv> {m. key_of (lev s) g m = Some k}"

abbreviation progress_order :: "((nat \<times> nat list) \<times> nat \<times> nat list) set" where
  "progress_order \<equiv> less_than <*lex*> lex less_than"

abbreviation progress_measure :: "'a \<times> dynamic_graph \<Rightarrow> nat \<times> nat list" where
  "progress_measure \<equiv> (\<lambda>(s, g). (card (suspects tgt D (lev s) g), map (\<lambda>k. card (waiting s g k)) [0..<lc]))"

lemma finite_waiting: "finite (waiting s g k)"
proof (rule finite_subset)
  show "waiting s g k \<subseteq> fset (fmdom (dg_computed_levels g))"
    by (auto simp: key_of_def fmlookup_dom_iff)
qed simp

lemma queue_progress_lex:
  assumes inv: "inv s g" and prog: "queue_progress (dg_first_queued_level g) (lev s) g (lev s') g'"
  shows "(map (\<lambda>k. card (waiting s' g' k)) [0..<lc], map (\<lambda>k. card (waiting s g k)) [0..<lc]) \<in> lex less_than"
proof -
  let ?k = "dg_first_queued_level g"
  obtain n where n: "key_of (lev s) g n = Some ?k" "key_of (lev s') g' n \<noteq> Some ?k"
    using prog by (auto simp: queue_progress_def)
  have kl: "?k < lc" using graph_ok_key [OF invD(2) [OF inv] n(1)] invD(3) [OF inv] by simp
  have sub: "waiting s' g' j \<subseteq> waiting s g j" if "j \<le> ?k" for j
    using prog that by (auto simp: queue_progress_def)
  have empty: "waiting s g j = {}" if "j < ?k" for j
    using graph_ok_key [OF invD(2) [OF inv]] that by fastforce
  have split: "[0..<lc] = [0..<?k] @ ?k # [Suc ?k..<lc]"
    using kl by (metis less_imp_le upt_add_eq_append upt_conv_Cons le_add_diff_inverse zero_le)
  have "waiting s' g' j = waiting s g j" if "j < ?k" for j
    using sub [OF less_imp_le [OF that]] empty [OF that] by blast
  then have "map (\<lambda>k. card (waiting s' g' k)) [0..<?k] = map (\<lambda>k. card (waiting s g k)) [0..<?k]"
    by (intro map_cong refl) (simp only: set_upt atLeastLessThan_iff)
  moreover have "card (waiting s' g' ?k) < card (waiting s g ?k)"
    by (rule psubset_card_mono [OF finite_waiting]) (use sub [of ?k] n in auto)
  ultimately show ?thesis
    unfolding split map_append list.map by (simp only: lex_less_at length_map)
qed

lemma step_decreases:
  assumes "inv s g" and "suspects tgt D (lev s') g' \<subseteq> suspects tgt D (lev s) g" and "step_progress s g s' g'"
  shows "(progress_measure (s', g'), progress_measure (s, g)) \<in> progress_order"
proof -
  have fin: "finite (suspects tgt D (lev s) g)"
    by (rule finite_subset [OF _ finite_nodes]) (auto simp: suspects_def)
  have "card (suspects tgt D (lev s') g') \<le> card (suspects tgt D (lev s) g)"
    by (rule card_mono [OF fin assms(2)])
  moreover have "suspects tgt D (lev s') g' \<subset> suspects tgt D (lev s) g
      \<Longrightarrow> card (suspects tgt D (lev s') g') < card (suspects tgt D (lev s) g)"
    by (rule psubset_card_mono [OF fin])
  ultimately show ?thesis
    using assms(3) queue_progress_lex [OF assms(1), of s' g'] by (auto simp: step_progress_def)
qed

lemma wf_progress_order: "wf progress_order"
  by (intro wf_lex_prod wf_less_than wf_lex)

text \<open>Some budget drains the graph, and any larger budget gives the same state.\<close>

lemma run_loop_drains:
  "inv s g \<Longrightarrow> \<exists>b. \<forall>p. \<exists>r p' s' g'. run_loop cb s g b p = Some (r, p', s', g') \<and> lc \<le> dg_first_queued_level g'"
proof (induction "progress_measure (s, g)" arbitrary: s g rule: wf_induct_rule [OF wf_progress_order])
  case (1 s g)
  show ?case
  proof (cases "dg_first_queued_level g < lc")
    case True
    then obtain s1 g1 where s1: "run_step cb s g = Some (True, s1, g1)" "inv s1 g1"
      "suspects tgt D (lev s1) g1 \<subseteq> suspects tgt D (lev s) g" "step_progress s g s1 g1"
      using run_step_spec [OF 1(2)] strict_edges by blast
    have "(progress_measure (s1, g1), progress_measure (s, g)) \<in> progress_order"
      by (rule step_decreases [OF 1(2) s1(3,4)])
    from 1(1) [OF this s1(2)] obtain b where
      b: "\<And>p. \<exists>r p' s' g'. run_loop cb s1 g1 b p = Some (r, p', s', g') \<and> lc \<le> dg_first_queued_level g'" by blast
    have "\<exists>r p' s' g'. run_loop cb s g (Suc b) p = Some (r, p', s', g') \<and> lc \<le> dg_first_queued_level g'" for p
      using True s1(1) b [of "p + 1"] invD(3) [OF 1(2)] by simp
    then show ?thesis by blast
  next
    case False
    then have "\<forall>p. run_loop cb s g 0 p = Some (0, p, s, g) \<and> lc \<le> dg_first_queued_level g" by simp
    then show ?thesis by blast
  qed
qed

lemma run_loop_more:
  "run_loop cb s g b p = Some (r, p', s', g') \<Longrightarrow> dg_level_count g' \<le> dg_first_queued_level g'
    \<Longrightarrow> run_loop cb s g (b + k) p = Some (r + k, p', s', g')"
proof (induction b arbitrary: s g p)
  case 0
  then show ?case by (cases k) auto
next
  case (Suc b)
  show ?case
  proof (cases "dg_first_queued_level g < dg_level_count g")
    case True
    then obtain popped s1 g1 where "run_step cb s g = Some (popped, s1, g1)"
      "run_loop cb s1 g1 b (if popped then p + 1 else p) = Some (r, p', s', g')"
      using Suc.prems(1) by auto
    then show ?thesis using Suc.IH Suc.prems(2) True by auto
  qed (use Suc.prems in auto)
qed

text \<open>There is only one fixed point.\<close>

lemma fixed_point_unique:
  assumes fix1: "\<And>t. t \<in> D \<Longrightarrow> l1 t = tgt l1 t" and fix2: "\<And>t. t \<in> D \<Longrightarrow> l2 t = tgt l2 t" and "t \<in> D"
  shows "l1 t = l2 t"
proof -
  have one: "l t = tgt l t \<Longrightarrow> l t < lc - 1 \<Longrightarrow>
      src t \<le> l t \<or> (\<exists>n\<in>set (nbrs t). l n < l t \<and> f n t (l n) \<le> l t)" if "t \<in> D" for l t
  proof -
    assume l: "l t = tgt l t" "l t < lc - 1"
    have "tgt l t \<le> l t" using l(1) by simp
    then consider "src t \<le> l t" | n where "n \<in> set (nbrs t)" "f n t (l n) \<le> l t"
      unfolding min_target_le using l(2) by fastforce
    then show ?thesis
    proof cases
      case (2 n)
      then have n: "n \<in> D" "t \<in> set (nbrs n)" using nbrs_in nbrs_sym that by blast+
      have "l n < l t"
      proof (rule ccontr)
        assume "\<not> l n < l t"
        then have "f n t (l t) \<le> l t" using f_mono [OF n, of "l t" "l n"] 2(2) by simp
        with strict [OF n l(2)] show False by simp
      qed
      with 2 show ?thesis by blast
    qed simp
  qed
  have "\<forall>t\<in>D. min (l1 t) (l2 t) = k \<longrightarrow> l1 t = l2 t" for k
  proof (induction k rule: less_induct)
    case (less k)
    have half: "lb t \<le> la t" if t: "t \<in> D" and la: "la t = k" and ka: "k \<le> lb t"
      and fa: "la t = tgt la t" and fb: "lb t = tgt lb t"
      and ih: "\<And>m. m \<in> D \<Longrightarrow> min (la m) (lb m) < k \<Longrightarrow> la m = lb m" for la lb t
    proof (cases "la t < lc - 1")
      case True
      from one [OF t fa True] have "tgt lb t \<le> la t"
      proof (elim disjE bexE conjE)
        fix n
        assume n: "n \<in> set (nbrs t)" "la n < la t" "f n t (la n) \<le> la t"
        then have "la n = lb n" using ih [of n] nbrs_in [OF t] la by (auto simp: min_less_iff_disj)
        with n show "tgt lb t \<le> la t" by (auto simp: min_target_le)
      qed (simp add: min_target_le)
      with fb show ?thesis by simp
    next
      case False
      then show ?thesis using tgt_less [of lb t] fb by simp
    qed
    show ?case
    proof (intro ballI impI)
      fix t
      assume t: "t \<in> D" and k: "min (l1 t) (l2 t) = k"
      have ih: "\<And>m. m \<in> D \<Longrightarrow> min (l1 m) (l2 m) < k \<Longrightarrow> l1 m = l2 m" using less.IH by blast
      have ih': "\<And>m. m \<in> D \<Longrightarrow> min (l2 m) (l1 m) < k \<Longrightarrow> l2 m = l1 m"
        using ih by (metis min.commute)
      show "l1 t = l2 t"
      proof (cases "l1 t \<le> l2 t")
        case True
        then have "l2 t \<le> l1 t" using k by (intro half [OF t _ _ fix1 [OF t] fix2 [OF t] ih]) (simp_all add: min_def)
        with True show ?thesis by simp
      next
        case False
        then have "l1 t \<le> l2 t" using k by (intro half [OF t _ _ fix2 [OF t] fix1 [OF t] ih']) (simp_all add: min_def)
        with False show ?thesis by simp
      qed
    qed
  qed
  with \<open>t \<in> D\<close> show ?thesis by blast
qed

end

end
