(* ===== verification/LightGraphClient.thy ===== *)
theory LightGraphClient imports LightFixedPoint
begin

text \<open>
  What every client of \<open>dynamic_graph.rs\<close> gets: as long as levels can be read and written and the
  callbacks stay inside the node space, no graph operation panics, the queues stay consistent with
  the levels, and a run that returns with budget left has drained the queues.  The contract is
  weaker than \<open>min_fixed_point\<close>: a write may be ignored below the top level, neighbours need not be
  symmetric and levels need not fall off along edges.  The sky engine is such a client.
\<close>

text \<open>A run changes the client's state by writes of levels only.\<close>

lemma run_step_frame:
  assumes "\<And>s n l s'. cb_set_level cb s n l = Some s' \<Longrightarrow> R s s'" and "\<And>s. R s s"
    and "run_step cb s g = Some (popped, s', g')"
  shows "R s s'"
  using assms by (auto simp: run_step_def Let_def split: prod.splits option.splits if_splits)

lemma run_loop_frame:
  assumes "\<And>s n l s'. cb_set_level cb s n l = Some s' \<Longrightarrow> R s s'" and "\<And>s. R s s"
    and "\<And>a b c. R a b \<Longrightarrow> R b c \<Longrightarrow> R a c"
  shows "run_loop cb s g b p = Some (r, p', s', g') \<Longrightarrow> R s s'"
proof (induction b arbitrary: s g p)
  case 0
  then show ?case using assms(2) by simp
next
  case (Suc b)
  show ?case
  proof (cases "dg_first_queued_level g < dg_level_count g")
    case True
    then obtain popped s1 g1 where step: "run_step cb s g = Some (popped, s1, g1)"
      "run_loop cb s1 g1 b (if popped then p + 1 else p) = Some (r, p', s', g')"
      using Suc.prems by auto
    show ?thesis by (rule assms(3) [OF run_step_frame [of cb R, OF assms(1,2) step(1)] Suc.IH [OF step(2)]])
  next
    case False
    then show ?thesis using Suc.prems assms(2) by simp
  qed
qed

lemma run_report_frame:
  assumes "\<And>s n l s'. cb_set_level cb s n l = Some s' \<Longrightarrow> R s s'" and "\<And>s. R s s"
    and "\<And>a b c. R a b \<Longrightarrow> R b c \<Longrightarrow> R a c"
    and "graph_run_updates_report cb s g b = Some (r, rep, s', g')"
  shows "R s s'"
  using assms(4) run_loop_frame [of cb R, OF assms(1-3)]
  by (auto simp: graph_run_updates_report_def Let_def assms(2) split: if_splits)

locale graph_client =
  fixes cb :: "'s graph_callbacks"
    and ok :: "'s \<Rightarrow> bool"
    and lev :: "'s \<Rightarrow> int \<Rightarrow> nat"
    and D T X :: "int set"
    and lc :: nat
  assumes client_bounds: "2 \<le> lc" "lc < 254"
    and client_lev_less: "ok s \<Longrightarrow> lev s n < lc"
    and client_get_level: "ok s \<Longrightarrow> n \<in> D \<Longrightarrow> cb_get_level cb s n = Some (lev s n)"
    and client_set_level: "ok s \<Longrightarrow> n \<in> D \<Longrightarrow> l < lc
      \<Longrightarrow> \<exists>s'. cb_set_level cb s n l = Some s' \<and> ok s' \<and> (\<forall>m\<in>D. m \<noteq> n \<longrightarrow> lev s' m = lev s m)
            \<and> (l = lc - 1 \<longrightarrow> lev s' n = l)"
    and client_not_source: "ok s \<Longrightarrow> n \<in> D \<Longrightarrow> \<not> cb_is_source cb s n"
    and client_nodes: "D \<subseteq> T"
    and client_source: "ok s \<Longrightarrow> n \<in> T \<Longrightarrow> n \<notin> D \<Longrightarrow> cb_is_source cb s n \<and> (\<exists>l. cb_get_level cb s n = Some l)"
    and client_checks: "ok s \<Longrightarrow> n \<in> D \<Longrightarrow> \<exists>cs. cb_neighbor_checks cb s n l d = Some cs
            \<and> (\<forall>c\<in>set cs. nc_source c \<in> X \<and> nc_target c \<in> T)"
    and client_computed: "ok s \<Longrightarrow> t \<in> D \<Longrightarrow> x \<in> X \<Longrightarrow> c < lc \<Longrightarrow> \<exists>v. cb_get_computed_level cb s t x c = Some v"
begin

abbreviation cinv :: "'s \<Rightarrow> dynamic_graph \<Rightarrow> bool" where
  "cinv \<equiv> graph_inv ok lev D lc"

lemma cinvD:
  assumes "cinv s g"
  shows "ok s" and "graph_ok (lev s) g" and "dg_level_count g = lc" and "fset (fmdom (dg_computed_levels g)) \<subseteq> D"
  using assms by (simp_all add: graph_inv_def)

lemma cinv_update:
  assumes "cinv s g" and "n \<in> D" and "pending_update (lev s) g n t g'"
  shows "cinv s g'"
proof -
  have "n' \<in> D" if "fmlookup (dg_computed_levels g') n' = Some c" for n' c
    using assms that by (cases "n' = n") (auto simp: pending_update_def graph_inv_def fmlookup_dom_iff subset_iff)
  then show ?thesis
    using assms by (auto simp: graph_inv_def pending_update_def fmlookup_dom_iff)
qed

lemma cinv_refresh [simp]: "cinv s (refresh_has_work g) = cinv s g"
  by (simp add: graph_inv_def)

lemma clamp_bound: "clamp_level l lc < lc"
  using client_bounds by (simp add: clamp_level_def)

lemma cpend_less: "cinv s g \<Longrightarrow> pend (lev s) g n < lc"
  using client_lev_less [of s n] by (auto simp: pend_def graph_inv_def graph_ok_def split: option.split)

lemma check_with_levels_total:
  assumes inv: "cinv s g" and t: "t \<in> D" and x: "x \<in> X"
  shows "\<exists>g'. check_edge_with_levels cb s g x t c (lev s t) (computed_level g t) d = Some g' \<and> cinv s g'"
proof -
  note i = cinvD [OF inv]
  obtain v where v: "cb_get_computed_level cb s t x (clamp_level c lc) = Some v" using client_computed [OF i(1) t x clamp_bound] by blast
  have "\<exists>g'. check_edge_with_levels cb s g x t c (lev s t) (computed_level g t) d = Some g'
      \<and> pending_update (lev s) g t (if d then min (pend (lev s) g t) (clamp_level c lc) else clamp_level v lc) g'"
    by (rule check_edge_with_levels_spec)
      (use i t v client_not_source client_lev_less clamp_bound in \<open>auto simp: min_less_iff_disj\<close>)
  then show ?thesis using cinv_update [OF inv t] by blast
qed

lemma check_source_total:
  assumes inv: "cinv s g" and t: "t \<in> T" "t \<notin> D"
  shows "check_edge_with_levels cb s g x t c l k d = Some g" and "\<exists>l. cb_get_level cb s t = Some l"
  using client_source [OF cinvD(1) [OF inv] t] by (simp_all add: check_edge_with_levels_def)

lemma check_edge_total:
  assumes inv: "cinv s g" and t: "t \<in> T" and x: "x \<in> X"
  shows "\<exists>g'. check_edge cb s g x t c d = Some g' \<and> cinv s g'
    \<and> (dg_has_work g' \<longleftrightarrow> dg_first_queued_level g' < lc)"
proof -
  obtain l g' where g': "cb_get_level cb s t = Some l"
    "check_edge_with_levels cb s g x t c l (computed_level g t) d = Some g'" "cinv s g'"
    using check_with_levels_total [OF inv _ x, of t c d] client_get_level [OF cinvD(1) [OF inv], of t]
      check_source_total [OF inv t] inv by (cases "t \<in> D") blast+
  have "check_edge cb s g x t c d = Some (refresh_has_work g')"
    using g'(1,2) by (simp add: check_edge_def)
  moreover have "dg_has_work (refresh_has_work g') \<longleftrightarrow> dg_first_queued_level g' < lc"
    using cinvD(3) [OF g'(3)] by (simp add: refresh_has_work_def)
  ultimately show ?thesis using g'(3) by simp
qed

lemma check_neighbor_total:
  assumes inv: "cinv s g" and t: "t \<in> T" and x: "x \<in> X"
  shows "\<exists>g'. check_neighbor cb s g x t l d = Some g' \<and> cinv s g'"
proof (cases "t \<in> D")
  case False
  then obtain k where "cb_get_level cb s t = Some k"
    using check_source_total(2) [OF inv t] by blast
  then have "check_neighbor cb s g x t l d = Some (refresh_has_work g)"
    using check_source_total(1) [OF inv t False] by (simp add: check_neighbor_def Let_def del: bind_eq_Some)
  then show ?thesis using inv by simp
next
  case tD: True
  note i = cinvD [OF inv]
  show ?thesis
  proof (cases d)
    case True
    then show ?thesis
      using check_with_levels_total [OF inv tD x] client_get_level [OF i(1) tD] by (fastforce simp: check_neighbor_def)
  next
    case False
    have clamp: "clamp_level (lev s t) lc = lev s t"
      using client_lev_less [OF i(1), of t] by (simp add: clamp_level_def)
    obtain nl where nl: "nl = clamp_level (cb_compute_from_neighbor cb s x t l) lc" by simp
    have "check_neighbor cb s g x t l d = do {
        g \<leftarrow> (if nl = (if computed_level g t = 255 then lev s t else computed_level g t)
          then check_edge_with_levels cb s g x t (lc - 1) (lev s t) (computed_level g t) False else Some g);
        Some (refresh_has_work g) }"
      using False client_get_level [OF i(1) tD] clamp by (auto simp add: check_neighbor_def i(3) nl Let_def)
    then show ?thesis
      using check_with_levels_total [OF inv tD x, of "lc - 1" False] inv
      by (cases "nl = (if computed_level g t = 255 then lev s t else computed_level g t)") auto
  qed
qed

lemma apply_checks_total:
  "cinv s g \<Longrightarrow> \<forall>c\<in>set cs. nc_source c \<in> X \<and> nc_target c \<in> T \<Longrightarrow> \<exists>g'. apply_checks cb s g cs = Some g' \<and> cinv s g'"
proof (induction cs arbitrary: g)
  case Nil
  then show ?case by simp
next
  case (Cons c cs)
  obtain g1 where "check_neighbor cb s g (nc_source c) (nc_target c) (nc_level c) (nc_is_decrease c) = Some g1" "cinv s g1"
    using check_neighbor_total [OF Cons.prems(1)] Cons.prems(2) by fastforce
  then show ?case using Cons by auto
qed

section \<open>Serving the queues\<close>

text \<open>After a node has been taken out, its level may be written; the other keys do not move.\<close>

lemma popped_inv:
  assumes inv: "cinv s g" and s': "ok s'" "\<And>m. m \<in> D \<Longrightarrow> m \<noteq> n \<Longrightarrow> lev s' m = lev s m"
    and g1: "queues_ok ((key_of (lev s) g)(n := None)) g1" "dg_level_count g1 = lc"
      "dg_computed_levels g1 = fmdrop n (dg_computed_levels g)"
  shows "cinv s' g1"
proof -
  note i = cinvD [OF inv]
  have "key_of (lev s') g1 m = ((key_of (lev s) g)(n := None)) m" for m
    using s'(2) [of m] i(4) by (cases "fmlookup (dg_computed_levels g) m") (auto simp: key_of_def g1(3) fmlookup_dom_iff subset_iff)
  then have "key_of (lev s') g1 = (key_of (lev s) g)(n := None)" by blast
  then have "graph_ok (lev s') g1"
    using i(2,3) g1 by (auto simp: graph_ok_def split: if_splits)
  then show ?thesis using s'(1) g1 i(4) by (auto simp: graph_inv_def)
qed

lemma raised_inv:
  assumes inv: "cinv s g" and n: "n \<in> D" and c: "c < lc"
    and s': "ok s'" "\<And>m. m \<in> D \<Longrightarrow> m \<noteq> n \<Longrightarrow> lev s' m = lev s m" "lev s' n = lc - 1"
    and g1: "queues_ok ((key_of (lev s) g)(n := None)) g1" "dg_level_count g1 = lc"
      "dg_computed_levels g1 = fmdrop n (dg_computed_levels g)"
  shows "\<exists>g2. enqueue g1 n c (graph_key g1 (lc - 1) c) = Some g2 \<and> cinv s' g2"
proof -
  note i = cinvD [OF inv]
  have key: "graph_key g1 (lc - 1) c = c" using c by (simp add: graph_key_def g1(2))
  have "first_upto c ((key_of (lev s) g)(n := None)) g1" "queues_core ((key_of (lev s) g)(n := None)) g1"
    using g1(1) by (auto simp: queues_ok_def first_upto_def)
  then obtain g2 where g2: "enqueue g1 n c c = Some g2" "queues_ok ((key_of (lev s) g)(n := Some c)) g2"
    "dg_level_count g2 = lc" "dg_computed_levels g2 = fmupd n c (fmdrop n (dg_computed_levels g))"
    using enqueue_spec [of "(key_of (lev s) g)(n := None)" g1 c n c] c g1(2,3) by auto
  have "key_of (lev s') g2 m = ((key_of (lev s) g)(n := Some c)) m" for m
    using s'(2) [of m] s'(3) i(4) c
    by (cases "fmlookup (dg_computed_levels g) m") (auto simp: key_of_def g2(4) fmlookup_dom_iff subset_iff)
  then have "key_of (lev s') g2 = (key_of (lev s) g)(n := Some c)" by blast
  then have "graph_ok (lev s') g2"
    using i(2,3) g2 c by (auto simp: graph_ok_def split: if_splits)
  moreover have "fset (fmdom (dg_computed_levels g2)) \<subseteq> D" using i(4) n by (auto simp: g2(4))
  ultimately have "cinv s' g2" using s'(1) g2(3) by (simp add: graph_inv_def)
  then show ?thesis using g2(1) key by simp
qed

lemma run_step_total:
  assumes inv: "cinv s g" and first: "dg_first_queued_level g < lc"
  shows "\<exists>s' g'. run_step cb s g = Some (True, s', g') \<and> cinv s' g'"
proof -
  note i = cinvD [OF inv]
  have qok: "queues_ok (key_of (lev s) g) g" using i(2) by (simp add: graph_ok_def)
  obtain n q g0 where pop: "lq_pop_first (dg_queues g ! dg_first_queued_level g) = (Some n, q)"
    "key_of (lev s) g n = Some (dg_first_queued_level g)"
    "(if lq_is_empty q
       then check_first_queued_level (g\<lparr>dg_queues := (dg_queues g)[dg_first_queued_level g := q]\<rparr>) (dg_level_count g)
       else Some (g\<lparr>dg_queues := (dg_queues g)[dg_first_queued_level g := q]\<rparr>)) = Some g0"
    "queues_ok ((key_of (lev s) g)(n := None)) g0" "dg_level_count g0 = dg_level_count g"
    "dg_computed_levels g0 = dg_computed_levels g"
    using pop_spec [OF qok] first i(3) client_bounds by auto
  obtain c where c: "fmlookup (dg_computed_levels g) n = Some c" "c < lc"
    using pop(2) i(2,3) by (auto simp: key_of_def graph_ok_def)
  have nD: "n \<in> D" using i(4) c(1) by (auto simp: fmlookup_dom_iff subset_iff)
  have len: "length (dg_queues g) = lc" using qok i(3) by (simp add: queues_ok_def queues_core_def)
  have comp: "computed_level g0 n = c" using c(1) by (simp add: computed_level_def pop(6))
  define g1 where "g1 = g0\<lparr>dg_computed_levels := fmdrop n (dg_computed_levels g0)\<rparr>"
  have g1: "queues_ok ((key_of (lev s) g)(n := None)) g1" "dg_level_count g1 = lc"
    "dg_computed_levels g1 = fmdrop n (dg_computed_levels g)"
    using pop(4) by (simp_all add: g1_def queues_ok_def queues_core_def first_upto_def members_def pop(5,6) i(3))
  have "vec_get (dg_queues g) (dg_first_queued_level g) = Some (dg_queues g ! dg_first_queued_level g)"
    using first len by (simp add: vec_get_def)
  moreover have lcs: "dg_level_count (h\<lparr>dg_queues := qs\<rparr>) = dg_level_count h"
    "dg_level_count (h\<lparr>dg_computed_levels := cs\<rparr>) = dg_level_count h" for h qs cs by simp_all
  moreover have "clamp_level (lev s n) lc = lev s n"
    using client_lev_less [OF i(1), of n] by (simp add: clamp_level_def)
  ultimately have step: "run_step cb s g =
      (if c < lev s n then do {
         s \<leftarrow> cb_set_level cb s n c;
         checks \<leftarrow> cb_neighbor_checks cb s n c True;
         g \<leftarrow> apply_checks cb s g1 checks;
         Some (True, s, g)
       }
       else if lev s n < c then do {
         g \<leftarrow> enqueue g1 n c (graph_key g1 (lc - 1) c);
         s' \<leftarrow> cb_set_level cb s n (dg_level_count g - 1);
         checks \<leftarrow> cb_neighbor_checks cb s' n (lev s n) False;
         g \<leftarrow> apply_checks cb s' g checks;
         Some (True, s', g)
       }
       else Some (True, s, g1))"
    using pop(3) client_get_level [OF i(1) nD] comp i(3) pop(5)
    by (simp only: run_step_def Let_def pop(1) bind.bind_lunit option.case prod.case lcs g1_def [symmetric])
  consider "c < lev s n" | "lev s n < c" | "c = lev s n" by linarith
  then show ?thesis
  proof cases
    case 1
    obtain s1 where s1: "cb_set_level cb s n c = Some s1" "ok s1" "\<forall>m\<in>D. m \<noteq> n \<longrightarrow> lev s1 m = lev s m"
      using client_set_level [OF i(1) nD c(2)] by blast
    have inv1: "cinv s1 g1" by (rule popped_inv [OF inv s1(2) _ g1]) (use s1(3) in blast)
    obtain cs where "cb_neighbor_checks cb s1 n c True = Some cs" "\<forall>c\<in>set cs. nc_source c \<in> X \<and> nc_target c \<in> T"
      using client_checks [OF s1(2) nD] by blast
    then show ?thesis using step 1 s1(1) apply_checks_total [OF inv1, of cs] by auto
  next
    case 2
    have "lc - 1 < lc" using client_bounds by simp
    then obtain s1 where s1: "cb_set_level cb s n (lc - 1) = Some s1" "ok s1" "\<forall>m\<in>D. m \<noteq> n \<longrightarrow> lev s1 m = lev s m"
      "lev s1 n = lc - 1"
      using client_set_level [OF i(1) nD] by blast
    obtain g2 where g2: "enqueue g1 n c (graph_key g1 (lc - 1) c) = Some g2" "cinv s1 g2"
      using raised_inv [OF inv nD c(2) s1(2) _ s1(4) g1] s1(3) by blast
    obtain cs where "cb_neighbor_checks cb s1 n (lev s n) False = Some cs" "\<forall>c\<in>set cs. nc_source c \<in> X \<and> nc_target c \<in> T"
      using client_checks [OF s1(2) nD] by blast
    moreover obtain g' where "apply_checks cb s1 g2 cs = Some g'" "cinv s1 g'"
      using apply_checks_total [OF g2(2), of cs] calculation by blast
    moreover have "dg_level_count g2 - 1 = lc - 1" using cinvD(3) [OF g2(2)] by simp
    ultimately have "run_step cb s g = Some (True, s1, g')" using step 2 s1(1) g2(1) by (simp only: if_True if_False bind.bind_lunit not_less_iff_gr_or_eq simp_thms) simp
    then show ?thesis using \<open>cinv s1 g'\<close> by blast
  next
    case 3
    then show ?thesis using step popped_inv [OF inv i(1) _ g1] by auto
  qed
qed

lemma run_loop_total:
  "cinv s g \<Longrightarrow> \<exists>r p' s' g'. run_loop cb s g b p = Some (r, p', s', g') \<and> cinv s' g'
     \<and> (0 < r \<longrightarrow> lc \<le> dg_first_queued_level g') \<and> r \<le> b \<and> p' + r = p + b"
proof (induction b arbitrary: s g p)
  case 0
  then show ?case by simp
next
  case (Suc b)
  show ?case
  proof (cases "dg_first_queued_level g < lc")
    case True
    then obtain s1 g1 where s1: "run_step cb s g = Some (True, s1, g1)" "cinv s1 g1"
      using run_step_total [OF Suc.prems] by blast
    then show ?thesis using Suc.IH [OF s1(2), of "p + 1"] True cinvD(3) [OF Suc.prems] by fastforce
  next
    case False
    then show ?thesis using Suc.prems cinvD(3) [OF Suc.prems] by auto
  qed
qed

lemma run_report_total:
  assumes inv: "cinv s g"
  shows "\<exists>r rep s' g'. graph_run_updates_report cb s g b = Some (r, rep, s', g') \<and> cinv s' g'
     \<and> (0 < r \<longrightarrow> lc \<le> dg_first_queued_level g') \<and> gr_processed_nodes rep + r = b
     \<and> ((dg_has_work g \<longleftrightarrow> dg_first_queued_level g < lc) \<longrightarrow> (dg_has_work g' \<longleftrightarrow> dg_first_queued_level g' < lc))"
proof (cases "lc \<le> dg_first_queued_level g")
  case True
  then show ?thesis using inv cinvD(3) [OF inv] by (simp add: graph_run_updates_report_def Let_def)
next
  case False
  obtain r p s' g' where run: "run_loop cb s g b 0 = Some (r, p, s', g')" "cinv s' g'"
    "0 < r \<longrightarrow> lc \<le> dg_first_queued_level g'" "p + r = b"
    using run_loop_total [OF inv, of b 0] by auto
  moreover have "dg_has_work (refresh_has_work g') \<longleftrightarrow> dg_first_queued_level g' < lc"
    using cinvD(3) [OF run(2)] by (simp add: refresh_has_work_def)
  ultimately show ?thesis
    using False cinvD(3) [OF inv] by (simp add: graph_run_updates_report_def Let_def)
qed

lemma cinv_drained:
  assumes "cinv s g" and "lc \<le> dg_first_queued_level g"
  shows "dg_computed_levels g = fmempty"
  by (rule drained_empty [OF cinvD(2) [OF assms(1)]]) (simp add: assms(2) cinvD(3) [OF assms(1)])

section \<open>Taking nodes out of the queues\<close>

lemma remove_from_queue_total:
  assumes inv: "cinv s g" and n: "n |\<in>| fmdom (dg_computed_levels g) \<Longrightarrow> n \<in> D"
  shows "\<exists>g'. remove_from_queue cb s g n = Some g' \<and> cinv s g'
     \<and> dg_computed_levels g' = fmdrop n (dg_computed_levels g)
     \<and> ((dg_has_work g \<longleftrightarrow> dg_first_queued_level g < lc) \<longrightarrow> (dg_has_work g' \<longleftrightarrow> dg_first_queued_level g' < lc))"
proof (cases "fmlookup (dg_computed_levels g) n")
  case None
  then have "fmdrop n (dg_computed_levels g) = dg_computed_levels g" by (intro fmap_ext) simp
  then show ?thesis
    using None inv computed_level_eq(1) [OF cinvD(2) [OF inv], of n] by (simp add: remove_from_queue_def)
next
  case (Some c)
  note i = cinvD [OF inv]
  have nD: "n \<in> D" using n Some by (simp add: fmlookup_dom_iff)
  have c: "c < lc" using i(2,3) Some by (auto simp: graph_ok_def)
  have comp: "computed_level g n = c" "c < lc" "c \<noteq> 255"
    using computed_level_eq(2) [OF i(2) Some] c client_bounds by simp_all
  have lt: "lev s n < lc" by (rule client_lev_less [OF i(1)])
  have key: "graph_key g (lev s n) c = min (lev s n) c" using lt i(3) by (simp add: graph_key_eq)
  have qok: "queues_ok (key_of (lev s) g) g" and kn: "key_of (lev s) g n = Some (min (lev s n) c)"
    using i(2) Some by (simp_all add: graph_ok_def key_of_def)
  obtain g1 where g1: "dequeue g n (min (lev s n) c) lc True = Some g1"
    "queues_core ((key_of (lev s) g)(n := None)) g1" "first_upto lc ((key_of (lev s) g)(n := None)) g1"
    "dg_level_count g1 = lc" "dg_computed_levels g1 = fmdrop n (dg_computed_levels g)"
    using dequeue_spec [OF qok kn, of lc True] i(3) client_bounds by auto
  have q1: "queues_ok ((key_of (lev s) g)(n := None)) g1" using g1(2,3,4) by (simp add: queues_ok_def)
  have inv1: "cinv s g1" by (rule popped_inv [OF inv i(1) _ q1 g1(4,5)]) simp
  have "remove_from_queue cb s g n = Some (refresh_has_work g1)"
    using comp client_get_level [OF i(1) nD] i(3) key g1(1) by (simp add: remove_from_queue_def Let_def)
  moreover have "dg_has_work (refresh_has_work g1) \<longleftrightarrow> dg_first_queued_level g1 < lc"
    using g1(4) by (simp add: refresh_has_work_def)
  ultimately show ?thesis using inv1 g1(5) by simp
qed

lemma remove_nodes_total:
  "cinv s g \<Longrightarrow> \<exists>g'. remove_nodes cb s g ns = Some g' \<and> cinv s g'
     \<and> (\<forall>m. fmlookup (dg_computed_levels g') m = (if m \<in> set ns then None else fmlookup (dg_computed_levels g) m))
     \<and> ((dg_has_work g \<longleftrightarrow> dg_first_queued_level g < lc) \<longrightarrow> (dg_has_work g' \<longleftrightarrow> dg_first_queued_level g' < lc))"
proof (induction ns arbitrary: g)
  case Nil
  then show ?case by simp
next
  case (Cons n ns)
  obtain g1 where g1: "remove_from_queue cb s g n = Some g1" "cinv s g1"
    "dg_computed_levels g1 = fmdrop n (dg_computed_levels g)"
    "(dg_has_work g \<longleftrightarrow> dg_first_queued_level g < lc) \<longrightarrow> (dg_has_work g1 \<longleftrightarrow> dg_first_queued_level g1 < lc)"
    using remove_from_queue_total [OF Cons.prems] cinvD(4) [OF Cons.prems] by blast
  obtain g2 where "remove_nodes cb s g1 ns = Some g2" "cinv s g2"
    "\<forall>m. fmlookup (dg_computed_levels g2) m = (if m \<in> set ns then None else fmlookup (dg_computed_levels g1) m)"
    "(dg_has_work g1 \<longleftrightarrow> dg_first_queued_level g1 < lc) \<longrightarrow> (dg_has_work g2 \<longleftrightarrow> dg_first_queued_level g2 < lc)"
    using Cons.IH [OF g1(2)] by blast
  then show ?case using g1 by (intro exI [of _ g2]) auto
qed

lemma remove_if_total:
  assumes "cinv s g"
  shows "\<exists>g'. remove_if cb s g P = Some g' \<and> cinv s g'
     \<and> (\<forall>m. fmlookup (dg_computed_levels g') m = (if P m then None else fmlookup (dg_computed_levels g) m))
     \<and> ((dg_has_work g \<longleftrightarrow> dg_first_queued_level g < lc) \<longrightarrow> (dg_has_work g' \<longleftrightarrow> dg_first_queued_level g' < lc))"
proof -
  obtain g' where g': "remove_if cb s g P = Some g'" "cinv s g'"
    "\<forall>m. fmlookup (dg_computed_levels g') m
      = (if m \<in> set (filter P (sorted_list_of_fset (fmdom (dg_computed_levels g)))) then None
         else fmlookup (dg_computed_levels g) m)"
    "(dg_has_work g \<longleftrightarrow> dg_first_queued_level g < lc) \<longrightarrow> (dg_has_work g' \<longleftrightarrow> dg_first_queued_level g' < lc)"
    using remove_nodes_total [OF assms] unfolding remove_if_def by blast
  have "fmlookup (dg_computed_levels g') m = (if P m then None else fmlookup (dg_computed_levels g) m)" for m
    using g'(3) by (cases "fmlookup (dg_computed_levels g) m") (auto simp: fmlookup_dom_iff)
  then show ?thesis using g' by blast
qed

text \<open>The storage may change under the graph as long as the pending nodes keep their levels.\<close>

lemma cinv_storage:
  assumes "cinv s g" and "ok s'" and "\<And>n. n |\<in>| fmdom (dg_computed_levels g) \<Longrightarrow> lev s' n = lev s n"
  shows "cinv s' g"
proof -
  have "key_of (lev s') g n = key_of (lev s) g n" for n
    using assms(3) [of n] by (cases "fmlookup (dg_computed_levels g) n") (auto simp: key_of_def fmlookup_dom_iff)
  then have "key_of (lev s') g = key_of (lev s) g" by blast
  then show ?thesis using assms(1,2) by (auto simp: graph_inv_def graph_ok_def)
qed

end

text \<open>Every flood fill with a minimum as its recomputation is such a client.\<close>

sublocale min_fixed_point < client: graph_client cb ok lev D D D lc
proof unfold_locales
  show "2 \<le> lc" "lc < 254" by (rule lc_bounds)+
  show "D \<subseteq> D" by simp
  fix s n t x l c d
  assume ok: "ok s"
  show "lev s n < lc" by (rule lev_less [OF ok])
  show "n \<in> D \<Longrightarrow> cb_get_level cb s n = Some (lev s n)" by (rule get_level [OF ok])
  show "n \<in> D \<Longrightarrow> l < lc \<Longrightarrow> \<exists>s'. cb_set_level cb s n l = Some s' \<and> ok s' \<and> (\<forall>m\<in>D. m \<noteq> n \<longrightarrow> lev s' m = lev s m)
      \<and> (l = lc - 1 \<longrightarrow> lev s' n = l)"
    using set_level [OF ok, of n l] by auto
  show "n \<in> D \<Longrightarrow> \<not> cb_is_source cb s n" by (rule not_source [OF ok])
  show "n \<in> D \<Longrightarrow> n \<notin> D \<Longrightarrow> cb_is_source cb s n \<and> (\<exists>l. cb_get_level cb s n = Some l)" by simp
  show "n \<in> D \<Longrightarrow> \<exists>cs. cb_neighbor_checks cb s n l d = Some cs
      \<and> (\<forall>c\<in>set cs. nc_source c \<in> D \<and> nc_target c \<in> D)"
    using checks [OF ok, of n l d] nbrs_in [of n] by (fastforce simp: check_of_def)
  show "t \<in> D \<Longrightarrow> x \<in> D \<Longrightarrow> c < lc \<Longrightarrow> \<exists>v. cb_get_computed_level cb s t x c = Some v"
    using computed [OF ok] by blast
qed

end
