(* ===== verification/LightReports.thy ===== *)
theory LightReports imports LightGraph
begin

text \<open>
  Run reports of \<open>native/crates/mclone-light/src/level_engine.rs\<close>.  The elapsed times are those of
  a build without the \<open>perf-diagnostics\<close> feature, where \<open>timing_elapsed_us\<close> returns zero.
\<close>

record light_engine_run_report =
  ler_graph :: graph_run_report
  ler_source_update_count :: nat
  ler_source_updates_us :: nat
  ler_graph_us :: nat
  ler_storage_swap_us :: nat
  ler_affected_sections :: nat

record light_layer_run_report =
  llr_calls :: nat
  llr_processed_nodes :: nat
  llr_queue_before :: nat
  llr_queue_after :: nat
  llr_run_updates_us :: nat
  llr_source_update_count :: nat
  llr_source_updates_us :: nat
  llr_graph_us :: nat
  llr_storage_swap_us :: nat
  llr_affected_sections :: nat

definition timing_elapsed_us :: nat where
  "timing_elapsed_us = 0"

definition light_layer_run_report_default :: light_layer_run_report where
  "light_layer_run_report_default = \<lparr>llr_calls = 0, llr_processed_nodes = 0, llr_queue_before = 0,
     llr_queue_after = 0, llr_run_updates_us = 0, llr_source_update_count = 0, llr_source_updates_us = 0,
     llr_graph_us = 0, llr_storage_swap_us = 0, llr_affected_sections = 0\<rparr>"

definition record_call :: "light_layer_run_report \<Rightarrow> light_engine_run_report \<Rightarrow> nat \<Rightarrow> light_layer_run_report" where
  "record_call r report run_updates_us = r\<lparr>
     llr_queue_before := max (llr_queue_before r) (gr_queue_before (ler_graph report)),
     llr_calls := llr_calls r + 1,
     llr_processed_nodes := llr_processed_nodes r + gr_processed_nodes (ler_graph report),
     llr_queue_after := gr_queue_after (ler_graph report),
     llr_run_updates_us := llr_run_updates_us r + run_updates_us,
     llr_source_update_count := llr_source_update_count r + ler_source_update_count report,
     llr_source_updates_us := llr_source_updates_us r + ler_source_updates_us report,
     llr_graph_us := llr_graph_us r + ler_graph_us report,
     llr_storage_swap_us := llr_storage_swap_us r + ler_storage_swap_us report,
     llr_affected_sections := llr_affected_sections r + ler_affected_sections report\<rparr>"

definition layer_add_assign :: "light_layer_run_report \<Rightarrow> light_layer_run_report \<Rightarrow> light_layer_run_report" where
  "layer_add_assign r other = r\<lparr>
     llr_queue_before := max (llr_queue_before r) (llr_queue_before other),
     llr_calls := llr_calls r + llr_calls other,
     llr_processed_nodes := llr_processed_nodes r + llr_processed_nodes other,
     llr_queue_after := llr_queue_after other,
     llr_run_updates_us := llr_run_updates_us r + llr_run_updates_us other,
     llr_source_update_count := llr_source_update_count r + llr_source_update_count other,
     llr_source_updates_us := llr_source_updates_us r + llr_source_updates_us other,
     llr_graph_us := llr_graph_us r + llr_graph_us other,
     llr_storage_swap_us := llr_storage_swap_us r + llr_storage_swap_us other,
     llr_affected_sections := llr_affected_sections r + llr_affected_sections other\<rparr>"

record level_light_run_report =
  lvr_iterations :: nat
  lvr_block :: light_layer_run_report
  lvr_sky :: light_layer_run_report

definition level_light_run_report_default :: level_light_run_report where
  "level_light_run_report_default = \<lparr>lvr_iterations = 0, lvr_block = light_layer_run_report_default,
     lvr_sky = light_layer_run_report_default\<rparr>"

definition level_add_assign :: "level_light_run_report \<Rightarrow> level_light_run_report \<Rightarrow> level_light_run_report" where
  "level_add_assign r other = \<lparr>lvr_iterations = lvr_iterations r + lvr_iterations other,
     lvr_block = layer_add_assign (lvr_block r) (lvr_block other),
     lvr_sky = layer_add_assign (lvr_sky r) (lvr_sky other)\<rparr>"

end
