(* ===== verification/LightBlock.thy ===== *)
theory LightBlock imports LightSections LightGraphClient LightReports
begin

text \<open>
  Block light, \<open>native/crates/mclone-light/src/block_engine.rs\<close> (with the storage wrapper
  \<open>block_storage.rs\<close>, which only forwards to the section storage): graph levels are 15 minus light,
  the sentinel \<open>i64::MAX\<close> stands for the emission of a block.  The world the engine reads is a
  record of two functions, for any caller's world.
\<close>

record block_light_world =
  blw_light_emission :: "int \<Rightarrow> nat"
  blw_light_opacity :: "int \<Rightarrow> nat option"

record block_engine =
  be_graph :: dynamic_graph
  be_storage :: section_storage
  be_world :: block_light_world

definition block_engine_new :: "block_light_world \<Rightarrow> block_engine option" where
  "block_engine_new w = do {
     g \<leftarrow> dynamic_graph_new 16;
     Some \<lparr>be_graph = g, be_storage = section_storage_new Block, be_world = w\<rparr>
   }"

section \<open>The graph delegate\<close>

definition delegate_light_emission :: "block_light_world \<Rightarrow> int \<Rightarrow> nat" where
  "delegate_light_emission w pos = min (blw_light_emission w pos) 15"

definition delegate_opacity :: "block_light_world \<Rightarrow> int \<Rightarrow> nat" where
  "delegate_opacity w pos = (case blw_light_opacity w pos of Some v \<Rightarrow> v | None \<Rightarrow> 16)"

definition level_from_layer :: "data_layer \<Rightarrow> int \<Rightarrow> nat option" where
  "level_from_layer l pos = do { v \<leftarrow> layer_at_block l pos; Some (sub_u8 15 v) }"

definition direction_between :: "int \<Rightarrow> int \<Rightarrow> direction option" where
  "direction_between source target =
     (let dx = block_pos_get_x target - block_pos_get_x source;
          dy = block_pos_get_y target - block_pos_get_y source;
          dz = block_pos_get_z target - block_pos_get_z source in
      if (dx, dy, dz) = (0, -1, 0) then Some Down
      else if (dx, dy, dz) = (0, 1, 0) then Some Up
      else if (dx, dy, dz) = (0, 0, -1) then Some North
      else if (dx, dy, dz) = (0, 0, 1) then Some South
      else if (dx, dy, dz) = (-1, 0, 0) then Some West
      else if (dx, dy, dz) = (1, 0, 0) then Some East
      else None)"

definition block_compute_level :: "block_light_world \<Rightarrow> int \<Rightarrow> int \<Rightarrow> nat \<Rightarrow> nat" where
  "block_compute_level w source target source_level =
     (if target = i64_max then 15
      else if source = i64_max then sat_add_u8 source_level (15 - delegate_light_emission w target)
      else if 15 \<le> source_level then source_level
      else if direction_between source target = None then 15
      else
        let opacity = delegate_opacity w target in
        if 15 \<le> opacity then 15 else min (sat_add_u8 source_level (max opacity 1)) 15)"

text \<open>The loop over the six directions of \<open>get_computed_level\<close>, with its early exit at zero.\<close>

definition direction_step :: "int \<Rightarrow> direction \<Rightarrow> int" where
  "direction_step pos d = (case step d of (dx, dy, dz) \<Rightarrow> block_pos_offset pos dx dy dz)"

fun block_computed_loop ::
  "block_light_world \<Rightarrow> section_storage \<Rightarrow> int \<Rightarrow> int \<Rightarrow> direction list \<Rightarrow> nat \<Rightarrow> nat option" where
  "block_computed_loop w s target excluded_source [] level = Some level"
| "block_computed_loop w s target excluded_source (d # ds) level =
     (let source = direction_step target d in
      if source = excluded_source then block_computed_loop w s target excluded_source ds level
      else
        let target_section = block_to_section_key target;
            source_section = block_to_section_key source;
            source_layer = (if target_section = source_section
              then get_updating_data_layer s target_section
              else get_updating_data_layer s source_section) in
        (case source_layer of
           None \<Rightarrow> block_computed_loop w s target excluded_source ds level
         | Some l \<Rightarrow> do {
             source_level \<leftarrow> level_from_layer l source;
             let computed = block_compute_level w source target source_level;
             let level = (if computed < level then computed else level);
             if level = 0 then Some level
             else block_computed_loop w s target excluded_source ds level
           }))"

definition block_get_computed_level ::
  "block_light_world \<Rightarrow> section_storage \<Rightarrow> int \<Rightarrow> int \<Rightarrow> nat \<Rightarrow> nat option" where
  "block_get_computed_level w s target excluded_source candidate =
     (let level = (if excluded_source \<noteq> i64_max
        then
          let source_level = block_compute_level w i64_max target 0 in
          if source_level < candidate then source_level else candidate
        else candidate) in
      if excluded_source \<noteq> i64_max \<and> level = 0 then Some level
      else block_computed_loop w s target excluded_source all_directions level)"

definition block_neighbor_checks :: "section_storage \<Rightarrow> int \<Rightarrow> nat \<Rightarrow> bool \<Rightarrow> neighbor_check list" where
  "block_neighbor_checks s node level is_decrease =
     (let source_section = block_to_section_key node in
      List.map_filter (\<lambda>d.
        let target = direction_step node d;
            target_section = block_to_section_key target in
        if source_section = target_section \<or> storing_light_for_section s target_section
        then Some \<lparr>nc_source = node, nc_target = target, nc_level = level, nc_is_decrease = is_decrease\<rparr>
        else None) all_directions)"

definition graph_level :: "section_storage \<Rightarrow> int \<Rightarrow> nat option" where
  "graph_level s node =
     (if node = i64_max then Some 0
      else if storing_light_for_section s (block_to_section_key node)
      then do { v \<leftarrow> get_stored_level s node; Some (sub_u8 15 v) }
      else Some 15)"

definition set_graph_level :: "section_storage \<Rightarrow> int \<Rightarrow> nat \<Rightarrow> section_storage option" where
  "set_graph_level s node level =
     (if node \<noteq> i64_max \<and> storing_light_for_section s (block_to_section_key node)
      then set_stored_level s node (15 - min level 15) else Some s)"

definition block_callbacks :: "block_light_world \<Rightarrow> section_storage graph_callbacks" where
  "block_callbacks w = \<lparr>
     cb_is_source = (\<lambda>s node. node = i64_max),
     cb_get_computed_level = block_get_computed_level w,
     cb_neighbor_checks = (\<lambda>s node level dec. Some (block_neighbor_checks s node level dec)),
     cb_get_level = graph_level,
     cb_set_level = set_graph_level,
     cb_compute_from_neighbor = (\<lambda>s. block_compute_level w)\<rparr>"

section \<open>The engine\<close>

definition block_activate_section :: "block_engine \<Rightarrow> int \<Rightarrow> block_engine option" where
  "block_activate_section e section = do {
     (_, s) \<leftarrow> apply_graph_level (be_storage e) section light_only;
     Some (e\<lparr>be_storage := s\<rparr>)
   }"

definition block_update_section_status :: "block_engine \<Rightarrow> int \<Rightarrow> bool \<Rightarrow> block_engine option" where
  "block_update_section_status e section is_empty =
     (if \<not> is_empty then block_activate_section e section else Some e)"

definition block_enable_light_sources :: "block_engine \<Rightarrow> int \<Rightarrow> bool \<Rightarrow> block_engine" where
  "block_enable_light_sources e column enabled = e"

definition block_queue_section_data :: "block_engine \<Rightarrow> int \<Rightarrow> data_layer option \<Rightarrow> bool \<Rightarrow> block_engine" where
  "block_queue_section_data e section l trusted =
     e\<lparr>be_storage := queue_section_data (be_storage e) section l trusted\<rparr>"

definition block_retain_data :: "block_engine \<Rightarrow> int \<Rightarrow> bool \<Rightarrow> block_engine" where
  "block_retain_data e column retain = e\<lparr>be_storage := retain_data (be_storage e) column retain\<rparr>"

definition block_accept_queued_section_data :: "block_engine \<Rightarrow> block_engine" where
  "block_accept_queued_section_data e =
     e\<lparr>be_storage := snd (swap_section_map (accept_queued_sections_for_stored_layers (be_storage e)))\<rparr>"

definition block_remove_section :: "block_engine \<Rightarrow> int \<Rightarrow> bool \<times> block_engine" where
  "block_remove_section e section =
     (let (was, s) = remove_section (be_storage e) section in (was, e\<lparr>be_storage := s\<rparr>))"

definition block_forget_retained_column :: "block_engine \<Rightarrow> int \<Rightarrow> block_engine" where
  "block_forget_retained_column e column = e\<lparr>be_storage := forget_retained_column (be_storage e) column\<rparr>"

fun check_targets :: "block_light_world \<Rightarrow> section_storage \<Rightarrow> dynamic_graph \<Rightarrow> int list \<Rightarrow> dynamic_graph option" where
  "check_targets w s g [] = Some g"
| "check_targets w s g (target # targets) =
     (if storing_light_for_section s (block_to_section_key target)
      then do { g \<leftarrow> check_node (block_callbacks w) s g target; check_targets w s g targets }
      else check_targets w s g targets)"

definition block_check_block :: "block_engine \<Rightarrow> int \<Rightarrow> block_engine option" where
  "block_check_block e pos = do {
     g \<leftarrow> check_targets (be_world e) (be_storage e) (be_graph e) (pos # map (direction_step pos) all_directions);
     Some (e\<lparr>be_graph := g\<rparr>)
   }"

definition block_on_emission_increase :: "block_engine \<Rightarrow> int \<Rightarrow> nat \<Rightarrow> block_engine option" where
  "block_on_emission_increase e pos emission =
     (if emission = 0 \<or> \<not> storing_light_for_section (be_storage e) (block_to_section_key pos) then Some e
      else do {
        g \<leftarrow> check_edge (block_callbacks (be_world e)) (be_storage e) (be_graph e) i64_max pos
          (15 - min emission 15) True;
        Some (e\<lparr>be_graph := g\<rparr>)
      })"

definition block_run_updates_report ::
  "block_engine \<Rightarrow> nat \<Rightarrow> (nat \<times> light_engine_run_report \<times> block_engine) option" where
  "block_run_updates_report e budget = do {
     (remaining, report, s, g) \<leftarrow>
       graph_run_updates_report (block_callbacks (be_world e)) (be_storage e) (be_graph e) budget;
     let (affected, s) = swap_section_map s;
     Some (remaining,
       \<lparr>ler_graph = report, ler_source_update_count = 0, ler_source_updates_us = 0,
        ler_graph_us = timing_elapsed_us, ler_storage_swap_us = timing_elapsed_us,
        ler_affected_sections = length affected\<rparr>,
       e\<lparr>be_graph := g, be_storage := s\<rparr>)
   }"

definition block_run_updates :: "block_engine \<Rightarrow> nat \<Rightarrow> (nat \<times> block_engine) option" where
  "block_run_updates e budget = do {
     (remaining, report, e) \<leftarrow> block_run_updates_report e budget;
     Some (remaining, e)
   }"

definition block_has_work :: "block_engine \<Rightarrow> bool" where
  "block_has_work e = dg_has_work (be_graph e)"

partial_function (option) block_run_all_updates :: "block_engine \<Rightarrow> block_engine option" where
  "block_run_all_updates e =
     (if block_has_work e then do {
        (remaining, e) \<leftarrow> block_run_updates e 16384;
        if 0 < remaining then Some e else block_run_all_updates e
      }
      else Some e)"

definition block_stored_light :: "block_engine \<Rightarrow> int \<Rightarrow> nat option" where
  "block_stored_light e pos = (case get_visible_data_layer (be_storage e) (block_to_section_key pos) of
     None \<Rightarrow> Some 0 | Some l \<Rightarrow> layer_at_block l pos)"

definition block_get_light_value :: "section_storage \<Rightarrow> int \<Rightarrow> nat option" where
  "block_get_light_value s pos = (case get_data_layer_data s (block_to_section_key pos) of
     None \<Rightarrow> Some 0 | Some l \<Rightarrow> layer_at_block l pos)"

section \<open>Neighbouring blocks\<close>

lemma in_i64_step [simp]: "in_i64 (direction_step n d)"
  by (cases d) (simp_all add: direction_step_def)

lemma step_opposite: "in_i64 n \<Longrightarrow> direction_step (direction_step n d) (opposite d) = n"
  by (cases d) (simp_all add: direction_step_def offset_offset offset_zero)

lemma step_unit:
  obtains x y z where "step d = (x, y, z)" "\<bar>x\<bar> \<le> 1" "\<bar>y\<bar> \<le> 1" "\<bar>z\<bar> \<le> 1" "(x, y, z) \<noteq> (0, 0, 0)"
  by (cases d) auto

lemma step_eq_iff: "step d = step e \<longleftrightarrow> d = e"
  by (cases d; cases e) simp_all

lemma step_inj: "in_i64 n \<Longrightarrow> direction_step n d = direction_step n e \<Longrightarrow> d = e"
  by (rule step_unit [of d]; rule step_unit [of e])
    (auto simp: direction_step_def step_eq_iff [symmetric] dest: block_offset_inj)

lemma step_irrefl:
  assumes n: "in_i64 n"
  shows "direction_step n d \<noteq> n"
proof
  assume eq: "direction_step n d = n"
  obtain x y z where d: "step d = (x, y, z)" "\<bar>x\<bar> \<le> 1" "\<bar>y\<bar> \<le> 1" "\<bar>z\<bar> \<le> 1" "(x, y, z) \<noteq> (0, 0, 0)"
    by (rule step_unit)
  have "block_pos_offset n x y z = block_pos_offset n 0 0 0"
    using eq d(1) n by (simp add: direction_step_def offset_zero)
  then have "x = 0 \<and> y = 0 \<and> z = 0" by (rule block_offset_inj [OF n]) (simp_all add: d)
  then show False using d(5) by simp
qed

lemma distinct_all_directions: "distinct all_directions"
  by (simp add: all_directions_def)

lemma distinct_steps: "in_i64 n \<Longrightarrow> distinct (map (direction_step n) all_directions)"
  unfolding distinct_map by (intro conjI distinct_all_directions inj_onI) (rule step_inj)

lemma section_key_bits_max:
  "(n < 42 \<longrightarrow> (n < 20 \<longrightarrow> min 11 (4 + n) < 63) \<and> (\<not> n < 20 \<longrightarrow> n - 4 < 63))
     \<and> (\<not> n < 42 \<longrightarrow> (min 21 (n - 42) < 21) = (n < (63 :: nat)))"
  by (auto simp: min_def)

lemma block_to_section_key_mask: "block_to_section_key (mask 63) = mask 63"
proof (rule bit_eqI)
  fix n
  show "bit (block_to_section_key (mask 63)) n = bit (mask 63 :: int) n"
    using section_key_bits_max [of n]
    by (simp add: block_to_section_key_def bit_section_key block_to_section_coord_l_def
        bit_drop_bit_eq bit_block_get bit_mask_iff del: mask_numeral)
qed

lemma block_to_section_key_max: "block_to_section_key i64_max = i64_max"
proof -
  have "(9223372036854775807 :: int) = 2 ^ 63 - 1" by simp
  then have "(9223372036854775807 :: int) = mask 63" by (simp only: mask_eq_exp_minus_1)
  then show ?thesis using block_to_section_key_mask by (simp only:)
qed

section \<open>Light as a fixed point\<close>

definition block_ok :: "int set \<Rightarrow> section_storage \<Rightarrow> bool" where
  "block_ok S s \<longleftrightarrow> storage_wf s \<and> published s \<and> stored s = S \<and> i64_max \<notin> S"

definition light_nodes :: "int set \<Rightarrow> int set" where
  "light_nodes S = {n. in_i64 n \<and> n \<noteq> i64_max \<and> block_to_section_key n \<in> S}"

definition light_level :: "int set \<Rightarrow> section_storage \<Rightarrow> int \<Rightarrow> nat" where
  "light_level S s n = (if n \<in> light_nodes S then 15 - light_of s n else 15)"

definition emission_level :: "block_light_world \<Rightarrow> int \<Rightarrow> nat" where
  "emission_level w t = 15 - delegate_light_emission w t"

definition light_neighbors :: "int set \<Rightarrow> int \<Rightarrow> int list" where
  "light_neighbors S n = filter (\<lambda>t. t \<in> light_nodes S) (map (direction_step n) all_directions)"

lemma finite_light_nodes: "finite (light_nodes S)"
  by (rule finite_subset [of _ "{- (2 ^ 63)..<2 ^ 63}"]) (auto simp: light_nodes_def in_i64_def)

lemma light_nodes_iff:
  assumes "block_ok S s" and "in_i64 n"
  shows "n \<in> light_nodes S \<longleftrightarrow> storing_light_for_section s (block_to_section_key n)"
  using assms block_to_section_key_max by (auto simp: light_nodes_def block_ok_def storing_light_iff)

lemma light_level_node:
  assumes "block_ok S s" and "n \<in> light_nodes S"
  shows "graph_level s n = Some (light_level S s n)"
proof -
  have "light_of s n < 16" using assms by (intro light_of_less) (simp add: block_ok_def)
  then show ?thesis
    using assms get_stored_level_eq [of s n]
    by (auto simp: graph_level_def light_level_def light_nodes_def block_ok_def storing_light_iff)
qed

lemma set_light_level:
  assumes ok: "block_ok S s" and n: "n \<in> light_nodes S" and l: "l < 16"
  shows "\<exists>s'. set_graph_level s n l = Some s' \<and> block_ok S s' \<and> light_level S s' = (light_level S s)(n := l)"
proof -
  have n': "in_i64 n" "n \<noteq> i64_max" "block_to_section_key n \<in> stored s"
    using ok n by (auto simp: light_nodes_def block_ok_def)
  have v: "15 - min l 15 < 16" by (rule le_less_trans [OF diff_le_self]) simp
  obtain s' where s': "set_stored_level s n (15 - min l 15) = Some s'" "storage_wf s'" "published s'" "stored s' = stored s"
    "\<And>c. in_i64 c \<Longrightarrow> light_of s' c = (if c = n then 15 - min l 15 else light_of s c)"
    using set_stored_level_spec [OF _ n'(1,3) v] ok by (auto simp: block_ok_def)
  have "light_level S s' = (light_level S s)(n := l)"
    using s'(5) n l by (intro ext) (auto simp: light_level_def light_nodes_def)
  then show ?thesis using s' n' ok by (auto simp: set_graph_level_def storing_light_iff block_ok_def)
qed

lemma computed_loop_spec:
  assumes ok: "block_ok S s" and t: "t \<in> light_nodes S"
  shows "\<exists>v. block_computed_loop w s t x ds level = Some v
     \<and> (\<forall>k. v \<le> k \<longleftrightarrow> level \<le> k \<or> (\<exists>d\<in>set ds. direction_step t d \<in> light_nodes S - {x}
          \<and> block_compute_level w (direction_step t d) t (light_level S s (direction_step t d)) \<le> k))"
proof (induction ds arbitrary: level)
  case Nil
  then show ?case by simp
next
  case (Cons d ds)
  let ?n = "direction_step t d"
  show ?case
  proof (cases "?n \<in> light_nodes S - {x}")
    case False
    have "block_computed_loop w s t x (d # ds) level = block_computed_loop w s t x ds level"
    proof (cases "?n = x")
      case ne: False
      then have "?n \<notin> light_nodes S" using False by simp
      then have "block_to_section_key ?n \<notin> stored s" using light_nodes_iff [OF ok, of ?n] by (simp add: storing_light_iff)
      moreover have "block_to_section_key t \<in> stored s" using light_nodes_iff [OF ok, of t] t
        by (simp add: storing_light_iff light_nodes_def)
      ultimately show ?thesis
        using ne by (auto simp: get_updating_data_layer_def stored_def fmlookup_dom_iff Let_def split: option.split)
    qed simp
    then show ?thesis using Cons.IH [of level] False by auto
  next
    case True
    then have "block_to_section_key ?n \<in> stored s" using light_nodes_iff [OF ok, of ?n] by (simp add: storing_light_iff)
    then obtain l where l: "fmlookup (sm_map (ss_updating s)) (block_to_section_key ?n) = Some l"
      by (auto simp: stored_def fmlookup_dom_iff)
    have wf: "storage_wf s" using ok by (simp add: block_ok_def)
    have lev: "level_from_layer l ?n = Some (light_level S s ?n)"
      using layer_at_block_light [OF l wf] light_of_less [OF wf, of ?n] True
      by (simp add: level_from_layer_def light_level_def)
    let ?c = "block_compute_level w ?n t (light_level S s ?n)"
    have loop: "block_computed_loop w s t x (d # ds) level =
        (if min level ?c = 0 then Some 0 else block_computed_loop w s t x ds (min level ?c))"
      using True l lev
      by (cases "?c < level") (simp_all add: get_updating_data_layer_def Let_def min_def)
    show ?thesis
    proof (cases "min level ?c = 0")
      case zero: True
      then have "block_computed_loop w s t x (d # ds) level = Some 0" by (simp only: loop if_True simp_thms)
      moreover have "level \<le> k \<or> ?c \<le> k" for k using zero by (auto simp: min_def split: if_splits)
      ultimately show ?thesis using True by (intro exI [of _ 0]) auto
    next
      case nz: False
      then have "block_computed_loop w s t x (d # ds) level = block_computed_loop w s t x ds (min level ?c)"
        by (simp only: loop if_False)
      then show ?thesis using Cons.IH [of "min level ?c"] True by (auto simp: min_le_iff_disj)
    qed
  qed
qed

lemma block_compute_level_mono:
  "l \<le> l' \<Longrightarrow> block_compute_level w n t l \<le> block_compute_level w n t l'"
  by (auto simp: block_compute_level_def sat_add_u8_def Let_def)

lemma block_compute_level_strict:
  "n \<noteq> i64_max \<Longrightarrow> l < 15 \<Longrightarrow> l < block_compute_level w n t l"
  by (auto simp: block_compute_level_def sat_add_u8_def Let_def)

interpretation block: strict_min_fixed_point "block_callbacks w" "block_ok S" "light_level S" "light_nodes S" 16
  "emission_level w" "light_neighbors S" "block_compute_level w"
  for w :: block_light_world and S :: "int set"
proof unfold_locales
  show "finite (light_nodes S)" by (rule finite_light_nodes)
next
  fix s n t x :: int and l l' c :: nat and st :: section_storage and dec
  have "15 - light_of st n < 16" by (rule le_less_trans [OF diff_le_self]) simp
  then show "light_level S st n < 16" by (simp add: light_level_def)
  show "n \<in> light_nodes S \<Longrightarrow> set (light_neighbors S n) \<subseteq> light_nodes S" by (auto simp: light_neighbors_def)
  show "n \<in> light_nodes S \<Longrightarrow> distinct (light_neighbors S n)"
    unfolding light_neighbors_def by (intro distinct_filter distinct_steps) (simp add: light_nodes_def)
  show "n \<in> light_nodes S \<Longrightarrow> n \<notin> set (light_neighbors S n)"
    using step_irrefl [of n] by (auto simp: light_neighbors_def light_nodes_def) metis
  show "n \<in> light_nodes S \<Longrightarrow> t \<in> light_nodes S
      \<Longrightarrow> t \<in> set (light_neighbors S n) \<longleftrightarrow> n \<in> set (light_neighbors S t)"
  proof -
    have "b \<in> set (light_neighbors S a)" if ab: "a \<in> set (light_neighbors S b)" "b \<in> light_nodes S" for a b
    proof -
      obtain d where d: "a = direction_step b d" using ab(1) by (auto simp: light_neighbors_def)
      then have "b = direction_step a (opposite d)" using ab(2) by (simp add: step_opposite light_nodes_def)
      moreover have "opposite d \<in> set all_directions" by (cases d) (simp_all add: all_directions_def)
      ultimately show ?thesis using ab(2) by (auto simp: light_neighbors_def)
    qed
    then show "n \<in> light_nodes S \<Longrightarrow> t \<in> light_nodes S
      \<Longrightarrow> t \<in> set (light_neighbors S n) \<longleftrightarrow> n \<in> set (light_neighbors S t)" by blast
  qed
  show "l \<le> l' \<Longrightarrow> block_compute_level w n t l \<le> block_compute_level w n t l'"
    by (rule block_compute_level_mono)
  show "n \<in> light_nodes S \<Longrightarrow> 16 - 1 \<le> block_compute_level w n t (16 - 1)"
    by (auto simp: block_compute_level_def sat_add_u8_def light_nodes_def)
  show "n \<in> light_nodes S \<Longrightarrow> l < 16 - 1 \<Longrightarrow> l < block_compute_level w n t l"
    by (rule block_compute_level_strict) (simp_all add: light_nodes_def)
  assume ok: "block_ok S st"
  show "n \<in> light_nodes S \<Longrightarrow> cb_get_level (block_callbacks w) st n = Some (light_level S st n)"
    using light_level_node [OF ok] by (simp add: block_callbacks_def)
  show "n \<in> light_nodes S \<Longrightarrow> l < 16 \<Longrightarrow> \<exists>s'. cb_set_level (block_callbacks w) st n l = Some s' \<and> block_ok S s'
      \<and> light_level S s' = (light_level S st)(n := l)"
    using set_light_level [OF ok] by (simp add: block_callbacks_def)
  show "n \<in> light_nodes S \<Longrightarrow> \<not> cb_is_source (block_callbacks w) st n"
    by (simp add: block_callbacks_def light_nodes_def)
  show "cb_compute_from_neighbor (block_callbacks w) st n t l = block_compute_level w n t l"
    by (simp add: block_callbacks_def)
  show "n \<in> light_nodes S \<Longrightarrow> cb_neighbor_checks (block_callbacks w) st n l dec
      = Some (map (check_of n l dec) (light_neighbors S n))"
  proof -
    assume n: "n \<in> light_nodes S"
    have guard: "(block_to_section_key n = block_to_section_key t \<or> storing_light_for_section st (block_to_section_key t))
        \<longleftrightarrow> t \<in> light_nodes S" if "in_i64 t" for t
      using light_nodes_iff [OF ok that] light_nodes_iff [OF ok, of n] n by (auto simp: light_nodes_def)
    have "block_neighbor_checks st n l dec = map (check_of n l dec) (light_neighbors S n)"
      by (simp add: block_neighbor_checks_def Let_def guard light_neighbors_def List.map_filter_def check_of_def
          filter_map comp_def cong: filter_cong)
    then show ?thesis by (simp add: block_callbacks_def)
  qed
  show "t \<in> light_nodes S \<Longrightarrow> x \<in> light_nodes S \<Longrightarrow> c < 16 \<Longrightarrow>
    \<exists>v. cb_get_computed_level (block_callbacks w) st t x c = Some v
      \<and> (\<forall>k. v \<le> k \<longleftrightarrow> c \<le> k \<or> emission_level w t \<le> k
          \<or> (\<exists>n\<in>set (light_neighbors S t) - {x}. block_compute_level w n t (light_level S st n) \<le> k))"
  proof -
    assume t: "t \<in> light_nodes S" and x: "x \<in> light_nodes S"
    have ne: "t \<noteq> i64_max" "x \<noteq> i64_max" using t x by (auto simp: light_nodes_def)
    have src: "block_compute_level w i64_max t 0 = emission_level w t"
      using ne by (simp add: block_compute_level_def sat_add_u8_def emission_level_def min_def)
    let ?l = "min c (emission_level w t)"
    have start: "block_get_computed_level w st t x c
        = (if ?l = 0 then Some 0 else block_computed_loop w st t x all_directions ?l)"
      using ne by (simp add: block_get_computed_level_def src Let_def min_def)
    obtain v where v: "block_computed_loop w st t x all_directions ?l = Some v"
      "\<forall>k. v \<le> k \<longleftrightarrow> ?l \<le> k \<or> (\<exists>d\<in>set all_directions. direction_step t d \<in> light_nodes S - {x}
          \<and> block_compute_level w (direction_step t d) t (light_level S st (direction_step t d)) \<le> k)"
      using computed_loop_spec [OF ok t] by blast
    have nb: "(\<exists>d\<in>set all_directions. direction_step t d \<in> light_nodes S - {x}
          \<and> block_compute_level w (direction_step t d) t (light_level S st (direction_step t d)) \<le> k)
        \<longleftrightarrow> (\<exists>n\<in>set (light_neighbors S t) - {x}. block_compute_level w n t (light_level S st n) \<le> k)" for k
      by (auto simp: light_neighbors_def)
    show ?thesis
    proof (cases "?l = 0")
      case True
      then have "c \<le> k \<or> emission_level w t \<le> k" for k by (auto simp: min_def split: if_splits)
      then have "\<forall>k. 0 \<le> k \<longleftrightarrow> c \<le> k \<or> emission_level w t \<le> k
          \<or> (\<exists>n\<in>set (light_neighbors S t) - {x}. block_compute_level w n t (light_level S st n) \<le> k)" by blast
      then show ?thesis using True start by (intro exI [of _ 0]) (simp add: block_callbacks_def)
    next
      case False
      then have "block_get_computed_level w st t x c = Some v" using v(1) by (simp only: start if_False)
      then show ?thesis using v(2) unfolding nb by (simp add: block_callbacks_def min_le_iff_disj)
    qed
  qed
qed simp_all

end
