(* ===== verification/LightSkyEngine.thy ===== *)
theory LightSkyEngine imports LightSky LightBlock
begin

text \<open>
  Sky light, \<open>native/crates/mclone-light/src/sky_engine.rs\<close>: the flood fill of \<open>LightGraph\<close> on the
  storage of \<open>LightSky\<close>.  The world is the opacity of each block, if known.  Levels are 15 minus
  light; the sentinel \<open>i64::MAX\<close> stands for the open sky.  Nodes of sections without storage may be
  queued: they always read as dark and a write to them is ignored, which is why the engine is a
  \<open>graph_client\<close> and not a \<open>min_fixed_point\<close>.
\<close>

record sky_engine =
  ske_graph :: dynamic_graph
  ske_storage :: sky_storage
  ske_world :: "int \<Rightarrow> nat option"

definition sky_engine_new :: "(int \<Rightarrow> nat option) \<Rightarrow> sky_engine option" where
  "sky_engine_new w = do {
     g \<leftarrow> dynamic_graph_new 16;
     Some \<lparr>ske_graph = g, ske_storage = sky_storage_new, ske_world = w\<rparr>
   }"

section \<open>The graph delegate\<close>

definition sky_opacity :: "(int \<Rightarrow> nat option) \<Rightarrow> int \<Rightarrow> nat" where
  "sky_opacity w pos = (case w pos of Some v \<Rightarrow> v | None \<Rightarrow> 16)"

definition sky_direction_between :: "int \<Rightarrow> int \<Rightarrow> direction option" where
  "sky_direction_between source target =
     (let dx = sgn (block_pos_get_x target - block_pos_get_x source);
          dy = sgn (block_pos_get_y target - block_pos_get_y source);
          dz = sgn (block_pos_get_z target - block_pos_get_z source) in
      if (dx, dy, dz) = (0, -1, 0) then Some Down
      else if (dx, dy, dz) = (0, 1, 0) then Some Up
      else if (dx, dy, dz) = (0, 0, -1) then Some North
      else if (dx, dy, dz) = (0, 0, 1) then Some South
      else if (dx, dy, dz) = (-1, 0, 0) then Some West
      else if (dx, dy, dz) = (1, 0, 0) then Some East
      else None)"

definition sky_compute_level :: "(int \<Rightarrow> nat option) \<Rightarrow> int \<Rightarrow> int \<Rightarrow> nat \<Rightarrow> nat" where
  "sky_compute_level w source target source_level =
     (if target = i64_max \<or> source = i64_max then 15
      else if 15 \<le> source_level then source_level
      else (case sky_direction_between source target of
        None \<Rightarrow> 15
      | Some d \<Rightarrow>
          let opacity = sky_opacity w target in
          if 15 \<le> opacity then 15
          else if (case w source of Some v \<Rightarrow> 15 \<le> v | None \<Rightarrow> False) then 15
          else
            let direct_down = d = Down \<and> block_pos_get_x source = block_pos_get_x target
              \<and> block_pos_get_z source = block_pos_get_z target in
            if direct_down \<and> source_level = 0 \<and> opacity = 0 then 0
            else min (sat_add_u8 source_level (max opacity 1)) 15))"

text \<open>The loop over the six directions of \<open>get_computed_level\<close>.\<close>

fun sky_computed_loop ::
  "(int \<Rightarrow> nat option) \<Rightarrow> sky_storage \<Rightarrow> int \<Rightarrow> int \<Rightarrow> direction list \<Rightarrow> nat \<Rightarrow> nat option" where
  "sky_computed_loop w s target excluded_source [] level = Some level"
| "sky_computed_loop w s target excluded_source (d # ds) level =
     (let source = direction_step target d in
      if source = excluded_source then sky_computed_loop w s target excluded_source ds level
      else
        let target_section = block_to_section_key target;
            source_section = block_to_section_key source;
            source_layer = (if target_section = source_section
              then get_updating_data_layer (sky_inner s) target_section
              else get_updating_data_layer (sky_inner s) source_section) in
        if source_layer = None \<and> d = Down then sky_computed_loop w s target excluded_source ds level
        else do {
          source_level \<leftarrow> (case source_layer of
              Some l \<Rightarrow> level_from_layer l source
            | None \<Rightarrow> do { v \<leftarrow> sky_get_light_value s source True; Some (sub_u8 15 v) });
          let computed = sky_compute_level w source target source_level;
          let level = (if computed < level then computed else level);
          if level = 0 then Some level
          else sky_computed_loop w s target excluded_source ds level
        })"

definition sky_get_computed_level ::
  "(int \<Rightarrow> nat option) \<Rightarrow> sky_storage \<Rightarrow> int \<Rightarrow> int \<Rightarrow> nat \<Rightarrow> nat option" where
  "sky_get_computed_level w s target excluded_source candidate =
     sky_computed_loop w s target excluded_source all_directions candidate"

text \<open>How many sections without storage lie below the section of a node, above the lowest height.\<close>

function skipped_sections :: "sky_storage \<Rightarrow> int \<Rightarrow> int \<Rightarrow> int \<Rightarrow> int" where
  "skipped_sections s source_section sec_y skipped =
     (if \<not> storing_light_for_section (sky_inner s) (section_offset source_section 0 (- skipped - 1) 0)
         \<and> has_sections_below s (sec_y - skipped - 1)
      then skipped_sections s source_section sec_y (skipped + 1)
      else skipped)"
  by pat_completeness auto
termination
  by (relation "measure (\<lambda>(s, source_section, sec_y, skipped). nat (sec_y - skipped - sky_lowest_y s))")
    (auto simp: has_sections_below_def)

declare skipped_sections.simps [simp del]

definition sky_push_neighbor_check ::
  "sky_storage \<Rightarrow> int \<Rightarrow> int \<Rightarrow> int \<Rightarrow> nat \<Rightarrow> bool \<Rightarrow> neighbor_check list \<Rightarrow> neighbor_check list" where
  "sky_push_neighbor_check s source source_section_node target level is_decrease checks =
     (let source_section = block_to_section_key source_section_node;
          target_section = block_to_section_key target in
      if source_section = target_section \<or> storing_light_for_section (sky_inner s) target_section
      then checks @ [\<lparr>nc_source = source, nc_target = target, nc_level = level, nc_is_decrease = is_decrease\<rparr>]
      else checks)"

text \<open>\<open>for vertical_skip in 0..=skip_sections * 16\<close>, which a target in the source's section ends.\<close>

fun horizontal_checks ::
  "sky_storage \<Rightarrow> int \<Rightarrow> int \<Rightarrow> int \<Rightarrow> nat \<Rightarrow> bool \<Rightarrow> int list \<Rightarrow> neighbor_check list \<Rightarrow> neighbor_check list" where
  "horizontal_checks s node dx dz level is_decrease [] checks = checks"
| "horizontal_checks s node dx dz level is_decrease (vertical_skip # skips) checks =
     (let target = block_pos_offset node dx (- vertical_skip) dz;
          source_section = block_to_section_key node;
          target_section = block_to_section_key target in
      if source_section = target_section
      then checks @ [\<lparr>nc_source = node, nc_target = target, nc_level = level, nc_is_decrease = is_decrease\<rparr>]
      else
        let checks = (if storing_light_for_section (sky_inner s) target_section
          then checks @ [\<lparr>nc_source = block_pos_offset node 0 (- vertical_skip) 0, nc_target = target,
                          nc_level = level, nc_is_decrease = is_decrease\<rparr>]
          else checks)
        in horizontal_checks s node dx dz level is_decrease skips checks)"

definition sky_skip_sections :: "sky_storage \<Rightarrow> int \<Rightarrow> int" where
  "sky_skip_sections s node =
     (let source_section = block_to_section_key node;
          y = block_pos_get_y node;
          sec_y = section_y source_section in
      if section_relative y = 0 then skipped_sections s source_section sec_y 0 else 0)"

definition sky_neighbor_checks :: "sky_storage \<Rightarrow> int \<Rightarrow> nat \<Rightarrow> bool \<Rightarrow> neighbor_check list" where
  "sky_neighbor_checks s node level is_decrease =
     (let skip_sections = sky_skip_sections s node;
          checks = [];
          down = block_pos_offset node 0 (- 1 - skip_sections * 16) 0;
          checks = sky_push_neighbor_check s node node down level is_decrease checks;
          up = block_pos_offset node 0 1 0;
          checks = sky_push_neighbor_check s node node up level is_decrease checks
      in fold (\<lambda>d checks. case step d of (dx, _, dz) \<Rightarrow>
           horizontal_checks s node dx dz level is_decrease [0..skip_sections * 16] checks) horizontals checks)"

definition sky_graph_level :: "sky_storage \<Rightarrow> int \<Rightarrow> nat option" where
  "sky_graph_level s node =
     (if node = i64_max then Some 0
      else if storing_light_for_section (sky_inner s) (block_to_section_key node)
      then do { v \<leftarrow> get_stored_level (sky_inner s) node; Some (sub_u8 15 v) }
      else Some 15)"

definition sky_set_graph_level :: "sky_storage \<Rightarrow> int \<Rightarrow> nat \<Rightarrow> sky_storage option" where
  "sky_set_graph_level s node level =
     (if node \<noteq> i64_max \<and> storing_light_for_section (sky_inner s) (block_to_section_key node)
      then do {
        inner \<leftarrow> set_stored_level (sky_inner s) node (15 - min level 15);
        Some (s\<lparr>sky_inner := inner\<rparr>)
      }
      else Some s)"

definition sky_callbacks :: "(int \<Rightarrow> nat option) \<Rightarrow> sky_storage graph_callbacks" where
  "sky_callbacks w = \<lparr>
     cb_is_source = (\<lambda>s node. node = i64_max),
     cb_get_computed_level = sky_get_computed_level w,
     cb_neighbor_checks = (\<lambda>s node level dec. Some (sky_neighbor_checks s node level dec)),
     cb_get_level = sky_graph_level,
     cb_set_level = sky_set_graph_level,
     cb_compute_from_neighbor = (\<lambda>s. sky_compute_level w)\<rparr>"

section \<open>Sources\<close>

text \<open>A run of \<open>check_edge\<close> calls: source, target, candidate level, whether it is a decrease.\<close>

fun check_edges ::
  "'s graph_callbacks \<Rightarrow> 's \<Rightarrow> dynamic_graph \<Rightarrow> (int \<times> int \<times> nat \<times> bool) list \<Rightarrow> dynamic_graph option" where
  "check_edges cb s g [] = Some g"
| "check_edges cb s g ((source, target, level, is_decrease) # edges) = do {
     g \<leftarrow> check_edge cb s g source target level is_decrease;
     check_edges cb s g edges
   }"

text \<open>The two nested loops from 0 to 15; the outer variable comes first.\<close>

definition grid16 :: "(int \<times> int) list" where
  "grid16 = concat (map (\<lambda>a. map (\<lambda>b. (a, b)) [0..15]) [0..15])"

definition section_top_positions :: "int \<Rightarrow> int list" where
  "section_top_positions section =
     (let min_x = section_x section * 16;
          y = section_y section * 16 + 15;
          min_z = section_z section * 16 in
      map (\<lambda>(local_z, local_x). block_pos_as_long (min_x + local_x) y (min_z + local_z)) grid16)"

definition apply_data_source_add ::
  "(int \<Rightarrow> nat option) \<Rightarrow> sky_storage \<Rightarrow> dynamic_graph \<Rightarrow> int \<Rightarrow> dynamic_graph option" where
  "apply_data_source_add w s g section =
     check_edges (sky_callbacks w) s g (map (\<lambda>pos. (i64_max, pos, 0, True)) (section_top_positions section))"

definition apply_source_remove ::
  "(int \<Rightarrow> nat option) \<Rightarrow> sky_storage \<Rightarrow> dynamic_graph \<Rightarrow> int \<Rightarrow> dynamic_graph option" where
  "apply_source_remove w s g section =
     check_edges (sky_callbacks w) s g (map (\<lambda>pos. (i64_max, pos, 15, False)) (section_top_positions section))"

text \<open>The faces through which a section that is only lit hands light to a horizontal neighbour.\<close>

definition face_edge :: "int \<Rightarrow> direction \<Rightarrow> int \<times> int \<Rightarrow> int \<times> int" where
  "face_edge section d = (\<lambda>(a, b).
     let min_x = section_x section * 16; min_y = section_y section * 16; min_z = section_z section * 16 in
     case d of
       North \<Rightarrow> (block_pos_as_long (min_x + a) (min_y + b) min_z, block_pos_as_long (min_x + a) (min_y + b) (min_z - 1))
     | South \<Rightarrow> (block_pos_as_long (min_x + a) (min_y + b) (min_z + 15),
                 block_pos_as_long (min_x + a) (min_y + b) (min_z + 16))
     | West \<Rightarrow> (block_pos_as_long min_x (min_y + a) (min_z + b), block_pos_as_long (min_x - 1) (min_y + a) (min_z + b))
     | East \<Rightarrow> (block_pos_as_long (min_x + 15) (min_y + a) (min_z + b),
                block_pos_as_long (min_x + 16) (min_y + a) (min_z + b)))"

definition decrease_edge :: "(int \<Rightarrow> nat option) \<Rightarrow> int \<times> int \<Rightarrow> int \<times> int \<times> nat \<times> bool" where
  "decrease_edge w = (\<lambda>(source, target). (source, target, sky_compute_level w source target 0, True))"

definition horizontal_edges :: "(int \<Rightarrow> nat option) \<Rightarrow> sky_storage \<Rightarrow> int \<Rightarrow> (int \<times> int \<times> nat \<times> bool) list" where
  "horizontal_edges w s section = concat (map (\<lambda>d. case step d of (dx, _, dz) \<Rightarrow>
     let neighbor_section = section_offset section dx 0 dz in
     if \<not> storing_light_for_section (sky_inner s) neighbor_section \<or> section_has_source s neighbor_section then []
     else map (\<lambda>ab. decrease_edge w (face_edge section d ab)) grid16) horizontals)"

definition bottom_edges :: "(int \<Rightarrow> nat option) \<Rightarrow> int \<Rightarrow> (int \<times> int \<times> nat \<times> bool) list" where
  "bottom_edges w section =
     (let min_x = section_x section * 16; min_y = section_y section * 16; min_z = section_z section * 16 in
      map (\<lambda>(local_z, local_x). decrease_edge w
        (block_pos_as_long (min_x + local_x) min_y (min_z + local_z),
         block_pos_as_long (min_x + local_x) (min_y - 1) (min_z + local_z))) grid16)"

definition apply_light_only_source_add ::
  "(int \<Rightarrow> nat option) \<Rightarrow> sky_storage \<Rightarrow> dynamic_graph \<Rightarrow> int \<Rightarrow> (sky_storage \<times> dynamic_graph) option" where
  "apply_light_only_source_add w s g section = do {
     g \<leftarrow> remove_if (sky_callbacks w) s g (\<lambda>node. node \<noteq> i64_max \<and> block_to_section_key node = section);
     inner \<leftarrow> fill_stored_section (sky_inner s) section 15;
     let s = s\<lparr>sky_inner := inner\<rparr>;
     g \<leftarrow> check_edges (sky_callbacks w) s g (horizontal_edges w s section);
     g \<leftarrow> check_edges (sky_callbacks w) s g (bottom_edges w section);
     Some (s, g)
   }"

fun apply_sky_updates ::
  "(int \<Rightarrow> nat option) \<Rightarrow> sky_storage \<Rightarrow> dynamic_graph \<Rightarrow> sky_source_update list \<Rightarrow> (sky_storage \<times> dynamic_graph) option" where
  "apply_sky_updates w s g [] = Some (s, g)"
| "apply_sky_updates w s g (update # updates) = do {
     (s, g) \<leftarrow> (case ssu_kind update of
         AddSource \<Rightarrow>
           if section_level (sky_inner s) (ssu_section update) = light_only
           then apply_light_only_source_add w s g (ssu_section update)
           else do { g \<leftarrow> apply_data_source_add w s g (ssu_section update); Some (s, g) }
       | RemoveSource \<Rightarrow> do { g \<leftarrow> apply_source_remove w s g (ssu_section update); Some (s, g) });
     apply_sky_updates w s g updates
   }"

section \<open>The engine\<close>

definition ske_activate_section :: "sky_engine \<Rightarrow> int \<Rightarrow> sky_engine option" where
  "ske_activate_section e section = do {
     (_, s) \<leftarrow> sky_activate_section (ske_storage e) section;
     Some (e\<lparr>ske_storage := s\<rparr>)
   }"

definition ske_update_section_status :: "sky_engine \<Rightarrow> int \<Rightarrow> bool \<Rightarrow> sky_engine option" where
  "ske_update_section_status e section is_empty =
     (if \<not> is_empty then do {
        (_, s) \<leftarrow> sky_activate_data_section (ske_storage e) section;
        Some (e\<lparr>ske_storage := s\<rparr>)
      }
      else Some e)"

definition ske_enable_light_sources :: "sky_engine \<Rightarrow> int \<Rightarrow> bool \<Rightarrow> sky_engine" where
  "ske_enable_light_sources e column enabled =
     e\<lparr>ske_storage := sky_enable_light_sources (ske_storage e) column enabled\<rparr>"

definition ske_with_inner :: "(section_storage \<Rightarrow> section_storage) \<Rightarrow> sky_engine \<Rightarrow> sky_engine" where
  "ske_with_inner f e = e\<lparr>ske_storage := (ske_storage e)\<lparr>sky_inner := f (sky_inner (ske_storage e))\<rparr>\<rparr>"

definition ske_queue_section_data :: "sky_engine \<Rightarrow> int \<Rightarrow> data_layer option \<Rightarrow> bool \<Rightarrow> sky_engine" where
  "ske_queue_section_data e section l trusted = ske_with_inner (\<lambda>s. queue_section_data s section l trusted) e"

definition ske_retain_data :: "sky_engine \<Rightarrow> int \<Rightarrow> bool \<Rightarrow> sky_engine" where
  "ske_retain_data e column retain = ske_with_inner (\<lambda>s. retain_data s column retain) e"

definition ske_accept_queued_section_data :: "sky_engine \<Rightarrow> sky_engine" where
  "ske_accept_queued_section_data e =
     ske_with_inner (\<lambda>s. snd (swap_section_map (accept_queued_sections_for_stored_layers s))) e"

definition ske_remove_section :: "sky_engine \<Rightarrow> int \<Rightarrow> bool \<times> sky_engine" where
  "ske_remove_section e section =
     (let (was, s) = sky_remove_section (ske_storage e) section in (was, e\<lparr>ske_storage := s\<rparr>))"

definition ske_forget_column :: "sky_engine \<Rightarrow> int \<Rightarrow> sky_engine" where
  "ske_forget_column e column = e\<lparr>ske_storage := sky_forget_column (ske_storage e) column\<rparr>"

definition check_sky_source :: "sky_engine \<Rightarrow> int \<Rightarrow> sky_engine option" where
  "check_sky_source e pos =
     (if \<not> storing_light_for_section (sky_inner (ske_storage e)) (block_to_section_key pos) then Some e
      else do {
        g \<leftarrow> check_edge (sky_callbacks (ske_world e)) (ske_storage e) (ske_graph e) i64_max pos 0 True;
        Some (e\<lparr>ske_graph := g\<rparr>)
      })"

text \<open>The climb of \<open>check_node\<close> to the first section that stores light, below the top of the column.\<close>

partial_function (option) climb_to_stored :: "sky_storage \<Rightarrow> int \<Rightarrow> int \<Rightarrow> (int \<times> int) option" where
  "climb_to_stored s pos section =
     (if \<not> storing_light_for_section (sky_inner s) section \<and> \<not> is_above_data s section
      then climb_to_stored s (block_pos_offset pos 0 16 0) (section_offset section 0 1 0)
      else Some (pos, section))"

definition sky_check_node :: "(int \<Rightarrow> nat option) \<Rightarrow> sky_storage \<Rightarrow> dynamic_graph \<Rightarrow> int \<Rightarrow> dynamic_graph option" where
  "sky_check_node w s g pos =
     (let section = block_to_section_key pos in
      if storing_light_for_section (sky_inner s) section then check_node (sky_callbacks w) s g pos
      else do {
        (pos, section) \<leftarrow> climb_to_stored s (block_pos_flat_index pos) section;
        if storing_light_for_section (sky_inner s) section then check_node (sky_callbacks w) s g pos else Some g
      })"

fun sky_check_nodes :: "(int \<Rightarrow> nat option) \<Rightarrow> sky_storage \<Rightarrow> dynamic_graph \<Rightarrow> int list \<Rightarrow> dynamic_graph option" where
  "sky_check_nodes w s g [] = Some g"
| "sky_check_nodes w s g (target # targets) = do {
     g \<leftarrow> sky_check_node w s g target;
     sky_check_nodes w s g targets
   }"

definition ske_check_block :: "sky_engine \<Rightarrow> int \<Rightarrow> sky_engine option" where
  "ske_check_block e pos = do {
     g \<leftarrow> sky_check_nodes (ske_world e) (ske_storage e) (ske_graph e) (pos # map (direction_step pos) all_directions);
     Some (e\<lparr>ske_graph := g\<rparr>)
   }"

definition apply_source_updates :: "sky_engine \<Rightarrow> (nat \<times> sky_engine) option" where
  "apply_source_updates e =
     (let (updates, s) = drain_source_updates (ske_storage e) in
      if updates = [] then Some (0, e\<lparr>ske_storage := s\<rparr>)
      else do {
        (s, g) \<leftarrow> apply_sky_updates (ske_world e) s (ske_graph e) updates;
        Some (length updates, e\<lparr>ske_graph := g, ske_storage := s\<rparr>)
      })"

definition ske_run_updates_report ::
  "sky_engine \<Rightarrow> nat \<Rightarrow> (nat \<times> light_engine_run_report \<times> sky_engine) option" where
  "ske_run_updates_report e budget = do {
     (source_update_count, e) \<leftarrow> apply_source_updates e;
     (remaining, report, s, g) \<leftarrow>
       graph_run_updates_report (sky_callbacks (ske_world e)) (ske_storage e) (ske_graph e) budget;
     let (affected, inner) = swap_section_map (sky_inner s);
     Some (remaining,
       \<lparr>ler_graph = report, ler_source_update_count = source_update_count,
        ler_source_updates_us = timing_elapsed_us, ler_graph_us = timing_elapsed_us,
        ler_storage_swap_us = timing_elapsed_us, ler_affected_sections = length affected\<rparr>,
       e\<lparr>ske_graph := g, ske_storage := s\<lparr>sky_inner := inner\<rparr>\<rparr>)
   }"

definition ske_run_updates :: "sky_engine \<Rightarrow> nat \<Rightarrow> (nat \<times> sky_engine) option" where
  "ske_run_updates e budget = do {
     (remaining, report, e) \<leftarrow> ske_run_updates_report e budget;
     Some (remaining, e)
   }"

definition ske_has_work :: "sky_engine \<Rightarrow> bool" where
  "ske_has_work e \<longleftrightarrow> dg_has_work (ske_graph e) \<or> has_source_inconsistencies (ske_storage e)"

partial_function (option) ske_run_all_updates :: "sky_engine \<Rightarrow> sky_engine option" where
  "ske_run_all_updates e =
     (if ske_has_work e then do {
        (remaining, e) \<leftarrow> ske_run_updates e 16384;
        if 0 < remaining then Some e else ske_run_all_updates e
      }
      else Some e)"

definition ske_stored_light :: "sky_engine \<Rightarrow> int \<Rightarrow> nat option" where
  "ske_stored_light e pos = (case get_visible_data_layer (sky_inner (ske_storage e)) (block_to_section_key pos) of
     None \<Rightarrow> Some 0 | Some l \<Rightarrow> layer_at_block l pos)"

end
