(* ===== verification/LightSkyRuns.thy ===== *)
theory LightSkyRuns imports LightSkyEngine
begin

text \<open>
  The sky engine as a client of the flood fill: its invariant, the interpretation of
  \<open>graph_client\<close> on its callbacks, and what every engine operation does to the invariant.  Every
  operation returns; a run that returns with budget left has applied all sources and drained the
  queues.  Sections at the very top of the height range are excluded, because the climb of
  \<open>check_node\<close> would wrap around above them.
\<close>

definition low_tops :: "sky_storage \<Rightarrow> bool" where
  "low_tops s \<longleftrightarrow> (\<forall>c t. fmlookup (sky_tops s) c = Some t \<longrightarrow> t < 2 ^ 19)"

definition sky_ok :: "sky_storage \<Rightarrow> bool" where
  "sky_ok s \<longleftrightarrow> sky_wf s \<and> published (sky_inner s) \<and> i64_max \<notin> stored (sky_inner s) \<and> low_tops s"

definition sky_nodes :: "int set" where
  "sky_nodes = {n. in_i64 n \<and> n \<noteq> i64_max}"

definition sky_level :: "sky_storage \<Rightarrow> int \<Rightarrow> nat" where
  "sky_level s n =
     (if block_to_section_key n \<in> stored (sky_inner s) then 15 - light_of (sky_inner s) n else 15)"

lemma sky_level_less: "sky_level s n < 16"
  by (auto simp: sky_level_def intro: le_less_trans [OF diff_le_self])

lemma sky_okD:
  assumes "sky_ok s"
  shows "storage_wf (sky_inner s)" and "sky_columns_ok s" and "published (sky_inner s)"
    and "i64_max \<notin> stored (sky_inner s)" and "sky_wf s"
  using assms by (simp_all add: sky_ok_def sky_wf_def)

lemma sky_ok_inner:
  assumes "sky_ok s" and "storage_wf inner" and "published inner" and "stored inner = stored (sky_inner s)"
  shows "sky_ok (s\<lparr>sky_inner := inner\<rparr>)"
  using assms by (simp add: sky_ok_def sky_wf_def low_tops_def sky_columns_ok_def sky_sources_def below_top_def)

section \<open>The callbacks\<close>

lemma sky_graph_level_eq:
  assumes "sky_ok s" and "n \<in> sky_nodes"
  shows "sky_graph_level s n = Some (sky_level s n)"
proof -
  note s = sky_okD [OF assms(1)]
  show ?thesis
    using assms(2) get_stored_level_eq [OF s(1), of n] light_of_less [OF s(1), of n]
    by (auto simp: sky_graph_level_def sky_level_def sky_nodes_def storing_light_iff)
qed

lemma sky_set_graph_level_spec:
  assumes ok: "sky_ok s" and n: "n \<in> sky_nodes" and l: "l < 16"
  shows "\<exists>s'. sky_set_graph_level s n l = Some s' \<and> sky_ok s'
    \<and> (\<forall>m\<in>sky_nodes. m \<noteq> n \<longrightarrow> sky_level s' m = sky_level s m)
    \<and> (block_to_section_key n \<in> stored (sky_inner s) \<or> l = 15 \<longrightarrow> sky_level s' n = l)
    \<and> (\<exists>inner. s' = s\<lparr>sky_inner := inner\<rparr> \<and> stored inner = stored (sky_inner s))"
proof (cases "block_to_section_key n \<in> stored (sky_inner s)")
  case True
  have n': "in_i64 n" "n \<noteq> i64_max" using n by (simp_all add: sky_nodes_def)
  have v: "15 - min l 15 < 16" by (rule le_less_trans [OF diff_le_self]) simp
  obtain inner where inner: "set_stored_level (sky_inner s) n (15 - min l 15) = Some inner" "storage_wf inner" "published inner"
    "stored inner = stored (sky_inner s)"
    "\<And>c. in_i64 c \<Longrightarrow> light_of inner c = (if c = n then 15 - min l 15 else light_of (sky_inner s) c)"
    using set_stored_level_spec [OF sky_okD(1) [OF ok] n'(1) True v] sky_okD(3) [OF ok] by blast
  have "sky_ok (s\<lparr>sky_inner := inner\<rparr>)" by (rule sky_ok_inner [OF ok inner(2-4)])
  moreover have "sky_set_graph_level s n l = Some (s\<lparr>sky_inner := inner\<rparr>)"
    using inner(1) n'(2) True by (simp add: sky_set_graph_level_def storing_light_iff)
  ultimately show ?thesis
    using inner(4,5) True l n' by (auto simp: sky_level_def sky_nodes_def)
next
  case False
  then have "sky_set_graph_level s n l = Some s" by (simp add: sky_set_graph_level_def storing_light_iff)
  then show ?thesis using ok False by (auto simp: sky_level_def intro!: exI [of _ "sky_inner s"])
qed

lemma level_from_layer_total: "dl_wf l \<Longrightarrow> \<exists>v\<le>15. level_from_layer l b = Some v"
  using layer_at_block_Some [of l b] by (auto simp: level_from_layer_def)

lemma sky_source_level_total:
  assumes ok: "sky_ok s"
  shows "\<exists>v\<le>15. (case get_updating_data_layer (sky_inner s) k of
      Some l \<Rightarrow> level_from_layer l x
    | None \<Rightarrow> do { v \<leftarrow> sky_get_light_value s x True; Some (sub_u8 15 v) }) = Some v"
proof (cases "get_updating_data_layer (sky_inner s) k")
  case None
  obtain v where "sky_get_light_value s x True = Some v" "v < 16"
    using sky_get_light_value_bound [OF sky_okD(5) [OF ok]] by blast
  then show ?thesis using None by simp
next
  case (Some l)
  then have "dl_wf l" using updating_wf [OF sky_okD(1) [OF ok]] by (simp add: get_updating_data_layer_def)
  then show ?thesis using Some level_from_layer_total by simp
qed

lemma sky_computed_total:
  assumes ok: "sky_ok s"
  shows "\<exists>v. sky_computed_loop w s t x ds c = Some v \<and> v \<le> c"
proof (induction ds arbitrary: c)
  case Nil
  then show ?case by simp
next
  case (Cons d ds)
  let ?src = "direction_step t d"
  let ?l = "get_updating_data_layer (sky_inner s) (block_to_section_key ?src)"
  have layer: "(if block_to_section_key t = block_to_section_key ?src
      then get_updating_data_layer (sky_inner s) (block_to_section_key t) else ?l) = ?l" by simp
  obtain v where v: "(case ?l of Some l \<Rightarrow> level_from_layer l ?src
      | None \<Rightarrow> do { v \<leftarrow> sky_get_light_value s ?src True; Some (sub_u8 15 v) }) = Some v"
    using sky_source_level_total [OF ok] by blast
  let ?c = "sky_compute_level w ?src t v"
  have "sky_computed_loop w s t x (d # ds) c =
      (if ?src = x \<or> ?l = None \<and> d = Down then sky_computed_loop w s t x ds c
       else if min ?c c = 0 then Some (min ?c c) else sky_computed_loop w s t x ds (min ?c c))"
    using v by (auto simp add: Let_def layer min_def simp del: bind_eq_Some)
  moreover obtain v1 where "sky_computed_loop w s t x ds c = Some v1" "v1 \<le> c" using Cons.IH by blast
  moreover obtain v2 where "sky_computed_loop w s t x ds (min ?c c) = Some v2" "v2 \<le> min ?c c" using Cons.IH by blast
  ultimately show ?case by (simp only:) (auto simp del: sky_computed_loop.simps)
qed

text \<open>A check leads to the section of the node or to a section that stores light.\<close>

definition check_ok :: "sky_storage \<Rightarrow> int \<Rightarrow> nat \<Rightarrow> bool \<Rightarrow> neighbor_check \<Rightarrow> bool" where
  "check_ok s n l d c \<longleftrightarrow> in_i64 (nc_target c) \<and> nc_level c = l \<and> nc_is_decrease c = d
     \<and> (block_to_section_key (nc_target c) = block_to_section_key n
        \<or> block_to_section_key (nc_target c) \<in> stored (sky_inner s))"

lemma push_check_ok:
  "in_i64 t \<Longrightarrow> \<forall>c\<in>set cs. check_ok s n l d c
    \<Longrightarrow> \<forall>c\<in>set (sky_push_neighbor_check s x n t l d cs). check_ok s n l d c"
  by (auto simp: sky_push_neighbor_check_def Let_def check_ok_def storing_light_iff)

lemma horizontal_checks_ok:
  "\<forall>c\<in>set cs. check_ok s n l d c \<Longrightarrow> \<forall>c\<in>set (horizontal_checks s n dx dz l d ks cs). check_ok s n l d c"
proof (induction ks arbitrary: cs)
  case Nil
  then show ?case by simp
next
  case (Cons k ks)
  show ?case
  proof (cases "block_to_section_key n = block_to_section_key (block_pos_offset n dx (- k) dz)")
    case True
    then show ?thesis using Cons.prems by (auto simp: check_ok_def)
  next
    case False
    let ?t = "block_pos_offset n dx (- k) dz"
    let ?cs = "if storing_light_for_section (sky_inner s) (block_to_section_key ?t)
      then cs @ [\<lparr>nc_source = block_pos_offset n 0 (- k) 0, nc_target = ?t, nc_level = l, nc_is_decrease = d\<rparr>] else cs"
    have "\<forall>c\<in>set ?cs. check_ok s n l d c" using Cons.prems by (auto simp: check_ok_def storing_light_iff)
    then have "\<forall>c\<in>set (horizontal_checks s n dx dz l d ks ?cs). check_ok s n l d c" by (rule Cons.IH)
    moreover have "horizontal_checks s n dx dz l d (k # ks) cs = horizontal_checks s n dx dz l d ks ?cs"
      using False by (simp only: horizontal_checks.simps Let_def if_False)
    ultimately show ?thesis by (simp only:)
  qed
qed

lemma sky_neighbor_checks_ok: "c \<in> set (sky_neighbor_checks s n l d) \<Longrightarrow> check_ok s n l d c"
proof -
  have fold: "\<forall>c\<in>set (fold (\<lambda>e cs. case step e of (dx, _, dz) \<Rightarrow> horizontal_checks s n dx dz l d ks cs) es cs). check_ok s n l d c"
    if "\<forall>c\<in>set cs. check_ok s n l d c" for es ks cs
    using that
  proof (induction es arbitrary: cs)
    case (Cons e es)
    obtain x y z where e: "step e = (x, y, z)" by (cases "step e")
    have "\<forall>c\<in>set (horizontal_checks s n x z l d ks cs). check_ok s n l d c"
      by (rule horizontal_checks_ok [OF Cons.prems])
    then show ?case using Cons.IH by (simp only: fold_Cons comp_apply e prod.case)
  qed (simp only: fold_Nil id_apply)
  have "\<forall>c\<in>set (sky_neighbor_checks s n l d). check_ok s n l d c"
    unfolding sky_neighbor_checks_def Let_def by (intro fold push_check_ok) simp_all
  then show "c \<in> set (sky_neighbor_checks s n l d) \<Longrightarrow> check_ok s n l d c" by blast
qed

interpretation sky: graph_client "sky_callbacks w" sky_ok sky_level sky_nodes "{n. in_i64 n}" UNIV 16 for w
proof unfold_locales
  show "(2 :: nat) \<le> 16" "(16 :: nat) < 254" by simp_all
  show "sky_nodes \<subseteq> {n. in_i64 n}" by (auto simp: sky_nodes_def)
  fix s n t x l c d
  assume ok: "sky_ok s"
  show "sky_level s n < 16" by (rule sky_level_less)
  show "n \<in> sky_nodes \<Longrightarrow> cb_get_level (sky_callbacks w) s n = Some (sky_level s n)"
    using sky_graph_level_eq [OF ok] by (simp add: sky_callbacks_def)
  show "n \<in> sky_nodes \<Longrightarrow> l < 16 \<Longrightarrow> \<exists>s'. cb_set_level (sky_callbacks w) s n l = Some s' \<and> sky_ok s'
      \<and> (\<forall>m\<in>sky_nodes. m \<noteq> n \<longrightarrow> sky_level s' m = sky_level s m) \<and> (l = 16 - 1 \<longrightarrow> sky_level s' n = l)"
    using sky_set_graph_level_spec [OF ok, of n l] by (auto simp: sky_callbacks_def)
  show "n \<in> sky_nodes \<Longrightarrow> \<not> cb_is_source (sky_callbacks w) s n" by (simp add: sky_callbacks_def sky_nodes_def)
  show "n \<in> {n. in_i64 n} \<Longrightarrow> n \<notin> sky_nodes
      \<Longrightarrow> cb_is_source (sky_callbacks w) s n \<and> (\<exists>l. cb_get_level (sky_callbacks w) s n = Some l)"
    by (simp add: sky_callbacks_def sky_nodes_def sky_graph_level_def)
  show "n \<in> sky_nodes \<Longrightarrow> \<exists>cs. cb_neighbor_checks (sky_callbacks w) s n l d = Some cs
      \<and> (\<forall>c\<in>set cs. nc_source c \<in> UNIV \<and> nc_target c \<in> {n. in_i64 n})"
    using sky_neighbor_checks_ok [of _ s n l d] by (auto simp: sky_callbacks_def check_ok_def)
  show "t \<in> sky_nodes \<Longrightarrow> x \<in> UNIV \<Longrightarrow> c < 16 \<Longrightarrow> \<exists>v. cb_get_computed_level (sky_callbacks w) s t x c = Some v"
    using sky_computed_total [OF ok, of w t x all_directions c] by (auto simp: sky_callbacks_def sky_get_computed_level_def)
qed

section \<open>The invariant of the engine\<close>

abbreviation sky_inv :: "sky_storage \<Rightarrow> dynamic_graph \<Rightarrow> bool" where
  "sky_inv \<equiv> graph_inv sky_ok sky_level sky_nodes 16"

definition work_known :: "dynamic_graph \<Rightarrow> bool" where
  "work_known g \<longleftrightarrow> (dg_has_work g \<longleftrightarrow> dg_first_queued_level g < 16)"

definition sky_engine_ok :: "sky_engine \<Rightarrow> bool" where
  "sky_engine_ok e \<longleftrightarrow> sky_inv (ske_storage e) (ske_graph e) \<and> work_known (ske_graph e)"

abbreviation sky_stored :: "sky_engine \<Rightarrow> int set" where
  "sky_stored e \<equiv> stored (sky_inner (ske_storage e))"

lemma sky_engine_new_spec:
  "\<exists>e. sky_engine_new w = Some e \<and> sky_engine_ok e \<and> ske_world e = w \<and> sky_stored e = {} \<and> \<not> ske_has_work e"
proof -
  obtain g where g: "dynamic_graph_new 16 = Some g" by (simp add: dynamic_graph_new_def)
  note new = graph_new_ok [OF _ g, simplified]
  have "\<not> dg_has_work g" "dg_first_queued_level g = 16" using g by (auto simp: dynamic_graph_new_def)
  moreover have "sky_ok sky_storage_new" "\<not> has_source_inconsistencies sky_storage_new"
    using sky_new_ok by (simp_all add: sky_ok_def low_tops_def sky_storage_new_def has_source_inconsistencies_def)
  ultimately show ?thesis
    using new sky_new_ok(3) by (simp add: sky_engine_new_def g sky_engine_ok_def graph_inv_def ske_has_work_def work_known_def)
qed

lemma sky_engine_okD:
  assumes "sky_engine_ok e"
  shows "sky_inv (ske_storage e) (ske_graph e)" and "work_known (ske_graph e)" and "sky_ok (ske_storage e)"
  using assms by (simp_all add: sky_engine_ok_def graph_inv_def)

text \<open>A run of edge checks, wherever it leads.\<close>

lemma check_edges_total:
  "sky_inv s g \<Longrightarrow> \<forall>e\<in>set es. in_i64 (fst (snd e))
    \<Longrightarrow> \<exists>g'. check_edges (sky_callbacks w) s g es = Some g' \<and> sky_inv s g' \<and> (work_known g \<longrightarrow> work_known g')"
proof (induction es arbitrary: g)
  case Nil
  then show ?case by simp
next
  case (Cons p es)
  obtain x t c d where p: "p = (x, t, c, d)" by (cases p)
  have t: "t \<in> {n. in_i64 n}" using Cons.prems(2) by (simp add: p)
  obtain g1 where g1: "check_edge (sky_callbacks w) s g x t c d = Some g1" "sky_inv s g1" "work_known g1"
    using sky.check_edge_total [OF Cons.prems(1) t, of x w c d] by (auto simp: work_known_def)
  have "\<forall>e\<in>set es. in_i64 (fst (snd e))" using Cons.prems(2) by simp
  then show ?case using Cons.IH [OF g1(2)] g1 by (auto simp: p)
qed

lemma section_top_in_i64: "pos \<in> set (section_top_positions k) \<Longrightarrow> in_i64 pos"
  by (auto simp: section_top_positions_def Let_def)

lemma face_edge_in_i64: "d \<in> set horizontals \<Longrightarrow> in_i64 (snd (face_edge k d ab))"
  by (cases ab) (auto simp: face_edge_def horizontals_def Let_def)

lemma edges_in_i64:
  "\<forall>e\<in>set (horizontal_edges w s k). in_i64 (fst (snd e))"
  "\<forall>e\<in>set (bottom_edges w k). in_i64 (fst (snd e))"
proof -
  have "in_i64 (fst (snd (decrease_edge w (face_edge k d ab))))" if "d \<in> set horizontals" for d ab
    using face_edge_in_i64 [OF that, of k ab] by (cases "face_edge k d ab") (simp add: decrease_edge_def)
  moreover have "\<exists>d\<in>set horizontals. \<exists>ab. e = decrease_edge w (face_edge k d ab)" if "e \<in> set (horizontal_edges w s k)" for e
    using that by (auto simp: horizontal_edges_def Let_def split: prod.splits if_splits)
  ultimately show "\<forall>e\<in>set (horizontal_edges w s k). in_i64 (fst (snd e))" by metis
  show "\<forall>e\<in>set (bottom_edges w k). in_i64 (fst (snd e))"
    by (auto simp: bottom_edges_def decrease_edge_def Let_def)
qed

lemma data_source_total:
  assumes "sky_inv s g"
  shows "\<exists>g'. apply_data_source_add w s g k = Some g' \<and> sky_inv s g' \<and> (work_known g \<longrightarrow> work_known g')"
    and "\<exists>g'. apply_source_remove w s g k = Some g' \<and> sky_inv s g' \<and> (work_known g \<longrightarrow> work_known g')"
  unfolding apply_data_source_add_def apply_source_remove_def
  by (rule check_edges_total [OF assms]; use section_top_in_i64 in fastforce)+

text \<open>A lit section without blocks is filled with light at once; no other level changes.\<close>

lemma light_only_source_total:
  assumes inv: "sky_inv s g" and k: "k \<in> stored (sky_inner s)"
  shows "\<exists>s' g'. apply_light_only_source_add w s g k = Some (s', g') \<and> sky_inv s' g' \<and> (work_known g \<longrightarrow> work_known g')
    \<and> stored (sky_inner s') = stored (sky_inner s)
    \<and> (\<forall>n. sky_level s' n = (if block_to_section_key n = k then 0 else sky_level s n))
    \<and> (\<exists>inner. s' = s\<lparr>sky_inner := inner\<rparr>)"
proof -
  let ?P = "\<lambda>n. n \<noteq> i64_max \<and> block_to_section_key n = k"
  have ok: "sky_ok s" using inv by (simp add: graph_inv_def)
  obtain g1 where g1: "remove_if (sky_callbacks w) s g ?P = Some g1" "sky_inv s g1"
    "\<And>m. fmlookup (dg_computed_levels g1) m = (if ?P m then None else fmlookup (dg_computed_levels g) m)"
    "work_known g \<longrightarrow> work_known g1"
    using sky.remove_if_total [OF inv, of w ?P] unfolding work_known_def by blast
  obtain inner where inner: "fill_stored_section (sky_inner s) k 15 = Some inner" "storage_wf inner"
    "stored inner = stored (sky_inner s)" "published inner"
    "\<And>c. light_of inner c = (if block_to_section_key c = k then 15 else light_of (sky_inner s) c)"
    using fill_stored_section_spec [OF sky_okD(1) [OF ok] k, of 15] sky_okD(3) [OF ok] by auto
  let ?s = "s\<lparr>sky_inner := inner\<rparr>"
  have ok': "sky_ok ?s" by (rule sky_ok_inner [OF ok inner(2,4,3)])
  have lev: "sky_level ?s n = (if block_to_section_key n = k then 0 else sky_level s n)" for n
    using k inner(3,5) by (simp add: sky_level_def)
  have "block_to_section_key n \<noteq> k" if "n |\<in>| fmdom (dg_computed_levels g1)" for n
  proof -
    have "n \<in> sky_nodes" using that sky.cinvD(4) [OF g1(2)] by blast
    then show ?thesis using that g1(3) [of n] by (auto simp: fmlookup_dom_iff sky_nodes_def)
  qed
  then have inv1: "sky_inv ?s g1" by (intro sky.cinv_storage [OF g1(2) ok']) (simp add: lev)
  obtain g2 where g2: "check_edges (sky_callbacks w) ?s g1 (horizontal_edges w ?s k) = Some g2" "sky_inv ?s g2"
    "work_known g1 \<longrightarrow> work_known g2"
    using check_edges_total [OF inv1 edges_in_i64(1)] by blast
  obtain g3 where g3: "check_edges (sky_callbacks w) ?s g2 (bottom_edges w k) = Some g3" "sky_inv ?s g3"
    "work_known g2 \<longrightarrow> work_known g3"
    using check_edges_total [OF g2(2) edges_in_i64(2)] by blast
  have "apply_light_only_source_add w s g k = Some (?s, g3)"
    by (simp add: apply_light_only_source_add_def g1(1) inner(1) g2(1) g3(1) Let_def del: bind_eq_Some)
  then show ?thesis using g3 g2(3) g1(4) lev inner(3) by auto
qed

lemma apply_sky_updates_total:
  "sky_inv s g \<Longrightarrow> \<forall>u\<in>set us. ssu_section u \<in> stored (sky_inner s)
    \<Longrightarrow> \<exists>s' g'. apply_sky_updates w s g us = Some (s', g') \<and> sky_inv s' g' \<and> (work_known g \<longrightarrow> work_known g')
      \<and> (\<exists>inner. s' = s\<lparr>sky_inner := inner\<rparr> \<and> stored inner = stored (sky_inner s))"
proof (induction us arbitrary: s g)
  case Nil
  then show ?case by (auto intro!: exI [of _ "sky_inner s"])
next
  case (Cons u us)
  have "\<exists>s1 g1. (case ssu_kind u of
         AddSource \<Rightarrow>
           if section_level (sky_inner s) (ssu_section u) = light_only
           then apply_light_only_source_add w s g (ssu_section u)
           else do { g \<leftarrow> apply_data_source_add w s g (ssu_section u); Some (s, g) }
       | RemoveSource \<Rightarrow> do { g \<leftarrow> apply_source_remove w s g (ssu_section u); Some (s, g) }) = Some (s1, g1)
     \<and> sky_inv s1 g1 \<and> (work_known g \<longrightarrow> work_known g1)
     \<and> (\<exists>inner. s1 = s\<lparr>sky_inner := inner\<rparr> \<and> stored inner = stored (sky_inner s))"
  proof -
    have same: "\<exists>inner. s = s\<lparr>sky_inner := inner\<rparr> \<and> stored inner = stored (sky_inner s)"
      by (rule exI [of _ "sky_inner s"]) simp
    have k: "ssu_section u \<in> stored (sky_inner s)" using Cons.prems(2) by simp
    show ?thesis
      using light_only_source_total [OF Cons.prems(1) k, of w] data_source_total [OF Cons.prems(1), of w "ssu_section u"] same
      by (auto split: sky_source_update_kind.split)
  qed
  then obtain s1 g1 inner where s1: "(case ssu_kind u of
         AddSource \<Rightarrow>
           if section_level (sky_inner s) (ssu_section u) = light_only
           then apply_light_only_source_add w s g (ssu_section u)
           else do { g \<leftarrow> apply_data_source_add w s g (ssu_section u); Some (s, g) }
       | RemoveSource \<Rightarrow> do { g \<leftarrow> apply_source_remove w s g (ssu_section u); Some (s, g) }) = Some (s1, g1)"
     "sky_inv s1 g1" "work_known g \<longrightarrow> work_known g1"
     "s1 = s\<lparr>sky_inner := inner\<rparr>" "stored inner = stored (sky_inner s)" by blast
  obtain s2 g2 i2 where s2: "apply_sky_updates w s1 g1 us = Some (s2, g2)" "sky_inv s2 g2" "work_known g1 \<longrightarrow> work_known g2"
     "s2 = s1\<lparr>sky_inner := i2\<rparr>" "stored i2 = stored (sky_inner s1)"
    using Cons.IH [OF s1(2)] Cons.prems(2) s1(4,5) by fastforce
  have "apply_sky_updates w s g (u # us) = Some (s2, g2)"
    unfolding apply_sky_updates.simps s1(1) using s2(1) by simp
  then show ?case using s1 s2 by (intro exI [of _ s2] exI [of _ g2]) auto
qed

section \<open>Running\<close>

text \<open>The storage may lose or change sources as long as the sections stay.\<close>

lemma sky_inv_sources:
  assumes inv: "sky_inv s g" and "sky_wf s'" and "sky_inner s' = sky_inner s" and "sky_tops s' = sky_tops s"
  shows "sky_inv s' g"
proof -
  have "sky_ok s" using inv by (simp add: graph_inv_def)
  then have "sky_ok s'" using assms(2-4) by (simp add: sky_ok_def low_tops_def)
  then show ?thesis by (rule sky.cinv_storage [OF inv]) (simp add: sky_level_def assms(3))
qed

lemma drained_updates_stored:
  assumes "sky_wf s" and "u \<in> set (fst (drain_source_updates s))"
  shows "ssu_section u \<in> stored (sky_inner s)"
proof (cases "ssu_kind u")
  case AddSource
  then show ?thesis using drain_source_updates_spec(4) [OF assms(1)] assms(2) by blast
next
  case RemoveSource
  then show ?thesis using drain_source_updates_spec(5) [OF assms(1)] assms(2) by blast
qed

lemma apply_source_updates_spec:
  assumes ok: "sky_engine_ok e"
  shows "\<exists>n e'. apply_source_updates e = Some (n, e') \<and> sky_engine_ok e' \<and> ske_world e' = ske_world e
     \<and> \<not> has_source_inconsistencies (ske_storage e') \<and> sky_stored e' = sky_stored e
     \<and> sky_columns (ske_storage e') = sky_columns (ske_storage e)
     \<and> n = length (fst (drain_source_updates (ske_storage e)))"
proof -
  note e = sky_engine_okD [OF ok]
  have wf: "sky_wf (ske_storage e)" using e(3) by (simp add: sky_ok_def)
  obtain us s where d: "drain_source_updates (ske_storage e) = (us, s)" by fastforce
  note D = drain_source_updates_spec [OF wf, unfolded d, simplified]
  have inv: "sky_inv s (ske_graph e)" by (rule sky_inv_sources [OF e(1) D(1,2,8)])
  have us: "\<forall>u\<in>set us. ssu_section u \<in> stored (sky_inner s)"
    using drained_updates_stored [OF wf] by (simp add: d D(2))
  obtain s' g' inner where a: "apply_sky_updates (ske_world e) s (ske_graph e) us = Some (s', g')" "sky_inv s' g'"
    "work_known (ske_graph e) \<longrightarrow> work_known g'" "s' = s\<lparr>sky_inner := inner\<rparr>" "stored inner = stored (sky_inner s)"
    using apply_sky_updates_total [OF inv us, of "ske_world e"] by blast
  show ?thesis
  proof (cases "us = []")
    case True
    then show ?thesis using inv D e(2) by (simp add: apply_source_updates_def d sky_engine_ok_def)
  next
    case False
    have "\<not> has_source_inconsistencies s'" using D(3) by (simp add: a(4) has_source_inconsistencies_def)
    then show ?thesis using False a D e(2) by (simp add: apply_source_updates_def d sky_engine_ok_def)
  qed
qed

definition sky_shows :: "sky_engine \<Rightarrow> bool" where
  "sky_shows e \<longleftrightarrow> sm_map (ss_visible (sky_inner (ske_storage e))) = sm_map (ss_updating (sky_inner (ske_storage e)))"

definition sky_frame :: "sky_storage \<Rightarrow> sky_storage \<Rightarrow> bool" where
  "sky_frame s s' \<longleftrightarrow> (\<exists>inner. s' = s\<lparr>sky_inner := inner\<rparr> \<and> stored inner = stored (sky_inner s))"

lemma set_stored_level_stored:
  "set_stored_level s b l = Some s' \<Longrightarrow> stored s' = stored s"
  by (auto simp: set_stored_level_def touch_section_def stored_def copy_data_layer_eq Let_def fmlookup_dom_iff
      split: if_splits)

lemma sky_frame_write: "cb_set_level (sky_callbacks w) s n l = Some s' \<Longrightarrow> sky_frame s s'"
  using set_stored_level_stored [of "sky_inner s" n "15 - min l 15"]
  by (auto simp: sky_callbacks_def sky_set_graph_level_def sky_frame_def split: if_splits
      intro: exI [of _ "sky_inner s"])

lemma sky_frame_refl: "sky_frame s s"
  unfolding sky_frame_def by (rule exI [of _ "sky_inner s"]) simp

lemma sky_frame_trans: "sky_frame a b \<Longrightarrow> sky_frame b c \<Longrightarrow> sky_frame a c"
  by (auto simp: sky_frame_def)

lemma sky_run_frame:
  assumes "sky_inv s g"
  shows "\<exists>r rep s' g'. graph_run_updates_report (sky_callbacks w) s g b = Some (r, rep, s', g') \<and> sky_inv s' g'
     \<and> (0 < r \<longrightarrow> 16 \<le> dg_first_queued_level g') \<and> gr_processed_nodes rep + r = b
     \<and> (work_known g \<longrightarrow> work_known g') \<and> sky_frame s s'"
proof -
  obtain r rep s' g' where run: "graph_run_updates_report (sky_callbacks w) s g b = Some (r, rep, s', g')" "sky_inv s' g'"
    "0 < r \<longrightarrow> 16 \<le> dg_first_queued_level g'" "gr_processed_nodes rep + r = b" "work_known g \<longrightarrow> work_known g'"
    using sky.run_report_total [OF assms, of w b] unfolding work_known_def by blast
  moreover have "sky_frame s s'"
    by (rule run_report_frame [of "sky_callbacks w" sky_frame, OF sky_frame_write sky_frame_refl sky_frame_trans run(1)])
  ultimately show ?thesis by blast
qed

text \<open>A run always returns.  It has applied every source, it uses the budget it reports, it
  publishes what it wrote, and if budget is left there is no work left.\<close>

lemma ske_run_spec:
  assumes ok: "sky_engine_ok e"
  shows "\<exists>r rep e'. ske_run_updates_report e b = Some (r, rep, e') \<and> sky_engine_ok e' \<and> ske_world e' = ske_world e
     \<and> sky_stored e' = sky_stored e \<and> sky_shows e' \<and> gr_processed_nodes (ler_graph rep) + r = b
     \<and> \<not> has_source_inconsistencies (ske_storage e') \<and> (0 < r \<longrightarrow> \<not> ske_has_work e')"
proof -
  obtain n e1 where e1: "apply_source_updates e = Some (n, e1)" "sky_engine_ok e1" "ske_world e1 = ske_world e"
    "\<not> has_source_inconsistencies (ske_storage e1)" "sky_stored e1 = sky_stored e"
    using apply_source_updates_spec [OF ok] by blast
  note i1 = sky_engine_okD [OF e1(2)]
  obtain r rep s g where run: "graph_run_updates_report (sky_callbacks (ske_world e)) (ske_storage e1) (ske_graph e1) b
      = Some (r, rep, s, g)" "sky_inv s g" "0 < r \<longrightarrow> 16 \<le> dg_first_queued_level g" "gr_processed_nodes rep + r = b"
    "work_known (ske_graph e1) \<longrightarrow> work_known g" "sky_frame (ske_storage e1) s"
    using sky_run_frame [OF i1(1), of "ske_world e" b] by blast
  have oks: "sky_ok s" using run(2) by (simp add: graph_inv_def)
  let ?i = "snd (swap_section_map (sky_inner s))"
  note swap = swap_section_map_spec [OF sky_okD(1,3) [OF oks]]
  let ?e = "e1\<lparr>ske_graph := g, ske_storage := s\<lparr>sky_inner := ?i\<rparr>\<rparr>"
  have "sky_ok (s\<lparr>sky_inner := ?i\<rparr>)" by (rule sky_ok_inner [OF oks swap(3,4,6)])
  then have inv: "sky_inv (s\<lparr>sky_inner := ?i\<rparr>) g"
    by (rule sky.cinv_storage [OF run(2)]) (simp add: sky_level_def swap(6,7))
  have "ske_run_updates_report e b = Some (r, \<lparr>ler_graph = rep, ler_source_update_count = n,
      ler_source_updates_us = timing_elapsed_us, ler_graph_us = timing_elapsed_us,
      ler_storage_swap_us = timing_elapsed_us, ler_affected_sections = length (fst (swap_section_map (sky_inner s)))\<rparr>, ?e)"
    by (simp add: ske_run_updates_report_def e1(1,3) run(1) Let_def del: bind_eq_Some split: prod.split)
  moreover have "work_known g" using run(5) i1(2) by blast
  moreover have "\<not> has_source_inconsistencies s" "stored (sky_inner s) = sky_stored e"
    using run(6) e1(4,5) by (auto simp: sky_frame_def has_source_inconsistencies_def)
  ultimately show ?thesis
    using inv run(3,4) e1(3) swap(1,2,6)
    by (simp add: sky_engine_ok_def sky_shows_def has_source_inconsistencies_def ske_has_work_def work_known_def not_less)
qed

text \<open>Light as it is read after a run.\<close>

lemma sky_stored_light_eq:
  assumes ok: "sky_engine_ok e" and vis: "sky_shows e"
  shows "ske_stored_light e b = Some (15 - sky_level (ske_storage e) b)"
proof (cases "fmlookup (sm_map (ss_updating (sky_inner (ske_storage e)))) (block_to_section_key b)")
  case None
  then show ?thesis
    using vis by (simp add: ske_stored_light_def get_visible_data_layer_def sky_shows_def sky_level_def stored_def fmlookup_dom_iff)
next
  case (Some l)
  note wf = sky_okD(1) [OF sky_engine_okD(3) [OF ok]]
  have "15 - (15 - light_of (sky_inner (ske_storage e)) b) = light_of (sky_inner (ske_storage e)) b"
    using light_of_less [OF wf, of b] by simp
  then show ?thesis
    using layer_at_block_light [OF Some wf] Some vis
    by (simp add: ske_stored_light_def get_visible_data_layer_def sky_shows_def sky_level_def stored_def fmlookup_dom_iff)
qed

lemma ske_run_all_unfold:
  assumes "ske_run_updates e 16384 = Some (r, e')" and "0 < r"
  shows "ske_run_all_updates e = Some (if ske_has_work e then e' else e)"
  using assms by (subst ske_run_all_updates.simps) simp

section \<open>The climb of a block check\<close>

lemma flat_index_in_i64: "in_i64 k \<Longrightarrow> in_i64 (block_pos_flat_index k)"
proof -
  assume k: "in_i64 k"
  have "bit (wrap_i64 (k AND NOT 15)) n = bit (k AND NOT (15 :: int)) n" for n
    using bit_in_i64 [OF k, of n] bit_in_i64 [of "- 16" n]
    by (simp add: bit_wrap_i64 bit_and_iff in_i64_def)
  then have "wrap_i64 (k AND NOT 15) = k AND NOT 15" by (intro bit_eqI)
  then show ?thesis unfolding block_pos_flat_index_def by (metis in_i64_wrap)
qed

lemma section_above:
  assumes k: "in_i64 k" and y: "section_y k + 1 < 2 ^ 19"
  shows "section_y (section_offset k 0 1 0) = section_y k + 1"
    and "section_get_zero_node (section_offset k 0 1 0) = section_get_zero_node k"
proof -
  have w: "wrap_i32 (section_x k) = section_x k" "wrap_i32 (section_z k) = section_z k"
    by (simp_all add: section_x_def section_z_def)
  show "section_y (section_offset k 0 1 0) = section_y k + 1"
    using section_range [OF k] y by (simp add: section_offset_def trunc_id)
  show "section_get_zero_node (section_offset k 0 1 0) = section_get_zero_node k"
    using w by (simp add: section_offset_def zero_node_as_long zero_node_eq [OF k])
qed

text \<open>The climb stops at the lowest section at or above the start that stores light or lies above
  the column.\<close>

definition climb_end :: "sky_storage \<Rightarrow> int \<Rightarrow> int \<Rightarrow> bool" where
  "climb_end s sec k \<longleftrightarrow> in_i64 k \<and> section_get_zero_node k = section_get_zero_node sec \<and> section_y sec \<le> section_y k
     \<and> (k \<in> stored (sky_inner s) \<or> is_above_data s k)
     \<and> (\<forall>j. in_i64 j \<longrightarrow> section_get_zero_node j = section_get_zero_node sec \<longrightarrow> section_y sec \<le> section_y j
          \<longrightarrow> section_y j < section_y k \<longrightarrow> j \<notin> stored (sky_inner s) \<and> \<not> is_above_data s j)"

lemma climb_total:
  assumes low: "low_tops s"
  shows "in_i64 sec \<Longrightarrow> in_i64 pos
    \<Longrightarrow> \<exists>p k. climb_to_stored s pos sec = Some (p, k) \<and> in_i64 p \<and> climb_end s sec k"
proof (induction "nat (top_section s sec - section_y sec)" arbitrary: pos sec rule: less_induct)
  case less
  show ?case
  proof (cases "sec \<in> stored (sky_inner s) \<or> is_above_data s sec")
    case True
    then have "climb_to_stored s pos sec = Some (pos, sec)"
      by (subst climb_to_stored.simps) (auto simp: storing_light_iff)
    moreover have "climb_end s sec sec" using True less.prems by (auto simp: climb_end_def)
    ultimately show ?thesis using less.prems by blast
  next
    case False
    let ?up = "section_offset sec 0 1 0"
    have top: "top_section s sec \<noteq> sky_lowest_y s" "section_y sec < top_section s sec"
      using False by (auto simp: is_above_data_def Let_def)
    then obtain t where t: "fmlookup (sky_tops s) (section_get_zero_node sec) = Some t" "top_section s sec = t"
      by (cases "fmlookup (sky_tops s) (section_get_zero_node sec)") (auto simp: top_section_def)
    have "t < 2 ^ 19" using low t(1) by (auto simp: low_tops_def)
    then have y: "section_y sec + 1 < 2 ^ 19" using top(2) t(2) by simp
    note up = section_above [OF less.prems(1) y]
    have tops: "top_section s ?up = top_section s sec" by (simp add: top_section_def up(2))
    obtain p k where ih: "climb_to_stored s (block_pos_offset pos 0 16 0) ?up = Some (p, k)" "in_i64 p" "climb_end s ?up k"
      using less.hyps [of ?up "block_pos_offset pos 0 16 0"] top(2) tops up(1) by auto
    have "climb_to_stored s pos sec = Some (p, k)"
      using False ih(1) by (subst climb_to_stored.simps) (simp add: storing_light_iff)
    moreover have "climb_end s sec k"
    proof -
      have "j \<notin> stored (sky_inner s) \<and> \<not> is_above_data s j"
        if "in_i64 j" "section_get_zero_node j = section_get_zero_node sec" "section_y sec \<le> section_y j" "section_y j < section_y k" for j
      proof (cases "section_y j = section_y sec")
        case True
        then have "j = sec" using section_eqI [OF that(1) less.prems(1) that(2)] by simp
        then show ?thesis using False by simp
      next
        case ne: False
        then show ?thesis using ih(3) that by (auto simp: climb_end_def up)
      qed
      then show ?thesis using ih(3) by (auto simp: climb_end_def up)
    qed
    ultimately show ?thesis using ih(2) by blast
  qed
qed

lemma check_node_total:
  assumes "sky_inv s g" and "in_i64 n"
  shows "\<exists>g'. check_node (sky_callbacks w) s g n = Some g' \<and> sky_inv s g' \<and> work_known g'"
  using sky.check_edge_total [OF assms(1), of n n w] assms(2) by (auto simp: check_node_def work_known_def)

lemma sky_check_node_total:
  assumes inv: "sky_inv s g" and n: "in_i64 n"
  shows "\<exists>g'. sky_check_node w s g n = Some g' \<and> sky_inv s g' \<and> (work_known g \<longrightarrow> work_known g')"
proof (cases "block_to_section_key n \<in> stored (sky_inner s)")
  case True
  then show ?thesis using check_node_total [OF assms, of w] by (auto simp: sky_check_node_def storing_light_iff)
next
  case False
  have "low_tops s" using inv by (simp add: graph_inv_def sky_ok_def)
  then obtain p k where "climb_to_stored s (block_pos_flat_index n) (block_to_section_key n) = Some (p, k)" "in_i64 p"
    using climb_total [of s "block_to_section_key n" "block_pos_flat_index n"] flat_index_in_i64 [OF n] by auto
  then show ?thesis using False inv check_node_total [OF inv, of p w]
    by (auto simp: sky_check_node_def storing_light_iff)
qed

lemma sky_check_nodes_total:
  "sky_inv s g \<Longrightarrow> \<forall>n\<in>set ns. in_i64 n
    \<Longrightarrow> \<exists>g'. sky_check_nodes w s g ns = Some g' \<and> sky_inv s g' \<and> (work_known g \<longrightarrow> work_known g')"
proof (induction ns arbitrary: g)
  case Nil
  then show ?case by simp
next
  case (Cons n ns)
  obtain g1 where g1: "sky_check_node w s g n = Some g1" "sky_inv s g1" "work_known g \<longrightarrow> work_known g1"
    using sky_check_node_total [OF Cons.prems(1), of n w] Cons.prems(2) by auto
  then show ?case using Cons.IH [OF g1(2)] Cons.prems(2) by auto
qed

lemma ske_check_block_spec:
  assumes ok: "sky_engine_ok e" and pos: "in_i64 pos"
  shows "\<exists>e'. ske_check_block e pos = Some e' \<and> sky_engine_ok e' \<and> ske_storage e' = ske_storage e \<and> ske_world e' = ske_world e"
proof -
  have ns: "\<forall>n\<in>set (pos # map (direction_step pos) all_directions). in_i64 n" using pos by simp
  show ?thesis
    using sky_check_nodes_total [OF sky_engine_okD(1) [OF ok] ns, of "ske_world e"] sky_engine_okD(2) [OF ok]
    by (auto simp: ske_check_block_def sky_engine_ok_def simp del: sky_check_nodes.simps)
qed

lemma check_sky_source_spec:
  assumes ok: "sky_engine_ok e" and pos: "in_i64 pos"
  shows "\<exists>e'. check_sky_source e pos = Some e' \<and> sky_engine_ok e' \<and> ske_storage e' = ske_storage e \<and> ske_world e' = ske_world e"
  using sky.check_edge_total [OF sky_engine_okD(1) [OF ok], of pos i64_max "ske_world e" 0 True] ok pos
  by (auto simp: check_sky_source_def sky_engine_ok_def work_known_def)

end
