(* ===== verification/LightBlockRuns.thy ===== *)
theory LightBlockRuns imports LightBlock
begin

text \<open>
  The block-light engine as a whole: the invariant of graph and storage, what each operation of
  \<open>block_engine.rs\<close> does to it, and the light that a drained engine shows.  A stored block is
  suspect when its pending level is not what its emission and its neighbours ask for; checking a
  block clears the suspicion, running never creates one.
\<close>

section \<open>Running to the end\<close>

context strict_min_fixed_point
begin

lemma run_loop_progress:
  assumes "inv s g" and "dg_first_queued_level g < lc" and "run_loop cb s g b p = Some (r, p', s', g')" and "0 < b"
  shows "(progress_measure (s', g'), progress_measure (s, g)) \<in> progress_order\<^sup>+"
  using assms
proof (induction b arbitrary: s g p)
  case 0
  then show ?case by simp
next
  case (Suc b)
  obtain s1 g1 where s1: "run_step cb s g = Some (True, s1, g1)" "inv s1 g1"
    "suspects tgt D (lev s1) g1 \<subseteq> suspects tgt D (lev s) g" "step_progress s g s1 g1"
    using run_step_spec [OF Suc.prems(1,2)] strict_edges by blast
  have first: "(progress_measure (s1, g1), progress_measure (s, g)) \<in> progress_order"
    by (rule step_decreases [OF Suc.prems(1) s1(3,4)])
  have rest: "run_loop cb s1 g1 b (p + 1) = Some (r, p', s', g')"
    using Suc.prems(2,3) s1(1) invD(3) [OF Suc.prems(1)] by simp
  show ?case
  proof (cases "0 < b \<and> dg_first_queued_level g1 < lc")
    case True
    then have "(progress_measure (s', g'), progress_measure (s1, g1)) \<in> progress_order\<^sup>+"
      by (intro Suc.IH [OF s1(2) _ rest]) simp_all
    then show ?thesis using first by (rule trancl_into_trancl)
  next
    case False
    have "run_loop cb s1 g1 b (p + 1) = Some (b, p + 1, s1, g1)"
      using False invD(3) [OF s1(2)] by (cases b) auto
    then have "s' = s1" "g' = g1" using rest by simp_all
    then show ?thesis using first by (blast intro: r_into_trancl)
  qed
qed

end

section \<open>The invariant\<close>

abbreviation block_stored :: "block_engine \<Rightarrow> int set" where
  "block_stored e \<equiv> stored (be_storage e)"

definition block_engine_ok :: "block_engine \<Rightarrow> bool" where
  "block_engine_ok e \<longleftrightarrow>
     graph_inv (block_ok (block_stored e)) (light_level (block_stored e)) (light_nodes (block_stored e)) 16
       (be_storage e) (be_graph e)
     \<and> (dg_has_work (be_graph e) \<longleftrightarrow> dg_first_queued_level (be_graph e) < 16)"

definition block_target :: "block_light_world \<Rightarrow> int set \<Rightarrow> (int \<Rightarrow> nat) \<Rightarrow> int \<Rightarrow> nat" where
  "block_target w S = min_target 16 (emission_level w) (light_neighbors S) (block_compute_level w)"

definition block_suspects :: "block_engine \<Rightarrow> int set" where
  "block_suspects e = suspects (block_target (be_world e) (block_stored e)) (light_nodes (block_stored e))
     (light_level (block_stored e) (be_storage e)) (be_graph e)"

lemma block_okD:
  assumes "block_engine_ok e"
  shows "storage_wf (be_storage e)" and "published (be_storage e)" and "i64_max \<notin> block_stored e"
    and "graph_ok (light_level (block_stored e) (be_storage e)) (be_graph e)"
    and "dg_level_count (be_graph e) = 16"
    and "fset (fmdom (dg_computed_levels (be_graph e))) \<subseteq> light_nodes (block_stored e)"
    and "block_has_work e \<longleftrightarrow> dg_first_queued_level (be_graph e) < 16"
  using assms by (simp_all add: block_engine_ok_def graph_inv_def block_ok_def block_has_work_def)

lemma block_engine_new_spec:
  "\<exists>e. block_engine_new w = Some e \<and> block_engine_ok e \<and> be_world e = w \<and> block_stored e = {}
     \<and> \<not> block_has_work e \<and> block_suspects e = {}"
proof -
  obtain g where g: "dynamic_graph_new 16 = Some g" by (simp add: dynamic_graph_new_def)
  note new = graph_new_ok [OF _ g, simplified]
  have "\<not> dg_has_work g" "dg_first_queued_level g = 16" using g by (auto simp: dynamic_graph_new_def)
  then show ?thesis
    using new by (simp add: block_engine_new_def g block_engine_ok_def graph_inv_def block_ok_def storage_new_ok
        block_has_work_def block_suspects_def suspects_def light_nodes_def)
qed

text \<open>A graph whose pending nodes keep their levels stays consistent when the storage changes.\<close>

lemma graph_ok_levels:
  assumes "graph_ok lv g" and "\<And>n. n |\<in>| fmdom (dg_computed_levels g) \<Longrightarrow> lv' n = lv n"
  shows "graph_ok lv' g"
proof -
  have "key_of lv' g = key_of lv g"
  proof
    fix n
    show "key_of lv' g n = key_of lv g n"
      using assms(2) [of n] by (cases "fmlookup (dg_computed_levels g) n") (auto simp: key_of_def fmlookup_dom_iff)
  qed
  then show ?thesis using assms(1) by (simp add: graph_ok_def)
qed

lemma block_storage_changed:
  assumes ok: "block_engine_ok e" and wf: "storage_wf s" "published s" "i64_max \<notin> stored s"
    and keep: "\<And>n. n |\<in>| fmdom (dg_computed_levels (be_graph e))
      \<Longrightarrow> block_to_section_key n \<in> stored s \<and> light_of s n = light_of (be_storage e) n"
  shows "block_engine_ok (e\<lparr>be_storage := s\<rparr>)"
proof -
  note e = block_okD [OF ok]
  have "n \<in> light_nodes (stored s) \<and> light_level (stored s) s n = light_level (block_stored e) (be_storage e) n"
    if "n |\<in>| fmdom (dg_computed_levels (be_graph e))" for n
    using keep [OF that] e(6) that by (auto simp: light_nodes_def light_level_def)
  then have "graph_ok (light_level (stored s) s) (be_graph e)"
    "fset (fmdom (dg_computed_levels (be_graph e))) \<subseteq> light_nodes (stored s)"
    by (auto intro: graph_ok_levels [OF e(4)])
  then show ?thesis using ok wf e(5) by (simp add: block_engine_ok_def graph_inv_def block_ok_def)
qed

section \<open>Checking blocks\<close>

definition block_checked :: "block_engine \<Rightarrow> int set \<Rightarrow> block_engine \<Rightarrow> bool" where
  "block_checked e ts e' \<longleftrightarrow> block_engine_ok e' \<and> be_storage e' = be_storage e \<and> be_world e' = be_world e
     \<and> block_suspects e' = block_suspects e - ts"

lemma check_one_spec:
  assumes ok: "block_engine_ok e" and t: "in_i64 t" and st: "storing_light_for_section (be_storage e) (block_to_section_key t)"
  shows "\<exists>g. check_node (block_callbacks (be_world e)) (be_storage e) (be_graph e) t = Some g
     \<and> block_checked e {t} (e\<lparr>be_graph := g\<rparr>)"
proof -
  let ?S = "block_stored e" and ?s = "be_storage e" and ?w = "be_world e"
  have inv: "graph_inv (block_ok ?S) (light_level ?S) (light_nodes ?S) 16 ?s (be_graph e)"
    using ok by (simp add: block_engine_ok_def)
  have tS: "t \<in> light_nodes ?S"
    using light_nodes_iff [OF block.invD(1) [OF inv] t] st by simp
  obtain g where g: "check_node (block_callbacks ?w) ?s (be_graph e) t = Some g"
    and up: "pending_update (light_level ?S ?s) (be_graph e) t (block_target ?w ?S (light_level ?S ?s) t) g"
    using block.check_node_spec [OF inv tS, of ?w] by (auto simp: block_target_def)
  have "dg_has_work g \<longleftrightarrow> dg_first_queued_level g < dg_level_count g"
    using g by (auto simp: check_node_def check_edge_def refresh_has_work_def bind_eq_Some_conv)
  then have "block_checked e {t} (e\<lparr>be_graph := g\<rparr>)"
    using block.inv_update [OF inv tS up] block.suspects_update(2) [OF up [unfolded block_target_def]]
    by (auto simp: block_checked_def block_engine_ok_def block_suspects_def block_target_def graph_inv_def)
  then show ?thesis using g by blast
qed

lemma check_targets_spec:
  "block_engine_ok e \<Longrightarrow> \<forall>t\<in>set ts. in_i64 t \<Longrightarrow>
   \<exists>g. check_targets (be_world e) (be_storage e) (be_graph e) ts = Some g
     \<and> block_checked e (set ts) (e\<lparr>be_graph := g\<rparr>)"
proof (induction ts arbitrary: e)
  case Nil
  then show ?case by (simp add: block_checked_def)
next
  case (Cons t ts)
  show ?case
  proof (cases "storing_light_for_section (be_storage e) (block_to_section_key t)")
    case True
    obtain g1 where g1: "check_node (block_callbacks (be_world e)) (be_storage e) (be_graph e) t = Some g1"
      "block_checked e {t} (e\<lparr>be_graph := g1\<rparr>)"
      using check_one_spec [OF Cons.prems(1) _ True] Cons.prems(2) by auto
    obtain g2 where "check_targets (be_world e) (be_storage e) g1 ts = Some g2"
      "block_checked (e\<lparr>be_graph := g1\<rparr>) (set ts) (e\<lparr>be_graph := g2\<rparr>)"
      using Cons.IH [of "e\<lparr>be_graph := g1\<rparr>"] g1(2) Cons.prems(2) by (auto simp: block_checked_def)
    then show ?thesis using True g1 by (auto simp: block_checked_def)
  next
    case False
    have "t \<notin> light_nodes (block_stored e)" using False by (simp add: light_nodes_def storing_light_iff)
    then have "t \<notin> block_suspects e" by (auto simp: block_suspects_def suspects_def)
    then show ?thesis using Cons.IH [OF Cons.prems(1)] Cons.prems(2) False by (auto simp: block_checked_def)
  qed
qed

lemma block_check_block_spec:
  assumes "block_engine_ok e" and "in_i64 p"
  shows "\<exists>e'. block_check_block e p = Some e'
     \<and> block_checked e (insert p (direction_step p ` set all_directions)) e'"
  using check_targets_spec [OF assms(1), of "p # map (direction_step p) all_directions"] assms(2)
  by (auto simp: block_check_block_def)

lemma block_emission_spec:
  assumes ok: "block_engine_ok e" and p: "in_i64 p"
    and stored: "storing_light_for_section (be_storage e) (block_to_section_key p)" and em: "emission \<noteq> 0"
  shows "\<exists>e'. block_on_emission_increase e p emission = Some e' \<and> block_engine_ok e'
     \<and> be_storage e' = be_storage e \<and> be_world e' = be_world e
     \<and> pending_update (light_level (block_stored e) (be_storage e)) (be_graph e) p
         (min (pend (light_level (block_stored e) (be_storage e)) (be_graph e) p) (15 - min emission 15)) (be_graph e')"
proof -
  let ?S = "block_stored e" and ?s = "be_storage e" and ?w = "be_world e"
  have inv: "graph_inv (block_ok ?S) (light_level ?S) (light_nodes ?S) 16 ?s (be_graph e)"
    using ok by (simp add: block_engine_ok_def)
  have pS: "p \<in> light_nodes ?S" using light_nodes_iff [OF block.invD(1) [OF inv] p] stored by simp
  have less: "15 - min emission 15 < 16" by (rule le_less_trans [OF diff_le_self]) simp
  obtain g where g: "check_edge (block_callbacks ?w) ?s (be_graph e) i64_max p (15 - min emission 15) True = Some g"
    and up: "pending_update (light_level ?S ?s) (be_graph e) p
      (min (pend (light_level ?S ?s) (be_graph e) p) (15 - min emission 15)) g"
    using block.check_edge_decrease [OF inv pS less] by blast
  have "dg_has_work g \<longleftrightarrow> dg_first_queued_level g < dg_level_count g"
    using g by (auto simp: check_edge_def refresh_has_work_def bind_eq_Some_conv)
  then have "block_engine_ok (e\<lparr>be_graph := g\<rparr>)"
    using block.inv_update [OF inv pS up] by (simp add: block_engine_ok_def graph_inv_def)
  then show ?thesis using g up stored em by (simp add: block_on_emission_increase_def)
qed

section \<open>Runs\<close>

definition block_ran :: "block_engine \<Rightarrow> block_engine \<Rightarrow> bool" where
  "block_ran e e' \<longleftrightarrow> block_engine_ok e' \<and> be_world e' = be_world e \<and> block_stored e' = block_stored e
     \<and> block_suspects e' \<subseteq> block_suspects e"

lemma block_ran_trans: "block_ran e e' \<Longrightarrow> block_ran e' e'' \<Longrightarrow> block_ran e e''"
  by (auto simp: block_ran_def)

definition block_shows :: "block_engine \<Rightarrow> bool" where
  "block_shows e \<longleftrightarrow> sm_map (ss_visible (be_storage e)) = sm_map (ss_updating (be_storage e))"

text \<open>Publishing the updated map changes neither the levels nor the graph.\<close>

lemma swap_keeps_ok:
  assumes "storage_wf s" and "published s"
  shows "block_ok S (snd (swap_section_map s)) = block_ok S s"
    and "light_level S (snd (swap_section_map s)) = light_level S s"
  using swap_section_map_spec [OF assms] assms by (auto simp: block_ok_def light_level_def)

lemma graph_report_cases:
  assumes "graph_run_updates_report cb s g b = Some (r, rep, s', g')"
  shows "dg_level_count g \<le> dg_first_queued_level g \<and> r = b \<and> s' = s \<and> g' = g
    \<or> dg_first_queued_level g < dg_level_count g
      \<and> (\<exists>p g1. run_loop cb s g b 0 = Some (r, p, s', g1) \<and> g' = refresh_has_work g1)"
  using assms by (auto simp: graph_run_updates_report_def Let_def bind_eq_Some_conv split: if_splits)

lemma refresh_pend [simp]: "pend lv (refresh_has_work g) = pend lv g"
  by (rule pend_cong) simp

lemma refresh_work [simp]: "dg_has_work (refresh_has_work g) \<longleftrightarrow> dg_first_queued_level g < dg_level_count g"
  by (simp add: refresh_has_work_def)

lemma block_run_spec:
  assumes ok: "block_engine_ok e"
  shows "\<exists>r rep e'. block_run_updates_report e b = Some (r, rep, e') \<and> block_ran e e' \<and> block_shows e'
     \<and> (0 < r \<longrightarrow> \<not> block_has_work e')
     \<and> (block_has_work e \<and> 0 < b \<and> r = 0 \<longrightarrow>
         (block.progress_measure (block_stored e) (be_world e) (be_storage e', be_graph e'),
          block.progress_measure (block_stored e) (be_world e) (be_storage e, be_graph e)) \<in> block.progress_order\<^sup>+)"
proof -
  let ?S = "block_stored e" and ?s = "be_storage e" and ?w = "be_world e" and ?g = "be_graph e"
  let ?inv = "graph_inv (block_ok ?S) (light_level ?S) (light_nodes ?S) 16"
  have inv: "?inv ?s ?g" using ok by (simp add: block_engine_ok_def)
  obtain r rep s' g' where run: "graph_run_updates_report (block_callbacks ?w) ?s ?g b = Some (r, rep, s', g')"
    and inv': "?inv s' g'"
    and sus: "suspects (block_target ?w ?S) (light_nodes ?S) (light_level ?S s') g'
      \<subseteq> suspects (block_target ?w ?S) (light_nodes ?S) (light_level ?S ?s) ?g"
    and left: "0 < r \<longrightarrow> 16 \<le> dg_first_queued_level g'"
    using block.run_updates_spec [OF inv, of ?w b] unfolding block_target_def by blast
  note cases = graph_report_cases [OF run]
  have work: "dg_has_work g' \<longleftrightarrow> dg_first_queued_level g' < 16"
    using cases block_okD(5,7) [OF ok] inv' by (auto simp: block_has_work_def graph_inv_def)
  have s': "storage_wf s'" "published s'" "stored s' = ?S" using inv' by (simp_all add: graph_inv_def block_ok_def)
  note swap = swap_section_map_spec [OF s'(1,2)] and keep = swap_keeps_ok [OF s'(1,2)]
  define e' where "e' = e\<lparr>be_graph := g', be_storage := snd (swap_section_map s')\<rparr>"
  have out: "\<exists>rep. block_run_updates_report e b = Some (r, rep, e')"
    by (simp add: block_run_updates_report_def run e'_def split: prod.split)
  have "block_ran e e'"
    using inv' sus work by (simp add: block_ran_def block_engine_ok_def e'_def swap(6) s'(3) graph_inv_def
        keep block_suspects_def)
  moreover have "block_shows e'" by (simp add: block_shows_def e'_def swap(1,2))
  moreover have "0 < r \<longrightarrow> \<not> block_has_work e'" using left work by (auto simp: block_has_work_def e'_def)
  moreover have "(block.progress_measure ?S ?w (be_storage e', be_graph e'),
      block.progress_measure ?S ?w (?s, ?g)) \<in> block.progress_order\<^sup>+"
    if h: "block_has_work e \<and> 0 < b \<and> r = 0"
  proof -
    have "dg_first_queued_level ?g < 16" using h block_okD(7) [OF ok] by simp
    then obtain p g1 where loop: "run_loop (block_callbacks ?w) ?s ?g b 0 = Some (r, p, s', g1)"
      and g': "g' = refresh_has_work g1"
      using cases block_okD(5) [OF ok] by auto
    have "(block.progress_measure ?S ?w (s', g1), block.progress_measure ?S ?w (?s, ?g)) \<in> block.progress_order\<^sup>+"
      by (rule block.run_loop_progress [OF inv \<open>dg_first_queued_level ?g < 16\<close> loop]) (use h in simp)
    moreover have "key_of lv g' = key_of lv g1" for lv by (rule ext) (simp add: key_of_def g')
    ultimately show ?thesis by (simp add: e'_def keep suspects_def g')
  qed
  ultimately show ?thesis using out by blast
qed

text \<open>\<open>run_all_updates\<close> returns, with nothing left to do and no new suspects.\<close>

lemma block_run_all_spec:
  assumes "block_engine_ok e"
  shows "\<exists>e'. block_run_all_updates e = Some e' \<and> block_ran e e' \<and> \<not> block_has_work e'
     \<and> (block_has_work e \<or> block_shows e \<longrightarrow> block_shows e')"
  using assms
proof (induction "block.progress_measure (block_stored e) (be_world e) (be_storage e, be_graph e)" arbitrary: e
    rule: wf_induct_rule [OF wf_trancl [OF block.wf_progress_order]])
  case (1 e)
  show ?case
  proof (cases "block_has_work e")
    case False
    then show ?thesis using 1(2) by (subst block_run_all_updates.simps) (simp add: block_ran_def)
  next
    case True
    obtain r rep e1 where run: "block_run_updates_report e 16384 = Some (r, rep, e1)"
      and e1: "block_ran e e1" "block_shows e1" "0 < r \<longrightarrow> \<not> block_has_work e1"
      and less: "r = 0 \<longrightarrow> (block.progress_measure (block_stored e) (be_world e) (be_storage e1, be_graph e1),
          block.progress_measure (block_stored e) (be_world e) (be_storage e, be_graph e)) \<in> block.progress_order\<^sup>+"
      using block_run_spec [OF 1(2), of 16384] True by auto
    have step: "block_run_all_updates e = (if 0 < r then Some e1 else block_run_all_updates e1)"
      using True by (subst block_run_all_updates.simps) (simp add: block_run_updates_def run)
    show ?thesis
    proof (cases "0 < r")
      case True
      then show ?thesis using step e1 by simp
    next
      case False
      then have "\<exists>e'. block_run_all_updates e1 = Some e' \<and> block_ran e1 e' \<and> \<not> block_has_work e'
         \<and> (block_has_work e1 \<or> block_shows e1 \<longrightarrow> block_shows e')"
        using less e1(1) by (intro 1(1)) (simp_all add: block_ran_def)
      then show ?thesis using step False e1(1,2) block_ran_trans by auto
    qed
  qed
qed

section \<open>The light a drained engine shows\<close>

text \<open>The light a block should have: its emission, or what the brightest stored neighbour leaves
  after the block's own opacity (at least one); nothing enters an opaque block.\<close>

definition block_light_at :: "block_light_world \<Rightarrow> int set \<Rightarrow> (int \<Rightarrow> nat) \<Rightarrow> int \<Rightarrow> nat" where
  "block_light_at w S L t = fold max
     (map (\<lambda>n. if direction_between n t = None \<or> 15 \<le> delegate_opacity w t then 0
               else L n - max (delegate_opacity w t) 1) (light_neighbors S t))
     (delegate_light_emission w t)"

lemma le_fold_max_iff: "k \<le> fold max xs c \<longleftrightarrow> k \<le> c \<or> (\<exists>x\<in>set xs. k \<le> x)" for c k :: nat
  by (induction xs arbitrary: c) (auto simp: le_max_iff_disj)

lemma fold_max_le_iff: "fold max xs c \<le> k \<longleftrightarrow> c \<le> k \<and> (\<forall>x\<in>set xs. x \<le> k)" for c k :: nat
  by (induction xs arbitrary: c) auto

lemma nat_eq_by_ge: "(\<And>k. k \<le> a \<longleftrightarrow> k \<le> b) \<Longrightarrow> a = b" for a b :: nat
  by (meson order.antisym order.refl)

lemma compute_light:
  assumes "n \<noteq> i64_max" "t \<noteq> i64_max" "L \<le> 15"
  shows "15 - block_compute_level w n t (15 - L)
     = (if direction_between n t = None \<or> 15 \<le> delegate_opacity w t then 0 else L - max (delegate_opacity w t) 1)"
  using assms by (cases "L = 0") (auto simp: block_compute_level_def sat_add_u8_def Let_def min_def max_def)

lemma block_target_light:
  assumes t: "t \<in> light_nodes S" and L: "\<And>n. n \<in> light_nodes S \<Longrightarrow> lv n = 15 - L n \<and> L n \<le> 15"
  shows "15 - block_target w S lv t = block_light_at w S L t"
proof (rule nat_eq_by_ge)
  fix k :: nat
  let ?c = "\<lambda>n. if direction_between n t = None \<or> 15 \<le> delegate_opacity w t then 0 else L n - max (delegate_opacity w t) 1"
  have em: "15 - emission_level w t = delegate_light_emission w t"
    by (simp add: emission_level_def delegate_light_emission_def)
  have c: "15 - block_compute_level w n t (lv n) = ?c n" if "n \<in> set (light_neighbors S t)" for n
  proof -
    have n: "n \<in> light_nodes S" using that by (auto simp: light_neighbors_def)
    then show ?thesis using L [OF n] t compute_light [of n t "L n" w] by (simp add: light_nodes_def)
  qed
  show "k \<le> 15 - block_target w S lv t \<longleftrightarrow> k \<le> block_light_at w S L t"
  proof (cases "0 < k \<and> k \<le> 15")
    case True
    then have flip: "k \<le> 15 - m \<longleftrightarrow> m \<le> 15 - k" for m by (auto simp: le_diff_conv2)
    have top: "\<not> 16 - 1 \<le> 15 - k" using True by linarith
    have "k \<le> 15 - block_target w S lv t \<longleftrightarrow> emission_level w t \<le> 15 - k
        \<or> (\<exists>n\<in>set (light_neighbors S t). block_compute_level w n t (lv n) \<le> 15 - k)"
      using top by (simp only: flip block_target_def min_target_le simp_thms)
    also have "\<dots> \<longleftrightarrow> k \<le> delegate_light_emission w t \<or> (\<exists>n\<in>set (light_neighbors S t). k \<le> ?c n)"
      by (simp only: em [symmetric] flip [symmetric] c cong: bex_cong)
    also have "\<dots> \<longleftrightarrow> k \<le> block_light_at w S L t" by (simp only: block_light_at_def le_fold_max_iff set_map) blast
    finally show ?thesis .
  next
    case False
    have "x \<le> 15" if x: "x \<in> set (map ?c (light_neighbors S t))" for x
    proof -
      obtain n where n: "n \<in> set (light_neighbors S t)" "x = ?c n" using x unfolding set_map by blast
      show ?thesis unfolding n(2) using c [OF n(1)] by linarith
    qed
    moreover have "delegate_light_emission w t \<le> 15" by (simp add: delegate_light_emission_def)
    ultimately have "block_light_at w S L t \<le> 15"
      unfolding block_light_at_def fold_max_le_iff by blast
    then show ?thesis using False by linarith
  qed
qed

lemma emission_level_flip: "15 - emission_level w t = delegate_light_emission w t"
  by (simp add: emission_level_def delegate_light_emission_def)

lemma block_stored_light_eq:
  assumes wf: "storage_wf (be_storage e)" and vis: "block_shows e"
  shows "block_stored_light e p = Some (light_of (be_storage e) p)"
proof (cases "fmlookup (sm_map (ss_updating (be_storage e))) (block_to_section_key p)")
  case None
  then show ?thesis using vis
    by (simp add: block_stored_light_def get_visible_data_layer_def light_of_def block_shows_def)
next
  case (Some l)
  then show ?thesis using vis layer_at_block_light [OF Some wf]
    by (simp add: block_stored_light_def get_visible_data_layer_def block_shows_def)
qed

definition block_settled :: "block_engine \<Rightarrow> bool" where
  "block_settled e \<longleftrightarrow> (\<forall>t\<in>light_nodes (block_stored e).
     light_of (be_storage e) t = block_light_at (be_world e) (block_stored e) (light_of (be_storage e)) t)"

lemma drained_pend:
  assumes ok: "block_engine_ok e" and idle: "\<not> block_has_work e"
  shows "pend lv (be_graph e) = lv"
proof -
  have "dg_computed_levels (be_graph e) = fmempty"
    by (rule drained_empty [OF block_okD(4) [OF ok]]) (use block_okD(5,7) [OF ok] idle in simp)
  then show ?thesis by (auto simp: pend_def)
qed

lemma light_flip:
  assumes ok: "block_engine_ok e" and n: "n \<in> light_nodes (block_stored e)"
  shows "light_level (block_stored e) (be_storage e) n = 15 - light_of (be_storage e) n \<and> light_of (be_storage e) n \<le> 15"
  using light_of_less [OF block_okD(1) [OF ok], of n] n by (simp add: light_level_def)

text \<open>An idle engine has settled exactly on the blocks that are not suspect.\<close>

lemma idle_suspects:
  assumes ok: "block_engine_ok e" and idle: "\<not> block_has_work e" and t: "t \<in> light_nodes (block_stored e)"
  shows "t \<notin> block_suspects e \<longleftrightarrow>
    light_of (be_storage e) t = block_light_at (be_world e) (block_stored e) (light_of (be_storage e)) t"
proof -
  let ?S = "block_stored e" and ?lv = "light_level (block_stored e) (be_storage e)"
  have tgt: "15 - block_target (be_world e) ?S ?lv t = block_light_at (be_world e) ?S (light_of (be_storage e)) t"
    by (rule block_target_light [OF t light_flip [OF ok]])
  have le: "block_target (be_world e) ?S ?lv t \<le> 15" unfolding block_target_def min_target_le by simp
  have "t \<notin> block_suspects e \<longleftrightarrow> ?lv t = block_target (be_world e) ?S ?lv t"
    using t by (simp add: block_suspects_def suspects_def drained_pend [OF ok idle])
  also have "\<dots> \<longleftrightarrow> 15 - light_of (be_storage e) t = block_target (be_world e) ?S ?lv t"
    using light_flip [OF ok t] by simp
  also have "\<dots> \<longleftrightarrow> light_of (be_storage e) t = 15 - block_target (be_world e) ?S ?lv t"
    using le light_flip [OF ok t] by auto
  finally show ?thesis by (simp add: tgt)
qed

lemma settled_iff:
  assumes ok: "block_engine_ok e" and idle: "\<not> block_has_work e"
  shows "block_suspects e = {} \<longleftrightarrow> block_settled e"
proof -
  have "block_suspects e \<subseteq> light_nodes (block_stored e)" by (auto simp: block_suspects_def suspects_def)
  then show ?thesis using idle_suspects [OF assms] by (auto simp: block_settled_def)
qed

text \<open>Two settled engines with the same world and the same stored sections show the same light.\<close>

lemma settled_unique:
  assumes ok: "block_engine_ok e" "block_engine_ok e'" and set: "block_settled e" "block_settled e'"
    and same: "be_world e' = be_world e" "block_stored e' = block_stored e" and t: "t \<in> light_nodes (block_stored e)"
  shows "light_of (be_storage e) t = light_of (be_storage e') t"
proof -
  let ?S = "block_stored e" and ?w = "be_world e"
  let ?tgt = "block_target ?w ?S"
  have fixp: "light_level ?S (be_storage d) t = ?tgt (light_level ?S (be_storage d)) t"
    if d: "block_engine_ok d" "block_settled d" "be_world d = ?w" "block_stored d = ?S" and t: "t \<in> light_nodes ?S" for d t
  proof -
    have fl: "\<And>n. n \<in> light_nodes ?S
      \<Longrightarrow> light_level ?S (be_storage d) n = 15 - light_of (be_storage d) n \<and> light_of (be_storage d) n \<le> 15"
      using light_flip [OF d(1)] d(4) by simp
    have "15 - ?tgt (light_level ?S (be_storage d)) t = light_of (be_storage d) t"
      using block_target_light [OF t fl, where w = ?w] d t by (simp add: block_settled_def)
    moreover have "?tgt (light_level ?S (be_storage d)) t \<le> 15" unfolding block_target_def min_target_le by simp
    ultimately show ?thesis using fl [OF t] by auto
  qed
  have "light_level ?S (be_storage e) t = light_level ?S (be_storage e') t"
    by (rule block.fixed_point_unique [where w = ?w, folded block_target_def, OF fixp fixp t]) (use ok set same in auto)
  then show ?thesis using light_flip [OF ok(1) t] light_flip [OF ok(2), of t] t same by simp linarith
qed

section \<open>Changes to the storage\<close>

lemma pending_stored:
  assumes "block_engine_ok e" and "n |\<in>| fmdom (dg_computed_levels (be_graph e))"
  shows "block_to_section_key n \<in> block_stored e"
  using block_okD(6) [OF assms(1)] assms(2) by (auto simp: light_nodes_def)

lemma level_applied_light:
  assumes "level_applied s section level change s'" and "block_to_section_key b \<in> stored s"
  shows "light_of s' b = light_of s b"
proof -
  have "\<not> slc_added change \<or> block_to_section_key b \<noteq> section" using assms by (auto simp: level_applied_def)
  then show ?thesis using assms(1) by (simp add: level_applied_def light_of_def)
qed

lemma light_of_new:
  assumes "fmlookup (sm_map (ss_updating s)) (block_to_section_key b) = Some data_layer_new"
  shows "light_of s b = 0"
  using assms local_slot(2) [of b] by (simp add: light_of_def data_layer_new_def get_index_def)

lemma block_activate_spec:
  assumes ok: "block_engine_ok e" and sec: "section \<noteq> i64_max"
  shows "\<exists>e'. block_activate_section e section = Some e' \<and> block_engine_ok e' \<and> be_world e' = be_world e
     \<and> be_graph e' = be_graph e \<and> block_stored e' = insert section (block_stored e)
     \<and> (\<forall>b. block_to_section_key b \<in> block_stored e \<longrightarrow> light_of (be_storage e') b = light_of (be_storage e) b)
     \<and> (fmlookup (ss_queued_sections (be_storage e)) section = None \<and> section \<notin> block_stored e
         \<longrightarrow> (\<forall>b. block_to_section_key b = section \<longrightarrow> light_of (be_storage e') b = 0))"
proof -
  note e = block_okD [OF ok]
  obtain change s' where s': "apply_graph_level (be_storage e) section 1 = Some (change, s')"
    "level_applied (be_storage e) section 1 change s'"
    using apply_graph_level_spec [OF e(1) sec, of 1] by auto
  have st: "storage_wf s'" "published s'" "stored s' = insert section (block_stored e)"
    using s'(2) e(2) by (simp_all add: level_applied_def)
  have keep: "light_of s' b = light_of (be_storage e) b" if "block_to_section_key b \<in> block_stored e" for b
    by (rule level_applied_light [OF s'(2) that])
  have "block_engine_ok (e\<lparr>be_storage := s'\<rparr>)"
    using pending_stored [OF ok] sec e(3) st keep by (intro block_storage_changed [OF ok st(1,2)]) auto
  moreover have "light_of s' b = 0" if "fmlookup (ss_queued_sections (be_storage e)) section = None"
    "section \<notin> block_stored e" "block_to_section_key b = section" for b
    by (rule light_of_new) (use s'(2) that in \<open>simp add: level_applied_def create_data_layer_def\<close>)
  ultimately show ?thesis using s'(1) st(3) keep by (auto simp: block_activate_section_def)
qed

lemma block_remove_spec:
  fixes sec :: int
  assumes ok: "block_engine_ok e"
    and idle: "\<And>n. n |\<in>| fmdom (dg_computed_levels (be_graph e)) \<Longrightarrow> block_to_section_key n \<noteq> sec"
  defines "r \<equiv> block_remove_section e sec"
  shows "fst r \<longleftrightarrow> sec \<in> block_stored e" and "block_engine_ok (snd r)"
    and "block_stored (snd r) = block_stored e - {sec}" and "be_graph (snd r) = be_graph e"
    and "be_world (snd r) = be_world e"
    and "block_to_section_key b \<noteq> sec \<Longrightarrow> light_of (be_storage (snd r)) b = light_of (be_storage e) b"
    and "block_to_section_key b = sec \<Longrightarrow> block_get_light_value (be_storage (snd r)) b = Some 0"
proof -
  note e = block_okD [OF ok] and rem = remove_section_spec [OF block_okD(1) [OF ok], where sec = sec]
  let ?s = "snd (remove_section (be_storage e) sec)"
  have r: "r = (fst (remove_section (be_storage e) sec), e\<lparr>be_storage := ?s\<rparr>)"
    by (simp add: r_def block_remove_section_def split: prod.split)
  show "fst r \<longleftrightarrow> sec \<in> block_stored e" "block_stored (snd r) = block_stored e - {sec}"
    "be_graph (snd r) = be_graph e" "be_world (snd r) = be_world e"
    using rem(1,4) by (simp_all add: r)
  show "light_of (be_storage (snd r)) b = light_of (be_storage e) b" if "block_to_section_key b \<noteq> sec"
    using rem(6) [OF that] by (simp add: r)
  show "block_get_light_value (be_storage (snd r)) b = Some 0" if "block_to_section_key b = sec"
    using rem(5) that by (simp add: r block_get_light_value_def)
  have "block_engine_ok (e\<lparr>be_storage := ?s\<rparr>)"
    by (rule block_storage_changed [OF ok rem(2) rem(3) [OF e(2)]])
      (use e(3) rem(4,6) pending_stored [OF ok] idle in auto)
  then show "block_engine_ok (snd r)" by (simp add: r)
qed

text \<open>Loaded data: accepted layers replace the light of stored sections.  The graph must be idle,
  as it is where chunks are loaded: pending nodes are filed under the levels they had.\<close>

lemma block_accept_spec:
  assumes ok: "block_engine_ok e" and idle: "\<not> block_has_work e"
  defines "e' \<equiv> block_accept_queued_section_data e"
  shows "block_engine_ok e'" and "block_stored e' = block_stored e" and "block_shows e'"
    and "get_visible_data_layer (be_storage e') k = (if k \<in> block_stored e
      then (case fmlookup (ss_queued_sections (be_storage e)) k of Some l \<Rightarrow> Some l
            | None \<Rightarrow> get_updating_data_layer (be_storage e) k) else None)"
proof -
  note e = block_okD [OF ok] and acc = accept_queued_sections_spec [OF block_okD(1) [OF ok]]
  let ?s = "accept_queued_sections_for_stored_layers (be_storage e)"
  note swap = swap_section_map_spec [OF acc(1) acc(2) [OF e(2)]]
  have e': "e' = e\<lparr>be_storage := snd (swap_section_map ?s)\<rparr>"
    by (simp add: e'_def block_accept_queued_section_data_def)
  have "dg_computed_levels (be_graph e) = fmempty"
    by (rule drained_empty [OF e(4)]) (use e(5,7) idle in simp)
  then show "block_engine_ok e'"
    unfolding e' using e(3) acc(3) swap(6) by (intro block_storage_changed [OF ok swap(3,4)]) auto
  show "block_stored e' = block_stored e" "block_shows e'" using acc(3) swap(1,2,6) by (simp_all add: e' block_shows_def)
  show "get_visible_data_layer (be_storage e') k = (if k \<in> block_stored e
      then (case fmlookup (ss_queued_sections (be_storage e)) k of Some l \<Rightarrow> Some l
            | None \<Rightarrow> get_updating_data_layer (be_storage e) k) else None)"
    using acc(4) [of k] swap(1) by (simp add: e' get_visible_data_layer_def get_updating_data_layer_def split: option.split)
qed

section \<open>A changed block\<close>

text \<open>The targets depend on the world only at the block itself.\<close>

lemma block_compute_level_world:
  assumes "blw_light_opacity w' t = blw_light_opacity w t" and "n \<noteq> i64_max"
  shows "block_compute_level w' n t l = block_compute_level w n t l"
  using assms by (simp add: block_compute_level_def delegate_opacity_def)

lemma block_target_world:
  assumes "blw_light_emission w' t = blw_light_emission w t" and "blw_light_opacity w' t = blw_light_opacity w t"
  shows "block_target w' S lv t = block_target w S lv t"
proof -
  have "map (\<lambda>n. block_compute_level w' n t (lv n)) (light_neighbors S t)
      = map (\<lambda>n. block_compute_level w n t (lv n)) (light_neighbors S t)"
    using assms(2) by (auto simp: light_neighbors_def light_nodes_def intro!: block_compute_level_world)
  then show ?thesis using assms(1)
    by (simp only: block_target_def min_target_def emission_level_def delegate_light_emission_def)
qed

lemma block_world_changed:
  assumes "block_engine_ok e"
    and "\<And>t. t \<noteq> p \<Longrightarrow> blw_light_emission w t = blw_light_emission (be_world e) t
      \<and> blw_light_opacity w t = blw_light_opacity (be_world e) t"
  shows "block_engine_ok (e\<lparr>be_world := w\<rparr>)" and "block_suspects (e\<lparr>be_world := w\<rparr>) \<subseteq> insert p (block_suspects e)"
proof -
  show "block_engine_ok (e\<lparr>be_world := w\<rparr>)" using assms(1) by (simp add: block_engine_ok_def)
  show "block_suspects (e\<lparr>be_world := w\<rparr>) \<subseteq> insert p (block_suspects e)"
    using assms(2) block_target_world [of w _ "be_world e"] by (auto simp: block_suspects_def suspects_def)
qed

text \<open>A dark engine: only the emitting blocks are suspect.\<close>

lemma dark_suspects:
  assumes ok: "block_engine_ok e" and idle: "\<not> block_has_work e"
    and dark: "\<And>b. b \<in> light_nodes (block_stored e) \<Longrightarrow> light_of (be_storage e) b = 0"
  shows "block_suspects e = {b \<in> light_nodes (block_stored e). 0 < blw_light_emission (be_world e) b}"
proof -
  have at: "block_light_at (be_world e) (block_stored e) (light_of (be_storage e)) t = delegate_light_emission (be_world e) t"
    if "t \<in> light_nodes (block_stored e)" for t
  proof (rule nat_eq_by_ge)
    fix k
    have "light_of (be_storage e) n = 0" if "n \<in> set (light_neighbors (block_stored e) t)" for n
      using dark that by (auto simp: light_neighbors_def)
    then show "k \<le> block_light_at (be_world e) (block_stored e) (light_of (be_storage e)) t
        \<longleftrightarrow> k \<le> delegate_light_emission (be_world e) t"
      by (auto simp: block_light_at_def le_fold_max_iff split: if_splits)
  qed
  have sub: "block_suspects e \<subseteq> light_nodes (block_stored e)" by (auto simp: block_suspects_def suspects_def)
  have "t \<in> block_suspects e \<longleftrightarrow> 0 < blw_light_emission (be_world e) t" if t: "t \<in> light_nodes (block_stored e)" for t
    using idle_suspects [OF ok idle t] dark [OF t] at [OF t] by (auto simp: delegate_light_emission_def)
  then show ?thesis using sub by blast
qed

end
