(* ===== verification/LightSkyChunks.thy ===== *)
theory LightSkyChunks imports LightSkyRuns LightBlockRuns
begin

text \<open>
  Chunks coming and going in the sky engine: activating, filling, accepting and removing sections,
  switching columns on and off, each with the invariant of \<open>LightSkyRuns\<close>.  A storage operation
  keeps the graph consistent as long as it does not change the level of a pending node.  The last
  sections describe the edge function and the search for the next stored section below.
\<close>

lemma sky_storage_changed:
  assumes ok: "sky_engine_ok e" and s: "sky_ok s"
    and keep: "\<And>n. n |\<in>| fmdom (dg_computed_levels (ske_graph e)) \<Longrightarrow> sky_level s n = sky_level (ske_storage e) n"
  shows "sky_engine_ok (e\<lparr>ske_storage := s\<rparr>)"
  using sky.cinv_storage [OF sky_engine_okD(1) [OF ok] s keep] sky_engine_okD(2) [OF ok] by (simp add: sky_engine_ok_def)

text \<open>A section that pending nodes do not belong to, or for which no data is queued.\<close>

definition quiet_section :: "sky_engine \<Rightarrow> int \<Rightarrow> bool" where
  "quiet_section e k \<longleftrightarrow> k \<in> sky_stored e \<or> fmlookup (ss_queued_sections (sky_inner (ske_storage e))) k = None
     \<or> (\<forall>n. n |\<in>| fmdom (dg_computed_levels (ske_graph e)) \<longrightarrow> block_to_section_key n \<noteq> k)"

lemma on_node_added_tops:
  "fmlookup (sky_tops (on_node_added s k)) c = Some t \<Longrightarrow> fmlookup (sky_tops s) c = Some t \<or> t = section_y k + 1"
  by (auto simp: on_node_added_def Let_def split: if_splits)

lemma sky_apply_level_tops:
  assumes "sky_apply_level s k level = Some (change, s')" and "low_tops s" and "section_y k + 1 < 2 ^ 19"
  shows "low_tops s'"
  using assms by (auto simp: sky_apply_level_def Let_def low_tops_def split: if_splits dest!: on_node_added_tops)

lemma sky_apply_engine:
  assumes ok: "sky_engine_ok e" and k: "in_i64 k" "k \<noteq> i64_max" "section_y k + 1 < 2 ^ 19" and level: "level < 2"
    and quiet: "quiet_section e k"
  shows "\<exists>change s'. sky_apply_level (ske_storage e) k level = Some (change, s') \<and> sky_engine_ok (e\<lparr>ske_storage := s'\<rparr>)
    \<and> stored (sky_inner s') = insert k (sky_stored e) \<and> section_level (sky_inner s') k = level
    \<and> (\<forall>b. block_to_section_key b \<noteq> k \<or> k \<in> sky_stored e \<longrightarrow> sky_level s' b = sky_level (ske_storage e) b)"
proof -
  note oks = sky_engine_okD(3) [OF ok]
  obtain change s' where s': "sky_apply_level (ske_storage e) k level = Some (change, s')" "sky_wf s'"
    "level_applied (sky_inner (ske_storage e)) k level change (sky_inner s')"
    using sky_apply_level_spec [OF sky_okD(5) [OF oks] k(1,2) level] by blast
  have st: "stored (sky_inner s') = insert k (sky_stored e)" "published (sky_inner s')"
    "section_level (sky_inner s') k = level"
    using s'(3) level sky_okD(3) [OF oks] by (simp_all add: level_applied_def)
  have "low_tops s'" using sky_apply_level_tops [OF s'(1) _ k(3)] oks by (simp add: sky_ok_def)
  then have ok': "sky_ok s'" using s'(2) st k(2) sky_okD(4) [OF oks] by (simp add: sky_ok_def)
  have keep: "sky_level s' b = sky_level (ske_storage e) b" if "block_to_section_key b \<noteq> k \<or> k \<in> sky_stored e" for b
    using that level_applied_light [OF s'(3), of b] by (auto simp: sky_level_def st(1))
  have "sky_level s' n = sky_level (ske_storage e) n" if n: "n |\<in>| fmdom (dg_computed_levels (ske_graph e))" for n
  proof (cases "block_to_section_key n \<noteq> k \<or> k \<in> sky_stored e")
    case False
    then have q: "fmlookup (ss_queued_sections (sky_inner (ske_storage e))) k = None" "k \<notin> sky_stored e"
      "block_to_section_key n = k"
      using quiet n by (auto simp: quiet_section_def)
    then have "light_of (sky_inner s') n = 0"
      by (intro light_of_new) (use s'(3) level in \<open>simp add: level_applied_def create_data_layer_def\<close>)
    then show ?thesis using q by (simp add: sky_level_def)
  qed (rule keep)
  then have "sky_engine_ok (e\<lparr>ske_storage := s'\<rparr>)" by (rule sky_storage_changed [OF ok ok'])
  then show ?thesis using s'(1) st keep by blast
qed

lemma ske_activate_spec:
  assumes "sky_engine_ok e" and "in_i64 k" and "k \<noteq> i64_max" and "section_y k + 1 < 2 ^ 19" and "quiet_section e k"
  shows "\<exists>e'. ske_activate_section e k = Some e' \<and> sky_engine_ok e' \<and> sky_stored e' = insert k (sky_stored e)
    \<and> section_level (sky_inner (ske_storage e')) k = 1"
    and "\<exists>e'. ske_update_section_status e k False = Some e' \<and> sky_engine_ok e' \<and> sky_stored e' = insert k (sky_stored e)
    \<and> section_level (sky_inner (ske_storage e')) k = 0"
  using sky_apply_engine [OF assms(1-4) _ assms(5), of 1] sky_apply_engine [OF assms(1-4) _ assms(5), of 0]
  by (auto simp: ske_activate_section_def ske_update_section_status_def sky_activate_section_def sky_activate_data_section_def)

lemma ske_enable_spec:
  assumes ok: "sky_engine_ok e" and c: "in_i64 c"
  shows "sky_engine_ok (ske_enable_light_sources e c enabled)"
    and "light_on_in_section (ske_storage (ske_enable_light_sources e c enabled)) c \<longleftrightarrow> enabled"
    and "sky_stored (ske_enable_light_sources e c enabled) = sky_stored e"
proof -
  note oks = sky_engine_okD(3) [OF ok]
  note en = sky_enable_spec [OF sky_okD(5) [OF oks] c, of enabled]
  have tops: "sky_tops (sky_enable_light_sources (ske_storage e) c enabled) = sky_tops (ske_storage e)"
    by (auto simp: sky_enable_light_sources_def Let_def fold_queue_remove)
  have inv: "sky_inv (sky_enable_light_sources (ske_storage e) c enabled) (ske_graph e)"
    by (rule sky_inv_sources [OF sky_engine_okD(1) [OF ok] en(1,2) tops])
  then show "sky_engine_ok (ske_enable_light_sources e c enabled)"
    using sky_engine_okD(2) [OF ok] by (simp add: ske_enable_light_sources_def sky_engine_ok_def)
  show "light_on_in_section (ske_storage (ske_enable_light_sources e c enabled)) c \<longleftrightarrow> enabled"
    using en(3) by (simp add: ske_enable_light_sources_def light_on_in_section_def)
  show "sky_stored (ske_enable_light_sources e c enabled) = sky_stored e"
    using en(2) by (simp add: ske_enable_light_sources_def)
qed

text \<open>Operations on the inner storage that keep the stored sections.\<close>

lemma ske_inner_ok:
  assumes ok: "sky_engine_ok e" and wf: "storage_wf (f (sky_inner (ske_storage e)))"
    and pub: "published (f (sky_inner (ske_storage e)))"
    and st: "stored (f (sky_inner (ske_storage e))) = sky_stored e"
    and light: "\<And>n. n |\<in>| fmdom (dg_computed_levels (ske_graph e))
      \<Longrightarrow> light_of (f (sky_inner (ske_storage e))) n = light_of (sky_inner (ske_storage e)) n"
  shows "sky_engine_ok (ske_with_inner f e)"
  unfolding ske_with_inner_def
  by (rule sky_storage_changed [OF ok sky_ok_inner [OF sky_engine_okD(3) [OF ok] wf pub st]])
    (use light st in \<open>simp add: sky_level_def\<close>)

lemma ske_queue_spec:
  assumes ok: "sky_engine_ok e" and l: "\<And>l'. l = Some l' \<Longrightarrow> dl_wf l'"
  shows "sky_engine_ok (ske_queue_section_data e k l trusted)" and "sky_engine_ok (ske_retain_data e c retain)"
    and "fmlookup (ss_queued_sections (sky_inner (ske_storage (ske_queue_section_data e k l trusted)))) k = l"
proof -
  note s = sky_okD [OF sky_engine_okD(3) [OF ok]]
  show "sky_engine_ok (ske_queue_section_data e k l trusted)"
    unfolding ske_queue_section_data_def
    by (rule ske_inner_ok [OF ok]; use s(1,3) l in
      \<open>cases l; auto simp: queue_section_data_def storage_wf_def published_def stored_def light_of_def Let_def\<close>)
  show "sky_engine_ok (ske_retain_data e c retain)"
    unfolding ske_retain_data_def
    by (rule ske_inner_ok [OF ok]; use s(1,3) in
      \<open>auto simp: retain_data_def storage_wf_def published_def stored_def light_of_def Let_def\<close>)
  show "fmlookup (ss_queued_sections (sky_inner (ske_storage (ske_queue_section_data e k l trusted)))) k = l"
    by (cases l) (auto simp: ske_queue_section_data_def ske_with_inner_def queue_section_data_def Let_def)
qed

lemma sky_idle_empty:
  assumes "sky_engine_ok e" and "\<not> dg_has_work (ske_graph e)"
  shows "dg_computed_levels (ske_graph e) = fmempty"
  using sky.cinv_drained [OF sky_engine_okD(1) [OF assms(1)]] sky_engine_okD(2) [OF assms(1)] assms(2)
  by (simp add: work_known_def)

lemma ske_accept_spec:
  assumes ok: "sky_engine_ok e" and idle: "\<not> dg_has_work (ske_graph e)"
  defines "e' \<equiv> ske_accept_queued_section_data e"
  shows "sky_engine_ok e'" and "sky_stored e' = sky_stored e" and "sky_shows e'"
    and "get_visible_data_layer (sky_inner (ske_storage e')) k = (if k \<in> sky_stored e
      then (case fmlookup (ss_queued_sections (sky_inner (ske_storage e))) k of Some l \<Rightarrow> Some l
            | None \<Rightarrow> get_updating_data_layer (sky_inner (ske_storage e)) k) else None)"
proof -
  note s = sky_okD [OF sky_engine_okD(3) [OF ok]]
  note acc = accept_queued_sections_spec [OF s(1)]
  note swap = swap_section_map_spec [OF acc(1) acc(2) [OF s(3)]]
  show "sky_engine_ok e'"
    unfolding e'_def ske_accept_queued_section_data_def
    by (rule ske_inner_ok [OF ok]) (use acc swap sky_idle_empty [OF ok idle] in auto)
  show "sky_stored e' = sky_stored e" "sky_shows e'"
    using acc(3) swap(1,2,6) by (simp_all add: e'_def ske_accept_queued_section_data_def ske_with_inner_def sky_shows_def)
  show "get_visible_data_layer (sky_inner (ske_storage e')) k = (if k \<in> sky_stored e
      then (case fmlookup (ss_queued_sections (sky_inner (ske_storage e))) k of Some l \<Rightarrow> Some l
            | None \<Rightarrow> get_updating_data_layer (sky_inner (ske_storage e)) k) else None)"
    using acc(4) [of k] swap(1)
    by (simp add: e'_def ske_accept_queued_section_data_def ske_with_inner_def get_visible_data_layer_def
        get_updating_data_layer_def split: option.split)
qed

lemma ske_remove_spec:
  fixes k :: int
  assumes ok: "sky_engine_ok e"
    and idle: "\<And>n. n |\<in>| fmdom (dg_computed_levels (ske_graph e)) \<Longrightarrow> block_to_section_key n \<noteq> k"
  defines "r \<equiv> ske_remove_section e k"
  shows "fst r \<longleftrightarrow> k \<in> sky_stored e" and "sky_engine_ok (snd r)" and "sky_stored (snd r) = sky_stored e - {k}"
    and "\<not> section_has_source (ske_storage (snd r)) k" and "ske_world (snd r) = ske_world e"
    and "ske_graph (snd r) = ske_graph e"
    and "block_to_section_key b = k \<Longrightarrow> ske_stored_light (snd r) b = Some 0"
proof -
  note oks = sky_engine_okD(3) [OF ok]
  note rem = sky_remove_spec [OF sky_okD(5) [OF oks], where k = k]
  let ?s = "snd (sky_remove_section (ske_storage e) k)"
  have r: "r = (fst (sky_remove_section (ske_storage e) k), e\<lparr>ske_storage := ?s\<rparr>)"
    by (simp add: r_def ske_remove_section_def split: prod.split)
  show "fst r \<longleftrightarrow> k \<in> sky_stored e" "sky_stored (snd r) = sky_stored e - {k}"
    "\<not> section_has_source (ske_storage (snd r)) k" "ske_world (snd r) = ske_world e" "ske_graph (snd r) = ske_graph e"
    using rem(2,3,5) by (simp_all add: r)
  have inner: "sky_inner ?s = snd (remove_section (sky_inner (ske_storage e)) k)"
    by (simp add: sky_remove_section_def split: prod.split)
  note base = remove_section_spec [OF sky_okD(1) [OF oks], where sec = k]
  have ok': "sky_ok ?s"
    using rem(1,3,7) base(3) [OF sky_okD(3) [OF oks]] sky_okD(4) [OF oks] oks
    by (simp add: sky_ok_def inner low_tops_def)
  have "sky_level ?s n = sky_level (ske_storage e) n" if "n |\<in>| fmdom (dg_computed_levels (ske_graph e))" for n
    using idle [OF that] base(4,6) by (simp add: sky_level_def inner)
  then show "sky_engine_ok (snd r)" using sky_storage_changed [OF ok ok'] by (simp add: r)
  show "ske_stored_light (snd r) b = Some 0" if "block_to_section_key b = k"
    using that rem(6) by (simp add: r ske_stored_light_def get_visible_data_layer_def get_data_layer_data_def split: option.splits)
qed

lemma ske_forget_spec:
  assumes ok: "sky_engine_ok e"
    and clear: "\<And>k. k \<in> sky_stored e \<union> sky_sources (ske_storage e) \<Longrightarrow> section_get_zero_node k \<noteq> section_get_zero_node c"
  shows "sky_engine_ok (ske_forget_column e c)" and "sky_stored (ske_forget_column e c) = sky_stored e"
    and "\<not> light_on_in_section (ske_storage (ske_forget_column e c)) c"
proof -
  note oks = sky_engine_okD(3) [OF ok]
  note f = sky_forget_spec [OF sky_okD(5) [OF oks] clear]
  have inner: "sky_inner (sky_forget_column (ske_storage e) c)
      = forget_retained_column (sky_inner (ske_storage e)) (section_get_zero_node c)"
    by (simp add: sky_forget_column_def Let_def)
  have "low_tops (sky_forget_column (ske_storage e) c)"
    using oks by (auto simp: sky_ok_def low_tops_def sky_forget_column_def Let_def split: if_splits)
  then have "sky_ok (sky_forget_column (ske_storage e) c)"
    using f(1,4) oks by (simp add: sky_ok_def inner)
  then have "sky_engine_ok (e\<lparr>ske_storage := sky_forget_column (ske_storage e) c\<rparr>)"
    by (rule sky_storage_changed [OF ok]) (simp add: sky_level_def inner light_of_def forget_retained_simps)
  then show "sky_engine_ok (ske_forget_column e c)" by (simp add: ske_forget_column_def)
  show "sky_stored (ske_forget_column e c) = sky_stored e" "\<not> light_on_in_section (ske_storage (ske_forget_column e c)) c"
    using f(2,4) by (simp_all add: ske_forget_column_def)
qed

section \<open>Edges\<close>

text \<open>Light loses at least one level along every edge, except straight down from full light through
  a clear block.\<close>

definition falls_freely :: "(int \<Rightarrow> nat option) \<Rightarrow> int \<Rightarrow> int \<Rightarrow> nat \<Rightarrow> bool" where
  "falls_freely w source target l \<longleftrightarrow> l = 0 \<and> sky_opacity w target = 0
     \<and> sky_direction_between source target = Some Down
     \<and> block_pos_get_x source = block_pos_get_x target \<and> block_pos_get_z source = block_pos_get_z target"

lemma decayed: "l < 15 \<Longrightarrow> l < min (sat_add_u8 l (max k 1)) 15 \<and> min (sat_add_u8 l (max k 1)) 15 \<le> 15"
  by (auto simp: sat_add_u8_def)

lemma sky_compute_level_cases:
  assumes l: "l < 15"
  shows "falls_freely w source target l \<and> source \<noteq> i64_max \<and> target \<noteq> i64_max
      \<and> (case w source of Some v \<Rightarrow> v < 15 | None \<Rightarrow> True) \<and> sky_compute_level w source target l = l
    \<or> \<not> (falls_freely w source target l \<and> source \<noteq> i64_max \<and> target \<noteq> i64_max
      \<and> (case w source of Some v \<Rightarrow> v < 15 | None \<Rightarrow> True))
      \<and> l < sky_compute_level w source target l \<and> sky_compute_level w source target l \<le> 15"
proof (cases "target = i64_max \<or> source = i64_max \<or> sky_direction_between source target = None
    \<or> 15 \<le> sky_opacity w target \<or> (case w source of Some v \<Rightarrow> 15 \<le> v | None \<Rightarrow> False)")
  case True
  then have "sky_compute_level w source target l = 15"
    using l by (auto simp: sky_compute_level_def Let_def split: option.split)
  moreover have "\<not> (falls_freely w source target l \<and> source \<noteq> i64_max \<and> target \<noteq> i64_max
      \<and> (case w source of Some v \<Rightarrow> v < 15 | None \<Rightarrow> True))"
    using True by (auto simp: falls_freely_def split: option.splits)
  ultimately show ?thesis using l by simp
next
  case False
  then obtain d where d: "sky_direction_between source target = Some d" by auto
  have "sky_compute_level w source target l = (if falls_freely w source target l then 0
      else min (sat_add_u8 l (max (sky_opacity w target) 1)) 15)"
    using False l d by (simp add: sky_compute_level_def falls_freely_def Let_def conj_ac)
  moreover have "case w source of Some v \<Rightarrow> v < 15 | None \<Rightarrow> True" using False by (auto split: option.splits)
  ultimately show ?thesis using False decayed [OF l] by (auto simp: falls_freely_def)
qed

lemma sky_compute_level_bounds:
  assumes "l \<le> 15"
  shows "sky_compute_level w source target l \<le> 15" and "l \<le> sky_compute_level w source target l"
proof -
  have "l \<le> sky_compute_level w source target l \<and> sky_compute_level w source target l \<le> 15"
  proof (cases "l = 15")
    case True
    then show ?thesis by (simp add: sky_compute_level_def)
  next
    case False
    then have "l < 15" using assms by simp
    from sky_compute_level_cases [OF this, of w source target] \<open>l < 15\<close> show ?thesis by linarith
  qed
  then show "sky_compute_level w source target l \<le> 15" "l \<le> sky_compute_level w source target l" by simp_all
qed

section \<open>Missing sections below\<close>

lemma skipped_sections_spec:
  "let k = skipped_sections s sec y j in j \<le> k
     \<and> (\<forall>i. j \<le> i \<longrightarrow> i < k \<longrightarrow> section_offset sec 0 (- i - 1) 0 \<notin> stored (sky_inner s) \<and> sky_lowest_y s \<le> y - i - 1)
     \<and> (section_offset sec 0 (- k - 1) 0 \<in> stored (sky_inner s) \<or> y - k - 1 < sky_lowest_y s)"
proof (induction s sec y j rule: skipped_sections.induct)
  case (1 s sec y j)
  show ?case
  proof (cases "section_offset sec 0 (- j - 1) 0 \<notin> stored (sky_inner s) \<and> sky_lowest_y s \<le> y - j - 1")
    case True
    have eq: "skipped_sections s sec y j = skipped_sections s sec y (j + 1)"
      using True by (subst skipped_sections.simps) (simp add: storing_light_iff has_sections_below_def)
    have ih: "let k = skipped_sections s sec y (j + 1) in j + 1 \<le> k
       \<and> (\<forall>i. j + 1 \<le> i \<longrightarrow> i < k \<longrightarrow> section_offset sec 0 (- i - 1) 0 \<notin> stored (sky_inner s) \<and> sky_lowest_y s \<le> y - i - 1)
       \<and> (section_offset sec 0 (- k - 1) 0 \<in> stored (sky_inner s) \<or> y - k - 1 < sky_lowest_y s)"
      using 1 True by (simp add: storing_light_iff has_sections_below_def)
    have "section_offset sec 0 (- i - 1) 0 \<notin> stored (sky_inner s) \<and> sky_lowest_y s \<le> y - i - 1"
      if "j \<le> i" "i < skipped_sections s sec y (j + 1)" for i
      using ih True that by (cases "i = j") (auto simp: Let_def)
    then show ?thesis using ih by (simp add: eq Let_def)
  next
    case False
    then have "skipped_sections s sec y j = j"
      by (subst skipped_sections.simps) (auto simp: storing_light_iff has_sections_below_def)
    then show ?thesis using False by (auto simp: Let_def)
  qed
qed

end
