(* ===== verification/LightLevel.thy ===== *)
theory LightLevel imports LightSkyChunks
begin

text \<open>
  The engine of a level, \<open>native/crates/mclone-light/src/level_engine.rs\<close>: one block engine and one
  sky engine that share a budget.  The records of the run reports are in \<open>LightReports\<close>.
\<close>

record level_engine =
  lle_block :: block_engine
  lle_sky :: sky_engine

definition level_engine_new :: "block_light_world \<Rightarrow> (int \<Rightarrow> nat option) \<Rightarrow> level_engine option" where
  "level_engine_new block_world sky_world = do {
     b \<leftarrow> block_engine_new block_world;
     s \<leftarrow> sky_engine_new sky_world;
     Some \<lparr>lle_block = b, lle_sky = s\<rparr>
   }"

definition lle_update_section_status :: "level_engine \<Rightarrow> int \<Rightarrow> bool \<Rightarrow> level_engine option" where
  "lle_update_section_status e section is_empty = do {
     b \<leftarrow> block_update_section_status (lle_block e) section is_empty;
     s \<leftarrow> ske_update_section_status (lle_sky e) section is_empty;
     Some \<lparr>lle_block = b, lle_sky = s\<rparr>
   }"

definition lle_activate_section :: "level_engine \<Rightarrow> int \<Rightarrow> level_engine option" where
  "lle_activate_section e section = do {
     b \<leftarrow> block_activate_section (lle_block e) section;
     s \<leftarrow> ske_activate_section (lle_sky e) section;
     Some \<lparr>lle_block = b, lle_sky = s\<rparr>
   }"

definition lle_enable_light_sources :: "level_engine \<Rightarrow> int \<Rightarrow> bool \<Rightarrow> level_engine" where
  "lle_enable_light_sources e section enabled =
     \<lparr>lle_block = block_enable_light_sources (lle_block e) section enabled,
      lle_sky = ske_enable_light_sources (lle_sky e) section enabled\<rparr>"

definition lle_queue_section_data ::
  "level_engine \<Rightarrow> light_layer \<Rightarrow> int \<Rightarrow> data_layer option \<Rightarrow> bool \<Rightarrow> level_engine" where
  "lle_queue_section_data e layer section l trusted = (case layer of
     Block \<Rightarrow> e\<lparr>lle_block := block_queue_section_data (lle_block e) section l trusted\<rparr>
   | Sky \<Rightarrow> e\<lparr>lle_sky := ske_queue_section_data (lle_sky e) section l trusted\<rparr>)"

definition lle_retain_data :: "level_engine \<Rightarrow> int \<Rightarrow> bool \<Rightarrow> level_engine" where
  "lle_retain_data e column retain =
     \<lparr>lle_block = block_retain_data (lle_block e) column retain,
      lle_sky = ske_retain_data (lle_sky e) column retain\<rparr>"

definition lle_accept_queued_section_data :: "level_engine \<Rightarrow> level_engine" where
  "lle_accept_queued_section_data e =
     \<lparr>lle_block = block_accept_queued_section_data (lle_block e),
      lle_sky = ske_accept_queued_section_data (lle_sky e)\<rparr>"

definition lle_on_block_emission_increase :: "level_engine \<Rightarrow> int \<Rightarrow> nat \<Rightarrow> level_engine option" where
  "lle_on_block_emission_increase e pos emission = do {
     b \<leftarrow> block_on_emission_increase (lle_block e) pos (min emission 15);
     Some (e\<lparr>lle_block := b\<rparr>)
   }"

definition lle_check_block :: "level_engine \<Rightarrow> int \<Rightarrow> level_engine option" where
  "lle_check_block e pos = do {
     b \<leftarrow> block_check_block (lle_block e) pos;
     s \<leftarrow> ske_check_block (lle_sky e) pos;
     Some \<lparr>lle_block = b, lle_sky = s\<rparr>
   }"

definition lle_check_sky_source :: "level_engine \<Rightarrow> int \<Rightarrow> level_engine option" where
  "lle_check_sky_source e pos = do {
     s \<leftarrow> check_sky_source (lle_sky e) pos;
     Some (e\<lparr>lle_sky := s\<rparr>)
   }"

definition has_light_work :: "level_engine \<Rightarrow> bool" where
  "has_light_work e \<longleftrightarrow> block_has_work (lle_block e) \<or> ske_has_work (lle_sky e)"

definition lle_run_updates_report :: "level_engine \<Rightarrow> nat \<Rightarrow> (nat \<times> level_light_run_report \<times> level_engine) option" where
  "lle_run_updates_report e budget =
     (let report = level_light_run_report_default in
      if budget = 0 then Some (0, report, e)
      else do {
        let report = report\<lparr>lvr_iterations := 1\<rparr>;
        let block_budget = budget div 2;
        (remaining_block_budget, block_report, b) \<leftarrow> block_run_updates_report (lle_block e) block_budget;
        let report = report\<lparr>lvr_block := record_call (lvr_block report) block_report timing_elapsed_us\<rparr>;
        let sky_budget = budget - block_budget + remaining_block_budget;
        (remaining_sky_budget, sky_report, s) \<leftarrow> ske_run_updates_report (lle_sky e) sky_budget;
        let report = report\<lparr>lvr_sky := record_call (lvr_sky report) sky_report timing_elapsed_us\<rparr>;
        if remaining_block_budget = 0 \<and> 0 < remaining_sky_budget then do {
          (remaining, block_report, b) \<leftarrow> block_run_updates_report b remaining_sky_budget;
          let report = report\<lparr>lvr_block := record_call (lvr_block report) block_report timing_elapsed_us\<rparr>;
          Some (remaining, report, \<lparr>lle_block = b, lle_sky = s\<rparr>)
        }
        else Some (remaining_sky_budget, report, \<lparr>lle_block = b, lle_sky = s\<rparr>)
      })"

definition lle_run_updates :: "level_engine \<Rightarrow> nat \<Rightarrow> (nat \<times> level_engine) option" where
  "lle_run_updates e budget = do {
     (remaining, report, e) \<leftarrow> lle_run_updates_report e budget;
     Some (remaining, e)
   }"

partial_function (option) lle_run_all_loop ::
  "level_light_run_report \<Rightarrow> level_engine \<Rightarrow> (level_light_run_report \<times> level_engine) option" where
  "lle_run_all_loop report e =
     (if has_light_work e then do {
        (remaining, step_report, e) \<leftarrow> lle_run_updates_report e 16384;
        let report = level_add_assign report step_report;
        if 0 < remaining then Some (report, e) else lle_run_all_loop report e
      }
      else Some (report, e))"

definition lle_run_all_updates_report :: "level_engine \<Rightarrow> (level_light_run_report \<times> level_engine) option" where
  "lle_run_all_updates_report e = lle_run_all_loop level_light_run_report_default e"

text \<open>The loop over the light sections of an evicted column.\<close>

definition evict_section :: "int \<Rightarrow> level_engine \<Rightarrow> level_engine" where
  "evict_section section e =
     \<lparr>lle_block = snd (block_remove_section (lle_block e) section),
      lle_sky = snd (ske_remove_section (lle_sky e) section)\<rparr>"

definition evict_chunk_column :: "level_engine \<Rightarrow> int \<Rightarrow> int \<Rightarrow> int \<Rightarrow> level_engine" where
  "evict_chunk_column e column from_y to_y =
     (let column_x = section_x column;
          column_z = section_z column;
          e = fold (\<lambda>y. evict_section (section_as_long column_x y column_z)) [from_y..to_y - 1] e
      in \<lparr>lle_block = block_forget_retained_column (lle_block e) column,
          lle_sky = ske_forget_column (lle_sky e) column\<rparr>)"

definition get_raw_brightness :: "level_engine \<Rightarrow> int \<Rightarrow> nat \<Rightarrow> nat option" where
  "get_raw_brightness e pos sky_darken = do {
     sky \<leftarrow> ske_stored_light (lle_sky e) pos;
     block \<leftarrow> block_stored_light (lle_block e) pos;
     Some (max (sky - sky_darken) block)
   }"

section \<open>Invariant\<close>

definition level_engine_ok :: "level_engine \<Rightarrow> bool" where
  "level_engine_ok e \<longleftrightarrow> block_engine_ok (lle_block e) \<and> sky_engine_ok (lle_sky e)"

lemma level_engine_new_spec:
  "\<exists>e. level_engine_new bw sw = Some e \<and> level_engine_ok e \<and> \<not> has_light_work e"
  using block_engine_new_spec [of bw] sky_engine_new_spec [of sw]
  by (auto simp: level_engine_new_def level_engine_ok_def has_light_work_def)

lemma lle_check_block_spec:
  assumes "level_engine_ok e" and "in_i64 p"
  shows "\<exists>e'. lle_check_block e p = Some e' \<and> level_engine_ok e'"
  using block_check_block_spec [of "lle_block e" p] ske_check_block_spec [of "lle_sky e" p] assms
  by (auto simp: lle_check_block_def level_engine_ok_def block_checked_def)

section \<open>Sharing the budget\<close>

lemma block_run_budget:
  assumes "block_engine_ok e"
  shows "\<exists>r rep e'. block_run_updates_report e b = Some (r, rep, e') \<and> block_engine_ok e'
     \<and> (0 < r \<longrightarrow> \<not> block_has_work e') \<and> gr_processed_nodes (ler_graph rep) + r = b"
proof -
  have inv: "graph_inv (block_ok (block_stored e)) (light_level (block_stored e)) (light_nodes (block_stored e)) 16
      (be_storage e) (be_graph e)" using assms by (simp add: block_engine_ok_def)
  obtain r rep s g where g: "graph_run_updates_report (block_callbacks (be_world e)) (be_storage e) (be_graph e) b = Some (r, rep, s, g)"
    "gr_processed_nodes rep + r = b"
    using block.client.run_report_total [OF inv, of "be_world e" b] by blast
  obtain r' rep' e' where run: "block_run_updates_report e b = Some (r', rep', e')" "block_ran e e'"
    "0 < r' \<longrightarrow> \<not> block_has_work e'"
    using block_run_spec [OF assms, of b] by blast
  have "r' = r" "ler_graph rep' = rep"
    using run(1) g(1) by (auto simp: block_run_updates_report_def Let_def split: prod.splits)
  then show ?thesis using run g(2) by (auto simp: block_ran_def)
qed

text \<open>Every unit of budget is either a processed node or handed back, and budget is handed back only
  when neither engine has work left.\<close>

lemma lle_run_spec:
  assumes ok: "level_engine_ok e"
  shows "\<exists>r rep e'. lle_run_updates_report e b = Some (r, rep, e') \<and> level_engine_ok e'
     \<and> llr_processed_nodes (lvr_block rep) + llr_processed_nodes (lvr_sky rep) + r = b
     \<and> (0 < r \<longrightarrow> \<not> has_light_work e')"
proof (cases "b = 0")
  case True
  then show ?thesis using ok
    by (simp add: lle_run_updates_report_def level_light_run_report_default_def light_layer_run_report_default_def)
next
  case False
  obtain r1 rep1 b1 where b1: "block_run_updates_report (lle_block e) (b div 2) = Some (r1, rep1, b1)" "block_engine_ok b1"
    "0 < r1 \<longrightarrow> \<not> block_has_work b1" "gr_processed_nodes (ler_graph rep1) + r1 = b div 2"
    using block_run_budget [of "lle_block e" "b div 2"] ok by (auto simp: level_engine_ok_def)
  obtain k where k: "k = b - b div 2 + r1" by simp
  obtain r2 rep2 s2 where s2: "ske_run_updates_report (lle_sky e) k = Some (r2, rep2, s2)" "sky_engine_ok s2"
    "0 < r2 \<longrightarrow> \<not> ske_has_work s2" "gr_processed_nodes (ler_graph rep2) + r2 = k"
    using ske_run_spec [of "lle_sky e" k] ok by (auto simp: level_engine_ok_def)
  obtain r3 rep3 b3 where b3: "block_run_updates_report b1 r2 = Some (r3, rep3, b3)" "block_engine_ok b3"
    "0 < r3 \<longrightarrow> \<not> block_has_work b3" "gr_processed_nodes (ler_graph rep3) + r3 = r2"
    using block_run_budget [OF b1(2), of r2] by blast
  have half: "b div 2 \<le> b" by simp
  define rep where "rep = level_light_run_report_default\<lparr>lvr_iterations := 1,
      lvr_block := record_call (lvr_block (level_light_run_report_default\<lparr>lvr_iterations := 1\<rparr>)) rep1 timing_elapsed_us\<rparr>"
  define full where "full = rep\<lparr>lvr_sky := record_call (lvr_sky rep) rep2 timing_elapsed_us\<rparr>"
  have run: "lle_run_updates_report e b = (if r1 = 0 \<and> 0 < r2 then do {
          (remaining, block_report, b) \<leftarrow> block_run_updates_report b1 r2;
          Some (remaining, full\<lparr>lvr_block := record_call (lvr_block full) block_report timing_elapsed_us\<rparr>,
            \<lparr>lle_block = b, lle_sky = s2\<rparr>) }
      else Some (r2, full, \<lparr>lle_block = b1, lle_sky = s2\<rparr>))"
    using False unfolding full_def rep_def
    by (simp only: lle_run_updates_report_def Let_def if_False b1(1) bind.bind_lunit prod.case k [symmetric] s2(1))
  have nodes: "llr_processed_nodes (lvr_block full) = gr_processed_nodes (ler_graph rep1)"
    "llr_processed_nodes (lvr_sky full) = gr_processed_nodes (ler_graph rep2)"
    by (simp_all add: full_def rep_def record_call_def level_light_run_report_default_def light_layer_run_report_default_def)
  show ?thesis
  proof (cases "r1 = 0 \<and> 0 < r2")
    case True
    then have "lle_run_updates_report e b = Some (r3,
        full\<lparr>lvr_block := record_call (lvr_block full) rep3 timing_elapsed_us\<rparr>, \<lparr>lle_block = b3, lle_sky = s2\<rparr>)"
      using run b3(1) by (simp del: bind_eq_Some)
    then show ?thesis using True b1(4) s2 b3 half nodes
      by (simp add: level_engine_ok_def has_light_work_def record_call_def k)
  next
    case False
    then have "lle_run_updates_report e b = Some (r2, full, \<lparr>lle_block = b1, lle_sky = s2\<rparr>)"
      using run by (simp only: False if_False)
    then show ?thesis using False b1 s2 half nodes by (auto simp: level_engine_ok_def has_light_work_def k)
  qed
qed

lemma lle_run_all_first:
  assumes ok: "level_engine_ok e" and first: "lle_run_updates_report e 16384 = Some (r, rep, e')" and r: "0 < r"
    and work: "has_light_work e"
  shows "lle_run_all_updates_report e = Some (level_add_assign level_light_run_report_default rep, e')"
    and "\<not> has_light_work e'"
proof -
  show "lle_run_all_updates_report e = Some (level_add_assign level_light_run_report_default rep, e')"
    using work r unfolding lle_run_all_updates_report_def
    by (subst lle_run_all_loop.simps) (simp add: first Let_def del: bind_eq_Some)
  show "\<not> has_light_work e'" using lle_run_spec [OF ok, of 16384] first r by simp
qed

section \<open>Brightness\<close>

lemma stored_light_bounds:
  assumes "level_engine_ok e"
  shows "\<exists>v. ske_stored_light (lle_sky e) p = Some v \<and> v < 16"
    and "\<exists>v. block_stored_light (lle_block e) p = Some v \<and> v < 16"
proof -
  have wf: "storage_wf (sky_inner (ske_storage (lle_sky e)))" "storage_wf (be_storage (lle_block e))"
    using assms sky_okD(1) [OF sky_engine_okD(3)] block_okD(1) by (auto simp: level_engine_ok_def)
  show "\<exists>v. ske_stored_light (lle_sky e) p = Some v \<and> v < 16" "\<exists>v. block_stored_light (lle_block e) p = Some v \<and> v < 16"
    using wf layer_at_block_Some
    by (auto simp: ske_stored_light_def block_stored_light_def get_visible_data_layer_def storage_wf_def layers_wf_def
        split: option.split)
qed

lemma raw_brightness_spec:
  assumes ok: "level_engine_ok e"
  shows "\<exists>sky block. ske_stored_light (lle_sky e) p = Some sky \<and> block_stored_light (lle_block e) p = Some block
     \<and> get_raw_brightness e p d = Some (max (sky - d) block) \<and> max (sky - d) block \<le> 15"
  using stored_light_bounds [OF ok, of p] by (fastforce simp: get_raw_brightness_def)

section \<open>Eviction\<close>

text \<open>The sections of a set are gone, in both engines; nothing else has changed.\<close>

definition evicted :: "int set \<Rightarrow> level_engine \<Rightarrow> level_engine \<Rightarrow> bool" where
  "evicted K e e' \<longleftrightarrow> level_engine_ok e'
     \<and> be_graph (lle_block e') = be_graph (lle_block e) \<and> ske_graph (lle_sky e') = ske_graph (lle_sky e)
     \<and> be_world (lle_block e') = be_world (lle_block e) \<and> ske_world (lle_sky e') = ske_world (lle_sky e)
     \<and> block_stored (lle_block e') = block_stored (lle_block e) - K \<and> sky_stored (lle_sky e') = sky_stored (lle_sky e) - K
     \<and> sky_sources (ske_storage (lle_sky e')) = sky_sources (ske_storage (lle_sky e)) - K
     \<and> (\<forall>b. block_stored_light (lle_block e') b
            = (if block_to_section_key b \<in> K then Some 0 else block_stored_light (lle_block e) b))
     \<and> (\<forall>b. ske_stored_light (lle_sky e') b
            = (if block_to_section_key b \<in> K then Some 0 else ske_stored_light (lle_sky e) b))"

definition unqueued :: "int set \<Rightarrow> level_engine \<Rightarrow> bool" where
  "unqueued K e \<longleftrightarrow> (\<forall>n. n |\<in>| fmdom (dg_computed_levels (be_graph (lle_block e)))
     \<or> n |\<in>| fmdom (dg_computed_levels (ske_graph (lle_sky e))) \<longrightarrow> block_to_section_key n \<notin> K)"

lemma remove_section_visible:
  "get_visible_data_layer (snd (remove_section s k)) j = (if j = k then None else get_visible_data_layer s j)"
  by (simp add: remove_section_def remove_layer_def Let_def get_visible_data_layer_def)

lemma evict_section_spec:
  assumes ok: "level_engine_ok e" and q: "unqueued {k} e"
  shows "evicted {k} e (evict_section k e)"
proof -
  have oks: "block_engine_ok (lle_block e)" "sky_engine_ok (lle_sky e)" using ok by (simp_all add: level_engine_ok_def)
  note b = block_remove_spec [OF oks(1), where sec = k]
  note s = ske_remove_spec [OF oks(2), where k = k]
  have src: "sky_sources (ske_storage (snd (ske_remove_section (lle_sky e) k))) = sky_sources (ske_storage (lle_sky e)) - {k}"
    using sky_remove_spec(4) [OF sky_okD(5) [OF sky_engine_okD(3) [OF oks(2)]], of k]
    by (cases "sky_remove_section (ske_storage (lle_sky e)) k") (simp add: ske_remove_section_def)
  have "be_storage (snd (block_remove_section (lle_block e) k)) = snd (remove_section (be_storage (lle_block e)) k)"
    "sky_inner (ske_storage (snd (ske_remove_section (lle_sky e) k))) = snd (remove_section (sky_inner (ske_storage (lle_sky e))) k)"
    by (simp_all add: block_remove_section_def ske_remove_section_def sky_remove_section_def split: prod.split)
  then show ?thesis
    using b s src q unfolding evicted_def level_engine_ok_def evict_section_def unqueued_def
    by (auto simp: block_stored_light_def ske_stored_light_def remove_section_visible)
qed

lemma evicted_trans: "evicted K e e' \<Longrightarrow> evicted L e' e'' \<Longrightarrow> evicted (K \<union> L) e e''"
  unfolding evicted_def by auto

lemma evict_sections_spec:
  "level_engine_ok e \<Longrightarrow> unqueued (set ks) e \<Longrightarrow> evicted (set ks) e (fold evict_section ks e)"
proof (induction ks arbitrary: e)
  case Nil
  then show ?case by (simp add: evicted_def)
next
  case (Cons k ks)
  have first: "evicted {k} e (evict_section k e)"
    using Cons.prems by (intro evict_section_spec) (simp_all add: unqueued_def)
  have "evicted (set ks) (evict_section k e) (fold evict_section ks (evict_section k e))"
    using Cons.prems(2) first by (intro Cons.IH) (auto simp: evicted_def unqueued_def)
  from evicted_trans [OF first this] show ?case by simp
qed

text \<open>Evicting a column whose sections all lie in the range removes every trace of the column and
  leaves the light of every other column alone.\<close>

definition column_sections :: "int \<Rightarrow> int \<Rightarrow> int \<Rightarrow> int set" where
  "column_sections column from_y to_y =
     (\<lambda>y. section_as_long (section_x column) y (section_z column)) ` {from_y..<to_y}"

definition column_covered :: "level_engine \<Rightarrow> int \<Rightarrow> int \<Rightarrow> int \<Rightarrow> bool" where
  "column_covered e column from_y to_y \<longleftrightarrow>
     (\<forall>k\<in>block_stored (lle_block e) \<union> sky_stored (lle_sky e) \<union> sky_sources (ske_storage (lle_sky e)).
        section_get_zero_node k = section_get_zero_node column \<longrightarrow> k \<in> column_sections column from_y to_y)"

lemma evict_column_spec:
  assumes ok: "level_engine_ok e" and c: "in_i64 column" and q: "unqueued (column_sections column from_y to_y) e"
    and covered: "column_covered e column from_y to_y"
  defines "e' \<equiv> evict_chunk_column e column from_y to_y"
  shows "level_engine_ok e'"
    and "\<forall>k\<in>block_stored (lle_block e') \<union> sky_stored (lle_sky e'). section_get_zero_node k \<noteq> section_get_zero_node column"
    and "\<not> light_on_in_section (ske_storage (lle_sky e')) column"
    and "section_get_zero_node (block_to_section_key b) \<noteq> section_get_zero_node column
      \<Longrightarrow> get_raw_brightness e' b d = get_raw_brightness e b d"
proof -
  let ?ks = "map (\<lambda>y. section_as_long (section_x column) y (section_z column)) [from_y..to_y - 1]"
  let ?K = "column_sections column from_y to_y"
  have ks: "set ?ks = ?K" by (auto simp: column_sections_def)
  have zero: "section_get_zero_node k = section_get_zero_node column" if "k \<in> ?K" for k
    using that zero_node_eq [OF c] by (auto simp: column_sections_def zero_node_as_long)
  define e1 where "e1 = fold evict_section ?ks e"
  have ev: "evicted ?K e e1" using evict_sections_spec [OF ok, of ?ks] q unfolding ks e1_def by simp
  have oks: "block_engine_ok (lle_block e1)" "sky_engine_ok (lle_sky e1)"
    using ev by (simp_all add: evicted_def level_engine_ok_def)
  have st: "block_stored (lle_block e1) = block_stored (lle_block e) - ?K" "sky_stored (lle_sky e1) = sky_stored (lle_sky e) - ?K"
    "sky_sources (ske_storage (lle_sky e1)) = sky_sources (ske_storage (lle_sky e)) - ?K"
    using ev by (simp_all add: evicted_def)
  have clear: "section_get_zero_node k \<noteq> section_get_zero_node column"
    if "k \<in> block_stored (lle_block e1) \<union> sky_stored (lle_sky e1) \<union> sky_sources (ske_storage (lle_sky e1))" for k
    using covered that unfolding st column_covered_def by blast
  have e': "e' = \<lparr>lle_block = block_forget_retained_column (lle_block e1) column,
      lle_sky = ske_forget_column (lle_sky e1) column\<rparr>"
    by (simp add: e'_def evict_chunk_column_def Let_def e1_def fold_map comp_def)
  have forget: "sky_engine_ok (ske_forget_column (lle_sky e1) column)"
    "sky_stored (ske_forget_column (lle_sky e1) column) = sky_stored (lle_sky e1)"
    "\<not> light_on_in_section (ske_storage (ske_forget_column (lle_sky e1) column)) column"
    using ske_forget_spec [OF oks(2), of column] clear by auto
  have block: "block_engine_ok (block_forget_retained_column (lle_block e1) column)"
    unfolding block_forget_retained_column_def
    by (rule block_storage_changed [OF oks(1)])
      (use block_okD(1-3) [OF oks(1)] pending_stored [OF oks(1)] in \<open>simp_all add: light_of_def\<close>)
  show "level_engine_ok e'" using block forget(1) by (simp add: e' level_engine_ok_def)
  have "block_stored (lle_block e') = block_stored (lle_block e1)" "sky_stored (lle_sky e') = sky_stored (lle_sky e1)"
    by (simp_all add: e' forget(2) block_forget_retained_column_def)
  then show "\<forall>k\<in>block_stored (lle_block e') \<union> sky_stored (lle_sky e'). section_get_zero_node k \<noteq> section_get_zero_node column"
    using clear by auto
  show "\<not> light_on_in_section (ske_storage (lle_sky e')) column" using forget(3) by (simp add: e')
  have inner: "sky_inner (ske_storage (lle_sky e')) = forget_retained_column (sky_inner (ske_storage (lle_sky e1)))
      (section_get_zero_node column)"
    by (simp add: e' ske_forget_column_def sky_forget_column_def Let_def)
  have "block_stored_light (lle_block e') b = block_stored_light (lle_block e1) b"
    "ske_stored_light (lle_sky e') b = ske_stored_light (lle_sky e1) b" for b
    by (simp_all add: block_stored_light_def ske_stored_light_def get_visible_data_layer_def inner)
      (simp add: e' block_forget_retained_column_def)
  then show "get_raw_brightness e' b d = get_raw_brightness e b d"
    if "section_get_zero_node (block_to_section_key b) \<noteq> section_get_zero_node column"
    using ev zero that by (auto simp: get_raw_brightness_def evicted_def)
qed

end
