(* ===== verification/LightProperties.thy ===== *)
theory LightProperties imports LightLevel
begin

text \<open>
  The properties of \<open>mclone-light\<close>, from packed keys and nibble arrays to the engine of a level.
  Each rests on the lemmas of its component.
\<close>

section \<open>Keys and nibbles\<close>

text \<open>A block position whose coordinates fit their fields is read back from its packed key, and
  every 64-bit key is the packed form of the position that is read from it.\<close>
lemma block_key_pack_unpack:
  "(\<forall>x\<in>{- (2 ^ 25)..<2 ^ 25}. \<forall>y\<in>{- (2 ^ 11)..<2 ^ 11}. \<forall>z\<in>{- (2 ^ 25)..<2 ^ 25}.
      block_pos_get_x (block_pos_as_long x y z) = x \<and> block_pos_get_y (block_pos_as_long x y z) = y
      \<and> block_pos_get_z (block_pos_as_long x y z) = z)
   \<and> (\<forall>k\<in>{- (2 ^ 63)..<2 ^ 63}.
      block_pos_as_long (block_pos_get_x k) (block_pos_get_y k) (block_pos_get_z k) = k)"
  using block_key_roundtrip block_as_long_get by (auto simp: in_i64_def)

theorem block_key_pack_unpack_at_input:
  "block_pos_get_x (block_pos_as_long (- 30000000) 319 29999999) = - 30000000
   \<and> block_pos_as_long (block_pos_get_x 77) (block_pos_get_y 77) (block_pos_get_z 77) = 77"
  using block_key_pack_unpack [THEN conjunct1, THEN bspec, of "- 30000000", THEN bspec, of 319, THEN bspec, of 29999999]
    block_key_pack_unpack [THEN conjunct2, THEN bspec, of 77] by simp

text \<open>Writing a light level into a nibble array makes exactly that slot read the written level,
  whether the array was allocated before or not.\<close>
lemma nibble_write_read:
  assumes "dl_wf l" and "0 \<le> x \<and> x < 16" and "0 \<le> y \<and> y < 16" and "0 \<le> z \<and> z < 16" and "v < 16"
  shows "\<exists>l'. data_layer_set l x y z v = Some l' \<and> dl_wf l'
    \<and> (\<forall>a\<in>{0..<16}. \<forall>b\<in>{0..<16}. \<forall>c\<in>{0..<16}. data_layer_get l' a b c
        = (if a = x \<and> b = y \<and> c = z then Some v else data_layer_get l a b c))"
proof -
  let ?i = "nat (y * 256 + z * 16 + x)"
  have "y * 256 + z * 16 + x < 4096" using assms(2-4) by arith
  then have i: "?i < 4096" by linarith
  obtain l' where l': "set_index l ?i v = Some l'" using nibbles.wr_defined [OF assms(1) i assms(5)] by blast
  note get = set_index_get [OF assms(1) i l']
  have "data_layer_get l' a b c = (if a = x \<and> b = y \<and> c = z then Some v else data_layer_get l a b c)"
    if "a \<in> {0..<16}" "b \<in> {0..<16}" "c \<in> {0..<16}" for a b c
  proof -
    have "nat (b * 256 + c * 16 + a) = ?i \<longleftrightarrow> a = x \<and> b = y \<and> c = z"
      using that assms(2-4) chunk_section_index_inj [of a b c ?i x y z]
      by (auto simp: data_layer_index_chunk [symmetric] data_layer_index_eq)
    then show ?thesis
      using get(2,3) assms(5) that by (auto simp: data_layer_get_def data_layer_index_eq)
  qed
  then show ?thesis using l' get(1) assms(2-4) by (auto simp: data_layer_set_def data_layer_index_eq)
qed

lemma nibble_write_read_at_input:
  "\<exists>l'. data_layer_set data_layer_new 3 15 0 12 = Some l' \<and> data_layer_get l' 3 15 0 = Some 12
    \<and> data_layer_get l' 2 15 0 = data_layer_get data_layer_new 2 15 0"
proof -
  obtain l' where "data_layer_set data_layer_new 3 15 0 12 = Some l'"
    "\<forall>a\<in>{0..<16}. \<forall>b\<in>{0..<16}. \<forall>c\<in>{0..<16}. data_layer_get l' a b c
        = (if a = 3 \<and> b = 15 \<and> c = 0 then Some 12 else data_layer_get data_layer_new a b c)"
    using nibble_write_read [of data_layer_new 3 15 0 12] by auto
  then show ?thesis by simp
qed

text \<open>The sky light looked up in the packed sections of a chunk is that of the lowest section
  with sky data at or above the wanted height; without one it is full if the chunk has any sky
  data and none otherwise.\<close>
lemma packed_sky_lookup:
  "(\<exists>s layer. nearest_sky ss y s \<and> pls_sky s = Some layer \<and> sky_light_at ss y i = data_layer_value layer i)
   \<or> (\<nexists>s. nearest_sky ss y s) \<and> sky_light_at ss y i = Some (if \<exists>s\<in>set ss. pls_sky s \<noteq> None then 15 else 0)"
  by (rule sky_light_at_spec)

section \<open>Section storage\<close>

text \<open>Writing the level of a block in a stored section changes the level of that block only,
  keeps the storage well formed and what readers see published, and marks the section as changed.\<close>
lemma stored_level_write:
  assumes "storage_wf s" and "in_i64 b" and "block_to_section_key b \<in> stored s" and "v < 16"
  shows "\<exists>s'. set_stored_level s b v = Some s' \<and> storage_wf s' \<and> stored s' = stored s
     \<and> (\<forall>c. in_i64 c \<longrightarrow> light_of s' c = (if c = b then v else light_of s c))
     \<and> (published s \<longrightarrow> published s') \<and> block_to_section_key b |\<in>| ss_changed_sections s'"
  using set_stored_level_spec [OF assms] by blast

theorem stored_level_write_at_input:
  "\<exists>change s s'. apply_graph_level (section_storage_new Sky) 0 1 = Some (change, s)
     \<and> set_stored_level s 0 7 = Some s' \<and> light_of s' 0 = 7"
proof -
  obtain change s where s: "apply_graph_level (section_storage_new Sky) 0 1 = Some (change, s)"
    "level_applied (section_storage_new Sky) 0 1 change s"
    using apply_graph_level_spec [OF storage_new_ok(1) [of Sky], of 0 1] by auto
  have zero: "block_to_section_key 0 = 0" by (simp add: block_to_section_key_def) code_simp
  have "storage_wf s" "0 \<in> stored s" using s(2) by (simp_all add: level_applied_def)
  then obtain s' where "set_stored_level s 0 7 = Some s'" "light_of s' 0 = 7"
    using stored_level_write [of s 0 7] zero by (auto simp: in_i64_def)
  then show ?thesis using s(1) by blast
qed

text \<open>Applying a section level makes it the level of that section, leaves the level of every
  other section alone, allocates storage exactly for a section that had none and is not emptied, and
  fills new storage with the data queued for it.\<close>
lemma section_level_applies:
  assumes "storage_wf s" and "sec \<noteq> i64_max" and "level \<le> 2"
  shows "\<exists>change s'. apply_graph_level s sec level = Some (change, s') \<and> storage_wf s'
     \<and> section_level s' sec = level \<and> (\<forall>other. other \<noteq> sec \<longrightarrow> section_level s' other = section_level s other)
     \<and> stored s' = (if level < 2 then insert sec (stored s) else stored s)
     \<and> (slc_added change \<longleftrightarrow> sec \<notin> stored s \<and> level < 2)
     \<and> (slc_added change \<longrightarrow> get_updating_data_layer s' sec = Some (create_data_layer s sec))"
proof -
  obtain change s' where s': "apply_graph_level s sec level = Some (change, s')" "level_applied s sec level change s'"
    using apply_graph_level_spec [OF assms] by blast
  show ?thesis
    using s'(1) by (intro exI conjI) (use s'(2) in \<open>auto simp: level_applied_def get_updating_data_layer_def\<close>)
qed

theorem section_level_applies_at_input:
  "\<exists>change s'. apply_graph_level (section_storage_new Block) 5 0 = Some (change, s') \<and> section_level s' 5 = 0
     \<and> slc_added change"
  using section_level_applies [OF storage_new_ok(1) [of Block], of 5 0] storage_new_ok(3) [of Block] by auto

text \<open>Accepting queued data: a stored section takes over the data queued for it, other sections
  keep theirs, and exactly the data of sections without storage stays queued.\<close>
lemma queued_data_accepted:
  assumes "storage_wf s"
  defines "s' \<equiv> accept_queued_sections_for_stored_layers s"
  shows "storage_wf s' \<and> stored s' = stored s
    \<and> (\<forall>k. get_updating_data_layer s' k = (if k \<in> stored s
         then (case fmlookup (ss_queued_sections s) k of Some l \<Rightarrow> Some l | None \<Rightarrow> get_updating_data_layer s k) else None))
    \<and> (\<forall>k. fmlookup (ss_queued_sections s') k = (if k \<in> stored s then None else fmlookup (ss_queued_sections s) k))"
proof -
  note acc = accept_queued_sections_spec [OF assms(1), folded s'_def]
  have "get_updating_data_layer s' k = (if k \<in> stored s
         then (case fmlookup (ss_queued_sections s) k of Some l \<Rightarrow> Some l | None \<Rightarrow> get_updating_data_layer s k) else None)" for k
    using acc(4) [of k] by (simp add: get_updating_data_layer_def split: option.split)
  then show ?thesis using acc by blast
qed

lemma queued_data_accepted_at_input:
  "fmlookup (ss_queued_sections (accept_queued_sections_for_stored_layers
     (queue_section_data (section_storage_new Sky) 9 (Some data_layer_new) True))) 9 = Some data_layer_new"
proof -
  let ?s = "queue_section_data (section_storage_new Sky) 9 (Some data_layer_new) True"
  have "storage_wf ?s" "stored ?s = {}" "fmlookup (ss_queued_sections ?s) 9 = Some data_layer_new"
    by (simp_all add: queue_section_data_def section_storage_new_def storage_wf_def stored_def Let_def)
  then show ?thesis using queued_data_accepted [of ?s] by simp
qed

text \<open>Removing the sections marked for removal removes exactly their storage.  In a retained
  column their queued data, or else the removed data, stays queued; elsewhere nothing of them stays.
  No section changes its level.\<close>
lemma marked_sections_removed:
  assumes "storage_wf s"
  defines "r \<equiv> remove_marked_sections s"
  shows "set (fst r) = fset (ss_to_remove s) \<and> storage_wf (snd r) \<and> stored (snd r) = stored s - fset (ss_to_remove s)
    \<and> (\<forall>k. fmlookup (ss_queued_sections (snd r)) k
        = (if k |\<in>| ss_to_remove s then kept_data s k else fmlookup (ss_queued_sections s) k))
    \<and> (\<forall>k. section_level (snd r) k = section_level s k)"
  using remove_marked_sections_spec [OF assms(1)] by (simp add: r_def)

theorem marked_sections_removed_at_input:
  "stored (snd (remove_marked_sections (section_storage_new Sky))) = {}"
  using marked_sections_removed [OF storage_new_ok(1) [of Sky]] storage_new_ok(3) [of Sky] by simp

text \<open>Publishing makes readers see exactly the levels the engine has written, and clears the set
  of changed sections.\<close>
lemma swap_publishes:
  assumes "storage_wf s" and "published s"
  defines "s' \<equiv> snd (swap_section_map s)"
  shows "(\<forall>k. get_visible_data_layer s' k = get_updating_data_layer s k)
    \<and> (\<forall>k. get_updating_data_layer s' k = get_updating_data_layer s k)
    \<and> storage_wf s' \<and> published s' \<and> ss_changed_sections s' = {||} \<and> ss_affected s' = {||}"
  using swap_section_map_spec [OF assms(1,2)]
  by (simp add: s'_def get_visible_data_layer_def get_updating_data_layer_def) (simp add: swap_section_map_def Let_def)

theorem swap_publishes_at_input:
  "get_visible_data_layer (snd (swap_section_map (section_storage_new Block))) 4 = None"
  using swap_publishes [OF storage_new_ok(1,2) [of Block], THEN conjunct1, THEN spec, of 4] storage_new_ok(3) [of Block]
  by (simp add: get_updating_data_layer_def stored_def fmdom_notD)

end
