(* ===== verification/LightEngineProperties.thy ===== *)
theory LightEngineProperties imports LightLevel
begin

text \<open>
  The properties of the light engines of \<open>mclone-light\<close>: block light, sky light and the level engine
  that shares a budget between them.
\<close>

section \<open>Block light\<close>

text \<open>C23: Running block light to the end terminates from every consistent state, without a panic,
  and leaves a consistent engine without work, over the same world and the same sections.\<close>
theorem block_run_all_terminates:
  assumes "block_engine_ok e"
  shows "\<exists>e'. block_run_all_updates e = Some e' \<and> block_engine_ok e' \<and> \<not> block_has_work e'
    \<and> be_world e' = be_world e \<and> block_stored e' = block_stored e"
  using block_run_all_spec [OF assms] by (auto simp: block_ran_def)

abbreviation (input) dark_world :: block_light_world where
  "dark_world \<equiv> \<lparr>blw_light_emission = \<lambda>p. 0, blw_light_opacity = \<lambda>p. Some 0\<rparr>"

abbreviation (input) torch_world :: block_light_world where
  "torch_world \<equiv> \<lparr>blw_light_emission = \<lambda>p. if p = 0 then 14 else 0, blw_light_opacity = \<lambda>p. Some 0\<rparr>"

lemma section_zero: "block_to_section_key 0 = 0" by (simp add: block_to_section_key_def) code_simp

lemma in_i64_zero: "in_i64 0" by (simp add: in_i64_def)

text \<open>An engine with one section and no light.\<close>

lemma fresh_engine:
  "\<exists>e0 e1. block_engine_new w = Some e0 \<and> block_activate_section e0 0 = Some e1 \<and> block_engine_ok e1
     \<and> \<not> block_has_work e1 \<and> be_world e1 = w \<and> block_stored e1 = {0}
     \<and> (\<forall>b. b \<in> light_nodes (block_stored e1) \<longrightarrow> light_of (be_storage e1) b = 0)"
proof -
  obtain e0 where e0: "block_engine_new w = Some e0" "block_engine_ok e0" "be_world e0 = w" "block_stored e0 = {}"
    "\<not> block_has_work e0" using block_engine_new_spec [of w] by blast
  have q: "fmlookup (ss_queued_sections (be_storage e0)) 0 = None"
    using e0(1) by (auto simp: block_engine_new_def section_storage_new_def Let_def)
  obtain e1 where e1: "block_activate_section e0 0 = Some e1" "block_engine_ok e1" "be_world e1 = w"
    "be_graph e1 = be_graph e0" "block_stored e1 = {0}" "\<And>b. block_to_section_key b = 0 \<Longrightarrow> light_of (be_storage e1) b = 0"
    using block_activate_spec [OF e0(2), of 0] q e0(3,4) by auto
  have "\<not> block_has_work e1" using e0(5) e1(4) by (simp add: block_has_work_def)
  then show ?thesis using e0(1) e1 by (auto simp: light_nodes_def)
qed

lemma dark_engine:
  "\<exists>e0 e1. block_engine_new dark_world = Some e0 \<and> block_activate_section e0 0 = Some e1 \<and> block_engine_ok e1
     \<and> \<not> block_has_work e1 \<and> block_settled e1 \<and> be_world e1 = dark_world \<and> block_stored e1 = {0}"
proof -
  obtain e0 e1 where e: "block_engine_new dark_world = Some e0" "block_activate_section e0 0 = Some e1" "block_engine_ok e1"
    "\<not> block_has_work e1" "be_world e1 = dark_world" "block_stored e1 = {0}"
    "\<And>b. b \<in> light_nodes (block_stored e1) \<Longrightarrow> light_of (be_storage e1) b = 0"
    using fresh_engine [of dark_world] by blast
  have "block_suspects e1 = {}" using dark_suspects [OF e(3,4,7)] e(5) by simp
  then show ?thesis using settled_iff [OF e(3,4)] e by blast
qed

theorem block_run_all_terminates_witness:
  "\<exists>e0 e1 e2 e3. block_engine_new torch_world = Some e0 \<and> block_activate_section e0 0 = Some e1
     \<and> block_on_emission_increase e1 0 14 = Some e2 \<and> block_run_all_updates e2 = Some e3 \<and> \<not> block_has_work e3"
proof -
  obtain e0 where e0: "block_engine_new torch_world = Some e0" "block_engine_ok e0" "block_stored e0 = {}"
    using block_engine_new_spec [of torch_world] by blast
  obtain e1 where e1: "block_activate_section e0 0 = Some e1" "block_engine_ok e1" "block_stored e1 = {0}"
    using block_activate_spec [OF e0(2), of 0] e0(3) by auto
  obtain e2 where e2: "block_on_emission_increase e1 0 14 = Some e2" "block_engine_ok e2"
    using block_emission_spec [OF e1(2) in_i64_zero, of 14] e1(3) section_zero by (auto simp: storing_light_iff)
  show ?thesis using e0(1) e1(1) e2(1) block_run_all_terminates [OF e2(2)] by blast
qed

lemma block_change_run:
  assumes "block_engine_ok e" and "\<not> block_has_work e" and "block_settled e" and "in_i64 p"
    and "\<And>t. t \<noteq> p \<Longrightarrow> blw_light_emission w t = blw_light_emission (be_world e) t
      \<and> blw_light_opacity w t = blw_light_opacity (be_world e) t"
  shows "\<exists>e1 e2. block_check_block (e\<lparr>be_world := w\<rparr>) p = Some e1 \<and> block_run_all_updates e1 = Some e2
    \<and> block_engine_ok e2 \<and> \<not> block_has_work e2 \<and> be_world e2 = w \<and> block_stored e2 = block_stored e \<and> block_settled e2
    \<and> (block_has_work e1 \<or> block_shows e \<longrightarrow> (\<forall>b. block_stored_light e2 b = Some (light_of (be_storage e2) b)))
    \<and> (\<not> block_has_work e1 \<longrightarrow> be_storage e2 = be_storage e)"
proof -
  note changed = block_world_changed [OF assms(1,5)]
  have "block_suspects e = {}" using settled_iff [OF assms(1,2)] assms(3) by simp
  then have one: "block_suspects (e\<lparr>be_world := w\<rparr>) \<subseteq> {p}" using changed(2) by simp
  obtain e1 where e1: "block_check_block (e\<lparr>be_world := w\<rparr>) p = Some e1"
    "block_checked (e\<lparr>be_world := w\<rparr>) (insert p (direction_step p ` set all_directions)) e1"
    using block_check_block_spec [OF changed(1) assms(4)] by blast
  have ok1: "block_engine_ok e1" "be_world e1 = w" "be_storage e1 = be_storage e" "block_suspects e1 = {}"
    using e1(2) one by (auto simp: block_checked_def)
  obtain e2 where e2: "block_run_all_updates e1 = Some e2" "block_ran e1 e2" "\<not> block_has_work e2"
    "block_has_work e1 \<or> block_shows e1 \<longrightarrow> block_shows e2"
    using block_run_all_spec [OF ok1(1)] by blast
  have ok2: "block_engine_ok e2" "be_world e2 = w" "block_stored e2 = block_stored e" "block_suspects e2 = {}"
    using e2(2) ok1 by (auto simp: block_ran_def)
  have "block_settled e2" using settled_iff [OF ok2(1) e2(3)] ok2(4) by simp
  moreover have "block_stored_light e2 b = Some (light_of (be_storage e2) b)" if "block_has_work e1 \<or> block_shows e" for b
    using that e2(4) ok1(3) by (intro block_stored_light_eq block_okD(1) [OF ok2(1)]) (auto simp: block_shows_def)
  moreover have "be_storage e2 = be_storage e" if "\<not> block_has_work e1"
    using e2(1) that ok1(3) by (simp add: block_run_all_updates.simps [of e1])
  ultimately show ?thesis using e1(1) e2(1,3) ok2 by blast
qed

text \<open>C4: A changed block settles.  Start from an idle engine whose light is a fixed point, change the
  world at one block, check that block and run: afterwards every stored block again has the light its
  emission and its neighbours give it, and the engine is idle.  Readers see that light at every block if the check left
  work to do, or if they saw the engine's current storage before.  If the check left no work, the run publishes nothing
  and the storage stays as it was: what an activated section holds that was not published before stays unpublished.\<close>
theorem block_change_settles:
  assumes "block_engine_ok e" and "\<not> block_has_work e" and "block_settled e" and "in_i64 p"
    and "\<And>t. t \<noteq> p \<Longrightarrow> blw_light_emission w t = blw_light_emission (be_world e) t
      \<and> blw_light_opacity w t = blw_light_opacity (be_world e) t"
  shows "\<exists>e1 e2. block_check_block (e\<lparr>be_world := w\<rparr>) p = Some e1 \<and> block_run_all_updates e1 = Some e2
    \<and> block_engine_ok e2 \<and> \<not> block_has_work e2 \<and> be_world e2 = w \<and> block_stored e2 = block_stored e \<and> block_settled e2
    \<and> (block_has_work e1 \<or> block_shows e \<longrightarrow> (\<forall>b. block_stored_light e2 b = Some (light_of (be_storage e2) b)))
    \<and> (\<not> block_has_work e1 \<longrightarrow> be_storage e2 = be_storage e)"
  by (rule block_change_run [OF assms])

theorem block_change_settles_witness:
  "\<exists>e0 e1 e2 e3. block_engine_new dark_world = Some e0 \<and> block_activate_section e0 0 = Some e1
     \<and> block_check_block (e1\<lparr>be_world := torch_world\<rparr>) 0 = Some e2 \<and> block_run_all_updates e2 = Some e3
     \<and> be_world e3 = torch_world \<and> block_settled e3"
proof -
  obtain e0 e1 where e: "block_engine_new dark_world = Some e0" "block_activate_section e0 0 = Some e1" "block_engine_ok e1"
    "\<not> block_has_work e1" "block_settled e1" "be_world e1 = dark_world" using dark_engine by blast
  show ?thesis using block_change_settles [OF e(3-5) in_i64_zero, of torch_world] e(1,2,6) by auto
qed

lemma unstored_dark: "block_to_section_key b \<notin> stored s \<Longrightarrow> light_of s b = 0"
  by (auto simp: stored_def light_of_def fmlookup_dom_iff split: option.split)

text \<open>Two engines over the same world and the same sections whose light is a fixed point store the same
  light at every block, with or without storage.\<close>
lemma settled_light_unique:
  assumes "block_engine_ok e" and "block_engine_ok e'" and "block_settled e" and "block_settled e'"
    and "be_world e' = be_world e" and "block_stored e' = block_stored e" and "in_i64 b" and "b \<noteq> i64_max"
  shows "light_of (be_storage e) b = light_of (be_storage e') b"
proof (cases "block_to_section_key b \<in> block_stored e")
  case True
  then show ?thesis using assms(7,8) settled_unique [OF assms(1-6)] by (simp add: light_nodes_def)
next
  case False
  then show ?thesis using unstored_dark assms(6) by simp
qed

definition check_blocks :: "int list \<Rightarrow> block_engine \<Rightarrow> block_engine option" where
  "check_blocks ps e = fold (\<lambda>p r. r \<bind> (\<lambda>e. block_check_block e p)) ps (Some e)"

lemma check_blocks_suspects:
  "block_engine_ok e \<Longrightarrow> \<forall>p\<in>set ps. in_i64 p
    \<Longrightarrow> \<exists>e'. check_blocks ps e = Some e' \<and> block_engine_ok e' \<and> block_suspects e' \<subseteq> block_suspects e - set ps
      \<and> be_storage e' = be_storage e \<and> be_world e' = be_world e"
proof (induction ps arbitrary: e)
  case Nil
  then show ?case by (simp add: check_blocks_def)
next
  case (Cons p ps)
  obtain e1 where e1: "block_check_block e p = Some e1" "block_checked e (insert p (direction_step p ` set all_directions)) e1"
    using block_check_block_spec [OF Cons.prems(1), of p] Cons.prems(2) by auto
  obtain e2 where "check_blocks ps e1 = Some e2" "block_engine_ok e2" "block_suspects e2 \<subseteq> block_suspects e1 - set ps"
    "be_storage e2 = be_storage e1" "be_world e2 = be_world e1"
    using Cons.IH [of e1] Cons.prems(2) e1(2) by (auto simp: block_checked_def)
  moreover have "check_blocks (p # ps) e = check_blocks ps e1" by (simp add: check_blocks_def e1(1) del: bind_eq_Some)
  ultimately show ?case using e1(2) by (auto simp: block_checked_def)
qed

lemma first_light_run:
  assumes "block_engine_ok e" and "\<not> block_has_work e"
    and "\<And>b. b \<in> light_nodes (block_stored e) \<Longrightarrow> light_of (be_storage e) b = 0"
    and "\<And>b. b \<in> light_nodes (block_stored e) \<Longrightarrow> 0 < blw_light_emission (be_world e) b \<Longrightarrow> b \<in> set ps"
    and "\<forall>p\<in>set ps. in_i64 p"
  shows "\<exists>e1 e2. check_blocks ps e = Some e1 \<and> block_run_all_updates e1 = Some e2 \<and> block_settled e2
    \<and> \<not> block_has_work e2 \<and> block_engine_ok e2 \<and> be_world e2 = be_world e \<and> block_stored e2 = block_stored e"
proof -
  have "block_suspects e \<subseteq> set ps" using dark_suspects [OF assms(1-3)] assms(4) by blast
  then obtain e1 where e1: "check_blocks ps e = Some e1" "block_engine_ok e1" "block_suspects e1 = {}"
    "be_storage e1 = be_storage e" "be_world e1 = be_world e"
    using check_blocks_suspects [OF assms(1,5)] by blast
  obtain e2 where e2: "block_run_all_updates e1 = Some e2" "block_ran e1 e2" "\<not> block_has_work e2"
    using block_run_all_spec [OF e1(2)] by blast
  have "block_settled e2" using settled_iff [of e2] e2(2,3) e1(3) by (auto simp: block_ran_def)
  then show ?thesis using e1(1,4,5) e2 by (auto simp: block_ran_def)
qed

text \<open>C24: The first lighting of a chunk needs no more than its emitters: in an idle engine that is dark,
  checking every emitting block and running gives settled light.\<close>
theorem block_first_light:
  assumes "block_engine_ok e" and "\<not> block_has_work e"
    and "\<And>b. b \<in> light_nodes (block_stored e) \<Longrightarrow> light_of (be_storage e) b = 0"
    and "\<And>b. b \<in> light_nodes (block_stored e) \<Longrightarrow> 0 < blw_light_emission (be_world e) b \<Longrightarrow> b \<in> set ps"
    and "\<forall>p\<in>set ps. in_i64 p"
  shows "\<exists>e1 e2. check_blocks ps e = Some e1 \<and> block_run_all_updates e1 = Some e2 \<and> block_settled e2
    \<and> \<not> block_has_work e2"
  using first_light_run [OF assms] by blast

theorem block_first_light_witness:
  "\<exists>e0 e1 e2 e3. block_engine_new torch_world = Some e0 \<and> block_activate_section e0 0 = Some e1
     \<and> check_blocks [0] e1 = Some e2 \<and> block_run_all_updates e2 = Some e3 \<and> block_settled e3"
proof -
  obtain e0 e1 where e: "block_engine_new torch_world = Some e0" "block_activate_section e0 0 = Some e1" "block_engine_ok e1"
    "\<not> block_has_work e1" "be_world e1 = torch_world"
    "\<And>b. b \<in> light_nodes (block_stored e1) \<Longrightarrow> light_of (be_storage e1) b = 0"
    using fresh_engine [of torch_world] by blast
  have "\<exists>e2 e3. check_blocks [0] e1 = Some e2 \<and> block_run_all_updates e2 = Some e3 \<and> block_settled e3 \<and> \<not> block_has_work e3"
    by (rule block_first_light [OF e(3,4,6)]) (use e(5) in_i64_zero in \<open>auto split: if_splits\<close>)
  then show ?thesis using e(1,2) by blast
qed

text \<open>A list of changes, each at one block, relit one after the other: the world
  changes, the block is checked, the engine runs.\<close>

fun relight :: "(int \<times> block_light_world) list \<Rightarrow> block_engine \<Rightarrow> block_engine option" where
  "relight [] e = Some e"
| "relight ((p, w) # changes) e = do {
     e1 \<leftarrow> block_check_block (e\<lparr>be_world := w\<rparr>) p;
     e2 \<leftarrow> block_run_all_updates e1;
     relight changes e2
   }"

fun single_changes :: "block_light_world \<Rightarrow> (int \<times> block_light_world) list \<Rightarrow> bool" where
  "single_changes w0 [] \<longleftrightarrow> True"
| "single_changes w0 ((p, w) # changes) \<longleftrightarrow> in_i64 p
     \<and> (\<forall>t. t \<noteq> p \<longrightarrow> blw_light_emission w t = blw_light_emission w0 t \<and> blw_light_opacity w t = blw_light_opacity w0 t)
     \<and> single_changes w changes"

fun world_after :: "block_light_world \<Rightarrow> (int \<times> block_light_world) list \<Rightarrow> block_light_world" where
  "world_after w0 [] = w0"
| "world_after w0 ((p, w) # changes) = world_after w changes"

lemma relight_settles:
  assumes "block_engine_ok e" and "\<not> block_has_work e" and "block_settled e" and "single_changes (be_world e) changes"
  shows "\<exists>e'. relight changes e = Some e' \<and> block_engine_ok e' \<and> \<not> block_has_work e' \<and> block_settled e'
    \<and> be_world e' = world_after (be_world e) changes \<and> block_stored e' = block_stored e"
  using assms
proof (induction changes arbitrary: e)
  case (Cons change changes)
  obtain p w where c: "change = (p, w)" by fastforce
  have step: "in_i64 p" "single_changes w changes"
    "\<And>t. t \<noteq> p \<Longrightarrow> blw_light_emission w t = blw_light_emission (be_world e) t
      \<and> blw_light_opacity w t = blw_light_opacity (be_world e) t" using Cons.prems(4) c by auto
  obtain e1 e2 where e: "block_check_block (e\<lparr>be_world := w\<rparr>) p = Some e1" "block_run_all_updates e1 = Some e2"
    "block_engine_ok e2" "\<not> block_has_work e2" "be_world e2 = w" "block_stored e2 = block_stored e" "block_settled e2"
    using block_change_run [OF Cons.prems(1-3) step(1,3)] by blast
  obtain e' where "relight changes e2 = Some e'" "block_engine_ok e'" "\<not> block_has_work e'" "block_settled e'"
    "be_world e' = world_after w changes" "block_stored e' = block_stored e2"
    using Cons.IH [OF e(3,4,7)] step(2) e(5) by auto
  then show ?case using c e(1,2,6) by simp
qed simp

text \<open>C13: Updating light block by block gives what lighting from scratch gives.  Take an idle engine whose light
  is a fixed point and any list of changes of the world, each at one block, that are checked and run one after the
  other; and a second engine with the same stored sections, idle and dark, over the world after all changes, in which
  every emitting block is checked, in any order and possibly with others, before one run.  None of this panics, all runs
  return, and both engines then hold the same light at every packed block position (the code's source node aside).\<close>
theorem updated_light_from_scratch:
  assumes "block_engine_ok e" and "\<not> block_has_work e" and "block_settled e" and "single_changes (be_world e) changes"
    and "block_engine_ok d" and "\<not> block_has_work d" and "be_world d = world_after (be_world e) changes"
    and "block_stored d = block_stored e"
    and "\<And>b. b \<in> light_nodes (block_stored d) \<Longrightarrow> light_of (be_storage d) b = 0"
    and "\<And>b. b \<in> light_nodes (block_stored d) \<Longrightarrow> 0 < blw_light_emission (be_world d) b \<Longrightarrow> b \<in> set ps"
    and "\<forall>p\<in>set ps. in_i64 p"
  shows "\<exists>e' d1 d'. relight changes e = Some e' \<and> check_blocks ps d = Some d1 \<and> block_run_all_updates d1 = Some d'
    \<and> \<not> block_has_work e' \<and> \<not> block_has_work d'
    \<and> (\<forall>b. in_i64 b \<and> b \<noteq> i64_max \<longrightarrow> light_of (be_storage e') b = light_of (be_storage d') b)"
proof -
  obtain e' where e': "relight changes e = Some e'" "block_engine_ok e'" "\<not> block_has_work e'" "block_settled e'"
    "be_world e' = world_after (be_world e) changes" "block_stored e' = block_stored e"
    using relight_settles [OF assms(1-4)] by blast
  obtain d1 d' where d': "check_blocks ps d = Some d1" "block_run_all_updates d1 = Some d'" "block_settled d'"
    "\<not> block_has_work d'" "block_engine_ok d'" "be_world d' = be_world d" "block_stored d' = block_stored d"
    using first_light_run [OF assms(5,6,9-11)] by blast
  have "light_of (be_storage e') b = light_of (be_storage d') b" if "in_i64 b \<and> b \<noteq> i64_max" for b
    by (rule settled_light_unique [OF e'(2) d'(5) e'(4) d'(3)]) (use that e'(5,6) d'(6,7) assms(7,8) in simp_all)
  then show ?thesis using e'(1,3) d'(1,2,4) by blast
qed

text \<open>A torch is placed, taken away and placed again; the second engine lights the world with the torch at once.\<close>

theorem updated_light_from_scratch_witness:
  "\<exists>e0 e1 e2 d0 d1 d2 d3. block_engine_new dark_world = Some e0 \<and> block_activate_section e0 0 = Some e1
     \<and> relight [(0, torch_world), (0, dark_world), (0, torch_world)] e1 = Some e2
     \<and> block_engine_new torch_world = Some d0 \<and> block_activate_section d0 0 = Some d1
     \<and> check_blocks [0] d1 = Some d2 \<and> block_run_all_updates d2 = Some d3
     \<and> light_of (be_storage e2) 3 = light_of (be_storage d3) 3"
proof -
  let ?cs = "[(0, torch_world), (0, dark_world), (0, torch_world)]"
  obtain e0 e1 where e: "block_engine_new dark_world = Some e0" "block_activate_section e0 0 = Some e1" "block_engine_ok e1"
    "\<not> block_has_work e1" "block_settled e1" "be_world e1 = dark_world" "block_stored e1 = {0}" using dark_engine by blast
  obtain d0 d1 where d: "block_engine_new torch_world = Some d0" "block_activate_section d0 0 = Some d1" "block_engine_ok d1"
    "\<not> block_has_work d1" "be_world d1 = torch_world" "block_stored d1 = {0}"
    "\<And>b. b \<in> light_nodes (block_stored d1) \<Longrightarrow> light_of (be_storage d1) b = 0"
    using fresh_engine [of torch_world] by blast
  have cs: "single_changes (be_world e1) ?cs" using in_i64_zero e(6) by simp
  have world: "be_world d1 = world_after (be_world e1) ?cs" "block_stored d1 = block_stored e1" using d(5,6) e(7) by simp_all
  have ps: "\<And>b. b \<in> light_nodes (block_stored d1) \<Longrightarrow> 0 < blw_light_emission (be_world d1) b \<Longrightarrow> b \<in> set [0]"
    "\<forall>p\<in>set [0]. in_i64 p" using d(5) in_i64_zero by (auto split: if_splits)
  have three: "in_i64 3 \<and> 3 \<noteq> i64_max" by (simp add: in_i64_def)
  obtain e2 d2 d3 where "relight ?cs e1 = Some e2" "check_blocks [0] d1 = Some d2" "block_run_all_updates d2 = Some d3"
    "light_of (be_storage e2) 3 = light_of (be_storage d3) 3"
    using updated_light_from_scratch [OF e(3-5) cs d(3,4) world d(7) ps] three by metis
  with e(1,2) d(1,2) show ?thesis by blast
qed

section \<open>Sky light\<close>

text \<open>C25: The bookkeeping of columns is an invariant of activating sections: every stored section lies
  below the recorded top of its column, and every sky source is the topmost section of a column with
  sky light.\<close>
theorem sky_columns_invariant:
  assumes "sky_wf s" and "in_i64 k" and "k \<noteq> i64_max" and "level < 2"
  shows "\<exists>change s'. sky_apply_level s k level = Some (change, s') \<and> sky_wf s'
    \<and> (\<forall>j\<in>insert k (stored (sky_inner s)). below_top s' j)
    \<and> (\<forall>j\<in>sky_sources s'. section_get_zero_node j |\<in>| sky_columns s'
         \<and> fmlookup (sky_tops s') (section_get_zero_node j) = Some (section_y j + 1))"
proof -
  obtain change s' where s': "sky_apply_level s k level = Some (change, s')" "sky_wf s'"
    "level_applied (sky_inner s) k level change (sky_inner s')"
    using sky_apply_level_spec [OF assms] by blast
  have "stored (sky_inner s') = insert k (stored (sky_inner s))" using s'(3) assms(4) by (simp add: level_applied_def)
  then show ?thesis using s'(1,2) columns_okD(3) by (auto simp: sky_wf_def)
qed

theorem sky_columns_invariant_witness:
  "\<exists>change s'. sky_apply_level sky_storage_new 0 0 = Some (change, s') \<and> below_top s' 0"
  using sky_columns_invariant [OF sky_new_ok(1), of 0 0] by (auto simp: in_i64_def)

text \<open>Draining the source queues reports exactly the stored sections that gain or lose a source,
  empties both queues, and leaves as sources exactly the wanted ones that have storage or were
  sources before.\<close>
lemma sources_drained:
  assumes "sky_wf s"
  defines "r \<equiv> drain_source_updates s"
  shows "sky_wf (snd r) \<and> sky_inner (snd r) = sky_inner s \<and> \<not> has_source_inconsistencies (snd r)
    \<and> {ssu_section u |u. u \<in> set (fst r) \<and> ssu_kind u = AddSource}
      = {k. k |\<in>| sky_to_add s \<and> k |\<notin>| sky_with_sources s \<and> k \<in> stored (sky_inner s)}
    \<and> {ssu_section u |u. u \<in> set (fst r) \<and> ssu_kind u = RemoveSource}
      = {k. k |\<in>| sky_to_remove s \<and> k |\<in>| sky_with_sources s \<and> k \<in> stored (sky_inner s)}
    \<and> fset (sky_with_sources (snd r)) = {k \<in> sky_sources s. k |\<in>| sky_with_sources s \<or> k \<in> stored (sky_inner s)}"
  unfolding r_def by (intro conjI drain_source_updates_spec [OF assms(1)])

theorem sources_drained_at_input:
  "\<exists>change s. sky_apply_level (sky_enable_light_sources sky_storage_new 0 True) 0 0 = Some (change, s)
     \<and> \<not> has_source_inconsistencies (snd (drain_source_updates s))"
proof -
  have zero: "in_i64 0" by (simp add: in_i64_def)
  obtain change s where "sky_apply_level (sky_enable_light_sources sky_storage_new 0 True) 0 0 = Some (change, s)" "sky_wf s"
    using sky_apply_level_spec [OF sky_enable_spec(1) [OF sky_new_ok(1) zero] zero, of 0 True] by auto
  then show ?thesis using sources_drained [of s] by blast
qed

text \<open>The sky light that the flood fill reads is a nibble for every block: the stored level of a
  block with storage, and above the top of a column full light, or none while the column is dark.\<close>
lemma sky_light_value:
  assumes "sky_wf s"
  shows "\<exists>v. sky_get_light_value s b updating = Some v \<and> v < 16
    \<and> (updating \<and> block_to_section_key b \<in> stored (sky_inner s) \<longrightarrow> v = light_of (sky_inner s) b)
    \<and> (is_above_data s (block_to_section_key b)
        \<longrightarrow> v = (if updating \<and> \<not> light_on_in_section s (block_to_section_key b) then 0 else 15))"
proof -
  obtain v where v: "sky_get_light_value s b updating = Some v" "v < 16"
    using sky_get_light_value_bound [OF assms] by blast
  have "v = light_of (sky_inner s) b" if "updating" "block_to_section_key b \<in> stored (sky_inner s)"
    using sky_light_value_stored [OF assms that(2)] v(1) that(1) by simp
  moreover have "v = (if updating \<and> \<not> light_on_in_section s (block_to_section_key b) then 0 else 15)"
    if "is_above_data s (block_to_section_key b)"
    using sky_light_value_above [OF that, of updating] v(1) by simp
  ultimately show ?thesis using v by blast
qed

theorem sky_light_value_at_input: "sky_get_light_value sky_storage_new 99 True = Some 0"
  using sky_light_value [OF sky_new_ok(1), of 99 True]
  by (auto simp: is_above_data_def top_section_def light_on_in_section_def sky_storage_new_def)


lemma lit_column:
  "\<exists>e0 e1. sky_engine_new (\<lambda>p. Some 0) = Some e0 \<and> ske_update_section_status e0 0 False = Some e1
     \<and> sky_engine_ok (ske_enable_light_sources e1 0 True) \<and> sky_stored (ske_enable_light_sources e1 0 True) = {0}
     \<and> dg_computed_levels (ske_graph (ske_enable_light_sources e1 0 True)) = fmempty"
proof -
  obtain e0 where e0: "sky_engine_new (\<lambda>p. Some 0) = Some e0" "sky_engine_ok e0" "sky_stored e0 = {}" "\<not> ske_has_work e0"
    using sky_engine_new_spec [of "\<lambda>p. Some 0"] by blast
  have empty: "dg_computed_levels (ske_graph e0) = fmempty"
    using sky_idle_empty [OF e0(2)] e0(4) by (simp add: ske_has_work_def)
  then have quiet: "quiet_section e0 0" by (simp add: quiet_section_def)
  have y: "section_y 0 + 1 < 2 ^ 19" using section_range [OF in_i64_zero] by (simp add: section_y_def shl_i64_def shr_i64_def wrap_i32_def wrap_i64_def)
  obtain e1 where e1: "ske_update_section_status e0 0 False = Some e1" "sky_engine_ok e1" "sky_stored e1 = {0}"
    using ske_activate_spec(2) [OF e0(2) in_i64_zero _ y quiet] e0(3) by auto
  have "ske_graph e1 = ske_graph e0" using e1(1) by (auto simp: ske_update_section_status_def)
  then show ?thesis using e0(1) e1 empty ske_enable_spec(1,3) [OF e1(2) in_i64_zero, of True]
    by (auto simp: ske_enable_light_sources_def)
qed


text \<open>A stored section without blocks that becomes a source of sky light is filled with full light
  at once; the level of every block outside it stays, and the queues stay consistent.\<close>
lemma light_only_source_fills:
  assumes "sky_inv s g" and "k \<in> stored (sky_inner s)"
  shows "\<exists>s' g'. apply_light_only_source_add w s g k = Some (s', g') \<and> sky_inv s' g'
    \<and> stored (sky_inner s') = stored (sky_inner s)
    \<and> (\<forall>n. 15 - sky_level s' n = (if block_to_section_key n = k then 15 else 15 - sky_level s n))"
proof -
  obtain s' g' where "apply_light_only_source_add w s g k = Some (s', g')" "sky_inv s' g'"
    "stored (sky_inner s') = stored (sky_inner s)" "\<forall>n. sky_level s' n = (if block_to_section_key n = k then 0 else sky_level s n)"
    using light_only_source_total [OF assms, of w] by blast
  then show ?thesis by auto
qed

theorem light_only_source_fills_at_input:
  "\<exists>e0 e1 s g. sky_engine_new (\<lambda>p. Some 0) = Some e0 \<and> ske_update_section_status e0 0 False = Some e1
     \<and> apply_light_only_source_add (\<lambda>p. Some 0) (ske_storage (ske_enable_light_sources e1 0 True))
          (ske_graph (ske_enable_light_sources e1 0 True)) 0 = Some (s, g) \<and> 15 - sky_level s 0 = 15"
proof -
  obtain e0 e1 where e: "sky_engine_new (\<lambda>p. Some 0) = Some e0" "ske_update_section_status e0 0 False = Some e1"
    "sky_engine_ok (ske_enable_light_sources e1 0 True)" "sky_stored (ske_enable_light_sources e1 0 True) = {0}"
    using lit_column by blast
  have zero: "0 \<in> sky_stored (ske_enable_light_sources e1 0 True)" using e(4) by simp
  obtain s g where "apply_light_only_source_add (\<lambda>p. Some 0) (ske_storage (ske_enable_light_sources e1 0 True))
          (ske_graph (ske_enable_light_sources e1 0 True)) 0 = Some (s, g)"
    "\<forall>n. 15 - sky_level s n = (if block_to_section_key n = 0 then 15
        else 15 - sky_level (ske_storage (ske_enable_light_sources e1 0 True)) n)"
    using light_only_source_fills [OF sky_engine_okD(1) [OF e(3)] zero, of "\<lambda>p. Some 0"] by blast
  then show ?thesis using e(1,2) section_zero by auto
qed

text \<open>The climb of a block check always ends, at the lowest section at or above the block that
  stores light or lies above the column.\<close>
lemma climb_ends:
  assumes "low_tops s" and "in_i64 sec" and "in_i64 pos"
  shows "\<exists>p k. climb_to_stored s pos sec = Some (p, k) \<and> in_i64 p \<and> in_i64 k
    \<and> section_get_zero_node k = section_get_zero_node sec \<and> section_y sec \<le> section_y k
    \<and> (k \<in> stored (sky_inner s) \<or> is_above_data s k)
    \<and> (\<forall>j. in_i64 j \<and> section_get_zero_node j = section_get_zero_node sec \<and> section_y sec \<le> section_y j
         \<and> section_y j < section_y k \<longrightarrow> j \<notin> stored (sky_inner s) \<and> \<not> is_above_data s j)"
  using climb_total [OF assms] unfolding climb_end_def by blast

lemma climb_ends_at_input:
  "\<exists>p k. climb_to_stored sky_storage_new 0 0 = Some (p, k) \<and> is_above_data sky_storage_new k"
proof -
  have low: "low_tops sky_storage_new" by (simp add: low_tops_def sky_storage_new_def)
  show ?thesis using climb_ends [OF low in_i64_zero in_i64_zero] sky_new_ok(3) by auto
qed

text \<open>Light loses at least one level along every edge and never gets darker than dark, except
  that full light falls straight down through clear blocks without loss.\<close>
lemma sky_edges_decay:
  assumes "l < 15"
  shows "sky_compute_level w source target l \<le> 15
    \<and> (sky_compute_level w source target l \<noteq> l \<longrightarrow> l < sky_compute_level w source target l)
    \<and> (sky_compute_level w source target l = l \<longleftrightarrow> falls_freely w source target l \<and> source \<noteq> i64_max
      \<and> target \<noteq> i64_max \<and> (case w source of Some v \<Rightarrow> v < 15 | None \<Rightarrow> True))"
  using sky_compute_level_cases [OF assms, of w source target] assms by linarith

theorem sky_edges_decay_at_input:
  "sky_compute_level (\<lambda>p. Some 0) i64_max 5 3 \<noteq> 3 \<and> 3 < sky_compute_level (\<lambda>p. Some 0) i64_max 5 3"
  using sky_edges_decay [of 3 "\<lambda>p. Some 0" i64_max 5] by simp

text \<open>After a level has changed, only blocks of the same section or of sections that store light
  are checked, with the level and direction of the change; below a block at the bottom of its section
  the check skips exactly the sections without storage, down to the next stored one or below the
  lowest section.\<close>
lemma sky_checks_reach:
  "(\<forall>c\<in>set (sky_neighbor_checks s n l d). nc_level c = l \<and> nc_is_decrease c = d
      \<and> (block_to_section_key (nc_target c) = block_to_section_key n
         \<or> block_to_section_key (nc_target c) \<in> stored (sky_inner s)))
   \<and> (section_relative (block_pos_get_y n) = 0 \<longrightarrow>
       (let sec = block_to_section_key n; k = sky_skip_sections s n in 0 \<le> k
         \<and> (\<forall>i\<in>{0..<k}. section_offset sec 0 (- i - 1) 0 \<notin> stored (sky_inner s))
         \<and> (section_offset sec 0 (- k - 1) 0 \<in> stored (sky_inner s) \<or> section_y sec - k - 1 < sky_lowest_y s)))"
  using sky_neighbor_checks_ok [of _ s n l d]
    skipped_sections_spec [of s "block_to_section_key n" "section_y (block_to_section_key n)" 0]
  by (auto simp: check_ok_def sky_skip_sections_def Let_def)

lemma sky_checks_reach_at_input:
  "section_y 0 - sky_skip_sections sky_storage_new 0 - 1 < sky_lowest_y sky_storage_new"
  using sky_checks_reach [of sky_storage_new 0 4 True] sky_new_ok(3) section_zero
  by (auto simp: Let_def section_relative_mod block_pos_get_y_def shl_i64_def shr_i64_def wrap_i32_def wrap_i64_def)

section \<open>The engine of a level\<close>

text \<open>C27: A run of the level engine always returns; every unit of its budget is a node processed by one
  of the two engines or handed back, and budget is handed back only when neither has work left.\<close>
theorem level_budget_spent:
  assumes "level_engine_ok e"
  shows "\<exists>r rep e'. lle_run_updates_report e b = Some (r, rep, e') \<and> level_engine_ok e'
     \<and> llr_processed_nodes (lvr_block rep) + llr_processed_nodes (lvr_sky rep) + r = b
     \<and> (0 < r \<longrightarrow> \<not> has_light_work e')"
  by (rule lle_run_spec [OF assms])

text \<open>A level engine with a torch and a lit column.\<close>

lemma lit_level:
  "\<exists>e0 b1 s1. level_engine_new torch_world (\<lambda>p. Some 0) = Some e0 \<and> block_activate_section (lle_block e0) 0 = Some b1
     \<and> ske_update_section_status (lle_sky e0) 0 False = Some s1
     \<and> level_engine_ok \<lparr>lle_block = b1, lle_sky = ske_enable_light_sources s1 0 True\<rparr>
     \<and> block_stored b1 = {0} \<and> sky_stored (ske_enable_light_sources s1 0 True) = {0} \<and> \<not> block_has_work b1
     \<and> dg_computed_levels (ske_graph (ske_enable_light_sources s1 0 True)) = fmempty"
proof -
  obtain b0 b1 where b: "block_engine_new torch_world = Some b0" "block_activate_section b0 0 = Some b1" "block_engine_ok b1"
    "\<not> block_has_work b1" "block_stored b1 = {0}"
    using fresh_engine [of torch_world] by blast
  obtain s0 s1 where "sky_engine_new (\<lambda>p. Some 0) = Some s0" "ske_update_section_status s0 0 False = Some s1"
    "sky_engine_ok (ske_enable_light_sources s1 0 True)" "sky_stored (ske_enable_light_sources s1 0 True) = {0}"
    "dg_computed_levels (ske_graph (ske_enable_light_sources s1 0 True)) = fmempty"
    using lit_column by blast
  then show ?thesis using b
    by (intro exI [of _ "\<lparr>lle_block = b0, lle_sky = s0\<rparr>"] exI [of _ b1] exI [of _ s1])
      (simp add: level_engine_new_def level_engine_ok_def del: bind_eq_Some)
qed

theorem level_budget_spent_witness:
  "\<exists>e0 b1 s1 r rep e2. level_engine_new torch_world (\<lambda>p. Some 0) = Some e0
     \<and> block_activate_section (lle_block e0) 0 = Some b1 \<and> ske_update_section_status (lle_sky e0) 0 False = Some s1
     \<and> lle_run_updates_report \<lparr>lle_block = b1, lle_sky = ske_enable_light_sources s1 0 True\<rparr> 16384 = Some (r, rep, e2)
     \<and> llr_processed_nodes (lvr_block rep) + llr_processed_nodes (lvr_sky rep) + r = 16384"
proof -
  obtain e0 b1 s1 where e: "level_engine_new torch_world (\<lambda>p. Some 0) = Some e0" "block_activate_section (lle_block e0) 0 = Some b1"
    "ske_update_section_status (lle_sky e0) 0 False = Some s1"
    "level_engine_ok \<lparr>lle_block = b1, lle_sky = ske_enable_light_sources s1 0 True\<rparr>" using lit_level by blast
  show ?thesis using level_budget_spent [OF e(4), of 16384] e(1-3) by blast
qed

text \<open>Evicting a column whose sections all lie in the given range leaves nothing of it in either
  engine, forgets that it had sky light, keeps both engines consistent, and does not change the
  brightness of any block of another column.\<close>
lemma column_evicted:
  assumes "level_engine_ok e" and "in_i64 column" and "unqueued (column_sections column from_y to_y) e"
    and "column_covered e column from_y to_y"
  shows "level_engine_ok (evict_chunk_column e column from_y to_y)
    \<and> (\<forall>k\<in>block_stored (lle_block (evict_chunk_column e column from_y to_y))
          \<union> sky_stored (lle_sky (evict_chunk_column e column from_y to_y)).
         section_get_zero_node k \<noteq> section_get_zero_node column)
    \<and> \<not> light_on_in_section (ske_storage (lle_sky (evict_chunk_column e column from_y to_y))) column
    \<and> (\<forall>b d. section_get_zero_node (block_to_section_key b) \<noteq> section_get_zero_node column
         \<longrightarrow> get_raw_brightness (evict_chunk_column e column from_y to_y) b d = get_raw_brightness e b d)"
  using evict_column_spec [OF assms] by blast

lemma whole_column:
  assumes "in_i64 k" and "in_i64 c" and "section_get_zero_node k = section_get_zero_node c"
  shows "k \<in> column_sections c (- 524288) 524288"
  using section_range [OF assms(1)] section_as_long_get [OF assms(1)] zero_node_same [OF assms(1,2)] assms(3)
  by (auto simp: column_sections_def intro!: image_eqI [of _ _ "section_y k"])

theorem column_evicted_at_input:
  "\<exists>e0 b1 s1. level_engine_new torch_world (\<lambda>p. Some 0) = Some e0 \<and> block_activate_section (lle_block e0) 0 = Some b1
     \<and> ske_update_section_status (lle_sky e0) 0 False = Some s1
     \<and> block_stored b1 = {0} \<and> block_stored (lle_block (evict_chunk_column
          \<lparr>lle_block = b1, lle_sky = ske_enable_light_sources s1 0 True\<rparr> 0 (- 524288) 524288))
        \<inter> {k. section_get_zero_node k = section_get_zero_node 0} = {}"
proof -
  obtain e0 b1 s1 where e: "level_engine_new torch_world (\<lambda>p. Some 0) = Some e0" "block_activate_section (lle_block e0) 0 = Some b1"
    "ske_update_section_status (lle_sky e0) 0 False = Some s1"
    "level_engine_ok \<lparr>lle_block = b1, lle_sky = ske_enable_light_sources s1 0 True\<rparr>" "block_stored b1 = {0}"
    "sky_stored (ske_enable_light_sources s1 0 True) = {0}" "\<not> block_has_work b1"
    "dg_computed_levels (ske_graph (ske_enable_light_sources s1 0 True)) = fmempty" using lit_level by blast
  have ok: "block_engine_ok b1" "sky_engine_ok (ske_enable_light_sources s1 0 True)"
    using e(4) by (simp_all add: level_engine_ok_def)
  have "dg_computed_levels (be_graph b1) = fmempty"
    by (rule drained_empty [OF block_okD(4) [OF ok(1)]]) (use block_okD(5,7) [OF ok(1)] e(7) in simp)
  then have q: "unqueued (column_sections 0 (- 524288) 524288) \<lparr>lle_block = b1, lle_sky = ske_enable_light_sources s1 0 True\<rparr>"
    using e(8) by (simp add: unqueued_def)
  have "in_i64 k" if "k \<in> sky_sources (ske_storage (ske_enable_light_sources s1 0 True))" for k
    using columns_okD(3) [OF sky_okD(2) [OF sky_engine_okD(3) [OF ok(2)]] that] by simp
  then have "column_covered \<lparr>lle_block = b1, lle_sky = ske_enable_light_sources s1 0 True\<rparr> 0 (- 524288) 524288"
    using e(5,6) in_i64_zero by (auto simp: column_covered_def intro!: whole_column)
  then show ?thesis using column_evicted [OF e(4) in_i64_zero q] e(1-3,5) by auto
qed

end
