(* ===== verification/ServerTickets.thy ===== *)
theory ServerTickets imports CoreTopology "HOL-Library.Product_Lexorder"
begin

text \<open>
  Chunk tickets of the server: \<open>ChunkTicket\<close> and its enums (\<open>native/crates/mclone-server/src/types.rs\<close>)
  and the distance manager (\<open>distance_manager.rs\<close>) that turns tickets into chunk levels.  Two tickets
  are equal when type, level and key are; the creation tick rides along.  The tickets of a chunk are
  therefore a map from identities to ticks, and the first ticket of the ordered set is one of the
  lowest level.  Levels and coordinates are \<open>i32\<close>, generations and ticks \<open>u64\<close> with wrap-around.
\<close>

datatype chunk_ticket_type = Start | Dragon | Player | Observer | Forced | Light | Portal | PostTeleport | Unknown

datatype chunk_ticket_key = KeyChunk chunk_pos | LightRequest nat | Named string

type_synonym ticket_identity = "chunk_ticket_type \<times> int \<times> chunk_ticket_key"
type_synonym ticket_set = "(ticket_identity, nat) fmap"

abbreviation (input) chunk_level_full :: int where "chunk_level_full \<equiv> 33"
abbreviation (input) player_ticket_level :: int where "player_ticket_level \<equiv> 31"
abbreviation (input) max_chunk_distance :: int where "max_chunk_distance \<equiv> 44"
abbreviation (input) unloaded_chunk_level :: int where "unloaded_chunk_level \<equiv> 45"

definition ticket_level :: "ticket_identity \<Rightarrow> int" where
  "ticket_level i = fst (snd i)"

fun timeout_ticks :: "chunk_ticket_type \<Rightarrow> nat option" where
  "timeout_ticks Portal = Some 300"
| "timeout_ticks PostTeleport = Some 5"
| "timeout_ticks Unknown = Some 1"
| "timeout_ticks _ = None"

definition timed_out :: "ticket_identity \<Rightarrow> nat \<Rightarrow> nat \<Rightarrow> bool" where
  "timed_out i created_tick current_tick =
     (case timeout_ticks (fst i) of Some timeout \<Rightarrow> timeout < current_tick - created_tick | None \<Rightarrow> False)"

definition first_level :: "ticket_set \<Rightarrow> int option" where
  "first_level ts = (if fmdom ts = {||} then None else Some (fMin (ticket_level |`| fmdom ts)))"

definition next_u64 :: "nat \<Rightarrow> nat" where
  "next_u64 n = (n + 1) mod 2 ^ 64"

record promotion_diagnostics =
  ppd_desired :: nat
  ppd_queued :: nat
  ppd_active :: nat
  ppd_max_active :: nat
  ppd_admitted_total :: nat
  ppd_cancelled_before_admission :: nat
  ppd_oldest_queued_age_ticks :: nat
  ppd_oldest_active_age_ticks :: nat

record distance_manager =
  dm_topology :: horizontal_topology
  dm_tickets :: "(chunk_pos, ticket_set) fmap"
  dm_resident :: "chunk_pos fset"
  dm_simulation :: "chunk_pos fset"
  dm_player_positions :: "chunk_pos fset"
  dm_active_promotions :: "chunk_pos fset"
  dm_first_desired :: "(chunk_pos, nat) fmap"
  dm_max_active :: nat
  dm_admitted_total :: nat
  dm_cancelled :: nat
  dm_centers :: "chunk_pos list"
  dm_non_propagating :: "(chunk_pos \<times> ticket_identity) fset"
  dm_tick :: nat
  dm_generation :: nat
  dm_cache :: "(nat \<times> (chunk_pos, int) fmap) option"

definition distance_manager_new :: distance_manager where
  "distance_manager_new = \<lparr>dm_topology = topology_unbounded, dm_tickets = fmempty, dm_resident = {||},
     dm_simulation = {||}, dm_player_positions = {||}, dm_active_promotions = {||}, dm_first_desired = fmempty,
     dm_max_active = 4, dm_admitted_total = 0, dm_cancelled = 0, dm_centers = [], dm_non_propagating = {||},
     dm_tick = 0, dm_generation = 0, dm_cache = None\<rparr>"

definition mark_tickets_changed :: "distance_manager \<Rightarrow> distance_manager" where
  "mark_tickets_changed m = m\<lparr>dm_non_propagating := {||}, dm_generation := next_u64 (dm_generation m)\<rparr>"

definition set_topology :: "distance_manager \<Rightarrow> horizontal_topology \<Rightarrow> distance_manager" where
  "set_topology m t =
     (let m = (if dm_topology m \<noteq> t then mark_tickets_changed m else m) in m\<lparr>dm_topology := t\<rparr>)"

section \<open>Levels\<close>

text \<open>The square around a chunk, \<open>for dz in -radius..=radius { for dx in -radius..=radius\<close>.\<close>

definition square_offsets :: "int \<Rightarrow> (int \<times> int) list" where
  "square_offsets radius = concat (map (\<lambda>dz. map (\<lambda>dx. (dx, dz)) [- radius..radius]) [- radius..radius])"

fun spread_level ::
  "horizontal_topology \<Rightarrow> chunk_pos \<Rightarrow> int \<Rightarrow> (int \<times> int) list \<Rightarrow> (chunk_pos, int) fmap \<Rightarrow> (chunk_pos, int) fmap option" where
  "spread_level t source source_level [] levels = Some levels"
| "spread_level t source source_level ((dx, dz) # offsets) levels =
     (let distance = max \<bar>dx\<bar> \<bar>dz\<bar>;
          level = wrap_i32 (source_level + distance) in
      if max_chunk_distance < level then spread_level t source source_level offsets levels
      else do {
        neighbor \<leftarrow> neighbor_chunk t source dx dz;
        (case neighbor of
           None \<Rightarrow> spread_level t source source_level offsets levels
         | Some pos \<Rightarrow> spread_level t source source_level offsets
             (fmupd pos (case fmlookup levels pos of Some current \<Rightarrow> min current level | None \<Rightarrow> level) levels))
      })"

fun spread_tickets ::
  "horizontal_topology \<Rightarrow> (chunk_pos \<times> ticket_set) list \<Rightarrow> (chunk_pos, int) fmap \<Rightarrow> (chunk_pos, int) fmap option" where
  "spread_tickets t [] levels = Some levels"
| "spread_tickets t ((source, ts) # sources) levels = (case first_level ts of
     None \<Rightarrow> spread_tickets t sources levels
   | Some level \<Rightarrow>
       if max_chunk_distance < level then spread_tickets t sources levels
       else do {
         levels \<leftarrow> spread_level t source level (square_offsets (wrap_i32 (max_chunk_distance - level))) levels;
         spread_tickets t sources levels
       })"

definition active_levels_with_cache_status ::
  "distance_manager \<Rightarrow> ((chunk_pos, int) fmap \<times> bool \<times> distance_manager) option" where
  "active_levels_with_cache_status m =
     (case dm_cache m of
        Some (generation, levels) \<Rightarrow>
          if generation = dm_generation m then Some (levels, True, m)
          else do {
            levels \<leftarrow> spread_tickets (dm_topology m) (sorted_list_of_fmap (dm_tickets m)) fmempty;
            Some (levels, False, m\<lparr>dm_cache := Some (dm_generation m, levels)\<rparr>)
          }
      | None \<Rightarrow> do {
          levels \<leftarrow> spread_tickets (dm_topology m) (sorted_list_of_fmap (dm_tickets m)) fmempty;
          Some (levels, False, m\<lparr>dm_cache := Some (dm_generation m, levels)\<rparr>)
        })"

definition active_level_at :: "distance_manager \<Rightarrow> chunk_pos \<Rightarrow> (int \<times> distance_manager) option" where
  "active_level_at m pos = do {
     (levels, hit, m) \<leftarrow> active_levels_with_cache_status m;
     Some (case fmlookup levels pos of Some level \<Rightarrow> level | None \<Rightarrow> unloaded_chunk_level, m)
   }"

text \<open>The updates of an added ticket, read off the map before any of them is written.\<close>

fun level_updates ::
  "horizontal_topology \<Rightarrow> chunk_pos \<Rightarrow> int \<Rightarrow> (chunk_pos, int) fmap \<Rightarrow> (int \<times> int) list \<Rightarrow> (chunk_pos \<times> int) list option" where
  "level_updates t source source_level levels [] = Some []"
| "level_updates t source source_level levels ((dx, dz) # offsets) =
     (let distance = max \<bar>dx\<bar> \<bar>dz\<bar>;
          level = wrap_i32 (source_level + distance) in
      if max_chunk_distance < level then level_updates t source source_level levels offsets
      else do {
        neighbor \<leftarrow> neighbor_chunk t source dx dz;
        updates \<leftarrow> level_updates t source source_level levels offsets;
        Some (case neighbor of
            None \<Rightarrow> updates
          | Some pos \<Rightarrow>
              if (case fmlookup levels pos of None \<Rightarrow> True | Some current \<Rightarrow> level < current)
              then (pos, level) # updates else updates)
      })"

definition apply_ticket_addition_to_active_levels ::
  "distance_manager \<Rightarrow> chunk_pos \<Rightarrow> int \<Rightarrow> (bool option \<times> distance_manager) option" where
  "apply_ticket_addition_to_active_levels m source source_level =
     (if max_chunk_distance < source_level then Some (Some False, m)
      else (case dm_cache m of
          None \<Rightarrow> Some (None, m)
        | Some (generation, levels) \<Rightarrow>
            if generation \<noteq> dm_generation m then Some (None, m)
            else do {
              updates \<leftarrow> level_updates (dm_topology m) source source_level levels
                (square_offsets (wrap_i32 (max_chunk_distance - source_level)));
              if updates = [] then Some (Some False, m)
              else
                let levels = fold (\<lambda>(pos, level) levels. fmupd pos level levels) updates levels;
                    generation = next_u64 (dm_generation m)
                in Some (Some True, m\<lparr>dm_generation := generation, dm_cache := Some (generation, levels)\<rparr>)
            }))"

section \<open>Tickets\<close>

definition tickets_at :: "distance_manager \<Rightarrow> chunk_pos \<Rightarrow> ticket_set" where
  "tickets_at m pos = (case fmlookup (dm_tickets m) pos of Some ts \<Rightarrow> ts | None \<Rightarrow> fmempty)"

definition add_ticket ::
  "distance_manager \<Rightarrow> chunk_ticket_type \<Rightarrow> chunk_pos \<Rightarrow> int \<Rightarrow> chunk_ticket_key \<Rightarrow> distance_manager option" where
  "add_ticket m ticket_type pos level key =
     (let identity = (ticket_type, level, key);
          before_level = first_level (tickets_at m pos);
          ts = fmupd identity (dm_tick m) (tickets_at m pos);
          m = m\<lparr>dm_tickets := fmupd pos ts (dm_tickets m)\<rparr>;
          after_level = first_level ts in
      if before_level = after_level then Some m
      else do {
        (applied, m) \<leftarrow> apply_ticket_addition_to_active_levels m pos
          (case after_level of Some l \<Rightarrow> l | None \<Rightarrow> level);
        Some (case applied of
            Some True \<Rightarrow> m
          | Some False \<Rightarrow> m\<lparr>dm_non_propagating := finsert (pos, identity) (dm_non_propagating m)\<rparr>
          | None \<Rightarrow> mark_tickets_changed m)
      })"

definition remove_ticket ::
  "distance_manager \<Rightarrow> chunk_ticket_type \<Rightarrow> chunk_pos \<Rightarrow> int \<Rightarrow> chunk_ticket_key \<Rightarrow> distance_manager" where
  "remove_ticket m ticket_type pos level key =
     (let identity = (ticket_type, level, key) in
      (case fmlookup (dm_tickets m) pos of
         None \<Rightarrow> m
       | Some ts \<Rightarrow>
           let before_level = first_level ts;
               changed = identity |\<in>| fmdom ts;
               ts = fmdrop identity ts;
               after_level = first_level ts;
               m = m\<lparr>dm_tickets := (if ts = fmempty then fmdrop pos (dm_tickets m)
                                    else fmupd pos ts (dm_tickets m))\<rparr> in
           if \<not> changed \<or> before_level = after_level then m
           else if (pos, identity) |\<in>| dm_non_propagating m
           then m\<lparr>dm_non_propagating := dm_non_propagating m |-| {|(pos, identity)|}\<rparr>
           else mark_tickets_changed m))"

definition add_region_ticket ::
  "distance_manager \<Rightarrow> chunk_ticket_type \<Rightarrow> chunk_pos \<Rightarrow> int \<Rightarrow> chunk_ticket_key \<Rightarrow> distance_manager option" where
  "add_region_ticket m ticket_type pos distance key =
     add_ticket m ticket_type pos (wrap_i32 (chunk_level_full - distance)) key"

definition remove_region_ticket ::
  "distance_manager \<Rightarrow> chunk_ticket_type \<Rightarrow> chunk_pos \<Rightarrow> int \<Rightarrow> chunk_ticket_key \<Rightarrow> distance_manager" where
  "remove_region_ticket m ticket_type pos distance key =
     remove_ticket m ticket_type pos (wrap_i32 (chunk_level_full - distance)) key"

text \<open>\<open>tickets.retain(|ticket| !ticket.timed_out(ticket_tick))\<close>, then the emptied chunks go.\<close>

definition retain_live :: "nat \<Rightarrow> ticket_set \<Rightarrow> ticket_set" where
  "retain_live ticket_tick ts =
     fmfilter (\<lambda>i. case fmlookup ts i of Some created \<Rightarrow> \<not> timed_out i created ticket_tick | None \<Rightarrow> False) ts"

definition purge_stale_tickets :: "distance_manager \<Rightarrow> distance_manager" where
  "purge_stale_tickets m =
     (let ticket_tick = next_u64 (dm_tick m);
          retained = fmmap (retain_live ticket_tick) (dm_tickets m);
          changed = fmpred (\<lambda>pos ts. retain_live ticket_tick ts = ts) (dm_tickets m);
          m = m\<lparr>dm_tickets := fmfilter (\<lambda>pos. fmlookup retained pos \<noteq> Some fmempty) retained, dm_tick := ticket_tick\<rparr>
      in if \<not> changed then mark_tickets_changed m else m)"

section \<open>Players\<close>

definition sat_add_u64 :: "nat \<Rightarrow> nat \<Rightarrow> nat" where
  "sat_add_u64 a b = min (a + b) (2 ^ 64 - 1)"

fun center_distances :: "horizontal_topology \<Rightarrow> chunk_pos list \<Rightarrow> chunk_pos \<Rightarrow> (int \<times> int) list option" where
  "center_distances t [] pos = Some []"
| "center_distances t (center # centers) pos = do {
     (dx, dz) \<leftarrow> topology_shortest_chunk_displacement t center pos;
     distances \<leftarrow> center_distances t centers pos;
     Some ((max \<bar>dx\<bar> \<bar>dz\<bar>, \<bar>dx\<bar> + \<bar>dz\<bar>) # distances)
   }"

definition player_promotion_priority_key ::
  "distance_manager \<Rightarrow> chunk_pos \<Rightarrow> (int \<times> int \<times> nat \<times> int \<times> int) option" where
  "player_promotion_priority_key m pos = do {
     distances \<leftarrow> center_distances (dm_topology m) (dm_centers m) pos;
     let (chebyshev_distance, manhattan_distance) =
       (case distances of [] \<Rightarrow> (0, 0) | d # ds \<Rightarrow> fold min ds d);
     Some (chebyshev_distance, manhattan_distance,
       (case fmlookup (dm_first_desired m) pos of Some tick \<Rightarrow> tick | None \<Rightarrow> dm_tick m), cp_z pos, cp_x pos)
   }"

fun with_keys :: "distance_manager \<Rightarrow> chunk_pos list \<Rightarrow> ((int \<times> int \<times> nat \<times> int \<times> int) \<times> chunk_pos) list option" where
  "with_keys m [] = Some []"
| "with_keys m (pos # ps) = do {
     key \<leftarrow> player_promotion_priority_key m pos;
     keyed \<leftarrow> with_keys m ps;
     Some ((key, pos) # keyed)
   }"

fun admit_promotions :: "distance_manager \<Rightarrow> chunk_pos list \<Rightarrow> distance_manager option" where
  "admit_promotions m [] = Some m"
| "admit_promotions m (pos # ps) = do {
     m \<leftarrow> add_ticket (m\<lparr>dm_player_positions := finsert pos (dm_player_positions m),
         dm_active_promotions := finsert pos (dm_active_promotions m),
         dm_admitted_total := sat_add_u64 (dm_admitted_total m) 1\<rparr>) Player pos player_ticket_level (KeyChunk pos);
     admit_promotions m ps
   }"

definition refill_player_promotions :: "distance_manager \<Rightarrow> distance_manager option" where
  "refill_player_promotions m =
     (let available = dm_max_active m - fcard (dm_active_promotions m) in
      if available = 0 then Some m
      else do {
        let candidates = sorted_list_of_fset (dm_simulation m |-| dm_player_positions m);
        keyed \<leftarrow> with_keys m candidates;
        admit_promotions m (take available (map snd (sort_key fst keyed)))
      })"

definition complete_player_promotion :: "distance_manager \<Rightarrow> chunk_pos \<Rightarrow> (bool \<times> distance_manager) option" where
  "complete_player_promotion m pos =
     (if pos |\<notin>| dm_active_promotions m then Some (False, m)
      else do {
        m \<leftarrow> refill_player_promotions (m\<lparr>dm_active_promotions := dm_active_promotions m |-| {|pos|}\<rparr>);
        Some (True, m)
      })"

text \<open>The loop over the chunks that left the simulation.\<close>

definition depart :: "chunk_pos \<Rightarrow> distance_manager \<Rightarrow> distance_manager" where
  "depart pos m =
     (let m = (if pos |\<notin>| dm_player_positions m then m\<lparr>dm_cancelled := sat_add_u64 (dm_cancelled m) 1\<rparr> else m);
          m = m\<lparr>dm_active_promotions := dm_active_promotions m |-| {|pos|},
                dm_first_desired := fmdrop pos (dm_first_desired m)\<rparr>
      in if pos |\<notin>| dm_player_positions m then m
         else remove_ticket (m\<lparr>dm_player_positions := dm_player_positions m |-| {|pos|}\<rparr>)
                Player pos player_ticket_level (KeyChunk pos))"

fun add_observers :: "distance_manager \<Rightarrow> chunk_pos list \<Rightarrow> distance_manager option" where
  "add_observers m [] = Some m"
| "add_observers m (pos # ps) = do {
     m \<leftarrow> add_ticket m Observer pos chunk_level_full (KeyChunk pos);
     add_observers m ps
   }"

definition set_aggregate_interest_positions_with_priority ::
  "distance_manager \<Rightarrow> chunk_pos fset \<Rightarrow> chunk_pos fset \<Rightarrow> chunk_pos list \<Rightarrow> distance_manager option" where
  "set_aggregate_interest_positions_with_priority m new_resident new_simulation centers = do {
     let centers = sorted_list_of_fset (fset_of_list centers);
     let priority_changed = (dm_centers m \<noteq> centers);
     let old_resident = dm_resident m;
     let old_simulation = dm_simulation m;
     let m = m\<lparr>dm_resident := {||}, dm_simulation := {||}\<rparr>;
     let old_only = old_resident |-| old_simulation;
     let new_only = new_resident |-| new_simulation;
     let m = fold depart (sorted_list_of_fset (old_simulation |-| new_simulation)) m;
     let m = fold (\<lambda>pos m. remove_ticket m Observer pos chunk_level_full (KeyChunk pos))
       (sorted_list_of_fset (old_only |-| new_only)) m;
     let m = fold (\<lambda>pos m. m\<lparr>dm_first_desired := fmupd pos (dm_tick m) (dm_first_desired m)\<rparr>)
       (sorted_list_of_fset (new_simulation |-| old_simulation)) m;
     m \<leftarrow> add_observers m (sorted_list_of_fset (new_only |-| old_only));
     let m = m\<lparr>dm_resident := new_resident, dm_simulation := new_simulation, dm_centers := centers\<rparr>;
     let m = (if priority_changed then mark_tickets_changed m else m);
     refill_player_promotions m
   }"

section \<open>Queries\<close>

text \<open>The largest age of the positions that have a first tick.\<close>

definition oldest_age :: "distance_manager \<Rightarrow> chunk_pos fset \<Rightarrow> nat" where
  "oldest_age m ps = fold max
     (List.map_filter (\<lambda>pos. map_option (\<lambda>first_tick. dm_tick m - first_tick) (fmlookup (dm_first_desired m) pos))
        (sorted_list_of_fset ps)) 0"

definition player_promotion_diagnostics :: "distance_manager \<Rightarrow> promotion_diagnostics" where
  "player_promotion_diagnostics m =
     (let queued = dm_simulation m |-| dm_player_positions m in
      \<lparr>ppd_desired = fcard (dm_simulation m), ppd_queued = fcard queued, ppd_active = fcard (dm_active_promotions m),
       ppd_max_active = dm_max_active m, ppd_admitted_total = dm_admitted_total m,
       ppd_cancelled_before_admission = dm_cancelled m, ppd_oldest_queued_age_ticks = oldest_age m queued,
       ppd_oldest_active_age_ticks = oldest_age m (dm_active_promotions m)\<rparr>)"

definition ticketed_chunk_count :: "distance_manager \<Rightarrow> nat" where
  "ticketed_chunk_count m = length (filter (\<lambda>(pos, ts). case first_level ts of
     Some level \<Rightarrow> level \<le> max_chunk_distance | None \<Rightarrow> False) (sorted_list_of_fmap (dm_tickets m)))"

definition ticket_count_at :: "distance_manager \<Rightarrow> chunk_pos \<Rightarrow> nat" where
  "ticket_count_at m pos = fcard (fmdom (tickets_at m pos))"

definition ticket_level_at :: "distance_manager \<Rightarrow> chunk_pos \<Rightarrow> int" where
  "ticket_level_at m pos =
     (case first_level (tickets_at m pos) of Some level \<Rightarrow> level | None \<Rightarrow> unloaded_chunk_level)"

definition levels_excluding :: "ticket_set \<Rightarrow> chunk_ticket_type \<Rightarrow> int list" where
  "levels_excluding ts excluded_type =
     sorted_list_of_fset (ticket_level |`| ffilter (\<lambda>i. fst i \<noteq> excluded_type) (fmdom ts))"

definition ticket_level_at_excluding :: "distance_manager \<Rightarrow> chunk_pos \<Rightarrow> chunk_ticket_type \<Rightarrow> int" where
  "ticket_level_at_excluding m pos excluded_type = (case levels_excluding (tickets_at m pos) excluded_type of
     [] \<Rightarrow> unloaded_chunk_level | level # levels \<Rightarrow> fold min levels level)"

text \<open>\<open>level.saturating_add(distance)\<close> of an \<open>i32\<close> and a distance that fits one.\<close>

definition propagated_level :: "int \<Rightarrow> int \<Rightarrow> int option" where
  "propagated_level level distance =
     (if in_i32 distance \<and> min (level + distance) 2147483647 \<le> max_chunk_distance
      then Some (min (level + distance) 2147483647) else None)"

fun propagated_levels ::
  "distance_manager \<Rightarrow> chunk_ticket_type \<Rightarrow> chunk_pos \<Rightarrow> (chunk_pos \<times> ticket_set) list \<Rightarrow> int list option" where
  "propagated_levels m excluded_type pos [] = Some []"
| "propagated_levels m excluded_type pos ((source, ts) # sources) =
     (if levels_excluding ts excluded_type = [] then propagated_levels m excluded_type pos sources
      else do {
        (dx, dz) \<leftarrow> topology_shortest_chunk_displacement (dm_topology m) source pos;
        levels \<leftarrow> propagated_levels m excluded_type pos sources;
        Some (List.map_filter (\<lambda>level. propagated_level level (max \<bar>dx\<bar> \<bar>dz\<bar>)) (levels_excluding ts excluded_type)
          @ levels)
      })"

definition active_level_at_excluding :: "distance_manager \<Rightarrow> chunk_pos \<Rightarrow> chunk_ticket_type \<Rightarrow> int option" where
  "active_level_at_excluding m pos excluded_type = do {
     levels \<leftarrow> propagated_levels m excluded_type pos (sorted_list_of_fmap (dm_tickets m));
     Some (case levels of [] \<Rightarrow> unloaded_chunk_level | level # levels \<Rightarrow> fold min levels level)
   }"

end
