(* ===== verification/ServerTicketLevels.thy ===== *)
theory ServerTicketLevels imports ServerTickets
begin

text \<open>
  What chunk levels mean.  A ticket source reaches a chunk over every pair of offsets whose neighbour
  the chunk is; the level of a chunk is the least ticket level plus Chebyshev length of such a pair,
  when that is at most 44.  Both routes of the code compute it: the sweep over all tickets, and the
  update of the cached map by one added ticket, the second one provided that the square around a
  source does not see a place twice.
\<close>

section \<open>Spreading one source\<close>

definition level_entry :: "horizontal_topology \<Rightarrow> chunk_pos \<Rightarrow> int \<Rightarrow> int \<times> int \<Rightarrow> chunk_pos \<Rightarrow> int \<Rightarrow> bool" where
  "level_entry t p m off q l \<longleftrightarrow> neighbor_chunk t p (fst off) (snd off) = Some (Some q)
     \<and> l = m + max \<bar>fst off\<bar> \<bar>snd off\<bar> \<and> l \<le> 44"

definition merged ::
  "horizontal_topology \<Rightarrow> chunk_pos \<Rightarrow> int \<Rightarrow> (int \<times> int) list \<Rightarrow> (chunk_pos, int) fmap \<Rightarrow> (chunk_pos, int) fmap \<Rightarrow> bool" where
  "merged t p m os L L' \<longleftrightarrow>
     (\<forall>q l'. fmlookup L' q = Some l' \<longrightarrow> fmlookup L q = Some l' \<or> (\<exists>off\<in>set os. level_entry t p m off q l'))
   \<and> (\<forall>q l. fmlookup L q = Some l \<or> (\<exists>off\<in>set os. level_entry t p m off q l) \<longrightarrow> (\<exists>l'\<le>l. fmlookup L' q = Some l'))"

lemma mergedI:
  assumes "\<And>q l'. fmlookup L' q = Some l' \<Longrightarrow> fmlookup L q = Some l' \<or> (\<exists>off\<in>set os. level_entry t p m off q l')"
    and "\<And>q l. fmlookup L q = Some l \<Longrightarrow> \<exists>l'\<le>l. fmlookup L' q = Some l'"
    and "\<And>q l off. off \<in> set os \<Longrightarrow> level_entry t p m off q l \<Longrightarrow> \<exists>l'\<le>l. fmlookup L' q = Some l'"
  shows "merged t p m os L L'"
  unfolding merged_def using assms by blast

lemma merged_sound:
  "merged t p m os L L' \<Longrightarrow> fmlookup L' q = Some l'
    \<Longrightarrow> fmlookup L q = Some l' \<or> (\<exists>off\<in>set os. level_entry t p m off q l')"
  unfolding merged_def by blast

lemma merged_keeps:
  "merged t p m os L L' \<Longrightarrow> fmlookup L q = Some l \<Longrightarrow> \<exists>l'\<le>l. fmlookup L' q = Some l'"
  unfolding merged_def by blast

lemma merged_covers:
  "merged t p m os L L' \<Longrightarrow> off \<in> set os \<Longrightarrow> level_entry t p m off q l \<Longrightarrow> \<exists>l'\<le>l. fmlookup L' q = Some l'"
  unfolding merged_def by blast

lemma merged_Nil: "merged t p m [] L L"
  by (rule mergedI) auto

lemma merged_skip:
  assumes "merged t p m os L L'" and "\<And>q l. \<not> level_entry t p m off q l"
  shows "merged t p m (off # os) L L'"
  using assms unfolding merged_def by simp

lemma merged_Cons:
  assumes one: "merged t p m [off] L L1" and rest: "merged t p m os L1 L2"
  shows "merged t p m (off # os) L L2"
proof (rule mergedI)
  fix q l' assume "fmlookup L2 q = Some l'"
  then show "fmlookup L q = Some l' \<or> (\<exists>off\<in>set (off # os). level_entry t p m off q l')"
    using merged_sound [OF rest] merged_sound [OF one] by fastforce
next
  fix q l assume "fmlookup L q = Some l"
  then show "\<exists>l'\<le>l. fmlookup L2 q = Some l'"
    using merged_keeps [OF one] merged_keeps [OF rest] by (meson order.trans)
next
  fix q l off' assume o: "off' \<in> set (off # os)" "level_entry t p m off' q l"
  show "\<exists>l'\<le>l. fmlookup L2 q = Some l'"
  proof (cases "off' = off")
    case True
    then obtain l1 where "l1 \<le> l" "fmlookup L1 q = Some l1"
      using merged_covers [OF one, of off q l] o(2) by auto
    then show ?thesis using merged_keeps [OF rest] by (meson order.trans)
  qed (use o merged_covers [OF rest] in auto)
qed

lemma neighbor_chunk_total:
  "topology_wf t \<Longrightarrow> \<exists>n. neighbor_chunk t p dx dz = Some n"
  by (simp add: neighbor_chunk_eq)

lemma spread_level_merged:
  assumes wf: "topology_wf t"
  shows "(\<And>off. off \<in> set os \<Longrightarrow> in_i32 (m + max \<bar>fst off\<bar> \<bar>snd off\<bar>))
    \<Longrightarrow> \<exists>L'. spread_level t p m os L = Some L' \<and> merged t p m os L L'"
proof (induction os arbitrary: L)
  case Nil
  then show ?case by (simp add: merged_Nil)
next
  case (Cons off os)
  obtain dx dz where off: "off = (dx, dz)" by (cases off)
  let ?l = "m + max \<bar>dx\<bar> \<bar>dz\<bar>"
  have w: "wrap_i32 ?l = ?l" using Cons.prems [of off] off by (simp add: wrap_i32_id)
  have IH: "\<exists>L'. spread_level t p m os K = Some L' \<and> merged t p m os K L'" for K
    by (rule Cons.IH) (use Cons.prems in simp)
  obtain n where n: "neighbor_chunk t p dx dz = Some n" using neighbor_chunk_total [OF wf] by blast
  show ?case
  proof (cases "44 < ?l \<or> n = None")
    case True
    then have "\<not> level_entry t p m off q l" for q l by (auto simp: level_entry_def off n)
    moreover have "spread_level t p m (off # os) L = spread_level t p m os L"
      using True w n by (auto simp: off Let_def)
    ultimately show ?thesis using IH [of L] merged_skip by metis
  next
    case False
    then obtain pos where pos: "n = Some pos" by auto
    let ?K = "fmupd pos (case fmlookup L pos of Some current \<Rightarrow> min current ?l | None \<Rightarrow> ?l) L"
    have "merged t p m [off] L ?K"
      using False n pos by (auto simp: merged_def level_entry_def off min_def split: option.splits)
    moreover have "spread_level t p m (off # os) L = spread_level t p m os ?K"
      using False w n pos by (simp add: off Let_def split: option.split)
    ultimately show ?thesis using IH [of ?K] merged_Cons by metis
  qed
qed

section \<open>Updating the cached map\<close>

lemma level_updates_spec:
  assumes wf: "topology_wf t"
  shows "(\<And>off. off \<in> set os \<Longrightarrow> in_i32 (m + max \<bar>fst off\<bar> \<bar>snd off\<bar>))
    \<Longrightarrow> \<exists>us. level_updates t p m L os = Some us
      \<and> (\<forall>q l. (q, l) \<in> set us \<longleftrightarrow> (\<exists>off\<in>set os. level_entry t p m off q l)
          \<and> (\<forall>current. fmlookup L q = Some current \<longrightarrow> l < current))"
proof (induction os)
  case Nil
  then show ?case by simp
next
  case (Cons off os)
  obtain dx dz where off: "off = (dx, dz)" by (cases off)
  let ?l = "m + max \<bar>dx\<bar> \<bar>dz\<bar>"
  have w: "wrap_i32 ?l = ?l" using Cons.prems [of off] off by (simp add: wrap_i32_id)
  obtain us where us: "level_updates t p m L os = Some us"
    "\<And>q l. (q, l) \<in> set us \<longleftrightarrow> (\<exists>off\<in>set os. level_entry t p m off q l)
          \<and> (\<forall>current. fmlookup L q = Some current \<longrightarrow> l < current)"
    using Cons.IH Cons.prems by auto
  obtain n where n: "neighbor_chunk t p dx dz = Some n" using neighbor_chunk_total [OF wf] by blast
  show ?case
  proof (cases "44 < ?l \<or> n = None")
    case True
    then have "\<not> level_entry t p m off q l" for q l by (auto simp: level_entry_def off n)
    moreover have "level_updates t p m L (off # os) = Some us"
      using True w n us(1) by (auto simp: off Let_def)
    ultimately show ?thesis using us(2) by simp
  next
    case False
    then obtain pos where pos: "n = Some pos" by auto
    have e: "level_entry t p m off q l \<longleftrightarrow> q = pos \<and> l = ?l" for q l
      using False n pos by (auto simp: level_entry_def off)
    have "level_updates t p m L (off # os) =
        Some (if (case fmlookup L pos of None \<Rightarrow> True | Some current \<Rightarrow> ?l < current) then (pos, ?l) # us else us)"
      using False w n pos us(1) by (simp add: off Let_def split: option.split)
    then show ?thesis using us(2) e by (auto split: option.splits)
  qed
qed

lemma fold_updates_lookup:
  "fmlookup (fold (\<lambda>(pos, level) levels. fmupd pos level levels) us L) q =
     (case map_of (rev us) q of Some l \<Rightarrow> Some l | None \<Rightarrow> fmlookup L q)"
proof (induction us arbitrary: L)
  case (Cons u us)
  obtain pos level where "u = (pos, level)" by (cases u)
  then show ?case using Cons.IH [of "fmupd pos level L"]
    by (auto simp: map_add_def split: option.splits)
qed simp

lemma updates_merged:
  assumes us: "\<And>q l. (q, l) \<in> set us \<longleftrightarrow> (\<exists>off\<in>set os. level_entry t p m off q l)
          \<and> (\<forall>current. fmlookup L q = Some current \<longrightarrow> l < current)"
    and once: "\<And>o1 o2 q l1 l2. o1 \<in> set os \<Longrightarrow> o2 \<in> set os \<Longrightarrow> level_entry t p m o1 q l1
      \<Longrightarrow> level_entry t p m o2 q l2 \<Longrightarrow> l1 = l2"
  shows "merged t p m os L (fold (\<lambda>(pos, level) levels. fmupd pos level levels) us L)"
proof (rule mergedI)
  let ?L = "fold (\<lambda>(pos, level) levels. fmupd pos level levels) us L"
  have in_us: "(q, l) \<in> set us" if "map_of (rev us) q = Some l" for q l
    using map_of_SomeD [OF that] by simp
  fix q
  {
    fix l' assume "fmlookup ?L q = Some l'"
    then show "fmlookup L q = Some l' \<or> (\<exists>off\<in>set os. level_entry t p m off q l')"
      using in_us us by (auto simp: fold_updates_lookup split: option.splits)
  }
  {
    fix l assume L: "fmlookup L q = Some l"
    then have "l' < l" if "map_of (rev us) q = Some l'" for l' using in_us [OF that] us by auto
    then show "\<exists>l'\<le>l. fmlookup ?L q = Some l'"
      using L by (cases "map_of (rev us) q") (auto simp: fold_updates_lookup order.strict_implies_order)
  }
  note keeps = this
  fix l off assume e: "off \<in> set os" "level_entry t p m off q l"
  show "\<exists>l'\<le>l. fmlookup ?L q = Some l'"
  proof (cases "\<exists>current. fmlookup L q = Some current \<and> current \<le> l")
    case True
    then show ?thesis using keeps by (meson order.trans)
  next
    case False
    then have "(q, l) \<in> set us" using us e by (metis not_le)
    then obtain l' where l': "map_of (rev us) q = Some l'"
      by (metis map_of_eq_None_iff image_eqI fst_conv set_rev not_None_eq)
    then have "l' = l" using in_us [OF l'] us once e by blast
    with l' show ?thesis by (auto simp: fold_updates_lookup)
  qed
qed

section \<open>The first ticket of a chunk\<close>

lemma first_level_Some:
  "first_level ts = Some l \<longleftrightarrow> (\<exists>i. i |\<in>| fmdom ts \<and> ticket_level i = l) \<and> (\<forall>i. i |\<in>| fmdom ts \<longrightarrow> l \<le> ticket_level i)"
proof
  assume "first_level ts = Some l"
  then have l: "fmdom ts \<noteq> {||}" "l = fMin (ticket_level |`| fmdom ts)"
    by (auto simp: first_level_def split: if_splits)
  then have "l |\<in>| ticket_level |`| fmdom ts" by (metis fMin_in fimage_is_fempty)
  moreover have "l \<le> ticket_level i" if "i |\<in>| fmdom ts" for i
    unfolding l(2) by (rule fMin_le) (use that in auto)
  ultimately show "(\<exists>i. i |\<in>| fmdom ts \<and> ticket_level i = l) \<and> (\<forall>i. i |\<in>| fmdom ts \<longrightarrow> l \<le> ticket_level i)"
    by auto
next
  assume a: "(\<exists>i. i |\<in>| fmdom ts \<and> ticket_level i = l) \<and> (\<forall>i. i |\<in>| fmdom ts \<longrightarrow> l \<le> ticket_level i)"
  then have "fmdom ts \<noteq> {||}" by auto
  moreover have "fMin (ticket_level |`| fmdom ts) = l" by (rule fMin_eqI) (use a in auto)
  ultimately show "first_level ts = Some l" by (simp add: first_level_def)
qed

lemma first_level_None: "first_level ts = None \<longleftrightarrow> ts = fmempty"
proof -
  have "ts = fmempty" if "fmdom ts = {||}"
    by (rule fmap_ext) (metis that fmdom_notD fempty_iff fmempty_lookup)
  then show ?thesis by (auto simp: first_level_def)
qed

lemma first_level_empty [simp]: "first_level fmempty = None"
  by (simp add: first_level_def)

lemma first_level_fmupd:
  "first_level (fmupd i x ts) =
     Some (case first_level ts of None \<Rightarrow> ticket_level i | Some l \<Rightarrow> min l (ticket_level i))"
proof (cases "first_level ts")
  case None
  then show ?thesis by (auto simp: first_level_Some first_level_None)
next
  case (Some l)
  then have f: "\<exists>j. j |\<in>| fmdom ts \<and> ticket_level j = l" "\<And>j. j |\<in>| fmdom ts \<Longrightarrow> l \<le> ticket_level j"
    unfolding first_level_Some by blast+
  have "\<exists>j. j |\<in>| fmdom (fmupd i x ts) \<and> ticket_level j = min l (ticket_level i)"
    using f(1) by (metis fmdom_fmupd finsert_iff min_def)
  moreover have "min l (ticket_level i) \<le> ticket_level j" if "j |\<in>| fmdom (fmupd i x ts)" for j
  proof (cases "j = i")
    case False
    then have "l \<le> ticket_level j" using that f(2) by simp
    then show ?thesis by simp
  qed simp
  ultimately show ?thesis unfolding Some option.case first_level_Some by blast
qed

lemma first_level_fmdrop:
  assumes "i |\<in>| fmdom ts" and "first_level (fmdrop i ts) \<noteq> first_level ts"
  shows "first_level ts = Some (ticket_level i)"
    and "first_level (fmdrop i ts) = Some a \<Longrightarrow> ticket_level i < a"
proof -
  obtain l where l: "first_level ts = Some l" using assms(1) by (cases "first_level ts") (auto simp: first_level_None)
  note f = l [unfolded first_level_Some]
  have none: "j = i" if "j |\<in>| fmdom ts" "ticket_level j = l" for j
  proof (rule ccontr)
    assume "j \<noteq> i"
    then have "j |\<in>| fmdom (fmdrop i ts)" using that by simp
    moreover have "l \<le> ticket_level k" if "k |\<in>| fmdom (fmdrop i ts)" for k
      using f that by (simp del: split_paired_All split_paired_Ex)
    ultimately have "first_level (fmdrop i ts) = Some l" unfolding first_level_Some using that(2) by blast
    with assms(2) l show False by simp
  qed
  then have "ticket_level i = l" using f by blast
  with l show "first_level ts = Some (ticket_level i)" by simp
  assume "first_level (fmdrop i ts) = Some a"
  then obtain j where j: "j |\<in>| fmdom (fmdrop i ts)" "ticket_level j = a" unfolding first_level_Some by blast
  then have "j |\<in>| fmdom ts" "j \<noteq> i" by simp_all
  then have "l \<le> a" "l \<noteq> a" using f none j by blast+
  then show "ticket_level i < a" using \<open>ticket_level i = l\<close> by simp
qed

section \<open>Levels of several sources\<close>

definition reached :: "horizontal_topology \<Rightarrow> chunk_pos \<Rightarrow> int \<Rightarrow> chunk_pos \<Rightarrow> int \<Rightarrow> bool" where
  "reached t p m q l \<longleftrightarrow> (\<exists>off. level_entry t p m off q l)"

definition covers ::
  "horizontal_topology \<Rightarrow> (chunk_pos, int) fmap \<Rightarrow> chunk_pos \<Rightarrow> int \<Rightarrow> bool" where
  "covers t L p m \<longleftrightarrow> (\<forall>q l. reached t p m q l \<longrightarrow> (\<exists>l'\<le>l. fmlookup L q = Some l'))"

definition explained ::
  "horizontal_topology \<Rightarrow> (chunk_pos \<Rightarrow> int option) \<Rightarrow> (chunk_pos, int) fmap \<Rightarrow> bool" where
  "explained t src L \<longleftrightarrow> (\<forall>q l. fmlookup L q = Some l \<longrightarrow> (\<exists>p m. src p = Some m \<and> reached t p m q l))"

definition level_map ::
  "horizontal_topology \<Rightarrow> (chunk_pos \<Rightarrow> int option) \<Rightarrow> (chunk_pos, int) fmap \<Rightarrow> bool" where
  "level_map t src L \<longleftrightarrow> explained t src L \<and> (\<forall>p m. src p = Some m \<longrightarrow> covers t L p m)"

lemma level_map_unique:
  assumes "level_map t src L" and "level_map t src K"
  shows "L = K"
proof -
  have half: "\<exists>l'\<le>l. fmlookup B q = Some l'"
    if "level_map t src A" "level_map t src B" "fmlookup A q = Some l" for A B q l
    using that unfolding level_map_def explained_def covers_def by meson
  have "fmlookup L q = fmlookup K q" for q
  proof (cases "fmlookup L q")
    case None
    then show ?thesis using half [OF assms(2,1), of q] by (cases "fmlookup K q") auto
  next
    case (Some l)
    then obtain k where "k \<le> l" "fmlookup K q = Some k" using half [OF assms] by blast
    moreover from this obtain l' where "l' \<le> k" "fmlookup L q = Some l'" using half [OF assms(2,1)] by blast
    ultimately show ?thesis using Some by simp
  qed
  then show ?thesis by (rule fmap_ext)
qed

lemma level_map_levels:
  assumes "level_map t src L"
  shows "fmlookup L q = Some l \<longleftrightarrow> (\<exists>p m. src p = Some m \<and> reached t p m q l)
       \<and> (\<forall>p m l'. src p = Some m \<longrightarrow> reached t p m q l' \<longrightarrow> l \<le> l')"
proof
  assume "fmlookup L q = Some l"
  then show "(\<exists>p m. src p = Some m \<and> reached t p m q l)
       \<and> (\<forall>p m l'. src p = Some m \<longrightarrow> reached t p m q l' \<longrightarrow> l \<le> l')"
    using assms unfolding level_map_def explained_def covers_def by (metis option.inject)
next
  assume r: "(\<exists>p m. src p = Some m \<and> reached t p m q l)
       \<and> (\<forall>p m l'. src p = Some m \<longrightarrow> reached t p m q l' \<longrightarrow> l \<le> l')"
  then obtain l' where l': "l' \<le> l" "fmlookup L q = Some l'"
    using assms unfolding level_map_def covers_def by meson
  then have "l \<le> l'" using assms r unfolding level_map_def explained_def by meson
  with l' show "fmlookup L q = Some l" by simp
qed

lemma set_square_offsets [simp]: "set (square_offsets r) = {- r..r} \<times> {- r..r}"
  by (auto simp: square_offsets_def)

lemma level_entry_in_square:
  "level_entry t p m off q l \<Longrightarrow> off \<in> set (square_offsets (44 - m))"
  by (cases off) (auto simp: level_entry_def max_def abs_if split: if_splits)

lemma square_in_i32:
  assumes "in_i32 m" and "m \<le> 44" and "off \<in> set (square_offsets (44 - m))"
  shows "in_i32 (m + max \<bar>fst off\<bar> \<bar>snd off\<bar>)"
proof -
  have "\<bar>fst off\<bar> \<le> 44 - m" "\<bar>snd off\<bar> \<le> 44 - m" using assms(3) by auto
  then have "m \<le> m + max \<bar>fst off\<bar> \<bar>snd off\<bar>" "m + max \<bar>fst off\<bar> \<bar>snd off\<bar> \<le> 44" by auto
  with assms(1) show ?thesis by (auto simp: in_i32_def)
qed

lemma merged_square:
  "merged t p m (square_offsets (44 - m)) L L' \<longleftrightarrow>
     (\<forall>q l'. fmlookup L' q = Some l' \<longrightarrow> fmlookup L q = Some l' \<or> reached t p m q l')
   \<and> (\<forall>q l. fmlookup L q = Some l \<longrightarrow> (\<exists>l'\<le>l. fmlookup L' q = Some l')) \<and> covers t L' p m"
proof -
  have "(\<exists>off\<in>set (square_offsets (44 - m)). level_entry t p m off q l) \<longleftrightarrow> reached t p m q l" for q l
    unfolding reached_def using level_entry_in_square by blast
  then show ?thesis unfolding merged_def covers_def by blast
qed

text \<open>Ticket levels whose radius the topology can tell apart, \<open>44 - level \<le> r\<close>.\<close>

definition level_ok :: "nat \<Rightarrow> int \<Rightarrow> bool" where
  "level_ok r l \<longleftrightarrow> in_i32 l \<and> 44 - int r \<le> l \<and> r < 2 ^ 31"

lemma level_ok_radius: "level_ok r m \<Longrightarrow> m \<le> 44 \<Longrightarrow> wrap_i32 (44 - m) = 44 - m"
  by (rule wrap_i32_id) (auto simp: level_ok_def in_i32_def)

lemma spread_tickets_spec:
  assumes wf: "topology_wf t"
  shows "(\<And>p ts l. (p, ts) \<in> set ps \<Longrightarrow> first_level ts = Some l \<Longrightarrow> level_ok r l) \<Longrightarrow>
    \<exists>L'. spread_tickets t ps L = Some L'
     \<and> (\<forall>q l. fmlookup L' q = Some l \<longrightarrow> fmlookup L q = Some l
          \<or> (\<exists>p ts m. (p, ts) \<in> set ps \<and> first_level ts = Some m \<and> reached t p m q l))
     \<and> (\<forall>q l. fmlookup L q = Some l \<longrightarrow> (\<exists>l'\<le>l. fmlookup L' q = Some l'))
     \<and> (\<forall>p ts m. (p, ts) \<in> set ps \<longrightarrow> first_level ts = Some m \<longrightarrow> covers t L' p m)"
proof (induction ps arbitrary: L)
  case Nil
  then show ?case by simp
next
  case (Cons s ps)
  obtain p ts where s: "s = (p, ts)" by (cases s)
  have IH: "\<exists>L'. spread_tickets t ps K = Some L'
     \<and> (\<forall>q l. fmlookup L' q = Some l \<longrightarrow> fmlookup K q = Some l
          \<or> (\<exists>p ts m. (p, ts) \<in> set ps \<and> first_level ts = Some m \<and> reached t p m q l))
     \<and> (\<forall>q l. fmlookup K q = Some l \<longrightarrow> (\<exists>l'\<le>l. fmlookup L' q = Some l'))
     \<and> (\<forall>p ts m. (p, ts) \<in> set ps \<longrightarrow> first_level ts = Some m \<longrightarrow> covers t L' p m)" for K
  proof (rule Cons.IH)
    fix p' ts' l assume "(p', ts') \<in> set ps" "first_level ts' = Some l"
    then show "level_ok r l" by (intro Cons.prems [of p' ts']) simp_all
  qed
  show ?case
  proof (cases "\<exists>m. first_level ts = Some m \<and> m \<le> 44")
    case False
    then have out: "\<not> reached t p m q l" if "first_level ts = Some m" for m q l
      using that by (auto simp: reached_def level_entry_def)
    have "spread_tickets t (s # ps) L = spread_tickets t ps L"
      using False by (auto simp: s split: option.split)
    moreover obtain L' where L': "spread_tickets t ps L = Some L'"
      "\<And>q l. fmlookup L' q = Some l \<Longrightarrow> fmlookup L q = Some l
          \<or> (\<exists>p ts m. (p, ts) \<in> set ps \<and> first_level ts = Some m \<and> reached t p m q l)"
      "\<And>q l. fmlookup L q = Some l \<Longrightarrow> \<exists>l'\<le>l. fmlookup L' q = Some l'"
      "\<And>p ts m. (p, ts) \<in> set ps \<Longrightarrow> first_level ts = Some m \<Longrightarrow> covers t L' p m"
      using IH [of L] by blast
    moreover have "covers t L' p m" if "first_level ts = Some m" for m
      using out [OF that] by (simp add: covers_def)
    ultimately show ?thesis by (intro exI [of _ L']) (auto simp: s, blast)
  next
    case True
    then obtain m where m: "first_level ts = Some m" "m \<le> 44" by auto
    have ok: "level_ok r m" using Cons.prems [of p ts m] s m by simp
    obtain K where K: "spread_level t p m (square_offsets (44 - m)) L = Some K"
      "merged t p m (square_offsets (44 - m)) L K"
      using spread_level_merged [OF wf square_in_i32] ok m(2) unfolding level_ok_def by meson
    obtain L' where L': "spread_tickets t ps K = Some L'"
      "\<And>q l. fmlookup L' q = Some l \<Longrightarrow> fmlookup K q = Some l
          \<or> (\<exists>p ts m. (p, ts) \<in> set ps \<and> first_level ts = Some m \<and> reached t p m q l)"
      "\<And>q l. fmlookup K q = Some l \<Longrightarrow> \<exists>l'\<le>l. fmlookup L' q = Some l'"
      "\<And>p ts m. (p, ts) \<in> set ps \<Longrightarrow> first_level ts = Some m \<Longrightarrow> covers t L' p m"
      using IH [of K] by blast
    have run: "spread_tickets t (s # ps) L = Some L'"
      using m K(1) L'(1) level_ok_radius [OF ok m(2)] by (simp add: s)
    have up: "\<exists>l'\<le>l. fmlookup L' q = Some l'" if "\<exists>k\<le>l. fmlookup K q = Some k" for q l
      using that L'(3) by (meson order.trans)
    have "covers t L' p m" using K(2) up unfolding merged_square covers_def by blast
    then have "covers t L' p' m'" if "(p', ts') \<in> set (s # ps)" "first_level ts' = Some m'" for p' ts' m'
      using that m(1) L'(4) by (auto simp: s)
    moreover have "fmlookup L q = Some l \<or> (\<exists>p ts m. (p, ts) \<in> set (s # ps) \<and> first_level ts = Some m \<and> reached t p m q l)"
      if "fmlookup L' q = Some l" for q l
      using L'(2) [OF that] K(2) m(1) unfolding merged_square s list.set by blast
    moreover have "\<exists>l'\<le>l. fmlookup L' q = Some l'" if "fmlookup L q = Some l" for q l
      using that K(2) up unfolding merged_square by blast
    ultimately show ?thesis using run by auto
  qed
qed

end
