(* ===== verification/ServerTicketCache.thy ===== *)
theory ServerTicketCache imports ServerTicketLevels
begin

text \<open>
  The cache of the distance manager.  While the generations agree the cached map must be what a sweep
  over the tickets would compute.  An added ticket updates the map in place; an added ticket that
  changes nothing is remembered, so that its removal need not drop the cache.  The invariant says why
  that is right: every level of the cached map is explained by a source that is not such a silent
  ticket, and the map covers every ticket, the remembered ones included, even when they are gone.
\<close>

definition cached_levels :: "distance_manager \<Rightarrow> (chunk_pos, int) fmap option" where
  "cached_levels m = (case dm_cache m of
     Some (g, L) \<Rightarrow> if g = dm_generation m then Some L else None | None \<Rightarrow> None)"

definition level_of :: "distance_manager \<Rightarrow> chunk_pos \<Rightarrow> int option" where
  "level_of m p = first_level (tickets_at m p)"

definition silent :: "distance_manager \<Rightarrow> chunk_pos \<Rightarrow> bool" where
  "silent m p \<longleftrightarrow> (\<exists>i. (p, i) |\<in>| dm_non_propagating m \<and> level_of m p = Some (ticket_level i))"

definition loud :: "distance_manager \<Rightarrow> chunk_pos \<Rightarrow> int option" where
  "loud m p = (if silent m p then None else level_of m p)"

definition levels_ok :: "nat \<Rightarrow> distance_manager \<Rightarrow> bool" where
  "levels_ok r m \<longleftrightarrow> topology_wf (dm_topology m) \<and> validate_one_lift_radius (dm_topology m) r = Inr ()
     \<and> (\<forall>p i. i |\<in>| fmdom (tickets_at m p) \<longrightarrow> level_ok r (ticket_level i))"

definition cache_old :: "distance_manager \<Rightarrow> bool" where
  "cache_old m \<longleftrightarrow> (\<forall>g L. dm_cache m = Some (g, L) \<longrightarrow> g \<le> dm_generation m)"

definition cache_ok :: "distance_manager \<Rightarrow> bool" where
  "cache_ok m \<longleftrightarrow> (case cached_levels m of
     None \<Rightarrow> \<forall>p i. (p, i) |\<in>| dm_non_propagating m \<longrightarrow> 44 < ticket_level i
   | Some L \<Rightarrow> explained (dm_topology m) (loud m) L
       \<and> (\<forall>p l. level_of m p = Some l \<longrightarrow> covers (dm_topology m) L p l)
       \<and> (\<forall>p i. (p, i) |\<in>| dm_non_propagating m \<longrightarrow> covers (dm_topology m) L p (ticket_level i)))"

definition tickets_inv :: "nat \<Rightarrow> distance_manager \<Rightarrow> bool" where
  "tickets_inv r m \<longleftrightarrow> levels_ok r m \<and> cache_old m \<and> cache_ok m"

lemma tickets_invI:
  "levels_ok r m \<Longrightarrow> cache_old m \<Longrightarrow> cache_ok m \<Longrightarrow> tickets_inv r m"
  by (simp add: tickets_inv_def)

lemma cache_ok_cached:
  assumes "cached_levels m = Some L"
  shows "cache_ok m \<longleftrightarrow> explained (dm_topology m) (loud m) L
       \<and> (\<forall>p l. level_of m p = Some l \<longrightarrow> covers (dm_topology m) L p l)
       \<and> (\<forall>p i. (p, i) |\<in>| dm_non_propagating m \<longrightarrow> covers (dm_topology m) L p (ticket_level i))"
  using assms by (simp add: cache_ok_def)

lemma cache_ok_stale:
  assumes "cached_levels m = None"
  shows "cache_ok m \<longleftrightarrow> (\<forall>p i. (p, i) |\<in>| dm_non_propagating m \<longrightarrow> 44 < ticket_level i)"
  using assms by (simp add: cache_ok_def)

lemma explained_mono:
  "explained t src L \<Longrightarrow> (\<And>p m. src p = Some m \<Longrightarrow> m \<le> 44 \<Longrightarrow> src' p = Some m) \<Longrightarrow> explained t src' L"
  unfolding explained_def reached_def level_entry_def by (metis abs_ge_zero le_add_same_cancel1 max.coboundedI1 order.trans)

lemma covers_far [simp]: "44 < l \<Longrightarrow> covers t L p l"
  by (auto simp: covers_def reached_def level_entry_def)

lemma covers_mono:
  assumes "covers t L p l" and "l \<le> k"
  shows "covers t L p k"
  unfolding covers_def
proof (intro allI impI)
  fix q j assume "reached t p k q j"
  then obtain off where "level_entry t p l off q (j - k + l)" using assms(2) by (auto simp: reached_def level_entry_def)
  then obtain l' where "l' \<le> j - k + l" "fmlookup L q = Some l'" using assms(1) unfolding covers_def reached_def by blast
  then show "\<exists>l'\<le>j. fmlookup L q = Some l'" using assms(2) by auto
qed

text \<open>A current cache is a level map of the tickets.\<close>

lemma cached_level_map:
  assumes "cache_ok m" and "cached_levels m = Some L"
  shows "level_map (dm_topology m) (level_of m) L"
proof -
  have "explained (dm_topology m) (loud m) L"
    using assms by (simp add: cache_ok_cached)
  then have "explained (dm_topology m) (level_of m) L"
    by (rule explained_mono) (simp add: loud_def split: if_splits)
  then show ?thesis using assms by (simp add: level_map_def cache_ok_cached)
qed

section \<open>The sweep\<close>

lemma set_sorted_list_of_fmap: "(k, v) \<in> set (sorted_list_of_fmap m) \<longleftrightarrow> fmlookup m k = Some v"
  by (auto simp: sorted_list_of_fmap_def fmlookup_dom_iff)

lemma first_level_ok:
  assumes "levels_ok r m" and "level_of m p = Some l"
  shows "level_ok r l"
  using assms unfolding levels_ok_def level_of_def first_level_Some by metis

lemma sweep_level_map:
  assumes "levels_ok r m"
  shows "\<exists>L. spread_tickets (dm_topology m) (sorted_list_of_fmap (dm_tickets m)) fmempty = Some L
     \<and> level_map (dm_topology m) (level_of m) L"
proof -
  let ?ps = "sorted_list_of_fmap (dm_tickets m)"
  have wf: "topology_wf (dm_topology m)" using assms by (simp add: levels_ok_def)
  have at: "(\<exists>ts. (p, ts) \<in> set ?ps \<and> first_level ts = Some l) \<longleftrightarrow> level_of m p = Some l" for p l
    by (auto simp: set_sorted_list_of_fmap level_of_def tickets_at_def split: option.split)
  have ok: "level_ok r l" if "(p, ts) \<in> set ?ps" "first_level ts = Some l" for p ts l
    using first_level_ok [OF assms] at that by blast
  obtain L where "spread_tickets (dm_topology m) ?ps fmempty = Some L"
    "\<And>q l. fmlookup L q = Some l
        \<Longrightarrow> \<exists>p ts m'. (p, ts) \<in> set ?ps \<and> first_level ts = Some m' \<and> reached (dm_topology m) p m' q l"
    "\<And>p ts l. (p, ts) \<in> set ?ps \<Longrightarrow> first_level ts = Some l \<Longrightarrow> covers (dm_topology m) L p l"
    using spread_tickets_spec [OF wf, of ?ps r fmempty] ok by (metis fmempty_lookup option.distinct(1))
  then show ?thesis using at unfolding level_map_def explained_def by metis
qed

lemma active_levels_run:
  assumes inv: "tickets_inv r m"
  shows "\<exists>L hit m'. active_levels_with_cache_status m = Some (L, hit, m')
     \<and> level_map (dm_topology m) (level_of m) L
     \<and> spread_tickets (dm_topology m) (sorted_list_of_fmap (dm_tickets m)) fmempty = Some L
     \<and> m' = m\<lparr>dm_cache := Some (dm_generation m, L)\<rparr> \<and> tickets_inv r m'
     \<and> (hit \<longleftrightarrow> cached_levels m \<noteq> None)"
proof -
  note i = inv [unfolded tickets_inv_def]
  obtain K where K: "spread_tickets (dm_topology m) (sorted_list_of_fmap (dm_tickets m)) fmempty = Some K"
    "level_map (dm_topology m) (level_of m) K" using sweep_level_map i by blast
  show ?thesis
  proof (cases "cached_levels m")
    case None
    let ?m = "m\<lparr>dm_cache := Some (dm_generation m, K)\<rparr>"
    have run: "active_levels_with_cache_status m = Some (K, False, ?m)"
      using None K(1) by (auto simp: active_levels_with_cache_status_def cached_levels_def split: option.splits if_splits)
    have same: "level_of ?m = level_of m" "silent ?m = silent m"
      by (simp_all add: fun_eq_iff level_of_def tickets_at_def silent_def)
    have np: "44 < ticket_level i" if "(p, i) |\<in>| dm_non_propagating m" for p i
      using i None that by (simp add: cache_ok_stale del: split_paired_All)
    have "explained (dm_topology m) (loud ?m) K"
    proof (rule explained_mono)
      show "explained (dm_topology m) (level_of m) K" using K(2) by (simp add: level_map_def)
      fix p l assume "level_of m p = Some l" "l \<le> 44"
      then show "loud ?m p = Some l" using np by (force simp: loud_def same silent_def)
    qed
    moreover have "cached_levels ?m = Some K" by (simp add: cached_levels_def)
    ultimately have "cache_ok ?m" using K(2) np by (simp add: cache_ok_cached same level_map_def)
    moreover have "levels_ok r ?m" using i by (simp add: levels_ok_def tickets_at_def)
    ultimately have "tickets_inv r ?m" by (simp add: tickets_inv_def cache_old_def)
    with run K None show ?thesis by blast
  next
    case (Some L)
    then have c: "dm_cache m = Some (dm_generation m, L)"
      by (auto simp: cached_levels_def split: option.splits if_splits)
    have "level_map (dm_topology m) (level_of m) L" using cached_level_map Some i by blast
    then have "L = K" using K(2) by (rule level_map_unique)
    with c Some K inv show ?thesis by (auto simp: active_levels_with_cache_status_def)
  qed
qed

section \<open>Adding and removing one ticket\<close>

lemma tickets_at_update: "tickets_at (m\<lparr>dm_tickets := fmupd p ts (dm_tickets m)\<rparr>) = (tickets_at m)(p := ts)"
  by (simp add: fun_eq_iff tickets_at_def)

lemma square_sees_once:
  assumes "topology_wf t" and "validate_one_lift_radius t r = Inr ()" and "level_ok r m"
    and "level_entry t p m o1 q l1" and "level_entry t p m o2 q l2"
  shows "l1 = l2"
proof -
  have lifts: "one_lift (ht_x t) r" "one_lift (ht_z t) r" using assms(2) by (simp_all add: validate_one_lift_radius_ok)
  have sq: "off \<in> {- int r..int r} \<times> {- int r..int r}" if "level_entry t p m off q l" for off l
    using level_entry_in_square [OF that] assms(3) by (auto simp: level_ok_def)
  obtain c1 c2 where "lift_at t p o1 = Some c1" "cl_canonical c1 = q" "lift_at t p o2 = Some c2" "cl_canonical c2 = q"
    using assms(4,5) by (auto simp: level_entry_def neighbor_chunk_eq [OF assms(1)])
  then have "o1 = o2" using lift_at_inj [OF assms(1) lifts sq [OF assms(4)] sq [OF assms(5)]] by simp
  then show ?thesis using assms(4,5) by (simp add: level_entry_def)
qed

lemma addition_cases:
  assumes ok: "levels_ok r m" and l: "level_ok r l" and cur: "cached_levels m = Some L"
  shows "covers (dm_topology m) L p l \<and> apply_ticket_addition_to_active_levels m p l = Some (Some False, m)
     \<or> (\<exists>L'. merged (dm_topology m) p l (square_offsets (44 - l)) L L' \<and> \<not> covers (dm_topology m) L p l
          \<and> apply_ticket_addition_to_active_levels m p l = Some (Some True,
              m\<lparr>dm_generation := next_u64 (dm_generation m), dm_cache := Some (next_u64 (dm_generation m), L')\<rparr>))"
proof (cases "l \<le> 44")
  case False
  then show ?thesis by (simp add: apply_ticket_addition_to_active_levels_def)
next
  case True
  let ?t = "dm_topology m" let ?sq = "square_offsets (44 - l)"
  have wf: "topology_wf ?t" and one: "validate_one_lift_radius ?t r = Inr ()" using ok by (simp_all add: levels_ok_def)
  have c: "dm_cache m = Some (dm_generation m, L)"
    using cur by (auto simp: cached_levels_def split: option.splits if_splits)
  obtain us where us: "level_updates ?t p l L ?sq = Some us"
    "\<And>q k. (q, k) \<in> set us \<longleftrightarrow> (\<exists>off\<in>set ?sq. level_entry ?t p l off q k)
          \<and> (\<forall>current. fmlookup L q = Some current \<longrightarrow> k < current)"
    using level_updates_spec [OF wf, of ?sq l p L] square_in_i32 [OF _ True] l unfolding level_ok_def by blast
  have "merged ?t p l ?sq L (fold (\<lambda>(pos, level) levels. fmupd pos level levels) us L)"
    by (rule updates_merged [OF us(2)]) (use square_sees_once [OF wf one l] in blast)
  moreover have "us = [] \<longleftrightarrow> covers ?t L p l"
  proof -
    have "us = [] \<longleftrightarrow> (\<forall>q k. (q, k) \<notin> set us)" by (cases us) auto
    also have "\<dots> \<longleftrightarrow> covers ?t L p l"
      unfolding us(2) covers_def reached_def using level_entry_in_square by (meson not_le)
    finally show ?thesis .
  qed
  moreover have "apply_ticket_addition_to_active_levels m p l =
      (if us = [] then Some (Some False, m) else Some (Some True,
        m\<lparr>dm_generation := next_u64 (dm_generation m), dm_cache := Some (next_u64 (dm_generation m),
          fold (\<lambda>(pos, level) levels. fmupd pos level levels) us L)\<rparr>))"
    using True c us(1) by (simp add: apply_ticket_addition_to_active_levels_def level_ok_radius [OF l True] Let_def)
  ultimately show ?thesis by (cases "us = []") auto
qed

lemma addition_stale:
  assumes "cached_levels m = None"
  shows "apply_ticket_addition_to_active_levels m p l = Some (if 44 < l then Some False else None, m)"
proof (cases "dm_cache m")
  case None
  then show ?thesis by (simp add: apply_ticket_addition_to_active_levels_def)
next
  case (Some c)
  then obtain g L where "dm_cache m = Some (g, L)" "g \<noteq> dm_generation m"
    using assms by (cases c) (auto simp: cached_levels_def split: if_splits)
  then show ?thesis by (simp add: apply_ticket_addition_to_active_levels_def)
qed

text \<open>What an operation on tickets may change, and that the invariant survives it.\<close>

definition ticket_step :: "nat \<Rightarrow> distance_manager \<Rightarrow> distance_manager \<Rightarrow> bool" where
  "ticket_step r m m' \<longleftrightarrow> tickets_inv r m'
     \<and> (\<exists>ts np g c. m' = m\<lparr>dm_tickets := ts, dm_non_propagating := np, dm_generation := g, dm_cache := c\<rparr>
          \<and> dm_generation m \<le> g \<and> g \<le> dm_generation m + 1)"

lemma next_u64_small: "n + 1 < 2 ^ 64 \<Longrightarrow> next_u64 n = n + 1"
  by (simp add: next_u64_def)

lemma cached_levels_Some: "cached_levels m = Some L \<longleftrightarrow> dm_cache m = Some (dm_generation m, L)"
  by (auto simp: cached_levels_def split: option.splits if_splits)

lemma mark_tickets_inv:
  assumes "levels_ok r m" and "cache_old m" and "dm_generation m + 1 < 2 ^ 64"
  shows "tickets_inv r (mark_tickets_changed m)"
proof (rule tickets_invI)
  have g: "next_u64 (dm_generation m) = dm_generation m + 1" by (rule next_u64_small) (rule assms(3))
  show "levels_ok r (mark_tickets_changed m)"
    using assms(1) by (simp add: levels_ok_def mark_tickets_changed_def tickets_at_def)
  show "cache_old (mark_tickets_changed m)"
    using assms(2) by (auto simp: cache_old_def mark_tickets_changed_def g)
  have "cached_levels (mark_tickets_changed m) = None"
    using assms(2) by (auto simp: cached_levels_def mark_tickets_changed_def g cache_old_def split: option.split)
  then show "cache_ok (mark_tickets_changed m)"
    by (simp add: cache_ok_stale mark_tickets_changed_def)
qed

lemma cached_levels_frame [simp]:
  "cached_levels (m\<lparr>dm_tickets := ts\<rparr>) = cached_levels m"
  "cached_levels (m\<lparr>dm_non_propagating := np\<rparr>) = cached_levels m"
  by (simp_all add: cached_levels_def cong: option.case_cong)

lemma loud_cong:
  assumes "level_of m' = level_of m" and "dm_non_propagating m' = dm_non_propagating m"
  shows "loud m' = loud m"
proof -
  have "silent m' = silent m" using assms by (simp only: fun_eq_iff silent_def) simp
  then show ?thesis using assms(1) by (simp add: fun_eq_iff loud_def)
qed

lemma tickets_inv_cong:
  assumes "dm_topology m' = dm_topology m" and "tickets_at m' = tickets_at m" and "cached_levels m' = cached_levels m"
    and "dm_non_propagating m' = dm_non_propagating m" and "cache_old m' = cache_old m"
  shows "tickets_inv r m' = tickets_inv r m"
proof -
  have l: "level_of m' = level_of m" using assms(2) by (simp add: fun_eq_iff level_of_def)
  then have "loud m' = loud m" using assms(4) by (rule loud_cong)
  with l assms show ?thesis by (simp only: tickets_inv_def levels_ok_def cache_ok_def)
qed

text \<open>A level of the map is not explained by a source that is covered at a lower level.\<close>

lemma nearer_source:
  assumes cov: "covers t L p l" and k: "fmlookup L q = Some k" and r: "reached t p b q k"
  shows "b \<le> l"
proof (rule ccontr)
  assume "\<not> b \<le> l"
  obtain off where "level_entry t p b off q k" using r by (auto simp: reached_def)
  then have "level_entry t p l off q (k - b + l)" using \<open>\<not> b \<le> l\<close> by (auto simp: level_entry_def)
  then obtain k' where "k' \<le> k - b + l" "fmlookup L q = Some k'" using cov unfolding covers_def reached_def by blast
  then show False using k \<open>\<not> b \<le> l\<close> by simp
qed

text \<open>A source that gets a level another source already explains.\<close>

lemma cached_add_silent:
  assumes inv: "tickets_inv r m" and cur: "cached_levels m = Some L" and t: "t = dm_topology m"
    and cov: "covers t L p l" and less: "\<forall>b. level_of m p = Some b \<longrightarrow> l < b"
    and m': "dm_topology m' = t" "cached_levels m' = Some L" "level_of m' = (level_of m)(p := Some l)"
      "dm_non_propagating m' = finsert (p, i) (dm_non_propagating m)" "ticket_level i = l"
  shows "cache_ok m'"
proof -
  have ok: "explained t (loud m) L" "\<And>q k. level_of m q = Some k \<Longrightarrow> covers t L q k"
    "\<And>q j. (q, j) |\<in>| dm_non_propagating m \<Longrightarrow> covers t L q (ticket_level j)"
    using inv cur t by (simp_all add: tickets_inv_def cache_ok_cached del: split_paired_All)
  have "explained t (loud m') L"
    unfolding explained_def
  proof (intro allI impI)
    fix q k assume k: "fmlookup L q = Some k"
    then obtain s b where s: "loud m s = Some b" "reached t s b q k" using ok(1) unfolding explained_def by blast
    then have lv: "level_of m s = Some b" and quiet: "\<not> silent m s" by (auto simp: loud_def split: if_splits)
    have "s \<noteq> p" using nearer_source [OF cov k, of b] s(2) lv less by auto
    then have "loud m' s = Some b" using lv quiet m' by (auto simp: loud_def silent_def)
    then show "\<exists>s b. loud m' s = Some b \<and> reached t s b q k" using s(2) by blast
  qed
  then show ?thesis
    using ok(2,3) cov m' by (auto simp: cache_ok_cached simp del: split_paired_All split: if_splits)
qed

lemma cached_add_loud:
  assumes inv: "tickets_inv r m" and cur: "cached_levels m = Some L" and t: "t = dm_topology m"
    and mrg: "merged t p l (square_offsets (44 - l)) L L'" and new: "\<not> covers t L p l"
    and less: "\<forall>b. level_of m p = Some b \<longrightarrow> l < b"
    and m': "dm_topology m' = t" "cached_levels m' = Some L'" "level_of m' = (level_of m)(p := Some l)"
      "dm_non_propagating m' = dm_non_propagating m"
  shows "cache_ok m'"
proof -
  have ok: "explained t (loud m) L" "\<And>q k. level_of m q = Some k \<Longrightarrow> covers t L q k"
    "\<And>q j. (q, j) |\<in>| dm_non_propagating m \<Longrightarrow> covers t L q (ticket_level j)"
    using inv cur t by (simp_all add: tickets_inv_def cache_ok_cached del: split_paired_All)
  note mr = mrg [unfolded merged_square]
  have keep: "covers t L' q k" if "covers t L q k" for q k
    using that mr unfolding covers_def by (meson order.trans)
  have "explained t (loud m') L'"
    unfolding explained_def
  proof (intro allI impI)
    fix q k assume k: "fmlookup L' q = Some k"
    have "\<not> silent m' p" using new ok(3) m' by (auto simp: silent_def)
    then have lp: "loud m' p = Some l" by (simp add: loud_def m')
    show "\<exists>s b. loud m' s = Some b \<and> reached t s b q k"
    proof (cases "reached t p l q k")
      case False
      then have old: "fmlookup L q = Some k" using mr k by blast
      then obtain s b where s: "loud m s = Some b" "reached t s b q k" using ok(1) unfolding explained_def by blast
      then have lv: "level_of m s = Some b" and quiet: "\<not> silent m s" by (auto simp: loud_def split: if_splits)
      have "s \<noteq> p" using nearer_source [OF conjunct2 [OF conjunct2 [OF mr]] k, of b] s(2) lv less by auto
      then have "loud m' s = Some b" using lv quiet m' by (auto simp: loud_def silent_def)
      then show ?thesis using s(2) by blast
    qed (use lp in blast)
  qed
  then show ?thesis
    using ok(2,3) keep mr m' by (auto simp: cache_ok_cached simp del: split_paired_All split: if_splits)
qed

lemma ticket_stepI:
  assumes "tickets_inv r (m\<lparr>dm_tickets := ts, dm_non_propagating := np, dm_generation := g, dm_cache := c\<rparr>)"
    and "dm_generation m \<le> g" and "g \<le> dm_generation m + 1"
  shows "ticket_step r m (m\<lparr>dm_tickets := ts, dm_non_propagating := np, dm_generation := g, dm_cache := c\<rparr>)"
  unfolding ticket_step_def using assms by blast

lemma mark_step:
  assumes "levels_ok r m'" and "cache_old m" and "dm_generation m + 1 < 2 ^ 64" and "m' = m\<lparr>dm_tickets := ts\<rparr>"
  shows "ticket_step r m (mark_tickets_changed m')"
proof -
  have "tickets_inv r (mark_tickets_changed m')"
    by (rule mark_tickets_inv) (use assms in \<open>simp_all add: cache_old_def\<close>)
  moreover have "mark_tickets_changed m' = m\<lparr>dm_tickets := ts, dm_non_propagating := {||},
      dm_generation := dm_generation m + 1, dm_cache := dm_cache m\<rparr>"
    using assms(3,4) by (simp add: mark_tickets_changed_def next_u64_small)
  ultimately show ?thesis using ticket_stepI by (metis le_add1 order_refl)
qed

lemma levels_ok_update:
  assumes "levels_ok r m" and "\<And>i. i |\<in>| fmdom ts \<Longrightarrow> i |\<in>| fmdom (tickets_at m p) \<or> level_ok r (ticket_level i)"
    and "tickets_at m' = (tickets_at m)(p := ts)" and "dm_topology m' = dm_topology m"
  shows "levels_ok r m'"
  using assms by (simp add: levels_ok_def del: split_paired_All) blast

lemma level_of_update:
  "tickets_at m' = (tickets_at m)(p := ts) \<Longrightarrow> level_of m' = (level_of m)(p := first_level ts)"
  by (simp add: fun_eq_iff level_of_def)

text \<open>The three outcomes of an addition that lowers the level of its chunk.\<close>

definition after_addition ::
  "chunk_pos \<times> ticket_identity \<Rightarrow> bool option \<times> distance_manager \<Rightarrow> distance_manager" where
  "after_addition entry r = (case fst r of
     Some True \<Rightarrow> snd r
   | Some False \<Rightarrow> (snd r)\<lparr>dm_non_propagating := finsert entry (dm_non_propagating (snd r))\<rparr>
   | None \<Rightarrow> mark_tickets_changed (snd r))"

lemma quiet_step:
  assumes "levels_ok r (m\<lparr>dm_tickets := ts\<rparr>)" and "cache_old m"
    and "cache_ok (m\<lparr>dm_tickets := ts, dm_non_propagating := np\<rparr>)"
  shows "ticket_step r m (m\<lparr>dm_tickets := ts, dm_non_propagating := np\<rparr>)"
proof -
  let ?m = "m\<lparr>dm_tickets := ts, dm_non_propagating := np\<rparr>"
  have "levels_ok r ?m" using assms(1) by (simp add: levels_ok_def tickets_at_def)
  moreover have "cache_old ?m" using assms(2) by (simp add: cache_old_def)
  ultimately have "tickets_inv r ?m" using assms(3) by (simp add: tickets_inv_def)
  then show ?thesis using ticket_stepI [where m = m and ts = ts and np = np and g = "dm_generation m" and c = "dm_cache m"] by simp
qed

lemma addition_step:
  assumes inv: "tickets_inv r m" and l: "level_ok r l" and g: "dm_generation m + 1 < 2 ^ 64"
    and m1: "m1 = m\<lparr>dm_tickets := ts\<rparr>" and ok: "levels_ok r m1"
    and lv: "level_of m1 = (level_of m)(p := Some l)" and less: "\<forall>b. level_of m p = Some b \<longrightarrow> l < b"
    and i: "ticket_level i = l"
  shows "\<exists>res. apply_ticket_addition_to_active_levels m1 p l = Some res
     \<and> ticket_step r m (after_addition (p, i) res) \<and> dm_tickets (after_addition (p, i) res) = ts"
proof -
  note inv' = inv [unfolded tickets_inv_def]
  have cl: "cached_levels m1 = cached_levels m" by (simp add: m1)
  let ?quiet = "m\<lparr>dm_tickets := ts, dm_non_propagating := finsert (p, i) (dm_non_propagating m)\<rparr>"
  have quiet: "ticket_step r m ?quiet" if "cache_ok ?quiet"
    by (rule quiet_step) (use ok m1 inv' that in simp_all)
  have quiet_lv: "level_of ?quiet = (level_of m)(p := Some l)"
    using lv by (simp add: m1 fun_eq_iff level_of_def tickets_at_def)
  show ?thesis
  proof (cases "cached_levels m")
    case None
    have "cache_ok ?quiet" if "44 < l"
      using inv' None that i by (auto simp: cache_ok_stale simp del: split_paired_All split_paired_Ex)
    moreover have "ticket_step r m (mark_tickets_changed m1)"
      by (rule mark_step [OF ok _ g m1]) (use inv' in simp)
    ultimately show ?thesis
      using quiet None cl m1 by (simp add: addition_stale after_addition_def mark_tickets_changed_def)
  next
    case (Some L)
    then have cur: "cached_levels m1 = Some L" using cl by simp
    from addition_cases [OF ok l cur, of p] show ?thesis
    proof (elim disjE exE conjE)
      assume c: "covers (dm_topology m1) L p l" "apply_ticket_addition_to_active_levels m1 p l = Some (Some False, m1)"
      have "cache_ok ?quiet"
        by (rule cached_add_silent [OF inv Some refl _ less _ _ quiet_lv, where i = i])
          (use c Some i in \<open>simp_all add: m1\<close>)
      then show ?thesis using quiet c(2) by (simp add: after_addition_def m1)
    next
      fix L'
      let ?g = "next_u64 (dm_generation m1)"
      let ?loud = "m1\<lparr>dm_generation := ?g, dm_cache := Some (?g, L')\<rparr>"
      assume c: "merged (dm_topology m1) p l (square_offsets (44 - l)) L L'" "\<not> covers (dm_topology m1) L p l"
        "apply_ticket_addition_to_active_levels m1 p l = Some (Some True, ?loud)"
      have lat: "tickets_at ?loud = tickets_at m1" by (simp add: fun_eq_iff tickets_at_def)
      have "cache_ok ?loud"
        by (rule cached_add_loud [OF inv Some refl _ _ less])
          (use c lv lat in \<open>simp_all add: cached_levels_def level_of_def fun_eq_iff m1\<close>)
      moreover have "levels_ok r ?loud" using ok lat by (simp add: levels_ok_def)
      ultimately have "tickets_inv r ?loud" by (simp add: tickets_inv_def cache_old_def)
      then have "ticket_step r m ?loud"
        using ticket_stepI [where m = m and ts = ts and np = "dm_non_propagating m" and g = ?g and c = "Some (?g, L')"] next_u64_small [OF g] by (simp add: m1)
      then show ?thesis using c(3) by (simp add: after_addition_def m1)
    qed
  qed
qed

lemma level_same_inv:
  assumes inv: "tickets_inv r m" and ok: "levels_ok r (m\<lparr>dm_tickets := ts\<rparr>)"
    and "level_of (m\<lparr>dm_tickets := ts\<rparr>) = level_of m"
  shows "ticket_step r m (m\<lparr>dm_tickets := ts\<rparr>)"
proof -
  let ?m = "m\<lparr>dm_tickets := ts\<rparr>"
  have "loud ?m = loud m" by (rule loud_cong) (simp_all add: assms(3))
  then have "cache_ok ?m"
    using inv assms(3) by (cases "cached_levels m")
      (simp_all add: tickets_inv_def cache_ok_cached cache_ok_stale del: split_paired_All)
  then have "tickets_inv r ?m" using inv ok by (simp add: tickets_inv_def cache_old_def)
  then show ?thesis
    using ticket_stepI [where m = m and ts = ts and np = "dm_non_propagating m" and g = "dm_generation m" and c = "dm_cache m"] by simp
qed

lemma add_ticket_step:
  assumes inv: "tickets_inv r m" and l: "level_ok r l" and g: "dm_generation m + 1 < 2 ^ 64"
  shows "\<exists>m'. add_ticket m ty p l key = Some m' \<and> ticket_step r m m'
     \<and> dm_tickets m' = fmupd p (fmupd (ty, l, key) (dm_tick m) (tickets_at m p)) (dm_tickets m)"
proof -
  let ?i = "(ty, l, key)" let ?ts = "fmupd ?i (dm_tick m) (tickets_at m p)"
  let ?m = "m\<lparr>dm_tickets := fmupd p ?ts (dm_tickets m)\<rparr>"
  note at = tickets_at_update [where m = m and p = p and ts = ?ts]
  have ok: "levels_ok r ?m"
    by (rule levels_ok_update [OF _ _ at]) (use inv l in \<open>auto simp: ticket_level_def tickets_inv_def\<close>)
  note lv = level_of_update [OF at]
  show ?thesis
  proof (cases "first_level (tickets_at m p) = first_level ?ts")
    case True
    then have "add_ticket m ty p l key = Some ?m" by (simp add: add_ticket_def Let_def)
    moreover have "ticket_step r m ?m"
      by (rule level_same_inv [OF inv ok]) (use lv True in \<open>simp add: fun_eq_iff level_of_def\<close>)
    ultimately show ?thesis by simp
  next
    case False
    then have first: "first_level ?ts = Some l" and less: "\<forall>b. level_of m p = Some b \<longrightarrow> l < b"
      by (auto simp: first_level_fmupd level_of_def ticket_level_def min_def split: option.splits if_splits)
    then obtain res where res: "apply_ticket_addition_to_active_levels ?m p l = Some res"
      "ticket_step r m (after_addition (p, ?i) res)" "dm_tickets (after_addition (p, ?i) res) = fmupd p ?ts (dm_tickets m)"
      using addition_step [OF inv l g refl ok lv [unfolded first] less, of ?i] by (auto simp: ticket_level_def)
    have "add_ticket m ty p l key = Some (after_addition (p, ?i) res)"
      using False res(1) by (cases res) (simp add: add_ticket_def Let_def first after_addition_def cong: option.case_cong bool.case_cong)
    with res show ?thesis by simp
  qed
qed

text \<open>A silent ticket goes: the map still covers what it covered, and no level rested on it.\<close>

lemma cached_drop_silent:
  assumes inv: "tickets_inv r m" and i: "(p, i) |\<in>| dm_non_propagating m" and lp: "level_of m p = Some (ticket_level i)"
    and less: "\<forall>a. new = Some a \<longrightarrow> ticket_level i < a"
    and m': "dm_topology m' = dm_topology m" "cached_levels m' = cached_levels m" "level_of m' = (level_of m)(p := new)"
      "dm_non_propagating m' = dm_non_propagating m |-| {|(p, i)|}"
  shows "cache_ok m'"
proof (cases "cached_levels m")
  case None
  then show ?thesis using inv m' by (auto simp: tickets_inv_def cache_ok_stale simp del: split_paired_All)
next
  case (Some L)
  let ?t = "dm_topology m"
  have ok: "explained ?t (loud m) L" "\<And>q k. level_of m q = Some k \<Longrightarrow> covers ?t L q k"
    "\<And>q j. (q, j) |\<in>| dm_non_propagating m \<Longrightarrow> covers ?t L q (ticket_level j)"
    using inv Some by (simp_all add: tickets_inv_def cache_ok_cached del: split_paired_All)
  have "explained ?t (loud m') L"
  proof (rule explained_mono [OF ok(1)])
    fix s b assume s: "loud m s = Some b"
    then have lv: "level_of m s = Some b" and quiet: "\<not> silent m s" by (auto simp: loud_def split: if_splits)
    have "silent m p" using i lp unfolding silent_def by blast
    then have "s \<noteq> p" using quiet by auto
    then show "loud m' s = Some b" using lv quiet m' by (auto simp: loud_def silent_def)
  qed
  moreover have "covers ?t L p a" if "new = Some a" for a
    using less that by (intro covers_mono [OF ok(2) [OF lp]]) auto
  ultimately show ?thesis
    using Some ok(2,3) m' by (auto simp: cache_ok_cached simp del: split_paired_All split: if_splits)
qed

lemma remove_ticket_step:
  assumes inv: "tickets_inv r m" and g: "dm_generation m + 1 < 2 ^ 64"
  shows "ticket_step r m (remove_ticket m ty p l key)"
    and "tickets_at (remove_ticket m ty p l key) = (tickets_at m)(p := fmdrop (ty, l, key) (tickets_at m p))"
proof -
  let ?i = "(ty, l, key)" let ?m' = "remove_ticket m ty p l key"
  have "ticket_step r m ?m' \<and> tickets_at ?m' = (tickets_at m)(p := fmdrop ?i (tickets_at m p))"
  proof (cases "fmlookup (dm_tickets m) p")
    case None
    then have "?m' = m" "tickets_at m p = fmempty" by (simp_all add: remove_ticket_def tickets_at_def)
    moreover have "ticket_step r m m" unfolding ticket_step_def
      by (rule conjI [OF inv], rule exI [of _ "dm_tickets m"], rule exI [of _ "dm_non_propagating m"],
          rule exI [of _ "dm_generation m"], rule exI [of _ "dm_cache m"]) simp
    ultimately show ?thesis by (simp add: fun_eq_iff)
  next
    case (Some ts)
    then have ts: "tickets_at m p = ts" by (simp add: tickets_at_def)
    define T where "T = (if fmdrop ?i ts = fmempty then fmdrop p (dm_tickets m)
                       else fmupd p (fmdrop ?i ts) (dm_tickets m))"
    let ?m = "m\<lparr>dm_tickets := T\<rparr>"
    have at: "tickets_at ?m = (tickets_at m)(p := fmdrop ?i ts)"
      by (auto simp: fun_eq_iff tickets_at_def T_def)
    have ok: "levels_ok r ?m"
      by (rule levels_ok_update [OF _ _ at]) (use inv ts in \<open>auto simp: tickets_inv_def\<close>)
    have lv: "level_of ?m = (level_of m)(p := first_level (fmdrop ?i ts))" by (rule level_of_update [OF at])
    have lp: "level_of m p = first_level ts" by (simp add: level_of_def ts)
    have run: "?m' = (if ?i |\<notin>| fmdom ts \<or> first_level ts = first_level (fmdrop ?i ts) then ?m
        else if (p, ?i) |\<in>| dm_non_propagating m
        then ?m\<lparr>dm_non_propagating := dm_non_propagating m |-| {|(p, ?i)|}\<rparr> else mark_tickets_changed ?m)"
      using Some by (simp add: remove_ticket_def Let_def T_def)
    show ?thesis
    proof (cases "?i |\<notin>| fmdom ts \<or> first_level ts = first_level (fmdrop ?i ts)")
      case True
      then have "first_level (fmdrop ?i ts) = first_level ts"
        by (metis fmdrop_idle)
      then have "level_of ?m = level_of m" using lv lp by (simp add: fun_eq_iff)
      then have "ticket_step r m ?m" by (rule level_same_inv [OF inv ok])
      moreover have "?m' = ?m" using run True by simp
      ultimately show ?thesis using at ts by simp
    next
      case False
      then have f: "?i |\<in>| fmdom ts" "first_level (fmdrop ?i ts) \<noteq> first_level ts" by auto
      note drop = first_level_fmdrop [OF f]
      show ?thesis
      proof (cases "(p, ?i) |\<in>| dm_non_propagating m")
        case True
        let ?n = "m\<lparr>dm_tickets := T, dm_non_propagating := dm_non_propagating m |-| {|(p, ?i)|}\<rparr>"
        have nat: "tickets_at ?n = tickets_at ?m" by (simp add: fun_eq_iff tickets_at_def)
        have "cache_ok ?n"
          by (rule cached_drop_silent [OF inv True _ _ _ _ level_of_update [OF nat [unfolded at]]])
            (use drop lp in simp_all)
        then have "ticket_step r m ?n" by (intro quiet_step ok) (use inv in \<open>simp_all add: tickets_inv_def\<close>)
        moreover have "?m' = ?n" using run False True by simp
        ultimately show ?thesis using nat at ts by simp
      next
        case notin: False
        have "ticket_step r m (mark_tickets_changed ?m)"
          by (rule mark_step [OF ok _ g refl]) (use inv in \<open>simp add: tickets_inv_def\<close>)
        moreover have "?m' = mark_tickets_changed ?m" using run False notin by simp
        moreover have "tickets_at (mark_tickets_changed ?m) = tickets_at ?m"
          by (simp add: fun_eq_iff mark_tickets_changed_def tickets_at_def)
        ultimately show ?thesis using at ts by simp
      qed
    qed
  qed
  then show "ticket_step r m ?m'" "tickets_at ?m' = (tickets_at m)(p := fmdrop ?i (tickets_at m p))" by blast+
qed

section \<open>The clock\<close>

lemma retain_live_lookup:
  "fmlookup (retain_live now ts) i = (case fmlookup ts i of
     Some created \<Rightarrow> if timed_out i created now then None else Some created | None \<Rightarrow> None)"
  by (auto simp: retain_live_def split: option.split)

lemma purge_tickets_at:
  "tickets_at (purge_stale_tickets m) p = retain_live (next_u64 (dm_tick m)) (tickets_at m p)"
proof -
  have "retain_live now fmempty = fmempty" for now by (rule fmap_ext) (simp add: retain_live_lookup)
  then show ?thesis
    by (auto simp: purge_stale_tickets_def tickets_at_def Let_def mark_tickets_changed_def split: option.splits)
qed

lemma purge_step:
  assumes inv: "tickets_inv r m" and g: "dm_generation m + 1 < 2 ^ 64"
  shows "tickets_inv r (purge_stale_tickets m)"
    and "dm_generation (purge_stale_tickets m) \<le> dm_generation m + 1"
proof -
  let ?now = "next_u64 (dm_tick m)"
  let ?T = "fmfilter (\<lambda>pos. fmlookup (fmmap (retain_live ?now) (dm_tickets m)) pos \<noteq> Some fmempty)
      (fmmap (retain_live ?now) (dm_tickets m))"
  let ?m = "m\<lparr>dm_tickets := ?T, dm_tick := ?now\<rparr>"
  let ?keep = "fmpred (\<lambda>pos ts. retain_live ?now ts = ts) (dm_tickets m)"
  have run: "purge_stale_tickets m = (if ?keep then ?m else mark_tickets_changed ?m)"
    by (simp add: purge_stale_tickets_def Let_def)
  have at: "tickets_at ?m p = retain_live ?now (tickets_at m p)" for p
    using purge_tickets_at [of m p] run by (auto simp: mark_tickets_changed_def tickets_at_def split: if_splits)
  have "i |\<in>| fmdom (tickets_at m p)" if "i |\<in>| fmdom (tickets_at ?m p)" for p i
    using that unfolding at by (auto simp: fmlookup_dom_iff retain_live_lookup split: option.splits)
  then have ok: "levels_ok r ?m"
    using inv unfolding tickets_inv_def levels_ok_def by simp blast
  have old: "cache_old m" using inv by (simp add: tickets_inv_def)
  have "tickets_inv r ?m" if ?keep
  proof -
    have "tickets_at ?m p = tickets_at m p" for p
    proof (cases "fmlookup (dm_tickets m) p")
      case None
      then show ?thesis by (simp add: tickets_at_def)
    next
      case (Some ts)
      then show ?thesis using at [of p] fmpredD [OF that Some] by (simp add: tickets_at_def)
    qed
    then have "tickets_at ?m = tickets_at m" by (rule ext)
    moreover have "cached_levels ?m = cached_levels m" by (simp add: cached_levels_def cong: option.case_cong)
    moreover have "cache_old ?m = cache_old m" by (simp add: cache_old_def)
    ultimately have "tickets_inv r ?m = tickets_inv r m" by (intro tickets_inv_cong) simp_all
    with inv show ?thesis by simp
  qed
  moreover have "tickets_inv r (mark_tickets_changed ?m)"
    by (rule mark_tickets_inv [OF ok]) (use g old in \<open>simp_all add: cache_old_def\<close>)
  ultimately show "tickets_inv r (purge_stale_tickets m)" using run by simp
  show "dm_generation (purge_stale_tickets m) \<le> dm_generation m + 1"
    using next_u64_small [OF g] run by (simp add: mark_tickets_changed_def)
qed

end
