(* ===== verification/ServerPromotions.thy ===== *)
theory ServerPromotions imports ServerTicketCache
begin

text \<open>
  The interest of the players in the distance manager.  Chunks in the simulation set get a player
  ticket, at most \<open>max_active\<close> promotions at a time and the nearest first; chunks that are only
  resident get an observer ticket.  The lemmas follow the loops of
  \<open>set_aggregate_interest_positions_with_priority\<close> and of the refill.
\<close>

abbreviation (input) player_ticket :: "chunk_pos \<Rightarrow> ticket_identity" where
  "player_ticket p \<equiv> (Player, 31, KeyChunk p)"

abbreviation (input) observer_ticket :: "chunk_pos \<Rightarrow> ticket_identity" where
  "observer_ticket p \<equiv> (Observer, 33, KeyChunk p)"

definition holds :: "distance_manager \<Rightarrow> chunk_pos \<Rightarrow> ticket_identity \<Rightarrow> bool" where
  "holds m p i \<longleftrightarrow> i |\<in>| fmdom (tickets_at m p)"

definition settings ::
  "distance_manager \<Rightarrow> horizontal_topology \<times> chunk_pos fset \<times> chunk_pos fset \<times> nat \<times> nat \<times> chunk_pos list" where
  "settings m = (dm_topology m, dm_resident m, dm_simulation m, dm_max_active m, dm_tick m, dm_centers m)"

definition queues :: "distance_manager \<Rightarrow> chunk_pos fset \<times> chunk_pos fset \<times> (chunk_pos, nat) fmap" where
  "queues m = (dm_player_positions m, dm_active_promotions m, dm_first_desired m)"

definition promotions_pre :: "distance_manager \<Rightarrow> bool" where
  "promotions_pre m \<longleftrightarrow> dm_active_promotions m |\<subseteq>| dm_player_positions m
     \<and> dm_player_positions m |\<subseteq>| dm_simulation m
     \<and> fcard (dm_active_promotions m) \<le> dm_max_active m
     \<and> fmdom (dm_first_desired m) = dm_simulation m
     \<and> (\<forall>p. holds m p (player_ticket p) \<longleftrightarrow> p |\<in>| dm_player_positions m)
     \<and> (\<forall>p. holds m p (observer_ticket p) \<longleftrightarrow> p |\<in>| dm_resident m |-| dm_simulation m)"

definition promotions_ok :: "distance_manager \<Rightarrow> bool" where
  "promotions_ok m \<longleftrightarrow> promotions_pre m
     \<and> (fcard (dm_active_promotions m) = dm_max_active m \<or> dm_player_positions m = dm_simulation m)"

lemma ticket_stepD:
  assumes "ticket_step r m m'"
  shows "tickets_inv r m'" and "settings m' = settings m" and "queues m' = queues m"
    and "dm_generation m \<le> dm_generation m'" and "dm_generation m' \<le> dm_generation m + 1"
  using assms by (auto simp: ticket_step_def settings_def queues_def)

lemma tickets_inv_frame:
  assumes "m' = m\<lparr>dm_resident := a, dm_simulation := b, dm_player_positions := c, dm_active_promotions := d,
      dm_first_desired := e, dm_admitted_total := f, dm_cancelled := g, dm_centers := h\<rparr>"
  shows "tickets_inv r m' = tickets_inv r m" and "holds m' = holds m" and "dm_generation m' = dm_generation m"
    and "dm_tickets m' = dm_tickets m" and "tickets_at m' = tickets_at m"
proof -
  have at: "tickets_at m' = tickets_at m" by (simp add: assms fun_eq_iff tickets_at_def)
  show "tickets_inv r m' = tickets_inv r m"
    by (rule tickets_inv_cong [OF _ at]) (simp_all add: assms cached_levels_def cache_old_def cong: option.case_cong)
  show "holds m' = holds m" by (simp add: fun_eq_iff holds_def at)
  show "dm_generation m' = dm_generation m" "dm_tickets m' = dm_tickets m" by (simp_all add: assms)
  show "tickets_at m' = tickets_at m" by (rule at)
qed

lemma level_ok_players: "13 \<le> r \<Longrightarrow> r < 2 ^ 31 \<Longrightarrow> level_ok r 31 \<and> level_ok r 33"
  by (simp add: level_ok_def in_i32_def)

lemma add_holds:
  assumes "tickets_inv r m" and "level_ok r l" and "dm_generation m + 1 < 2 ^ 64"
  obtains m' where "add_ticket m ty p l key = Some m'" and "ticket_step r m m'"
    and "\<And>q i. holds m' q i \<longleftrightarrow> holds m q i \<or> q = p \<and> i = (ty, l, key)"
proof -
  obtain m' where m': "add_ticket m ty p l key = Some m'" "ticket_step r m m'"
    "dm_tickets m' = fmupd p (fmupd (ty, l, key) (dm_tick m) (tickets_at m p)) (dm_tickets m)"
    using add_ticket_step [OF assms] by blast
  have "tickets_at m' q = (if q = p then fmupd (ty, l, key) (dm_tick m) (tickets_at m p) else tickets_at m q)" for q
    by (simp add: tickets_at_def m'(3))
  then have "holds m' q i \<longleftrightarrow> holds m q i \<or> q = p \<and> i = (ty, l, key)" for q i by (auto simp: holds_def)
  with m' that show ?thesis by blast
qed

lemma remove_holds:
  assumes "tickets_inv r m" and "dm_generation m + 1 < 2 ^ 64"
  shows "holds (remove_ticket m ty p l key) q i \<longleftrightarrow> holds m q i \<and> \<not> (q = p \<and> i = (ty, l, key))"
  unfolding holds_def remove_ticket_step(2) [OF assms] by auto

section \<open>Priorities and the refill\<close>

lemma displacement_total:
  "topology_wf t \<Longrightarrow> \<exists>dx dz. topology_shortest_chunk_displacement t p q = Some (dx, dz)"
  using shortest_chunk_displacement_spec [of "ht_x t" "cp_x p" "cp_x q"]
    shortest_chunk_displacement_spec [of "ht_z t" "cp_z p" "cp_z q"]
  by (auto simp: topology_wf_def topology_shortest_chunk_displacement_def)

lemma center_distances_total: "topology_wf t \<Longrightarrow> \<exists>ds. center_distances t cs p = Some ds"
proof (induction cs)
  case (Cons c cs)
  then show ?case using displacement_total [of t c p] by auto
qed simp

lemma priority_key_total: "topology_wf (dm_topology m) \<Longrightarrow> \<exists>k. player_promotion_priority_key m p = Some k"
proof -
  assume "topology_wf (dm_topology m)"
  then obtain ds where "center_distances (dm_topology m) (dm_centers m) p = Some ds"
    using center_distances_total by blast
  then show ?thesis
    by (simp add: player_promotion_priority_key_def split_beta Let_def del: bind_eq_Some)
qed

lemma with_keys_spec:
  "topology_wf (dm_topology m) \<Longrightarrow> with_keys m ps = Some (map (\<lambda>p. (the (player_promotion_priority_key m p), p)) ps)"
proof (induction ps)
  case (Cons p ps)
  then show ?case using priority_key_total [of m p] by auto
qed simp

lemma admit_promotions_spec:
  assumes "13 \<le> r" and "r < 2 ^ 31"
  shows "tickets_inv r m \<Longrightarrow> dm_generation m + length ps < 2 ^ 64 \<Longrightarrow>
    \<exists>m'. admit_promotions m ps = Some m' \<and> tickets_inv r m' \<and> settings m' = settings m
     \<and> dm_player_positions m' = dm_player_positions m |\<union>| fset_of_list ps
     \<and> dm_active_promotions m' = dm_active_promotions m |\<union>| fset_of_list ps
     \<and> dm_first_desired m' = dm_first_desired m
     \<and> dm_generation m \<le> dm_generation m' \<and> dm_generation m' \<le> dm_generation m + length ps
     \<and> (\<forall>q i. holds m' q i \<longleftrightarrow> holds m q i \<or> q \<in> set ps \<and> i = player_ticket q)"
proof (induction ps arbitrary: m)
  case Nil
  then show ?case by simp
next
  case (Cons p ps)
  let ?m = "m\<lparr>dm_player_positions := finsert p (dm_player_positions m),
         dm_active_promotions := finsert p (dm_active_promotions m),
         dm_admitted_total := sat_add_u64 (dm_admitted_total m) 1\<rparr>"
  have m: "?m = m\<lparr>dm_resident := dm_resident m, dm_simulation := dm_simulation m,
      dm_player_positions := finsert p (dm_player_positions m), dm_active_promotions := finsert p (dm_active_promotions m),
      dm_first_desired := dm_first_desired m, dm_admitted_total := sat_add_u64 (dm_admitted_total m) 1,
      dm_cancelled := dm_cancelled m, dm_centers := dm_centers m\<rparr>" by simp
  note fr = tickets_inv_frame [OF m]
  have "tickets_inv r ?m" "dm_generation ?m + 1 < 2 ^ 64" using Cons.prems by (simp_all only: fr) simp
  then obtain m1 where m1: "add_ticket ?m Player p 31 (KeyChunk p) = Some m1" "ticket_step r ?m m1"
    "\<And>q i. holds m1 q i \<longleftrightarrow> holds ?m q i \<or> q = p \<and> i = player_ticket p"
    using level_ok_players [OF assms] by (elim add_holds) blast+
  note st = ticket_stepD [OF m1(2)]
  have "dm_generation m1 + length ps < 2 ^ 64" using st(5) Cons.prems(2) by simp
  then obtain m' where m': "admit_promotions m1 ps = Some m'" "tickets_inv r m'" "settings m' = settings m1"
    "dm_player_positions m' = dm_player_positions m1 |\<union>| fset_of_list ps"
    "dm_active_promotions m' = dm_active_promotions m1 |\<union>| fset_of_list ps"
    "dm_first_desired m' = dm_first_desired m1" "dm_generation m1 \<le> dm_generation m'"
    "dm_generation m' \<le> dm_generation m1 + length ps"
    "\<And>q i. holds m' q i \<longleftrightarrow> holds m1 q i \<or> q \<in> set ps \<and> i = player_ticket q"
    using Cons.IH [OF st(1)] by (auto simp del: split_paired_All)
  have "admit_promotions m (p # ps) = Some m'" using m1(1) m'(1) by simp
  moreover have "holds m' q i \<longleftrightarrow> holds m q i \<or> q \<in> set (p # ps) \<and> i = player_ticket q" for q i
    unfolding m'(9) m1(3) fr(2) by auto
  ultimately show ?case using m' st by (auto simp: queues_def settings_def simp del: split_paired_All)
qed

lemma priority_key_cong:
  assumes "settings m' = settings m" and "dm_first_desired m' = dm_first_desired m"
  shows "player_promotion_priority_key m' p = player_promotion_priority_key m p"
  using assms by (simp add: player_promotion_priority_key_def settings_def cong: option.case_cong)

text \<open>The refill fills the free slots with the candidates of the least keys.\<close>

definition chosen :: "distance_manager \<Rightarrow> chunk_pos list" where
  "chosen m = take (dm_max_active m - fcard (dm_active_promotions m))
     (sort_key (\<lambda>p. the (player_promotion_priority_key m p))
        (sorted_list_of_fset (dm_simulation m |-| dm_player_positions m)))"

lemma map_snd_sort_key:
  "map snd (sort_key fst (map (\<lambda>p. (f p, p)) ps)) = sort_key f ps"
proof -
  have "insort_key fst (f p, p) (map (\<lambda>p. (f p, p)) qs) = map (\<lambda>p. (f p, p)) (insort_key f p qs)" for p qs
    by (induction qs) simp_all
  then have "sort_key fst (map (\<lambda>p. (f p, p)) ps) = map (\<lambda>p. (f p, p)) (sort_key f ps)"
    by (induction ps) (simp_all add: sort_key_def)
  then show ?thesis by (simp add: comp_def)
qed

lemma chosen_spec:
  shows "distinct (chosen m)" and "set (chosen m) \<subseteq> fset (dm_simulation m |-| dm_player_positions m)"
    and "length (chosen m) = min (dm_max_active m - fcard (dm_active_promotions m))
           (fcard (dm_simulation m |-| dm_player_positions m))"
    and "\<And>p q. p \<in> set (chosen m) \<Longrightarrow> q |\<in>| dm_simulation m |-| dm_player_positions m \<Longrightarrow> q \<notin> set (chosen m)
           \<Longrightarrow> the (player_promotion_priority_key m p) \<le> the (player_promotion_priority_key m q)"
proof -
  let ?c = "dm_simulation m |-| dm_player_positions m" let ?k = "\<lambda>p. the (player_promotion_priority_key m p)"
  let ?n = "dm_max_active m - fcard (dm_active_promotions m)"
  let ?s = "sort_key ?k (sorted_list_of_fset ?c)"
  have s: "distinct ?s" "set ?s = fset ?c" "length ?s = fcard ?c"
    by (simp_all add: sorted_list_of_fset.rep_eq fcard.rep_eq)
  show "distinct (chosen m)" "set (chosen m) \<subseteq> fset ?c"
    using s set_take_subset [of ?n ?s] by (auto simp: chosen_def)
  show "length (chosen m) = min ?n (fcard ?c)" using s(3) by (simp add: chosen_def min.commute)
  fix p q assume p: "p \<in> set (chosen m)" and q: "q |\<in>| ?c" "q \<notin> set (chosen m)"
  have "sorted (map ?k (take ?n ?s @ drop ?n ?s))" by simp
  then have le: "?k a \<le> ?k b" if "a \<in> set (take ?n ?s)" "b \<in> set (drop ?n ?s)" for a b
    using that by (simp only: map_append sorted_append) auto
  have "q \<in> set (take ?n ?s) \<union> set (drop ?n ?s)"
    using q(1) s(2) by (metis append_take_drop_id set_append)
  then show "?k p \<le> ?k q" using le p q(2) by (auto simp: chosen_def)
qed

lemma refill_run:
  assumes "topology_wf (dm_topology m)"
  shows "refill_player_promotions m = admit_promotions m (chosen m)"
  by (simp add: refill_player_promotions_def with_keys_spec [OF assms] map_snd_sort_key chosen_def Let_def)

lemma refill_spec:
  assumes r: "13 \<le> r" "r < 2 ^ 31" and inv: "tickets_inv r m" and pre: "promotions_pre m"
    and g: "dm_generation m + dm_max_active m < 2 ^ 64"
  shows "\<exists>m'. refill_player_promotions m = Some m' \<and> tickets_inv r m' \<and> promotions_ok m' \<and> settings m' = settings m
     \<and> dm_player_positions m' = dm_player_positions m |\<union>| fset_of_list (chosen m)
     \<and> dm_first_desired m' = dm_first_desired m
     \<and> dm_generation m \<le> dm_generation m' \<and> dm_generation m' \<le> dm_generation m + dm_max_active m
     \<and> (\<forall>q i. holds m' q i \<longleftrightarrow> holds m q i \<or> q \<in> set (chosen m) \<and> i = player_ticket q)"
proof -
  have wf: "topology_wf (dm_topology m)" using inv by (simp add: tickets_inv_def levels_ok_def)
  note ch = chosen_spec [where m = m] and p = pre [unfolded promotions_pre_def]
  have len: "length (chosen m) \<le> dm_max_active m" using ch(3) by simp
  obtain m' where m': "admit_promotions m (chosen m) = Some m'" "tickets_inv r m'" "settings m' = settings m"
    "dm_player_positions m' = dm_player_positions m |\<union>| fset_of_list (chosen m)"
    "dm_active_promotions m' = dm_active_promotions m |\<union>| fset_of_list (chosen m)"
    "dm_first_desired m' = dm_first_desired m"
    "dm_generation m \<le> dm_generation m'" "dm_generation m' \<le> dm_generation m + length (chosen m)"
    "\<And>q i. holds m' q i \<longleftrightarrow> holds m q i \<or> q \<in> set (chosen m) \<and> i = player_ticket q"
    using admit_promotions_spec [OF r inv, of "chosen m"] g len by (auto simp del: split_paired_All)
  have run: "refill_player_promotions m = Some m'" using refill_run [OF wf] m'(1) by simp
  have disj: "set (chosen m) \<inter> fset (dm_active_promotions m) = {}"
    using ch(2) p by (auto simp: less_eq_fset.rep_eq)
  have "fcard (dm_active_promotions m') = fcard (dm_active_promotions m) + length (chosen m)"
    unfolding m'(5) fcard.rep_eq union_fset fset_of_list.rep_eq
    using disj ch(1) by (subst card_Un_disjoint) (auto simp: distinct_card)
  moreover have "dm_player_positions m' = dm_simulation m'"
    if "length (chosen m) = fcard (dm_simulation m |-| dm_player_positions m)"
  proof -
    have "set (chosen m) = fset (dm_simulation m |-| dm_player_positions m)"
      by (rule card_subset_eq [OF finite_fset ch(2)]) (use that ch(1) in \<open>simp add: fcard.rep_eq distinct_card\<close>)
    then have "fset_of_list (chosen m) = dm_simulation m |-| dm_player_positions m"
      by (metis fset_inverse fset_of_list.rep_eq)
    then have "dm_player_positions m' = dm_player_positions m |\<union>| (dm_simulation m |-| dm_player_positions m)"
      using m'(4) by simp
    then show ?thesis using p m'(3) by (auto simp: settings_def)
  qed
  ultimately have full: "fcard (dm_active_promotions m') = dm_max_active m' \<or> dm_player_positions m' = dm_simulation m'"
    and small: "fcard (dm_active_promotions m') \<le> dm_max_active m'"
    using ch(3) p m'(3) by (auto simp: settings_def min_def split: if_splits)
  have sub: "dm_active_promotions m' |\<subseteq>| dm_player_positions m'" "dm_player_positions m' |\<subseteq>| dm_simulation m'"
    using p m'(3-5) ch(2) by (auto simp: settings_def fset_of_list_elem)
  have hp: "holds m' q (player_ticket q) \<longleftrightarrow> q |\<in>| dm_player_positions m'"
    and ho: "holds m' q (observer_ticket q) \<longleftrightarrow> q |\<in>| dm_resident m' |-| dm_simulation m'" for q
    using p m'(3,4,9) by (auto simp: settings_def fset_of_list_elem)
  have "fmdom (dm_first_desired m') = dm_simulation m'" using p m'(3,6) by (simp add: settings_def)
  then have "promotions_ok m'" using full small sub hp ho unfolding promotions_ok_def promotions_pre_def by blast
  with run m' len show ?thesis by (intro exI [of _ m']) (simp del: split_paired_All)
qed

section \<open>The loops over the interest sets\<close>

text \<open>What a loop that drops one ticket at each of the listed chunks leaves behind.\<close>

lemma depart_spec:
  assumes inv: "tickets_inv r m" and g: "dm_generation m + 1 < 2 ^ 64"
  shows "tickets_inv r (depart p m) \<and> settings (depart p m) = settings m
     \<and> queues (depart p m) = (dm_player_positions m |-| {|p|}, dm_active_promotions m |-| {|p|}, fmdrop p (dm_first_desired m))
     \<and> dm_generation m \<le> dm_generation (depart p m) \<and> dm_generation (depart p m) \<le> dm_generation m + 1
     \<and> (\<forall>q i. holds (depart p m) q i \<longleftrightarrow> holds m q i \<and> \<not> (q = p \<and> p |\<in>| dm_player_positions m \<and> i = player_ticket p))"
proof -
  define cancelled where "cancelled = (if p |\<notin>| dm_player_positions m then sat_add_u64 (dm_cancelled m) 1 else dm_cancelled m)"
  define base where "base = m\<lparr>dm_resident := dm_resident m, dm_simulation := dm_simulation m,
      dm_player_positions := dm_player_positions m |-| {|p|}, dm_active_promotions := dm_active_promotions m |-| {|p|},
      dm_first_desired := fmdrop p (dm_first_desired m), dm_admitted_total := dm_admitted_total m,
      dm_cancelled := cancelled, dm_centers := dm_centers m\<rparr>"
  note fr = tickets_inv_frame [OF base_def]
  have inv': "tickets_inv r base" "dm_generation base + 1 < 2 ^ 64" using inv g by (simp_all only: fr)
  note base = this fr(2,3) and st = ticket_stepD [OF remove_ticket_step(1) [OF inv'], of Player p 31 "KeyChunk p"]
  have run: "depart p m = (if p |\<notin>| dm_player_positions m then base else remove_ticket base Player p 31 (KeyChunk p))"
  proof (cases "p |\<in>| dm_player_positions m")
    case True
    have "m\<lparr>dm_active_promotions := dm_active_promotions m |-| {|p|}, dm_first_desired := fmdrop p (dm_first_desired m),
        dm_player_positions := dm_player_positions m |-| {|p|}\<rparr> = base"
      using True by (cases m) (simp add: base_def cancelled_def)
    with True show ?thesis by (simp add: depart_def Let_def)
  next
    case False
    then have "dm_player_positions m |-| {|p|} = dm_player_positions m" by auto
    with False show ?thesis by (cases m) (simp add: depart_def base_def cancelled_def Let_def)
  qed
  have q: "queues base = (dm_player_positions m |-| {|p|}, dm_active_promotions m |-| {|p|}, fmdrop p (dm_first_desired m))"
    "settings base = settings m" by (simp_all add: queues_def settings_def base_def)
  show ?thesis
  proof (cases "p |\<in>| dm_player_positions m")
    case True
    then have "depart p m = remove_ticket base Player p 31 (KeyChunk p)" using run by simp
    then show ?thesis using st q base True remove_holds [OF inv'] by (simp del: split_paired_All)
  next
    case False
    then have "depart p m = base" using run by simp
    then show ?thesis using q base False by simp
  qed
qed

lemma depart_fold_spec:
  "tickets_inv r m \<Longrightarrow> dm_generation m + length ps < 2 ^ 64 \<Longrightarrow> m' = fold depart ps m \<Longrightarrow>
    tickets_inv r m' \<and> settings m' = settings m
     \<and> dm_player_positions m' = dm_player_positions m |-| fset_of_list ps
     \<and> dm_active_promotions m' = dm_active_promotions m |-| fset_of_list ps
     \<and> fmdom (dm_first_desired m') = fmdom (dm_first_desired m) |-| fset_of_list ps
     \<and> dm_generation m \<le> dm_generation m' \<and> dm_generation m' \<le> dm_generation m + length ps
     \<and> (\<forall>q i. holds m' q i \<longleftrightarrow> holds m q i
          \<and> \<not> (q \<in> set ps \<and> q |\<in>| dm_player_positions m \<and> i = player_ticket q))"
proof (induction ps arbitrary: m)
  case Nil
  then show ?case by simp
next
  case (Cons p ps)
  have "dm_generation m + 1 < 2 ^ 64" using Cons.prems(2) by simp
  note one = depart_spec [OF Cons.prems(1) this, of p]
  then have "dm_generation (depart p m) + length ps < 2 ^ 64" using Cons.prems(2) by simp
  then have rest: "tickets_inv r m' \<and> settings m' = settings (depart p m)
     \<and> dm_player_positions m' = dm_player_positions (depart p m) |-| fset_of_list ps
     \<and> dm_active_promotions m' = dm_active_promotions (depart p m) |-| fset_of_list ps
     \<and> fmdom (dm_first_desired m') = fmdom (dm_first_desired (depart p m)) |-| fset_of_list ps
     \<and> dm_generation (depart p m) \<le> dm_generation m' \<and> dm_generation m' \<le> dm_generation (depart p m) + length ps
     \<and> (\<forall>q i. holds m' q i \<longleftrightarrow> holds (depart p m) q i
          \<and> \<not> (q \<in> set ps \<and> q |\<in>| dm_player_positions (depart p m) \<and> i = player_ticket q))"
    using Cons.IH [of "depart p m"] Cons.prems(3) one by simp
  have q: "dm_player_positions (depart p m) = dm_player_positions m |-| {|p|}"
    "dm_active_promotions (depart p m) = dm_active_promotions m |-| {|p|}"
    "fmdom (dm_first_desired (depart p m)) = fmdom (dm_first_desired m) |-| {|p|}"
    using one by (simp_all add: queues_def)
  have "holds m' s i \<longleftrightarrow> holds m s i
      \<and> \<not> (s \<in> set (p # ps) \<and> s |\<in>| dm_player_positions m \<and> i = player_ticket s)" for s i
    using one rest q(1) by (auto simp del: split_paired_All)
  then show ?case using rest one q by (auto simp del: split_paired_All)
qed

lemma observer_removal_spec:
  "tickets_inv r m \<Longrightarrow> dm_generation m + length ps < 2 ^ 64
    \<Longrightarrow> m' = fold (\<lambda>pos m. remove_ticket m Observer pos 33 (KeyChunk pos)) ps m \<Longrightarrow>
    tickets_inv r m' \<and> settings m' = settings m \<and> queues m' = queues m
     \<and> dm_generation m \<le> dm_generation m' \<and> dm_generation m' \<le> dm_generation m + length ps
     \<and> (\<forall>q i. holds m' q i \<longleftrightarrow> holds m q i \<and> \<not> (q \<in> set ps \<and> i = observer_ticket q))"
proof (induction ps arbitrary: m)
  case Nil
  then show ?case by simp
next
  case (Cons p ps)
  let ?m = "remove_ticket m Observer p 33 (KeyChunk p)"
  have g: "dm_generation m + 1 < 2 ^ 64" using Cons.prems(2) by simp
  note st = ticket_stepD [OF remove_ticket_step(1) [OF Cons.prems(1) g], of Observer p 33 "KeyChunk p"]
  have "dm_generation ?m + length ps < 2 ^ 64" using st(5) Cons.prems(2) by simp
  then have rest: "tickets_inv r m' \<and> settings m' = settings ?m \<and> queues m' = queues ?m
     \<and> dm_generation ?m \<le> dm_generation m' \<and> dm_generation m' \<le> dm_generation ?m + length ps
     \<and> (\<forall>q i. holds m' q i \<longleftrightarrow> holds ?m q i \<and> \<not> (q \<in> set ps \<and> i = observer_ticket q))"
    using Cons.IH [OF st(1)] Cons.prems(3) by simp
  have "holds m' q i \<longleftrightarrow> holds m q i \<and> \<not> (q \<in> set (p # ps) \<and> i = observer_ticket q)" for q i
    using rest remove_holds [OF Cons.prems(1) g, of Observer p 33 "KeyChunk p"] by (auto simp del: split_paired_All)
  then show ?case using rest st by (auto simp del: split_paired_All)
qed

lemma add_observers_spec:
  assumes l: "level_ok r 33"
  shows "tickets_inv r m \<Longrightarrow> dm_generation m + length ps < 2 ^ 64 \<Longrightarrow>
    \<exists>m'. add_observers m ps = Some m' \<and> tickets_inv r m' \<and> settings m' = settings m \<and> queues m' = queues m
     \<and> dm_generation m \<le> dm_generation m' \<and> dm_generation m' \<le> dm_generation m + length ps
     \<and> (\<forall>q i. holds m' q i \<longleftrightarrow> holds m q i \<or> q \<in> set ps \<and> i = observer_ticket q)"
proof (induction ps arbitrary: m)
  case Nil
  then show ?case by simp
next
  case (Cons p ps)
  have g: "dm_generation m + 1 < 2 ^ 64" using Cons.prems(2) by simp
  obtain m1 where m1: "add_ticket m Observer p 33 (KeyChunk p) = Some m1" "ticket_step r m m1"
    "\<And>q i. holds m1 q i \<longleftrightarrow> holds m q i \<or> q = p \<and> i = observer_ticket p"
    using add_holds [OF Cons.prems(1) l g] by blast
  note st = ticket_stepD [OF m1(2)]
  have "dm_generation m1 + length ps < 2 ^ 64" using st(5) Cons.prems(2) by simp
  then obtain m' where m': "add_observers m1 ps = Some m'" "tickets_inv r m'" "settings m' = settings m1"
    "queues m' = queues m1" "dm_generation m1 \<le> dm_generation m'"
    "dm_generation m' \<le> dm_generation m1 + length ps"
    "\<And>q i. holds m' q i \<longleftrightarrow> holds m1 q i \<or> q \<in> set ps \<and> i = observer_ticket q"
    using Cons.IH [OF st(1)] by (auto simp del: split_paired_All)
  have "add_observers m (p # ps) = Some m'" using m1(1) m'(1) by simp
  moreover have "holds m' q i \<longleftrightarrow> holds m q i \<or> q \<in> set (p # ps) \<and> i = observer_ticket q" for q i
    unfolding m'(7) m1(3) by auto
  ultimately show ?case using m' st by (auto simp del: split_paired_All)
qed

lemma first_desired_fold:
  "m' = fold (\<lambda>pos m. m\<lparr>dm_first_desired := fmupd pos (dm_tick m) (dm_first_desired m)\<rparr>) ps m \<Longrightarrow>
    \<exists>fd. m' = m\<lparr>dm_first_desired := fd\<rparr> \<and> fmdom fd = fmdom (dm_first_desired m) |\<union>| fset_of_list ps"
proof (induction ps arbitrary: m)
  case Nil
  then show ?case by (intro exI [of _ "dm_first_desired m"]) simp
next
  case (Cons p ps)
  let ?m = "m\<lparr>dm_first_desired := fmupd p (dm_tick m) (dm_first_desired m)\<rparr>"
  obtain fd where "m' = ?m\<lparr>dm_first_desired := fd\<rparr>" "fmdom fd = fmdom (dm_first_desired ?m) |\<union>| fset_of_list ps"
    using Cons.IH [of ?m] Cons.prems by auto
  then show ?case by (intro exI [of _ fd]) auto
qed

text \<open>How many tickets a change of interest moves at most; each step may open a new generation.\<close>

definition interest_cost :: "distance_manager \<Rightarrow> chunk_pos fset \<Rightarrow> nat" where
  "interest_cost m new_resident =
     fcard (dm_simulation m) + fcard (dm_resident m) + fcard new_resident + dm_max_active m + 1"

lemma fcard_minus_le: "length (sorted_list_of_fset (a |-| b)) \<le> fcard a"
  by (simp add: sorted_list_of_fset.rep_eq fcard.rep_eq card_mono)

section \<open>A change of interest\<close>

text \<open>The loops that take tickets away, on the state whose interest sets are taken out.\<close>

definition after_departures ::
  "distance_manager \<Rightarrow> chunk_pos fset \<Rightarrow> chunk_pos fset \<Rightarrow> distance_manager" where
  "after_departures m new_resident new_simulation =
     fold (\<lambda>pos m. remove_ticket m Observer pos chunk_level_full (KeyChunk pos))
       (sorted_list_of_fset ((dm_resident m |-| dm_simulation m) |-| (new_resident |-| new_simulation)))
       (fold depart (sorted_list_of_fset (dm_simulation m |-| new_simulation))
          (m\<lparr>dm_resident := {||}, dm_simulation := {||}\<rparr>))"

definition arrivals ::
  "chunk_pos fset \<Rightarrow> chunk_pos fset \<Rightarrow> distance_manager \<Rightarrow> distance_manager option" where
  "arrivals first_simulated first_observed m =
     add_observers (fold (\<lambda>pos m. m\<lparr>dm_first_desired := fmupd pos (dm_tick m) (dm_first_desired m)\<rparr>)
       (sorted_list_of_fset first_simulated) m) (sorted_list_of_fset first_observed)"

text \<open>The state before the refill: the promotions of the kept chunks, and no player ticket for the new ones yet.\<close>

definition before_refill ::
  "distance_manager \<Rightarrow> chunk_pos fset \<Rightarrow> chunk_pos fset \<Rightarrow> chunk_pos list \<Rightarrow> distance_manager option" where
  "before_refill m new_resident new_simulation centers = do {
     m4 \<leftarrow> arrivals (new_simulation |-| dm_simulation m)
       ((new_resident |-| new_simulation) |-| (dm_resident m |-| dm_simulation m))
       (after_departures m new_resident new_simulation);
     let m5 = m4\<lparr>dm_resident := new_resident, dm_simulation := new_simulation,
       dm_centers := sorted_list_of_fset (fset_of_list centers)\<rparr>;
     Some (if dm_centers m \<noteq> sorted_list_of_fset (fset_of_list centers) then mark_tickets_changed m5 else m5)
   }"

lemma aggregate_run:
  "set_aggregate_interest_positions_with_priority m new_resident new_simulation centers =
     before_refill m new_resident new_simulation centers \<bind> refill_player_promotions"
  by (simp add: set_aggregate_interest_positions_with_priority_def before_refill_def arrivals_def
      after_departures_def Let_def del: bind_eq_Some)

lemma after_departures_spec:
  assumes inv: "tickets_inv r m" and g: "dm_generation m + fcard (dm_simulation m) + fcard (dm_resident m) < 2 ^ 64"
    and m': "m' = after_departures m new_resident new_simulation"
  shows "tickets_inv r m' \<and> settings m' = (dm_topology m, {||}, {||}, dm_max_active m, dm_tick m, dm_centers m)
     \<and> dm_player_positions m' = dm_player_positions m |-| (dm_simulation m |-| new_simulation)
     \<and> dm_active_promotions m' = dm_active_promotions m |-| (dm_simulation m |-| new_simulation)
     \<and> fmdom (dm_first_desired m') = fmdom (dm_first_desired m) |-| (dm_simulation m |-| new_simulation)
     \<and> dm_generation m \<le> dm_generation m'
     \<and> dm_generation m' \<le> dm_generation m + fcard (dm_simulation m) + fcard (dm_resident m)
     \<and> (\<forall>q i. holds m' q i \<longleftrightarrow> holds m q i
          \<and> \<not> (q |\<in>| dm_simulation m |-| new_simulation \<and> q |\<in>| dm_player_positions m \<and> i = player_ticket q)
          \<and> \<not> (q |\<in>| (dm_resident m |-| dm_simulation m) |-| (new_resident |-| new_simulation) \<and> i = observer_ticket q))"
proof -
  let ?gone = "sorted_list_of_fset (dm_simulation m |-| new_simulation)"
  let ?obs = "sorted_list_of_fset ((dm_resident m |-| dm_simulation m) |-| (new_resident |-| new_simulation))"
  have len: "length ?gone \<le> fcard (dm_simulation m)" by (rule fcard_minus_le)
  have "dm_resident m |-| dm_simulation m |\<subseteq>| dm_resident m" by auto
  then have len2: "length ?obs \<le> fcard (dm_resident m)" using fcard_minus_le fcard_mono order.trans by metis
  define m0 where "m0 = m\<lparr>dm_resident := {||}, dm_simulation := {||}, dm_player_positions := dm_player_positions m,
      dm_active_promotions := dm_active_promotions m, dm_first_desired := dm_first_desired m,
      dm_admitted_total := dm_admitted_total m, dm_cancelled := dm_cancelled m, dm_centers := dm_centers m\<rparr>"
  have m0': "m\<lparr>dm_resident := {||}, dm_simulation := {||}\<rparr> = m0" by (simp add: m0_def)
  note f0 = tickets_inv_frame [OF m0_def]
  have q0: "queues m0 = queues m" "settings m0 = (dm_topology m, {||}, {||}, dm_max_active m, dm_tick m, dm_centers m)"
    by (simp_all add: m0_def queues_def settings_def)
  define m1 where "m1 = fold depart ?gone m0"
  have "tickets_inv r m0" "dm_generation m0 + length ?gone < 2 ^ 64" using inv g len by (simp_all add: f0)
  note s1 = depart_fold_spec [OF this m1_def]
  have "tickets_inv r m1" "dm_generation m1 + length ?obs < 2 ^ 64" using g len len2 s1 by (simp_all add: f0)
  moreover have "m' = fold (\<lambda>pos m. remove_ticket m Observer pos 33 (KeyChunk pos)) ?obs m1"
    by (simp add: m' after_departures_def m0' m1_def)
  ultimately have s2: "tickets_inv r m' \<and> settings m' = settings m1 \<and> queues m' = queues m1
     \<and> dm_generation m1 \<le> dm_generation m' \<and> dm_generation m' \<le> dm_generation m1 + length ?obs
     \<and> (\<forall>q i. holds m' q i \<longleftrightarrow> holds m1 q i \<and> \<not> (q \<in> set ?obs \<and> i = observer_ticket q))"
    by (rule observer_removal_spec)
  have "holds m' q i \<longleftrightarrow> holds m q i
          \<and> \<not> (q |\<in>| dm_simulation m |-| new_simulation \<and> q |\<in>| dm_player_positions m \<and> i = player_ticket q)
          \<and> \<not> (q |\<in>| (dm_resident m |-| dm_simulation m) |-| (new_resident |-| new_simulation) \<and> i = observer_ticket q)" for q i
    using s1 s2 q0(1) by (simp add: f0 queues_def del: split_paired_All)
  then show ?thesis using s1 s2 q0 len len2 by (simp add: f0 queues_def del: split_paired_All)
qed

lemma arrivals_spec:
  assumes l: "level_ok r 33" and inv: "tickets_inv r m" and g: "dm_generation m + fcard b < 2 ^ 64"
  shows "\<exists>m'. arrivals a b m = Some m' \<and> tickets_inv r m' \<and> settings m' = settings m
     \<and> dm_player_positions m' = dm_player_positions m \<and> dm_active_promotions m' = dm_active_promotions m
     \<and> fmdom (dm_first_desired m') = fmdom (dm_first_desired m) |\<union>| a
     \<and> dm_generation m \<le> dm_generation m' \<and> dm_generation m' \<le> dm_generation m + fcard b
     \<and> (\<forall>q i. holds m' q i \<longleftrightarrow> holds m q i \<or> q |\<in>| b \<and> i = observer_ticket q)"
proof -
  define m3 where "m3 = fold (\<lambda>pos m. m\<lparr>dm_first_desired := fmupd pos (dm_tick m) (dm_first_desired m)\<rparr>)
       (sorted_list_of_fset a) m"
  obtain fd where m3: "m3 = m\<lparr>dm_resident := dm_resident m, dm_simulation := dm_simulation m,
      dm_player_positions := dm_player_positions m, dm_active_promotions := dm_active_promotions m,
      dm_first_desired := fd, dm_admitted_total := dm_admitted_total m, dm_cancelled := dm_cancelled m,
      dm_centers := dm_centers m\<rparr>"
    and fd: "fmdom fd = fmdom (dm_first_desired m) |\<union>| a"
    using first_desired_fold [OF m3_def] by auto
  note f3 = tickets_inv_frame [OF m3]
  have len: "length (sorted_list_of_fset b) = fcard b" by (simp add: sorted_list_of_fset.rep_eq fcard.rep_eq)
  have "tickets_inv r m3" "dm_generation m3 + length (sorted_list_of_fset b) < 2 ^ 64"
    using inv g by (simp_all only: f3 len)
  then obtain m' where m': "add_observers m3 (sorted_list_of_fset b) = Some m'" "tickets_inv r m'"
    "settings m' = settings m3" "queues m' = queues m3" "dm_generation m3 \<le> dm_generation m'"
    "dm_generation m' \<le> dm_generation m3 + fcard b"
    "\<And>q i. holds m' q i \<longleftrightarrow> holds m3 q i \<or> q \<in> set (sorted_list_of_fset b) \<and> i = observer_ticket q"
    using add_observers_spec [OF l, of m3 "sorted_list_of_fset b"] unfolding len by blast
  moreover have "arrivals a b m = Some m'" using m'(1) by (simp add: arrivals_def m3_def)
  moreover have "settings m3 = settings m" "queues m3 = (dm_player_positions m, dm_active_promotions m, fd)"
    by (simp_all add: m3 settings_def queues_def)
  ultimately show ?thesis using fd by (intro exI [of _ m']) (simp add: f3 queues_def del: split_paired_All)
qed

lemma before_refill_spec:
  assumes r: "13 \<le> r" "r < 2 ^ 31" and inv: "tickets_inv r m" and pre: "promotions_pre m"
    and g: "dm_generation m + interest_cost m new_resident < 2 ^ 64"
  shows "\<exists>m'. before_refill m new_resident new_simulation centers = Some m' \<and> tickets_inv r m' \<and> promotions_pre m'
     \<and> settings m' = (dm_topology m, new_resident, new_simulation, dm_max_active m, dm_tick m,
          sorted_list_of_fset (fset_of_list centers))
     \<and> dm_player_positions m' = dm_player_positions m |\<inter>| new_simulation
     \<and> dm_generation m \<le> dm_generation m' \<and> dm_generation m' + dm_max_active m \<le> dm_generation m + interest_cost m new_resident
     \<and> (\<forall>q i. fst i \<notin> {Player, Observer} \<longrightarrow> holds m' q i = holds m q i)"
proof -
  let ?old = "dm_resident m |-| dm_simulation m" let ?new = "new_resident |-| new_simulation"
  let ?c = "sorted_list_of_fset (fset_of_list centers)"
  note p = pre [unfolded promotions_pre_def]
  define m2 where "m2 = after_departures m new_resident new_simulation"
  have "dm_generation m + fcard (dm_simulation m) + fcard (dm_resident m) < 2 ^ 64"
    using g by (simp add: interest_cost_def)
  note s2 = after_departures_spec [OF inv this m2_def]
  have new: "fcard (?new |-| ?old) \<le> fcard new_resident" by (rule fcard_mono) auto
  then have "dm_generation m2 + fcard (?new |-| ?old) < 2 ^ 64" using s2 g by (simp add: interest_cost_def)
  then obtain m4 where m4: "arrivals (new_simulation |-| dm_simulation m) (?new |-| ?old) m2 = Some m4"
    "tickets_inv r m4" "settings m4 = settings m2" "dm_player_positions m4 = dm_player_positions m2"
    "dm_active_promotions m4 = dm_active_promotions m2"
    "fmdom (dm_first_desired m4) = fmdom (dm_first_desired m2) |\<union>| (new_simulation |-| dm_simulation m)"
    "dm_generation m2 \<le> dm_generation m4" "dm_generation m4 \<le> dm_generation m2 + fcard (?new |-| ?old)"
    "\<And>q i. holds m4 q i \<longleftrightarrow> holds m2 q i \<or> q |\<in>| ?new |-| ?old \<and> i = observer_ticket q"
    using arrivals_spec [OF conjunct2 [OF level_ok_players [OF r]] conjunct1 [OF s2]] by meson
  define m5 where "m5 = m4\<lparr>dm_resident := new_resident, dm_simulation := new_simulation,
      dm_player_positions := dm_player_positions m4, dm_active_promotions := dm_active_promotions m4,
      dm_first_desired := dm_first_desired m4, dm_admitted_total := dm_admitted_total m4,
      dm_cancelled := dm_cancelled m4, dm_centers := ?c\<rparr>"
  note f5 = tickets_inv_frame [OF m5_def]
  define m6 where "m6 = (if dm_centers m \<noteq> ?c then mark_tickets_changed m5 else m5)"
  have "m5 = m4\<lparr>dm_resident := new_resident, dm_simulation := new_simulation, dm_centers := ?c\<rparr>" by (simp add: m5_def)
  then have run: "before_refill m new_resident new_simulation centers = Some m6"
    using m4(1) by (simp add: before_refill_def m2_def [symmetric] m6_def Let_def)
  have gen: "dm_generation m \<le> dm_generation m5"
    "dm_generation m5 + 1 + dm_max_active m \<le> dm_generation m + interest_cost m new_resident"
    using s2 m4(7,8) new by (simp_all add: f5 interest_cost_def)
  have i5: "tickets_inv r m5" using m4(2) by (simp add: f5)
  have room: "dm_generation m5 + 1 < 2 ^ 64" using gen(2) g by simp
  have m6: "tickets_inv r m6" "holds m6 = holds m5" "settings m6 = settings m5" "queues m6 = queues m5"
    "dm_generation m5 \<le> dm_generation m6" "dm_generation m6 \<le> dm_generation m5 + 1"
    using i5 mark_tickets_inv [of r m5] room next_u64_small [OF room]
    by (auto simp: m6_def mark_tickets_changed_def settings_def queues_def holds_def tickets_at_def fun_eq_iff tickets_inv_def)
  have set6: "settings m6 = (dm_topology m, new_resident, new_simulation, dm_max_active m, dm_tick m, ?c)"
    using m6(3) m4(3) s2 by (simp add: settings_def m5_def)
  have q6: "dm_player_positions m6 = dm_player_positions m |-| (dm_simulation m |-| new_simulation)"
    "dm_active_promotions m6 = dm_active_promotions m |-| (dm_simulation m |-| new_simulation)"
    "fmdom (dm_first_desired m6) = (dm_simulation m |-| (dm_simulation m |-| new_simulation))
       |\<union>| (new_simulation |-| dm_simulation m)"
    using m6(4) m4(4-6) s2 p by (simp_all add: queues_def m5_def)
  have h6: "holds m6 q i \<longleftrightarrow> (holds m q i
        \<and> \<not> (q |\<in>| dm_simulation m |-| new_simulation \<and> q |\<in>| dm_player_positions m \<and> i = player_ticket q)
        \<and> \<not> (q |\<in>| ?old |-| ?new \<and> i = observer_ticket q))
      \<or> q |\<in>| ?new |-| ?old \<and> i = observer_ticket q" for q i
    using s2 m4(9) by (simp add: m6(2) f5 del: split_paired_All)
  have "dm_active_promotions m6 |\<subseteq>| dm_active_promotions m" using q6(2) by auto
  from fcard_mono [OF this] have "fcard (dm_active_promotions m6) \<le> dm_max_active m6"
    using p set6 by (simp add: settings_def)
  moreover have "holds m6 s (player_ticket s) \<longleftrightarrow> s |\<in>| dm_player_positions m6"
    "holds m6 s (observer_ticket s) \<longleftrightarrow> s |\<in>| dm_resident m6 |-| dm_simulation m6" for s
    using p set6 by (auto simp: h6 q6(1) settings_def)
  moreover have "dm_active_promotions m6 |\<subseteq>| dm_player_positions m6" "dm_player_positions m6 |\<subseteq>| dm_simulation m6"
    "fmdom (dm_first_desired m6) = dm_simulation m6"
    using p q6 set6 by (auto simp: settings_def)
  ultimately have "promotions_pre m6" unfolding promotions_pre_def by blast
  moreover have "dm_player_positions m6 = dm_player_positions m |\<inter>| new_simulation" using q6(1) p by auto
  moreover have "holds m6 q i = holds m q i" if "fst i \<notin> {Player, Observer}" for q i using that by (auto simp: h6)
  ultimately show ?thesis using run m6(1,5,6) set6 gen by (intro exI [of _ m6]) (simp del: split_paired_All)
qed

end
