(* ===== verification/ServerTicketRuns.thy ===== *)
theory ServerTicketRuns imports ServerPromotions
begin

text \<open>
  Runs of the distance manager.  A manager gets its topology once, before any ticket; from then on the
  scheduler adds and removes tickets of its own, lets time pass, reads levels, changes the interest of
  the players and reports finished promotions.  Every reachable state keeps the invariants of the cache
  and of the promotions, and no operation panics.
\<close>

datatype ticket_op =
    AddTicket chunk_ticket_type chunk_pos int chunk_ticket_key
  | RemoveTicket chunk_ticket_type chunk_pos int chunk_ticket_key
  | PassTick
  | ReadLevels
  | SetInterest "chunk_pos fset" "chunk_pos fset" "chunk_pos list"
  | FinishPromotion chunk_pos

fun run_op :: "ticket_op \<Rightarrow> distance_manager \<Rightarrow> distance_manager option" where
  "run_op (AddTicket ty p l key) m = add_ticket m ty p l key"
| "run_op (RemoveTicket ty p l key) m = Some (remove_ticket m ty p l key)"
| "run_op PassTick m = Some (purge_stale_tickets m)"
| "run_op ReadLevels m = map_option (snd \<circ> snd) (active_levels_with_cache_status m)"
| "run_op (SetInterest resident simulation centers) m =
     set_aggregate_interest_positions_with_priority m resident simulation centers"
| "run_op (FinishPromotion p) m = map_option snd (complete_player_promotion m p)"

text \<open>
  Ticket levels within the radius the topology can tell apart, the tickets of the players left to the
  manager, and room for the generations the operation may open.
\<close>

fun op_allowed :: "nat \<Rightarrow> distance_manager \<Rightarrow> ticket_op \<Rightarrow> bool" where
  "op_allowed r m (AddTicket ty p l key) \<longleftrightarrow> level_ok r l \<and> (ty, l, key) \<notin> {player_ticket p, observer_ticket p}
     \<and> dm_generation m + 1 < 2 ^ 64"
| "op_allowed r m (RemoveTicket ty p l key) \<longleftrightarrow> (ty, l, key) \<notin> {player_ticket p, observer_ticket p}
     \<and> dm_generation m + 1 < 2 ^ 64"
| "op_allowed r m PassTick \<longleftrightarrow> dm_generation m + 1 < 2 ^ 64"
| "op_allowed r m ReadLevels \<longleftrightarrow> True"
| "op_allowed r m (SetInterest resident simulation centers) \<longleftrightarrow>
     dm_generation m + interest_cost m resident < 2 ^ 64"
| "op_allowed r m (FinishPromotion p) \<longleftrightarrow> dm_generation m + dm_max_active m < 2 ^ 64"

text \<open>
  A topology fits a radius when the code's own check says that no square of that radius sees a place twice
  (\<open>validate_one_lift_radius\<close>: on a cylinder the period is at least \<open>2 * r + 1\<close>).  The tickets of players, of
  level 31, reach 13 chunks.  \<open>dm_reachable\<close> starts from such topologies only.
\<close>

definition topology_fits :: "nat \<Rightarrow> horizontal_topology \<Rightarrow> bool" where
  "topology_fits r t \<longleftrightarrow> topology_wf t \<and> validate_one_lift_radius t r = Inr () \<and> 13 \<le> r \<and> r < 2 ^ 31"

inductive dm_reachable :: "nat \<Rightarrow> distance_manager \<Rightarrow> bool" for r where
  start: "topology_fits r t \<Longrightarrow> dm_reachable r (set_topology distance_manager_new t)"
| step: "dm_reachable r m \<Longrightarrow> op_allowed r m op \<Longrightarrow> run_op op m = Some m' \<Longrightarrow> dm_reachable r m'"

definition dm_inv :: "nat \<Rightarrow> distance_manager \<Rightarrow> bool" where
  "dm_inv r m \<longleftrightarrow> tickets_inv r m \<and> promotions_ok m \<and> 13 \<le> r \<and> r < 2 ^ 31"

lemma start_inv:
  assumes "topology_fits r t"
  shows "dm_inv r (set_topology distance_manager_new t)"
proof -
  let ?m = "set_topology distance_manager_new t"
  have f: "dm_topology ?m = t" "tickets_at ?m = (\<lambda>p. fmempty)" "dm_cache ?m = None"
    "dm_non_propagating ?m = {||}" "queues ?m = ({||}, {||}, fmempty)" "dm_resident ?m = {||}" "dm_simulation ?m = {||}"
    by (simp_all add: set_topology_def Let_def mark_tickets_changed_def distance_manager_new_def
        tickets_at_def queues_def fun_eq_iff)
  then have "levels_ok r ?m" "cache_old ?m" "cache_ok ?m"
    using assms by (simp_all add: levels_ok_def topology_fits_def cache_old_def cache_ok_def cached_levels_def)
  moreover have "promotions_ok ?m"
    using f by (simp add: promotions_ok_def promotions_pre_def holds_def queues_def fcard.rep_eq)
  ultimately show ?thesis using assms by (simp add: dm_inv_def tickets_inv_def topology_fits_def)
qed

text \<open>Steps that leave the interest and the promotions alone keep their invariant.\<close>

lemma promotions_ok_frame:
  assumes "promotions_ok m" and "settings m' = settings m" and "queues m' = queues m"
    and "\<And>p. holds m' p (player_ticket p) = holds m p (player_ticket p)"
    and "\<And>p. holds m' p (observer_ticket p) = holds m p (observer_ticket p)"
  shows "promotions_ok m'"
  using assms by (simp add: promotions_ok_def promotions_pre_def settings_def queues_def)

lemma purge_holds:
  "holds (purge_stale_tickets m) p i \<longleftrightarrow>
     (\<exists>created. fmlookup (tickets_at m p) i = Some created \<and> \<not> timed_out i created (next_u64 (dm_tick m)))"
  by (auto simp: holds_def purge_tickets_at fmlookup_dom_iff retain_live_lookup split: option.splits if_splits)

lemma holds_lookup: "holds m p i \<longleftrightarrow> (\<exists>created. fmlookup (tickets_at m p) i = Some created)"
  by (simp add: holds_def fmlookup_dom_iff)

lemma purge_promotions:
  assumes "promotions_ok m"
  shows "promotions_ok (purge_stale_tickets m)"
proof -
  let ?m = "m\<lparr>dm_tick := dm_tick (purge_stale_tickets m)\<rparr>"
  have "promotions_ok ?m" using assms by (simp add: promotions_ok_def promotions_pre_def holds_def tickets_at_def)
  moreover have same: "holds ?m = holds m" by (simp add: fun_eq_iff holds_def tickets_at_def)
  ultimately show ?thesis
  proof (rule_tac promotions_ok_frame)
    show "settings (purge_stale_tickets m) = settings ?m" "queues (purge_stale_tickets m) = queues ?m"
      by (simp_all add: purge_stale_tickets_def Let_def mark_tickets_changed_def settings_def queues_def)
    show "holds (purge_stale_tickets m) p (player_ticket p) = holds ?m p (player_ticket p)"
      "holds (purge_stale_tickets m) p (observer_ticket p) = holds ?m p (observer_ticket p)" for p
      unfolding same purge_holds by (simp_all add: timed_out_def holds_lookup)
  qed
qed

text \<open>The chunks that simulate and still wait for their ticket.\<close>

definition waiting :: "distance_manager \<Rightarrow> chunk_pos fset" where
  "waiting m = dm_simulation m |-| dm_player_positions m"

text \<open>A slot that becomes free goes to one waiting chunk, when there is one.\<close>

lemma free_slot_taken:
  assumes ok: "promotions_ok m" and p: "p |\<in>| dm_active_promotions m"
    and m1: "dm_active_promotions m1 = dm_active_promotions m |-| {|p|}" "dm_player_positions m1 = dm_player_positions m"
      "dm_simulation m1 = dm_simulation m" "dm_max_active m1 = dm_max_active m"
    and m': "dm_player_positions m' = dm_player_positions m1 |\<union>| fset_of_list (chosen m1)" "dm_simulation m' = dm_simulation m"
  shows "fcard (waiting m') = fcard (waiting m) - 1"
proof -
  have one: "fcard (dm_active_promotions m |-| {|p|}) = fcard (dm_active_promotions m) - 1"
    using p by (simp add: fcard.rep_eq)
  have pos: "0 < fcard (dm_active_promotions m)" using p by (auto simp: fcard.rep_eq card_gt_0_iff)
  have "length (chosen m1) = min (dm_max_active m - (fcard (dm_active_promotions m) - 1)) (fcard (waiting m))"
    using chosen_spec(3) [of m1] by (simp add: m1 one waiting_def)
  also have "\<dots> = min 1 (fcard (waiting m))"
    using ok pos unfolding promotions_ok_def waiting_def by (auto simp: fcard.rep_eq)
  finally have len: "length (chosen m1) = min 1 (fcard (waiting m))" .
  have "fset (waiting m') = fset (waiting m) - set (chosen m1)"
    by (auto simp: waiting_def m' m1(2) fset_of_list.rep_eq)
  moreover have "set (chosen m1) \<subseteq> fset (waiting m)" using chosen_spec(2) [of m1] by (simp add: m1 waiting_def)
  ultimately have "fcard (waiting m') = fcard (waiting m) - length (chosen m1)"
    using chosen_spec(1) [of m1] by (simp add: fcard.rep_eq card_Diff_subset distinct_card)
  then show ?thesis using len by simp
qed

lemma finish_promotion_spec:
  assumes inv: "dm_inv r m" and g: "dm_generation m + dm_max_active m < 2 ^ 64"
  shows "\<exists>done m'. complete_player_promotion m p = Some (done, m') \<and> dm_inv r m'
     \<and> (p |\<in>| dm_active_promotions m \<longrightarrow> done \<and> settings m' = settings m
          \<and> dm_generation m' \<le> dm_generation m + dm_max_active m \<and> fcard (waiting m') = fcard (waiting m) - 1)"
proof (cases "p |\<in>| dm_active_promotions m")
  case False
  then show ?thesis using inv by (auto simp: complete_player_promotion_def)
next
  case True
  define m1 where "m1 = m\<lparr>dm_resident := dm_resident m, dm_simulation := dm_simulation m,
      dm_player_positions := dm_player_positions m, dm_active_promotions := dm_active_promotions m |-| {|p|},
      dm_first_desired := dm_first_desired m, dm_admitted_total := dm_admitted_total m,
      dm_cancelled := dm_cancelled m, dm_centers := dm_centers m\<rparr>"
  note f1 = tickets_inv_frame [OF m1_def]
  have i: "tickets_inv r m" "promotions_pre m" "promotions_ok m" "13 \<le> r" "r < 2 ^ 31"
    using inv by (simp_all add: dm_inv_def promotions_ok_def)
  have "dm_active_promotions m |-| {|p|} |\<subseteq>| dm_active_promotions m" by auto
  from fcard_mono [OF this] have "promotions_pre m1"
    using i(2) by (auto simp: promotions_pre_def f1) (auto simp: m1_def)
  then obtain m' where m': "refill_player_promotions m1 = Some m'" "tickets_inv r m'" "promotions_ok m'"
    "settings m' = settings m1" "dm_generation m' \<le> dm_generation m1 + dm_max_active m1"
    "dm_player_positions m' = dm_player_positions m1 |\<union>| fset_of_list (chosen m1)"
    using refill_spec [OF i(4,5), of m1] i(1) g by (auto simp: f1) (auto simp: m1_def)
  have "m\<lparr>dm_active_promotions := dm_active_promotions m |-| {|p|}\<rparr> = m1" by (simp add: m1_def)
  moreover have "settings m' = settings m" "dm_generation m' \<le> dm_generation m + dm_max_active m"
    using m'(4,5) by (simp_all add: m1_def settings_def)
  moreover have "fcard (waiting m') = fcard (waiting m) - 1"
    by (rule free_slot_taken [OF i(3) True, of m1]) (use m'(4,6) in \<open>simp_all add: m1_def settings_def\<close>)
  ultimately show ?thesis using True i m'(1-3) by (auto simp: complete_player_promotion_def dm_inv_def)
qed

lemma all_promoted: "dm_inv r m \<Longrightarrow> fcard (waiting m) = 0 \<Longrightarrow> dm_player_positions m = dm_simulation m"
  by (auto simp: dm_inv_def promotions_ok_def promotions_pre_def waiting_def)

text \<open>Finishing the listed promotions, each of them active when its turn comes.\<close>

fun finish_all :: "chunk_pos list \<Rightarrow> distance_manager \<Rightarrow> distance_manager option" where
  "finish_all [] m = Some m"
| "finish_all (p # ps) m = (if p |\<in>| dm_active_promotions m
     then Option.bind (complete_player_promotion m p) (\<lambda>(done, m). finish_all ps m) else None)"

lemma finish_all_waiting:
  assumes "dm_inv r m" and "dm_generation m + length ps * dm_max_active m < 2 ^ 64" and "finish_all ps m = Some m'"
  shows "fcard (waiting m') = fcard (waiting m) - length ps \<and> dm_inv r m' \<and> settings m' = settings m"
  using assms
proof (induction ps arbitrary: m)
  case (Cons p ps)
  have "dm_generation m + dm_max_active m < 2 ^ 64" using Cons.prems(2) by simp
  then obtain m1 where m1: "complete_player_promotion m p = Some (True, m1)" "dm_inv r m1" "settings m1 = settings m"
    "dm_generation m1 \<le> dm_generation m + dm_max_active m" "fcard (waiting m1) = fcard (waiting m) - 1"
    "finish_all ps m1 = Some m'"
    using finish_promotion_spec [OF Cons.prems(1), of p] Cons.prems(3) by (auto split: if_splits)
  have "dm_max_active m1 = dm_max_active m" using m1(3) by (simp add: settings_def)
  then show ?case using Cons.IH [OF m1(2) _ m1(6)] m1(3-5) Cons.prems(2) by simp
qed simp

lemma finish_all_runs:
  assumes "dm_inv r m" and "dm_generation m + n * dm_max_active m < 2 ^ 64" and "n \<le> fcard (waiting m)"
    and "0 < dm_max_active m"
  shows "\<exists>ps m'. length ps = n \<and> finish_all ps m = Some m'"
  using assms
proof (induction n arbitrary: m)
  case (Suc n)
  have "waiting m \<noteq> {||}" using Suc.prems(3) by (auto simp: fcard.rep_eq)
  then have "fcard (dm_active_promotions m) = dm_max_active m"
    using Suc.prems(1) by (auto simp: dm_inv_def promotions_ok_def waiting_def)
  then have "dm_active_promotions m \<noteq> {||}" using Suc.prems(4) by (auto simp: fcard.rep_eq)
  then obtain p where p: "p |\<in>| dm_active_promotions m" by auto
  have "dm_generation m + dm_max_active m < 2 ^ 64" using Suc.prems(2) by simp
  then obtain m1 where m1: "complete_player_promotion m p = Some (True, m1)" "dm_inv r m1" "settings m1 = settings m"
    "dm_generation m1 \<le> dm_generation m + dm_max_active m" "fcard (waiting m1) = fcard (waiting m) - 1"
    using finish_promotion_spec [OF Suc.prems(1), of p] p by auto
  have "dm_max_active m1 = dm_max_active m" using m1(3) by (simp add: settings_def)
  moreover have "n \<le> fcard (waiting m1)" using m1(5) Suc.prems(3) by linarith
  ultimately obtain ps m' where "length ps = n" "finish_all ps m1 = Some m'"
    using Suc.IH [OF m1(2)] m1(4) Suc.prems(2,4) by auto
  then show ?case using p m1(1) by (intro exI [of _ "p # ps"] exI [of _ m']) simp
qed simp

lemma interest_spec:
  assumes inv: "dm_inv r m" and g: "dm_generation m + interest_cost m resident < 2 ^ 64"
  shows "\<exists>m' m1. before_refill m resident simulation centers = Some m1
     \<and> run_op (SetInterest resident simulation centers) m = Some m' \<and> dm_inv r m'
     \<and> dm_resident m' = resident \<and> dm_simulation m' = simulation \<and> dm_topology m' = dm_topology m
     \<and> dm_max_active m' = dm_max_active m \<and> dm_generation m' \<le> dm_generation m + interest_cost m resident
     \<and> dm_player_positions m1 = dm_player_positions m |\<inter>| simulation \<and> dm_simulation m1 = simulation
     \<and> dm_player_positions m' = dm_player_positions m1 |\<union>| fset_of_list (chosen m1)
     \<and> (\<forall>p. player_promotion_priority_key m' p = player_promotion_priority_key m1 p)
     \<and> dm_centers m' = sorted_list_of_fset (fset_of_list centers)
     \<and> (\<forall>q i. fst i \<notin> {Player, Observer} \<longrightarrow> holds m' q i = holds m q i)"
proof -
  have i: "tickets_inv r m" "promotions_pre m" "13 \<le> r" "r < 2 ^ 31"
    using inv by (simp_all add: dm_inv_def promotions_ok_def)
  obtain m1 where m1: "before_refill m resident simulation centers = Some m1" "tickets_inv r m1" "promotions_pre m1"
    "settings m1 = (dm_topology m, resident, simulation, dm_max_active m, dm_tick m, sorted_list_of_fset (fset_of_list centers))"
    "dm_player_positions m1 = dm_player_positions m |\<inter>| simulation"
    "dm_generation m1 + dm_max_active m \<le> dm_generation m + interest_cost m resident"
    "\<And>q i. fst i \<notin> {Player, Observer} \<Longrightarrow> holds m1 q i = holds m q i"
    using before_refill_spec [OF i(3,4,1,2) g] by blast
  have "dm_generation m1 + dm_max_active m1 < 2 ^ 64" using m1(4,6) g by (simp add: settings_def)
  then obtain m' where m': "refill_player_promotions m1 = Some m'" "tickets_inv r m'" "promotions_ok m'"
    "settings m' = settings m1" "dm_player_positions m' = dm_player_positions m1 |\<union>| fset_of_list (chosen m1)"
    "dm_first_desired m' = dm_first_desired m1" "dm_generation m' \<le> dm_generation m1 + dm_max_active m1"
    "\<And>q i. holds m' q i \<longleftrightarrow> holds m1 q i \<or> q \<in> set (chosen m1) \<and> i = player_ticket q"
    using refill_spec [OF i(3,4) m1(2,3)] by blast
  have "run_op (SetInterest resident simulation centers) m = Some m'"
    using m1(1) m'(1) by (simp add: aggregate_run)
  moreover have "holds m' q i = holds m q i" if "fst i \<notin> {Player, Observer}" for q i
    using m1(7) [OF that] m'(8) that by auto
  moreover have "dm_generation m' \<le> dm_generation m + interest_cost m resident"
    using m'(7) m1(4,6) by (simp add: settings_def)
  moreover have "player_promotion_priority_key m' p = player_promotion_priority_key m1 p" for p
    by (rule priority_key_cong [OF m'(4,6)])
  moreover have "dm_inv r m'" using m'(2,3) i by (simp add: dm_inv_def)
  ultimately show ?thesis using m1(1,4,5) m'(4,5) unfolding settings_def
    by (intro exI [of _ m'] exI [of _ m1]) (simp del: split_paired_All run_op.simps)
qed

lemma op_keeps_inv:
  assumes inv: "dm_inv r m" and allowed: "op_allowed r m op"
  shows "\<exists>m'. run_op op m = Some m' \<and> dm_inv r m'"
proof (cases op)
  case (AddTicket ty p l key)
  have i: "tickets_inv r m" "promotions_ok m" using inv by (simp_all add: dm_inv_def)
  obtain m' where m': "add_ticket m ty p l key = Some m'" "ticket_step r m m'"
    "\<And>q i. holds m' q i \<longleftrightarrow> holds m q i \<or> q = p \<and> i = (ty, l, key)"
    using add_holds [OF i(1)] allowed AddTicket by (metis op_allowed.simps(1))
  have "promotions_ok m'"
    by (rule promotions_ok_frame [OF i(2) ticket_stepD(2,3) [OF m'(2)]]) (use allowed AddTicket m'(3) in auto)
  then show ?thesis using m' ticket_stepD(1) [OF m'(2)] inv AddTicket by (simp add: dm_inv_def)
next
  case (RemoveTicket ty p l key)
  have i: "tickets_inv r m" "promotions_ok m" and g: "dm_generation m + 1 < 2 ^ 64"
    using inv allowed RemoveTicket by (simp_all add: dm_inv_def)
  note st = ticket_stepD [OF remove_ticket_step(1) [OF i(1) g], of ty p l key]
  have "promotions_ok (remove_ticket m ty p l key)"
    by (rule promotions_ok_frame [OF i(2) st(2,3)]) (use allowed RemoveTicket remove_holds [OF i(1) g] in auto)
  then show ?thesis using st inv RemoveTicket by (simp add: dm_inv_def)
next
  case PassTick
  then show ?thesis using purge_step [of r m] purge_promotions [of m] inv allowed by (simp add: dm_inv_def)
next
  case ReadLevels
  obtain L hit m' where m': "active_levels_with_cache_status m = Some (L, hit, m')"
    "m' = m\<lparr>dm_cache := Some (dm_generation m, L)\<rparr>" "tickets_inv r m'"
    using active_levels_run [of r m] inv by (auto simp: dm_inv_def)
  have "promotions_ok m'"
    by (rule promotions_ok_frame [of m]) (use inv m'(2) in \<open>simp_all add: dm_inv_def settings_def queues_def holds_def tickets_at_def\<close>)
  with m' inv show ?thesis by (simp add: ReadLevels dm_inv_def)
next
  case (SetInterest resident simulation centers)
  then have "dm_generation m + interest_cost m resident < 2 ^ 64" using allowed by simp
  from interest_spec [OF inv this, of simulation centers] show ?thesis
    unfolding SetInterest by blast
next
  case (FinishPromotion p)
  then show ?thesis using finish_promotion_spec [OF inv, of p] allowed by auto
qed

lemma reachable_inv: "dm_reachable r m \<Longrightarrow> dm_inv r m"
proof (induction rule: dm_reachable.induct)
  case (start t)
  then show ?case by (rule start_inv)
next
  case (step m op m')
  then show ?case using op_keeps_inv [of r m op] by auto
qed

lemma start_reachable: "topology_fits r t \<Longrightarrow> dm_reachable r (set_topology distance_manager_new t)"
  by (rule dm_reachable.start)

text \<open>A list of operations, each allowed when its turn comes.\<close>

fun allowed_run :: "nat \<Rightarrow> ticket_op list \<Rightarrow> distance_manager \<Rightarrow> distance_manager option" where
  "allowed_run r [] m = Some m"
| "allowed_run r (op # ops) m = (if op_allowed r m op then Option.bind (run_op op m) (allowed_run r ops) else None)"

lemma allowed_run_reachable: "dm_reachable r m \<Longrightarrow> allowed_run r ops m = Some m' \<Longrightarrow> dm_reachable r m'"
  by (induction ops arbitrary: m) (auto simp: bind_eq_Some_conv simp del: run_op.simps op_allowed.simps
      split: if_splits intro: dm_reachable.step)

text \<open>From a topology that fits, the invariant holds after every such run and the topology stays.\<close>

lemma allowed_run_inv:
  assumes "topology_fits r t" and "allowed_run r ops (set_topology distance_manager_new t) = Some m"
  shows "dm_inv r m"
  by (rule reachable_inv [OF allowed_run_reachable [OF start_reachable [OF assms(1)] assms(2)]])

lemma op_keeps_topology:
  assumes inv: "dm_inv r m" and allowed: "op_allowed r m op" and run: "run_op op m = Some m'"
  shows "dm_topology m' = dm_topology m"
proof (cases op)
  case (AddTicket ty p l key)
  have i: "tickets_inv r m" using inv by (simp add: dm_inv_def)
  obtain m1 where "add_ticket m ty p l key = Some m1" "ticket_step r m m1"
    using add_holds [OF i] allowed AddTicket by (metis op_allowed.simps(1))
  then show ?thesis using run AddTicket ticket_stepD(2) [of r m m1] by (simp add: settings_def)
next
  case (RemoveTicket ty p l key)
  have "tickets_inv r m" "dm_generation m + 1 < 2 ^ 64" using inv allowed RemoveTicket by (simp_all add: dm_inv_def)
  from ticket_stepD(2) [OF remove_ticket_step(1) [OF this]] show ?thesis using run RemoveTicket by (auto simp: settings_def)
next
  case PassTick
  then show ?thesis using run by (auto simp: purge_stale_tickets_def Let_def mark_tickets_changed_def)
next
  case ReadLevels
  then show ?thesis using run active_levels_run [of r m] inv by (auto simp: dm_inv_def)
next
  case (SetInterest resident simulation centers)
  then have "dm_generation m + interest_cost m resident < 2 ^ 64" using allowed by simp
  from interest_spec [OF inv this, of simulation centers] show ?thesis using run SetInterest by fastforce
next
  case (FinishPromotion p)
  then show ?thesis using finish_promotion_spec [OF inv, of p] allowed run
    by (cases "p |\<in>| dm_active_promotions m") (auto simp: settings_def complete_player_promotion_def)
qed

lemma set_topology_topology: "dm_topology (set_topology m t) = t"
  by (simp add: set_topology_def Let_def mark_tickets_changed_def)

lemma allowed_run_topology:
  assumes "dm_inv r m" and "allowed_run r ops m = Some m'"
  shows "dm_topology m' = dm_topology m"
  using assms
proof (induction ops arbitrary: m)
  case (Cons op ops)
  obtain m1 where m1: "op_allowed r m op" "run_op op m = Some m1" "allowed_run r ops m1 = Some m'"
    using Cons.prems(2) by (auto simp: bind_eq_Some_conv simp del: run_op.simps op_allowed.simps split: if_splits)
  then have "dm_inv r m1" using op_keeps_inv [OF Cons.prems(1) m1(1)] by auto
  then show ?case using Cons.IH [OF _ m1(3)] op_keeps_topology [OF Cons.prems(1) m1(1,2)] by simp
qed simp

end
