(* ===== verification/ServerTicketQueries.thy ===== *)
theory ServerTicketQueries imports ServerTicketRuns
begin

text \<open>
  What the queries of the distance manager answer, in terms of the tickets: the level read from the map,
  the level computed on demand with a ticket type left out, and how long a ticket with a timeout lives.
\<close>

section \<open>What a level means\<close>

definition offered :: "distance_manager \<Rightarrow> (ticket_identity \<Rightarrow> bool) \<Rightarrow> chunk_pos \<Rightarrow> int \<Rightarrow> bool" where
  "offered m P q l \<longleftrightarrow> (\<exists>p i dx dz. holds m p i \<and> P i \<and> neighbor_chunk (dm_topology m) p dx dz = Some (Some q)
     \<and> l = ticket_level i + max \<bar>dx\<bar> \<bar>dz\<bar>)"

definition least_offer :: "distance_manager \<Rightarrow> (ticket_identity \<Rightarrow> bool) \<Rightarrow> chunk_pos \<Rightarrow> int \<Rightarrow> bool" where
  "least_offer m P q l \<longleftrightarrow> l \<le> 45 \<and> (l = 45 \<or> offered m P q l) \<and> (\<forall>k. offered m P q k \<longrightarrow> l \<le> k)"

lemma least_offer_unique: "least_offer m P q k \<Longrightarrow> least_offer m P q l \<Longrightarrow> k = l"
  unfolding least_offer_def by (metis order.antisym)

text \<open>The first ticket of a chunk decides what the chunk offers.\<close>

lemma offered_first:
  "offered m (\<lambda>i. True) q l \<Longrightarrow> l \<le> 44 \<Longrightarrow> \<exists>p f k. level_of m p = Some f \<and> reached (dm_topology m) p f q k \<and> k \<le> l"
  "level_of m p = Some f \<Longrightarrow> reached (dm_topology m) p f q l \<Longrightarrow> offered m (\<lambda>i. True) q l"
proof -
  assume o: "offered m (\<lambda>i. True) q l" and l: "l \<le> 44"
  then obtain p i dx dz where i: "holds m p i" "neighbor_chunk (dm_topology m) p dx dz = Some (Some q)"
    "l = ticket_level i + max \<bar>dx\<bar> \<bar>dz\<bar>" by (auto simp: offered_def)
  then obtain f where f: "level_of m p = Some f" "f \<le> ticket_level i"
    unfolding level_of_def holds_def using first_level_None [of "tickets_at m p"]
    by (cases "first_level (tickets_at m p)") (auto simp: first_level_Some simp del: split_paired_All)
  have "reached (dm_topology m) p f q (f + max \<bar>dx\<bar> \<bar>dz\<bar>)"
    unfolding reached_def level_entry_def using i f(2) l by (intro exI [of _ "(dx, dz)"]) auto
  then show "\<exists>p f k. level_of m p = Some f \<and> reached (dm_topology m) p f q k \<and> k \<le> l"
    using f i(3) by (metis add_le_cancel_right)
next
  assume f: "level_of m p = Some f" and r: "reached (dm_topology m) p f q l"
  then obtain i where "holds m p i" "ticket_level i = f"
    unfolding level_of_def first_level_Some holds_def by blast
  then show "offered m (\<lambda>i. True) q l"
    using r unfolding reached_def level_entry_def offered_def by blast
qed

lemma level_map_least:
  assumes "level_map (dm_topology m) (level_of m) L"
  shows "least_offer m (\<lambda>i. True) q (case fmlookup L q of Some l \<Rightarrow> l | None \<Rightarrow> 45)"
proof -
  have le: "\<exists>k\<le>l. fmlookup L q = Some k" if "offered m (\<lambda>i. True) q l" "l \<le> 44" for l
    using offered_first(1) [OF that] assms unfolding level_map_def covers_def by (meson order.trans)
  have att: "offered m (\<lambda>i. True) q l \<and> l \<le> 44" if here: "fmlookup L q = Some l" for l
  proof -
    obtain p f where f: "level_of m p = Some f" "reached (dm_topology m) p f q l"
      using assms here unfolding level_map_def explained_def by meson
    then show ?thesis using offered_first(2) [OF f] by (auto simp: reached_def level_entry_def)
  qed
  show ?thesis
  proof (cases "fmlookup L q")
    case None
    then show ?thesis using le by (force simp: least_offer_def)
  next
    case (Some l)
    then show ?thesis using att [OF Some] le by (force simp: least_offer_def)
  qed
qed

lemma active_level_least:
  assumes "tickets_inv r m"
  shows "\<exists>l m'. active_level_at m q = Some (l, m') \<and> least_offer m (\<lambda>i. True) q l"
proof -
  obtain L hit m' where "active_levels_with_cache_status m = Some (L, hit, m')"
    "level_map (dm_topology m) (level_of m) L" using active_levels_run [OF assms] by blast
  then show ?thesis using level_map_least by (simp add: active_level_at_def)
qed

section \<open>The query that leaves a ticket type out\<close>

definition on_topology :: "horizontal_topology \<Rightarrow> chunk_pos \<Rightarrow> bool" where
  "on_topology t q \<longleftrightarrow> axis_contains (ht_x t) (cp_x q) \<and> axis_contains (ht_z t) (cp_z q)"

lemma representative_contained:
  assumes "axis_contains a c"
  shows "representative a c = Some c"
proof (cases a)
  case (Periodic lo p)
  then have "(c - lo) mod int p = c - lo" using assms by (intro mod_pos_pos_trivial) auto
  then show ?thesis by (simp add: representative_def Periodic)
qed (use assms in \<open>simp_all add: representative_def\<close>)

lemma axis_shortest:
  assumes "axis_wf a" and "axis_contains a c"
  shows "\<exists>d. shortest_chunk_displacement a f c = Some d \<and> representative a (f + d) = Some c
     \<and> (\<forall>d'. representative a (f + d') = Some c \<longrightarrow> \<bar>d\<bar> \<le> \<bar>d'\<bar>)"
proof -
  obtain d where d: "shortest_chunk_displacement a f c = Some d" "axis_congruent a (f + d) c"
    "\<forall>d'. axis_congruent a (f + d') c \<longrightarrow> \<bar>d\<bar> \<le> \<bar>d'\<bar>"
    using shortest_chunk_displacement_spec [OF assms(1)] by blast
  have "axis_congruent a (f + d') c" if "representative a (f + d') = Some c" for d'
    using representative_Some(2) [OF assms(1) that] by (cases a) (simp_all add: dvd_diff_commute)
  then show ?thesis
    using d representative_congruent [OF d(2)] representative_contained [OF assms(2)] by auto
qed

lemma displacement_reaches:
  assumes "topology_wf t" and "on_topology t q"
  shows "\<exists>dx dz. topology_shortest_chunk_displacement t p q = Some (dx, dz)
     \<and> neighbor_chunk t p dx dz = Some (Some q)
     \<and> (\<forall>dx' dz'. neighbor_chunk t p dx' dz' = Some (Some q) \<longrightarrow> \<bar>dx\<bar> \<le> \<bar>dx'\<bar> \<and> \<bar>dz\<bar> \<le> \<bar>dz'\<bar>)"
proof -
  have nb: "neighbor_chunk t p dx dz = Some (Some q) \<longleftrightarrow>
      representative (ht_x t) (cp_x p + dx) = Some (cp_x q) \<and> representative (ht_z t) (cp_z p + dz) = Some (cp_z q)" for dx dz
    by (cases q) (auto simp: neighbor_chunk_eq [OF assms(1)] lift_at_def split: option.split)
  show ?thesis
    unfolding nb topology_shortest_chunk_displacement_def
    using axis_shortest [of "ht_x t" "cp_x q" "cp_x p"] axis_shortest [of "ht_z t" "cp_z q" "cp_z p"] assms
    by (auto simp: topology_wf_def on_topology_def)
qed

lemma set_levels_excluding:
  "k \<in> set (levels_excluding ts ty) \<longleftrightarrow> (\<exists>i. i |\<in>| fmdom ts \<and> fst i \<noteq> ty \<and> k = ticket_level i)"
  unfolding levels_excluding_def by (auto simp del: split_paired_Ex)

definition pulls :: "horizontal_topology \<Rightarrow> chunk_ticket_type \<Rightarrow> chunk_pos \<Rightarrow> chunk_pos \<Rightarrow> ticket_set \<Rightarrow> int \<Rightarrow> bool" where
  "pulls t ty q p ts l \<longleftrightarrow> l \<le> 44 \<and> (\<exists>dx dz k. topology_shortest_chunk_displacement t p q = Some (dx, dz)
     \<and> k \<in> set (levels_excluding ts ty) \<and> l = k + max \<bar>dx\<bar> \<bar>dz\<bar>)"

lemma set_map_filter: "set (List.map_filter f xs) = {y. \<exists>x\<in>set xs. f x = Some y}"
  by (force simp: List.map_filter_def)

lemma propagated_level_ok:
  assumes "level_ok r k" and "0 \<le> d"
  shows "propagated_level k d = (if k + d \<le> 44 then Some (k + d) else None)"
proof (cases "in_i32 d")
  case True
  then show ?thesis by (auto simp: propagated_level_def min_def)
next
  case False
  then have "2147483648 \<le> d" using assms(2) by (simp add: in_i32_def)
  moreover have "44 - 2147483648 < k" using assms(1) by (simp add: level_ok_def)
  ultimately show ?thesis using False by (simp add: propagated_level_def)
qed

lemma propagated_levels_spec:
  assumes wf: "topology_wf (dm_topology m)"
  shows "(\<And>p ts k. (p, ts) \<in> set ps \<Longrightarrow> k \<in> set (levels_excluding ts ty) \<Longrightarrow> level_ok r k) \<Longrightarrow>
    \<exists>ls. propagated_levels m ty q ps = Some ls
     \<and> (\<forall>l. l \<in> set ls \<longleftrightarrow> (\<exists>s\<in>set ps. pulls (dm_topology m) ty q (fst s) (snd s) l))"
proof (induction ps)
  case Nil
  then show ?case by simp
next
  case (Cons s ps)
  obtain p ts where s: "s = (p, ts)" by (cases s)
  have "level_ok r k" if "(p', ts') \<in> set ps" "k \<in> set (levels_excluding ts' ty)" for p' ts' k
    using Cons.prems [of p' ts' k] that by simp
  then obtain ls where ls: "propagated_levels m ty q ps = Some ls"
    "\<And>l. l \<in> set ls \<longleftrightarrow> (\<exists>s\<in>set ps. pulls (dm_topology m) ty q (fst s) (snd s) l)"
    using Cons.IH by meson
  obtain dx dz where d: "topology_shortest_chunk_displacement (dm_topology m) p q = Some (dx, dz)"
    using displacement_total [OF wf] by blast
  let ?d = "max \<bar>dx\<bar> \<bar>dz\<bar>"
  let ?new = "List.map_filter (\<lambda>level. propagated_level level ?d) (levels_excluding ts ty)"
  have "propagated_level k ?d = (if k + ?d \<le> 44 then Some (k + ?d) else None)" if "k \<in> set (levels_excluding ts ty)" for k
    using propagated_level_ok [of r k ?d] Cons.prems [of p ts k] s that by simp
  then have new: "l \<in> set ?new \<longleftrightarrow> pulls (dm_topology m) ty q p ts l" for l
    using d by (auto simp: set_map_filter pulls_def)
  have "propagated_levels m ty q (s # ps) = Some (if levels_excluding ts ty = [] then ls else ?new @ ls)"
    using d ls(1) by (simp add: s)
  moreover have "?new = []" if "levels_excluding ts ty = []" using that by (simp add: map_filter_simps)
  ultimately have "propagated_levels m ty q (s # ps) = Some (?new @ ls)" by auto
  then show ?case using new ls(2) by (simp add: s)
qed

lemma fold_min_list: "fold min xs (a::int) = Min (insert a (set xs))"
proof (induction xs arbitrary: a)
  case (Cons x xs)
  have "Min (insert a (set (x # xs))) = min a (Min (insert x (set xs)))" by simp
  also have "\<dots> = Min (insert (min x a) (set xs))" by (cases "xs = []") (simp_all add: min.commute min.left_commute)
  finally show ?case using Cons.IH [of "min x a"] by simp
qed simp

lemma pulled_offered:
  assumes wf: "topology_wf (dm_topology m)" and q: "on_topology (dm_topology m) q"
  shows "(\<exists>s\<in>set (sorted_list_of_fmap (dm_tickets m)). pulls (dm_topology m) ty q (fst s) (snd s) l)
      \<Longrightarrow> offered m (\<lambda>i. fst i \<noteq> ty) q l \<and> l \<le> 44"
    and "offered m (\<lambda>i. fst i \<noteq> ty) q l \<Longrightarrow> l \<le> 44
      \<Longrightarrow> \<exists>k\<le>l. \<exists>s\<in>set (sorted_list_of_fmap (dm_tickets m)). pulls (dm_topology m) ty q (fst s) (snd s) k"
proof -
  have holds: "holds m p i \<longleftrightarrow> (\<exists>ts. (p, ts) \<in> set (sorted_list_of_fmap (dm_tickets m)) \<and> i |\<in>| fmdom ts)" for p i
    by (auto simp: set_sorted_list_of_fmap holds_def tickets_at_def split: option.split)
  {
    assume "\<exists>s\<in>set (sorted_list_of_fmap (dm_tickets m)). pulls (dm_topology m) ty q (fst s) (snd s) l"
    then obtain p ts dx dz i where p: "(p, ts) \<in> set (sorted_list_of_fmap (dm_tickets m))" "l \<le> 44"
      "topology_shortest_chunk_displacement (dm_topology m) p q = Some (dx, dz)"
      "i |\<in>| fmdom ts" "fst i \<noteq> ty" "l = ticket_level i + max \<bar>dx\<bar> \<bar>dz\<bar>"
      unfolding pulls_def set_levels_excluding by fastforce
    moreover have "neighbor_chunk (dm_topology m) p dx dz = Some (Some q)"
      using displacement_reaches [OF wf q, of p] p(3) by auto
    moreover have "holds m p i" using p(1,4) holds by blast
    ultimately show "offered m (\<lambda>i. fst i \<noteq> ty) q l \<and> l \<le> 44" unfolding offered_def by blast
  }
  assume "offered m (\<lambda>i. fst i \<noteq> ty) q l" and l: "l \<le> 44"
  then obtain p i dx' dz' where i: "holds m p i" "fst i \<noteq> ty"
    "neighbor_chunk (dm_topology m) p dx' dz' = Some (Some q)" "l = ticket_level i + max \<bar>dx'\<bar> \<bar>dz'\<bar>"
    unfolding offered_def by blast
  obtain dx dz where d: "topology_shortest_chunk_displacement (dm_topology m) p q = Some (dx, dz)"
    "\<bar>dx\<bar> \<le> \<bar>dx'\<bar>" "\<bar>dz\<bar> \<le> \<bar>dz'\<bar>" using displacement_reaches [OF wf q, of p] i(3) by blast
  obtain ts where ts: "(p, ts) \<in> set (sorted_list_of_fmap (dm_tickets m))" "i |\<in>| fmdom ts" using i(1) holds by blast
  have le: "ticket_level i + max \<bar>dx\<bar> \<bar>dz\<bar> \<le> l" using i(4) d(2,3) by linarith
  have "ticket_level i \<in> set (levels_excluding ts ty)" using ts(2) i(2) set_levels_excluding by blast
  then have "pulls (dm_topology m) ty q p ts (ticket_level i + max \<bar>dx\<bar> \<bar>dz\<bar>)"
    unfolding pulls_def using d(1) le l by auto
  then show "\<exists>k\<le>l. \<exists>s\<in>set (sorted_list_of_fmap (dm_tickets m)). pulls (dm_topology m) ty q (fst s) (snd s) k"
    using le ts(1) by (metis fst_conv snd_conv)
qed

lemma excluding_least:
  assumes inv: "tickets_inv r m" and q: "on_topology (dm_topology m) q"
  shows "\<exists>l. active_level_at_excluding m q ty = Some l \<and> least_offer m (\<lambda>i. fst i \<noteq> ty) q l"
proof -
  let ?ps = "sorted_list_of_fmap (dm_tickets m)"
  have wf: "topology_wf (dm_topology m)" using inv by (simp add: tickets_inv_def levels_ok_def)
  have "level_ok r k" if here: "(p, ts) \<in> set ?ps" "k \<in> set (levels_excluding ts ty)" for p ts k
  proof -
    obtain i where "i |\<in>| fmdom ts" "k = ticket_level i" using here(2) set_levels_excluding by blast
    moreover have "ts = tickets_at m p" using here(1) by (simp add: set_sorted_list_of_fmap tickets_at_def)
    ultimately show ?thesis using inv unfolding tickets_inv_def levels_ok_def by blast
  qed
  then obtain ls where ls: "propagated_levels m ty q ?ps = Some ls"
    "\<And>l. l \<in> set ls \<longleftrightarrow> (\<exists>s\<in>set ?ps. pulls (dm_topology m) ty q (fst s) (snd s) l)"
    using propagated_levels_spec [OF wf, of ?ps ty r q] by meson
  define l where "l = (case ls of [] \<Rightarrow> 45 | a # as \<Rightarrow> fold min as a)"
  have run: "active_level_at_excluding m q ty = Some l" by (simp add: active_level_at_excluding_def ls(1) l_def)
  have l: "l = 45 \<and> ls = [] \<or> l \<in> set ls \<and> (\<forall>k\<in>set ls. l \<le> k)"
  proof (cases ls)
    case (Cons a as)
    then have "l = Min (set ls)" by (simp add: l_def fold_min_list)
    moreover have "Min (set ls) \<in> set ls" using Cons by (intro Min_in) auto
    ultimately show ?thesis by simp
  qed (simp add: l_def)
  note po = pulled_offered [OF wf q, of ty]
  have "k = 45 \<or> offered m (\<lambda>i. fst i \<noteq> ty) q k \<and> k \<le> 44" if "k = 45 \<or> k \<in> set ls" for k
    using po(1) that ls(2) by blast
  then have "l \<le> 45 \<and> (l = 45 \<or> offered m (\<lambda>i. fst i \<noteq> ty) q l)" using l by force
  moreover have "l \<le> k" if off: "offered m (\<lambda>i. fst i \<noteq> ty) q k" for k
  proof (cases "k \<le> 44")
    case True
    then obtain j where "j \<le> k" "j \<in> set ls" using po(2) [OF off] ls(2) by blast
    then show ?thesis using l by fastforce
  next
    case False
    then show ?thesis using \<open>l \<le> 45 \<and> _\<close> by linarith
  qed
  ultimately show ?thesis using run by (simp add: least_offer_def)
qed

section \<open>The clock\<close>

lemma purge_many:
  assumes "dm_tick m + n < 2 ^ 64" and "fmlookup (tickets_at m p) i = Some (dm_tick m)"
  shows "dm_tick ((purge_stale_tickets ^^ n) m) = dm_tick m + n
     \<and> fmlookup (tickets_at ((purge_stale_tickets ^^ n) m) p) i =
         (case timeout_ticks (fst i) of Some t \<Rightarrow> if n \<le> t then Some (dm_tick m) else None | None \<Rightarrow> Some (dm_tick m))"
  using assms
proof (induction n)
  case 0
  then show ?case by (simp split: option.split)
next
  case (Suc n)
  let ?m = "(purge_stale_tickets ^^ n) m"
  have IH: "dm_tick ?m = dm_tick m + n" "fmlookup (tickets_at ?m p) i =
         (case timeout_ticks (fst i) of Some t \<Rightarrow> if n \<le> t then Some (dm_tick m) else None | None \<Rightarrow> Some (dm_tick m))"
    using Suc by simp_all
  have "next_u64 (dm_tick ?m) = dm_tick m + Suc n" using IH(1) Suc.prems(1) by (simp add: next_u64_def)
  moreover have "dm_tick (purge_stale_tickets ?m) = next_u64 (dm_tick ?m)"
    by (simp add: purge_stale_tickets_def Let_def mark_tickets_changed_def)
  ultimately show ?case
    using IH(2) by (auto simp: purge_tickets_at retain_live_lookup timed_out_def split: option.split)
qed

end
