(* ===== verification/ServerTicketProperties.thy ===== *)
theory ServerTicketProperties imports ServerTicketQueries
begin

text \<open>
  Properties of the chunk tickets of the server: levels read from the cache are those of the tickets,
  levels are least distances, promotions are bounded, ordered and never idle, and tickets with a
  timeout live exactly that long.  At the end, what goes wrong where a square sees a place twice.
\<close>

section \<open>A sample run\<close>

abbreviation (input) five_chunks :: "chunk_pos fset" where
  "five_chunks \<equiv> {|ChunkPos 0 0, ChunkPos 1 0, ChunkPos 2 0, ChunkPos 3 0, ChunkPos 4 0|}"
abbreviation (input) origin :: chunk_pos where "origin \<equiv> ChunkPos 0 0"

lemma wide_cylinder_fits: "topology_fits 13 (cylinder_x 0 64)"
  by (simp add: topology_fits_def topology_wf_def axis_wf_def cylinder_x_def in_i32_def wrap_i32_id
      validate_block_aligned_extent_def validate_one_lift_radius_def)

lemma no_tickets: "sorted_list_of_fmap (fmempty :: (chunk_pos, ticket_set) fmap) = []"
  by (simp add: sorted_list_of_fmap_def sorted_list_of_fset.rep_eq)

text \<open>Levels are read, then a ticket is added to the cached map.\<close>

lemma sample_run:
  "\<exists>m1 m. run_op ReadLevels (set_topology distance_manager_new (cylinder_x 0 64)) = Some m1
     \<and> run_op (AddTicket Forced origin 33 (KeyChunk origin)) m1 = Some m
     \<and> dm_reachable 13 m \<and> holds m origin (Forced, 33, KeyChunk origin)
     \<and> dm_topology m = cylinder_x 0 64 \<and> dm_generation m \<le> 2 \<and> dm_simulation m = {||} \<and> dm_resident m = {||}
     \<and> dm_max_active m = 4
     \<and> allowed_run 13 [ReadLevels, AddTicket Forced origin 33 (KeyChunk origin)] (set_topology distance_manager_new (cylinder_x 0 64)) = Some m"
proof -
  let ?m0 = "set_topology distance_manager_new (cylinder_x 0 64)"
  have f: "dm_generation ?m0 = 1" "dm_tickets ?m0 = fmempty" "settings ?m0 = (cylinder_x 0 64, {||}, {||}, 4, 0, [])"
    "dm_cache ?m0 = None"
    by (simp_all add: set_topology_def distance_manager_new_def Let_def mark_tickets_changed_def next_u64_def
        topology_unbounded_def cylinder_x_def settings_def)
  have r0: "dm_reachable 13 ?m0" by (rule start_reachable [OF wide_cylinder_fits])
  let ?m1 = "?m0\<lparr>dm_cache := Some (1, fmempty)\<rparr>"
  have s1: "run_op ReadLevels ?m0 = Some ?m1" by (simp add: active_levels_with_cache_status_def f no_tickets)
  have r1: "dm_reachable 13 ?m1" by (rule dm_reachable.step [OF r0 _ s1]) simp
  have inv: "tickets_inv 13 ?m1" using reachable_inv [OF r1] by (simp add: dm_inv_def)
  have ok: "level_ok 13 33" "dm_generation ?m1 + 1 < 2 ^ 64" by (simp_all add: level_ok_def in_i32_def f(1))
  obtain m where m: "add_ticket ?m1 Forced origin 33 (KeyChunk origin) = Some m" "ticket_step 13 ?m1 m"
    "\<And>q i. holds m q i \<longleftrightarrow> holds ?m1 q i \<or> q = origin \<and> i = (Forced, 33, KeyChunk origin)"
    using add_holds [OF inv ok] by blast
  have s2: "run_op (AddTicket Forced origin 33 (KeyChunk origin)) ?m1 = Some m" using m(1) by simp
  have add: "op_allowed 13 ?m1 (AddTicket Forced origin 33 (KeyChunk origin))" using ok by simp
  from dm_reachable.step [OF r1 add s2] have "dm_reachable 13 m" .
  moreover have "allowed_run 13 [ReadLevels, AddTicket Forced origin 33 (KeyChunk origin)] ?m0 = Some m"
    using s1 s2 add by (simp del: run_op.simps op_allowed.simps(1))
  moreover have "holds m origin (Forced, 33, KeyChunk origin)" using m(3) by simp
  moreover have "dm_generation m \<le> 2" using ticket_stepD(5) [OF m(2)] f(1) by simp
  moreover have "settings m = (cylinder_x 0 64, {||}, {||}, 4, 0, [])"
    using ticket_stepD(2) [OF m(2)] f(3) by (simp add: settings_def)
  ultimately show ?thesis using s1 s2
    by (intro exI [of _ ?m1] exI [of _ m]) (simp add: settings_def del: run_op.simps)
qed

section \<open>The properties\<close>

text \<open>C3: where no square of a ticket sees a place twice, the levels read are current.
  Take a valid topology that passes the code's own one-lift check for a radius r of at least 13 (and below 2^31), that of a player ticket (on a cylinder: a period of at least 2r + 1 chunks), and a manager that is given it before any ticket.
  Whatever operations follow, in any order, the map that a reader then gets, from the cache or not, is the map that a sweep over all tickets computes; the operations add tickets that reach at most r chunks, leave the tickets of players and observers to the manager and stay within 64-bit generations.
  The server makes that check only with the radii of views, not of tickets; on a cylinder too narrow for a ticket the cache can differ from the sweep.\<close>
theorem active_levels_current:
  assumes "topology_fits r t" and "allowed_run r ops (set_topology distance_manager_new t) = Some m"
  shows "\<exists>L hit m'. active_levels_with_cache_status m = Some (L, hit, m')
     \<and> spread_tickets t (sorted_list_of_fmap (dm_tickets m)) fmempty = Some L"
proof -
  have "dm_topology m = t"
    using allowed_run_topology [OF start_inv [OF assms(1)] assms(2)] by (simp add: set_topology_topology)
  then show ?thesis using active_levels_run [of r m] allowed_run_inv [OF assms] by (auto simp: dm_inv_def)
qed

lemma active_levels_current_witness:
  "\<exists>m1 m L hit m'. run_op ReadLevels (set_topology distance_manager_new (cylinder_x 0 64)) = Some m1
     \<and> run_op (AddTicket Forced origin 33 (KeyChunk origin)) m1 = Some m
     \<and> active_levels_with_cache_status m = Some (L, hit, m')
     \<and> spread_tickets (cylinder_x 0 64) (sorted_list_of_fmap (dm_tickets m)) fmempty = Some L"
  using sample_run active_levels_current [OF wide_cylinder_fits] by (metis (no_types, lifting))

text \<open>C28: where no square of a ticket sees a place twice, a chunk level is a least distance.
  On a valid topology that passes the one-lift check for a radius r of at least 13 (and below 2^31), after any operations with tickets that reach at most r chunks (those of players and observers left to the manager, generations within 64 bits), the level that a reader gets for a chunk is the least ticket level plus Chebyshev length of a way from the ticket to the chunk, or 45 when none is below.
  Without the check this fails: on a cylinder of eight chunks a chunk with a ticket of level 31 can read 39.\<close>
theorem chunk_level_least:
  assumes "topology_fits r t" and "allowed_run r ops (set_topology distance_manager_new t) = Some m"
  shows "\<exists>l m'. active_level_at m q = Some (l, m') \<and> l \<le> 45
     \<and> (l = 45 \<or> (\<exists>p i dx dz. holds m p i \<and> neighbor_chunk t p dx dz = Some (Some q)
          \<and> l = ticket_level i + max \<bar>dx\<bar> \<bar>dz\<bar>))
     \<and> (\<forall>p i dx dz. holds m p i \<and> neighbor_chunk t p dx dz = Some (Some q)
          \<longrightarrow> l \<le> ticket_level i + max \<bar>dx\<bar> \<bar>dz\<bar>)"
proof -
  have t: "dm_topology m = t"
    using allowed_run_topology [OF start_inv [OF assms(1)] assms(2)] by (simp add: set_topology_topology)
  obtain l m' where "active_level_at m q = Some (l, m')" "least_offer m (\<lambda>i. True) q l"
    using active_level_least [of r m] allowed_run_inv [OF assms] by (meson dm_inv_def)
  then show ?thesis unfolding least_offer_def offered_def t by blast
qed

lemma chunk_level_least_witness:
  "\<exists>m1 m l m'. run_op ReadLevels (set_topology distance_manager_new (cylinder_x 0 64)) = Some m1
     \<and> run_op (AddTicket Forced origin 33 (KeyChunk origin)) m1 = Some m
     \<and> active_level_at m origin = Some (l, m') \<and> l \<le> 33"
proof -
  obtain m1 m where m: "run_op ReadLevels (set_topology distance_manager_new (cylinder_x 0 64)) = Some m1"
    "run_op (AddTicket Forced origin 33 (KeyChunk origin)) m1 = Some m"
    "allowed_run 13 [ReadLevels, AddTicket Forced origin 33 (KeyChunk origin)] (set_topology distance_manager_new (cylinder_x 0 64)) = Some m"
    "holds m origin (Forced, 33, KeyChunk origin)"
    using sample_run by blast
  obtain l m' where l: "active_level_at m origin = Some (l, m')"
    "\<And>p i dx dz. holds m p i \<Longrightarrow> neighbor_chunk (cylinder_x 0 64) p dx dz = Some (Some origin)
        \<Longrightarrow> l \<le> ticket_level i + max \<bar>dx\<bar> \<bar>dz\<bar>"
    using chunk_level_least [OF wide_cylinder_fits m(3), of origin] by blast
  have "neighbor_chunk (cylinder_x 0 64) origin 0 0 = Some (Some origin)"
    by (simp add: neighbor_chunk_def both_axes_def cylinder_x_def in_i32_def wrap_i32_id)
  from l(2) [OF m(4) this] have "l \<le> 33" by (simp add: ticket_level_def)
  with m l(1) show ?thesis by blast
qed

text \<open>C29: in every state reachable over a topology where no square of a ticket sees a place twice, the level of a chunk of the world without one ticket type, computed on demand from shortest displacements, is the least ticket level plus distance over the tickets of all other types.\<close>
theorem level_excluding_least:
  assumes "dm_reachable r m" and "on_topology (dm_topology m) q"
  shows "\<exists>l. active_level_at_excluding m q ty = Some l \<and> l \<le> 45
     \<and> (l = 45 \<or> (\<exists>p i dx dz. holds m p i \<and> fst i \<noteq> ty \<and> neighbor_chunk (dm_topology m) p dx dz = Some (Some q)
          \<and> l = ticket_level i + max \<bar>dx\<bar> \<bar>dz\<bar>))
     \<and> (\<forall>p i dx dz. holds m p i \<and> fst i \<noteq> ty \<and> neighbor_chunk (dm_topology m) p dx dz = Some (Some q)
          \<longrightarrow> l \<le> ticket_level i + max \<bar>dx\<bar> \<bar>dz\<bar>)"
proof -
  obtain l where "active_level_at_excluding m q ty = Some l" "least_offer m (\<lambda>i. fst i \<noteq> ty) q l"
    using excluding_least [of r m q] reachable_inv [OF assms(1)] assms(2) by (meson dm_inv_def)
  then show ?thesis unfolding least_offer_def offered_def by blast
qed

lemma level_excluding_least_witness:
  "\<exists>m1 m l. run_op ReadLevels (set_topology distance_manager_new (cylinder_x 0 64)) = Some m1
     \<and> run_op (AddTicket Forced origin 33 (KeyChunk origin)) m1 = Some m
     \<and> active_level_at_excluding m (ChunkPos 63 1) Light = Some l \<and> l \<le> 34"
proof -
  obtain m1 m where m: "run_op ReadLevels (set_topology distance_manager_new (cylinder_x 0 64)) = Some m1"
    "run_op (AddTicket Forced origin 33 (KeyChunk origin)) m1 = Some m" "dm_reachable 13 m"
    "holds m origin (Forced, 33, KeyChunk origin)" "dm_topology m = cylinder_x 0 64"
    using sample_run by blast
  have on: "on_topology (dm_topology m) (ChunkPos 63 1)"
    by (simp add: m(5) on_topology_def cylinder_x_def in_i32_def)
  obtain l where l: "active_level_at_excluding m (ChunkPos 63 1) Light = Some l"
    "\<And>p i dx dz. holds m p i \<Longrightarrow> fst i \<noteq> Light \<Longrightarrow> neighbor_chunk (dm_topology m) p dx dz = Some (Some (ChunkPos 63 1))
        \<Longrightarrow> l \<le> ticket_level i + max \<bar>dx\<bar> \<bar>dz\<bar>"
    using level_excluding_least [OF m(3) on, of Light] by blast
  have "neighbor_chunk (dm_topology m) origin (- 1) 1 = Some (Some (ChunkPos 63 1))"
    by (simp add: m(5) neighbor_chunk_def both_axes_def cylinder_x_def in_i32_def wrap_i32_id)
  from l(2) [OF m(4) _ this] have "l \<le> 34" by (simp add: ticket_level_def)
  with m l(1) show ?thesis by blast
qed

text \<open>C30: promotions are bounded and never idle.
  In every state reachable over a topology where no square of a ticket sees a place twice, at most the permitted number is active, a free slot means no chunk waits, player tickets lie exactly on the promoted chunks and observer tickets exactly on the chunks that are resident only; no allowed operation panics.\<close>
theorem promotions_bounded:
  assumes "dm_reachable r m"
  shows "dm_active_promotions m |\<subseteq>| dm_player_positions m \<and> dm_player_positions m |\<subseteq>| dm_simulation m
     \<and> fcard (dm_active_promotions m) \<le> dm_max_active m
     \<and> (fcard (dm_active_promotions m) < dm_max_active m \<longrightarrow> dm_player_positions m = dm_simulation m)
     \<and> (\<forall>p. holds m p (Player, 31, KeyChunk p) \<longleftrightarrow> p |\<in>| dm_player_positions m)
     \<and> (\<forall>p. holds m p (Observer, 33, KeyChunk p) \<longleftrightarrow> p |\<in>| dm_resident m |-| dm_simulation m)
     \<and> (\<forall>op. op_allowed r m op \<longrightarrow> run_op op m \<noteq> None)"
  using reachable_inv [OF assms] op_keeps_inv [of r m]
  unfolding dm_inv_def promotions_ok_def promotions_pre_def by fastforce

lemma promotions_bounded_witness:
  "\<exists>m1 m. run_op ReadLevels (set_topology distance_manager_new (cylinder_x 0 64)) = Some m1
     \<and> run_op (AddTicket Forced origin 33 (KeyChunk origin)) m1 = Some m
     \<and> fcard (dm_active_promotions m) \<le> 4 \<and> run_op PassTick m \<noteq> None"
proof -
  obtain m1 m where m: "run_op ReadLevels (set_topology distance_manager_new (cylinder_x 0 64)) = Some m1"
    "run_op (AddTicket Forced origin 33 (KeyChunk origin)) m1 = Some m" "dm_reachable 13 m"
    "dm_generation m \<le> 2" "dm_max_active m = 4"
    using sample_run by blast
  note p = promotions_bounded [OF m(3)]
  have "op_allowed 13 m PassTick" using m(4) by simp
  then show ?thesis using p m(1,2,5) by (metis (no_types, lifting))
qed

text \<open>C31: in every state reachable over a topology where no square of a ticket sees a place twice, while generations stay within 64 bits, a change of interest keeps the promoted chunks that stay, promotes the waiting chunks of the least priority keys first, and leaves the tickets of every other type alone.\<close>
theorem interest_changes:
  assumes "dm_reachable r m" and "dm_generation m + interest_cost m resident < 2 ^ 64"
  shows "\<exists>m'. set_aggregate_interest_positions_with_priority m resident simulation centers = Some m'
     \<and> dm_resident m' = resident \<and> dm_simulation m' = simulation
     \<and> dm_player_positions m |\<inter>| simulation |\<subseteq>| dm_player_positions m'
     \<and> (\<forall>p q. p |\<in>| dm_player_positions m' |-| dm_player_positions m \<and> q |\<in>| simulation |-| dm_player_positions m'
          \<longrightarrow> the (player_promotion_priority_key m' p) \<le> the (player_promotion_priority_key m' q))
     \<and> (\<forall>q i. fst i \<notin> {Player, Observer} \<longrightarrow> holds m' q i = holds m q i)"
proof -
  obtain m' m1 where m': "run_op (SetInterest resident simulation centers) m = Some m'"
    "dm_resident m' = resident" "dm_simulation m' = simulation"
    "dm_player_positions m1 = dm_player_positions m |\<inter>| simulation" "dm_simulation m1 = simulation"
    "dm_player_positions m' = dm_player_positions m1 |\<union>| fset_of_list (chosen m1)"
    "\<And>p. player_promotion_priority_key m' p = player_promotion_priority_key m1 p"
    "\<And>q i. fst i \<notin> {Player, Observer} \<Longrightarrow> holds m' q i = holds m q i"
    using interest_spec [OF reachable_inv [OF assms(1)] assms(2), of simulation centers] by blast
  have "the (player_promotion_priority_key m' p) \<le> the (player_promotion_priority_key m' q)"
    if pq: "p |\<in>| dm_player_positions m' |-| dm_player_positions m" "q |\<in>| simulation |-| dm_player_positions m'" for p q
    unfolding m'(7) by (rule chosen_spec(4)) (use pq m'(4-6) in \<open>auto simp: fset_of_list_elem\<close>)
  then show ?thesis using m' by (intro exI [of _ m']) auto
qed

lemma interest_changes_witness:
  "\<exists>m1 m m'. run_op ReadLevels (set_topology distance_manager_new (cylinder_x 0 64)) = Some m1
     \<and> run_op (AddTicket Forced origin 33 (KeyChunk origin)) m1 = Some m
     \<and> set_aggregate_interest_positions_with_priority m {|origin, ChunkPos 1 0|} {|origin|} [origin] = Some m'
     \<and> dm_simulation m' = {|origin|} \<and> holds m' origin (Forced, 33, KeyChunk origin)"
proof -
  obtain m1 m where m: "run_op ReadLevels (set_topology distance_manager_new (cylinder_x 0 64)) = Some m1"
    "run_op (AddTicket Forced origin 33 (KeyChunk origin)) m1 = Some m" "dm_reachable 13 m"
    "holds m origin (Forced, 33, KeyChunk origin)" "dm_generation m \<le> 2" "dm_simulation m = {||}" "dm_resident m = {||}"
    "dm_max_active m = 4" using sample_run by blast
  have "dm_generation m + interest_cost m {|origin, ChunkPos 1 0|} < 2 ^ 64"
    using m(5) by (simp add: interest_cost_def m(6-8) fcard.rep_eq)
  from interest_changes [OF m(3) this, of "{|origin|}" "[origin]"]
  obtain m' where "set_aggregate_interest_positions_with_priority m {|origin, ChunkPos 1 0|} {|origin|} [origin] = Some m'"
    "dm_simulation m' = {|origin|}" "\<And>q i. fst i \<notin> {Player, Observer} \<Longrightarrow> holds m' q i = holds m q i" by blast
  then show ?thesis using m(1,2,4) by (intro exI [of _ m1] exI [of _ m] exI [of _ m']) simp
qed

text \<open>C32: every waiting chunk is promoted in the end.
  In every state reachable over a topology where no square of a ticket sees a place twice, while generations stay within 64 bits: each finished promotion admits exactly one waiting chunk as long as there is one, whichever active promotions finish; so with slots at all there is a run of as many completions as chunks wait, and every such run leaves all simulated chunks promoted.\<close>
theorem waiting_promotions_end:
  assumes "dm_reachable r m" and "dm_generation m + fcard (waiting m) * dm_max_active m < 2 ^ 64" and "0 < dm_max_active m"
  shows "(\<exists>ps m'. length ps = fcard (waiting m) \<and> finish_all ps m = Some m')
     \<and> (\<forall>ps m'. length ps \<le> fcard (waiting m) \<and> finish_all ps m = Some m' \<longrightarrow>
          fcard (waiting m') = fcard (waiting m) - length ps \<and> dm_simulation m' = dm_simulation m
          \<and> (length ps = fcard (waiting m) \<longrightarrow> dm_player_positions m' = dm_simulation m))"
proof -
  note inv = reachable_inv [OF assms(1)]
  have "fcard (waiting m') = fcard (waiting m) - length ps \<and> dm_simulation m' = dm_simulation m
          \<and> (length ps = fcard (waiting m) \<longrightarrow> dm_player_positions m' = dm_simulation m)"
    if ps: "length ps \<le> fcard (waiting m)" "finish_all ps m = Some m'" for ps m'
  proof -
    have "dm_generation m + length ps * dm_max_active m < 2 ^ 64"
      using assms(2) mult_le_mono1 [OF ps(1), of "dm_max_active m"] by linarith
    from finish_all_waiting [OF inv this ps(2)] have f: "fcard (waiting m') = fcard (waiting m) - length ps" "dm_inv r m'"
      "dm_simulation m' = dm_simulation m" by (simp_all add: settings_def)
    show ?thesis using f all_promoted [OF f(2)] by simp
  qed
  then show ?thesis using finish_all_runs [OF inv assms(2) order_refl assms(3)] by blast
qed

lemma waiting_promotions_end_witness:
  "\<exists>m1 m ps m'. run_op ReadLevels (set_topology distance_manager_new (cylinder_x 0 64)) = Some m1
     \<and> run_op (SetInterest five_chunks five_chunks [origin]) m1 = Some m \<and> finish_all ps m = Some m'
     \<and> dm_max_active m = 4 \<and> dm_player_positions m' = five_chunks"
proof -
  let ?m0 = "set_topology distance_manager_new (cylinder_x 0 64)"
  have r0: "dm_reachable 13 ?m0" by (rule start_reachable [OF wide_cylinder_fits])
  have f: "dm_generation ?m0 = 1" "dm_simulation ?m0 = {||}" "dm_resident ?m0 = {||}" "dm_max_active ?m0 = 4"
    "dm_tickets ?m0 = fmempty" "dm_cache ?m0 = None"
    by (simp_all add: set_topology_def distance_manager_new_def Let_def mark_tickets_changed_def next_u64_def
        topology_unbounded_def cylinder_x_def)
  define m1 where "m1 = ?m0\<lparr>dm_cache := Some (1, fmempty)\<rparr>"
  have s1: "run_op ReadLevels ?m0 = Some m1"
    by (simp add: active_levels_with_cache_status_def f no_tickets m1_def)
  have r1: "dm_reachable 13 m1" by (rule dm_reachable.step [OF r0 _ s1]) simp
  have cost: "interest_cost m1 five_chunks = 10" by (simp add: interest_cost_def m1_def f fcard.rep_eq)
  then have g: "dm_generation m1 + interest_cost m1 five_chunks < 2 ^ 64" by (simp add: m1_def f)
  obtain m where m: "run_op (SetInterest five_chunks five_chunks [origin]) m1 = Some m" "dm_simulation m = five_chunks"
    "dm_max_active m = dm_max_active m1" "dm_generation m \<le> dm_generation m1 + interest_cost m1 five_chunks"
    using interest_spec [OF reachable_inv [OF r1] g, of five_chunks "[origin]"] by blast
  have r: "dm_reachable 13 m" by (rule dm_reachable.step [OF r1 _ m(1)]) (use g in simp)
  have four: "dm_max_active m = 4" using m(3) by (simp add: m1_def f)
  have "fcard (waiting m) \<le> fcard five_chunks" by (rule fcard_mono) (auto simp: waiting_def m(2))
  then have w: "fcard (waiting m) \<le> 5" by (simp add: fcard.rep_eq)
  have "dm_generation m \<le> 11" using m(4) cost by (simp add: m1_def f)
  with w have "dm_generation m + fcard (waiting m) * dm_max_active m < 2 ^ 64" by (simp add: four)
  note final = waiting_promotions_end [OF r this]
  obtain ps m' where ps: "length ps = fcard (waiting m)" "finish_all ps m = Some m'" using final four by auto
  then have "dm_player_positions m' = five_chunks" using final four m(2) by (metis order_refl zero_less_numeral)
  then show ?thesis using s1 m(1) four ps(2) by blast
qed

text \<open>A ticket with a timeout lives exactly that many ticks, and one without lives on.\<close>
lemma ticket_lifetime:
  assumes "dm_tick m + n < 2 ^ 64" and "fmlookup (tickets_at m p) i = Some (dm_tick m)"
  shows "fmlookup (tickets_at ((purge_stale_tickets ^^ n) m) p) i =
    (case timeout_ticks (fst i) of Some t \<Rightarrow> if n \<le> t then Some (dm_tick m) else None | None \<Rightarrow> Some (dm_tick m))"
  using purge_many [OF assms] by simp

lemma ticket_lifetime_at_input:
  "let i = (PostTeleport, 33, KeyChunk origin);
       m = distance_manager_new\<lparr>dm_tickets := fmupd origin (fmupd i 0 fmempty) fmempty\<rparr>
   in fmlookup (tickets_at ((purge_stale_tickets ^^ 5) m) origin) i = Some 0
    \<and> fmlookup (tickets_at ((purge_stale_tickets ^^ 6) m) origin) i = None"
proof -
  let ?i = "(PostTeleport, 33, KeyChunk origin)"
  let ?m = "distance_manager_new\<lparr>dm_tickets := fmupd origin (fmupd ?i 0 fmempty) fmempty\<rparr>"
  have "fmlookup (tickets_at ?m origin) ?i = Some (dm_tick ?m)" "dm_tick ?m = 0"
    by (simp_all add: tickets_at_def distance_manager_new_def)
  then show ?thesis using ticket_lifetime [of ?m 5 origin ?i] ticket_lifetime [of ?m 6 origin ?i] by (simp add: Let_def)
qed

section \<open>Squares that see a place twice\<close>

lemma narrow_updates:
  "map_option (\<lambda>us. (us = [], map_of (rev us) origin))
     (level_updates (cylinder_x 0 8) origin 31 fmempty (square_offsets 13)) = Some (False, Some 39)"
  by code_simp

text \<open>C33: On a cylinder of eight chunks the square of a level-31 ticket sees its own chunk three times. The
  sweep keeps the least level; the update of the cached map keeps the last one written, so a reader who
  asks after the ticket was added gets level 39 for the chunk whose ticket has level 31.\<close>
theorem narrow_cylinder_level:
  "\<exists>m1 m2 m3. active_levels_with_cache_status (set_topology distance_manager_new (cylinder_x 0 8)) = Some (fmempty, False, m1)
     \<and> add_region_ticket m1 Forced origin 2 (KeyChunk origin) = Some m2
     \<and> ticket_level_at m2 origin = 31 \<and> active_level_at m2 origin = Some (39, m3)"
proof -
  let ?m0 = "set_topology distance_manager_new (cylinder_x 0 8)"
  let ?m1 = "?m0\<lparr>dm_cache := Some (1, fmempty)\<rparr>"
  have f: "dm_generation ?m0 = 1" "dm_tickets ?m0 = fmempty" "dm_topology ?m0 = cylinder_x 0 8" "dm_cache ?m0 = None" "dm_tick ?m0 = 0"
    by (simp_all add: set_topology_def distance_manager_new_def Let_def mark_tickets_changed_def next_u64_def
        topology_unbounded_def cylinder_x_def)
  have s1: "active_levels_with_cache_status ?m0 = Some (fmempty, False, ?m1)"
    by (simp add: active_levels_with_cache_status_def f no_tickets)
  obtain us where us: "level_updates (cylinder_x 0 8) origin 31 fmempty (square_offsets 13) = Some us"
    "us \<noteq> []" "map_of (rev us) origin = Some 39" using narrow_updates by auto
  let ?i = "(Forced, 31, KeyChunk origin)"
  let ?L = "fold (\<lambda>(pos, level) levels. fmupd pos level levels) us fmempty"
  let ?m2 = "?m1\<lparr>dm_tickets := fmupd origin (fmupd ?i 0 fmempty) fmempty, dm_generation := 2, dm_cache := Some (2, ?L)\<rparr>"
  have first: "first_level (fmupd ?i 0 fmempty) = Some 31" by (simp add: first_level_fmupd ticket_level_def)
  have w: "wrap_i32 31 = 31" "wrap_i32 13 = 13" by (simp_all add: wrap_i32_id in_i32_def)
  have s2: "add_region_ticket ?m1 Forced origin 2 (KeyChunk origin) = Some ?m2"
    using us(1,2) by (simp add: add_region_ticket_def add_ticket_def tickets_at_def f first w Let_def next_u64_def
        apply_ticket_addition_to_active_levels_def)
  have "fmlookup ?L origin = Some 39" by (simp add: fold_updates_lookup us(3))
  then have "active_level_at ?m2 origin = Some (39, ?m2)"
    by (simp add: active_level_at_def active_levels_with_cache_status_def)
  moreover have "ticket_level_at ?m2 origin = 31" by (simp add: ticket_level_at_def tickets_at_def first)
  ultimately show ?thesis using s1 s2 by blast
qed

end
