(* ===== verification/ServerViews.thy ===== *)
theory ServerViews imports ServerTickets CoreSnapshot
begin

text \<open>
  Views of \<open>native/crates/mclone-server/src/player_chunk_tracking.rs\<close>: who looks, what a request for a
  view becomes under the policy of the server, and the chunks that a view covers.  Player and observer
  identities are their numbers.  An \<open>expect\<close> on a failed topology check is \<open>None\<close>.
\<close>

datatype dimension_interest_source = SourcePlayer nat | SourceObserver nat

datatype observer_simulation_interest = ResidencyOnly | BlockAndEntityTicking

record chunk_view_data =
  cv_center :: chunk_pos
  cv_render_distance :: nat
  cv_tracking_radius :: nat

section \<open>Policy\<close>

abbreviation (input) java_min_view_distance :: nat where "java_min_view_distance \<equiv> 3"
abbreviation (input) java_max_view_distance :: nat where "java_max_view_distance \<equiv> 33"
abbreviation (input) default_tracking_radius :: nat where "default_tracking_radius \<equiv> 11"

record tracking_policy =
  tp_max_render_distance :: nat
  tp_max_tracking_radius :: nat
  tp_hysteresis :: nat

definition policy_new :: "nat \<Rightarrow> nat \<Rightarrow> tracking_policy" where
  "policy_new max_render max_radius =
     \<lparr>tp_max_render_distance = max_render, tp_max_tracking_radius = max_radius, tp_hysteresis = 0\<rparr>"

definition with_unload_hysteresis_chunks :: "tracking_policy \<Rightarrow> nat \<Rightarrow> tracking_policy" where
  "with_unload_hysteresis_chunks policy chunks = policy\<lparr>tp_hysteresis := chunks\<rparr>"

definition dedicated_default :: tracking_policy where
  "dedicated_default = policy_new default_tracking_radius default_tracking_radius"

definition java_max :: tracking_policy where
  "java_max = policy_new java_max_view_distance java_max_view_distance"

definition local_integrated :: tracking_policy where
  "local_integrated = with_unload_hysteresis_chunks java_max 1"

definition session_limits :: "tracking_policy \<Rightarrow> nat \<times> nat" where
  "session_limits policy = (min (tp_max_render_distance policy) java_max_view_distance,
     min (tp_max_tracking_radius policy) java_max_view_distance)"

definition clamp_view :: "tracking_policy \<Rightarrow> chunk_view_data \<Rightarrow> chunk_view_data" where
  "clamp_view policy requested =
     (let max_render_distance = min (tp_max_render_distance policy) java_max_view_distance;
          max_chunk_tracking_radius = min (tp_max_tracking_radius policy) java_max_view_distance in
      \<lparr>cv_center = cv_center requested,
       cv_render_distance = min (cv_render_distance requested) max_render_distance,
       cv_tracking_radius = min (cv_tracking_radius requested) max_chunk_tracking_radius\<rparr>)"

definition sat_add_u32 :: "nat \<Rightarrow> nat \<Rightarrow> nat" where
  "sat_add_u32 a b = min (a + b) (2 ^ 32 - 1)"

definition unload_radius :: "tracking_policy \<Rightarrow> chunk_view_data \<Rightarrow> nat" where
  "unload_radius policy accepted =
     (if cv_tracking_radius accepted < java_min_view_distance then cv_tracking_radius accepted
      else sat_add_u32 (cv_tracking_radius accepted) (tp_hysteresis policy))"

definition validate_local_integrated_chunk_view_topology ::
  "horizontal_topology \<Rightarrow> chunk_view_data \<Rightarrow> topology_error + unit" where
  "validate_local_integrated_chunk_view_topology topology requested = (case topology_validate topology of
     Inl e \<Rightarrow> Inl e
   | Inr _ \<Rightarrow>
       let accepted = clamp_view local_integrated requested in
       (case validate_one_lift_radius topology (cv_tracking_radius accepted) of
          Inl e \<Rightarrow> Inl e
        | Inr _ \<Rightarrow> validate_one_lift_radius topology (unload_radius local_integrated accepted)))"

definition chunk_positions_for_center_radius_in ::
  "horizontal_topology \<Rightarrow> chunk_pos \<Rightarrow> nat \<Rightarrow> chunk_pos fset option" where
  "chunk_positions_for_center_radius_in topology center radius = do {
     r \<leftarrow> chunk_view topology center radius;
     (case r of Inl e \<Rightarrow> None | Inr entries \<Rightarrow> Some (fset_of_list (map cl_canonical entries)))
   }"

definition chunk_positions_for_view_in :: "horizontal_topology \<Rightarrow> chunk_view_data \<Rightarrow> chunk_pos fset option" where
  "chunk_positions_for_view_in topology view =
     chunk_positions_for_center_radius_in topology (cv_center view) (cv_tracking_radius view)"

end
