(* ===== verification/ServerTracking.thy ===== *)
theory ServerTracking imports ServerViews
begin

text \<open>
  Interest and update routing of \<open>native/crates/mclone-server/src/player_chunk_tracking.rs\<close>: what
  chunks a player or a player-free observer looks at, the aggregate sets handed to the ticket manager,
  and the queues of updates per source.  Player and observer identities are their numbers.  Updates
  that the tracking does not look into are a type variable, as is the pose of a position update, which
  is floating point.  An \<open>expect\<close> on a failed topology check is \<open>None\<close>.
\<close>

record section_block_update =
  sbu_x :: nat
  sbu_y :: nat
  sbu_z :: nat
  sbu_state :: block_state_id

datatype ('p, 'o) server_update =
    ChunkSnapshotUpdate chunk_snapshot
  | ChunkUnloadUpdate chunk_pos
  | SectionBlockUpdates chunk_pos int "section_block_update list"
  | PlayerPositionUpd 'p
  | OtherUpdate 'o

section \<open>State\<close>

record player_view_state =
  vs_requested :: "chunk_view_data option"
  vs_accepted :: "chunk_view_data option"
  vs_visible :: "chunk_pos fset"
  vs_published :: "chunk_pos fset"
  vs_queued_snapshots :: nat
  vs_queued_unloads :: nat
  vs_drained_snapshots :: nat
  vs_drained_unloads :: nat

record observer_view_state =
  os_view :: player_view_state
  os_simulation :: observer_simulation_interest

record view_change =
  vc_accepted :: "chunk_view_data option"
  vc_added :: "chunk_pos list"
  vc_removed :: "chunk_pos list"
  vc_aggregate_changed :: bool
  vc_centers_changed :: bool

record ('p, 'o) chunk_tracking =
  ct_policy :: tracking_policy
  ct_topology :: horizontal_topology
  ct_players :: "(nat, player_view_state) fmap"
  ct_observers :: "(nat, observer_view_state) fmap"
  ct_player_positions :: "chunk_pos fset"
  ct_resident :: "chunk_pos fset"
  ct_simulation :: "chunk_pos fset"
  ct_pending :: "(nat, ('p, 'o) server_update list) fmap"
  ct_pending_observers :: "(nat, ('p, 'o) server_update list) fmap"

definition view_state_default :: player_view_state where
  "view_state_default = \<lparr>vs_requested = None, vs_accepted = None, vs_visible = {||}, vs_published = {||},
     vs_queued_snapshots = 0, vs_queued_unloads = 0, vs_drained_snapshots = 0, vs_drained_unloads = 0\<rparr>"

definition observer_state_default :: observer_view_state where
  "observer_state_default = \<lparr>os_view = view_state_default, os_simulation = ResidencyOnly\<rparr>"

definition with_topology :: "tracking_policy \<Rightarrow> horizontal_topology \<Rightarrow> ('p, 'o) chunk_tracking option" where
  "with_topology policy topology = (case topology_validate topology of
     Inl e \<Rightarrow> None
   | Inr _ \<Rightarrow> Some \<lparr>ct_policy = policy, ct_topology = topology, ct_players = fmempty, ct_observers = fmempty,
       ct_player_positions = {||}, ct_resident = {||}, ct_simulation = {||}, ct_pending = fmempty,
       ct_pending_observers = fmempty\<rparr>)"

text \<open>\<open>entry(key).or_default()\<close>.\<close>

definition or_default :: "'k \<Rightarrow> 'v \<Rightarrow> ('k, 'v) fmap \<Rightarrow> ('k, 'v) fmap" where
  "or_default k v m = (case fmlookup m k of Some _ \<Rightarrow> m | None \<Rightarrow> fmupd k v m)"

definition all_visible :: "player_view_state fset \<Rightarrow> chunk_pos fset" where
  "all_visible states = ffUnion (vs_visible |`| states)"

definition rebuild_aggregate_interest_positions ::
  "('p, 'o) chunk_tracking \<Rightarrow> bool \<times> ('p, 'o) chunk_tracking" where
  "rebuild_aggregate_interest_positions c =
     (let player_positions = all_visible (fmran (ct_players c));
          observer_positions = all_visible (os_view |`| fmran (ct_observers c));
          observer_simulation_positions = all_visible
            (os_view |`| ffilter (\<lambda>state. os_simulation state = BlockAndEntityTicking) (fmran (ct_observers c)));
          resident_positions = player_positions |\<union>| observer_positions;
          simulation_positions = player_positions |\<union>| observer_simulation_positions;
          changed = (player_positions \<noteq> ct_player_positions c \<or> resident_positions \<noteq> ct_resident c
            \<or> simulation_positions \<noteq> ct_simulation c)
      in (changed, c\<lparr>ct_player_positions := player_positions, ct_resident := resident_positions,
            ct_simulation := simulation_positions\<rparr>))"

definition aggregate_interest_priority_centers :: "('p, 'o) chunk_tracking \<Rightarrow> chunk_pos list" where
  "aggregate_interest_priority_centers c =
     List.map_filter (\<lambda>(_, state). map_option cv_center (vs_accepted state)) (sorted_list_of_fmap (ct_players c))
   @ List.map_filter (\<lambda>(_, state). map_option cv_center (vs_accepted (os_view state)))
       (sorted_list_of_fmap (ct_observers c))"

section \<open>Views\<close>

definition add_player :: "('p, 'o) chunk_tracking \<Rightarrow> nat \<Rightarrow> ('p, 'o) chunk_tracking" where
  "add_player c player_id = c\<lparr>ct_players := or_default player_id view_state_default (ct_players c),
     ct_pending := or_default player_id [] (ct_pending c)\<rparr>"

definition remove_player :: "('p, 'o) chunk_tracking \<Rightarrow> nat \<Rightarrow> view_change \<times> ('p, 'o) chunk_tracking" where
  "remove_player c player_id =
     (let removed = (case fmlookup (ct_players c) player_id of Some state \<Rightarrow> vs_visible state | None \<Rightarrow> {||});
          c = c\<lparr>ct_players := fmdrop player_id (ct_players c), ct_pending := fmdrop player_id (ct_pending c)\<rparr>;
          (aggregate_changed, c) = rebuild_aggregate_interest_positions c
      in (\<lparr>vc_accepted = None, vc_added = [], vc_removed = sorted_list_of_fset removed,
           vc_aggregate_changed = aggregate_changed, vc_centers_changed = True\<rparr>, c))"

text \<open>The visible set of a source whose accepted view changes, shared by players and observers.\<close>

definition next_visible ::
  "('p, 'o) chunk_tracking \<Rightarrow> chunk_view_data \<Rightarrow> chunk_pos fset \<Rightarrow> chunk_pos fset option" where
  "next_visible c accepted old_visible = do {
     target_visible \<leftarrow> chunk_positions_for_view_in (ct_topology c) accepted;
     unload_visible \<leftarrow> chunk_positions_for_center_radius_in (ct_topology c) (cv_center accepted)
       (unload_radius (ct_policy c) accepted);
     let retained_visible = old_visible |\<inter>| unload_visible;
     Some (target_visible |\<union>| retained_visible)
   }"

definition set_requested_view ::
  "('p, 'o) chunk_tracking \<Rightarrow> nat \<Rightarrow> chunk_view_data \<Rightarrow> (view_change \<times> ('p, 'o) chunk_tracking) option" where
  "set_requested_view c player_id requested = do {
     let c = add_player c player_id;
     let old_priority_centers = aggregate_interest_priority_centers c;
     let accepted = clamp_view (ct_policy c) requested;
     state \<leftarrow> fmlookup (ct_players c) player_id;
     let old_visible = vs_visible state;
     new_visible \<leftarrow> next_visible c accepted old_visible;
     let state = state\<lparr>vs_visible := new_visible, vs_requested := Some requested, vs_accepted := Some accepted\<rparr>;
     let added_chunks = sorted_list_of_fset (vs_visible state |-| old_visible);
     let removed_chunks = sorted_list_of_fset (old_visible |-| vs_visible state);
     let c = c\<lparr>ct_players := fmupd player_id state (ct_players c)\<rparr>;
     let (aggregate_changed, c) = rebuild_aggregate_interest_positions c;
     Some (\<lparr>vc_accepted = Some accepted, vc_added = added_chunks, vc_removed = removed_chunks,
       vc_aggregate_changed = aggregate_changed,
       vc_centers_changed = (aggregate_interest_priority_centers c \<noteq> old_priority_centers)\<rparr>, c)
   }"

definition accepted_view :: "('p, 'o) chunk_tracking \<Rightarrow> nat \<Rightarrow> chunk_view_data option" where
  "accepted_view c player_id = Option.bind (fmlookup (ct_players c) player_id) vs_accepted"

definition add_observer ::
  "('p, 'o) chunk_tracking \<Rightarrow> nat \<Rightarrow> observer_simulation_interest \<Rightarrow> ('p, 'o) chunk_tracking" where
  "add_observer c observer_id simulation =
     (let state = (case fmlookup (ct_observers c) observer_id of Some state \<Rightarrow> state | None \<Rightarrow> observer_state_default) in
      c\<lparr>ct_observers := fmupd observer_id (state\<lparr>os_simulation := simulation\<rparr>) (ct_observers c),
        ct_pending_observers := or_default observer_id [] (ct_pending_observers c)\<rparr>)"

definition remove_observer :: "('p, 'o) chunk_tracking \<Rightarrow> nat \<Rightarrow> view_change \<times> ('p, 'o) chunk_tracking" where
  "remove_observer c observer_id =
     (let removed = (case fmlookup (ct_observers c) observer_id of
            Some state \<Rightarrow> vs_visible (os_view state) | None \<Rightarrow> {||});
          c = c\<lparr>ct_observers := fmdrop observer_id (ct_observers c),
                ct_pending_observers := fmdrop observer_id (ct_pending_observers c)\<rparr>;
          (aggregate_changed, c) = rebuild_aggregate_interest_positions c
      in (\<lparr>vc_accepted = None, vc_added = [], vc_removed = sorted_list_of_fset removed,
           vc_aggregate_changed = aggregate_changed, vc_centers_changed = True\<rparr>, c))"

definition set_observer_requested_view ::
  "('p, 'o) chunk_tracking \<Rightarrow> nat \<Rightarrow> chunk_view_data \<Rightarrow> observer_simulation_interest
    \<Rightarrow> (view_change \<times> ('p, 'o) chunk_tracking) option" where
  "set_observer_requested_view c observer_id requested simulation = do {
     let c = add_observer c observer_id simulation;
     let old_priority_centers = aggregate_interest_priority_centers c;
     let accepted = clamp_view (ct_policy c) requested;
     state \<leftarrow> fmlookup (ct_observers c) observer_id;
     let old_visible = vs_visible (os_view state);
     new_visible \<leftarrow> next_visible c accepted old_visible;
     let view = (os_view state)\<lparr>vs_visible := new_visible, vs_requested := Some requested,
       vs_accepted := Some accepted\<rparr>;
     let added_chunks = sorted_list_of_fset (vs_visible view |-| old_visible);
     let removed_chunks = sorted_list_of_fset (old_visible |-| vs_visible view);
     let c = c\<lparr>ct_observers := fmupd observer_id (state\<lparr>os_view := view, os_simulation := simulation\<rparr>)
       (ct_observers c)\<rparr>;
     let (aggregate_changed, c) = rebuild_aggregate_interest_positions c;
     Some (\<lparr>vc_accepted = Some accepted, vc_added = added_chunks, vc_removed = removed_chunks,
       vc_aggregate_changed = aggregate_changed,
       vc_centers_changed = (aggregate_interest_priority_centers c \<noteq> old_priority_centers)\<rparr>, c)
   }"

definition accepted_observer_view :: "('p, 'o) chunk_tracking \<Rightarrow> nat \<Rightarrow> chunk_view_data option" where
  "accepted_observer_view c observer_id =
     Option.bind (fmlookup (ct_observers c) observer_id) (\<lambda>state. vs_accepted (os_view state))"

definition player_tracks_chunk :: "('p, 'o) chunk_tracking \<Rightarrow> nat \<Rightarrow> chunk_pos \<Rightarrow> bool" where
  "player_tracks_chunk c player_id pos \<longleftrightarrow>
     (case fmlookup (ct_players c) player_id of Some state \<Rightarrow> pos |\<in>| vs_visible state | None \<Rightarrow> False)"

fun source_tracks_chunk :: "('p, 'o) chunk_tracking \<Rightarrow> dimension_interest_source \<Rightarrow> chunk_pos \<Rightarrow> bool" where
  "source_tracks_chunk c (SourcePlayer player_id) pos = player_tracks_chunk c player_id pos"
| "source_tracks_chunk c (SourceObserver observer_id) pos = (case fmlookup (ct_observers c) observer_id of
     Some state \<Rightarrow> pos |\<in>| vs_visible (os_view state) | None \<Rightarrow> False)"

definition interest_sources :: "('p, 'o) chunk_tracking \<Rightarrow> dimension_interest_source list" where
  "interest_sources c = map SourcePlayer (sorted_list_of_fset (fmdom (ct_players c)))
     @ map SourceObserver (sorted_list_of_fset (fmdom (ct_observers c)))"

definition players_tracking_chunk :: "('p, 'o) chunk_tracking \<Rightarrow> chunk_pos \<Rightarrow> nat list" where
  "players_tracking_chunk c pos =
     map fst (filter (\<lambda>(_, state). pos |\<in>| vs_visible state) (sorted_list_of_fmap (ct_players c)))"

definition sources_tracking_chunk :: "('p, 'o) chunk_tracking \<Rightarrow> chunk_pos \<Rightarrow> dimension_interest_source list" where
  "sources_tracking_chunk c pos = map SourcePlayer (players_tracking_chunk c pos)
     @ map (SourceObserver \<circ> fst)
         (filter (\<lambda>(_, state). pos |\<in>| vs_visible (os_view state)) (sorted_list_of_fmap (ct_observers c)))"

section \<open>Queues\<close>

text \<open>\<open>entry(key).or_default().push_back(update)\<close>.\<close>

definition push_back :: "nat \<Rightarrow> 'u \<Rightarrow> (nat, 'u list) fmap \<Rightarrow> (nat, 'u list) fmap" where
  "push_back k u m = fmupd k ((case fmlookup m k of Some us \<Rightarrow> us | None \<Rightarrow> []) @ [u]) m"

definition queue_update_for_player ::
  "('p, 'o) chunk_tracking \<Rightarrow> nat \<Rightarrow> ('p, 'o) server_update \<Rightarrow> ('p, 'o) chunk_tracking" where
  "queue_update_for_player c player_id upd =
     (if player_id |\<in>| fmdom (ct_players c) then c\<lparr>ct_pending := push_back player_id upd (ct_pending c)\<rparr> else c)"

definition queue_update_for_observer ::
  "('p, 'o) chunk_tracking \<Rightarrow> nat \<Rightarrow> ('p, 'o) server_update \<Rightarrow> ('p, 'o) chunk_tracking" where
  "queue_update_for_observer c observer_id upd =
     (if observer_id |\<in>| fmdom (ct_observers c)
      then c\<lparr>ct_pending_observers := push_back observer_id upd (ct_pending_observers c)\<rparr> else c)"

fun queue_update_for_source ::
  "('p, 'o) chunk_tracking \<Rightarrow> dimension_interest_source \<Rightarrow> ('p, 'o) server_update \<Rightarrow> ('p, 'o) chunk_tracking" where
  "queue_update_for_source c (SourcePlayer player_id) upd = queue_update_for_player c player_id upd"
| "queue_update_for_source c (SourceObserver observer_id) upd = queue_update_for_observer c observer_id upd"

text \<open>\<open>if let Some(state) = self.players.get_mut(&player_id)\<close>, and the same for observers.\<close>

definition with_player ::
  "('p, 'o) chunk_tracking \<Rightarrow> nat \<Rightarrow> (player_view_state \<Rightarrow> player_view_state) \<Rightarrow> ('p, 'o) chunk_tracking" where
  "with_player c player_id f = (case fmlookup (ct_players c) player_id of
     Some state \<Rightarrow> c\<lparr>ct_players := fmupd player_id (f state) (ct_players c)\<rparr> | None \<Rightarrow> c)"

definition with_observer_view ::
  "('p, 'o) chunk_tracking \<Rightarrow> nat \<Rightarrow> (player_view_state \<Rightarrow> player_view_state) \<Rightarrow> ('p, 'o) chunk_tracking" where
  "with_observer_view c observer_id f = (case fmlookup (ct_observers c) observer_id of
     Some state \<Rightarrow> c\<lparr>ct_observers := fmupd observer_id (state\<lparr>os_view := f (os_view state)\<rparr>) (ct_observers c)\<rparr>
   | None \<Rightarrow> c)"

definition queue_unload_for_player :: "('p, 'o) chunk_tracking \<Rightarrow> nat \<Rightarrow> chunk_pos \<Rightarrow> ('p, 'o) chunk_tracking" where
  "queue_unload_for_player c player_id pos = queue_update_for_player
     (with_player c player_id (\<lambda>state. state\<lparr>vs_published := vs_published state |-| {|pos|},
        vs_queued_unloads := sat_add_u64 (vs_queued_unloads state) 1\<rparr>)) player_id (ChunkUnloadUpdate pos)"

definition queue_unload_for_observer :: "('p, 'o) chunk_tracking \<Rightarrow> nat \<Rightarrow> chunk_pos \<Rightarrow> ('p, 'o) chunk_tracking" where
  "queue_unload_for_observer c observer_id pos = queue_update_for_observer
     (with_observer_view c observer_id (\<lambda>view. view\<lparr>vs_published := vs_published view |-| {|pos|}\<rparr>))
     observer_id (ChunkUnloadUpdate pos)"

fun queue_unload_for_source ::
  "chunk_pos \<Rightarrow> dimension_interest_source \<Rightarrow> ('p, 'o) chunk_tracking \<Rightarrow> ('p, 'o) chunk_tracking" where
  "queue_unload_for_source pos (SourcePlayer player_id) c = queue_unload_for_player c player_id pos"
| "queue_unload_for_source pos (SourceObserver observer_id) c = queue_unload_for_observer c observer_id pos"

definition queue_unload_for_tracking_sources ::
  "('p, 'o) chunk_tracking \<Rightarrow> chunk_pos \<Rightarrow> ('p, 'o) chunk_tracking" where
  "queue_unload_for_tracking_sources c pos = fold (queue_unload_for_source pos) (sources_tracking_chunk c pos) c"

definition queue_snapshot_for_player ::
  "('p, 'o) chunk_tracking \<Rightarrow> nat \<Rightarrow> chunk_snapshot \<Rightarrow> ('p, 'o) chunk_tracking" where
  "queue_snapshot_for_player c player_id snapshot = queue_update_for_player
     (with_player c player_id (\<lambda>state. state\<lparr>vs_published := finsert (cs_pos snapshot) (vs_published state),
        vs_queued_snapshots := sat_add_u64 (vs_queued_snapshots state) 1\<rparr>)) player_id (ChunkSnapshotUpdate snapshot)"

definition queue_snapshot_for_observer ::
  "('p, 'o) chunk_tracking \<Rightarrow> nat \<Rightarrow> chunk_snapshot \<Rightarrow> ('p, 'o) chunk_tracking" where
  "queue_snapshot_for_observer c observer_id snapshot = queue_update_for_observer
     (with_observer_view c observer_id (\<lambda>view. view\<lparr>vs_published := finsert (cs_pos snapshot) (vs_published view)\<rparr>))
     observer_id (ChunkSnapshotUpdate snapshot)"

fun queue_snapshot_for_source ::
  "chunk_snapshot \<Rightarrow> dimension_interest_source \<Rightarrow> ('p, 'o) chunk_tracking \<Rightarrow> ('p, 'o) chunk_tracking" where
  "queue_snapshot_for_source snapshot (SourcePlayer player_id) c = queue_snapshot_for_player c player_id snapshot"
| "queue_snapshot_for_source snapshot (SourceObserver observer_id) c =
     queue_snapshot_for_observer c observer_id snapshot"

definition queue_snapshot_for_tracking_sources ::
  "('p, 'o) chunk_tracking \<Rightarrow> chunk_snapshot \<Rightarrow> ('p, 'o) chunk_tracking" where
  "queue_snapshot_for_tracking_sources c snapshot =
     fold (queue_snapshot_for_source snapshot) (sources_tracking_chunk c (cs_pos snapshot)) c"

definition queue_section_updates_for_tracking_sources ::
  "('p, 'o) chunk_tracking \<Rightarrow> chunk_pos \<Rightarrow> int \<Rightarrow> section_block_update list \<Rightarrow> ('p, 'o) chunk_tracking" where
  "queue_section_updates_for_tracking_sources c pos section_y updates =
     (if updates = [] then c
      else fold (\<lambda>source c. queue_update_for_source c source (SectionBlockUpdates pos section_y updates))
        (sources_tracking_chunk c pos) c)"

fun count_drained :: "('p, 'o) server_update \<Rightarrow> player_view_state \<Rightarrow> player_view_state" where
  "count_drained (ChunkSnapshotUpdate _) state =
     state\<lparr>vs_drained_snapshots := sat_add_u64 (vs_drained_snapshots state) 1\<rparr>"
| "count_drained (ChunkUnloadUpdate _) state =
     state\<lparr>vs_drained_unloads := sat_add_u64 (vs_drained_unloads state) 1\<rparr>"
| "count_drained _ state = state"

definition drain_updates ::
  "('p, 'o) chunk_tracking \<Rightarrow> nat \<Rightarrow> ('p, 'o) server_update list \<times> ('p, 'o) chunk_tracking" where
  "drain_updates c player_id =
     (let updates = (case fmlookup (ct_pending c) player_id of Some us \<Rightarrow> us | None \<Rightarrow> []);
          c = c\<lparr>ct_pending := fmupd player_id [] (ct_pending c)\<rparr>
      in (updates, with_player c player_id (fold count_drained updates)))"

definition drain_observer_updates ::
  "('p, 'o) chunk_tracking \<Rightarrow> nat \<Rightarrow> ('p, 'o) server_update list \<times> ('p, 'o) chunk_tracking" where
  "drain_observer_updates c observer_id =
     ((case fmlookup (ct_pending_observers c) observer_id of Some us \<Rightarrow> us | None \<Rightarrow> []),
      c\<lparr>ct_pending_observers := fmupd observer_id [] (ct_pending_observers c)\<rparr>)"

fun server_update_is_bulk_chunk_data :: "('p, 'o) server_update \<Rightarrow> bool" where
  "server_update_is_bulk_chunk_data (ChunkSnapshotUpdate _) = True"
| "server_update_is_bulk_chunk_data (SectionBlockUpdates _ _ _) = True"
| "server_update_is_bulk_chunk_data (ChunkUnloadUpdate _) = True"
| "server_update_is_bulk_chunk_data _ = False"

text \<open>The loop that takes the queue apart.\<close>

fun split_bulk ::
  "('p, 'o) server_update list \<Rightarrow> ('p, 'o) server_update list \<Rightarrow> ('p, 'o) server_update list
    \<Rightarrow> ('p, 'o) server_update list \<times> ('p, 'o) server_update list" where
  "split_bulk [] bulk control = (bulk, control)"
| "split_bulk (upd # pending) bulk control =
     (if server_update_is_bulk_chunk_data upd then split_bulk pending (bulk @ [upd]) control
      else split_bulk pending bulk (control @ [upd]))"

definition queue_player_position_before_chunk_updates ::
  "('p, 'o) chunk_tracking \<Rightarrow> nat \<Rightarrow> 'p \<Rightarrow> ('p, 'o) chunk_tracking" where
  "queue_player_position_before_chunk_updates c player_id pose =
     (if player_id |\<notin>| fmdom (ct_players c) then c
      else
        let pending = (case fmlookup (ct_pending c) player_id of Some us \<Rightarrow> us | None \<Rightarrow> []);
            (bulk, control) = split_bulk pending [] []
        in c\<lparr>ct_pending := fmupd player_id ((control @ [PlayerPositionUpd pose]) @ bulk) (ct_pending c)\<rparr>)"

end
