(* ===== verification/ServerTrackingRuns.thy ===== *)
theory ServerTrackingRuns imports ServerTracking ServerTicketQueries
begin

text \<open>
  Runs of the chunk tracking.  Every source, a player or an observer, has a view and a queue; the client
  behind it holds the chunks that the drained updates gave it.  A run interleaves joins, views, updates
  and drains in any order.  Three invariants hold along it: applying the queue to what the client holds
  gives the published set, the aggregate sets are the unions of the visible sets, and visible chunks are
  chunks of the world.
\<close>

section \<open>Sources\<close>

fun view_of :: "('p, 'o) chunk_tracking \<Rightarrow> dimension_interest_source \<Rightarrow> player_view_state option" where
  "view_of c (SourcePlayer n) = fmlookup (ct_players c) n"
| "view_of c (SourceObserver n) = map_option os_view (fmlookup (ct_observers c) n)"

fun pending_of :: "('p, 'o) chunk_tracking \<Rightarrow> dimension_interest_source \<Rightarrow> ('p, 'o) server_update list" where
  "pending_of c (SourcePlayer n) = (case fmlookup (ct_pending c) n of Some us \<Rightarrow> us | None \<Rightarrow> [])"
| "pending_of c (SourceObserver n) = (case fmlookup (ct_pending_observers c) n of Some us \<Rightarrow> us | None \<Rightarrow> [])"

lemmas source_simps = view_of.simps pending_of.simps
declare source_simps [simp del]

definition seen :: "('p, 'o) chunk_tracking \<Rightarrow> dimension_interest_source \<Rightarrow> chunk_pos fset" where
  "seen c s = (case view_of c s of Some v \<Rightarrow> vs_visible v | None \<Rightarrow> {||})"

definition ticking :: "('p, 'o) chunk_tracking \<Rightarrow> nat \<Rightarrow> bool" where
  "ticking c n \<longleftrightarrow> (\<exists>st. fmlookup (ct_observers c) n = Some st \<and> os_simulation st = BlockAndEntityTicking)"

text \<open>What an update does to the chunks a client holds.\<close>

fun receive :: "('p, 'o) server_update \<Rightarrow> chunk_pos fset \<Rightarrow> chunk_pos fset" where
  "receive (ChunkSnapshotUpdate snapshot) held = finsert (cs_pos snapshot) held"
| "receive (ChunkUnloadUpdate pos) held = held |-| {|pos|}"
| "receive _ held = held"

definition delivers :: "('p, 'o) chunk_tracking \<Rightarrow> dimension_interest_source \<Rightarrow> chunk_pos fset \<Rightarrow> bool" where
  "delivers c s held \<longleftrightarrow> (case view_of c s of
     Some v \<Rightarrow> fold receive (pending_of c s) held = vs_published v | None \<Rightarrow> pending_of c s = [] \<and> held = {||})"

definition aggregate_ok :: "('p, 'o) chunk_tracking \<Rightarrow> bool" where
  "aggregate_ok c \<longleftrightarrow> (\<forall>p.
     (p |\<in>| ct_player_positions c \<longleftrightarrow> (\<exists>n. p |\<in>| seen c (SourcePlayer n)))
   \<and> (p |\<in>| ct_resident c \<longleftrightarrow> (\<exists>s. p |\<in>| seen c s))
   \<and> (p |\<in>| ct_simulation c \<longleftrightarrow> (\<exists>n. p |\<in>| seen c (SourcePlayer n))
        \<or> (\<exists>n. ticking c n \<and> p |\<in>| seen c (SourceObserver n))))"

definition on_world :: "('p, 'o) chunk_tracking \<Rightarrow> bool" where
  "on_world c \<longleftrightarrow> topology_wf (ct_topology c) \<and> (\<forall>s q. q |\<in>| seen c s \<longrightarrow> on_topology (ct_topology c) q)"

section \<open>Squares\<close>

lemma positions_square:
  assumes wf: "topology_wf t" and lift: "validate_one_lift_radius t r = Inr ()" and r: "r < 2 ^ 31"
  shows "\<exists>S. chunk_positions_for_center_radius_in t center r = Some S
     \<and> (\<forall>q. q |\<in>| S \<longleftrightarrow> (\<exists>dx dz. \<bar>dx\<bar> \<le> int r \<and> \<bar>dz\<bar> \<le> int r \<and> neighbor_chunk t center dx dz = Some (Some q)))"
proof -
  let ?ls = "List.map_filter (lift_at t center) (view_offsets (int r))"
  have run: "chunk_positions_for_center_radius_in t center r = Some (fset_of_list (map cl_canonical ?ls))"
    by (simp add: chunk_positions_for_center_radius_in_def chunk_view_run [OF assms])
  have "q |\<in>| fset_of_list (map cl_canonical ?ls) \<longleftrightarrow>
      (\<exists>off\<in>set (view_offsets (int r)). \<exists>l. lift_at t center off = Some l \<and> q = cl_canonical l)" for q
    unfolding fset_of_list_elem set_map set_map_filter by blast
  also have "\<dots> q \<longleftrightarrow> (\<exists>dx dz. \<bar>dx\<bar> \<le> int r \<and> \<bar>dz\<bar> \<le> int r \<and> neighbor_chunk t center dx dz = Some (Some q))" for q
  proof -
    have sq: "off \<in> set (view_offsets (int r)) \<longleftrightarrow> \<bar>fst off\<bar> \<le> int r \<and> \<bar>snd off\<bar> \<le> int r" for off
      by (cases off) auto
    show ?thesis unfolding Bex_def sq split_paired_Ex fst_conv snd_conv
      by (auto simp: neighbor_chunk_eq [OF wf] simp del: set_view_offsets)
  qed
  finally show ?thesis using run by blast
qed

lemma neighbor_on_topology:
  assumes "topology_wf t" and "neighbor_chunk t p dx dz = Some (Some q)"
  shows "on_topology t q"
proof -
  have wf: "axis_wf (ht_x t)" "axis_wf (ht_z t)" using assms(1) by (simp_all add: topology_wf_def)
  have "representative (ht_x t) (cp_x p + dx) = Some (cp_x q)" "representative (ht_z t) (cp_z p + dz) = Some (cp_z q)"
    using assms(2) by (auto simp: neighbor_chunk_eq [OF assms(1)] lift_at_def split: option.splits)
  then show ?thesis using representative_Some(1) [OF wf(1)] representative_Some(1) [OF wf(2)]
    by (simp add: on_topology_def)
qed

text \<open>A request whose radii the topology can tell apart is answered.\<close>

definition request_fits :: "('p, 'o) chunk_tracking \<Rightarrow> chunk_view_data \<Rightarrow> bool" where
  "request_fits c requested \<longleftrightarrow> (let accepted = clamp_view (ct_policy c) requested in
     validate_one_lift_radius (ct_topology c) (cv_tracking_radius accepted) = Inr ()
   \<and> validate_one_lift_radius (ct_topology c) (unload_radius (ct_policy c) accepted) = Inr ()
   \<and> unload_radius (ct_policy c) accepted < 2 ^ 31)"

lemma radius_le_unload: "cv_tracking_radius (clamp_view p v) \<le> unload_radius p (clamp_view p v)"
  by (auto simp: clamp_view_def unload_radius_def sat_add_u32_def Let_def)

definition in_square :: "horizontal_topology \<Rightarrow> chunk_pos \<Rightarrow> nat \<Rightarrow> chunk_pos \<Rightarrow> bool" where
  "in_square t center r q \<longleftrightarrow> (\<exists>dx dz. \<bar>dx\<bar> \<le> int r \<and> \<bar>dz\<bar> \<le> int r \<and> neighbor_chunk t center dx dz = Some (Some q))"

lemma next_visible_spec:
  assumes wf: "topology_wf (ct_topology c)" and fits: "request_fits c requested"
    and acc: "accepted = clamp_view (ct_policy c) requested"
  shows "\<exists>V. next_visible c accepted old = Some V
     \<and> (\<forall>q. q |\<in>| V \<longleftrightarrow> in_square (ct_topology c) (cv_center accepted) (cv_tracking_radius accepted) q
          \<or> q |\<in>| old \<and> in_square (ct_topology c) (cv_center accepted) (unload_radius (ct_policy c) accepted) q)"
proof -
  note f = fits [unfolded request_fits_def Let_def, folded acc]
  have "cv_tracking_radius accepted < 2 ^ 31" using radius_le_unload [of "ct_policy c" requested] f acc by simp
  then obtain T where T: "chunk_positions_for_center_radius_in (ct_topology c) (cv_center accepted) (cv_tracking_radius accepted) = Some T"
    "\<And>q. q |\<in>| T \<longleftrightarrow> in_square (ct_topology c) (cv_center accepted) (cv_tracking_radius accepted) q"
    using positions_square [OF wf, of "cv_tracking_radius accepted" "cv_center accepted"] f unfolding in_square_def by blast
  obtain U where U: "chunk_positions_for_center_radius_in (ct_topology c) (cv_center accepted) (unload_radius (ct_policy c) accepted) = Some U"
    "\<And>q. q |\<in>| U \<longleftrightarrow> in_square (ct_topology c) (cv_center accepted) (unload_radius (ct_policy c) accepted) q"
    using positions_square [OF wf, of "unload_radius (ct_policy c) accepted" "cv_center accepted"] f unfolding in_square_def by blast
  have "next_visible c accepted old = Some (T |\<union>| (old |\<inter>| U))"
    by (simp add: next_visible_def chunk_positions_for_view_in_def T(1) U(1))
  then show ?thesis using T(2) U(2) by auto
qed

section \<open>What each operation changes\<close>

lemma seen_view: "view_of c s = Some v \<Longrightarrow> seen c s = vs_visible v"
  by (simp add: seen_def)

lemma in_all_visible: "p |\<in>| all_visible (f |`| fmran m) \<longleftrightarrow> (\<exists>n v. fmlookup m n = Some v \<and> p |\<in>| vs_visible (f v))"
proof -
  have "p |\<in>| all_visible (f |`| fmran m) \<longleftrightarrow> (\<exists>v. v |\<in>| fmran m \<and> p |\<in>| vs_visible (f v))"
    by (auto simp: all_visible_def ffUnion.rep_eq)
  then show ?thesis by (auto simp only: fmlookup_ran_iff)
qed

lemma seen_players: "p |\<in>| seen c (SourcePlayer n) \<longleftrightarrow> (\<exists>v. fmlookup (ct_players c) n = Some v \<and> p |\<in>| vs_visible v)"
  by (simp add: seen_def source_simps split: option.split)

lemma seen_observers:
  "p |\<in>| seen c (SourceObserver n) \<longleftrightarrow> (\<exists>v. fmlookup (ct_observers c) n = Some v \<and> p |\<in>| vs_visible (os_view v))"
  by (auto simp: seen_def source_simps split: option.split)

lemma rebuild_spec:
  assumes "rebuild_aggregate_interest_positions c = (changed, c')"
  shows "aggregate_ok c'" and "view_of c' = view_of c" and "pending_of c' = pending_of c"
    and "ct_topology c' = ct_topology c" and "ct_policy c' = ct_policy c" and "seen c' = seen c"
    and "aggregate_interest_priority_centers c' = aggregate_interest_priority_centers c"
proof -
  let ?p = "all_visible (fmran (ct_players c))"
  let ?o = "all_visible (os_view |`| fmran (ct_observers c))"
  let ?t = "all_visible (os_view |`| ffilter (\<lambda>st. os_simulation st = BlockAndEntityTicking) (fmran (ct_observers c)))"
  have c': "c' = c\<lparr>ct_player_positions := ?p, ct_resident := ?p |\<union>| ?o, ct_simulation := ?p |\<union>| ?t\<rparr>"
    using assms by (simp add: rebuild_aggregate_interest_positions_def Let_def)
  show v: "view_of c' = view_of c"
  proof
    fix s show "view_of c' s = view_of c s" by (cases s) (simp_all add: c' source_simps)
  qed
  show "pending_of c' = pending_of c"
  proof
    fix s show "pending_of c' s = pending_of c s" by (cases s) (simp_all add: c' source_simps)
  qed
  show seen: "seen c' = seen c" by (simp add: fun_eq_iff seen_def v)
  show "ct_topology c' = ct_topology c" "ct_policy c' = ct_policy c" by (simp_all add: c')
  show "aggregate_interest_priority_centers c' = aggregate_interest_priority_centers c"
    by (simp add: aggregate_interest_priority_centers_def c')
  have p: "q |\<in>| ?p \<longleftrightarrow> (\<exists>n. q |\<in>| seen c (SourcePlayer n))" for q
    using in_all_visible [of q "\<lambda>v. v" "ct_players c"] by (simp add: seen_players)
  have o': "q |\<in>| ?o \<longleftrightarrow> (\<exists>n. q |\<in>| seen c (SourceObserver n))" for q
    by (simp add: in_all_visible seen_observers)
  have t: "q |\<in>| ?t \<longleftrightarrow> (\<exists>n. ticking c n \<and> q |\<in>| seen c (SourceObserver n))" for q
  proof -
    have "q |\<in>| ?t \<longleftrightarrow> (\<exists>st. st |\<in>| fmran (ct_observers c) \<and> os_simulation st = BlockAndEntityTicking \<and> q |\<in>| vs_visible (os_view st))"
      by (auto simp: all_visible_def ffUnion.rep_eq)
    also have "\<dots> \<longleftrightarrow> (\<exists>n st. fmlookup (ct_observers c) n = Some st
        \<and> os_simulation st = BlockAndEntityTicking \<and> q |\<in>| vs_visible (os_view st))"
      by (auto simp only: fmlookup_ran_iff)
    also have "\<dots> \<longleftrightarrow> (\<exists>n. ticking c n \<and> q |\<in>| seen c (SourceObserver n))"
      by (rule ex_cong1) (auto simp: seen_observers ticking_def)
    finally show ?thesis .
  qed
  have "(\<exists>s. q |\<in>| seen c s) \<longleftrightarrow> (\<exists>n. q |\<in>| seen c (SourcePlayer n)) \<or> (\<exists>n. q |\<in>| seen c (SourceObserver n))" for q
    by (metis dimension_interest_source.exhaust)
  moreover have "ticking c' = ticking c" by (simp add: fun_eq_iff ticking_def c')
  ultimately show "aggregate_ok c'"
    unfolding aggregate_ok_def seen by (simp add: c' p o' t)
qed

text \<open>
  An operation is quiet for a source when it neither queues chunk data nor changes the published set,
  and keeps the seen sets and the simulating observers when nobody sees more or less.
\<close>

definition same_interest :: "('p, 'o) chunk_tracking \<Rightarrow> ('p, 'o) chunk_tracking \<Rightarrow> bool" where
  "same_interest c c' \<longleftrightarrow> seen c' = seen c \<and> ct_topology c' = ct_topology c \<and> ct_policy c' = ct_policy c
     \<and> ct_player_positions c' = ct_player_positions c \<and> ct_resident c' = ct_resident c \<and> ct_simulation c' = ct_simulation c
     \<and> (\<forall>n. seen c (SourceObserver n) \<noteq> {||} \<longrightarrow> ticking c' n = ticking c n)"

lemma same_interest_trans: "same_interest a b \<Longrightarrow> same_interest b c \<Longrightarrow> same_interest a c"
  by (simp add: same_interest_def)

lemma same_interest_refl [simp]: "same_interest c c"
  by (simp add: same_interest_def)

lemma same_interest_keeps:
  assumes "same_interest c c'" and "aggregate_ok c" and "on_world c"
  shows "aggregate_ok c'" and "on_world c'"
proof -
  have "(\<exists>n. ticking c' n \<and> p |\<in>| seen c (SourceObserver n)) \<longleftrightarrow> (\<exists>n. ticking c n \<and> p |\<in>| seen c (SourceObserver n))" for p
    using assms(1) unfolding same_interest_def by (metis fempty_iff)
  then show "aggregate_ok c'" using assms(1,2) by (simp add: same_interest_def aggregate_ok_def)
  show "on_world c'" using assms(1,3) by (simp add: same_interest_def on_world_def)
qed

lemma same_interestI:
  assumes "\<And>s. map_option vs_visible (view_of c' s) = map_option vs_visible (view_of c s)"
    and "\<And>n. ticking c' n = ticking c n"
    and "ct_topology c' = ct_topology c" and "ct_policy c' = ct_policy c"
    and "ct_player_positions c' = ct_player_positions c" and "ct_resident c' = ct_resident c"
    and "ct_simulation c' = ct_simulation c"
  shows "same_interest c c'"
proof -
  have "seen c' s = seen c s" for s
    using assms(1) [of s] by (auto simp: seen_def split: option.splits)
  then show ?thesis using assms by (simp add: same_interest_def fun_eq_iff)
qed

subsection \<open>Joining\<close>

lemma view_of_add_player:
  "view_of (add_player c n) s = (if s = SourcePlayer n \<and> view_of c s = None then Some view_state_default else view_of c s)"
  by (cases s) (auto simp: add_player_def or_default_def source_simps split: option.splits)

lemma pending_of_add_player: "pending_of (add_player c n) s = pending_of c s"
  by (cases s) (auto simp: add_player_def or_default_def source_simps split: option.splits)

lemma add_player_interest: "same_interest c (add_player c n)"
proof -
  have "seen (add_player c n) s = seen c s" for s
    by (auto simp: seen_def view_of_add_player view_state_default_def split: option.splits)
  then show ?thesis by (simp add: same_interest_def fun_eq_iff ticking_def add_player_def)
qed

lemma add_player_delivers: "delivers c s held \<Longrightarrow> delivers (add_player c n) s held"
  by (auto simp: delivers_def view_of_add_player pending_of_add_player view_state_default_def split: option.splits)

lemma view_of_add_observer:
  "view_of (add_observer c n sim) s =
     (if s = SourceObserver n \<and> view_of c s = None then Some view_state_default else view_of c s)"
  by (cases s) (auto simp: add_observer_def observer_state_default_def source_simps Let_def split: option.splits)

lemma pending_of_add_observer: "pending_of (add_observer c n sim) s = pending_of c s"
  by (cases s) (auto simp: add_observer_def or_default_def source_simps Let_def split: option.splits)

lemma add_observer_seen: "seen (add_observer c n sim) = seen c"
  by (auto simp: fun_eq_iff seen_def view_of_add_observer view_state_default_def split: option.splits)

lemma add_observer_interest:
  assumes "n |\<notin>| fmdom (ct_observers c)"
  shows "same_interest c (add_observer c n sim)"
proof -
  have "ticking (add_observer c n sim) k = ticking c k" if "seen c (SourceObserver k) \<noteq> {||}" for k
  proof -
    have "k \<noteq> n" using assms that by (auto simp: seen_def source_simps fmdom_notD)
    then show ?thesis by (simp add: ticking_def add_observer_def Let_def)
  qed
  moreover have "ct_topology (add_observer c n sim) = ct_topology c" "ct_policy (add_observer c n sim) = ct_policy c"
    "ct_player_positions (add_observer c n sim) = ct_player_positions c"
    "ct_resident (add_observer c n sim) = ct_resident c" "ct_simulation (add_observer c n sim) = ct_simulation c"
    by (simp_all add: add_observer_def Let_def)
  ultimately show ?thesis by (simp add: same_interest_def add_observer_seen)
qed

lemma add_observer_delivers: "delivers c s held \<Longrightarrow> delivers (add_observer c n sim) s held"
  by (auto simp: delivers_def view_of_add_observer pending_of_add_observer view_state_default_def split: option.splits)

subsection \<open>Queues\<close>

lemma pending_push:
  "(case fmlookup (push_back n u m) k of Some us \<Rightarrow> us | None \<Rightarrow> []) =
     (case fmlookup m k of Some us \<Rightarrow> us | None \<Rightarrow> []) @ (if k = n then [u] else [])"
  by (auto simp: push_back_def)

lemma queue_player_run:
  "queue_update_for_source c (SourcePlayer n) u =
     (if view_of c (SourcePlayer n) = None then c else c\<lparr>ct_pending := push_back n u (ct_pending c)\<rparr>)"
  by (cases "fmlookup (ct_players c) n")
    (simp_all add: queue_update_for_player_def view_of.simps(1) fmdom_notI fmdomI)

lemma queue_observer_run:
  "queue_update_for_source c (SourceObserver n) u =
     (if view_of c (SourceObserver n) = None then c
      else c\<lparr>ct_pending_observers := push_back n u (ct_pending_observers c)\<rparr>)"
  by (cases "fmlookup (ct_observers c) n")
    (simp_all add: queue_update_for_observer_def view_of.simps(2) fmdom_notI fmdomI)

lemma view_of_queues [simp]:
  "view_of (c\<lparr>ct_pending := q\<rparr>) = view_of c" "view_of (c\<lparr>ct_pending_observers := q'\<rparr>) = view_of c"
proof -
  have "view_of (c\<lparr>ct_pending := q\<rparr>) s = view_of c s" "view_of (c\<lparr>ct_pending_observers := q'\<rparr>) s = view_of c s" for s
    by (cases s; simp add: source_simps)+
  then show "view_of (c\<lparr>ct_pending := q\<rparr>) = view_of c" "view_of (c\<lparr>ct_pending_observers := q'\<rparr>) = view_of c"
    by (simp_all add: fun_eq_iff)
qed

lemma pending_of_queues:
  "pending_of (c\<lparr>ct_pending := q\<rparr>) s =
     (case s of SourcePlayer n \<Rightarrow> (case fmlookup q n of Some us \<Rightarrow> us | None \<Rightarrow> []) | SourceObserver n \<Rightarrow> pending_of c s)"
  "pending_of (c\<lparr>ct_pending_observers := q'\<rparr>) s =
     (case s of SourcePlayer n \<Rightarrow> pending_of c s | SourceObserver n \<Rightarrow> (case fmlookup q' n of Some us \<Rightarrow> us | None \<Rightarrow> []))"
  by (cases s; simp add: source_simps)+

lemma queue_view: "view_of (queue_update_for_source c s u) = view_of c"
  by (cases s) (simp_all add: queue_player_run queue_observer_run del: queue_update_for_source.simps)

lemma queue_pending:
  "pending_of (queue_update_for_source c s u) s' = pending_of c s' @ (if s' = s \<and> view_of c s \<noteq> None then [u] else [])"
proof (cases s)
  case (SourcePlayer n)
  then show ?thesis
    by (cases s') (auto simp: queue_player_run pending_of_queues pending_push pending_of.simps(1)
        simp del: queue_update_for_source.simps)
next
  case (SourceObserver n)
  then show ?thesis
    by (cases s') (auto simp: queue_observer_run pending_of_queues pending_push pending_of.simps(2)
        simp del: queue_update_for_source.simps)
qed

lemma queue_interest: "same_interest c (queue_update_for_source c s u)"
  by (rule same_interestI)
    (cases s; simp add: queue_player_run queue_observer_run ticking_def del: queue_update_for_source.simps)+

lemma queue_delivers:
  assumes "delivers c s' held" and "s' = s \<Longrightarrow> receive u = (\<lambda>held. held)"
  shows "delivers (queue_update_for_source c s u) s' held"
proof (cases "s' = s")
  case True
  with assms show ?thesis by (cases "view_of c s") (simp_all add: delivers_def queue_view queue_pending)
next
  case False
  with assms(1) show ?thesis by (cases "view_of c s'") (simp_all add: delivers_def queue_view queue_pending)
qed

text \<open>Chunk data that goes into the queue together with the published set.\<close>

definition change_view ::
  "('p, 'o) chunk_tracking \<Rightarrow> dimension_interest_source \<Rightarrow> (player_view_state \<Rightarrow> player_view_state) \<Rightarrow> ('p, 'o) chunk_tracking" where
  "change_view c s f = (case s of SourcePlayer n \<Rightarrow> with_player c n f | SourceObserver n \<Rightarrow> with_observer_view c n f)"

lemma change_view_of: "view_of (change_view c s f) s' = (if s' = s then map_option f (view_of c s) else view_of c s')"
  by (cases s; cases s') (auto simp: change_view_def with_player_def with_observer_view_def source_simps split: option.splits)

lemma change_view_pending: "pending_of (change_view c s f) s' = pending_of c s'"
  by (cases s; cases s') (auto simp: change_view_def with_player_def with_observer_view_def source_simps split: option.splits)

lemma change_view_interest:
  assumes "\<And>v. vs_visible (f v) = vs_visible v"
  shows "same_interest c (change_view c s f)"
proof (rule same_interestI)
  show "map_option vs_visible (view_of (change_view c s f) s') = map_option vs_visible (view_of c s')" for s'
    using assms by (auto simp: change_view_of option.map_comp comp_def)
  show "ticking (change_view c s f) n = ticking c n" for n
    by (cases s) (auto simp: ticking_def change_view_def with_player_def with_observer_view_def split: option.splits)
qed (cases s; simp add: change_view_def with_player_def with_observer_view_def split: option.split)+

lemma chunk_data_step:
  assumes c': "c' = queue_update_for_source (change_view c s f) s u"
    and f: "\<And>v. vs_visible (f v) = vs_visible v" "\<And>v. vs_published (f v) = receive u (vs_published v)"
  shows "same_interest c c'" and "delivers c s' held \<Longrightarrow> delivers c' s' held"
proof -
  show "same_interest c c'"
    unfolding c' by (rule same_interest_trans [OF change_view_interest queue_interest]) (rule f(1))
  show "delivers c s' held \<Longrightarrow> delivers c' s' held"
    by (auto simp: c' delivers_def queue_view queue_pending change_view_of change_view_pending f(2) split: option.splits)
qed

lemma unload_as_step:
  "\<exists>f. queue_unload_for_source p s c = queue_update_for_source (change_view c s f) s (ChunkUnloadUpdate p)
    \<and> (\<forall>v. vs_visible (f v) = vs_visible v \<and> vs_published (f v) = vs_published v |-| {|p|})"
proof (cases s)
  case (SourcePlayer n)
  then show ?thesis
    by (intro exI [of _ "\<lambda>state. state\<lparr>vs_published := vs_published state |-| {|p|},
        vs_queued_unloads := sat_add_u64 (vs_queued_unloads state) 1\<rparr>"]) (simp add: change_view_def queue_unload_for_player_def)
next
  case (SourceObserver n)
  then show ?thesis
    by (intro exI [of _ "\<lambda>view. view\<lparr>vs_published := vs_published view |-| {|p|}\<rparr>"])
      (simp add: change_view_def queue_unload_for_observer_def)
qed

lemma snapshot_as_step:
  "\<exists>f. queue_snapshot_for_source sn s c = queue_update_for_source (change_view c s f) s (ChunkSnapshotUpdate sn)
    \<and> (\<forall>v. vs_visible (f v) = vs_visible v \<and> vs_published (f v) = finsert (cs_pos sn) (vs_published v))"
proof (cases s)
  case (SourcePlayer n)
  then show ?thesis
    by (intro exI [of _ "\<lambda>state. state\<lparr>vs_published := finsert (cs_pos sn) (vs_published state),
        vs_queued_snapshots := sat_add_u64 (vs_queued_snapshots state) 1\<rparr>"]) (simp add: change_view_def queue_snapshot_for_player_def)
next
  case (SourceObserver n)
  then show ?thesis
    by (intro exI [of _ "\<lambda>view. view\<lparr>vs_published := finsert (cs_pos sn) (vs_published view)\<rparr>"])
      (simp add: change_view_def queue_snapshot_for_observer_def)
qed

text \<open>An operation that leaves the interest alone and keeps what the clients will hold.\<close>

definition transparent :: "('p, 'o) chunk_tracking \<Rightarrow> ('p, 'o) chunk_tracking \<Rightarrow> bool" where
  "transparent c c' \<longleftrightarrow> same_interest c c' \<and> (\<forall>s held. delivers c s held \<longrightarrow> delivers c' s held)"

lemma transparent_fold:
  assumes "\<And>x c. transparent c (f x c)"
  shows "transparent c (fold f xs c)"
proof (induction xs arbitrary: c)
  case (Cons x xs)
  have "same_interest c (fold f xs (f x c))"
    using assms [of c x] Cons.IH [of "f x c"] by (auto simp: transparent_def intro: same_interest_trans)
  then show ?case using assms [of c x] Cons.IH [of "f x c"] by (simp add: transparent_def)
qed (simp add: transparent_def)

lemma unload_transparent: "transparent c (queue_unload_for_source p s c)"
proof -
  obtain f where f: "queue_unload_for_source p s c = queue_update_for_source (change_view c s f) s (ChunkUnloadUpdate p)"
    "\<And>v. vs_visible (f v) = vs_visible v" "\<And>v. vs_published (f v) = vs_published v |-| {|p|}"
    by (rule exE [OF unload_as_step]) blast
  show ?thesis unfolding transparent_def using chunk_data_step [OF f(1,2)] f(3) by simp
qed

lemma snapshot_transparent: "transparent c (queue_snapshot_for_source sn s c)"
proof -
  obtain f where f: "queue_snapshot_for_source sn s c = queue_update_for_source (change_view c s f) s (ChunkSnapshotUpdate sn)"
    "\<And>v. vs_visible (f v) = vs_visible v" "\<And>v. vs_published (f v) = finsert (cs_pos sn) (vs_published v)"
    by (rule exE [OF snapshot_as_step]) blast
  show ?thesis unfolding transparent_def using chunk_data_step [OF f(1,2)] f(3) by simp
qed

lemma other_transparent:
  "receive u = (\<lambda>held. held) \<Longrightarrow> transparent c (queue_update_for_source c s u)"
  unfolding transparent_def using queue_interest queue_delivers by blast

lemma split_bulk_eq:
  "split_bulk us bulk control = (bulk @ filter server_update_is_bulk_chunk_data us,
     control @ filter (\<lambda>u. \<not> server_update_is_bulk_chunk_data u) us)"
  by (induction us arbitrary: bulk control) simp_all

lemma receive_not_bulk: "\<not> server_update_is_bulk_chunk_data u \<Longrightarrow> receive u held = held"
  by (cases u) simp_all

lemma fold_receive_control:
  "fold receive (filter (\<lambda>u. \<not> server_update_is_bulk_chunk_data u) us) held = held"
  "fold receive (filter server_update_is_bulk_chunk_data us) held = fold receive us held"
  by (induction us arbitrary: held) (simp_all add: receive_not_bulk)

lemma pose_transparent: "transparent c (queue_player_position_before_chunk_updates c n pose)"
proof (cases "fmlookup (ct_players c) n")
  case None
  then show ?thesis
    by (simp add: queue_player_position_before_chunk_updates_def transparent_def fmdom_notI)
next
  case (Some v)
  let ?us = "pending_of c (SourcePlayer n)"
  define q where "q = (filter (\<lambda>u. \<not> server_update_is_bulk_chunk_data u) ?us @ [PlayerPositionUpd pose])
      @ filter server_update_is_bulk_chunk_data ?us"
  have fold_q: "fold receive q held = fold receive ?us held" for held
    by (simp add: q_def fold_receive_control)
  let ?c = "c\<lparr>ct_pending := fmupd n q (ct_pending c)\<rparr>"
  have run: "queue_player_position_before_chunk_updates c n pose = ?c"
    using Some by (simp add: queue_player_position_before_chunk_updates_def fmdomI split_bulk_eq q_def source_simps Let_def)
  have p: "pending_of ?c s = (if s = SourcePlayer n then q else pending_of c s)" for s
    by (cases s) (simp_all add: pending_of_queues pending_of.simps)
  have "delivers ?c s held" if "delivers c s held" for s held
  proof (cases "s = SourcePlayer n")
    case True
    with that Some show ?thesis by (simp add: delivers_def p fold_q view_of.simps(1))
  next
    case False
    with that show ?thesis by (cases "view_of c s") (simp_all add: delivers_def p)
  qed
  moreover have "same_interest c ?c" by (rule same_interestI) (simp_all add: ticking_def)
  ultimately show ?thesis by (simp add: transparent_def run)
qed

subsection \<open>Views, departures and drains\<close>

lemma positions_fit:
  assumes "chunk_positions_for_center_radius_in t center r = Some S"
  shows "validate_one_lift_radius t r = Inr ()" and "r < 2 ^ 31"
proof -
  obtain ls where "chunk_view t center r = Some (Inr ls)"
  proof -
    obtain r' where r': "chunk_view t center r = Some r'"
      using assms by (auto simp: chunk_positions_for_center_radius_in_def)
    then show ?thesis using assms that by (cases r') (simp_all add: chunk_positions_for_center_radius_in_def)
  qed
  then show "validate_one_lift_radius t r = Inr ()" and "r < 2 ^ 31"
    by (auto simp: chunk_view_def split: sum.split_asm if_split_asm)
qed

lemma next_visible_fits:
  assumes "next_visible c (clamp_view (ct_policy c) requested) old = Some V"
  shows "request_fits c requested"
  using assms positions_fit by (auto simp: next_visible_def chunk_positions_for_view_in_def request_fits_def Let_def)

text \<open>A change of view, as seen by its source and by everybody else.\<close>

definition view_changed ::
  "('p, 'o) chunk_tracking \<Rightarrow> dimension_interest_source \<Rightarrow> chunk_view_data \<Rightarrow> view_change \<Rightarrow> ('p, 'o) chunk_tracking \<Rightarrow> bool" where
  "view_changed c s requested change c' \<longleftrightarrow> (\<exists>V. let accepted = clamp_view (ct_policy c) requested in
     next_visible c accepted (seen c s) = Some V
   \<and> change = \<lparr>vc_accepted = Some accepted, vc_added = sorted_list_of_fset (V |-| seen c s),
       vc_removed = sorted_list_of_fset (seen c s |-| V),
       vc_aggregate_changed = vc_aggregate_changed change, vc_centers_changed = vc_centers_changed change\<rparr>
   \<and> (\<forall>s'. view_of c' s' = (if s' = s
        then Some ((case view_of c s of Some v \<Rightarrow> v | None \<Rightarrow> view_state_default)
          \<lparr>vs_visible := V, vs_requested := Some requested, vs_accepted := Some accepted\<rparr>)
        else view_of c s'))
   \<and> pending_of c' = pending_of c \<and> aggregate_ok c' \<and> ct_topology c' = ct_topology c \<and> ct_policy c' = ct_policy c)"

lemma next_visible_cong:
  "ct_topology c' = ct_topology c \<Longrightarrow> ct_policy c' = ct_policy c \<Longrightarrow> next_visible c' = next_visible c"
  by (simp add: fun_eq_iff next_visible_def)

lemma set_requested_view_cases:
  "(case set_requested_view c n requested of Some (change, c') \<Rightarrow> view_changed c (SourcePlayer n) requested change c'
    | None \<Rightarrow> next_visible c (clamp_view (ct_policy c) requested) (seen c (SourcePlayer n)) = None)"
proof -
  let ?s = "SourcePlayer n" let ?a = "add_player c n" let ?acc = "clamp_view (ct_policy c) requested"
  define v where "v = (case view_of c ?s of Some v \<Rightarrow> v | None \<Rightarrow> view_state_default)"
  have st: "view_of ?a ?s = Some v" by (auto simp: view_of_add_player v_def split: option.split)
  then have look: "fmlookup (ct_players ?a) n = Some v" by (simp add: view_of.simps)
  have old: "vs_visible v = seen c ?s" by (auto simp: v_def seen_def view_state_default_def split: option.split)
  have p: "ct_topology ?a = ct_topology c" "ct_policy ?a = ct_policy c" by (simp_all add: add_player_def)
  have nv: "next_visible ?a = next_visible c" by (rule next_visible_cong) (simp_all add: p)
  show ?thesis
  proof (cases "next_visible c ?acc (seen c ?s)")
    case None
    then have "set_requested_view c n requested = None"
      using look by (simp add: set_requested_view_def nv p old Let_def del: bind_eq_Some)
    with None show ?thesis by simp
  next
    case (Some V)
    let ?v = "v\<lparr>vs_visible := V, vs_requested := Some requested, vs_accepted := Some ?acc\<rparr>"
    let ?b = "?a\<lparr>ct_players := fmupd n ?v (ct_players ?a)\<rparr>"
    obtain ch c' where rb: "rebuild_aggregate_interest_positions ?b = (ch, c')" by fastforce
    note r = rebuild_spec [OF rb]
    have run: "set_requested_view c n requested = Some (\<lparr>vc_accepted = Some ?acc, vc_added = sorted_list_of_fset (V |-| seen c ?s),
        vc_removed = sorted_list_of_fset (seen c ?s |-| V), vc_aggregate_changed = ch,
        vc_centers_changed = (aggregate_interest_priority_centers c' \<noteq> aggregate_interest_priority_centers ?a)\<rparr>, c')"
      using look Some rb by (simp add: set_requested_view_def nv p old Let_def del: bind_eq_Some)
    have "view_of c' s' = (if s' = ?s then Some ?v else view_of c s')" for s'
      unfolding r(2) by (cases s') (auto simp: view_of.simps add_player_def or_default_def split: option.split)
    moreover have "pending_of c' = pending_of c"
    proof
      fix s' show "pending_of c' s' = pending_of c s'"
        unfolding r(3) using pending_of_add_player [of c n s'] by (cases s') (simp_all add: pending_of.simps)
    qed
    moreover have "ct_topology c' = ct_topology c" "ct_policy c' = ct_policy c" using r(4,5) p by simp_all
    ultimately have "view_changed c ?s requested
        \<lparr>vc_accepted = Some ?acc, vc_added = sorted_list_of_fset (V |-| seen c ?s),
          vc_removed = sorted_list_of_fset (seen c ?s |-| V), vc_aggregate_changed = ch, vc_centers_changed = b\<rparr> c'" for b
      unfolding view_changed_def Let_def using Some r(1) by (intro exI [of _ V]) (simp add: v_def)
    then show ?thesis using run by simp
  qed
qed

lemma set_observer_view_cases:
  "(case set_observer_requested_view c n requested sim of
      Some (change, c') \<Rightarrow> view_changed c (SourceObserver n) requested change c'
    | None \<Rightarrow> next_visible c (clamp_view (ct_policy c) requested) (seen c (SourceObserver n)) = None)"
proof -
  let ?s = "SourceObserver n" let ?a = "add_observer c n sim" let ?acc = "clamp_view (ct_policy c) requested"
  define v where "v = (case view_of c ?s of Some v \<Rightarrow> v | None \<Rightarrow> view_state_default)"
  have st: "view_of ?a ?s = Some v" by (auto simp: view_of_add_observer v_def split: option.split)
  then obtain st where look: "fmlookup (ct_observers ?a) n = Some st" "os_view st = v" by (auto simp: view_of.simps)
  have old: "vs_visible v = seen c ?s" by (auto simp: v_def seen_def view_state_default_def split: option.split)
  have p: "ct_topology ?a = ct_topology c" "ct_policy ?a = ct_policy c" by (simp_all add: add_observer_def Let_def)
  have nv: "next_visible ?a = next_visible c" by (rule next_visible_cong) (simp_all add: p)
  show ?thesis
  proof (cases "next_visible c ?acc (seen c ?s)")
    case None
    then have "set_observer_requested_view c n requested sim = None"
      using look by (simp add: set_observer_requested_view_def nv p old Let_def del: bind_eq_Some)
    with None show ?thesis by simp
  next
    case (Some V)
    let ?v = "v\<lparr>vs_visible := V, vs_requested := Some requested, vs_accepted := Some ?acc\<rparr>"
    let ?b = "?a\<lparr>ct_observers := fmupd n (st\<lparr>os_view := ?v, os_simulation := sim\<rparr>) (ct_observers ?a)\<rparr>"
    obtain ch c' where rb: "rebuild_aggregate_interest_positions ?b = (ch, c')" by fastforce
    note r = rebuild_spec [OF rb]
    have run: "set_observer_requested_view c n requested sim = Some (\<lparr>vc_accepted = Some ?acc,
        vc_added = sorted_list_of_fset (V |-| seen c ?s),
        vc_removed = sorted_list_of_fset (seen c ?s |-| V), vc_aggregate_changed = ch,
        vc_centers_changed = (aggregate_interest_priority_centers c' \<noteq> aggregate_interest_priority_centers ?a)\<rparr>, c')"
      using look Some rb by (simp add: set_observer_requested_view_def nv p old Let_def del: bind_eq_Some)
    have "view_of c' s' = (if s' = ?s then Some ?v else view_of c s')" for s'
      unfolding r(2) by (cases s') (auto simp: view_of.simps add_observer_def Let_def)
    moreover have "pending_of c' = pending_of c"
    proof
      fix s' show "pending_of c' s' = pending_of c s'"
        unfolding r(3) using pending_of_add_observer [of c n sim s'] by (cases s') (simp_all add: pending_of.simps)
    qed
    moreover have "ct_topology c' = ct_topology c" "ct_policy c' = ct_policy c" using r(4,5) p by simp_all
    ultimately have "view_changed c ?s requested
        \<lparr>vc_accepted = Some ?acc, vc_added = sorted_list_of_fset (V |-| seen c ?s),
          vc_removed = sorted_list_of_fset (seen c ?s |-| V), vc_aggregate_changed = ch, vc_centers_changed = b\<rparr> c'" for b
      unfolding view_changed_def Let_def using Some r(1) by (intro exI [of _ V]) (simp add: v_def)
    then show ?thesis using run by simp
  qed
qed

lemma view_changed_keeps:
  assumes ch: "view_changed c s requested change c'" and world: "on_world c"
  shows "aggregate_ok c'" and "on_world c'" and "delivers c s' held \<Longrightarrow> delivers c' s' held"
proof -
  let ?acc = "clamp_view (ct_policy c) requested"
  obtain V where V: "next_visible c ?acc (seen c s) = Some V"
    "\<And>s'. view_of c' s' = (if s' = s
        then Some ((case view_of c s of Some v \<Rightarrow> v | None \<Rightarrow> view_state_default)
          \<lparr>vs_visible := V, vs_requested := Some requested, vs_accepted := Some ?acc\<rparr>)
        else view_of c s')"
    "pending_of c' = pending_of c" "aggregate_ok c'" "ct_topology c' = ct_topology c"
    using ch by (auto simp: view_changed_def Let_def)
  show "aggregate_ok c'" by (rule V(4))
  have wf: "topology_wf (ct_topology c)" using world by (simp add: on_world_def)
  obtain V' where V': "next_visible c ?acc (seen c s) = Some V'"
    "\<And>q. q |\<in>| V' \<longleftrightarrow> in_square (ct_topology c) (cv_center ?acc) (cv_tracking_radius ?acc) q
          \<or> q |\<in>| seen c s \<and> in_square (ct_topology c) (cv_center ?acc) (unload_radius (ct_policy c) ?acc) q"
    using next_visible_spec [OF wf next_visible_fits [OF V(1)] refl, of "seen c s"] by blast
  have "on_topology (ct_topology c) q" if "q |\<in>| V" for q
    using that V(1) V' world neighbor_on_topology [OF wf] by (auto simp: on_world_def in_square_def)
  moreover have "seen c' s' = (if s' = s then V else seen c s')" for s' by (simp add: seen_def V(2))
  ultimately show "on_world c'" using world V(5) by (auto simp: on_world_def split: if_splits)
  show "delivers c' s' held" if "delivers c s' held"
  proof (cases "s' = s")
    case True
    with that show ?thesis by (cases "view_of c s") (simp_all add: delivers_def V(2,3) view_state_default_def)
  next
    case False
    then have "view_of c' s' = view_of c s'" by (simp add: V(2))
    with that show ?thesis by (simp add: delivers_def V(3) cong: option.case_cong)
  qed
qed

lemma remove_spec:
  assumes "c' = snd (remove_player c n) \<and> s = SourcePlayer n \<or> c' = snd (remove_observer c n) \<and> s = SourceObserver n"
  shows "aggregate_ok c'" and "view_of c' s' = (if s' = s then None else view_of c s')"
    and "pending_of c' s' = (if s' = s then [] else pending_of c s')" and "ct_topology c' = ct_topology c"
    and "ct_policy c' = ct_policy c"
proof -
  define d where "d = (case s of SourcePlayer n \<Rightarrow> c\<lparr>ct_players := fmdrop n (ct_players c), ct_pending := fmdrop n (ct_pending c)\<rparr>
    | SourceObserver n \<Rightarrow> c\<lparr>ct_observers := fmdrop n (ct_observers c), ct_pending_observers := fmdrop n (ct_pending_observers c)\<rparr>)"
  obtain b where b: "rebuild_aggregate_interest_positions d = (b, c')"
    using assms by (cases "rebuild_aggregate_interest_positions d")
      (auto simp: remove_player_def remove_observer_def Let_def d_def)
  note r = rebuild_spec [OF b]
  show "aggregate_ok c'" by (rule r(1))
  show "view_of c' s' = (if s' = s then None else view_of c s')"
    unfolding r(2) by (cases s; cases s') (simp_all add: d_def source_simps)
  show "pending_of c' s' = (if s' = s then [] else pending_of c s')"
    unfolding r(3) by (cases s; cases s') (simp_all add: d_def source_simps)
  show "ct_topology c' = ct_topology c" "ct_policy c' = ct_policy c" using r(4,5) by (cases s; simp add: d_def)+
qed

lemma remove_keeps:
  assumes "c' = snd (remove_player c n) \<and> s = SourcePlayer n \<or> c' = snd (remove_observer c n) \<and> s = SourceObserver n"
    and "on_world c"
  shows "aggregate_ok c'" and "on_world c'" and "delivers c' s {||}" and "s' \<noteq> s \<Longrightarrow> delivers c s' held \<Longrightarrow> delivers c' s' held"
proof -
  note r = remove_spec [OF assms(1)]
  show "aggregate_ok c'" by (rule r(1))
  have "seen c' s' = (if s' = s then {||} else seen c s')" for s' by (simp add: seen_def r(2))
  then show "on_world c'" using assms(2) by (auto simp: on_world_def r(4) split: if_splits)
  show "delivers c' s {||}" by (simp add: delivers_def r)
  show "s' \<noteq> s \<Longrightarrow> delivers c s' held \<Longrightarrow> delivers c' s' held" by (simp add: delivers_def r cong: option.case_cong)
qed

lemma count_drained_frame:
  "vs_visible (fold count_drained us v) = vs_visible v \<and> vs_published (fold count_drained us v) = vs_published v"
proof (induction us arbitrary: v)
  case (Cons u us)
  have "vs_visible (count_drained u v) = vs_visible v \<and> vs_published (count_drained u v) = vs_published v"
    by (cases u) simp_all
  then show ?case using Cons.IH [of "count_drained u v"] by simp
qed simp

lemma drain_player_spec:
  assumes "drain_updates c n = (us, c')"
  shows "us = pending_of c (SourcePlayer n)" and "same_interest c c'"
    and "pending_of c' s = (if s = SourcePlayer n then [] else pending_of c s)"
    and "map_option vs_published (view_of c' s) = map_option vs_published (view_of c s)"
proof -
  let ?d = "c\<lparr>ct_pending := fmupd n [] (ct_pending c)\<rparr>"
  show us: "us = pending_of c (SourcePlayer n)" using assms by (simp add: drain_updates_def source_simps Let_def)
  have c': "c' = change_view ?d (SourcePlayer n) (fold count_drained us)"
    using assms by (auto simp: drain_updates_def Let_def change_view_def)
  have "same_interest c ?d" by (rule same_interestI) (simp_all add: ticking_def)
  then show "same_interest c c'" unfolding c'
    by (rule same_interest_trans [OF _ change_view_interest]) (simp add: count_drained_frame)
  show "pending_of c' s = (if s = SourcePlayer n then [] else pending_of c s)"
    unfolding c' change_view_pending by (cases s) (auto simp: pending_of_queues pending_of.simps)
  show "map_option vs_published (view_of c' s) = map_option vs_published (view_of c s)"
    by (auto simp: c' change_view_of option.map_comp comp_def count_drained_frame)
qed

lemma drain_observer_spec:
  assumes "drain_observer_updates c n = (us, c')"
  shows "us = pending_of c (SourceObserver n)" and "same_interest c c'"
    and "pending_of c' s = (if s = SourceObserver n then [] else pending_of c s)"
    and "map_option vs_published (view_of c' s) = map_option vs_published (view_of c s)"
proof -
  have c': "c' = c\<lparr>ct_pending_observers := fmupd n [] (ct_pending_observers c)\<rparr>"
    and us: "us = pending_of c (SourceObserver n)"
    using assms by (auto simp: drain_observer_updates_def source_simps)
  show "us = pending_of c (SourceObserver n)" by (rule us)
  show "same_interest c c'" unfolding c' by (rule same_interestI) (simp_all add: ticking_def)
  show "pending_of c' s = (if s = SourceObserver n then [] else pending_of c s)"
    unfolding c' by (cases s) (auto simp: pending_of_queues pending_of.simps)
  show "map_option vs_published (view_of c' s) = map_option vs_published (view_of c s)" by (simp add: c')
qed

lemma drained_delivers:
  assumes "delivers c s' held" and "pending_of c' s' = (if s' = s then [] else pending_of c s')"
    and "map_option vs_published (view_of c' s') = map_option vs_published (view_of c s')"
  shows "delivers c' s' (if s' = s then fold receive (pending_of c s) held else held)"
  using assms by (cases "view_of c s'"; cases "view_of c' s'") (auto simp: delivers_def)

end
