(* ===== verification/ServerTrackingTraces.thy ===== *)
theory ServerTrackingTraces imports ServerTrackingRuns
begin

text \<open>
  The chunk tracking as a transition system.  A state is the tracking together with the chunks that the
  client of every source holds; a step is an operation of the tracking, a drain hands the queue to the
  client.  The audience is the tracking without its queues: per source the chunks it sees and the
  chunks it was told about.  Every operation acts on the audience by its own specification.
\<close>

section \<open>Operations\<close>

datatype ('p, 'o) track_op =
    Join nat
  | Leave nat
  | Look nat chunk_view_data
  | JoinObserver nat observer_simulation_interest
  | LeaveObserver nat
  | LookFrom nat chunk_view_data observer_simulation_interest
  | Unload dimension_interest_source chunk_pos
  | UnloadAll chunk_pos
  | Snapshot dimension_interest_source chunk_snapshot
  | SnapshotAll chunk_snapshot
  | Sections chunk_pos int "section_block_update list"
  | Notify dimension_interest_source "('p, 'o) server_update"
  | Pose nat 'p
  | Drain dimension_interest_source

fun drain_source ::
  "dimension_interest_source \<Rightarrow> ('p, 'o) chunk_tracking \<Rightarrow> ('p, 'o) server_update list \<times> ('p, 'o) chunk_tracking" where
  "drain_source (SourcePlayer n) c = drain_updates c n"
| "drain_source (SourceObserver n) c = drain_observer_updates c n"

fun track_step :: "('p, 'o) track_op \<Rightarrow> ('p, 'o) chunk_tracking \<Rightarrow> ('p, 'o) chunk_tracking option" where
  "track_step (Join n) c = Some (add_player c n)"
| "track_step (Leave n) c = Some (snd (remove_player c n))"
| "track_step (Look n requested) c = map_option snd (set_requested_view c n requested)"
| "track_step (JoinObserver n sim) c = Some (add_observer c n sim)"
| "track_step (LeaveObserver n) c = Some (snd (remove_observer c n))"
| "track_step (LookFrom n requested sim) c = map_option snd (set_observer_requested_view c n requested sim)"
| "track_step (Unload s p) c = Some (queue_unload_for_source p s c)"
| "track_step (UnloadAll p) c = Some (queue_unload_for_tracking_sources c p)"
| "track_step (Snapshot s sn) c = Some (queue_snapshot_for_source sn s c)"
| "track_step (SnapshotAll sn) c = Some (queue_snapshot_for_tracking_sources c sn)"
| "track_step (Sections p y us) c = Some (queue_section_updates_for_tracking_sources c p y us)"
| "track_step (Notify s u) c = Some (queue_update_for_source c s u)"
| "track_step (Pose n pose) c = Some (queue_player_position_before_chunk_updates c n pose)"
| "track_step (Drain s) c = Some (snd (drain_source s c))"

text \<open>What the clients hold after the step: a client that leaves drops everything.\<close>

fun client_step ::
  "('p, 'o) track_op \<Rightarrow> ('p, 'o) chunk_tracking \<Rightarrow> (dimension_interest_source \<Rightarrow> chunk_pos fset)
    \<Rightarrow> dimension_interest_source \<Rightarrow> chunk_pos fset" where
  "client_step (Leave n) c held = held(SourcePlayer n := {||})"
| "client_step (LeaveObserver n) c held = held(SourceObserver n := {||})"
| "client_step (Drain s) c held = held(s := fold receive (fst (drain_source s c)) (held s))"
| "client_step _ c held = held"

text \<open>
  Observers join under a fresh identity, and chunk data goes through the operations made for it.
\<close>

fun step_allowed :: "('p, 'o) track_op \<Rightarrow> ('p, 'o) chunk_tracking \<Rightarrow> bool" where
  "step_allowed (JoinObserver n sim) c \<longleftrightarrow> n |\<notin>| fmdom (ct_observers c)"
| "step_allowed (Notify s u) c \<longleftrightarrow> (\<forall>p. u \<noteq> ChunkUnloadUpdate p) \<and> (\<forall>sn. u \<noteq> ChunkSnapshotUpdate sn)"
| "step_allowed _ c \<longleftrightarrow> True"

inductive tracked ::
  "('p, 'o) chunk_tracking \<Rightarrow> (dimension_interest_source \<Rightarrow> chunk_pos fset) \<Rightarrow> bool" where
  start: "topology_wf t \<Longrightarrow> with_topology policy t = Some c \<Longrightarrow> tracked c (\<lambda>s. {||})"
| step: "tracked c held \<Longrightarrow> step_allowed op c \<Longrightarrow> track_step op c = Some c' \<Longrightarrow> tracked c' (client_step op c held)"

definition track_inv ::
  "('p, 'o) chunk_tracking \<Rightarrow> (dimension_interest_source \<Rightarrow> chunk_pos fset) \<Rightarrow> bool" where
  "track_inv c held \<longleftrightarrow> aggregate_ok c \<and> on_world c \<and> (\<forall>s. delivers c s (held s))"

section \<open>The invariant along runs\<close>

lemma transparent_inv: "transparent c c' \<Longrightarrow> track_inv c held \<Longrightarrow> track_inv c' held"
  unfolding transparent_def track_inv_def using same_interest_keeps by blast

lemma receive_other: "(\<forall>p. u \<noteq> ChunkUnloadUpdate p) \<Longrightarrow> (\<forall>sn. u \<noteq> ChunkSnapshotUpdate sn) \<Longrightarrow> receive u = (\<lambda>held. held)"
  by (cases u) (auto simp: fun_eq_iff)

lemma join_transparent:
  "transparent c (add_player c n)" "n |\<notin>| fmdom (ct_observers c) \<Longrightarrow> transparent c (add_observer c n sim)"
  by (simp_all add: transparent_def add_player_interest add_player_delivers add_observer_interest add_observer_delivers)

lemma routed_transparent:
  "transparent c (queue_unload_for_tracking_sources c p)"
  "transparent c (queue_snapshot_for_tracking_sources c sn)"
  "transparent c (queue_section_updates_for_tracking_sources c p y us)"
proof -
  have "transparent c (queue_update_for_source c s (SectionBlockUpdates p y us))" for s and c :: "('p, 'o) chunk_tracking"
    by (rule other_transparent) (simp add: fun_eq_iff)
  then show "transparent c (queue_section_updates_for_tracking_sources c p y us)"
    unfolding queue_section_updates_for_tracking_sources_def
    by (cases "us = []") (simp add: transparent_def, simp, rule transparent_fold)
qed (simp_all add: queue_unload_for_tracking_sources_def queue_snapshot_for_tracking_sources_def
    transparent_fold unload_transparent snapshot_transparent)

lemma look_changed:
  "track_step (Look n requested) c = Some c' \<Longrightarrow> \<exists>change. view_changed c (SourcePlayer n) requested change c'"
  "track_step (LookFrom k requested sim) c = Some c' \<Longrightarrow> \<exists>change. view_changed c (SourceObserver k) requested change c'"
  using set_requested_view_cases [where c = c and n = n and requested = requested]
    set_observer_view_cases [where c = c and n = k and requested = requested and sim = sim] by auto

lemma drain_source_spec:
  assumes "drain_source s c = (us, c')"
  shows "us = pending_of c s" and "same_interest c c'"
    and "pending_of c' s' = (if s' = s then [] else pending_of c s')"
    and "map_option vs_published (view_of c' s') = map_option vs_published (view_of c s')"
proof -
  have "us = pending_of c s \<and> same_interest c c' \<and> pending_of c' s' = (if s' = s then [] else pending_of c s')
      \<and> map_option vs_published (view_of c' s') = map_option vs_published (view_of c s')"
  proof (cases s)
    case (SourcePlayer n)
    with assms show ?thesis using drain_player_spec [of c n us c'] by auto
  next
    case (SourceObserver n)
    with assms show ?thesis using drain_observer_spec [of c n us c'] by auto
  qed
  then show "us = pending_of c s" and "same_interest c c'"
    and "pending_of c' s' = (if s' = s then [] else pending_of c s')"
    and "map_option vs_published (view_of c' s') = map_option vs_published (view_of c s')" by auto
qed

lemma drain_inv:
  assumes "track_inv c held"
  shows "track_inv (snd (drain_source s c)) (client_step (Drain s) c held)"
proof -
  obtain us c' where d: "drain_source s c = (us, c')" by fastforce
  note d' = drain_source_spec [OF d]
  have "delivers c' s' (client_step (Drain s) c held s')" for s'
    using drained_delivers [OF _ d'(3,4), where held = "held s'" and s' = s'] assms
    by (cases "s' = s") (simp_all add: track_inv_def d d'(1))
  moreover have "aggregate_ok c'" "on_world c'"
    using same_interest_keeps [OF d'(2)] assms by (simp_all add: track_inv_def)
  ultimately show ?thesis by (simp add: track_inv_def d del: client_step.simps)
qed

lemma leave_inv:
  assumes "c' = snd (remove_player c n) \<and> s = SourcePlayer n \<or> c' = snd (remove_observer c n) \<and> s = SourceObserver n"
    and "track_inv c held"
  shows "track_inv c' (held(s := {||}))"
proof -
  have "on_world c" "\<And>s. delivers c s (held s)" using assms(2) by (simp_all add: track_inv_def)
  note r = remove_keeps [OF assms(1) this(1)] and d = this(2)
  show ?thesis unfolding track_inv_def using r(1,2,3) r(4) [OF _ d] by simp
qed

lemma look_inv:
  assumes "view_changed c s requested change c'" and "track_inv c held"
  shows "track_inv c' held"
proof -
  have "on_world c" "\<And>s. delivers c s (held s)" using assms(2) by (simp_all add: track_inv_def)
  then show ?thesis using view_changed_keeps [OF assms(1)] by (simp add: track_inv_def)
qed

lemma step_inv:
  assumes inv: "track_inv c held" and ok: "step_allowed op c" and run: "track_step op c = Some c'"
  shows "track_inv c' (client_step op c held)"
proof (cases op)
  case (Leave n)
  then show ?thesis using leave_inv [OF _ inv, of c' n "SourcePlayer n"] run by simp
next
  case (LeaveObserver n)
  then show ?thesis using leave_inv [OF _ inv, of c' n "SourceObserver n"] run by simp
next
  case (Look n requested)
  with look_changed(1) run obtain change where "view_changed c (SourcePlayer n) requested change c'" by blast
  from look_inv [OF this inv] show ?thesis by (simp add: Look)
next
  case (LookFrom n requested sim)
  with look_changed(2) run obtain change where "view_changed c (SourceObserver n) requested change c'" by blast
  from look_inv [OF this inv] show ?thesis by (simp add: LookFrom)
next
  case (Drain s)
  then have c': "c' = snd (drain_source s c)" using run by simp
  show ?thesis using drain_inv [OF inv, of s] unfolding Drain c' .
next
  case (Notify s u)
  then have "transparent c c'" using run ok by (auto intro!: other_transparent receive_other)
  then show ?thesis using transparent_inv inv Notify by auto
qed (use run ok in \<open>auto intro!: transparent_inv [OF _ inv] join_transparent unload_transparent
    snapshot_transparent routed_transparent pose_transparent\<close>)

lemma start_track_inv:
  assumes "topology_wf t" and "with_topology policy t = Some c"
  shows "track_inv c (\<lambda>s. {||})"
proof -
  have c: "ct_topology c = t" "\<And>s. view_of c s = None" "\<And>s. pending_of c s = []"
    "ct_player_positions c = {||}" "ct_resident c = {||}" "ct_simulation c = {||}"
  proof -
    show "view_of c s = None" "pending_of c s = []" for s
      using assms(2) by (cases s; auto simp: with_topology_def source_simps split: sum.splits)+
  qed (use assms(2) in \<open>auto simp: with_topology_def split: sum.splits\<close>)
  then show ?thesis using assms(1) by (simp add: track_inv_def aggregate_ok_def on_world_def delivers_def seen_def)
qed

lemma tracked_inv: "tracked c held \<Longrightarrow> track_inv c held"
  by (induction rule: tracked.induct) (simp_all add: start_track_inv step_inv)

section \<open>The audience\<close>

type_synonym audience = "dimension_interest_source \<Rightarrow> (chunk_pos set \<times> chunk_pos set) option"

definition audience_of :: "('p, 'o) chunk_tracking \<Rightarrow> audience" where
  "audience_of c s = map_option (\<lambda>v. (fset (vs_visible v), fset (vs_published v))) (view_of c s)"

definition told :: "(chunk_pos set \<Rightarrow> chunk_pos set) \<Rightarrow> chunk_pos set \<times> chunk_pos set \<Rightarrow> chunk_pos set \<times> chunk_pos set" where
  "told f = (\<lambda>(sees, has). (sees, f has))"

definition enter :: "dimension_interest_source \<Rightarrow> audience \<Rightarrow> audience" where
  "enter s a = (if a s = None then a(s \<mapsto> ({}, {})) else a)"

text \<open>The new view: the square of the accepted radius, and what was seen within the unload radius.\<close>

definition look_at :: "horizontal_topology \<Rightarrow> tracking_policy \<Rightarrow> chunk_view_data \<Rightarrow> chunk_pos set \<Rightarrow> chunk_pos set" where
  "look_at t policy requested old = (let accepted = clamp_view policy requested in
     {q. in_square t (cv_center accepted) (cv_tracking_radius accepted) q}
     \<union> old \<inter> {q. in_square t (cv_center accepted) (unload_radius policy accepted) q})"

definition look_from :: "horizontal_topology \<Rightarrow> tracking_policy \<Rightarrow> chunk_view_data \<Rightarrow> dimension_interest_source \<Rightarrow> audience \<Rightarrow> audience" where
  "look_from t policy requested s a = (let b = enter s a in
     b(s := map_option (\<lambda>(sees, has). (look_at t policy requested sees, has)) (b s)))"

definition tell_watchers :: "chunk_pos \<Rightarrow> (chunk_pos set \<Rightarrow> chunk_pos set) \<Rightarrow> audience \<Rightarrow> audience" where
  "tell_watchers p f a = (\<lambda>s. map_option (\<lambda>v. if p \<in> fst v then told f v else v) (a s))"

fun audience_step :: "horizontal_topology \<Rightarrow> tracking_policy \<Rightarrow> ('p, 'o) track_op \<Rightarrow> audience \<Rightarrow> audience" where
  "audience_step t policy (Join n) a = enter (SourcePlayer n) a"
| "audience_step t policy (Leave n) a = a(SourcePlayer n := None)"
| "audience_step t policy (Look n requested) a = look_from t policy requested (SourcePlayer n) a"
| "audience_step t policy (JoinObserver n sim) a = enter (SourceObserver n) a"
| "audience_step t policy (LeaveObserver n) a = a(SourceObserver n := None)"
| "audience_step t policy (LookFrom n requested sim) a = look_from t policy requested (SourceObserver n) a"
| "audience_step t policy (Unload s p) a = a(s := map_option (told (\<lambda>has. has - {p})) (a s))"
| "audience_step t policy (UnloadAll p) a = tell_watchers p (\<lambda>has. has - {p}) a"
| "audience_step t policy (Snapshot s sn) a = a(s := map_option (told (insert (cs_pos sn))) (a s))"
| "audience_step t policy (SnapshotAll sn) a = tell_watchers (cs_pos sn) (insert (cs_pos sn)) a"
| "audience_step t policy _ a = a"

section \<open>Every operation acts on the audience\<close>

lemma audience_cong: "view_of c' = view_of c \<Longrightarrow> audience_of c' = audience_of c"
  by (simp add: fun_eq_iff audience_of_def)

lemma unload_told:
  "audience_of (queue_unload_for_source p s c) = (audience_of c)(s := map_option (told (\<lambda>has. has - {p})) (audience_of c s))"
proof -
  obtain f where f: "queue_unload_for_source p s c = queue_update_for_source (change_view c s f) s (ChunkUnloadUpdate p)"
    "\<And>v. vs_visible (f v) = vs_visible v" "\<And>v. vs_published (f v) = vs_published v |-| {|p|}"
    by (rule exE [OF unload_as_step]) blast
  show ?thesis unfolding f(1)
    by (rule ext) (cases "view_of c s"; simp add: audience_of_def queue_view change_view_of told_def f(2,3))
qed

lemma snapshot_told:
  "audience_of (queue_snapshot_for_source sn s c) = (audience_of c)(s := map_option (told (insert (cs_pos sn))) (audience_of c s))"
proof -
  obtain f where f: "queue_snapshot_for_source sn s c = queue_update_for_source (change_view c s f) s (ChunkSnapshotUpdate sn)"
    "\<And>v. vs_visible (f v) = vs_visible v" "\<And>v. vs_published (f v) = finsert (cs_pos sn) (vs_published v)"
    by (rule exE [OF snapshot_as_step]) blast
  show ?thesis unfolding f(1)
    by (rule ext) (cases "view_of c s"; simp add: audience_of_def queue_view change_view_of told_def f(2,3))
qed

lemma fold_told:
  assumes g: "\<And>s c. audience_of (g s c) = (audience_of c)(s := map_option (told f) (audience_of c s))"
    and f: "\<And>x. f (f x) = f x"
  shows "audience_of (fold g xs c) s = (if s \<in> set xs then map_option (told f) (audience_of c s) else audience_of c s)"
proof (induction xs arbitrary: c)
  case (Cons x xs)
  have "told f (told f v) = told f v" for v by (cases v) (simp add: told_def f)
  then show ?case using Cons.IH [of "g x c"] by (simp add: g option.map_comp comp_def)
qed simp

lemma source_tracking: "s \<in> set (sources_tracking_chunk c p) \<longleftrightarrow> p |\<in>| seen c s"
proof -
  have players: "n \<in> set (players_tracking_chunk c p) \<longleftrightarrow> p |\<in>| seen c (SourcePlayer n)" for n
    unfolding players_tracking_chunk_def seen_players image_iff set_map set_filter
    by (auto simp: set_sorted_list_of_fmap intro: rev_bexI)
  have observers: "n \<in> fst ` {e \<in> set (sorted_list_of_fmap (ct_observers c)). case e of (_, state) \<Rightarrow> p |\<in>| vs_visible (os_view state)}
      \<longleftrightarrow> p |\<in>| seen c (SourceObserver n)" for n
    unfolding seen_observers image_iff by (auto simp: set_sorted_list_of_fmap intro: rev_bexI)
  show ?thesis
    unfolding sources_tracking_chunk_def set_append set_map set_filter image_comp [symmetric]
    using players observers by (cases s) (auto simp: image_iff)
qed

lemma watchers_told:
  assumes g: "\<And>s c. audience_of (g s c) = (audience_of c)(s := map_option (told f) (audience_of c s))"
    and f: "\<And>x. f (f x) = f x"
  shows "audience_of (fold g (sources_tracking_chunk c p) c) = tell_watchers p f (audience_of c)"
proof
  fix s
  have "p |\<in>| seen c s \<longleftrightarrow> (\<exists>v. audience_of c s = Some v \<and> p \<in> fst v)"
    by (auto simp: seen_def audience_of_def split: option.splits)
  then show "audience_of (fold g (sources_tracking_chunk c p) c) s = tell_watchers p f (audience_of c) s"
    unfolding fold_told [OF assms] source_tracking tell_watchers_def by (cases "audience_of c s") auto
qed

lemma join_enters:
  "audience_of (add_player c n) = enter (SourcePlayer n) (audience_of c)"
  "audience_of (add_observer c k sim) = enter (SourceObserver k) (audience_of c)"
  by (auto simp: fun_eq_iff audience_of_def enter_def view_of_add_player view_of_add_observer view_state_default_def)

lemma leave_exits:
  "audience_of (snd (remove_player c n)) = (audience_of c)(SourcePlayer n := None)"
  "audience_of (snd (remove_observer c n)) = (audience_of c)(SourceObserver n := None)"
  using remove_spec(2) [of "snd (remove_player c n)" c n "SourcePlayer n"]
    remove_spec(2) [of "snd (remove_observer c n)" c n "SourceObserver n"]
  by (auto simp: fun_eq_iff audience_of_def)

lemma look_looks:
  assumes ch: "view_changed c s requested change c'" and wf: "topology_wf (ct_topology c)"
  shows "audience_of c' = look_from (ct_topology c) (ct_policy c) requested s (audience_of c)"
proof -
  let ?acc = "clamp_view (ct_policy c) requested"
  obtain V where V: "next_visible c ?acc (seen c s) = Some V"
    "\<And>s'. view_of c' s' = (if s' = s
        then Some ((case view_of c s of Some v \<Rightarrow> v | None \<Rightarrow> view_state_default)
          \<lparr>vs_visible := V, vs_requested := Some requested, vs_accepted := Some ?acc\<rparr>)
        else view_of c s')"
    using ch by (auto simp: view_changed_def Let_def)
  have "fset V = look_at (ct_topology c) (ct_policy c) requested (fset (seen c s))"
    using next_visible_spec [OF wf next_visible_fits [OF V(1)] refl, of "seen c s"] V(1)
    by (auto simp: look_at_def Let_def)
  then show ?thesis
    by (cases "view_of c s")
      (auto simp: fun_eq_iff audience_of_def V(2) look_from_def enter_def seen_def view_state_default_def Let_def)
qed

lemma transparent_view:
  fixes c :: "('p, 'o) chunk_tracking"
  shows "view_of (queue_section_updates_for_tracking_sources c p y us) = view_of c"
proof -
  have "view_of (fold (\<lambda>s c. queue_update_for_source c s u) ss c) = view_of c" for ss u and c :: "('p, 'o) chunk_tracking"
    by (induction ss arbitrary: c) (simp_all add: queue_view)
  then show ?thesis by (simp add: queue_section_updates_for_tracking_sources_def)
qed

lemma pose_view: "view_of (queue_player_position_before_chunk_updates c n pose) = view_of c"
  by (simp add: queue_player_position_before_chunk_updates_def Let_def split: prod.split)

lemma drain_audience: "audience_of (snd (drain_source s c)) = audience_of c"
proof -
  obtain us c' where d: "drain_source s c = (us, c')" by fastforce
  have "seen c' = seen c" using drain_source_spec(2) [OF d] by (simp add: same_interest_def)
  then have "map_option vs_published (view_of c' s') = map_option vs_published (view_of c s')" "seen c' s' = seen c s'" for s'
    using drain_source_spec(4) [OF d] by simp_all
  note same = this
  have "audience_of c' s' = audience_of c s'" for s'
    using same(1) [of s'] same(2) [of s']
    by (cases "view_of c s'"; cases "view_of c' s'") (simp_all add: audience_of_def seen_def)
  then show ?thesis by (simp add: d fun_eq_iff)
qed

lemma step_audience:
  assumes wf: "topology_wf (ct_topology c)" and run: "track_step op c = Some c'"
  shows "audience_of c' = audience_step (ct_topology c) (ct_policy c) op (audience_of c)"
proof (cases op)
  case (Look n requested)
  with look_changed(1) run obtain change where "view_changed c (SourcePlayer n) requested change c'" by blast
  from look_looks [OF this wf] show ?thesis by (simp add: Look)
next
  case (LookFrom n requested sim)
  with look_changed(2) run obtain change where "view_changed c (SourceObserver n) requested change c'" by blast
  from look_looks [OF this wf] show ?thesis by (simp add: LookFrom)
next
  case (UnloadAll p)
  then have "c' = fold (queue_unload_for_source p) (sources_tracking_chunk c p) c"
    using run by (simp add: queue_unload_for_tracking_sources_def)
  then show ?thesis unfolding UnloadAll by (simp add: watchers_told [OF unload_told])
next
  case (SnapshotAll sn)
  then have "c' = fold (queue_snapshot_for_source sn) (sources_tracking_chunk c (cs_pos sn)) c"
    using run by (simp add: queue_snapshot_for_tracking_sources_def)
  then show ?thesis unfolding SnapshotAll by (simp add: watchers_told [OF snapshot_told])
qed (use run in \<open>auto simp: join_enters leave_exits unload_told snapshot_told drain_audience transparent_view pose_view queue_view
    intro: audience_cong\<close>)

section \<open>Requests\<close>

lemma view_request_answered:
  assumes wf: "topology_wf (ct_topology c)" and fits: "request_fits c requested"
  shows "\<exists>change c'. set_requested_view c n requested = Some (change, c')
     \<and> vc_accepted change = Some (clamp_view (ct_policy c) requested)
     \<and> fset (seen c' (SourcePlayer n)) = look_at (ct_topology c) (ct_policy c) requested (fset (seen c (SourcePlayer n)))
     \<and> vc_added change = sorted_list_of_fset (seen c' (SourcePlayer n) |-| seen c (SourcePlayer n))
     \<and> vc_removed change = sorted_list_of_fset (seen c (SourcePlayer n) |-| seen c' (SourcePlayer n))
     \<and> (\<forall>s. s \<noteq> SourcePlayer n \<longrightarrow> view_of c' s = view_of c s) \<and> pending_of c' = pending_of c
     \<and> ct_topology c' = ct_topology c \<and> ct_policy c' = ct_policy c"
proof -
  let ?s = "SourcePlayer n" let ?acc = "clamp_view (ct_policy c) requested"
  obtain V where V: "next_visible c ?acc (seen c ?s) = Some V"
    "fset V = look_at (ct_topology c) (ct_policy c) requested (fset (seen c ?s))"
    using next_visible_spec [OF wf fits refl, of "seen c ?s"] by (auto simp: look_at_def Let_def)
  obtain change c' where run: "set_requested_view c n requested = Some (change, c')" "view_changed c ?s requested change c'"
    using set_requested_view_cases [where c = c and n = n and requested = requested] V(1)
    by (cases "set_requested_view c n requested") auto
  then have ch: "vc_accepted change = Some ?acc" "vc_added change = sorted_list_of_fset (V |-| seen c ?s)"
    "vc_removed change = sorted_list_of_fset (seen c ?s |-| V)" "seen c' ?s = V"
    "\<And>s. s \<noteq> ?s \<Longrightarrow> view_of c' s = view_of c s" "pending_of c' = pending_of c"
    "ct_topology c' = ct_topology c" "ct_policy c' = ct_policy c"
    using V(1) by (auto simp: view_changed_def Let_def seen_def) (metis view_change.select_convs)+
  then show ?thesis using run(1) V(2) by (intro exI [of _ change] exI [of _ c']) simp
qed

lemma view_request_refused: "\<not> request_fits c requested \<Longrightarrow> set_requested_view c n requested = None"
  using set_requested_view_cases [where c = c and n = n and requested = requested]
  by (cases "set_requested_view c n requested") (auto simp: view_changed_def Let_def dest: next_visible_fits)

end
