(* ===== verification/ServerInterest.thy ===== *)
theory ServerInterest imports ServerTicketQueries ServerTrackingTraces
begin

text \<open>
  The chunk tracking and the ticket manager together: the aggregate sets of the tracking become the
  interest of the manager, and the levels of the manager cover every chunk that somebody sees.
\<close>

lemma own_square:
  assumes "topology_wf t" and "on_topology t p"
  shows "neighbor_chunk t p 0 0 = Some (Some p)"
  using assms(2) by (cases p) (simp add: neighbor_chunk_eq [OF assms(1)] lift_at_def on_topology_def representative_contained)

lemma ticket_bounds_level:
  assumes "dm_inv r m" and "holds m p i" and "on_topology (dm_topology m) p"
  shows "\<exists>l m'. active_level_at m p = Some (l, m') \<and> l \<le> ticket_level i"
proof -
  have inv: "tickets_inv r m" using assms(1) by (simp add: dm_inv_def)
  then have "topology_wf (dm_topology m)" by (simp add: tickets_inv_def levels_ok_def)
  from own_square [OF this assms(3)] have o: "offered m (\<lambda>i. True) p (ticket_level i)"
    unfolding offered_def using assms(2) by (intro exI [of _ p] exI [of _ i] exI [of _ 0]) simp
  show ?thesis using active_level_least [OF inv, of p] o by (auto simp: least_offer_def)
qed

text \<open>What a source sees is loaded: it ticks, it is resident, or it waits while every slot is taken.\<close>

lemma seen_served:
  assumes track: "track_inv c held" and inv: "dm_inv r m'" and topo: "ct_topology c = dm_topology m'"
    and sets: "dm_resident m' = ct_resident c" "dm_simulation m' = ct_simulation c" and seen: "p |\<in>| seen c s"
  shows "\<exists>l m''. active_level_at m' p = Some (l, m'')
    \<and> (p |\<in>| dm_player_positions m' \<longrightarrow> l \<le> 31) \<and> (p |\<notin>| ct_simulation c \<longrightarrow> l \<le> 33)
    \<and> (p |\<in>| waiting m' \<longrightarrow> fcard (dm_active_promotions m') = dm_max_active m')
    \<and> (p |\<notin>| waiting m' \<longrightarrow> l \<le> 33)"
proof -
  have on: "on_topology (dm_topology m') p" using track seen topo by (simp add: track_inv_def on_world_def)
  have res: "p |\<in>| ct_resident c" using track seen by (auto simp: track_inv_def aggregate_ok_def)
  have t: "holds m' p (Player, 31, KeyChunk p) \<longleftrightarrow> p |\<in>| dm_player_positions m'"
    "holds m' p (Observer, 33, KeyChunk p) \<longleftrightarrow> p |\<in>| dm_resident m' |-| dm_simulation m'"
    "dm_player_positions m' |\<subseteq>| dm_simulation m'"
    "p |\<in>| waiting m' \<Longrightarrow> fcard (dm_active_promotions m') = dm_max_active m'"
    using inv by (auto simp: dm_inv_def promotions_ok_def promotions_pre_def waiting_def)
  obtain l m'' where l: "active_level_at m' p = Some (l, m'')"
    using active_level_least [of r m' p] inv by (auto simp: dm_inv_def)
  have "l \<le> 31" if "p |\<in>| dm_player_positions m'"
    using ticket_bounds_level [OF inv _ on, of "(Player, 31, KeyChunk p)"] t(1) that l by (simp add: ticket_level_def)
  moreover have "l \<le> 33" if "p |\<notin>| ct_simulation c"
    using ticket_bounds_level [OF inv _ on, of "(Observer, 33, KeyChunk p)"] t(2) that l res by (simp add: ticket_level_def sets)
  ultimately show ?thesis using t(4) l by (fastforce simp: waiting_def sets)
qed

end
