(* ===== verification/ServerTrackingProperties.thy ===== *)
theory ServerTrackingProperties imports ServerInterest
begin

text \<open>
  Properties of the chunk tracking of the server and of its composition with the ticket manager.  The
  samples use a cylinder of 64 chunks and a player who looks at one chunk.
\<close>

section \<open>Samples\<close>

abbreviation (input) home :: chunk_pos where "home \<equiv> ChunkPos 0 0"
abbreviation (input) one_chunk :: chunk_view_data where
  "one_chunk \<equiv> \<lparr>cv_center = home, cv_render_distance = 0, cv_tracking_radius = 0\<rparr>"

lemma wide_cylinder: "topology_wf (cylinder_x 0 64)" "topology_validate (cylinder_x 0 64) = Inr ()"
  "validate_one_lift_radius (cylinder_x 0 64) 0 = Inr ()"
  by (simp_all add: topology_wf_def axis_wf_def cylinder_x_def in_i32_def wrap_i32_id topology_validate_def
      validate_block_aligned_extent_def validate_one_lift_radius_def)

lemma one_chunk_view: "look_at (cylinder_x 0 64) local_integrated one_chunk {} = {home}"
proof -
  have "in_square (cylinder_x 0 64) home 0 q \<longleftrightarrow> q = home" for q
    by (auto simp: in_square_def neighbor_chunk_def both_axes_def cylinder_x_def in_i32_def wrap_i32_id)
  then show ?thesis by (auto simp: look_at_def Let_def clamp_view_def local_integrated_def java_max_def policy_new_def
      with_unload_hysteresis_chunks_def)
qed

lemma one_chunk_fits:
  "ct_topology c = cylinder_x 0 64 \<Longrightarrow> ct_policy c = local_integrated \<Longrightarrow> request_fits c one_chunk"
  by (simp add: request_fits_def Let_def wide_cylinder clamp_view_def unload_radius_def local_integrated_def java_max_def
      policy_new_def with_unload_hysteresis_chunks_def)

text \<open>An empty tracking.\<close>

lemma fresh_tracking:
  "\<exists>c :: (unit, unit) chunk_tracking. with_topology local_integrated (cylinder_x 0 64) = Some c \<and> tracked c (\<lambda>s. {||})
     \<and> (\<forall>s. view_of c s = None) \<and> ct_topology c = cylinder_x 0 64 \<and> ct_policy c = local_integrated"
proof -
  obtain c :: "(unit, unit) chunk_tracking" where c: "with_topology local_integrated (cylinder_x 0 64) = Some c"
    using wide_cylinder(2) by (simp add: with_topology_def)
  have "view_of c s = None" for s using c by (cases s) (auto simp: with_topology_def view_of.simps split: sum.splits)
  moreover have "ct_topology c = cylinder_x 0 64" "ct_policy c = local_integrated"
    using c by (auto simp: with_topology_def split: sum.splits)
  ultimately show ?thesis using c tracked.start [OF wide_cylinder(1) c] by blast
qed

text \<open>A player looks at one chunk and is told about it.\<close>

lemma looking_player:
  "\<exists>c :: (unit, unit) chunk_tracking. tracked c (\<lambda>s. {||}) \<and> seen c (SourcePlayer 7) = {|home|}
     \<and> ct_topology c = cylinder_x 0 64 \<and> ct_policy c = local_integrated \<and> view_of c (SourcePlayer 7) \<noteq> None
     \<and> ct_resident c = {|home|}"
proof -
  obtain c :: "(unit, unit) chunk_tracking" where c: "tracked c (\<lambda>s. {||})" "\<And>s. view_of c s = None"
    "ct_topology c = cylinder_x 0 64" "ct_policy c = local_integrated" using fresh_tracking by blast
  have none: "seen c (SourcePlayer 7) = {||}" using c(2) by (simp add: seen_def)
  obtain change c' where c': "set_requested_view c 7 one_chunk = Some (change, c')"
    "fset (seen c' (SourcePlayer 7)) = look_at (cylinder_x 0 64) local_integrated one_chunk {}"
    "ct_topology c' = ct_topology c" "ct_policy c' = ct_policy c"
    "\<And>s. s \<noteq> SourcePlayer 7 \<Longrightarrow> view_of c' s = view_of c s"
    using view_request_answered [where c = c and requested = one_chunk and n = 7] wide_cylinder(1) one_chunk_fits c(3,4) none by auto
  have "track_step (Look 7 one_chunk) c = Some c'" using c'(1) by simp
  from tracked.step [OF c(1) _ this] have t: "tracked c' (\<lambda>s. {||})" by simp
  have s: "seen c' (SourcePlayer 7) = {|home|}"
    using c'(2) unfolding one_chunk_view by (metis bot_fset.rep_eq finsert.rep_eq fset_inject)
  have "seen c' s = (if s = SourcePlayer 7 then {|home|} else {||})" for s
    using s c'(5) [of s] c(2) [of s] by (simp add: seen_def)
  then have "q |\<in>| ct_resident c' \<longleftrightarrow> q = home" for q
    using tracked_inv [OF t] by (simp add: track_inv_def aggregate_ok_def)
  then have "ct_resident c' = {|home|}" by auto
  moreover have "view_of c' (SourcePlayer 7) \<noteq> None"
  proof
    assume "view_of c' (SourcePlayer 7) = None"
    then have "seen c' (SourcePlayer 7) = {||}" by (simp add: seen_def)
    with s show False by (metis finsert_not_fempty)
  qed
  ultimately show ?thesis using t s c'(3,4) c(3,4) by auto
qed

text \<open>The server unloads the chunk that the player sees; the update waits in the queue.\<close>

lemma told_player:
  "\<exists>c held p. tracked (c :: (unit, unit) chunk_tracking) held \<and> pending_of c (SourcePlayer 7) = [ChunkUnloadUpdate p]"
proof -
  obtain c :: "(unit, unit) chunk_tracking" where c: "tracked c (\<lambda>s. {||})" "view_of c (SourcePlayer 7) \<noteq> None"
    using looking_player by blast
  obtain us c1 where d: "drain_source (SourcePlayer 7) c = (us, c1)" by fastforce
  have "track_step (Drain (SourcePlayer 7)) c = Some c1" using d by simp
  from tracked.step [OF c(1) _ this] obtain held where t1: "tracked c1 held" by simp
  have p1: "pending_of c1 (SourcePlayer 7) = []" using drain_source_spec(3) [OF d] by simp
  have "view_of c1 (SourcePlayer 7) \<noteq> None"
    using drain_source_spec(4) [OF d, of "SourcePlayer 7"] c(2) by (metis option.map_disc_iff)
  moreover obtain f where f: "queue_unload_for_source home (SourcePlayer 7) c1
      = queue_update_for_source (change_view c1 (SourcePlayer 7) f) (SourcePlayer 7) (ChunkUnloadUpdate home)"
    by (rule exE [OF unload_as_step]) blast
  ultimately have "pending_of (queue_unload_for_source home (SourcePlayer 7) c1) (SourcePlayer 7) = [ChunkUnloadUpdate home]"
    using p1 unfolding f queue_pending by (simp add: change_view_pending change_view_of)
  moreover have "track_step (Unload (SourcePlayer 7) home) c1 = Some (queue_unload_for_source home (SourcePlayer 7) c1)"
    by simp
  from tracked.step [OF t1 _ this] have "tracked (queue_unload_for_source home (SourcePlayer 7) c1) held" by simp
  ultimately show ?thesis by blast
qed

section \<open>The properties\<close>

text \<open>C2: what the server believes to be published is what arrives.
  In every run, for every source, applying the queued updates in order to the chunks its client holds gives exactly the published set of the source; a source that left has no queue and its client holds nothing.\<close>
theorem published_is_delivered:
  assumes "tracked c held"
  shows "case view_of c s of
      Some v \<Rightarrow> fold receive (pending_of c s) (held s) = vs_published v
    | None \<Rightarrow> pending_of c s = [] \<and> held s = {||}"
  using tracked_inv [OF assms] by (simp add: track_inv_def delivers_def)

lemma published_is_delivered_witness:
  "\<exists>c held p v. tracked (c :: (unit, unit) chunk_tracking) held \<and> view_of c (SourcePlayer 7) = Some v
     \<and> pending_of c (SourcePlayer 7) = [ChunkUnloadUpdate p] \<and> vs_published v = held (SourcePlayer 7) |-| {|p|}"
proof -
  obtain c held p where c: "tracked (c :: (unit, unit) chunk_tracking) held" "pending_of c (SourcePlayer 7) = [ChunkUnloadUpdate p]"
    using told_player by blast
  have "\<exists>v. view_of c (SourcePlayer 7) = Some v \<and> vs_published v = held (SourcePlayer 7) |-| {|p|}"
    using published_is_delivered [OF c(1), of "SourcePlayer 7"] c(2) by (cases "view_of c (SourcePlayer 7)") auto
  with c show ?thesis by blast
qed

text \<open>C1: the tracking refines the audience.
  Every operation, whatever it does to queues, counters and aggregates, acts on the seen and published chunks of all sources as the abstract step does: joins, departures and views change one source, unloads and snapshots reach the addressed source or everyone who sees the chunk, and drains, poses, section updates and other updates change nothing.\<close>
theorem tracking_refines_audience:
  assumes "tracked c held" and "track_step op c = Some c'"
  shows "audience_of c' = audience_step (ct_topology c) (ct_policy c) op (audience_of c)"
  using step_audience [OF _ assms(2)] tracked_inv [OF assms(1)] by (simp add: track_inv_def on_world_def)

lemma tracking_refines_audience_witness:
  "\<exists>c c'. tracked (c :: (unit, unit) chunk_tracking) (\<lambda>s. {||}) \<and> track_step (UnloadAll home) c = Some c'
     \<and> audience_of c' = tell_watchers home (\<lambda>has. has - {home}) (audience_of c)"
proof -
  obtain c :: "(unit, unit) chunk_tracking" where c: "tracked c (\<lambda>s. {||})" using looking_player by blast
  have "track_step (UnloadAll home) c = Some (queue_unload_for_tracking_sources c home)" by simp
  from tracking_refines_audience [OF c this] c show ?thesis by auto
qed

text \<open>C34: a view request is answered exactly when the topology can tell its radii apart.
  Then the player sees the square of the clamped radius and what it saw within the unload radius, the change reports exactly the chunks that came and went, and nobody else is touched; otherwise the request panics.\<close>
theorem requested_view_applies:
  assumes "tracked c held"
  shows "case set_requested_view c n requested of
      None \<Rightarrow> \<not> request_fits c requested
    | Some (change, c') \<Rightarrow> request_fits c requested
        \<and> fset (seen c' (SourcePlayer n)) = look_at (ct_topology c) (ct_policy c) requested (fset (seen c (SourcePlayer n)))
        \<and> vc_accepted change = Some (clamp_view (ct_policy c) requested)
        \<and> vc_added change = sorted_list_of_fset (seen c' (SourcePlayer n) |-| seen c (SourcePlayer n))
        \<and> vc_removed change = sorted_list_of_fset (seen c (SourcePlayer n) |-| seen c' (SourcePlayer n))
        \<and> (\<forall>s. s \<noteq> SourcePlayer n \<longrightarrow> view_of c' s = view_of c s)"
proof (cases "request_fits c requested")
  case True
  have "topology_wf (ct_topology c)" using tracked_inv [OF assms] by (simp add: track_inv_def on_world_def)
  from view_request_answered [OF this True, of n] True show ?thesis by auto
qed (simp add: view_request_refused)

lemma requested_view_applies_witness:
  "\<exists>c change c'. tracked (c :: (unit, unit) chunk_tracking) (\<lambda>s. {||}) \<and> set_requested_view c 7 one_chunk = Some (change, c')
     \<and> fset (seen c' (SourcePlayer 7)) = {home} \<and> vc_removed change = []"
proof -
  obtain c :: "(unit, unit) chunk_tracking" where c: "tracked c (\<lambda>s. {||})" "\<And>s. view_of c s = None"
    "ct_topology c = cylinder_x 0 64" "ct_policy c = local_integrated" using fresh_tracking by blast
  have none: "seen c (SourcePlayer 7) = {||}" using c(2) by (simp add: seen_def)
  have empty: "sorted_list_of_fset ({||} :: chunk_pos fset) = []" by (simp add: sorted_list_of_fset.rep_eq)
  obtain change c' where "set_requested_view c 7 one_chunk = Some (change, c')"
    "fset (seen c' (SourcePlayer 7)) = {home}" "vc_removed change = []"
    using requested_view_applies [OF c(1), where n = 7 and requested = one_chunk] one_chunk_fits [OF c(3,4)]
    by (cases "set_requested_view c 7 one_chunk") (auto simp: c(3,4) none one_chunk_view empty)
  with c(1) show ?thesis by blast
qed

text \<open>The check that a local session makes before it starts is the right one: a view that passes it is answered at any time of a run of the local tracking, and a view that does not pass would panic.\<close>
lemma validated_views_answered:
  assumes "tracked c held" and "ct_policy c = local_integrated"
  shows "validate_local_integrated_chunk_view_topology (ct_topology c) requested = Inr ()
     \<longleftrightarrow> set_requested_view c n requested \<noteq> None"
proof -
  have wf: "topology_wf (ct_topology c)" using tracked_inv [OF assms(1)] by (simp add: track_inv_def on_world_def)
  then have "topology_validate (ct_topology c) = Inr ()" by (rule topology_wf_validate)
  moreover have "unload_radius local_integrated (clamp_view local_integrated requested) < 2 ^ 31"
    by (simp add: unload_radius_def clamp_view_def sat_add_u32_def local_integrated_def java_max_def policy_new_def
        with_unload_hysteresis_chunks_def Let_def min_def)
  ultimately have "validate_local_integrated_chunk_view_topology (ct_topology c) requested = Inr () \<longleftrightarrow> request_fits c requested"
    by (auto simp: validate_local_integrated_chunk_view_topology_def request_fits_def assms(2) Let_def split: sum.split)
  then show ?thesis using view_request_answered [OF wf, of requested n] view_request_refused [where c = c and n = n and requested = requested] by auto
qed

lemma validated_views_answered_at_input:
  "\<exists>c. tracked (c :: (unit, unit) chunk_tracking) (\<lambda>s. {||}) \<and> ct_policy c = local_integrated
     \<and> set_requested_view c 9 one_chunk \<noteq> None"
proof -
  obtain c :: "(unit, unit) chunk_tracking" where c: "tracked c (\<lambda>s. {||})" "ct_topology c = cylinder_x 0 64"
    "ct_policy c = local_integrated" using fresh_tracking by blast
  have "validate_local_integrated_chunk_view_topology (cylinder_x 0 64) one_chunk = Inr ()"
    by (simp add: validate_local_integrated_chunk_view_topology_def wide_cylinder Let_def clamp_view_def unload_radius_def
        local_integrated_def java_max_def policy_new_def with_unload_hysteresis_chunks_def)
  with validated_views_answered [OF c(1,3), of one_chunk 9] c show ?thesis by auto
qed

text \<open>C35: the aggregate sets handed to the ticket manager are exact at all times: player chunks are the chunks some player sees, resident chunks those that some source sees, and simulated chunks those that a player or a simulating observer sees.\<close>
theorem aggregate_sets_exact:
  assumes "tracked c held"
  shows "(p |\<in>| ct_player_positions c \<longleftrightarrow> (\<exists>n. p |\<in>| seen c (SourcePlayer n)))
     \<and> (p |\<in>| ct_resident c \<longleftrightarrow> (\<exists>s. p |\<in>| seen c s))
     \<and> (p |\<in>| ct_simulation c \<longleftrightarrow> (\<exists>n. p |\<in>| seen c (SourcePlayer n))
          \<or> (\<exists>n. ticking c n \<and> p |\<in>| seen c (SourceObserver n)))"
  using tracked_inv [OF assms] by (simp add: track_inv_def aggregate_ok_def)

lemma aggregate_sets_exact_witness:
  "\<exists>c. tracked (c :: (unit, unit) chunk_tracking) (\<lambda>s. {||}) \<and> home |\<in>| ct_player_positions c
     \<and> home |\<in>| ct_resident c \<and> home |\<in>| ct_simulation c"
proof -
  obtain c :: "(unit, unit) chunk_tracking" where c: "tracked c (\<lambda>s. {||})" "seen c (SourcePlayer 7) = {|home|}"
    using looking_player by blast
  then show ?thesis using aggregate_sets_exact [OF c(1), of home] by (metis finsertI1)
qed

text \<open>C36: what somebody sees is loaded, where no square of a ticket sees a place twice.
  Take a valid topology that passes the one-lift check for a radius r of at least 13 (and below 2^31), a tracking over it after any steps, and a ticket manager that was given it before any ticket and ran any operations with tickets that reach at most r chunks (those of players and observers left to the manager, generations within 64 bits).
  Once the manager takes over the interest of the tracking, every chunk that a source sees has a level: at most 31 once it is promoted, at most 33 when only observers that do not simulate see it, and a chunk that still waits for its promotion waits because every slot is taken.\<close>
theorem seen_chunks_served:
  assumes "topology_fits r (ct_topology c)" and "tracked c held"
    and "allowed_run r ops (set_topology distance_manager_new (ct_topology c)) = Some m"
    and "dm_generation m + interest_cost m (ct_resident c) < 2 ^ 64" and "p |\<in>| seen c s"
  shows "\<exists>m' l m''. set_aggregate_interest_positions_with_priority m (ct_resident c) (ct_simulation c)
        (aggregate_interest_priority_centers c) = Some m'
     \<and> active_level_at m' p = Some (l, m'')
     \<and> (p |\<in>| dm_player_positions m' \<longrightarrow> l \<le> 31) \<and> (p |\<notin>| ct_simulation c \<longrightarrow> l \<le> 33)
     \<and> (p |\<in>| waiting m' \<longrightarrow> fcard (dm_active_promotions m') = dm_max_active m') \<and> (p |\<notin>| waiting m' \<longrightarrow> l \<le> 33)"
proof -
  have t: "dm_topology m = ct_topology c"
    using allowed_run_topology [OF start_inv [OF assms(1)] assms(3)] by (simp add: set_topology_topology)
  obtain m' where m': "run_op (SetInterest (ct_resident c) (ct_simulation c) (aggregate_interest_priority_centers c)) m = Some m'"
    "dm_inv r m'" "dm_resident m' = ct_resident c" "dm_simulation m' = ct_simulation c" "dm_topology m' = dm_topology m"
    using interest_spec [OF allowed_run_inv [OF assms(1,3)] assms(4), of "ct_simulation c" "aggregate_interest_priority_centers c"]
    by blast
  from seen_served [OF tracked_inv [OF assms(2)] m'(2) _ m'(3,4) assms(5)] m'(1,5) t show ?thesis by auto
qed

lemma seen_chunks_served_witness:
  "\<exists>c m m' l m''. tracked (c :: (unit, unit) chunk_tracking) (\<lambda>s. {||})
     \<and> set_aggregate_interest_positions_with_priority m (ct_resident c) (ct_simulation c)
        (aggregate_interest_priority_centers c) = Some m' \<and> active_level_at m' home = Some (l, m'')
     \<and> (home |\<in>| dm_player_positions m' \<longrightarrow> l \<le> 31)"
proof -
  obtain c :: "(unit, unit) chunk_tracking" where c: "tracked c (\<lambda>s. {||})" "seen c (SourcePlayer 7) = {|home|}"
    "ct_topology c = cylinder_x 0 64" "ct_resident c = {|home|}" using looking_player by blast
  let ?m = "set_topology distance_manager_new (cylinder_x 0 64)"
  have fits: "topology_fits 13 (ct_topology c)"
    using wide_cylinder(1) by (simp add: c(3) topology_fits_def cylinder_x_def in_i32_def validate_one_lift_radius_def)
  have m: "allowed_run 13 [] (set_topology distance_manager_new (ct_topology c)) = Some ?m" by (simp add: c(3))
  have f: "dm_topology ?m = cylinder_x 0 64" "dm_generation ?m = 1" "dm_simulation ?m = {||}" "dm_resident ?m = {||}" "dm_max_active ?m = 4"
    by (simp_all add: set_topology_def distance_manager_new_def Let_def mark_tickets_changed_def next_u64_def
        topology_unbounded_def cylinder_x_def)
  have "dm_generation ?m + interest_cost ?m (ct_resident c) < 2 ^ 64"
    by (simp add: f interest_cost_def c(4) fcard.rep_eq)
  from seen_chunks_served [OF fits c(1) m this, of home "SourcePlayer 7"] obtain m' l m'' where
    "set_aggregate_interest_positions_with_priority ?m (ct_resident c) (ct_simulation c)
        (aggregate_interest_priority_centers c) = Some m'" "active_level_at m' home = Some (l, m'')"
    "home |\<in>| dm_player_positions m' \<longrightarrow> l \<le> 31" using c f(1) by auto
  with c(1) show ?thesis by blast
qed

end
