(* ===== verification/ServerTrackingDiagnostics.thy ===== *)
theory ServerTrackingDiagnostics imports ServerTracking
begin

text \<open>
  The counters that the chunk tracking reports: one entry per player and per observer, in the order of
  their numbers, and totals over all of them.  The size of an encoded update is a parameter; totals are
  taken not to wrap, they count what is in memory.
\<close>

section \<open>Diagnostics\<close>

record player_tracking_diagnostics =
  pd_player :: nat
  pd_requested :: "chunk_view_data option"
  pd_accepted :: "chunk_view_data option"
  pd_visible :: nat
  pd_published :: nat
  pd_published_visible :: nat
  pd_missing_published :: nat
  pd_published_outside :: nat
  pd_queued_snapshots :: nat
  pd_queued_unloads :: nat
  pd_drained_snapshots :: nat
  pd_drained_unloads :: nat
  pd_queue_depth :: nat

record observer_tracking_diagnostics =
  od_observer :: nat
  od_simulation :: observer_simulation_interest
  od_requested :: "chunk_view_data option"
  od_accepted :: "chunk_view_data option"
  od_visible :: nat
  od_published :: nat
  od_queue_depth :: nat
  od_queue_bytes :: nat

record tracking_diagnostics =
  td_player_count :: nat
  td_observer_count :: nat
  td_aggregate_player_chunks :: nat
  td_aggregate_resident_chunks :: nat
  td_aggregate_simulation_chunks :: nat
  td_player_visible :: nat
  td_player_published :: nat
  td_player_published_visible :: nat
  td_player_missing_published :: nat
  td_player_published_outside :: nat
  td_player_queued_snapshots :: nat
  td_player_queued_unloads :: nat
  td_player_drained_snapshots :: nat
  td_player_drained_unloads :: nat
  td_observer_visible :: nat
  td_observer_published :: nat
  td_queue_depth :: nat
  td_observer_queue_depth :: nat
  td_observer_queue_bytes :: nat
  td_max_player_visible :: nat
  td_max_observer_visible :: nat
  td_max_queue_depth :: nat
  td_max_observer_queue_depth :: nat
  td_players :: "player_tracking_diagnostics list"
  td_observers :: "observer_tracking_diagnostics list"

definition player_diagnostics :: "('p, 'o) chunk_tracking \<Rightarrow> nat \<times> player_view_state \<Rightarrow> player_tracking_diagnostics" where
  "player_diagnostics c entry = (case entry of (player_id, state) \<Rightarrow>
     \<lparr>pd_player = player_id, pd_requested = vs_requested state, pd_accepted = vs_accepted state,
      pd_visible = fcard (vs_visible state), pd_published = fcard (vs_published state),
      pd_published_visible = fcard (vs_published state |\<inter>| vs_visible state),
      pd_missing_published = fcard (vs_visible state |-| vs_published state),
      pd_published_outside = fcard (vs_published state |-| vs_visible state),
      pd_queued_snapshots = vs_queued_snapshots state, pd_queued_unloads = vs_queued_unloads state,
      pd_drained_snapshots = vs_drained_snapshots state, pd_drained_unloads = vs_drained_unloads state,
      pd_queue_depth = (case fmlookup (ct_pending c) player_id of Some us \<Rightarrow> length us | None \<Rightarrow> 0)\<rparr>)"

text \<open>The length of an encoded update is a parameter; an update that does not encode counts nothing.\<close>

definition observer_diagnostics ::
  "(('p, 'o) server_update \<Rightarrow> nat option) \<Rightarrow> ('p, 'o) chunk_tracking \<Rightarrow> nat \<times> observer_view_state
    \<Rightarrow> observer_tracking_diagnostics" where
  "observer_diagnostics frame_len c entry = (case entry of (observer_id, state) \<Rightarrow>
     let queue = (case fmlookup (ct_pending_observers c) observer_id of Some us \<Rightarrow> us | None \<Rightarrow> []) in
     \<lparr>od_observer = observer_id, od_simulation = os_simulation state,
      od_requested = vs_requested (os_view state), od_accepted = vs_accepted (os_view state),
      od_visible = fcard (vs_visible (os_view state)), od_published = fcard (vs_published (os_view state)),
      od_queue_depth = length queue, od_queue_bytes = sum_list (List.map_filter frame_len queue)\<rparr>)"

definition max_or_zero :: "nat list \<Rightarrow> nat" where
  "max_or_zero ns = fold max ns 0"

definition diagnostics ::
  "(('p, 'o) server_update \<Rightarrow> nat option) \<Rightarrow> ('p, 'o) chunk_tracking \<Rightarrow> tracking_diagnostics" where
  "diagnostics frame_len c =
     (let players = map (player_diagnostics c) (sorted_list_of_fmap (ct_players c));
          observers = map (observer_diagnostics frame_len c) (sorted_list_of_fmap (ct_observers c));
          total = (\<lambda>f. sum_list (map f players));
          observer_total = (\<lambda>f. sum_list (map f observers)) in
      \<lparr>td_player_count = length players, td_observer_count = length observers,
       td_aggregate_player_chunks = fcard (ct_player_positions c),
       td_aggregate_resident_chunks = fcard (ct_resident c),
       td_aggregate_simulation_chunks = fcard (ct_simulation c),
       td_player_visible = total pd_visible, td_player_published = total pd_published,
       td_player_published_visible = total pd_published_visible,
       td_player_missing_published = total pd_missing_published,
       td_player_published_outside = total pd_published_outside,
       td_player_queued_snapshots = total pd_queued_snapshots, td_player_queued_unloads = total pd_queued_unloads,
       td_player_drained_snapshots = total pd_drained_snapshots, td_player_drained_unloads = total pd_drained_unloads,
       td_observer_visible = observer_total od_visible, td_observer_published = observer_total od_published,
       td_queue_depth = total pd_queue_depth, td_observer_queue_depth = observer_total od_queue_depth,
       td_observer_queue_bytes = observer_total od_queue_bytes,
       td_max_player_visible = max_or_zero (map pd_visible players),
       td_max_observer_visible = max_or_zero (map od_visible observers),
       td_max_queue_depth = max_or_zero (map pd_queue_depth players),
       td_max_observer_queue_depth = max_or_zero (map od_queue_depth observers),
       td_players = players, td_observers = observers\<rparr>)"

text \<open>The published chunks of a player split into seen ones and stale ones, the seen ones into published and missing ones.\<close>

lemma player_counts:
  "pd_visible (player_diagnostics c (n, v)) = pd_published_visible (player_diagnostics c (n, v)) + pd_missing_published (player_diagnostics c (n, v))"
  "pd_published (player_diagnostics c (n, v)) = pd_published_visible (player_diagnostics c (n, v)) + pd_published_outside (player_diagnostics c (n, v))"
proof -
  have split: "fcard a = fcard (b |\<inter>| a) + fcard (a |-| b)" for a b :: "chunk_pos fset"
    using card_Int_Diff [OF finite_fset, of a "fset b"] by (simp add: fcard.rep_eq inf_commute)
  show "pd_visible (player_diagnostics c (n, v)) = pd_published_visible (player_diagnostics c (n, v)) + pd_missing_published (player_diagnostics c (n, v))"
    using split [of "vs_visible v" "vs_published v"] by (simp add: player_diagnostics_def)
  show "pd_published (player_diagnostics c (n, v)) = pd_published_visible (player_diagnostics c (n, v)) + pd_published_outside (player_diagnostics c (n, v))"
    using split [of "vs_published v" "vs_visible v"] by (simp add: player_diagnostics_def inf_commute)
qed

end
