(* ===== verification/ServerInventory.thy ===== *)
theory ServerInventory imports CoreChunk "HOL-Library.Multiset"
begin

text \<open>
  A player's inventory: \<open>native/crates/mclone-server/src/inventory.rs\<close> and \<open>item_stack.rs\<close>, with the item kinds and
  hotbar entries of \<open>mclone-protocol\<close>.  The 36 stacks and the 9 hotbar entries are lists, the counts naturals
  (the invariant keeps them within the largest stack size, so no \<open>u8\<close> addition can wrap).
\<close>

datatype item_kind = Egg | MallardEgg | MallardFeather | HuntingSpear | Venison | DeerHide | ShedAntler | BeeHotel
  | Beeswax | WoodenHoe | WheatSeeds | Wheat | Carrot | OakFence | OakFenceGate | SleepingMat

datatype debug_actor_kind = Chicken | Mannequin

datatype debug_hotbar_item = HotbarBlock block_state_id | HotbarActor debug_actor_kind

record item_stack =
  is_kind :: item_kind
  is_count :: nat

abbreviation (input) hotbar_slot_count :: nat where "hotbar_slot_count \<equiv> 9"
abbreviation (input) main_inventory_slot_count :: nat where "main_inventory_slot_count \<equiv> 36"

definition default_debug_hotbar :: "debug_hotbar_item option list" where
  "default_debug_hotbar = map Some (map HotbarBlock [1, 5, 4, 6, 41, 42, 8] @ map HotbarActor [Chicken, Mannequin])"

section \<open>Item stacks\<close>

fun item_max_stack_size :: "item_kind \<Rightarrow> nat" where
  "item_max_stack_size Egg = 16"
| "item_max_stack_size MallardEgg = 16"
| "item_max_stack_size MallardFeather = 64"
| "item_max_stack_size HuntingSpear = 1"
| "item_max_stack_size BeeHotel = 1"
| "item_max_stack_size SleepingMat = 1"
| "item_max_stack_size WoodenHoe = 1"
| "item_max_stack_size _ = 64"

definition item_stack_has_room :: "item_stack \<Rightarrow> bool" where
  "item_stack_has_room stack \<longleftrightarrow> is_count stack < item_max_stack_size (is_kind stack)"

definition item_stacks_can_merge :: "item_stack \<Rightarrow> item_stack \<Rightarrow> bool" where
  "item_stacks_can_merge left right \<longleftrightarrow> is_kind left = is_kind right \<and> is_count left \<noteq> 0 \<and> is_count right \<noteq> 0
     \<and> is_count left + is_count right \<le> item_max_stack_size (is_kind left)"

definition merged_item_stack :: "item_stack \<Rightarrow> item_stack \<Rightarrow> item_stack option" where
  "merged_item_stack left right = (if item_stacks_can_merge left right
     then Some \<lparr>is_kind = is_kind left, is_count = is_count left + is_count right\<rparr> else None)"

section \<open>The inventory\<close>

record inventory =
  inv_items :: "debug_hotbar_item option list"
  inv_stacks :: "item_stack option list"
  inv_selected :: nat

record add_result =
  ar_accepted_count :: nat
  ar_remaining :: "item_stack option"

definition default_inventory :: inventory where
  "default_inventory =
     (let stacks = replicate main_inventory_slot_count None;
          stacks = stacks[0 := Some \<lparr>is_kind = HuntingSpear, is_count = 1\<rparr>];
          stacks = stacks[1 := Some \<lparr>is_kind = OakFence, is_count = 32\<rparr>];
          stacks = stacks[2 := Some \<lparr>is_kind = OakFenceGate, is_count = 4\<rparr>];
          stacks = stacks[3 := Some \<lparr>is_kind = Carrot, is_count = 8\<rparr>];
          stacks = stacks[6 := Some \<lparr>is_kind = BeeHotel, is_count = 1\<rparr>];
          stacks = stacks[5 := Some \<lparr>is_kind = SleepingMat, is_count = 1\<rparr>];
          stacks = stacks[7 := Some \<lparr>is_kind = WoodenHoe, is_count = 1\<rparr>];
          stacks = stacks[8 := Some \<lparr>is_kind = WheatSeeds, is_count = 8\<rparr>]
      in \<lparr>inv_items = default_debug_hotbar, inv_stacks = stacks, inv_selected = 0\<rparr>)"

definition apply_set_carried_item :: "inventory \<Rightarrow> nat \<Rightarrow> bool \<times> inventory" where
  "apply_set_carried_item iv slot =
     (if hotbar_slot_count \<le> slot then (False, iv) else (True, iv\<lparr>inv_selected := slot\<rparr>))"

definition apply_set_debug_hotbar_slot :: "inventory \<Rightarrow> nat \<Rightarrow> debug_hotbar_item option \<Rightarrow> bool \<times> inventory" where
  "apply_set_debug_hotbar_slot iv slot item =
     (if hotbar_slot_count \<le> slot then (False, iv) else (True, iv\<lparr>inv_items := (inv_items iv)[slot := item]\<rparr>))"

text \<open>An index past the end of the array panics.\<close>

definition selected_debug_item :: "inventory \<Rightarrow> debug_hotbar_item option option" where
  "selected_debug_item iv =
     (if inv_selected iv < length (inv_items iv) then Some (inv_items iv ! inv_selected iv) else None)"

definition selected_block_state :: "inventory \<Rightarrow> block_state_id option option" where
  "selected_block_state iv = map_option
     (\<lambda>item. case item of Some (HotbarBlock block_state) \<Rightarrow> Some block_state | Some (HotbarActor _) \<Rightarrow> None | None \<Rightarrow> None)
     (selected_debug_item iv)"

definition slot_has_remaining_space :: "inventory \<Rightarrow> nat \<Rightarrow> item_stack \<Rightarrow> bool" where
  "slot_has_remaining_space iv slot stack =
     (case (if slot < length (inv_stacks iv) then inv_stacks iv ! slot else None) of
        None \<Rightarrow> False
      | Some stored \<Rightarrow> is_kind stored = is_kind stack \<and> is_count stored < item_max_stack_size (is_kind stored))"

definition free_item_slot :: "inventory \<Rightarrow> nat option" where
  "free_item_slot iv = List.find (\<lambda>slot. inv_stacks iv ! slot = None) [0..<length (inv_stacks iv)]"

definition slot_with_remaining_space :: "inventory \<Rightarrow> item_stack \<Rightarrow> nat option" where
  "slot_with_remaining_space iv stack =
     (if slot_has_remaining_space iv (inv_selected iv) stack then Some (inv_selected iv)
      else case List.find (\<lambda>slot. slot_has_remaining_space iv slot stack) [0..<length (inv_stacks iv)] of
        Some slot \<Rightarrow> Some slot
      | None \<Rightarrow> free_item_slot iv)"

definition add_item_stack_to_slot :: "inventory \<Rightarrow> nat \<Rightarrow> item_stack \<Rightarrow> nat \<times> inventory" where
  "add_item_stack_to_slot iv slot stack =
     (let max_count = item_max_stack_size (is_kind stack) in
      if \<not> slot < length (inv_stacks iv) then (0, iv)
      else case inv_stacks iv ! slot of
        Some existing \<Rightarrow>
          if is_kind existing = is_kind stack
          then let accepted = min (is_count stack) (max_count - is_count existing) in
            (accepted, iv\<lparr>inv_stacks := (inv_stacks iv)[slot := Some (existing\<lparr>is_count := is_count existing + accepted\<rparr>)]\<rparr>)
          else (0, iv)
      | None \<Rightarrow>
          let accepted = min (is_count stack) max_count in
            (accepted, iv\<lparr>inv_stacks := (inv_stacks iv)[slot := Some (stack\<lparr>is_count := accepted\<rparr>)]\<rparr>))"

lemma add_item_stack_to_slot_le: "fst (add_item_stack_to_slot iv slot stack) \<le> is_count stack"
  by (simp add: add_item_stack_to_slot_def Let_def split: option.split)

text \<open>The loop of \<open>add_item_stack\<close>: the count that is left and the inventory.\<close>

function add_items :: "inventory \<Rightarrow> item_stack \<Rightarrow> nat \<Rightarrow> nat \<times> inventory" where
  "add_items iv stack remaining =
     (if remaining = 0 then (remaining, iv)
      else case slot_with_remaining_space iv (stack\<lparr>is_count := remaining\<rparr>) of
        None \<Rightarrow> (remaining, iv)
      | Some slot \<Rightarrow>
          let (accepted, iv') = add_item_stack_to_slot iv slot (stack\<lparr>is_count := remaining\<rparr>) in
          if accepted = 0 then (remaining, iv') else add_items iv' stack (remaining - accepted))"
  by pat_completeness auto
termination by (relation "measure (\<lambda>(_, _, remaining). remaining)") auto

declare add_items.simps [simp del]

definition add_item_stack :: "inventory \<Rightarrow> item_stack \<Rightarrow> add_result \<times> inventory" where
  "add_item_stack iv stack =
     (let original_count = is_count stack; (remaining_count, iv') = add_items iv stack (is_count stack) in
      (\<lparr>ar_accepted_count = original_count - remaining_count,
        ar_remaining = (if 0 < remaining_count then Some (stack\<lparr>is_count := remaining_count\<rparr>) else None)\<rparr>, iv'))"

definition hotbar_item_stacks :: "inventory \<Rightarrow> item_stack option list option" where
  "hotbar_item_stacks iv = (if hotbar_slot_count \<le> length (inv_stacks iv)
     then Some (map (\<lambda>slot. inv_stacks iv ! slot) [0..<hotbar_slot_count]) else None)"

definition restore_item_stacks :: "inventory \<Rightarrow> item_stack option list \<Rightarrow> inventory" where
  "restore_item_stacks iv stacks = iv\<lparr>inv_stacks := stacks\<rparr>"

definition selected_item_stack :: "inventory \<Rightarrow> item_stack option option" where
  "selected_item_stack iv =
     (if inv_selected iv < length (inv_stacks iv) then Some (inv_stacks iv ! inv_selected iv) else None)"

definition consume_selected_item :: "inventory \<Rightarrow> item_kind \<Rightarrow> (bool \<times> inventory) option" where
  "consume_selected_item iv kind = do {
     stored \<leftarrow> selected_item_stack iv;
     Some (case stored of
         None \<Rightarrow> (False, iv)
       | Some stack \<Rightarrow>
           if is_kind stack \<noteq> kind \<or> is_count stack = 0 then (False, iv)
           else let stack = stack\<lparr>is_count := is_count stack - 1\<rparr> in
             (True, iv\<lparr>inv_stacks := (inv_stacks iv)[inv_selected iv := if 0 < is_count stack then Some stack else None]\<rparr>))
   }"

definition restore_selected_hotbar_slot :: "inventory \<Rightarrow> nat \<Rightarrow> inventory" where
  "restore_selected_hotbar_slot iv slot = (if slot < hotbar_slot_count then iv\<lparr>inv_selected := slot\<rparr> else iv)"

definition item_count :: "inventory \<Rightarrow> item_kind \<Rightarrow> nat" where
  "item_count iv kind = sum_list (map is_count (filter (\<lambda>stack. is_kind stack = kind) (List.map_filter id (inv_stacks iv))))"

section \<open>The invariant\<close>

definition stack_wf :: "item_stack option \<Rightarrow> bool" where
  "stack_wf s \<longleftrightarrow> (case s of None \<Rightarrow> True
     | Some stack \<Rightarrow> 0 < is_count stack \<and> is_count stack \<le> item_max_stack_size (is_kind stack))"

definition inventory_wf :: "inventory \<Rightarrow> bool" where
  "inventory_wf iv \<longleftrightarrow> length (inv_items iv) = hotbar_slot_count \<and> length (inv_stacks iv) = main_inventory_slot_count
     \<and> inv_selected iv < hotbar_slot_count \<and> (\<forall>s \<in> set (inv_stacks iv). stack_wf s)"

lemma max_stack_pos [simp]: "0 < item_max_stack_size kind" and max_stack_u8: "item_max_stack_size kind < 256"
  by (cases kind; simp)+

lemma stack_wf_simps [simp]: "stack_wf None"
  "stack_wf (Some stack) \<longleftrightarrow> 0 < is_count stack \<and> is_count stack \<le> item_max_stack_size (is_kind stack)"
  by (simp_all add: stack_wf_def)


lemma set_list_update_wf: "\<forall>s \<in> set xs. P s \<Longrightarrow> P y \<Longrightarrow> \<forall>s \<in> set (xs[i := y]). P s"
  using set_update_subset_insert [of xs i y] by auto

lemma inventory_wf_default: "inventory_wf default_inventory"
proof -
  have "\<forall>s \<in> set (inv_stacks default_inventory). stack_wf s"
    unfolding default_inventory_def Let_def inventory.simps by (intro set_list_update_wf) simp_all
  moreover have "length (inv_stacks default_inventory) = main_inventory_slot_count"
    unfolding default_inventory_def Let_def inventory.simps by (simp only: length_list_update length_replicate)
  moreover have "length (inv_items default_inventory) = hotbar_slot_count" "inv_selected default_inventory < hotbar_slot_count"
    unfolding default_inventory_def Let_def inventory.simps default_debug_hotbar_def by simp_all
  ultimately show ?thesis unfolding inventory_wf_def by blast
qed

lemma inventory_wf_stack: "inventory_wf iv \<Longrightarrow> slot < length (inv_stacks iv) \<Longrightarrow> stack_wf (inv_stacks iv ! slot)"
  by (simp add: inventory_wf_def)

lemma inventory_wf_set:
  assumes "inventory_wf iv" and "stack_wf s"
  shows "inventory_wf (iv\<lparr>inv_stacks := (inv_stacks iv)[slot := s]\<rparr>)"
  using assms set_list_update_wf [of "inv_stacks iv" stack_wf s slot] by (simp add: inventory_wf_def)

section \<open>The bag of items\<close>

text \<open>What the inventory holds, without its slots.\<close>

definition stack_bag :: "item_stack option \<Rightarrow> item_kind multiset" where
  "stack_bag s = (case s of None \<Rightarrow> {#} | Some stack \<Rightarrow> replicate_mset (is_count stack) (is_kind stack))"

definition inventory_bag :: "inventory \<Rightarrow> item_kind multiset" where
  "inventory_bag iv = sum_list (map stack_bag (inv_stacks iv))"

lemma stack_bag_simps [simp]: "stack_bag None = {#}" "stack_bag (Some stack) = replicate_mset (is_count stack) (is_kind stack)"
  by (simp_all add: stack_bag_def)

lemma sum_bag_update:
  "slot < length xs \<Longrightarrow> sum_list (map stack_bag (xs[slot := s])) + stack_bag (xs ! slot) = sum_list (map stack_bag xs) + stack_bag s"
  by (induction xs arbitrary: slot) (auto split: nat.splits simp: ac_simps nth_Cons')

lemma inventory_bag_set:
  assumes "slot < length (inv_stacks iv)" and "stack_bag s = stack_bag (inv_stacks iv ! slot) + b"
  shows "inventory_bag (iv\<lparr>inv_stacks := (inv_stacks iv)[slot := s]\<rparr>) = inventory_bag iv + b"
  using sum_bag_update [OF assms(1), of s] assms(2) by (simp add: inventory_bag_def ac_simps)

lemma item_count_bag: "item_count iv kind = count (inventory_bag iv) kind"
proof -
  have "sum_list (map is_count (filter (\<lambda>stack. is_kind stack = kind) (List.map_filter id xs)))
      = count (sum_list (map stack_bag xs)) kind" for xs
    by (induction xs) (auto simp: List.map_filter_simps split: option.splits)
  then show ?thesis by (simp add: item_count_def inventory_bag_def)
qed

section \<open>Adding a stack\<close>

text \<open>The items of a kind a slot can still take, and the whole inventory.\<close>

definition slot_room :: "item_kind \<Rightarrow> item_stack option \<Rightarrow> nat" where
  "slot_room kind s = (case s of None \<Rightarrow> item_max_stack_size kind
     | Some stack \<Rightarrow> if is_kind stack = kind then item_max_stack_size kind - is_count stack else 0)"

definition inventory_room :: "inventory \<Rightarrow> item_kind \<Rightarrow> nat" where
  "inventory_room iv kind = sum_list (map (slot_room kind) (inv_stacks iv))"

lemma slot_has_remaining_space_room:
  assumes "slot_has_remaining_space iv slot stack"
  shows "slot < length (inv_stacks iv) \<and> 0 < slot_room (is_kind stack) (inv_stacks iv ! slot)"
  using assms by (auto simp: slot_has_remaining_space_def slot_room_def split: option.splits if_splits)

lemma find_upt_Some: "List.find P [0..<n] = Some k \<Longrightarrow> k < n \<and> P k"
  using nth_mem [of _ "[0..<n]"] by (auto simp: find_Some_iff)

lemma find_upt_None: "List.find P [0..<n] = None \<Longrightarrow> k < n \<Longrightarrow> \<not> P k"
  by (auto simp: find_None_iff)

lemma slot_found:
  assumes "slot_with_remaining_space iv stack = Some slot"
  shows "slot < length (inv_stacks iv) \<and> 0 < slot_room (is_kind stack) (inv_stacks iv ! slot)"
  using assms slot_has_remaining_space_room find_upt_Some
  by (fastforce simp: slot_with_remaining_space_def free_item_slot_def slot_room_def split: if_splits option.splits)

lemma no_slot_found:
  assumes "slot_with_remaining_space iv stack = None"
  shows "inventory_room iv (is_kind stack) = 0"
proof -
  have "slot_room (is_kind stack) (inv_stacks iv ! slot) = 0" if slot: "slot < length (inv_stacks iv)" for slot
  proof -
    have "\<not> slot_has_remaining_space iv slot stack" "inv_stacks iv ! slot \<noteq> None"
      using assms slot find_upt_None
      by (auto simp: slot_with_remaining_space_def free_item_slot_def split: if_splits option.splits)
    then show ?thesis using slot by (auto simp: slot_has_remaining_space_def slot_room_def)
  qed
  then show ?thesis by (auto simp: inventory_room_def in_set_conv_nth)
qed

lemma sum_list_update_nat:
  "slot < length xs \<Longrightarrow> sum_list (map f (xs[slot := s])) + f (xs ! slot) = sum_list (map f xs) + (f s :: nat)"
  by (induction xs arbitrary: slot) (auto split: nat.splits simp: ac_simps nth_Cons')

lemma inventory_room_set:
  assumes "slot < length (inv_stacks iv)" and "slot_room kind (inv_stacks iv ! slot) = slot_room kind s + n"
  shows "inventory_room iv kind = inventory_room (iv\<lparr>inv_stacks := (inv_stacks iv)[slot := s]\<rparr>) kind + n"
  using sum_list_update_nat [OF assms(1), of "slot_room kind" s] assms(2) by (simp add: inventory_room_def)

lemma item_stack_count: "stack\<lparr>is_count := n\<rparr> = \<lparr>is_kind = is_kind stack, is_count = n\<rparr>"
  by (cases stack) simp

lemma replicate_mset_add: "replicate_mset (m + n) x = replicate_mset m x + replicate_mset n x"
  by (simp add: multiset_eq_iff)

text \<open>Filling one slot that has room.\<close>

lemma add_item_stack_to_slot_spec:
  assumes wf: "inventory_wf iv" and slot: "slot < length (inv_stacks iv)"
    and room: "0 < slot_room (is_kind stack) (inv_stacks iv ! slot)" and n: "0 < is_count stack"
  shows "\<exists>accepted iv'. add_item_stack_to_slot iv slot stack = (accepted, iv') \<and> 0 < accepted \<and> accepted \<le> is_count stack
    \<and> (accepted = is_count stack \<or> accepted = slot_room (is_kind stack) (inv_stacks iv ! slot))
    \<and> inventory_wf iv' \<and> inv_selected iv' = inv_selected iv \<and> inv_items iv' = inv_items iv
    \<and> inventory_bag iv' = inventory_bag iv + replicate_mset accepted (is_kind stack)
    \<and> inventory_room iv (is_kind stack) = inventory_room iv' (is_kind stack) + accepted"
proof -
  let ?kind = "is_kind stack"
  define accepted where "accepted = min (is_count stack) (slot_room ?kind (inv_stacks iv ! slot))"
  define count where "count = (case inv_stacks iv ! slot of None \<Rightarrow> 0 | Some existing \<Rightarrow> is_count existing)"
  define s where "s = Some \<lparr>is_kind = ?kind, is_count = count + accepted\<rparr>"
  have old: "stack_wf (inv_stacks iv ! slot)" by (rule inventory_wf_stack [OF wf slot])
  have le: "count + slot_room ?kind (inv_stacks iv ! slot) = item_max_stack_size ?kind"
    using old room by (auto simp: count_def slot_room_def split: option.splits if_splits)
  have run: "add_item_stack_to_slot iv slot stack = (accepted, iv\<lparr>inv_stacks := (inv_stacks iv)[slot := s]\<rparr>)"
    using slot room by (auto simp: add_item_stack_to_slot_def accepted_def s_def count_def slot_room_def Let_def item_stack_count
        split: option.splits if_splits)
  have s: "stack_wf s" "stack_bag s = stack_bag (inv_stacks iv ! slot) + replicate_mset accepted ?kind"
    "slot_room ?kind (inv_stacks iv ! slot) = slot_room ?kind s + accepted"
    using le room n old unfolding s_def accepted_def count_def
    by (auto simp: slot_room_def replicate_mset_add split: option.splits if_splits)
  show ?thesis
    using run inventory_wf_set [OF wf s(1)] inventory_bag_set [OF slot s(2)] inventory_room_set [OF slot s(3)] room n
    by (auto simp: accepted_def)
qed

lemma add_items_spec:
  assumes "inventory_wf iv"
  shows "\<exists>left iv'. add_items iv stack remaining = (left, iv') \<and> left = remaining - inventory_room iv (is_kind stack)
    \<and> inventory_wf iv' \<and> inv_selected iv' = inv_selected iv \<and> inv_items iv' = inv_items iv
    \<and> inventory_bag iv' = inventory_bag iv + replicate_mset (remaining - left) (is_kind stack)
    \<and> inventory_room iv (is_kind stack) = inventory_room iv' (is_kind stack) + (remaining - left)"
  using assms
proof (induction remaining arbitrary: iv rule: less_induct)
  case (less remaining)
  let ?kind = "is_kind stack" let ?stack = "stack\<lparr>is_count := remaining\<rparr>"
  show ?case
  proof (cases "remaining = 0")
    case True
    then show ?thesis using less.prems by (subst add_items.simps) simp
  next
    case False
    show ?thesis
    proof (cases "slot_with_remaining_space iv ?stack")
      case None
      then show ?thesis using less.prems no_slot_found [OF None] False by (subst add_items.simps) simp
    next
      case (Some slot)
      have kind: "is_kind ?stack = ?kind" "is_count ?stack = remaining" by simp_all
      note found = slot_found [OF Some, THEN conjunct1] and found' = slot_found [OF Some, THEN conjunct2]
      have pos: "0 < remaining" using False by simp
      obtain accepted iv1 where a: "add_item_stack_to_slot iv slot ?stack = (accepted, iv1)" "0 < accepted" "accepted \<le> remaining"
        "inventory_wf iv1" "inv_selected iv1 = inv_selected iv" "inv_items iv1 = inv_items iv"
        "inventory_bag iv1 = inventory_bag iv + replicate_mset accepted ?kind"
        "inventory_room iv ?kind = inventory_room iv1 ?kind + accepted"
        using add_item_stack_to_slot_spec [OF less.prems found found'] pos unfolding kind by blast
      have "remaining - accepted < remaining" using a(2) False by simp
      from less.IH [OF this a(4)] obtain left iv2 where b: "add_items iv1 stack (remaining - accepted) = (left, iv2)"
        "left = remaining - accepted - inventory_room iv1 ?kind" "inventory_wf iv2"
        "inv_selected iv2 = inv_selected iv1" "inv_items iv2 = inv_items iv1"
        "inventory_bag iv2 = inventory_bag iv1 + replicate_mset (remaining - accepted - left) ?kind"
        "inventory_room iv1 ?kind = inventory_room iv2 ?kind + (remaining - accepted - left)" by blast
      have split: "remaining - left = accepted + (remaining - accepted - left)" using a(3) b(2) by simp
      have bag: "inventory_bag iv2 = inventory_bag iv + replicate_mset (remaining - left) ?kind"
        unfolding split replicate_mset_add b(6) a(7) by (simp only: add.assoc)
      have "add_items iv stack remaining = (left, iv2)" using a(1,2) b(1) False Some by (subst add_items.simps) simp
      moreover have "left = remaining - inventory_room iv ?kind" using a(8) b(2) by linarith
      moreover have "inventory_room iv ?kind = inventory_room iv2 ?kind + (remaining - left)"
        using a(8) b(7) split by linarith
      moreover have "inv_selected iv2 = inv_selected iv" "inv_items iv2 = inv_items iv" using a(5,6) b(4,5) by simp_all
      ultimately show ?thesis using b(3) bag by blast
    qed
  qed
qed

lemma add_item_stack_spec:
  assumes "inventory_wf iv"
  shows "\<exists>iv'. add_item_stack iv stack =
      (\<lparr>ar_accepted_count = min (is_count stack) (inventory_room iv (is_kind stack)),
        ar_remaining = (if is_count stack \<le> inventory_room iv (is_kind stack) then None
          else Some (stack\<lparr>is_count := is_count stack - inventory_room iv (is_kind stack)\<rparr>))\<rparr>, iv')
    \<and> inventory_wf iv' \<and> inv_selected iv' = inv_selected iv \<and> inv_items iv' = inv_items iv
    \<and> inventory_bag iv' = inventory_bag iv
        + replicate_mset (min (is_count stack) (inventory_room iv (is_kind stack))) (is_kind stack)"
proof -
  let ?room = "inventory_room iv (is_kind stack)"
  obtain left iv' where a: "add_items iv stack (is_count stack) = (left, iv')" "left = is_count stack - ?room"
    "inventory_wf iv'" "inv_selected iv' = inv_selected iv" "inv_items iv' = inv_items iv"
    "inventory_bag iv' = inventory_bag iv + replicate_mset (is_count stack - left) (is_kind stack)"
    using add_items_spec [OF assms] by blast
  have "is_count stack - left = min (is_count stack) ?room" using a(2) by simp
  then show ?thesis using a by (intro exI [of _ iv']) (auto simp: add_item_stack_def Let_def)
qed

section \<open>Taking from the selected slot\<close>

lemma consume_selected_item_spec:
  assumes wf: "inventory_wf iv"
  shows "\<exists>b iv'. consume_selected_item iv kind = Some (b, iv') \<and> inventory_wf iv'
    \<and> inv_selected iv' = inv_selected iv \<and> inv_items iv' = inv_items iv
    \<and> inventory_bag iv = inventory_bag iv' + (if b then {#kind#} else {#})
    \<and> (b \<longleftrightarrow> (\<exists>stack. inv_stacks iv ! inv_selected iv = Some stack \<and> is_kind stack = kind))
    \<and> (\<not> b \<longrightarrow> iv' = iv)"
proof -
  have sel: "inv_selected iv < length (inv_stacks iv)" using wf by (simp add: inventory_wf_def)
  have old: "stack_wf (inv_stacks iv ! inv_selected iv)" by (rule inventory_wf_stack [OF wf sel])
  show ?thesis
  proof (cases "\<exists>stack. inv_stacks iv ! inv_selected iv = Some stack \<and> is_kind stack = kind")
    case True
    then obtain stack where s: "inv_stacks iv ! inv_selected iv = Some stack" "is_kind stack = kind" by blast
    then have pos: "0 < is_count stack" using old by simp
    define t where "t = (if 0 < is_count stack - 1 then Some (stack\<lparr>is_count := is_count stack - 1\<rparr>) else None)"
    have run: "consume_selected_item iv kind = Some (True, iv\<lparr>inv_stacks := (inv_stacks iv)[inv_selected iv := t]\<rparr>)"
      using sel s pos by (simp add: consume_selected_item_def selected_item_stack_def t_def)
    have t: "stack_wf t" "stack_bag (inv_stacks iv ! inv_selected iv) = stack_bag t + {#kind#}"
      using old s pos by (cases "is_count stack"; auto simp: t_def)+
    have "inventory_bag iv = inventory_bag (iv\<lparr>inv_stacks := (inv_stacks iv)[inv_selected iv := t]\<rparr>) + {#kind#}"
      using sum_bag_update [OF sel, of t] t(2) by (simp add: inventory_bag_def)
    then show ?thesis using run inventory_wf_set [OF wf t(1)] s by auto
  next
    case False
    then have "consume_selected_item iv kind = Some (False, iv)"
      using sel by (auto simp: consume_selected_item_def selected_item_stack_def split: option.splits)
    then show ?thesis using wf False by auto
  qed
qed

lemma merged_item_stack_spec:
  assumes "merged_item_stack left right = Some stack"
  shows "stack_wf (Some stack) \<and> stack_bag (Some stack) = stack_bag (Some left) + stack_bag (Some right)"
  using assms by (auto simp: merged_item_stack_def item_stacks_can_merge_def replicate_mset_add split: if_splits)

section \<open>Runs\<close>

datatype inventory_op = AddStack item_stack | ConsumeSelected item_kind | SetCarried nat
  | SetHotbar nat "debug_hotbar_item option"

text \<open>An operation's effect, with the items that came in and the items that went out.\<close>

fun inventory_step :: "inventory \<Rightarrow> inventory_op \<Rightarrow> (item_kind multiset \<times> item_kind multiset \<times> inventory) option" where
  "inventory_step iv (AddStack stack) = (case add_item_stack iv stack of
     (result, iv') \<Rightarrow> Some (replicate_mset (ar_accepted_count result) (is_kind stack), {#}, iv'))"
| "inventory_step iv (ConsumeSelected kind) = do {
     (taken, iv') \<leftarrow> consume_selected_item iv kind;
     Some ({#}, if taken then {#kind#} else {#}, iv')
   }"
| "inventory_step iv (SetCarried slot) = Some ({#}, {#}, snd (apply_set_carried_item iv slot))"
| "inventory_step iv (SetHotbar slot item) = Some ({#}, {#}, snd (apply_set_debug_hotbar_slot iv slot item))"

fun inventory_run :: "inventory \<Rightarrow> inventory_op list \<Rightarrow> (item_kind multiset \<times> item_kind multiset \<times> inventory) option" where
  "inventory_run iv [] = Some ({#}, {#}, iv)"
| "inventory_run iv (p # ps) = do {
     (a, c, iv1) \<leftarrow> inventory_step iv p;
     (as, cs, iv2) \<leftarrow> inventory_run iv1 ps;
     Some (a + as, c + cs, iv2)
   }"

lemma inventory_step_spec:
  assumes wf: "inventory_wf iv"
  shows "\<exists>a c iv'. inventory_step iv p = Some (a, c, iv') \<and> inventory_wf iv' \<and> inventory_bag iv' + c = inventory_bag iv + a"
proof (cases p)
  case (AddStack stack)
  then show ?thesis using add_item_stack_spec [OF wf, of stack] by (auto simp del: replicate_mset_Suc)
next
  case (ConsumeSelected kind)
  obtain b iv' where "consume_selected_item iv kind = Some (b, iv')" "inventory_wf iv'"
    "inventory_bag iv = inventory_bag iv' + (if b then {#kind#} else {#})"
    using consume_selected_item_spec [OF wf, of kind] by blast
  then show ?thesis using ConsumeSelected by simp
next
  case (SetCarried slot)
  then show ?thesis using wf by (auto simp: apply_set_carried_item_def inventory_wf_def inventory_bag_def)
next
  case (SetHotbar slot item)
  then show ?thesis using wf by (auto simp: apply_set_debug_hotbar_slot_def inventory_wf_def inventory_bag_def)
qed

lemma inventory_run_spec:
  assumes "inventory_wf iv"
  shows "\<exists>a c iv'. inventory_run iv ps = Some (a, c, iv') \<and> inventory_wf iv' \<and> inventory_bag iv' + c = inventory_bag iv + a"
  using assms
proof (induction ps arbitrary: iv)
  case (Cons p ps)
  obtain a1 c1 iv1 where s: "inventory_step iv p = Some (a1, c1, iv1)" "inventory_wf iv1"
    "inventory_bag iv1 + c1 = inventory_bag iv + a1" using inventory_step_spec [OF Cons.prems] by blast
  obtain a2 c2 iv2 where r: "inventory_run iv1 ps = Some (a2, c2, iv2)" "inventory_wf iv2"
    "inventory_bag iv2 + c2 = inventory_bag iv1 + a2" using Cons.IH [OF s(2)] by blast
  have "inventory_bag iv2 + (c1 + c2) = inventory_bag iv + (a1 + a2)"
    using s(3) r(3) by (metis add.assoc add.commute)
  then show ?case using s(1) r(1,2) by simp
qed simp

section \<open>The properties\<close>

text \<open>C19: adding a stack takes exactly what there is room for.  The loop ends, the accepted count is the smaller of the
  stack's count and the room all slots have for its kind, the rest is handed back, the inventory's bag of
  items grows by exactly the accepted ones, and every stack stays between one and its kind's limit.
\<close>
theorem adding_fills_the_room:
  assumes "inventory_wf iv"
  shows "case add_item_stack iv stack of (result, iv') \<Rightarrow>
     ar_accepted_count result = min (is_count stack) (inventory_room iv (is_kind stack))
     \<and> inventory_wf iv'
     \<and> inventory_bag iv' = inventory_bag iv + replicate_mset (ar_accepted_count result) (is_kind stack)
     \<and> (case ar_remaining result of
          None \<Rightarrow> ar_accepted_count result = is_count stack
        | Some rest \<Rightarrow> is_kind rest = is_kind stack \<and> 0 < is_count rest
            \<and> ar_accepted_count result + is_count rest = is_count stack)"
  using add_item_stack_spec [OF assms, of stack] by auto

lemma adding_fills_the_room_witness:
  "case add_item_stack default_inventory \<lparr>is_kind = Carrot, is_count = 200\<rparr> of (result, iv') \<Rightarrow>
     inventory_wf iv' \<and> count (inventory_bag iv') Carrot
       = count (inventory_bag default_inventory) Carrot + ar_accepted_count result"
  using adding_fills_the_room [OF inventory_wf_default, of "\<lparr>is_kind = Carrot, is_count = 200\<rparr>"] by auto

text \<open>C20: no operation creates or loses an item.  Over any sequence of additions, uses of the selected item and
  changes of selection, no step panics, the inventory stays well formed, and what it holds at the end with
  what was used is what it held at the start with what was accepted.
\<close>
theorem inventory_accounts:
  assumes "inventory_wf iv"
  shows "\<exists>added used iv'. inventory_run iv ps = Some (added, used, iv') \<and> inventory_wf iv'
    \<and> inventory_bag iv' + used = inventory_bag iv + added"
  by (rule inventory_run_spec [OF assms])

lemma inventory_accounts_witness:
  "\<exists>added used iv'. inventory_run default_inventory [AddStack \<lparr>is_kind = Egg, is_count = 40\<rparr>, SetCarried 3, ConsumeSelected Carrot]
     = Some (added, used, iv') \<and> inventory_bag iv' + used = inventory_bag default_inventory + added"
  using inventory_accounts [OF inventory_wf_default] by blast

end
