(* ===== verification/ServerCadence.thy ===== *)
theory ServerCadence imports Prelude
begin

text \<open>
  The fixed-rate lanes of \<open>native/crates/mclone-server/src/cadence.rs\<close>: a host loop of some rate drives a
  gameplay lane and a physics lane of slower or faster rates.  Rates and counts are naturals below
  \<open>2 ^ 32\<close>, nanoseconds are naturals; the saturating additions are written out.
\<close>

definition sat_add_to :: "nat \<Rightarrow> nat \<Rightarrow> nat \<Rightarrow> nat" where
  "sat_add_to top_value a b = min (a + b) top_value"

abbreviation (input) max_u32 :: nat where "max_u32 \<equiv> 2 ^ 32 - 1"
abbreviation (input) max_u128 :: nat where "max_u128 \<equiv> 2 ^ 128 - 1"
abbreviation (input) nanos_per_second :: nat where "nanos_per_second \<equiv> 1000000000"

definition lane_rate_is_clean :: "nat \<Rightarrow> nat \<Rightarrow> bool" where
  "lane_rate_is_clean host_rate lane_rate =
     (if host_rate = 0 \<or> lane_rate = 0 then False
      else if host_rate \<le> lane_rate then lane_rate mod host_rate = 0
      else host_rate mod lane_rate = 0)"

record cadence_config =
  cc_host_rate :: nat
  cc_gameplay_rate :: nat
  cc_physics_rate :: nat
  cc_max_catch_up :: nat

definition cadence_config_new :: "nat \<Rightarrow> nat \<Rightarrow> nat \<Rightarrow> cadence_config" where
  "cadence_config_new host gameplay physics =
     \<lparr>cc_host_rate = host, cc_gameplay_rate = gameplay, cc_physics_rate = physics, cc_max_catch_up = 4\<rparr>"

definition with_max_catch_up_host_frames :: "cadence_config \<Rightarrow> nat \<Rightarrow> cadence_config" where
  "with_max_catch_up_host_frames config frames = config\<lparr>cc_max_catch_up := frames\<rparr>"

definition cadence_config_default :: cadence_config where
  "cadence_config_default = cadence_config_new 60 20 60"

definition cadence_config_is_valid :: "cadence_config \<Rightarrow> bool" where
  "cadence_config_is_valid config \<longleftrightarrow> 0 < cc_host_rate config \<and> 0 < cc_gameplay_rate config \<and> 0 < cc_physics_rate config
     \<and> 0 < cc_max_catch_up config \<and> lane_rate_is_clean (cc_host_rate config) (cc_gameplay_rate config)
     \<and> lane_rate_is_clean (cc_host_rate config) (cc_physics_rate config)"

section \<open>Lanes\<close>

record fixed_lane =
  fl_frames_per_step :: nat
  fl_steps_per_frame :: nat
  fl_until_step :: nat

definition fixed_lane_new :: "nat \<Rightarrow> nat \<Rightarrow> fixed_lane option" where
  "fixed_lane_new host_rate lane_rate =
     (if \<not> lane_rate_is_clean host_rate lane_rate then None
      else if host_rate \<le> lane_rate
      then Some \<lparr>fl_frames_per_step = 1, fl_steps_per_frame = lane_rate div host_rate, fl_until_step = 1\<rparr>
      else let host_frames_per_step = host_rate div lane_rate in
        Some \<lparr>fl_frames_per_step = host_frames_per_step, fl_steps_per_frame = 0, fl_until_step = host_frames_per_step\<rparr>)"

definition lane_advance :: "fixed_lane \<Rightarrow> nat \<times> fixed_lane" where
  "lane_advance l =
     (if 0 < fl_steps_per_frame l then (fl_steps_per_frame l, l)
      else if fl_until_step l \<le> 1 then (1, l\<lparr>fl_until_step := fl_frames_per_step l\<rparr>)
      else (0, l\<lparr>fl_until_step := fl_until_step l - 1\<rparr>))"

section \<open>The cadence\<close>

record cadence_frame =
  cf_gameplay_ticks :: nat
  cf_physics_steps :: nat

record cadence_advance =
  ca_host_frames :: nat
  ca_dropped_host_frames :: nat
  ca_gameplay_ticks :: nat
  ca_physics_steps :: nat

record simulation_cadence =
  sc_config :: cadence_config
  sc_gameplay :: fixed_lane
  sc_physics :: fixed_lane
  sc_accumulator :: nat

definition simulation_cadence_new :: "cadence_config \<Rightarrow> simulation_cadence option" where
  "simulation_cadence_new config = (if \<not> cadence_config_is_valid config then None
     else do {
       gameplay \<leftarrow> fixed_lane_new (cc_host_rate config) (cc_gameplay_rate config);
       physics \<leftarrow> fixed_lane_new (cc_host_rate config) (cc_physics_rate config);
       Some \<lparr>sc_config = config, sc_gameplay = gameplay, sc_physics = physics, sc_accumulator = 0\<rparr>
     })"

definition cadence_advance_host_frame :: "simulation_cadence \<Rightarrow> cadence_frame \<times> simulation_cadence" where
  "cadence_advance_host_frame c =
     (let (gameplay_ticks, gameplay) = lane_advance (sc_gameplay c);
          (physics_steps, physics) = lane_advance (sc_physics c)
      in (\<lparr>cf_gameplay_ticks = gameplay_ticks, cf_physics_steps = physics_steps\<rparr>,
          c\<lparr>sc_gameplay := gameplay, sc_physics := physics\<rparr>))"

text \<open>The loop over the host frames that are run.\<close>

fun run_host_frames :: "nat \<Rightarrow> cadence_advance \<Rightarrow> simulation_cadence \<Rightarrow> cadence_advance \<times> simulation_cadence" where
  "run_host_frames 0 adv c = (adv, c)"
| "run_host_frames (Suc n) adv c =
     (let (frame, c) = cadence_advance_host_frame c in
      run_host_frames n (adv\<lparr>ca_gameplay_ticks := sat_add_to max_u32 (ca_gameplay_ticks adv) (cf_gameplay_ticks frame),
        ca_physics_steps := sat_add_to max_u32 (ca_physics_steps adv) (cf_physics_steps frame)\<rparr>) c)"

definition advance_elapsed :: "simulation_cadence \<Rightarrow> nat \<Rightarrow> cadence_advance \<times> simulation_cadence" where
  "advance_elapsed c elapsed_nanos =
     (let acc = sat_add_to max_u128 (sc_accumulator c) (min (elapsed_nanos * cc_host_rate (sc_config c)) max_u128);
          due_host_frames = acc div nanos_per_second;
          c = c\<lparr>sc_accumulator := acc mod nanos_per_second\<rparr>;
          host_frames = min due_host_frames (cc_max_catch_up (sc_config c));
          dropped = min (due_host_frames - host_frames) max_u32
      in run_host_frames host_frames
           \<lparr>ca_host_frames = host_frames, ca_dropped_host_frames = dropped, ca_gameplay_ticks = 0, ca_physics_steps = 0\<rparr> c)"

section \<open>Lanes keep their rate\<close>

text \<open>A lane after \<open>n\<close> host frames: the steps it has made and the state it is in.\<close>

fun lane_run :: "nat \<Rightarrow> fixed_lane \<Rightarrow> nat \<times> fixed_lane" where
  "lane_run 0 l = (0, l)"
| "lane_run (Suc n) l = (let (steps, l') = lane_run n l; (k, l'') = lane_advance l' in (steps + k, l''))"

lemma lane_run_fast:
  assumes "0 < fl_steps_per_frame l"
  shows "lane_run n l = (n * fl_steps_per_frame l, l)"
  using assms by (induction n) (simp_all add: lane_advance_def)

lemma lane_run_slow:
  assumes l: "fl_steps_per_frame l = 0" "fl_until_step l = fl_frames_per_step l" and p: "0 < fl_frames_per_step l"
  shows "lane_run n l = (n div fl_frames_per_step l, l\<lparr>fl_until_step := fl_frames_per_step l - n mod fl_frames_per_step l\<rparr>)"
proof (induction n)
  case 0
  then show ?case using l(2) by simp
next
  case (Suc n)
  let ?p = "fl_frames_per_step l"
  have m: "n mod ?p < ?p" using p by simp
  show ?case
  proof (cases "Suc (n mod ?p) = ?p")
    case True
    then have "?p - n mod ?p = 1" "Suc n div ?p = Suc (n div ?p)" "Suc n mod ?p = 0"
      using m p by (simp_all add: div_Suc mod_Suc)
    then show ?thesis using Suc.IH l(1) by (simp add: lane_advance_def)
  next
    case False
    have "1 < ?p - n mod ?p" using False m by linarith
    moreover have "Suc n div ?p = n div ?p" "Suc n mod ?p = Suc (n mod ?p)"
      using False by (simp_all add: div_Suc mod_Suc)
    ultimately show ?thesis using Suc.IH l(1) by (simp add: lane_advance_def)
  qed
qed

lemma lane_rate:
  assumes "fixed_lane_new host rate = Some l"
  shows "fst (lane_run n l) = n * rate div host"
proof -
  have clean: "lane_rate_is_clean host rate" using assms by (auto simp: fixed_lane_new_def split: if_splits)
  show ?thesis
  proof (cases "host \<le> rate")
    case True
    then have "host dvd rate" "0 < host" "0 < rate" using clean by (auto simp: lane_rate_is_clean_def split: if_splits)
    then have "0 < rate div host" "n * rate div host = n * (rate div host)"
      using True by (simp_all add: div_greater_zero_iff div_mult_swap)
    then show ?thesis using assms True by (auto simp: fixed_lane_new_def lane_run_fast split: if_splits)
  next
    case False
    then have d: "rate dvd host" "0 < host" "0 < rate" using clean by (auto simp: lane_rate_is_clean_def split: if_splits)
    then obtain p where p: "host = rate * p" by (elim dvdE)
    then have "0 < p" "host div rate = p" using d by simp_all
    moreover have "n * rate div host = n div p" using d p by (simp add: mult.commute)
    ultimately show ?thesis using assms False
      by (auto simp: fixed_lane_new_def Let_def lane_run_slow split: if_splits)
  qed
qed

lemma lane_run_add:
  "lane_run (m + n) l = (case lane_run m l of (a, l') \<Rightarrow> case lane_run n l' of (b, l'') \<Rightarrow> (a + b, l''))"
  by (induction n) (simp_all add: case_prod_beta Let_def)

lemma lane_run_Suc:
  "lane_run (Suc n) l = (case lane_advance l of (k, l') \<Rightarrow> case lane_run n l' of (a, l'') \<Rightarrow> (k + a, l''))"
  using lane_run_add [of 1 n l] by (simp add: case_prod_beta Let_def)

section \<open>Frames and elapsed time\<close>

lemma run_host_frames_spec:
  assumes "ca_gameplay_ticks adv \<le> max_u32" and "ca_physics_steps adv \<le> max_u32"
  shows "run_host_frames n adv c =
    (adv\<lparr>ca_gameplay_ticks := min (ca_gameplay_ticks adv + fst (lane_run n (sc_gameplay c))) max_u32,
         ca_physics_steps := min (ca_physics_steps adv + fst (lane_run n (sc_physics c))) max_u32\<rparr>,
     c\<lparr>sc_gameplay := snd (lane_run n (sc_gameplay c)), sc_physics := snd (lane_run n (sc_physics c))\<rparr>)"
  using assms
proof (induction n arbitrary: adv c)
  case 0
  then show ?case by (simp add: min_absorb1)
next
  case (Suc n)
  obtain k g where g: "lane_advance (sc_gameplay c) = (k, g)" by fastforce
  obtain j f where f: "lane_advance (sc_physics c) = (j, f)" by fastforce
  have r: "fst (lane_run (Suc n) (sc_gameplay c)) = k + fst (lane_run n g)" "snd (lane_run (Suc n) (sc_gameplay c)) = snd (lane_run n g)"
    "fst (lane_run (Suc n) (sc_physics c)) = j + fst (lane_run n f)" "snd (lane_run (Suc n) (sc_physics c)) = snd (lane_run n f)"
    unfolding lane_run_Suc g f by (simp_all add: case_prod_beta)
  have sat: "min (min (x + y) z + w) z = min (x + (y + w)) z" for x y z w :: nat by linarith
  let ?adv = "adv\<lparr>ca_gameplay_ticks := min (ca_gameplay_ticks adv + k) max_u32, ca_physics_steps := min (ca_physics_steps adv + j) max_u32\<rparr>"
  let ?c = "c\<lparr>sc_gameplay := g, sc_physics := f\<rparr>"
  have "run_host_frames (Suc n) adv c = run_host_frames n ?adv ?c"
    by (simp add: cadence_advance_host_frame_def g f sat_add_to_def)
  also have "\<dots> = (?adv\<lparr>ca_gameplay_ticks := min (ca_gameplay_ticks ?adv + fst (lane_run n (sc_gameplay ?c))) max_u32,
         ca_physics_steps := min (ca_physics_steps ?adv + fst (lane_run n (sc_physics ?c))) max_u32\<rparr>,
     ?c\<lparr>sc_gameplay := snd (lane_run n (sc_gameplay ?c)), sc_physics := snd (lane_run n (sc_physics ?c))\<rparr>)"
    by (rule Suc.IH) simp_all
  finally show ?case using r sat by (simp del: lane_run.simps)
qed

text \<open>A cadence that has run \<open>n\<close> host frames.\<close>

definition cadence_at :: "cadence_config \<Rightarrow> nat \<Rightarrow> simulation_cadence \<Rightarrow> bool" where
  "cadence_at config n c \<longleftrightarrow> sc_config c = config \<and> sc_accumulator c < nanos_per_second
     \<and> (\<exists>g p. fixed_lane_new (cc_host_rate config) (cc_gameplay_rate config) = Some g
          \<and> fixed_lane_new (cc_host_rate config) (cc_physics_rate config) = Some p
          \<and> sc_gameplay c = snd (lane_run n g) \<and> sc_physics c = snd (lane_run n p))"

lemma simulation_cadence_new_at: "simulation_cadence_new config = Some c \<Longrightarrow> cadence_at config 0 c \<and> sc_accumulator c = 0"
  by (auto simp: simulation_cadence_new_def cadence_at_def split: if_splits)

text \<open>The values the types of the code can hold: a duration has 64 bits of seconds and fewer than 10^9 nanoseconds, a
  rate has 32 bits.  The 128 bits of the accumulator are enough for both.\<close>

definition is_duration :: "nat \<Rightarrow> bool" where
  "is_duration e \<longleftrightarrow> e < 2 ^ 64 * nanos_per_second"

lemma accumulator_exact:
  assumes "cadence_at config m c" and "cc_host_rate config < 2 ^ 32" and "is_duration e"
  shows "sat_add_to max_u128 (sc_accumulator c) (min (e * cc_host_rate config) max_u128)
    = sc_accumulator c + e * cc_host_rate config"
proof -
  have "e * cc_host_rate config \<le> 2 ^ 64 * nanos_per_second * 2 ^ 32"
    using assms(2,3) unfolding is_duration_def by (intro mult_le_mono) simp_all
  moreover have "sc_accumulator c < nanos_per_second" using assms(1) by (simp add: cadence_at_def)
  ultimately show ?thesis by (simp add: sat_add_to_def)
qed

lemma lane_steps_between:
  assumes "fixed_lane_new host rate = Some l"
  shows "fst (lane_run n (snd (lane_run m l))) = (m + n) * rate div host - m * rate div host"
    and "snd (lane_run n (snd (lane_run m l))) = snd (lane_run (m + n) l)"
proof -
  have "lane_run (m + n) l = (fst (lane_run m l) + fst (lane_run n (snd (lane_run m l))), snd (lane_run n (snd (lane_run m l))))"
    unfolding lane_run_add by (simp add: case_prod_beta)
  then show "fst (lane_run n (snd (lane_run m l))) = (m + n) * rate div host - m * rate div host"
    "snd (lane_run n (snd (lane_run m l))) = snd (lane_run (m + n) l)"
    using lane_rate [OF assms, of m] lane_rate [OF assms, of "m + n"] by simp_all
qed

text \<open>What a call reports that finds \<open>due\<close> host frames due after \<open>m\<close> were run: all of them up to the catch-up
  limit, the rest as dropped, and the steps that the lanes owe for the frames it runs; a count that does not
  fit 32 bits stays at the greatest.\<close>

definition advance_due :: "cadence_config \<Rightarrow> nat \<Rightarrow> nat \<Rightarrow> cadence_advance" where
  "advance_due config m due = (let n = min due (cc_max_catch_up config) in
     \<lparr>ca_host_frames = n, ca_dropped_host_frames = min (due - n) max_u32,
      ca_gameplay_ticks = min ((m + n) * cc_gameplay_rate config div cc_host_rate config
        - m * cc_gameplay_rate config div cc_host_rate config) max_u32,
      ca_physics_steps = min ((m + n) * cc_physics_rate config div cc_host_rate config
        - m * cc_physics_rate config div cc_host_rate config) max_u32\<rparr>)"

lemma advance_elapsed_spec:
  assumes at: "cadence_at config m c" and h: "cc_host_rate config < 2 ^ 32" and e: "is_duration e"
  defines "acc \<equiv> sc_accumulator c + e * cc_host_rate config"
  shows "\<exists>c'. advance_elapsed c e = (advance_due config m (acc div nanos_per_second), c')
    \<and> cadence_at config (m + ca_host_frames (advance_due config m (acc div nanos_per_second))) c'
    \<and> sc_accumulator c' = acc mod nanos_per_second"
proof -
  let ?due = "acc div nanos_per_second"
  define n where "n = min ?due (cc_max_catch_up config)"
  obtain g p where c: "sc_config c = config" "sc_accumulator c < nanos_per_second"
    "fixed_lane_new (cc_host_rate config) (cc_gameplay_rate config) = Some g"
    "fixed_lane_new (cc_host_rate config) (cc_physics_rate config) = Some p"
    "sc_gameplay c = snd (lane_run m g)" "sc_physics c = snd (lane_run m p)"
    using at by (auto simp: cadence_at_def)
  note sat = accumulator_exact [OF at h e, folded acc_def]
  note lg = lane_steps_between [OF c(3), where m = m and n = n] and lp = lane_steps_between [OF c(4), where m = m and n = n]
  define c0 where "c0 = c\<lparr>sc_accumulator := acc mod nanos_per_second\<rparr>"
  let ?a0 = "\<lparr>ca_host_frames = n, ca_dropped_host_frames = min (?due - n) max_u32, ca_gameplay_ticks = 0, ca_physics_steps = 0\<rparr>"
  let ?c = "c0\<lparr>sc_gameplay := snd (lane_run (m + n) g), sc_physics := snd (lane_run (m + n) p)\<rparr>"
  have "sc_config c0 = config" using c(1) by (simp add: c0_def)
  then have "advance_elapsed c e = run_host_frames n ?a0 c0"
    unfolding n_def advance_elapsed_def Let_def c(1) sat c0_def [symmetric] by (simp only:)
  also have "\<dots> = (advance_due config m ?due, ?c)"
    by (subst run_host_frames_spec) (simp_all add: c0_def c(5,6) lg lp advance_due_def Let_def n_def [symmetric])
  finally have run: "advance_elapsed c e = (advance_due config m ?due, ?c)" .
  have "cadence_at config (m + n) ?c" using c by (simp add: cadence_at_def c0_def)
  moreover have "ca_host_frames (advance_due config m ?due) = n" by (simp add: advance_due_def Let_def n_def)
  ultimately show ?thesis using run by (simp add: c0_def)
qed

section \<open>A run of elapsed durations\<close>

fun elapse_all :: "simulation_cadence \<Rightarrow> nat list \<Rightarrow> cadence_advance list \<times> simulation_cadence" where
  "elapse_all c [] = ([], c)"
| "elapse_all c (e # es) = (let (adv, c') = advance_elapsed c e; (advs, c'') = elapse_all c' es in (adv # advs, c''))"

definition total_of :: "('a \<Rightarrow> nat) \<Rightarrow> 'a list \<Rightarrow> nat" where
  "total_of f xs = sum_list (map f xs)"

lemma total_of_simps [simp]: "total_of f [] = 0" "total_of f (x # xs) = f x + total_of f xs"
  by (simp_all add: total_of_def)

lemma total_of_append [simp]: "total_of f (xs @ ys) = total_of f xs + total_of f ys"
  by (simp add: total_of_def)

lemma total_of_take_Suc: "k < length xs \<Longrightarrow> total_of f (take (Suc k) xs) = total_of f (take k xs) + f (xs ! k)"
  by (simp add: take_Suc_conv_app_nth)

text \<open>Entries that are differences of a sequence add up to its end.\<close>

lemma total_of_telescope:
  assumes "\<forall>k < length xs. f (xs ! k) = D (Suc k) - D k" and "mono D" and "D 0 = 0"
  shows "total_of f xs = D (length xs)"
  using assms(1)
proof (induction xs rule: rev_induct)
  case (snoc x xs)
  have "total_of f xs = D (length xs)"
  proof (rule snoc.IH, intro allI impI)
    fix k
    assume "k < length xs"
    then show "f (xs ! k) = D (Suc k) - D k" using snoc.prems [THEN spec, of k] by (simp add: nth_append)
  qed
  moreover have "f x = D (Suc (length xs)) - D (length xs)" using snoc.prems by (metis length_append_singleton lessI nth_append_length)
  moreover have "D (length xs) \<le> D (Suc (length xs))" by (rule monoD [OF assms(2)]) simp
  ultimately show ?case by simp
qed (simp add: assms(3))

text \<open>The host frames due after the first \<open>k\<close> durations, from the start \<open>t\<close> of the accumulator's clock.\<close>

definition frames_due :: "nat \<Rightarrow> nat \<Rightarrow> nat list \<Rightarrow> nat \<Rightarrow> nat" where
  "frames_due host t es k = (t + sum_list (take k es) * host) div nanos_per_second"

lemma frames_due_mono: "mono (frames_due host t es)"
proof (rule monoI)
  fix j k :: nat
  assume "j \<le> k"
  then have "sum_list (take k es) = sum_list (take j es) + sum_list (take (k - j) (drop j es))"
    by (metis le_add_diff_inverse sum_list_append take_add)
  then show "frames_due host t es j \<le> frames_due host t es k" by (simp add: frames_due_def div_le_mono)
qed

lemma div_split:
  fixes t x n :: nat
  assumes "0 < n"
  shows "(t + x) div n = t div n + (t mod n + x) div n"
proof -
  have "t + x = (t mod n + x) + t div n * n" using mod_mult_div_eq [of t n] by (simp add: mult.commute)
  then have "(t + x) div n = ((t mod n + x) + t div n * n) div n" by (rule arg_cong)
  also have "\<dots> = t div n + (t mod n + x) div n" by (rule div_mult_self1) (use assms in simp)
  finally show ?thesis .
qed

lemma elapse_all_spec:
  assumes "cadence_at config m c" and "sc_accumulator c = t mod nanos_per_second" and "\<forall>e \<in> set es. is_duration e"
    and h: "cc_host_rate config < 2 ^ 32" and "elapse_all c es = (advs, c')"
  shows "length advs = length es
    \<and> (\<forall>k < length es. advs ! k = advance_due config (m + total_of ca_host_frames (take k advs))
         (frames_due (cc_host_rate config) t es (Suc k) - frames_due (cc_host_rate config) t es k))"
  using assms(1-3,5)
proof (induction es arbitrary: c m t advs c')
  case (Cons e es)
  let ?h = "cc_host_rate config" let ?acc = "sc_accumulator c + e * ?h"
  let ?adv = "advance_due config m (?acc div nanos_per_second)"
  have dur: "is_duration e" "\<forall>e \<in> set es. is_duration e" using Cons.prems(3) by simp_all
  obtain c1 where a: "advance_elapsed c e = (?adv, c1)" "cadence_at config (m + ca_host_frames ?adv) c1"
    "sc_accumulator c1 = ?acc mod nanos_per_second"
    using advance_elapsed_spec [OF Cons.prems(1) h dur(1)] by blast
  obtain rest where r: "elapse_all c1 es = (rest, c')" and advs: "advs = ?adv # rest"
    using Cons.prems(4) a(1) by (auto simp: case_prod_beta prod_eq_iff)
  have "sc_accumulator c1 = (t + e * ?h) mod nanos_per_second" using a(3) Cons.prems(2) by (simp add: mod_add_left_eq)
  note ih = Cons.IH [OF a(2) this dur(2) r]
  have later: "frames_due ?h t (e # es) (Suc k) = frames_due ?h (t + e * ?h) es k" for k
    by (simp add: frames_due_def algebra_simps)
  have "frames_due ?h t (e # es) (Suc 0) - frames_due ?h t (e # es) 0 = (t + e * ?h) div nanos_per_second - t div nanos_per_second"
    by (simp add: frames_due_def)
  also have "(t + e * ?h) div nanos_per_second = t div nanos_per_second + ?acc div nanos_per_second"
    unfolding Cons.prems(2) by (rule div_split) simp
  finally have "frames_due ?h t (e # es) (Suc 0) - frames_due ?h t (e # es) 0 = ?acc div nanos_per_second" by simp
  moreover have "advs ! Suc k = advance_due config (m + total_of ca_host_frames (take (Suc k) advs))
      (frames_due ?h t (e # es) (Suc (Suc k)) - frames_due ?h t (e # es) (Suc k))" if "k < length es" for k
    using ih that unfolding advs later by (simp add: add.assoc)
  ultimately show ?case using ih advs by (auto simp: less_Suc_eq_0_disj)
qed simp

lemma total_of_take_mono: "mono (\<lambda>k. total_of f (take k xs))"
proof (rule monoI)
  fix j k :: nat
  assume "j \<le> k"
  then have "take k xs = take j xs @ take (k - j) (drop j xs)" by (metis le_add_diff_inverse take_add)
  then show "total_of f (take j xs) \<le> total_of f (take k xs)" by simp
qed

lemma total_of_add: "total_of (\<lambda>x. f x + g x) xs = total_of f xs + total_of g xs"
  by (simp add: total_of_def sum_list_addf)

text \<open>C18: a cadence keeps time.  Take any valid configuration and any run of elapsed durations.  Call by call, the host
  frames due are the increase of the frames that the host rate makes due in all the time passed since the start; the
  call runs them up to the catch-up limit and reports the rest as dropped, and its gameplay ticks and physics steps are
  the increase of what the rates make due in all host frames run since the start.  Dropped frames, ticks and steps are
  reported exactly below the u32 maximum and as that maximum otherwise; the clock and the lanes never saturate.  So the
  totals are exact for every counter that no call reported at the maximum: rounding never accumulates.
\<close>
theorem cadence_keeps_time:
  assumes new: "simulation_cadence_new config = Some c" and typed: "cc_host_rate config < 2 ^ 32"
    and durations: "\<forall>e \<in> set es. e < 2 ^ 64 * nanos_per_second"
    and run: "elapse_all c es = (advs, c')"
  defines "due \<equiv> \<lambda>k. sum_list (take k es) * cc_host_rate config div nanos_per_second"
    and "frames_run \<equiv> \<lambda>k. total_of ca_host_frames (take k advs)"
  shows "length advs = length es
      \<and> (\<forall>k < length es.
           ca_host_frames (advs ! k) = min (due (Suc k) - due k) (cc_max_catch_up config)
         \<and> ca_dropped_host_frames (advs ! k) = min (due (Suc k) - due k - ca_host_frames (advs ! k)) max_u32
         \<and> ca_gameplay_ticks (advs ! k) = min (frames_run (Suc k) * cc_gameplay_rate config div cc_host_rate config
              - frames_run k * cc_gameplay_rate config div cc_host_rate config) max_u32
         \<and> ca_physics_steps (advs ! k) = min (frames_run (Suc k) * cc_physics_rate config div cc_host_rate config
              - frames_run k * cc_physics_rate config div cc_host_rate config) max_u32)
      \<and> ((\<forall>adv \<in> set advs. ca_dropped_host_frames adv < max_u32) \<longrightarrow>
           total_of ca_host_frames advs + total_of ca_dropped_host_frames advs
             = sum_list es * cc_host_rate config div nanos_per_second)
      \<and> ((\<forall>adv \<in> set advs. ca_gameplay_ticks adv < max_u32) \<longrightarrow>
           total_of ca_gameplay_ticks advs = total_of ca_host_frames advs * cc_gameplay_rate config div cc_host_rate config)
      \<and> ((\<forall>adv \<in> set advs. ca_physics_steps adv < max_u32) \<longrightarrow>
           total_of ca_physics_steps advs = total_of ca_host_frames advs * cc_physics_rate config div cc_host_rate config)"
proof -
  have at: "cadence_at config 0 c" "sc_accumulator c = 0 mod nanos_per_second"
    using simulation_cadence_new_at [OF new] by simp_all
  have d: "frames_due (cc_host_rate config) 0 es = due" by (simp add: frames_due_def due_def fun_eq_iff)
  have "\<forall>e \<in> set es. is_duration e" using durations by (simp add: is_duration_def)
  note spec = elapse_all_spec [OF at this typed run, unfolded d]
  then have len: "length advs = length es" by simp
  have call: "advs ! k = advance_due config (frames_run k) (due (Suc k) - due k)" "frames_run (Suc k) = frames_run k + ca_host_frames (advs ! k)"
    if "k < length es" for k using spec that by (simp_all add: frames_run_def total_of_take_Suc)
  have each: "ca_host_frames (advs ! k) = min (due (Suc k) - due k) (cc_max_catch_up config)
       \<and> ca_dropped_host_frames (advs ! k) = min (due (Suc k) - due k - ca_host_frames (advs ! k)) max_u32
       \<and> ca_gameplay_ticks (advs ! k) = min (frames_run (Suc k) * cc_gameplay_rate config div cc_host_rate config
            - frames_run k * cc_gameplay_rate config div cc_host_rate config) max_u32
       \<and> ca_physics_steps (advs ! k) = min (frames_run (Suc k) * cc_physics_rate config div cc_host_rate config
            - frames_run k * cc_physics_rate config div cc_host_rate config) max_u32" if "k < length es" for k
    unfolding call(2) [OF that] unfolding call(1) [OF that] by (simp add: advance_due_def Let_def)
  have ends: "due (length advs) = sum_list es * cc_host_rate config div nanos_per_second" "due 0 = 0"
    "frames_run (length advs) = total_of ca_host_frames advs" "frames_run 0 = 0" by (simp_all add: due_def frames_run_def len)
  have mono: "mono due" "mono (\<lambda>k. frames_run k * rate div cc_host_rate config)" for rate
    using frames_due_mono [of "cc_host_rate config" 0 es] total_of_take_mono [of ca_host_frames advs]
    by (simp_all add: d frames_run_def mono_def div_le_mono)
  have small: "x < max_u32 \<Longrightarrow> x = min y max_u32 \<Longrightarrow> x = y" for x y :: nat by linarith
  have dropped: "total_of (\<lambda>adv. ca_host_frames adv + ca_dropped_host_frames adv) advs = due (length advs)"
    if "\<forall>adv \<in> set advs. ca_dropped_host_frames adv < max_u32"
  proof (rule total_of_telescope [OF _ mono(1) ends(2)], intro allI impI)
    fix k
    assume k: "k < length advs"
    note call = each [OF k [unfolded len]]
    have "ca_dropped_host_frames (advs ! k) = due (Suc k) - due k - ca_host_frames (advs ! k)"
      by (rule small [OF bspec [OF that nth_mem [OF k]]]) (use call in blast)
    moreover have "ca_host_frames (advs ! k) \<le> due (Suc k) - due k" using call by (metis min.cobounded1)
    ultimately show "ca_host_frames (advs ! k) + ca_dropped_host_frames (advs ! k) = due (Suc k) - due k" by linarith
  qed
  have ticks: "total_of f advs = frames_run (length advs) * rate div cc_host_rate config"
    if "\<forall>adv \<in> set advs. f adv < max_u32" "\<And>k. k < length es \<Longrightarrow> f (advs ! k)
      = min (frames_run (Suc k) * rate div cc_host_rate config - frames_run k * rate div cc_host_rate config) max_u32" for f rate
  proof (rule total_of_telescope [OF _ mono(2)], intro allI impI)
    fix k
    assume k: "k < length advs"
    show "f (advs ! k) = frames_run (Suc k) * rate div cc_host_rate config - frames_run k * rate div cc_host_rate config"
      by (rule small [OF bspec [OF that(1) nth_mem [OF k]] that(2) [OF k [unfolded len]]])
  qed (simp add: ends(4))
  show ?thesis
  proof (intro conjI impI allI)
    assume "\<forall>adv \<in> set advs. ca_dropped_host_frames adv < max_u32"
    from dropped [OF this] show "total_of ca_host_frames advs + total_of ca_dropped_host_frames advs
        = sum_list es * cc_host_rate config div nanos_per_second" by (simp only: total_of_add ends(1))
  next
    assume "\<forall>adv \<in> set advs. ca_gameplay_ticks adv < max_u32"
    from ticks [OF this, of "cc_gameplay_rate config"] each ends(3)
    show "total_of ca_gameplay_ticks advs = total_of ca_host_frames advs * cc_gameplay_rate config div cc_host_rate config"
      by (metis (no_types, lifting))
  next
    assume "\<forall>adv \<in> set advs. ca_physics_steps adv < max_u32"
    from ticks [OF this, of "cc_physics_rate config"] each ends(3)
    show "total_of ca_physics_steps advs = total_of ca_host_frames advs * cc_physics_rate config div cc_host_rate config"
      by (metis (no_types, lifting))
  qed (use len each in \<open>blast+\<close>)
qed

text \<open>Fifty and forty milliseconds, then a stall of a second, at the default rates of 60, 20 and 60 Hz.\<close>

lemma cadence_keeps_time_witness:
  "simulation_cadence_new cadence_config_default \<noteq> None
   \<and> (case elapse_all (the (simulation_cadence_new cadence_config_default)) [50000000, 40000000, 1000000000] of
        (advs, _) \<Rightarrow> ca_host_frames (advs ! 2) = 4 \<and> ca_dropped_host_frames (advs ! 2) = 56)"
proof -
  let ?es = "[50000000, 40000000, 1000000000::nat]"
  have new: "simulation_cadence_new cadence_config_default = Some (the (simulation_cadence_new cadence_config_default))"
    by code_simp
  have valid: "simulation_cadence_new cadence_config_default \<noteq> None" by (subst new) simp
  have config: "cc_host_rate cadence_config_default = 60" "cc_max_catch_up cadence_config_default = 4"
    by (simp_all add: cadence_config_default_def cadence_config_new_def)
  obtain advs c' where run: "elapse_all (the (simulation_cadence_new cadence_config_default)) ?es = (advs, c')"
    by fastforce
  have host: "cc_host_rate cadence_config_default < 2 ^ 32" and durations: "\<forall>e \<in> set ?es. e < 2 ^ 64 * nanos_per_second"
    by (simp_all add: config)
  have "ca_host_frames (advs ! 2) = 4 \<and> ca_dropped_host_frames (advs ! 2) = 56"
    using cadence_keeps_time [OF new host durations run, THEN conjunct2, THEN conjunct1, THEN spec, of 2] by (simp add: config)
  then show ?thesis using valid run by simp
qed

end
