(* ===== verification/GenRandom.thy ===== *)
theory GenRandom imports Prelude
begin

text \<open>
  The random source of the terrain generator, \<open>native/crates/mclone-worldgen/src/prng.rs\<close>: a linear
  congruential generator on 48 bits, the same generator with a count of its draws, and the seeds that
  the generator derives for chunks and features.  Floating-point draws are not modelled; of the cached
  gaussian only the flag is kept.  A panic is \<open>None\<close>; the loop that rejects draws may run on, so it is a
  partial function.
\<close>

section \<open>The plain source\<close>

definition modulus_bits :: nat where "modulus_bits = 48"
definition modulus_mask :: u64 where "modulus_mask = push_bit modulus_bits 1 - 1"
definition multiplier :: u64 where "multiplier = 25214903917"
definition increment :: u64 where "increment = 11"
definition base_chunk_multiplier_x :: int where "base_chunk_multiplier_x = 341873128712"
definition base_chunk_multiplier_z :: int where "base_chunk_multiplier_z = 132897987541"

record simple_random =
  sr_seed :: u64
  sr_have_gaussian :: bool

text \<open>A seed comes as \<open>i64\<close> and is read as \<open>u64\<close>.\<close>

definition simple_set_seed :: "simple_random \<Rightarrow> int \<Rightarrow> simple_random" where
  "simple_set_seed s seed = s\<lparr>sr_seed := (word_of_int seed XOR multiplier) AND modulus_mask\<rparr>"

definition simple_random_new :: "int \<Rightarrow> simple_random" where
  "simple_random_new seed = simple_set_seed \<lparr>sr_seed = 0, sr_have_gaussian = False\<rparr> seed"

definition simple_next_bits_raw :: "nat \<Rightarrow> simple_random \<Rightarrow> (u32 \<times> simple_random) option" where
  "simple_next_bits_raw bits s = do {
     assert_that (1 \<le> bits \<and> bits \<le> 32);
     let s = s\<lparr>sr_seed := (sr_seed s * multiplier + increment) AND modulus_mask\<rparr>;
     Some (ucast (drop_bit (modulus_bits - bits) (sr_seed s)), s)
   }"

section \<open>Draws from any source of bits\<close>

text \<open>
  The two sources of the file repeat these draws word for word over their own \<open>next_bits_raw\<close>.
  \<open>as i32\<close> keeps the bits of a \<open>u32\<close>.
\<close>

type_synonym 's bits_of = "nat \<Rightarrow> 's \<Rightarrow> (u32 \<times> 's) option"

definition draw_signed :: "'s bits_of \<Rightarrow> nat \<Rightarrow> 's \<Rightarrow> (int \<times> 's) option" where
  "draw_signed bits_of bits s = map_option (\<lambda>(b, s). (wrap_i32 (uint b), s)) (bits_of bits s)"

partial_function (option) draw_below :: "'s bits_of \<Rightarrow> int \<Rightarrow> 's \<Rightarrow> (int \<times> 's) option" where
  "draw_below bits_of bound s = do {
     (bits, s) \<leftarrow> draw_signed bits_of 31 s;
     let v = rust_rem bits bound;
     if 0 \<le> wrap_i32 (wrap_i32 (bits - v) + (bound - 1)) then Some (v, s) else draw_below bits_of bound s
   }"

definition draw_bound :: "'s bits_of \<Rightarrow> int \<Rightarrow> 's \<Rightarrow> (int \<times> 's) option" where
  "draw_bound bits_of bound s =
     (if bound \<le> 0 then None
      else if bound AND (bound - 1) = 0
      then map_option (\<lambda>(b, s). (wrap_i32 (drop_bit 31 (wrap_i64 (bound * uint b))), s)) (bits_of 31 s)
      else draw_below bits_of bound s)"

definition next_long_from_parts :: "int \<Rightarrow> int \<Rightarrow> int" where
  "next_long_from_parts hi lo = wrap_i64 (wrap_i64 (push_bit 32 hi) + lo)"

definition draw_long :: "'s bits_of \<Rightarrow> 's \<Rightarrow> (int \<times> 's) option" where
  "draw_long bits_of s = do {
     (hi, s) \<leftarrow> draw_signed bits_of 32 s;
     (lo, s) \<leftarrow> draw_signed bits_of 32 s;
     Some (next_long_from_parts hi lo, s)
   }"

definition draw_boolean :: "'s bits_of \<Rightarrow> 's \<Rightarrow> (bool \<times> 's) option" where
  "draw_boolean bits_of s = map_option (\<lambda>(b, s). (b \<noteq> 0, s)) (bits_of 1 s)"

fun draw_and_forget :: "'s bits_of \<Rightarrow> nat \<Rightarrow> 's \<Rightarrow> 's option" where
  "draw_and_forget bits_of 0 s = Some s"
| "draw_and_forget bits_of (Suc n) s =
     Option.bind (draw_signed bits_of 32 s) (\<lambda>(v, s). draw_and_forget bits_of n s)"

definition simple_next_int :: "simple_random \<Rightarrow> (int \<times> simple_random) option" where
  "simple_next_int = draw_signed simple_next_bits_raw 32"

definition simple_next_int_bound :: "int \<Rightarrow> simple_random \<Rightarrow> (int \<times> simple_random) option" where
  "simple_next_int_bound = draw_bound simple_next_bits_raw"

definition simple_next_long :: "simple_random \<Rightarrow> (int \<times> simple_random) option" where
  "simple_next_long = draw_long simple_next_bits_raw"

definition simple_next_boolean :: "simple_random \<Rightarrow> (bool \<times> simple_random) option" where
  "simple_next_boolean = draw_boolean simple_next_bits_raw"

definition simple_consume_count :: "nat \<Rightarrow> simple_random \<Rightarrow> simple_random option" where
  "simple_consume_count = draw_and_forget simple_next_bits_raw"

section \<open>The counting source\<close>

record worldgen_random =
  wr_source :: simple_random
  wr_count :: nat
  wr_have_gaussian :: bool

definition worldgen_random_new :: "int \<Rightarrow> worldgen_random" where
  "worldgen_random_new seed = \<lparr>wr_source = simple_random_new seed, wr_count = 0, wr_have_gaussian = False\<rparr>"

definition worldgen_set_seed :: "worldgen_random \<Rightarrow> int \<Rightarrow> worldgen_random" where
  "worldgen_set_seed w seed = w\<lparr>wr_source := simple_set_seed (wr_source w) seed, wr_have_gaussian := False\<rparr>"

definition worldgen_next_bits_raw :: "nat \<Rightarrow> worldgen_random \<Rightarrow> (u32 \<times> worldgen_random) option" where
  "worldgen_next_bits_raw bits w =
     (let w = w\<lparr>wr_count := (wr_count w + 1) mod 2 ^ 64\<rparr> in
      map_option (\<lambda>(b, s). (b, w\<lparr>wr_source := s\<rparr>)) (simple_next_bits_raw bits (wr_source w)))"

definition worldgen_next_int :: "worldgen_random \<Rightarrow> (int \<times> worldgen_random) option" where
  "worldgen_next_int = draw_signed worldgen_next_bits_raw 32"

definition worldgen_next_int_bound :: "int \<Rightarrow> worldgen_random \<Rightarrow> (int \<times> worldgen_random) option" where
  "worldgen_next_int_bound = draw_bound worldgen_next_bits_raw"

definition worldgen_next_long :: "worldgen_random \<Rightarrow> (int \<times> worldgen_random) option" where
  "worldgen_next_long = draw_long worldgen_next_bits_raw"

definition worldgen_next_boolean :: "worldgen_random \<Rightarrow> (bool \<times> worldgen_random) option" where
  "worldgen_next_boolean = draw_boolean worldgen_next_bits_raw"

definition worldgen_consume_count :: "nat \<Rightarrow> worldgen_random \<Rightarrow> worldgen_random option" where
  "worldgen_consume_count = draw_and_forget worldgen_next_bits_raw"

section \<open>Derived seeds\<close>

text \<open>Arithmetic of \<open>i64\<close> wraps at every step.\<close>

definition add_i64 :: "int \<Rightarrow> int \<Rightarrow> int" where "add_i64 a b = wrap_i64 (a + b)"
definition mul_i64 :: "int \<Rightarrow> int \<Rightarrow> int" where "mul_i64 a b = wrap_i64 (a * b)"
definition mul_i32 :: "int \<Rightarrow> int \<Rightarrow> int" where "mul_i32 a b = wrap_i32 (a * b)"

definition set_base_chunk_seed :: "worldgen_random \<Rightarrow> int \<Rightarrow> int \<Rightarrow> int \<times> worldgen_random" where
  "set_base_chunk_seed w chunk_x chunk_z =
     (let seed = add_i64 (mul_i64 chunk_x base_chunk_multiplier_x) (mul_i64 chunk_z base_chunk_multiplier_z)
      in (seed, worldgen_set_seed w seed))"

definition set_decoration_seed ::
  "worldgen_random \<Rightarrow> int \<Rightarrow> int \<Rightarrow> int \<Rightarrow> (int \<times> worldgen_random) option" where
  "set_decoration_seed w level_seed min_x min_z = do {
     let w = worldgen_set_seed w level_seed;
     (x, w) \<leftarrow> worldgen_next_long w;
     let x_multiplier = x OR 1;
     (z, w) \<leftarrow> worldgen_next_long w;
     let z_multiplier = z OR 1;
     let seed = add_i64 (mul_i64 min_x x_multiplier) (mul_i64 min_z z_multiplier) XOR level_seed;
     Some (seed, worldgen_set_seed w seed)
   }"

definition set_feature_seed :: "worldgen_random \<Rightarrow> int \<Rightarrow> int \<Rightarrow> int \<Rightarrow> int \<times> worldgen_random" where
  "set_feature_seed w decoration_seed index decoration_step =
     (let seed = add_i64 (add_i64 decoration_seed index) (mul_i64 10000 decoration_step)
      in (seed, worldgen_set_seed w seed))"

definition set_large_feature_seed ::
  "worldgen_random \<Rightarrow> int \<Rightarrow> int \<Rightarrow> int \<Rightarrow> (int \<times> worldgen_random) option" where
  "set_large_feature_seed w base_seed chunk_x chunk_z = do {
     let w = worldgen_set_seed w base_seed;
     (x_multiplier, w) \<leftarrow> worldgen_next_long w;
     (z_multiplier, w) \<leftarrow> worldgen_next_long w;
     let seed = (mul_i64 chunk_x x_multiplier XOR mul_i64 chunk_z z_multiplier) XOR base_seed;
     Some (seed, worldgen_set_seed w seed)
   }"

definition set_base_stone_seed ::
  "worldgen_random \<Rightarrow> int \<Rightarrow> int \<Rightarrow> int \<Rightarrow> int \<Rightarrow> (int \<times> worldgen_random) option" where
  "set_base_stone_seed w level_seed x y z = do {
     let w = worldgen_set_seed w level_seed;
     (x_multiplier, w) \<leftarrow> worldgen_next_long w;
     (y_multiplier, w) \<leftarrow> worldgen_next_long w;
     (z_multiplier, w) \<leftarrow> worldgen_next_long w;
     let seed = ((mul_i64 x x_multiplier XOR mul_i64 y y_multiplier) XOR mul_i64 z z_multiplier) XOR level_seed;
     Some (seed, worldgen_set_seed w seed)
   }"

definition set_large_feature_with_salt ::
  "worldgen_random \<Rightarrow> int \<Rightarrow> int \<Rightarrow> int \<Rightarrow> int \<Rightarrow> int \<times> worldgen_random" where
  "set_large_feature_with_salt w level_seed region_x region_z salt =
     (let seed = add_i64 (add_i64 (add_i64 (mul_i64 region_x base_chunk_multiplier_x)
             (mul_i64 region_z base_chunk_multiplier_z)) level_seed) salt
      in (seed, worldgen_set_seed w seed))"

definition seed_slime_chunk :: "int \<Rightarrow> int \<Rightarrow> int \<Rightarrow> int \<Rightarrow> worldgen_random" where
  "seed_slime_chunk chunk_x chunk_z level_seed salt =
     (let x_square_term = mul_i32 (mul_i32 chunk_x chunk_x) 4987142;
          x_term = mul_i32 chunk_x 5947611;
          z_square_term = mul_i64 (mul_i32 chunk_z chunk_z) 4392871;
          z_term = mul_i32 chunk_z 389711;
          seed = add_i64 (add_i64 (add_i64 (add_i64 level_seed x_square_term) x_term) z_square_term) z_term XOR salt
      in worldgen_random_new seed)"

end
