(* ===== verification/GenRandomRuns.thy ===== *)
theory GenRandomRuns imports GenRandom
begin

text \<open>
  The generator runs through all of its states: a linear congruential map whose factor is one more than
  a multiple of four and whose increment is odd is one cycle modulo every power of two.  Hence every
  draw below a bound returns, although it rejects draws.  Both sources of the file are bit sources in
  the sense of one locale, which carries the bounds of the draws.
\<close>

section \<open>One cycle modulo every power of two\<close>

definition lcg :: "int \<Rightarrow> int \<Rightarrow> int \<Rightarrow> int" where "lcg a c x = a * x + c"

text \<open>After \<open>2 ^ e\<close> steps a state has moved by an odd multiple of \<open>2 ^ e\<close>.\<close>

lemma lcg_power:
  assumes a: "4 dvd a - 1" and c: "odd c"
  shows "\<exists>A C. (\<forall>x. (lcg a c ^^ (2 ^ e)) x = A * x + C) \<and> 2 ^ (e + 2) dvd A - 1 \<and> (\<exists>m. C = 2 ^ e * (2 * m + 1))"
proof (induction e)
  case 0
  obtain m where "c = 2 * m + 1" using c by (elim oddE)
  then show ?case using a by (intro exI [of _ a] exI [of _ c]) (auto simp: lcg_def)
next
  case (Suc e)
  then obtain A C t m where A: "\<And>x. (lcg a c ^^ (2 ^ e)) x = A * x + C" "A - 1 = 2 ^ (e + 2) * t" "C = 2 ^ e * (2 * m + 1)"
    by (auto elim!: dvdE)
  have A': "A = 1 + 4 * 2 ^ e * t" using A(2) by simp
  have "(lcg a c ^^ (2 ^ e + 2 ^ e)) x = A * (A * x + C) + C" for x by (simp only: funpow_add comp_def A(1))
  then have "(lcg a c ^^ (2 ^ Suc e)) x = A * A * x + (A + 1) * C" for x by (simp add: mult_2 algebra_simps)
  moreover have "A * A - 1 = 2 ^ (Suc e + 2) * (t * (1 + 2 * 2 ^ e * t))"
    by (simp add: A' algebra_simps)
  then have "2 ^ (Suc e + 2) dvd A * A - 1" by (metis dvd_triv_left)
  moreover have "(A + 1) * C = 2 ^ Suc e * (2 * (m + 2 ^ e * t * (2 * m + 1)) + 1)"
    by (simp add: A' A(3) algebra_simps)
  ultimately show ?case by blast
qed

lemma lcg_reaches:
  assumes a: "4 dvd a - 1" and c: "odd c"
  shows "\<exists>n. 2 ^ e dvd (lcg a c ^^ n) x - y"
proof (induction e)
  case (Suc e)
  then obtain n k where n: "(lcg a c ^^ n) x - y = 2 ^ e * k" by (auto elim: dvdE)
  show ?case
  proof (cases "even k")
    case True
    then have "2 ^ Suc e dvd (lcg a c ^^ n) x - y" using n by (auto elim!: evenE)
    then show ?thesis by blast
  next
    case False
    then obtain j where j: "k = 2 * j + 1" by (elim oddE)
    obtain A C t m where A: "\<And>x. (lcg a c ^^ (2 ^ e)) x = A * x + C" "A - 1 = 2 ^ (e + 2) * t" "C = 2 ^ e * (2 * m + 1)"
      using lcg_power [OF a c, of e] by (auto elim!: dvdE)
    let ?z = "(lcg a c ^^ n) x"
    have "(lcg a c ^^ (2 ^ e + n)) x = A * ?z + C" by (simp only: funpow_add comp_def A(1))
    then have "(lcg a c ^^ (2 ^ e + n)) x - y = (?z - y) + ((A - 1) * ?z + C)" by (simp add: algebra_simps)
    also have "\<dots> = 2 ^ Suc e * (j + m + 1 + 2 * t * ?z)"
      unfolding n A(2) by (simp add: A(3) j algebra_simps)
    finally have "2 ^ Suc e dvd (lcg a c ^^ (2 ^ e + n)) x - y" by (metis dvd_triv_left)
    then show ?thesis by blast
  qed
qed simp

text \<open>The same for the map that keeps the low bits.\<close>

lemma lcg_mod_funpow: "((\<lambda>x. (a * x + c) mod M) ^^ n) x mod M = (lcg a c ^^ n) x mod M" for x :: int
proof (induction n)
  case (Suc n)
  have "((\<lambda>x. (a * x + c) mod M) ^^ Suc n) x mod M = (a * (((\<lambda>x. (a * x + c) mod M) ^^ n) x mod M) + c) mod M"
    by (simp, metis mod_add_left_eq mod_mult_right_eq)
  also have "\<dots> = (lcg a c ^^ Suc n) x mod M" unfolding Suc.IH by (simp add: lcg_def, metis mod_add_left_eq mod_mult_right_eq)
  finally show ?case .
qed simp

lemma lcg_cycle:
  fixes x y :: int
  assumes "4 dvd a - 1" and "odd c" and y: "0 \<le> y" "y < 2 ^ e" and x: "0 \<le> x" "x < 2 ^ e"
  shows "\<exists>n. ((\<lambda>x. (a * x + c) mod 2 ^ e) ^^ n) x = y"
proof -
  obtain n where n: "2 ^ e dvd (lcg a c ^^ n) x - y" using lcg_reaches [OF assms(1,2)] by blast
  have range: "((\<lambda>x. (a * x + c) mod 2 ^ e) ^^ k) x \<in> {0..<2 ^ e}" for k
    using x by (cases k) simp_all
  have "((\<lambda>x. (a * x + c) mod 2 ^ e) ^^ n) x = ((\<lambda>x. (a * x + c) mod 2 ^ e) ^^ n) x mod 2 ^ e"
    using range [of n] by simp
  also have "\<dots> = y mod 2 ^ e" unfolding lcg_mod_funpow using n by (simp add: mod_eq_dvd_iff)
  finally show ?thesis using y by auto
qed

section \<open>The states of the source\<close>

definition next_seed :: "int \<Rightarrow> int" where "next_seed x = (25214903917 * x + 11) mod 2 ^ 48"

definition seed_of :: "simple_random \<Rightarrow> int" where "seed_of s = uint (sr_seed s)"

lemma modulus_mask_eq: "modulus_mask = mask 48"
  by (simp add: modulus_mask_def modulus_bits_def mask_eq_exp_minus_1 push_bit_eq_mult)

lemma uint_masked: "uint (w AND modulus_mask) = uint w mod 2 ^ 48" for w :: u64
  unfolding modulus_mask_eq take_bit_eq_mask [symmetric] unsigned_take_bit_eq by (simp add: take_bit_eq_mod)

lemma stepped_seed: "uint ((w * multiplier + increment) AND modulus_mask) = next_seed (uint w)" for w :: u64
proof -
  have "uint (w * multiplier + increment) = (uint w * 25214903917 + 11) mod 2 ^ 64"
    by (simp add: uint_word_ariths multiplier_def increment_def mod_simps)
  then show ?thesis unfolding uint_masked by (simp add: next_seed_def mod_mod_cancel mult.commute)
qed

lemma simple_bits_run:
  assumes "1 \<le> bits" and "bits \<le> 32"
  shows "\<exists>s'. simple_next_bits_raw bits s = Some (word_of_int (seed_of s' div 2 ^ (48 - bits)), s')
     \<and> seed_of s' = next_seed (seed_of s) \<and> sr_have_gaussian s' = sr_have_gaussian s"
proof -
  let ?s = "s\<lparr>sr_seed := (sr_seed s * multiplier + increment) AND modulus_mask\<rparr>"
  have "ucast (drop_bit (48 - bits) (sr_seed ?s)) = (word_of_int (seed_of ?s div 2 ^ (48 - bits)) :: u32)"
    by (rule bit_word_eqI) (auto simp: seed_of_def bit_simps drop_bit_eq_div [symmetric] ac_simps)
  moreover have "seed_of ?s = next_seed (seed_of s)" unfolding seed_of_def using stepped_seed by simp
  ultimately show ?thesis using assms
    by (intro exI [of _ ?s]) (simp add: simple_next_bits_raw_def modulus_bits_def Let_def)
qed

section \<open>Bit sources\<close>

text \<open>The raw 31 bits a draw accepts, and what it makes of them.\<close>

definition accepted :: "int \<Rightarrow> int \<Rightarrow> bool" where
  "accepted bound b \<longleftrightarrow> b - b mod bound + (bound - 1) < 2 ^ 31"

definition draw_outcome :: "int \<Rightarrow> int \<Rightarrow> int option" where
  "draw_outcome bound b =
     (if bound AND (bound - 1) = 0 then Some (bound * b div 2 ^ 31)
      else if accepted bound b then Some (b mod bound) else None)"

abbreviation (input) raw_bits :: "nat \<Rightarrow> int \<Rightarrow> int" where "raw_bits bits x \<equiv> x div 2 ^ (48 - bits)"

lemma wrap_i32_sign:
  assumes "0 \<le> x" and "x < 2 ^ 32"
  shows "0 \<le> wrap_i32 x \<longleftrightarrow> x < 2 ^ 31"
proof (cases "x < 2 ^ 31")
  case False
  then have "x div 2147483648 = 1" using assms by (intro int_div_pos_eq [of _ _ _ "x - 2147483648"]) simp_all
  then show ?thesis using False by (simp add: wrap_i32_def signed_take_bit_nonnegative_iff bit_iff_odd)
qed (use assms in \<open>simp add: wrap_i32_id in_i32_def\<close>)

lemma next_seed_range: "0 \<le> next_seed x" "next_seed x < 2 ^ 48"
  by (simp_all add: next_seed_def)

lemma int_div_less:
  fixes d x n :: int
  assumes "0 < d" and "x < d * n"
  shows "x div d < n"
proof -
  have "d * (x div d) = x - x mod d" "0 \<le> x mod d" using assms(1) by (simp_all add: minus_mod_eq_mult_div)
  then have "d * (x div d) < d * n" using assms(2) by linarith
  then show ?thesis using assms(1) by simp
qed

lemma raw_bits_range:
  assumes "bits \<le> 48" and "0 \<le> x" and "x < 2 ^ 48"
  shows "0 \<le> raw_bits bits x" and "raw_bits bits x < 2 ^ bits"
proof -
  have "(2 :: int) ^ 48 = 2 ^ (48 - bits) * 2 ^ bits" unfolding power_add [symmetric] using assms(1) by simp
  then show "raw_bits bits x < 2 ^ bits" using assms(3) by (intro int_div_less) simp_all
  show "0 \<le> raw_bits bits x" using assms(2) by (simp add: pos_imp_zdiv_nonneg_iff)
qed

text \<open>The \<open>i64\<close> that a source in a state draws.\<close>

definition long_at :: "int \<Rightarrow> int" where
  "long_at x = next_long_from_parts (wrap_i32 (raw_bits 32 (next_seed x))) (wrap_i32 (raw_bits 32 (next_seed (next_seed x))))"

locale bit_source =
  fixes bits_of :: "nat \<Rightarrow> 's \<Rightarrow> (32 word \<times> 's) option" and state :: "'s \<Rightarrow> int"
  assumes bits_run: "1 \<le> bits \<Longrightarrow> bits \<le> 32 \<Longrightarrow>
    \<exists>s'. bits_of bits s = Some (word_of_int (raw_bits bits (state s')), s') \<and> state s' = next_seed (state s)"
begin

lemma draw_run:
  assumes "1 \<le> bits" and "bits \<le> 32"
  shows "\<exists>s' b. bits_of bits s = Some (b, s') \<and> uint b = raw_bits bits (state s') \<and> state s' = next_seed (state s)
    \<and> 0 \<le> uint b \<and> uint b < 2 ^ bits"
proof -
  obtain s' where s': "bits_of bits s = Some (word_of_int (raw_bits bits (state s')), s')" "state s' = next_seed (state s)"
    using bits_run [OF assms] by blast
  have "0 \<le> state s'" "state s' < 2 ^ 48" using s'(2) next_seed_range [of "state s"] by simp_all
  with assms(2) have r: "0 \<le> raw_bits bits (state s')" "raw_bits bits (state s') < 2 ^ bits"
    using raw_bits_range [of bits "state s'"] by simp_all
  have "(2 :: int) ^ bits \<le> 2 ^ 32" using assms(2) by (rule power_increasing) simp
  then have "raw_bits bits (state s') < 2 ^ 32" using r(2) by linarith
  then have "uint (word_of_int (raw_bits bits (state s')) :: u32) = raw_bits bits (state s')"
    using r(1) by (simp add: uint_word_of_int)
  with s' r show ?thesis by auto
qed

lemma bits31: "(1 :: nat) \<le> 31" "(31 :: nat) \<le> 32"
  by simp_all

lemma draw_below_step:
  assumes "0 < bound" and "bound < 2 ^ 31"
  shows "\<exists>s'. state s' = next_seed (state s) \<and> draw_below bits_of bound s =
    (if accepted bound (raw_bits 31 (state s')) then Some (raw_bits 31 (state s') mod bound, s') else draw_below bits_of bound s')"
proof -
  obtain s' b where b: "bits_of 31 s = Some (b, s')" "uint b = raw_bits 31 (state s')" "state s' = next_seed (state s)"
    "0 \<le> uint b" "uint b < 2 ^ 31"
    using draw_run [OF bits31, of s] by blast
  let ?v = "raw_bits 31 (state s')"
  have v: "0 \<le> ?v" "?v < 2 ^ 31" using b by simp_all
  then have "in_i32 (uint b)" using b(2) by (simp add: in_i32_def)
  then have d: "draw_signed bits_of 31 s = Some (?v, s')" using b(1,2) by (simp add: draw_signed_def wrap_i32_id)
  have r: "rust_rem ?v bound = ?v mod bound" using v assms(1) by (cases "?v = 0") (simp_all add: rust_rem_def)
  have m: "0 \<le> ?v - ?v mod bound" "?v - ?v mod bound < 2 ^ 31"
    using v assms zmod_le_nonneg_dividend [of ?v bound] pos_mod_sign [of bound ?v] by linarith+
  then have "wrap_i32 (?v - ?v mod bound) = ?v - ?v mod bound" by (intro wrap_i32_id) (simp add: in_i32_def)
  then have "0 \<le> wrap_i32 (wrap_i32 (?v - ?v mod bound) + (bound - 1)) \<longleftrightarrow> accepted bound ?v"
    using m assms wrap_i32_sign [of "?v - ?v mod bound + (bound - 1)"] by (simp add: accepted_def)
  then show ?thesis using d r b(3) by (intro exI [of _ s']) (subst draw_below.simps, simp)
qed

lemma draw_below_spec:
  assumes b: "0 < bound" "bound < 2 ^ 31" and "accepted bound (raw_bits 31 ((next_seed ^^ Suc n) (state s)))"
  shows "\<exists>k s'. draw_below bits_of bound s = Some (raw_bits 31 (state s') mod bound, s')
    \<and> state s' = (next_seed ^^ Suc k) (state s) \<and> accepted bound (raw_bits 31 (state s'))
    \<and> (\<forall>j<k. \<not> accepted bound (raw_bits 31 ((next_seed ^^ Suc j) (state s))))"
  using assms(3)
proof (induction n arbitrary: s)
  case 0
  then show ?case using draw_below_step [OF b, of s] by (intro exI [of _ 0]) auto
next
  case (Suc n)
  obtain s1 where s1: "state s1 = next_seed (state s)" "draw_below bits_of bound s =
    (if accepted bound (raw_bits 31 (state s1)) then Some (raw_bits 31 (state s1) mod bound, s1) else draw_below bits_of bound s1)"
    using draw_below_step [OF b] by blast
  show ?case
  proof (cases "accepted bound (raw_bits 31 (state s1))")
    case True
    then show ?thesis using s1 by (intro exI [of _ 0] exI [of _ s1]) simp
  next
    case False
    have shift: "(next_seed ^^ m) (state s1) = (next_seed ^^ Suc m) (state s)" for m by (simp add: s1(1) funpow_swap1)
    obtain k s' where k: "draw_below bits_of bound s1 = Some (raw_bits 31 (state s') mod bound, s')"
      "state s' = (next_seed ^^ Suc k) (state s1)" "accepted bound (raw_bits 31 (state s'))"
      "\<forall>j<k. \<not> accepted bound (raw_bits 31 ((next_seed ^^ Suc j) (state s1)))"
      using Suc.IH [of s1] Suc.prems unfolding shift by blast
    have "\<not> accepted bound (raw_bits 31 ((next_seed ^^ Suc j) (state s)))" if "j < Suc k" for j
      using k(4) False s1(1) that unfolding shift by (cases j) auto
    then show ?thesis using k s1(2) False unfolding shift by (intro exI [of _ "Suc k"] exI [of _ s']) simp
  qed
qed

text \<open>A draw takes the outcome of the first raw bits that have one.\<close>

lemma draw_bound_spec:
  assumes b: "0 < bound" "bound < 2 ^ 31"
  shows "\<exists>k s' v. draw_bound bits_of bound s = Some (v, s') \<and> state s' = (next_seed ^^ Suc k) (state s)
    \<and> draw_outcome bound (raw_bits 31 (state s')) = Some v
    \<and> (\<forall>j<k. draw_outcome bound (raw_bits 31 ((next_seed ^^ Suc j) (state s))) = None)"
proof (cases "bound AND (bound - 1) = 0")
  case True
  obtain s' u where u: "bits_of 31 s = Some (u, s')" "uint u = raw_bits 31 (state s')" "state s' = next_seed (state s)"
    "0 \<le> uint u" "uint u < 2 ^ 31"
    using draw_run [OF bits31, of s] by blast
  have "bound * uint u < 2 ^ 31 * 2 ^ 31" using b u(4,5) by (intro mult_strict_mono) auto
  then have m: "0 \<le> bound * uint u" "bound * uint u < 2 ^ 62" using b u(4) by simp_all
  then have "wrap_i64 (bound * uint u) = bound * uint u" by (intro wrap_i64_id) (simp add: in_i64_def)
  moreover have "0 \<le> bound * uint u div 2 ^ 31" "bound * uint u div 2 ^ 31 < 2 ^ 31"
    using m by (simp_all add: pos_imp_zdiv_nonneg_iff)
  then have "wrap_i32 (bound * uint u div 2 ^ 31) = bound * uint u div 2 ^ 31"
    by (intro wrap_i32_id) (simp add: in_i32_def)
  ultimately show ?thesis using True b u(1-3)
    by (intro exI [of _ 0]) (simp add: draw_bound_def draw_outcome_def drop_bit_eq_div)
next
  case False
  have "\<exists>n. ((\<lambda>x. (25214903917 * x + 11) mod 2 ^ 48) ^^ n) (next_seed (state s)) = 0"
    by (rule lcg_cycle) (use next_seed_range [of "state s"] in \<open>simp_all\<close>)
  then obtain n where "(next_seed ^^ n) (next_seed (state s)) = 0"
    unfolding next_seed_def [abs_def, symmetric] by blast
  then have "accepted bound (raw_bits 31 ((next_seed ^^ Suc n) (state s)))"
    using b by (simp add: funpow_swap1 accepted_def)
  from draw_below_spec [OF b this] False b show ?thesis
    by (auto simp: draw_bound_def draw_outcome_def)
qed

lemma draw_signed_run:
  assumes "1 \<le> bits" and "bits \<le> 32"
  shows "\<exists>s'. draw_signed bits_of bits s = Some (wrap_i32 (raw_bits bits (state s')), s') \<and> state s' = next_seed (state s)"
proof -
  obtain s' b where "bits_of bits s = Some (b, s')" "uint b = raw_bits bits (state s')" "state s' = next_seed (state s)"
    using draw_run [OF assms, of s] by blast
  then show ?thesis by (intro exI [of _ s']) (simp add: draw_signed_def)
qed

lemma draw_long_run:
  "\<exists>s'. draw_long bits_of s = Some (long_at (state s), s') \<and> state s' = next_seed (next_seed (state s))"
proof -
  have bits: "(1 :: nat) \<le> 32" "(32 :: nat) \<le> 32" by simp_all
  obtain s1 where s1: "draw_signed bits_of 32 s = Some (wrap_i32 (raw_bits 32 (state s1)), s1)" "state s1 = next_seed (state s)"
    using draw_signed_run [OF bits, of s] by blast
  obtain s2 where "draw_signed bits_of 32 s1 = Some (wrap_i32 (raw_bits 32 (state s2)), s2)" "state s2 = next_seed (state s1)"
    using draw_signed_run [OF bits, of s1] by blast
  with s1 show ?thesis by (intro exI [of _ s2]) (simp add: draw_long_def long_at_def)
qed

lemma forget_run:
  "\<exists>s'. draw_and_forget bits_of n s = Some s' \<and> state s' = (next_seed ^^ n) (state s)"
proof (induction n arbitrary: s)
  case (Suc n)
  have "(1 :: nat) \<le> 32" "(32 :: nat) \<le> 32" by simp_all
  from draw_signed_run [OF this, of s] obtain s1 v where s1: "draw_signed bits_of 32 s = Some (v, s1)" "state s1 = next_seed (state s)"
    by blast
  from Suc.IH [of s1] show ?case using s1 by (auto simp: funpow_swap1)
qed simp

end

section \<open>Outcomes\<close>

lemma draw_outcome_range:
  assumes "0 < bound" and "0 \<le> b" and "b < 2 ^ 31" and "draw_outcome bound b = Some v"
  shows "0 \<le> v \<and> v < bound"
proof (cases "bound AND (bound - 1) = 0")
  case True
  have "bound * b < bound * 2 ^ 31" using assms by simp
  then have "bound * b div 2 ^ 31 < bound" by (intro int_div_less) (simp_all add: mult.commute)
  then show ?thesis using True assms by (auto simp: draw_outcome_def pos_imp_zdiv_nonneg_iff)
qed (use assms in \<open>auto simp: draw_outcome_def split: if_splits\<close>)

lemma int_div_iff:
  fixes x v d :: int
  assumes "0 < d"
  shows "x div d = v \<longleftrightarrow> v * d \<le> x \<and> x < (v + 1) * d"
proof
  assume "x div d = v"
  then have "v * d + x mod d = x" using div_mult_mod_eq [of x d] by simp
  then show "v * d \<le> x \<and> x < (v + 1) * d"
    using pos_mod_bound [OF assms, of x] pos_mod_sign [OF assms, of x] by (simp add: algebra_simps)
next
  assume "v * d \<le> x \<and> x < (v + 1) * d"
  then show "x div d = v" by (intro int_div_pos_eq [of _ _ _ "x - v * d"]) (simp_all add: algebra_simps)
qed

lemma mult_le_div_iff:
  fixes d n x :: int
  assumes "0 < d"
  shows "d * n \<le> x \<longleftrightarrow> n \<le> x div d"
proof
  assume "d * n \<le> x"
  from zdiv_mono1 [OF this assms] show "n \<le> x div d" using assms by simp
next
  assume "n \<le> x div d"
  then have "d * n \<le> d * (x div d)" using assms by (intro mult_left_mono) simp_all
  also have "\<dots> \<le> x" using assms by (simp add: minus_mod_eq_mult_div [symmetric])
  finally show "d * n \<le> x" .
qed

lemma and_pred_power:
  fixes x :: int
  assumes "0 < x" and "x AND (x - 1) = 0"
  shows "\<exists>k. x = 2 ^ k"
  using assms
proof (induction "nat x" arbitrary: x rule: less_induct)
  case less
  show ?case
  proof (cases "even x")
    case True
    then obtain y where y: "x = 2 * y" by (elim evenE)
    have "(2 * y - 1) div 2 = y - 1" by linarith
    then have "y AND (y - 1) = 0" using less.prems(2) by (simp add: y and_rec [of "2 * y"])
    then obtain k where "y = 2 ^ k" using less.hyps [of y] less.prems(1) y by auto
    then show ?thesis using y by (intro exI [of _ "Suc k"]) simp
  next
    case False
    then obtain y where y: "x = 2 * y + 1" by (elim oddE)
    have "(2 * y + 1) AND (2 * y) = 2 * y" by (simp add: and_rec [of "2 * y + 1"])
    then show ?thesis using less.prems(2) y by (intro exI [of _ 0]) simp
  qed
qed

text \<open>Every value below the bound is the outcome of equally many raw bits.\<close>

lemma outcomes_even:
  assumes b: "0 < bound" "bound < 2 ^ 31" and v: "0 \<le> v" "v < bound"
  shows "card {b \<in> {0..<2 ^ 31}. draw_outcome bound b = Some v} = nat (2 ^ 31 div bound)"
proof (cases "bound AND (bound - 1) = 0")
  case True
  then obtain k where k: "bound = 2 ^ k" using and_pred_power b by blast
  have k31: "k \<le> 30"
  proof (rule ccontr)
    assume "\<not> k \<le> 30"
    then have "(2 :: int) ^ 31 \<le> 2 ^ k" by (intro power_increasing) simp_all
    then show False using b(2) k by simp
  qed
  let ?d = "2 ^ (31 - k) :: int"
  have d: "bound * ?d = 2 ^ 31" unfolding k power_add [symmetric] using k31 by simp
  then have q: "2 ^ 31 div bound = ?d" using b(1) by (metis less_irrefl nonzero_mult_div_cancel_left)
  have "bound * x div 2 ^ 31 = x div ?d" for x using b(1) unfolding d [symmetric] by (simp add: div_mult_mult1)
  then have "{b \<in> {0..<2 ^ 31}. draw_outcome bound b = Some v} = {b \<in> {0..<2 ^ 31}. b div ?d = v}"
    using True by (simp add: draw_outcome_def)
  also have "\<dots> = {v * ?d..<(v + 1) * ?d}"
  proof -
    have "(v + 1) * ?d \<le> 2 ^ 31" unfolding d [symmetric] using v(2) by (intro mult_right_mono) simp_all
    moreover have "0 \<le> v * ?d" using v(1) by simp
    ultimately have "(0 \<le> x \<and> x < 2 ^ 31) \<and> (v * ?d \<le> x \<and> x < (v + 1) * ?d) \<longleftrightarrow> v * ?d \<le> x \<and> x < (v + 1) * ?d" for x
      by linarith
    moreover have "x div ?d = v \<longleftrightarrow> v * ?d \<le> x \<and> x < (v + 1) * ?d" for x by (rule int_div_iff) simp
    ultimately have "x \<in> {0..<2 ^ 31} \<and> x div ?d = v \<longleftrightarrow> x \<in> {v * ?d..<(v + 1) * ?d}" for x
      unfolding atLeastLessThan_iff by simp
    then show ?thesis by (intro set_eqI) (simp only: mem_Collect_eq)
  qed
  finally show ?thesis unfolding q by (simp add: algebra_simps)
next
  case False
  let ?Q = "2 ^ 31 div bound"
  have acc: "accepted bound x \<longleftrightarrow> x div bound < ?Q" if "0 \<le> x" for x
  proof -
    have "accepted bound x \<longleftrightarrow> bound * (x div bound + 1) \<le> 2 ^ 31"
      by (simp add: accepted_def minus_mod_eq_mult_div algebra_simps) linarith
    also have "\<dots> \<longleftrightarrow> x div bound + 1 \<le> ?Q" using b(1) by (intro mult_le_div_iff)
    finally show ?thesis by linarith
  qed
  have "{x \<in> {0..<2 ^ 31}. draw_outcome bound x = Some v} = (\<lambda>q. bound * q + v) ` {0..<?Q}"
  proof (intro equalityI subsetI)
    fix x assume "x \<in> {x \<in> {0..<2 ^ 31}. draw_outcome bound x = Some v}"
    then have x: "0 \<le> x" "accepted bound x" "x mod bound = v" using False by (auto simp: draw_outcome_def split: if_splits)
    from mult_div_mod_eq [of bound x] x(3) have "x = bound * (x div bound) + v" by simp
    moreover have "x div bound \<in> {0..<?Q}" using x(1,2) acc [OF x(1)] b(1) by (simp add: pos_imp_zdiv_nonneg_iff)
    ultimately show "x \<in> (\<lambda>q. bound * q + v) ` {0..<?Q}" by blast
  next
    fix x assume "x \<in> (\<lambda>q. bound * q + v) ` {0..<?Q}"
    then obtain q where q: "x = bound * q + v" "0 \<le> q" "q < ?Q" unfolding image_iff Bex_def atLeastLessThan_iff by blast
    have x: "x div bound = q" "x mod bound = v" "0 \<le> x" using q(1,2) v b(1) by simp_all
    have "bound * (q + 1) \<le> 2 ^ 31" using q(3) by (simp only: mult_le_div_iff [OF b(1)])
    then have "x < 2 ^ 31" using q(1) v(2) by (simp add: algebra_simps)
    then show "x \<in> {x \<in> {0..<2 ^ 31}. draw_outcome bound x = Some v}"
      using False x acc [OF x(3)] q(3) by (simp add: draw_outcome_def)
  qed
  moreover have "inj_on (\<lambda>q. bound * q + v) {0..<?Q}" using b(1) by (intro inj_onI) simp
  ultimately show ?thesis by (simp add: card_image)
qed

section \<open>The two sources\<close>

interpretation simple: bit_source simple_next_bits_raw seed_of
proof
  fix bits :: nat and s :: simple_random
  assume "1 \<le> bits" "bits \<le> 32"
  from simple_bits_run [OF this, of s]
  show "\<exists>s'. simple_next_bits_raw bits s = Some (word_of_int (raw_bits bits (seed_of s')), s') \<and> seed_of s' = next_seed (seed_of s)"
    by blast
qed

abbreviation (input) source_seed :: "worldgen_random \<Rightarrow> int" where "source_seed w \<equiv> seed_of (wr_source w)"

interpretation worldgen: bit_source worldgen_next_bits_raw "\<lambda>w. source_seed w"
proof
  fix bits :: nat and w :: worldgen_random
  assume "1 \<le> bits" "bits \<le> 32"
  from simple_bits_run [OF this, of "wr_source w"]
  obtain s' where "simple_next_bits_raw bits (wr_source w) = Some (word_of_int (raw_bits bits (seed_of s')), s')"
    "seed_of s' = next_seed (source_seed w)" by blast
  then show "\<exists>w'. worldgen_next_bits_raw bits w = Some (word_of_int (raw_bits bits (source_seed w')), w')
      \<and> source_seed w' = next_seed (source_seed w)"
    by (intro exI [of _ "w\<lparr>wr_count := (wr_count w + 1) mod 2 ^ 64, wr_source := s'\<rparr>"])
      (simp add: worldgen_next_bits_raw_def Let_def)
qed

lemma worldgen_seed_set: "source_seed (worldgen_set_seed w seed) = seed_of (simple_random_new seed)"
  by (simp add: worldgen_set_seed_def simple_random_new_def simple_set_seed_def seed_of_def)

lemma worldgen_long_run:
  "\<exists>w'. worldgen_next_long w = Some (long_at (source_seed w), w') \<and> source_seed w' = next_seed (next_seed (source_seed w))"
  unfolding worldgen_next_long_def by (rule worldgen.draw_long_run)

text \<open>The counting source is the plain one with a count.\<close>

definition counted :: "nat \<Rightarrow> ('a \<times> simple_random) option \<Rightarrow> worldgen_random \<Rightarrow> ('a \<times> worldgen_random) option" where
  "counted n r w = map_option (\<lambda>(v, s). (v, w\<lparr>wr_count := (wr_count w + n) mod 2 ^ 64, wr_source := s\<rparr>)) r"

lemma worldgen_bits_counted: "worldgen_next_bits_raw bits w = counted 1 (simple_next_bits_raw bits (wr_source w)) w"
  by (simp add: worldgen_next_bits_raw_def counted_def Let_def)

lemma draw_signed_counted:
  "draw_signed worldgen_next_bits_raw bits w = counted 1 (draw_signed simple_next_bits_raw bits (wr_source w)) w"
  by (cases "simple_next_bits_raw bits (wr_source w)") (auto simp: draw_signed_def worldgen_bits_counted counted_def)

lemma draw_boolean_counted:
  "draw_boolean worldgen_next_bits_raw w = counted 1 (draw_boolean simple_next_bits_raw (wr_source w)) w"
  by (cases "simple_next_bits_raw 1 (wr_source w)") (auto simp: draw_boolean_def worldgen_bits_counted counted_def)

lemma draw_long_counted:
  "draw_long worldgen_next_bits_raw w = counted 2 (draw_long simple_next_bits_raw (wr_source w)) w"
proof (cases "draw_signed simple_next_bits_raw 32 (wr_source w)")
  case (Some r)
  then obtain hi s where hi: "draw_signed simple_next_bits_raw 32 (wr_source w) = Some (hi, s)" by (cases r) auto
  then show ?thesis
    by (cases "draw_signed simple_next_bits_raw 32 s")
      (auto simp: draw_long_def draw_signed_counted counted_def mod_simps)
qed (simp add: draw_long_def draw_signed_counted counted_def)

lemma forget_counted:
  "wr_count w < 2 ^ 64 \<Longrightarrow> draw_and_forget worldgen_next_bits_raw n w =
     map_option (\<lambda>s. w\<lparr>wr_count := (wr_count w + n) mod 2 ^ 64, wr_source := s\<rparr>) (draw_and_forget simple_next_bits_raw n (wr_source w))"
proof (induction n arbitrary: w)
  case (Suc n)
  show ?case
  proof (cases "draw_signed simple_next_bits_raw 32 (wr_source w)")
    case (Some r)
    then obtain v s where v: "draw_signed simple_next_bits_raw 32 (wr_source w) = Some (v, s)" by (cases r) auto
    let ?w = "w\<lparr>wr_count := (wr_count w + 1) mod 2 ^ 64, wr_source := s\<rparr>"
    show ?thesis using Suc.IH [of ?w] v
      by (simp add: draw_signed_counted counted_def mod_simps)
  qed (simp add: draw_signed_counted counted_def)
qed simp

end
