(* ===== verification/GenRandomProperties.thy ===== *)
theory GenRandomProperties imports GenRandomRuns
begin

text \<open>
  Properties of the random source of the terrain generator: bounded draws return and are fair, every
  state comes up, the counting source is the plain one, and derived seeds depend on the place alone.
\<close>

section \<open>Sources and seeds\<close>

lemma simple_bounded_run:
  assumes "0 < bound" and "bound < 2 ^ 31"
  shows "\<exists>k v s'. simple_next_int_bound bound s = Some (v, s') \<and> 0 \<le> v \<and> v < bound
    \<and> seed_of s' = (next_seed ^^ Suc k) (seed_of s) \<and> draw_outcome bound (seed_of s' div 2 ^ 17) = Some v
    \<and> (\<forall>j<k. draw_outcome bound ((next_seed ^^ Suc j) (seed_of s) div 2 ^ 17) = None)"
proof -
  obtain k s' v where r: "draw_bound simple_next_bits_raw bound s = Some (v, s')" "seed_of s' = (next_seed ^^ Suc k) (seed_of s)"
    "draw_outcome bound (raw_bits 31 (seed_of s')) = Some v"
    "\<forall>j<k. draw_outcome bound (raw_bits 31 ((next_seed ^^ Suc j) (seed_of s))) = None"
    using simple.draw_bound_spec [OF assms, of s] by blast
  have "0 \<le> raw_bits 31 (seed_of s')" "raw_bits 31 (seed_of s') < 2 ^ 31"
    using raw_bits_range [of 31 "seed_of s'"] r(2) next_seed_range [of "(next_seed ^^ k) (seed_of s)"] by simp_all
  from draw_outcome_range [OF assms(1) this r(3)] r show ?thesis
    by (intro exI [of _ k] exI [of _ v] exI [of _ s']) (simp add: simple_next_int_bound_def)
qed

text \<open>Two sources in the same state draw the same.\<close>

lemma first_outcome_unique:
  fixes k k' :: nat
  assumes "f k = Some v" and "\<forall>j<k. f j = None" and "f k' = Some v'" and "\<forall>j<k'. f j = None"
  shows "k = k' \<and> v = v'"
  using assms by (metis linorder_neqE_nat option.distinct(1) option.inject)

lemma bounded_agree:
  assumes "0 < bound" and "bound < 2 ^ 31"
  shows "\<exists>v s w'. simple_next_int_bound bound (wr_source w) = Some (v, s) \<and> worldgen_next_int_bound bound w = Some (v, w')
    \<and> sr_seed (wr_source w') = sr_seed s"
proof -
  let ?x = "source_seed w" let ?f = "\<lambda>j. draw_outcome bound (raw_bits 31 ((next_seed ^^ Suc j) ?x))"
  obtain k s v where s: "draw_bound simple_next_bits_raw bound (wr_source w) = Some (v, s)" "seed_of s = (next_seed ^^ Suc k) ?x"
    "draw_outcome bound (raw_bits 31 (seed_of s)) = Some v" "\<forall>j<k. ?f j = None"
    using simple.draw_bound_spec [OF assms, of "wr_source w"] by blast
  obtain k' w' v' where w': "draw_bound worldgen_next_bits_raw bound w = Some (v', w')" "source_seed w' = (next_seed ^^ Suc k') ?x"
    "draw_outcome bound (raw_bits 31 (source_seed w')) = Some v'" "\<forall>j<k'. ?f j = None"
    using worldgen.draw_bound_spec [OF assms, of w] by blast
  have "k = k' \<and> v = v'"
    by (rule first_outcome_unique [of ?f]) (use s(2-4) w'(2-4) in \<open>simp_all only:\<close>)
  then show ?thesis using s(1,2) w'(1,2)
    by (simp add: simple_next_int_bound_def worldgen_next_int_bound_def seed_of_def word_uint_eq_iff)
qed

lemma consume_run: "\<exists>s'. simple_consume_count n s = Some s' \<and> seed_of s' = (next_seed ^^ n) (seed_of s)"
  unfolding simple_consume_count_def by (rule simple.forget_run)

text \<open>The decoration seed, the longest of the derivations that draw.\<close>

definition place_seeded :: "(worldgen_random \<Rightarrow> (int \<times> worldgen_random) option) \<Rightarrow> bool" where
  "place_seeded derive \<longleftrightarrow> (\<exists>seed. \<forall>w. \<exists>w'. derive w = Some (seed, w') \<and> sr_seed (wr_source w') = sr_seed (simple_random_new seed))"

lemma seeded_source: "sr_seed (wr_source (worldgen_set_seed w seed)) = sr_seed (simple_random_new seed)"
  by (simp add: worldgen_set_seed_def simple_random_new_def simple_set_seed_def)

lemma seeded_longs:
  "\<exists>w2. worldgen_next_long (worldgen_set_seed w seed) = Some (long_at (seed_of (simple_random_new seed)), w2)
     \<and> source_seed w2 = next_seed (next_seed (seed_of (simple_random_new seed)))"
  using worldgen_long_run [of "worldgen_set_seed w seed"] by (simp add: worldgen_seed_set)

lemma place_seeded_draws:
  "place_seeded (\<lambda>w. set_decoration_seed w level x z)"
  "place_seeded (\<lambda>w. set_large_feature_seed w level x z)"
  "place_seeded (\<lambda>w. set_base_stone_seed w level x y z)"
proof -
  let ?s0 = "seed_of (simple_random_new level)" let ?s1 = "next_seed (next_seed ?s0)" let ?s2 = "next_seed (next_seed ?s1)"
  have three: "\<exists>w1 w2 w3. worldgen_next_long (worldgen_set_seed w level) = Some (long_at ?s0, w1)
      \<and> worldgen_next_long w1 = Some (long_at ?s1, w2) \<and> worldgen_next_long w2 = Some (long_at ?s2, w3)" for w
    using seeded_longs [of w level] worldgen_long_run by metis
  have "\<exists>w'. set_decoration_seed w level x z = Some (add_i64 (mul_i64 x (long_at ?s0 OR 1)) (mul_i64 z (long_at ?s1 OR 1)) XOR level,
      worldgen_set_seed w' (add_i64 (mul_i64 x (long_at ?s0 OR 1)) (mul_i64 z (long_at ?s1 OR 1)) XOR level))" for w
    using three [of w] by (auto simp: set_decoration_seed_def Let_def)
  then show "place_seeded (\<lambda>w. set_decoration_seed w level x z)"
    unfolding place_seeded_def by (metis seeded_source)
  have "\<exists>w'. set_large_feature_seed w level x z = Some ((mul_i64 x (long_at ?s0) XOR mul_i64 z (long_at ?s1)) XOR level,
      worldgen_set_seed w' ((mul_i64 x (long_at ?s0) XOR mul_i64 z (long_at ?s1)) XOR level))" for w
    using three [of w] by (auto simp: set_large_feature_seed_def Let_def)
  then show "place_seeded (\<lambda>w. set_large_feature_seed w level x z)"
    unfolding place_seeded_def by (metis seeded_source)
  let ?b = "((mul_i64 x (long_at ?s0) XOR mul_i64 y (long_at ?s1)) XOR mul_i64 z (long_at ?s2)) XOR level"
  have "\<exists>w'. set_base_stone_seed w level x y z = Some (?b, worldgen_set_seed w' ?b)" for w
    using three [of w] by (auto simp: set_base_stone_seed_def Let_def)
  then show "place_seeded (\<lambda>w. set_base_stone_seed w level x y z)"
    unfolding place_seeded_def by (metis seeded_source)
qed

section \<open>The properties\<close>

text \<open>C16: bounded draws return and are fair.
  A draw below a positive bound always returns, although it may reject raw bits: it takes the outcome of the first raw 31 bits of the sequence that have one, and every value below the bound is the outcome of equally many of them. A bound that is not positive panics.\<close>
theorem bounded_draw_fair:
  "case simple_next_int_bound bound s of
     None \<Rightarrow> bound \<le> 0 \<or> 2 ^ 31 \<le> bound
   | Some (v, s') \<Rightarrow> 0 < bound \<and> (bound < 2 ^ 31 \<longrightarrow> 0 \<le> v \<and> v < bound
       \<and> (\<exists>k. seed_of s' = (next_seed ^^ Suc k) (seed_of s) \<and> draw_outcome bound (seed_of s' div 2 ^ 17) = Some v
            \<and> (\<forall>j<k. draw_outcome bound ((next_seed ^^ Suc j) (seed_of s) div 2 ^ 17) = None))
       \<and> card {b \<in> {0..<2 ^ 31}. draw_outcome bound b = Some v} = nat (2 ^ 31 div bound))"
proof (cases "0 < bound \<and> bound < 2 ^ 31")
  case True
  then obtain k v s' where r: "simple_next_int_bound bound s = Some (v, s')" "0 \<le> v" "v < bound"
    "seed_of s' = (next_seed ^^ Suc k) (seed_of s)" "draw_outcome bound (seed_of s' div 2 ^ 17) = Some v"
    "\<forall>j<k. draw_outcome bound ((next_seed ^^ Suc j) (seed_of s) div 2 ^ 17) = None"
    using simple_bounded_run [of bound s] by blast
  have "card {b \<in> {0..<2 ^ 31}. draw_outcome bound b = Some v} = nat (2 ^ 31 div bound)"
    by (rule outcomes_even) (use True r in auto)
  with r True show ?thesis by auto
next
  case False
  then show ?thesis by (auto simp: simple_next_int_bound_def draw_bound_def split: option.split)
qed

lemma bounded_draw_fair_witness:
  "\<exists>v s'. simple_next_int_bound 10 (simple_random_new 42) = Some (v, s') \<and> 0 \<le> v \<and> v < 10
     \<and> card {b \<in> {0..<2 ^ 31}. draw_outcome 10 b = Some v} = 214748364"
  using bounded_draw_fair [of 10 "simple_random_new 42"]
  by (cases "simple_next_int_bound 10 (simple_random_new 42)") auto

text \<open>C17: the source runs through all of its states.
  From every state, drawing often enough and forgetting the draws leads to each of the 2 to the 48 seeds.\<close>
theorem every_seed_reached:
  assumes "0 \<le> x" and "x < 2 ^ 48"
  shows "\<exists>n s'. simple_consume_count n s = Some s' \<and> uint (sr_seed s') = x"
proof -
  have "\<exists>n. ((\<lambda>x. (25214903917 * x + 11) mod 2 ^ 48) ^^ n) (next_seed (seed_of s)) = x"
    by (rule lcg_cycle) (use next_seed_range [of "seed_of s"] assms in \<open>simp_all\<close>)
  then obtain n where "(next_seed ^^ n) (next_seed (seed_of s)) = x"
    unfolding next_seed_def [abs_def, symmetric] by blast
  then show ?thesis using consume_run [of "Suc n" s] by (auto simp: funpow_swap1 seed_of_def)
qed

lemma every_seed_reached_witness:
  "\<exists>n s'. simple_consume_count n (simple_random_new 0) = Some s' \<and> uint (sr_seed s') = 281474976710655"
  using every_seed_reached [of 281474976710655 "simple_random_new 0"] by simp

text \<open>The counting source is the plain source.
  Integers, longs, booleans, bounded integers and skipped draws are those of the plain source in the same state, and the count grows by the raw draws they take.\<close>
lemma counting_source_agrees:
  "worldgen_next_int w = counted 1 (simple_next_int (wr_source w)) w
   \<and> worldgen_next_long w = counted 2 (simple_next_long (wr_source w)) w
   \<and> worldgen_next_boolean w = counted 1 (simple_next_boolean (wr_source w)) w
   \<and> (wr_count w < 2 ^ 64 \<longrightarrow> worldgen_consume_count n w =
        map_option (\<lambda>s. w\<lparr>wr_count := (wr_count w + n) mod 2 ^ 64, wr_source := s\<rparr>) (simple_consume_count n (wr_source w)))
   \<and> (0 < bound \<and> bound < 2 ^ 31 \<longrightarrow> (\<exists>v s w'. simple_next_int_bound bound (wr_source w) = Some (v, s)
        \<and> worldgen_next_int_bound bound w = Some (v, w') \<and> sr_seed (wr_source w') = sr_seed s))"
  using bounded_agree [of bound w] forget_counted [of w n]
  by (simp add: worldgen_next_int_def simple_next_int_def worldgen_next_long_def simple_next_long_def worldgen_next_boolean_def
      simple_next_boolean_def worldgen_consume_count_def simple_consume_count_def draw_signed_counted draw_long_counted
      draw_boolean_counted)

lemma counting_source_agrees_at_input:
  "\<exists>v s w'. simple_next_int_bound 6 (simple_random_new 7) = Some (v, s)
     \<and> worldgen_next_int_bound 6 (worldgen_random_new 7) = Some (v, w') \<and> sr_seed (wr_source w') = sr_seed s"
  using counting_source_agrees [of "worldgen_random_new 7" 0 6] by (simp add: worldgen_random_new_def)

text \<open>Derived seeds depend on the place alone.
  Whatever was drawn before, deriving the seed of a chunk, a decoration, a feature or a region always succeeds, gives the same seed for the same world seed and place, and leaves the source as if fresh from that seed.\<close>
lemma seeds_depend_on_place:
  "place_seeded (\<lambda>w. set_decoration_seed w level x z)
   \<and> place_seeded (\<lambda>w. set_large_feature_seed w level x z)
   \<and> place_seeded (\<lambda>w. set_base_stone_seed w level x y z)
   \<and> place_seeded (\<lambda>w. Some (set_base_chunk_seed w x z))
   \<and> place_seeded (\<lambda>w. Some (set_feature_seed w level index decoration_step))
   \<and> place_seeded (\<lambda>w. Some (set_large_feature_with_salt w level x z salt))"
  using place_seeded_draws
  by (auto simp: place_seeded_def set_base_chunk_seed_def set_feature_seed_def set_large_feature_with_salt_def Let_def seeded_source)

text \<open>Seeds have 48 bits and draws fit their type, for any seed and any bound.\<close>
lemma draws_well_typed:
  "uint (sr_seed (simple_set_seed s seed)) < 2 ^ 48
   \<and> (\<exists>v s'. simple_next_int s = Some (v, s') \<and> in_i32 v \<and> uint (sr_seed s') < 2 ^ 48)
   \<and> (\<exists>v s'. simple_next_long s = Some (v, s') \<and> in_i64 v \<and> uint (sr_seed s') < 2 ^ 48)
   \<and> (\<exists>v s'. simple_next_boolean s = Some (v, s') \<and> uint (sr_seed s') < 2 ^ 48)"
proof -
  have small: "uint (sr_seed s') < 2 ^ 48" if "seed_of s' = next_seed x" for s' x
    using that next_seed_range(2) [of x] by (simp add: seed_of_def)
  have set: "uint (sr_seed (simple_set_seed s seed)) < 2 ^ 48" by (simp add: simple_set_seed_def uint_masked)
  have bits: "(1 :: nat) \<le> 32" "(32 :: nat) \<le> 32" "(1 :: nat) \<le> 1" by simp_all
  obtain v s' where int: "draw_signed simple_next_bits_raw 32 s = Some (wrap_i32 v, s')" "seed_of s' = next_seed (seed_of s)"
    using simple.draw_signed_run [OF bits(1,2), of s] by blast
  obtain v' s'' where long: "draw_long simple_next_bits_raw s = Some (long_at v', s'')" "seed_of s'' = next_seed (next_seed (seed_of s))"
    using simple.draw_long_run [of s] by blast
  obtain b s3 where bool: "simple_next_bits_raw 1 s = Some (b, s3)" "seed_of s3 = next_seed (seed_of s)"
    using simple.draw_run [OF bits(3,1), of s] by blast
  show ?thesis using set int(1) long(1) bool(1) small [OF int(2)] small [OF long(2)] small [OF bool(2)]
    by (auto simp: simple_next_int_def simple_next_long_def simple_next_boolean_def draw_boolean_def long_at_def
        next_long_from_parts_def)
qed

end
