(* ===== verification/FloatBits.thy ===== *)
theory FloatBits imports Prelude
begin

text \<open>
  Floating point by its bits.  An \<open>f32\<close> is the word that \<open>to_bits\<close> gives; its operations are the IEEE ones that the
  code gets from the hardware, rounded to nearest, ties to even, written over the integers.  Every finite \<open>f32\<close>
  is a multiple of \<open>2 ^ -149\<close>, so a magnitude is a natural in these units.  The bits of a NaN that an operation
  yields are unspecified in the language; here they are those of the quiet NaN.
\<close>

section \<open>Classes and order\<close>

definition f64_is_finite :: "u64 \<Rightarrow> bool" where
  "f64_is_finite b \<longleftrightarrow> drop_bit 52 b AND 0x7FF \<noteq> 0x7FF"

definition f32_is_finite :: "u32 \<Rightarrow> bool" where
  "f32_is_finite b \<longleftrightarrow> drop_bit 23 b AND 0xFF \<noteq> 0xFF"

definition f32_is_nan :: "u32 \<Rightarrow> bool" where
  "f32_is_nan b \<longleftrightarrow> \<not> f32_is_finite b \<and> b AND 0x7FFFFF \<noteq> 0"

text \<open>Sign and magnitude order the values that are not NaN.\<close>

definition f32_order :: "u32 \<Rightarrow> int" where
  "f32_order b = (if bit b 31 then - uint (b AND 0x7FFFFFFF) else uint (b AND 0x7FFFFFFF))"

definition f32_le :: "u32 \<Rightarrow> u32 \<Rightarrow> bool" where
  "f32_le a b \<longleftrightarrow> \<not> f32_is_nan a \<and> \<not> f32_is_nan b \<and> f32_order a \<le> f32_order b"

definition f32_lt :: "u32 \<Rightarrow> u32 \<Rightarrow> bool" where
  "f32_lt a b \<longleftrightarrow> \<not> f32_is_nan a \<and> \<not> f32_is_nan b \<and> f32_order a < f32_order b"

section \<open>Magnitudes\<close>

text \<open>
  Sums of squares in \<open>f32\<close>, rounded to nearest, ties to even, at every step.  A magnitude is a natural in
  units of \<open>2 ^ -149\<close>; infinity is \<open>None\<close>.
\<close>

definition f32_magnitude :: "u32 \<Rightarrow> nat" where
  "f32_magnitude b = (let e = unat (drop_bit 23 b AND 0xFF); m = unat (b AND 0x7FFFFF) in
     if e = 0 then m else (2 ^ 23 + m) * 2 ^ (e - 1))"

fun bit_length :: "nat \<Rightarrow> nat" where
  "bit_length n = (if n = 0 then 0 else Suc (bit_length (n div 2)))"

declare bit_length.simps [simp del]

definition round_half_even :: "nat \<Rightarrow> nat \<Rightarrow> nat" where
  "round_half_even p k = (let q = p div 2 ^ k; r = p mod 2 ^ k in
     if 2 ^ k < 2 * r \<or> 2 ^ k = 2 * r \<and> odd q then q + 1 else q)"

text \<open>Round \<open>p\<close>, in units of \<open>2 ^ -(149 + shift)\<close>, to 24 bits and at least one unit of \<open>2 ^ -149\<close>.\<close>

definition f32_round :: "nat \<Rightarrow> nat \<Rightarrow> nat option" where
  "f32_round shift p = (let k = max shift (bit_length p - 24); v = round_half_even p k * 2 ^ (k - shift) in
     if v < 2 ^ 277 then Some v else None)"

definition f32_square :: "u32 \<Rightarrow> nat option" where
  "f32_square b = f32_round 149 (f32_magnitude b * f32_magnitude b)"

definition f32_sum :: "nat option \<Rightarrow> nat option \<Rightarrow> nat option" where
  "f32_sum x y = (case (x, y) of (Some a, Some b) \<Rightarrow> f32_round 0 (a + b) | _ \<Rightarrow> None)"

abbreviation (input) f32_epsilon :: nat where "f32_epsilon \<equiv> 2 ^ 126"

section \<open>Arithmetic\<close>

abbreviation (input) f32_nan :: u32 where "f32_nan \<equiv> 0x7FC00000"
abbreviation (input) f32_infinity :: u32 where "f32_infinity \<equiv> 0x7F800000"

definition f32_is_infinite :: "u32 \<Rightarrow> bool" where
  "f32_is_infinite b \<longleftrightarrow> b AND 0x7FFFFFFF = f32_infinity"

text \<open>The bits of a sign and a magnitude of at most 24 significant bits.\<close>

definition f32_encode :: "bool \<Rightarrow> nat option \<Rightarrow> u32" where
  "f32_encode negative m = (if negative then 0x80000000 else 0) OR (case m of
       None \<Rightarrow> f32_infinity
     | Some v \<Rightarrow> if v < 2 ^ 23 then of_nat v
         else let e = bit_length v - 24 in push_bit 23 (of_nat (e + 1)) OR of_nat (v div 2 ^ e - 2 ^ 23))"

definition f32_signed :: "u32 \<Rightarrow> int" where
  "f32_signed b = (if bit b 31 then - int (f32_magnitude b) else int (f32_magnitude b))"

definition f32_add :: "u32 \<Rightarrow> u32 \<Rightarrow> u32" where
  "f32_add a b =
     (if f32_is_nan a \<or> f32_is_nan b then f32_nan
      else if f32_is_infinite a then (if f32_is_infinite b \<and> bit a 31 \<noteq> bit b 31 then f32_nan else a)
      else if f32_is_infinite b then b
      else let s = f32_signed a + f32_signed b in
        if s = 0 then (if bit a 31 \<and> bit b 31 then 0x80000000 else 0)
        else f32_encode (s < 0) (f32_round 0 (nat \<bar>s\<bar>)))"

definition f32_mul :: "u32 \<Rightarrow> u32 \<Rightarrow> u32" where
  "f32_mul a b =
     (let negative = (bit a 31 \<noteq> bit b 31) in
      if f32_is_nan a \<or> f32_is_nan b then f32_nan
      else if f32_is_infinite a \<or> f32_is_infinite b
      then (if f32_is_finite a \<and> f32_magnitude a = 0 \<or> f32_is_finite b \<and> f32_magnitude b = 0 then f32_nan
            else f32_encode negative None)
      else f32_encode negative (f32_round 149 (f32_magnitude a * f32_magnitude b)))"

fun nat_sqrt :: "nat \<Rightarrow> nat" where
  "nat_sqrt n = (if n = 0 then 0 else let s = 2 * nat_sqrt (n div 4) in if (s + 1) * (s + 1) \<le> n then s + 1 else s)"

declare nat_sqrt.simps [simp del]

text \<open>
  The integer root of the magnitude, scaled to at least 75 bits, and one more bit that says whether it is exact:
  rounding to 24 bits cannot tell this from the real root.
\<close>

definition f32_sqrt :: "u32 \<Rightarrow> u32" where
  "f32_sqrt a =
     (if f32_is_nan a then f32_nan
      else if f32_is_finite a \<and> f32_magnitude a = 0 then a
      else if bit a 31 then f32_nan
      else if f32_is_infinite a then a
      else let n = f32_magnitude a * 2 ^ 149; r = nat_sqrt n in
        f32_encode False (f32_round 1 (2 * r + (if r * r = n then 0 else 1))))"

definition f32_from_i32 :: "int \<Rightarrow> u32" where
  "f32_from_i32 i = (if i = 0 then 0 else f32_encode (i < 0) (f32_round 0 (nat \<bar>i\<bar> * 2 ^ 149)))"

text \<open>\<open>total_cmp\<close> orders all bit patterns, NaNs and both zeros included.\<close>

definition f32_total_key :: "u32 \<Rightarrow> int" where
  "f32_total_key b = (if bit b 31 then - uint (b AND 0x7FFFFFFF) - 1 else uint b)"

section \<open>What the proofs need\<close>

lemma nat_sqrt_spec: "nat_sqrt n * nat_sqrt n \<le> n \<and> n < Suc (nat_sqrt n) * Suc (nat_sqrt n)"
proof (induction n rule: nat_sqrt.induct)
  case (1 n)
  show ?case
  proof (cases "n = 0")
    case True then show ?thesis by (simp add: nat_sqrt.simps)
  next
    case False
    define r where "r = nat_sqrt (n div 4)"
    have ih: "r * r \<le> n div 4" "n div 4 < Suc r * Suc r" using 1 False by (simp_all add: r_def)
    have low: "2 * r * (2 * r) \<le> n" using ih(1) by linarith
    have high: "n < (2 * r + 2) * (2 * r + 2)"
    proof -
      have "n < 4 * (Suc r * Suc r)" using ih(2) by linarith
      then show ?thesis by (simp add: algebra_simps)
    qed
    show ?thesis
      using low high False by (subst (1 2 3 4) nat_sqrt.simps) (simp add: Let_def r_def [symmetric])
  qed
qed

lemma f32_lt_irrefl [simp]: "\<not> f32_lt x x"
  by (simp add: f32_lt_def)

end
