(* ===== verification/ProtocolBytes.thy ===== *)
theory ProtocolBytes imports FloatBits
begin

text \<open>
  The byte cursor of the wire protocol: \<open>ByteWriter\<close> and \<open>ByteReader\<close> in
  \<open>native/crates/mclone-protocol/src/lib.rs\<close> and their twins \<open>EphemeralWriter\<close> and \<open>EphemeralReader\<close> in
  \<open>ephemeral.rs\<close>.

  A writer only appends, so writing a value is the list of bytes it appends.  A reader keeps a slice and an
  offset, of which only the bytes from the offset on matter: a reader is a function from the remaining bytes to
  an error or a value with the bytes that remain then.  Unsigned words are words, \<open>i32\<close> and \<open>i64\<close> are
  integers, a float is its bit pattern, which is what \<open>to_le_bytes\<close> writes; a \<open>str\<close> is its UTF-8 bytes.
\<close>

section \<open>Errors and readers\<close>

datatype codec_error =
    UnexpectedEof nat nat
  | TrailingBytes nat
  | UnknownClientCommandTag u8
  | UnknownServerUpdateTag u8
  | UnknownChunkStatus u8
  | UnknownDirection u8
  | UnknownEntityKind u8
  | UnknownItemKind u8
  | UnknownInteractionHand u8
  | UnknownPlayerModelKind u8
  | UnknownPlayerActionKind u8
  | LengthOverflow string nat
  | InvalidData string

type_synonym bytes = "u8 list"
type_synonym 'a reader = "bytes \<Rightarrow> codec_error + ('a \<times> bytes)"

definition yield :: "'a \<Rightarrow> 'a reader" where
  "yield x bs = Inr (x, bs)"

definition refuse :: "codec_error \<Rightarrow> 'a reader" where
  "refuse e bs = Inl e"

text \<open>\<open>reading r (\<lambda>x. s)\<close> is \<open>let x = r?; s\<close>, \<open>ensuring v s\<close> is \<open>v?; s\<close>.\<close>

definition reading :: "'a reader \<Rightarrow> ('a \<Rightarrow> 'b reader) \<Rightarrow> 'b reader" where
  "reading r f bs = (case r bs of Inl e \<Rightarrow> Inl e | Inr (x, rest) \<Rightarrow> f x rest)"

definition ensuring :: "codec_error + unit \<Rightarrow> 'b reader \<Rightarrow> 'b reader" where
  "ensuring v r bs = (case v of Inl e \<Rightarrow> Inl e | Inr _ \<Rightarrow> r bs)"

text \<open>\<open>attempt v (\<lambda>x. s)\<close> is \<open>let x = v?; s\<close> for a result that reads nothing.\<close>

definition attempt :: "codec_error + 'a \<Rightarrow> ('a \<Rightarrow> 'b reader) \<Rightarrow> 'b reader" where
  "attempt v f bs = (case v of Inl e \<Rightarrow> Inl e | Inr x \<Rightarrow> f x bs)"

text \<open>Validations: \<open>if !b { return Err(e) }\<close>, and one check after another.\<close>

definition require :: "bool \<Rightarrow> string \<Rightarrow> codec_error + unit" where
  "require b message = (if b then Inr () else Inl (InvalidData message))"

fun checks :: "(codec_error + unit) list \<Rightarrow> codec_error + unit" where
  "checks [] = Inr ()"
| "checks (c # cs) = (case c of Inl e \<Rightarrow> Inl e | Inr _ \<Rightarrow> checks cs)"

lemma require_ok [simp]: "require b message = Inr () \<longleftrightarrow> b"
  by (simp add: require_def)

lemma checks_single [simp]: "checks [c] = c"
  by (cases c) auto

lemma checks_ok [simp]: "checks (c # cs) = Inr () \<longleftrightarrow> c = Inr () \<and> checks cs = Inr ()"
  by (cases c) auto

declare checks.simps(2) [simp del]

definition finish :: "bytes \<Rightarrow> codec_error + unit" where
  "finish bs = (if length bs = 0 then Inr () else Inl (TrailingBytes (length bs)))"

text \<open>A whole payload: read a value, then nothing may be left.\<close>

definition decode_all :: "'a reader \<Rightarrow> bytes \<Rightarrow> codec_error + 'a" where
  "decode_all r bs = (case r bs of Inl e \<Rightarrow> Inl e
     | Inr (x, rest) \<Rightarrow> case finish rest of Inl e \<Rightarrow> Inl e | Inr _ \<Rightarrow> Inr x)"

definition read_exact :: "nat \<Rightarrow> bytes reader" where
  "read_exact n bs = (if length bs < n then Inl (UnexpectedEof n (length bs)) else Inr (take n bs, drop n bs))"

definition read_remaining :: "bytes reader" where
  "read_remaining bs = Inr (bs, [])"

section \<open>Little-endian integers\<close>

fun to_le :: "nat \<Rightarrow> nat \<Rightarrow> bytes" where
  "to_le 0 v = []"
| "to_le (Suc n) v = of_nat (v mod 256) # to_le n (v div 256)"

fun from_le :: "bytes \<Rightarrow> nat" where
  "from_le [] = 0"
| "from_le (b # bs) = unat b + 256 * from_le bs"

definition write_u8 :: "u8 \<Rightarrow> bytes" where "write_u8 v = [v]"
definition write_u16 :: "16 word \<Rightarrow> bytes" where "write_u16 v = to_le 2 (unat v)"
definition write_u32 :: "u32 \<Rightarrow> bytes" where "write_u32 v = to_le 4 (unat v)"
definition write_u64 :: "u64 \<Rightarrow> bytes" where "write_u64 v = to_le 8 (unat v)"
definition write_i32 :: "int \<Rightarrow> bytes" where "write_i32 v = to_le 4 (unat (word_of_int v :: u32))"
definition write_i64 :: "int \<Rightarrow> bytes" where "write_i64 v = to_le 8 (unat (word_of_int v :: u64))"
definition write_bool :: "bool \<Rightarrow> bytes" where "write_bool v = write_u8 (if v then 1 else 0)"
definition write_f32 :: "u32 \<Rightarrow> bytes" where "write_f32 v = to_le 4 (unat v)"
definition write_f64 :: "u64 \<Rightarrow> bytes" where "write_f64 v = to_le 8 (unat v)"

definition read_u8 :: "u8 reader" where
  "read_u8 = reading (read_exact 1) (\<lambda>bs. yield (hd bs))"

definition read_u16 :: "16 word reader" where
  "read_u16 = reading (read_exact 2) (\<lambda>bs. yield (of_nat (from_le bs)))"

definition read_u32 :: "u32 reader" where
  "read_u32 = reading (read_exact 4) (\<lambda>bs. yield (of_nat (from_le bs)))"

definition read_u64 :: "u64 reader" where
  "read_u64 = reading (read_exact 8) (\<lambda>bs. yield (of_nat (from_le bs)))"

definition read_i32 :: "int reader" where
  "read_i32 = reading (read_exact 4) (\<lambda>bs. yield (sint (of_nat (from_le bs) :: u32)))"

definition read_i64 :: "int reader" where
  "read_i64 = reading (read_exact 8) (\<lambda>bs. yield (sint (of_nat (from_le bs) :: u64)))"

definition read_f32 :: "u32 reader" where
  "read_f32 = reading (read_exact 4) (\<lambda>bs. yield (of_nat (from_le bs)))"

definition read_f64 :: "u64 reader" where
  "read_f64 = reading (read_exact 8) (\<lambda>bs. yield (of_nat (from_le bs)))"

definition read_bool :: "bool reader" where
  "read_bool = reading read_u8 (\<lambda>b.
     if b = 0 then yield False else if b = 1 then yield True
     else refuse (InvalidData ''boolean value must be 0 or 1''))"

section \<open>Lengths, lists and strings\<close>

definition write_len :: "string \<Rightarrow> nat \<Rightarrow> codec_error + bytes" where
  "write_len field len = (if len < 2 ^ 32 then Inr (write_u32 (of_nat len)) else Inl (LengthOverflow field len))"

definition read_len :: "nat reader" where
  "read_len = reading read_u32 (\<lambda>len. yield (unat len))"

text \<open>Writing one thing after another, when either can fail.\<close>

definition write_then :: "codec_error + bytes \<Rightarrow> codec_error + bytes \<Rightarrow> codec_error + bytes" where
  "write_then r s = (case r of Inl e \<Rightarrow> Inl e | Inr bs \<Rightarrow> case s of Inl e \<Rightarrow> Inl e | Inr cs \<Rightarrow> Inr (bs @ cs))"

fun write_each :: "('a \<Rightarrow> codec_error + bytes) \<Rightarrow> 'a list \<Rightarrow> codec_error + bytes" where
  "write_each w [] = Inr []"
| "write_each w (x # xs) = write_then (w x) (write_each w xs)"

text \<open>\<open>(0..n).map(|_| read()).collect()\<close> stops at the first error.\<close>

fun read_many :: "'a reader \<Rightarrow> nat \<Rightarrow> 'a list reader" where
  "read_many r 0 = yield []"
| "read_many r (Suc n) = reading r (\<lambda>x. reading (read_many r n) (\<lambda>xs. yield (x # xs)))"

text \<open>\<open>std::str::from_utf8\<close>: the well-formed byte sequences of the Unicode standard.\<close>

definition continuation :: "u8 \<Rightarrow> bool" where
  "continuation b \<longleftrightarrow> 0x80 \<le> b \<and> b \<le> 0xBF"

fun valid_utf8 :: "bytes \<Rightarrow> bool" where
  "valid_utf8 [] \<longleftrightarrow> True"
| "valid_utf8 (a # bs) \<longleftrightarrow>
     (if a < 0x80 then valid_utf8 bs
      else if 0xC2 \<le> a \<and> a \<le> 0xDF then
        (case bs of b # bs \<Rightarrow> continuation b \<and> valid_utf8 bs | [] \<Rightarrow> False)
      else if 0xE0 \<le> a \<and> a \<le> 0xEF then
        (case bs of b # c # bs \<Rightarrow> continuation b \<and> (a = 0xE0 \<longrightarrow> 0xA0 \<le> b) \<and> (a = 0xED \<longrightarrow> b \<le> 0x9F)
           \<and> continuation c \<and> valid_utf8 bs | _ \<Rightarrow> False)
      else if 0xF0 \<le> a \<and> a \<le> 0xF4 then
        (case bs of b # c # d # bs \<Rightarrow> continuation b \<and> (a = 0xF0 \<longrightarrow> 0x90 \<le> b) \<and> (a = 0xF4 \<longrightarrow> b \<le> 0x8F)
           \<and> continuation c \<and> continuation d \<and> valid_utf8 bs | _ \<Rightarrow> False)
      else False)"

definition write_string :: "string \<Rightarrow> bytes \<Rightarrow> codec_error + bytes" where
  "write_string field s = write_then (write_len field (length s)) (Inr s)"

definition read_string :: "string \<Rightarrow> nat \<Rightarrow> bytes reader" where
  "read_string field max_bytes = reading read_len (\<lambda>len.
     if max_bytes < len
     then refuse (InvalidData (if field = ''disconnect detail'' then ''disconnect detail exceeds the protocol maximum''
                               else ''protocol string exceeds its maximum''))
     else reading (read_exact len) (\<lambda>s.
       if valid_utf8 s then yield s else refuse (InvalidData ''protocol string is not UTF-8'')))"

section \<open>Tagged choices\<close>

text \<open>A \<open>match\<close> on a tag byte, as the list of its arms.\<close>

definition read_tagged :: "(u8 \<times> 'a) list \<Rightarrow> (u8 \<Rightarrow> codec_error) \<Rightarrow> 'a reader" where
  "read_tagged arms unknown = reading read_u8 (\<lambda>tag.
     case map_of arms tag of Some x \<Rightarrow> yield x | None \<Rightarrow> refuse (unknown tag))"

text \<open>\<open>write_bool(x.is_some())\<close> and then the value, or \<open>read_bool\<close> and then the value.\<close>

definition write_optional :: "('a \<Rightarrow> bytes) \<Rightarrow> 'a option \<Rightarrow> bytes" where
  "write_optional w x = (case x of None \<Rightarrow> write_bool False | Some y \<Rightarrow> write_bool True @ w y)"

definition read_optional :: "'a reader \<Rightarrow> 'a option reader" where
  "read_optional r = reading read_bool (\<lambda>present.
     if present then reading r (\<lambda>x. yield (Some x)) else yield None)"

section \<open>What a reader accepts\<close>

named_theorems reads \<open>what a reader accepts, as an equivalence\<close>
named_theorems tag_simps \<open>the tags of the choices\<close>

lemma yield_reads [reads]: "yield x bs = Inr (y, rest) \<longleftrightarrow> y = x \<and> rest = bs"
  by (auto simp: yield_def)

lemma refuse_reads [reads]: "refuse e bs = Inr (y, rest) \<longleftrightarrow> False"
  by (simp add: refuse_def)

lemma reading_reads [reads]: "reading r f bs = Inr (y, rest) \<longleftrightarrow> (\<exists>x mid. r bs = Inr (x, mid) \<and> f x mid = Inr (y, rest))"
  by (auto simp: reading_def split: sum.splits prod.splits)

lemma ensuring_reads [reads]: "ensuring v r bs = Inr (y, rest) \<longleftrightarrow> v = Inr () \<and> r bs = Inr (y, rest)"
  by (auto simp: ensuring_def split: sum.splits)

lemma if_reads [reads]:
  "(if b then r else s) bs = Inr (y, rest) \<longleftrightarrow> b \<and> r bs = Inr (y, rest) \<or> \<not> b \<and> s bs = Inr (y, rest)"
  by simp

lemma option_reads [reads]: "(case m of None \<Rightarrow> r | Some x \<Rightarrow> f x) bs = Inr (y, rest) \<longleftrightarrow>
    m = None \<and> r bs = Inr (y, rest) \<or> (\<exists>x. m = Some x \<and> f x bs = Inr (y, rest))"
  by (cases m) simp_all

lemma let_reads [reads]: "(let v = a in f v) bs = Inr (y, rest) \<longleftrightarrow> f a bs = Inr (y, rest)"
  by (simp add: Let_def)

lemma attempt_reads [reads]: "attempt v f bs = Inr (y, rest) \<longleftrightarrow> (\<exists>x. v = Inr x \<and> f x bs = Inr (y, rest))"
  by (auto simp: attempt_def split: sum.splits)

lemma finish_ok [simp]: "finish bs = Inr () \<longleftrightarrow> bs = []"
  by (simp add: finish_def)

lemma decode_all_iff: "decode_all r bs = Inr x \<longleftrightarrow> r bs = Inr (x, [])"
  by (auto simp: decode_all_def finish_def split: sum.splits prod.splits)

lemma read_exact_reads [reads]: "read_exact n bs = Inr (x, rest) \<longleftrightarrow> length x = n \<and> bs = x @ rest"
  by (auto simp: read_exact_def)

text \<open>
  The interface of a reader with the encodings it accepts: it accepts exactly the inputs that start with one
  of a value's encodings and leaves the rest.  What follows for every such reader: encodings are free of
  prefixes, so a message that is cut short is refused and no input has two readings.
\<close>

locale codec =
  fixes read :: "'a reader"
    and encodes :: "'a \<Rightarrow> bytes \<Rightarrow> bool"
  assumes reads_encodings: "read bs = Inr (x, rest) \<longleftrightarrow> (\<exists>w. encodes x w \<and> bs = w @ rest)"
begin

lemma reads_back: "encodes x w \<Longrightarrow> read (w @ rest) = Inr (x, rest)"
  using reads_encodings by blast

lemma reads_all: "encodes x w \<Longrightarrow> read w = Inr (x, [])"
  using reads_back [of x w "[]"] by simp

lemma prefix_free: "encodes x w \<Longrightarrow> encodes y (w @ v) \<Longrightarrow> v = [] \<and> x = y"
  using reads_back [of x w v] reads_all [of y "w @ v"] by simp

lemma one_reading: "encodes x w \<Longrightarrow> encodes y w \<Longrightarrow> x = y"
  using prefix_free [of x w y "[]"] by simp

lemma truncated_refused:
  assumes "encodes x (w @ v)" and "v \<noteq> []"
  shows "\<exists>e. read w = Inl e"
proof (cases "read w")
  case (Inr p)
  then obtain y rest where "read w = Inr (y, rest)" by (cases p) simp
  then obtain u where "encodes y u" "w = u @ rest" using reads_encodings by blast
  then have "rest @ v = []" using prefix_free [of y u x "rest @ v"] assms(1) by simp
  then show ?thesis using assms(2) by simp
qed simp

lemma many_reads:
  "read_many read n bs = Inr (xs, rest) \<longleftrightarrow> length xs = n \<and> (\<exists>ws. list_all2 encodes xs ws \<and> bs = concat ws @ rest)"
proof (induction n arbitrary: bs xs rest)
  case (Suc n)
  show ?case
  proof (cases xs)
    case (Cons x ys)
    have cons: "(\<exists>ws. list_all2 encodes xs ws \<and> P ws) \<longleftrightarrow> (\<exists>z zs. encodes x z \<and> list_all2 encodes ys zs \<and> P (z # zs))" for P
      by (auto simp: Cons list_all2_Cons1)
    have "read_many read (Suc n) bs = Inr (xs, rest)
        \<longleftrightarrow> (\<exists>w ws. encodes x w \<and> length ys = n \<and> list_all2 encodes ys ws \<and> bs = w @ concat ws @ rest)"
      unfolding Cons read_many.simps reads reads_encodings Suc.IH by blast
    also have "\<dots> \<longleftrightarrow> length xs = Suc n \<and> (\<exists>ws. list_all2 encodes xs ws \<and> bs = concat ws @ rest)"
      using cons [of "\<lambda>ws. bs = concat ws @ rest"] by (auto simp: Cons)
    finally show ?thesis .
  qed (simp add: reads)
qed (auto simp: reads)

end

text \<open>A codec with one encoding for each value it can carry.\<close>

locale exact_codec =
  fixes wr :: "'a \<Rightarrow> bytes" and read :: "'a reader" and fits :: "'a \<Rightarrow> bool"
  assumes exact: "read bs = Inr (x, rest) \<longleftrightarrow> fits x \<and> bs = wr x @ rest"
begin

lemma many_exact:
  "read_many read n bs = Inr (xs, rest) \<longleftrightarrow> length xs = n \<and> list_all fits xs \<and> bs = concat (map wr xs) @ rest"
proof (induction n arbitrary: bs xs rest)
  case (Suc n)
  show ?case by (cases xs) (auto simp: reads exact Suc.IH)
qed (auto simp: reads)

end

sublocale exact_codec < single: codec read "\<lambda>x w. fits x \<and> w = wr x"
  by unfold_locales (auto simp: exact)

section \<open>The integers\<close>

lemma length_to_le [simp]: "length (to_le n v) = n"
  by (induction n arbitrary: v) simp_all

lemma unat_u8_less: "unat (b :: u8) < 256"
  using unsigned_less [of b, where ?'a = nat] by simp

lemma from_le_less: "from_le bs < 256 ^ length bs"
proof (induction bs)
  case (Cons b bs)
  have "unat b < 256" by (rule unat_u8_less)
  then show ?case using Cons.IH by simp
qed simp

lemma from_to_le: "from_le (to_le n v) = v mod 256 ^ n"
proof (induction n arbitrary: v)
  case (Suc n)
  have "v mod 256 ^ Suc n = v mod 256 + 256 * (v div 256 mod 256 ^ n)"
    by (simp add: mod_mult2_eq mult.commute)
  then show ?case using Suc.IH by (simp add: unat_of_nat)
qed simp

lemma to_from_le: "to_le (length bs) (from_le bs) = bs"
proof (induction bs)
  case (Cons b bs)
  have "unat b < 256" by (rule unat_u8_less)
  then show ?case using Cons.IH by (simp add: mod_mult_self2)
qed simp

lemma to_le_reads:
  assumes "length bs = n"
  shows "bs = to_le n v \<longleftrightarrow> from_le bs = v mod 256 ^ n"
proof
  assume "from_le bs = v mod 256 ^ n"
  moreover have "to_le n v = to_le n (v mod 256 ^ n)" using to_from_le [of "to_le n v"] by (simp add: from_to_le)
  ultimately show "bs = to_le n v" using to_from_le [of bs] assms by simp
qed (simp add: from_to_le)

text \<open>A word of \<open>n\<close> bytes and its little-endian encoding.\<close>

lemma word_le_exact:
  fixes w :: "'a::len word"
  assumes "LENGTH('a) = 8 * n"
  shows "(\<exists>bs. length bs = n \<and> input = bs @ rest \<and> w = of_nat (from_le bs)) \<longleftrightarrow> input = to_le n (unat w) @ rest"
proof -
  have size: "256 ^ n = (2::nat) ^ LENGTH('a)" unfolding assms by (simp add: power_mult)
  have "w = of_nat (from_le bs) \<longleftrightarrow> bs = to_le n (unat w)" if "length bs = n" for bs
  proof -
    have lt: "from_le bs < 2 ^ LENGTH('a)" using from_le_less [of bs] that size by simp
    have "unat (of_nat (from_le bs) :: 'a word) = from_le bs" "of_nat (unat w) = w"
      using lt by (simp_all add: unsigned_of_nat take_bit_nat_eq_self)
    then have "w = of_nat (from_le bs) \<longleftrightarrow> from_le bs = unat w" by metis
    moreover have "unat w < 2 ^ LENGTH('a)" by (rule unsigned_less)
    ultimately show ?thesis using to_le_reads [OF that, of "unat w"] size by simp
  qed
  then show ?thesis by auto
qed

lemma u8_exact [reads]: "read_u8 bs = Inr (v, rest) \<longleftrightarrow> bs = write_u8 v @ rest"
  by (auto simp: read_u8_def write_u8_def reads length_Suc_conv)

lemma u16_exact [reads]: "read_u16 bs = Inr (v, rest) \<longleftrightarrow> bs = write_u16 v @ rest"
  using word_le_exact [of 2 bs rest v] by (auto simp: read_u16_def write_u16_def reads)

lemma u32_exact [reads]: "read_u32 bs = Inr (v, rest) \<longleftrightarrow> bs = write_u32 v @ rest"
  using word_le_exact [of 4 bs rest v] by (auto simp: read_u32_def write_u32_def reads)

lemma u64_exact [reads]: "read_u64 bs = Inr (v, rest) \<longleftrightarrow> bs = write_u64 v @ rest"
  using word_le_exact [of 8 bs rest v] by (auto simp: read_u64_def write_u64_def reads)

lemma f32_exact [reads]: "read_f32 bs = Inr (v, rest) \<longleftrightarrow> bs = write_f32 v @ rest"
  using word_le_exact [of 4 bs rest v] by (auto simp: read_f32_def write_f32_def reads)

lemma f64_exact [reads]: "read_f64 bs = Inr (v, rest) \<longleftrightarrow> bs = write_f64 v @ rest"
  using word_le_exact [of 8 bs rest v] by (auto simp: read_f64_def write_f64_def reads)

lemma i32_word: "v = sint (w :: u32) \<longleftrightarrow> in_i32 v \<and> w = word_of_int v"
proof
  assume "v = sint w"
  then show "in_i32 v \<and> w = word_of_int v"
    using sint_greater_eq [of w] sint_less [of w] by (simp add: in_i32_def)
qed (simp add: in_i32_def signed_of_int signed_take_bit_int_eq_self)

lemma i64_word: "v = sint (w :: u64) \<longleftrightarrow> in_i64 v \<and> w = word_of_int v"
proof
  assume "v = sint w"
  then show "in_i64 v \<and> w = word_of_int v"
    using sint_greater_eq [of w] sint_less [of w] by (simp add: in_i64_def)
qed (simp add: in_i64_def signed_of_int signed_take_bit_int_eq_self)

lemma i32_exact [reads]: "read_i32 bs = Inr (v, rest) \<longleftrightarrow> in_i32 v \<and> bs = write_i32 v @ rest"
  using u32_exact [of bs "word_of_int v" rest]
  by (auto simp: read_u32_def read_i32_def write_i32_def write_u32_def reads i32_word)

lemma i64_exact [reads]: "read_i64 bs = Inr (v, rest) \<longleftrightarrow> in_i64 v \<and> bs = write_i64 v @ rest"
  using u64_exact [of bs "word_of_int v" rest]
  by (auto simp: read_u64_def read_i64_def write_i64_def write_u64_def reads i64_word)

lemma bool_exact [reads]: "read_bool bs = Inr (v, rest) \<longleftrightarrow> bs = write_bool v @ rest"
  by (auto simp: read_bool_def write_bool_def write_u8_def reads)

lemma write_bool_inject [simp]: "write_bool x = write_bool y \<longleftrightarrow> x = y" "write_bool x @ bs = write_bool y @ cs \<longleftrightarrow> x = y \<and> bs = cs"
  by (auto simp: write_bool_def write_u8_def)

lemma write_len_ok [simp]: "len < 2 ^ 32 \<Longrightarrow> write_len field len = Inr (write_u32 (of_nat len))"
  by (simp add: write_len_def)

lemma len_exact [reads]: "read_len bs = Inr (len, rest) \<longleftrightarrow> len < 2 ^ 32 \<and> bs = write_u32 (of_nat len) @ rest"
proof -
  have "len = unat (w :: u32) \<longleftrightarrow> len < 2 ^ 32 \<and> w = of_nat len" for w
    using unsigned_less [of w, where ?'a = nat] by (auto simp: unsigned_of_nat take_bit_nat_eq_self)
  then show ?thesis by (auto simp: read_len_def reads)
qed

definition string_bytes :: "bytes \<Rightarrow> bytes" where
  "string_bytes s = write_u32 (of_nat (length s)) @ s"

lemma write_string_ok [simp]: "length s < 2 ^ 32 \<Longrightarrow> write_string field s = Inr (string_bytes s)"
  by (simp add: write_string_def string_bytes_def write_then_def)

lemma string_exact:
  assumes "max_bytes < 2 ^ 32"
  shows "read_string field max_bytes bs = Inr (s, rest) \<longleftrightarrow> length s \<le> max_bytes \<and> valid_utf8 s \<and> bs = string_bytes s @ rest"
  using assms by (auto simp: read_string_def string_bytes_def reads)

lemma string_exact_255 [reads]:
  "read_string field 255 bs = Inr (s, rest) \<longleftrightarrow> length s \<le> 255 \<and> valid_utf8 s \<and> bs = string_bytes s @ rest"
  by (rule string_exact) simp

declare valid_utf8.simps(2) [simp del]

lemma string_exact_short [reads]:
  "read_string field 48 bs = Inr (s, rest) \<longleftrightarrow> length s \<le> 48 \<and> valid_utf8 s \<and> bs = string_bytes s @ rest"
  "read_string field 512 bs = Inr (s, rest) \<longleftrightarrow> length s \<le> 512 \<and> valid_utf8 s \<and> bs = string_bytes s @ rest"
  by (rule string_exact, simp)+

lemma valid_utf8_ascii: "list_all (\<lambda>b. b < 128) s \<Longrightarrow> valid_utf8 s"
  by (induction s) (simp_all add: valid_utf8.simps(2))

section \<open>Choices, options and lists\<close>

lemma write_then_Inr: "write_then r s = Inr bs \<longleftrightarrow> (\<exists>u v. r = Inr u \<and> s = Inr v \<and> bs = u @ v)"
  by (auto simp: write_then_def split: sum.splits)

lemma write_then_ok [simp]: "write_then (Inr u) (Inr v) = Inr (u @ v)" "write_then (Inl e) s = Inl e"
  "write_then (Inr u) (Inl e) = Inl e"
  by (simp_all add: write_then_def)

lemma write_each_ok: "list_all (\<lambda>x. w x = Inr (enc x)) xs \<Longrightarrow> write_each w xs = Inr (concat (map enc xs))"
  by (induction xs) auto

locale tag_table =
  fixes arms :: "(u8 \<times> 'a) list" and tag :: "'a \<Rightarrow> u8"
  assumes arms_tag: "map_of arms t = Some x \<longleftrightarrow> t = tag x"
begin

lemma tagged_exact: "read_tagged arms unknown bs = Inr (x, rest) \<longleftrightarrow> bs = write_u8 (tag x) @ rest"
  by (auto simp: read_tagged_def reads arms_tag)

end

lemma tag_tableI:
  assumes "list_all (\<lambda>(t, x). tag x = t) arms" and "\<And>x. map_of arms (tag x) = Some x"
  shows "tag_table arms tag"
proof
  fix t x
  have "(t, x) \<in> set arms \<Longrightarrow> tag x = t" using assms(1) by (auto simp: list_all_iff)
  then show "map_of arms t = Some x \<longleftrightarrow> t = tag x" using assms(2) map_of_SomeD by fastforce
qed

lemma optional_reads [reads]: "read_optional r bs = Inr (x, rest) \<longleftrightarrow>
    (case x of None \<Rightarrow> bs = write_bool False @ rest
     | Some y \<Rightarrow> \<exists>mid. bs = write_bool True @ mid \<and> r mid = Inr (y, rest))"
  by (cases x) (auto simp: read_optional_def reads)

context exact_codec begin

lemma optional_exact:
  "read_optional read bs = Inr (x, rest) \<longleftrightarrow> pred_option fits x \<and> bs = write_optional wr x @ rest"
  by (cases x) (auto simp: optional_reads write_optional_def exact)

end

section \<open>Readers that decide as they go\<close>

text \<open>
  A streaming reader that succeeds does not depend on what comes after the bytes it took.  Every reader
  built from the cursor is one, except \<open>read_remaining\<close>.
\<close>

definition streaming :: "'a reader \<Rightarrow> bool" where
  "streaming r \<longleftrightarrow> (\<forall>bs x rest more. r bs = Inr (x, rest) \<longrightarrow> r (bs @ more) = Inr (x, rest @ more))"

named_theorems streams \<open>introduction rules for streaming readers\<close>

lemma streaming_yield [streams]: "streaming (yield x)" and streaming_refuse [streams]: "streaming (refuse e)"
  by (simp_all add: streaming_def yield_def refuse_def)

lemma streaming_exact [streams]: "streaming (read_exact n)"
  by (auto simp: streaming_def read_exact_def)

lemma streaming_reading [streams]: "streaming r \<Longrightarrow> (\<And>x. streaming (f x)) \<Longrightarrow> streaming (reading r f)"
  unfolding streaming_def reading_reads by blast

lemma streaming_attempt [streams]: "(\<And>x. streaming (f x)) \<Longrightarrow> streaming (attempt v f)"
  and streaming_ensuring [streams]: "streaming r \<Longrightarrow> streaming (ensuring check r)"
  unfolding streaming_def attempt_reads ensuring_reads by blast+

lemma streaming_if [streams]: "(b \<Longrightarrow> streaming r) \<Longrightarrow> (\<not> b \<Longrightarrow> streaming s) \<Longrightarrow> streaming (if b then r else s)"
  and streaming_option [streams]: "streaming r \<Longrightarrow> (\<And>x. streaming (f x)) \<Longrightarrow> streaming (case m of None \<Rightarrow> r | Some x \<Rightarrow> f x)"
  and streaming_let [streams]: "(\<And>x. streaming (f x)) \<Longrightarrow> streaming (let x = a in f x)"
  by (auto split: option.splits)

lemma streaming_words [streams]: "streaming read_u8" "streaming read_u16" "streaming read_u32" "streaming read_u64"
  "streaming read_i32" "streaming read_i64" "streaming read_f32" "streaming read_f64"
  unfolding read_u8_def read_u16_def read_u32_def read_u64_def read_i32_def read_i64_def read_f32_def read_f64_def
  by (intro streams)+

lemma streaming_bool [streams]: "streaming read_bool" and streaming_len [streams]: "streaming read_len"
  and streaming_string [streams]: "streaming (read_string field max_bytes)"
  and streaming_tagged [streams]: "streaming (read_tagged arms unknown)"
  and streaming_optional [streams]: "streaming r \<Longrightarrow> streaming (read_optional r)"
  unfolding read_bool_def read_len_def read_string_def read_tagged_def read_optional_def by (intro streams | assumption)+

lemma streaming_many [streams]: "streaming r \<Longrightarrow> streaming (read_many r n)"
  by (induction n) (simp_all add: streams)

lemma streaming_truncated:
  assumes "streaming r" and "r (w @ v) = Inr (x, [])" and "v \<noteq> []"
  shows "\<exists>e. decode_all r w = Inl e"
proof (cases "decode_all r w")
  case (Inr y)
  then have "r (w @ v) = Inr (y, [] @ v)" using assms(1) by (simp add: decode_all_iff streaming_def)
  then show ?thesis using assms(2,3) by simp
qed simp

lemma streaming_extended:
  assumes "streaming r" and "r w = Inr (x, [])" and "v \<noteq> []"
  shows "decode_all r (w @ v) = Inl (TrailingBytes (length v))"
proof -
  have "r (w @ v) = Inr (x, v)" using assms(1,2) by (fastforce simp: streaming_def)
  then show ?thesis using assms(3) by (simp add: decode_all_def finish_def)
qed

end
