(* ===== verification/ProtocolCommands.thy ===== *)
theory ProtocolCommands imports ProtocolBytes ServerViews ServerInventory
begin

text \<open>
  What a client sends: the commands of \<open>native/crates/mclone-protocol/src/lib.rs\<close> and the ephemeral messages of
  \<open>ephemeral.rs\<close>, with their encoders and decoders.  Arms of a \<open>match\<close> on a tag are in the code's order.
\<close>

section \<open>Positions and choices\<close>

record vec3d =
  v3_x :: u64
  v3_y :: u64
  v3_z :: u64

definition vec3d_is_finite :: "vec3d \<Rightarrow> bool" where
  "vec3d_is_finite v \<longleftrightarrow> f64_is_finite (v3_x v) \<and> f64_is_finite (v3_y v) \<and> f64_is_finite (v3_z v)"

definition write_vec3d :: "vec3d \<Rightarrow> bytes" where
  "write_vec3d v = write_f64 (v3_x v) @ write_f64 (v3_y v) @ write_f64 (v3_z v)"

definition read_vec3d :: "vec3d reader" where
  "read_vec3d = reading read_f64 (\<lambda>x. reading read_f64 (\<lambda>y. reading read_f64 (\<lambda>z.
     let v = \<lparr>v3_x = x, v3_y = y, v3_z = z\<rparr> in
     if \<not> vec3d_is_finite v then refuse (InvalidData ''vec3 contains non-finite value'') else yield v)))"

definition write_chunk_pos :: "chunk_pos \<Rightarrow> bytes" where
  "write_chunk_pos pos = write_i32 (cp_x pos) @ write_i32 (cp_z pos)"

definition read_chunk_pos :: "chunk_pos reader" where
  "read_chunk_pos = reading read_i32 (\<lambda>x. reading read_i32 (\<lambda>z. yield (ChunkPos x z)))"

definition write_block_pos :: "block_pos \<Rightarrow> bytes" where
  "write_block_pos pos = write_i32 (bp_x pos) @ write_i32 (bp_y pos) @ write_i32 (bp_z pos)"

definition read_block_pos :: "block_pos reader" where
  "read_block_pos = reading read_i32 (\<lambda>x. reading read_i32 (\<lambda>y. reading read_i32 (\<lambda>z. yield (BlockPos x y z))))"

definition write_direction :: "direction \<Rightarrow> bytes" where
  "write_direction d = write_u8 (of_nat (direction_index d))"

definition read_direction :: "direction reader" where
  "read_direction = reading read_u8 (\<lambda>direction. case direction_from_index (unat direction) of
     Some d \<Rightarrow> yield d | None \<Rightarrow> refuse (UnknownDirection direction))"

definition chunk_pos_fits :: "chunk_pos \<Rightarrow> bool" where
  "chunk_pos_fits pos \<longleftrightarrow> in_i32 (cp_x pos) \<and> in_i32 (cp_z pos)"

definition block_pos_fits :: "block_pos \<Rightarrow> bool" where
  "block_pos_fits pos \<longleftrightarrow> in_i32 (bp_x pos) \<and> in_i32 (bp_y pos) \<and> in_i32 (bp_z pos)"

lemma vec3d_exact [reads]: "read_vec3d bs = Inr (v, rest) \<longleftrightarrow> vec3d_is_finite v \<and> bs = write_vec3d v @ rest"
  by (cases v) (auto simp: read_vec3d_def write_vec3d_def reads)

lemma chunk_pos_exact [reads]: "read_chunk_pos bs = Inr (pos, rest) \<longleftrightarrow> chunk_pos_fits pos \<and> bs = write_chunk_pos pos @ rest"
  by (cases pos) (auto simp: read_chunk_pos_def write_chunk_pos_def chunk_pos_fits_def reads)

lemma block_pos_exact [reads]: "read_block_pos bs = Inr (pos, rest) \<longleftrightarrow> block_pos_fits pos \<and> bs = write_block_pos pos @ rest"
  by (cases pos) (auto simp: read_block_pos_def write_block_pos_def block_pos_fits_def reads)

lemma direction_from_index_iff: "direction_from_index (unat (b :: u8)) = Some d \<longleftrightarrow> b = of_nat (direction_index d)"
proof -
  have "unat b = n \<longleftrightarrow> b = of_nat n" if "n < 256" for n
    using that by (auto simp: unsigned_of_nat take_bit_nat_eq_self)
  then show ?thesis by (cases d) (simp_all add: direction_from_index_def)
qed

lemma direction_exact [reads]: "read_direction bs = Inr (d, rest) \<longleftrightarrow> bs = write_direction d @ rest"
  by (auto simp: read_direction_def write_direction_def reads direction_from_index_iff)

section \<open>Commands\<close>

record block_hit_result =
  bh_miss :: bool
  bh_location :: vec3d
  bh_direction :: direction
  bh_block_pos :: block_pos
  bh_inside :: bool

definition block_hit_new :: "vec3d \<Rightarrow> direction \<Rightarrow> block_pos \<Rightarrow> bool \<Rightarrow> block_hit_result" where
  "block_hit_new location d pos inside =
     \<lparr>bh_miss = False, bh_location = location, bh_direction = d, bh_block_pos = pos, bh_inside = inside\<rparr>"

definition block_hit_miss :: "vec3d \<Rightarrow> direction \<Rightarrow> block_pos \<Rightarrow> block_hit_result" where
  "block_hit_miss location d pos =
     \<lparr>bh_miss = True, bh_location = location, bh_direction = d, bh_block_pos = pos, bh_inside = False\<rparr>"

datatype player_model_kind = PlayerModel | UprightBear
datatype player_action_kind = StartDestroyBlock | StopDestroyBlock | AbortDestroyBlock | DebugInstantBreak
datatype interaction_hand = MainHand | OffHand
datatype client_disconnect_reason = Quit

datatype move_player =
    MovePos vec3d bool
  | MovePosRot vec3d u32 u32 bool
  | MoveRot u32 u32 bool
  | MoveStatusOnly bool

record body_pose_sample =
  bp_presentation_epoch :: u32
  bp_sequence :: u32
  bp_sample_time_millis :: u32
  bp_position :: vec3d
  bp_y_rot :: u32
  bp_x_rot :: u32
  bp_on_ground :: bool
  bp_discontinuity :: bool

datatype client_ephemeral_message = BodyPose body_pose_sample
datatype server_ephemeral_message = RemoteBodyPose u64 body_pose_sample

datatype client_command =
    SetChunkView chunk_view_data
  | MovePlayer u32 move_player
  | AcceptTeleport u32
  | SetCarriedItem u8
  | SetDebugHotbarSlot u8 "debug_hotbar_item option"
  | SetPlayerAppearance player_model_kind
  | PlayerAction block_pos direction player_action_kind
  | AttackEntity u64
  | InteractEntity u64 interaction_hand
  | UseItemOn interaction_hand block_hit_result
  | CancelSleep
  | ShootDebugPhysicsCube
  | ClientKeepAlive u64
  | Respawn
  | ClientEphemeralFallback client_ephemeral_message
  | ClientDisconnect client_disconnect_reason

section \<open>Tags of the choices\<close>

fun player_model_tag :: "player_model_kind \<Rightarrow> u8" where
  "player_model_tag PlayerModel = 0"
| "player_model_tag UprightBear = 1"

fun player_action_tag :: "player_action_kind \<Rightarrow> u8" where
  "player_action_tag StartDestroyBlock = 0"
| "player_action_tag StopDestroyBlock = 1"
| "player_action_tag AbortDestroyBlock = 2"
| "player_action_tag DebugInstantBreak = 3"

fun interaction_hand_tag :: "interaction_hand \<Rightarrow> u8" where
  "interaction_hand_tag MainHand = 0"
| "interaction_hand_tag OffHand = 1"

fun debug_actor_tag :: "debug_actor_kind \<Rightarrow> u8" where
  "debug_actor_tag Chicken = 0"
| "debug_actor_tag Mannequin = 1"

fun client_disconnect_tag :: "client_disconnect_reason \<Rightarrow> u8" where
  "client_disconnect_tag Quit = 0"

definition read_player_model_kind :: "player_model_kind reader" where
  "read_player_model_kind = read_tagged [(0, PlayerModel), (1, UprightBear)] UnknownPlayerModelKind"

definition read_player_action_kind :: "player_action_kind reader" where
  "read_player_action_kind = read_tagged [(0, StartDestroyBlock), (1, StopDestroyBlock), (2, AbortDestroyBlock),
     (3, DebugInstantBreak)] UnknownPlayerActionKind"

definition read_interaction_hand :: "interaction_hand reader" where
  "read_interaction_hand = read_tagged [(0, MainHand), (1, OffHand)] UnknownInteractionHand"

definition read_target_hand :: "interaction_hand reader" where
  "read_target_hand = read_tagged [(0, MainHand), (1, OffHand)] (\<lambda>_. InvalidData ''unknown interaction hand'')"

definition read_debug_actor_kind :: "debug_actor_kind reader" where
  "read_debug_actor_kind = read_tagged [(0, Chicken), (1, Mannequin)] (\<lambda>_. InvalidData ''unknown debug actor kind'')"

definition read_client_disconnect_reason :: "client_disconnect_reason reader" where
  "read_client_disconnect_reason = read_tagged [(0, Quit)] (\<lambda>_. InvalidData ''unknown client disconnect reason'')"

interpretation player_model: tag_table "[(0, PlayerModel), (1, UprightBear)]" player_model_tag
  by (rule tag_tableI, simp, case_tac x, simp_all)

interpretation player_action: tag_table "[(0, StartDestroyBlock), (1, StopDestroyBlock), (2, AbortDestroyBlock),
  (3, DebugInstantBreak)]" player_action_tag
  by (rule tag_tableI, simp, case_tac x, simp_all)

interpretation interaction_hand: tag_table "[(0, MainHand), (1, OffHand)]" interaction_hand_tag
  by (rule tag_tableI, simp, case_tac x, simp_all)

interpretation debug_actor: tag_table "[(0, Chicken), (1, Mannequin)]" debug_actor_tag
  by (rule tag_tableI, simp, case_tac x, simp_all)

interpretation client_disconnect: tag_table "[(0, Quit)]" client_disconnect_tag
  by (rule tag_tableI, simp, case_tac x, simp_all)

lemmas choice_reads [reads] = player_model.tagged_exact player_action.tagged_exact interaction_hand.tagged_exact
  debug_actor.tagged_exact client_disconnect.tagged_exact

section \<open>Ephemeral messages\<close>

definition validate_body_pose_sample :: "body_pose_sample \<Rightarrow> codec_error + unit" where
  "validate_body_pose_sample sample =
     (if bp_presentation_epoch sample = 0 then Inl (InvalidData ''body pose presentation epoch must be nonzero'')
      else if bp_sequence sample = 0 then Inl (InvalidData ''body pose sequence must be nonzero'')
      else if \<not> vec3d_is_finite (bp_position sample) \<or> \<not> f32_is_finite (bp_y_rot sample) \<or> \<not> f32_is_finite (bp_x_rot sample)
      then Inl (InvalidData ''body pose contains non-finite value'')
      else Inr ())"

definition write_body_pose :: "body_pose_sample \<Rightarrow> bytes" where
  "write_body_pose s = write_u32 (bp_presentation_epoch s) @ write_u32 (bp_sequence s) @ write_u32 (bp_sample_time_millis s)
     @ write_f64 (v3_x (bp_position s)) @ write_f64 (v3_y (bp_position s)) @ write_f64 (v3_z (bp_position s))
     @ write_f32 (bp_y_rot s) @ write_f32 (bp_x_rot s) @ write_bool (bp_on_ground s) @ write_bool (bp_discontinuity s)"

definition read_body_pose :: "body_pose_sample reader" where
  "read_body_pose = reading read_u32 (\<lambda>epoch. reading read_u32 (\<lambda>sequence. reading read_u32 (\<lambda>millis.
     reading read_f64 (\<lambda>x. reading read_f64 (\<lambda>y. reading read_f64 (\<lambda>z.
     reading read_f32 (\<lambda>y_rot. reading read_f32 (\<lambda>x_rot. reading read_bool (\<lambda>on_ground. reading read_bool (\<lambda>discontinuity.
     let sample = \<lparr>bp_presentation_epoch = epoch, bp_sequence = sequence, bp_sample_time_millis = millis,
       bp_position = \<lparr>v3_x = x, v3_y = y, v3_z = z\<rparr>, bp_y_rot = y_rot, bp_x_rot = x_rot, bp_on_ground = on_ground,
       bp_discontinuity = discontinuity\<rparr> in
     ensuring (validate_body_pose_sample sample) (yield sample)))))))))))"

abbreviation (input) max_ephemeral_message_bytes :: nat where "max_ephemeral_message_bytes \<equiv> 64"

definition checked_message_size :: "bytes \<Rightarrow> codec_error + unit" where
  "checked_message_size bs = (if max_ephemeral_message_bytes < length bs
     then Inl (InvalidData ''ephemeral message exceeds the protocol maximum'') else Inr ())"

definition encode_client_ephemeral_message :: "client_ephemeral_message \<Rightarrow> codec_error + bytes" where
  "encode_client_ephemeral_message message = (case message of BodyPose sample \<Rightarrow>
     (case validate_body_pose_sample sample of Inl e \<Rightarrow> Inl e | Inr _ \<Rightarrow> Inr (write_u8 1 @ write_body_pose sample)))"

definition decode_client_ephemeral_message :: "bytes \<Rightarrow> codec_error + client_ephemeral_message" where
  "decode_client_ephemeral_message bs = (case checked_message_size bs of Inl e \<Rightarrow> Inl e
     | Inr _ \<Rightarrow> decode_all (reading read_u8 (\<lambda>tag.
         if tag = 1 then reading read_body_pose (\<lambda>sample. yield (BodyPose sample))
         else refuse (InvalidData ''unknown client ephemeral message tag''))) bs)"

definition encode_server_ephemeral_message :: "server_ephemeral_message \<Rightarrow> codec_error + bytes" where
  "encode_server_ephemeral_message message = (case message of RemoteBodyPose player pose \<Rightarrow>
     (case validate_body_pose_sample pose of Inl e \<Rightarrow> Inl e
        | Inr _ \<Rightarrow> Inr (write_u8 1 @ write_u64 player @ write_body_pose pose)))"

definition decode_server_ephemeral_message :: "bytes \<Rightarrow> codec_error + server_ephemeral_message" where
  "decode_server_ephemeral_message bs = (case checked_message_size bs of Inl e \<Rightarrow> Inl e
     | Inr _ \<Rightarrow> decode_all (reading read_u8 (\<lambda>tag.
         if tag = 1 then reading read_u64 (\<lambda>player. reading read_body_pose (\<lambda>pose. yield (RemoteBodyPose player pose)))
         else refuse (InvalidData ''unknown server ephemeral message tag''))) bs)"

definition sequence_is_newer :: "u32 \<Rightarrow> u32 \<Rightarrow> bool" where
  "sequence_is_newer candidate current = (let distance = candidate - current in distance \<noteq> 0 \<and> distance < push_bit 31 1)"

lemma body_pose_exact [reads]: "read_body_pose bs = Inr (sample, rest)
    \<longleftrightarrow> validate_body_pose_sample sample = Inr () \<and> bs = write_body_pose sample @ rest"
  by (cases sample; cases "bp_position sample") (auto simp: read_body_pose_def write_body_pose_def reads)

lemma length_writes [simp]: "length (write_u8 b) = 1" "length (write_u16 h) = 2" "length (write_u32 v) = 4" "length (write_u64 w) = 8"
  "length (write_f32 v) = 4" "length (write_f64 w) = 8" "length (write_i32 i) = 4" "length (write_i64 i) = 8" "length (write_bool c) = 1"
  by (simp_all add: write_u8_def write_u16_def write_u32_def write_u64_def write_f32_def write_f64_def write_i32_def write_i64_def
      write_bool_def)

lemma length_body_pose [simp]: "length (write_body_pose s) = 46"
  by (simp add: write_body_pose_def)

lemma client_ephemeral_exact:
  "decode_client_ephemeral_message bs = Inr message \<longleftrightarrow> encode_client_ephemeral_message message = Inr bs"
  by (cases message) (auto simp: decode_client_ephemeral_message_def encode_client_ephemeral_message_def
      checked_message_size_def decode_all_iff reads split: sum.splits)

lemma server_ephemeral_exact:
  "decode_server_ephemeral_message bs = Inr message \<longleftrightarrow> encode_server_ephemeral_message message = Inr bs"
  by (cases message) (auto simp: decode_server_ephemeral_message_def encode_server_ephemeral_message_def
      checked_message_size_def decode_all_iff reads split: sum.splits)

lemma sequence_is_newer_ahead: "sequence_is_newer (current + ahead) current \<longleftrightarrow> ahead \<noteq> 0 \<and> ahead < 2 ^ 31"
  by (simp add: sequence_is_newer_def)

lemma sequence_is_newer_asym: "sequence_is_newer a b \<Longrightarrow> \<not> sequence_is_newer b a"
proof -
  assume "sequence_is_newer a b"
  then have w: "a - b \<noteq> 0" "uint (a - b) < 2 ^ 31" by (simp_all add: sequence_is_newer_def word_less_def)
  have "uint (b - a) = (- uint (a - b)) mod 2 ^ 32" by (simp add: uint_word_ariths mod_minus_eq)
  moreover have "0 < uint (a - b)" "uint (a - b) < 2 ^ 32"
    using w(1) unsigned_greater_eq [of "a - b", where ?'a = int] uint_lt2p [of "a - b"] by (simp_all add: order_less_le uint_0_iff)
  ultimately have "uint (b - a) = 2 ^ 32 - uint (a - b)" by (simp add: zmod_zminus1_eq_if)
  then show "\<not> sequence_is_newer b a" using w(2) by (simp add: sequence_is_newer_def word_less_def)
qed

section \<open>Writing commands\<close>

definition write_move_player :: "u32 \<Rightarrow> move_player \<Rightarrow> bytes" where
  "write_move_player sequence movement = write_u32 sequence @ (case movement of
       MovePos position on_ground \<Rightarrow> write_u8 0 @ write_vec3d position @ write_bool on_ground
     | MovePosRot position y_rot x_rot on_ground \<Rightarrow>
         write_u8 1 @ write_vec3d position @ write_f32 y_rot @ write_f32 x_rot @ write_bool on_ground
     | MoveRot y_rot x_rot on_ground \<Rightarrow> write_u8 2 @ write_f32 y_rot @ write_f32 x_rot @ write_bool on_ground
     | MoveStatusOnly on_ground \<Rightarrow> write_u8 3 @ write_bool on_ground)"

definition write_set_debug_hotbar_slot :: "u8 \<Rightarrow> debug_hotbar_item option \<Rightarrow> bytes" where
  "write_set_debug_hotbar_slot slot item = write_u8 slot @ (case item of
       None \<Rightarrow> write_u8 0
     | Some (HotbarBlock block_state) \<Rightarrow> write_u8 1 @ write_u32 block_state
     | Some (HotbarActor kind) \<Rightarrow> write_u8 2 @ write_u8 (debug_actor_tag kind))"

definition write_block_hit_result :: "block_hit_result \<Rightarrow> bytes" where
  "write_block_hit_result hit = write_bool (bh_miss hit) @ write_vec3d (bh_location hit) @ write_direction (bh_direction hit)
     @ write_block_pos (bh_block_pos hit) @ write_bool (bh_inside hit)"

definition write_chunk_view :: "chunk_view_data \<Rightarrow> bytes" where
  "write_chunk_view view = write_chunk_pos (cv_center view) @ write_u32 (of_nat (cv_render_distance view))
     @ write_u32 (of_nat (cv_tracking_radius view))"

definition encode_client_command :: "client_command \<Rightarrow> codec_error + bytes" where
  "encode_client_command command = (case command of
       SetChunkView view \<Rightarrow> Inr (write_u8 1 @ write_chunk_view view)
     | MovePlayer sequence movement \<Rightarrow> Inr (write_u8 4 @ write_move_player sequence movement)
     | AcceptTeleport teleport \<Rightarrow> Inr (write_u8 6 @ write_u32 teleport)
     | SetCarriedItem slot \<Rightarrow> Inr (write_u8 5 @ write_u8 slot)
     | SetDebugHotbarSlot slot item \<Rightarrow> Inr (write_u8 7 @ write_set_debug_hotbar_slot slot item)
     | SetPlayerAppearance model \<Rightarrow> Inr (write_u8 9 @ write_u8 (player_model_tag model))
     | PlayerAction pos d kind \<Rightarrow>
         Inr (write_u8 2 @ write_block_pos pos @ write_direction d @ write_u8 (player_action_tag kind))
     | AttackEntity target \<Rightarrow> Inr (write_u8 14 @ write_u64 target)
     | InteractEntity target hand \<Rightarrow> Inr (write_u8 15 @ write_u64 target @ write_u8 (interaction_hand_tag hand))
     | UseItemOn hand hit \<Rightarrow> Inr (write_u8 3 @ write_u8 (interaction_hand_tag hand) @ write_block_hit_result hit)
     | CancelSleep \<Rightarrow> Inr (write_u8 16)
     | ShootDebugPhysicsCube \<Rightarrow> Inr (write_u8 8)
     | ClientKeepAlive alive \<Rightarrow> Inr (write_u8 10 @ write_u64 alive)
     | Respawn \<Rightarrow> Inr (write_u8 12)
     | ClientEphemeralFallback message \<Rightarrow> write_then (Inr (write_u8 13)) (encode_client_ephemeral_message message)
     | ClientDisconnect reason \<Rightarrow> Inr (write_u8 11 @ write_u8 (client_disconnect_tag reason)))"

section \<open>Reading commands\<close>

definition read_move_player_rotation :: "(u32 \<times> u32) reader" where
  "read_move_player_rotation = reading read_f32 (\<lambda>y_rot. reading read_f32 (\<lambda>x_rot.
     if \<not> f32_is_finite y_rot \<or> \<not> f32_is_finite x_rot
     then refuse (InvalidData ''move player rotation contains non-finite value'') else yield (y_rot, x_rot)))"

definition read_movement :: "move_player reader" where
  "read_movement = reading read_u8 (\<lambda>variant.
     if variant = 0 then reading read_vec3d (\<lambda>position. reading read_bool (\<lambda>on_ground. yield (MovePos position on_ground)))
     else if variant = 1 then reading read_vec3d (\<lambda>position. reading read_move_player_rotation (\<lambda>rotation.
       reading read_bool (\<lambda>on_ground. yield (MovePosRot position (fst rotation) (snd rotation) on_ground))))
     else if variant = 2 then reading read_move_player_rotation (\<lambda>rotation.
       reading read_bool (\<lambda>on_ground. yield (MoveRot (fst rotation) (snd rotation) on_ground)))
     else if variant = 3 then reading read_bool (\<lambda>on_ground. yield (MoveStatusOnly on_ground))
     else refuse (InvalidData ''unknown move player packet variant''))"

definition read_move_player :: "(u32 \<times> move_player) reader" where
  "read_move_player = reading read_u32 (\<lambda>sequence. reading read_movement (\<lambda>movement. yield (sequence, movement)))"

definition read_set_debug_hotbar_slot :: "(u8 \<times> debug_hotbar_item option) reader" where
  "read_set_debug_hotbar_slot = reading read_u8 (\<lambda>slot. reading read_u8 (\<lambda>kind.
     if kind = 0 then yield (slot, None)
     else if kind = 1 then reading read_u32 (\<lambda>block_state. yield (slot, Some (HotbarBlock block_state)))
     else if kind = 2 then reading read_debug_actor_kind (\<lambda>actor. yield (slot, Some (HotbarActor actor)))
     else refuse (InvalidData ''unknown debug hotbar item kind'')))"

definition read_block_hit_result :: "block_hit_result reader" where
  "read_block_hit_result = reading read_bool (\<lambda>miss. reading read_vec3d (\<lambda>location. reading read_direction (\<lambda>d.
     reading read_block_pos (\<lambda>pos. reading read_bool (\<lambda>inside.
     if miss then yield (block_hit_miss location d pos) else yield (block_hit_new location d pos inside))))))"

definition read_chunk_view :: "chunk_view_data reader" where
  "read_chunk_view = reading read_chunk_pos (\<lambda>center. reading read_u32 (\<lambda>render_distance. reading read_u32 (\<lambda>radius.
     yield \<lparr>cv_center = center, cv_render_distance = unat render_distance, cv_tracking_radius = unat radius\<rparr>)))"

definition read_command_body :: "u8 \<Rightarrow> client_command reader" where
  "read_command_body tag =
    (if tag = 1 then reading read_chunk_view (\<lambda>view. yield (SetChunkView view))
     else if tag = 4 then reading read_move_player (\<lambda>move. yield (MovePlayer (fst move) (snd move)))
     else if tag = 6 then reading read_u32 (\<lambda>id. yield (AcceptTeleport id))
     else if tag = 5 then reading read_u8 (\<lambda>slot. yield (SetCarriedItem slot))
     else if tag = 7 then reading read_set_debug_hotbar_slot (\<lambda>command. yield (SetDebugHotbarSlot (fst command) (snd command)))
     else if tag = 9 then reading read_player_model_kind (\<lambda>model. yield (SetPlayerAppearance model))
     else if tag = 2 then reading read_block_pos (\<lambda>pos. reading read_direction (\<lambda>d. reading read_player_action_kind (\<lambda>kind.
       yield (PlayerAction pos d kind))))
     else if tag = 14 then reading read_u64 (\<lambda>target. yield (AttackEntity target))
     else if tag = 15 then reading read_u64 (\<lambda>target. reading read_target_hand (\<lambda>hand. yield (InteractEntity target hand)))
     else if tag = 3 then reading read_interaction_hand (\<lambda>hand. reading read_block_hit_result (\<lambda>hit. yield (UseItemOn hand hit)))
     else if tag = 16 then yield CancelSleep
     else if tag = 8 then yield ShootDebugPhysicsCube
     else if tag = 10 then reading read_u64 (\<lambda>id. yield (ClientKeepAlive id))
     else if tag = 12 then yield Respawn
     else if tag = 13 then reading read_remaining (\<lambda>bytes. attempt (decode_client_ephemeral_message bytes) (\<lambda>message.
       yield (ClientEphemeralFallback message)))
     else if tag = 11 then reading read_client_disconnect_reason (\<lambda>reason. yield (ClientDisconnect reason))
     else refuse (UnknownClientCommandTag tag))"

definition read_client_command :: "client_command reader" where
  "read_client_command = reading read_u8 read_command_body"

definition decode_client_command :: "bytes \<Rightarrow> codec_error + client_command" where
  "decode_client_command bs = decode_all read_client_command bs"

section \<open>What the command reader accepts\<close>

fun movement_fits :: "move_player \<Rightarrow> bool" where
  "movement_fits (MovePos position _) \<longleftrightarrow> vec3d_is_finite position"
| "movement_fits (MovePosRot position y_rot x_rot _) \<longleftrightarrow> vec3d_is_finite position \<and> f32_is_finite y_rot \<and> f32_is_finite x_rot"
| "movement_fits (MoveRot y_rot x_rot _) \<longleftrightarrow> f32_is_finite y_rot \<and> f32_is_finite x_rot"
| "movement_fits (MoveStatusOnly _) \<longleftrightarrow> True"

definition hit_fits :: "block_hit_result \<Rightarrow> bool" where
  "hit_fits hit \<longleftrightarrow> vec3d_is_finite (bh_location hit) \<and> block_pos_fits (bh_block_pos hit)"

definition view_fits :: "chunk_view_data \<Rightarrow> bool" where
  "view_fits view \<longleftrightarrow> chunk_pos_fits (cv_center view) \<and> cv_render_distance view < 2 ^ 32 \<and> cv_tracking_radius view < 2 ^ 32"

fun command_fits :: "client_command \<Rightarrow> bool" where
  "command_fits (SetChunkView view) \<longleftrightarrow> view_fits view"
| "command_fits (MovePlayer sequence movement) \<longleftrightarrow> movement_fits movement"
| "command_fits (PlayerAction pos d kind) \<longleftrightarrow> block_pos_fits pos"
| "command_fits (UseItemOn hand hit) \<longleftrightarrow> hit_fits hit \<and> \<not> (bh_miss hit \<and> bh_inside hit)"
| "command_fits _ \<longleftrightarrow> True"

lemma rotation_exact [reads]: "read_move_player_rotation bs = Inr (r, rest)
    \<longleftrightarrow> f32_is_finite (fst r) \<and> f32_is_finite (snd r) \<and> bs = write_f32 (fst r) @ write_f32 (snd r) @ rest"
  by (cases r) (auto simp: read_move_player_rotation_def reads)

lemma movement_exact [reads]: "read_move_player bs = Inr (move, rest)
    \<longleftrightarrow> movement_fits (snd move) \<and> bs = write_move_player (fst move) (snd move) @ rest"
  by (cases move; cases "snd move") (auto simp: read_move_player_def read_movement_def write_move_player_def write_u8_def reads)

lemma hotbar_slot_exact [reads]: "read_set_debug_hotbar_slot bs = Inr (command, rest)
    \<longleftrightarrow> bs = write_set_debug_hotbar_slot (fst command) (snd command) @ rest"
  by (cases command; cases "snd command"; (cases "the (snd command)")?)
    (auto simp: read_set_debug_hotbar_slot_def write_set_debug_hotbar_slot_def read_debug_actor_kind_def write_u8_def reads)

lemma command_view_exact [reads]: "read_chunk_view bs = Inr (view, rest) \<longleftrightarrow> view_fits view \<and> bs = write_chunk_view view @ rest"
proof -
  have "n = unat (w :: u32) \<longleftrightarrow> n < 2 ^ 32 \<and> w = of_nat n" for n w
    using unsigned_less [of w, where ?'a = nat] by (auto simp: unsigned_of_nat take_bit_nat_eq_self)
  then show ?thesis by (cases view) (auto simp: read_chunk_view_def write_chunk_view_def view_fits_def reads)
qed

text \<open>The flag \<open>inside\<close> of a miss is read and dropped.\<close>

lemma hit_reads [reads]: "read_block_hit_result bs = Inr (hit, rest) \<longleftrightarrow> hit_fits hit \<and> \<not> (bh_miss hit \<and> bh_inside hit)
    \<and> (bs = write_block_hit_result hit @ rest
        \<or> bh_miss hit \<and> bs = write_block_hit_result (hit\<lparr>bh_inside := True\<rparr>) @ rest)"
proof -
  let ?pre = "\<lambda>miss. write_bool miss @ write_vec3d (bh_location hit) @ write_direction (bh_direction hit)
    @ write_block_pos (bh_block_pos hit)"
  have "read_block_hit_result bs = Inr (hit, rest) \<longleftrightarrow> hit_fits hit \<and>
     (bh_miss hit \<and> \<not> bh_inside hit \<and> (\<exists>inside. bs = ?pre True @ write_bool inside @ rest)
      \<or> \<not> bh_miss hit \<and> bs = ?pre False @ write_bool (bh_inside hit) @ rest)"
    by (cases hit) (auto simp: read_block_hit_result_def hit_fits_def block_hit_miss_def block_hit_new_def reads,
      (intro exI conjI; (assumption | rule refl | rule TrueI)))
  then show ?thesis by (cases "bh_miss hit"; cases "bh_inside hit") (auto simp: write_block_hit_result_def ex_bool_eq)
qed

lemma remaining_reads [reads]: "read_remaining bs = Inr (x, rest) \<longleftrightarrow> x = bs \<and> rest = []"
  by (auto simp: read_remaining_def)

lemma client_command_exact:
  "decode_client_command bs = Inr command \<longleftrightarrow> command_fits command \<and>
     (encode_client_command command = Inr bs
      \<or> (\<exists>hand hit. command = UseItemOn hand hit \<and> bh_miss hit
           \<and> encode_client_command (UseItemOn hand (hit\<lparr>bh_inside := True\<rparr>)) = Inr bs))"
  apply (cases command)
  apply (auto simp: decode_client_command_def decode_all_iff read_client_command_def read_command_body_def encode_client_command_def
      read_player_model_kind_def read_player_action_kind_def read_target_hand_def read_interaction_hand_def
      read_client_disconnect_reason_def client_ephemeral_exact write_then_Inr write_u8_def reads)
  done

section \<open>Payloads that are too short or too long\<close>

lemma streaming_positions [streams]: "streaming read_vec3d" "streaming read_chunk_pos" "streaming read_block_pos"
  "streaming read_direction"
  unfolding read_vec3d_def read_chunk_pos_def read_block_pos_def read_direction_def by (intro streams)+

lemma streaming_choices [streams]: "streaming read_player_model_kind" "streaming read_player_action_kind"
  "streaming read_interaction_hand" "streaming read_target_hand" "streaming read_debug_actor_kind"
  "streaming read_client_disconnect_reason"
  unfolding read_player_model_kind_def read_player_action_kind_def read_interaction_hand_def read_target_hand_def
    read_debug_actor_kind_def read_client_disconnect_reason_def by (intro streams)+

lemma streaming_parts [streams]: "streaming read_body_pose" "streaming read_move_player" "streaming read_set_debug_hotbar_slot"
  "streaming read_block_hit_result" "streaming read_chunk_view"
  unfolding read_body_pose_def read_move_player_def read_movement_def read_move_player_rotation_def
    read_set_debug_hotbar_slot_def read_block_hit_result_def read_chunk_view_def by (intro streams)+

lemma streaming_command_body: "tag \<noteq> 13 \<Longrightarrow> streaming (read_command_body tag)"
  unfolding read_command_body_def by (intro streams; simp?)

lemma client_ephemeral_truncated:
  assumes "decode_client_ephemeral_message (w @ v) = Inr message" and "v \<noteq> []"
  shows "\<exists>e. decode_client_ephemeral_message w = Inl e"
  using assms streaming_truncated [OF _ _ assms(2), of "reading read_u8 (\<lambda>tag. if tag = 1 then
      reading read_body_pose (\<lambda>sample. yield (BodyPose sample)) else refuse (InvalidData ''unknown client ephemeral message tag''))"]
  by (auto simp: decode_client_ephemeral_message_def checked_message_size_def decode_all_iff streams split: if_splits)

lemma decode_tagged: "decode_all (reading read_u8 f) (tag # bs) = decode_all (f tag) bs"
  using u8_exact [of "tag # bs" tag bs] by (simp add: decode_all_def reading_def write_u8_def)

lemma client_command_truncated:
  assumes dec: "decode_client_command (w @ v) = Inr command" and v: "v \<noteq> []"
  shows "\<exists>e. decode_client_command w = Inl e"
proof (cases w)
  case Nil
  then show ?thesis
    by (simp add: decode_client_command_def read_client_command_def decode_all_def reading_def read_u8_def read_exact_def)
next
  case (Cons tag bs)
  have body: "decode_all (read_command_body tag) (bs @ v) = Inr command"
    using dec by (simp add: Cons decode_client_command_def read_client_command_def decode_tagged)
  have "\<exists>e. decode_all (read_command_body tag) bs = Inl e"
  proof (cases "tag = 13")
    case True
    then obtain message where "decode_client_ephemeral_message (bs @ v) = Inr message"
      using body by (auto simp: decode_all_iff read_command_body_def reads)
    then obtain e where "decode_client_ephemeral_message bs = Inl e" using client_ephemeral_truncated v by blast
    then show ?thesis by (simp add: True decode_all_def read_command_body_def reading_def read_remaining_def attempt_def)
  next
    case False
    show ?thesis
      by (rule streaming_truncated [OF streaming_command_body [OF False] _ v]) (use body in \<open>simp add: decode_all_iff\<close>)
  qed
  then show ?thesis by (simp add: Cons decode_client_command_def read_client_command_def decode_tagged)
qed

lemma client_command_unknown_tag:
  assumes "tag \<notin> {1..16}"
  shows "decode_client_command (tag # bs) = Inl (UnknownClientCommandTag tag)"
proof -
  have "tag \<noteq> 1" "tag \<noteq> 2" "tag \<noteq> 3" "tag \<noteq> 4" "tag \<noteq> 5" "tag \<noteq> 6" "tag \<noteq> 7" "tag \<noteq> 8" "tag \<noteq> 9" "tag \<noteq> 10"
    "tag \<noteq> 11" "tag \<noteq> 12" "tag \<noteq> 13" "tag \<noteq> 14" "tag \<noteq> 15" "tag \<noteq> 16" using assms by auto
  then have "read_command_body tag = refuse (UnknownClientCommandTag tag)" by (simp add: read_command_body_def)
  then show ?thesis
    by (simp add: decode_client_command_def read_client_command_def decode_tagged) (simp add: decode_all_def refuse_def)
qed

end
