(* ===== verification/ProtocolChunks.thy ===== *)
theory ProtocolChunks imports ProtocolCommands ServerTracking
begin

text \<open>
  The world's part of the wire protocol in \<open>native/crates/mclone-protocol/src/lib.rs\<close>: topologies, chunk
  snapshots with their packed sections and light, and block updates of a section.  Writers of lists can
  fail on a length past 32 bits.
\<close>

section \<open>Topologies\<close>

definition write_axis_topology :: "axis_topology \<Rightarrow> bytes" where
  "write_axis_topology axis = (case axis of
       Unbounded \<Rightarrow> write_u8 0
     | Finite minimum maximum \<Rightarrow> write_u8 1 @ write_i32 minimum @ write_i32 maximum
     | Periodic minimum period \<Rightarrow> write_u8 2 @ write_i32 minimum @ write_u32 (of_nat period))"

definition read_axis_topology :: "axis_topology reader" where
  "read_axis_topology = reading read_u8 (\<lambda>tag.
     if tag = 0 then yield Unbounded
     else if tag = 1 then reading read_i32 (\<lambda>minimum. reading read_i32 (\<lambda>maximum. yield (Finite minimum maximum)))
     else if tag = 2 then reading read_i32 (\<lambda>minimum. reading read_u32 (\<lambda>period. yield (Periodic minimum (unat period))))
     else refuse (InvalidData ''unknown dimension axis topology tag''))"

definition write_horizontal_topology :: "horizontal_topology \<Rightarrow> bytes" where
  "write_horizontal_topology topology = write_axis_topology (ht_x topology) @ write_axis_topology (ht_z topology)"

definition validate_horizontal_topology :: "horizontal_topology \<Rightarrow> codec_error + unit" where
  "validate_horizontal_topology topology = (case topology_validate topology of
     Inl _ \<Rightarrow> Inl (InvalidData ''invalid dimension topology'') | Inr _ \<Rightarrow> Inr ())"

definition read_horizontal_topology :: "horizontal_topology reader" where
  "read_horizontal_topology = reading read_axis_topology (\<lambda>x. reading read_axis_topology (\<lambda>z.
     let topology = \<lparr>ht_x = x, ht_z = z\<rparr> in ensuring (validate_horizontal_topology topology) (yield topology)))"

fun axis_fits :: "axis_topology \<Rightarrow> bool" where
  "axis_fits Unbounded \<longleftrightarrow> True"
| "axis_fits (Finite minimum maximum) \<longleftrightarrow> in_i32 minimum \<and> in_i32 maximum"
| "axis_fits (Periodic minimum period) \<longleftrightarrow> in_i32 minimum \<and> period < 2 ^ 32"

definition topology_fits :: "horizontal_topology \<Rightarrow> bool" where
  "topology_fits topology \<longleftrightarrow> axis_fits (ht_x topology) \<and> axis_fits (ht_z topology)
     \<and> validate_horizontal_topology topology = Inr ()"

lemma unat_u32_iff: "n = unat (w :: u32) \<longleftrightarrow> n < 2 ^ 32 \<and> w = of_nat n"
  using unsigned_less [of w, where ?'a = nat] by (auto simp: unsigned_of_nat take_bit_nat_eq_self)

lemma unat_u64_iff: "n = unat (w :: u64) \<longleftrightarrow> n < 2 ^ 64 \<and> w = of_nat n"
  using unsigned_less [of w, where ?'a = nat] by (auto simp: unsigned_of_nat take_bit_nat_eq_self)

lemma unat_u8_iff: "n = unat (b :: u8) \<longleftrightarrow> n < 256 \<and> b = of_nat n"
  using unsigned_less [of b, where ?'a = nat] by (auto simp: unsigned_of_nat take_bit_nat_eq_self)

lemma axis_exact [reads]: "read_axis_topology bs = Inr (axis, rest) \<longleftrightarrow> axis_fits axis \<and> bs = write_axis_topology axis @ rest"
  by (cases axis) (auto simp: read_axis_topology_def write_axis_topology_def write_u8_def unat_u32_iff reads)

lemma topology_exact [reads]:
  "read_horizontal_topology bs = Inr (topology, rest) \<longleftrightarrow> topology_fits topology \<and> bs = write_horizontal_topology topology @ rest"
  by (cases topology) (auto simp: read_horizontal_topology_def write_horizontal_topology_def topology_fits_def reads)

section \<open>Chunk status\<close>

fun chunk_status_tag :: "chunk_status \<Rightarrow> u8" where
  "chunk_status_tag Terrain = 0"
| "chunk_status_tag Surface = 1"
| "chunk_status_tag Features = 2"
| "chunk_status_tag Light = 3"
| "chunk_status_tag Full = 4"
| "chunk_status_tag StructureStarts = 5"
| "chunk_status_tag StructureReferences = 6"

definition read_status :: "chunk_status reader" where
  "read_status = read_tagged [(0, Terrain), (1, Surface), (2, Features), (3, Light), (4, Full), (5, StructureStarts),
     (6, StructureReferences)] UnknownChunkStatus"

interpretation chunk_status: tag_table "[(0, Terrain), (1, Surface), (2, Features), (3, Light), (4, Full),
  (5, StructureStarts), (6, StructureReferences)]" chunk_status_tag
  by (rule tag_tableI, simp, case_tac x, simp_all)

lemma status_exact [reads]: "read_status bs = Inr (status, rest) \<longleftrightarrow> bs = write_u8 (chunk_status_tag status) @ rest"
  unfolding read_status_def by (rule chunk_status.tagged_exact)

section \<open>Packed sections\<close>

text \<open>Lists of fixed-width values: the length, then each of them.\<close>

definition write_section :: "packed_section \<Rightarrow> codec_error + bytes" where
  "write_section s =
     write_then (Inr (write_i32 (ps_section_y s)))
    (write_then (write_len ''section palette'' (length (ps_palette s)))
    (write_then (Inr (concat (map write_u32 (ps_palette s))))
    (write_then (Inr (write_u8 (of_nat (ps_bits_per_block s))))
    (write_then (write_len ''section packed indices'' (length (ps_packed s)))
                (Inr (concat (map write_u64 (ps_packed s))))))))"

definition read_section :: "packed_section reader" where
  "read_section = reading read_i32 (\<lambda>section_y. reading read_len (\<lambda>n. reading (read_many read_u32 n) (\<lambda>palette.
     if palette = [] then refuse (InvalidData ''packed chunk section palette is empty'')
     else reading read_u8 (\<lambda>bits. reading read_len (\<lambda>m. reading (read_many read_u64 m) (\<lambda>packed.
       yield \<lparr>ps_section_y = section_y, ps_palette = palette, ps_bits_per_block = unat bits, ps_packed = packed\<rparr>))))))"

definition write_optional_light_layer :: "string \<Rightarrow> bytes option \<Rightarrow> codec_error + bytes" where
  "write_optional_light_layer field layer = (case layer of
       Some bytes \<Rightarrow> if length bytes \<noteq> light_data_layer_byte_count then Inl (InvalidData field)
         else Inr (write_bool True @ bytes)
     | None \<Rightarrow> Inr (write_bool False))"

definition read_optional_light_layer :: "bytes option reader" where
  "read_optional_light_layer = reading read_bool (\<lambda>present.
     if \<not> present then yield None
     else reading (read_exact light_data_layer_byte_count) (\<lambda>bytes. yield (Some bytes)))"

definition write_light_section :: "packed_light_section \<Rightarrow> codec_error + bytes" where
  "write_light_section s =
     write_then (Inr (write_i32 (pls_section_y s)))
    (write_then (write_optional_light_layer ''sky light layer'' (pls_sky s))
                (write_optional_light_layer ''block light layer'' (pls_block s)))"

text \<open>The layers read have the length that \<open>PackedLightSection::new\<close> asserts.\<close>

definition read_light_section :: "packed_light_section reader" where
  "read_light_section = reading read_i32 (\<lambda>section_y. reading read_optional_light_layer (\<lambda>sky.
     reading read_optional_light_layer (\<lambda>block. yield (the (packed_light_section_new section_y sky block)))))"

definition section_fits :: "packed_section \<Rightarrow> bool" where
  "section_fits s \<longleftrightarrow> in_i32 (ps_section_y s) \<and> ps_palette s \<noteq> [] \<and> length (ps_palette s) < 2 ^ 32
     \<and> ps_bits_per_block s < 256 \<and> length (ps_packed s) < 2 ^ 32"

definition layer_fits :: "bytes option \<Rightarrow> bool" where
  "layer_fits layer \<longleftrightarrow> (case layer of None \<Rightarrow> True | Some bytes \<Rightarrow> length bytes = light_data_layer_byte_count)"

definition light_section_fits :: "packed_light_section \<Rightarrow> bool" where
  "light_section_fits s \<longleftrightarrow> in_i32 (pls_section_y s) \<and> layer_fits (pls_sky s) \<and> layer_fits (pls_block s)"

text \<open>What is written when everything fits.\<close>

definition section_bytes :: "packed_section \<Rightarrow> bytes" where
  "section_bytes s = write_i32 (ps_section_y s) @ write_u32 (of_nat (length (ps_palette s))) @ concat (map write_u32 (ps_palette s))
     @ write_u8 (of_nat (ps_bits_per_block s)) @ write_u32 (of_nat (length (ps_packed s))) @ concat (map write_u64 (ps_packed s))"

definition light_section_bytes :: "packed_light_section \<Rightarrow> bytes" where
  "light_section_bytes s = write_i32 (pls_section_y s) @ write_optional (\<lambda>bytes. bytes) (pls_sky s)
     @ write_optional (\<lambda>bytes. bytes) (pls_block s)"

lemma write_section_ok: "section_fits s \<Longrightarrow> write_section s = Inr (section_bytes s)"
  by (simp add: section_fits_def write_section_def section_bytes_def)

lemma write_light_section_ok: "light_section_fits s \<Longrightarrow> write_light_section s = Inr (light_section_bytes s)"
  by (auto simp: light_section_fits_def layer_fits_def write_light_section_def light_section_bytes_def
      write_optional_light_layer_def write_optional_def split: option.splits)

lemma write_sections_ok: "list_all section_fits xs \<Longrightarrow> write_each write_section xs = Inr (concat (map section_bytes xs))"
  by (auto intro!: write_each_ok simp: list_all_iff write_section_ok)

lemma write_light_sections_ok:
  "list_all light_section_fits xs \<Longrightarrow> write_each write_light_section xs = Inr (concat (map light_section_bytes xs))"
  by (auto intro!: write_each_ok simp: list_all_iff write_light_section_ok)

interpretation u8s: exact_codec write_u8 read_u8 "\<lambda>_. True" by unfold_locales (simp add: reads)
interpretation u32s: exact_codec write_u32 read_u32 "\<lambda>_. True" by unfold_locales (simp add: reads)
interpretation u64s: exact_codec write_u64 read_u64 "\<lambda>_. True" by unfold_locales (simp add: reads)
interpretation i32s: exact_codec write_i32 read_i32 in_i32 by unfold_locales (simp add: reads)

lemma section_exact: "read_section bs = Inr (s, rest) \<longleftrightarrow> section_fits s \<and> bs = section_bytes s @ rest"
  by (cases s) (auto simp: read_section_def section_fits_def section_bytes_def u32s.many_exact u64s.many_exact unat_u8_iff
      list.pred_True reads)

lemma layer_exact [reads]: "read_optional_light_layer bs = Inr (layer, rest)
    \<longleftrightarrow> layer_fits layer \<and> bs = write_optional (\<lambda>bytes. bytes) layer @ rest"
  by (cases layer) (auto simp: read_optional_light_layer_def layer_fits_def write_optional_def reads)

lemma light_section_new: "layer_fits sky \<Longrightarrow> layer_fits block \<Longrightarrow>
    packed_light_section_new y sky block = Some \<lparr>pls_section_y = y, pls_sky = sky, pls_block = block\<rparr>"
  by (auto simp: layer_fits_def packed_light_section_new_def split: option.splits)

lemma light_section_exact: "read_light_section bs = Inr (s, rest) \<longleftrightarrow> light_section_fits s \<and> bs = light_section_bytes s @ rest"
  by (cases s) (auto simp: read_light_section_def light_section_fits_def light_section_bytes_def light_section_new reads
      cong: conj_cong)

interpretation sections: exact_codec section_bytes read_section section_fits
  by unfold_locales (rule section_exact)

interpretation light_sections: exact_codec light_section_bytes read_light_section light_section_fits
  by unfold_locales (rule light_section_exact)

section \<open>Chunk snapshots\<close>

definition write_snapshot :: "chunk_snapshot \<Rightarrow> codec_error + bytes" where
  "write_snapshot s =
     write_then (Inr (write_chunk_pos (cs_pos s) @ write_u8 (chunk_status_tag (cs_status s)) @ write_u64 (of_nat (cs_revision s))
       @ write_i32 (cs_min_y s) @ write_i32 (cs_height s)))
    (write_then (write_len ''chunk biomes'' (length (cs_biomes s)))
    (write_then (Inr (concat (map write_i32 (cs_biomes s))))
    (write_then (write_len ''chunk sections'' (length (cs_sections s)))
    (write_then (write_each write_section (cs_sections s))
    (write_then (Inr (write_bool (cs_light_correct s)))
    (write_then (write_len ''light sections'' (length (cs_light_sections s)))
                (write_each write_light_section (cs_light_sections s))))))))"

definition read_snapshot :: "chunk_snapshot reader" where
  "read_snapshot = reading read_chunk_pos (\<lambda>pos. reading read_status (\<lambda>status. reading read_u64 (\<lambda>revision.
     reading read_i32 (\<lambda>min_y. reading read_i32 (\<lambda>height.
     reading read_len (\<lambda>n. reading (read_many read_i32 n) (\<lambda>biomes.
     reading read_len (\<lambda>n. reading (read_many read_section n) (\<lambda>sections.
     reading read_bool (\<lambda>light_correct.
     reading read_len (\<lambda>n. reading (read_many read_light_section n) (\<lambda>light_sections.
     yield \<lparr>cs_pos = pos, cs_status = status, cs_revision = unat revision, cs_min_y = min_y, cs_height = height,
       cs_biomes = biomes, cs_sections = sections, cs_light_correct = light_correct,
       cs_light_sections = light_sections\<rparr>))))))))))))"

definition snapshot_fits :: "chunk_snapshot \<Rightarrow> bool" where
  "snapshot_fits s \<longleftrightarrow> chunk_pos_fits (cs_pos s) \<and> cs_revision s < 2 ^ 64 \<and> in_i32 (cs_min_y s) \<and> in_i32 (cs_height s)
     \<and> length (cs_biomes s) < 2 ^ 32 \<and> list_all in_i32 (cs_biomes s)
     \<and> length (cs_sections s) < 2 ^ 32 \<and> list_all section_fits (cs_sections s)
     \<and> length (cs_light_sections s) < 2 ^ 32 \<and> list_all light_section_fits (cs_light_sections s)"

definition snapshot_bytes :: "chunk_snapshot \<Rightarrow> bytes" where
  "snapshot_bytes s = write_chunk_pos (cs_pos s) @ write_u8 (chunk_status_tag (cs_status s)) @ write_u64 (of_nat (cs_revision s))
     @ write_i32 (cs_min_y s) @ write_i32 (cs_height s)
     @ write_u32 (of_nat (length (cs_biomes s))) @ concat (map write_i32 (cs_biomes s))
     @ write_u32 (of_nat (length (cs_sections s))) @ concat (map section_bytes (cs_sections s))
     @ write_bool (cs_light_correct s)
     @ write_u32 (of_nat (length (cs_light_sections s))) @ concat (map light_section_bytes (cs_light_sections s))"

lemma write_snapshot_ok: "snapshot_fits s \<Longrightarrow> write_snapshot s = Inr (snapshot_bytes s)"
  by (simp add: snapshot_fits_def write_snapshot_def snapshot_bytes_def write_sections_ok write_light_sections_ok)

lemma snapshot_exact [reads]: "read_snapshot bs = Inr (s, rest) \<longleftrightarrow> snapshot_fits s \<and> bs = snapshot_bytes s @ rest"
  by (cases s) (auto simp: read_snapshot_def snapshot_fits_def snapshot_bytes_def i32s.many_exact sections.many_exact
      light_sections.many_exact unat_u64_iff reads)

section \<open>Block updates\<close>

definition validate_section_block_update :: "section_block_update \<Rightarrow> codec_error + unit" where
  "validate_section_block_update update =
     (if chunk_width \<le> int (sbu_x update) then Inl (InvalidData ''section update local_x'')
      else if section_height \<le> int (sbu_y update) then Inl (InvalidData ''section update local_y'')
      else if chunk_width \<le> int (sbu_z update) then Inl (InvalidData ''section update local_z'')
      else Inr ())"

definition write_section_block_update :: "section_block_update \<Rightarrow> bytes" where
  "write_section_block_update update = write_u8 (of_nat (sbu_x update)) @ write_u8 (of_nat (sbu_y update))
     @ write_u8 (of_nat (sbu_z update)) @ write_u32 (sbu_state update)"

definition read_section_block_update :: "section_block_update reader" where
  "read_section_block_update = reading read_u8 (\<lambda>x. reading read_u8 (\<lambda>y. reading read_u8 (\<lambda>z. reading read_u32 (\<lambda>block_state.
     let update = \<lparr>sbu_x = unat x, sbu_y = unat y, sbu_z = unat z, sbu_state = block_state\<rparr> in
     ensuring (validate_section_block_update update) (yield update)))))"

definition block_update_fits :: "section_block_update \<Rightarrow> bool" where
  "block_update_fits update \<longleftrightarrow> validate_section_block_update update = Inr ()"

lemma u8_of_nat: "n < 256 \<Longrightarrow> unat (of_nat n :: u8) = n" "n < 256 \<Longrightarrow> uint (of_nat n :: u8) = int n"
  by (simp_all add: unsigned_of_nat take_bit_nat_eq_self)

lemma block_update_exact: "read_section_block_update bs = Inr (update, rest)
    \<longleftrightarrow> block_update_fits update \<and> bs = write_section_block_update update @ rest"
  by (cases update) (auto simp: read_section_block_update_def write_section_block_update_def block_update_fits_def
      validate_section_block_update_def unat_u8_iff u8_of_nat reads split: if_splits)

interpretation block_updates: exact_codec write_section_block_update read_section_block_update block_update_fits
  by unfold_locales (rule block_update_exact)

lemma streaming_chunks [streams]: "streaming read_axis_topology" "streaming read_horizontal_topology" "streaming read_status"
  "streaming read_section" "streaming read_light_section" "streaming read_snapshot" "streaming read_section_block_update"
  unfolding read_horizontal_topology_def read_axis_topology_def read_status_def read_section_def read_light_section_def
    read_optional_light_layer_def read_snapshot_def read_section_block_update_def
  by (intro streams)+

end
