(* ===== verification/ProtocolEntities.thy ===== *)
theory ProtocolEntities imports ProtocolChunks CoreNames
begin

text \<open>
  Entities on the wire: kinds, item stacks, the species data of
  \<open>native/crates/mclone-protocol/src/ecology.rs\<close>, animation states of \<open>mclone-core\<close>, and the snapshot and
  update messages of \<open>lib.rs\<close> with the validation that both sides run.
\<close>

section \<open>Kinds\<close>

datatype entity_kind = KindCow | KindChicken | KindMallard | KindMallardNest | KindMannequin | KindDebugCube | KindItem
  | KindDeer | KindDeerBed | KindBee | KindBeeNest | KindBeeHotel | KindRabbit | KindRabbitBurrow | KindWildlifeRemains
  | KindSleepingMat | KindSquirrel

fun entity_kind_tag :: "entity_kind \<Rightarrow> u8" where
  "entity_kind_tag KindCow = 0"
| "entity_kind_tag KindChicken = 1"
| "entity_kind_tag KindDebugCube = 2"
| "entity_kind_tag KindItem = 3"
| "entity_kind_tag KindMannequin = 4"
| "entity_kind_tag KindMallard = 5"
| "entity_kind_tag KindMallardNest = 6"
| "entity_kind_tag KindDeer = 7"
| "entity_kind_tag KindDeerBed = 8"
| "entity_kind_tag KindBee = 9"
| "entity_kind_tag KindBeeNest = 10"
| "entity_kind_tag KindBeeHotel = 11"
| "entity_kind_tag KindRabbit = 12"
| "entity_kind_tag KindRabbitBurrow = 13"
| "entity_kind_tag KindWildlifeRemains = 14"
| "entity_kind_tag KindSleepingMat = 15"
| "entity_kind_tag KindSquirrel = 16"

definition entity_kind_arms :: "(u8 \<times> entity_kind) list" where
  "entity_kind_arms = [(0, KindCow), (1, KindChicken), (2, KindDebugCube), (3, KindItem), (4, KindMannequin), (5, KindMallard),
     (6, KindMallardNest), (7, KindDeer), (8, KindDeerBed), (9, KindBee), (10, KindBeeNest), (11, KindBeeHotel), (12, KindRabbit),
     (13, KindRabbitBurrow), (14, KindWildlifeRemains), (15, KindSleepingMat), (16, KindSquirrel)]"

definition read_entity_kind :: "entity_kind reader" where
  "read_entity_kind = read_tagged entity_kind_arms UnknownEntityKind"

fun item_kind_tag :: "item_kind \<Rightarrow> u8" where
  "item_kind_tag Egg = 0"
| "item_kind_tag MallardEgg = 1"
| "item_kind_tag MallardFeather = 2"
| "item_kind_tag HuntingSpear = 3"
| "item_kind_tag Venison = 4"
| "item_kind_tag DeerHide = 5"
| "item_kind_tag ShedAntler = 6"
| "item_kind_tag BeeHotel = 7"
| "item_kind_tag Beeswax = 8"
| "item_kind_tag WoodenHoe = 9"
| "item_kind_tag WheatSeeds = 10"
| "item_kind_tag Wheat = 11"
| "item_kind_tag Carrot = 12"
| "item_kind_tag OakFence = 13"
| "item_kind_tag OakFenceGate = 14"
| "item_kind_tag SleepingMat = 15"

definition item_kind_arms :: "(u8 \<times> item_kind) list" where
  "item_kind_arms = [(0, Egg), (1, MallardEgg), (2, MallardFeather), (3, HuntingSpear), (4, Venison), (5, DeerHide),
     (6, ShedAntler), (7, BeeHotel), (8, Beeswax), (9, WoodenHoe), (10, WheatSeeds), (11, Wheat), (12, Carrot),
     (13, OakFence), (14, OakFenceGate), (15, SleepingMat)]"

definition read_item_kind :: "item_kind reader" where
  "read_item_kind = read_tagged item_kind_arms UnknownItemKind"

interpretation entity_kind: tag_table entity_kind_arms entity_kind_tag
  unfolding entity_kind_arms_def by (rule tag_tableI, simp, case_tac x, simp_all)

interpretation item_kind: tag_table item_kind_arms item_kind_tag
  unfolding item_kind_arms_def by (rule tag_tableI, simp, case_tac x, simp_all)

section \<open>Item stacks\<close>

definition validate_item_stack_snapshot :: "item_stack \<Rightarrow> codec_error + unit" where
  "validate_item_stack_snapshot stack =
     (if is_count stack = 0 then Inl (InvalidData ''item stack snapshot has zero count'') else Inr ())"

definition write_item_stack :: "item_stack \<Rightarrow> bytes" where
  "write_item_stack stack = write_u8 (item_kind_tag (is_kind stack)) @ write_u8 (of_nat (is_count stack))"

definition write_optional_item_stack_snapshot :: "item_stack option \<Rightarrow> bytes" where
  "write_optional_item_stack_snapshot = write_optional write_item_stack"

definition read_item_stack :: "item_stack reader" where
  "read_item_stack = reading read_item_kind (\<lambda>kind. reading read_u8 (\<lambda>count.
     let stack = \<lparr>is_kind = kind, is_count = unat count\<rparr> in ensuring (validate_item_stack_snapshot stack) (yield stack)))"

definition read_optional_item_stack_snapshot :: "item_stack option reader" where
  "read_optional_item_stack_snapshot = read_optional read_item_stack"

definition stack_fits :: "item_stack \<Rightarrow> bool" where
  "stack_fits stack \<longleftrightarrow> 0 < is_count stack \<and> is_count stack < 256"

lemma item_stack_exact: "read_item_stack bs = Inr (stack, rest) \<longleftrightarrow> stack_fits stack \<and> bs = write_item_stack stack @ rest"
  by (cases stack) (auto simp: read_item_stack_def write_item_stack_def stack_fits_def validate_item_stack_snapshot_def
      read_item_kind_def item_kind.tagged_exact unat_u8_iff u8_of_nat reads split: if_splits)

interpretation item_stacks: exact_codec write_item_stack read_item_stack stack_fits
  by unfold_locales (rule item_stack_exact)

section \<open>Species\<close>

datatype mallard_life_stage = Duckling | MallardAdult
datatype deer_sex = DeerFemale | DeerMale
datatype deer_life_stage = Fawn | DeerAdult
datatype deer_behavior = DeerIdle | DeerWalk | DeerGraze | DeerDrink | DeerAlert | DeerFlee | DeerLieDown | DeerBedded
  | DeerStandUp | DeerHit | DeerFall
datatype squirrel_sex = SquirrelFemale | SquirrelMale
datatype squirrel_life_stage = SquirrelKit | SquirrelAdult
datatype squirrel_behavior = SquirrelIdle | SquirrelBound | SquirrelForage | SquirrelAlarm | SquirrelFlee
  | SquirrelTrunkApproach | SquirrelClimb | SquirrelRefugeEnter | SquirrelRefugeIdle | SquirrelRefugeExit
datatype squirrel_retained_intent = GroundForage | CoverEscape | TreeRefuge

text \<open>The snapshot and the update struct of a mallard and of its nest have the same fields.\<close>

record mallard_data =
  ml_life_stage :: mallard_life_stage
  ml_in_water :: bool

record mallard_nest_data =
  mn_progress :: u32
  mn_required :: u32
  mn_attended :: bool

record deer_data =
  de_sex :: deer_sex
  de_life_stage :: deer_life_stage
  de_antlered :: bool
  de_behavior :: deer_behavior
  de_health :: u8
  de_max_health :: u8

record squirrel_data =
  sq_sex :: squirrel_sex
  sq_age_ticks :: u32
  sq_life_stage :: squirrel_life_stage
  sq_condition :: "16 word"
  sq_behavior :: squirrel_behavior
  sq_behavior_epoch :: u32
  sq_retained_intent :: "squirrel_retained_intent option"
  sq_refuge :: "block_pos option"

fun mallard_life_stage_tag :: "mallard_life_stage \<Rightarrow> u8" where
  "mallard_life_stage_tag Duckling = 0"
| "mallard_life_stage_tag MallardAdult = 1"

fun deer_sex_tag :: "deer_sex \<Rightarrow> u8" where
  "deer_sex_tag DeerFemale = 0"
| "deer_sex_tag DeerMale = 1"

fun deer_life_stage_tag :: "deer_life_stage \<Rightarrow> u8" where
  "deer_life_stage_tag Fawn = 0"
| "deer_life_stage_tag DeerAdult = 1"

fun deer_behavior_tag :: "deer_behavior \<Rightarrow> u8" where
  "deer_behavior_tag DeerIdle = 0"
| "deer_behavior_tag DeerWalk = 1"
| "deer_behavior_tag DeerGraze = 2"
| "deer_behavior_tag DeerDrink = 10"
| "deer_behavior_tag DeerAlert = 3"
| "deer_behavior_tag DeerFlee = 4"
| "deer_behavior_tag DeerLieDown = 5"
| "deer_behavior_tag DeerBedded = 6"
| "deer_behavior_tag DeerStandUp = 7"
| "deer_behavior_tag DeerHit = 8"
| "deer_behavior_tag DeerFall = 9"

fun squirrel_sex_tag :: "squirrel_sex \<Rightarrow> u8" where
  "squirrel_sex_tag SquirrelFemale = 0"
| "squirrel_sex_tag SquirrelMale = 1"

fun squirrel_life_stage_tag :: "squirrel_life_stage \<Rightarrow> u8" where
  "squirrel_life_stage_tag SquirrelKit = 0"
| "squirrel_life_stage_tag SquirrelAdult = 1"

fun squirrel_behavior_tag :: "squirrel_behavior \<Rightarrow> u8" where
  "squirrel_behavior_tag SquirrelIdle = 0"
| "squirrel_behavior_tag SquirrelBound = 1"
| "squirrel_behavior_tag SquirrelForage = 2"
| "squirrel_behavior_tag SquirrelAlarm = 3"
| "squirrel_behavior_tag SquirrelFlee = 4"
| "squirrel_behavior_tag SquirrelTrunkApproach = 5"
| "squirrel_behavior_tag SquirrelClimb = 6"
| "squirrel_behavior_tag SquirrelRefugeEnter = 7"
| "squirrel_behavior_tag SquirrelRefugeIdle = 8"
| "squirrel_behavior_tag SquirrelRefugeExit = 9"

fun squirrel_intent_tag :: "squirrel_retained_intent option \<Rightarrow> u8" where
  "squirrel_intent_tag None = 0"
| "squirrel_intent_tag (Some GroundForage) = 1"
| "squirrel_intent_tag (Some CoverEscape) = 2"
| "squirrel_intent_tag (Some TreeRefuge) = 3"

definition deer_behavior_arms :: "(u8 \<times> deer_behavior) list" where
  "deer_behavior_arms = [(0, DeerIdle), (1, DeerWalk), (2, DeerGraze), (10, DeerDrink), (3, DeerAlert), (4, DeerFlee),
     (5, DeerLieDown), (6, DeerBedded), (7, DeerStandUp), (8, DeerHit), (9, DeerFall)]"

definition squirrel_behavior_arms :: "(u8 \<times> squirrel_behavior) list" where
  "squirrel_behavior_arms = [(0, SquirrelIdle), (1, SquirrelBound), (2, SquirrelForage), (3, SquirrelAlarm), (4, SquirrelFlee),
     (5, SquirrelTrunkApproach), (6, SquirrelClimb), (7, SquirrelRefugeEnter), (8, SquirrelRefugeIdle), (9, SquirrelRefugeExit)]"

interpretation mallard_stage: tag_table "[(0, Duckling), (1, MallardAdult)]" mallard_life_stage_tag
  by (rule tag_tableI, simp, case_tac x, simp_all)

interpretation deer_sex: tag_table "[(0, DeerFemale), (1, DeerMale)]" deer_sex_tag
  by (rule tag_tableI, simp, case_tac x, simp_all)

interpretation deer_stage: tag_table "[(0, Fawn), (1, DeerAdult)]" deer_life_stage_tag
  by (rule tag_tableI, simp, case_tac x, simp_all)

interpretation deer_behavior: tag_table deer_behavior_arms deer_behavior_tag
  unfolding deer_behavior_arms_def by (rule tag_tableI, simp, case_tac x, simp_all)

interpretation squirrel_sex: tag_table "[(0, SquirrelFemale), (1, SquirrelMale)]" squirrel_sex_tag
  by (rule tag_tableI, simp, case_tac x, simp_all)

interpretation squirrel_stage: tag_table "[(0, SquirrelKit), (1, SquirrelAdult)]" squirrel_life_stage_tag
  by (rule tag_tableI, simp, case_tac x, simp_all)

interpretation squirrel_behavior: tag_table squirrel_behavior_arms squirrel_behavior_tag
  unfolding squirrel_behavior_arms_def by (rule tag_tableI, simp, case_tac x, simp_all)

interpretation squirrel_intent: tag_table "[(0, None), (1, Some GroundForage), (2, Some CoverEscape), (3, Some TreeRefuge)]"
  squirrel_intent_tag
  by (rule tag_tableI, simp, case_tac x rule: squirrel_intent_tag.cases, simp_all)

lemmas species_tags = mallard_stage.tagged_exact deer_sex.tagged_exact deer_stage.tagged_exact deer_behavior.tagged_exact
  squirrel_sex.tagged_exact squirrel_stage.tagged_exact squirrel_behavior.tagged_exact squirrel_intent.tagged_exact

section \<open>Species data on the wire\<close>

definition write_mallard_data :: "mallard_data \<Rightarrow> bytes" where
  "write_mallard_data d = write_u8 (mallard_life_stage_tag (ml_life_stage d)) @ write_bool (ml_in_water d)"

definition write_mallard_nest_data :: "mallard_nest_data \<Rightarrow> bytes" where
  "write_mallard_nest_data d = write_u32 (mn_progress d) @ write_u32 (mn_required d) @ write_bool (mn_attended d)"

definition write_deer_data :: "deer_data \<Rightarrow> bytes" where
  "write_deer_data d = write_u8 (deer_sex_tag (de_sex d)) @ write_u8 (deer_life_stage_tag (de_life_stage d))
     @ write_bool (de_antlered d) @ write_u8 (deer_behavior_tag (de_behavior d)) @ write_u8 (de_health d) @ write_u8 (de_max_health d)"

definition write_squirrel_data :: "squirrel_data \<Rightarrow> bytes" where
  "write_squirrel_data d = write_u8 (squirrel_sex_tag (sq_sex d)) @ write_u32 (sq_age_ticks d)
     @ write_u8 (squirrel_life_stage_tag (sq_life_stage d)) @ write_u16 (sq_condition d)
     @ write_u8 (squirrel_behavior_tag (sq_behavior d)) @ write_u32 (sq_behavior_epoch d)
     @ write_u8 (squirrel_intent_tag (sq_retained_intent d)) @ write_optional write_block_pos (sq_refuge d)"

definition write_optional_mallard_data :: "mallard_data option \<Rightarrow> bytes" where
  "write_optional_mallard_data = write_optional write_mallard_data"

definition write_optional_mallard_nest_data :: "mallard_nest_data option \<Rightarrow> bytes" where
  "write_optional_mallard_nest_data = write_optional write_mallard_nest_data"

definition write_optional_deer_data :: "deer_data option \<Rightarrow> bytes" where
  "write_optional_deer_data = write_optional write_deer_data"

definition write_optional_squirrel_data :: "squirrel_data option \<Rightarrow> bytes" where
  "write_optional_squirrel_data = write_optional write_squirrel_data"

definition read_mallard_life_stage :: "mallard_life_stage reader" where
  "read_mallard_life_stage = read_tagged [(0, Duckling), (1, MallardAdult)] (\<lambda>_. InvalidData ''unknown mallard life stage'')"

definition read_mallard_data :: "mallard_data reader" where
  "read_mallard_data = reading read_mallard_life_stage (\<lambda>stage. reading read_bool (\<lambda>in_water.
     yield \<lparr>ml_life_stage = stage, ml_in_water = in_water\<rparr>))"

definition read_mallard_nest_data :: "mallard_nest_data reader" where
  "read_mallard_nest_data = reading read_u32 (\<lambda>progress. reading read_u32 (\<lambda>required. reading read_bool (\<lambda>attended.
     yield \<lparr>mn_progress = progress, mn_required = required, mn_attended = attended\<rparr>)))"

text \<open>The two conditions are written out twice in the code, in the reader and in the validation.\<close>

definition deer_consistent :: "deer_data \<Rightarrow> bool" where
  "deer_consistent d \<longleftrightarrow> \<not> (de_max_health d = 0 \<or> de_max_health d < de_health d
     \<or> de_antlered d \<and> (de_sex d \<noteq> DeerMale \<or> de_life_stage d \<noteq> DeerAdult))"

definition squirrel_consistent :: "squirrel_data \<Rightarrow> bool" where
  "squirrel_consistent d \<longleftrightarrow> \<not> (1000 < sq_condition d \<or> sq_behavior d = SquirrelRefugeIdle \<and> sq_refuge d = None)"

definition read_deer_data :: "deer_data reader" where
  "read_deer_data =
     reading (read_tagged [(0, DeerFemale), (1, DeerMale)] (\<lambda>_. InvalidData ''unknown deer sex'')) (\<lambda>sex.
     reading (read_tagged [(0, Fawn), (1, DeerAdult)] (\<lambda>_. InvalidData ''unknown deer life stage'')) (\<lambda>stage.
     reading read_bool (\<lambda>antlered.
     reading (read_tagged deer_behavior_arms (\<lambda>_. InvalidData ''unknown deer behavior'')) (\<lambda>behavior.
     reading read_u8 (\<lambda>health. reading read_u8 (\<lambda>max_health.
     let data = \<lparr>de_sex = sex, de_life_stage = stage, de_antlered = antlered, de_behavior = behavior,
       de_health = health, de_max_health = max_health\<rparr> in
     ensuring (require (deer_consistent data) ''deer update has invalid biological state'') (yield data)))))))"

definition read_squirrel_data :: "squirrel_data reader" where
  "read_squirrel_data =
     reading (read_tagged [(0, SquirrelFemale), (1, SquirrelMale)] (\<lambda>_. InvalidData ''unknown squirrel sex'')) (\<lambda>sex.
     reading read_u32 (\<lambda>age_ticks.
     reading (read_tagged [(0, SquirrelKit), (1, SquirrelAdult)] (\<lambda>_. InvalidData ''unknown squirrel life stage'')) (\<lambda>stage.
     reading read_u16 (\<lambda>condition.
     reading (read_tagged squirrel_behavior_arms (\<lambda>_. InvalidData ''unknown squirrel behavior'')) (\<lambda>behavior.
     reading read_u32 (\<lambda>behavior_epoch.
     reading (read_tagged [(0, None), (1, Some GroundForage), (2, Some CoverEscape), (3, Some TreeRefuge)]
       (\<lambda>_. InvalidData ''unknown squirrel retained intent'')) (\<lambda>intent.
     reading (read_optional read_block_pos) (\<lambda>refuge.
     let data = \<lparr>sq_sex = sex, sq_age_ticks = age_ticks, sq_life_stage = stage, sq_condition = condition,
       sq_behavior = behavior, sq_behavior_epoch = behavior_epoch, sq_retained_intent = intent, sq_refuge = refuge\<rparr> in
     ensuring (require (squirrel_consistent data) ''squirrel update has invalid biological or refuge state'') (yield data)))))))))"

definition read_optional_mallard_data :: "mallard_data option reader" where
  "read_optional_mallard_data = read_optional read_mallard_data"

definition read_optional_mallard_nest_data :: "mallard_nest_data option reader" where
  "read_optional_mallard_nest_data = read_optional read_mallard_nest_data"

definition read_optional_deer_data :: "deer_data option reader" where
  "read_optional_deer_data = read_optional read_deer_data"

definition read_optional_squirrel_data :: "squirrel_data option reader" where
  "read_optional_squirrel_data = read_optional read_squirrel_data"

definition refuge_fits :: "squirrel_data \<Rightarrow> bool" where
  "refuge_fits d \<longleftrightarrow> pred_option block_pos_fits (sq_refuge d)"

interpretation block_positions: exact_codec write_block_pos read_block_pos block_pos_fits
  by unfold_locales (rule block_pos_exact)

interpretation mallards: exact_codec write_mallard_data read_mallard_data "\<lambda>_. True"
  by unfold_locales (case_tac x, auto simp: read_mallard_data_def read_mallard_life_stage_def write_mallard_data_def species_tags reads)

interpretation mallard_nests: exact_codec write_mallard_nest_data read_mallard_nest_data "\<lambda>_. True"
  by unfold_locales (case_tac x, auto simp: read_mallard_nest_data_def write_mallard_nest_data_def reads)

interpretation deers: exact_codec write_deer_data read_deer_data deer_consistent
  by unfold_locales (case_tac x, auto simp: read_deer_data_def write_deer_data_def species_tags reads)

interpretation squirrels: exact_codec write_squirrel_data read_squirrel_data "\<lambda>d. squirrel_consistent d \<and> refuge_fits d"
proof (unfold_locales, goal_cases)
  case (1 bs d rest)
  show ?case
    by (cases d) (auto simp: read_squirrel_data_def write_squirrel_data_def refuge_fits_def species_tags
        block_positions.optional_exact yield_reads reading_reads ensuring_reads let_reads u32_exact u16_exact)
qed

lemma optional_species_exact [reads]:
  "read_optional_mallard_data bs = Inr (x, rest) \<longleftrightarrow> bs = write_optional_mallard_data x @ rest"
  "read_optional_mallard_nest_data bs = Inr (y, rest) \<longleftrightarrow> bs = write_optional_mallard_nest_data y @ rest"
  "read_optional_deer_data bs = Inr (d, rest) \<longleftrightarrow> pred_option deer_consistent d \<and> bs = write_optional_deer_data d @ rest"
  "read_optional_squirrel_data bs = Inr (s, rest) \<longleftrightarrow> pred_option (\<lambda>d. squirrel_consistent d \<and> refuge_fits d) s
     \<and> bs = write_optional_squirrel_data s @ rest"
  "read_optional_item_stack_snapshot bs = Inr (stack, rest) \<longleftrightarrow> pred_option stack_fits stack
     \<and> bs = write_optional_item_stack_snapshot stack @ rest"
  unfolding read_optional_mallard_data_def read_optional_mallard_nest_data_def read_optional_deer_data_def
    read_optional_squirrel_data_def read_optional_item_stack_snapshot_def write_optional_mallard_data_def
    write_optional_mallard_nest_data_def write_optional_deer_data_def write_optional_squirrel_data_def
    write_optional_item_stack_snapshot_def
  by (simp_all add: mallards.optional_exact mallard_nests.optional_exact deers.optional_exact squirrels.optional_exact
      item_stacks.optional_exact option.pred_True)

section \<open>Animation and rotation\<close>

datatype animation_phase_source = PhaseDistance | PhaseElapsed

record animation_state =
  an_clip :: animation_clip_id
  an_phase_source :: animation_phase_source
  an_epoch :: u32
  an_start_tick :: u64

record entity_rotation =
  ro_x :: u32
  ro_y :: u32
  ro_z :: u32
  ro_w :: u32

text \<open>The text of a clip; where \<open>as_str\<close> panics, which no parsed clip makes it do, it is empty here.\<close>

definition clip_str :: "animation_clip_id \<Rightarrow> bytes" where
  "clip_str clip = (case clip_as_str clip of Some s \<Rightarrow> s | None \<Rightarrow> [])"

fun phase_source_tag :: "animation_phase_source \<Rightarrow> u8" where
  "phase_source_tag PhaseDistance = 0"
| "phase_source_tag PhaseElapsed = 1"

interpretation phase_source: tag_table "[(0, PhaseDistance), (1, PhaseElapsed)]" phase_source_tag
  by (rule tag_tableI, simp, case_tac x, simp_all)

definition write_optional_animation_state :: "animation_state option \<Rightarrow> codec_error + bytes" where
  "write_optional_animation_state state = (case state of
       None \<Rightarrow> Inr (write_bool False)
     | Some s \<Rightarrow> write_then (Inr (write_bool True)) (write_then (write_string ''animation clip id'' (clip_str (an_clip s)))
         (Inr (write_u8 (phase_source_tag (an_phase_source s)) @ write_u32 (an_epoch s) @ write_u64 (an_start_tick s)))))"

definition parse_wire_clip :: "bytes \<Rightarrow> codec_error + animation_clip_id" where
  "parse_wire_clip name = (case clip_parse name of
     Inl _ \<Rightarrow> Inl (InvalidData ''entity animation has invalid clip id'') | Inr clip \<Rightarrow> Inr clip)"

definition phase_consistent :: "animation_state \<Rightarrow> bool" where
  "phase_consistent s \<longleftrightarrow> \<not> (an_phase_source s = PhaseDistance \<and> an_start_tick s \<noteq> 0)"

definition read_animation_state :: "animation_state reader" where
  "read_animation_state = reading (read_string ''animation clip id'' max_animation_clip_id_bytes) (\<lambda>name.
     attempt (parse_wire_clip name) (\<lambda>clip.
     reading (read_tagged [(0, PhaseDistance), (1, PhaseElapsed)]
       (\<lambda>_. InvalidData ''entity animation has unknown phase source'')) (\<lambda>source.
     reading read_u32 (\<lambda>epoch. reading read_u64 (\<lambda>start_tick.
     let state = \<lparr>an_clip = clip, an_phase_source = source, an_epoch = epoch, an_start_tick = start_tick\<rparr> in
     ensuring (require (phase_consistent state) ''distance animation must not carry an elapsed start tick'') (yield state))))))"

definition read_optional_animation_state :: "animation_state option reader" where
  "read_optional_animation_state = read_optional read_animation_state"

definition write_entity_rotation :: "entity_rotation \<Rightarrow> bytes" where
  "write_entity_rotation r = write_f32 (ro_x r) @ write_f32 (ro_y r) @ write_f32 (ro_z r) @ write_f32 (ro_w r)"

definition write_optional_entity_rotation :: "entity_rotation option \<Rightarrow> bytes" where
  "write_optional_entity_rotation = write_optional write_entity_rotation"

definition read_entity_rotation :: "entity_rotation reader" where
  "read_entity_rotation = reading read_f32 (\<lambda>x. reading read_f32 (\<lambda>y. reading read_f32 (\<lambda>z. reading read_f32 (\<lambda>w.
     yield \<lparr>ro_x = x, ro_y = y, ro_z = z, ro_w = w\<rparr>))))"

definition read_optional_entity_rotation :: "entity_rotation option reader" where
  "read_optional_entity_rotation = read_optional read_entity_rotation"

definition rotation_len_sqr :: "entity_rotation \<Rightarrow> nat option" where
  "rotation_len_sqr r = f32_sum (f32_sum (f32_sum (f32_square (ro_x r)) (f32_square (ro_y r))) (f32_square (ro_z r)))
     (f32_square (ro_w r))"

definition validate_optional_entity_rotation :: "entity_rotation option \<Rightarrow> codec_error + unit" where
  "validate_optional_entity_rotation rotation = (case rotation of None \<Rightarrow> Inr () | Some r \<Rightarrow> checks
     [require (f32_is_finite (ro_x r) \<and> f32_is_finite (ro_y r) \<and> f32_is_finite (ro_z r) \<and> f32_is_finite (ro_w r))
        ''entity rotation contains non-finite value'',
      require (case rotation_len_sqr r of None \<Rightarrow> True | Some len \<Rightarrow> f32_epsilon < len) ''entity rotation has zero length''])"

text \<open>The bytes of an animation: the text of a clip is never too long for its length field.\<close>

definition animation_bytes :: "animation_state \<Rightarrow> bytes" where
  "animation_bytes s = string_bytes (clip_str (an_clip s)) @ write_u8 (phase_source_tag (an_phase_source s))
     @ write_u32 (an_epoch s) @ write_u64 (an_start_tick s)"

definition clip_canonical :: "animation_clip_id \<Rightarrow> bool" where
  "clip_canonical clip \<longleftrightarrow> clip_parse (clip_str clip) = Inr clip"

lemma clip_str_length: "length (clip_str clip) < 2 ^ 32"
  using unat_u8_less [of "clip_len clip"]
  by (auto simp: clip_str_def clip_as_str_def assert_that_def bind_eq_Some_conv Let_def split: option.splits if_splits)

lemma clip_parse_iff: "clip_parse name = Inr clip \<longleftrightarrow> clip_canonical clip \<and> name = clip_str clip"
  using clip_parse_roundtrip [of name clip] by (auto simp: clip_canonical_def clip_str_def)

lemma clip_text: "clip_canonical clip \<Longrightarrow> length (clip_str clip) \<le> 48 \<and> valid_utf8 (clip_str clip)"
  by (auto simp: clip_canonical_def clip_parse_def list_all_iff valid_clip_byte_ascii intro!: valid_utf8_ascii split: if_splits)

lemma write_animation_ok: "write_optional_animation_state s = Inr (write_optional animation_bytes s)"
  using clip_str_length by (auto simp: write_optional_animation_state_def write_optional_def animation_bytes_def split: option.splits)

lemma parse_wire_clip_iff [simp]: "parse_wire_clip name = Inr clip \<longleftrightarrow> clip_canonical clip \<and> name = clip_str clip"
  unfolding clip_parse_iff [symmetric] by (auto simp: parse_wire_clip_def split: sum.splits)

interpretation animations: exact_codec animation_bytes read_animation_state "\<lambda>s. clip_canonical (an_clip s) \<and> phase_consistent s"
  by unfold_locales (case_tac x, auto simp: read_animation_state_def animation_bytes_def phase_source.tagged_exact reads
    dest: clip_text)

interpretation rotations: exact_codec write_entity_rotation read_entity_rotation "\<lambda>_. True"
  by unfold_locales (case_tac x, auto simp: read_entity_rotation_def write_entity_rotation_def reads)

lemma optional_pose_exact [reads]:
  "read_optional_animation_state bs = Inr (x, rest) \<longleftrightarrow> pred_option (\<lambda>s. clip_canonical (an_clip s) \<and> phase_consistent s) x
     \<and> bs = projr (write_optional_animation_state x) @ rest"
  "read_optional_entity_rotation bs = Inr (r, rest) \<longleftrightarrow> bs = write_optional_entity_rotation r @ rest"
  unfolding read_optional_animation_state_def read_optional_entity_rotation_def write_optional_entity_rotation_def
  by (simp_all add: animations.optional_exact rotations.optional_exact write_animation_ok option.pred_True)

section \<open>Entity messages\<close>

record entity_persistent_id =
  pi_most :: u64
  pi_least :: u64

record entity_update =
  eu_id :: u64
  eu_item_stack :: "item_stack option"
  eu_mallard :: "mallard_data option"
  eu_mallard_nest :: "mallard_nest_data option"
  eu_deer :: "deer_data option"
  eu_squirrel :: "squirrel_data option"
  eu_animation :: "animation_state option"
  eu_position :: vec3d
  eu_y_rot :: u32
  eu_x_rot :: u32
  eu_rotation :: "entity_rotation option"
  eu_on_ground :: bool
  eu_tick_count :: u64

record entity_snapshot =
  es_id :: u64
  es_persistent_id :: entity_persistent_id
  es_kind :: entity_kind
  es_item_stack :: "item_stack option"
  es_mallard :: "mallard_data option"
  es_mallard_nest :: "mallard_nest_data option"
  es_deer :: "deer_data option"
  es_squirrel :: "squirrel_data option"
  es_animation :: "animation_state option"
  es_position :: vec3d
  es_y_rot :: u32
  es_x_rot :: u32
  es_rotation :: "entity_rotation option"
  es_on_ground :: bool
  es_width :: u32
  es_height :: u32
  es_tick_count :: u64

definition when_some :: "'a option \<Rightarrow> ('a \<Rightarrow> codec_error + unit) \<Rightarrow> codec_error + unit" where
  "when_some x check = (case x of None \<Rightarrow> Inr () | Some y \<Rightarrow> check y)"

definition validate_animation :: "animation_state \<Rightarrow> codec_error + unit" where
  "validate_animation s = checks
     [case parse_wire_clip (clip_str (an_clip s)) of Inl e \<Rightarrow> Inl e | Inr _ \<Rightarrow> Inr (),
      require (phase_consistent s) ''distance animation must not carry an elapsed start tick'']"

definition validate_entity_update :: "entity_update \<Rightarrow> codec_error + unit" where
  "validate_entity_update u = checks
     [when_some (eu_item_stack u) validate_item_stack_snapshot,
      require (vec3d_is_finite (eu_position u) \<and> f32_is_finite (eu_y_rot u) \<and> f32_is_finite (eu_x_rot u))
        ''entity update contains non-finite value'',
      validate_optional_entity_rotation (eu_rotation u),
      when_some (eu_mallard_nest u) (\<lambda>nest. require (\<not> (mn_required nest = 0 \<or> mn_required nest < mn_progress nest))
        ''mallard nest update has invalid incubation progress''),
      when_some (eu_deer u) (\<lambda>deer. require (deer_consistent deer) ''deer update has invalid biological state''),
      when_some (eu_squirrel u) (\<lambda>squirrel. require (squirrel_consistent squirrel)
        ''squirrel update has invalid biological or refuge state''),
      when_some (eu_animation u) validate_animation]"

definition update_of_snapshot :: "entity_snapshot \<Rightarrow> entity_update" where
  "update_of_snapshot s = \<lparr>eu_id = es_id s, eu_item_stack = es_item_stack s, eu_mallard = es_mallard s,
     eu_mallard_nest = es_mallard_nest s, eu_deer = es_deer s, eu_squirrel = es_squirrel s, eu_animation = es_animation s,
     eu_position = es_position s, eu_y_rot = es_y_rot s, eu_x_rot = es_x_rot s, eu_rotation = es_rotation s,
     eu_on_ground = es_on_ground s, eu_tick_count = es_tick_count s\<rparr>"

definition validate_snapshot_stack :: "entity_kind \<Rightarrow> item_stack option \<Rightarrow> codec_error + unit" where
  "validate_snapshot_stack kind stack = (case stack of
       Some stack \<Rightarrow> if kind = KindItem then validate_item_stack_snapshot stack
         else Inl (InvalidData ''non-item entity snapshot contains item stack'')
     | None \<Rightarrow> if kind = KindItem then Inl (InvalidData ''item entity snapshot missing item stack'') else Inr ())"

definition validate_entity_snapshot :: "entity_snapshot \<Rightarrow> codec_error + unit" where
  "validate_entity_snapshot s = checks
     [validate_entity_update (update_of_snapshot s),
      require (\<not> (\<not> f32_is_finite (es_width s) \<or> \<not> f32_is_finite (es_height s) \<or> f32_le (es_width s) 0 \<or> f32_le (es_height s) 0))
        ''entity snapshot contains invalid dimensions'',
      validate_snapshot_stack (es_kind s) (es_item_stack s),
      require ((es_kind s = KindMallard) = (es_mallard s \<noteq> None)) ''mallard entity snapshot has inconsistent species data'',
      require ((es_kind s = KindMallardNest) = (es_mallard_nest s \<noteq> None)) ''mallard nest snapshot has inconsistent nest data'',
      require ((es_kind s = KindDeer) = (es_deer s \<noteq> None)) ''deer entity snapshot has inconsistent species data'',
      require ((es_kind s = KindSquirrel) = (es_squirrel s \<noteq> None)) ''squirrel entity snapshot has inconsistent species data'']"

text \<open>\<open>expect\<close> of the animation is \<open>projr\<close>: by \<open>write_animation_ok\<close> it is never an error.\<close>

definition write_entity_update :: "entity_update \<Rightarrow> bytes" where
  "write_entity_update u = write_u64 (eu_id u) @ write_optional_item_stack_snapshot (eu_item_stack u)
     @ write_optional_mallard_data (eu_mallard u) @ write_optional_mallard_nest_data (eu_mallard_nest u)
     @ write_optional_deer_data (eu_deer u) @ write_optional_squirrel_data (eu_squirrel u)
     @ projr (write_optional_animation_state (eu_animation u)) @ write_vec3d (eu_position u)
     @ write_f32 (eu_y_rot u) @ write_f32 (eu_x_rot u) @ write_optional_entity_rotation (eu_rotation u)
     @ write_bool (eu_on_ground u) @ write_u64 (eu_tick_count u)"

definition write_entity_snapshot :: "entity_snapshot \<Rightarrow> bytes" where
  "write_entity_snapshot s = write_u64 (es_id s)
     @ write_u64 (pi_most (es_persistent_id s)) @ write_u64 (pi_least (es_persistent_id s))
     @ write_u8 (entity_kind_tag (es_kind s)) @ write_optional_item_stack_snapshot (es_item_stack s)
     @ write_optional_mallard_data (es_mallard s) @ write_optional_mallard_nest_data (es_mallard_nest s)
     @ write_optional_deer_data (es_deer s) @ write_optional_squirrel_data (es_squirrel s)
     @ projr (write_optional_animation_state (es_animation s)) @ write_vec3d (es_position s)
     @ write_f32 (es_y_rot s) @ write_f32 (es_x_rot s) @ write_optional_entity_rotation (es_rotation s)
     @ write_bool (es_on_ground s) @ write_f32 (es_width s) @ write_f32 (es_height s) @ write_u64 (es_tick_count s)"

definition read_entity_update :: "entity_update reader" where
  "read_entity_update = reading read_u64 (\<lambda>entity. reading read_optional_item_stack_snapshot (\<lambda>stack.
     reading read_optional_mallard_data (\<lambda>mallard. reading read_optional_mallard_nest_data (\<lambda>nest.
     reading read_optional_deer_data (\<lambda>deer. reading read_optional_squirrel_data (\<lambda>squirrel.
     reading read_optional_animation_state (\<lambda>animation. reading read_vec3d (\<lambda>position.
     reading read_f32 (\<lambda>y_rot. reading read_f32 (\<lambda>x_rot. reading read_optional_entity_rotation (\<lambda>rotation.
     reading read_bool (\<lambda>on_ground. reading read_u64 (\<lambda>tick_count.
     let update = \<lparr>eu_id = entity, eu_item_stack = stack, eu_mallard = mallard, eu_mallard_nest = nest, eu_deer = deer,
       eu_squirrel = squirrel, eu_animation = animation, eu_position = position, eu_y_rot = y_rot, eu_x_rot = x_rot,
       eu_rotation = rotation, eu_on_ground = on_ground, eu_tick_count = tick_count\<rparr> in
     ensuring (validate_entity_update update) (yield update))))))))))))))"

definition read_entity_snapshot :: "entity_snapshot reader" where
  "read_entity_snapshot = reading read_u64 (\<lambda>entity. reading read_u64 (\<lambda>most. reading read_u64 (\<lambda>least.
     reading read_entity_kind (\<lambda>kind. reading read_optional_item_stack_snapshot (\<lambda>stack.
     reading read_optional_mallard_data (\<lambda>mallard. reading read_optional_mallard_nest_data (\<lambda>nest.
     reading read_optional_deer_data (\<lambda>deer. reading read_optional_squirrel_data (\<lambda>squirrel.
     reading read_optional_animation_state (\<lambda>animation. reading read_vec3d (\<lambda>position.
     reading read_f32 (\<lambda>y_rot. reading read_f32 (\<lambda>x_rot. reading read_optional_entity_rotation (\<lambda>rotation.
     reading read_bool (\<lambda>on_ground. reading read_f32 (\<lambda>width. reading read_f32 (\<lambda>height. reading read_u64 (\<lambda>tick_count.
     let snapshot = \<lparr>es_id = entity, es_persistent_id = \<lparr>pi_most = most, pi_least = least\<rparr>, es_kind = kind,
       es_item_stack = stack, es_mallard = mallard, es_mallard_nest = nest, es_deer = deer, es_squirrel = squirrel,
       es_animation = animation, es_position = position, es_y_rot = y_rot, es_x_rot = x_rot, es_rotation = rotation,
       es_on_ground = on_ground, es_width = width, es_height = height, es_tick_count = tick_count\<rparr> in
     ensuring (validate_entity_snapshot snapshot) (yield snapshot)))))))))))))))))))"

text \<open>What the types of the code guarantee beyond the validation: widths, and clips that were parsed.\<close>

definition entity_update_typed :: "entity_update \<Rightarrow> bool" where
  "entity_update_typed u \<longleftrightarrow> pred_option (\<lambda>stack. is_count stack < 256) (eu_item_stack u)
     \<and> pred_option refuge_fits (eu_squirrel u) \<and> pred_option (\<lambda>s. clip_canonical (an_clip s)) (eu_animation u)"

definition entity_snapshot_typed :: "entity_snapshot \<Rightarrow> bool" where
  "entity_snapshot_typed s \<longleftrightarrow> entity_update_typed (update_of_snapshot s)"

lemma when_some_ok [simp]: "when_some x check = Inr () \<longleftrightarrow> pred_option (\<lambda>y. check y = Inr ()) x"
  by (cases x) (simp_all add: when_some_def)

lemma validate_stack_iff: "validate_item_stack_snapshot stack = Inr () \<longleftrightarrow> 0 < is_count stack"
  by (simp add: validate_item_stack_snapshot_def)

lemma validate_animation_iff:
  assumes "clip_canonical (an_clip s)"
  shows "validate_animation s = Inr () \<longleftrightarrow> phase_consistent s"
proof -
  obtain clip where "parse_wire_clip (clip_str (an_clip s)) = Inr clip" using assms parse_wire_clip_iff by blast
  then show ?thesis by (simp only: validate_animation_def checks_ok checks_single require_ok sum.case simp_thms)
qed

lemma entity_update_exact [reads]: "read_entity_update bs = Inr (u, rest)
    \<longleftrightarrow> entity_update_typed u \<and> validate_entity_update u = Inr () \<and> bs = write_entity_update u @ rest"
proof -
  let ?parts = "pred_option stack_fits (eu_item_stack u) \<and> pred_option deer_consistent (eu_deer u)
    \<and> pred_option (\<lambda>d. squirrel_consistent d \<and> refuge_fits d) (eu_squirrel u)
    \<and> pred_option (\<lambda>s. clip_canonical (an_clip s) \<and> phase_consistent s) (eu_animation u) \<and> vec3d_is_finite (eu_position u)"
  have "read_entity_update bs = Inr (u, rest) \<longleftrightarrow> ?parts \<and> validate_entity_update u = Inr () \<and> bs = write_entity_update u @ rest"
    by (cases u) (auto simp: read_entity_update_def write_entity_update_def reads)
  moreover have "?parts \<longleftrightarrow> entity_update_typed u" if "validate_entity_update u = Inr ()"
    using that unfolding validate_entity_update_def checks_ok checks_single when_some_ok require_ok
    by (auto simp: entity_update_typed_def stack_fits_def validate_stack_iff validate_animation_iff pred_option_def)
  ultimately show ?thesis by blast
qed

lemma entity_snapshot_exact [reads]: "read_entity_snapshot bs = Inr (s, rest)
    \<longleftrightarrow> entity_snapshot_typed s \<and> validate_entity_snapshot s = Inr () \<and> bs = write_entity_snapshot s @ rest"
proof -
  let ?u = "update_of_snapshot s"
  have update: "validate_entity_snapshot s = Inr () \<Longrightarrow> validate_entity_update ?u = Inr ()"
    by (simp add: validate_entity_snapshot_def)
  let ?parts = "pred_option stack_fits (es_item_stack s) \<and> pred_option deer_consistent (es_deer s)
    \<and> pred_option (\<lambda>d. squirrel_consistent d \<and> refuge_fits d) (es_squirrel s)
    \<and> pred_option (\<lambda>s. clip_canonical (an_clip s) \<and> phase_consistent s) (es_animation s) \<and> vec3d_is_finite (es_position s)"
  have "read_entity_snapshot bs = Inr (s, rest) \<longleftrightarrow> ?parts \<and> validate_entity_snapshot s = Inr () \<and> bs = write_entity_snapshot s @ rest"
    by (cases s; cases "es_persistent_id s")
      (auto simp: read_entity_snapshot_def write_entity_snapshot_def read_entity_kind_def entity_kind.tagged_exact reads)
  moreover have "?parts \<longleftrightarrow> entity_snapshot_typed s" if "validate_entity_snapshot s = Inr ()"
    using update [OF that] unfolding validate_entity_update_def checks_ok checks_single when_some_ok require_ok
    by (auto simp: entity_snapshot_typed_def entity_update_typed_def update_of_snapshot_def stack_fits_def validate_stack_iff
        validate_animation_iff pred_option_def)
  ultimately show ?thesis by blast
qed

lemma streaming_species [streams]: "streaming read_optional_item_stack_snapshot" "streaming read_optional_mallard_data"
  "streaming read_optional_mallard_nest_data" "streaming read_optional_deer_data" "streaming read_optional_squirrel_data"
  "streaming read_optional_animation_state" "streaming read_optional_entity_rotation"
  unfolding read_optional_item_stack_snapshot_def read_item_stack_def read_item_kind_def read_optional_mallard_data_def
    read_mallard_data_def read_mallard_life_stage_def read_optional_mallard_nest_data_def read_mallard_nest_data_def
    read_optional_deer_data_def read_deer_data_def read_optional_squirrel_data_def read_squirrel_data_def
    read_optional_animation_state_def read_animation_state_def read_optional_entity_rotation_def read_entity_rotation_def
  by (intro streams)+

lemma streaming_entities [streams]: "streaming read_entity_update" "streaming read_entity_snapshot"
  unfolding read_entity_update_def read_entity_snapshot_def read_entity_kind_def by (intro streams)+

end
