(* ===== verification/ProtocolKeys.thy ===== *)
theory ProtocolKeys imports ProtocolBytes "HOL-Library.List_Lexorder" "HOL-Library.Char_ord"
begin

text \<open>
  Names on the wire: dimension keys of \<open>realm_dimension.rs\<close> and the statistics of a player in
  \<open>statistics.rs\<close>, both in \<open>native/crates/mclone-protocol/src\<close>.  A \<open>str\<close> is its UTF-8 bytes; a
  character in an error is its bytes.  A \<open>BTreeMap\<close> is a finite map walked in key order.
\<close>

abbreviation (input) ascii :: "char \<Rightarrow> u8" where "ascii c \<equiv> of_char c"

definition utf8_width :: "u8 \<Rightarrow> nat" where
  "utf8_width b = (if b < 0x80 then 1 else if b < 0xE0 then 2 else if b < 0xF0 then 3 else 4)"

text \<open>\<open>split_once(':')\<close> and \<open>chars().find(..)\<close> for a test that only ASCII passes.\<close>

definition split_once :: "u8 \<Rightarrow> bytes \<Rightarrow> (bytes \<times> bytes) option" where
  "split_once c s = (case dropWhile (\<lambda>b. b \<noteq> c) s of [] \<Rightarrow> None | _ # path \<Rightarrow> Some (takeWhile (\<lambda>b. b \<noteq> c) s, path))"

definition find_invalid :: "(u8 \<Rightarrow> bool) \<Rightarrow> bytes \<Rightarrow> bytes option" where
  "find_invalid valid s = (case dropWhile valid s of [] \<Rightarrow> None | b # bs \<Rightarrow> Some (take (utf8_width b) (b # bs)))"

definition valid_namespace_char :: "u8 \<Rightarrow> bool" where
  "valid_namespace_char b \<longleftrightarrow> b = ascii CHR ''_'' \<or> b = ascii CHR ''-'' \<or> b = ascii CHR ''.''
     \<or> ascii CHR ''a'' \<le> b \<and> b \<le> ascii CHR ''z'' \<or> ascii CHR ''0'' \<le> b \<and> b \<le> ascii CHR ''9''"

definition valid_path_char :: "u8 \<Rightarrow> bool" where
  "valid_path_char b \<longleftrightarrow> b = ascii CHR ''_'' \<or> b = ascii CHR ''-'' \<or> b = ascii CHR ''/'' \<or> b = ascii CHR ''.''
     \<or> ascii CHR ''a'' \<le> b \<and> b \<le> ascii CHR ''z'' \<or> ascii CHR ''0'' \<le> b \<and> b \<le> ascii CHR ''9''"

abbreviation (input) colon :: u8 where "colon \<equiv> ascii CHR '':''"
abbreviation (input) max_key_bytes :: nat where "max_key_bytes \<equiv> 255"

section \<open>Dimension keys\<close>

datatype key_error =
    MissingNamespace
  | MultipleSeparators
  | EmptyNamespace
  | EmptyPath
  | InvalidNamespaceCharacter bytes
  | InvalidPathCharacter bytes
  | KeyTooLong nat nat

datatype dimension_key = DimensionKey (dk_str: bytes)

definition validate_dimension_key_parts :: "bytes \<Rightarrow> bytes \<Rightarrow> key_error + unit" where
  "validate_dimension_key_parts ns path =
     (if ns = [] then Inl EmptyNamespace
      else if path = [] then Inl EmptyPath
      else case find_invalid valid_namespace_char ns of
        Some ch \<Rightarrow> Inl (InvalidNamespaceCharacter ch)
      | None \<Rightarrow> (case find_invalid valid_path_char path of
          Some ch \<Rightarrow> Inl (InvalidPathCharacter ch)
        | None \<Rightarrow> (let len = length ns + 1 + length path in
            if max_key_bytes < len then Inl (KeyTooLong len max_key_bytes) else Inr ())))"

definition dimension_key_new :: "bytes \<Rightarrow> bytes \<Rightarrow> key_error + dimension_key" where
  "dimension_key_new ns path = (case validate_dimension_key_parts ns path of Inl e \<Rightarrow> Inl e
     | Inr _ \<Rightarrow> Inr (DimensionKey (ns @ colon # path)))"

definition dimension_key_parse :: "bytes \<Rightarrow> key_error + dimension_key" where
  "dimension_key_parse value =
     (if max_key_bytes < length value then Inl (KeyTooLong (length value) max_key_bytes)
      else case split_once colon value of
        None \<Rightarrow> Inl MissingNamespace
      | Some (ns, path) \<Rightarrow> if colon \<in> set path then Inl MultipleSeparators else dimension_key_new ns path)"

text \<open>The parts panic when the key has no separator.\<close>

definition dimension_key_namespace :: "dimension_key \<Rightarrow> bytes option" where
  "dimension_key_namespace k = map_option fst (split_once colon (dk_str k))"

definition dimension_key_path :: "dimension_key \<Rightarrow> bytes option" where
  "dimension_key_path k = map_option snd (split_once colon (dk_str k))"

lemma split_at: "c \<notin> set ns \<Longrightarrow> dropWhile (\<lambda>b. b \<noteq> c) (ns @ c # path) = c # path \<and> takeWhile (\<lambda>b. b \<noteq> c) (ns @ c # path) = ns"
  by (induction ns) auto

lemma split_once_Some: "split_once c s = Some (ns, path) \<longleftrightarrow> s = ns @ c # path \<and> c \<notin> set ns"
proof
  assume "split_once c s = Some (ns, path)"
  then obtain d where d: "dropWhile (\<lambda>b. b \<noteq> c) s = d # path" "ns = takeWhile (\<lambda>b. b \<noteq> c) s"
    by (auto simp: split_once_def split: list.splits)
  then have "d = c" using hd_dropWhile [of "\<lambda>b. b \<noteq> c" s] by simp
  then show "s = ns @ c # path \<and> c \<notin> set ns"
    using d takeWhile_dropWhile_id [of "\<lambda>b. b \<noteq> c" s] set_takeWhileD [of c "\<lambda>b. b \<noteq> c" s] by auto
next
  assume s: "s = ns @ c # path \<and> c \<notin> set ns"
  then have "dropWhile (\<lambda>b. b \<noteq> c) s = c # path" "takeWhile (\<lambda>b. b \<noteq> c) s = ns"
    using split_at [of c ns path] by simp_all
  then show "split_once c s = Some (ns, path)" by (simp add: split_once_def)
qed

lemma find_invalid_None: "find_invalid valid s = None \<longleftrightarrow> list_all valid s"
  by (induction s) (auto simp: find_invalid_def)

definition key_parts_ok :: "bytes \<Rightarrow> bytes \<Rightarrow> bool" where
  "key_parts_ok ns path \<longleftrightarrow> ns \<noteq> [] \<and> path \<noteq> [] \<and> list_all valid_namespace_char ns \<and> list_all valid_path_char path
     \<and> length ns + 1 + length path \<le> max_key_bytes"

lemma validate_dimension_key_parts_ok: "validate_dimension_key_parts ns path = Inr () \<longleftrightarrow> key_parts_ok ns path"
  by (auto simp: validate_dimension_key_parts_def key_parts_ok_def find_invalid_None [symmetric] Let_def split: option.splits)

lemma valid_chars: "valid_namespace_char b \<Longrightarrow> b \<noteq> colon \<and> b < 128" "valid_path_char b \<Longrightarrow> b \<noteq> colon \<and> b < 128"
  by (auto simp: valid_namespace_char_def valid_path_char_def word_le_nat_alt word_less_nat_alt)

lemma key_parts_no_colon: "key_parts_ok ns path \<Longrightarrow> colon \<notin> set ns \<and> colon \<notin> set path"
  using valid_chars by (auto simp: key_parts_ok_def list_all_iff)

lemma key_parts_ascii: "key_parts_ok ns path \<Longrightarrow> list_all (\<lambda>b. b < 128) (ns @ colon # path)"
  using valid_chars by (auto simp: key_parts_ok_def list_all_iff word_less_nat_alt)

text \<open>Parsing accepts exactly the names of two valid parts and keeps the text.\<close>

lemma dimension_key_parse_iff:
  "dimension_key_parse value = Inr k \<longleftrightarrow> (\<exists>ns path. key_parts_ok ns path \<and> value = ns @ colon # path \<and> k = DimensionKey value)"
proof
  assume a: "dimension_key_parse value = Inr k"
  then obtain ns path where s: "split_once colon value = Some (ns, path)" "dimension_key_new ns path = Inr k"
    by (auto simp: dimension_key_parse_def split: if_splits option.splits)
  then show "\<exists>ns path. key_parts_ok ns path \<and> value = ns @ colon # path \<and> k = DimensionKey value"
    using validate_dimension_key_parts_ok [of ns path]
    by (auto simp: split_once_Some dimension_key_new_def split: sum.splits)
next
  assume "\<exists>ns path. key_parts_ok ns path \<and> value = ns @ colon # path \<and> k = DimensionKey value"
  then obtain ns path where p: "key_parts_ok ns path" "value = ns @ colon # path" "k = DimensionKey value" by blast
  then have "split_once colon value = Some (ns, path)" "length value \<le> max_key_bytes" "colon \<notin> set path"
    using key_parts_no_colon [OF p(1)] by (auto simp: split_once_Some key_parts_ok_def)
  then show "dimension_key_parse value = Inr k"
    using p validate_dimension_key_parts_ok [of ns path] by (simp add: dimension_key_parse_def dimension_key_new_def)
qed

definition dimension_key_ok :: "dimension_key \<Rightarrow> bool" where
  "dimension_key_ok k \<longleftrightarrow> dimension_key_parse (dk_str k) = Inr k"

lemma dimension_key_ok_parts: "dimension_key_ok k \<longleftrightarrow> (\<exists>ns path. key_parts_ok ns path \<and> k = DimensionKey (ns @ colon # path))"
  by (cases k) (auto simp: dimension_key_ok_def dimension_key_parse_iff)

lemma dimension_key_parse_ok: "dimension_key_parse value = Inr k \<longleftrightarrow> dimension_key_ok k \<and> value = dk_str k"
  unfolding dimension_key_parse_iff dimension_key_ok_parts by auto blast+

lemma dimension_key_ok_text: "dimension_key_ok k \<Longrightarrow> length (dk_str k) \<le> max_key_bytes \<and> valid_utf8 (dk_str k)"
proof -
  assume "dimension_key_ok k"
  then obtain ns path where p: "key_parts_ok ns path" "k = DimensionKey (ns @ colon # path)"
    by (auto simp: dimension_key_ok_parts)
  show ?thesis using valid_utf8_ascii [OF key_parts_ascii [OF p(1)]] p by (simp add: key_parts_ok_def)
qed

lemma dimension_key_split:
  assumes "dimension_key_ok k"
  shows "\<exists>ns path. dimension_key_namespace k = Some ns \<and> dimension_key_path k = Some path \<and> dimension_key_new ns path = Inr k"
proof -
  obtain ns path where p: "key_parts_ok ns path" "k = DimensionKey (ns @ colon # path)"
    using assms by (auto simp: dimension_key_ok_parts)
  then have "split_once colon (dk_str k) = Some (ns, path)" using key_parts_no_colon by (simp add: split_once_Some)
  then show ?thesis using p validate_dimension_key_parts_ok [of ns path]
    by (simp add: dimension_key_namespace_def dimension_key_path_def dimension_key_new_def)
qed

section \<open>Statistics\<close>

datatype statistic_key = StatisticKey (sk_type: bytes) (sk_value: bytes)

instantiation statistic_key :: linorder
begin

definition less_eq_statistic_key :: "statistic_key \<Rightarrow> statistic_key \<Rightarrow> bool" where
  "less_eq_statistic_key p q \<longleftrightarrow> sk_type p < sk_type q \<or> sk_type p = sk_type q \<and> sk_value p \<le> sk_value q"

definition less_statistic_key :: "statistic_key \<Rightarrow> statistic_key \<Rightarrow> bool" where
  "less_statistic_key p q \<longleftrightarrow> sk_type p < sk_type q \<or> sk_type p = sk_type q \<and> sk_value p < sk_value q"

instance
  by standard (auto simp: less_eq_statistic_key_def less_statistic_key_def statistic_key.expand)

end

definition validate_resource_key :: "bytes \<Rightarrow> key_error + unit" where
  "validate_resource_key value =
     (if max_key_bytes < length value then Inl (KeyTooLong (length value) max_key_bytes)
      else case split_once colon value of
        None \<Rightarrow> Inl MissingNamespace
      | Some (ns, path) \<Rightarrow>
          if colon \<in> set path then Inl MultipleSeparators
          else if ns = [] then Inl EmptyNamespace
          else if path = [] then Inl EmptyPath
          else case find_invalid valid_namespace_char ns of
            Some ch \<Rightarrow> Inl (InvalidNamespaceCharacter ch)
          | None \<Rightarrow> (case find_invalid valid_path_char path of
              Some ch \<Rightarrow> Inl (InvalidPathCharacter ch)
            | None \<Rightarrow> Inr ()))"

definition statistic_key_new :: "bytes \<Rightarrow> bytes \<Rightarrow> key_error + statistic_key" where
  "statistic_key_new statistic_type value = (case validate_resource_key statistic_type of Inl e \<Rightarrow> Inl e
     | Inr _ \<Rightarrow> case validate_resource_key value of Inl e \<Rightarrow> Inl e | Inr _ \<Rightarrow> Inr (StatisticKey statistic_type value))"

type_synonym player_statistics = "(statistic_key, u32) fmap"

abbreviation (input) max_player_statistic_value :: u32 where "max_player_statistic_value \<equiv> 0x7FFFFFFF"
abbreviation (input) max_player_statistic_entries :: nat where "max_player_statistic_entries \<equiv> 4096"

definition statistics_get :: "player_statistics \<Rightarrow> statistic_key \<Rightarrow> u32" where
  "statistics_get st key = (case fmlookup st key of Some v \<Rightarrow> v | None \<Rightarrow> 0)"

definition statistics_set :: "player_statistics \<Rightarrow> statistic_key \<Rightarrow> u32 \<Rightarrow> player_statistics" where
  "statistics_set st key value =
     (if value = 0 then fmdrop key st else fmupd key (min value max_player_statistic_value) st)"

definition saturating_add_u32 :: "u32 \<Rightarrow> u32 \<Rightarrow> u32" where
  "saturating_add_u32 a b = (if unat a + unat b < 2 ^ 32 then a + b else - 1)"

definition statistics_increment :: "player_statistics \<Rightarrow> statistic_key \<Rightarrow> u32 \<Rightarrow> u32 \<times> player_statistics" where
  "statistics_increment st key amount =
     (let value = min (saturating_add_u32 (statistics_get st key) amount) max_player_statistic_value
      in (value, statistics_set st key value))"

definition statistics_iter :: "player_statistics \<Rightarrow> (statistic_key \<times> u32) list" where
  "statistics_iter st = sorted_list_of_fmap st"

definition write_statistic :: "statistic_key \<times> u32 \<Rightarrow> codec_error + bytes" where
  "write_statistic entry = write_then (write_string ''statistic type'' (sk_type (fst entry)))
     (write_then (write_string ''statistic value'' (sk_value (fst entry))) (Inr (write_u32 (snd entry))))"

definition write_statistics :: "player_statistics \<Rightarrow> codec_error + bytes" where
  "write_statistics st =
     (if max_player_statistic_entries < fcard (fmdom st) then Inl (InvalidData ''too many player statistic entries'')
      else write_then (write_len ''player statistics'' (fcard (fmdom st))) (write_each write_statistic (statistics_iter st)))"

definition read_statistic :: "(statistic_key \<times> u32) reader" where
  "read_statistic = reading (read_string ''statistic type'' max_key_bytes) (\<lambda>statistic_type.
     reading (read_string ''statistic value'' max_key_bytes) (\<lambda>value.
     attempt (case statistic_key_new statistic_type value of Inl _ \<Rightarrow> Inl (InvalidData ''invalid statistic key'') | Inr k \<Rightarrow> Inr k)
       (\<lambda>key. reading read_u32 (\<lambda>n. yield (key, n)))))"

text \<open>The loop over the entries: each is stored as it is read.\<close>

fun read_entries :: "nat \<Rightarrow> player_statistics \<Rightarrow> player_statistics reader" where
  "read_entries 0 st = yield st"
| "read_entries (Suc n) st = reading read_statistic (\<lambda>entry. read_entries n (statistics_set st (fst entry) (snd entry)))"

definition read_statistics :: "player_statistics reader" where
  "read_statistics = reading read_len (\<lambda>count.
     if max_player_statistic_entries < count then refuse (InvalidData ''too many player statistic entries'')
     else read_entries count fmempty)"

definition resource_key_ok :: "bytes \<Rightarrow> bool" where
  "resource_key_ok s \<longleftrightarrow> validate_resource_key s = Inr ()"

definition statistic_key_ok :: "statistic_key \<Rightarrow> bool" where
  "statistic_key_ok k \<longleftrightarrow> resource_key_ok (sk_type k) \<and> resource_key_ok (sk_value k)"

definition statistics_ok :: "player_statistics \<Rightarrow> bool" where
  "statistics_ok st \<longleftrightarrow> (\<forall>k v. fmlookup st k = Some v \<longrightarrow> statistic_key_ok k \<and> v \<noteq> 0 \<and> v \<le> max_player_statistic_value)"

definition entry_bytes :: "statistic_key \<times> u32 \<Rightarrow> bytes" where
  "entry_bytes entry = string_bytes (sk_type (fst entry)) @ string_bytes (sk_value (fst entry)) @ write_u32 (snd entry)"

lemma resource_key_parts: "resource_key_ok s \<Longrightarrow> \<exists>ns path. key_parts_ok ns path \<and> s = ns @ colon # path"
  by (auto simp: resource_key_ok_def validate_resource_key_def key_parts_ok_def find_invalid_None [symmetric] split_once_Some
      split: if_splits option.splits)

lemma resource_key_text: "resource_key_ok s \<Longrightarrow> length s \<le> max_key_bytes \<and> valid_utf8 s"
  using resource_key_parts [of s] key_parts_ascii valid_utf8_ascii by (fastforce simp: key_parts_ok_def)

lemma statistic_key_new_iff: "statistic_key_new t v = Inr k \<longleftrightarrow> statistic_key_ok k \<and> t = sk_type k \<and> v = sk_value k"
  by (cases k) (auto simp: statistic_key_new_def statistic_key_ok_def resource_key_ok_def split: sum.splits)

lemma statistic_exact: "read_statistic bs = Inr (entry, rest) \<longleftrightarrow> statistic_key_ok (fst entry) \<and> bs = entry_bytes entry @ rest"
proof -
  have k: "(case statistic_key_new t v of Inl _ \<Rightarrow> Inl e | Inr k \<Rightarrow> Inr k) = Inr k' \<longleftrightarrow> statistic_key_new t v = Inr k'" for t v e k'
    by (simp split: sum.splits)
  show ?thesis
    by (cases entry) (auto simp: read_statistic_def entry_bytes_def k statistic_key_new_iff statistic_key_ok_def
        dest: resource_key_text simp: reads)
qed

interpretation entries: exact_codec entry_bytes read_statistic "\<lambda>entry. statistic_key_ok (fst entry)"
  by unfold_locales (rule statistic_exact)

lemma read_entries_many: "read_entries n st bs = Inr (st', rest) \<longleftrightarrow>
    (\<exists>es. read_many read_statistic n bs = Inr (es, rest) \<and> st' = fold (\<lambda>entry st. statistics_set st (fst entry) (snd entry)) es st)"
  by (induction n arbitrary: st bs) (auto simp: reads)

lemma statistics_set_ok: "statistics_ok st \<Longrightarrow> statistic_key_ok k \<Longrightarrow> statistics_ok (statistics_set st k v)"
  by (auto simp: statistics_ok_def statistics_set_def min_def split: if_splits)

lemma statistics_set_card: "fcard (fmdom (statistics_set st k v)) \<le> Suc (fcard (fmdom st))"
  using fcard_mono [of "fmdom st |-| {|k|}" "fmdom st"] by (auto simp: statistics_set_def fcard_finsert_if)

definition store_entries :: "(statistic_key \<times> u32) list \<Rightarrow> player_statistics \<Rightarrow> player_statistics" where
  "store_entries es st = fold (\<lambda>entry st. statistics_set st (fst entry) (snd entry)) es st"

lemma store_entries_ok:
  "statistics_ok st \<Longrightarrow> list_all (\<lambda>entry. statistic_key_ok (fst entry)) es \<Longrightarrow> statistics_ok (store_entries es st)"
  unfolding store_entries_def by (induction es arbitrary: st) (auto simp: statistics_set_ok)

lemma store_entries_card: "fcard (fmdom (store_entries es st)) \<le> length es + fcard (fmdom st)"
proof (induction es arbitrary: st)
  case (Cons e es)
  show ?case
    using Cons.IH [of "statistics_set st (fst e) (snd e)"] statistics_set_card [of st "fst e" "snd e"] by (simp add: store_entries_def)
qed (simp add: store_entries_def)

lemma store_entries_lookup:
  assumes "distinct (map fst es)" and "list_all (\<lambda>entry. snd entry \<noteq> 0 \<and> snd entry \<le> max_player_statistic_value) es"
  shows "fmlookup (store_entries es st) k = (case map_of es k of Some v \<Rightarrow> Some v | None \<Rightarrow> fmlookup st k)"
  using assms
proof (induction es arbitrary: st)
  case (Cons e es)
  have "map_of es (fst e) = None" using Cons.prems(1) by (simp add: map_of_eq_None_iff)
  then show ?case using Cons by (auto simp: store_entries_def statistics_set_def min_absorb1 split: option.splits)
qed (simp add: store_entries_def)

lemma statistics_iter_in: "(k, v) \<in> set (statistics_iter st) \<longleftrightarrow> fmlookup st k = Some v"
  by (auto simp: statistics_iter_def sorted_list_of_fmap_def fmlookup_dom_iff)

lemma statistics_iter_keys: "distinct (map fst (statistics_iter st))" "length (statistics_iter st) = fcard (fmdom st)"
  by (simp_all add: statistics_iter_def sorted_list_of_fmap_def comp_def sorted_list_of_fset.rep_eq fcard.rep_eq)

lemma store_statistics:
  assumes "statistics_ok st"
  shows "store_entries (statistics_iter st) fmempty = st"
proof (rule fmap_ext)
  fix k
  have "list_all (\<lambda>entry. snd entry \<noteq> 0 \<and> snd entry \<le> max_player_statistic_value) (statistics_iter st)"
    using assms by (auto simp: statistics_ok_def list_all_iff statistics_iter_in)
  note this statistics_iter_keys(1) [of st]
  then show "fmlookup (store_entries (statistics_iter st) fmempty) k = fmlookup st k"
    by (simp add: store_entries_lookup statistics_iter_def split: option.splits)
qed

definition statistics_fit :: "player_statistics \<Rightarrow> bool" where
  "statistics_fit st \<longleftrightarrow> statistics_ok st \<and> fcard (fmdom st) \<le> max_player_statistic_entries"

definition entries_bytes :: "(statistic_key \<times> u32) list \<Rightarrow> bytes" where
  "entries_bytes es = write_u32 (of_nat (length es)) @ concat (map entry_bytes es)"

lemma write_statistic_ok: "statistic_key_ok (fst entry) \<Longrightarrow> write_statistic entry = Inr (entry_bytes entry)"
  using resource_key_text [of "sk_type (fst entry)"] resource_key_text [of "sk_value (fst entry)"]
  by (simp add: statistic_key_ok_def write_statistic_def entry_bytes_def)

lemma write_statistics_ok:
  assumes "statistics_fit st"
  shows "write_statistics st = Inr (entries_bytes (statistics_iter st))"
proof -
  have "list_all (\<lambda>e. write_statistic e = Inr (entry_bytes e)) (statistics_iter st)"
    using assms by (auto simp: statistics_fit_def statistics_ok_def statistics_iter_in list_all_iff intro!: write_statistic_ok)
  then show ?thesis
    using assms by (simp add: statistics_fit_def write_statistics_def entries_bytes_def write_each_ok statistics_iter_keys)
qed

lemma statistics_reads [reads]: "read_statistics bs = Inr (st, rest) \<longleftrightarrow>
    (\<exists>es. length es \<le> max_player_statistic_entries \<and> list_all (\<lambda>entry. statistic_key_ok (fst entry)) es
       \<and> st = store_entries es fmempty \<and> bs = entries_bytes es @ rest)"
proof -
  have "read_statistics bs = Inr (st, rest) \<longleftrightarrow> (\<exists>es. length es < 2 ^ 32 \<and> \<not> max_player_statistic_entries < length es
      \<and> list_all (\<lambda>entry. statistic_key_ok (fst entry)) es \<and> st = store_entries es fmempty
      \<and> bs = write_u32 (of_nat (length es)) @ concat (map entry_bytes es) @ rest)"
    unfolding read_statistics_def reads read_entries_many entries.many_exact store_entries_def [symmetric] by blast
  also have "\<dots> \<longleftrightarrow> (\<exists>es. length es \<le> max_player_statistic_entries \<and> list_all (\<lambda>entry. statistic_key_ok (fst entry)) es
       \<and> st = store_entries es fmempty \<and> bs = entries_bytes es @ rest)"
    by (intro arg_cong [where f = Ex] ext) (auto simp: entries_bytes_def)
  finally show ?thesis .
qed

lemma streaming_statistics [streams]: "streaming read_statistics"
proof -
  have "streaming read_statistic" unfolding read_statistic_def by (intro streams)
  then have "streaming (read_entries n st)" for n st by (induction n arbitrary: st) (auto intro!: streams)
  then show ?thesis unfolding read_statistics_def by (intro streams)
qed

text \<open>Whatever was read is a sound set of statistics, and sound statistics read back as themselves.\<close>

lemma statistics_read_fit:
  assumes "read_statistics bs = Inr (st, rest)"
  shows "statistics_fit st"
proof -
  obtain es where es: "length es \<le> max_player_statistic_entries" "list_all (\<lambda>entry. statistic_key_ok (fst entry)) es"
    "st = store_entries es fmempty" using assms unfolding statistics_reads by blast
  have "statistics_ok fmempty" by (simp add: statistics_ok_def)
  then show ?thesis
    using es store_entries_ok [OF _ es(2)] store_entries_card [of es fmempty] by (simp add: statistics_fit_def fcard.rep_eq)
qed

lemma statistics_round_trip:
  assumes "statistics_fit st"
  shows "read_statistics (entries_bytes (statistics_iter st) @ rest) = Inr (st, rest)"
proof -
  have "list_all (\<lambda>entry. statistic_key_ok (fst entry)) (statistics_iter st)"
    using assms by (auto simp: statistics_fit_def statistics_ok_def statistics_iter_in list_all_iff)
  moreover have "length (statistics_iter st) \<le> max_player_statistic_entries"
    using assms by (simp add: statistics_fit_def statistics_iter_keys)
  ultimately show ?thesis
    unfolding statistics_reads using store_statistics assms by (auto simp: statistics_fit_def)
qed

lemma statistics_get_set:
  "statistics_get (statistics_set st key v) k = (if k = key then min v max_player_statistic_value else statistics_get st k)"
  by (simp add: statistics_get_def statistics_set_def)

text \<open>Increments saturate at the cap and touch one key.\<close>

lemma statistics_increment_spec:
  assumes "statistics_ok st" and "statistic_key_ok key"
  shows "case statistics_increment st key amount of (value, st') \<Rightarrow> statistics_ok st'
    \<and> unat value = min (unat (statistics_get st key) + unat amount) (2 ^ 31 - 1) \<and> statistics_get st' key = value
    \<and> (\<forall>k. k \<noteq> key \<longrightarrow> statistics_get st' k = statistics_get st k)"
proof -
  define v where "v = min (saturating_add_u32 (statistics_get st key) amount) max_player_statistic_value"
  have "unat (saturating_add_u32 a b) = min (unat a + unat b) (2 ^ 32 - 1)" for a b
  proof (cases "unat a + unat b < 2 ^ 32")
    case True
    then show ?thesis by (simp add: saturating_add_u32_def unat_word_ariths)
  next
    case False
    then show ?thesis by (simp add: saturating_add_u32_def unsigned_minus_1_eq_mask mask_eq_exp_minus_1)
  qed
  then have "unat v = min (unat (statistics_get st key) + unat amount) (2 ^ 31 - 1)"
    by (auto simp: v_def min_def word_le_nat_alt)
  moreover have "min v max_player_statistic_value = v" by (simp add: v_def)
  ultimately show ?thesis
    using statistics_set_ok [OF assms, of v]
    by (simp add: statistics_increment_def Let_def v_def [symmetric] statistics_get_set)
qed

end
