(* ===== verification/ProtocolGuides.thy ===== *)
theory ProtocolGuides imports ProtocolBytes
begin

text \<open>
  The field guides of \<open>native/crates/mclone-protocol/src/ecology.rs\<close>: four guides of one shape, each a mask of the
  six observations a player can make of a species.  The locale \<open>field_guide\<close> holds what follows from a table of
  bits that gives every kind of observation its own bit below six; the four tables of the code interpret it.
\<close>

type_synonym guide_progress = u32

abbreviation (input) guide_known_mask :: u32 where "guide_known_mask \<equiv> push_bit 6 1 - 1"

definition guide_from_bits_retain :: "u32 \<Rightarrow> guide_progress" where
  "guide_from_bits_retain bits = bits AND guide_known_mask"

definition guide_contains :: "guide_progress \<Rightarrow> u32 \<Rightarrow> bool" where
  "guide_contains progress b \<longleftrightarrow> progress AND b \<noteq> 0"

definition guide_observe :: "guide_progress \<Rightarrow> u32 \<Rightarrow> bool \<times> guide_progress" where
  "guide_observe progress b = (let after = progress OR b in (after \<noteq> progress, after))"

definition guide_discovered_count :: "guide_progress \<Rightarrow> nat" where
  "guide_discovered_count progress = length (filter (bit progress) [0..<32])"

definition guide_is_complete :: "guide_progress \<Rightarrow> bool" where
  "guide_is_complete progress \<longleftrightarrow> progress = guide_known_mask"

section \<open>The observations\<close>

datatype rabbit_observation = RabbitSeen | FoundBurrow | WitnessedDig | WitnessedThresholdUse | WitnessedRaid | WitnessedFamily
datatype bee_observation = BeeSeen | FoundBeeNest | WitnessedForage | WitnessedReturn | WitnessedPollination | CollectedBeeswax
datatype deer_observation = DeerSeen | FoundSign | WitnessedAlert | WitnessedFlee | FoundAntler | Harvested
datatype mallard_observation = MallardSeen | HeardCall | FoundFeather | FoundTrack | FoundMallardNest | WitnessedHatch

fun rabbit_observation_bit :: "rabbit_observation \<Rightarrow> u32" where
  "rabbit_observation_bit RabbitSeen = push_bit 0 1"
| "rabbit_observation_bit FoundBurrow = push_bit 1 1"
| "rabbit_observation_bit WitnessedDig = push_bit 2 1"
| "rabbit_observation_bit WitnessedThresholdUse = push_bit 3 1"
| "rabbit_observation_bit WitnessedRaid = push_bit 4 1"
| "rabbit_observation_bit WitnessedFamily = push_bit 5 1"

fun bee_observation_bit :: "bee_observation \<Rightarrow> u32" where
  "bee_observation_bit BeeSeen = push_bit 0 1"
| "bee_observation_bit FoundBeeNest = push_bit 1 1"
| "bee_observation_bit WitnessedForage = push_bit 2 1"
| "bee_observation_bit WitnessedReturn = push_bit 3 1"
| "bee_observation_bit WitnessedPollination = push_bit 4 1"
| "bee_observation_bit CollectedBeeswax = push_bit 5 1"

fun deer_observation_bit :: "deer_observation \<Rightarrow> u32" where
  "deer_observation_bit DeerSeen = push_bit 0 1"
| "deer_observation_bit FoundSign = push_bit 1 1"
| "deer_observation_bit WitnessedAlert = push_bit 2 1"
| "deer_observation_bit WitnessedFlee = push_bit 3 1"
| "deer_observation_bit FoundAntler = push_bit 4 1"
| "deer_observation_bit Harvested = push_bit 5 1"

fun mallard_observation_bit :: "mallard_observation \<Rightarrow> u32" where
  "mallard_observation_bit MallardSeen = push_bit 0 1"
| "mallard_observation_bit HeardCall = push_bit 1 1"
| "mallard_observation_bit FoundFeather = push_bit 2 1"
| "mallard_observation_bit FoundTrack = push_bit 3 1"
| "mallard_observation_bit FoundMallardNest = push_bit 4 1"
| "mallard_observation_bit WitnessedHatch = push_bit 5 1"

definition rabbit_observations :: "rabbit_observation list" where
  "rabbit_observations = [RabbitSeen, FoundBurrow, WitnessedDig, WitnessedThresholdUse, WitnessedRaid, WitnessedFamily]"

definition bee_observations :: "bee_observation list" where
  "bee_observations = [BeeSeen, FoundBeeNest, WitnessedForage, WitnessedReturn, WitnessedPollination, CollectedBeeswax]"

definition deer_observations :: "deer_observation list" where
  "deer_observations = [DeerSeen, FoundSign, WitnessedAlert, WitnessedFlee, FoundAntler, Harvested]"

definition mallard_observations :: "mallard_observation list" where
  "mallard_observations = [MallardSeen, HeardCall, FoundFeather, FoundTrack, FoundMallardNest, WitnessedHatch]"

section \<open>What a guide records\<close>

definition guide_known :: "guide_progress \<Rightarrow> bool" where
  "guide_known progress \<longleftrightarrow> progress AND guide_known_mask = progress"

lemma known_mask_bit: "bit (guide_known_mask) n \<longleftrightarrow> n < 6"
proof -
  have "(guide_known_mask) = (mask 6 :: u32)" by (simp add: mask_eq_exp_minus_1)
  then show ?thesis by (simp only: bit_mask_iff) auto
qed

lemma guide_known_bits: "guide_known progress \<longleftrightarrow> (\<forall>n. bit progress n \<longrightarrow> n < 6)"
proof -
  have both: "bit (progress AND guide_known_mask) n \<longleftrightarrow> bit progress n \<and> n < 6" for n
    by (simp only: bit_and_iff known_mask_bit)
  have "progress AND guide_known_mask = progress" if "\<forall>n. bit progress n \<longrightarrow> n < 6"
    using that both by (intro bit_eqI) blast
  moreover have "\<forall>n. bit progress n \<longrightarrow> n < 6" if "progress AND guide_known_mask = progress"
    using both unfolding that by blast
  ultimately show ?thesis unfolding guide_known_def by blast
qed

lemma guide_known_retain: "guide_known (guide_from_bits_retain bits)"
  by (simp add: guide_known_def guide_from_bits_retain_def and.assoc)

lemma guide_retain_known: "guide_known progress \<Longrightarrow> guide_from_bits_retain progress = progress"
  by (simp add: guide_known_def guide_from_bits_retain_def)

text \<open>What a guide promises for a table of bits: observing keeps the known mask, reports exactly the observations that
  are new, adds that one and no other, and the count and completeness are those of the kinds observed.\<close>

definition guide_records :: "('k \<Rightarrow> u32) \<Rightarrow> 'k list \<Rightarrow> guide_progress \<Rightarrow> bool" where
  "guide_records observation_bit all progress \<longleftrightarrow> (\<forall>k. case guide_observe progress (observation_bit k) of (new, after) \<Rightarrow>
      guide_known after \<and> (new \<longleftrightarrow> \<not> guide_contains progress (observation_bit k))
      \<and> (\<forall>j. guide_contains after (observation_bit j) \<longleftrightarrow> j = k \<or> guide_contains progress (observation_bit j)))
    \<and> guide_discovered_count progress = length (filter (\<lambda>j. guide_contains progress (observation_bit j)) all)
    \<and> (guide_is_complete progress \<longleftrightarrow> (\<forall>j. guide_contains progress (observation_bit j)))"

locale field_guide =
  fixes observation_bit :: "'k \<Rightarrow> u32" and all :: "'k list"
  assumes bits: "map observation_bit all = map (\<lambda>n. push_bit n 1) [0..<6]"
    and every: "set all = UNIV"
    and once: "distinct all"
begin

lemma length_all: "length all = 6"
  using arg_cong [OF bits, of length] by simp

lemma bit_nth: "n < 6 \<Longrightarrow> observation_bit (all ! n) = push_bit n 1"
  using arg_cong [OF bits, of "\<lambda>xs. xs ! n"] by (simp add: length_all)

lemma kind_nth: "\<exists>n < 6. k = all ! n"
  using every length_all by (metis UNIV_I in_set_conv_nth)

lemma contains_nth: "n < 6 \<Longrightarrow> guide_contains progress (observation_bit (all ! n)) \<longleftrightarrow> bit progress n"
  by (simp add: guide_contains_def bit_nth and_exp_eq_0_iff_not_bit)

lemma observe_contains:
  "guide_contains (snd (guide_observe progress (observation_bit k))) (observation_bit j)
     \<longleftrightarrow> j = k \<or> guide_contains progress (observation_bit j)"
proof -
  obtain m n where "m < 6" "k = all ! m" "n < 6" "j = all ! n" using kind_nth by metis
  moreover from this have "j = k \<longleftrightarrow> n = m" using once length_all by (simp add: nth_eq_iff_index_eq)
  ultimately show ?thesis
    by (auto simp: contains_nth) (auto simp: guide_observe_def bit_nth bit_or_iff bit_exp_iff Let_def)
qed

lemma observe_new: "fst (guide_observe progress (observation_bit k)) \<longleftrightarrow> \<not> guide_contains progress (observation_bit k)"
proof -
  obtain m where m: "m < 6" "k = all ! m" using kind_nth by metis
  have "bit progress n" if "bit progress m" "bit (progress OR push_bit m 1) n" for n
    using that by (auto simp: bit_or_iff bit_exp_iff)
  then have "bit progress m \<Longrightarrow> progress OR push_bit m 1 = progress" by (intro bit_eqI) (auto simp: bit_or_iff)
  moreover have "bit (progress OR push_bit m 1) m" using m(1) by (simp add: bit_or_iff bit_exp_iff)
  ultimately have "progress OR push_bit m 1 = progress \<longleftrightarrow> bit progress m" by metis
  then show ?thesis using m by (simp add: contains_nth) (simp add: guide_observe_def bit_nth)
qed

lemma observe_known: "guide_known progress \<Longrightarrow> guide_known (snd (guide_observe progress (observation_bit k)))"
  using kind_nth [of k] by (auto simp: guide_known_bits guide_observe_def bit_nth bit_or_iff bit_exp_iff Let_def)

lemma discovered_count:
  assumes "guide_known progress"
  shows "guide_discovered_count progress = length (filter (\<lambda>k. guide_contains progress (observation_bit k)) all)"
proof -
  have split: "[0..<32] = [0..<6] @ [6..<32]" using upt_add_eq_append [of 0 6 26] by simp
  have "filter (bit progress) [6..<32] = []" using assms by (auto simp: guide_known_bits filter_empty_conv)
  then have "guide_discovered_count progress = length (filter (bit progress) [0..<6])"
    by (simp only: guide_discovered_count_def split filter_append append_Nil2)
  also have "\<dots> = length (filter ((\<lambda>k. guide_contains progress (observation_bit k)) \<circ> (\<lambda>n. all ! n)) [0..<6])"
    by (intro arg_cong [where f = length] filter_cong refl) (simp add: contains_nth)
  also have "\<dots> = length (filter (\<lambda>k. guide_contains progress (observation_bit k)) (map (\<lambda>n. all ! n) [0..<6]))"
    by (simp add: filter_map)
  also have "map (\<lambda>n. all ! n) [0..<6] = all" using map_nth [of all] length_all by simp
  finally show ?thesis .
qed

lemma complete_iff:
  assumes "guide_known progress"
  shows "guide_is_complete progress \<longleftrightarrow> (\<forall>k. guide_contains progress (observation_bit k))"
proof -
  have "guide_is_complete progress \<longleftrightarrow> (\<forall>n < 6. bit progress n)"
    using assms unfolding guide_is_complete_def guide_known_bits bit_eq_iff known_mask_bit by auto
  also have "\<dots> \<longleftrightarrow> (\<forall>k. guide_contains progress (observation_bit k))"
    using kind_nth contains_nth by metis
  finally show ?thesis .
qed

lemma guide_laws: "guide_known progress \<Longrightarrow> guide_records observation_bit all progress"
  unfolding guide_records_def case_prod_beta
  using observe_known observe_new observe_contains discovered_count complete_iff by simp

end

lemma upt_6: "[0..<6] = [0, 1, 2, 3, 4, 5 :: nat]"
  by (simp add: upt_rec)

interpretation rabbit_guide: field_guide rabbit_observation_bit rabbit_observations
  by unfold_locales (auto simp: rabbit_observations_def upt_6, case_tac x, auto)

interpretation bee_guide: field_guide bee_observation_bit bee_observations
  by unfold_locales (auto simp: bee_observations_def upt_6, case_tac x, auto)

interpretation deer_guide: field_guide deer_observation_bit deer_observations
  by unfold_locales (auto simp: deer_observations_def upt_6, case_tac x, auto)

interpretation mallard_guide: field_guide mallard_observation_bit mallard_observations
  by unfold_locales (auto simp: mallard_observations_def upt_6, case_tac x, auto)

end
