(* ===== verification/SeasonCalendar.thy ===== *)
theory SeasonCalendar imports Prelude
begin

text \<open>
  The civil calendar and the lunar cycle of \<open>native/crates/mclone-season/src/lib.rs\<close>: the policy that clients
  and server agree on, its validation, and the day, year and phases it assigns to a tick of the world clock.
  Ticks, days and years are naturals below \<open>2 ^ 64\<close>, the numbers of a policy are 16-bit words.  The solar
  positions of the same file are floating point and are left out.
\<close>

type_synonym u16 = "16 word"

abbreviation (input) day_length_ticks :: nat where "day_length_ticks \<equiv> 24000"
abbreviation (input) orbital_phase_steps :: nat where "orbital_phase_steps \<equiv> 10000"
abbreviation (input) lunar_phase_steps :: nat where "lunar_phase_steps \<equiv> 10000"
abbreviation (input) lunar_synodic_period_ticks :: nat where "lunar_synodic_period_ticks \<equiv> day_length_ticks * 59 div 2"

section \<open>Policies\<close>

datatype season_policy =
    SeasonDisabled
  | SeasonOrbital (sp_rule_revision: u16) (sp_days_per_year: u16) (sp_phase_origin_day: u16)

datatype season_error =
    ZeroRuleRevision
  | UnknownRuleRevision u16 u16
  | ZeroDaysPerYear
  | PhaseOriginOutsideYear u16 u16

definition mclone_overworld_v1 :: season_policy where
  "mclone_overworld_v1 = SeasonOrbital 1 56 0"

fun season_validate :: "season_policy \<Rightarrow> season_error + unit" where
  "season_validate SeasonDisabled = Inr ()"
| "season_validate (SeasonOrbital revision days origin) =
     (if revision = 0 then Inl ZeroRuleRevision
      else if revision \<noteq> 1 then Inl (UnknownRuleRevision revision 1)
      else if days = 0 then Inl ZeroDaysPerYear
      else if days \<le> origin then Inl (PhaseOriginOutsideYear origin days)
      else Inr ())"

section \<open>Samples\<close>

record calendar_sample =
  ca_civil_time_ticks :: nat
  ca_absolute_day :: nat
  ca_day_tick :: nat
  ca_year_index :: nat
  ca_days_per_year :: u16
  ca_day_of_year :: u16
  ca_orbital_phase :: u16

definition saturate_u64 :: "nat \<Rightarrow> nat" where
  "saturate_u64 n = min n (2 ^ 64 - 1)"

definition orbital_from_steps_wrapped :: "u16 \<Rightarrow> u16" where
  "orbital_from_steps_wrapped steps = steps mod of_nat orbital_phase_steps"

definition season_sample :: "season_policy \<Rightarrow> nat \<Rightarrow> season_error + calendar_sample option" where
  "season_sample policy civil_time = (case season_validate policy of Inl e \<Rightarrow> Inl e
     | Inr _ \<Rightarrow> Inr (case policy of SeasonDisabled \<Rightarrow> None
       | SeasonOrbital revision days_per_year origin \<Rightarrow>
           let absolute_day = civil_time div day_length_ticks;
               day_tick = civil_time mod day_length_ticks;
               days = unat days_per_year;
               civil_day_of_year = absolute_day mod days;
               shifted_day = (civil_day_of_year + days - unat origin) mod days;
               phase_ticks = saturate_u64 (saturate_u64 (shifted_day * day_length_ticks) + day_tick);
               year_ticks = saturate_u64 (days * day_length_ticks);
               phase_steps = of_nat (phase_ticks * orbital_phase_steps div year_ticks)
           in Some \<lparr>ca_civil_time_ticks = civil_time, ca_absolute_day = absolute_day, ca_day_tick = day_tick,
                ca_year_index = absolute_day div days, ca_days_per_year = days_per_year,
                ca_day_of_year = of_nat civil_day_of_year + 1,
                ca_orbital_phase = orbital_from_steps_wrapped phase_steps\<rparr>))"

section \<open>The moon\<close>

datatype lunar_phase_label = NewMoon | WaxingCrescent | FirstQuarter | WaxingGibbous | FullMoon | WaningGibbous
  | LastQuarter | WaningCrescent

definition lunar_from_steps_wrapped :: "u16 \<Rightarrow> u16" where
  "lunar_from_steps_wrapped steps = steps mod of_nat lunar_phase_steps"

definition lunar_from_day_time :: "nat \<Rightarrow> u16" where
  "lunar_from_day_time day_time = (let tick = day_time mod lunar_synodic_period_ticks;
       steps = tick * lunar_phase_steps div lunar_synodic_period_ticks in lunar_from_steps_wrapped (of_nat steps))"

definition named_phase :: "u16 \<Rightarrow> lunar_phase_label" where
  "named_phase phase = (let eighth = of_nat (lunar_phase_steps div 8); i = ((phase + eighth div 2) div eighth) mod 8 in
     if i = 0 then NewMoon else if i = 1 then WaxingCrescent else if i = 2 then FirstQuarter else if i = 3 then WaxingGibbous
     else if i = 4 then FullMoon else if i = 5 then WaningGibbous else if i = 6 then LastQuarter else WaningCrescent)"

section \<open>Facts\<close>

definition season_valid :: "season_policy \<Rightarrow> bool" where
  "season_valid policy \<longleftrightarrow> season_validate policy = Inr ()"

lemma season_valid_orbital: "season_valid (SeasonOrbital revision days origin) \<longleftrightarrow>
    revision = 1 \<and> unat origin < unat days"
  by (auto simp: season_valid_def word_le_nat_alt unat_0_iff)

lemma unat_u16_less: "unat (w :: u16) < 65536"
  using unsigned_less [of w, where ?'a = nat] by simp

lemma unat_of_nat_u16: "n < 65536 \<Longrightarrow> unat (of_nat n :: u16) = n"
  by (simp add: unsigned_of_nat take_bit_nat_eq_self)

lemma steps_wrapped: "unat (orbital_from_steps_wrapped steps) = unat steps mod 10000"
  "unat (lunar_from_steps_wrapped steps) = unat steps mod 10000"
  by (simp_all add: orbital_from_steps_wrapped_def lunar_from_steps_wrapped_def unat_mod_distrib)

text \<open>Ticks since the origin of the year's phase, in two ways: by days and day ticks as the code, and at once.\<close>

lemma shifted_ticks:
  fixes t days origin :: nat
  assumes "origin < days"
  shows "(t div 24000 mod days + days - origin) mod days * 24000 + t mod 24000 = (t + (days - origin) * 24000) mod (days * 24000)"
proof -
  let ?d = "t div 24000" and ?r = "t mod 24000"
  have "(?d mod days + days - origin) mod days = (?d mod days + (days - origin)) mod days" using assms by simp
  also have "\<dots> = (?d + (days - origin)) mod days" by (rule mod_add_left_eq)
  finally have shifted: "(?d mod days + days - origin) mod days = (?d + (days - origin)) mod days" .
  have "t + (days - origin) * 24000 = (?d + (days - origin)) * 24000 + ?r"
    by (simp only: add_mult_distrib) (use div_mult_mod_eq [of t 24000] in linarith)
  then have "(t + (days - origin) * 24000) mod (24000 * days)
      = 24000 * ((?d + (days - origin)) mod days) + ?r"
    by (simp add: mod_mult2_eq add.commute)
  then show ?thesis unfolding shifted by (simp only: mult.commute)
qed

lemma orbital_steps: "p < 10000 \<Longrightarrow> unat (orbital_from_steps_wrapped (of_nat p)) = p"
  by (simp add: steps_wrapped unat_of_nat_u16)

lemma lunar_steps: "unat (lunar_from_day_time t) = t mod 708000 * 10000 div 708000"
proof -
  have "t mod 708000 * 10000 div 708000 < 10000"
    by (rule less_mult_imp_div_less) simp
  then show ?thesis by (simp add: lunar_from_day_time_def steps_wrapped unat_of_nat_u16)
qed

lemma lunar_period: "lunar_from_day_time (t + lunar_synodic_period_ticks) = lunar_from_day_time t"
  by (simp add: lunar_from_day_time_def)

lemma calendar_day:
  fixes t days :: nat
  assumes "0 < days"
  shows "(t div 24000 div days * days + t div 24000 mod days) * 24000 + t mod 24000 = t"
  by (simp only: div_mult_mod_eq)

text \<open>No step of a sample saturates or is cut to 16 bits.\<close>

lemma sample_widths:
  fixes days shifted tick :: nat
  assumes "shifted < days" and "days < 65536" and "tick < 24000"
  shows "saturate_u64 (saturate_u64 (shifted * 24000) + tick) = shifted * 24000 + tick"
    and "saturate_u64 (days * 24000) = days * 24000"
    and "unat (orbital_from_steps_wrapped (of_nat ((shifted * 24000 + tick) * 10000 div (days * 24000))))
      = (shifted * 24000 + tick) * 10000 div (days * 24000)"
proof -
  have "shifted * 24000 + tick < days * 24000" using assms(1,3) by linarith
  then have "(shifted * 24000 + tick) * 10000 div (days * 24000) < 10000"
    by (intro less_mult_imp_div_less) (simp add: mult.commute)
  then show "unat (orbital_from_steps_wrapped (of_nat ((shifted * 24000 + tick) * 10000 div (days * 24000))))
      = (shifted * 24000 + tick) * 10000 div (days * 24000)" by (rule orbital_steps)
  show "saturate_u64 (saturate_u64 (shifted * 24000) + tick) = shifted * 24000 + tick"
    "saturate_u64 (days * 24000) = days * 24000"
    using assms by (simp_all add: saturate_u64_def)
qed

text \<open>C40: a valid calendar places every tick: the year, the day of the year and the tick of the day spell the
  civil time, the day lies in the year, and the orbital phase is the exact fraction, rounded down to one
  ten-thousandth, of the year that has passed since the policy's origin day, with no overflow at any
  width.\<close>
theorem calendar_places_every_tick:
  assumes "season_validate (SeasonOrbital revision days origin) = Inr ()"
  shows "\<exists>s. season_sample (SeasonOrbital revision days origin) t = Inr (Some s)
    \<and> (ca_year_index s * unat days + (unat (ca_day_of_year s) - 1)) * 24000 + ca_day_tick s = t
    \<and> ca_day_tick s < 24000 \<and> 1 \<le> unat (ca_day_of_year s) \<and> unat (ca_day_of_year s) \<le> unat days
    \<and> unat (ca_orbital_phase s)
        = (t + (unat days - unat origin) * 24000) mod (unat days * 24000) * 10000 div (unat days * 24000)"
proof -
  have valid: "unat origin < unat days" using assms season_valid_orbital by (simp add: season_valid_def)
  have widths: "unat days < 65536" by (rule unat_u16_less)
  define civil where "civil = t div 24000 mod unat days"
  define shifted where "shifted = (civil + unat days - unat origin) mod unat days"
  have civil: "civil < unat days" and shifted: "shifted < unat days" using valid by (simp_all add: civil_def shifted_def)
  have "t mod 24000 < 24000" by simp
  note w = sample_widths [OF shifted widths this]
  have phase: "(t + (unat days - unat origin) * 24000) mod (unat days * 24000) = shifted * 24000 + t mod 24000"
    unfolding shifted_def civil_def by (rule shifted_ticks [symmetric, OF valid])
  have day: "unat (of_nat civil + 1 :: u16) = civil + 1"
    using civil widths by (simp add: unat_word_ariths unat_of_nat_u16)
  have sample: "season_sample (SeasonOrbital revision days origin) t = Inr (Some
      \<lparr>ca_civil_time_ticks = t, ca_absolute_day = t div 24000, ca_day_tick = t mod 24000,
       ca_year_index = t div 24000 div unat days, ca_days_per_year = days, ca_day_of_year = of_nat civil + 1,
       ca_orbital_phase = orbital_from_steps_wrapped (of_nat ((shifted * 24000 + t mod 24000) * 10000 div (unat days * 24000)))\<rparr>)"
    unfolding season_sample_def assms sum.case season_policy.case Let_def civil_def [symmetric] shifted_def [symmetric] w(1,2) ..
  have "(t div 24000 div unat days * unat days + civil) * 24000 + t mod 24000 = t"
    unfolding civil_def using valid by (intro calendar_day) simp
  moreover define p where "p = (shifted * 24000 + t mod 24000) * 10000 div (unat days * 24000)"
  ultimately show ?thesis
    unfolding phase sample p_def [symmetric] using civil w(3) [folded p_def] by (simp add: day)
qed

lemma calendar_places_every_tick_witness:
  "\<exists>s. season_sample mclone_overworld_v1 1344001 = Inr (Some s) \<and> unat (ca_orbital_phase s) = 0"
  using calendar_places_every_tick [of 1 56 0 1344001] by (auto simp: mclone_overworld_v1_def)

end
