(* ===== verification/ProtocolSession.thy ===== *)
theory ProtocolSession imports ProtocolEntities ProtocolKeys ProtocolGuides SeasonCalendar
begin

text \<open>
  The parts of a server's updates that are about the session and its players: the session configuration, disconnect
  reasons, life and position of the player, other players, the calendar and the sounds of animals
  (\<open>lib.rs\<close>, \<open>ephemeral.rs\<close>, \<open>player_lifecycle.rs\<close> and \<open>ecology.rs\<close> in \<open>native/crates/mclone-protocol/src\<close>).
\<close>

section \<open>Session configuration\<close>

datatype ephemeral_transport = ReliableFallback | InMemory | NativeUdp | WebTransport | WebRtcDataChannel

fun transport_tag :: "ephemeral_transport \<Rightarrow> u8" where
  "transport_tag ReliableFallback = 0"
| "transport_tag InMemory = 1"
| "transport_tag NativeUdp = 2"
| "transport_tag WebTransport = 3"
| "transport_tag WebRtcDataChannel = 4"

definition transport_arms :: "(u8 \<times> ephemeral_transport) list" where
  "transport_arms = [(0, ReliableFallback), (1, InMemory), (2, NativeUdp), (3, WebTransport), (4, WebRtcDataChannel)]"

definition read_transport :: "ephemeral_transport reader" where
  "read_transport = read_tagged transport_arms (\<lambda>_. InvalidData ''unknown effective ephemeral transport'')"

abbreviation (input) known_capabilities :: u64 where "known_capabilities \<equiv> push_bit 0 1 OR push_bit 1 1"

definition capabilities_known :: "u64 \<Rightarrow> u64" where
  "capabilities_known capabilities = capabilities AND known_capabilities"

record session_configuration =
  sc_gameplay_rate_hz :: u32
  sc_publication_rate_hz :: u32
  sc_body_pose_report_rate_hz :: u32
  sc_remote_pose_rate_hz :: u32
  sc_transport :: ephemeral_transport
  sc_max_render_distance :: u32
  sc_max_tracking_radius :: u32
  sc_capabilities :: u64

definition fixed_vanilla :: "u32 \<Rightarrow> u32 \<Rightarrow> u64 \<Rightarrow> session_configuration" where
  "fixed_vanilla max_render_distance max_tracking_radius capabilities =
     \<lparr>sc_gameplay_rate_hz = 20, sc_publication_rate_hz = 20, sc_body_pose_report_rate_hz = 20, sc_remote_pose_rate_hz = 20,
      sc_transport = ReliableFallback, sc_max_render_distance = max_render_distance,
      sc_max_tracking_radius = max_tracking_radius, sc_capabilities = capabilities\<rparr>"

definition validate_session_configuration :: "session_configuration \<Rightarrow> codec_error + unit" where
  "validate_session_configuration c = checks
     [require (sc_gameplay_rate_hz c \<noteq> 0) ''session gameplay rate must be nonzero'',
      require (sc_publication_rate_hz c \<noteq> 0) ''session publication rate must be nonzero'',
      require (sc_body_pose_report_rate_hz c \<noteq> 0) ''session body pose report rate must be nonzero'',
      require (sc_remote_pose_rate_hz c \<noteq> 0) ''session remote pose replication rate must be nonzero'',
      require (\<not> sc_max_tracking_radius c < sc_max_render_distance c) ''session render distance exceeds tracking radius'']"

definition write_session_configuration :: "session_configuration \<Rightarrow> bytes" where
  "write_session_configuration c = write_u32 (sc_gameplay_rate_hz c) @ write_u32 (sc_publication_rate_hz c)
     @ write_u32 (sc_body_pose_report_rate_hz c) @ write_u32 (sc_remote_pose_rate_hz c) @ write_u8 (transport_tag (sc_transport c))
     @ write_u32 (sc_max_render_distance c) @ write_u32 (sc_max_tracking_radius c) @ write_u64 (sc_capabilities c)"

definition read_session_configuration :: "session_configuration reader" where
  "read_session_configuration = reading read_u32 (\<lambda>gameplay. reading read_u32 (\<lambda>publication.
     reading read_u32 (\<lambda>body_pose. reading read_u32 (\<lambda>remote_pose. reading read_transport (\<lambda>transport.
     reading read_u32 (\<lambda>render_distance. reading read_u32 (\<lambda>radius. reading read_u64 (\<lambda>capabilities.
     let configuration = \<lparr>sc_gameplay_rate_hz = gameplay, sc_publication_rate_hz = publication,
       sc_body_pose_report_rate_hz = body_pose, sc_remote_pose_rate_hz = remote_pose, sc_transport = transport,
       sc_max_render_distance = render_distance, sc_max_tracking_radius = radius,
       sc_capabilities = capabilities_known capabilities\<rparr> in
     ensuring (validate_session_configuration configuration) (yield configuration)))))))))"

interpretation transport: tag_table transport_arms transport_tag
  unfolding transport_arms_def by (rule tag_tableI, simp, case_tac x, simp_all)

text \<open>Unknown capabilities are dropped on the way in.\<close>

lemma session_configuration_reads [reads]: "read_session_configuration bs = Inr (c, rest) \<longleftrightarrow>
    validate_session_configuration c = Inr () \<and>
    (\<exists>capabilities. sc_capabilities c = capabilities_known capabilities
       \<and> bs = write_session_configuration (c\<lparr>sc_capabilities := capabilities\<rparr>) @ rest)"
  by (cases c) (auto simp: read_session_configuration_def write_session_configuration_def read_transport_def
      transport.tagged_exact reads, (intro exI conjI; (assumption | rule refl)))

section \<open>Disconnect reasons\<close>

datatype disconnect_code = Timeout | DuplicateProfile | ProtocolViolation | ServerShutdown | Kicked | InternalError
  | EndOfStream | TransportError | ClientQuit

record disconnect_reason =
  dr_code :: disconnect_code
  dr_detail :: bytes

abbreviation (input) max_disconnect_detail_bytes :: nat where "max_disconnect_detail_bytes \<equiv> 512"

text \<open>\<open>str::is_char_boundary\<close> on the bytes of a text.\<close>

definition is_char_boundary :: "bytes \<Rightarrow> nat \<Rightarrow> bool" where
  "is_char_boundary s i \<longleftrightarrow> i = 0 \<or> i = length s \<or> i < length s \<and> \<not> continuation (s ! i)"

fun last_boundary :: "bytes \<Rightarrow> nat \<Rightarrow> nat" where
  "last_boundary s i = (if 0 < i \<and> \<not> is_char_boundary s i then last_boundary s (i - 1) else i)"

declare last_boundary.simps [simp del]

definition disconnect_reason_new :: "disconnect_code \<Rightarrow> bytes \<Rightarrow> disconnect_reason" where
  "disconnect_reason_new code detail = \<lparr>dr_code = code, dr_detail =
     (if max_disconnect_detail_bytes < length detail
      then take (last_boundary detail max_disconnect_detail_bytes) detail else detail)\<rparr>"

fun disconnect_tag :: "disconnect_code \<Rightarrow> u8" where
  "disconnect_tag Timeout = 0"
| "disconnect_tag DuplicateProfile = 1"
| "disconnect_tag ProtocolViolation = 2"
| "disconnect_tag ServerShutdown = 3"
| "disconnect_tag Kicked = 4"
| "disconnect_tag InternalError = 5"
| "disconnect_tag EndOfStream = 6"
| "disconnect_tag TransportError = 7"
| "disconnect_tag ClientQuit = 8"

definition disconnect_arms :: "(u8 \<times> disconnect_code) list" where
  "disconnect_arms = [(0, Timeout), (1, DuplicateProfile), (2, ProtocolViolation), (3, ServerShutdown), (4, Kicked),
     (5, InternalError), (6, EndOfStream), (7, TransportError), (8, ClientQuit)]"

definition validate_disconnect_reason :: "disconnect_reason \<Rightarrow> codec_error + unit" where
  "validate_disconnect_reason reason = require (\<not> max_disconnect_detail_bytes < length (dr_detail reason))
     ''disconnect detail exceeds the protocol maximum''"

definition write_disconnect_reason :: "disconnect_reason \<Rightarrow> codec_error + bytes" where
  "write_disconnect_reason reason = write_then (Inr (write_u8 (disconnect_tag (dr_code reason))))
     (write_string ''disconnect detail'' (dr_detail reason))"

definition read_disconnect_reason :: "disconnect_reason reader" where
  "read_disconnect_reason = reading (read_tagged disconnect_arms (\<lambda>_. InvalidData ''unknown server disconnect reason'')) (\<lambda>code.
     reading (read_string ''disconnect detail'' max_disconnect_detail_bytes) (\<lambda>detail. yield (disconnect_reason_new code detail)))"

interpretation disconnect: tag_table disconnect_arms disconnect_tag
  unfolding disconnect_arms_def by (rule tag_tableI, simp, case_tac x, simp_all)

definition disconnect_fits :: "disconnect_reason \<Rightarrow> bool" where
  "disconnect_fits reason \<longleftrightarrow> validate_disconnect_reason reason = Inr () \<and> valid_utf8 (dr_detail reason)"

definition disconnect_bytes :: "disconnect_reason \<Rightarrow> bytes" where
  "disconnect_bytes reason = write_u8 (disconnect_tag (dr_code reason)) @ string_bytes (dr_detail reason)"

lemma disconnect_exact [reads]: "read_disconnect_reason bs = Inr (reason, rest) \<longleftrightarrow>
    disconnect_fits reason \<and> bs = disconnect_bytes reason @ rest"
  by (cases reason) (auto simp: read_disconnect_reason_def disconnect_fits_def disconnect_bytes_def
      validate_disconnect_reason_def disconnect_reason_new_def disconnect.tagged_exact reads)

lemma write_disconnect_ok: "validate_disconnect_reason reason = Inr () \<Longrightarrow> write_disconnect_reason reason = Inr (disconnect_bytes reason)"
  by (simp add: validate_disconnect_reason_def write_disconnect_reason_def disconnect_bytes_def)

text \<open>Cutting a text at a boundary leaves a text.\<close>

lemma last_boundary_spec: "i \<le> length s \<Longrightarrow> last_boundary s i \<le> i \<and> is_char_boundary s (last_boundary s i)"
proof (induction i)
  case (Suc i)
  then show ?case by (subst (1 2) last_boundary.simps) (auto simp: le_SucI)
qed (simp add: last_boundary.simps is_char_boundary_def)

lemma is_char_boundary_Cons:
  "is_char_boundary (a # s) (Suc i) \<longleftrightarrow> is_char_boundary s i \<and> (i = 0 \<longrightarrow> s = [] \<or> \<not> continuation (hd s))"
  by (cases s; cases i) (auto simp: is_char_boundary_def)

lemma boundary_past: "is_char_boundary (a # b # s) (Suc i) \<Longrightarrow> continuation b \<Longrightarrow>
    \<exists>k. i = Suc k \<and> is_char_boundary (b # s) (Suc k)"
  by (cases i) (auto simp: is_char_boundary_Cons)

lemma valid_utf8_take: "valid_utf8 s \<Longrightarrow> is_char_boundary s i \<Longrightarrow> valid_utf8 (take i s)"
proof (induction s arbitrary: i rule: valid_utf8.induct)
  case (2 a bs)
  show ?case
  proof (cases i)
    case (Suc j)
    consider (one) "a < 0x80" | (two) "\<not> a < 0x80" "0xC2 \<le> a \<and> a \<le> 0xDF"
      | (three) "\<not> a < 0x80" "\<not> (0xC2 \<le> a \<and> a \<le> 0xDF)" "0xE0 \<le> a \<and> a \<le> 0xEF"
      | (four) "\<not> a < 0x80" "\<not> (0xC2 \<le> a \<and> a \<le> 0xDF)" "\<not> (0xE0 \<le> a \<and> a \<le> 0xEF)" "0xF0 \<le> a \<and> a \<le> 0xF4"
      using 2(5) by (simp only: valid_utf8.simps(2) split: if_splits) blast+
    then show ?thesis
    proof cases
      case one
      then show ?thesis using 2(1) [OF one, of j] 2(5,6) by (simp add: Suc valid_utf8.simps(2) is_char_boundary_Cons)
    next
      case two
      then obtain b cs where s: "bs = b # cs" "continuation b" "valid_utf8 cs"
        using 2(5) by (auto simp: valid_utf8.simps(2) split: list.splits)
      then obtain k where k: "j = Suc k" "is_char_boundary cs k"
        using 2(6) boundary_past unfolding Suc by (metis is_char_boundary_Cons)
      then have "valid_utf8 (take k cs)" using 2(2) [OF two s(1)] s(3) by blast
      moreover have "take i (a # bs) = a # b # take k cs" using s k Suc by simp
      ultimately show ?thesis using two s by (simp only:) (subst valid_utf8.simps(2), simp)
    next
      case three
      then obtain b c cs where s: "bs = b # c # cs"
        "continuation b \<and> (a = 0xE0 \<longrightarrow> 0xA0 \<le> b) \<and> (a = 0xED \<longrightarrow> b \<le> 0x9F)" "continuation c" "valid_utf8 cs"
        using 2(5) by (auto simp: valid_utf8.simps(2) split: list.splits if_splits)
      then obtain k where k: "j = Suc (Suc k)" "is_char_boundary cs k"
        using 2(6) boundary_past unfolding Suc by (metis is_char_boundary_Cons)
      then have "valid_utf8 (take k cs)" using 2(3) [OF three s(1) refl] s(4) by blast
      moreover have "take i (a # bs) = a # b # c # take k cs" using s k Suc by simp
      ultimately show ?thesis using three s by (simp only:) (subst valid_utf8.simps(2), simp, blast)
    next
      case four
      then obtain b c d cs where s: "bs = b # c # d # cs"
        "continuation b \<and> (a = 0xF0 \<longrightarrow> 0x90 \<le> b) \<and> (a = 0xF4 \<longrightarrow> b \<le> 0x8F)" "continuation c" "continuation d" "valid_utf8 cs"
        using 2(5) by (auto simp: valid_utf8.simps(2) split: list.splits if_splits)
      then obtain k where k: "j = Suc (Suc (Suc k))" "is_char_boundary cs k"
        using 2(6) boundary_past unfolding Suc by (metis is_char_boundary_Cons)
      then have "valid_utf8 (take k cs)" using 2(4) [OF four s(1) refl refl] s(5) by blast
      moreover have "take i (a # bs) = a # b # c # d # take k cs" using s k Suc by simp
      ultimately show ?thesis using four s by (simp only:) (subst valid_utf8.simps(2), simp, blast)
    qed
  qed simp
qed simp

lemma disconnect_reason_new_fits: "valid_utf8 detail \<Longrightarrow> disconnect_fits (disconnect_reason_new code detail)"
  using last_boundary_spec [of 512 detail]
  by (auto simp: disconnect_fits_def validate_disconnect_reason_def disconnect_reason_new_def intro: valid_utf8_take)

section \<open>The life of the player\<close>

record player_vitals =
  pv_health :: u32
  pv_max_health :: u32

datatype vitals_error = NonFinite | NonPositiveMaximum | HealthOutOfRange
datatype damage_cause = Lava
datatype life_state_error = InconsistentDeathCause

record player_life_state =
  pl_epoch :: u32
  pl_vitals :: player_vitals
  pl_death_cause :: "damage_cause option"

definition player_vitals_new :: "u32 \<Rightarrow> u32 \<Rightarrow> vitals_error + player_vitals" where
  "player_vitals_new health max_health =
     (if \<not> f32_is_finite health \<or> \<not> f32_is_finite max_health then Inl NonFinite
      else if f32_le max_health 0 then Inl NonPositiveMaximum
      else if f32_lt health 0 \<or> f32_lt max_health health then Inl HealthOutOfRange
      else Inr \<lparr>pv_health = health, pv_max_health = max_health\<rparr>)"

definition vitals_is_dead :: "player_vitals \<Rightarrow> bool" where
  "vitals_is_dead v \<longleftrightarrow> f32_le (pv_health v) 0"

definition life_state_new :: "u32 \<Rightarrow> player_vitals \<Rightarrow> damage_cause option \<Rightarrow> life_state_error + player_life_state" where
  "life_state_new epoch vitals cause =
     (if vitals_is_dead vitals \<noteq> (cause \<noteq> None) then Inl InconsistentDeathCause
      else Inr \<lparr>pl_epoch = epoch, pl_vitals = vitals, pl_death_cause = cause\<rparr>)"

definition player_life_living :: player_life_state where
  "player_life_living = \<lparr>pl_epoch = 0, pl_vitals = \<lparr>pv_health = 0x41A00000, pv_max_health = 0x41A00000\<rparr>, pl_death_cause = None\<rparr>"

definition or_invalid :: "'e + 'a \<Rightarrow> string \<Rightarrow> codec_error + 'a" where
  "or_invalid r message = (case r of Inl _ \<Rightarrow> Inl (InvalidData message) | Inr x \<Rightarrow> Inr x)"

definition validate_player_life_state :: "player_life_state \<Rightarrow> codec_error + unit" where
  "validate_player_life_state s = checks
     [map_sum (\<lambda>e. e) (\<lambda>_. ()) (or_invalid (player_vitals_new (pv_health (pl_vitals s)) (pv_max_health (pl_vitals s)))
        ''invalid player vitals''),
      map_sum (\<lambda>e. e) (\<lambda>_. ()) (or_invalid (life_state_new (pl_epoch s) (pl_vitals s) (pl_death_cause s))
        ''inconsistent player life state'')]"

fun death_cause_tag :: "damage_cause option \<Rightarrow> u8" where
  "death_cause_tag None = 0"
| "death_cause_tag (Some Lava) = 1"

definition write_player_life :: "player_life_state \<Rightarrow> bytes" where
  "write_player_life s = write_u32 (pl_epoch s) @ write_f32 (pv_health (pl_vitals s)) @ write_f32 (pv_max_health (pl_vitals s))
     @ write_u8 (death_cause_tag (pl_death_cause s))"

definition read_player_life :: "player_life_state reader" where
  "read_player_life = reading read_u32 (\<lambda>epoch. reading read_f32 (\<lambda>health. reading read_f32 (\<lambda>max_health.
     attempt (or_invalid (player_vitals_new health max_health) ''invalid player vitals'') (\<lambda>vitals.
     reading (read_tagged [(0, None), (1, Some Lava)] (\<lambda>_. InvalidData ''unknown player damage cause'')) (\<lambda>cause.
     attempt (or_invalid (life_state_new epoch vitals cause) ''inconsistent player life state'') yield)))))"

interpretation death_cause: tag_table "[(0, None), (1, Some Lava)]" death_cause_tag
  by (rule tag_tableI, simp, case_tac x rule: death_cause_tag.cases, simp_all)

lemma or_invalid_iff [simp]: "or_invalid r message = Inr x \<longleftrightarrow> r = Inr x"
  by (auto simp: or_invalid_def split: sum.splits)

lemma map_sum_Inr: "map_sum f g r = Inr y \<longleftrightarrow> (\<exists>x. r = Inr x \<and> y = g x)"
  by (cases r) auto

lemma vitals_new_iff: "player_vitals_new h m = Inr v \<longleftrightarrow>
    player_vitals_new (pv_health v) (pv_max_health v) = Inr v \<and> h = pv_health v \<and> m = pv_max_health v"
  by (cases v) (auto simp: player_vitals_new_def split: if_splits)

lemma life_state_new_iff: "life_state_new e v c = Inr s \<longleftrightarrow>
    life_state_new (pl_epoch s) (pl_vitals s) (pl_death_cause s) = Inr s \<and> e = pl_epoch s \<and> v = pl_vitals s \<and> c = pl_death_cause s"
  by (cases s) (auto simp: life_state_new_def split: if_splits)

lemma validate_life_iff: "validate_player_life_state s = Inr () \<longleftrightarrow>
    player_vitals_new (pv_health (pl_vitals s)) (pv_max_health (pl_vitals s)) = Inr (pl_vitals s)
    \<and> life_state_new (pl_epoch s) (pl_vitals s) (pl_death_cause s) = Inr s"
proof -
  have "(\<exists>v. player_vitals_new (pv_health (pl_vitals s)) (pv_max_health (pl_vitals s)) = Inr v)
    \<longleftrightarrow> player_vitals_new (pv_health (pl_vitals s)) (pv_max_health (pl_vitals s)) = Inr (pl_vitals s)"
    by (cases "pl_vitals s") (auto simp: player_vitals_new_def)
  moreover have "(\<exists>t. life_state_new (pl_epoch s) (pl_vitals s) (pl_death_cause s) = Inr t)
    \<longleftrightarrow> life_state_new (pl_epoch s) (pl_vitals s) (pl_death_cause s) = Inr s"
    by (cases s) (auto simp: life_state_new_def)
  ultimately show ?thesis
    by (simp add: validate_player_life_state_def map_sum_Inr)
qed

lemma player_life_exact [reads]: "read_player_life bs = Inr (s, rest) \<longleftrightarrow>
    validate_player_life_state s = Inr () \<and> bs = write_player_life s @ rest"
proof -
  have "read_player_life bs = Inr (s, rest) \<longleftrightarrow> (\<exists>e h m v c. bs = write_u32 e @ write_f32 h @ write_f32 m
      @ write_u8 (death_cause_tag c) @ rest \<and> player_vitals_new h m = Inr v \<and> life_state_new e v c = Inr s)"
    by (auto simp: read_player_life_def death_cause.tagged_exact reads, (intro exI conjI; (assumption | rule refl))+)
  also have "\<dots> \<longleftrightarrow> validate_player_life_state s = Inr () \<and> bs = write_player_life s @ rest"
    unfolding validate_life_iff write_player_life_def
    by (subst vitals_new_iff, subst life_state_new_iff) auto
  finally show ?thesis .
qed

section \<open>Positions of players\<close>

record relative_flags =
  rf_x :: bool
  rf_y :: bool
  rf_z :: bool
  rf_y_rot :: bool
  rf_x_rot :: bool

definition relative_flags_bits :: "relative_flags \<Rightarrow> u8" where
  "relative_flags_bits f = (if rf_x f then push_bit 0 1 else 0) OR (if rf_y f then push_bit 1 1 else 0)
     OR (if rf_z f then push_bit 2 1 else 0) OR (if rf_y_rot f then push_bit 3 1 else 0) OR (if rf_x_rot f then push_bit 4 1 else 0)"

definition relative_flags_from_bits :: "u8 \<Rightarrow> relative_flags option" where
  "relative_flags_from_bits b = (if b AND NOT 0x1F \<noteq> 0 then None
     else Some \<lparr>rf_x = b AND push_bit 0 1 \<noteq> 0, rf_y = b AND push_bit 1 1 \<noteq> 0, rf_z = b AND push_bit 2 1 \<noteq> 0,
       rf_y_rot = b AND push_bit 3 1 \<noteq> 0, rf_x_rot = b AND push_bit 4 1 \<noteq> 0\<rparr>)"

record player_position_update =
  pp_position :: vec3d
  pp_y_rot :: u32
  pp_x_rot :: u32
  pp_relative :: relative_flags
  pp_last_move_sequence :: u32
  pp_teleport_id :: u32
  pp_dismount_vehicle :: bool
  pp_reset_continuity :: bool

record remote_player_update =
  rp_id :: u64
  rp_appearance :: player_model_kind
  rp_position :: vec3d
  rp_y_rot :: u32
  rp_x_rot :: u32
  rp_on_ground :: bool

definition validate_player_position_update :: "player_position_update \<Rightarrow> codec_error + unit" where
  "validate_player_position_update u =
     require (vec3d_is_finite (pp_position u) \<and> f32_is_finite (pp_y_rot u) \<and> f32_is_finite (pp_x_rot u))
       ''player position update contains non-finite value''"

definition validate_remote_player_update :: "remote_player_update \<Rightarrow> codec_error + unit" where
  "validate_remote_player_update u =
     require (vec3d_is_finite (rp_position u) \<and> f32_is_finite (rp_y_rot u) \<and> f32_is_finite (rp_x_rot u))
       ''remote player update contains non-finite value''"

definition write_player_position_update :: "player_position_update \<Rightarrow> bytes" where
  "write_player_position_update u = write_vec3d (pp_position u) @ write_f32 (pp_y_rot u) @ write_f32 (pp_x_rot u)
     @ write_u8 (relative_flags_bits (pp_relative u)) @ write_u32 (pp_last_move_sequence u) @ write_u32 (pp_teleport_id u)
     @ write_bool (pp_dismount_vehicle u) @ write_bool (pp_reset_continuity u)"

definition read_player_position_update :: "player_position_update reader" where
  "read_player_position_update = reading read_vec3d (\<lambda>position. reading read_f32 (\<lambda>y_rot. reading read_f32 (\<lambda>x_rot.
     ensuring (require (f32_is_finite y_rot \<and> f32_is_finite x_rot) ''player position update rotation contains non-finite value'')
     (reading read_u8 (\<lambda>b. case relative_flags_from_bits b of
        None \<Rightarrow> refuse (InvalidData ''unknown player position relative flag'')
      | Some flags \<Rightarrow> reading read_u32 (\<lambda>sequence. reading read_u32 (\<lambda>teleport. reading read_bool (\<lambda>dismount.
          reading read_bool (\<lambda>reset. yield \<lparr>pp_position = position, pp_y_rot = y_rot, pp_x_rot = x_rot,
            pp_relative = flags, pp_last_move_sequence = sequence, pp_teleport_id = teleport,
            pp_dismount_vehicle = dismount, pp_reset_continuity = reset\<rparr>)))))))))"

definition write_remote_player_update :: "remote_player_update \<Rightarrow> bytes" where
  "write_remote_player_update u = write_u64 (rp_id u) @ write_u8 (player_model_tag (rp_appearance u)) @ write_vec3d (rp_position u)
     @ write_f32 (rp_y_rot u) @ write_f32 (rp_x_rot u) @ write_bool (rp_on_ground u)"

definition read_remote_player_update :: "remote_player_update reader" where
  "read_remote_player_update = reading read_u64 (\<lambda>player. reading read_player_model_kind (\<lambda>appearance.
     reading read_vec3d (\<lambda>position. reading read_f32 (\<lambda>y_rot. reading read_f32 (\<lambda>x_rot.
     ensuring (require (f32_is_finite y_rot \<and> f32_is_finite x_rot) ''remote player update rotation contains non-finite value'')
     (reading read_bool (\<lambda>on_ground. yield \<lparr>rp_id = player, rp_appearance = appearance, rp_position = position,
       rp_y_rot = y_rot, rp_x_rot = x_rot, rp_on_ground = on_ground\<rparr>)))))))"

lemma relative_flags_iff: "relative_flags_from_bits b = Some f \<longleftrightarrow> b = relative_flags_bits f"
proof
  assume a: "relative_flags_from_bits b = Some f"
  then have low: "b AND NOT 0x1F = 0" and f: "f = \<lparr>rf_x = b AND push_bit 0 1 \<noteq> 0, rf_y = b AND push_bit 1 1 \<noteq> 0,
      rf_z = b AND push_bit 2 1 \<noteq> 0, rf_y_rot = b AND push_bit 3 1 \<noteq> 0, rf_x_rot = b AND push_bit 4 1 \<noteq> 0\<rparr>"
    by (auto simp: relative_flags_from_bits_def split: if_splits)
  have single: "(if b AND push_bit n 1 \<noteq> 0 then push_bit n 1 else 0) = b AND push_bit n 1" for n
    by (auto simp: and_exp_eq_0_iff_not_bit intro!: bit_eqI simp: bit_and_iff bit_exp_iff)
  have "relative_flags_bits f = b AND (push_bit 0 1 OR push_bit 1 1 OR push_bit 2 1 OR push_bit 3 1 OR push_bit 4 1)"
    unfolding relative_flags_bits_def f relative_flags.simps single by (simp only: bit.conj_disj_distrib or.assoc)
  also have "push_bit 0 1 OR push_bit 1 1 OR push_bit 2 1 OR push_bit 3 1 OR push_bit 4 1 = (0x1F :: u8)" by simp
  also have "b AND 0x1F = (b AND 0x1F) OR (b AND NOT 0x1F)" unfolding low by (rule or.right_neutral [symmetric])
  also have "\<dots> = b" by (simp only: bit.conj_disj_distrib [symmetric] bit.disj_cancel_right bit.conj_one_right)
  finally show "b = relative_flags_bits f" by simp
next
  assume "b = relative_flags_bits f"
  then show "relative_flags_from_bits b = Some f"
    by (cases f) (simp add: relative_flags_bits_def relative_flags_from_bits_def)
qed

lemma position_update_exact [reads]: "read_player_position_update bs = Inr (u, rest) \<longleftrightarrow>
    validate_player_position_update u = Inr () \<and> bs = write_player_position_update u @ rest"
  by (cases u) (auto simp: read_player_position_update_def validate_player_position_update_def
      write_player_position_update_def relative_flags_iff reads)

lemma remote_update_exact [reads]: "read_remote_player_update bs = Inr (u, rest) \<longleftrightarrow>
    validate_remote_player_update u = Inr () \<and> bs = write_remote_player_update u @ rest"
  by (cases u) (auto simp: read_remote_player_update_def validate_remote_player_update_def
      write_remote_player_update_def read_player_model_kind_def reads)

section \<open>Calendar and sleep\<close>

record sleep_state =
  sl_sleeping :: bool
  sl_sleeping_players :: u32
  sl_eligible_players :: u32

definition validate_sleep_state :: "sleep_state \<Rightarrow> codec_error + unit" where
  "validate_sleep_state s =
     require (\<not> (sl_eligible_players s < sl_sleeping_players s \<or> sl_sleeping s \<and> sl_sleeping_players s = 0))
       ''invalid player sleep state''"

definition write_sleep_state :: "sleep_state \<Rightarrow> bytes" where
  "write_sleep_state s = write_bool (sl_sleeping s) @ write_u32 (sl_sleeping_players s) @ write_u32 (sl_eligible_players s)"

definition read_sleep_state :: "sleep_state reader" where
  "read_sleep_state = reading read_bool (\<lambda>sleeping. reading read_u32 (\<lambda>players. reading read_u32 (\<lambda>eligible.
     let state = \<lparr>sl_sleeping = sleeping, sl_sleeping_players = players, sl_eligible_players = eligible\<rparr> in
     ensuring (validate_sleep_state state) (yield state))))"

definition validate_calendar :: "season_policy \<Rightarrow> codec_error + unit" where
  "validate_calendar policy = or_invalid (season_validate policy) ''invalid season calendar policy''"

definition calendar_bytes :: "season_policy \<Rightarrow> bytes" where
  "calendar_bytes policy = (case policy of SeasonDisabled \<Rightarrow> write_u8 0
     | SeasonOrbital revision days origin \<Rightarrow> write_u8 1 @ write_u16 revision @ write_u16 days @ write_u16 origin)"

definition write_season_calendar_policy :: "season_policy \<Rightarrow> codec_error + bytes" where
  "write_season_calendar_policy policy = (case validate_calendar policy of Inl e \<Rightarrow> Inl e | Inr _ \<Rightarrow> Inr (calendar_bytes policy))"

definition read_season_calendar_policy :: "season_policy reader" where
  "read_season_calendar_policy = reading
     (reading read_u8 (\<lambda>tag. if tag = 0 then yield SeasonDisabled
        else if tag = 1 then reading read_u16 (\<lambda>revision. reading read_u16 (\<lambda>days. reading read_u16 (\<lambda>origin.
          yield (SeasonOrbital revision days origin))))
        else refuse (InvalidData ''unknown season calendar policy'')))
     (\<lambda>policy. ensuring (validate_calendar policy) (yield policy))"

lemma sleep_exact [reads]: "read_sleep_state bs = Inr (s, rest) \<longleftrightarrow> validate_sleep_state s = Inr () \<and> bs = write_sleep_state s @ rest"
  by (cases s) (auto simp: read_sleep_state_def write_sleep_state_def reads)

lemma calendar_exact [reads]: "read_season_calendar_policy bs = Inr (policy, rest) \<longleftrightarrow>
    validate_calendar policy = Inr () \<and> bs = calendar_bytes policy @ rest"
  by (cases policy) (auto simp: read_season_calendar_policy_def calendar_bytes_def write_u8_def reads)

section \<open>Sounds and tracks\<close>

text \<open>Bees and mallards have a cue without a kind.\<close>

record sound_cue =
  cu_source :: u64
  cu_position :: vec3d
  cu_sequence :: u64
  cu_audible_radius :: u32

datatype rabbit_sound_kind = RabbitThump | RabbitDig | RabbitRustle
datatype squirrel_sound_kind = SquirrelAlarmCall | SquirrelRustle | SquirrelDig
datatype deer_sound_kind = DeerContact | DeerAlarm | DeerImpact

record mallard_track_cue =
  mt_source :: entity_persistent_id
  mt_position :: vec3d
  mt_y_rot :: u32
  mt_sequence :: u64

fun rabbit_sound_tag :: "rabbit_sound_kind \<Rightarrow> u8" where
  "rabbit_sound_tag RabbitThump = 0"
| "rabbit_sound_tag RabbitDig = 1"
| "rabbit_sound_tag RabbitRustle = 2"

fun squirrel_sound_tag :: "squirrel_sound_kind \<Rightarrow> u8" where
  "squirrel_sound_tag SquirrelAlarmCall = 0"
| "squirrel_sound_tag SquirrelRustle = 1"
| "squirrel_sound_tag SquirrelDig = 2"

fun deer_sound_tag :: "deer_sound_kind \<Rightarrow> u8" where
  "deer_sound_tag DeerContact = 0"
| "deer_sound_tag DeerAlarm = 1"
| "deer_sound_tag DeerImpact = 2"

definition cue_valid :: "sound_cue \<Rightarrow> bool" where
  "cue_valid cue \<longleftrightarrow> \<not> (\<not> vec3d_is_finite (cu_position cue) \<or> \<not> f32_is_finite (cu_audible_radius cue)
     \<or> f32_le (cu_audible_radius cue) 0)"

definition track_valid :: "mallard_track_cue \<Rightarrow> bool" where
  "track_valid cue \<longleftrightarrow> \<not> (\<not> vec3d_is_finite (mt_position cue) \<or> \<not> f32_is_finite (mt_y_rot cue))"

definition write_cue :: "sound_cue \<Rightarrow> bytes" where
  "write_cue cue = write_u64 (cu_source cue) @ write_vec3d (cu_position cue) @ write_u64 (cu_sequence cue)
     @ write_f32 (cu_audible_radius cue)"

definition read_cue :: "sound_cue reader" where
  "read_cue = reading read_u64 (\<lambda>source. reading read_vec3d (\<lambda>position. reading read_u64 (\<lambda>sequence. reading read_f32 (\<lambda>radius.
     yield \<lparr>cu_source = source, cu_position = position, cu_sequence = sequence, cu_audible_radius = radius\<rparr>))))"

definition read_rabbit_sound_kind :: "rabbit_sound_kind reader" where
  "read_rabbit_sound_kind = read_tagged [(0, RabbitThump), (1, RabbitDig), (2, RabbitRustle)]
     (\<lambda>_. InvalidData ''unknown rabbit sound kind'')"

definition read_squirrel_sound_kind :: "squirrel_sound_kind reader" where
  "read_squirrel_sound_kind = read_tagged [(0, SquirrelAlarmCall), (1, SquirrelRustle), (2, SquirrelDig)]
     (\<lambda>_. InvalidData ''unknown squirrel sound kind'')"

definition read_deer_sound_kind :: "deer_sound_kind reader" where
  "read_deer_sound_kind = read_tagged [(0, DeerContact), (1, DeerAlarm), (2, DeerImpact)]
     (\<lambda>_. InvalidData ''unknown deer sound kind'')"

definition write_track :: "mallard_track_cue \<Rightarrow> bytes" where
  "write_track cue = write_u64 (pi_most (mt_source cue)) @ write_u64 (pi_least (mt_source cue)) @ write_vec3d (mt_position cue)
     @ write_f32 (mt_y_rot cue) @ write_u64 (mt_sequence cue)"

definition read_track :: "mallard_track_cue reader" where
  "read_track = reading read_u64 (\<lambda>most. reading read_u64 (\<lambda>least. reading read_vec3d (\<lambda>position. reading read_f32 (\<lambda>y_rot.
     reading read_u64 (\<lambda>sequence. yield \<lparr>mt_source = \<lparr>pi_most = most, pi_least = least\<rparr>, mt_position = position,
       mt_y_rot = y_rot, mt_sequence = sequence\<rparr>)))))"

interpretation rabbit_sound: tag_table "[(0, RabbitThump), (1, RabbitDig), (2, RabbitRustle)]" rabbit_sound_tag
  by (rule tag_tableI, simp, case_tac x, simp_all)

interpretation squirrel_sound: tag_table "[(0, SquirrelAlarmCall), (1, SquirrelRustle), (2, SquirrelDig)]" squirrel_sound_tag
  by (rule tag_tableI, simp, case_tac x, simp_all)

interpretation deer_sound: tag_table "[(0, DeerContact), (1, DeerAlarm), (2, DeerImpact)]" deer_sound_tag
  by (rule tag_tableI, simp, case_tac x, simp_all)

lemma cue_exact [reads]: "read_cue bs = Inr (cue, rest) \<longleftrightarrow> vec3d_is_finite (cu_position cue) \<and> bs = write_cue cue @ rest"
  by (cases cue) (auto simp: read_cue_def write_cue_def reads)

lemma track_exact [reads]: "read_track bs = Inr (cue, rest) \<longleftrightarrow> vec3d_is_finite (mt_position cue) \<and> bs = write_track cue @ rest"
  by (cases cue; cases "mt_source cue") (auto simp: read_track_def write_track_def reads)

lemma sound_kind_exact [reads]:
  "read_rabbit_sound_kind bs = Inr (k, rest) \<longleftrightarrow> bs = write_u8 (rabbit_sound_tag k) @ rest"
  "read_squirrel_sound_kind bs = Inr (l, rest) \<longleftrightarrow> bs = write_u8 (squirrel_sound_tag l) @ rest"
  "read_deer_sound_kind bs = Inr (m, rest) \<longleftrightarrow> bs = write_u8 (deer_sound_tag m) @ rest"
  unfolding read_rabbit_sound_kind_def read_squirrel_sound_kind_def read_deer_sound_kind_def
  by (rule rabbit_sound.tagged_exact squirrel_sound.tagged_exact deer_sound.tagged_exact)+

lemma streaming_session [streams]: "streaming read_session_configuration" "streaming read_disconnect_reason"
  "streaming read_player_life" "streaming read_player_position_update" "streaming read_remote_player_update"
  "streaming read_sleep_state" "streaming read_season_calendar_policy" "streaming read_cue" "streaming read_track"
  "streaming read_rabbit_sound_kind" "streaming read_squirrel_sound_kind" "streaming read_deer_sound_kind"
  unfolding read_session_configuration_def read_transport_def read_disconnect_reason_def read_player_life_def
    read_player_position_update_def read_remote_player_update_def read_sleep_state_def read_season_calendar_policy_def
    read_cue_def read_track_def read_rabbit_sound_kind_def read_squirrel_sound_kind_def read_deer_sound_kind_def
  by (intro streams)+

end
