(* ===== verification/ProtocolUpdates.thy ===== *)
theory ProtocolUpdates imports ProtocolSession
begin

text \<open>
  What a server sends: \<open>encode_server_update\<close> and \<open>decode_server_update\<close> of
  \<open>native/crates/mclone-protocol/src/lib.rs\<close>.  The update type is the one that the chunk tracking queues
  (\<open>ServerTracking\<close>), with the position update and the updates that the tracking does not look into filled in.
\<close>

section \<open>Updates\<close>

datatype other_update =
    UpSessionConfiguration session_configuration
  | UpSessionReady
  | UpWorldInfo dimension_key int horizontal_topology
  | UpDimensionChange dimension_key int horizontal_topology bool
  | UpTime u64 u64 bool season_policy
  | UpSleepState sleep_state
  | UpRemotePlayerAdd remote_player_update
  | UpRemotePlayerUpdate remote_player_update
  | UpRemotePlayerRemove u64
  | UpEntitySnapshot entity_snapshot
  | UpEntityUpdate entity_update
  | UpEntityRemove u64
  | UpPlayerExperience u64
  | UpPlayerStatistics player_statistics
  | UpPlayerInventory "item_stack option list"
  | UpMallardFieldGuide guide_progress
  | UpDeerFieldGuide guide_progress
  | UpBeeFieldGuide guide_progress
  | UpRabbitFieldGuide guide_progress
  | UpBeeSound sound_cue
  | UpRabbitSound sound_cue rabbit_sound_kind
  | UpSquirrelSound sound_cue squirrel_sound_kind
  | UpDeerSound sound_cue deer_sound_kind
  | UpMallardCall sound_cue
  | UpMallardTrack mallard_track_cue
  | UpPlayerLife player_life_state
  | UpEphemeralFallback server_ephemeral_message
  | UpKeepAlive u64
  | UpDisconnect disconnect_reason

type_synonym wire_update = "(player_position_update, other_update) server_update"

section \<open>Writing\<close>

text \<open>\<open>validate?; write\<close>.\<close>

definition checked :: "codec_error + unit \<Rightarrow> codec_error + bytes \<Rightarrow> codec_error + bytes" where
  "checked v w = (case v of Inl e \<Rightarrow> Inl e | Inr _ \<Rightarrow> w)"

definition write_world_info :: "dimension_key \<Rightarrow> int \<Rightarrow> horizontal_topology \<Rightarrow> codec_error + bytes" where
  "write_world_info dimension biome_zoom_seed topology = write_then (write_string ''dimension key'' (dk_str dimension))
     (Inr (write_i64 biome_zoom_seed @ write_horizontal_topology topology))"

definition write_section_block_updates :: "chunk_pos \<Rightarrow> int \<Rightarrow> section_block_update list \<Rightarrow> codec_error + bytes" where
  "write_section_block_updates pos section_y updates = write_then (Inr (write_chunk_pos pos @ write_i32 section_y))
     (write_then (write_len ''section block updates'' (length updates))
       (write_each (\<lambda>u. checked (validate_section_block_update u) (Inr (write_section_block_update u))) updates))"

definition write_hotbar :: "item_stack option list \<Rightarrow> bytes" where
  "write_hotbar hotbar = concat (map write_optional_item_stack_snapshot hotbar)"

definition encode_server_update :: "wire_update \<Rightarrow> codec_error + bytes" where
  "encode_server_update update = (case update of
       ChunkSnapshotUpdate snapshot \<Rightarrow> write_then (Inr (write_u8 1)) (write_snapshot snapshot)
     | ChunkUnloadUpdate pos \<Rightarrow> Inr (write_u8 2 @ write_chunk_pos pos)
     | SectionBlockUpdates pos section_y updates \<Rightarrow>
         if updates = [] then Inl (InvalidData ''section block update list is empty'')
         else write_then (Inr (write_u8 3)) (write_section_block_updates pos section_y updates)
     | PlayerPositionUpd u \<Rightarrow> checked (validate_player_position_update u) (Inr (write_u8 5 @ write_player_position_update u))
     | OtherUpdate other \<Rightarrow> (case other of
         UpSessionConfiguration c \<Rightarrow> checked (validate_session_configuration c) (Inr (write_u8 14 @ write_session_configuration c))
       | UpSessionReady \<Rightarrow> Inr (write_u8 15)
       | UpWorldInfo dimension seed topology \<Rightarrow> checked (validate_horizontal_topology topology)
           (write_then (Inr (write_u8 12)) (write_world_info dimension seed topology))
       | UpDimensionChange dimension seed topology keep \<Rightarrow> checked (validate_horizontal_topology topology)
           (write_then (Inr (write_u8 18)) (write_then (write_world_info dimension seed topology) (Inr (write_bool keep))))
       | UpTime game_time day_time running policy \<Rightarrow>
           write_then (Inr (write_u8 4 @ write_u64 game_time @ write_u64 day_time @ write_bool running))
             (write_season_calendar_policy policy)
       | UpSleepState s \<Rightarrow> checked (validate_sleep_state s) (Inr (write_u8 32 @ write_sleep_state s))
       | UpRemotePlayerAdd u \<Rightarrow> checked (validate_remote_player_update u) (Inr (write_u8 6 @ write_remote_player_update u))
       | UpRemotePlayerUpdate u \<Rightarrow> checked (validate_remote_player_update u) (Inr (write_u8 7 @ write_remote_player_update u))
       | UpRemotePlayerRemove player \<Rightarrow> Inr (write_u8 8 @ write_u64 player)
       | UpEntitySnapshot s \<Rightarrow> checked (validate_entity_snapshot s) (Inr (write_u8 9 @ write_entity_snapshot s))
       | UpEntityUpdate u \<Rightarrow> checked (validate_entity_update u) (Inr (write_u8 10 @ write_entity_update u))
       | UpEntityRemove entity \<Rightarrow> Inr (write_u8 11 @ write_u64 entity)
       | UpPlayerExperience experience \<Rightarrow> Inr (write_u8 13 @ write_u64 experience)
       | UpPlayerStatistics statistics \<Rightarrow> write_then (Inr (write_u8 19)) (write_statistics statistics)
       | UpPlayerInventory hotbar \<Rightarrow> Inr (write_u8 22 @ write_hotbar hotbar)
       | UpMallardFieldGuide progress \<Rightarrow> Inr (write_u8 23 @ write_u32 progress)
       | UpDeerFieldGuide progress \<Rightarrow> Inr (write_u8 26 @ write_u32 progress)
       | UpBeeFieldGuide progress \<Rightarrow> Inr (write_u8 28 @ write_u32 progress)
       | UpRabbitFieldGuide progress \<Rightarrow> Inr (write_u8 30 @ write_u32 progress)
       | UpBeeSound cue \<Rightarrow> checked (require (cue_valid cue) ''invalid bee sound cue'') (Inr (write_u8 29 @ write_cue cue))
       | UpRabbitSound cue kind \<Rightarrow> checked (require (cue_valid cue) ''invalid rabbit sound cue'')
           (Inr (write_u8 31 @ write_cue cue @ write_u8 (rabbit_sound_tag kind)))
       | UpSquirrelSound cue kind \<Rightarrow> checked (require (cue_valid cue) ''invalid squirrel sound cue'')
           (Inr (write_u8 33 @ write_cue cue @ write_u8 (squirrel_sound_tag kind)))
       | UpDeerSound cue kind \<Rightarrow> checked (require (cue_valid cue) ''invalid deer sound cue'')
           (Inr (write_u8 27 @ write_cue cue @ write_u8 (deer_sound_tag kind)))
       | UpMallardCall cue \<Rightarrow> checked (require (cue_valid cue) ''invalid mallard call cue'') (Inr (write_u8 24 @ write_cue cue))
       | UpMallardTrack cue \<Rightarrow> checked (require (track_valid cue) ''invalid mallard track cue'') (Inr (write_u8 25 @ write_track cue))
       | UpPlayerLife s \<Rightarrow> checked (validate_player_life_state s) (Inr (write_u8 20 @ write_player_life s))
       | UpEphemeralFallback message \<Rightarrow> write_then (Inr (write_u8 21)) (encode_server_ephemeral_message message)
       | UpKeepAlive alive \<Rightarrow> Inr (write_u8 16 @ write_u64 alive)
       | UpDisconnect reason \<Rightarrow> checked (validate_disconnect_reason reason)
           (write_then (Inr (write_u8 17)) (write_disconnect_reason reason))))"

section \<open>Reading\<close>

definition read_dimension_key :: "dimension_key reader" where
  "read_dimension_key = reading (read_string ''dimension key'' max_key_bytes) (\<lambda>name.
     attempt (or_invalid (dimension_key_parse name) ''invalid dimension key'') yield)"

definition read_world_info :: "(dimension_key \<times> int \<times> horizontal_topology) reader" where
  "read_world_info = reading read_dimension_key (\<lambda>dimension. reading read_i64 (\<lambda>seed.
     reading read_horizontal_topology (\<lambda>topology. yield (dimension, seed, topology))))"

definition read_section_block_updates :: "(chunk_pos \<times> int \<times> section_block_update list) reader" where
  "read_section_block_updates = reading read_chunk_pos (\<lambda>pos. reading read_i32 (\<lambda>section_y. reading read_len (\<lambda>n.
     reading (read_many read_section_block_update n) (\<lambda>updates.
     if updates = [] then refuse (InvalidData ''section block update list is empty'') else yield (pos, section_y, updates)))))"

definition read_hotbar :: "item_stack option list reader" where
  "read_hotbar = read_many read_optional_item_stack_snapshot hotbar_slot_count"

definition read_field_guide :: "guide_progress reader" where
  "read_field_guide = reading read_u32 (\<lambda>bits. yield (guide_from_bits_retain bits))"

definition read_other_update :: "u8 \<Rightarrow> other_update reader" where
  "read_other_update tag =
    (if tag = 14 then reading read_session_configuration (\<lambda>c. yield (UpSessionConfiguration c))
     else if tag = 15 then yield UpSessionReady
     else if tag = 12 then reading read_world_info (\<lambda>info. yield (UpWorldInfo (fst info) (fst (snd info)) (snd (snd info))))
     else if tag = 18 then reading read_world_info (\<lambda>info. reading read_bool (\<lambda>keep.
       yield (UpDimensionChange (fst info) (fst (snd info)) (snd (snd info)) keep)))
     else if tag = 4 then reading read_u64 (\<lambda>game_time. reading read_u64 (\<lambda>day_time. reading read_bool (\<lambda>running.
       reading read_season_calendar_policy (\<lambda>policy. yield (UpTime game_time day_time running policy)))))
     else if tag = 32 then reading read_sleep_state (\<lambda>s. yield (UpSleepState s))
     else if tag = 6 then reading read_remote_player_update (\<lambda>u. yield (UpRemotePlayerAdd u))
     else if tag = 7 then reading read_remote_player_update (\<lambda>u. yield (UpRemotePlayerUpdate u))
     else if tag = 8 then reading read_u64 (\<lambda>player. yield (UpRemotePlayerRemove player))
     else if tag = 9 then reading read_entity_snapshot (\<lambda>s. yield (UpEntitySnapshot s))
     else if tag = 10 then reading read_entity_update (\<lambda>u. yield (UpEntityUpdate u))
     else if tag = 11 then reading read_u64 (\<lambda>entity. yield (UpEntityRemove entity))
     else if tag = 13 then reading read_u64 (\<lambda>experience. yield (UpPlayerExperience experience))
     else if tag = 19 then reading read_statistics (\<lambda>statistics. yield (UpPlayerStatistics statistics))
     else if tag = 22 then reading read_hotbar (\<lambda>hotbar. yield (UpPlayerInventory hotbar))
     else if tag = 23 then reading read_field_guide (\<lambda>progress. yield (UpMallardFieldGuide progress))
     else if tag = 26 then reading read_field_guide (\<lambda>progress. yield (UpDeerFieldGuide progress))
     else if tag = 28 then reading read_field_guide (\<lambda>progress. yield (UpBeeFieldGuide progress))
     else if tag = 30 then reading read_field_guide (\<lambda>progress. yield (UpRabbitFieldGuide progress))
     else if tag = 29 then reading read_cue (\<lambda>cue. yield (UpBeeSound cue))
     else if tag = 31 then reading read_cue (\<lambda>cue. reading read_rabbit_sound_kind (\<lambda>kind. yield (UpRabbitSound cue kind)))
     else if tag = 33 then reading read_cue (\<lambda>cue. reading read_squirrel_sound_kind (\<lambda>kind. yield (UpSquirrelSound cue kind)))
     else if tag = 27 then reading read_cue (\<lambda>cue. reading read_deer_sound_kind (\<lambda>kind. yield (UpDeerSound cue kind)))
     else if tag = 24 then reading read_cue (\<lambda>cue. yield (UpMallardCall cue))
     else if tag = 25 then reading read_track (\<lambda>cue. yield (UpMallardTrack cue))
     else if tag = 20 then reading read_player_life (\<lambda>s. yield (UpPlayerLife s))
     else if tag = 21 then reading read_remaining (\<lambda>bytes. attempt (decode_server_ephemeral_message bytes) (\<lambda>message.
       yield (UpEphemeralFallback message)))
     else if tag = 16 then reading read_u64 (\<lambda>alive. yield (UpKeepAlive alive))
     else if tag = 17 then reading read_disconnect_reason (\<lambda>reason. yield (UpDisconnect reason))
     else refuse (UnknownServerUpdateTag tag))"

definition read_update_body :: "u8 \<Rightarrow> wire_update reader" where
  "read_update_body tag =
    (if tag = 1 then reading read_snapshot (\<lambda>snapshot. yield (ChunkSnapshotUpdate snapshot))
     else if tag = 2 then reading read_chunk_pos (\<lambda>pos. yield (ChunkUnloadUpdate pos))
     else if tag = 3 then reading read_section_block_updates (\<lambda>updates.
       yield (SectionBlockUpdates (fst updates) (fst (snd updates)) (snd (snd updates))))
     else if tag = 5 then reading read_player_position_update (\<lambda>u. yield (PlayerPositionUpd u))
     else reading (read_other_update tag) (\<lambda>other. yield (OtherUpdate other)))"

definition decode_server_update :: "bytes \<Rightarrow> codec_error + wire_update" where
  "decode_server_update bs = decode_all (reading read_u8 read_update_body) bs"

section \<open>What the reader accepts\<close>

fun other_fits :: "other_update \<Rightarrow> bool" where
  "other_fits (UpSessionConfiguration c) \<longleftrightarrow>
     validate_session_configuration c = Inr () \<and> capabilities_known (sc_capabilities c) = sc_capabilities c"
| "other_fits (UpWorldInfo dimension seed topology) \<longleftrightarrow> dimension_key_ok dimension \<and> in_i64 seed \<and> topology_fits topology"
| "other_fits (UpDimensionChange dimension seed topology keep) \<longleftrightarrow>
     dimension_key_ok dimension \<and> in_i64 seed \<and> topology_fits topology"
| "other_fits (UpTime game_time day_time running policy) \<longleftrightarrow> validate_calendar policy = Inr ()"
| "other_fits (UpSleepState s) \<longleftrightarrow> validate_sleep_state s = Inr ()"
| "other_fits (UpRemotePlayerAdd u) \<longleftrightarrow> validate_remote_player_update u = Inr ()"
| "other_fits (UpRemotePlayerUpdate u) \<longleftrightarrow> validate_remote_player_update u = Inr ()"
| "other_fits (UpEntitySnapshot s) \<longleftrightarrow> entity_snapshot_typed s \<and> validate_entity_snapshot s = Inr ()"
| "other_fits (UpEntityUpdate u) \<longleftrightarrow> entity_update_typed u \<and> validate_entity_update u = Inr ()"
| "other_fits (UpPlayerStatistics statistics) \<longleftrightarrow> statistics_fit statistics"
| "other_fits (UpPlayerInventory hotbar) \<longleftrightarrow> length hotbar = hotbar_slot_count \<and> list_all (pred_option stack_fits) hotbar"
| "other_fits (UpMallardFieldGuide progress) \<longleftrightarrow> guide_known progress"
| "other_fits (UpDeerFieldGuide progress) \<longleftrightarrow> guide_known progress"
| "other_fits (UpBeeFieldGuide progress) \<longleftrightarrow> guide_known progress"
| "other_fits (UpRabbitFieldGuide progress) \<longleftrightarrow> guide_known progress"
| "other_fits (UpBeeSound cue) \<longleftrightarrow> vec3d_is_finite (cu_position cue)"
| "other_fits (UpRabbitSound cue _) \<longleftrightarrow> vec3d_is_finite (cu_position cue)"
| "other_fits (UpSquirrelSound cue _) \<longleftrightarrow> vec3d_is_finite (cu_position cue)"
| "other_fits (UpDeerSound cue _) \<longleftrightarrow> vec3d_is_finite (cu_position cue)"
| "other_fits (UpMallardCall cue) \<longleftrightarrow> vec3d_is_finite (cu_position cue)"
| "other_fits (UpMallardTrack cue) \<longleftrightarrow> vec3d_is_finite (mt_position cue)"
| "other_fits (UpPlayerLife s) \<longleftrightarrow> validate_player_life_state s = Inr ()"
| "other_fits (UpEphemeralFallback (RemoteBodyPose player pose)) \<longleftrightarrow> validate_body_pose_sample pose = Inr ()"
| "other_fits (UpDisconnect reason) \<longleftrightarrow> disconnect_fits reason"
| "other_fits _ \<longleftrightarrow> True"

fun update_fits :: "wire_update \<Rightarrow> bool" where
  "update_fits (ChunkSnapshotUpdate snapshot) \<longleftrightarrow> snapshot_fits snapshot"
| "update_fits (ChunkUnloadUpdate pos) \<longleftrightarrow> chunk_pos_fits pos"
| "update_fits (SectionBlockUpdates pos section_y updates) \<longleftrightarrow> chunk_pos_fits pos \<and> in_i32 section_y \<and> updates \<noteq> []
     \<and> length updates < 2 ^ 32 \<and> list_all block_update_fits updates"
| "update_fits (PlayerPositionUpd u) \<longleftrightarrow> validate_player_position_update u = Inr ()"
| "update_fits (OtherUpdate other) \<longleftrightarrow> other_fits other"

text \<open>What only the encoder checks: the numbers of a cue.\<close>

fun cue_sendable :: "wire_update \<Rightarrow> bool" where
  "cue_sendable (OtherUpdate (UpBeeSound cue)) \<longleftrightarrow> cue_valid cue"
| "cue_sendable (OtherUpdate (UpRabbitSound cue _)) \<longleftrightarrow> cue_valid cue"
| "cue_sendable (OtherUpdate (UpSquirrelSound cue _)) \<longleftrightarrow> cue_valid cue"
| "cue_sendable (OtherUpdate (UpDeerSound cue _)) \<longleftrightarrow> cue_valid cue"
| "cue_sendable (OtherUpdate (UpMallardCall cue)) \<longleftrightarrow> cue_valid cue"
| "cue_sendable (OtherUpdate (UpMallardTrack cue)) \<longleftrightarrow> track_valid cue"
| "cue_sendable _ \<longleftrightarrow> True"

text \<open>The bytes of an update that fits.\<close>

definition world_info_bytes :: "dimension_key \<Rightarrow> int \<Rightarrow> horizontal_topology \<Rightarrow> bytes" where
  "world_info_bytes dimension seed topology = string_bytes (dk_str dimension) @ write_i64 seed @ write_horizontal_topology topology"

definition section_updates_bytes :: "chunk_pos \<Rightarrow> int \<Rightarrow> section_block_update list \<Rightarrow> bytes" where
  "section_updates_bytes pos section_y updates = write_chunk_pos pos @ write_i32 section_y @ write_u32 (of_nat (length updates))
     @ concat (map write_section_block_update updates)"

fun other_bytes :: "other_update \<Rightarrow> bytes" where
  "other_bytes (UpSessionConfiguration c) = write_u8 14 @ write_session_configuration c"
| "other_bytes UpSessionReady = write_u8 15"
| "other_bytes (UpWorldInfo dimension seed topology) = write_u8 12 @ world_info_bytes dimension seed topology"
| "other_bytes (UpDimensionChange dimension seed topology keep) =
     write_u8 18 @ world_info_bytes dimension seed topology @ write_bool keep"
| "other_bytes (UpTime game_time day_time running policy) =
     write_u8 4 @ write_u64 game_time @ write_u64 day_time @ write_bool running @ calendar_bytes policy"
| "other_bytes (UpSleepState s) = write_u8 32 @ write_sleep_state s"
| "other_bytes (UpRemotePlayerAdd u) = write_u8 6 @ write_remote_player_update u"
| "other_bytes (UpRemotePlayerUpdate u) = write_u8 7 @ write_remote_player_update u"
| "other_bytes (UpRemotePlayerRemove player) = write_u8 8 @ write_u64 player"
| "other_bytes (UpEntitySnapshot s) = write_u8 9 @ write_entity_snapshot s"
| "other_bytes (UpEntityUpdate u) = write_u8 10 @ write_entity_update u"
| "other_bytes (UpEntityRemove entity) = write_u8 11 @ write_u64 entity"
| "other_bytes (UpPlayerExperience experience) = write_u8 13 @ write_u64 experience"
| "other_bytes (UpPlayerStatistics statistics) = write_u8 19 @ entries_bytes (statistics_iter statistics)"
| "other_bytes (UpPlayerInventory hotbar) = write_u8 22 @ write_hotbar hotbar"
| "other_bytes (UpMallardFieldGuide progress) = write_u8 23 @ write_u32 progress"
| "other_bytes (UpDeerFieldGuide progress) = write_u8 26 @ write_u32 progress"
| "other_bytes (UpBeeFieldGuide progress) = write_u8 28 @ write_u32 progress"
| "other_bytes (UpRabbitFieldGuide progress) = write_u8 30 @ write_u32 progress"
| "other_bytes (UpBeeSound cue) = write_u8 29 @ write_cue cue"
| "other_bytes (UpRabbitSound cue kind) = write_u8 31 @ write_cue cue @ write_u8 (rabbit_sound_tag kind)"
| "other_bytes (UpSquirrelSound cue kind) = write_u8 33 @ write_cue cue @ write_u8 (squirrel_sound_tag kind)"
| "other_bytes (UpDeerSound cue kind) = write_u8 27 @ write_cue cue @ write_u8 (deer_sound_tag kind)"
| "other_bytes (UpMallardCall cue) = write_u8 24 @ write_cue cue"
| "other_bytes (UpMallardTrack cue) = write_u8 25 @ write_track cue"
| "other_bytes (UpPlayerLife s) = write_u8 20 @ write_player_life s"
| "other_bytes (UpEphemeralFallback (RemoteBodyPose player pose)) = write_u8 21 @ write_u8 1 @ write_u64 player @ write_body_pose pose"
| "other_bytes (UpKeepAlive alive) = write_u8 16 @ write_u64 alive"
| "other_bytes (UpDisconnect reason) = write_u8 17 @ disconnect_bytes reason"

fun update_bytes :: "wire_update \<Rightarrow> bytes" where
  "update_bytes (ChunkSnapshotUpdate snapshot) = write_u8 1 @ snapshot_bytes snapshot"
| "update_bytes (ChunkUnloadUpdate pos) = write_u8 2 @ write_chunk_pos pos"
| "update_bytes (SectionBlockUpdates pos section_y updates) = write_u8 3 @ section_updates_bytes pos section_y updates"
| "update_bytes (PlayerPositionUpd u) = write_u8 5 @ write_player_position_update u"
| "update_bytes (OtherUpdate other) = other_bytes other"

text \<open>All inputs that are read as an update.  Three kinds of update have more than one: unknown capabilities and unknown
  observations are dropped, and the entries of statistics may come in any order, repeat or be zero.\<close>

fun other_wire :: "other_update \<Rightarrow> bytes \<Rightarrow> bool" where
  "other_wire (UpSessionConfiguration c) bs \<longleftrightarrow> (\<exists>capabilities. sc_capabilities c = capabilities_known capabilities
     \<and> bs = other_bytes (UpSessionConfiguration (c\<lparr>sc_capabilities := capabilities\<rparr>)))"
| "other_wire (UpPlayerStatistics statistics) bs \<longleftrightarrow> (\<exists>es. length es \<le> max_player_statistic_entries
     \<and> list_all (\<lambda>entry. statistic_key_ok (fst entry)) es \<and> statistics = store_entries es fmempty
     \<and> bs = write_u8 19 @ entries_bytes es)"
| "other_wire (UpMallardFieldGuide progress) bs \<longleftrightarrow>
     (\<exists>bits. progress = guide_from_bits_retain bits \<and> bs = other_bytes (UpMallardFieldGuide bits))"
| "other_wire (UpDeerFieldGuide progress) bs \<longleftrightarrow>
     (\<exists>bits. progress = guide_from_bits_retain bits \<and> bs = other_bytes (UpDeerFieldGuide bits))"
| "other_wire (UpBeeFieldGuide progress) bs \<longleftrightarrow>
     (\<exists>bits. progress = guide_from_bits_retain bits \<and> bs = other_bytes (UpBeeFieldGuide bits))"
| "other_wire (UpRabbitFieldGuide progress) bs \<longleftrightarrow>
     (\<exists>bits. progress = guide_from_bits_retain bits \<and> bs = other_bytes (UpRabbitFieldGuide bits))"
| "other_wire other bs \<longleftrightarrow> bs = other_bytes other"

lemma dimension_key_reads [reads]: "read_dimension_key bs = Inr (k, rest) \<longleftrightarrow>
    dimension_key_ok k \<and> bs = string_bytes (dk_str k) @ rest"
  by (auto simp: read_dimension_key_def dimension_key_parse_ok reads dest: dimension_key_ok_text)

lemma world_info_exact [reads]: "read_world_info bs = Inr (info, rest) \<longleftrightarrow>
    (case info of (dimension, seed, topology) \<Rightarrow> dimension_key_ok dimension \<and> in_i64 seed \<and> topology_fits topology
       \<and> bs = world_info_bytes dimension seed topology @ rest)"
  by (cases info) (auto simp: read_world_info_def world_info_bytes_def reads)

lemma section_updates_exact [reads]: "read_section_block_updates bs = Inr (u, rest) \<longleftrightarrow>
    (case u of (pos, section_y, updates) \<Rightarrow> update_fits (SectionBlockUpdates pos section_y updates)
       \<and> bs = section_updates_bytes pos section_y updates @ rest)"
  by (cases u) (auto simp: read_section_block_updates_def section_updates_bytes_def block_updates.many_exact reads)

interpretation hotbar_stacks: exact_codec write_optional_item_stack_snapshot read_optional_item_stack_snapshot "pred_option stack_fits"
  by unfold_locales (rule optional_species_exact(5))

lemma hotbar_exact [reads]: "read_hotbar bs = Inr (hotbar, rest) \<longleftrightarrow>
    other_fits (UpPlayerInventory hotbar) \<and> bs = write_hotbar hotbar @ rest"
  by (auto simp: read_hotbar_def write_hotbar_def hotbar_stacks.many_exact)

lemma field_guide_reads [reads]: "read_field_guide bs = Inr (progress, rest) \<longleftrightarrow>
    (\<exists>bits. progress = guide_from_bits_retain bits \<and> bs = write_u32 bits @ rest)"
  by (auto simp: read_field_guide_def reads)

lemma tag_reads: "reading read_u8 f bs = Inr (x, rest) \<longleftrightarrow> (\<exists>tag more. bs = tag # more \<and> f tag more = Inr (x, rest))"
  by (auto simp: reads write_u8_def)

lemma fallback_reads: "decode_server_ephemeral_message bs = Inr (RemoteBodyPose player pose) \<longleftrightarrow>
    validate_body_pose_sample pose = Inr () \<and> bs = write_u8 1 @ write_u64 player @ write_body_pose pose"
  by (auto simp: server_ephemeral_exact encode_server_ephemeral_message_def split: sum.splits)

lemma capabilities_known_idem [simp]: "capabilities_known (capabilities_known capabilities) = capabilities_known capabilities"
  by (simp add: capabilities_known_def and.assoc)

lemma store_entries_fit: "length es \<le> max_player_statistic_entries \<Longrightarrow> list_all (\<lambda>entry. statistic_key_ok (fst entry)) es \<Longrightarrow>
    statistics_fit (store_entries es fmempty)"
  using statistics_reads [of "entries_bytes es" "store_entries es fmempty" "[]"] statistics_read_fit by (metis append_Nil2)

lemma read_other_exact: "(\<exists>tag more. bs = tag # more \<and> read_other_update tag more = Inr (other, [])) \<longleftrightarrow>
    other_fits other \<and> other_wire other bs"
proof (cases other)
  case (UpEphemeralFallback message)
  then show ?thesis by (cases message) (auto simp: read_other_update_def fallback_reads write_u8_def reads)
qed (auto simp: read_other_update_def write_u8_def guide_known_retain store_entries_fit reads)

fun update_wire :: "wire_update \<Rightarrow> bytes \<Rightarrow> bool" where
  "update_wire (OtherUpdate other) bs \<longleftrightarrow> other_wire other bs"
| "update_wire update bs \<longleftrightarrow> bs = update_bytes update"

lemma other_tags: "tag \<in> {1, 2, 3, 5} \<Longrightarrow> read_other_update tag bs \<noteq> Inr (other, rest)"
  by (auto simp: read_other_update_def reads)

lemma read_other_update_tag:
  "read_update_body tag bs = Inr (OtherUpdate other, rest) \<longleftrightarrow> read_other_update tag bs = Inr (other, rest)"
  using other_tags [of tag bs other rest] by (auto simp: read_update_body_def reads)

lemma server_update_exact: "decode_server_update bs = Inr update \<longleftrightarrow> update_fits update \<and> update_wire update bs"
proof (cases update)
  case (OtherUpdate other)
  then show ?thesis
    using read_other_exact [of bs other]
    by (simp add: decode_server_update_def decode_all_iff tag_reads read_other_update_tag)
qed (auto simp: decode_server_update_def decode_all_iff tag_reads read_update_body_def write_u8_def reads)

section \<open>What the writer writes\<close>

lemma checked_iff [simp]: "checked v w = Inr bs \<longleftrightarrow> v = Inr () \<and> w = Inr bs"
  by (auto simp: checked_def split: sum.splits)

lemma checked_ok [simp]: "checked (Inr ()) w = w"
  by (simp add: checked_def)

lemma write_world_info_ok:
  "dimension_key_ok dimension \<Longrightarrow> write_world_info dimension seed topology = Inr (world_info_bytes dimension seed topology)"
  using dimension_key_ok_text [of dimension] by (simp add: write_world_info_def world_info_bytes_def)

lemma write_section_updates_ok:
  assumes "length updates < 2 ^ 32" and "list_all block_update_fits updates"
  shows "write_section_block_updates pos section_y updates = Inr (section_updates_bytes pos section_y updates)"
proof -
  have "write_each (\<lambda>u. checked (validate_section_block_update u) (Inr (write_section_block_update u))) updates
      = Inr (concat (map write_section_block_update updates))"
    using assms(2) by (intro write_each_ok) (auto simp: list_all_iff block_update_fits_def)
  then show ?thesis
    using assms(1) by (simp add: write_section_block_updates_def section_updates_bytes_def)
qed

lemma topology_fits_valid: "topology_fits topology \<Longrightarrow> validate_horizontal_topology topology = Inr ()"
  by (simp add: topology_fits_def)

lemma encode_other_ok:
  assumes "other_fits other" and "cue_sendable (OtherUpdate other)"
  shows "encode_server_update (OtherUpdate other) = Inr (other_bytes other)"
proof (cases other)
  case (UpEphemeralFallback message)
  then show ?thesis using assms(1)
    by (cases message) (simp add: encode_server_update_def encode_server_ephemeral_message_def)
next
  case (UpTime game_time day_time running policy)
  then show ?thesis using assms(1) by (simp add: encode_server_update_def write_season_calendar_policy_def)
next
  case (UpDisconnect reason)
  then show ?thesis using assms(1) by (simp add: encode_server_update_def disconnect_fits_def write_disconnect_ok)
qed (use assms in \<open>simp_all add: encode_server_update_def topology_fits_valid write_world_info_ok write_statistics_ok require_def\<close>)

lemma encode_update_ok: "update_fits update \<Longrightarrow> cue_sendable update \<Longrightarrow> encode_server_update update = Inr (update_bytes update)"
proof (cases update)
  case (OtherUpdate other)
  then show "update_fits update \<Longrightarrow> cue_sendable update \<Longrightarrow> ?thesis" using encode_other_ok by simp
qed (auto simp: encode_server_update_def write_snapshot_ok write_section_updates_ok)

lemma encode_update_sendable:
  assumes "encode_server_update update = Inr bs"
  shows "cue_sendable update"
proof (cases update)
  case (OtherUpdate other)
  then show ?thesis using assms by (cases other) (simp_all add: encode_server_update_def)
qed simp_all

lemma update_bytes_wire: "update_fits update \<Longrightarrow> update_wire update (update_bytes update)"
proof (cases update)
  case (OtherUpdate other)
  show "update_fits update \<Longrightarrow> ?thesis"
  proof (cases other)
    case (UpSessionConfiguration c)
    show "update_fits update \<Longrightarrow> ?thesis"
      by (auto simp: OtherUpdate UpSessionConfiguration intro!: exI [of _ "sc_capabilities c"])
  next
    case (UpPlayerStatistics st)
    have "list_all (\<lambda>entry. statistic_key_ok (fst entry)) (statistics_iter st)" if "statistics_fit st"
      using that by (auto simp: statistics_fit_def statistics_ok_def statistics_iter_in list_all_iff)
    then show "update_fits update \<Longrightarrow> ?thesis"
      using store_statistics [of st] statistics_iter_keys(2) [of st]
      by (auto simp: OtherUpdate UpPlayerStatistics statistics_fit_def intro!: exI [of _ "statistics_iter st"])
  qed (auto simp: OtherUpdate, (metis guide_retain_known)+)
qed simp_all

lemma server_update_round_trip: "update_fits update \<Longrightarrow> encode_server_update update = Inr bs \<Longrightarrow> decode_server_update bs = Inr update"
  using encode_update_sendable encode_update_ok update_bytes_wire unfolding server_update_exact by fastforce

lemma server_update_received:
  assumes "decode_server_update bs = Inr update"
  shows "update_fits update" and "cue_sendable update \<Longrightarrow> encode_server_update update = Inr (update_bytes update)"
    and "cue_sendable update \<Longrightarrow> decode_server_update (update_bytes update) = Inr update"
  using assms encode_update_ok update_bytes_wire server_update_exact by blast+

section \<open>Payloads that are too short or too long\<close>

lemma streaming_update_parts [streams]: "streaming read_dimension_key" "streaming read_world_info"
  "streaming read_section_block_updates" "streaming read_hotbar" "streaming read_field_guide"
  unfolding read_world_info_def read_dimension_key_def read_section_block_updates_def read_hotbar_def read_field_guide_def
  by (intro streams)+

lemma streaming_update_body: "tag \<noteq> 21 \<Longrightarrow> streaming (read_update_body tag)"
  unfolding read_update_body_def read_other_update_def by (intro streams; simp?)

lemma server_ephemeral_truncated:
  assumes "decode_server_ephemeral_message (w @ v) = Inr message" and "v \<noteq> []"
  shows "\<exists>e. decode_server_ephemeral_message w = Inl e"
  using assms streaming_truncated [OF _ _ assms(2), of "reading read_u8 (\<lambda>tag. if tag = 1 then
      reading read_u64 (\<lambda>player. reading read_body_pose (\<lambda>pose. yield (RemoteBodyPose player pose)))
      else refuse (InvalidData ''unknown server ephemeral message tag''))"]
  by (auto simp: decode_server_ephemeral_message_def checked_message_size_def decode_all_iff streams split: if_splits)

lemma update_body_fallback: "read_update_body 21 bs = (case decode_server_ephemeral_message bs of
    Inl e \<Rightarrow> Inl e | Inr message \<Rightarrow> Inr (OtherUpdate (UpEphemeralFallback message), []))"
  by (simp add: read_update_body_def read_other_update_def reading_def read_remaining_def attempt_def yield_def
      split: sum.splits)

lemma server_update_truncated:
  assumes dec: "decode_server_update (w @ v) = Inr update" and v: "v \<noteq> []"
  shows "\<exists>e. decode_server_update w = Inl e"
proof (cases w)
  case Nil
  then show ?thesis by (simp add: decode_server_update_def decode_all_def reading_def read_u8_def read_exact_def)
next
  case (Cons tag bs)
  have body: "decode_all (read_update_body tag) (bs @ v) = Inr update"
    using dec by (simp add: Cons decode_server_update_def decode_tagged)
  have "\<exists>e. decode_all (read_update_body tag) bs = Inl e"
  proof (cases "tag = 21")
    case True
    then obtain message where "decode_server_ephemeral_message (bs @ v) = Inr message"
      using body by (auto simp: decode_all_iff update_body_fallback split: sum.splits)
    then obtain e where "decode_server_ephemeral_message bs = Inl e" using server_ephemeral_truncated v by blast
    then show ?thesis by (simp add: True decode_all_def update_body_fallback)
  next
    case False
    show ?thesis
      by (rule streaming_truncated [OF streaming_update_body [OF False] _ v]) (use body in \<open>simp add: decode_all_iff\<close>)
  qed
  then show ?thesis by (simp add: Cons decode_server_update_def decode_tagged)
qed

lemma server_update_unknown_tag:
  assumes "tag \<notin> {1..33}"
  shows "decode_server_update (tag # bs) = Inl (UnknownServerUpdateTag tag)"
proof -
  have "\<forall>k \<in> set [1, 2, 3, 4, 5, 6, 7, 8, 9, 10, 11, 12, 13, 14, 15, 16, 17, 18, 19, 20, 21, 22, 23, 24, 25, 26, 27, 28, 29,
    30, 31, 32, 33]. tag \<noteq> (k :: u8)" using assms by auto
  then have "read_update_body tag = reading (refuse (UnknownServerUpdateTag tag)) (\<lambda>other. yield (OtherUpdate other))"
    by (simp add: read_update_body_def read_other_update_def)
  then show ?thesis
    by (simp add: decode_server_update_def decode_tagged) (simp add: decode_all_def refuse_def reading_def)
qed

lemma hotbar_update_fits:
  assumes "inventory_wf iv" and "hotbar_item_stacks iv = Some hotbar"
  shows "update_fits (OtherUpdate (UpPlayerInventory hotbar))"
proof -
  have len: "length (inv_stacks iv) = main_inventory_slot_count" and wf: "\<forall>s \<in> set (inv_stacks iv). stack_wf s"
    using assms(1) by (auto simp: inventory_wf_def)
  have hotbar: "hotbar = map (\<lambda>slot. inv_stacks iv ! slot) [0..<hotbar_slot_count]"
    using assms(2) len by (simp add: hotbar_item_stacks_def)
  have "stack_wf s \<Longrightarrow> pred_option stack_fits s" for s
    by (cases s) (auto simp: stack_wf_def stack_fits_def intro: le_less_trans [OF _ max_stack_u8])
  then have "list_all (pred_option stack_fits) hotbar"
    using wf len by (simp add: hotbar list_all_iff)
  then show ?thesis by (simp add: hotbar)
qed

end
