(* ===== verification/ProtocolProperties.thy ===== *)
theory ProtocolProperties imports ProtocolUpdates
begin

text \<open>
  The properties of the wire protocol with their witnesses: what a decoder accepts is what an encoder wrote, what was
  received is valid, damaged payloads are refused, and the parts of the server whose state goes over the wire always
  produce payloads that arrive.
\<close>

section \<open>Commands\<close>

text \<open>C14: a client command is decoded exactly when it was encoded: the decoder accepts a payload if and only if it
  is the encoding of the command it returns and the numbers of the command are ones the wire can carry and the
  server may use (finite positions and rotations).  The one exception is a hit that missed, whose inside
  flag is ignored.\<close>
theorem client_commands_exact:
  "decode_client_command bs = Inr command \<longleftrightarrow> command_fits command \<and>
     (encode_client_command command = Inr bs
      \<or> (\<exists>hand hit. command = UseItemOn hand hit \<and> bh_miss hit
           \<and> encode_client_command (UseItemOn hand (hit\<lparr>bh_inside := True\<rparr>)) = Inr bs))"
  by (rule client_command_exact)

section \<open>Updates\<close>

text \<open>An update of a deer that stands at the origin.\<close>

definition deer_update :: wire_update where
  "deer_update = OtherUpdate (UpEntityUpdate \<lparr>eu_id = 7, eu_item_stack = None, eu_mallard = None, eu_mallard_nest = None,
     eu_deer = Some \<lparr>de_sex = DeerMale, de_life_stage = DeerAdult, de_antlered = True, de_behavior = DeerGraze,
       de_health = 3, de_max_health = 10\<rparr>, eu_squirrel = None, eu_animation = None,
     eu_position = \<lparr>v3_x = 0, v3_y = 0, v3_z = 0\<rparr>, eu_y_rot = 0, eu_x_rot = 0, eu_rotation = None,
     eu_on_ground = True, eu_tick_count = 12\<rparr>)"

lemma deer_update_fits: "update_fits deer_update"
  by (simp add: deer_update_def entity_update_typed_def validate_entity_update_def validate_optional_entity_rotation_def
      deer_consistent_def vec3d_is_finite_def f64_is_finite_def f32_is_finite_def)

lemma deer_update_sendable: "cue_sendable deer_update"
  by (simp add: deer_update_def)

text \<open>C5: every server update survives the wire.  An update whose values are in range and valid for the receiver is
  read back from its encoding as itself, whichever of the 33 kinds it is: chunks with their sections and light,
  block updates, entities with their species data and animations, statistics, inventories and the rest.\<close>
theorem server_updates_round_trip:
  assumes "update_fits update" and "encode_server_update update = Inr bs"
  shows "decode_server_update bs = Inr update"
  using assms by (rule server_update_round_trip)

lemma server_updates_round_trip_witness: "decode_server_update (update_bytes deer_update) = Inr deer_update"
  using server_updates_round_trip [OF deer_update_fits encode_update_ok [OF deer_update_fits deer_update_sendable]] .

text \<open>The kinds of update that several payloads are read as.\<close>

fun many_payloads :: "wire_update \<Rightarrow> bool" where
  "many_payloads (OtherUpdate (UpSessionConfiguration _)) \<longleftrightarrow> True"
| "many_payloads (OtherUpdate (UpPlayerStatistics _)) \<longleftrightarrow> True"
| "many_payloads (OtherUpdate (UpMallardFieldGuide _)) \<longleftrightarrow> True"
| "many_payloads (OtherUpdate (UpDeerFieldGuide _)) \<longleftrightarrow> True"
| "many_payloads (OtherUpdate (UpBeeFieldGuide _)) \<longleftrightarrow> True"
| "many_payloads (OtherUpdate (UpRabbitFieldGuide _)) \<longleftrightarrow> True"
| "many_payloads _ \<longleftrightarrow> False"

lemma single_payload: "update_wire update bs \<Longrightarrow> \<not> many_payloads update \<Longrightarrow> bs = update_bytes update"
proof (cases update)
  case (OtherUpdate other)
  then show "update_wire update bs \<Longrightarrow> \<not> many_payloads update \<Longrightarrow> ?thesis" by (cases other) simp_all
qed simp_all

text \<open>C6: whatever a client accepts is a valid update.  From any payload, of any sender, the decoder returns only
  updates that satisfy every constraint of the receiver; apart from the session configuration, the statistics and
  the field guides, whose unknown bits and repeated entries it drops, the payload is the one encoding of the
  update; and the update can be sent on to another client, who reads the same, unless it is a sound or a track that
  the encoder refuses.\<close>
theorem received_updates_valid:
  assumes "decode_server_update bs = Inr update"
  shows "update_fits update \<and> (many_payloads update \<or> bs = update_bytes update)
    \<and> (cue_sendable update \<longrightarrow> encode_server_update update = Inr (update_bytes update)
         \<and> decode_server_update (update_bytes update) = Inr update)"
proof -
  have "update_wire update bs" using assms unfolding server_update_exact by blast
  then have "many_payloads update \<or> bs = update_bytes update" using single_payload by blast
  then show ?thesis using server_update_received [OF assms] by blast
qed

lemma received_updates_valid_witness:
  "encode_server_update deer_update = Inr (update_bytes deer_update)"
  using received_updates_valid [OF server_update_round_trip [OF deer_update_fits
        encode_update_ok [OF deer_update_fits deer_update_sendable]]] deer_update_sendable by blast

text \<open>A cue of a bee whose audible radius is not a number.\<close>

definition silent_cue :: sound_cue where
  "silent_cue = \<lparr>cu_source = 1, cu_position = \<lparr>v3_x = 0, v3_y = 0, v3_z = 0\<rparr>, cu_sequence = 2, cu_audible_radius = 0x7FC00000\<rparr>"

text \<open>C37: the decoder does not make the checks of the encoder on sounds and tracks.  An update that the encoder
  refuses for its audible radius (infinite, not a number, zero or negative) or its track rotation is still
  accepted when its bytes arrive.\<close>
theorem unsendable_cues_accepted:
  assumes "update_fits update" and "\<not> cue_sendable update"
  shows "(\<exists>e. encode_server_update update = Inl e) \<and> decode_server_update (update_bytes update) = Inr update"
proof -
  have "\<nexists>bs. encode_server_update update = Inr bs" using encode_update_sendable assms(2) by blast
  then have "\<exists>e. encode_server_update update = Inl e" by (cases "encode_server_update update") auto
  then show ?thesis using update_bytes_wire [OF assms(1)] assms(1) by (simp add: server_update_exact)
qed

lemma unsendable_cues_accepted_witness:
  "decode_server_update (update_bytes (OtherUpdate (UpBeeSound silent_cue))) = Inr (OtherUpdate (UpBeeSound silent_cue))"
proof -
  have "update_fits (OtherUpdate (UpBeeSound silent_cue))"
    by (simp add: silent_cue_def vec3d_is_finite_def f64_is_finite_def)
  moreover have "\<not> cue_sendable (OtherUpdate (UpBeeSound silent_cue))"
    by (simp add: silent_cue_def cue_valid_def f32_is_finite_def)
  ultimately show ?thesis using unsendable_cues_accepted [of "OtherUpdate (UpBeeSound silent_cue)"] by blast
qed

text \<open>C15: a payload that was cut short is an error: if some payload is an update, then no proper beginning of it is
  read as any update, so a receiver never acts on half a message.\<close>
theorem cut_updates_refused:
  assumes "decode_server_update (front @ back) = Inr update" and "back \<noteq> []"
  shows "\<exists>e. decode_server_update front = Inl e"
  using assms by (rule server_update_truncated)

lemma cut_updates_refused_witness: "\<exists>e. decode_server_update (butlast (update_bytes deer_update)) = Inl e"
proof -
  have "update_bytes deer_update \<noteq> []" by (simp add: deer_update_def write_u8_def)
  then have "decode_server_update (butlast (update_bytes deer_update) @ [last (update_bytes deer_update)]) = Inr deer_update"
    using server_update_round_trip [OF deer_update_fits encode_update_ok [OF deer_update_fits deer_update_sendable]] by simp
  then show ?thesis by (rule cut_updates_refused) simp
qed

section \<open>From the server's state to the client\<close>

text \<open>C38: an inventory always reaches its player.  The hotbar of an inventory that satisfies the invariant of all
  inventory operations is encoded without an error, and the client reads the same nine stacks.\<close>
theorem inventory_reaches_client:
  assumes "inventory_wf iv"
  shows "\<exists>hotbar bs. hotbar_item_stacks iv = Some hotbar
    \<and> encode_server_update (OtherUpdate (UpPlayerInventory hotbar)) = Inr bs
    \<and> decode_server_update bs = Inr (OtherUpdate (UpPlayerInventory hotbar))"
proof -
  obtain hotbar where hotbar: "hotbar_item_stacks iv = Some hotbar"
    using assms by (auto simp: inventory_wf_def hotbar_item_stacks_def)
  note fits = hotbar_update_fits [OF assms hotbar]
  have "encode_server_update (OtherUpdate (UpPlayerInventory hotbar)) = Inr (update_bytes (OtherUpdate (UpPlayerInventory hotbar)))"
    by (rule encode_update_ok [OF fits]) simp
  then show ?thesis using hotbar server_update_round_trip [OF fits] by blast
qed

lemma inventory_reaches_client_witness:
  "\<exists>hotbar bs. hotbar_item_stacks default_inventory = Some hotbar
    \<and> decode_server_update bs = Inr (OtherUpdate (UpPlayerInventory hotbar))"
  using inventory_reaches_client [OF inventory_wf_default] by blast

text \<open>C39: a disconnect always has a reason that arrives.  Whatever text a reason is made from, its detail is a
  beginning of that text of at most 512 bytes that ends between two characters, so the disconnect can be
  encoded and the client reads the same reason.\<close>
theorem disconnect_reasons_arrive:
  assumes "valid_utf8 detail"
  shows "\<exists>cut bs. disconnect_reason_new code detail = \<lparr>dr_code = code, dr_detail = take cut detail\<rparr>
    \<and> length (take cut detail) \<le> 512 \<and> (512 < length detail \<or> take cut detail = detail)
    \<and> encode_server_update (OtherUpdate (UpDisconnect (disconnect_reason_new code detail))) = Inr bs
    \<and> decode_server_update bs = Inr (OtherUpdate (UpDisconnect (disconnect_reason_new code detail)))"
proof -
  let ?u = "OtherUpdate (UpDisconnect (disconnect_reason_new code detail))"
  let ?cut = "if 512 < length detail then last_boundary detail 512 else length detail"
  have fits: "update_fits ?u" using disconnect_reason_new_fits [OF assms] by simp
  have new: "disconnect_reason_new code detail = \<lparr>dr_code = code, dr_detail = take ?cut detail\<rparr>"
    by (simp add: disconnect_reason_new_def)
  have "encode_server_update ?u = Inr (update_bytes ?u)" by (rule encode_update_ok [OF fits]) simp
  moreover from this have "decode_server_update (update_bytes ?u) = Inr ?u" by (rule server_update_round_trip [OF fits])
  moreover have "length (take ?cut detail) \<le> 512"
    using last_boundary_spec [of 512 detail] by (auto intro: min.coboundedI2)
  moreover have "512 < length detail \<or> take ?cut detail = detail" by simp
  ultimately show ?thesis using new by blast
qed

lemma disconnect_reasons_arrive_witness:
  "\<exists>cut bs. disconnect_reason_new Kicked (replicate 600 65) = \<lparr>dr_code = Kicked, dr_detail = take cut (replicate 600 65)\<rparr>
    \<and> decode_server_update bs = Inr (OtherUpdate (UpDisconnect (disconnect_reason_new Kicked (replicate 600 65))))"
proof -
  have "valid_utf8 (replicate 600 65)" by (rule valid_utf8_ascii) (simp add: list_all_iff)
  from disconnect_reasons_arrive [OF this] show ?thesis by blast
qed

section \<open>Field guides\<close>

text \<open>Field guides record what was observed.  In each of the four guides, from any progress that arrived over
  the wire, observing reports whether the observation is new and adds exactly it, the discovered count is the
  number of kinds observed, and the guide is complete exactly when every kind was.\<close>
lemma field_guides_record:
  "guide_records rabbit_observation_bit rabbit_observations (guide_from_bits_retain bits)
    \<and> guide_records bee_observation_bit bee_observations (guide_from_bits_retain bits)
    \<and> guide_records deer_observation_bit deer_observations (guide_from_bits_retain bits)
    \<and> guide_records mallard_observation_bit mallard_observations (guide_from_bits_retain bits)"
  by (intro conjI rabbit_guide.guide_laws bee_guide.guide_laws deer_guide.guide_laws mallard_guide.guide_laws guide_known_retain)

end
