(* ===== verification/MeshVisibility.thy ===== *)
theory MeshVisibility imports Prelude
begin

text \<open>
  Which faces of a chunk section see each other: \<open>native/crates/mclone-mesh/src/visibility.rs\<close>.  A section has
  16 x 16 x 16 cells; a graph marks the opaque ones in 64 words and a flood fill from every free boundary cell
  collects the faces that one pocket of free cells touches.  An index out of bounds panics, which is
  \<open>None\<close>; the queue of the flood fill is an array of 4096 slots of which the model keeps those written.
\<close>

section \<open>Faces\<close>

datatype section_face = FaceDown | FaceUp | FaceNorth | FaceSouth | FaceWest | FaceEast

definition section_faces :: "section_face list" where
  "section_faces = [FaceDown, FaceUp, FaceNorth, FaceSouth, FaceWest, FaceEast]"

fun face_index :: "section_face \<Rightarrow> nat" where
  "face_index FaceDown = 0"
| "face_index FaceUp = 1"
| "face_index FaceNorth = 2"
| "face_index FaceSouth = 3"
| "face_index FaceWest = 4"
| "face_index FaceEast = 5"

definition face_mask :: "section_face \<Rightarrow> u8" where
  "face_mask face = push_bit (face_index face) 1"

fun face_opposite :: "section_face \<Rightarrow> section_face" where
  "face_opposite FaceDown = FaceUp"
| "face_opposite FaceUp = FaceDown"
| "face_opposite FaceNorth = FaceSouth"
| "face_opposite FaceSouth = FaceNorth"
| "face_opposite FaceWest = FaceEast"
| "face_opposite FaceEast = FaceWest"

fun face_section_delta :: "section_face \<Rightarrow> int \<times> int \<times> int" where
  "face_section_delta FaceDown = (0, - 1, 0)"
| "face_section_delta FaceUp = (0, 1, 0)"
| "face_section_delta FaceNorth = (0, 0, - 1)"
| "face_section_delta FaceSouth = (0, 0, 1)"
| "face_section_delta FaceWest = (- 1, 0, 0)"
| "face_section_delta FaceEast = (1, 0, 0)"

section \<open>Visibility sets\<close>

type_synonym visibility_set = u64

definition pair_bit :: "section_face \<Rightarrow> section_face \<Rightarrow> u64" where
  "pair_bit first second = push_bit (face_index first + face_index second * 6) 1"

definition visibility_all :: "bool \<Rightarrow> visibility_set" where
  "visibility_all value = (if value then push_bit 36 1 - 1 else 0)"

definition visibility_one_way :: "visibility_set \<Rightarrow> section_face \<Rightarrow> section_face \<Rightarrow> bool \<Rightarrow> visibility_set" where
  "visibility_one_way v first second value = (if value then v OR pair_bit first second else v AND NOT (pair_bit first second))"

definition visibility_pair :: "visibility_set \<Rightarrow> section_face \<Rightarrow> section_face \<Rightarrow> bool \<Rightarrow> visibility_set" where
  "visibility_pair v first second value = visibility_one_way (visibility_one_way v first second value) second first value"

definition visibility_between :: "visibility_set \<Rightarrow> section_face \<Rightarrow> section_face \<Rightarrow> bool" where
  "visibility_between v first second \<longleftrightarrow> v AND pair_bit first second \<noteq> 0"

definition visibility_from_bits :: "u64 \<Rightarrow> visibility_set" where
  "visibility_from_bits bits = bits AND (push_bit 36 1 - 1)"

definition visibility_add_faces :: "visibility_set \<Rightarrow> u8 \<Rightarrow> visibility_set" where
  "visibility_add_faces v faces = fold (\<lambda>first v. if faces AND face_mask first = 0 then v
     else fold (\<lambda>second v. if faces AND face_mask second \<noteq> 0 then visibility_pair v first second True else v) section_faces v)
     section_faces v"

section \<open>The graph\<close>

abbreviation (input) vis_graph_size :: nat where "vis_graph_size \<equiv> 4096"
abbreviation (input) vis_graph_mask :: nat where "vis_graph_mask \<equiv> 15"

record vis_graph =
  vg_bitset :: "u64 list"
  vg_empty :: nat

definition vis_graph_new :: vis_graph where
  "vis_graph_new = \<lparr>vg_bitset = replicate (vis_graph_size div 64) 0, vg_empty = vis_graph_size\<rparr>"

definition vis_index :: "nat \<Rightarrow> nat \<Rightarrow> nat \<Rightarrow> nat" where
  "vis_index x y z = (x OR push_bit 4 z) OR push_bit 8 y"

definition set_opaque_index :: "vis_graph \<Rightarrow> nat \<Rightarrow> vis_graph option" where
  "set_opaque_index g index = do {
     let word = index div 64;
     let b = push_bit (index mod 64) 1;
     w \<leftarrow> vec_get (vg_bitset g) word;
     if w AND b = 0 then do {
       bitset \<leftarrow> vec_set (vg_bitset g) word (w OR b);
       Some (g\<lparr>vg_bitset := bitset, vg_empty := vg_empty g - 1\<rparr>)
     } else Some g }"

definition set_opaque_local :: "vis_graph \<Rightarrow> nat \<Rightarrow> nat \<Rightarrow> nat \<Rightarrow> vis_graph option" where
  "set_opaque_local g x y z = set_opaque_index g (vis_index x y z)"

definition opaque_count :: "vis_graph \<Rightarrow> nat" where
  "opaque_count g = vis_graph_size - vg_empty g"

definition is_set :: "vis_graph \<Rightarrow> nat \<Rightarrow> bool option" where
  "is_set g index = do { w \<leftarrow> vec_get (vg_bitset g) (index div 64); Some (w AND push_bit (index mod 64) 1 \<noteq> 0) }"

definition edge_faces :: "nat \<Rightarrow> u8" where
  "edge_faces index =
     (let x = index AND vis_graph_mask; y = drop_bit 8 index AND vis_graph_mask; z = drop_bit 4 index AND vis_graph_mask in
      (if x = 0 then face_mask FaceWest else if x = vis_graph_mask then face_mask FaceEast else 0)
      OR (if y = 0 then face_mask FaceDown else if y = vis_graph_mask then face_mask FaceUp else 0)
      OR (if z = 0 then face_mask FaceNorth else if z = vis_graph_mask then face_mask FaceSouth else 0))"

fun neighbor_index_at_face :: "nat \<Rightarrow> section_face \<Rightarrow> nat option" where
  "neighbor_index_at_face index FaceDown = (if drop_bit 8 index AND vis_graph_mask = 0 then None else Some (index - 256))"
| "neighbor_index_at_face index FaceUp = (if drop_bit 8 index AND vis_graph_mask = vis_graph_mask then None else Some (index + 256))"
| "neighbor_index_at_face index FaceNorth = (if drop_bit 4 index AND vis_graph_mask = 0 then None else Some (index - 16))"
| "neighbor_index_at_face index FaceSouth = (if drop_bit 4 index AND vis_graph_mask = vis_graph_mask then None else Some (index + 16))"
| "neighbor_index_at_face index FaceWest = (if index AND vis_graph_mask = 0 then None else Some (index - 1))"
| "neighbor_index_at_face index FaceEast = (if index AND vis_graph_mask = vis_graph_mask then None else Some (index + 1))"

section \<open>The flood fill\<close>

definition queue_push :: "nat list \<Rightarrow> nat \<Rightarrow> nat list option" where
  "queue_push queue index = (if length queue < vis_graph_size then Some (queue @ [index]) else None)"

fun visit_faces :: "section_face list \<Rightarrow> nat \<Rightarrow> vis_graph \<Rightarrow> nat list \<Rightarrow> (vis_graph \<times> nat list) option" where
  "visit_faces [] index g queue = Some (g, queue)"
| "visit_faces (face # faces) index g queue = (case neighbor_index_at_face index face of
       None \<Rightarrow> visit_faces faces index g queue
     | Some neighbor_index \<Rightarrow> do {
         opaque \<leftarrow> is_set g neighbor_index;
         if opaque then visit_faces faces index g queue
         else do {
           g \<leftarrow> set_opaque_index g neighbor_index;
           queue \<leftarrow> queue_push queue neighbor_index;
           visit_faces faces index g queue } })"

partial_function (option) flood_loop :: "vis_graph \<Rightarrow> nat list \<Rightarrow> nat \<Rightarrow> u8 \<Rightarrow> (u8 \<times> vis_graph) option" where
  "flood_loop g queue read faces =
     (if read < length queue then do {
        (g', queue') \<leftarrow> visit_faces section_faces (queue ! read) g queue;
        flood_loop g' queue' (Suc read) (faces OR edge_faces (queue ! read)) }
      else Some (faces, g))"

definition flood_fill :: "vis_graph \<Rightarrow> nat \<Rightarrow> (u8 \<times> vis_graph) option" where
  "flood_fill g start = do {
     queue \<leftarrow> queue_push [] start;
     g \<leftarrow> set_opaque_index g start;
     flood_loop g queue 0 0 }"

text \<open>The three nested loops, and the cells that they skip.\<close>

definition section_cells :: "(nat \<times> nat \<times> nat) list" where
  "section_cells = List.product [0..<16] (List.product [0..<16] [0..<16])"

definition interior_cell :: "nat \<Rightarrow> nat \<Rightarrow> nat \<Rightarrow> bool" where
  "interior_cell x y z \<longleftrightarrow> x \<noteq> 0 \<and> x \<noteq> vis_graph_mask \<and> y \<noteq> 0 \<and> y \<noteq> vis_graph_mask \<and> z \<noteq> 0 \<and> z \<noteq> vis_graph_mask"

fun resolve_cells :: "(nat \<times> nat \<times> nat) list \<Rightarrow> vis_graph \<Rightarrow> visibility_set \<Rightarrow> visibility_set option" where
  "resolve_cells [] g v = Some v"
| "resolve_cells ((x, y, z) # cells) g v =
     (if interior_cell x y z then resolve_cells cells g v
      else do {
        opaque \<leftarrow> is_set g (vis_index x y z);
        if opaque then resolve_cells cells g v
        else do {
          (faces, g) \<leftarrow> flood_fill g (vis_index x y z);
          resolve_cells cells g (visibility_add_faces v faces) } })"

definition resolve_visibility :: "vis_graph \<Rightarrow> visibility_set option" where
  "resolve_visibility g =
     (if opaque_count g < 256 then Some (visibility_all True)
      else if vg_empty g = 0 then Some (visibility_all False)
      else resolve_cells section_cells g 0)"

section \<open>The graph as a set of cells\<close>

definition opaque_cells :: "vis_graph \<Rightarrow> nat set" where
  "opaque_cells g = {i. i < vis_graph_size \<and> bit (vg_bitset g ! (i div 64)) (i mod 64)}"

definition vis_wf :: "vis_graph \<Rightarrow> bool" where
  "vis_wf g \<longleftrightarrow> length (vg_bitset g) = 64 \<and> vg_empty g + card (opaque_cells g) = vis_graph_size"

lemma opaque_cells_bound: "opaque_cells g \<subseteq> {..<4096}" "finite (opaque_cells g)"
  by (auto simp: opaque_cells_def)

lemma vis_graph_new_wf: "vis_wf vis_graph_new" "opaque_cells vis_graph_new = {}"
  by (auto simp: vis_wf_def vis_graph_new_def opaque_cells_def)

lemma is_set_iff:
  assumes "vis_wf g" and "i < 4096"
  shows "is_set g i = Some (i \<in> opaque_cells g)"
proof -
  have "i div 64 < length (vg_bitset g)" using assms by (simp add: vis_wf_def)
  then show ?thesis using assms(2) by (simp add: is_set_def vec_get_def opaque_cells_def and_exp_eq_0_iff_not_bit)
qed

lemma set_opaque_spec:
  assumes wf: "vis_wf g" and i: "i < 4096"
  shows "\<exists>g'. set_opaque_index g i = Some g' \<and> vis_wf g' \<and> opaque_cells g' = insert i (opaque_cells g)"
proof -
  define w where "w = vg_bitset g ! (i div 64)"
  have len: "i div 64 < length (vg_bitset g)" "length (vg_bitset g) = 64" using wf i by (simp_all add: vis_wf_def)
  show ?thesis
  proof (cases "i \<in> opaque_cells g")
    case True
    then have "set_opaque_index g i = Some g"
      using len by (simp add: set_opaque_index_def vec_get_def opaque_cells_def and_exp_eq_0_iff_not_bit Let_def)
    then show ?thesis using wf True by (simp add: insert_absorb)
  next
    case False
    define g' where "g' = g\<lparr>vg_bitset := (vg_bitset g)[i div 64 := w OR push_bit (i mod 64) 1], vg_empty := vg_empty g - 1\<rparr>"
    have set: "set_opaque_index g i = Some g'"
      using len False i
      by (simp add: set_opaque_index_def vec_get_def vec_set_def opaque_cells_def and_exp_eq_0_iff_not_bit g'_def w_def Let_def)
    have bits: "bit (vg_bitset g' ! (j div 64)) (j mod 64) \<longleftrightarrow> bit (vg_bitset g ! (j div 64)) (j mod 64) \<or> j = i"
      if "j < 4096" for j
    proof -
      have "j = i \<longleftrightarrow> j div 64 = i div 64 \<and> j mod 64 = i mod 64" by (metis div_mult_mod_eq)
      then show ?thesis
        using len by (auto simp: g'_def w_def nth_list_update bit_or_iff bit_exp_iff)
    qed
    have cells: "opaque_cells g' = insert i (opaque_cells g)"
      unfolding opaque_cells_def using bits i by auto
    have "card (opaque_cells g') = Suc (card (opaque_cells g))"
      unfolding cells using False opaque_cells_bound(2) by simp
    moreover have "card (opaque_cells g') \<le> 4096"
      using card_mono [OF _ opaque_cells_bound(1) [of g']] by simp
    ultimately have "vis_wf g'" using wf by (simp add: vis_wf_def g'_def)
    then show ?thesis using set cells by blast
  qed
qed

section \<open>Coordinates of a cell\<close>

definition cell_x :: "nat \<Rightarrow> nat" where "cell_x i = i mod 16"
definition cell_y :: "nat \<Rightarrow> nat" where "cell_y i = i div 256"
definition cell_z :: "nat \<Rightarrow> nat" where "cell_z i = i div 16 mod 16"

definition cell_shifted :: "section_face \<Rightarrow> nat \<Rightarrow> nat \<Rightarrow> bool" where
  "cell_shifted face i j \<longleftrightarrow>
     (case face_section_delta face of (dx, dy, dz) \<Rightarrow>
       int (cell_x j) = int (cell_x i) + dx \<and> int (cell_y j) = int (cell_y i) + dy \<and> int (cell_z j) = int (cell_z i) + dz)"

fun cell_touches :: "section_face \<Rightarrow> nat \<Rightarrow> bool" where
  "cell_touches FaceDown i \<longleftrightarrow> cell_y i = 0"
| "cell_touches FaceUp i \<longleftrightarrow> cell_y i = 15"
| "cell_touches FaceNorth i \<longleftrightarrow> cell_z i = 0"
| "cell_touches FaceSouth i \<longleftrightarrow> cell_z i = 15"
| "cell_touches FaceWest i \<longleftrightarrow> cell_x i = 0"
| "cell_touches FaceEast i \<longleftrightarrow> cell_x i = 15"

lemma cell_decompose: "i = cell_x i + 16 * cell_z i + 256 * cell_y i"
proof -
  have "i div 256 = i div 16 div 16" by (simp add: div_mult2_eq [symmetric])
  then show ?thesis unfolding cell_x_def cell_y_def cell_z_def
    using div_mult_mod_eq [of i 16] div_mult_mod_eq [of "i div 16" 16] by linarith
qed

lemma cell_bounds: "cell_x i < 16" "cell_z i < 16" "i < 4096 \<Longrightarrow> cell_y i < 16"
  by (auto simp: cell_x_def cell_y_def cell_z_def)

lemma cell_compose:
  assumes "x < 16" "z < 16"
  shows "cell_x (x + 16 * z + 256 * y) = x" "cell_z (x + 16 * z + 256 * y) = z" "cell_y (x + 16 * z + 256 * y) = y"
proof -
  have low: "(x + 16 * z + 256 * y) div 16 = z + 16 * y" using assms by simp
  then show "cell_z (x + 16 * z + 256 * y) = z" using assms by (simp add: cell_z_def)
  have "(x + 16 * z + 256 * y) div 256 = (x + 16 * z + 256 * y) div 16 div 16" by (simp add: div_mult2_eq [symmetric])
  then show "cell_y (x + 16 * z + 256 * y) = y" using low assms by (simp add: cell_y_def)
  have "(x + 16 * (z + 16 * y)) mod 16 = x" using assms by (simp only: mod_mult_self2 mod_less)
  then show "cell_x (x + 16 * z + 256 * y) = x" by (simp add: cell_x_def algebra_simps)
qed

lemma low_nibble: "(n :: nat) AND 15 = n mod 16"
proof -
  have "(15 :: nat) = mask 4" by (simp add: mask_eq_exp_minus_1)
  then show ?thesis by (simp only: take_bit_eq_mask [symmetric]) (simp add: take_bit_eq_mod)
qed

lemma graph_coordinates:
  "i AND 15 = cell_x i" "drop_bit 4 i AND 15 = cell_z i" "i < 4096 \<Longrightarrow> drop_bit 8 i AND 15 = cell_y i"
  by (simp_all add: low_nibble cell_x_def cell_y_def cell_z_def drop_bit_eq_div)

lemma vis_index_cells:
  assumes "x < 16" "y < 16" "z < 16"
  shows "vis_index x y z = x + 16 * z + 256 * y" "vis_index x y z < 4096"
proof -
  have b: "\<not> bit m k" if "m < 16" "4 \<le> k" for m k :: nat
  proof -
    have "(16 :: nat) = 2 ^ 4" by simp
    then have "m < 2 ^ k" using that by (metis le_less_trans less_le_trans power_increasing one_le_numeral nat_less_le)
    then show ?thesis by (simp add: bit_iff_odd)
  qed
  have 1: "x OR push_bit 4 z = x + push_bit 4 z"
    by (rule disjunctive_add [symmetric]) (use b [OF assms(1)] in \<open>auto simp: bit_push_bit_iff\<close>)
  have 2: "(x + push_bit 4 z) OR push_bit 8 y = x + push_bit 4 z + push_bit 8 y"
    unfolding 1 [symmetric]
    by (rule disjunctive_add [symmetric]) (use b [OF assms(1)] b [OF assms(3)] in \<open>auto simp: bit_push_bit_iff bit_or_iff\<close>)
  show "vis_index x y z = x + 16 * z + 256 * y"
    unfolding vis_index_def 1 2 by (simp add: push_bit_eq_mult)
  then show "vis_index x y z < 4096" using assms by simp
qed

lemma neighbor_iff:
  assumes i: "i < 4096"
  shows "neighbor_index_at_face i face = Some j \<longleftrightarrow> j < 4096 \<and> cell_shifted face i j"
proof -
  note bi = cell_bounds(1,2) [of i] cell_bounds(3) [OF i]
  note bj = cell_bounds(1,2) [of j]
  note gi = graph_coordinates(1,2) [of i] graph_coordinates(3) [OF i]
  note di = cell_decompose [of i] and dj = cell_decompose [of j]
  have hy: "j < 4096 \<longleftrightarrow> cell_y j < 16" unfolding cell_y_def by auto
  have eq: "j = x + 16 * z + 256 * y \<longleftrightarrow> cell_x j = x \<and> cell_z j = z \<and> cell_y j = y" if "x < 16" "z < 16" for x y z
    using cell_compose [OF that, of y] dj by metis
  show ?thesis
  proof (cases face)
    case FaceDown
    have "j = i - 256 \<longleftrightarrow> cell_x j = cell_x i \<and> cell_z j = cell_z i \<and> cell_y j = cell_y i - 1" if "cell_y i \<noteq> 0"
    proof -
      have "i - 256 = cell_x i + 16 * cell_z i + 256 * (cell_y i - 1)" using that by (subst (1) di) (simp add: distrib_left diff_mult_distrib2)
      then show ?thesis using eq [OF bi(1,2), of "cell_y i - 1"] by presburger
    qed
    then show ?thesis using FaceDown bi by (auto simp: gi hy cell_shifted_def)
  next
    case FaceUp
    have "j = i + 256 \<longleftrightarrow> cell_x j = cell_x i \<and> cell_z j = cell_z i \<and> cell_y j = cell_y i + 1"
    proof -
      have "i + 256 = cell_x i + 16 * cell_z i + 256 * (cell_y i + 1)" by (subst (1) di) (simp add: distrib_left diff_mult_distrib2)
      then show ?thesis using eq [OF bi(1,2), of "cell_y i + 1"] by presburger
    qed
    then show ?thesis using FaceUp bi by (auto simp: gi hy cell_shifted_def)
  next
    case FaceNorth
    have "j = i - 16 \<longleftrightarrow> cell_x j = cell_x i \<and> cell_z j = cell_z i - 1 \<and> cell_y j = cell_y i" if "cell_z i \<noteq> 0"
    proof -
      have "i - 16 = cell_x i + 16 * (cell_z i - 1) + 256 * cell_y i" using that by (subst (1) di) (simp add: distrib_left diff_mult_distrib2)
      then show ?thesis using eq [OF bi(1), of "cell_z i - 1" "cell_y i"] bi by linarith
    qed
    then show ?thesis using FaceNorth bi by (auto simp: gi hy cell_shifted_def)
  next
    case FaceSouth
    have "j = i + 16 \<longleftrightarrow> cell_x j = cell_x i \<and> cell_z j = cell_z i + 1 \<and> cell_y j = cell_y i" if "cell_z i \<noteq> 15"
    proof -
      have "i + 16 = cell_x i + 16 * (cell_z i + 1) + 256 * cell_y i" by (subst (1) di) (simp add: distrib_left diff_mult_distrib2)
      then show ?thesis using eq [OF bi(1), of "cell_z i + 1" "cell_y i"] bi that by linarith
    qed
    then show ?thesis using FaceSouth bi bj by (auto simp: gi hy cell_shifted_def)
  next
    case FaceWest
    have "j = i - 1 \<longleftrightarrow> cell_x j = cell_x i - 1 \<and> cell_z j = cell_z i \<and> cell_y j = cell_y i" if "cell_x i \<noteq> 0"
    proof -
      have "i - 1 = cell_x i - 1 + 16 * cell_z i + 256 * cell_y i" using that by (subst (1) di) (simp add: distrib_left diff_mult_distrib2)
      then show ?thesis using eq [of "cell_x i - 1" "cell_z i" "cell_y i"] bi by linarith
    qed
    then show ?thesis using FaceWest bi by (auto simp: gi hy cell_shifted_def)
  next
    case FaceEast
    have "j = i + 1 \<longleftrightarrow> cell_x j = cell_x i + 1 \<and> cell_z j = cell_z i \<and> cell_y j = cell_y i" if "cell_x i \<noteq> 15"
    proof -
      have "i + 1 = cell_x i + 1 + 16 * cell_z i + 256 * cell_y i" by (subst (1) di) (simp add: distrib_left diff_mult_distrib2)
      then show ?thesis using eq [of "cell_x i + 1" "cell_z i" "cell_y i"] bi that by linarith
    qed
    then show ?thesis using FaceEast bi bj by (auto simp: gi hy cell_shifted_def)
  qed
qed

lemma cell_shifted_opposite: "cell_shifted (face_opposite face) j i \<longleftrightarrow> cell_shifted face i j"
  by (cases face) (auto simp: cell_shifted_def)

end
