(* ===== verification/MeshFlood.thy ===== *)
theory MeshFlood imports MeshVisibility
begin

text \<open>
  The flood fill of \<open>native/crates/mclone-mesh/src/visibility.rs\<close> collects exactly one pocket: the cells that steps
  between free neighbours reach from the start.  The queue never overflows its 4096 slots, the loop ends after at
  most 4096 turns, and the faces it returns are those that a cell of the pocket touches.
\<close>

section \<open>Pockets of free cells\<close>

definition free_step :: "nat set \<Rightarrow> nat \<Rightarrow> nat \<Rightarrow> bool" where
  "free_step B i j \<longleftrightarrow> i < 4096 \<and> i \<notin> B \<and> j < 4096 \<and> j \<notin> B \<and> (\<exists>face. cell_shifted face i j)"

definition free_pocket :: "nat set \<Rightarrow> nat \<Rightarrow> nat set" where
  "free_pocket B i = {j. (free_step B)\<^sup>*\<^sup>* i j}"

lemma free_step_sym: "free_step B i j \<Longrightarrow> free_step B j i"
  unfolding free_step_def using cell_shifted_opposite by blast

lemma free_reaches_sym: "(free_step B)\<^sup>*\<^sup>* i j \<Longrightarrow> (free_step B)\<^sup>*\<^sup>* j i"
  by (induction rule: rtranclp_induct) (auto intro: free_step_sym converse_rtranclp_into_rtranclp)

lemma free_pocket_self: "i \<in> free_pocket B i"
  by (simp add: free_pocket_def)

lemma free_pocket_cells:
  assumes "i < 4096" "i \<notin> B" "j \<in> free_pocket B i"
  shows "j < 4096" "j \<notin> B"
proof -
  have "(free_step B)\<^sup>*\<^sup>* i j" using assms(3) by (simp add: free_pocket_def)
  then have "j < 4096 \<and> j \<notin> B" using assms(1,2) by (induction rule: rtranclp_induct) (auto simp: free_step_def)
  then show "j < 4096" "j \<notin> B" by auto
qed

lemma free_pocket_eq: "j \<in> free_pocket B i \<Longrightarrow> free_pocket B j = free_pocket B i"
  unfolding free_pocket_def using free_reaches_sym by (auto intro: rtranclp_trans)

lemma free_pocket_least:
  assumes "i \<in> P" and "\<And>j k. j \<in> P \<Longrightarrow> free_step B j k \<Longrightarrow> k \<in> P"
  shows "free_pocket B i \<subseteq> P"
proof
  fix j assume "j \<in> free_pocket B i"
  then have "(free_step B)\<^sup>*\<^sup>* i j" by (simp add: free_pocket_def)
  then show "j \<in> P" using assms by (induction rule: rtranclp_induct) auto
qed

text \<open>Pockets already filled do not change the pocket of a cell outside them.\<close>

lemma free_pocket_filled:
  assumes closed: "\<And>j k. j \<in> D \<Longrightarrow> free_step B j k \<Longrightarrow> k \<in> D" and i: "i \<notin> D"
  shows "free_pocket (B \<union> D) i = free_pocket B i"
proof
  have sub: "free_step (B \<union> D) j k \<Longrightarrow> free_step B j k" for j k by (auto simp: free_step_def)
  then have "free_step (B \<union> D) \<le> free_step B" by auto
  then show "free_pocket (B \<union> D) i \<subseteq> free_pocket B i"
    unfolding free_pocket_def using rtranclp_mono by blast
  show "free_pocket B i \<subseteq> free_pocket (B \<union> D) i"
  proof
    fix j assume "j \<in> free_pocket B i"
    then have "(free_step B)\<^sup>*\<^sup>* i j" by (simp add: free_pocket_def)
    then have "(free_step (B \<union> D))\<^sup>*\<^sup>* i j \<and> j \<notin> D"
    proof (induction rule: rtranclp_induct)
      case base then show ?case using i by simp
    next
      case (step j k)
      then have "k \<notin> D" using closed free_step_sym by blast
      then have "free_step (B \<union> D) j k" using step by (auto simp: free_step_def)
      then show ?case using step \<open>k \<notin> D\<close> by (auto intro: rtranclp.rtrancl_into_rtrancl)
    qed
    then show "j \<in> free_pocket (B \<union> D) i" by (simp add: free_pocket_def)
  qed
qed

section \<open>One turn of the loop\<close>

lemma queue_has_room:
  assumes "distinct queue" "set queue \<subseteq> opaque_cells g" "j < 4096" "j \<notin> opaque_cells g"
  shows "queue_push queue j = Some (queue @ [j])"
proof -
  have "insert j (set queue) \<subseteq> {..<4096}" using assms opaque_cells_bound(1) by blast
  then have "card (insert j (set queue)) \<le> 4096" using card_mono [of "{..<4096 :: nat}"] by fastforce
  moreover have "card (insert j (set queue)) = Suc (length queue)"
    using assms(1,2,4) by (subst card_insert_disjoint; auto simp: distinct_card)
  ultimately show ?thesis by (simp add: queue_push_def)
qed

lemma visit_faces_spec:
  assumes "vis_wf g" "distinct queue" "set queue \<subseteq> opaque_cells g" "i < 4096"
  shows "\<exists>g' news. visit_faces faces i g queue = Some (g', queue @ news) \<and> vis_wf g'
    \<and> opaque_cells g' = opaque_cells g \<union> set news \<and> distinct (queue @ news) \<and> set news \<inter> opaque_cells g = {}
    \<and> (\<forall>j \<in> set news. j < 4096 \<and> (\<exists>face. cell_shifted face i j))
    \<and> (\<forall>face \<in> set faces. \<forall>j < 4096. cell_shifted face i j \<longrightarrow> j \<in> opaque_cells g')"
  using assms(1-3)
proof (induction faces arbitrary: g queue)
  case Nil
  show ?case by (rule exI [of _ g], rule exI [of _ "[]"]) (use Nil in simp)
next
  case (Cons face faces)
  note near = neighbor_iff [OF assms(4)]
  show ?case
  proof (cases "neighbor_index_at_face i face")
    case None
    then have no: "\<not> cell_shifted face i j" if "j < 4096" for j using near [of face j] that by simp
    show ?thesis using Cons.IH [OF Cons.prems] None no by simp
  next
    case (Some j)
    then have j: "j < 4096" "cell_shifted face i j" using near [of face j] by auto
    have one: "k = j" if "k < 4096" "cell_shifted face i k" for k using that near [of face k] Some by simp
    show ?thesis
    proof (cases "j \<in> opaque_cells g")
      case True
      then have go: "visit_faces (face # faces) i g queue = visit_faces faces i g queue"
        using Some is_set_iff [OF Cons.prems(1) j(1)] by simp
      show ?thesis unfolding go using Cons.IH [OF Cons.prems] one True by simp blast
    next
      case False
      obtain g1 where g1: "set_opaque_index g j = Some g1" "vis_wf g1" "opaque_cells g1 = insert j (opaque_cells g)"
        using set_opaque_spec [OF Cons.prems(1) j(1)] by blast
      have push: "queue_push queue j = Some (queue @ [j])" by (rule queue_has_room [OF Cons.prems(2,3) j(1) False])
      have go: "visit_faces (face # faces) i g queue = visit_faces faces i g1 (queue @ [j])"
        using Some False is_set_iff [OF Cons.prems(1) j(1)] g1(1) push by simp
      have "distinct (queue @ [j])" "set (queue @ [j]) \<subseteq> opaque_cells g1" using Cons.prems False g1(3) by auto
      from Cons.IH [OF g1(2) this] obtain g' news where
        out: "visit_faces faces i g1 (queue @ [j]) = Some (g', (queue @ [j]) @ news)" "vis_wf g'"
          "opaque_cells g' = opaque_cells g1 \<union> set news" "distinct ((queue @ [j]) @ news)" "set news \<inter> opaque_cells g1 = {}"
          "\<forall>j \<in> set news. j < 4096 \<and> (\<exists>face. cell_shifted face i j)"
          "\<forall>face \<in> set faces. \<forall>j < 4096. cell_shifted face i j \<longrightarrow> j \<in> opaque_cells g'"
        by blast
      show ?thesis
        unfolding go
      proof (rule exI [of _ g'], rule exI [of _ "j # news"], intro conjI)
        show "opaque_cells g' = opaque_cells g \<union> set (j # news)" using out(3) g1(3) by auto
        show "set (j # news) \<inter> opaque_cells g = {}" using out(5) g1(3) False by auto
        show "\<forall>k \<in> set (j # news). k < 4096 \<and> (\<exists>face. cell_shifted face i k)" using out(6) j by auto
        have "j \<in> opaque_cells g'" using out(3) g1(3) by simp
        then show "\<forall>f \<in> set (face # faces). \<forall>k < 4096. cell_shifted f i k \<longrightarrow> k \<in> opaque_cells g'"
          using out(7) one by (metis set_ConsD)
      qed (use out(1,2,4) in simp_all)
    qed
  qed
qed

lemma edge_faces_touch:
  assumes "i < 4096"
  shows "bit (edge_faces i) (face_index face) \<longleftrightarrow> cell_touches face i"
proof -
  note at = graph_coordinates(1,2) [of i] graph_coordinates(3) [OF assms]
  show ?thesis
    unfolding edge_faces_def Let_def at face_mask_def
    by (cases face) (simp_all add: bit_or_iff bit_push_bit_iff bit_1_iff)
qed

section \<open>The loop\<close>

lemma flood_loop_spec:
  assumes start: "start < 4096" "start \<notin> B"
    and "vis_wf g" "opaque_cells g = B \<union> set queue" "B \<inter> set queue = {}" "distinct queue"
    and "start \<in> set queue" "set queue \<subseteq> free_pocket B start" "read \<le> length queue"
    and "\<forall>i \<in> set (take read queue). \<forall>j. free_step B i j \<longrightarrow> j \<in> set queue"
    and "\<forall>face. bit faces (face_index face) \<longleftrightarrow> (\<exists>i \<in> set (take read queue). cell_touches face i)"
  shows "\<exists>F g'. flood_loop g queue read faces = Some (F, g') \<and> vis_wf g' \<and> opaque_cells g' = B \<union> free_pocket B start
    \<and> (\<forall>face. bit F (face_index face) \<longleftrightarrow> (\<exists>i \<in> free_pocket B start. cell_touches face i))"
  using assms(3-)
proof (induction "4096 - read" arbitrary: g queue read faces rule: less_induct)
  case less
  note wf = less.prems(1) and cells = less.prems(2) and fresh = less.prems(3) and dist = less.prems(4)
    and inside = less.prems(6) and closed = less.prems(8) and bits = less.prems(9)
  show ?case
  proof (cases "read < length queue")
    case False
    then have all: "take read queue = queue" by simp
    have "free_pocket B start \<subseteq> set queue"
      by (rule free_pocket_least) (use less.prems(5) closed all in auto)
    then have "set queue = free_pocket B start" using inside by blast
    then show ?thesis using False wf cells bits all by (subst flood_loop.simps) auto
  next
    case True
    define i where "i = queue ! read"
    have i: "i \<in> set queue" "i \<in> free_pocket B start" using True inside by (auto simp: i_def)
    have i_free: "i < 4096" "i \<notin> B" using free_pocket_cells [OF start i(2)] by auto
    have len: "length queue \<le> 4096"
      using card_mono [OF _ opaque_cells_bound(1) [of g]] cells dist by (metis (no_types, lifting) Un_upper2 card_lessThan
        card_mono distinct_card finite_lessThan opaque_cells_bound(1) subset_trans)
    obtain g' news where out: "visit_faces section_faces i g queue = Some (g', queue @ news)" "vis_wf g'"
        "opaque_cells g' = opaque_cells g \<union> set news" "distinct (queue @ news)" "set news \<inter> opaque_cells g = {}"
        "\<forall>j \<in> set news. j < 4096 \<and> (\<exists>face. cell_shifted face i j)"
        "\<forall>face \<in> set section_faces. \<forall>j < 4096. cell_shifted face i j \<longrightarrow> j \<in> opaque_cells g'"
      using visit_faces_spec [OF wf dist _ i_free(1), of section_faces] cells by blast
    have faces: "face \<in> set section_faces" for face by (cases face) (simp_all add: section_faces_def)
    have turn: "flood_loop g queue read faces = flood_loop g' (queue @ news) (Suc read) (faces OR edge_faces i)"
      using True out(1) by (subst flood_loop.simps) (simp add: i_def)
    have taken: "take (Suc read) (queue @ news) = take read queue @ [i]"
      using True by (simp add: take_Suc_conv_app_nth i_def)
    have step: "free_step B i j" if "j \<in> set news" for j
      using that out(5,6) i_free cells by (auto simp: free_step_def)
    have news: "set news \<subseteq> free_pocket B start"
    proof
      fix j assume "j \<in> set news"
      then show "j \<in> free_pocket B start"
        using step i(2) by (auto simp: free_pocket_def intro: rtranclp.rtrancl_into_rtrancl)
    qed
    have onward: "j \<in> set (queue @ news)" if "free_step B i j" for j
    proof -
      obtain face where "cell_shifted face i j" "j < 4096" "j \<notin> B" using \<open>free_step B i j\<close> by (auto simp: free_step_def)
      then have "j \<in> opaque_cells g'" using out(7) faces by blast
      then show ?thesis using out(3) cells \<open>j \<notin> B\<close> by auto
    qed
    have "4096 - Suc read < 4096 - read" using True len by simp
    moreover have "opaque_cells g' = B \<union> set (queue @ news)" using out(3) cells by auto
    moreover have "B \<inter> set (queue @ news) = {}" using fresh out(5) cells by auto
    moreover have "start \<in> set (queue @ news)" "set (queue @ news) \<subseteq> free_pocket B start"
      using less.prems(5) inside news by auto
    moreover have "Suc read \<le> length (queue @ news)" using True by simp
    moreover have "\<forall>k \<in> set (take (Suc read) (queue @ news)). \<forall>j. free_step B k j \<longrightarrow> j \<in> set (queue @ news)"
      unfolding taken using closed onward by auto
    moreover have "\<forall>face. bit (faces OR edge_faces i) (face_index face)
        \<longleftrightarrow> (\<exists>k \<in> set (take (Suc read) (queue @ news)). cell_touches face k)"
      unfolding taken using bits edge_faces_touch [OF i_free(1)] by (auto simp: bit_or_iff)
    ultimately show ?thesis
      unfolding turn using less.hyps [of "Suc read" g' "queue @ news"] out(2,4) by blast
  qed
qed

lemma flood_fill_spec:
  assumes "vis_wf g" "start < 4096" "start \<notin> opaque_cells g"
  shows "\<exists>F g'. flood_fill g start = Some (F, g') \<and> vis_wf g'
    \<and> opaque_cells g' = opaque_cells g \<union> free_pocket (opaque_cells g) start
    \<and> (\<forall>face. bit F (face_index face) \<longleftrightarrow> (\<exists>i \<in> free_pocket (opaque_cells g) start. cell_touches face i))"
proof -
  obtain g1 where g1: "set_opaque_index g start = Some g1" "vis_wf g1" "opaque_cells g1 = insert start (opaque_cells g)"
    using set_opaque_spec [OF assms(1,2)] by blast
  have "flood_fill g start = flood_loop g1 [start] 0 0" by (simp add: flood_fill_def queue_push_def g1(1))
  moreover have "\<exists>F g'. flood_loop g1 [start] 0 0 = Some (F, g') \<and> vis_wf g'
    \<and> opaque_cells g' = opaque_cells g \<union> free_pocket (opaque_cells g) start
    \<and> (\<forall>face. bit F (face_index face) \<longleftrightarrow> (\<exists>i \<in> free_pocket (opaque_cells g) start. cell_touches face i))"
    by (rule flood_loop_spec [OF assms(2,3) g1(2)]) (use g1(3) assms(3) free_pocket_self in auto)
  ultimately show ?thesis by simp
qed

section \<open>Visibility sets\<close>

lemma pair_bit_between: "visibility_between v first second \<longleftrightarrow> bit v (face_index first + face_index second * 6)"
  by (simp add: visibility_between_def pair_bit_def and_exp_eq_0_iff_not_bit)

lemma face_index_bound: "face_index face < 6"
  by (cases face) simp_all

lemma face_index_inj: "face_index a = face_index b \<longleftrightarrow> a = b"
  by (cases a; cases b) simp_all

lemma pair_index_inj:
  "face_index a + face_index b * 6 = face_index c + face_index d * 6 \<longleftrightarrow> a = c \<and> b = d"
proof
  assume eq: "face_index a + face_index b * 6 = face_index c + face_index d * 6"
  have "(face_index a + face_index b * 6) mod 6 = face_index a" "(face_index c + face_index d * 6) mod 6 = face_index c"
    using face_index_bound [of a] face_index_bound [of c] by simp_all
  then have "face_index a = face_index c" using eq by simp
  then show "a = c \<and> b = d" using eq by (simp add: face_index_inj)
qed auto

lemma pair_index_bound: "face_index a + face_index b * 6 < 36"
  using face_index_bound [of a] face_index_bound [of b] by linarith

lemma bit_pair_bit: "bit (pair_bit a b) (face_index c + face_index d * 6) \<longleftrightarrow> a = c \<and> b = d"
  unfolding pair_index_inj [symmetric] pair_bit_def
  using pair_index_bound [of c d] pair_index_bound [of a b] by (auto simp: bit_exp_iff)

lemma between_pair:
  "visibility_between (visibility_pair v a b True) c d \<longleftrightarrow> visibility_between v c d \<or> (c, d) = (a, b) \<or> (c, d) = (b, a)"
  unfolding pair_bit_between visibility_pair_def visibility_one_way_def if_True bit_or_iff bit_pair_bit by auto

lemma between_all: "visibility_between (visibility_all value) a b \<longleftrightarrow> value"
proof -
  have "(push_bit 36 1 - 1 :: u64) = mask 36" by (simp add: mask_eq_exp_minus_1 push_bit_eq_mult)
  then have "visibility_all value = (if value then mask 36 else 0)" by (simp only: visibility_all_def)
  moreover have "bit (mask 36 :: u64) (face_index a + face_index b * 6)"
    unfolding bit_mask_iff using pair_index_bound [of a b] by simp
  ultimately show ?thesis by (cases "value") (simp_all only: pair_bit_between if_True if_False, simp)
qed

lemma face_selected: "faces AND face_mask face = 0 \<longleftrightarrow> \<not> bit faces (face_index face)"
  by (simp add: face_mask_def and_exp_eq_0_iff_not_bit)

lemma between_add_row:
  "visibility_between (fold (\<lambda>second v. if bit faces (face_index second) then visibility_pair v first second True else v) fs v) c d
    \<longleftrightarrow> visibility_between v c d
      \<or> (\<exists>second \<in> set fs. bit faces (face_index second) \<and> ((c, d) = (first, second) \<or> (c, d) = (second, first)))"
  by (induction fs arbitrary: v) (auto simp: between_pair)

lemma between_add_rows:
  "visibility_between (fold (\<lambda>first v. if \<not> bit faces (face_index first) then v
     else fold (\<lambda>second v. if bit faces (face_index second) then visibility_pair v first second True else v) section_faces v) fs v) c d
    \<longleftrightarrow> visibility_between v c d
      \<or> (\<exists>first \<in> set fs. \<exists>second \<in> set section_faces. bit faces (face_index first) \<and> bit faces (face_index second)
          \<and> ((c, d) = (first, second) \<or> (c, d) = (second, first)))"
  by (induction fs arbitrary: v) (auto simp: between_add_row)

lemma all_section_faces: "face \<in> set section_faces"
  by (cases face) (simp_all add: section_faces_def)

lemma between_add_faces:
  "visibility_between (visibility_add_faces v faces) a b
    \<longleftrightarrow> visibility_between v a b \<or> bit faces (face_index a) \<and> bit faces (face_index b)"
  unfolding visibility_add_faces_def face_selected not_not between_add_rows using all_section_faces by auto

section \<open>All the pockets of a section\<close>

lemma section_cells_in: "(x, y, z) \<in> set section_cells \<longleftrightarrow> x < 16 \<and> y < 16 \<and> z < 16"
  by (simp add: section_cells_def)

lemma touching_cell_scanned:
  assumes "i < 4096" "cell_touches face i"
  shows "\<exists>(x, y, z) \<in> set section_cells. \<not> interior_cell x y z \<and> vis_index x y z = i"
proof (rule bexI [of _ "(cell_x i, cell_y i, cell_z i)"])
  note b = cell_bounds(1,2) [of i] cell_bounds(3) [OF assms(1)]
  show "(cell_x i, cell_y i, cell_z i) \<in> set section_cells" using b by (simp add: section_cells_in)
  have "vis_index (cell_x i) (cell_y i) (cell_z i) = i"
    using vis_index_cells(1) [OF b(1,3,2)] cell_decompose [of i] by simp
  moreover have "\<not> interior_cell (cell_x i) (cell_y i) (cell_z i)"
    using assms(2) by (cases face) (simp_all add: interior_cell_def)
  ultimately show "case (cell_x i, cell_y i, cell_z i) of (x, y, z) \<Rightarrow> \<not> interior_cell x y z \<and> vis_index x y z = i" by simp
qed

lemma resolve_cells_spec:
  assumes "vis_wf g" "opaque_cells g = B \<union> D" "B \<inter> D = {}" "\<forall>i \<in> D. \<forall>j. free_step B i j \<longrightarrow> j \<in> D"
    and "set cells \<subseteq> set section_cells"
  shows "\<exists>v'. resolve_cells cells g v = Some v' \<and> (\<forall>a b. visibility_between v' a b \<longleftrightarrow> visibility_between v a b
    \<or> (\<exists>(x, y, z) \<in> set cells. \<not> interior_cell x y z \<and> vis_index x y z \<notin> B \<union> D
        \<and> (\<exists>i \<in> free_pocket B (vis_index x y z). cell_touches a i)
        \<and> (\<exists>j \<in> free_pocket B (vis_index x y z). cell_touches b j)))"
  using assms
proof (induction cells arbitrary: g D v)
  case Nil
  then show ?case by simp
next
  case (Cons c cells)
  obtain x y z where c: "c = (x, y, z)" by (cases c)
  define i where "i = vis_index x y z"
  have i: "i < 4096" using Cons.prems(5) vis_index_cells(2) by (auto simp: i_def c section_cells_in)
  have rest: "set cells \<subseteq> set section_cells" using Cons.prems(5) by simp
  note known = is_set_iff [OF Cons.prems(1) i] Cons.prems(2)
  show ?case
  proof (cases "interior_cell x y z \<or> i \<in> B \<union> D")
    case True
    then have go: "resolve_cells (c # cells) g v = resolve_cells cells g v"
      using known by (auto simp: c i_def)
    show ?thesis
      unfolding go using Cons.IH [OF Cons.prems(1-4) rest, where v = v] True by (auto simp: c i_def)
  next
    case False
    then have new: "i \<notin> opaque_cells g" "i \<notin> B" "i \<notin> D" "\<not> interior_cell x y z" using known(2) by auto
    have same: "free_pocket (opaque_cells g) i = free_pocket B i"
      unfolding known(2) by (rule free_pocket_filled) (use Cons.prems(4) new(3) in auto)
    let ?P = "free_pocket B i"
    obtain F g1 where fill: "flood_fill g i = Some (F, g1)" "vis_wf g1" "opaque_cells g1 = opaque_cells g \<union> ?P"
        "\<And>face. bit F (face_index face) \<longleftrightarrow> (\<exists>j \<in> ?P. cell_touches face j)"
      using flood_fill_spec [OF Cons.prems(1) i new(1)] unfolding same by blast
    have go: "resolve_cells (c # cells) g v = resolve_cells cells g1 (visibility_add_faces v F)"
      using new fill(1) known by (simp add: c i_def)
    have F1: "opaque_cells g1 = B \<union> (D \<union> ?P)" using fill(3) known(2) by auto
    have F2: "B \<inter> (D \<union> ?P) = {}" using Cons.prems(3) free_pocket_cells(2) [OF i new(2)] by blast
    have F3: "\<forall>j \<in> D \<union> ?P. \<forall>k. free_step B j k \<longrightarrow> k \<in> D \<union> ?P"
      using Cons.prems(4) by (auto simp: free_pocket_def intro: rtranclp.rtrancl_into_rtrancl)
    from Cons.IH [OF fill(2) F1 F2 F3 rest, where v = "visibility_add_faces v F"]
    obtain v' where out: "resolve_cells cells g1 (visibility_add_faces v F) = Some v'"
        "\<forall>a b. visibility_between v' a b \<longleftrightarrow> visibility_between (visibility_add_faces v F) a b
          \<or> (\<exists>(x, y, z) \<in> set cells. \<not> interior_cell x y z \<and> vis_index x y z \<notin> B \<union> (D \<union> ?P)
              \<and> (\<exists>i \<in> free_pocket B (vis_index x y z). cell_touches a i)
              \<and> (\<exists>j \<in> free_pocket B (vis_index x y z). cell_touches b j))"
      by (elim exE conjE)
    show ?thesis
    proof (rule exI [of _ v'], intro conjI allI)
      fix a b
      let ?sees = "\<lambda>k. (\<exists>i \<in> free_pocket B k. cell_touches a i) \<and> (\<exists>j \<in> free_pocket B k. cell_touches b j)"
      let ?scan = "\<lambda>D. \<exists>(x, y, z) \<in> set cells. \<not> interior_cell x y z \<and> vis_index x y z \<notin> B \<union> D \<and> ?sees (vis_index x y z)"
      have "?scan D \<longleftrightarrow> ?scan (D \<union> ?P)" if no: "\<not> ?sees i"
      proof
        assume "?scan D"
        then obtain x' y' z' where at: "(x', y', z') \<in> set cells" "\<not> interior_cell x' y' z'"
            "vis_index x' y' z' \<notin> B \<union> D" "?sees (vis_index x' y' z')" by blast
        have "vis_index x' y' z' \<notin> ?P"
        proof
          assume "vis_index x' y' z' \<in> ?P"
          then have "free_pocket B (vis_index x' y' z') = ?P" by (rule free_pocket_eq)
          then show False using at(4) no by simp
        qed
        then show "?scan (D \<union> ?P)" using at by blast
      qed blast
      moreover have "?scan (D \<union> ?P) \<Longrightarrow> ?scan D" by blast
      moreover have "(\<exists>(x, y, z) \<in> set (c # cells). \<not> interior_cell x y z \<and> vis_index x y z \<notin> B \<union> D \<and> ?sees (vis_index x y z))
          \<longleftrightarrow> ?sees i \<or> ?scan D"
        using new by (simp add: c i_def)
      ultimately show "visibility_between v' a b \<longleftrightarrow> visibility_between v a b
        \<or> (\<exists>(x, y, z) \<in> set (c # cells). \<not> interior_cell x y z \<and> vis_index x y z \<notin> B \<union> D \<and> ?sees (vis_index x y z))"
        unfolding out(2) [rule_format] between_add_faces fill(4) by blast
    qed (simp add: go out(1))
  qed
qed

text \<open>C9: the visibility of a section is exactly what its free cells allow. For every well-formed graph resolving
  returns without a panic, and two faces see each other if and only if fewer than 256 cells are opaque or some way
  of steps between neighbouring free cells leads from a cell at the one face to a cell at the other. So the flood
  fill from the boundary, with its bit sets, its bounded queue and its skipped cells, computes reachability.\<close>
theorem faces_see_through_free_cells:
  assumes "vis_wf g"
  shows "\<exists>v. resolve_visibility g = Some v \<and> (\<forall>a b. visibility_between v a b \<longleftrightarrow> card (opaque_cells g) < 256
    \<or> (\<exists>i j. i < 4096 \<and> i \<notin> opaque_cells g \<and> cell_touches a i \<and> cell_touches b j \<and> (free_step (opaque_cells g))\<^sup>*\<^sup>* i j))"
proof -
  let ?B = "opaque_cells g"
  let ?sees = "\<lambda>a b. \<exists>i j. i < 4096 \<and> i \<notin> ?B \<and> cell_touches a i \<and> cell_touches b j \<and> (free_step ?B)\<^sup>*\<^sup>* i j"
  have all: "visibility_between (visibility_all w) = (\<lambda>_ _. w)" for w by (simp add: fun_eq_iff between_all)
  have count: "opaque_count g = card ?B" using assms unfolding vis_wf_def opaque_count_def by linarith
  consider "card ?B < 256" | "\<not> card ?B < 256" "vg_empty g = 0" | "\<not> card ?B < 256" "vg_empty g \<noteq> 0" by blast
  then show ?thesis
  proof cases
    case 1
    then show ?thesis by (simp add: resolve_visibility_def count all)
  next
    case 2
    then have "card ?B = card {..<4096 :: nat}" using assms by (simp add: vis_wf_def)
    then have "?B = {..<4096}" by (rule card_subset_eq [OF finite_lessThan opaque_cells_bound(1)])
    then show ?thesis using 2 by (simp add: resolve_visibility_def count all)
  next
    case 3
    obtain v where v: "resolve_cells section_cells g 0 = Some v"
        "\<And>a b. visibility_between v a b \<longleftrightarrow> visibility_between 0 a b
          \<or> (\<exists>(x, y, z) \<in> set section_cells. \<not> interior_cell x y z \<and> vis_index x y z \<notin> ?B \<union> {}
              \<and> (\<exists>i \<in> free_pocket ?B (vis_index x y z). cell_touches a i)
              \<and> (\<exists>j \<in> free_pocket ?B (vis_index x y z). cell_touches b j))"
      using resolve_cells_spec [OF assms, where B = ?B and D = "{}" and cells = section_cells and v = 0] by auto
    have "visibility_between v a b \<longleftrightarrow> ?sees a b" for a b
    proof
      assume "visibility_between v a b"
      moreover have "\<not> visibility_between 0 a b" by (simp add: visibility_between_def)
      ultimately obtain x y z i j where "(x, y, z) \<in> set section_cells" and free: "vis_index x y z \<notin> ?B"
          and ij: "i \<in> free_pocket ?B (vis_index x y z)" "j \<in> free_pocket ?B (vis_index x y z)" "cell_touches a i" "cell_touches b j"
        unfolding v(2) by blast
      then have k: "vis_index x y z < 4096" "vis_index x y z \<notin> ?B" using vis_index_cells(2) by (simp_all add: section_cells_in)
      have "j \<in> free_pocket ?B i" using ij free_pocket_eq by blast
      then show "?sees a b" using free_pocket_cells [OF k ij(1)] ij(3,4) unfolding free_pocket_def by blast
    next
      assume "?sees a b"
      then obtain i j where ij: "i < 4096" "i \<notin> ?B" "cell_touches a i" "cell_touches b j" "j \<in> free_pocket ?B i"
        unfolding free_pocket_def by blast
      then show "visibility_between v a b"
        unfolding v(2) using touching_cell_scanned [OF ij(1,3)] free_pocket_self [of i ?B] by blast
    qed
    then show ?thesis using 3 v(1) by (simp add: resolve_visibility_def count)
  qed
qed

lemma slab_cells:
  "opaque_cells \<lparr>vg_bitset = replicate 4 (- 1) @ replicate 60 0, vg_empty = 3840\<rparr> = {..<256}"
proof (rule set_eqI)
  fix i
  show "i \<in> opaque_cells \<lparr>vg_bitset = replicate 4 (- 1) @ replicate 60 0, vg_empty = 3840\<rparr> \<longleftrightarrow> i \<in> {..<256}"
    by (auto simp: opaque_cells_def nth_append not_less div_less_iff_less_mult)
qed

lemma faces_see_through_free_cells_witness:
  "\<exists>v. resolve_visibility \<lparr>vg_bitset = replicate 4 (- 1) @ replicate 60 0, vg_empty = 3840\<rparr> = Some v
    \<and> \<not> visibility_between v FaceDown FaceUp \<and> visibility_between v FaceNorth FaceWest"
proof -
  let ?g = "\<lparr>vg_bitset = replicate 4 (- 1) @ replicate 60 0, vg_empty = 3840\<rparr>"
  have "vis_wf ?g" unfolding vis_wf_def slab_cells by simp
  from faces_see_through_free_cells [OF this, unfolded slab_cells] obtain v where v: "resolve_visibility ?g = Some v"
      "\<forall>a b. visibility_between v a b \<longleftrightarrow> card {..<256 :: nat} < 256 \<or> (\<exists>i j. i < 4096 \<and> i \<notin> {..<256} \<and> cell_touches a i
        \<and> cell_touches b j \<and> (free_step {..<256})\<^sup>*\<^sup>* i j)"
    by (elim exE conjE)
  have "\<not> visibility_between v FaceDown FaceUp" unfolding v(2) [rule_format] by (auto simp: cell_y_def div_eq_0_iff)
  moreover have "visibility_between v FaceNorth FaceWest"
    unfolding v(2) [rule_format]
    by (intro disjI2 exI [of _ 256] conjI rtranclp.rtrancl_refl) (simp_all add: cell_x_def cell_z_def)
  ultimately show ?thesis using v(1) by blast
qed

end
