(* ===== verification/PathSearch.thy ===== *)
theory PathSearch imports CorePos FloatBits "HOL-Library.Finite_Map" "HOL-Library.Product_Lexorder" "HOL-Library.Monad_Syntax"
begin

text \<open>
  The path search of the mobs and of the teleport preview: \<open>native/crates/mclone-path/src/lib.rs\<close>, a weighted A*
  with a limit on the nodes it visits and a range it does not walk beyond.  Costs and distances are \<open>f32\<close> bit patterns
  (\<open>FloatBits\<close>).  The records are a finite map; the heap is the list of its entries, and popping takes the greatest
  one in the order of the code.  The two closures of the caller are functions; every caller passes closures that
  only read.
\<close>

abbreviation (input) f32_one_and_a_half :: u32 where "f32_one_and_a_half \<equiv> 0x3FC00000"

record path_query =
  pq_start :: block_pos
  pq_target :: block_pos
  pq_follow_range :: u32
  pq_heuristic_weight :: u32

definition path_query_new :: "block_pos \<Rightarrow> block_pos \<Rightarrow> path_query" where
  "path_query_new start target = \<lparr>pq_start = start, pq_target = target, pq_follow_range = f32_infinity,
     pq_heuristic_weight = f32_one_and_a_half\<rparr>"

definition with_follow_range :: "path_query \<Rightarrow> u32 \<Rightarrow> path_query" where
  "with_follow_range q follow_range = q\<lparr>pq_follow_range := follow_range\<rparr>"

definition with_heuristic_weight :: "path_query \<Rightarrow> u32 \<Rightarrow> path_query" where
  "with_heuristic_weight q heuristic_weight = q\<lparr>pq_heuristic_weight := heuristic_weight\<rparr>"

record path_neighbor =
  pn_pos :: block_pos
  pn_cost :: u32

record path_diagnostics =
  pd_visited_nodes :: nat
  pd_opened_nodes :: nat
  pd_max_visited_nodes :: nat
  pd_best_heuristic :: u32

record path_result =
  pr_nodes :: "block_pos list"
  pr_target :: block_pos
  pr_reached :: bool
  pr_diagnostics :: path_diagnostics

record node_record =
  nr_pos :: block_pos
  nr_came_from :: "block_pos option"
  nr_g :: u32
  nr_f :: u32
  nr_walked_distance :: u32
  nr_closed :: bool

record target_record =
  tr_pos :: block_pos
  tr_best_heuristic :: u32
  tr_best_node :: block_pos
  tr_reached :: bool

definition target_record_new :: "block_pos \<Rightarrow> block_pos \<Rightarrow> u32 \<Rightarrow> target_record" where
  "target_record_new pos start start_heuristic =
     \<lparr>tr_pos = pos, tr_best_heuristic = start_heuristic, tr_best_node = start, tr_reached = False\<rparr>"

definition update_best :: "target_record \<Rightarrow> u32 \<Rightarrow> block_pos \<Rightarrow> target_record" where
  "update_best t heuristic node =
     (if f32_lt heuristic (tr_best_heuristic t) then t\<lparr>tr_best_heuristic := heuristic, tr_best_node := node\<rparr> else t)"

record open_entry =
  oe_pos :: block_pos
  oe_f :: u32
  oe_h :: u32
  oe_sequence :: nat

text \<open>
  \<open>OpenEntry::cmp\<close> compares the other entry with this one: the greatest entry is the one whose total cost comes
  first, then its heuristic, its sequence number and its position.
\<close>

definition open_entry_key :: "open_entry \<Rightarrow> int \<times> int \<times> nat \<times> int \<times> int \<times> int" where
  "open_entry_key e = (f32_total_key (oe_f e), f32_total_key (oe_h e), oe_sequence e,
     bp_x (oe_pos e), bp_y (oe_pos e), bp_z (oe_pos e))"

definition open_set_pop :: "open_entry list \<Rightarrow> (open_entry \<times> open_entry list) option" where
  "open_set_pop open_set = (if open_set = [] then None
     else let entry = arg_min_list open_entry_key open_set in Some (entry, remove1 entry open_set))"

definition path_distance :: "block_pos \<Rightarrow> block_pos \<Rightarrow> u32" where
  "path_distance first second =
     (let dx = f32_from_i32 (wrap_i32 (bp_x first - bp_x second));
          dy = f32_from_i32 (wrap_i32 (bp_y first - bp_y second));
          dz = f32_from_i32 (wrap_i32 (bp_z first - bp_z second)) in
      f32_sqrt (f32_add (f32_add (f32_mul dx dx) (f32_mul dy dy)) (f32_mul dz dz)))"

definition manhattan_distance :: "block_pos \<Rightarrow> block_pos \<Rightarrow> int" where
  "manhattan_distance first second =
     (let magnitude = \<lambda>d. wrap_i32 \<bar>wrap_i32 d\<bar> in
      wrap_i32 (wrap_i32 (magnitude (bp_x first - bp_x second) + magnitude (bp_y first - bp_y second))
        + magnitude (bp_z first - bp_z second)))"

section \<open>The search\<close>

record path_search_state =
  ps_target :: target_record
  ps_open :: "open_entry list"
  ps_records :: "(block_pos, node_record) fmap"
  ps_sequence :: nat
  ps_diagnostics :: path_diagnostics

text \<open>One turn of the inner loop; \<open>current\<close> is the copy of the record that was popped.\<close>

definition relax_neighbor :: "path_query \<Rightarrow> node_record \<Rightarrow> path_neighbor \<Rightarrow> path_search_state \<Rightarrow> path_search_state" where
  "relax_neighbor query current neighbor s =
     (let old = fmlookup (ps_records s) (pn_pos neighbor) in
      if (case old of None \<Rightarrow> False | Some record \<Rightarrow> nr_closed record) then s
      else let step_distance = path_distance (nr_pos current) (pn_pos neighbor);
               walked_distance = f32_add (nr_walked_distance current) step_distance in
      if f32_le (pq_follow_range query) walked_distance then s
      else let tentative_g = f32_add (f32_add (nr_g current) step_distance) (pn_cost neighbor) in
      if \<not> (case old of None \<Rightarrow> True | Some record \<Rightarrow> f32_lt tentative_g (nr_g record)) then s
      else let heuristic = path_distance (pn_pos neighbor) (tr_pos (ps_target s));
               target = update_best (ps_target s) heuristic (pn_pos neighbor);
               weighted_heuristic = f32_mul heuristic (pq_heuristic_weight query);
               f = f32_add tentative_g weighted_heuristic;
               records = fmupd (pn_pos neighbor)
                 \<lparr>nr_pos = pn_pos neighbor, nr_came_from = Some (nr_pos current), nr_g = tentative_g, nr_f = f,
                  nr_walked_distance = walked_distance, nr_closed = False\<rparr> (ps_records s);
               sequence = (ps_sequence s + 1) mod 2 ^ 64 in
      s\<lparr>ps_target := target, ps_records := records, ps_sequence := sequence,
        ps_open := \<lparr>oe_pos = pn_pos neighbor, oe_f = f, oe_h = weighted_heuristic, oe_sequence = sequence\<rparr> # ps_open s,
        ps_diagnostics := (ps_diagnostics s)\<lparr>pd_best_heuristic := tr_best_heuristic target,
          pd_opened_nodes := fcard (fmdom records)\<rparr>\<rparr>)"

text \<open>One turn of the outer loop: \<open>Inl\<close> where it breaks, \<open>Inr\<close> where it goes on.\<close>

definition search_turn :: "path_query \<Rightarrow> (block_pos \<Rightarrow> path_neighbor list) \<Rightarrow> (block_pos \<Rightarrow> block_pos \<Rightarrow> bool)
    \<Rightarrow> path_search_state \<Rightarrow> path_search_state + path_search_state" where
  "search_turn query neighbors accepts_target s =
     (if pd_max_visited_nodes (ps_diagnostics s) \<le> pd_visited_nodes (ps_diagnostics s) + 1 then Inl s
      else case open_set_pop (ps_open s) of None \<Rightarrow> Inl s
      | Some (entry, open_set) \<Rightarrow>
        (let s = s\<lparr>ps_open := open_set\<rparr> in
         case fmlookup (ps_records s) (oe_pos entry) of None \<Rightarrow> Inr s
         | Some current \<Rightarrow>
           if nr_closed current \<or> f32_lt (nr_f current) (oe_f entry) then Inr s
           else let records = fmupd (oe_pos entry) (current\<lparr>nr_closed := True\<rparr>) (ps_records s);
                    target = update_best (ps_target s) (path_distance (nr_pos current) (tr_pos (ps_target s))) (nr_pos current);
                    s = s\<lparr>ps_records := records, ps_target := target,
                      ps_diagnostics := (ps_diagnostics s)\<lparr>pd_visited_nodes := pd_visited_nodes (ps_diagnostics s) + 1,
                        pd_best_heuristic := tr_best_heuristic target\<rparr>\<rparr> in
           if accepts_target (nr_pos current) (tr_pos target)
           then Inl (s\<lparr>ps_target := target\<lparr>tr_reached := True, tr_best_node := nr_pos current\<rparr>\<rparr>)
           else if f32_le (pq_follow_range query) (path_distance (pq_start query) (nr_pos current)) then Inr s
           else Inr (fold (relax_neighbor query current) (neighbors (nr_pos current)) s)))"

definition search_measure :: "path_search_state \<Rightarrow> nat \<times> nat" where
  "search_measure s = (pd_max_visited_nodes (ps_diagnostics s) - pd_visited_nodes (ps_diagnostics s), length (ps_open s))"

lemma relax_keeps_visits:
  "pd_visited_nodes (ps_diagnostics (relax_neighbor query current neighbor s)) = pd_visited_nodes (ps_diagnostics s)
   \<and> pd_max_visited_nodes (ps_diagnostics (relax_neighbor query current neighbor s)) = pd_max_visited_nodes (ps_diagnostics s)"
  by (simp add: relax_neighbor_def Let_def)

lemma relax_all_keeps_visits:
  "pd_visited_nodes (ps_diagnostics (fold (relax_neighbor query current) ns s)) = pd_visited_nodes (ps_diagnostics s)
   \<and> pd_max_visited_nodes (ps_diagnostics (fold (relax_neighbor query current) ns s)) = pd_max_visited_nodes (ps_diagnostics s)"
  by (induction ns arbitrary: s) (auto simp: relax_keeps_visits)

lemma open_set_pop_some:
  assumes "open_set_pop es = Some (e, rest)"
  shows "e \<in> set es" "rest = remove1 e es" "length rest < length es"
proof -
  have ne: "es \<noteq> []" and e: "e = arg_min_list open_entry_key es" and rest: "rest = remove1 e es"
    using assms by (auto simp: open_set_pop_def Let_def split: if_splits)
  show mem: "e \<in> set es" unfolding e by (rule arg_min_list_in [OF ne])
  show "rest = remove1 e es" by (rule rest)
  show "length rest < length es" 
    using mem length_pos_if_in_set [OF mem] by (simp add: rest length_remove1)
qed

lemma search_turn_progress:
  assumes "search_turn query neighbors accepts_target s = Inr s'"
  shows "(search_measure s', search_measure s) \<in> less_than <*lex*> less_than"
  using assms
  by (auto simp: search_turn_def search_measure_def Let_def relax_all_keeps_visits open_set_pop_some
      split: if_splits option.splits prod.splits)

function search_loop :: "path_query \<Rightarrow> (block_pos \<Rightarrow> path_neighbor list) \<Rightarrow> (block_pos \<Rightarrow> block_pos \<Rightarrow> bool)
    \<Rightarrow> path_search_state \<Rightarrow> path_search_state" where
  "search_loop query neighbors accepts_target s =
     (case search_turn query neighbors accepts_target s of Inl s \<Rightarrow> s
      | Inr s \<Rightarrow> search_loop query neighbors accepts_target s)"
  by pat_completeness auto
termination
  by (relation "inv_image (less_than <*lex*> less_than) (\<lambda>(query, neighbors, accepts_target, s). search_measure s)")
    (auto intro: search_turn_progress)

declare search_loop.simps [simp del]

text \<open>
  \<open>reconstruct_path\<close> follows the records back: the outer option says whether its loop ends, the inner one is the
  result of the code, which is none where a record is missing.
\<close>

partial_function (option) reconstruct_back :: "(block_pos, node_record) fmap \<Rightarrow> block_pos \<Rightarrow> block_pos list \<Rightarrow> block_pos list option option" where
  "reconstruct_back records pos nodes =
     (case fmlookup records pos of None \<Rightarrow> Some None
      | Some record \<Rightarrow> (case nr_came_from record of None \<Rightarrow> Some (Some (rev nodes))
        | Some previous \<Rightarrow> reconstruct_back records previous (nodes @ [previous])))"

definition reconstruct_path :: "block_pos \<Rightarrow> (block_pos, node_record) fmap \<Rightarrow> block_pos list option option" where
  "reconstruct_path pos records = reconstruct_back records pos [pos]"

definition search_start :: "nat \<Rightarrow> path_query \<Rightarrow> path_search_state" where
  "search_start limit query =
     (let start_h = path_distance (pq_start query) (pq_target query) in
      \<lparr>ps_target = target_record_new (pq_target query) (pq_start query) start_h,
       ps_open = [\<lparr>oe_pos = pq_start query, oe_f = start_h, oe_h = start_h, oe_sequence = 0\<rparr>],
       ps_records = fmupd (pq_start query) \<lparr>nr_pos = pq_start query, nr_came_from = None, nr_g = 0, nr_f = start_h,
         nr_walked_distance = 0, nr_closed = False\<rparr> fmempty,
       ps_sequence = 0,
       ps_diagnostics = \<lparr>pd_visited_nodes = 0, pd_opened_nodes = 1, pd_max_visited_nodes = max limit 1,
         pd_best_heuristic = start_h\<rparr>\<rparr>)"

definition find_path :: "nat \<Rightarrow> path_query \<Rightarrow> (block_pos \<Rightarrow> path_neighbor list) \<Rightarrow> (block_pos \<Rightarrow> block_pos \<Rightarrow> bool)
    \<Rightarrow> path_result option" where
  "find_path limit query neighbors accepts_target =
     (let start = search_start limit query in
      if accepts_target (pq_start query) (pq_target query)
      then Some \<lparr>pr_nodes = [pq_start query], pr_target = pq_target query, pr_reached = True, pr_diagnostics = ps_diagnostics start\<rparr>
      else do {
        let s = search_loop query neighbors accepts_target start;
        found \<leftarrow> reconstruct_path (tr_best_node (ps_target s)) (ps_records s);
        let nodes = (case found of None \<Rightarrow> [pq_start query] | Some nodes \<Rightarrow> nodes);
        Some \<lparr>pr_nodes = nodes, pr_target = pq_target query, pr_reached = tr_reached (ps_target s), pr_diagnostics = ps_diagnostics s\<rparr> })"

end
