(* ===== verification/PathSearchRuns.thy ===== *)
theory PathSearchRuns imports PathSearch
begin

text \<open>
  What a path search finds.  The ghost of a run is the list of closed nodes in the order they were closed: a record
  points back to a node that was closed before, so following the records ends at the start.
\<close>

section \<open>Ways\<close>

fun way_steps :: "'a list \<Rightarrow> ('a \<times> 'a) list" where
  "way_steps (a # b # cs) = (a, b) # way_steps (b # cs)"
| "way_steps _ = []"

lemma way_steps_snoc: "ws \<noteq> [] \<Longrightarrow> way_steps (ws @ [p]) = way_steps ws @ [(last ws, p)]"
  by (induction ws rule: way_steps.induct) auto

definition path_way :: "(block_pos \<Rightarrow> path_neighbor list) \<Rightarrow> block_pos list \<Rightarrow> block_pos \<Rightarrow> block_pos \<Rightarrow> bool" where
  "path_way neighbors ws a b \<longleftrightarrow> ws \<noteq> [] \<and> hd ws = a \<and> last ws = b
     \<and> (\<forall>(x, y) \<in> set (way_steps ws). y \<in> pn_pos ` set (neighbors x))"

definition walked_along :: "block_pos list \<Rightarrow> u32" where
  "walked_along ws = foldl (\<lambda>w (a, b). f32_add w (path_distance a b)) 0 (way_steps ws)"

lemma path_way_single: "path_way neighbors [a] a a"
  by (simp add: path_way_def)

lemma path_way_snoc:
  assumes "path_way neighbors ws a b" "p \<in> pn_pos ` set (neighbors b)"
  shows "path_way neighbors (ws @ [p]) a p"
  using assms by (auto simp: path_way_def way_steps_snoc)

lemma walked_along_snoc:
  assumes "path_way neighbors ws a b"
  shows "walked_along (ws @ [p]) = f32_add (walked_along ws) (path_distance b p)"
  using assms by (auto simp: path_way_def way_steps_snoc walked_along_def)

lemma path_way_leaves:
  assumes "path_way neighbors ws a b" "a \<in> C" "b \<notin> C"
  shows "\<exists>q n. q \<in> C \<and> n \<in> set (neighbors q) \<and> pn_pos n \<notin> C"
  using assms
proof (induction ws arbitrary: a rule: way_steps.induct)
  case (1 x y ws)
  then have step: "y \<in> pn_pos ` set (neighbors a)" "x = a" and rest: "path_way neighbors (y # ws) y b"
    by (auto simp: path_way_def)
  show ?case
  proof (cases "y \<in> C")
    case True then show ?thesis using 1 rest by blast
  next
    case False then show ?thesis using step 1 by auto
  qed
qed (auto simp: path_way_def)

section \<open>Records\<close>

definition record_ok :: "path_query \<Rightarrow> (block_pos \<Rightarrow> path_neighbor list) \<Rightarrow> block_pos list
    \<Rightarrow> (block_pos, node_record) fmap \<Rightarrow> block_pos \<Rightarrow> node_record \<Rightarrow> bool" where
  "record_ok query neighbors ds R p r \<longleftrightarrow> nr_pos r = p \<and> nr_closed r = (p \<in> set ds) \<and> (case nr_came_from r of
      None \<Rightarrow> p = pq_start query \<and> nr_walked_distance r = 0
    | Some q \<Rightarrow> q \<in> set ds \<and> p \<in> pn_pos ` set (neighbors q)
        \<and> nr_walked_distance r = f32_add (nr_walked_distance (the (fmlookup R q))) (path_distance q p)
        \<and> (\<forall>i < length ds. p = ds ! i \<longrightarrow> q \<in> set (take i ds)))"

definition records_ok :: "path_query \<Rightarrow> (block_pos \<Rightarrow> path_neighbor list) \<Rightarrow> block_pos list
    \<Rightarrow> (block_pos, node_record) fmap \<Rightarrow> bool" where
  "records_ok query neighbors ds R \<longleftrightarrow> distinct ds \<and> set ds \<subseteq> fmdom' R
     \<and> (if ds = [] then fmdom' R = {pq_start query} else pq_start query \<in> set ds)
     \<and> (\<forall>p r. fmlookup R p = Some r \<longrightarrow> record_ok query neighbors ds R p r)"

lemma records_insert:
  assumes ok: "records_ok query neighbors ds R" and q: "q \<in> set ds" "p \<notin> set ds" "p \<in> pn_pos ` set (neighbors q)"
    and r: "nr_pos r = p" "nr_came_from r = Some q" "\<not> nr_closed r"
      "nr_walked_distance r = f32_add (nr_walked_distance (the (fmlookup R q))) (path_distance q p)"
  shows "records_ok query neighbors ds (fmupd p r R)"
proof -
  have same: "fmlookup (fmupd p r R) k = fmlookup R k" if "k \<in> set ds" for k using that q(2) by auto
  have "record_ok query neighbors ds (fmupd p r R) k x" if at: "fmlookup (fmupd p r R) k = Some x" for k x
  proof (cases "k = p")
    case True
    have "\<forall>i < length ds. p \<noteq> ds ! i" using q(2) nth_mem by blast
    then show ?thesis using True at q r same [OF q(1)] by (auto simp: record_ok_def)
  next
    case False
    then have "record_ok query neighbors ds R k x" using at ok by (simp add: records_ok_def)
    then show ?thesis using same q(2) by (auto simp: record_ok_def split: option.splits)
  qed
  moreover have "ds \<noteq> []" using q(1) by auto
  ultimately show ?thesis using ok by (auto simp: records_ok_def)
qed

lemma records_close:
  assumes ok: "records_ok query neighbors ds R" and r: "fmlookup R p = Some r" "\<not> nr_closed r"
  shows "records_ok query neighbors (ds @ [p]) (fmupd p (r\<lparr>nr_closed := True\<rparr>) R)"
proof -
  have here: "record_ok query neighbors ds R p r" using ok r(1) by (simp add: records_ok_def)
  then have new: "p \<notin> set ds" using r(2) by (simp add: record_ok_def)
  let ?R = "fmupd p (r\<lparr>nr_closed := True\<rparr>) R"
  have walked: "nr_walked_distance (the (fmlookup ?R k)) = nr_walked_distance (the (fmlookup R k))" for k
    using r(1) by auto
  have "record_ok query neighbors (ds @ [p]) ?R k x" if at: "fmlookup ?R k = Some x" for k x
  proof (cases "k = p")
    case True
    then have x: "x = r\<lparr>nr_closed := True\<rparr>" using at by simp
    show ?thesis
      using here new True unfolding x by (auto simp: record_ok_def walked nth_append split: option.splits)
  next
    case False
    then have "record_ok query neighbors ds R k x" using at ok by (simp add: records_ok_def)
    then show ?thesis using False new r(1) by (auto simp: record_ok_def nth_append split: option.splits)
  qed
  moreover have "p = pq_start query" if "ds = []" using ok r(1) that by (auto simp: records_ok_def intro: fmdom'I)
  ultimately show ?thesis using ok new by (cases "ds = []") (auto simp: records_ok_def)
qed

lemma way_end: "path_way neighbors ws a q \<Longrightarrow> butlast ws @ q # rest = ws @ rest"
  by (induction ws rule: rev_induct) (auto simp: path_way_def)

lemma closed_way:
  assumes ok: "records_ok query neighbors ds R" and i: "i < length ds"
  shows "\<exists>ws. path_way neighbors ws (pq_start query) (ds ! i) \<and> distinct ws \<and> set ws \<subseteq> set (take (Suc i) ds)
    \<and> nr_walked_distance (the (fmlookup R (ds ! i))) = walked_along ws
    \<and> (\<forall>nodes. reconstruct_back R (ds ! i) nodes = Some (Some (butlast ws @ rev nodes)))"
  using i
proof (induction i rule: less_induct)
  case (less i)
  have "ds ! i \<in> fmdom' R" using ok less.prems by (auto simp: records_ok_def)
  then obtain r where r: "fmlookup R (ds ! i) = Some r" by (auto simp: fmlookup_dom'_iff)
  then have here: "record_ok query neighbors ds R (ds ! i) r" using ok by (simp add: records_ok_def)
  show ?case
  proof (cases "nr_came_from r")
    case None
    then have "ds ! i = pq_start query" "nr_walked_distance r = 0" using here by (auto simp: record_ok_def)
    moreover have "reconstruct_back R (ds ! i) nodes = Some (Some (rev nodes))" for nodes
      using r None by (subst reconstruct_back.simps) simp
    moreover have "ds ! i \<in> set (take (Suc i) ds)" using less.prems by (simp add: take_Suc_conv_app_nth)
    ultimately show ?thesis
      using r by (intro exI [of _ "[ds ! i]"]) (auto simp: path_way_single walked_along_def)
  next
    case (Some q)
    then have q: "q \<in> set (take i ds)" "ds ! i \<in> pn_pos ` set (neighbors q)"
      "nr_walked_distance r = f32_add (nr_walked_distance (the (fmlookup R q))) (path_distance q (ds ! i))"
      using here less.prems by (auto simp: record_ok_def)
    then obtain j where j: "j < i" "q = ds ! j" using less.prems by (auto simp: in_set_conv_nth)
    obtain ws where ws: "path_way neighbors ws (pq_start query) q" "distinct ws" "set ws \<subseteq> set (take (Suc j) ds)"
        "nr_walked_distance (the (fmlookup R q)) = walked_along ws"
        "\<And>nodes. reconstruct_back R q nodes = Some (Some (butlast ws @ rev nodes))"
      using less.IH [OF j(1)] j less.prems by auto
    have sub: "set ws \<subseteq> set (take i ds)" using ws(3) set_take_subset_set_take [of "Suc j" i ds] j(1) by (simp add: subset_trans Suc_leI)
    have fresh: "ds ! i \<notin> set (take i ds)"
      using ok less.prems by (auto simp: records_ok_def in_set_conv_nth nth_eq_iff_index_eq)
    have traced: "reconstruct_back R (ds ! i) nodes = Some (Some (ws @ rev nodes))" for nodes
      using r Some ws(5) [of "nodes @ [q]"] by (subst reconstruct_back.simps) (simp add: way_end [OF ws(1)])
    show ?thesis
    proof (intro exI [of _ "ws @ [ds ! i]"] conjI allI)
      show "path_way neighbors (ws @ [ds ! i]) (pq_start query) (ds ! i)" by (rule path_way_snoc [OF ws(1) q(2)])
      show "distinct (ws @ [ds ! i])" using ws(2) sub fresh by auto
      show "set (ws @ [ds ! i]) \<subseteq> set (take (Suc i) ds)" using sub less.prems by (auto simp: take_Suc_conv_app_nth)
      show "nr_walked_distance (the (fmlookup R (ds ! i))) = walked_along (ws @ [ds ! i])"
        using r q(3) ws(4) walked_along_snoc [OF ws(1)] by simp
      show "reconstruct_back R (ds ! i) nodes = Some (Some (butlast (ws @ [ds ! i]) @ rev nodes))" for nodes
        using traced by simp
    qed
  qed
qed

lemma record_way:
  assumes ok: "records_ok query neighbors ds R" and r: "fmlookup R p = Some r"
  shows "\<exists>ws. path_way neighbors ws (pq_start query) p \<and> distinct ws \<and> length ws \<le> length ds + 1
    \<and> reconstruct_path p R = Some (Some ws)"
proof -
  have dist: "distinct ds" using ok by (simp add: records_ok_def)
  have here: "record_ok query neighbors ds R p r" using ok r by (simp add: records_ok_def)
  have small: "length ws \<le> length ds" if "distinct ws" "set ws \<subseteq> set ds" for ws
    using that dist card_mono [of "set ds" "set ws"] by (simp add: distinct_card)
  have closed: "\<exists>ws. path_way neighbors ws (pq_start query) q \<and> distinct ws \<and> set ws \<subseteq> set ds
      \<and> (\<forall>nodes. reconstruct_back R q nodes = Some (Some (butlast ws @ rev nodes)))" if mem: "q \<in> set ds" for q
  proof -
    obtain i where i: "i < length ds" "q = ds ! i" using mem by (auto simp: in_set_conv_nth)
    from closed_way [OF ok i(1)] obtain ws where "path_way neighbors ws (pq_start query) q" "distinct ws"
        "set ws \<subseteq> set (take (Suc i) ds)" "\<forall>nodes. reconstruct_back R q nodes = Some (Some (butlast ws @ rev nodes))"
      unfolding i(2) by (elim exE conjE)
    then show ?thesis using set_take_subset [of "Suc i" ds] by (intro exI [of _ ws]) (auto simp del: take_Suc_conv_app_nth)
  qed
  show ?thesis
  proof (cases "p \<in> set ds")
    case True
    then obtain ws where "path_way neighbors ws (pq_start query) p" "distinct ws" "set ws \<subseteq> set ds"
      "\<And>nodes. reconstruct_back R p nodes = Some (Some (butlast ws @ rev nodes))" using closed by blast
    then show ?thesis
      using small by (intro exI [of _ ws]) (auto simp: reconstruct_path_def way_end intro: le_SucI)
  next
    case outside: False
    show ?thesis
    proof (cases "nr_came_from r")
      case None
      then have "p = pq_start query" using here by (simp add: record_ok_def)
      moreover have "reconstruct_path p R = Some (Some [p])"
        using r None unfolding reconstruct_path_def by (subst reconstruct_back.simps) simp
      ultimately show ?thesis by (intro exI [of _ "[p]"]) (auto simp: path_way_single)
    next
      case (Some q)
      then have q: "q \<in> set ds" "p \<in> pn_pos ` set (neighbors q)" using here by (auto simp: record_ok_def)
      then obtain ws where ws: "path_way neighbors ws (pq_start query) q" "distinct ws" "set ws \<subseteq> set ds"
        "\<And>nodes. reconstruct_back R q nodes = Some (Some (butlast ws @ rev nodes))" using closed by blast
      have "reconstruct_path p R = Some (Some (ws @ [p]))"
        using r Some ws(4) unfolding reconstruct_path_def
        by (subst reconstruct_back.simps) (simp add: way_end [OF ws(1)])
      then show ?thesis
        using path_way_snoc [OF ws(1) q(2)] ws(2,3) outside small by (intro exI [of _ "ws @ [p]"]) auto
    qed
  qed
qed

section \<open>A turn of the search\<close>

text \<open>The range cuts off the step from \<open>q\<close> to \<open>p\<close>.\<close>

definition out_of_range :: "path_query \<Rightarrow> (block_pos, node_record) fmap \<Rightarrow> block_pos \<Rightarrow> block_pos \<Rightarrow> bool" where
  "out_of_range query R q p \<longleftrightarrow> f32_le (pq_follow_range query) (path_distance (pq_start query) q)
     \<or> f32_le (pq_follow_range query) (f32_add (nr_walked_distance (the (fmlookup R q))) (path_distance q p))"

definition search_core :: "path_query \<Rightarrow> (block_pos \<Rightarrow> path_neighbor list) \<Rightarrow> block_pos list \<Rightarrow> path_search_state \<Rightarrow> bool" where
  "search_core query neighbors ds s \<longleftrightarrow> records_ok query neighbors ds (ps_records s)
     \<and> tr_best_node (ps_target s) \<in> fmdom' (ps_records s) \<and> tr_pos (ps_target s) = pq_target query
     \<and> (\<forall>p r. fmlookup (ps_records s) p = Some r \<and> \<not> nr_closed r \<longrightarrow> (\<exists>e \<in> set (ps_open s). oe_pos e = p \<and> oe_f e = nr_f r))"

definition search_settled :: "path_query \<Rightarrow> (block_pos \<Rightarrow> path_neighbor list) \<Rightarrow> block_pos list \<Rightarrow> path_search_state \<Rightarrow> bool" where
  "search_settled query neighbors ds s \<longleftrightarrow> (\<forall>q \<in> set ds. \<forall>n \<in> set (neighbors q).
     pn_pos n \<in> fmdom' (ps_records s) \<or> out_of_range query (ps_records s) q (pn_pos n))"

definition search_inv :: "path_query \<Rightarrow> (block_pos \<Rightarrow> path_neighbor list) \<Rightarrow> (block_pos \<Rightarrow> block_pos \<Rightarrow> bool)
    \<Rightarrow> block_pos list \<Rightarrow> path_search_state \<Rightarrow> bool" where
  "search_inv query neighbors accepts ds s \<longleftrightarrow> search_core query neighbors ds s
     \<and> pd_visited_nodes (ps_diagnostics s) = length ds \<and> length ds < pd_max_visited_nodes (ps_diagnostics s)
     \<and> \<not> tr_reached (ps_target s) \<and> (\<forall>q \<in> set ds. \<not> accepts q (pq_target query)) \<and> search_settled query neighbors ds s"

lemma update_best_node: "tr_best_node (update_best t h p) \<in> {tr_best_node t, p}"
  by (simp add: update_best_def)

lemma update_best_keeps [simp]: "tr_pos (update_best t h p) = tr_pos t" "tr_reached (update_best t h p) = tr_reached t"
  by (simp_all add: update_best_def)

text \<open>Relaxing keeps what is closed and settles the neighbour.\<close>

lemma relax_neighbor_spec:
  assumes core: "search_core query neighbors ds s" and q: "nr_pos current = q" "q \<in> set ds"
    and walked: "nr_walked_distance current = nr_walked_distance (the (fmlookup (ps_records s) q))"
    and n: "n \<in> set (neighbors q)"
    and s': "s' = relax_neighbor query current n s"
  shows "search_core query neighbors ds s'" "tr_reached (ps_target s') = tr_reached (ps_target s)"
    "fmdom' (ps_records s) \<subseteq> fmdom' (ps_records s')"
    "\<And>p. p \<in> set ds \<Longrightarrow> fmlookup (ps_records s') p = fmlookup (ps_records s) p"
    "pn_pos n \<in> fmdom' (ps_records s') \<or> out_of_range query (ps_records s') q (pn_pos n)"
proof -
  let ?R = "ps_records s"
  let ?p = "pn_pos n"
  have ok: "records_ok query neighbors ds ?R" using core by (simp add: search_core_def)
  let ?closed = "case fmlookup ?R ?p of None \<Rightarrow> False | Some record \<Rightarrow> nr_closed record"
  let ?far = "f32_le (pq_follow_range query) (f32_add (nr_walked_distance current) (path_distance q ?p))"
  let ?worse = "\<not> (case fmlookup ?R ?p of None \<Rightarrow> True | Some record \<Rightarrow>
    f32_lt (f32_add (f32_add (nr_g current) (path_distance q ?p)) (pn_cost n)) (nr_g record))"
  have "search_core query neighbors ds s' \<and> tr_reached (ps_target s') = tr_reached (ps_target s)
    \<and> fmdom' ?R \<subseteq> fmdom' (ps_records s') \<and> (\<forall>p \<in> set ds. fmlookup (ps_records s') p = fmlookup ?R p)
    \<and> (?p \<in> fmdom' (ps_records s') \<or> out_of_range query (ps_records s') q ?p)"
  proof (cases "?closed \<or> ?far \<or> ?worse")
    case True
    then have "s' = s" unfolding s' relax_neighbor_def Let_def q(1) by auto
    moreover have "?p \<in> fmdom' ?R \<or> out_of_range query ?R q ?p"
      using True walked by (auto simp: out_of_range_def fmlookup_dom'_iff split: option.splits)
    ultimately show ?thesis using core by simp
  next
    case False
    let ?h = "path_distance ?p (tr_pos (ps_target s))"
    let ?g = "f32_add (f32_add (nr_g current) (path_distance q ?p)) (pn_cost n)"
    let ?w = "f32_mul ?h (pq_heuristic_weight query)"
    let ?r = "\<lparr>nr_pos = ?p, nr_came_from = Some q, nr_g = ?g, nr_f = f32_add ?g ?w,
      nr_walked_distance = f32_add (nr_walked_distance current) (path_distance q ?p), nr_closed = False\<rparr>"
    let ?t = "update_best (ps_target s) ?h ?p"
    let ?k = "(ps_sequence s + 1) mod 2 ^ 64"
    have s_eq: "ps_records s' = fmupd ?p ?r ?R" "ps_target s' = ?t"
      "ps_open s' = \<lparr>oe_pos = ?p, oe_f = f32_add ?g ?w, oe_h = ?w, oe_sequence = ?k\<rparr> # ps_open s"
      using False unfolding s' relax_neighbor_def Let_def q(1) by auto
    have fresh: "?p \<notin> set ds"
    proof
      assume "?p \<in> set ds"
      then obtain r where "fmlookup ?R ?p = Some r" "nr_closed r"
        using ok by (fastforce simp: records_ok_def record_ok_def fmlookup_dom'_iff)
      then show False using False by simp
    qed
    have "records_ok query neighbors ds (fmupd ?p ?r ?R)"
      by (rule records_insert [OF ok q(2) fresh]) (use n walked in auto)
    moreover have "tr_best_node ?t \<in> insert ?p (fmdom' ?R)"
      using core update_best_node [of "ps_target s" ?h ?p] by (auto simp: search_core_def)
    ultimately have "search_core query neighbors ds s'"
      using core by (auto simp: search_core_def s_eq)
    then show ?thesis using fresh by (auto simp: s_eq)
  qed
  then show "search_core query neighbors ds s'" "tr_reached (ps_target s') = tr_reached (ps_target s)"
    "fmdom' (ps_records s) \<subseteq> fmdom' (ps_records s')"
    "\<And>p. p \<in> set ds \<Longrightarrow> fmlookup (ps_records s') p = fmlookup (ps_records s) p"
    "pn_pos n \<in> fmdom' (ps_records s') \<or> out_of_range query (ps_records s') q (pn_pos n)" by blast+
qed

lemma relax_all_spec:
  assumes "search_core query neighbors ds s" and q: "nr_pos current = q" "q \<in> set ds"
    and "nr_walked_distance current = nr_walked_distance (the (fmlookup (ps_records s) q))"
    and "set ns \<subseteq> set (neighbors q)"
  shows "search_core query neighbors ds (fold (relax_neighbor query current) ns s)
    \<and> tr_reached (ps_target (fold (relax_neighbor query current) ns s)) = tr_reached (ps_target s)
    \<and> fmdom' (ps_records s) \<subseteq> fmdom' (ps_records (fold (relax_neighbor query current) ns s))
    \<and> (\<forall>p \<in> set ds. fmlookup (ps_records (fold (relax_neighbor query current) ns s)) p = fmlookup (ps_records s) p)
    \<and> (\<forall>n \<in> set ns. pn_pos n \<in> fmdom' (ps_records (fold (relax_neighbor query current) ns s))
        \<or> out_of_range query (ps_records (fold (relax_neighbor query current) ns s)) q (pn_pos n))"
  using assms(1,4,5)
proof (induction ns arbitrary: s)
  case Nil
  then show ?case by simp
next
  case (Cons n ns)
  let ?s = "relax_neighbor query current n s"
  have n: "n \<in> set (neighbors q)" and ns: "set ns \<subseteq> set (neighbors q)" using Cons.prems(3) by auto
  note step = relax_neighbor_spec [OF Cons.prems(1) q Cons.prems(2) n refl]
  have "nr_walked_distance current = nr_walked_distance (the (fmlookup (ps_records ?s) q))"
    using Cons.prems(2) step(4) [OF q(2)] by simp
  note rest = Cons.IH [OF step(1) this ns]
  let ?e = "fold (relax_neighbor query current) ns ?s"
  have "fmlookup (ps_records ?e) q = fmlookup (ps_records ?s) q" using rest q(2) by blast
  then have "pn_pos n \<in> fmdom' (ps_records ?e) \<or> out_of_range query (ps_records ?e) q (pn_pos n)"
    using step(5) rest by (auto simp: out_of_range_def)
  then show ?case using rest step by auto
qed

lemma relax_all_settles:
  assumes core: "search_core query neighbors (ds @ [q]) s" and settled: "search_settled query neighbors ds s"
    and current: "nr_pos current = q" "nr_walked_distance current = nr_walked_distance (the (fmlookup (ps_records s) q))"
    and e: "e = fold (relax_neighbor query current) (neighbors q) s"
  shows "search_core query neighbors (ds @ [q]) e" "search_settled query neighbors (ds @ [q]) e"
    "tr_reached (ps_target e) = tr_reached (ps_target s)"
proof -
  have q: "q \<in> set (ds @ [q])" by simp
  note all = relax_all_spec [OF core current(1) q current(2) subset_refl, folded e]
  show "search_core query neighbors (ds @ [q]) e" "tr_reached (ps_target e) = tr_reached (ps_target s)" using all by auto
  show "search_settled query neighbors (ds @ [q]) e"
    unfolding search_settled_def
  proof (intro ballI)
    fix k n assume kn: "k \<in> set (ds @ [q])" "n \<in> set (neighbors k)"
    show "pn_pos n \<in> fmdom' (ps_records e) \<or> out_of_range query (ps_records e) k (pn_pos n)"
    proof (cases "k = q")
      case True then show ?thesis using all kn(2) by blast
    next
      case False
      then have k: "k \<in> set ds" using kn(1) by simp
      then have "fmlookup (ps_records e) k = fmlookup (ps_records s) k" using all by simp
      then have "out_of_range query (ps_records e) k (pn_pos n) = out_of_range query (ps_records s) k (pn_pos n)"
        by (simp add: out_of_range_def)
      then show ?thesis using settled k kn(2) all unfolding search_settled_def by blast
    qed
  qed
qed

definition search_over :: "path_query \<Rightarrow> (block_pos \<Rightarrow> path_neighbor list) \<Rightarrow> (block_pos \<Rightarrow> block_pos \<Rightarrow> bool)
    \<Rightarrow> block_pos list \<Rightarrow> path_search_state \<Rightarrow> bool" where
  "search_over query neighbors accepts ds s \<longleftrightarrow> records_ok query neighbors ds (ps_records s)
     \<and> tr_best_node (ps_target s) \<in> fmdom' (ps_records s)
     \<and> pd_visited_nodes (ps_diagnostics s) = length ds \<and> length ds < pd_max_visited_nodes (ps_diagnostics s)
     \<and> (if tr_reached (ps_target s) then accepts (tr_best_node (ps_target s)) (pq_target query)
        else pd_visited_nodes (ps_diagnostics s) + 1 < pd_max_visited_nodes (ps_diagnostics s) \<longrightarrow>
          search_inv query neighbors accepts ds s \<and> fmdom' (ps_records s) = set ds)"

lemma popped_entry_stale:
  assumes core: "search_core query neighbors ds s" and pop: "open_set_pop (ps_open s) = Some (entry, rest)"
    and stale: "\<forall>r. fmlookup (ps_records s) (oe_pos entry) = Some r \<longrightarrow> nr_closed r \<or> f32_lt (nr_f r) (oe_f entry)"
  shows "search_core query neighbors ds (s\<lparr>ps_open := rest\<rparr>)"
proof -
  note rest = open_set_pop_some(2) [OF pop]
  have "\<exists>e \<in> set rest. oe_pos e = p \<and> oe_f e = nr_f r" if r: "fmlookup (ps_records s) p = Some r" "\<not> nr_closed r" for p r
  proof -
    obtain e where e: "e \<in> set (ps_open s)" "oe_pos e = p" "oe_f e = nr_f r" using core r unfolding search_core_def by blast
    have "e \<noteq> entry" using stale e r by auto
    then show ?thesis using e by (auto simp: rest in_set_remove1)
  qed
  then show ?thesis using core by (simp add: search_core_def)
qed

lemma popped_entry_closes:
  assumes core: "search_core query neighbors ds s" and pop: "open_set_pop (ps_open s) = Some (entry, rest)"
    and r: "fmlookup (ps_records s) (oe_pos entry) = Some r" "\<not> nr_closed r"
    and t: "tr_best_node t \<in> {tr_best_node (ps_target s), oe_pos entry}" "tr_pos t = tr_pos (ps_target s)"
  shows "search_core query neighbors (ds @ [oe_pos entry])
    (s\<lparr>ps_open := rest, ps_records := fmupd (oe_pos entry) (r\<lparr>nr_closed := True\<rparr>) (ps_records s), ps_target := t, ps_diagnostics := d\<rparr>)"
proof -
  let ?R = "fmupd (oe_pos entry) (r\<lparr>nr_closed := True\<rparr>) (ps_records s)"
  note rest = open_set_pop_some(2) [OF pop]
  have "\<exists>e \<in> set rest. oe_pos e = p \<and> oe_f e = nr_f x" if x: "fmlookup ?R p = Some x" "\<not> nr_closed x" for p x
  proof -
    have p: "p \<noteq> oe_pos entry" "fmlookup (ps_records s) p = Some x" using x by (auto split: if_splits)
    obtain e where e: "e \<in> set (ps_open s)" "oe_pos e = p" "oe_f e = nr_f x" using core p x(2) unfolding search_core_def by blast
    then have "e \<noteq> entry" using p by auto
    then have "e \<in> set rest" using e(1) by (simp add: rest in_set_remove1)
    then show ?thesis using e by blast
  qed
  moreover have "records_ok query neighbors (ds @ [oe_pos entry]) ?R"
    using records_close [OF _ r] core by (simp add: search_core_def)
  ultimately show ?thesis using core t by (auto simp: search_core_def)
qed

lemma search_turn_spec:
  assumes inv: "search_inv query neighbors accepts ds s"
  shows "case search_turn query neighbors accepts s of
      Inl s' \<Rightarrow> \<exists>ds'. search_over query neighbors accepts ds' s' | Inr s' \<Rightarrow> \<exists>ds'. search_inv query neighbors accepts ds' s'"
proof -
  let ?d = "ps_diagnostics s"
  have core: "search_core query neighbors ds s" and ok: "records_ok query neighbors ds (ps_records s)"
    using inv by (simp_all add: search_inv_def search_core_def)
  show ?thesis
  proof (cases "pd_max_visited_nodes ?d \<le> pd_visited_nodes ?d + 1")
    case True
    then have "search_over query neighbors accepts ds s"
      using inv by (auto simp: search_over_def search_inv_def search_core_def)
    then show ?thesis using True by (auto simp: search_turn_def)
  next
    case room: False
    show ?thesis
    proof (cases "open_set_pop (ps_open s)")
      case None
      then have none: "ps_open s = []" by (simp add: open_set_pop_def Let_def split: if_splits)
      have "nr_closed r" if "fmlookup (ps_records s) p = Some r" for p r
        using core that none unfolding search_core_def by fastforce
      then have "fmdom' (ps_records s) \<subseteq> set ds"
        using ok by (fastforce simp: records_ok_def record_ok_def fmlookup_dom'_iff)
      then have "search_over query neighbors accepts ds s"
        using inv ok by (auto simp: search_over_def search_inv_def search_core_def records_ok_def)
      then show ?thesis using room None by (auto simp: search_turn_def)
    next
      case (Some popped)
      obtain entry rest where pop: "open_set_pop (ps_open s) = Some (entry, rest)" using Some by (cases popped) simp
      let ?p = "oe_pos entry"
      show ?thesis
      proof (cases "\<exists>r. fmlookup (ps_records s) ?p = Some r \<and> \<not> nr_closed r \<and> \<not> f32_lt (nr_f r) (oe_f entry)")
        case False
        then have "search_turn query neighbors accepts s = Inr (s\<lparr>ps_open := rest\<rparr>)"
          using room pop by (auto simp: search_turn_def Let_def split: option.splits)
        moreover have "search_core query neighbors ds (s\<lparr>ps_open := rest\<rparr>)"
          by (rule popped_entry_stale [OF core pop]) (use False in blast)
        moreover have "search_inv query neighbors accepts ds (s\<lparr>ps_open := rest\<rparr>)"
          using inv calculation(2) by (simp add: search_inv_def search_settled_def)
        ultimately show ?thesis by auto
      next
        case True
        then obtain r where r: "fmlookup (ps_records s) ?p = Some r" "\<not> nr_closed r" "\<not> f32_lt (nr_f r) (oe_f entry)" by blast
        have pos: "nr_pos r = ?p" using ok r(1) by (simp add: records_ok_def record_ok_def)
        let ?t = "update_best (ps_target s) (path_distance ?p (tr_pos (ps_target s))) ?p"
        let ?s = "s\<lparr>ps_open := rest, ps_records := fmupd ?p (r\<lparr>nr_closed := True\<rparr>) (ps_records s), ps_target := ?t,
          ps_diagnostics := ?d\<lparr>pd_visited_nodes := pd_visited_nodes ?d + 1, pd_best_heuristic := tr_best_heuristic ?t\<rparr>\<rparr>"
        let ?ds = "ds @ [?p]"
        have core': "search_core query neighbors ?ds ?s"
          by (rule popped_entry_closes [OF core pop r(1,2)]) (use update_best_node in auto)
        have tp: "tr_pos (ps_target s) = pq_target query" using core by (simp add: search_core_def)
        have visits: "pd_visited_nodes ?d = length ds" "length ?ds < pd_max_visited_nodes ?d"
          using inv room by (simp_all add: search_inv_def)
        have turn: "search_turn query neighbors accepts s =
          (if accepts ?p (pq_target query) then Inl (?s\<lparr>ps_target := ?t\<lparr>tr_reached := True, tr_best_node := ?p\<rparr>\<rparr>)
           else if f32_le (pq_follow_range query) (path_distance (pq_start query) ?p) then Inr ?s
           else Inr (fold (relax_neighbor query r) (neighbors ?p) ?s))"
          using room pop r pos tp by (simp add: search_turn_def Let_def)
        have old: "nr_walked_distance (the (fmlookup (ps_records ?s) q)) = nr_walked_distance (the (fmlookup (ps_records s) q))" for q
          using r(1) by auto
        have settled: "search_settled query neighbors ds ?s"
          using inv unfolding search_inv_def search_settled_def out_of_range_def old by auto
        have quiet: "\<not> tr_reached (ps_target ?s)" and rejected: "\<forall>q \<in> set ds. \<not> accepts q (pq_target query)"
          using inv by (simp_all add: search_inv_def)
        show ?thesis
        proof (cases "accepts ?p (pq_target query)")
          case True
          then have "search_over query neighbors accepts ?ds (?s\<lparr>ps_target := ?t\<lparr>tr_reached := True, tr_best_node := ?p\<rparr>\<rparr>)"
            using core' visits by (auto simp: search_over_def search_core_def)
          then show ?thesis using turn True by auto
        next
          case no: False
          show ?thesis
          proof (cases "f32_le (pq_follow_range query) (path_distance (pq_start query) ?p)")
            case True
            then have "search_settled query neighbors ?ds ?s"
              using settled by (auto simp: search_settled_def out_of_range_def)
            then have "search_inv query neighbors accepts ?ds ?s"
              using core' visits rejected quiet no by (simp add: search_inv_def)
            then show ?thesis using turn no True by auto
          next
            case False
            define e where "e = fold (relax_neighbor query r) (neighbors ?p) ?s"
            have walked: "nr_walked_distance r = nr_walked_distance (the (fmlookup (ps_records ?s) ?p))" by simp
            note all = relax_all_settles [OF core' settled pos walked e_def]
            have "pd_visited_nodes (ps_diagnostics e) = length ?ds" "pd_max_visited_nodes (ps_diagnostics e) = pd_max_visited_nodes ?d"
              using visits(1) by (simp_all add: e_def relax_all_keeps_visits)
            then have "search_inv query neighbors accepts ?ds e"
              using all visits(2) rejected quiet no by (simp add: search_inv_def)
            then show ?thesis using turn no False by (auto simp: e_def)
          qed
        qed
      qed
    qed
  qed
qed

lemma search_loop_spec:
  assumes "search_inv query neighbors accepts ds s"
  shows "\<exists>ds'. search_over query neighbors accepts ds' (search_loop query neighbors accepts s)"
  using assms
proof (induction query neighbors accepts s arbitrary: ds rule: search_loop.induct)
  case (1 query neighbors accepts s)
  show ?case
    using search_turn_spec [OF 1(2)] 1(1) by (subst search_loop.simps) (auto split: sum.splits)
qed

lemma search_loop_limit:
  "pd_max_visited_nodes (ps_diagnostics (search_loop query neighbors accepts s)) = pd_max_visited_nodes (ps_diagnostics s)"
proof (induction query neighbors accepts s rule: search_loop.induct)
  case (1 query neighbors accepts s)
  have "pd_max_visited_nodes (ps_diagnostics s') = pd_max_visited_nodes (ps_diagnostics s)"
    if "search_turn query neighbors accepts s = Inl s' \<or> search_turn query neighbors accepts s = Inr s'" for s'
    using that by (auto simp: search_turn_def Let_def relax_all_keeps_visits split: if_splits option.splits prod.splits)
  then show ?case using 1 by (subst search_loop.simps) (auto split: sum.splits)
qed

lemma search_start_inv: "search_inv query neighbors accepts [] (search_start limit query)"
  by (auto simp: search_inv_def search_settled_def search_core_def search_start_def Let_def records_ok_def record_ok_def target_record_new_def
      split: if_splits)

section \<open>Arithmetic on small inputs\<close>

lemma bit_length_numeral:
  "bit_length 0 = 0" "bit_length (Suc 0) = 1" "bit_length (numeral n) = Suc (bit_length (numeral n div 2))"
  by (simp_all add: bit_length.simps)

lemmas f32_eval = f32_from_i32_def f32_mul_def f32_add_def f32_sqrt_def f32_is_nan_def f32_is_finite_def f32_is_infinite_def
  f32_magnitude_def f32_signed_def f32_encode_def f32_round_def round_half_even_def bit_length_numeral Let_def

lemma distance_zero: "path_distance p p = 0"
proof -
  have "f32_from_i32 0 = 0" "f32_mul 0 0 = 0" "f32_add 0 0 = 0" "f32_sqrt 0 = 0" by (simp_all add: f32_eval)
  then show ?thesis by (simp add: path_distance_def Let_def wrap_i32_def)
qed

lemma distance_one: "path_distance (BlockPos 0 0 0) (BlockPos 1 0 0) = 0x3F800000"
proof -
  have "f32_from_i32 (- 1) = 0xBF800000" "f32_from_i32 0 = 0" "f32_mul 0 0 = 0" by (simp_all add: f32_eval)
  moreover have "f32_mul 0xBF800000 0xBF800000 = 0x3F800000" by (simp add: f32_eval)
  moreover have "f32_add 0x3F800000 0 = 0x3F800000" by (simp add: f32_eval)
  moreover have "nat_sqrt (2 ^ 298) = 2 ^ 149" by (simp add: nat_sqrt.simps Let_def)
  then have "f32_sqrt 0x3F800000 = 0x3F800000" by (simp add: f32_eval)
  moreover have "wrap_i32 (- 1) = - 1" "wrap_i32 0 = 0" by (simp_all add: wrap_i32_def)
  ultimately show ?thesis by (simp only: path_distance_def Let_def block_pos.sel diff_0 diff_self)
qed

section \<open>What is found\<close>

text \<open>The outcome of a search that had to run.\<close>

lemma find_path_outcome:
  assumes "\<not> accepts (pq_start query) (pq_target query)"
  shows "\<exists>ds s ws. search_over query neighbors accepts ds s \<and> pd_max_visited_nodes (ps_diagnostics s) = max limit 1
    \<and> path_way neighbors ws (pq_start query) (tr_best_node (ps_target s)) \<and> distinct ws \<and> length ws \<le> length ds + 1
    \<and> find_path limit query neighbors accepts = Some \<lparr>pr_nodes = ws, pr_target = pq_target query,
        pr_reached = tr_reached (ps_target s), pr_diagnostics = ps_diagnostics s\<rparr>"
proof -
  let ?s = "search_loop query neighbors accepts (search_start limit query)"
  obtain ds where over: "search_over query neighbors accepts ds ?s"
    using search_loop_spec [OF search_start_inv] by blast
  then obtain r where "fmlookup (ps_records ?s) (tr_best_node (ps_target ?s)) = Some r" "records_ok query neighbors ds (ps_records ?s)"
    by (auto simp: search_over_def fmlookup_dom'_iff)
  then obtain ws where ws: "path_way neighbors ws (pq_start query) (tr_best_node (ps_target ?s))" "distinct ws"
      "length ws \<le> length ds + 1" "reconstruct_path (tr_best_node (ps_target ?s)) (ps_records ?s) = Some (Some ws)"
    using record_way by blast
  have "pd_max_visited_nodes (ps_diagnostics ?s) = max limit 1"
    by (simp add: search_loop_limit search_start_def Let_def)
  then show ?thesis using over ws assms by (intro exI [of _ ds] exI [of _ ?s] exI [of _ ws]) (simp add: find_path_def Let_def)
qed

text \<open>C7: a path search always returns a path.  Whatever the world around, the limit, the costs and the target test,
  the search ends without a panic; its nodes start at the start, each is a neighbour of the one before, none occurs
  twice, the search visited fewer nodes than the limit allows and the path has at most one more node than it visited;
  and if the search says that it reached the target, the last node is accepted.\<close>
theorem path_search_returns:
  "\<exists>r. find_path limit query neighbors accepts = Some r
    \<and> path_way neighbors (pr_nodes r) (pq_start query) (last (pr_nodes r)) \<and> distinct (pr_nodes r)
    \<and> pd_visited_nodes (pr_diagnostics r) < max limit 1 \<and> length (pr_nodes r) \<le> pd_visited_nodes (pr_diagnostics r) + 1
    \<and> (pr_reached r \<longrightarrow> accepts (last (pr_nodes r)) (pq_target query))"
proof (cases "accepts (pq_start query) (pq_target query)")
  case True
  then show ?thesis
    by (simp add: find_path_def Let_def search_start_def path_way_single)
next
  case False
  obtain ds s ws where "search_over query neighbors accepts ds s" "pd_max_visited_nodes (ps_diagnostics s) = max limit 1"
      "path_way neighbors ws (pq_start query) (tr_best_node (ps_target s))" "distinct ws" "length ws \<le> length ds + 1"
      "find_path limit query neighbors accepts = Some \<lparr>pr_nodes = ws, pr_target = pq_target query,
        pr_reached = tr_reached (ps_target s), pr_diagnostics = ps_diagnostics s\<rparr>"
    using find_path_outcome [where accepts = accepts and query = query, OF False, of neighbors limit] by (elim exE conjE)
  then show ?thesis by (auto simp: search_over_def path_way_def)
qed

lemma path_search_returns_witness:
  "\<exists>r. find_path 9 (path_query_new (BlockPos 0 0 0) (BlockPos 1 0 0)) (\<lambda>p. [\<lparr>pn_pos = BlockPos 1 0 0, pn_cost = 0\<rparr>]) (=) = Some r
    \<and> pr_reached r \<and> last (pr_nodes r) = BlockPos 1 0 0 \<and> distinct (pr_nodes r) \<and> length (pr_nodes r) \<le> 3"
proof -
  let ?q = "path_query_new (BlockPos 0 0 0) (BlockPos 1 0 0)"
  let ?ns = "\<lambda>p :: block_pos. [\<lparr>pn_pos = BlockPos 1 0 0, pn_cost = 0\<rparr>]"
  have "f32_add 0 0x3F800000 = 0x3F800000" by (simp add: f32_eval)
  then have far: "\<not> f32_le f32_infinity 0" "\<not> f32_le f32_infinity (f32_add 0 0x3F800000)"
    by (simp_all add: f32_le_def f32_order_def)
  have q: "pq_start ?q = BlockPos 0 0 0" "pq_target ?q = BlockPos 1 0 0" "pq_follow_range ?q = f32_infinity"
    by (simp_all add: path_query_new_def)
  have "\<exists>r. find_path 9 ?q ?ns (=) = Some r \<and> pr_reached r \<and> pd_visited_nodes (pr_diagnostics r) = 2"
    by (simp add: find_path_def search_start_def Let_def search_loop.simps search_turn_def open_set_pop_def target_record_new_def
        distance_zero distance_one far reconstruct_path_def reconstruct_back.simps update_best_def relax_neighbor_def q split: option.splits)
  then obtain r where r: "find_path 9 ?q ?ns (=) = Some r" "pr_reached r" "pd_visited_nodes (pr_diagnostics r) = 2" by blast
  then show ?thesis using path_search_returns [of 9 ?q ?ns "(=)"] by (auto simp: q)
qed

lemma closed_walked:
  assumes "records_ok query neighbors ds R" "q \<in> set ds"
  shows "\<exists>ws. path_way neighbors ws (pq_start query) q \<and> nr_walked_distance (the (fmlookup R q)) = walked_along ws"
proof -
  obtain i where i: "i < length ds" "q = ds ! i" using assms(2) by (auto simp: in_set_conv_nth)
  from closed_way [OF assms(1) i(1)] show ?thesis unfolding i(2) by (elim exE conjE) blast
qed

text \<open>C8: a search misses a target only for its limits.  If it stops before its node limit without reaching a target, and
  there is a way from the start through neighbours to a node that would be accepted, then the follow range cuts the
  search off: somewhere a node is at least that far from the start, or some way to it is at least that long with
  the next step.\<close>
theorem path_search_misses_only_out_of_range:
  assumes "find_path limit query neighbors accepts = Some r" "\<not> pr_reached r"
    and "pd_visited_nodes (pr_diagnostics r) + 1 < max limit 1"
    and "path_way neighbors way (pq_start query) p" "accepts p (pq_target query)"
  shows "\<exists>ws q n. path_way neighbors ws (pq_start query) q \<and> n \<in> set (neighbors q)
    \<and> (f32_le (pq_follow_range query) (path_distance (pq_start query) q)
       \<or> f32_le (pq_follow_range query) (f32_add (walked_along ws) (path_distance q (pn_pos n))))"
proof -
  have "\<not> accepts (pq_start query) (pq_target query)"
    using assms(1,2) by (auto simp: find_path_def Let_def)
  from find_path_outcome [where accepts = accepts and query = query, OF this, of neighbors limit] obtain ds s where over: "search_over query neighbors accepts ds s"
      "pd_max_visited_nodes (ps_diagnostics s) = max limit 1" "pr_reached r = tr_reached (ps_target s)"
      "pr_diagnostics r = ps_diagnostics s"
    using assms(1) by (elim exE conjE) (simp, metis path_result.select_convs(3,4))
  then have inv: "search_inv query neighbors accepts ds s" and all: "fmdom' (ps_records s) = set ds"
    using assms(2,3) by (auto simp: search_over_def)
  have ok: "records_ok query neighbors ds (ps_records s)" using inv by (simp add: search_inv_def search_core_def)
  have "pq_start query \<in> set ds" using ok all by (auto simp: records_ok_def split: if_splits)
  moreover have "p \<notin> set ds" using inv assms(5) by (auto simp: search_inv_def)
  ultimately obtain q n where q: "q \<in> set ds" "n \<in> set (neighbors q)" "pn_pos n \<notin> set ds"
    using path_way_leaves [OF assms(4)] by blast
  then have "out_of_range query (ps_records s) q (pn_pos n)" using inv all by (auto simp: search_inv_def search_settled_def)
  moreover obtain ws where "path_way neighbors ws (pq_start query) q"
      "nr_walked_distance (the (fmlookup (ps_records s) q)) = walked_along ws"
    using closed_walked [OF ok q(1)] by blast
  ultimately show ?thesis using q(2) unfolding out_of_range_def by metis
qed

lemma path_search_misses_only_out_of_range_witness:
  "\<exists>r. find_path 9 \<lparr>pq_start = BlockPos 0 0 0, pq_target = BlockPos 1 0 0, pq_follow_range = 0, pq_heuristic_weight = 0\<rparr>
      (\<lambda>p. [\<lparr>pn_pos = BlockPos 1 0 0, pn_cost = 0\<rparr>]) (=) = Some r \<and> \<not> pr_reached r
    \<and> (\<exists>ws q. path_way (\<lambda>p. [\<lparr>pn_pos = BlockPos 1 0 0, pn_cost = 0\<rparr>]) ws (BlockPos 0 0 0) q
        \<and> (f32_le 0 (path_distance (BlockPos 0 0 0) q) \<or> f32_le 0 (f32_add (walked_along ws) (path_distance q (BlockPos 1 0 0)))))"
proof -
  let ?q = "\<lparr>pq_start = BlockPos 0 0 0, pq_target = BlockPos 1 0 0, pq_follow_range = 0, pq_heuristic_weight = 0\<rparr>"
  let ?ns = "\<lambda>p :: block_pos. [\<lparr>pn_pos = BlockPos 1 0 0, pn_cost = 0\<rparr>]"
  have le: "f32_le 0 0" by (simp add: f32_le_def f32_is_nan_def f32_is_finite_def)
  have "\<exists>r. find_path 9 ?q ?ns (=) = Some r \<and> \<not> pr_reached r \<and> pd_visited_nodes (pr_diagnostics r) = 1"
    by (simp add: find_path_def search_start_def Let_def search_loop.simps search_turn_def open_set_pop_def target_record_new_def
        distance_zero le reconstruct_path_def reconstruct_back.simps update_best_def split: option.splits)
  then obtain r where r: "find_path 9 ?q ?ns (=) = Some r" "\<not> pr_reached r" "pd_visited_nodes (pr_diagnostics r) = 1" by blast
  have "path_way ?ns [BlockPos 0 0 0, BlockPos 1 0 0] (BlockPos 0 0 0) (BlockPos 1 0 0)" by (simp add: path_way_def)
  then have "path_way ?ns [BlockPos 0 0 0, BlockPos 1 0 0] (pq_start ?q) (BlockPos 1 0 0)" by simp
  from path_search_misses_only_out_of_range [OF r(1,2) _ this] r show ?thesis by auto
qed

end
