(* ===== verification/NetHandshake.thy ===== *)
theory NetHandshake imports ProtocolUpdates
begin

text \<open>
  Identities (\<open>native/crates/mclone-protocol/src/lib.rs\<close>) and the two handshake payloads of \<open>mclone-net\<close>
  (\<open>native/crates/mclone-net/src/lib.rs\<close>), which WebSocket and TCP write with different magic bytes and
  report with different errors.  Arrays of bytes are lists of their length.
\<close>

section \<open>Identities\<close>

abbreviation (input) protocol_version :: u32 where "protocol_version \<equiv> 43"

record client_identity =
  ci_profile_id :: bytes
  ci_display_name :: bytes

definition profile_is_nil :: "bytes \<Rightarrow> bool" where
  "profile_is_nil profile \<longleftrightarrow> profile = replicate 16 0"

text \<open>
  \<open>chars().any(char::is_control)\<close> on UTF-8: the control characters are U+0000 to U+001F, U+007F, and U+0080 to U+009F,
  which are written as C2 and a byte from 80 to 9F.
\<close>

fun has_control_char :: "bytes \<Rightarrow> bool" where
  "has_control_char [] \<longleftrightarrow> False"
| "has_control_char (a # bs) \<longleftrightarrow> a < 0x20 \<or> a = 0x7F
     \<or> (a = 0xC2 \<and> (case bs of [] \<Rightarrow> False | b # _ \<Rightarrow> b \<le> 0x9F)) \<or> has_control_char bs"

definition validate_client_identity :: "client_identity \<Rightarrow> codec_error + unit" where
  "validate_client_identity identity = checks
     [require (\<not> profile_is_nil (ci_profile_id identity)) ''player profile UUID must not be nil'',
      require (ci_display_name identity \<noteq> []) ''player display name must not be empty'',
      require (length (ci_display_name identity) \<le> 16) ''player display name exceeds the protocol maximum'',
      require (\<not> has_control_char (ci_display_name identity)) ''player display name contains control characters'']"

definition client_identity_new :: "bytes \<Rightarrow> bytes \<Rightarrow> codec_error + client_identity" where
  "client_identity_new profile_id display_name =
     (let identity = \<lparr>ci_profile_id = profile_id, ci_display_name = display_name\<rparr> in
      case validate_client_identity identity of Inl e \<Rightarrow> Inl e | Inr _ \<Rightarrow> Inr identity)"

definition test_default_identity :: client_identity where
  "test_default_identity = \<lparr>ci_profile_id = replicate 16 1, ci_display_name = [0x50, 0x6C, 0x61, 0x79, 0x65, 0x72]\<rparr>"

text \<open>What the types of an identity say: sixteen bytes of profile and a UTF-8 name.\<close>

definition identity_typed :: "client_identity \<Rightarrow> bool" where
  "identity_typed identity \<longleftrightarrow> length (ci_profile_id identity) = 16 \<and> valid_utf8 (ci_display_name identity)"

section \<open>Capabilities\<close>

definition capabilities_contain :: "u64 \<Rightarrow> u64 \<Rightarrow> bool" where
  "capabilities_contain capabilities capability \<longleftrightarrow> capabilities AND capability = capability"

definition capabilities_intersection :: "u64 \<Rightarrow> u64 \<Rightarrow> u64" where
  "capabilities_intersection a b = a AND b"

abbreviation (input) ephemeral_body_pose :: u64 where "ephemeral_body_pose \<equiv> push_bit 1 1"

section \<open>The handshake of a client\<close>

record client_handshake =
  ch_protocol_version :: u32
  ch_capabilities :: u64
  ch_identity :: client_identity

definition client_handshake_bytes :: "bytes \<Rightarrow> client_handshake \<Rightarrow> bytes" where
  "client_handshake_bytes magic h = magic @ write_u32 (ch_protocol_version h) @ write_u64 (ch_capabilities h)
     @ ci_profile_id (ch_identity h) @ write_u8 (of_nat (length (ci_display_name (ch_identity h))))
     @ ci_display_name (ch_identity h)"

definition parse_client_handshake :: "bytes \<Rightarrow> (string \<Rightarrow> 'e) \<Rightarrow> (codec_error \<Rightarrow> 'e) \<Rightarrow> bytes \<Rightarrow> 'e + client_handshake" where
  "parse_client_handshake magic invalid_handshake protocol payload =
     (let fixed_len = length magic + 29 in
      if length payload < fixed_len then Inl (invalid_handshake ''client handshake had invalid length'')
      else if take (length magic) payload \<noteq> magic then Inl (invalid_handshake ''client handshake had invalid magic'')
      else let version_offset = length magic;
               version = of_nat (from_le (take 4 (drop version_offset payload)));
               capabilities_offset = version_offset + 4;
               capabilities = of_nat (from_le (take 8 (drop capabilities_offset payload)));
               profile_offset = capabilities_offset + 8;
               profile_id = take 16 (drop profile_offset payload);
               name_len_offset = profile_offset + 16;
               name_len = unat (payload ! name_len_offset);
               display_name = drop (name_len_offset + 1) payload in
      if length payload \<noteq> fixed_len + name_len
      then Inl (invalid_handshake ''client handshake display name length did not match payload'')
      else if \<not> valid_utf8 display_name then Inl (invalid_handshake ''client handshake display name was not UTF-8'')
      else case client_identity_new profile_id display_name of Inl e \<Rightarrow> Inl (protocol e)
        | Inr identity \<Rightarrow> Inr \<lparr>ch_protocol_version = version, ch_capabilities = capabilities, ch_identity = identity\<rparr>)"

section \<open>The answer of a server\<close>

definition server_handshake_bytes :: "bytes \<Rightarrow> u8 \<Rightarrow> u32 \<Rightarrow> u32 \<Rightarrow> u64 \<Rightarrow> bytes" where
  "server_handshake_bytes magic status expected received capabilities =
     magic @ write_u8 status @ write_u32 expected @ write_u32 received @ write_u64 capabilities"

text \<open>The four fields of an answer whose length and magic were checked.\<close>

definition server_handshake_fields :: "bytes \<Rightarrow> bytes \<Rightarrow> u8 \<times> u32 \<times> u32 \<times> u64" where
  "server_handshake_fields magic payload =
     (let status_offset = length magic; expected_offset = status_offset + 1; received_offset = expected_offset + 4;
          capabilities_offset = received_offset + 4 in
      (payload ! status_offset, of_nat (from_le (take 4 (drop expected_offset payload))),
       of_nat (from_le (take 4 (drop received_offset payload))),
       capabilities_known (of_nat (from_le (take 8 (drop capabilities_offset payload))))))"

text \<open>The \<open>match\<close> on the status that ends both readers.\<close>

definition handshake_outcome :: "(string \<Rightarrow> 'e) \<Rightarrow> (u32 \<Rightarrow> u32 \<Rightarrow> 'e) \<Rightarrow> u32 \<Rightarrow> u8 \<Rightarrow> u32 \<Rightarrow> u32 \<Rightarrow> 'a \<Rightarrow> 'e + 'a" where
  "handshake_outcome invalid_handshake version_mismatch client_version status expected received accepted =
     (if status = 1 then
        (if expected \<noteq> client_version \<or> received \<noteq> client_version then Inl (version_mismatch expected client_version)
         else Inr accepted)
      else if status = 2 then Inl (version_mismatch expected received)
      else Inl (invalid_handshake ''server handshake had unknown status''))"

section \<open>What is parsed\<close>

lemma from_le_write [simp]:
  "(of_nat (from_le (write_u32 v)) :: u32) = v" "(of_nat (from_le (write_u64 w)) :: u64) = w"
proof -
  have "read_u32 (write_u32 v @ []) = Inr (v, [])" by (simp only: u32_exact)
  then show "(of_nat (from_le (write_u32 v)) :: u32) = v"
    by (simp add: read_u32_def reading_def read_exact_def yield_def)
  have "read_u64 (write_u64 w @ []) = Inr (w, [])" by (simp only: u64_exact)
  then show "(of_nat (from_le (write_u64 w)) :: u64) = w"
    by (simp add: read_u64_def reading_def read_exact_def yield_def)
qed

lemma write_from_le:
  "length bs = 4 \<Longrightarrow> write_u32 (of_nat (from_le bs)) = bs" "length bs = 8 \<Longrightarrow> write_u64 (of_nat (from_le bs)) = bs"
proof -
  assume "length bs = 4"
  then have "read_u32 bs = Inr (of_nat (from_le bs), [])" by (simp add: read_u32_def reading_def read_exact_def yield_def)
  then show "write_u32 (of_nat (from_le bs)) = bs" by (simp add: u32_exact)
next
  assume "length bs = 8"
  then have "read_u64 bs = Inr (of_nat (from_le bs), [])" by (simp add: read_u64_def reading_def read_exact_def yield_def)
  then show "write_u64 (of_nat (from_le bs)) = bs" by (simp add: u64_exact)
qed

lemma client_identity_new_ok:
  "client_identity_new p n = Inr i \<longleftrightarrow> i = \<lparr>ci_profile_id = p, ci_display_name = n\<rparr> \<and> validate_client_identity i = Inr ()"
  by (auto simp: client_identity_new_def Let_def split: sum.splits)

lemma valid_identity_name: "validate_client_identity i = Inr () \<Longrightarrow> length (ci_display_name i) \<le> 16"
  by (simp add: validate_client_identity_def)

text \<open>Cutting a payload at known lengths.\<close>

lemma cut_five:
  "length a = na \<Longrightarrow> length b = nb \<Longrightarrow> length c = nc \<Longrightarrow> length d = nd \<Longrightarrow> xs = a @ b @ c @ d @ e \<Longrightarrow>
    take na xs = a \<and> take nb (drop na xs) = b \<and> take nc (drop (na + nb) xs) = c \<and> take nd (drop (na + nb + nc) xs) = d
    \<and> drop (na + nb + nc + nd) xs = e"
  by auto

lemma cut_at: "drop k xs = take n (drop k xs) @ drop (k + n) xs"
proof -
  have "drop (k + n) xs = drop n (drop k xs)" by (simp add: add.commute)
  then show ?thesis by (simp only: append_take_drop_id)
qed

lemma parse_client_handshake_exact:
  "parse_client_handshake magic invalid prot payload = Inr h \<longleftrightarrow>
    payload = client_handshake_bytes magic h \<and> identity_typed (ch_identity h) \<and> validate_client_identity (ch_identity h) = Inr ()"
  (is "?parsed \<longleftrightarrow> ?written")
proof
  let ?m = "length magic"
  assume p: ?parsed
  have len: "\<not> length payload < ?m + 29" and mag: "take ?m payload = magic"
    and exact: "length payload = ?m + 29 + unat (payload ! (?m + 4 + 8 + 16))"
    and utf: "valid_utf8 (drop (?m + 4 + 8 + 16 + 1) payload)"
    using p by (auto simp: parse_client_handshake_def Let_def split: if_splits)
  have h: "ch_protocol_version h = of_nat (from_le (take 4 (drop ?m payload)))"
    "ch_capabilities h = of_nat (from_le (take 8 (drop (?m + 4) payload)))"
    "ci_profile_id (ch_identity h) = take 16 (drop (?m + 4 + 8) payload)"
    "ci_display_name (ch_identity h) = drop (?m + 4 + 8 + 16 + 1) payload"
    "validate_client_identity (ch_identity h) = Inr ()"
    using p len mag exact utf
    by (auto simp: parse_client_handshake_def Let_def client_identity_new_ok split: if_splits sum.splits)
  have "length (drop (?m + 4 + 8 + 16 + 1) payload) = unat (payload ! (?m + 4 + 8 + 16))" using exact by simp
  then have name: "of_nat (length (ci_display_name (ch_identity h))) = payload ! (?m + 4 + 8 + 16)" unfolding h(4) by simp
  have "payload = magic @ drop ?m payload" using mag by (metis append_take_drop_id)
  also have "drop ?m payload = take 4 (drop ?m payload) @ drop (?m + 4) payload"
    by (rule cut_at)
  also have "drop (?m + 4) payload = take 8 (drop (?m + 4) payload) @ drop (?m + 4 + 8) payload"
    by (rule cut_at)
  also have "drop (?m + 4 + 8) payload = take 16 (drop (?m + 4 + 8) payload) @ drop (?m + 4 + 8 + 16) payload"
    by (rule cut_at)
  also have "drop (?m + 4 + 8 + 16) payload = [payload ! (?m + 4 + 8 + 16)] @ drop (?m + 4 + 8 + 16 + 1) payload"
    using len Cons_nth_drop_Suc [of "?m + 4 + 8 + 16" payload] by simp
  finally have "payload = client_handshake_bytes magic h"
    using len name unfolding client_handshake_bytes_def h(1-4) by (simp add: write_from_le write_u8_def)
  then show ?written using h utf len by (simp add: identity_typed_def)
next
  assume w: ?written
  let ?m = "length magic"
  let ?i = "ch_identity h"
  have n: "length (ci_display_name ?i) \<le> 16" using w valid_identity_name by blast
  have len: "length (ci_profile_id ?i) = 16" and utf: "valid_utf8 (ci_display_name ?i)" using w by (simp_all add: identity_typed_def)
  have eq: "payload = magic @ write_u32 (ch_protocol_version h) @ write_u64 (ch_capabilities h) @ ci_profile_id ?i
    @ write_u8 (of_nat (length (ci_display_name ?i))) @ ci_display_name ?i"
    using w by (simp add: client_handshake_bytes_def)
  note cut = cut_five [OF refl length_writes(3) length_writes(4) len eq]
  have rest: "drop (?m + 4 + 8 + 16) payload = of_nat (length (ci_display_name ?i)) # ci_display_name ?i"
    using cut by (simp add: write_u8_def)
  have total: "length payload = ?m + 29 + length (ci_display_name ?i)" by (simp add: eq len)
  have at: "payload ! (?m + 4 + 8 + 16) = of_nat (length (ci_display_name ?i))"
    using rest total by (metis nth_via_drop)
  have name: "drop (?m + 4 + 8 + 16 + 1) payload = ci_display_name ?i"
    using rest by (metis add.commute drop0 drop_Suc_Cons drop_drop One_nat_def)
  have count: "unat (of_nat (length (ci_display_name ?i)) :: u8) = length (ci_display_name ?i)"
    using n by (simp add: unat_of_nat)
  have new: "client_identity_new (ci_profile_id ?i) (ci_display_name ?i) = Inr ?i"
    using w by (simp add: client_identity_new_ok)
  have checks: "\<not> length payload < ?m + 29" "\<not> take ?m payload \<noteq> magic"
    "\<not> length payload \<noteq> ?m + 29 + unat (payload ! (?m + 4 + 8 + 16))"
    "\<not> \<not> valid_utf8 (drop (?m + 4 + 8 + 16 + 1) payload)"
    unfolding at name count using total utf cut by simp_all
  have fields: "take 4 (drop ?m payload) = write_u32 (ch_protocol_version h)"
    "take 8 (drop (?m + 4) payload) = write_u64 (ch_capabilities h)" "take 16 (drop (?m + 4 + 8) payload) = ci_profile_id ?i"
    using cut by blast+
  show ?parsed
    unfolding parse_client_handshake_def Let_def checks(1-4) [THEN if_not_P] fields name new sum.case from_le_write by (simp add: utf)
qed

end
