(* ===== verification/NetFrames.thy ===== *)
theory NetFrames imports NetHandshake
begin

text \<open>
  The transports of \<open>native/crates/mclone-net/src/lib.rs\<close> that carry whole messages: WebSocket payloads, frames on a
  TCP stream, and the queues of a local session.

  A connection is the bytes that will still arrive before the peer closes it and the bytes written so far; an
  operation returns its result and the connection afterwards.  Other failures of the operating system are not
  modelled.  A read that the end of the stream cuts short has consumed what there was, as \<open>read_exact\<close> does.
\<close>

abbreviation (input) max_message_bytes :: nat where "max_message_bytes \<equiv> 64 * 1024 * 1024"

section \<open>WebSocket payloads\<close>

datatype ws_error =
    WsProtocol codec_error
  | WsInvalidHandshake string
  | WsVersionMismatch u32 u32
  | WsMessageTooLarge string nat
  | WsUnexpectedEof string
  | WsTrailingBytes string nat

definition ws_magic :: bytes where
  "ws_magic = [0x4D, 0x43, 0x4C, 0x4F, 0x4E, 0x45, 0x5F, 0x57, 0x53]"

definition checked_websocket_message_len :: "string \<Rightarrow> nat \<Rightarrow> ws_error + unit" where
  "checked_websocket_message_len field len = (if max_message_bytes < len then Inl (WsMessageTooLarge field len) else Inr ())"

definition checked_websocket_u32_len :: "string \<Rightarrow> nat \<Rightarrow> ws_error + u32" where
  "checked_websocket_u32_len field len = (case checked_websocket_message_len field len of Inl e \<Rightarrow> Inl e
     | Inr _ \<Rightarrow> if len < 2 ^ 32 then Inr (of_nat len) else Inl (WsMessageTooLarge field len))"

definition ws_checked :: "string \<Rightarrow> bytes \<Rightarrow> ws_error + bytes" where
  "ws_checked field payload = (case checked_websocket_message_len field (length payload) of Inl e \<Rightarrow> Inl e | Inr _ \<Rightarrow> Inr payload)"

definition encode_websocket_client_handshake :: "u32 \<Rightarrow> client_identity \<Rightarrow> u64 \<Rightarrow> ws_error + bytes" where
  "encode_websocket_client_handshake version identity capabilities =
     (case validate_client_identity identity of Inl e \<Rightarrow> Inl (WsProtocol e)
      | Inr _ \<Rightarrow> ws_checked ''client handshake'' (client_handshake_bytes ws_magic
          \<lparr>ch_protocol_version = version, ch_capabilities = capabilities, ch_identity = identity\<rparr>))"

definition decode_websocket_client_handshake :: "bytes \<Rightarrow> ws_error + client_handshake" where
  "decode_websocket_client_handshake payload =
     (case checked_websocket_message_len ''client handshake'' (length payload) of Inl e \<Rightarrow> Inl e
      | Inr _ \<Rightarrow> parse_client_handshake ws_magic WsInvalidHandshake WsProtocol payload)"

definition encode_websocket_server_handshake :: "u8 \<Rightarrow> u32 \<Rightarrow> u32 \<Rightarrow> u64 \<Rightarrow> ws_error + bytes" where
  "encode_websocket_server_handshake status expected received capabilities =
     ws_checked ''server handshake'' (server_handshake_bytes ws_magic status expected received capabilities)"

definition encode_websocket_server_handshake_accept :: "u32 \<Rightarrow> u64 \<Rightarrow> ws_error + bytes" where
  "encode_websocket_server_handshake_accept version capabilities = encode_websocket_server_handshake 1 version version capabilities"

definition encode_websocket_server_handshake_reject :: "u32 \<Rightarrow> u32 \<Rightarrow> ws_error + bytes" where
  "encode_websocket_server_handshake_reject expected received = encode_websocket_server_handshake 2 expected received 0"

definition decode_websocket_server_handshake :: "bytes \<Rightarrow> u32 \<Rightarrow> ws_error + u64" where
  "decode_websocket_server_handshake payload client_version =
     (case checked_websocket_message_len ''server handshake'' (length payload) of Inl e \<Rightarrow> Inl e
      | Inr _ \<Rightarrow>
        if length payload \<noteq> length ws_magic + 17 then Inl (WsInvalidHandshake ''server handshake had invalid length'')
        else if take (length ws_magic) payload \<noteq> ws_magic then Inl (WsInvalidHandshake ''server handshake had invalid magic'')
        else case server_handshake_fields ws_magic payload of (status, expected, received, capabilities) \<Rightarrow>
          handshake_outcome WsInvalidHandshake WsVersionMismatch client_version status expected received capabilities)"

definition encode_websocket_client_command :: "client_command \<Rightarrow> ws_error + bytes" where
  "encode_websocket_client_command command = (case encode_client_command command of Inl e \<Rightarrow> Inl (WsProtocol e)
     | Inr payload \<Rightarrow> ws_checked ''client command'' payload)"

definition decode_websocket_client_command :: "bytes \<Rightarrow> ws_error + client_command" where
  "decode_websocket_client_command payload =
     (case checked_websocket_message_len ''client command'' (length payload) of Inl e \<Rightarrow> Inl e
      | Inr _ \<Rightarrow> case decode_client_command payload of Inl e \<Rightarrow> Inl (WsProtocol e) | Inr command \<Rightarrow> Inr command)"

fun ws_write_updates :: "wire_update list \<Rightarrow> bytes \<Rightarrow> ws_error + bytes" where
  "ws_write_updates [] payload = Inr payload"
| "ws_write_updates (update # updates) payload = (case encode_server_update update of Inl e \<Rightarrow> Inl (WsProtocol e)
     | Inr frame \<Rightarrow> case checked_websocket_message_len ''server update'' (length frame) of Inl e \<Rightarrow> Inl e
     | Inr _ \<Rightarrow> case checked_websocket_u32_len ''server update'' (length frame) of Inl e \<Rightarrow> Inl e
     | Inr len \<Rightarrow> ws_write_updates updates (payload @ write_u32 len @ frame))"

definition encode_websocket_server_update_batch :: "wire_update list \<Rightarrow> ws_error + bytes" where
  "encode_websocket_server_update_batch updates =
     (case checked_websocket_u32_len ''server update batch'' (length updates) of Inl e \<Rightarrow> Inl e
      | Inr update_count \<Rightarrow> case ws_write_updates updates (write_u32 update_count) of Inl e \<Rightarrow> Inl e
      | Inr payload \<Rightarrow> ws_checked ''server update batch'' payload)"

text \<open>\<open>payload.get(cursor..end)\<close>\<close>

definition get_range :: "bytes \<Rightarrow> nat \<Rightarrow> nat \<Rightarrow> bytes option" where
  "get_range payload start stop = (if start \<le> stop \<and> stop \<le> length payload then Some (take (stop - start) (drop start payload)) else None)"

definition read_websocket_u32 :: "bytes \<Rightarrow> nat \<Rightarrow> string \<Rightarrow> ws_error + u32 \<times> nat" where
  "read_websocket_u32 payload cursor field = (case get_range payload cursor (cursor + 4) of None \<Rightarrow> Inl (WsUnexpectedEof field)
     | Some bytes \<Rightarrow> Inr (of_nat (from_le bytes), cursor + 4))"

fun ws_read_updates :: "nat \<Rightarrow> bytes \<Rightarrow> nat \<Rightarrow> ws_error + wire_update list \<times> nat" where
  "ws_read_updates 0 payload cursor = Inr ([], cursor)"
| "ws_read_updates (Suc n) payload cursor = (case read_websocket_u32 payload cursor ''server update'' of Inl e \<Rightarrow> Inl e
     | Inr (len, cursor) \<Rightarrow>
       (let frame_len = unat len in
        if max_message_bytes < frame_len then Inl (WsMessageTooLarge ''server update'' frame_len)
        else case get_range payload cursor (cursor + frame_len) of None \<Rightarrow> Inl (WsUnexpectedEof ''server update'')
        | Some frame \<Rightarrow> case decode_server_update frame of Inl e \<Rightarrow> Inl (WsProtocol e)
        | Inr update \<Rightarrow> case ws_read_updates n payload (cursor + frame_len) of Inl e \<Rightarrow> Inl e
        | Inr (updates, cursor) \<Rightarrow> Inr (update # updates, cursor)))"

definition decode_websocket_server_update_batch :: "bytes \<Rightarrow> ws_error + wire_update list" where
  "decode_websocket_server_update_batch payload =
     (case checked_websocket_message_len ''server update batch'' (length payload) of Inl e \<Rightarrow> Inl e
      | Inr _ \<Rightarrow> case read_websocket_u32 payload 0 ''server update batch'' of Inl e \<Rightarrow> Inl e
      | Inr (update_count, cursor) \<Rightarrow> case ws_read_updates (unat update_count) payload cursor of Inl e \<Rightarrow> Inl e
      | Inr (updates, cursor) \<Rightarrow>
        if cursor \<noteq> length payload then Inl (WsTrailingBytes ''server update batch'' (length payload - cursor)) else Inr updates)"

section \<open>TCP streams\<close>

datatype tcp_error =
    TcpUnexpectedEof
  | TcpProtocol codec_error
  | TcpInvalidHandshake string
  | TcpVersionMismatch u32 u32
  | TcpFrameTooLarge string nat

record tcp_stream =
  ts_incoming :: bytes
  ts_outgoing :: bytes

type_synonym 'a tcp_op = "tcp_stream \<Rightarrow> (tcp_error + 'a) \<times> tcp_stream"

definition tcp_return :: "'a \<Rightarrow> 'a tcp_op" where "tcp_return x s = (Inr x, s)"

definition tcp_fail :: "tcp_error \<Rightarrow> 'a tcp_op" where "tcp_fail e s = (Inl e, s)"

text \<open>The operator \<open>?\<close>: go on with the value, or return the error.\<close>

definition tcp_then :: "'a tcp_op \<Rightarrow> ('a \<Rightarrow> 'b tcp_op) \<Rightarrow> 'b tcp_op" where
  "tcp_then m f s = (case m s of (Inl e, s) \<Rightarrow> (Inl e, s) | (Inr x, s) \<Rightarrow> f x s)"

definition tcp_check :: "codec_error + 'a \<Rightarrow> 'a tcp_op" where
  "tcp_check r = (case r of Inl e \<Rightarrow> tcp_fail (TcpProtocol e) | Inr x \<Rightarrow> tcp_return x)"

definition stream_read_exact :: "nat \<Rightarrow> bytes tcp_op" where
  "stream_read_exact n s = (if length (ts_incoming s) < n then (Inl TcpUnexpectedEof, s\<lparr>ts_incoming := []\<rparr>)
     else (Inr (take n (ts_incoming s)), s\<lparr>ts_incoming := drop n (ts_incoming s)\<rparr>))"

definition stream_write_all :: "bytes \<Rightarrow> unit tcp_op" where
  "stream_write_all bs s = (Inr (), s\<lparr>ts_outgoing := ts_outgoing s @ bs\<rparr>)"

definition stream_write_u32 :: "u32 \<Rightarrow> unit tcp_op" where
  "stream_write_u32 v = stream_write_all (write_u32 v)"

definition stream_read_u32 :: "u32 tcp_op" where
  "stream_read_u32 = tcp_then (stream_read_exact 4) (\<lambda>bs. tcp_return (of_nat (from_le bs)))"

text \<open>
  \<open>try_read_u32\<close> loops over partial reads; a read of no bytes is the end of the stream, which is no error before the
  first byte.
\<close>

definition stream_try_read_u32 :: "u32 option tcp_op" where
  "stream_try_read_u32 s = (if ts_incoming s = [] then (Inr None, s)
     else case stream_read_u32 s of (Inl e, s) \<Rightarrow> (Inl e, s) | (Inr v, s) \<Rightarrow> (Inr (Some v), s))"

definition checked_u32_len :: "string \<Rightarrow> nat \<Rightarrow> u32 tcp_op" where
  "checked_u32_len field len = (if \<not> len < 2 ^ 32 then tcp_fail (TcpFrameTooLarge field len)
     else if max_message_bytes < len then tcp_fail (TcpFrameTooLarge field len) else tcp_return (of_nat len))"

definition write_frame :: "string \<Rightarrow> bytes \<Rightarrow> unit tcp_op" where
  "write_frame field payload = tcp_then (checked_u32_len field (length payload)) (\<lambda>len.
     tcp_then (stream_write_u32 len) (\<lambda>_. stream_write_all payload))"

definition read_frame :: "string \<Rightarrow> bytes tcp_op" where
  "read_frame field = tcp_then stream_read_u32 (\<lambda>len.
     if max_message_bytes < unat len then tcp_fail (TcpFrameTooLarge field (unat len)) else stream_read_exact (unat len))"

definition try_read_frame :: "string \<Rightarrow> bytes option tcp_op" where
  "try_read_frame field = tcp_then stream_try_read_u32 (\<lambda>len. case len of None \<Rightarrow> tcp_return None
     | Some len \<Rightarrow> if max_message_bytes < unat len then tcp_fail (TcpFrameTooLarge field (unat len))
       else tcp_then (stream_read_exact (unat len)) (\<lambda>payload. tcp_return (Some payload)))"

section \<open>Commands and updates on a stream\<close>

definition write_client_command_frame :: "client_command \<Rightarrow> unit tcp_op" where
  "write_client_command_frame command = tcp_then (tcp_check (encode_client_command command)) (write_frame ''client command'')"

definition read_client_command_frame :: "client_command tcp_op" where
  "read_client_command_frame = tcp_then (read_frame ''client command'') (\<lambda>payload. tcp_check (decode_client_command payload))"

definition try_read_client_command_frame :: "client_command option tcp_op" where
  "try_read_client_command_frame = tcp_then (try_read_frame ''client command'') (\<lambda>payload. case payload of None \<Rightarrow> tcp_return None
     | Some payload \<Rightarrow> tcp_then (tcp_check (decode_client_command payload)) (\<lambda>command. tcp_return (Some command)))"

fun write_updates :: "wire_update list \<Rightarrow> unit tcp_op" where
  "write_updates [] = tcp_return ()"
| "write_updates (update # updates) = tcp_then (tcp_check (encode_server_update update)) (\<lambda>payload.
     tcp_then (write_frame ''server update'' payload) (\<lambda>_. write_updates updates))"

definition write_server_update_batch :: "wire_update list \<Rightarrow> unit tcp_op" where
  "write_server_update_batch updates = tcp_then (checked_u32_len ''server update batch'' (length updates)) (\<lambda>count.
     tcp_then (stream_write_u32 count) (\<lambda>_. write_updates updates))"

fun read_updates :: "nat \<Rightarrow> wire_update list tcp_op" where
  "read_updates 0 = tcp_return []"
| "read_updates (Suc n) = tcp_then (read_frame ''server update'') (\<lambda>payload.
     tcp_then (tcp_check (decode_server_update payload)) (\<lambda>update.
     tcp_then (read_updates n) (\<lambda>updates. tcp_return (update # updates))))"

definition read_server_update_batch :: "wire_update list tcp_op" where
  "read_server_update_batch = tcp_then stream_read_u32 (\<lambda>count. read_updates (unat count))"

text \<open>Every command frame takes at least four bytes, so the loop over the commands ends.\<close>

lemma try_read_consumes:
  assumes "try_read_client_command_frame s = (Inr (Some command), s')"
  shows "length (ts_incoming s') < length (ts_incoming s)"
  using assms
  by (auto simp: try_read_client_command_frame_def try_read_frame_def tcp_then_def tcp_check_def tcp_return_def tcp_fail_def
      stream_try_read_u32_def stream_read_u32_def stream_read_exact_def split: prod.splits sum.splits option.splits if_splits)

function read_client_command_frames :: "client_command list tcp_op" where
  "read_client_command_frames s = (case try_read_client_command_frame s of (Inl e, s) \<Rightarrow> (Inl e, s)
     | (Inr None, s) \<Rightarrow> (Inr [], s)
     | (Inr (Some command), s) \<Rightarrow> (case read_client_command_frames s of (Inl e, s) \<Rightarrow> (Inl e, s)
        | (Inr commands, s) \<Rightarrow> (Inr (command # commands), s)))"
  by pat_completeness auto
termination
  by (relation "measure (\<lambda>s. length (ts_incoming s))") (auto intro: try_read_consumes dest: sym)

declare read_client_command_frames.simps [simp del]

end
