(* ===== verification/NetSessions.thy ===== *)
theory NetSessions imports NetFrames
begin

text \<open>
  Opening a session over TCP, the packets of the UDP side channel, and the transport of a local session
  (\<open>native/crates/mclone-net/src/lib.rs\<close> and \<open>native_udp.rs\<close>).
\<close>

section \<open>TCP handshakes\<close>

definition tcp_magic :: bytes where
  "tcp_magic = [0x4D, 0x43, 0x4C, 0x4F, 0x4E, 0x45, 0x5F, 0x4E, 0x41, 0x54, 0x49, 0x56, 0x45, 0x5F, 0x54, 0x43, 0x50]"

record udp_offer =
  uo_port :: "16 word"
  uo_token :: bytes

record accepted_server_handshake =
  ah_capabilities :: u64
  ah_udp_offer :: "udp_offer option"

record accepted_client_handshake =
  ac_identity :: client_identity
  ac_capabilities :: u64

definition write_client_handshake :: "u32 \<Rightarrow> client_identity \<Rightarrow> u64 \<Rightarrow> unit tcp_op" where
  "write_client_handshake version identity capabilities = tcp_then (tcp_check (validate_client_identity identity)) (\<lambda>_.
     write_frame ''client handshake'' (client_handshake_bytes tcp_magic
       \<lparr>ch_protocol_version = version, ch_capabilities = capabilities, ch_identity = identity\<rparr>))"

definition read_client_handshake :: "client_handshake tcp_op" where
  "read_client_handshake = tcp_then (read_frame ''client handshake'') (\<lambda>payload.
     case parse_client_handshake tcp_magic TcpInvalidHandshake TcpProtocol payload of Inl e \<Rightarrow> tcp_fail e | Inr h \<Rightarrow> tcp_return h)"

definition udp_offer_bytes :: "udp_offer option \<Rightarrow> bytes" where
  "udp_offer_bytes offer = (case offer of None \<Rightarrow> [] | Some offer \<Rightarrow> write_u8 1 @ write_u16 (uo_port offer) @ uo_token offer)"

definition write_server_handshake :: "u8 \<Rightarrow> u32 \<Rightarrow> u32 \<Rightarrow> u64 \<Rightarrow> udp_offer option \<Rightarrow> unit tcp_op" where
  "write_server_handshake status expected received capabilities offer =
     write_frame ''server handshake'' (server_handshake_bytes tcp_magic status expected received capabilities @ udp_offer_bytes offer)"

definition write_server_handshake_accept :: "u32 \<Rightarrow> u64 \<Rightarrow> udp_offer option \<Rightarrow> unit tcp_op" where
  "write_server_handshake_accept version capabilities offer = write_server_handshake 1 version version capabilities offer"

definition write_server_handshake_reject :: "u32 \<Rightarrow> u32 \<Rightarrow> unit tcp_op" where
  "write_server_handshake_reject expected received = write_server_handshake 2 expected received 0 None"

text \<open>The offer after the fixed part: nothing, or a marker, a port and a token.\<close>

definition parse_udp_offer :: "bytes \<Rightarrow> tcp_error + udp_offer option" where
  "parse_udp_offer payload = (let offer_offset = length tcp_magic + 17 in
     if length payload = offer_offset then Inr None
     else if payload ! offer_offset \<noteq> 1 then Inl (TcpInvalidHandshake ''server handshake had invalid UDP offer marker'')
     else let port = of_nat (from_le (take 2 (drop (offer_offset + 1) payload))) in
       if port = 0 then Inl (TcpInvalidHandshake ''server handshake UDP offer used port zero'')
       else Inr (Some \<lparr>uo_port = port, uo_token = take 16 (drop (offer_offset + 3) payload)\<rparr>))"

definition parse_server_handshake :: "u32 \<Rightarrow> bytes \<Rightarrow> tcp_error + accepted_server_handshake" where
  "parse_server_handshake client_version payload = (let base = length tcp_magic + 17 in
     if length payload \<noteq> base \<and> length payload \<noteq> base + 19
     then Inl (TcpInvalidHandshake ''server handshake had invalid length'')
     else if take (length tcp_magic) payload \<noteq> tcp_magic then Inl (TcpInvalidHandshake ''server handshake had invalid magic'')
     else case server_handshake_fields tcp_magic payload of (status, expected, received, capabilities) \<Rightarrow>
       (case parse_udp_offer payload of Inl e \<Rightarrow> Inl e
        | Inr offer \<Rightarrow> handshake_outcome TcpInvalidHandshake TcpVersionMismatch client_version status expected received
            \<lparr>ah_capabilities = capabilities, ah_udp_offer = offer\<rparr>))"

definition read_server_handshake :: "u32 \<Rightarrow> accepted_server_handshake tcp_op" where
  "read_server_handshake client_version = tcp_then (read_frame ''server handshake'') (\<lambda>payload.
     case parse_server_handshake client_version payload of Inl e \<Rightarrow> tcp_fail e | Inr h \<Rightarrow> tcp_return h)"

definition complete_client_handshake :: "u32 \<Rightarrow> client_identity \<Rightarrow> u64 \<Rightarrow> accepted_server_handshake tcp_op" where
  "complete_client_handshake version identity capabilities =
     tcp_then (write_client_handshake version identity capabilities) (\<lambda>_. read_server_handshake version)"

definition complete_server_handshake :: "u64 \<Rightarrow> udp_offer option \<Rightarrow> accepted_client_handshake tcp_op" where
  "complete_server_handshake server_capabilities udp_offer = tcp_then read_client_handshake (\<lambda>received.
     if ch_protocol_version received \<noteq> protocol_version
     then tcp_then (write_server_handshake_reject protocol_version (ch_protocol_version received)) (\<lambda>_.
       tcp_fail (TcpVersionMismatch protocol_version (ch_protocol_version received)))
     else let capabilities = capabilities_known (capabilities_intersection (ch_capabilities received) server_capabilities);
              offer = (if capabilities_contain capabilities ephemeral_body_pose then udp_offer else None) in
       tcp_then (write_server_handshake_accept protocol_version capabilities offer) (\<lambda>_.
         tcp_return \<lparr>ac_identity = ch_identity received, ac_capabilities = capabilities\<rparr>))"

section \<open>UDP packets\<close>

datatype udp_error = UdpProtocol codec_error | UdpPacketTooLarge nat | UdpInvalidPacket string

datatype udp_packet =
    UdpAttach bytes
  | UdpAttachAck bytes
  | UdpClientMessage bytes client_ephemeral_message
  | UdpServerMessage bytes server_ephemeral_message

definition udp_magic :: bytes where
  "udp_magic = [0x4D, 0x43, 0x4C, 0x55, 0x44, 0x50, 0x30, 0x31]"

abbreviation (input) udp_header_bytes :: nat where "udp_header_bytes \<equiv> length udp_magic + 1 + 16"
abbreviation (input) max_udp_packet_bytes :: nat where "max_udp_packet_bytes \<equiv> 1200"

definition encode_packet :: "u8 \<Rightarrow> bytes \<Rightarrow> bytes \<Rightarrow> udp_error + bytes" where
  "encode_packet tag token payload = (let len = udp_header_bytes + length payload in
     if max_udp_packet_bytes < len then Inl (UdpPacketTooLarge len) else Inr (udp_magic @ [tag] @ token @ payload))"

definition encode_client_packet :: "bytes \<Rightarrow> client_ephemeral_message \<Rightarrow> udp_error + bytes" where
  "encode_client_packet token message = (case encode_client_ephemeral_message message of Inl e \<Rightarrow> Inl (UdpProtocol e)
     | Inr payload \<Rightarrow> encode_packet 3 token payload)"

definition encode_server_packet :: "bytes \<Rightarrow> server_ephemeral_message \<Rightarrow> udp_error + bytes" where
  "encode_server_packet token message = (case encode_server_ephemeral_message message of Inl e \<Rightarrow> Inl (UdpProtocol e)
     | Inr payload \<Rightarrow> encode_packet 4 token payload)"

definition decode_packet :: "bytes \<Rightarrow> udp_error + udp_packet" where
  "decode_packet bs =
     (if max_udp_packet_bytes < length bs then Inl (UdpPacketTooLarge (length bs))
      else if length bs < udp_header_bytes then Inl (UdpInvalidPacket ''packet was shorter than its header'')
      else if take (length udp_magic) bs \<noteq> udp_magic then Inl (UdpInvalidPacket ''packet magic did not match'')
      else let tag = bs ! length udp_magic;
               token_offset = length udp_magic + 1;
               token = take 16 (drop token_offset bs);
               payload = drop udp_header_bytes bs in
        if tag = 1 \<and> payload = [] then Inr (UdpAttach token)
        else if tag = 2 \<and> payload = [] then Inr (UdpAttachAck token)
        else if tag = 3 then (case decode_client_ephemeral_message payload of Inl e \<Rightarrow> Inl (UdpProtocol e)
          | Inr message \<Rightarrow> Inr (UdpClientMessage token message))
        else if tag = 4 then (case decode_server_ephemeral_message payload of Inl e \<Rightarrow> Inl (UdpProtocol e)
          | Inr message \<Rightarrow> Inr (UdpServerMessage token message))
        else if tag = 1 \<or> tag = 2 then Inl (UdpInvalidPacket ''attach packet carried a payload'')
        else Inl (UdpInvalidPacket ''packet tag was unknown''))"

section \<open>Local sessions\<close>

record local_transport =
  lt_client_to_server :: "client_command list"
  lt_server_to_client :: "wire_update list"

definition local_transport_new :: local_transport where
  "local_transport_new = \<lparr>lt_client_to_server = [], lt_server_to_client = []\<rparr>"

definition send_client_command :: "client_command \<Rightarrow> local_transport \<Rightarrow> local_transport" where
  "send_client_command command t = t\<lparr>lt_client_to_server := lt_client_to_server t @ [command]\<rparr>"

definition send_server_update :: "wire_update \<Rightarrow> local_transport \<Rightarrow> local_transport" where
  "send_server_update update t = t\<lparr>lt_server_to_client := lt_server_to_client t @ [update]\<rparr>"

definition drain_client_commands :: "local_transport \<Rightarrow> client_command list \<times> local_transport" where
  "drain_client_commands t = (lt_client_to_server t, t\<lparr>lt_client_to_server := []\<rparr>)"

definition drain_server_updates :: "local_transport \<Rightarrow> wire_update list \<times> local_transport" where
  "drain_server_updates t = (lt_server_to_client t, t\<lparr>lt_server_to_client := []\<rparr>)"

definition pending_client_command_count :: "local_transport \<Rightarrow> nat" where
  "pending_client_command_count t = length (lt_client_to_server t)"

definition pending_server_update_count :: "local_transport \<Rightarrow> nat" where
  "pending_server_update_count t = length (lt_server_to_client t)"

end
