(* ===== verification/NetProperties.thy ===== *)
theory NetProperties imports NetSessions
begin

text \<open>What travels over the transports of \<open>mclone-net\<close> arrives, and what arrives was sent whole.\<close>

section \<open>Frames\<close>

definition frame_bytes :: "bytes \<Rightarrow> bytes" where
  "frame_bytes payload = write_u32 (of_nat (length payload)) @ payload"

lemma frame_length [simp]: "length (frame_bytes payload) = 4 + length payload"
  by (simp add: frame_bytes_def)

lemma small_length [simp]: "n \<le> max_message_bytes \<Longrightarrow> unat (of_nat n :: u32) = n"
  by (simp add: unat_of_nat)

lemma stream_read_u32_write:
  "stream_read_u32 \<lparr>ts_incoming = write_u32 v @ rest, ts_outgoing = sent\<rparr> = (Inr v, \<lparr>ts_incoming = rest, ts_outgoing = sent\<rparr>)"
  by (simp add: stream_read_u32_def tcp_then_def stream_read_exact_def tcp_return_def)

lemma stream_try_read_u32_write:
  "stream_try_read_u32 \<lparr>ts_incoming = write_u32 v @ rest, ts_outgoing = sent\<rparr> = (Inr (Some v), \<lparr>ts_incoming = rest, ts_outgoing = sent\<rparr>)"
proof -
  have "write_u32 v \<noteq> []" using length_writes(3) [of v] by fastforce
  then show ?thesis by (simp add: stream_try_read_u32_def stream_read_u32_write)
qed

lemma write_frame_ok:
  "write_frame field payload s = (if length payload \<le> max_message_bytes
     then (Inr (), s\<lparr>ts_outgoing := ts_outgoing s @ frame_bytes payload\<rparr>) else (Inl (TcpFrameTooLarge field (length payload)), s))"
  by (simp add: write_frame_def tcp_then_def checked_u32_len_def tcp_fail_def tcp_return_def stream_write_u32_def
      stream_write_all_def frame_bytes_def)

lemma read_frame_ok:
  assumes "length payload \<le> max_message_bytes"
  shows "read_frame field \<lparr>ts_incoming = frame_bytes payload @ rest, ts_outgoing = sent\<rparr> =
    (Inr payload, \<lparr>ts_incoming = rest, ts_outgoing = sent\<rparr>)"
  using assms by (simp add: read_frame_def frame_bytes_def tcp_then_def stream_read_u32_write stream_read_exact_def)

lemma try_read_frame_ok:
  assumes "length payload \<le> max_message_bytes"
  shows "try_read_frame field \<lparr>ts_incoming = frame_bytes payload @ rest, ts_outgoing = sent\<rparr> =
    (Inr (Some payload), \<lparr>ts_incoming = rest, ts_outgoing = sent\<rparr>)"
  using assms by (simp add: try_read_frame_def frame_bytes_def tcp_then_def stream_try_read_u32_write stream_read_exact_def tcp_return_def)

section \<open>Handshakes\<close>

lemma handshake_fields:
  "server_handshake_fields magic (server_handshake_bytes magic status expected received capabilities @ rest)
    = (status, expected, received, capabilities_known capabilities)"
proof -
  let ?m = "length magic"
  let ?p = "server_handshake_bytes magic status expected received capabilities @ rest"
  have eq: "?p = magic @ write_u8 status @ write_u32 expected @ write_u32 received @ (write_u64 capabilities @ rest)"
    by (simp add: server_handshake_bytes_def)
  note cut = cut_five [OF refl length_writes(1) length_writes(3) length_writes(3) eq]
  have "?p ! ?m = status" by (simp add: server_handshake_bytes_def nth_append write_u8_def)
  moreover have "take 4 (drop (?m + 1) ?p) = write_u32 expected" "take 4 (drop (?m + 1 + 4) ?p) = write_u32 received"
    using cut by blast+
  moreover have "take 8 (drop (?m + 1 + 4 + 4) ?p) = write_u64 capabilities"
    using cut by simp
  ultimately show ?thesis unfolding server_handshake_fields_def Let_def by simp
qed

definition offer_ok :: "udp_offer option \<Rightarrow> bool" where
  "offer_ok offer \<longleftrightarrow> (case offer of None \<Rightarrow> True | Some d \<Rightarrow> uo_port d \<noteq> 0 \<and> length (uo_token d) = 16)"

lemma udp_offer_parsed:
  assumes "offer_ok offer"
  shows "parse_udp_offer (server_handshake_bytes tcp_magic status expected received capabilities @ udp_offer_bytes offer) = Inr offer"
proof (cases offer)
  case None
  then show ?thesis by (simp add: parse_udp_offer_def udp_offer_bytes_def server_handshake_bytes_def)
next
  case (Some d)
  let ?base = "server_handshake_bytes tcp_magic status expected received capabilities"
  have n: "length ?base = length tcp_magic + 17" by (simp add: server_handshake_bytes_def)
  have d: "uo_port d \<noteq> 0" "length (uo_token d) = 16" using assms Some by (simp_all add: offer_ok_def)
  have port: "of_nat (from_le (write_u16 (uo_port d))) = uo_port d"
  proof -
    have "read_u16 (write_u16 (uo_port d) @ []) = Inr (uo_port d, [])" by (simp only: u16_exact)
    then show ?thesis by (simp add: read_u16_def reading_def read_exact_def yield_def)
  qed
  have eq: "?base @ udp_offer_bytes offer = ?base @ write_u8 1 @ write_u16 (uo_port d) @ uo_token d @ []"
    by (simp add: udp_offer_bytes_def Some)
  note cut = cut_five [OF n length_writes(1) length_writes(2) d(2) eq]
  have "(?base @ udp_offer_bytes offer) ! (length tcp_magic + 17) = 1"
    using n by (simp add: nth_append udp_offer_bytes_def Some write_u8_def)
  moreover have "length (?base @ udp_offer_bytes offer) \<noteq> length tcp_magic + 17" using n by (simp add: udp_offer_bytes_def Some d)
  moreover have "take 2 (drop (length tcp_magic + 17 + 1) (?base @ udp_offer_bytes offer)) = write_u16 (uo_port d)"
    "take 16 (drop (length tcp_magic + 17 + 3) (?base @ udp_offer_bytes offer)) = uo_token d"
    using cut by (simp_all add: add.commute)
  ultimately show ?thesis unfolding parse_udp_offer_def Let_def using port d(1) Some by simp
qed

lemma server_answer_read:
  assumes "offer_ok offer"
  shows "read_server_handshake version \<lparr>ts_incoming =
      frame_bytes (server_handshake_bytes tcp_magic status expected received capabilities @ udp_offer_bytes offer) @ rest, ts_outgoing = sent\<rparr>
    = (handshake_outcome TcpInvalidHandshake TcpVersionMismatch version status expected received
        \<lparr>ah_capabilities = capabilities_known capabilities, ah_udp_offer = offer\<rparr>, \<lparr>ts_incoming = rest, ts_outgoing = sent\<rparr>)"
proof -
  let ?p = "server_handshake_bytes tcp_magic status expected received capabilities @ udp_offer_bytes offer"
  have len: "length ?p = length tcp_magic + 17 \<or> length ?p = length tcp_magic + 17 + 19"
    using assms by (auto simp: server_handshake_bytes_def udp_offer_bytes_def offer_ok_def split: option.splits)
  have small: "length ?p \<le> max_message_bytes" using len by (auto simp: tcp_magic_def)
  have start: "take (length tcp_magic) ?p = tcp_magic" by (simp add: server_handshake_bytes_def)
  have "parse_server_handshake version ?p = handshake_outcome TcpInvalidHandshake TcpVersionMismatch version status expected received
      \<lparr>ah_capabilities = capabilities_known capabilities, ah_udp_offer = offer\<rparr>"
    using len start unfolding parse_server_handshake_def Let_def handshake_fields udp_offer_parsed [OF assms] by auto
  then show ?thesis
    by (auto simp: read_server_handshake_def tcp_then_def read_frame_ok [OF small] tcp_fail_def tcp_return_def split: sum.splits)
qed

lemma client_hello_read:
  assumes "identity_typed (ch_identity h)" "validate_client_identity (ch_identity h) = Inr ()"
  shows "read_client_handshake \<lparr>ts_incoming = frame_bytes (client_handshake_bytes tcp_magic h) @ rest, ts_outgoing = sent\<rparr>
    = (Inr h, \<lparr>ts_incoming = rest, ts_outgoing = sent\<rparr>)"
    and "length (client_handshake_bytes tcp_magic h) \<le> max_message_bytes"
proof -
  show small: "length (client_handshake_bytes tcp_magic h) \<le> max_message_bytes"
    using assms valid_identity_name [OF assms(2)] by (simp add: client_handshake_bytes_def tcp_magic_def identity_typed_def)
  have "parse_client_handshake tcp_magic TcpInvalidHandshake TcpProtocol (client_handshake_bytes tcp_magic h) = Inr h"
    using assms by (simp add: parse_client_handshake_exact)
  then show "read_client_handshake \<lparr>ts_incoming = frame_bytes (client_handshake_bytes tcp_magic h) @ rest, ts_outgoing = sent\<rparr>
    = (Inr h, \<lparr>ts_incoming = rest, ts_outgoing = sent\<rparr>)"
    by (simp add: read_client_handshake_def tcp_then_def read_frame_ok [OF small] tcp_return_def)
qed

lemma write_answer:
  assumes "offer_ok offer"
  shows "write_server_handshake status expected received capabilities offer s = (Inr (), s\<lparr>ts_outgoing := ts_outgoing s
    @ frame_bytes (server_handshake_bytes tcp_magic status expected received capabilities @ udp_offer_bytes offer)\<rparr>)"
proof -
  have "length (server_handshake_bytes tcp_magic status expected received capabilities @ udp_offer_bytes offer) \<le> max_message_bytes"
    using assms by (auto simp: server_handshake_bytes_def udp_offer_bytes_def offer_ok_def tcp_magic_def split: option.splits)
  then show ?thesis by (simp only: write_server_handshake_def write_frame_ok if_True)
qed

text \<open>C10: client and server agree on the session they open.  A client with a valid identity, of any version and with
  any capabilities, writes its hello; a server that reads it, whatever follows it on the connection, takes exactly
  the hello and answers, with a UDP offer, if it has one, of a nonzero port and a token of 16 bytes; and the client that reads the answer sees the same outcome as the server.  With the
  version of the server that is a session with the capabilities both have and know, and the UDP offer of the server
  if these include body poses; with any other version both end with the same mismatch.\<close>
theorem handshake_agrees:
  fixes capabilities server_capabilities :: u64
  assumes "identity_typed identity" "validate_client_identity identity = Inr ()" "offer_ok offer"
  defines "agreed \<equiv> capabilities_known (capabilities_intersection capabilities server_capabilities)"
  shows "\<exists>hello answer.
    (\<forall>s. write_client_handshake version identity capabilities s = (Inr (), s\<lparr>ts_outgoing := ts_outgoing s @ hello\<rparr>))
    \<and> (\<forall>rest sent. complete_server_handshake server_capabilities offer \<lparr>ts_incoming = hello @ rest, ts_outgoing = sent\<rparr>
        = (if version = protocol_version then Inr \<lparr>ac_identity = identity, ac_capabilities = agreed\<rparr>
           else Inl (TcpVersionMismatch protocol_version version), \<lparr>ts_incoming = rest, ts_outgoing = sent @ answer\<rparr>))
    \<and> (\<forall>rest sent. read_server_handshake version \<lparr>ts_incoming = answer @ rest, ts_outgoing = sent\<rparr>
        = (if version = protocol_version then Inr \<lparr>ah_capabilities = agreed,
             ah_udp_offer = if capabilities_contain agreed ephemeral_body_pose then offer else None\<rparr>
           else Inl (TcpVersionMismatch protocol_version version), \<lparr>ts_incoming = rest, ts_outgoing = sent\<rparr>))"
proof -
  let ?h = "\<lparr>ch_protocol_version = version, ch_capabilities = capabilities, ch_identity = identity\<rparr>"
  let ?hello = "frame_bytes (client_handshake_bytes tcp_magic ?h)"
  let ?offer = "if capabilities_contain agreed ephemeral_body_pose then offer else None"
  have h: "identity_typed (ch_identity ?h)" "validate_client_identity (ch_identity ?h) = Inr ()" using assms(1,2) by simp_all
  have none: "offer_ok None" and some: "offer_ok ?offer" using assms(3) by (simp_all add: offer_ok_def)
  have known: "capabilities_known agreed = agreed" by (simp add: agreed_def)
  have hello: "write_client_handshake version identity capabilities s = (Inr (), s\<lparr>ts_outgoing := ts_outgoing s @ ?hello\<rparr>)" for s
    using client_hello_read(2) [OF h] assms(2)
    by (simp add: write_client_handshake_def tcp_then_def tcp_check_def tcp_return_def write_frame_ok)
  show ?thesis
  proof (cases "version = protocol_version")
    case True
    let ?answer = "frame_bytes (server_handshake_bytes tcp_magic 1 version version agreed @ udp_offer_bytes ?offer)"
    have "complete_server_handshake server_capabilities offer \<lparr>ts_incoming = ?hello @ rest, ts_outgoing = sent\<rparr>
      = (Inr \<lparr>ac_identity = identity, ac_capabilities = agreed\<rparr>, \<lparr>ts_incoming = rest, ts_outgoing = sent @ ?answer\<rparr>)" for rest sent
      using True unfolding complete_server_handshake_def tcp_then_def [of read_client_handshake] client_hello_read(1) [OF h]
      by (simp add: tcp_then_def write_server_handshake_accept_def write_answer [OF none] write_answer [OF assms(3)] tcp_return_def Let_def agreed_def)
    moreover have "read_server_handshake version \<lparr>ts_incoming = ?answer @ rest, ts_outgoing = sent\<rparr>
      = (Inr \<lparr>ah_capabilities = agreed, ah_udp_offer = ?offer\<rparr>, \<lparr>ts_incoming = rest, ts_outgoing = sent\<rparr>)" for rest sent
      unfolding server_answer_read [OF some] by (simp add: handshake_outcome_def known)
    ultimately show ?thesis using hello True by (intro exI [of _ ?hello] exI [of _ ?answer]) simp
  next
    case False
    let ?answer = "frame_bytes (server_handshake_bytes tcp_magic 2 protocol_version version 0 @ udp_offer_bytes None)"
    have "complete_server_handshake server_capabilities offer \<lparr>ts_incoming = ?hello @ rest, ts_outgoing = sent\<rparr>
      = (Inl (TcpVersionMismatch protocol_version version), \<lparr>ts_incoming = rest, ts_outgoing = sent @ ?answer\<rparr>)" for rest sent
      using False unfolding complete_server_handshake_def tcp_then_def [of read_client_handshake] client_hello_read(1) [OF h]
      by (simp add: tcp_then_def write_server_handshake_reject_def write_answer [OF none] tcp_fail_def)
    moreover have "read_server_handshake version \<lparr>ts_incoming = ?answer @ rest, ts_outgoing = sent\<rparr>
      = (Inl (TcpVersionMismatch protocol_version version), \<lparr>ts_incoming = rest, ts_outgoing = sent\<rparr>)" for rest sent
      unfolding server_answer_read [OF none] by (simp add: handshake_outcome_def)
    ultimately show ?thesis using hello False by (intro exI [of _ ?hello] exI [of _ ?answer]) simp
  qed
qed

lemma handshake_agrees_witness:
  "\<exists>hello answer. write_client_handshake 43 test_default_identity 3 \<lparr>ts_incoming = [], ts_outgoing = []\<rparr>
      = (Inr (), \<lparr>ts_incoming = [], ts_outgoing = hello\<rparr>)
    \<and> complete_server_handshake 1 None \<lparr>ts_incoming = hello, ts_outgoing = []\<rparr>
      = (Inr \<lparr>ac_identity = test_default_identity, ac_capabilities = 1\<rparr>, \<lparr>ts_incoming = [], ts_outgoing = answer\<rparr>)"
proof -
  have "valid_utf8 (ci_display_name test_default_identity)"
    by (rule valid_utf8_ascii) (simp add: test_default_identity_def)
  then have "identity_typed test_default_identity" "validate_client_identity test_default_identity = Inr ()" "offer_ok None"
    by (simp_all add: identity_typed_def validate_client_identity_def test_default_identity_def profile_is_nil_def offer_ok_def
        replicate_eq_replicate)
  from handshake_agrees [OF this, of 43 3 1] obtain hello answer where
    "\<And>s. write_client_handshake 43 test_default_identity 3 s = (Inr (), s\<lparr>ts_outgoing := ts_outgoing s @ hello\<rparr>)"
    "\<And>rest sent. complete_server_handshake 1 None \<lparr>ts_incoming = hello @ rest, ts_outgoing = sent\<rparr>
      = (Inr \<lparr>ac_identity = test_default_identity, ac_capabilities = capabilities_known (capabilities_intersection 3 1)\<rparr>,
         \<lparr>ts_incoming = rest, ts_outgoing = sent @ answer\<rparr>)" by auto
  from this(1) [of "\<lparr>ts_incoming = [], ts_outgoing = []\<rparr>"] this(2) [of "[]" "[]"] show ?thesis
    by (intro exI [of _ hello] exI [of _ answer]) (simp add: capabilities_known_def capabilities_intersection_def)
qed

section \<open>Batches of updates\<close>

definition frames_bytes :: "bytes list \<Rightarrow> bytes" where
  "frames_bytes payloads = concat (map frame_bytes payloads)"

lemma frames_bytes_simps [simp]:
  "frames_bytes [] = []" "frames_bytes (p # ps) = frame_bytes p @ frames_bytes ps"
  by (simp_all add: frames_bytes_def)

abbreviation (input) update_frames :: "wire_update list \<Rightarrow> bytes list \<Rightarrow> bool" where
  "update_frames updates frames \<equiv> list_all2 (\<lambda>update frame. decode_server_update frame = Inr update \<and> length frame \<le> max_message_bytes)
     updates frames"

lemma ws_updates_written:
  assumes "ws_write_updates updates payload = Inr written" "\<forall>update \<in> set updates. update_fits update"
  shows "\<exists>frames. update_frames updates frames \<and> written = payload @ frames_bytes frames"
  using assms
proof (induction updates arbitrary: payload)
  case Nil
  then show ?case by simp
next
  case (Cons update updates)
  obtain frame where frame: "encode_server_update update = Inr frame" "length frame \<le> max_message_bytes"
      "ws_write_updates updates (payload @ frame_bytes frame) = Inr written"
    using Cons.prems(1) by (auto simp: checked_websocket_message_len_def checked_websocket_u32_len_def frame_bytes_def
        split: sum.splits if_splits)
  obtain frames where "update_frames updates frames" "written = (payload @ frame_bytes frame) @ frames_bytes frames"
    using Cons.IH [OF frame(3)] Cons.prems(2) by auto
  moreover have "decode_server_update frame = Inr update" using server_update_round_trip Cons.prems(2) frame(1) by simp
  ultimately show ?case using frame(2) by (intro exI [of _ "frame # frames"]) simp
qed

lemma updates_written:
  assumes "write_updates updates s = (Inr (), s')" "\<forall>update \<in> set updates. update_fits update"
  shows "\<exists>frames. update_frames updates frames \<and> s' = s\<lparr>ts_outgoing := ts_outgoing s @ frames_bytes frames\<rparr>"
  using assms
proof (induction updates arbitrary: s)
  case Nil
  then show ?case by (simp add: tcp_return_def)
next
  case (Cons update updates)
  obtain frame where frame: "encode_server_update update = Inr frame" "length frame \<le> max_message_bytes"
      "write_updates updates (s\<lparr>ts_outgoing := ts_outgoing s @ frame_bytes frame\<rparr>) = (Inr (), s')"
    using Cons.prems(1) by (auto simp: tcp_then_def tcp_check_def tcp_fail_def tcp_return_def write_frame_ok split: sum.splits if_splits)
  obtain frames where "update_frames updates frames"
      "s' = s\<lparr>ts_outgoing := ts_outgoing s @ frame_bytes frame\<rparr>\<lparr>ts_outgoing := (ts_outgoing s @ frame_bytes frame) @ frames_bytes frames\<rparr>"
    using Cons.IH [OF frame(3)] Cons.prems(2) by auto
  moreover have "decode_server_update frame = Inr update" using server_update_round_trip Cons.prems(2) frame(1) by simp
  ultimately show ?case using frame(2) by (intro exI [of _ "frame # frames"]) simp
qed

lemma updates_read:
  assumes "update_frames updates frames"
  shows "read_updates (length updates) \<lparr>ts_incoming = frames_bytes frames @ rest, ts_outgoing = sent\<rparr>
    = (Inr updates, \<lparr>ts_incoming = rest, ts_outgoing = sent\<rparr>)"
  using assms by (induction rule: list_all2_induct) (simp_all add: tcp_return_def tcp_then_def read_frame_ok tcp_check_def)

lemma get_range_at: "get_range (pre @ xs @ post) (length pre) (length pre + length xs) = Some xs"
  by (simp add: get_range_def)

lemma websocket_u32_at:
  "read_websocket_u32 (pre @ write_u32 v @ post) (length pre) field = Inr (v, length pre + 4)"
  using get_range_at [of pre "write_u32 v" post] by (simp add: read_websocket_u32_def)

lemma ws_updates_read:
  assumes "update_frames updates frames"
  shows "ws_read_updates (length updates) (pre @ frames_bytes frames) (length pre) = Inr (updates, length pre + length (frames_bytes frames))"
  using assms
proof (induction arbitrary: pre rule: list_all2_induct)
  case Nil
  then show ?case by simp
next
  case (Cons update updates frame frames)
  let ?len = "of_nat (length frame) :: u32"
  have u32: "read_websocket_u32 (pre @ frame_bytes frame @ frames_bytes frames) (length pre) ''server update'' = Inr (?len, length pre + 4)"
    using websocket_u32_at [of pre ?len "frame @ frames_bytes frames"] by (simp add: frame_bytes_def)
  have body: "get_range (pre @ frame_bytes frame @ frames_bytes frames) (length pre + 4) (length pre + 4 + length frame) = Some frame"
    using get_range_at [of "pre @ write_u32 ?len" frame "frames_bytes frames"] by (simp add: frame_bytes_def)
  have more: "ws_read_updates (length updates) (pre @ frame_bytes frame @ frames_bytes frames) (length pre + 4 + length frame)
      = Inr (updates, length pre + length (frame_bytes frame @ frames_bytes frames))"
    using Cons.IH [of "pre @ frame_bytes frame"] by (simp add: add.assoc)
  have small: "unat ?len = length frame" "\<not> max_message_bytes < length frame" using Cons.hyps(1) by (simp_all add: unat_of_nat)
  show ?case using Cons.hyps(1) u32 body more small by (simp add: Let_def)
qed

text \<open>C11: batches of updates arrive over both transports.  When the updates are valid for the receiver and the WebSocket
  encoder accepts the batch, its payload decodes to the same updates in the same order; when a TCP connection wrote
  the batch, the peer reads exactly these updates and leaves on the stream whatever was sent after them.\<close>
theorem update_batches_arrive:
  assumes "\<forall>update \<in> set updates. update_fits update"
  shows "(\<forall>payload. encode_websocket_server_update_batch updates = Inr payload \<longrightarrow>
      decode_websocket_server_update_batch payload = Inr updates)
    \<and> (\<forall>s s'. write_server_update_batch updates s = (Inr (), s') \<longrightarrow>
      (\<exists>bytes. s' = s\<lparr>ts_outgoing := ts_outgoing s @ bytes\<rparr> \<and> (\<forall>rest sent. read_server_update_batch
        \<lparr>ts_incoming = bytes @ rest, ts_outgoing = sent\<rparr> = (Inr updates, \<lparr>ts_incoming = rest, ts_outgoing = sent\<rparr>))))"
proof (intro conjI allI impI)
  fix payload assume "encode_websocket_server_update_batch updates = Inr payload"
  then have few: "length updates \<le> max_message_bytes" and small: "length payload \<le> max_message_bytes"
    and wrote: "ws_write_updates updates (write_u32 (of_nat (length updates))) = Inr payload"
    by (auto simp: encode_websocket_server_update_batch_def checked_websocket_u32_len_def checked_websocket_message_len_def
        ws_checked_def split: sum.splits if_splits)
  obtain frames where frames: "update_frames updates frames" "payload = write_u32 (of_nat (length updates)) @ frames_bytes frames"
    using ws_updates_written [OF wrote assms] by blast
  have "read_websocket_u32 payload 0 ''server update batch'' = Inr (of_nat (length updates), 4)"
    using websocket_u32_at [of "[]"] by (simp add: frames(2))
  moreover have "ws_read_updates (length updates) payload 4 = Inr (updates, length payload)"
    using ws_updates_read [OF frames(1), of "write_u32 (of_nat (length updates))"] by (simp add: frames(2))
  ultimately show "decode_websocket_server_update_batch payload = Inr updates"
    using small few by (simp add: decode_websocket_server_update_batch_def checked_websocket_message_len_def)
next
  fix s s' assume "write_server_update_batch updates s = (Inr (), s')"
  then have few: "length updates \<le> max_message_bytes"
    and wrote: "write_updates updates (s\<lparr>ts_outgoing := ts_outgoing s @ write_u32 (of_nat (length updates))\<rparr>) = (Inr (), s')"
    by (auto simp: write_server_update_batch_def tcp_then_def checked_u32_len_def tcp_fail_def tcp_return_def stream_write_u32_def
        stream_write_all_def split: if_splits)
  obtain frames where frames: "update_frames updates frames"
      "s' = s\<lparr>ts_outgoing := ts_outgoing s @ write_u32 (of_nat (length updates))\<rparr>
        \<lparr>ts_outgoing := (ts_outgoing s @ write_u32 (of_nat (length updates))) @ frames_bytes frames\<rparr>"
    using updates_written [OF wrote assms] by auto
  show "\<exists>bytes. s' = s\<lparr>ts_outgoing := ts_outgoing s @ bytes\<rparr> \<and> (\<forall>rest sent. read_server_update_batch
        \<lparr>ts_incoming = bytes @ rest, ts_outgoing = sent\<rparr> = (Inr updates, \<lparr>ts_incoming = rest, ts_outgoing = sent\<rparr>))"
    using few by (intro exI [of _ "write_u32 (of_nat (length updates)) @ frames_bytes frames"])
      (simp add: frames(2) read_server_update_batch_def tcp_then_def stream_read_u32_write updates_read [OF frames(1)])
qed

lemma update_batches_arrive_witness:
  "\<exists>payload. encode_websocket_server_update_batch [OtherUpdate UpSessionReady, OtherUpdate (UpKeepAlive 7)] = Inr payload
    \<and> decode_websocket_server_update_batch payload = Inr [OtherUpdate UpSessionReady, OtherUpdate (UpKeepAlive 7)]"
proof -
  let ?us = "[OtherUpdate UpSessionReady, OtherUpdate (UpKeepAlive 7)] :: wire_update list"
  have fits: "\<forall>update \<in> set ?us. update_fits update" by simp
  have "\<exists>payload. encode_websocket_server_update_batch ?us = Inr payload"
    by (simp add: encode_websocket_server_update_batch_def checked_websocket_u32_len_def checked_websocket_message_len_def
        ws_checked_def encode_server_update_def)
  then show ?thesis using update_batches_arrive [OF fits] by blast
qed

section \<open>A stream of commands\<close>

lemma frame_cut:
  assumes "length payload \<le> max_message_bytes" "0 < n" "n < length (frame_bytes payload)"
  shows "try_read_client_command_frame \<lparr>ts_incoming = take n (frame_bytes payload), ts_outgoing = sent\<rparr>
    = (Inl TcpUnexpectedEof, \<lparr>ts_incoming = [], ts_outgoing = sent\<rparr>)"
proof (cases "n < 4")
  case True
  have "frame_bytes payload \<noteq> []" using frame_length [of payload] by fastforce
  then show ?thesis using assms True
    by (auto simp: try_read_client_command_frame_def try_read_frame_def tcp_then_def stream_try_read_u32_def stream_read_u32_def
        stream_read_exact_def min_def)
next
  case False
  then have "take n (frame_bytes payload) = write_u32 (of_nat (length payload)) @ take (n - 4) payload"
    by (simp add: frame_bytes_def)
  moreover have "n - 4 < length payload" using assms(3) False by simp
  ultimately show ?thesis using assms(1)
    by (simp add: try_read_client_command_frame_def try_read_frame_def tcp_then_def stream_try_read_u32_write stream_read_exact_def
        unat_of_nat)
qed

lemma command_frame_read:
  assumes "decode_client_command payload = Inr command" "length payload \<le> max_message_bytes"
  shows "try_read_client_command_frame \<lparr>ts_incoming = frame_bytes payload @ rest, ts_outgoing = sent\<rparr>
    = (Inr (Some command), \<lparr>ts_incoming = rest, ts_outgoing = sent\<rparr>)"
  using assms by (simp add: try_read_client_command_frame_def tcp_then_def try_read_frame_ok tcp_check_def tcp_return_def)

lemma no_more_frames:
  "read_client_command_frames \<lparr>ts_incoming = [], ts_outgoing = sent\<rparr> = (Inr [], \<lparr>ts_incoming = [], ts_outgoing = sent\<rparr>)"
  by (simp add: read_client_command_frames.simps try_read_client_command_frame_def tcp_then_def try_read_frame_def
      stream_try_read_u32_def tcp_return_def)

lemma commands_read_until:
  assumes "list_all2 (\<lambda>command payload. decode_client_command payload = Inr command \<and> length payload \<le> max_message_bytes) commands payloads"
    and "n \<le> length (frames_bytes payloads)"
  shows "(\<forall>k \<le> length payloads. n = length (frames_bytes (take k payloads)) \<longrightarrow>
      read_client_command_frames \<lparr>ts_incoming = take n (frames_bytes payloads), ts_outgoing = sent\<rparr>
        = (Inr (take k commands), \<lparr>ts_incoming = [], ts_outgoing = sent\<rparr>))
    \<and> ((\<forall>k \<le> length payloads. n \<noteq> length (frames_bytes (take k payloads))) \<longrightarrow>
      read_client_command_frames \<lparr>ts_incoming = take n (frames_bytes payloads), ts_outgoing = sent\<rparr>
        = (Inl TcpUnexpectedEof, \<lparr>ts_incoming = [], ts_outgoing = sent\<rparr>))"
  using assms
proof (induction arbitrary: n rule: list_all2_induct)
  case Nil
  then show ?case by (simp add: no_more_frames)
next
  case (Cons command commands payload payloads)
  let ?read = "\<lambda>n ps. read_client_command_frames \<lparr>ts_incoming = take n (frames_bytes ps), ts_outgoing = sent\<rparr>"
  let ?f = "length (frame_bytes payload)"
  have small: "length payload \<le> max_message_bytes" and decoded: "decode_client_command payload = Inr command" using Cons.hyps(1) by auto
  show ?case
  proof (cases "n < ?f")
    case True
    have none: "n = length (frames_bytes (take k (payload # payloads))) \<longleftrightarrow> n = 0 \<and> k = 0" for k
      using True by (cases k) auto
    have cut: "take n (frames_bytes (payload # payloads)) = take n (frame_bytes payload)" using True by simp
    have "?read n (payload # payloads) = (Inl TcpUnexpectedEof, \<lparr>ts_incoming = [], ts_outgoing = sent\<rparr>)" if "0 < n"
      unfolding cut by (subst read_client_command_frames.simps) (simp only: frame_cut [OF small that True] prod.case sum.case)
    then show ?thesis unfolding none using no_more_frames by (auto simp del: frames_bytes_simps frame_length)
  next
    case False
    define m where "m = n - ?f"
    have n: "n = ?f + m" using False by (simp add: m_def)
    have m: "m \<le> length (frames_bytes payloads)" using Cons.prems n by simp
    have cut: "take n (frames_bytes (payload # payloads)) = frame_bytes payload @ take m (frames_bytes payloads)" by (simp add: n)
    have step: "?read n (payload # payloads) = (case ?read m payloads of (Inl e, s) \<Rightarrow> (Inl e, s) | (Inr cs, s) \<Rightarrow> (Inr (command # cs), s))"
      unfolding cut by (subst read_client_command_frames.simps)
        (simp only: command_frame_read [OF decoded small] prod.case sum.case option.case)
    have shift: "n = length (frames_bytes (take (Suc k) (payload # payloads))) \<longleftrightarrow> m = length (frames_bytes (take k payloads))" for k
      by (simp add: n)
    note ih = Cons.IH [OF m]
    show ?thesis
    proof (intro conjI allI impI)
      fix k assume k: "k \<le> length (payload # payloads)" "n = length (frames_bytes (take k (payload # payloads)))"
      then obtain j where j: "k = Suc j" using False by (cases k) auto
      then have "?read m payloads = (Inr (take j commands), \<lparr>ts_incoming = [], ts_outgoing = sent\<rparr>)"
        using ih k(1) k(2) [unfolded j shift] by (simp add: j)
      then show "?read n (payload # payloads) = (Inr (take k (command # commands)), \<lparr>ts_incoming = [], ts_outgoing = sent\<rparr>)"
        unfolding step j by simp
    next
      assume none: "\<forall>k \<le> length (payload # payloads). n \<noteq> length (frames_bytes (take k (payload # payloads)))"
      have "\<forall>k \<le> length payloads. m \<noteq> length (frames_bytes (take k payloads))"
      proof (intro allI impI)
        fix k assume "k \<le> length payloads"
        then show "m \<noteq> length (frames_bytes (take k payloads))" using none [rule_format, of "Suc k"] shift by simp
      qed
      then have "?read m payloads = (Inl TcpUnexpectedEof, \<lparr>ts_incoming = [], ts_outgoing = sent\<rparr>)" using ih by blast
      then show "?read n (payload # payloads) = (Inl TcpUnexpectedEof, \<lparr>ts_incoming = [], ts_outgoing = sent\<rparr>)"
        unfolding step by simp
    qed
  qed
qed

text \<open>C12: a broken stream of valid commands never delivers half a command, and never silently loses one. A command is valid
  when the decoder takes what the encoder writes for it: the coordinates and angles of a movement and the location of a
  hit are finite, no missed hit is marked as inside a block, integers are in their fields' widths, and its payload is at
  most the message limit of 64 MiB. Take the bytes that writing some valid commands produces and end the stream after any
  of them: if the end falls between two commands, reading gives exactly the commands before it; anywhere else, even inside
  a length, it is the end-of-stream error. (The encoder does not check the numbers: a command with a NaN position is
  written, and the reader refuses it as a protocol error; this is outside the claim.)\<close>
theorem cut_command_streams:
  assumes "list_all2 (\<lambda>command payload. encode_client_command command = Inr payload \<and> command_fits command
      \<and> length payload \<le> max_message_bytes) commands payloads"
    and "n \<le> length (frames_bytes payloads)"
  shows "foldl (\<lambda>s command. snd (write_client_command_frame command s)) \<lparr>ts_incoming = [], ts_outgoing = []\<rparr> commands
      = \<lparr>ts_incoming = [], ts_outgoing = frames_bytes payloads\<rparr>
    \<and> (\<forall>k \<le> length payloads. n = length (frames_bytes (take k payloads)) \<longrightarrow>
      read_client_command_frames \<lparr>ts_incoming = take n (frames_bytes payloads), ts_outgoing = sent\<rparr>
        = (Inr (take k commands), \<lparr>ts_incoming = [], ts_outgoing = sent\<rparr>))
    \<and> ((\<forall>k \<le> length payloads. n \<noteq> length (frames_bytes (take k payloads))) \<longrightarrow>
      read_client_command_frames \<lparr>ts_incoming = take n (frames_bytes payloads), ts_outgoing = sent\<rparr>
        = (Inl TcpUnexpectedEof, \<lparr>ts_incoming = [], ts_outgoing = sent\<rparr>))"
proof -
  have written: "foldl (\<lambda>s command. snd (write_client_command_frame command s)) \<lparr>ts_incoming = [], ts_outgoing = before\<rparr> commands
      = \<lparr>ts_incoming = [], ts_outgoing = before @ frames_bytes payloads\<rparr>" for before
    using assms(1)
    by (induction arbitrary: before rule: list_all2_induct)
      (simp_all add: write_client_command_frame_def tcp_then_def tcp_check_def tcp_return_def write_frame_ok)
  have "list_all2 (\<lambda>command payload. decode_client_command payload = Inr command \<and> length payload \<le> max_message_bytes) commands payloads"
    by (rule list_all2_mono [OF assms(1)]) (simp add: client_command_exact)
  from commands_read_until [OF this assms(2)] written [of "[]"] show ?thesis by simp
qed

lemma cut_command_streams_witness:
  "read_client_command_frames \<lparr>ts_incoming = take 4 (frames_bytes [[12]]), ts_outgoing = []\<rparr>
      = (Inl TcpUnexpectedEof, \<lparr>ts_incoming = [], ts_outgoing = []\<rparr>)"
proof -
  have ok: "list_all2 (\<lambda>command payload. encode_client_command command = Inr payload \<and> command_fits command
      \<and> length payload \<le> max_message_bytes) [Respawn] [[12]]"
    by (simp add: encode_client_command_def write_u8_def)
  have "4 \<noteq> length (frames_bytes (take k [[12]]))" for k by (cases k) simp_all
  then show ?thesis using cut_command_streams [OF ok, of 4 "[]"] by simp
qed

section \<open>WebSocket handshakes, packets and local sessions\<close>

lemma websocket_hello:
  assumes "identity_typed identity" "validate_client_identity identity = Inr ()"
  shows "\<exists>payload. encode_websocket_client_handshake version identity capabilities = Inr payload
    \<and> decode_websocket_client_handshake payload
      = Inr \<lparr>ch_protocol_version = version, ch_capabilities = capabilities, ch_identity = identity\<rparr>"
proof -
  let ?h = "\<lparr>ch_protocol_version = version, ch_capabilities = capabilities, ch_identity = identity\<rparr>"
  let ?p = "client_handshake_bytes ws_magic ?h"
  have small: "length ?p \<le> max_message_bytes"
    using assms valid_identity_name [OF assms(2)] by (simp add: client_handshake_bytes_def ws_magic_def identity_typed_def)
  have "parse_client_handshake ws_magic WsInvalidHandshake WsProtocol ?p = Inr ?h"
    using assms by (simp add: parse_client_handshake_exact)
  then show ?thesis using small assms(2)
    by (simp add: encode_websocket_client_handshake_def decode_websocket_client_handshake_def ws_checked_def
        checked_websocket_message_len_def)
qed

lemma websocket_answer:
  "\<exists>payload. encode_websocket_server_handshake status expected received capabilities = Inr payload
    \<and> decode_websocket_server_handshake payload version = handshake_outcome WsInvalidHandshake WsVersionMismatch version
        status expected received (capabilities_known capabilities)"
proof -
  let ?p = "server_handshake_bytes ws_magic status expected received capabilities"
  have len: "length ?p = length ws_magic + 17" and start: "take (length ws_magic) ?p = ws_magic"
    by (simp_all add: server_handshake_bytes_def)
  have small: "\<not> max_message_bytes < length ?p" using len by (simp add: ws_magic_def)
  have "server_handshake_fields ws_magic ?p = (status, expected, received, capabilities_known capabilities)"
    using handshake_fields [of ws_magic status expected received capabilities "[]"] by simp
  then show ?thesis using len start small
    by (simp add: encode_websocket_server_handshake_def decode_websocket_server_handshake_def ws_checked_def
        checked_websocket_message_len_def)
qed

fun packet_encoding :: "udp_packet \<Rightarrow> udp_error + bytes" where
  "packet_encoding (UdpAttach token) = encode_packet 1 token []"
| "packet_encoding (UdpAttachAck token) = encode_packet 2 token []"
| "packet_encoding (UdpClientMessage token message) = encode_client_packet token message"
| "packet_encoding (UdpServerMessage token message) = encode_server_packet token message"

fun packet_token :: "udp_packet \<Rightarrow> bytes" where
  "packet_token (UdpAttach token) = token"
| "packet_token (UdpAttachAck token) = token"
| "packet_token (UdpClientMessage token _) = token"
| "packet_token (UdpServerMessage token _) = token"

lemma packet_round_trip:
  assumes "packet_encoding packet = Inr bs" "length (packet_token packet) = 16"
  shows "decode_packet bs = Inr packet"
proof -
  have cut: "\<exists>tag payload. bs = udp_magic @ [tag] @ packet_token packet @ payload \<and> encode_packet tag (packet_token packet) payload = Inr bs
      \<and> (case packet of UdpAttach _ \<Rightarrow> tag = 1 \<and> payload = [] | UdpAttachAck _ \<Rightarrow> tag = 2 \<and> payload = []
         | UdpClientMessage _ m \<Rightarrow> tag = 3 \<and> encode_client_ephemeral_message m = Inr payload
         | UdpServerMessage _ m \<Rightarrow> tag = 4 \<and> encode_server_ephemeral_message m = Inr payload)"
    using assms(1)
    by (cases packet) (auto simp: encode_client_packet_def encode_server_packet_def encode_packet_def Let_def split: sum.splits if_splits)
  then obtain tag payload where bs: "bs = udp_magic @ [tag] @ packet_token packet @ payload"
      and small: "length bs \<le> max_udp_packet_bytes"
      and kind: "case packet of UdpAttach _ \<Rightarrow> tag = 1 \<and> payload = [] | UdpAttachAck _ \<Rightarrow> tag = 2 \<and> payload = []
         | UdpClientMessage _ m \<Rightarrow> tag = 3 \<and> encode_client_ephemeral_message m = Inr payload
         | UdpServerMessage _ m \<Rightarrow> tag = 4 \<and> encode_server_ephemeral_message m = Inr payload"
    using assms(2) by (auto simp: encode_packet_def Let_def split: if_splits)
  have parts: "bs ! length udp_magic = tag" "take 16 (drop (length udp_magic + 1) bs) = packet_token packet"
    "drop (length udp_magic + 1 + 16) bs = payload" "take (length udp_magic) bs = udp_magic"
    "\<not> length bs < length udp_magic + 1 + 16"
    unfolding bs using assms(2) by (simp_all add: nth_append)
  show ?thesis
    using small kind parts(5) unfolding decode_packet_def Let_def parts(1-4)
    by (cases packet) (simp_all add: client_ephemeral_exact [symmetric] server_ephemeral_exact [symmetric])
qed

lemma local_commands_in_order:
  "drain_client_commands (fold send_client_command commands t) = (lt_client_to_server t @ commands,
     t\<lparr>lt_client_to_server := []\<rparr>)"
  by (induction commands arbitrary: t) (simp_all add: send_client_command_def drain_client_commands_def)

lemma local_updates_in_order:
  "drain_server_updates (fold send_server_update updates t) = (lt_server_to_client t @ updates,
     t\<lparr>lt_server_to_client := []\<rparr>)"
  by (induction updates arbitrary: t) (simp_all add: send_server_update_def drain_server_updates_def)

end
