(* ===== verification/Spec2Isabelle.thy ===== *)
theory Spec2Isabelle imports CoreProperties LightProperties LightEngineProperties ServerTicketProperties
  ServerTrackingProperties ServerTrackingDiagnostics ServerInventory ServerCadence GenRandomProperties
  ProtocolProperties MeshFlood PathSearchRuns
  NetProperties
begin

text \<open>
  Verification library for the integer core of the voxel game under \<open>native/crates/\<close>.

  \<^bold>\<open>What is modelled.\<close>  These crates, whole or in parts: \<open>mclone-core\<close>, the vocabulary every
  other crate uses (positions, packed chunk sections, world topology, parsed names), \<open>mclone-light\<close>, the
  light engine that the server runs for loaded chunks, and from \<open>mclone-server\<close> the chunk tickets, which
  decide what chunks are loaded, the chunk tracking, which decides who is told about them, the inventories
  and the cadence of the simulation; \<open>mclone-protocol\<close>, the messages between client and server, and \<open>mclone-net\<close>, the transports that
  carry them; from
  \<open>mclone-worldgen\<close> the random source all generation draws from; from \<open>mclone-season\<close> the calendar;
  from \<open>mclone-mesh\<close> which faces of a section see each other; \<open>mclone-path\<close>, the path search of mobs and teleports.
  Light is the heart of the library: packed keys address blocks and sections, nibble arrays hold levels, a section storage keeps an updating and a visible copy, an
  incremental flood fill brings levels to their fixed point, and a level engine shares a budget between
  block light and sky light.

  \<^bold>\<open>Theories and sources.\<close>
  \<^item> \<open>Prelude\<close>: widths and wrap-around of \<open>i32\<close>/\<open>i64\<close>, saturating bytes, rust division, vectors, the
    option monad for panics, the collections \<open>width_simps\<close> and \<open>model_simps\<close>.
  \<^item> \<open>IndexedStore\<close>: the locale of stores with fixed slots; \<open>CoreBits\<close> (\<open>bit_storage.rs\<close>) and
    \<open>LightDataLayer\<close> (\<open>data_layer.rs\<close>) interpret it.
  \<^item> \<open>CorePos\<close> (\<open>pos.rs\<close>, \<open>chunk.rs\<close>), \<open>CoreChunk\<close> and \<open>CoreSnapshot\<close> (\<open>chunk.rs\<close>), \<open>CoreTopology\<close>
    (\<open>topology.rs\<close>), \<open>CoreNames\<close> (\<open>animation.rs\<close>, \<open>terrain_lod.rs\<close>): \<open>mclone-core\<close>.
  \<^item> \<open>LightPos\<close> (\<open>pos.rs\<close>), \<open>LightPacked\<close> (\<open>packed.rs\<close>), \<open>LightMaps\<close> (\<open>storage_map.rs\<close>), \<open>LightSections\<close>
    (\<open>section_storage.rs\<close>), \<open>LightGraph\<close> (\<open>dynamic_graph.rs\<close>), \<open>LightReports\<close> and \<open>LightLevel\<close>
    (\<open>level_engine.rs\<close>), \<open>LightBlock\<close> (\<open>block_engine.rs\<close>), \<open>LightSky\<close> (\<open>sky_storage.rs\<close>),
    \<open>LightSkyEngine\<close> (\<open>sky_engine.rs\<close>): \<open>mclone-light\<close>.
  \<^item> \<open>LightQueues\<close>, \<open>LightFixedPoint\<close>, \<open>LightGraphClient\<close>, \<open>LightBlockRuns\<close>, \<open>LightSkyRuns\<close>,
    \<open>LightSkyChunks\<close>: the lemmas about them.
  \<^item> \<open>ServerTickets\<close>: \<open>distance_manager.rs\<close> and the ticket types of \<open>types.rs\<close> in \<open>mclone-server\<close>;
    \<open>ServerTicketLevels\<close>, \<open>ServerTicketCache\<close>, \<open>ServerPromotions\<close>, \<open>ServerTicketRuns\<close> and
    \<open>ServerTicketQueries\<close>: the lemmas about them.
  \<^item> \<open>ServerViews\<close>, \<open>ServerTracking\<close>, \<open>ServerTrackingDiagnostics\<close>: \<open>player_chunk_tracking.rs\<close> in
    \<open>mclone-server\<close>; \<open>ServerTrackingRuns\<close> and \<open>ServerTrackingTraces\<close>: the lemmas about it;
    \<open>ServerInterest\<close>: the tracking and the tickets together.
  \<^item> \<open>ServerInventory\<close> (\<open>inventory.rs\<close>, \<open>item_stack.rs\<close>) and \<open>ServerCadence\<close> (\<open>cadence.rs\<close>), each with its
    properties; \<open>GenRandom\<close>, \<open>GenRandomRuns\<close> and \<open>GenRandomProperties\<close> (\<open>prng.rs\<close> in \<open>mclone-worldgen\<close>).
  \<^item> \<open>ProtocolBytes\<close> (the byte cursor), \<open>ProtocolCommands\<close>, \<open>ProtocolChunks\<close>, \<open>ProtocolEntities\<close>, \<open>ProtocolSession\<close>
    and \<open>ProtocolUpdates\<close> (\<open>lib.rs\<close>, \<open>ephemeral.rs\<close>, \<open>player_lifecycle.rs\<close>), \<open>ProtocolKeys\<close>
    (\<open>realm_dimension.rs\<close>, \<open>statistics.rs\<close>), \<open>ProtocolGuides\<close> (\<open>ecology.rs\<close>): \<open>mclone-protocol\<close>;
    \<open>SeasonCalendar\<close>: the calendar of \<open>mclone-season\<close>, with its property.
  \<^item> \<open>NetHandshake\<close>, \<open>NetFrames\<close> (\<open>lib.rs\<close>) and \<open>NetSessions\<close> (\<open>lib.rs\<close>, \<open>native_udp.rs\<close>): \<open>mclone-net\<close>;
    \<open>NetProperties\<close>: its properties.
  \<^item> \<open>MeshVisibility\<close> (\<open>visibility.rs\<close> in \<open>mclone-mesh\<close>) and \<open>MeshFlood\<close>: the lemmas about it, with its property.
  \<^item> \<open>FloatBits\<close>: \<open>f32\<close> arithmetic on bit patterns, for the protocol's validations and for \<open>PathSearch\<close>
    (\<open>lib.rs\<close> in \<open>mclone-path\<close>); \<open>PathSearchRuns\<close>: the lemmas about the search, with its properties.
  \<^item> \<open>CoreProperties\<close>, \<open>LightProperties\<close>, \<open>LightEngineProperties\<close>, \<open>ServerTicketProperties\<close>,
    \<open>ServerTrackingProperties\<close>, \<open>ProtocolProperties\<close>: the properties with their witnesses.

  \<^bold>\<open>State and effects.\<close>  A struct is a record, an enum a datatype, a method that changes \<open>self\<close> returns
  the new record.  A panic (an index out of bounds, a failed assertion, an \<open>expect\<close>) is \<open>None\<close>; an
  \<open>Err\<close> is \<open>Inl\<close>.  Coordinates and keys are integers wrapped at the width of the code, levels and
  budgets are naturals.  Arithmetic follows a release build, where overflow wraps.  Ordered and hashed
  sets and maps are \<open>fset\<close> and \<open>fmap\<close>, walked in key order.  Worlds are functions, for any caller's
  world.  The graph's callback trait is a record of functions over the client's storage.

  \<^bold>\<open>Interfaces.\<close>  \<open>graph_client\<close> states what any client of the flood fill promises: levels can be read
  and written, callbacks stay inside the node space.  It gives: no operation panics, queues stay
  consistent with levels, left-over budget means drained queues.  \<open>min_fixed_point\<close> adds symmetric
  neighbours and a recomputation that is a minimum (hence a \<open>graph_client\<close>, by \<open>sublocale\<close>): the pending
  level of every consistent node stays its target.  \<open>strict_min_fixed_point\<close> adds levels that fall off
  along edges: some budget drains the graph, and the fixed point is unique.  The block engine interprets
  the strongest one, the sky engine \<open>graph_client\<close>.

  \<^bold>\<open>Tickets.\<close>  A manager starts with its topology and no ticket; \<open>dm_reachable\<close> closes this state under
  the operations of the scheduler.  Its invariant relates the cached levels to the tickets: the map
  covers every ticket, and every level is explained by a ticket that is not recorded as silent.  It
  holds when the topology passes the code's own check that a square of the largest ticket radius sees no
  place twice (\<open>topology_fits\<close>, on a cylinder a period of at least \<open>2 * r + 1\<close> chunks with \<open>r \<ge> 13\<close>), and \<open>dm_reachable\<close>
  starts only from such topologies; \<open>allowed_run\<close> is the same closure over a list of operations.  The server
  makes the check with the radii of views only, so what is said of levels excludes narrow cylinders that it accepts;
  \<open>narrow_cylinder_level\<close> shows what the cache holds there.

  \<^bold>\<open>Tracking.\<close>  A tracking starts empty over a valid topology; \<open>tracked\<close> closes it, together with the chunks
  that the client of every source holds, under joins, departures, views, updates and drains in any
  order.  Queues, counters and aggregate sets are implementation: \<open>audience_of\<close> forgets them and keeps the
  seen and the published chunks per source, \<open>audience_step\<close> says what every operation means there.  An
  observer joins under a fresh identity, as the server allots them, and chunk data is queued through the
  operations made for it; both are \<open>step_allowed\<close>.  The aggregate sets become the interest of the ticket
  manager, whose levels then cover what is seen.

  \<^bold>\<open>Inventories and cadence.\<close>  An inventory's slots are forgotten by \<open>inventory_bag\<close>, the multiset of its
  items; adding a stack fills exactly the room there is, and no run of operations makes or loses an item.
  The cadence turns elapsed nanoseconds into host frames and those into steps of two lanes; over any run
  of calls nothing is lost to rounding.  The counters of a call saturate at 32 bits, the clock and the lanes
  do not: every call is given exactly, saturation included, and totals where no counter reached its maximum.

  \<^bold>\<open>Random source.\<close>  Draws are written once over a function that yields bits and stated for any
  \<open>bit_source\<close>, the locale of generators whose state is a 48-bit seed; the plain and the counting source
  both interpret it.  The generator passes through every seed, so the rejection loop of a bounded draw
  returns, and every accepted value has equally many raw draws behind it.

  \<^bold>\<open>Protocol.\<close>  A reader is a function from the bytes that remain to an error or a value and the rest; a
  writer gives the bytes it appends, or an error where the code can fail.  Every reader has one lemma that
  says as an equivalence what it accepts (the collection \<open>reads\<close>); \<open>codec\<close> and \<open>exact_codec\<close> are the locales of
  such readers, \<open>tag_table\<close> that of a match on a tag byte, \<open>field_guide\<close> that of a table of observation
  bits, each interpreted once for every type of the wire.  \<open>update_fits\<close> and \<open>command_fits\<close> say what the
  reader accepts: widths and type invariants of the code, and its own validations.  \<open>streaming\<close> readers do
  not look past what they take, so a cut message is refused.  Floats are bit patterns.  The update type
  instantiates the one that the chunk tracking queues.

  \<^bold>\<open>Transports.\<close>  A TCP connection is the bytes that will still arrive and the bytes written so far; an operation
  is a function on it that returns a value or an error (\<open>tcp_then\<close> is the operator \<open>?\<close>).  The end of the stream is
  the only failure of the operating system that is modelled.  WebSocket payloads are decoded with the code's cursor.
  Both handshakes parse a payload exactly when it was written by their peer.

  \<^bold>\<open>Visibility.\<close>  \<open>vis_wf\<close> ties the word array and the counter of a graph to \<open>opaque_cells\<close>; \<open>free_step\<close> moves
  between neighbouring free cells in coordinates, without the index arithmetic of the code.  The loop of the flood
  fill is a partial function into option; it is shown to return, its queue of 4096 slots never overflows because no
  cell enters it twice, and what it collects is one pocket of \<open>free_step\<close>.

  \<^bold>\<open>Path search.\<close>  The loop of the search is a total function: every turn visits a node below the limit or takes a
  stale entry from the heap.  The ghost of a run is the order in which nodes were closed; every record points to
  a node closed before it, so the walk back over the records, a partial function, ends at the start.  Nothing is
  assumed of the costs: the results hold for infinities and NaNs too.

  \<^bold>\<open>Bounds.\<close>  The generations of the tickets have 64 bits and are taken not to run out.  Levels lie below 16, the level count of both engines, so keys fit the graph's bytes.  The
  run loop is recursion over the budget.  \<open>run_all_updates\<close> is a partial function into option: for block
  light it is shown to return; for sky light a run with any budget returns.  The scan of a column, the
  search for stored sections below and the climb above a block recurse over distances that the recorded
  heights bound; the climb needs that no section is stored at the very highest section height.

  \<^bold>\<open>Not modelled.\<close>  \<open>f64\<close> arithmetic (vectors, boxes, rays, animation phases, real positions in the
  topology), elapsed times (a build without performance diagnostics reports zero), serialisation glue,
  and every crate that renders, plays sound, reads input or generates
  terrain beyond its random source (whose floating-point draws are left out too), and the solar and
  climate computations of \<open>mclone-season\<close>.
  The rest of the server (the scheduler, which calls the light engine from worker threads and asks the
  tickets for levels, entities, persistence) is left out: its state is shared between threads and files.
  Of the protocol realm identifiers are left out, of the transports the socket threads, their diagnostics and the memory
  a decoder reserves before it reads.
\<close>

end
